(* ===== verification/RlcPrelude.thy ===== *)
theory RlcPrelude
  imports Main "HOL-Library.Word"
begin

text \<open>
  Shared vocabulary of the RLC/MAC development: the result codes of
  \<^verbatim>\<open>RlcMacResult.h\<close> and \<^verbatim>\<open>JCErr.h\<close>, the constants of \<^verbatim>\<open>RlcMacCommon.h\<close>,
  and the way a sequence of calls that return a result code is composed.

  A C++ operation on an object of type \<open>'s\<close> that returns an \<open>RlcMacResult\<close> is a \<open>'s step\<close>:
  \<open>None\<close> when the code would touch memory outside one of its fixed-size arrays (undefined
  behaviour in C++), otherwise the returned code with the object as the call leaves it.
\<close>

section \<open>Result codes and constants\<close>

type_synonym octet = "8 word"

datatype RlcMacResult =
    RLC_MAC_SUCCESS
  | RLC_MAC_ERROR
  | RLC_MAC_INVALID_NUM_BITS
  | RLC_MAC_PARAMETER_RANGE_ERROR
  | RLC_MAC_MISSING_IE
  | RLC_MAC_INVALID_IE

datatype JC_STATUS = JC_OK | JC_ERROR

datatype LinkDirection = DL | UL

abbreviation (input) MAX_TFI :: nat where "MAX_TFI \<equiv> 32"
abbreviation (input) MAX_TIMESLOTS :: nat where "MAX_TIMESLOTS \<equiv> 8"
abbreviation (input) MAX_TRX :: nat where "MAX_TRX \<equiv> 2"
abbreviation (input) MAX_USF_PER_TS :: nat where "MAX_USF_PER_TS \<equiv> 8"
abbreviation (input) MAX_TAI_PER_TS :: nat where "MAX_TAI_PER_TS \<equiv> 16"
abbreviation (input) RLC_MOD_VAL :: nat where "RLC_MOD_VAL \<equiv> 128"
abbreviation (input) MAX_RLC_PDU_SIZE :: nat where "MAX_RLC_PDU_SIZE \<equiv> 1560"

section \<open>Calls that return a result code\<close>

type_synonym 's step = "'s \<Rightarrow> (RlcMacResult \<times> 's) option"

text \<open>
  \<open>run_checked\<close> is a sequence of calls each followed by \<^verbatim>\<open>RLC_MAC_RESULT_CHECK\<close>: the first
  code other than success is returned at once, with the object as it is then.
  \<open>run_ignored\<close> is a sequence of calls whose codes the source drops; the caller then returns
  its own \<open>result\<close>, initialised to success and never assigned.
\<close>

fun run_checked :: "'s step list \<Rightarrow> 's step" where
  "run_checked [] s = Some (RLC_MAC_SUCCESS, s)"
| "run_checked (f # fs) s =
     (case f s of
        None \<Rightarrow> None
      | Some (r, s') \<Rightarrow> if r = RLC_MAC_SUCCESS then run_checked fs s' else Some (r, s'))"

fun run_ignored :: "'s step list \<Rightarrow> 's step" where
  "run_ignored [] s = Some (RLC_MAC_SUCCESS, s)"
| "run_ignored (f # fs) s =
     (case f s of
        None \<Rightarrow> None
      | Some (_, s') \<Rightarrow> run_ignored fs s')"

lemma run_checked_append:
  "run_checked (fs @ gs) s =
     (case run_checked fs s of
        None \<Rightarrow> None
      | Some (r, s') \<Rightarrow> if r = RLC_MAC_SUCCESS then run_checked gs s' else Some (r, s'))"
  by (induction fs arbitrary: s) (auto split: option.splits)

lemma run_ignored_append:
  "run_ignored (fs @ gs) s =
     (case run_ignored fs s of None \<Rightarrow> None | Some (_, s') \<Rightarrow> run_ignored gs s')"
  by (induction fs arbitrary: s) (auto split: option.splits)

lemma run_ignored_result: "run_ignored fs s = Some (r, s') \<Longrightarrow> r = RLC_MAC_SUCCESS"
  by (induction fs arbitrary: s) (auto split: option.splits)

section \<open>Fixed-size arrays\<close>

text \<open>An assignment \<open>a[i] = x\<close> to an array: \<open>None\<close> when \<open>i\<close> is outside it.\<close>

definition write_at :: "nat \<Rightarrow> 'a \<Rightarrow> 'a list \<Rightarrow> 'a list option" where
  "write_at i x xs = (if i < length xs then Some (xs[i := x]) else None)"

definition read_at :: "nat \<Rightarrow> 'a list \<Rightarrow> 'a option" where
  "read_at i xs = (if i < length xs then Some (xs ! i) else None)"

lemma write_at_in [simp]: "i < length xs \<Longrightarrow> write_at i x xs = Some (xs[i := x])"
  by (simp add: write_at_def)

lemma write_at_out [simp]: "length xs \<le> i \<Longrightarrow> write_at i x xs = None"
  by (simp add: write_at_def)

lemma nth_update_if: "j < length xs \<Longrightarrow> xs[i := x] ! j = (if i = j then x else xs ! j)"
  by simp

lemma write_at_None_iff: "write_at i x xs = None \<longleftrightarrow> length xs \<le> i"
  by (simp add: write_at_def)

lemma write_at_SomeD: "write_at i x xs = Some ys \<Longrightarrow> i < length xs \<and> ys = xs[i := x]"
  by (simp add: write_at_def split: if_splits)

lemma read_at_in [simp]: "i < length xs \<Longrightarrow> read_at i xs = Some (xs ! i)"
  by (simp add: read_at_def)

lemma read_at_out [simp]: "length xs \<le> i \<Longrightarrow> read_at i xs = None"
  by (simp add: read_at_def)

end
