(* ===== verification/BitStream.thy ===== *)
theory BitStream
  imports RlcPrelude
begin

text \<open>
  The bit streams of \<^verbatim>\<open>Rlc_mac/include/bitstream.h\<close> and \<^verbatim>\<open>Rlc_mac/src/bitstream.cpp\<close>:
  \<open>BitStreamOut\<close> packs fields of up to 32 bits, most significant bit first, into a buffer of
  53 octets; \<open>BitStreamIn\<close> reads them back.  The abstract content of a stream is a list of
  bits.  Each operation is given with its exact effect on that list, and two interfaces
  (\<open>bit_sink\<close>, \<open>bit_source\<close>) carry the laws to the encoders and decoders built on them.
\<close>

unbundle bit_operations_syntax

section \<open>The buffer as a sequence of bits\<close>

abbreviation (input) MAX_BITSTREAM :: nat where "MAX_BITSTREAM \<equiv> 53"

text \<open>Bit \<open>i\<close> of a list of octets, numbered from the most significant bit of the first.\<close>

definition sbit :: "octet list \<Rightarrow> nat \<Rightarrow> bool" where
  "sbit d i = bit (d ! (i div 8)) (7 - i mod 8)"

text \<open>The \<open>n\<close> low bits of a word, most significant first.\<close>

definition field :: "nat \<Rightarrow> 'a::len word \<Rightarrow> bool list" where
  "field n w = map (\<lambda>j. bit w (n - 1 - j)) [0..<n]"

definition bits_between :: "octet list \<Rightarrow> nat \<Rightarrow> nat \<Rightarrow> bool list" where
  "bits_between d a n = map (\<lambda>j. sbit d (a + j)) [0..<n]"

lemma length_field [simp]: "length (field n w) = n"
  by (simp add: field_def)

lemma length_bits_between [simp]: "length (bits_between d a n) = n"
  by (simp add: bits_between_def)

lemma nth_field [simp]: "j < n \<Longrightarrow> field n w ! j = bit w (n - 1 - j)"
  by (simp add: field_def)

lemma nth_bits_between [simp]: "j < n \<Longrightarrow> bits_between d a n ! j = sbit d (a + j)"
  by (simp add: bits_between_def)

lemma field_0 [simp]: "field 0 w = []"
  by (simp add: field_def)

lemma bits_between_0 [simp]: "bits_between d a 0 = []"
  by (simp add: bits_between_def)

lemma bits_between_add:
  "bits_between d a (m + n) = bits_between d a m @ bits_between d (a + m) n"
  by (rule nth_equalityI) (auto simp: nth_append add.assoc)

text \<open>A word below \<open>2 ^ n\<close> has no bit at or above position \<open>n\<close>.\<close>

lemma bit_above:
  fixes u :: "'a::len word"
  assumes "unat u < 2 ^ n" "n \<le> m"
  shows "\<not> bit u m"
proof
  assume "bit u m"
  then have "bit (unat u) m" by (simp add: bit_unsigned_iff)
  moreover have "take_bit n (unat u) = unat u"
    using assms(1) by (simp add: take_bit_nat_eq_self)
  ultimately have "bit (take_bit n (unat u)) m" by simp
  then show False using assms(2) by (simp add: bit_take_bit_iff)
qed

lemma field_inject:
  fixes v w :: "'a::len word"
  assumes "field n v = field n w" "unat v < 2 ^ n" "unat w < 2 ^ n"
  shows "v = w"
proof (rule bit_word_eqI)
  fix m assume m: "m < LENGTH('a)"
  show "bit v m \<longleftrightarrow> bit w m"
  proof (cases "m < n")
    case True
    from assms(1) have "field n v ! (n - 1 - m) = field n w ! (n - 1 - m)" by simp
    with True show ?thesis by simp
  next
    case False
    with bit_above [OF assms(2)] bit_above [OF assms(3)] show ?thesis by simp
  qed
qed

section \<open>BitStreamOut\<close>

record BitStreamOut =
  out_dataStream :: "octet list"
  out_bitPointer :: nat
  out_streamLen :: nat

definition BitStreamOut_new :: BitStreamOut where
  "BitStreamOut_new =
     \<lparr>out_dataStream = replicate MAX_BITSTREAM 0, out_bitPointer = 0, out_streamLen = 0\<rparr>"

definition ClearBitStream :: "BitStreamOut \<Rightarrow> BitStreamOut" where
  "ClearBitStream s =
     s\<lparr>out_dataStream := replicate MAX_BITSTREAM 0, out_bitPointer := 0, out_streamLen := 0\<rparr>"

definition ResetBitPointer :: "BitStreamOut \<Rightarrow> BitStreamOut" where
  "ResetBitPointer s = s\<lparr>out_bitPointer := 0, out_streamLen := 0\<rparr>"

text \<open>\<^verbatim>\<open>dataStream[i] |= x\<close>.\<close>

definition or_at :: "nat \<Rightarrow> octet \<Rightarrow> octet list \<Rightarrow> octet list option" where
  "or_at i x d = (if i < length d then Some (d[i := d ! i OR x]) else None)"

definition InsertBits8 :: "octet \<Rightarrow> nat \<Rightarrow> BitStreamOut step" where
  "InsertBits8 bits numBits s =
     (if numBits \<le> 8 then
        let bitShift = 8 - int (out_bitPointer s mod 8) - int numBits;
            i = out_streamLen s;
            written =
              (if bitShift \<ge> 0 then or_at i (push_bit (nat bitShift) bits) (out_dataStream s)
               else case or_at i (drop_bit (nat (- bitShift)) bits) (out_dataStream s) of
                      None \<Rightarrow> None
                    | Some d \<Rightarrow> or_at (i + 1) (push_bit (nat (8 + bitShift)) bits) d);
            p = out_bitPointer s + numBits
        in map_option (\<lambda>d. (RLC_MAC_SUCCESS,
             s\<lparr>out_dataStream := d, out_bitPointer := p, out_streamLen := p div 8\<rparr>)) written
      else Some (RLC_MAC_INVALID_NUM_BITS, s))"

text \<open>
  The loop of \<open>InsertBits16\<close> and \<open>InsertBits32\<close>: the leading \<open>numBits % 8\<close> bits first, then
  whole octets; \<open>result\<close> is the code of the last \<open>InsertBits8\<close>.
\<close>

fun InsertLoop :: "RlcMacResult \<Rightarrow> 'a::len word \<Rightarrow> nat \<Rightarrow> BitStreamOut step" where
  "InsertLoop result bits numBits s =
     (if numBits = 0 then Some (result, s)
      else let cur = (if numBits mod 8 \<noteq> 0 then numBits mod 8 else 8)
           in case InsertBits8 (ucast (drop_bit (numBits - cur) bits)) cur s of
                None \<Rightarrow> None
              | Some (r, s') \<Rightarrow> InsertLoop r bits (numBits - cur) s')"

declare InsertLoop.simps [simp del]

definition InsertBits16 :: "16 word \<Rightarrow> nat \<Rightarrow> BitStreamOut step" where
  "InsertBits16 bits numBits s =
     (if numBits \<le> 16 then InsertLoop RLC_MAC_SUCCESS bits numBits s
      else Some (RLC_MAC_INVALID_NUM_BITS, s))"

definition InsertBits32 :: "32 word \<Rightarrow> nat \<Rightarrow> BitStreamOut step" where
  "InsertBits32 bits numBits s =
     (if numBits \<le> 32 then InsertLoop RLC_MAC_SUCCESS bits numBits s
      else Some (RLC_MAC_INVALID_NUM_BITS, s))"

text \<open>\<open>bytes\<close> is the caller's array; reading past its end is \<open>None\<close> too.\<close>

fun InsertBytesLoop :: "RlcMacResult \<Rightarrow> octet list \<Rightarrow> nat \<Rightarrow> BitStreamOut step" where
  "InsertBytesLoop result bytes 0 s = Some (result, s)"
| "InsertBytesLoop result [] (Suc n) s = None"
| "InsertBytesLoop result (b # bytes) (Suc n) s =
     (case InsertBits8 b 8 s of
        None \<Rightarrow> None
      | Some (r, s') \<Rightarrow> InsertBytesLoop r bytes n s')"

definition InsertBytesN :: "octet list \<Rightarrow> nat \<Rightarrow> BitStreamOut step" where
  "InsertBytesN bytes numBytes s = InsertBytesLoop RLC_MAC_SUCCESS bytes numBytes s"

definition PadToOctetBoundary :: "BitStreamOut \<Rightarrow> BitStreamOut option" where
  "PadToOctetBoundary s =
     (case or_at (out_streamLen s) (drop_bit (out_bitPointer s mod 8) 0xff AND 0x2b)
             (out_dataStream s) of
        None \<Rightarrow> None
      | Some d \<Rightarrow>
          let p = out_bitPointer s +
                    (if out_bitPointer s mod 8 \<noteq> 0 then 8 - out_bitPointer s mod 8 else 0)
          in Some (s\<lparr>out_dataStream := d, out_bitPointer := p, out_streamLen := p div 8\<rparr>))"

function PadLoop :: "nat \<Rightarrow> BitStreamOut \<Rightarrow> BitStreamOut option" where
  "PadLoop len s =
     (if out_streamLen s < len then
        case write_at (out_streamLen s) 0x2b (out_dataStream s) of
          None \<Rightarrow> None
        | Some d \<Rightarrow> PadLoop len (s\<lparr>out_dataStream := d, out_streamLen := out_streamLen s + 1,
                                  out_bitPointer := out_bitPointer s + 8\<rparr>)
      else Some s)"
  by pat_completeness auto
termination
  by (relation "measure (\<lambda>(len, s). len - out_streamLen s)") auto

declare PadLoop.simps [simp del]

definition PadWithSparePadding :: "nat \<Rightarrow> BitStreamOut \<Rightarrow> BitStreamOut option" where
  "PadWithSparePadding len s =
     (case PadToOctetBoundary s of None \<Rightarrow> None | Some s' \<Rightarrow> PadLoop len s')"

section \<open>BitStreamIn\<close>

record BitStreamIn =
  in_dataStream :: "octet list"
  in_bitPointer :: nat
  in_streamLen :: nat
  in_currByte :: nat

text \<open>
  \<open>InitBitStreamIn\<close> copies \<open>dataLen\<close> octets into the object's array of 53 octets, whose other
  octets keep what they held (\<open>old\<close>).
\<close>

definition InitBitStreamIn :: "octet list \<Rightarrow> octet list \<Rightarrow> BitStreamIn option" where
  "InitBitStreamIn old dat =
     (if length dat \<le> MAX_BITSTREAM then
        Some \<lparr>in_dataStream = dat @ drop (length dat) old, in_bitPointer = 0,
              in_streamLen = length dat, in_currByte = 0\<rparr>
      else None)"

definition ResetInPointer :: "BitStreamIn \<Rightarrow> BitStreamIn" where
  "ResetInPointer s = s\<lparr>in_bitPointer := 0, in_currByte := 0\<rparr>"

text \<open>
  The extraction operations have an out parameter: the value is \<open>Some\<close> where the source assigns
  it, \<open>None\<close> where it returns with the parameter untouched.
\<close>

type_synonym 'v extraction = "(RlcMacResult \<times> 'v option \<times> BitStreamIn) option"

definition ExtractBits8 :: "nat \<Rightarrow> BitStreamIn \<Rightarrow> octet extraction" where
  "ExtractBits8 numBits s =
     (if (in_bitPointer s + numBits) div 8 > in_streamLen s then Some (RLC_MAC_ERROR, None, s)
      else if numBits \<le> 8 then
        let bitShift = 8 - int (in_bitPointer s mod 8) - int numBits;
            c = in_currByte s;
            p = in_bitPointer s + numBits;
            value =
              (if bitShift \<ge> 0 then
                 map_option (\<lambda>b. drop_bit (nat bitShift) b AND drop_bit (8 - numBits) 0xff)
                   (read_at c (in_dataStream s))
               else case (read_at c (in_dataStream s), read_at (c + 1) (in_dataStream s)) of
                      (Some b0, Some b1) \<Rightarrow>
                        Some ((push_bit (nat (- bitShift)) b0 OR drop_bit (nat (8 + bitShift)) b1)
                              AND drop_bit (8 - numBits) 0xff)
                    | _ \<Rightarrow> None)
        in map_option (\<lambda>v. (RLC_MAC_SUCCESS, Some v,
             s\<lparr>in_bitPointer := p, in_currByte := p div 8\<rparr>)) value
      else Some (RLC_MAC_INVALID_NUM_BITS, None, s))"

fun ExtractLoop ::
  "RlcMacResult \<Rightarrow> 'a::len word \<Rightarrow> nat \<Rightarrow> BitStreamIn \<Rightarrow> 'a word extraction" where
  "ExtractLoop result acc numBits s =
     (if numBits = 0 then Some (result, Some acc, s)
      else let cur = (if numBits mod 8 \<noteq> 0 then numBits mod 8 else 8)
           in case ExtractBits8 cur s of
                Some (r, Some aByte, s') \<Rightarrow>
                  ExtractLoop r (acc OR push_bit (8 * ((numBits - 1) div 8)) (ucast aByte))
                    (numBits - cur) s'
              | _ \<Rightarrow> None)"

declare ExtractLoop.simps [simp del]

definition ExtractBits16 :: "nat \<Rightarrow> BitStreamIn \<Rightarrow> 16 word extraction" where
  "ExtractBits16 numBits s =
     (if (in_bitPointer s + numBits) div 8 > in_streamLen s then Some (RLC_MAC_ERROR, None, s)
      else if numBits \<le> 16 then ExtractLoop RLC_MAC_SUCCESS 0 numBits s
      else Some (RLC_MAC_INVALID_NUM_BITS, None, s))"

definition ExtractBits32 :: "nat \<Rightarrow> BitStreamIn \<Rightarrow> 32 word extraction" where
  "ExtractBits32 numBits s =
     (if (in_bitPointer s + numBits) div 8 > in_streamLen s then Some (RLC_MAC_ERROR, None, s)
      else if numBits \<le> 32 then ExtractLoop RLC_MAC_SUCCESS 0 numBits s
      else Some (RLC_MAC_INVALID_NUM_BITS, None, s))"

fun ExtractBytesLoop :: "RlcMacResult \<Rightarrow> octet list \<Rightarrow> nat \<Rightarrow> BitStreamIn \<Rightarrow> octet list extraction" where
  "ExtractBytesLoop result acc 0 s = Some (result, Some acc, s)"
| "ExtractBytesLoop result acc (Suc n) s =
     (case ExtractBits8 8 s of
        Some (r, Some b, s') \<Rightarrow> ExtractBytesLoop r (acc @ [b]) n s'
      | _ \<Rightarrow> None)"

text \<open>\<open>numBytes\<close> is a C++ \<open>int\<close> that the reassembly code computes by subtraction: it may be negative.\<close>

definition ExtractBytesN :: "int \<Rightarrow> BitStreamIn \<Rightarrow> octet list extraction" where
  "ExtractBytesN numBytes s =
     (if (int (in_bitPointer s) + numBytes * 8) div 8 > int (in_streamLen s)
      then Some (RLC_MAC_ERROR, None, s)
      else ExtractBytesLoop RLC_MAC_SUCCESS [] (nat numBytes) s)"

section \<open>Effect of the output operations\<close>

text \<open>
  A well-formed output stream: the octet count follows the bit pointer and nothing has been
  written past the pointer, which is what the or-assignments rely on.
\<close>

definition out_wf :: "BitStreamOut \<Rightarrow> bool" where
  "out_wf s \<longleftrightarrow> length (out_dataStream s) = MAX_BITSTREAM \<and>
     out_streamLen s = out_bitPointer s div 8 \<and>
     (\<forall>i. out_bitPointer s \<le> i \<longrightarrow> i < 8 * MAX_BITSTREAM \<longrightarrow> \<not> sbit (out_dataStream s) i)"

definition out_bits :: "BitStreamOut \<Rightarrow> bool list" where
  "out_bits s = bits_between (out_dataStream s) 0 (out_bitPointer s)"

lemma out_wf_new [simp]: "out_wf BitStreamOut_new" "out_bits BitStreamOut_new = []"
  "out_bitPointer BitStreamOut_new = 0"
  by (simp_all add: out_wf_def out_bits_def BitStreamOut_new_def sbit_def)

lemma out_wf_Clear [simp]: "out_wf (ClearBitStream s)" "out_bits (ClearBitStream s) = []"
  by (simp_all add: out_wf_def out_bits_def ClearBitStream_def sbit_def)

lemma length_out_bits [simp]: "length (out_bits s) = out_bitPointer s"
  by (simp add: out_bits_def)

lemma sbit_update:
  assumes "k < length d"
  shows "sbit (d[k := x]) i = (if i div 8 = k then bit x (7 - i mod 8) else sbit d i)"
  using assms by (simp add: sbit_def nth_list_update)

lemma or_at_Some: "i < length d \<Longrightarrow> or_at i x d = Some (d[i := d ! i OR x])"
  by (simp add: or_at_def)

lemma sbit_or_at:
  assumes "k < length d"
  shows "sbit (d[k := d ! k OR x]) i = (sbit d i \<or> i div 8 = k \<and> bit x (7 - i mod 8))"
  using assms by (cases "i div 8 = k") (simp_all add: sbit_update, simp add: sbit_def bit_or_iff)

text \<open>The bits that \<open>InsertBits8\<close> sets, whatever lies above the low \<open>n\<close> bits of its argument.\<close>

definition set_by_insert :: "octet \<Rightarrow> nat \<Rightarrow> nat \<Rightarrow> nat \<Rightarrow> bool" where
  "set_by_insert w p n i \<longleftrightarrow> p div 8 \<le> i div 8 \<and> i < p + n \<and> bit w (p + n - 1 - i)"

lemma set_by_insert_one:
  fixes w :: octet
  assumes "r + n \<le> 8" "r < 8" "t < 8"
  shows "(q = b \<and> bit (push_bit (8 - r - n) w) (7 - t)) = set_by_insert w (8 * b + r) n (8 * q + t)"
proof (cases "q = b")
  case True
  have e: "7 - t - (8 - r - n) = r + n - 1 - t" and
    l: "8 - r - n \<le> 7 - t \<longleftrightarrow> t < r + n" if "t < r + n" using that assms by auto
  have l': "8 - r - n \<le> 7 - t \<longleftrightarrow> t < r + n" using assms by auto
  show ?thesis using True assms e l'
    by (auto simp: set_by_insert_def bit_push_bit_iff)
next
  case False
  then show ?thesis using assms by (auto simp: set_by_insert_def)
qed

lemma set_by_insert_two:
  fixes w :: octet
  assumes "8 < r + n" "n \<le> 8" "r < 8" "t < 8"
  shows "(q = b \<and> bit (drop_bit (r + n - 8) w) (7 - t) \<or>
          q = b + 1 \<and> bit (push_bit (16 - r - n) w) (7 - t)) =
         set_by_insert w (8 * b + r) n (8 * q + t)"
proof -
  consider "q < b" | "q = b" | "q = b + 1" | "q > b + 1" by linarith
  then show ?thesis
  proof cases
    case 2
    have "r + n - 8 + (7 - t) = r + n - 1 - t" using assms by auto
    with 2 assms show ?thesis by (auto simp: set_by_insert_def bit_drop_bit_eq)
  next
    case 3
    have e: "7 - t - (16 - r - n) = 8 * b + r + n - 1 - (8 * (b + 1) + t)" if "t + 8 < r + n"
      using that assms by auto
    have l: "16 - r - n \<le> 7 - t \<longleftrightarrow> t + 8 < r + n" using assms by auto
    show ?thesis using 3 assms e l by (auto simp: set_by_insert_def bit_push_bit_iff)
  qed (use assms in \<open>auto simp: set_by_insert_def\<close>)
qed

lemma InsertBits8_raw:
  assumes len: "length (out_dataStream s) = MAX_BITSTREAM"
    and sl: "out_streamLen s = out_bitPointer s div 8"
    and n: "n \<le> 8" and room: "out_bitPointer s + n \<le> 8 * MAX_BITSTREAM"
    and room0: "out_bitPointer s < 8 * MAX_BITSTREAM"
  shows "\<exists>d. InsertBits8 w n s = Some (RLC_MAC_SUCCESS, s\<lparr>out_dataStream := d,
             out_bitPointer := out_bitPointer s + n,
             out_streamLen := (out_bitPointer s + n) div 8\<rparr>) \<and>
           length d = MAX_BITSTREAM \<and>
           (\<forall>i. sbit d i \<longleftrightarrow> sbit (out_dataStream s) i \<or> set_by_insert w (out_bitPointer s) n i)"
proof -
  define b where "b = out_bitPointer s div 8"
  define r where "r = out_bitPointer s mod 8"
  have p: "out_bitPointer s = 8 * b + r" and r: "r < 8" by (auto simp: b_def r_def)
  let ?d = "out_dataStream s"
  have bl: "b < length ?d" using room0 len by (auto simp: b_def)
  have i: "i = 8 * (i div 8) + i mod 8" for i :: nat by simp
  show ?thesis
  proof (cases "r + n \<le> 8")
    case True
    let ?x = "push_bit (8 - r - n) w"
    have bs: "8 - int r - int n \<ge> 0" "nat (8 - int r - int n) = 8 - r - n" using True by auto
    have "sbit (?d[b := ?d ! b OR ?x]) i \<longleftrightarrow> sbit ?d i \<or> set_by_insert w (8 * b + r) n i" for i
      using set_by_insert_one [OF True r, of "i mod 8" "i div 8" b w] bl
      by (simp add: sbit_or_at)
    then show ?thesis
      using n bs bl len sl
      by (intro exI [of _ "?d[b := ?d ! b OR ?x]"])
        (simp add: InsertBits8_def Let_def or_at_Some flip: b_def r_def, simp add: p)
  next
    case False
    let ?x = "drop_bit (r + n - 8) w" and ?y = "push_bit (16 - r - n) w"
    have bs: "\<not> 8 - int r - int n \<ge> 0" "nat (- (8 - int r - int n)) = r + n - 8"
      "nat (8 + (8 - int r - int n)) = 16 - r - n" using False n r by auto
    have b1: "b + 1 < length ?d" using room False len p by auto
    define d1 where "d1 = ?d[b := ?d ! b OR ?x]"
    have d1: "length d1 = length ?d" by (simp add: d1_def)
    have "sbit (d1[b + 1 := d1 ! (b + 1) OR ?y]) i \<longleftrightarrow>
            sbit ?d i \<or> set_by_insert w (8 * b + r) n i" for i
    proof -
      have "sbit (d1[b + 1 := d1 ! (b + 1) OR ?y]) i =
              (sbit d1 i \<or> i div 8 = b + 1 \<and> bit ?y (7 - i mod 8))"
        using b1 d1 by (intro sbit_or_at) simp
      moreover have "sbit d1 i = (sbit ?d i \<or> i div 8 = b \<and> bit ?x (7 - i mod 8))"
        unfolding d1_def by (rule sbit_or_at [OF bl])
      ultimately show ?thesis
        using set_by_insert_two [of r n "i mod 8" "i div 8" b w] False n r by auto
    qed
    then show ?thesis
      using n bs bl b1 len sl
      by (intro exI [of _ "d1[b + 1 := d1 ! (b + 1) OR ?y]"])
        (simp add: InsertBits8_def Let_def or_at_Some d1 flip: b_def r_def d1_def, simp add: p)
  qed
qed


lemma InsertBits8_field:
  assumes wf: "out_wf s" and n: "n \<le> 8" and w: "unat w < 2 ^ n"
    and room: "out_bitPointer s + n \<le> 8 * MAX_BITSTREAM" "out_bitPointer s < 8 * MAX_BITSTREAM"
  shows "\<exists>s'. InsertBits8 w n s = Some (RLC_MAC_SUCCESS, s') \<and> out_wf s' \<and>
           out_bits s' = out_bits s @ field n w"
proof -
  let ?p = "out_bitPointer s"
  obtain d where ins: "InsertBits8 w n s = Some (RLC_MAC_SUCCESS, s\<lparr>out_dataStream := d,
             out_bitPointer := ?p + n, out_streamLen := (?p + n) div 8\<rparr>)"
    and len: "length d = MAX_BITSTREAM"
    and d: "\<And>i. sbit d i \<longleftrightarrow> sbit (out_dataStream s) i \<or> set_by_insert w ?p n i"
    using InsertBits8_raw [of s n w] wf n room unfolding out_wf_def by blast
  have no: "\<not> bit w m" if "n \<le> m" for m using bit_above [OF w that] .
  have before: "sbit d i = sbit (out_dataStream s) i" if "i < ?p" for i
    using d [of i] no [of "?p + n - 1 - i"] that by (auto simp: set_by_insert_def)
  have new: "sbit d (?p + j) = bit w (n - 1 - j)" if "j < n" for j
    using d [of "?p + j"] wf room that by (auto simp: set_by_insert_def out_wf_def intro: div_le_mono)
  have after: "\<not> sbit d i" if "?p + n \<le> i" "i < 8 * MAX_BITSTREAM" for i
    using d [of i] wf that by (auto simp: set_by_insert_def out_wf_def)
  have "bits_between d 0 ?p = bits_between (out_dataStream s) 0 ?p" "bits_between d ?p n = field n w"
    by (auto intro!: nth_equalityI simp: before new)
  then have "bits_between d 0 (?p + n) = bits_between (out_dataStream s) 0 ?p @ field n w"
    by (simp add: bits_between_add)
  then show ?thesis
    using ins len after by (auto simp: out_wf_def out_bits_def)
qed

lemma out_wf_capacity: "out_wf s \<Longrightarrow> InsertBits8 w n s = Some (r, s') \<Longrightarrow>
    n \<le> 8 \<Longrightarrow> out_bitPointer s' = out_bitPointer s + n"
  by (auto simp: InsertBits8_def Let_def)

section \<open>Interface: a sink of bits\<close>

text \<open>A list of fields, each an octet with the number of its low bits that are sent.\<close>

definition fields_bits :: "(octet \<times> nat) list \<Rightarrow> bool list" where
  "fields_bits fs = concat (map (\<lambda>(w, n). field n w) fs)"

definition fields_fit :: "(octet \<times> nat) list \<Rightarrow> bool" where
  "fields_fit fs \<longleftrightarrow> (\<forall>(w, n) \<in> set fs. 0 < n \<and> n \<le> 8 \<and> unat w < 2 ^ n)"

lemma fields_bits_Nil [simp]: "fields_bits [] = []"
  and fields_bits_Cons [simp]: "fields_bits ((w, n) # fs) = field n w @ fields_bits fs"
  and fields_bits_append [simp]: "fields_bits (fs @ gs) = fields_bits fs @ fields_bits gs"
  by (simp_all add: fields_bits_def)

lemma fields_fit_Nil [simp]: "fields_fit []"
  and fields_fit_Cons [simp]:
    "fields_fit ((w, n) # fs) \<longleftrightarrow> 0 < n \<and> n \<le> 8 \<and> unat w < 2 ^ n \<and> fields_fit fs"
  and fields_fit_append [simp]: "fields_fit (fs @ gs) \<longleftrightarrow> fields_fit fs \<and> fields_fit gs"
  by (auto simp: fields_fit_def)

lemma length_fields_bits: "length (fields_bits fs) = sum_list (map snd fs)"
  by (induction fs) auto

locale bit_sink =
  fixes put :: "octet \<Rightarrow> nat \<Rightarrow> 's \<Rightarrow> (RlcMacResult \<times> 's) option"
    and content :: "'s \<Rightarrow> bool list"
    and wf :: "'s \<Rightarrow> bool"
    and capacity :: nat
  assumes put_ok:
    "wf s \<Longrightarrow> 0 < n \<Longrightarrow> n \<le> 8 \<Longrightarrow> unat w < 2 ^ n \<Longrightarrow> length (content s) + n \<le> capacity \<Longrightarrow>
       \<exists>s'. put w n s = Some (RLC_MAC_SUCCESS, s') \<and> wf s' \<and> content s' = content s @ field n w"
begin

text \<open>Writing a list of fields that fits appends exactly their bits, whether codes are checked or not.\<close>

lemma put_fields:
  assumes "wf s" "fields_fit fs" "length (content s) + length (fields_bits fs) \<le> capacity"
  shows "\<exists>s'. run_ignored (map (\<lambda>(w, n). put w n) fs) s = Some (RLC_MAC_SUCCESS, s') \<and>
           run_checked (map (\<lambda>(w, n). put w n) fs) s = Some (RLC_MAC_SUCCESS, s') \<and>
           wf s' \<and> content s' = content s @ fields_bits fs"
  using assms
proof (induction fs arbitrary: s)
  case Nil
  then show ?case by simp
next
  case (Cons f fs)
  obtain w n where f: "f = (w, n)" by fastforce
  with Cons.prems obtain s1 where
    s1: "put w n s = Some (RLC_MAC_SUCCESS, s1)" "wf s1" "content s1 = content s @ field n w"
    using put_ok [of s n w] by auto
  with Cons.prems f Cons.IH [of s1] show ?case by auto
qed

end

interpretation out: bit_sink InsertBits8 out_bits out_wf "8 * MAX_BITSTREAM"
  by unfold_locales (rule InsertBits8_field, auto)


section \<open>Effect of the input operations\<close>

definition in_wf :: "BitStreamIn \<Rightarrow> bool" where
  "in_wf s \<longleftrightarrow> length (in_dataStream s) = MAX_BITSTREAM \<and> in_streamLen s \<le> MAX_BITSTREAM \<and>
     in_currByte s = in_bitPointer s div 8 \<and> in_bitPointer s \<le> 8 * in_streamLen s"

text \<open>The bits of the stream that have not been read.\<close>

definition in_rest :: "BitStreamIn \<Rightarrow> bool list" where
  "in_rest s = bits_between (in_dataStream s) (in_bitPointer s) (8 * in_streamLen s - in_bitPointer s)"

lemma length_in_rest [simp]: "length (in_rest s) = 8 * in_streamLen s - in_bitPointer s"
  by (simp add: in_rest_def)

lemma in_wf_Init:
  assumes "length old = MAX_BITSTREAM" "length dat \<le> MAX_BITSTREAM"
  shows "\<exists>s. InitBitStreamIn old dat = Some s \<and> in_wf s \<and>
           in_rest s = bits_between dat 0 (8 * length dat)"
proof -
  have "sbit (dat @ drop (length dat) old) i = sbit dat i" if "i < 8 * length dat" for i
    using that by (auto simp: sbit_def nth_append less_mult_imp_div_less)
  then show ?thesis
    using assms by (auto simp: InitBitStreamIn_def in_wf_def in_rest_def intro!: nth_equalityI)
qed

lemma bit_ff [simp]: "bit (0xff :: octet) k \<longleftrightarrow> k < 8"
proof -
  have "(0xff :: octet) = mask 8" by (simp add: mask_eq_exp_minus_1)
  show ?thesis unfolding \<open>(0xff :: octet) = mask 8\<close> by (auto simp: bit_mask_iff)
qed

lemma unat_less_from_bits:
  fixes v :: "'a::len word"
  assumes "\<And>m. n \<le> m \<Longrightarrow> \<not> bit v m"
  shows "unat v < 2 ^ n"
proof -
  have "take_bit n v = v"
    using assms by (intro bit_eqI) (auto simp: bit_take_bit_iff not_less [symmetric])
  then have "take_bit n (unat v) = unat v" by (metis unsigned_take_bit_eq)
  then show ?thesis by (metis take_bit_nat_less_exp)
qed

text \<open>A successful extraction of at most 8 bits inside the array returns exactly those bits.\<close>

lemma ExtractBits8_raw:
  assumes len: "length (in_dataStream s) = MAX_BITSTREAM"
    and cb: "in_currByte s = in_bitPointer s div 8" and n: "n \<le> 8" "0 < n"
    and room: "in_bitPointer s + n \<le> 8 * MAX_BITSTREAM"
    and avail: "(in_bitPointer s + n) div 8 \<le> in_streamLen s"
  shows "\<exists>v. ExtractBits8 n s = Some (RLC_MAC_SUCCESS, Some v, s\<lparr>in_bitPointer := in_bitPointer s + n,
             in_currByte := (in_bitPointer s + n) div 8\<rparr>) \<and>
           field n v = bits_between (in_dataStream s) (in_bitPointer s) n \<and> unat v < 2 ^ n"
proof -
  define b where "b = in_bitPointer s div 8"
  define r where "r = in_bitPointer s mod 8"
  have p: "in_bitPointer s = 8 * b + r" and r: "r < 8" by (auto simp: b_def r_def)
  let ?d = "in_dataStream s" and ?m = "drop_bit (8 - n) (0xff :: octet)"
  have bl: "b < length ?d" using room n len by (auto simp: b_def)
  have sb: "sbit ?d (8 * b + r + j) = (if r + j < 8 then bit (?d ! b) (7 - r - j)
              else bit (?d ! (b + 1)) (15 - r - j))" if "r + j < 16" for j
  proof (cases "r + j < 8")
    case True
    then have "(8 * b + r + j) div 8 = b" "(8 * b + r + j) mod 8 = r + j"
      by (simp_all add: add.assoc)
    with True show ?thesis by (simp add: sbit_def)
  next
    case False
    with that obtain t where t: "r + j = 8 + t" "t < 8" by (metis add.commute le_add_diff_inverse2
        less_diff_conv2 linorder_not_le mult_2 numeral_Bit0)
    then have "(8 * b + r + j) div 8 = b + 1" "(8 * b + r + j) mod 8 = r + j - 8"
      by (simp_all add: add.assoc)
    with False that show ?thesis by (simp add: sbit_def)
  qed
  show ?thesis
  proof (cases "r + n \<le> 8")
    case True
    define v where "v = drop_bit (8 - r - n) (?d ! b) AND ?m"
    have bs: "8 - int r - int n \<ge> 0" "nat (8 - int r - int n) = 8 - r - n" using True by auto
    have bv: "bit v m \<longleftrightarrow> m < n \<and> bit (?d ! b) (8 - r - n + m)" for m
      using n by (auto simp: v_def bit_and_iff bit_drop_bit_eq simp del: bit_numeral_word_iff)
    have "field n v = bits_between ?d (8 * b + r) n"
    proof (rule nth_equalityI)
      fix j assume "j < length (field n v)"
      then have j: "j < n" by simp
      then have "8 - r - n + (n - 1 - j) = 7 - r - j" using True by auto
      with j sb [of j] True show "field n v ! j = bits_between ?d (8 * b + r) n ! j"
        by (simp add: bv)
    qed simp
    moreover have "unat v < 2 ^ n" by (rule unat_less_from_bits) (simp add: bv)
    ultimately show ?thesis
      using n bs bl avail cb
      by (intro exI [of _ v]) (simp add: ExtractBits8_def Let_def flip: b_def r_def, simp add: p v_def)
  next
    case False
    define v where "v = (push_bit (r + n - 8) (?d ! b) OR drop_bit (16 - r - n) (?d ! (b + 1))) AND ?m"
    have bs: "\<not> 8 - int r - int n \<ge> 0" "nat (- (8 - int r - int n)) = r + n - 8"
      "nat (8 + (8 - int r - int n)) = 16 - r - n" using False n r by auto
    have b1: "b + 1 < length ?d" using room False len p by auto
    have hi: "\<not> bit (x :: octet) k" if "8 \<le> k" for x k using that bit_imp_le_length [of x k] by auto
    have bv: "bit v m \<longleftrightarrow> m < n \<and> (if r + n - 8 \<le> m then bit (?d ! b) (m - (r + n - 8))
                else bit (?d ! (b + 1)) (16 - r - n + m))" for m
      using n False r hi [of "16 - r - n + m" "?d ! (b + 1)"]
      by (auto simp: v_def bit_and_iff bit_or_iff bit_push_bit_iff bit_drop_bit_eq simp del: bit_numeral_word_iff)
    have "field n v = bits_between ?d (8 * b + r) n"
    proof (rule nth_equalityI)
      fix j assume "j < length (field n v)"
      then have j: "j < n" by simp
      have "r + j < 8 \<longleftrightarrow> r + n - 8 \<le> n - 1 - j" using j False r n by auto
      moreover have "n - 1 - j - (r + n - 8) = 7 - r - j" using j False by auto
      moreover have "16 - r - n + (n - 1 - j) = 15 - r - j" using j n r by auto
      ultimately show "field n v ! j = bits_between ?d (8 * b + r) n ! j"
        using j sb [of j] n r by (simp add: bv ac_simps)
    qed simp
    moreover have "unat v < 2 ^ n" by (rule unat_less_from_bits) (simp add: bv)
    ultimately show ?thesis
      using n bs bl b1 avail cb
      by (intro exI [of _ v]) (simp add: ExtractBits8_def Let_def flip: b_def r_def, simp add: p v_def)
  qed
qed


definition advance :: "nat \<Rightarrow> BitStreamIn \<Rightarrow> BitStreamIn" where
  "advance n s = s\<lparr>in_bitPointer := in_bitPointer s + n,
                   in_currByte := (in_bitPointer s + n) div 8\<rparr>"

lemma in_rest_advance:
  assumes "in_bitPointer s + n \<le> 8 * in_streamLen s"
  shows "in_rest (advance n s) = drop n (in_rest s)"
    and "bits_between (in_dataStream s) (in_bitPointer s) n = take n (in_rest s)"
  using assms by (auto simp: in_rest_def advance_def bits_between_def add.assoc intro!: nth_equalityI)

lemma ExtractBits8_field:
  assumes wf: "in_wf s" and n: "0 < n" "n \<le> 8" and w: "unat w < 2 ^ n"
    and rest: "in_rest s = field n w @ bs"
  shows "\<exists>s'. ExtractBits8 n s = Some (RLC_MAC_SUCCESS, Some w, s') \<and> in_wf s' \<and> in_rest s' = bs"
proof -
  have avail: "in_bitPointer s + n \<le> 8 * in_streamLen s"
    using arg_cong [OF rest, of length] n by simp
  obtain v where ex: "ExtractBits8 n s = Some (RLC_MAC_SUCCESS, Some v, advance n s)"
    and v: "field n v = bits_between (in_dataStream s) (in_bitPointer s) n" "unat v < 2 ^ n"
    using ExtractBits8_raw [of s n] wf n avail div_le_mono [OF avail, of 8]
    by (auto simp: in_wf_def advance_def)
  have "field n v = field n w" using v(1) in_rest_advance(2) [OF avail] rest by simp
  then have "v = w" using v(2) w by (rule field_inject)
  moreover have "in_rest (advance n s) = bs" using in_rest_advance(1) [OF avail] rest by simp
  moreover have "in_wf (advance n s)" using wf avail by (simp add: in_wf_def advance_def)
  ultimately show ?thesis using ex by auto
qed

text \<open>
  The guard of \<open>ExtractBits8\<close> compares whole octets: a request is refused only when it runs
  past the end of the stream by eight bits or more.
\<close>

lemma ExtractBits8_refused_iff:
  assumes "in_bitPointer s \<le> 8 * in_streamLen s" "n \<le> 8"
  shows "ExtractBits8 n s = Some (RLC_MAC_ERROR, None, s) \<longleftrightarrow> length (in_rest s) + 8 \<le> n"
proof -
  have "(in_bitPointer s + n) div 8 > in_streamLen s \<longleftrightarrow> length (in_rest s) + 8 \<le> n"
    using assms by auto
  then show ?thesis using assms(2) by (auto simp: ExtractBits8_def Let_def)
qed

section \<open>Interface: a source of bits\<close>

text \<open>
  A decoder keeps an object and a stream; \<open>via_get get n upd\<close> is one extraction into a member of
  the object, which is left alone when the call fails.
\<close>

definition via_get ::
  "(nat \<Rightarrow> 's \<Rightarrow> (RlcMacResult \<times> octet option \<times> 's) option) \<Rightarrow>
   nat \<Rightarrow> (octet \<Rightarrow> 'o \<Rightarrow> 'o) \<Rightarrow> ('o \<times> 's) step" where
  "via_get get n upd = (\<lambda>(ob, s).
     case get n s of
       None \<Rightarrow> None
     | Some (r, v, s') \<Rightarrow> Some (r, (case v of None \<Rightarrow> ob | Some w \<Rightarrow> upd w ob), s'))"

locale bit_source =
  fixes get :: "nat \<Rightarrow> 's \<Rightarrow> (RlcMacResult \<times> octet option \<times> 's) option"
    and rest :: "'s \<Rightarrow> bool list"
    and wf :: "'s \<Rightarrow> bool"
  assumes get_ok:
    "wf s \<Longrightarrow> 0 < n \<Longrightarrow> n \<le> 8 \<Longrightarrow> unat w < 2 ^ n \<Longrightarrow> rest s = field n w @ bs \<Longrightarrow>
       \<exists>s'. get n s = Some (RLC_MAC_SUCCESS, Some w, s') \<and> wf s' \<and> rest s' = bs"
begin

text \<open>
  Reading fields in the order they were written stores the written values: \<open>us\<close> gives, for each
  field, how the decoder stores it.
\<close>

lemma get_fields:
  assumes "wf s" "fields_fit fs" "length us = length fs" "rest s = fields_bits fs @ bs"
  shows "\<exists>s'. run_checked (map2 (\<lambda>(_, n) upd. via_get get n upd) fs us) (ob, s) =
           Some (RLC_MAC_SUCCESS, fold (\<lambda>((w, _), upd). upd w) (zip fs us) ob, s') \<and>
           wf s' \<and> rest s' = bs"
  using assms(3,1,2,4)
proof (induction us fs arbitrary: s ob rule: list_induct2)
  case Nil
  then show ?case by simp
next
  case (Cons u us f fs)
  obtain w n where f: "f = (w, n)" by fastforce
  with Cons.prems obtain s1 where
    s1: "get n s = Some (RLC_MAC_SUCCESS, Some w, s1)" "wf s1" "rest s1 = fields_bits fs @ bs"
    using get_ok [of s n w "fields_bits fs @ bs"] by auto
  with Cons.prems f Cons.IH [of s1 "u w ob"] show ?case by (auto simp: via_get_def)
qed

end

interpretation inp: bit_source ExtractBits8 in_rest in_wf
  by unfold_locales (rule ExtractBits8_field)


section \<open>Fields of up to 32 bits and octet strings\<close>

text \<open>The loops cut a field into a leading part of \<open>n mod 8\<close> bits and whole octets.\<close>

definition chunk :: "nat \<Rightarrow> nat" where
  "chunk n = (if n mod 8 \<noteq> 0 then n mod 8 else 8)"

definition loop_fits :: "nat \<Rightarrow> 'a::len word \<Rightarrow> bool" where
  "loop_fits n w \<longleftrightarrow> n mod 8 = 0 \<or> unat w < 2 ^ n"

lemma chunk_bounds: "0 < n \<Longrightarrow> 0 < chunk n \<and> chunk n \<le> 8 \<and> chunk n \<le> n"
  by (cases "8 dvd n") (auto simp: chunk_def mod_greater_zero_iff_not_dvd dest: dvd_imp_le)

lemma chunk_rest: "0 < n \<Longrightarrow> (n - chunk n) mod 8 = 0 \<and> 8 * ((n - 1) div 8) = n - chunk n"
proof -
  assume n: "0 < n"
  have e: "n = 8 * (n div 8) + n mod 8" by simp
  show ?thesis
  proof (cases "n mod 8 = 0")
    case True
    then obtain j where "n = 8 * j" by (auto simp: mod_eq_0_iff_dvd)
    with n obtain k where k: "n = 8 * Suc k" by (cases j) auto
    have "(8 * Suc k - 1) div 8 = k" by auto
    with k show ?thesis by (simp add: chunk_def)
  next
    case False
    then have "(n - 1) div 8 = n div 8" by (metis Suc_pred' div_Suc n)
    with False show ?thesis by (simp add: chunk_def minus_mod_eq_mult_div)
  qed
qed

lemma loop_fits_chunk: "0 < n \<Longrightarrow> loop_fits (n - chunk n) w"
  using chunk_rest by (simp add: loop_fits_def)

lemma field_split:
  fixes w :: "'a::len word"
  assumes "c \<le> n" "c \<le> 8"
  shows "field n w = field c (ucast (drop_bit (n - c) w) :: octet) @ field (n - c) w"
  using assms
  by (intro nth_equalityI) (auto simp: nth_append bit_unsigned_iff bit_drop_bit_eq)

lemma chunk_small:
  fixes w :: "'a::len word"
  assumes "0 < n" "loop_fits n w"
  shows "unat (ucast (drop_bit (n - chunk n) w) :: octet) < 2 ^ chunk n"
proof (rule unat_less_from_bits)
  fix m assume m: "chunk n \<le> m"
  show "\<not> bit (ucast (drop_bit (n - chunk n) w) :: octet) m"
  proof (cases "n mod 8 = 0")
    case True
    with m show ?thesis by (simp add: chunk_def bit_unsigned_iff)
  next
    case False
    with assms have "unat w < 2 ^ n" by (simp add: loop_fits_def)
    then have "\<not> bit w (n - chunk n + m)" using chunk_bounds [OF assms(1)] m by (intro bit_above) auto
    then show ?thesis by (simp add: bit_unsigned_iff bit_drop_bit_eq)
  qed
qed

lemma InsertLoop_step:
  "0 < n \<Longrightarrow> InsertLoop r w n s =
     (case InsertBits8 (ucast (drop_bit (n - chunk n) w)) (chunk n) s of
        None \<Rightarrow> None
      | Some (r, s') \<Rightarrow> InsertLoop r w (n - chunk n) s')"
  unfolding chunk_def by (subst InsertLoop.simps) (simp only: Let_def if_False less_not_refl2)

lemma ExtractLoop_step:
  "0 < n \<Longrightarrow> ExtractLoop r acc n s =
     (case ExtractBits8 (chunk n) s of
        Some (r, Some v, s') \<Rightarrow>
          ExtractLoop r (acc OR push_bit (8 * ((n - 1) div 8)) (ucast v)) (n - chunk n) s'
      | _ \<Rightarrow> None)"
  unfolding chunk_def by (subst ExtractLoop.simps) (simp only: Let_def if_False less_not_refl2)

lemma InsertLoop_field:
  fixes w :: "'a::len word"
  assumes "out_wf s" "loop_fits n w" "out_bitPointer s + n \<le> 8 * MAX_BITSTREAM" "0 < n \<or> r = RLC_MAC_SUCCESS"
  shows "\<exists>s'. InsertLoop r w n s = Some (RLC_MAC_SUCCESS, s') \<and> out_wf s' \<and>
           out_bits s' = out_bits s @ field n w"
  using assms
proof (induction n arbitrary: r s rule: less_induct)
  case (less n)
  show ?case
  proof (cases "n = 0")
    case True
    with less.prems show ?thesis by (simp add: InsertLoop.simps)
  next
    case False
    let ?c = "chunk n" and ?w = "ucast (drop_bit (n - chunk n) w) :: octet"
    have c: "0 < ?c" "?c \<le> 8" "?c \<le> n" using chunk_bounds False by auto
    obtain s1 where s1: "InsertBits8 ?w ?c s = Some (RLC_MAC_SUCCESS, s1)" "out_wf s1"
      "out_bits s1 = out_bits s @ field ?c ?w"
      using out.put_ok [of s ?c ?w] less.prems c chunk_small [of n w] False by auto
    have "out_bitPointer s1 = out_bitPointer s + ?c" using arg_cong [OF s1(3), of length] by simp
    then obtain s2 where s2: "InsertLoop RLC_MAC_SUCCESS w (n - ?c) s1 = Some (RLC_MAC_SUCCESS, s2)"
      "out_wf s2" "out_bits s2 = out_bits s1 @ field (n - ?c) w"
      using less.IH [of "n - ?c" s1 RLC_MAC_SUCCESS] less.prems c s1(2) loop_fits_chunk [of n w] False by auto
    have "InsertLoop r w n s = Some (RLC_MAC_SUCCESS, s2)"
      using False s1(1) s2(1) by (simp add: InsertLoop_step)
    then show ?thesis using s2 s1 field_split [of ?c n w] c by simp
  qed
qed

lemma take_bit_split:
  fixes w :: "'a::len word"
  assumes "0 < n" "loop_fits n w"
  shows "push_bit (n - chunk n) (ucast (ucast (drop_bit (n - chunk n) w) :: octet)) OR
           take_bit (n - chunk n) w = take_bit n w" (is "?l = _")
proof (rule bit_word_eqI)
  fix m assume m: "m < LENGTH('a)"
  let ?c = "chunk n"
  have c: "?c \<le> 8" "?c \<le> n" using chunk_bounds assms(1) by auto
  have "\<not> bit w m" if "n \<le> m" "m - (n - ?c) < 8"
  proof (cases "n mod 8 = 0")
    case True
    with that c show ?thesis by (simp add: chunk_def)
  next
    case False
    with assms that show ?thesis by (intro bit_above [of w n]) (auto simp: loop_fits_def)
  qed
  then show "bit ?l m \<longleftrightarrow> bit (take_bit n w) m"
    using m c
    by (auto simp: not_le [symmetric] bit_or_iff bit_push_bit_iff bit_take_bit_iff bit_unsigned_iff bit_drop_bit_eq)
qed

lemma ExtractLoop_field:
  fixes w acc :: "'a::len word"
  assumes "in_wf s" "loop_fits n w" "in_rest s = field n w @ bs" "0 < n \<or> r = RLC_MAC_SUCCESS"
  shows "\<exists>s'. ExtractLoop r acc n s = Some (RLC_MAC_SUCCESS, Some (acc OR take_bit n w), s') \<and>
           in_wf s' \<and> in_rest s' = bs"
  using assms
proof (induction n arbitrary: r s acc rule: less_induct)
  case (less n)
  show ?case
  proof (cases "n = 0")
    case True
    with less.prems show ?thesis by (simp add: ExtractLoop.simps)
  next
    case False
    let ?c = "chunk n" and ?w = "ucast (drop_bit (n - chunk n) w) :: octet"
    have c: "0 < ?c" "?c \<le> 8" "?c \<le> n" using chunk_bounds False by auto
    obtain s1 where s1: "ExtractBits8 ?c s = Some (RLC_MAC_SUCCESS, Some ?w, s1)" "in_wf s1"
      "in_rest s1 = field (n - ?c) w @ bs"
      using inp.get_ok [of s ?c ?w "field (n - ?c) w @ bs"] less.prems c chunk_small [of n w] False
        field_split [of ?c n w] by auto
    let ?acc = "acc OR push_bit (8 * ((n - 1) div 8)) (ucast ?w)"
    have "?acc OR take_bit (n - ?c) w = acc OR take_bit n w"
      using chunk_rest [of n] take_bit_split [of n w] less.prems False by (simp add: or.assoc)
    with less.IH [of "n - ?c" s1 RLC_MAC_SUCCESS ?acc] s1 c False loop_fits_chunk [of n w]
    obtain s2 where s2: "ExtractLoop RLC_MAC_SUCCESS ?acc (n - ?c) s1 =
        Some (RLC_MAC_SUCCESS, Some (acc OR take_bit n w), s2)" "in_wf s2" "in_rest s2 = bs" by auto
    have "ExtractLoop r acc n s = Some (RLC_MAC_SUCCESS, Some (acc OR take_bit n w), s2)"
      using False s1(1) s2(1) by (simp add: ExtractLoop_step)
    then show ?thesis using s2 by simp
  qed
qed


lemma InsertBits16_field:
  assumes "out_wf s" "n \<le> 16" "unat w < 2 ^ n" "out_bitPointer s + n \<le> 8 * MAX_BITSTREAM"
  shows "\<exists>s'. InsertBits16 w n s = Some (RLC_MAC_SUCCESS, s') \<and> out_wf s' \<and>
           out_bits s' = out_bits s @ field n w"
  using InsertLoop_field [of s n w RLC_MAC_SUCCESS] assms by (simp add: InsertBits16_def loop_fits_def)

lemma InsertBits32_field:
  assumes "out_wf s" "n \<le> 32" "unat w < 2 ^ n" "out_bitPointer s + n \<le> 8 * MAX_BITSTREAM"
  shows "\<exists>s'. InsertBits32 w n s = Some (RLC_MAC_SUCCESS, s') \<and> out_wf s' \<and>
           out_bits s' = out_bits s @ field n w"
  using InsertLoop_field [of s n w RLC_MAC_SUCCESS] assms by (simp add: InsertBits32_def loop_fits_def)

lemma rest_avail:
  assumes "in_wf s" "in_rest s = field n w @ bs"
  shows "in_bitPointer s + n \<le> 8 * in_streamLen s" "(in_bitPointer s + n) div 8 \<le> in_streamLen s"
proof -
  show a: "in_bitPointer s + n \<le> 8 * in_streamLen s"
    using arg_cong [OF assms(2), of length] assms(1) by (auto simp: in_wf_def)
  show "(in_bitPointer s + n) div 8 \<le> in_streamLen s" using div_le_mono [OF a, of 8] by simp
qed

lemma take_bit_small: "unat w < 2 ^ n \<Longrightarrow> take_bit n w = w" for w :: "'a::len word"
  by (rule bit_word_eqI) (use bit_above [of w n] in \<open>auto simp: bit_take_bit_iff not_less [symmetric]\<close>)

lemma ExtractBits16_field:
  assumes "in_wf s" "n \<le> 16" "unat w < 2 ^ n" "in_rest s = field n w @ bs"
  shows "\<exists>s'. ExtractBits16 n s = Some (RLC_MAC_SUCCESS, Some w, s') \<and> in_wf s' \<and> in_rest s' = bs"
  using ExtractLoop_field [of s n w bs RLC_MAC_SUCCESS 0] assms rest_avail(2) [OF assms(1,4)]
  by (simp add: ExtractBits16_def loop_fits_def take_bit_small)

lemma ExtractBits32_field:
  assumes "in_wf s" "n \<le> 32" "unat w < 2 ^ n" "in_rest s = field n w @ bs"
  shows "\<exists>s'. ExtractBits32 n s = Some (RLC_MAC_SUCCESS, Some w, s') \<and> in_wf s' \<and> in_rest s' = bs"
  using ExtractLoop_field [of s n w bs RLC_MAC_SUCCESS 0] assms rest_avail(2) [OF assms(1,4)]
  by (simp add: ExtractBits32_def loop_fits_def take_bit_small)

definition octets_bits :: "octet list \<Rightarrow> bool list" where
  "octets_bits bytes = concat (map (field 8) bytes)"

lemma octets_bits_simps [simp]:
  "octets_bits [] = []" "octets_bits (b # bs) = field 8 b @ octets_bits bs"
  "octets_bits (bs @ cs) = octets_bits bs @ octets_bits cs"
  by (simp_all add: octets_bits_def)

lemma length_octets_bits [simp]: "length (octets_bits bs) = 8 * length bs"
  by (induction bs) auto

lemma unat_octet [simp]: "unat (b :: octet) < 256"
  using unsigned_less [of b] by simp

lemma InsertBytesLoop_bits:
  assumes "out_wf s" "length bytes = n" "out_bitPointer s + 8 * n \<le> 8 * MAX_BITSTREAM"
    "0 < n \<or> r = RLC_MAC_SUCCESS"
  shows "\<exists>s'. InsertBytesLoop r (bytes @ extra) n s = Some (RLC_MAC_SUCCESS, s') \<and> out_wf s' \<and>
           out_bits s' = out_bits s @ octets_bits bytes"
  using assms
proof (induction bytes arbitrary: n r s)
  case Nil
  then show ?case by simp
next
  case (Cons b bytes)
  then obtain s1 where s1: "InsertBits8 b 8 s = Some (RLC_MAC_SUCCESS, s1)" "out_wf s1"
    "out_bits s1 = out_bits s @ field 8 b"
    using out.put_ok [of s 8 b] by auto
  have "out_bitPointer s1 = out_bitPointer s + 8" using arg_cong [OF s1(3), of length] by simp
  with Cons.prems s1 Cons.IH [of s1 "length bytes" RLC_MAC_SUCCESS] show ?case by auto
qed

lemma InsertBytesN_bits:
  assumes "out_wf s" "out_bitPointer s + 8 * length bytes \<le> 8 * MAX_BITSTREAM"
  shows "\<exists>s'. InsertBytesN bytes (length bytes) s = Some (RLC_MAC_SUCCESS, s') \<and> out_wf s' \<and>
           out_bits s' = out_bits s @ octets_bits bytes"
  using InsertBytesLoop_bits [of s bytes "length bytes" RLC_MAC_SUCCESS "[]"] assms
  by (simp add: InsertBytesN_def)

lemma ExtractBytesLoop_bits:
  assumes "in_wf s" "in_rest s = octets_bits bytes @ bs" "bytes \<noteq> [] \<or> r = RLC_MAC_SUCCESS"
  shows "\<exists>s'. ExtractBytesLoop r acc (length bytes) s = Some (RLC_MAC_SUCCESS, Some (acc @ bytes), s') \<and>
           in_wf s' \<and> in_rest s' = bs"
  using assms
proof (induction bytes arbitrary: r s acc)
  case Nil
  then show ?case by simp
next
  case (Cons b bytes)
  then obtain s1 where s1: "ExtractBits8 8 s = Some (RLC_MAC_SUCCESS, Some b, s1)" "in_wf s1"
    "in_rest s1 = octets_bits bytes @ bs"
    using inp.get_ok [of s 8 b "octets_bits bytes @ bs"] by auto
  with Cons.IH [of s1 RLC_MAC_SUCCESS "acc @ [b]"] show ?case by auto
qed

lemma ExtractBytesN_bits:
  assumes "in_wf s" "in_rest s = octets_bits bytes @ bs"
  shows "\<exists>s'. ExtractBytesN (int (length bytes)) s = Some (RLC_MAC_SUCCESS, Some bytes, s') \<and>
           in_wf s' \<and> in_rest s' = bs"
proof -
  have "in_bitPointer s + 8 * length bytes \<le> 8 * in_streamLen s"
    using arg_cong [OF assms(2), of length] assms(1) by (auto simp: in_wf_def)
  then have "(int (in_bitPointer s) + int (length bytes) * 8) div 8 \<le> int (in_streamLen s)" by linarith
  then show ?thesis
    using ExtractBytesLoop_bits [of s bytes bs RLC_MAC_SUCCESS "[]"] assms by (simp add: ExtractBytesN_def)
qed


section \<open>Spare padding\<close>

text \<open>Bit \<open>i\<close> of a stream filled with the spare padding octet 0x2b.\<close>

definition spare_bit :: "nat \<Rightarrow> bool" where
  "spare_bit i = bit (0x2b :: octet) (7 - i mod 8)"

lemma PadLoop_bits:
  assumes "length (out_dataStream s) = MAX_BITSTREAM" "out_bitPointer s = 8 * out_streamLen s"
    "len \<le> MAX_BITSTREAM"
  shows "\<exists>s'. PadLoop len s = Some s' \<and> out_streamLen s' = max (out_streamLen s) len \<and>
           out_bitPointer s' = 8 * max (out_streamLen s) len \<and>
           (\<forall>i. sbit (out_dataStream s') i =
              (if 8 * out_streamLen s \<le> i \<and> i < 8 * len then spare_bit i
               else sbit (out_dataStream s) i))"
  using assms
proof (induction len s rule: PadLoop.induct)
  case (1 len s)
  show ?case
  proof (cases "out_streamLen s < len")
    case False
    then show ?thesis using 1 by (subst PadLoop.simps) auto
  next
    case True
    let ?k = "out_streamLen s" and ?d = "(out_dataStream s)[out_streamLen s := 0x2b]"
    let ?s = "s\<lparr>out_dataStream := ?d, out_streamLen := ?k + 1, out_bitPointer := out_bitPointer s + 8\<rparr>"
    have k: "?k < length (out_dataStream s)" using True 1 by simp
    obtain s' where s': "PadLoop len ?s = Some s'" "out_streamLen s' = max (?k + 1) len"
      "out_bitPointer s' = 8 * max (?k + 1) len"
      "\<And>i. sbit (out_dataStream s') i =
         (if 8 * (?k + 1) \<le> i \<and> i < 8 * len then spare_bit i else sbit ?d i)"
      using "1.IH" [OF True, of ?d] True 1 k by auto
    have "sbit ?d i = (if i div 8 = ?k then spare_bit i else sbit (out_dataStream s) i)" for i
      using k by (simp add: sbit_update spare_bit_def)
    moreover have "i div 8 = ?k \<longleftrightarrow> 8 * ?k \<le> i \<and> i < 8 * (?k + 1)" for i by auto
    ultimately have "sbit (out_dataStream s') i =
        (if 8 * ?k \<le> i \<and> i < 8 * len then spare_bit i else sbit (out_dataStream s) i)" for i
      using s'(4) [of i] True by auto
    then show ?thesis using s' True k by (subst PadLoop.simps) auto
  qed
qed

lemma PadToOctetBoundary_bits:
  assumes wf: "out_wf s" and room: "out_bitPointer s < 8 * MAX_BITSTREAM"
  shows "\<exists>s'. PadToOctetBoundary s = Some s' \<and> length (out_dataStream s') = MAX_BITSTREAM \<and>
           out_streamLen s' = (out_bitPointer s + 7) div 8 \<and>
           out_bitPointer s' = 8 * ((out_bitPointer s + 7) div 8) \<and>
           (\<forall>i < 8 * MAX_BITSTREAM. sbit (out_dataStream s') i =
              (if i < out_bitPointer s then sbit (out_dataStream s) i
               else i div 8 = out_bitPointer s div 8 \<and> spare_bit i))"
proof -
  define b where "b = out_bitPointer s div 8"
  define r where "r = out_bitPointer s mod 8"
  have p: "out_bitPointer s = 8 * b + r" and r: "r < 8" by (auto simp: b_def r_def)
  let ?d = "out_dataStream s" and ?x = "drop_bit r (0xff :: octet) AND 0x2b"
  have bl: "b < length ?d" using room wf by (auto simp: b_def out_wf_def)
  have x: "bit ?x m \<longleftrightarrow> m + r < 8 \<and> bit (0x2b :: octet) m" for m
    by (auto simp: bit_and_iff bit_drop_bit_eq add.commute simp del: bit_numeral_word_iff)
  have "sbit (?d[b := ?d ! b OR ?x]) i =
          (if i < 8 * b + r then sbit ?d i else i div 8 = b \<and> spare_bit i)"
    if "i < 8 * MAX_BITSTREAM" for i
  proof -
    have "i < 8 * b + r \<longleftrightarrow> \<not> 7 - i mod 8 + r < 8" if "i div 8 = b"
    proof -
      have "8 * b + i mod 8 = i" "i mod 8 < 8" using mult_div_mod_eq [of 8 i] that by simp_all
      then show ?thesis by linarith
    qed
    moreover have "8 * b + r \<le> i \<Longrightarrow> \<not> sbit ?d i" using wf that p by (auto simp: out_wf_def)
    ultimately show ?thesis
      using sbit_or_at [OF bl, of ?x i] x by (auto simp: spare_bit_def)
  qed
  moreover have "8 * b + r + (if r \<noteq> 0 then 8 - r else 0) = 8 * ((8 * b + r + 7) div 8)"
  proof (cases "r = 0")
    case False
    with r have "(8 * b + r + 7) div 8 = b + 1" by (intro div_nat_eqI) auto
    with False r show ?thesis by simp
  qed simp
  moreover have "PadToOctetBoundary s = Some (s\<lparr>out_dataStream := ?d[b := ?d ! b OR ?x],
      out_bitPointer := 8 * b + r + (if r \<noteq> 0 then 8 - r else 0),
      out_streamLen := (8 * b + r + (if r \<noteq> 0 then 8 - r else 0)) div 8\<rparr>)"
    using wf bl unfolding PadToOctetBoundary_def Let_def out_wf_def b_def [symmetric] r_def [symmetric]
    by (simp add: or_at_Some p)
  ultimately show ?thesis
    using wf unfolding out_wf_def p by (simp add: b_def [symmetric] p [symmetric])
qed

section \<open>Properties\<close>

text \<open>
  C7: packing a field with \<open>InsertBits8\<close>, \<open>InsertBits16\<close> or \<open>InsertBits32\<close> into a well-formed
  stream with room for it succeeds, stays inside the buffer, leaves the stream well formed and
  appends exactly the field's bits, most significant first; the bits written before are kept.
\<close>

theorem insert_appends_field:
  assumes "out_wf s" "0 < n" "out_bitPointer s + n \<le> 8 * MAX_BITSTREAM"
  shows "(n \<le> 8 \<and> unat (w8 :: octet) < 2 ^ n \<longrightarrow>
           (\<exists>s'. InsertBits8 w8 n s = Some (RLC_MAC_SUCCESS, s') \<and> out_wf s' \<and>
                 out_bits s' = out_bits s @ field n w8)) \<and>
         (n \<le> 16 \<and> unat (w16 :: 16 word) < 2 ^ n \<longrightarrow>
           (\<exists>s'. InsertBits16 w16 n s = Some (RLC_MAC_SUCCESS, s') \<and> out_wf s' \<and>
                 out_bits s' = out_bits s @ field n w16)) \<and>
         (n \<le> 32 \<and> unat (w32 :: 32 word) < 2 ^ n \<longrightarrow>
           (\<exists>s'. InsertBits32 w32 n s = Some (RLC_MAC_SUCCESS, s') \<and> out_wf s' \<and>
                 out_bits s' = out_bits s @ field n w32))"
  using assms out.put_ok [of s n w8] InsertBits16_field [of s n w16] InsertBits32_field [of s n w32]
  by auto

theorem insert_appends_field_witness:
  "\<exists>s'. InsertBits32 0xDEADBEEF 32 BitStreamOut_new = Some (RLC_MAC_SUCCESS, s') \<and> out_wf s' \<and>
        out_bits s' = out_bits BitStreamOut_new @ field 32 (0xDEADBEEF :: 32 word)"
  using insert_appends_field [of BitStreamOut_new 32 0 0 "0xDEADBEEF"] by simp

text \<open>
  Reading back what was written. When the unread part of an input stream starts with the bits
  of a field of \<open>n\<close> bits, the matching \<open>ExtractBits\<close> call returns that field, and the next
  read continues right after it.
\<close>

theorem extract_returns_field:
  assumes "in_wf s" "0 < n"
  shows "(n \<le> 8 \<and> unat (w8 :: octet) < 2 ^ n \<and> in_rest s = field n w8 @ bs \<longrightarrow>
           (\<exists>s'. ExtractBits8 n s = Some (RLC_MAC_SUCCESS, Some w8, s') \<and> in_wf s' \<and>
                 in_rest s' = bs)) \<and>
         (n \<le> 16 \<and> unat (w16 :: 16 word) < 2 ^ n \<and> in_rest s = field n w16 @ bs \<longrightarrow>
           (\<exists>s'. ExtractBits16 n s = Some (RLC_MAC_SUCCESS, Some w16, s') \<and> in_wf s' \<and>
                 in_rest s' = bs)) \<and>
         (n \<le> 32 \<and> unat (w32 :: 32 word) < 2 ^ n \<and> in_rest s = field n w32 @ bs \<longrightarrow>
           (\<exists>s'. ExtractBits32 n s = Some (RLC_MAC_SUCCESS, Some w32, s') \<and> in_wf s' \<and>
                 in_rest s' = bs))"
  using assms inp.get_ok [of s n w8 bs] ExtractBits16_field [of s n w16 bs] ExtractBits32_field [of s n w32 bs]
  by auto

definition sample_in :: BitStreamIn where
  "sample_in = \<lparr>in_dataStream = [0xB5, 0x40] @ replicate 51 0, in_bitPointer = 3, in_streamLen = 2,
                in_currByte = 0\<rparr>"

theorem extract_returns_field_witness:
  "\<exists>s'. ExtractBits16 10 sample_in = Some (RLC_MAC_SUCCESS, Some 0x2A8, s') \<and> in_wf s' \<and>
        in_rest s' = [False, False, False]"
proof -
  have "in_wf sample_in" by code_simp
  moreover have "in_rest sample_in = field 10 (0x2A8 :: 16 word) @ [False, False, False]" by code_simp
  ultimately show ?thesis
    using extract_returns_field [of sample_in 10 0 _ "0x2A8 :: 16 word" 0] by auto
qed

text \<open>
  Spare padding. From a well-formed stream with a free bit, padding to \<open>len\<close> octets fills
  every bit after the content with the bit that the spare padding octet 0x2b has at that place,
  up to exactly \<open>len\<close> octets, and leaves the content as it was.
\<close>

theorem PadWithSparePadding_fills:
  assumes wf: "out_wf s" and room: "out_bitPointer s < 8 * MAX_BITSTREAM"
    and len: "out_bitPointer s \<le> 8 * len" "len \<le> MAX_BITSTREAM"
  shows "\<exists>s'. PadWithSparePadding len s = Some s' \<and> out_streamLen s' = len \<and>
           out_bits s' = out_bits s @ map spare_bit [out_bitPointer s ..< 8 * len]"
proof -
  let ?p = "out_bitPointer s" and ?q = "(out_bitPointer s + 7) div 8"
  obtain s1 where s1: "PadToOctetBoundary s = Some s1" "length (out_dataStream s1) = MAX_BITSTREAM"
    "out_streamLen s1 = ?q" "out_bitPointer s1 = 8 * ?q"
    "\<And>i. i < 8 * MAX_BITSTREAM \<Longrightarrow> sbit (out_dataStream s1) i =
       (if i < ?p then sbit (out_dataStream s) i else i div 8 = ?p div 8 \<and> spare_bit i)"
    using PadToOctetBoundary_bits [OF wf room] by blast
  have q: "?q \<le> len" using len(1) by auto
  obtain s2 where s2: "PadLoop len s1 = Some s2" "out_streamLen s2 = len" "out_bitPointer s2 = 8 * len"
    "\<And>i. sbit (out_dataStream s2) i =
       (if 8 * ?q \<le> i \<and> i < 8 * len then spare_bit i else sbit (out_dataStream s1) i)"
    using PadLoop_bits [of s1 len] s1 q len(2) by (auto simp: max_def)
  have "sbit (out_dataStream s2) i = (if i < ?p then sbit (out_dataStream s) i else spare_bit i)"
    if "i < 8 * len" for i
  proof (cases "i < ?p \<or> 8 * ?q \<le> i")
    case True
    then show ?thesis using s2(4) [of i] s1(5) [of i] that len(2) by auto
  next
    case False
    moreover have "?q \<le> ?p div 8 + 1" by linarith
    ultimately have "i div 8 = ?p div 8" by (intro div_nat_eqI) auto
    with False show ?thesis using s2(4) [of i] s1(5) [of i] that len(2) by auto
  qed
  then have "out_bits s2 = out_bits s @ map spare_bit [?p ..< 8 * len]"
    using len(1) s2(3) by (intro nth_equalityI) (auto simp: out_bits_def nth_append)
  then show ?thesis using s1 s2 by (auto simp: PadWithSparePadding_def)
qed

theorem PadWithSparePadding_fills_witness:
  "\<exists>s'. PadWithSparePadding 23 BitStreamOut_new = Some s' \<and> out_streamLen s' = 23 \<and>
        out_bits s' = out_bits BitStreamOut_new @ map spare_bit [out_bitPointer BitStreamOut_new ..< 8 * 23]"
  by (rule PadWithSparePadding_fills) simp_all

text \<open>
  The end-of-stream check of \<open>ExtractBits8\<close> is coarse. A request is refused exactly when it
  exceeds the unread bits by eight or more, so the last read may take up to seven bits from
  beyond the received octets.
\<close>

theorem extract_end_check:
  assumes "in_bitPointer s \<le> 8 * in_streamLen s" "n \<le> 8"
  shows "ExtractBits8 n s = Some (RLC_MAC_ERROR, None, s) \<longleftrightarrow> length (in_rest s) + 8 \<le> n"
  using assms by (rule ExtractBits8_refused_iff)

theorem extract_end_check_witness:
  "ExtractBits8 8 (sample_in\<lparr>in_bitPointer := 15, in_currByte := 1\<rparr>) \<noteq>
     Some (RLC_MAC_ERROR, None, sample_in\<lparr>in_bitPointer := 15, in_currByte := 1\<rparr>)"
  by (subst extract_end_check) (simp_all add: sample_in_def)

end
