(* ===== verification/MacHeader.thy ===== *)
theory MacHeader
  imports BitStream
begin

text \<open>
  The MAC headers of \<^verbatim>\<open>Rlc_mac/include/MacHeader.h\<close> and \<^verbatim>\<open>Rlc_mac/src/MacHeader.cpp\<close>:
  \<open>DLMacHeader\<close>, which the base station encodes, and \<open>ULMacHeader\<close>, which it decodes, with the
  length octets that delimit LLC PDUs inside an RLC data block.
\<close>

section \<open>Enumerations\<close>

datatype PAYLOAD_TYPE =
    RLC_DATA_BLOCK
  | RLC_CTRL_BLOCK_NO_OPT_OCTETS
  | RLC_CTRL_BLOCK_OPT_OCTETS
  | RESERVED

datatype RETRY_BIT = ONE_CHAN_REQ | TWO_OR_MORE_CHAN_REQ
datatype STALL_INDICATOR = NOT_STALLED | STALLED
datatype TLLI_INDICATOR = TLLI_NOT_PRESENT | TLLI_PRESENT
datatype EXTENSION_BIT = EXTENSION_OCTET_FOLLOWS | NO_EXTENSION_OCTET
datatype MORE_BIT = NO_MORE_LLC_DATA | MORE_LLC_DATA

datatype RRBP = FN_N_13 | FN_N_17_OR_N_18 | FN_N_21_OR_N_22 | FN_N_26
datatype SUPPLEMENTARY_POLLING_BIT = RRBP_NOT_VALID | RRBP_VALID
datatype FINAL_SEGMENT_BIT = NOT_FINAL_SEGMENT | FINAL_SEGMENT
datatype ADDRESS_CONTROL_BIT = TFI_D_NOT_PRESENT | TFI_D_PRESENT
datatype POWER_REDUCTION =
    MODEA_0_2_OR_MODEB_0_6_DB
  | MODEA_4_6_OR_MODEB_8_14_DB
  | MODEA_8_10_OR_MODEB_16_22_DB
  | MODEA_NOT_USABLE_OR_MODEB_24_30_DB
datatype DIRECTION_BIT = UPLINK_TBF | DOWNLINK_TBF
datatype FINAL_BLOCK_INDICATOR = NOT_LAST_RLC_BLOCK | LAST_RLC_BLOCK

text \<open>
  The casts \<^verbatim>\<open>(unsigned char)e\<close> of the encoder and \<^verbatim>\<open>(E)val\<close> of the decoder.  The
  decoder casts one- and two-bit values only, so the last branch stands for the one value left.
\<close>

fun payload_val :: "PAYLOAD_TYPE \<Rightarrow> octet" where
  "payload_val RLC_DATA_BLOCK = 0"
| "payload_val RLC_CTRL_BLOCK_NO_OPT_OCTETS = 1"
| "payload_val RLC_CTRL_BLOCK_OPT_OCTETS = 2"
| "payload_val RESERVED = 3"

definition payload_of :: "octet \<Rightarrow> PAYLOAD_TYPE" where
  "payload_of v = (if v = 0 then RLC_DATA_BLOCK else if v = 1 then RLC_CTRL_BLOCK_NO_OPT_OCTETS
     else if v = 2 then RLC_CTRL_BLOCK_OPT_OCTETS else RESERVED)"

fun retry_val :: "RETRY_BIT \<Rightarrow> octet" where
  "retry_val ONE_CHAN_REQ = 0" | "retry_val TWO_OR_MORE_CHAN_REQ = 1"

definition retry_of :: "octet \<Rightarrow> RETRY_BIT" where
  "retry_of v = (if v = 0 then ONE_CHAN_REQ else TWO_OR_MORE_CHAN_REQ)"

fun stall_val :: "STALL_INDICATOR \<Rightarrow> octet" where
  "stall_val NOT_STALLED = 0" | "stall_val STALLED = 1"

definition stall_of :: "octet \<Rightarrow> STALL_INDICATOR" where
  "stall_of v = (if v = 0 then NOT_STALLED else STALLED)"

fun tlliInd_val :: "TLLI_INDICATOR \<Rightarrow> octet" where
  "tlliInd_val TLLI_NOT_PRESENT = 0" | "tlliInd_val TLLI_PRESENT = 1"

definition tlliInd_of :: "octet \<Rightarrow> TLLI_INDICATOR" where
  "tlliInd_of v = (if v = 0 then TLLI_NOT_PRESENT else TLLI_PRESENT)"

fun ext_val :: "EXTENSION_BIT \<Rightarrow> octet" where
  "ext_val EXTENSION_OCTET_FOLLOWS = 0" | "ext_val NO_EXTENSION_OCTET = 1"

definition ext_of :: "octet \<Rightarrow> EXTENSION_BIT" where
  "ext_of v = (if v = 0 then EXTENSION_OCTET_FOLLOWS else NO_EXTENSION_OCTET)"

fun more_val :: "MORE_BIT \<Rightarrow> octet" where
  "more_val NO_MORE_LLC_DATA = 0" | "more_val MORE_LLC_DATA = 1"

definition more_of :: "octet \<Rightarrow> MORE_BIT" where
  "more_of v = (if v = 0 then NO_MORE_LLC_DATA else MORE_LLC_DATA)"

fun rrbp_val :: "RRBP \<Rightarrow> octet" where
  "rrbp_val FN_N_13 = 0" | "rrbp_val FN_N_17_OR_N_18 = 1"
| "rrbp_val FN_N_21_OR_N_22 = 2" | "rrbp_val FN_N_26 = 3"

fun spBit_val :: "SUPPLEMENTARY_POLLING_BIT \<Rightarrow> octet" where
  "spBit_val RRBP_NOT_VALID = 0" | "spBit_val RRBP_VALID = 1"

fun finalSeg_val :: "FINAL_SEGMENT_BIT \<Rightarrow> octet" where
  "finalSeg_val NOT_FINAL_SEGMENT = 0" | "finalSeg_val FINAL_SEGMENT = 1"

fun ac_val :: "ADDRESS_CONTROL_BIT \<Rightarrow> octet" where
  "ac_val TFI_D_NOT_PRESENT = 0" | "ac_val TFI_D_PRESENT = 1"

fun pr_val :: "POWER_REDUCTION \<Rightarrow> octet" where
  "pr_val MODEA_0_2_OR_MODEB_0_6_DB = 0" | "pr_val MODEA_4_6_OR_MODEB_8_14_DB = 1"
| "pr_val MODEA_8_10_OR_MODEB_16_22_DB = 2" | "pr_val MODEA_NOT_USABLE_OR_MODEB_24_30_DB = 3"

fun direction_val :: "DIRECTION_BIT \<Rightarrow> octet" where
  "direction_val UPLINK_TBF = 0" | "direction_val DOWNLINK_TBF = 1"

fun fbi_val :: "FINAL_BLOCK_INDICATOR \<Rightarrow> octet" where
  "fbi_val NOT_LAST_RLC_BLOCK = 0" | "fbi_val LAST_RLC_BLOCK = 1"

named_theorems enum_vals \<open>the cast of an enumerator to an octet fits its field\<close>

lemma payload_fits [enum_vals]: "unat (payload_val p) < 4"
  by (cases p) simp_all

lemma retry_fits [enum_vals]: "unat (retry_val r) < 2"
  by (cases r) simp_all

lemma stall_fits [enum_vals]: "unat (stall_val st) < 2"
  by (cases st) simp_all

lemma tlliInd_fits [enum_vals]: "unat (tlliInd_val t) < 2"
  by (cases t) simp_all

lemma ext_fits [enum_vals]: "unat (ext_val e) < 2"
  by (cases e) simp_all

lemma more_fits [enum_vals]: "unat (more_val m) < 2"
  by (cases m) simp_all

lemma rrbp_fits [enum_vals]: "unat (rrbp_val b) < 4"
  by (cases b) simp_all

lemma spBit_fits [enum_vals]: "unat (spBit_val sp) < 2"
  by (cases sp) simp_all

lemma finalSeg_fits [enum_vals]: "unat (finalSeg_val f) < 2"
  by (cases f) simp_all

lemma ac_fits [enum_vals]: "unat (ac_val a) < 2"
  by (cases a) simp_all

lemma pr_fits [enum_vals]: "unat (pr_val p) < 4"
  by (cases p) simp_all

lemma direction_fits [enum_vals]: "unat (direction_val d) < 2"
  by (cases d) simp_all

lemma fbi_fits [enum_vals]: "unat (fbi_val f) < 2"
  by (cases f) simp_all

lemma payload_inverse [simp]: "payload_of (payload_val p) = p"
  by (cases p) (simp_all add: payload_of_def)

lemma retry_inverse [simp]: "retry_of (retry_val r) = r"
  by (cases r) (simp_all add: retry_of_def)

lemma stall_inverse [simp]: "stall_of (stall_val st) = st"
  by (cases st) (simp_all add: stall_of_def)

lemma tlliInd_inverse [simp]: "tlliInd_of (tlliInd_val t) = t"
  by (cases t) (simp_all add: tlliInd_of_def)

lemma ext_inverse [simp]: "ext_of (ext_val e) = e"
  by (cases e) (simp_all add: ext_of_def)

lemma more_inverse [simp]: "more_of (more_val m) = m"
  by (cases m) (simp_all add: more_of_def)

section \<open>Length octets\<close>

abbreviation (input) MAX_RLC_LENGTH_OCTETS :: nat where "MAX_RLC_LENGTH_OCTETS \<equiv> 10"
abbreviation (input) INVALID_LENGTH_VAL :: octet where "INVALID_LENGTH_VAL \<equiv> 0xff"

record LengthOctet =
  lo_length :: octet
  lo_moreBit :: MORE_BIT
  lo_extensionBit :: EXTENSION_BIT

definition octet_fields :: "LengthOctet \<Rightarrow> (octet \<times> nat) list" where
  "octet_fields lo = [(lo_length lo, 6), (more_val (lo_moreBit lo), 1), (ext_val (lo_extensionBit lo), 1)]"

text \<open>
  A chain of length octets as it goes on the air: every octet but the last announces a successor,
  and every length fits its six bits.
\<close>

fun lo_chain :: "LengthOctet list \<Rightarrow> bool" where
  "lo_chain [] = False"
| "lo_chain [lo] = (unat (lo_length lo) < 64 \<and> lo_extensionBit lo = NO_EXTENSION_OCTET)"
| "lo_chain (lo # los) =
     (unat (lo_length lo) < 64 \<and> lo_extensionBit lo = EXTENSION_OCTET_FOLLOWS \<and> lo_chain los)"

section \<open>Downlink header\<close>

record DLMacHeader =
  dl_payloadType :: PAYLOAD_TYPE
  dl_rrbp :: RRBP
  dl_spBit :: SUPPLEMENTARY_POLLING_BIT
  dl_usf :: octet
  dl_rbsn :: octet
  dl_rti :: octet
  dl_finalSegBit :: FINAL_SEGMENT_BIT
  dl_acBit :: ADDRESS_CONTROL_BIT
  dl_powerReduction :: POWER_REDUCTION
  dl_tfi :: octet
  dl_fbiBit :: FINAL_BLOCK_INDICATOR
  dl_directionBit :: DIRECTION_BIT
  dl_bsn :: octet
  dl_extensionBit :: EXTENSION_BIT
  dl_LengthOctets :: "LengthOctet list"
  dl_currLengthOctet :: nat

definition dl_SetLengthOctet ::
  "octet \<Rightarrow> MORE_BIT \<Rightarrow> EXTENSION_BIT \<Rightarrow> DLMacHeader \<Rightarrow> bool \<times> DLMacHeader" where
  "dl_SetLengthOctet len mb ext h =
     (if dl_currLengthOctet h < MAX_RLC_LENGTH_OCTETS then
        (True, h\<lparr>dl_LengthOctets := (dl_LengthOctets h)[dl_currLengthOctet h :=
                  \<lparr>lo_length = len, lo_moreBit = mb, lo_extensionBit = ext\<rparr>]\<rparr>)
      else (False, h))"

definition dl_SetCurrLengthOctetExtension ::
  "EXTENSION_BIT \<Rightarrow> DLMacHeader \<Rightarrow> RlcMacResult \<times> DLMacHeader" where
  "dl_SetCurrLengthOctetExtension ext h =
     (if dl_currLengthOctet h < MAX_RLC_LENGTH_OCTETS then
        (RLC_MAC_SUCCESS, h\<lparr>dl_LengthOctets := (dl_LengthOctets h)[dl_currLengthOctet h :=
           (dl_LengthOctets h ! dl_currLengthOctet h)\<lparr>lo_extensionBit := ext\<rparr>]\<rparr>)
      else (RLC_MAC_ERROR, h))"

definition dl_GetNextLengthOctet :: "DLMacHeader \<Rightarrow> LengthOctet option \<times> DLMacHeader" where
  "dl_GetNextLengthOctet h =
     (let i = dl_currLengthOctet h + 1; h' = h\<lparr>dl_currLengthOctet := i\<rparr>
      in if i < MAX_RLC_LENGTH_OCTETS then (Some (dl_LengthOctets h ! i), h') else (None, h'))"

definition dl_IncrementCurrLengthOctetIndex :: "DLMacHeader \<Rightarrow> DLMacHeader" where
  "dl_IncrementCurrLengthOctetIndex h =
     (if dl_currLengthOctet h < MAX_RLC_LENGTH_OCTETS
      then h\<lparr>dl_currLengthOctet := dl_currLengthOctet h + 1\<rparr> else h)"

definition dl_DecrementCurrLengthOctetIndex :: "DLMacHeader \<Rightarrow> DLMacHeader" where
  "dl_DecrementCurrLengthOctetIndex h =
     (if dl_currLengthOctet h \<noteq> 0 then h\<lparr>dl_currLengthOctet := dl_currLengthOctet h - 1\<rparr> else h)"

definition dl_ResetCurrLengthOctet :: "DLMacHeader \<Rightarrow> DLMacHeader" where
  "dl_ResetCurrLengthOctet h = h\<lparr>dl_currLengthOctet := 0\<rparr>"

text \<open>The do-while loop over the length octets; \<open>None\<close> when it runs off the array of ten.\<close>

function EncodeLengthOctets :: "nat \<Rightarrow> LengthOctet list \<Rightarrow> BitStreamOut step" where
  "EncodeLengthOctets i los s =
     (if i < length los then
        (let lo = los ! i
         in case run_ignored [InsertBits8 (lo_length lo) 6,
                              InsertBits8 (more_val (lo_moreBit lo)) 1,
                              InsertBits8 (ext_val (lo_extensionBit lo)) 1] s of
              None \<Rightarrow> None
            | Some (_, s') \<Rightarrow>
                if lo_extensionBit lo = EXTENSION_OCTET_FOLLOWS then EncodeLengthOctets (i + 1) los s'
                else Some (RLC_MAC_SUCCESS, s'))
      else None)"
  by pat_completeness auto
termination
  by (relation "measure (\<lambda>(i, los, s). length los - i)") auto

declare EncodeLengthOctets.simps [simp del]

definition EncodeDLMacHeader :: "DLMacHeader \<Rightarrow> BitStreamOut step" where
  "EncodeDLMacHeader h = run_ignored
     ([InsertBits8 (payload_val (dl_payloadType h)) 2,
       InsertBits8 (rrbp_val (dl_rrbp h)) 2,
       InsertBits8 (spBit_val (dl_spBit h)) 1,
       InsertBits8 (dl_usf h) 3] @
      (case dl_payloadType h of
         RLC_DATA_BLOCK \<Rightarrow>
           [InsertBits8 (pr_val (dl_powerReduction h)) 2,
            InsertBits8 (dl_tfi h) 5,
            InsertBits8 (fbi_val (dl_fbiBit h)) 1,
            InsertBits8 (dl_bsn h) 7,
            InsertBits8 (ext_val (dl_extensionBit h)) 1] @
           (if dl_extensionBit h = EXTENSION_OCTET_FOLLOWS
            then [EncodeLengthOctets 0 (dl_LengthOctets h)] else [])
       | RLC_CTRL_BLOCK_OPT_OCTETS \<Rightarrow>
           [InsertBits8 (dl_rbsn h) 1,
            InsertBits8 (dl_rti h) 5,
            InsertBits8 (finalSeg_val (dl_finalSegBit h)) 1,
            InsertBits8 (ac_val (dl_acBit h)) 1] @
           (if dl_acBit h = TFI_D_PRESENT
            then [InsertBits8 (pr_val (dl_powerReduction h)) 2,
                  InsertBits8 (dl_tfi h) 5,
                  InsertBits8 (direction_val (dl_directionBit h)) 1] else [])
       | _ \<Rightarrow> []))"


section \<open>Uplink header\<close>

record ULMacHeader =
  ul_payloadType :: PAYLOAD_TYPE
  ul_retryBit :: RETRY_BIT
  ul_stallInd :: STALL_INDICATOR
  ul_countdownVal :: octet
  ul_tfi :: octet
  ul_tlliInd :: TLLI_INDICATOR
  ul_bsn :: octet
  ul_extensionBit :: EXTENSION_BIT
  ul_LengthOctets :: "LengthOctet list"
  ul_currLengthOctet :: nat
  ul_tlli :: "32 word"

definition ul_AddLengthOctet ::
  "octet \<Rightarrow> MORE_BIT \<Rightarrow> EXTENSION_BIT \<Rightarrow> ULMacHeader \<Rightarrow> RlcMacResult \<times> ULMacHeader" where
  "ul_AddLengthOctet len mb ext h =
     (let i = ul_currLengthOctet h + 1; h' = h\<lparr>ul_currLengthOctet := i\<rparr>
      in (RLC_MAC_SUCCESS,
          if i < MAX_RLC_LENGTH_OCTETS then h'\<lparr>ul_LengthOctets := (ul_LengthOctets h)[i :=
               \<lparr>lo_length = len, lo_moreBit = mb, lo_extensionBit = ext\<rparr>]\<rparr>
          else h'))"

definition ul_GetCurrentLengthOctet :: "ULMacHeader \<Rightarrow> LengthOctet option" where
  "ul_GetCurrentLengthOctet h =
     (if ul_currLengthOctet h < MAX_RLC_LENGTH_OCTETS
      then Some (ul_LengthOctets h ! ul_currLengthOctet h) else None)"

definition ul_GetNextLengthOctet :: "ULMacHeader \<Rightarrow> LengthOctet option \<times> ULMacHeader" where
  "ul_GetNextLengthOctet h =
     (let i = ul_currLengthOctet h + 1; h' = h\<lparr>ul_currLengthOctet := i\<rparr>
      in if i < MAX_RLC_LENGTH_OCTETS then (Some (ul_LengthOctets h ! i), h') else (None, h'))"

definition ul_ResetCurrLengthOctet :: "ULMacHeader \<Rightarrow> ULMacHeader" where
  "ul_ResetCurrLengthOctet h = h\<lparr>ul_currLengthOctet := 0\<rparr>"

text \<open>\<open>extract_field n upd\<close>: \<open>ExtractBits8\<close> of \<open>n\<close> bits into a member of the header.\<close>

abbreviation extract_field :: "nat \<Rightarrow> (octet \<Rightarrow> 'o \<Rightarrow> 'o) \<Rightarrow> ('o \<times> BitStreamIn) step" where
  "extract_field \<equiv> via_get ExtractBits8"

definition upd_lo :: "nat \<Rightarrow> (LengthOctet \<Rightarrow> LengthOctet) \<Rightarrow> ULMacHeader \<Rightarrow> ULMacHeader" where
  "upd_lo i f h = h\<lparr>ul_LengthOctets := (ul_LengthOctets h)[i := f (ul_LengthOctets h ! i)]\<rparr>"

text \<open>
  The do-while loop that reads the length octets, and the mark \<open>INVALID_LENGTH_VAL\<close> written into
  the entry after the last one; \<open>None\<close> when either leaves the array of ten.
\<close>

function DecodeLengthOctets :: "nat \<Rightarrow> (ULMacHeader \<times> BitStreamIn) step" where
  "DecodeLengthOctets i st =
     (if i < MAX_RLC_LENGTH_OCTETS then
        (case run_checked
                [extract_field 6 (\<lambda>v. upd_lo i (\<lambda>lo. lo\<lparr>lo_length := v\<rparr>)),
                 extract_field 1 (\<lambda>v. upd_lo i (\<lambda>lo. lo\<lparr>lo_moreBit := more_of v\<rparr>)),
                 extract_field 1 (\<lambda>v. upd_lo i (\<lambda>lo. lo\<lparr>lo_extensionBit := ext_of v\<rparr>))] st of
           None \<Rightarrow> None
         | Some (r, (h, s)) \<Rightarrow>
             if r \<noteq> RLC_MAC_SUCCESS then Some (r, (h, s))
             else if lo_extensionBit (ul_LengthOctets h ! i) = EXTENSION_OCTET_FOLLOWS
             then DecodeLengthOctets (i + 1) (h, s)
             else if i + 1 < MAX_RLC_LENGTH_OCTETS
             then Some (RLC_MAC_SUCCESS, (upd_lo (i + 1) (\<lambda>lo. lo\<lparr>lo_length := INVALID_LENGTH_VAL\<rparr>) h, s))
             else None)
      else None)"
  by pat_completeness auto
termination
  by (relation "measure (\<lambda>(i, st). MAX_RLC_LENGTH_OCTETS - i)") auto

declare DecodeLengthOctets.simps [simp del]

definition extract_tlli :: "(ULMacHeader \<times> BitStreamIn) step" where
  "extract_tlli = (\<lambda>(h, s).
     case ExtractBits32 32 s of
       None \<Rightarrow> None
     | Some (r, v, s') \<Rightarrow> Some (r, (case v of None \<Rightarrow> h | Some w \<Rightarrow> h\<lparr>ul_tlli := w\<rparr>), s'))"

text \<open>What follows the fixed part of a data block: the length octets and the TLLI, where present.\<close>

definition ul_data_tail :: "(ULMacHeader \<times> BitStreamIn) step list" where
  "ul_data_tail =
     [(\<lambda>(h, s). Some (RLC_MAC_SUCCESS, (ul_ResetCurrLengthOctet h, s))),
      (\<lambda>(h, s). if ul_extensionBit h = EXTENSION_OCTET_FOLLOWS
                then DecodeLengthOctets 0 (h, s) else Some (RLC_MAC_SUCCESS, (h, s))),
      (\<lambda>(h, s). if ul_tlliInd h = TLLI_PRESENT
                then extract_tlli (h, s) else Some (RLC_MAC_SUCCESS, (h, s)))]"

fun ul_body :: "PAYLOAD_TYPE \<Rightarrow> (ULMacHeader \<times> BitStreamIn) step list" where
  "ul_body RLC_CTRL_BLOCK_NO_OPT_OCTETS =
     [extract_field 5 (\<lambda>v h. h),
      extract_field 1 (\<lambda>v h. h\<lparr>ul_retryBit := retry_of v\<rparr>)]"
| "ul_body RLC_DATA_BLOCK =
     [extract_field 4 (\<lambda>v h. h\<lparr>ul_countdownVal := v\<rparr>),
      extract_field 1 (\<lambda>v h. h\<lparr>ul_stallInd := stall_of v\<rparr>),
      extract_field 1 (\<lambda>v h. h\<lparr>ul_retryBit := retry_of v\<rparr>),
      extract_field 2 (\<lambda>v h. h),
      extract_field 5 (\<lambda>v h. h\<lparr>ul_tfi := v\<rparr>),
      extract_field 1 (\<lambda>v h. h\<lparr>ul_tlliInd := tlliInd_of v\<rparr>),
      extract_field 7 (\<lambda>v h. h\<lparr>ul_bsn := v\<rparr>),
      extract_field 1 (\<lambda>v h. h\<lparr>ul_extensionBit := ext_of v\<rparr>)] @ ul_data_tail"
| "ul_body _ = []"

definition DecodeULMacHeader :: "(ULMacHeader \<times> BitStreamIn) step" where
  "DecodeULMacHeader = run_checked
     [extract_field 2 (\<lambda>v h. h\<lparr>ul_payloadType := payload_of v\<rparr>),
      (\<lambda>(h, s). run_checked (ul_body (ul_payloadType h)) (h, s))]"

section \<open>Encoding\<close>

text \<open>The prefix of the length octets up to the first one that announces no successor.\<close>

fun lo_prefix :: "LengthOctet list \<Rightarrow> LengthOctet list" where
  "lo_prefix [] = []"
| "lo_prefix (lo # los) =
     (if lo_extensionBit lo = EXTENSION_OCTET_FOLLOWS then lo # lo_prefix los else [lo])"

definition octets_fields :: "LengthOctet list \<Rightarrow> (octet \<times> nat) list" where
  "octets_fields los = concat (map octet_fields los)"

lemma octets_fields_simps [simp]:
  "octets_fields [] = []" "octets_fields (lo # los) = octet_fields lo @ octets_fields los"
  by (simp_all add: octets_fields_def)

lemma length_octets_fields: "length (fields_bits (octets_fields los)) = 8 * length los"
  by (induction los) (auto simp: octet_fields_def)

lemma octet_fields_fit: "unat (lo_length lo) < 64 \<Longrightarrow> fields_fit (octet_fields lo)"
  by (simp add: octet_fields_def enum_vals)

lemma lo_chain_fit: "lo_chain los \<Longrightarrow> fields_fit (octets_fields los)"
  by (induction los rule: lo_chain.induct) (auto simp: octet_fields_fit)

lemma lo_chain_prefix: "lo_chain los \<Longrightarrow> lo_prefix (los @ extra) = los"
  by (induction los rule: lo_chain.induct) auto

text \<open>The header as a list of fields, in the order of the specification of the air interface.\<close>

definition dl_fields :: "DLMacHeader \<Rightarrow> (octet \<times> nat) list" where
  "dl_fields h =
     [(payload_val (dl_payloadType h), 2), (rrbp_val (dl_rrbp h), 2), (spBit_val (dl_spBit h), 1),
      (dl_usf h, 3)] @
     (case dl_payloadType h of
        RLC_DATA_BLOCK \<Rightarrow>
          [(pr_val (dl_powerReduction h), 2), (dl_tfi h, 5), (fbi_val (dl_fbiBit h), 1),
           (dl_bsn h, 7), (ext_val (dl_extensionBit h), 1)] @
          (if dl_extensionBit h = EXTENSION_OCTET_FOLLOWS
           then octets_fields (lo_prefix (dl_LengthOctets h)) else [])
      | RLC_CTRL_BLOCK_OPT_OCTETS \<Rightarrow>
          [(dl_rbsn h, 1), (dl_rti h, 5), (finalSeg_val (dl_finalSegBit h), 1),
           (ac_val (dl_acBit h), 1)] @
          (if dl_acBit h = TFI_D_PRESENT
           then [(pr_val (dl_powerReduction h), 2), (dl_tfi h, 5),
                 (direction_val (dl_directionBit h), 1)] else [])
      | _ \<Rightarrow> [])"

text \<open>Members within their widths, and a terminated chain of length octets where one is announced.\<close>

definition dl_wf :: "DLMacHeader \<Rightarrow> bool" where
  "dl_wf h \<longleftrightarrow> unat (dl_usf h) < 8 \<and> unat (dl_tfi h) < 32 \<and> unat (dl_bsn h) < 128 \<and>
     unat (dl_rbsn h) < 2 \<and> unat (dl_rti h) < 32 \<and>
     (dl_payloadType h = RLC_DATA_BLOCK \<and> dl_extensionBit h = EXTENSION_OCTET_FOLLOWS \<longrightarrow>
        lo_chain (lo_prefix (dl_LengthOctets h)))"

lemma EncodeLengthOctets_at:
  "EncodeLengthOctets (length pre) (pre @ lo # los) s =
     (case run_ignored (map (\<lambda>(w, n). InsertBits8 w n) (octet_fields lo)) s of
        None \<Rightarrow> None
      | Some (_, s') \<Rightarrow>
          if lo_extensionBit lo = EXTENSION_OCTET_FOLLOWS
          then EncodeLengthOctets (length pre + 1) (pre @ lo # los) s'
          else Some (RLC_MAC_SUCCESS, s'))"
  by (subst EncodeLengthOctets.simps)
    (simp add: octet_fields_def Let_def nth_append del: run_ignored.simps)

lemma length_octet_fields [simp]: "length (fields_bits (octet_fields lo)) = 8"
  by (simp add: octet_fields_def)

lemma octet_fields_put:
  assumes "unat (lo_length lo) < 64" "out_wf s" "out_bitPointer s + 8 \<le> 8 * MAX_BITSTREAM"
  obtains s1 where "run_ignored (map (\<lambda>(w, n). InsertBits8 w n) (octet_fields lo)) s =
      Some (RLC_MAC_SUCCESS, s1)" "out_wf s1" "out_bits s1 = out_bits s @ fields_bits (octet_fields lo)"
    "out_bitPointer s1 = out_bitPointer s + 8"
proof -
  obtain s1 where s1: "run_ignored (map (\<lambda>(w, n). InsertBits8 w n) (octet_fields lo)) s =
      Some (RLC_MAC_SUCCESS, s1)" "out_wf s1" "out_bits s1 = out_bits s @ fields_bits (octet_fields lo)"
    using out.put_fields [of s "octet_fields lo"] assms octet_fields_fit by auto
  moreover have "out_bitPointer s1 = out_bitPointer s + 8"
    using arg_cong [OF s1(3), of length] by simp
  ultimately show ?thesis using that by blast
qed

lemma lo_chain_Cons:
  "lo_chain (lo # los) \<longleftrightarrow> unat (lo_length lo) < 64 \<and>
     (if lo_extensionBit lo = EXTENSION_OCTET_FOLLOWS then lo_chain los else los = [])"
  by (cases los) (auto, metis EXTENSION_BIT.exhaust)

lemma EncodeLengthOctets_bits:
  assumes "lo_chain (lo_prefix los)" "out_wf s"
    "out_bitPointer s + 8 * length (lo_prefix los) \<le> 8 * MAX_BITSTREAM"
  shows "\<exists>s'. EncodeLengthOctets (length pre) (pre @ los) s = Some (RLC_MAC_SUCCESS, s') \<and>
           out_wf s' \<and> out_bits s' = out_bits s @ fields_bits (octets_fields (lo_prefix los))"
  using assms
proof (induction los arbitrary: pre s)
  case Nil
  then show ?case by simp
next
  case (Cons lo los)
  have room: "out_bitPointer s + 8 \<le> 8 * MAX_BITSTREAM" and len: "unat (lo_length lo) < 64"
    using Cons.prems(1,3) by (auto simp: lo_chain_Cons split: if_splits)
  obtain s1 where s1: "run_ignored (map (\<lambda>(w, n). InsertBits8 w n) (octet_fields lo)) s =
      Some (RLC_MAC_SUCCESS, s1)" "out_wf s1" "out_bits s1 = out_bits s @ fields_bits (octet_fields lo)"
    "out_bitPointer s1 = out_bitPointer s + 8"
    using octet_fields_put [OF len Cons.prems(2) room] .
  show ?case
  proof (cases "lo_extensionBit lo = EXTENSION_OCTET_FOLLOWS")
    case False
    with s1 show ?thesis by (simp add: EncodeLengthOctets_at)
  next
    case True
    then have "lo_chain (lo_prefix los)" using Cons.prems(1) by (simp add: lo_chain_Cons)
    then show ?thesis
      using Cons.IH [of s1 "pre @ [lo]"] Cons.prems(3) True s1 by (auto simp: EncodeLengthOctets_at)
  qed
qed

lemma run_ignored_then:
  assumes "run_ignored fs s = Some (r, s1)" "g s1 = Some (r', s2)"
  shows "run_ignored (fs @ [g]) s = Some (RLC_MAC_SUCCESS, s2)"
  using assms by (simp add: run_ignored_append)

text \<open>
  The downlink header. A header whose members fit their fields is encoded as the fields of the
  air interface in order, inside the buffer, and the header fills whole octets: three for a data
  block plus one for each length octet.
\<close>

theorem EncodeDLMacHeader_fields:
  assumes "dl_wf h" "out_wf s"
    "out_bitPointer s + length (fields_bits (dl_fields h)) \<le> 8 * MAX_BITSTREAM"
  shows "\<exists>s'. EncodeDLMacHeader h s = Some (RLC_MAC_SUCCESS, s') \<and> out_wf s' \<and>
           out_bits s' = out_bits s @ fields_bits (dl_fields h) \<and>
           length (fields_bits (dl_fields h)) mod 8 = 0"
proof (cases "dl_payloadType h = RLC_DATA_BLOCK \<and> dl_extensionBit h = EXTENSION_OCTET_FOLLOWS")
  case False
  let ?put = "map (\<lambda>(w, n). InsertBits8 w n)"
  have "EncodeDLMacHeader h = run_ignored (?put (dl_fields h))"
    using False by (cases "dl_payloadType h") (auto simp: EncodeDLMacHeader_def dl_fields_def
        simp del: run_ignored.simps)
  moreover have "fields_fit (dl_fields h)"
    using assms(1) False by (cases "dl_payloadType h") (auto simp: dl_wf_def dl_fields_def enum_vals)
  moreover have "length (fields_bits (dl_fields h)) mod 8 = 0"
    using False by (cases "dl_payloadType h") (auto simp: dl_fields_def)
  ultimately show ?thesis using out.put_fields [of s "dl_fields h"] assms by auto
next
  case True
  define fs where "fs = take 9 (dl_fields h)"
  let ?put = "map (\<lambda>(w, n). InsertBits8 w n)" and ?los = "lo_prefix (dl_LengthOctets h)"
  have enc: "EncodeDLMacHeader h = run_ignored (?put fs @ [EncodeLengthOctets 0 (dl_LengthOctets h)])"
    and dl: "dl_fields h = fs @ octets_fields ?los"
    using True by (auto simp: fs_def EncodeDLMacHeader_def dl_fields_def simp del: run_ignored.simps)
  have fit: "fields_fit fs" and len: "length (fields_bits fs) = 24"
    using assms(1) True by (auto simp: fs_def dl_wf_def dl_fields_def enum_vals)
  obtain s1 where s1: "run_ignored (?put fs) s = Some (RLC_MAC_SUCCESS, s1)" "out_wf s1"
    "out_bits s1 = out_bits s @ fields_bits fs"
    using out.put_fields [of s fs] fit assms(2,3) dl by auto
  have "out_bitPointer s1 = out_bitPointer s + 24" using arg_cong [OF s1(3), of length] len by simp
  then obtain s2 where s2: "EncodeLengthOctets 0 (dl_LengthOctets h) s1 = Some (RLC_MAC_SUCCESS, s2)"
    "out_wf s2" "out_bits s2 = out_bits s1 @ fields_bits (octets_fields ?los)"
    using EncodeLengthOctets_bits [of "dl_LengthOctets h" s1 "[]"] assms True s1(2) dl len
    by (auto simp: dl_wf_def length_octets_fields)
  show ?thesis
    using run_ignored_then [where g = "EncodeLengthOctets 0 (dl_LengthOctets h)", OF s1(1) s2(1)] s2 s1(3) len by (simp add: enc dl length_octets_fields)
qed


definition sample_dl :: DLMacHeader where
  "sample_dl = \<lparr>dl_payloadType = RLC_DATA_BLOCK, dl_rrbp = FN_N_13, dl_spBit = RRBP_VALID, dl_usf = 5,
     dl_rbsn = 0, dl_rti = 0, dl_finalSegBit = NOT_FINAL_SEGMENT, dl_acBit = TFI_D_NOT_PRESENT,
     dl_powerReduction = MODEA_0_2_OR_MODEB_0_6_DB, dl_tfi = 19, dl_fbiBit = LAST_RLC_BLOCK,
     dl_directionBit = DOWNLINK_TBF, dl_bsn = 101, dl_extensionBit = EXTENSION_OCTET_FOLLOWS,
     dl_LengthOctets =
       [\<lparr>lo_length = 11, lo_moreBit = MORE_LLC_DATA, lo_extensionBit = EXTENSION_OCTET_FOLLOWS\<rparr>,
        \<lparr>lo_length = 6, lo_moreBit = NO_MORE_LLC_DATA, lo_extensionBit = NO_EXTENSION_OCTET\<rparr>] @
       replicate 8 \<lparr>lo_length = 0, lo_moreBit = NO_MORE_LLC_DATA, lo_extensionBit = NO_EXTENSION_OCTET\<rparr>,
     dl_currLengthOctet = 1\<rparr>"

theorem EncodeDLMacHeader_fields_witness:
  "\<exists>s'. EncodeDLMacHeader sample_dl BitStreamOut_new = Some (RLC_MAC_SUCCESS, s') \<and> out_wf s' \<and>
        out_bits s' = out_bits BitStreamOut_new @ fields_bits (dl_fields sample_dl) \<and>
        length (fields_bits (dl_fields sample_dl)) mod 8 = 0"
  by (rule EncodeDLMacHeader_fields) (code_simp, simp, code_simp)

section \<open>Decoding\<close>

lemma upd_lo_simps [simp]:
  "i < length (ul_LengthOctets h) \<Longrightarrow> upd_lo i f (upd_lo i g h) = upd_lo i (\<lambda>lo. f (g lo)) h"
  "length (ul_LengthOctets (upd_lo i f h)) = length (ul_LengthOctets h)"
  "ul_extensionBit (upd_lo i f h) = ul_extensionBit h"
  by (auto simp: upd_lo_def)

definition store_octets :: "nat \<Rightarrow> LengthOctet list \<Rightarrow> LengthOctet list \<Rightarrow> LengthOctet list" where
  "store_octets i los arr =
     take i arr @ los @ (arr ! (i + length los))\<lparr>lo_length := INVALID_LENGTH_VAL\<rparr> #
     drop (i + length los + 1) arr"

lemma decode_one_octet:
  assumes "in_wf s" "unat (lo_length lo) < 64" "in_rest s = fields_bits (octet_fields lo) @ bs"
    "i < length (ul_LengthOctets h)"
  obtains s1 where "run_checked
      [extract_field 6 (\<lambda>v. upd_lo i (\<lambda>lo. lo\<lparr>lo_length := v\<rparr>)),
       extract_field 1 (\<lambda>v. upd_lo i (\<lambda>lo. lo\<lparr>lo_moreBit := more_of v\<rparr>)),
       extract_field 1 (\<lambda>v. upd_lo i (\<lambda>lo. lo\<lparr>lo_extensionBit := ext_of v\<rparr>))] (h, s) =
      Some (RLC_MAC_SUCCESS, (upd_lo i (\<lambda>_. lo) h, s1))" "in_wf s1" "in_rest s1 = bs"
proof -
  let ?us = "[\<lambda>v. upd_lo i (\<lambda>lo. lo\<lparr>lo_length := v\<rparr>), \<lambda>v. upd_lo i (\<lambda>lo. lo\<lparr>lo_moreBit := more_of v\<rparr>),
      \<lambda>v. upd_lo i (\<lambda>lo. lo\<lparr>lo_extensionBit := ext_of v\<rparr>)]"
  have "(\<lambda>l. l\<lparr>lo_length := lo_length lo, lo_moreBit := lo_moreBit lo,
      lo_extensionBit := lo_extensionBit lo\<rparr>) = (\<lambda>_. lo)" by auto
  then show ?thesis
    using that inp.get_fields [of s "octet_fields lo" ?us bs h] assms octet_fields_fit [OF assms(2)]
    by (auto simp: octet_fields_def simp del: run_checked.simps)
qed

lemma DecodeLengthOctets_step:
  assumes "in_wf s" "unat (lo_length lo) < 64" "in_rest s = fields_bits (octet_fields lo) @ bs"
    "length (ul_LengthOctets h) = 10" "i < 10"
  shows "\<exists>s1. in_wf s1 \<and> in_rest s1 = bs \<and> DecodeLengthOctets i (h, s) =
      (if lo_extensionBit lo = EXTENSION_OCTET_FOLLOWS
       then DecodeLengthOctets (i + 1) (upd_lo i (\<lambda>_. lo) h, s1)
       else if i + 1 < 10
       then Some (RLC_MAC_SUCCESS, (upd_lo (i + 1) (\<lambda>lo. lo\<lparr>lo_length := INVALID_LENGTH_VAL\<rparr>)
              (upd_lo i (\<lambda>_. lo) h), s1))
       else None)"
proof -
  obtain s1 where "run_checked
      [extract_field 6 (\<lambda>v. upd_lo i (\<lambda>lo. lo\<lparr>lo_length := v\<rparr>)),
       extract_field 1 (\<lambda>v. upd_lo i (\<lambda>lo. lo\<lparr>lo_moreBit := more_of v\<rparr>)),
       extract_field 1 (\<lambda>v. upd_lo i (\<lambda>lo. lo\<lparr>lo_extensionBit := ext_of v\<rparr>))] (h, s) =
      Some (RLC_MAC_SUCCESS, (upd_lo i (\<lambda>_. lo) h, s1))" "in_wf s1" "in_rest s1 = bs"
    using decode_one_octet [OF assms(1-3), of i h] assms(4,5) by auto
  moreover have "ul_LengthOctets (upd_lo i (\<lambda>_. lo) h) ! i = lo" using assms(4,5) by (simp add: upd_lo_def)
  ultimately show ?thesis
    using assms(5) by (subst DecodeLengthOctets.simps) (auto simp del: run_checked.simps)
qed

lemma DecodeLengthOctets_chain:
  assumes "lo_chain los" "in_wf s" "in_rest s = fields_bits (octets_fields los) @ bs"
    "length (ul_LengthOctets h) = 10" "i + length los < 10"
  shows "\<exists>s'. DecodeLengthOctets i (h, s) = Some (RLC_MAC_SUCCESS,
             (h\<lparr>ul_LengthOctets := store_octets i los (ul_LengthOctets h)\<rparr>, s')) \<and>
           in_wf s' \<and> in_rest s' = bs"
  using assms
proof (induction los arbitrary: i h s)
  case Nil
  then show ?case by simp
next
  case (Cons lo los)
  let ?a = "ul_LengthOctets h" and ?h = "upd_lo i (\<lambda>_. lo) h"
  obtain s1 where s1: "in_wf s1" "in_rest s1 = fields_bits (octets_fields los) @ bs"
    "DecodeLengthOctets i (h, s) =
      (if lo_extensionBit lo = EXTENSION_OCTET_FOLLOWS then DecodeLengthOctets (i + 1) (?h, s1)
       else if i + 1 < 10
       then Some (RLC_MAC_SUCCESS, (upd_lo (i + 1) (\<lambda>lo. lo\<lparr>lo_length := INVALID_LENGTH_VAL\<rparr>) ?h, s1))
       else None)"
    using DecodeLengthOctets_step [of s lo "fields_bits (octets_fields los) @ bs" h i] Cons.prems
    by (auto simp: lo_chain_Cons)
  show ?case
  proof (cases "lo_extensionBit lo = EXTENSION_OCTET_FOLLOWS")
    case True
    have "store_octets (i + 1) los (ul_LengthOctets ?h) = store_octets i (lo # los) ?a"
      using Cons.prems(4,5) by (auto simp: store_octets_def upd_lo_def take_Suc_conv_app_nth take_update_swap
            list_update_append)
    then show ?thesis
      using Cons.IH [of s1 ?h "i + 1"] Cons.prems True s1 by (auto simp: lo_chain_Cons upd_lo_def)
  next
    case False
    then have los: "los = []" using Cons.prems(1) by (simp add: lo_chain_Cons)
    have "?a[i := lo, i + 1 := (?a ! (i + 1))\<lparr>lo_length := 0xff\<rparr>] = store_octets i [lo] ?a"
      using Cons.prems(4,5) los
      by (auto simp: store_octets_def nth_list_update nth_append nth_Cons' intro!: nth_equalityI)
        (rule arg_cong [where f = "(!) (ul_LengthOctets h)"], arith)
    then show ?thesis using s1 False los Cons.prems(4,5) by (simp add: upd_lo_def)
  qed
qed

lemma DecodeLengthOctets_overrun:
  assumes "lo_chain los" "in_wf s" "in_rest s = fields_bits (octets_fields los) @ bs"
    "length (ul_LengthOctets h) = 10" "10 \<le> i + length los"
  shows "DecodeLengthOctets i (h, s) = None"
  using assms
proof (induction los arbitrary: i h s)
  case Nil
  then show ?case by simp
next
  case (Cons lo los)
  show ?case
  proof (cases "i < 10")
    case False
    then show ?thesis by (subst DecodeLengthOctets.simps) simp
  next
    case True
    obtain s1 where s1: "in_wf s1" "in_rest s1 = fields_bits (octets_fields los) @ bs"
      "DecodeLengthOctets i (h, s) =
        (if lo_extensionBit lo = EXTENSION_OCTET_FOLLOWS
         then DecodeLengthOctets (i + 1) (upd_lo i (\<lambda>_. lo) h, s1)
         else if i + 1 < 10
         then Some (RLC_MAC_SUCCESS, (upd_lo (i + 1) (\<lambda>lo. lo\<lparr>lo_length := INVALID_LENGTH_VAL\<rparr>)
              (upd_lo i (\<lambda>_. lo) h), s1))
         else None)"
      using DecodeLengthOctets_step [of s lo "fields_bits (octets_fields los) @ bs" h i] Cons.prems True
      by (auto simp: lo_chain_Cons)
    then show ?thesis
      using Cons.IH [of s1 "upd_lo i (\<lambda>_. lo) h" "i + 1"] Cons.prems
      by (auto simp: lo_chain_Cons split: if_splits)
  qed
qed


text \<open>An uplink data block as the mobile sends it: header, length octets, TLLI.\<close>

definition ul_data_fields :: "ULMacHeader \<Rightarrow> octet \<Rightarrow> (octet \<times> nat) list" where
  "ul_data_fields g spare =
     [(ul_countdownVal g, 4), (stall_val (ul_stallInd g), 1), (retry_val (ul_retryBit g), 1),
      (spare, 2), (ul_tfi g, 5), (tlliInd_val (ul_tlliInd g), 1), (ul_bsn g, 7),
      (ext_val (ul_extensionBit g), 1)]"

definition ul_data_bits :: "ULMacHeader \<Rightarrow> octet \<Rightarrow> LengthOctet list \<Rightarrow> bool list" where
  "ul_data_bits g spare los =
     field 2 (payload_val RLC_DATA_BLOCK) @ fields_bits (ul_data_fields g spare) @
     (if ul_extensionBit g = EXTENSION_OCTET_FOLLOWS then fields_bits (octets_fields los) else []) @
     (if ul_tlliInd g = TLLI_PRESENT then field 32 (ul_tlli g) else [])"

definition ul_wf :: "ULMacHeader \<Rightarrow> octet \<Rightarrow> LengthOctet list \<Rightarrow> bool" where
  "ul_wf g spare los \<longleftrightarrow> unat (ul_countdownVal g) < 16 \<and> unat spare < 4 \<and> unat (ul_tfi g) < 32 \<and>
     unat (ul_bsn g) < 128 \<and> (ul_extensionBit g = EXTENSION_OCTET_FOLLOWS \<longrightarrow> lo_chain los)"

text \<open>The header object after the fixed part of a data block has been read.\<close>

definition ul_after_fixed :: "ULMacHeader \<Rightarrow> ULMacHeader \<Rightarrow> ULMacHeader" where
  "ul_after_fixed g h =
     h\<lparr>ul_payloadType := RLC_DATA_BLOCK, ul_countdownVal := ul_countdownVal g,
       ul_stallInd := ul_stallInd g, ul_retryBit := ul_retryBit g, ul_tfi := ul_tfi g,
       ul_tlliInd := ul_tlliInd g, ul_bsn := ul_bsn g, ul_extensionBit := ul_extensionBit g,
       ul_currLengthOctet := 0\<rparr>"

lemma DecodeULMacHeader_fixed:
  assumes "in_wf s" "ul_wf g spare los"
    "in_rest s = field 2 (payload_val RLC_DATA_BLOCK) @ fields_bits (ul_data_fields g spare) @ bs"
  shows "\<exists>s1. in_wf s1 \<and> in_rest s1 = bs \<and>
           DecodeULMacHeader (h, s) = run_checked (tl ul_data_tail) (ul_after_fixed g h, s1)"
proof -
  obtain s0 where s0: "ExtractBits8 2 s = Some (RLC_MAC_SUCCESS, Some (payload_val RLC_DATA_BLOCK), s0)"
    "in_wf s0" "in_rest s0 = fields_bits (ul_data_fields g spare) @ bs"
    using inp.get_ok [of s 2 "payload_val RLC_DATA_BLOCK"] assms by auto
  let ?h = "h\<lparr>ul_payloadType := RLC_DATA_BLOCK\<rparr>"
  let ?us = "[\<lambda>v h. h\<lparr>ul_countdownVal := v\<rparr>, \<lambda>v h. h\<lparr>ul_stallInd := stall_of v\<rparr>,
      \<lambda>v h. h\<lparr>ul_retryBit := retry_of v\<rparr>, \<lambda>v h. h, \<lambda>v h. h\<lparr>ul_tfi := v\<rparr>,
      \<lambda>v h. h\<lparr>ul_tlliInd := tlliInd_of v\<rparr>, \<lambda>v h. h\<lparr>ul_bsn := v\<rparr>,
      \<lambda>v h. h\<lparr>ul_extensionBit := ext_of v\<rparr>]"
  let ?steps = "map2 (\<lambda>(_, n) upd. extract_field n upd) (ul_data_fields g spare) ?us"
  let ?h1 = "fold (\<lambda>((w, _), upd). upd w) (zip (ul_data_fields g spare) ?us) ?h"
  obtain s1 where s1: "run_checked ?steps (?h, s0) = Some (RLC_MAC_SUCCESS, ?h1, s1)"
    "in_wf s1" "in_rest s1 = bs"
    using inp.get_fields [of s0 "ul_data_fields g spare" ?us bs ?h] assms(2) s0
    by (auto simp: ul_data_fields_def ul_wf_def enum_vals)
  have body: "ul_body RLC_DATA_BLOCK = ?steps @ ul_data_tail"
    by (simp add: ul_data_fields_def)
  have h1: "ul_ResetCurrLengthOctet ?h1 = ul_after_fixed g h"
    by (simp add: ul_data_fields_def ul_ResetCurrLengthOctet_def ul_after_fixed_def)
  have "DecodeULMacHeader (h, s) = run_checked (ul_body RLC_DATA_BLOCK) (?h, s0)"
    using s0(1) by (auto simp: DecodeULMacHeader_def via_get_def payload_of_def
        simp del: ul_body.simps split: option.splits)
  also have "\<dots> = run_checked ul_data_tail (?h1, s1)"
    unfolding body run_checked_append s1(1) by simp
  also have "\<dots> = run_checked (tl ul_data_tail) (ul_after_fixed g h, s1)"
    unfolding h1 [symmetric] by (simp add: ul_data_tail_def)
  finally show ?thesis using s1 by auto
qed

text \<open>
  C5: the uplink header. Decoding the bits of a data block whose chain of length octets has at most
  nine octets succeeds, restores every field that was sent, stores the length octets in order
  followed by the end mark, and leaves the stream at the first octet of RLC data.
\<close>

theorem DecodeULMacHeader_roundtrip:
  assumes "in_wf s" "ul_wf g spare los" "in_rest s = ul_data_bits g spare los @ bs"
    "length (ul_LengthOctets h) = 10" "length los < 10"
  shows "\<exists>h' s'. DecodeULMacHeader (h, s) = Some (RLC_MAC_SUCCESS, (h', s')) \<and>
           in_wf s' \<and> in_rest s' = bs \<and>
           h' = (ul_after_fixed g h)\<lparr>
             ul_LengthOctets := (if ul_extensionBit g = EXTENSION_OCTET_FOLLOWS
                                 then store_octets 0 los (ul_LengthOctets h) else ul_LengthOctets h),
             ul_tlli := (if ul_tlliInd g = TLLI_PRESENT then ul_tlli g else ul_tlli h)\<rparr>"
proof -
  let ?t = "if ul_tlliInd g = TLLI_PRESENT then field 32 (ul_tlli g) else []"
  let ?o = "if ul_extensionBit g = EXTENSION_OCTET_FOLLOWS then fields_bits (octets_fields los) else []"
  obtain s1 where s1: "in_wf s1" "in_rest s1 = ?o @ ?t @ bs"
    "DecodeULMacHeader (h, s) = run_checked (tl ul_data_tail) (ul_after_fixed g h, s1)"
    using DecodeULMacHeader_fixed [of s g spare los "?o @ ?t @ bs" h] assms
    by (auto simp: ul_data_bits_def)
  define h2 where "h2 = (ul_after_fixed g h)\<lparr>ul_LengthOctets :=
      (if ul_extensionBit g = EXTENSION_OCTET_FOLLOWS
       then store_octets 0 los (ul_LengthOctets h) else ul_LengthOctets h)\<rparr>"
  have "\<exists>s2. in_wf s2 \<and> in_rest s2 = ?t @ bs \<and>
      (if ul_extensionBit g = EXTENSION_OCTET_FOLLOWS
       then DecodeLengthOctets 0 (ul_after_fixed g h, s1)
       else Some (RLC_MAC_SUCCESS, (ul_after_fixed g h, s1))) = Some (RLC_MAC_SUCCESS, (h2, s2))"
    using DecodeLengthOctets_chain [of los s1 "?t @ bs" "ul_after_fixed g h" 0] s1 assms
    by (auto simp: ul_wf_def h2_def ul_after_fixed_def)
  then obtain s2 where s2: "in_wf s2" "in_rest s2 = ?t @ bs"
      "(if ul_extensionBit g = EXTENSION_OCTET_FOLLOWS
       then DecodeLengthOctets 0 (ul_after_fixed g h, s1)
       else Some (RLC_MAC_SUCCESS, (ul_after_fixed g h, s1))) = Some (RLC_MAC_SUCCESS, (h2, s2))"
    by blast
  have u: "unat (ul_tlli g) < 2 ^ 32" using unsigned_less [of "ul_tlli g"] by simp
  have "\<exists>s3. in_wf s3 \<and> in_rest s3 = bs \<and>
      (if ul_tlliInd g = TLLI_PRESENT then extract_tlli (h2, s2) else Some (RLC_MAC_SUCCESS, (h2, s2)))
        = Some (RLC_MAC_SUCCESS,
            (h2\<lparr>ul_tlli := if ul_tlliInd g = TLLI_PRESENT then ul_tlli g else ul_tlli h\<rparr>, s3))"
    using ExtractBits32_field [of s2 32 "ul_tlli g" bs] s2 u
    by (auto simp: extract_tlli_def h2_def ul_after_fixed_def)
  then show ?thesis
    using s1(3) s2(3) by (auto simp: ul_data_tail_def ul_after_fixed_def h2_def)
qed


definition sample_ul :: ULMacHeader where
  "sample_ul = \<lparr>ul_payloadType = RLC_DATA_BLOCK, ul_retryBit = TWO_OR_MORE_CHAN_REQ,
     ul_stallInd = NOT_STALLED, ul_countdownVal = 2, ul_tfi = 19, ul_tlliInd = TLLI_PRESENT,
     ul_bsn = 101, ul_extensionBit = EXTENSION_OCTET_FOLLOWS,
     ul_LengthOctets = replicate 10
       \<lparr>lo_length = 0, lo_moreBit = NO_MORE_LLC_DATA, lo_extensionBit = NO_EXTENSION_OCTET\<rparr>,
     ul_currLengthOctet = 0, ul_tlli = 0xDEADBEEF\<rparr>"

definition sample_lo :: "EXTENSION_BIT \<Rightarrow> LengthOctet" where
  "sample_lo e = \<lparr>lo_length = 11, lo_moreBit = MORE_LLC_DATA, lo_extensionBit = e\<rparr>"

definition sample_ul_stream :: "octet list \<Rightarrow> BitStreamIn" where
  "sample_ul_stream dat = \<lparr>in_dataStream = dat @ replicate (53 - length dat) 0, in_bitPointer = 0,
     in_streamLen = length dat, in_currByte = 0\<rparr>"

theorem DecodeULMacHeader_roundtrip_witness:
  "\<exists>h' s'. DecodeULMacHeader (sample_ul,
      sample_ul_stream [0x09, 0x27, 0xCA, 0x2F, 0xDE, 0xAD, 0xBE, 0xEF, 0xAA]) =
      Some (RLC_MAC_SUCCESS, (h', s')) \<and> in_rest s' = field 8 (0xAA :: octet) \<and>
      ul_bsn h' = 101 \<and> ul_tlli h' = 0xDEADBEEF"
proof -
  let ?s = "sample_ul_stream [0x09, 0x27, 0xCA, 0x2F, 0xDE, 0xAD, 0xBE, 0xEF, 0xAA]"
  let ?los = "[sample_lo NO_EXTENSION_OCTET]"
  have "in_wf ?s" by code_simp
  moreover have "ul_wf sample_ul 0 ?los" by code_simp
  moreover have "in_rest ?s = ul_data_bits sample_ul 0 ?los @ field 8 (0xAA :: octet)" by code_simp
  moreover have "length (ul_LengthOctets sample_ul) = 10" by code_simp
  ultimately show ?thesis
    using DecodeULMacHeader_roundtrip [of ?s sample_ul 0 ?los "field 8 (0xAA :: octet)" sample_ul]
    by (fastforce simp: ul_after_fixed_def sample_ul_def)
qed

text \<open>
  The length octets are read without a bound. A data block that carries ten or more length
  octets (a CS-1 block has room for twenty) makes the decoder write past the array of ten.
\<close>

theorem DecodeULMacHeader_overrun:
  assumes "in_wf s" "ul_wf g spare los" "in_rest s = ul_data_bits g spare los @ bs"
    "length (ul_LengthOctets h) = 10" "ul_extensionBit g = EXTENSION_OCTET_FOLLOWS" "10 \<le> length los"
  shows "DecodeULMacHeader (h, s) = None"
proof -
  let ?t = "if ul_tlliInd g = TLLI_PRESENT then field 32 (ul_tlli g) else []"
  obtain s1 where s1: "in_wf s1" "in_rest s1 = fields_bits (octets_fields los) @ ?t @ bs"
    "DecodeULMacHeader (h, s) = run_checked (tl ul_data_tail) (ul_after_fixed g h, s1)"
    using DecodeULMacHeader_fixed [of s g spare los "fields_bits (octets_fields los) @ ?t @ bs" h] assms
    by (auto simp: ul_data_bits_def)
  have "DecodeLengthOctets 0 (ul_after_fixed g h, s1) = None"
    using DecodeLengthOctets_overrun [of los s1 "?t @ bs" "ul_after_fixed g h" 0] s1 assms
    by (auto simp: ul_wf_def ul_after_fixed_def)
  then show ?thesis using s1(3) assms(5) by (simp add: ul_data_tail_def ul_after_fixed_def)
qed

theorem DecodeULMacHeader_overrun_witness:
  "DecodeULMacHeader (sample_ul, sample_ul_stream
     ([0x09, 0x26, 0xCA] @ replicate 9 0x2E @ [0x2F] @ replicate 10 0)) = None"
proof -
  let ?s = "sample_ul_stream ([0x09, 0x26, 0xCA] @ replicate 9 0x2E @ [0x2F] @ replicate 10 0)"
  let ?g = "sample_ul\<lparr>ul_tlliInd := TLLI_NOT_PRESENT\<rparr>"
  let ?los = "replicate 9 (sample_lo EXTENSION_OCTET_FOLLOWS) @ [sample_lo NO_EXTENSION_OCTET]"
  have "in_wf ?s" by code_simp
  moreover have "ul_wf ?g 0 ?los" by code_simp
  moreover have "in_rest ?s = ul_data_bits ?g 0 ?los @ replicate 80 False" by code_simp
  moreover have "length (ul_LengthOctets sample_ul) = 10" by code_simp
  moreover have "ul_extensionBit ?g = EXTENSION_OCTET_FOLLOWS" by code_simp
  ultimately show ?thesis
    by (rule DecodeULMacHeader_overrun) simp
qed

end
