(* ===== verification/AckNackIe.thy ===== *)
theory AckNackIe
  imports MacHeader
begin

text \<open>
  Two information elements that the RLC links own: the ack/nack description with its received
  block bitmap (\<^verbatim>\<open>Rlc_mac/include/ieAckNackDescription.h\<close> and its \<^verbatim>\<open>.cpp\<close>), which is both
  encoded and decoded, and the channel coding command
  (\<^verbatim>\<open>Rlc_mac/include/ieChannelCodingCommand.h\<close>), which fixes the size of an RLC block.
\<close>

section \<open>Channel coding command\<close>

datatype CHANNEL_CODING_COMMAND = CS_1 | CS_2 | CS_3 | CS_4

fun coding_val :: "CHANNEL_CODING_COMMAND \<Rightarrow> octet" where
  "coding_val CS_1 = 0" | "coding_val CS_2 = 1" | "coding_val CS_3 = 2" | "coding_val CS_4 = 3"

record IeChannelCodingCommand =
  cc_isValid :: bool
  cc_coding :: CHANNEL_CODING_COMMAND

definition SetChannelCodingCommand ::
  "CHANNEL_CODING_COMMAND \<Rightarrow> IeChannelCodingCommand \<Rightarrow> RlcMacResult \<times> IeChannelCodingCommand" where
  "SetChannelCodingCommand v c = (RLC_MAC_SUCCESS, c\<lparr>cc_coding := v, cc_isValid := True\<rparr>)"

definition ClearChannelCodingCommand :: "IeChannelCodingCommand \<Rightarrow> IeChannelCodingCommand" where
  "ClearChannelCodingCommand c = c\<lparr>cc_isValid := False\<rparr>"

fun GetNumFillBytes :: "CHANNEL_CODING_COMMAND \<Rightarrow> nat" where
  "GetNumFillBytes CS_1 = 20"
| "GetNumFillBytes CS_2 = 30"
| "GetNumFillBytes CS_3 = 36"
| "GetNumFillBytes CS_4 = 50"

fun GetRLCDataBlockSize :: "CHANNEL_CODING_COMMAND \<Rightarrow> nat" where
  "GetRLCDataBlockSize CS_1 = 23"
| "GetRLCDataBlockSize CS_2 = 33"
| "GetRLCDataBlockSize CS_3 = 39"
| "GetRLCDataBlockSize CS_4 = 53"

definition cc_EncodeIe :: "IeChannelCodingCommand \<Rightarrow> BitStreamOut step" where
  "cc_EncodeIe c s =
     (if cc_isValid c then run_ignored [InsertBits8 (coding_val (cc_coding c)) 2] s
      else Some (RLC_MAC_INVALID_IE, s))"

text \<open>\<open>DLMacHeader::GetDataHdrSize\<close>: the fixed part of a data block header.\<close>

definition GetDataHdrSize :: nat where
  "GetDataHdrSize = 3"

text \<open>
  The fill that replaces a missing RLC block is exactly the payload of a block of the same
  coding: its size less the three header octets; and every coded block fits a stream buffer.
\<close>

theorem fill_is_block_payload:
  "GetNumFillBytes c + GetDataHdrSize = GetRLCDataBlockSize c \<and> GetRLCDataBlockSize c \<le> MAX_BITSTREAM"
  by (cases c) (simp_all add: GetDataHdrSize_def)

section \<open>Ack/nack description\<close>

abbreviation (input) RRB_SIZE :: nat where "RRB_SIZE \<equiv> 8"

datatype FINAL_ACK_INDICATION = TBF_INCOMPLETE | TBF_COMPLETE

fun finalAck_val :: "FINAL_ACK_INDICATION \<Rightarrow> octet" where
  "finalAck_val TBF_INCOMPLETE = 0" | "finalAck_val TBF_COMPLETE = 1"

definition finalAck_of :: "octet \<Rightarrow> FINAL_ACK_INDICATION" where
  "finalAck_of v = (if v = 0 then TBF_INCOMPLETE else TBF_COMPLETE)"

lemma finalAck_fits [enum_vals]: "unat (finalAck_val f) < 2"
  by (cases f) simp_all

lemma finalAck_inverse [simp]: "finalAck_of (finalAck_val f) = f"
  by (cases f) (simp_all add: finalAck_of_def)

record IeAckNackDescription =
  an_isValid :: bool
  an_finalAckIndication :: FINAL_ACK_INDICATION
  an_startingSeqNum :: octet
  an_recBlockBitmap :: "octet list"

definition SetAckNackDescription ::
  "FINAL_ACK_INDICATION \<Rightarrow> octet \<Rightarrow> octet list \<Rightarrow> IeAckNackDescription \<Rightarrow>
   RlcMacResult \<times> IeAckNackDescription" where
  "SetAckNackDescription finalAck ssn rrb d =
     (if ssn \<le> 127 then
        (RLC_MAC_SUCCESS, d\<lparr>an_finalAckIndication := finalAck, an_startingSeqNum := ssn,
                            an_recBlockBitmap := rrb, an_isValid := True\<rparr>)
      else (RLC_MAC_PARAMETER_RANGE_ERROR, d))"

definition ClearAckNackDescription :: "IeAckNackDescription \<Rightarrow> IeAckNackDescription" where
  "ClearAckNackDescription d = d\<lparr>an_isValid := False\<rparr>"

definition an_EncodeIe :: "IeAckNackDescription \<Rightarrow> BitStreamOut step" where
  "an_EncodeIe d s =
     (if an_isValid d then
        run_ignored [InsertBits8 (finalAck_val (an_finalAckIndication d)) 1,
                     InsertBits8 (an_startingSeqNum d) 7,
                     InsertBytesN (an_recBlockBitmap d) RRB_SIZE] s
      else Some (RLC_MAC_INVALID_IE, s))"

definition extract_bitmap :: "(IeAckNackDescription \<times> BitStreamIn) step" where
  "extract_bitmap = (\<lambda>(d, s).
     case ExtractBytesN (int RRB_SIZE) s of
       None \<Rightarrow> None
     | Some (r, v, s') \<Rightarrow>
         Some (r, (case v of None \<Rightarrow> d | Some bs \<Rightarrow> d\<lparr>an_recBlockBitmap := bs\<rparr>), s'))"

definition an_DecodeIe :: "(IeAckNackDescription \<times> BitStreamIn) step" where
  "an_DecodeIe = run_checked
     [extract_field 1 (\<lambda>v d. d\<lparr>an_finalAckIndication := finalAck_of v\<rparr>),
      extract_field 7 (\<lambda>v d. d\<lparr>an_startingSeqNum := v\<rparr>),
      extract_bitmap,
      (\<lambda>(d, s). Some (RLC_MAC_SUCCESS, (d\<lparr>an_isValid := True\<rparr>, s)))]"

definition an_bits :: "IeAckNackDescription \<Rightarrow> bool list" where
  "an_bits d = field 1 (finalAck_val (an_finalAckIndication d)) @ field 7 (an_startingSeqNum d) @
     octets_bits (an_recBlockBitmap d)"

definition an_wf :: "IeAckNackDescription \<Rightarrow> bool" where
  "an_wf d \<longleftrightarrow> an_isValid d \<and> unat (an_startingSeqNum d) < 128 \<and>
     length (an_recBlockBitmap d) = RRB_SIZE"

lemma an_EncodeIe_bits:
  assumes "an_wf d" "out_wf s" "out_bitPointer s + 72 \<le> 8 * MAX_BITSTREAM"
  shows "\<exists>s'. an_EncodeIe d s = Some (RLC_MAC_SUCCESS, s') \<and> out_wf s' \<and>
           out_bits s' = out_bits s @ an_bits d"
proof -
  let ?fs = "[(finalAck_val (an_finalAckIndication d), 1), (an_startingSeqNum d, 7)]"
  obtain s1 where s1: "run_ignored (map (\<lambda>(w, n). InsertBits8 w n) ?fs) s = Some (RLC_MAC_SUCCESS, s1)"
    "out_wf s1" "out_bits s1 = out_bits s @ fields_bits ?fs"
    using out.put_fields [of s ?fs] assms by (auto simp: an_wf_def enum_vals)
  have "out_bitPointer s1 = out_bitPointer s + 8" using arg_cong [OF s1(3), of length] by simp
  then obtain s2 where s2: "InsertBytesN (an_recBlockBitmap d) RRB_SIZE s1 = Some (RLC_MAC_SUCCESS, s2)"
    "out_wf s2" "out_bits s2 = out_bits s1 @ octets_bits (an_recBlockBitmap d)"
    using InsertBytesN_bits [of s1 "an_recBlockBitmap d"] s1 assms by (auto simp: an_wf_def)
  have "run_ignored (map (\<lambda>(w, n). InsertBits8 w n) ?fs @ [InsertBytesN (an_recBlockBitmap d) RRB_SIZE]) s =
      Some (RLC_MAC_SUCCESS, s2)"
    using s1(1) s2(1) by (simp only: run_ignored_append) simp
  then show ?thesis
    using assms(1) s1 s2 by (auto simp: an_EncodeIe_def an_wf_def an_bits_def simp del: run_ignored.simps)
qed

lemma an_DecodeIe_bits:
  assumes "an_wf d" "in_wf s" "in_rest s = an_bits d @ bs"
  shows "\<exists>s'. an_DecodeIe (x, s) = Some (RLC_MAC_SUCCESS, (d, s')) \<and> in_wf s' \<and> in_rest s' = bs"
proof -
  let ?fs = "[(finalAck_val (an_finalAckIndication d), 1), (an_startingSeqNum d, 7)]"
  let ?us = "[\<lambda>v d. d\<lparr>an_finalAckIndication := finalAck_of v\<rparr>, \<lambda>v d. d\<lparr>an_startingSeqNum := v\<rparr>]"
  let ?rest = "octets_bits (an_recBlockBitmap d) @ bs"
  let ?x = "x\<lparr>an_finalAckIndication := an_finalAckIndication d, an_startingSeqNum := an_startingSeqNum d\<rparr>"
  obtain s1 where s1: "run_checked [extract_field 1 (\<lambda>v d. d\<lparr>an_finalAckIndication := finalAck_of v\<rparr>),
      extract_field 7 (\<lambda>v d. d\<lparr>an_startingSeqNum := v\<rparr>)] (x, s) = Some (RLC_MAC_SUCCESS, ?x, s1)"
    "in_wf s1" "in_rest s1 = ?rest"
    using inp.get_fields [of s ?fs ?us ?rest x] assms
    by (auto simp: an_wf_def an_bits_def enum_vals simp del: run_checked.simps)
  obtain s2 where s2: "ExtractBytesN (int RRB_SIZE) s1 = Some (RLC_MAC_SUCCESS, Some (an_recBlockBitmap d), s2)"
    "in_wf s2" "in_rest s2 = bs"
    using ExtractBytesN_bits [of s1 "an_recBlockBitmap d" bs] s1 assms(1) by (auto simp: an_wf_def)
  have "run_checked ([extract_field 1 (\<lambda>v d. d\<lparr>an_finalAckIndication := finalAck_of v\<rparr>),
      extract_field 7 (\<lambda>v d. d\<lparr>an_startingSeqNum := v\<rparr>)] @
      [extract_bitmap, (\<lambda>(d, s). Some (RLC_MAC_SUCCESS, (d\<lparr>an_isValid := True\<rparr>, s)))]) (x, s) =
      Some (RLC_MAC_SUCCESS, (d, s2))"
    using assms(1) s2(1) unfolding run_checked_append s1(1) by (simp add: extract_bitmap_def an_wf_def)
  then show ?thesis
    using s2 by (auto simp: an_DecodeIe_def simp del: run_checked.simps)
qed

text \<open>
  Round trip of the ack/nack description. A valid description (sequence number below 128, an
  eight-octet bitmap) is encoded into 72 bits, and decoding any stream whose unread part starts
  with those bits restores the description, validity flag included, and stops right after them.
\<close>

theorem an_roundtrip:
  assumes "an_wf d" "out_wf s" "out_bitPointer s + 72 \<le> 8 * MAX_BITSTREAM"
  shows "\<exists>s'. an_EncodeIe d s = Some (RLC_MAC_SUCCESS, s') \<and> out_wf s' \<and>
           length (out_bits s') = length (out_bits s) + 72 \<and>
           (\<forall>x si bs. in_wf si \<and> in_rest si = drop (length (out_bits s)) (out_bits s') @ bs \<longrightarrow>
              (\<exists>si'. an_DecodeIe (x, si) = Some (RLC_MAC_SUCCESS, (d, si')) \<and> in_rest si' = bs))"
proof -
  obtain s' where s': "an_EncodeIe d s = Some (RLC_MAC_SUCCESS, s')" "out_wf s'"
    "out_bits s' = out_bits s @ an_bits d"
    using an_EncodeIe_bits [OF assms] by blast
  have "length (an_bits d) = 72" using assms(1) by (simp add: an_bits_def an_wf_def)
  then have "length (out_bits s') = length (out_bits s) + 72" unfolding s'(3) by (simp only: length_append)
  moreover have "drop (length (out_bits s)) (out_bits s') = an_bits d"
    unfolding s'(3) by (simp del: length_out_bits)
  ultimately show ?thesis using s'(1,2) an_DecodeIe_bits [OF assms(1)] by metis
qed

theorem an_roundtrip_witness:
  "\<exists>s'. an_EncodeIe \<lparr>an_isValid = True, an_finalAckIndication = TBF_COMPLETE,
           an_startingSeqNum = 77, an_recBlockBitmap = [1, 2, 3, 4, 5, 6, 7, 255]\<rparr> BitStreamOut_new =
           Some (RLC_MAC_SUCCESS, s') \<and> out_bitPointer s' = 72"
  using an_roundtrip [of "\<lparr>an_isValid = True, an_finalAckIndication = TBF_COMPLETE,
           an_startingSeqNum = 77, an_recBlockBitmap = [1, 2, 3, 4, 5, 6, 7, 255]\<rparr>" BitStreamOut_new]
  by (auto simp: an_wf_def)

end
