(* ===== verification/ResourceTables.thy ===== *)
theory ResourceTables
  imports RlcPrelude
begin

text \<open>
  The per-timeslot resource tables \<open>TAITable\<close> (timing advance indices) and \<open>USFTable\<close> (uplink
  state flags) of \<^verbatim>\<open>Rlc_mac/src/TAITable.cpp\<close> and \<^verbatim>\<open>Rlc_mac/src/USFTable.cpp\<close>, and the
  interface \<open>slot_allocator\<close> that they share with the TFI tables of the timeslot pool: an
  allocator hands out small identifiers, one holder each.

  A table is the array of holders: \<open>None\<close> is the null pointer.
\<close>

section \<open>The tables\<close>

abbreviation (input) INVALID_TAI :: octet where "INVALID_TAI \<equiv> 0xff"
abbreviation (input) INVALID_USF :: octet where "INVALID_USF \<equiv> 0xff"

type_synonym 'p table = "'p option list"

text \<open>The search loop \<^verbatim>\<open>for (i = lo; i < hi; i++) if (entry[i] == 0)\<close>.\<close>

function first_free :: "nat \<Rightarrow> nat \<Rightarrow> 'p table \<Rightarrow> nat option" where
  "first_free i hi t =
     (if i < hi then (if t ! i = None then Some i else first_free (i + 1) hi t) else None)"
  by pat_completeness auto
termination
  by (relation "measure (\<lambda>(i, hi, t). hi - i)") auto

declare first_free.simps [simp del]

definition TAITable_new :: "'p table" where
  "TAITable_new = replicate MAX_TAI_PER_TS None"

definition AllocateTAI :: "'p \<Rightarrow> 'p table \<Rightarrow> octet \<times> 'p table" where
  "AllocateTAI pTbf t =
     (case first_free 0 MAX_TAI_PER_TS t of
        Some i \<Rightarrow> (of_nat i, t[i := Some pTbf])
      | None \<Rightarrow> (INVALID_TAI, t))"

definition ReleaseTAI :: "octet \<Rightarrow> 'p table \<Rightarrow> 'p table" where
  "ReleaseTAI tai t = (if unat tai < MAX_TAI_PER_TS then t[unat tai := None] else t)"

definition USFTable_new :: "'p table" where
  "USFTable_new = replicate MAX_USF_PER_TS None"

definition AllocateUSF :: "'p \<Rightarrow> 'p table \<Rightarrow> octet \<times> 'p table" where
  "AllocateUSF pTbf t =
     (case first_free 1 MAX_USF_PER_TS t of
        Some i \<Rightarrow> (of_nat i, t[i := Some pTbf])
      | None \<Rightarrow> (INVALID_USF, t))"

definition ReleaseUSF :: "octet \<Rightarrow> 'p table \<Rightarrow> 'p table" where
  "ReleaseUSF usf t = (if unat usf < MAX_USF_PER_TS then t[unat usf := None] else t)"

lemma first_free_Some:
  "first_free i hi t = Some k \<Longrightarrow> i \<le> k \<and> k < hi \<and> t ! k = None \<and> (\<forall>j. i \<le> j \<and> j < k \<longrightarrow> t ! j \<noteq> None)"
proof (induction i hi t rule: first_free.induct)
  case (1 i hi t)
  show ?case
  proof (cases "i < hi \<and> t ! i \<noteq> None")
    case True
    with "1.prems" have "first_free (i + 1) hi t = Some k" by (subst (asm) first_free.simps) auto
    with "1.IH" True have "i + 1 \<le> k \<and> k < hi \<and> t ! k = None \<and> (\<forall>j. i + 1 \<le> j \<and> j < k \<longrightarrow> t ! j \<noteq> None)"
      by blast
    with True show ?thesis by (metis Suc_eq_plus1 Suc_leI add_leD1 le_neq_implies_less)
  next
    case False
    with "1.prems" show ?thesis by (subst (asm) first_free.simps) (auto split: if_splits)
  qed
qed

lemma first_free_None:
  "first_free i hi t = None \<longleftrightarrow> (\<forall>j. i \<le> j \<and> j < hi \<longrightarrow> t ! j \<noteq> None)"
proof (induction i hi t rule: first_free.induct)
  case (1 i hi t)
  show ?case
  proof (cases "i < hi \<and> t ! i \<noteq> None")
    case True
    then have "first_free i hi t = first_free (i + 1) hi t" by (auto simp: first_free.simps [of i hi t])
    with "1.IH" True show ?thesis by (metis Suc_eq_plus1 Suc_leI add_leD1 le_neq_implies_less)
  next
    case False
    then show ?thesis by (subst first_free.simps) auto
  qed
qed

section \<open>Interface: an allocator of identifiers\<close>

text \<open>
  \<open>ids\<close> are the identifiers that can be handed out, \<open>owner t k\<close> the holder of \<open>k\<close>.  An
  allocation returns a free identifier and records the holder, or, only when every identifier is
  taken, something outside \<open>ids\<close> and no change.
\<close>

fun alloc_all :: "('p \<Rightarrow> 't \<Rightarrow> octet \<times> 't) \<Rightarrow> 'p list \<Rightarrow> 't \<Rightarrow> octet list \<times> 't" where
  "alloc_all alloc [] t = ([], t)"
| "alloc_all alloc (p # ps) t =
     (let (k, t1) = alloc p t; (ks, t2) = alloc_all alloc ps t1 in (k # ks, t2))"

locale slot_allocator =
  fixes alloc :: "'p \<Rightarrow> 't \<Rightarrow> octet \<times> 't"
    and release :: "octet \<Rightarrow> 't \<Rightarrow> 't"
    and owner :: "'t \<Rightarrow> octet \<Rightarrow> 'p option"
    and ids :: "octet set"
    and wf :: "'t \<Rightarrow> bool"
  assumes alloc_law:
      "wf t \<Longrightarrow> alloc p t = (k, t') \<Longrightarrow>
         wf t' \<and> (if k \<in> ids then owner t k = None \<and> owner t' = (owner t)(k := Some p)
                 else t' = t \<and> (\<forall>j \<in> ids. owner t j \<noteq> None))"
    and release_law:
      "wf t \<Longrightarrow> wf (release k t) \<and> owner (release k t) = (if k \<in> ids then (owner t)(k := None) else owner t)"
begin

lemma alloc_others:
  assumes "wf t" "alloc p t = (k, t')" "owner t j \<noteq> None"
  shows "owner t' j = owner t j"
  using alloc_law [OF assms(1,2)] assms(3) by (auto split: if_splits)

lemma alloc_succeeds_iff:
  assumes "wf t" "alloc p t = (k, t')"
  shows "k \<in> ids \<longleftrightarrow> (\<exists>j \<in> ids. owner t j = None)"
  using alloc_law [OF assms] by (auto split: if_splits)

text \<open>A released identifier can be allocated again.\<close>

lemma alloc_after_release:
  assumes "wf t" "j \<in> ids" "alloc p (release j t) = (k, t')"
  shows "k \<in> ids"
  using alloc_succeeds_iff [OF _ assms(3)] release_law [OF assms(1), of j] assms(2) by auto

text \<open>
  A run of allocations: the identifiers handed out are pairwise different, were free before and
  belong to their requesters afterwards, and nobody else's identifier is touched.
\<close>

lemma alloc_all_law:
  assumes "wf t" "alloc_all alloc ps t = (ks, t')"
  shows "wf t' \<and> length ks = length ps \<and> distinct (filter (\<lambda>k. k \<in> ids) ks) \<and>
     (\<forall>i < length ks. ks ! i \<in> ids \<longrightarrow> owner t (ks ! i) = None \<and> owner t' (ks ! i) = Some (ps ! i)) \<and>
     (\<forall>j. owner t j \<noteq> None \<longrightarrow> owner t' j = owner t j)"
  using assms
proof (induction ps arbitrary: t ks)
  case Nil
  then show ?case by simp
next
  case (Cons p ps)
  obtain k t1 where k: "alloc p t = (k, t1)" by fastforce
  obtain ks1 where ks: "alloc_all alloc ps t1 = (ks1, t')" "ks = k # ks1"
    using Cons.prems(2) k by (auto simp: Let_def split: prod.splits)
  have law: "wf t1" "if k \<in> ids then owner t k = None \<and> owner t1 = (owner t)(k := Some p)
      else t1 = t \<and> (\<forall>j \<in> ids. owner t j \<noteq> None)"
    using alloc_law [OF Cons.prems(1) k] by auto
  note IH = Cons.IH [OF law(1) ks(1)]
  have fresh: "k \<notin> set (filter (\<lambda>k. k \<in> ids) ks1)"
  proof
    assume "k \<in> set (filter (\<lambda>k. k \<in> ids) ks1)"
    then obtain i where "i < length ks1" "ks1 ! i = k" "k \<in> ids" by (auto simp: in_set_conv_nth)
    with IH law(2) show False by auto
  qed
  have *: "owner t' (ks ! i) = Some ((p # ps) ! i) \<and> owner t (ks ! i) = None"
    if "i < length ks" "ks ! i \<in> ids" for i
  proof (cases i)
    case 0
    with that ks law(2) IH show ?thesis by auto
  next
    case (Suc n)
    with that ks law(2) IH show ?thesis by (auto split: if_splits)
  qed
  have "owner t' j = owner t j" if "owner t j \<noteq> None" for j
    using that IH law(2) alloc_others [OF Cons.prems(1) k that] by auto
  with * IH ks fresh show ?case by auto
qed

text \<open>With as many free identifiers as requests, every request is served.\<close>

lemma alloc_all_served:
  assumes "wf t" "alloc_all alloc ps t = (ks, t')" "finite ids"
    "length ps \<le> card {j \<in> ids. owner t j = None}"
  shows "set ks \<subseteq> ids"
  using assms
proof (induction ps arbitrary: t ks)
  case Nil
  then show ?case by simp
next
  case (Cons p ps)
  obtain k t1 where k: "alloc p t = (k, t1)" by fastforce
  obtain ks1 where ks: "alloc_all alloc ps t1 = (ks1, t')" "ks = k # ks1"
    using Cons.prems(2) k by (auto simp: Let_def split: prod.splits)
  have "{j \<in> ids. owner t j = None} \<noteq> {}"
  proof
    assume "{j \<in> ids. owner t j = None} = {}"
    then have "card {j \<in> ids. owner t j = None} = 0" by (simp only: card.empty)
    with Cons.prems(4) show False by simp
  qed
  then have kin: "k \<in> ids" using alloc_succeeds_iff [OF Cons.prems(1) k] by auto
  then have law: "wf t1" "owner t k = None" "owner t1 = (owner t)(k := Some p)"
    using alloc_law [OF Cons.prems(1) k] by auto
  have "{j \<in> ids. owner t1 j = None} = {j \<in> ids. owner t j = None} - {k}"
    using law kin by auto
  then have "length ps \<le> card {j \<in> ids. owner t1 j = None}"
    using Cons.prems(3,4) law kin by (simp add: card_Diff_singleton)
  then show ?case using Cons.IH [OF law(1) ks(1) Cons.prems(3)] kin ks by auto
qed

end


section \<open>The two tables are allocators\<close>

text \<open>The search-and-store and the guarded clear, once for every table.\<close>

definition range_owner :: "nat \<Rightarrow> nat \<Rightarrow> 'p table \<Rightarrow> octet \<Rightarrow> 'p option" where
  "range_owner lo hi t k = (if lo \<le> unat k \<and> unat k < hi then t ! unat k else None)"

lemma unat_of_nat_octet [simp]: "n < 256 \<Longrightarrow> unat (of_nat n :: octet) = n"
  by (simp add: unat_of_nat)

lemma range_store:
  assumes "first_free lo hi t = Some i" "hi \<le> length t" "hi \<le> 256"
  shows "lo \<le> unat (of_nat i :: octet) \<and> unat (of_nat i :: octet) < hi \<and>
     range_owner lo hi t (of_nat i) = None \<and>
     range_owner lo hi (t[i := Some p]) = (range_owner lo hi t)(of_nat i := Some p)"
proof -
  have i: "lo \<le> i" "i < hi" "t ! i = None" using first_free_Some [OF assms(1)] by auto
  then have u: "unat (of_nat i :: octet) = i" using assms(3) by simp
  have "range_owner lo hi (t[i := Some p]) k = ((range_owner lo hi t)(of_nat i := Some p)) k" for k
  proof (cases "k = of_nat i")
    case True
    then show ?thesis using i u assms(2) by (simp add: range_owner_def)
  next
    case False
    then have "unat k \<noteq> i" using u by (auto simp: word_unat_eq_iff)
    with False show ?thesis by (simp add: range_owner_def)
  qed
  then show ?thesis using i u by (auto simp: range_owner_def)
qed

lemma range_full:
  "first_free lo hi t = None \<Longrightarrow> lo \<le> unat k \<Longrightarrow> unat k < hi \<Longrightarrow> range_owner lo hi t k \<noteq> None"
  by (auto simp: first_free_None range_owner_def)

lemma range_clear:
  assumes "hi \<le> length t"
  shows "range_owner lo hi (if unat k < hi then t[unat k := None] else t) =
     (if lo \<le> unat k \<and> unat k < hi then (range_owner lo hi t)(k := None) else range_owner lo hi t)"
proof
  fix j
  have "unat j = unat k \<longleftrightarrow> j = k" by (simp add: word_unat_eq_iff)
  then show "range_owner lo hi (if unat k < hi then t[unat k := None] else t) j =
     (if lo \<le> unat k \<and> unat k < hi then (range_owner lo hi t)(k := None) else range_owner lo hi t) j"
    using assms by (cases "j = k") (auto simp: range_owner_def)
qed

interpretation tai: slot_allocator AllocateTAI ReleaseTAI "range_owner 0 MAX_TAI_PER_TS"
  "{k. unat k < MAX_TAI_PER_TS}" "\<lambda>t. length t = MAX_TAI_PER_TS"
proof unfold_locales
  fix t t' :: "'a table" and p k
  assume "length t = 16" "AllocateTAI p t = (k, t')"
  then show "length t' = 16 \<and> (if k \<in> {k. unat k < 16}
      then range_owner 0 16 t k = None \<and> range_owner 0 16 t' = (range_owner 0 16 t)(k := Some p)
      else t' = t \<and> (\<forall>j \<in> {k. unat k < 16}. range_owner 0 16 t j \<noteq> None))"
    using range_store [of 0 16 t _ p] range_full [of 0 16 t]
    by (auto simp: AllocateTAI_def split: option.splits)
next
  fix t :: "'a table" and k
  assume "length t = 16"
  then show "length (ReleaseTAI k t) = 16 \<and> range_owner 0 16 (ReleaseTAI k t) =
      (if k \<in> {k. unat k < 16} then (range_owner 0 16 t)(k := None) else range_owner 0 16 t)"
    using range_clear [of 16 t 0 k] by (simp add: ReleaseTAI_def)
qed

interpretation usf: slot_allocator AllocateUSF ReleaseUSF "range_owner 1 MAX_USF_PER_TS"
  "{k. 1 \<le> unat k \<and> unat k < MAX_USF_PER_TS}" "\<lambda>t. length t = MAX_USF_PER_TS \<and> t ! 0 = None"
proof unfold_locales
  fix t t' :: "'a table" and p k
  assume wf: "length t = 8 \<and> t ! 0 = None" and al: "AllocateUSF p t = (k, t')"
  have "t' ! 0 = None"
    using wf al by (auto simp: AllocateUSF_def dest: first_free_Some split: option.splits)
  then show "(length t' = 8 \<and> t' ! 0 = None) \<and> (if k \<in> {k. 1 \<le> unat k \<and> unat k < 8}
      then range_owner 1 8 t k = None \<and> range_owner 1 8 t' = (range_owner 1 8 t)(k := Some p)
      else t' = t \<and> (\<forall>j \<in> {k. 1 \<le> unat k \<and> unat k < 8}. range_owner 1 8 t j \<noteq> None))"
    using range_store [of 1 8 t _ p] range_full [of 1 8 t] wf al
    by (auto simp: AllocateUSF_def split: option.splits)
next
  fix t :: "'a table" and k
  assume "length t = 8 \<and> t ! 0 = None"
  then show "(length (ReleaseUSF k t) = 8 \<and> ReleaseUSF k t ! 0 = None) \<and> range_owner 1 8 (ReleaseUSF k t) =
      (if k \<in> {k. 1 \<le> unat k \<and> unat k < 8} then (range_owner 1 8 t)(k := None) else range_owner 1 8 t)"
    using range_clear [of 8 t 1 k] by (simp add: ReleaseUSF_def nth_list_update)
qed

lemma card_octet_range:
  assumes "lo \<le> hi" "hi \<le> 256"
  shows "card {k :: octet. lo \<le> unat k \<and> unat k < hi} = hi - lo"
proof -
  have "{k :: octet. lo \<le> unat k \<and> unat k < hi} = of_nat ` {lo..<hi}"
  proof (rule set_eqI, rule iffI)
    fix k :: octet assume "k \<in> {k. lo \<le> unat k \<and> unat k < hi}"
    then have "unat k \<in> {lo..<hi}" by simp
    then have "of_nat (unat k) \<in> (of_nat ` {lo..<hi} :: octet set)" by (rule imageI)
    then show "k \<in> of_nat ` {lo..<hi}" by simp
  qed (use assms in auto)
  moreover have "inj_on (of_nat :: nat \<Rightarrow> octet) {lo..<hi}"
  proof (rule inj_onI)
    fix a b assume "a \<in> {lo..<hi}" "b \<in> {lo..<hi}" "(of_nat a :: octet) = of_nat b"
    then have "a < 256" "b < 256" "unat (of_nat a :: octet) = unat (of_nat b :: octet)"
      using assms by simp_all
    then show "a = b" using unat_of_nat_octet by metis
  qed
  ultimately show ?thesis by (simp add: card_image)
qed

section \<open>Properties\<close>

text \<open>
  Batches of allocations on a fresh uplink state flag table. Up to seven requesters all get a
  flag; the flags are pairwise different, lie in 1..7 (flag 0, the dummy USF, is never handed out)
  and each is recorded for its requester.
\<close>

theorem usf_batch:
  assumes "length ps \<le> 7" "alloc_all AllocateUSF ps USFTable_new = (ks, t)"
  shows "length ks = length ps \<and> distinct ks \<and> (\<forall>k \<in> set ks. 1 \<le> unat k \<and> unat k < 8) \<and>
     t ! 0 = None \<and> (\<forall>i < length ps. t ! unat (ks ! i) = Some (ps ! i))"
proof -
  let ?new = "USFTable_new :: 'a table"
  have wf: "length ?new = 8 \<and> ?new ! 0 = None" by (simp add: USFTable_new_def)
  have "range_owner 1 8 ?new k = None" for k by (auto simp: range_owner_def USFTable_new_def)
  then have served: "set ks \<subseteq> {k. 1 \<le> unat k \<and> unat k < 8}"
    using usf.alloc_all_served [OF wf assms(2)] assms(1) card_octet_range [of 1 8] by simp
  then have "filter (\<lambda>k. k \<in> {k. 1 \<le> unat k \<and> unat k < 8}) ks = ks"
    by (intro filter_True) blast
  then have law: "length t = 8 \<and> t ! 0 = None" "length ks = length ps" "distinct ks"
    "\<forall>i < length ks. ks ! i \<in> {k. 1 \<le> unat k \<and> unat k < 8} \<longrightarrow> range_owner 1 8 t (ks ! i) = Some (ps ! i)"
    using usf.alloc_all_law [OF wf assms(2)] by simp_all
  have "t ! unat (ks ! i) = Some (ps ! i)" if "i < length ps" for i
  proof -
    have "ks ! i \<in> set ks" using that law(2) by simp
    then have "ks ! i \<in> {k. 1 \<le> unat k \<and> unat k < 8}" using served by (rule rev_subsetD)
    with law(2,4) that show ?thesis by (simp add: range_owner_def)
  qed
  with served law show ?thesis by blast
qed

theorem usf_batch_witness:
  "alloc_all AllocateUSF [10 :: nat, 20, 30] USFTable_new =
     ([1, 2, 3], [None, Some 10, Some 20, Some 30, None, None, None, None]) \<and>
   distinct [1 :: octet, 2, 3]"
proof -
  have run: "alloc_all AllocateUSF [10 :: nat, 20, 30] USFTable_new =
     ([1, 2, 3], [None, Some 10, Some 20, Some 30, None, None, None, None])"
    by code_simp
  show ?thesis using usf_batch [OF _ run] run by simp
qed

text \<open>
  Exclusiveness of the timing advance indices, full table included. An allocation hands out an
  index in 0..15 that nobody held, records the requester and changes no other entry; when all
  sixteen are taken it returns the invalid index and changes nothing. Releasing an index frees it
  and no other, and the next allocation then succeeds.
\<close>

theorem tai_exclusive:
  assumes "length t = 16" "AllocateTAI p t = (k, t')"
  shows "(if \<exists>j < 16. t ! j = None
     then unat k < 16 \<and> t ! unat k = None \<and> t' = t[unat k := Some p]
     else k = INVALID_TAI \<and> t' = t) \<and>
    (\<forall>j < 16. ReleaseTAI (of_nat j) t' = t'[j := None] \<and>
       unat (fst (AllocateTAI q (ReleaseTAI (of_nat j) t'))) < 16)"
proof -
  have wf: "length t' = 16" using tai.alloc_law [OF assms] by blast
  have rel: "ReleaseTAI (of_nat j) t' = t'[j := None]" if "j < 16" for j
    using that by (simp add: ReleaseTAI_def)
  have "unat (fst (AllocateTAI q (ReleaseTAI (of_nat j) t'))) < 16" if "j < 16" for j
  proof -
    have "of_nat j \<in> {k :: octet. unat k < 16}" using that by simp
    from tai.alloc_after_release [OF wf this, of q] show ?thesis by (simp add: prod_eq_iff)
  qed
  moreover have "if \<exists>j < 16. t ! j = None
     then unat k < 16 \<and> t ! unat k = None \<and> t' = t[unat k := Some p]
     else k = INVALID_TAI \<and> t' = t"
  proof (cases "first_free 0 16 t")
    case None
    with assms show ?thesis by (auto simp: AllocateTAI_def first_free_None)
  next
    case (Some i)
    with first_free_Some [OF Some] assms show ?thesis by (auto simp: AllocateTAI_def)
  qed
  ultimately show ?thesis using rel by blast
qed

theorem tai_exclusive_witness:
  "AllocateTAI (7 :: nat) TAITable_new = (0, Some 7 # replicate 15 None) \<and>
   unat (fst (AllocateTAI 8 (ReleaseTAI (of_nat 0) (Some (7 :: nat) # replicate 15 None)))) < 16"
proof -
  have run: "AllocateTAI (7 :: nat) TAITable_new = (0, Some 7 # replicate 15 None)" by code_simp
  have "length (TAITable_new :: nat table) = 16" by (simp add: TAITable_new_def)
  from tai_exclusive [OF this run, of 8, THEN conjunct2, rule_format, of 0] run
  show ?thesis by fastforce
qed

end
