(* ===== verification/ScheduleQueue.thy ===== *)
theory ScheduleQueue
  imports RlcPrelude
begin

text \<open>
  The per-timeslot schedule queues of \<^verbatim>\<open>Rlc_mac/src/ScheduleQueue.cpp\<close>: four levels (one per
  delay class) of at most twelve entries.  An entry names a TBF and carries an importance, the
  smaller the better; entries are ranked, allocated to the TBFs that beat the worst holders,
  deallocated, rebalanced and scheduled in turn.

  TBFs are pointers of a type \<open>'p\<close>; \<open>None\<close> is \<open>NULL_TBF\<close>.  Operations return \<open>None\<close> where the code
  indexes outside an array, reads an array element it never wrote, or follows a null pointer.
\<close>

section \<open>State\<close>

datatype TBF_STATE = FREE | ALLOCATED | INACTIVE | ACTIVATING | REALLOCATING | RELEASING

abbreviation (input) NULL_IMPORTANCE :: int where "NULL_IMPORTANCE \<equiv> 9999"
abbreviation (input) QUEUE_NUM_LEVELS :: nat where "QUEUE_NUM_LEVELS \<equiv> 4"
abbreviation (input) QUEUE_MAX_SIZE :: nat where "QUEUE_MAX_SIZE \<equiv> 12"

record 'p Entry =
  e_userTbf :: "'p option"
  e_precedence :: int
  e_entryNumber :: int
  e_importance :: int

type_synonym 'p row = "'p Entry list"

record 'p ScheduleQueue =
  sq_direction :: LinkDirection
  sq_currentIndex :: "int list"
  sq_queue :: "'p row list"
  sq_savedQueue :: "'p row list"

definition nbrEntries :: "nat list" where
  "nbrEntries = [7, 9, 4, 12]"

definition null_entry :: "'p Entry" where
  "null_entry = \<lparr>e_userTbf = None, e_precedence = 0, e_entryNumber = 0, e_importance = NULL_IMPORTANCE\<rparr>"

definition ScheduleQueue_new :: "LinkDirection \<Rightarrow> 'p ScheduleQueue" where
  "ScheduleQueue_new dir =
     \<lparr>sq_direction = dir,
      sq_currentIndex = replicate QUEUE_NUM_LEVELS (- 1),
      sq_queue = replicate QUEUE_NUM_LEVELS (replicate QUEUE_MAX_SIZE null_entry),
      sq_savedQueue = replicate QUEUE_NUM_LEVELS (replicate QUEUE_MAX_SIZE null_entry)\<rparr>"

section \<open>Ranking\<close>

text \<open>
  One pass of \<open>Rank\<close>: the loop over the entries keeps the first index with the largest importance
  above zero.  The rank index stays unwritten (\<open>None\<close>) when there is none.
\<close>

definition rank_scan :: "nat \<Rightarrow> 'p row \<Rightarrow> int list \<Rightarrow> nat option \<times> int \<times> 'p option" where
  "rank_scan n row loc =
     foldl (\<lambda>(ri, imp, tb) i. if loc ! i > imp then (Some i, loc ! i, e_userTbf (row ! i)) else (ri, imp, tb))
       (None, 0, None) [0..<n]"

fun rank_passes :: "nat \<Rightarrow> nat \<Rightarrow> 'p row \<Rightarrow> int list \<Rightarrow> (nat \<times> int \<times> 'p option) list option" where
  "rank_passes 0 n row loc = Some []"
| "rank_passes (Suc passes) n row loc =
     (case rank_scan n row loc of
        (None, _, _) \<Rightarrow> None
      | (Some i, imp, tb) \<Rightarrow> map_option (\<lambda>rs. (i, imp, tb) # rs) (rank_passes passes n row (loc[i := - 1])))"

text \<open>\<open>Rank\<close>: the written part of the arrays \<open>rankIndex\<close>, \<open>rankImportance\<close>, \<open>rankTbf\<close>, zipped.\<close>

definition Rank :: "nat \<Rightarrow> 'p row \<Rightarrow> (nat \<times> int \<times> 'p option) list option" where
  "Rank n row = rank_passes n n row (map e_importance row)"

section \<open>Allocation\<close>

definition newImportance :: "int \<Rightarrow> int \<Rightarrow> int" where
  "newImportance precedence entryNumber =
     (if entryNumber = 0 then precedence else 10 * precedence + entryNumber)"

definition SetEntry :: "nat \<Rightarrow> 'p \<Rightarrow> int \<Rightarrow> int \<Rightarrow> int \<Rightarrow> 'p row \<Rightarrow> 'p row" where
  "SetEntry index pTbf precedence entryNumber importance row =
     row[index := \<lparr>e_userTbf = Some pTbf, e_precedence = precedence, e_entryNumber = entryNumber,
                   e_importance = importance\<rparr>]"

definition AllocateOneEntry :: "nat \<Rightarrow> 'p \<Rightarrow> int \<Rightarrow> int \<Rightarrow> 'p row \<Rightarrow> bool \<times> 'p row" where
  "AllocateOneEntry index pTbf precedence entryNumber row =
     (if newImportance precedence entryNumber < e_importance (row ! index)
      then (True, SetEntry index pTbf precedence entryNumber (newImportance precedence entryNumber) row)
      else (False, row))"

text \<open>The loops run over the ranked entries; the accumulator is \<open>entryNumber\<close>.\<close>

fun find_loop :: "'p \<Rightarrow> int \<Rightarrow> (nat \<times> int \<times> 'p option) list \<Rightarrow> int \<Rightarrow> int \<Rightarrow> int" where
  "find_loop pTbf precedence [] entryNumber available = available"
| "find_loop pTbf precedence ((_, imp, tb) # rs) entryNumber available =
     (if newImportance precedence entryNumber \<ge> imp then available
      else find_loop pTbf precedence rs (entryNumber + 1)
             (if Some pTbf \<noteq> tb then available + 1 else available))"

fun alloc_loop :: "'p \<Rightarrow> int \<Rightarrow> nat list \<Rightarrow> int \<Rightarrow> 'p row \<Rightarrow> int \<times> 'p row" where
  "alloc_loop pTbf precedence [] entryNumber row = (entryNumber, row)"
| "alloc_loop pTbf precedence (i # is) entryNumber row =
     (let (made, row') = AllocateOneEntry i pTbf precedence entryNumber row
      in if made then alloc_loop pTbf precedence is (entryNumber + 1) row'
         else (entryNumber + 1, row'))"

definition FindAvailable :: "nat \<Rightarrow> 'p \<Rightarrow> int \<Rightarrow> 'p row \<Rightarrow> int option" where
  "FindAvailable n pTbf precedence row =
     map_option (\<lambda>rs. find_loop pTbf precedence rs 0 0) (Rank n row)"

definition AllocateRow :: "nat \<Rightarrow> 'p \<Rightarrow> int \<Rightarrow> 'p row \<Rightarrow> (int \<times> 'p row) option" where
  "AllocateRow n pTbf precedence row =
     map_option (\<lambda>rs. let (entryNumber, row') = alloc_loop pTbf precedence (map fst rs) 0 row
                       in (entryNumber - 1, row')) (Rank n row)"

fun dealloc_row :: "'p \<Rightarrow> 'p row \<Rightarrow> int \<times> 'p row" where
  "dealloc_row pTbf [] = (0, [])"
| "dealloc_row pTbf (e # es) =
     (let (k, es') = dealloc_row pTbf es
      in if e_userTbf e = Some pTbf then (k + 1, null_entry # es') else (k, e # es'))"

section \<open>Balancing\<close>

fun note_user :: "'p \<Rightarrow> int \<Rightarrow> int \<Rightarrow> ('p \<times> int \<times> int) list \<Rightarrow> ('p \<times> int \<times> int) list" where
  "note_user t precedence entryNumber [] = [(t, precedence, entryNumber)]"
| "note_user t precedence entryNumber ((u, p, h) # us) =
     (if u = t then (u, p, if entryNumber > h then entryNumber else h) # us
      else (u, p, h) # note_user t precedence entryNumber us)"

text \<open>\<open>GetAllTbf\<close>: the users with their precedence and highest entry, in order of appearance.\<close>

definition GetAllTbf :: "'p row \<Rightarrow> ('p \<times> int \<times> int) list" where
  "GetAllTbf row =
     foldl (\<lambda>us e. case e_userTbf e of None \<Rightarrow> us
                   | Some t \<Rightarrow> note_user t (e_precedence e) (e_entryNumber e) us) [] row"

text \<open>
  The inner loop of \<open>BalanceEntries\<close> runs to \<open>QUEUE_MAX_SIZE\<close>, past the \<open>n\<close> ranks that \<open>Rank\<close> wrote:
  going on after the last written rank reads an unwritten one.
\<close>

fun balance_loop :: "'p \<Rightarrow> int \<Rightarrow> int \<Rightarrow> nat list \<Rightarrow> nat \<Rightarrow> 'p row \<Rightarrow> 'p row option" where
  "balance_loop u precedence highest [] entryNumber row =
     (if entryNumber < QUEUE_MAX_SIZE then None else Some row)"
| "balance_loop u precedence highest (i # is) entryNumber row =
     (let (made, row') = AllocateOneEntry i u precedence (int entryNumber + highest + 1) row
      in if made then balance_loop u precedence highest is (entryNumber + 1) row' else Some row')"

fun balance_users :: "nat \<Rightarrow> ('p \<times> int \<times> int) list \<Rightarrow> 'p row \<Rightarrow> 'p row option" where
  "balance_users n [] row = Some row"
| "balance_users n ((u, p, h) # us) row =
     (case Rank n row of None \<Rightarrow> None
      | Some rs \<Rightarrow>
          (case balance_loop u p h (map fst rs) 0 row of None \<Rightarrow> None
           | Some row' \<Rightarrow> balance_users n us row'))"

definition BalanceRow :: "nat \<Rightarrow> 'p row \<Rightarrow> 'p row option" where
  "BalanceRow n row = balance_users n (GetAllTbf row) row"

section \<open>The operations on the whole queue\<close>

definition FindAvailableEntries :: "'p \<Rightarrow> nat \<Rightarrow> int \<Rightarrow> 'p ScheduleQueue \<Rightarrow> int option" where
  "FindAvailableEntries pTbf level precedence q =
     (if level < QUEUE_NUM_LEVELS then FindAvailable (nbrEntries ! level) pTbf precedence (sq_queue q ! level)
      else None)"

definition AllocateEntries ::
  "'p \<Rightarrow> nat \<Rightarrow> int \<Rightarrow> 'p ScheduleQueue \<Rightarrow> (int \<times> 'p ScheduleQueue) option" where
  "AllocateEntries pTbf level precedence q =
     (if level < QUEUE_NUM_LEVELS then
        map_option (\<lambda>(k, row). (k, q\<lparr>sq_queue := (sq_queue q)[level := row]\<rparr>))
          (AllocateRow (nbrEntries ! level) pTbf precedence (sq_queue q ! level))
      else None)"

definition DeallocateEntries :: "'p \<Rightarrow> nat \<Rightarrow> 'p ScheduleQueue \<Rightarrow> (int \<times> 'p ScheduleQueue) option" where
  "DeallocateEntries pTbf level q =
     (if level < QUEUE_NUM_LEVELS then
        let (k, row) = dealloc_row pTbf (sq_queue q ! level)
        in Some (k, q\<lparr>sq_queue := (sq_queue q)[level := row]\<rparr>)
      else None)"

definition BalanceEntries :: "nat \<Rightarrow> 'p ScheduleQueue \<Rightarrow> 'p ScheduleQueue option" where
  "BalanceEntries level q =
     (if level < QUEUE_NUM_LEVELS then
        map_option (\<lambda>row. q\<lparr>sq_queue := (sq_queue q)[level := row]\<rparr>)
          (BalanceRow (nbrEntries ! level) (sq_queue q ! level))
      else None)"

definition CopyQueue :: "'p ScheduleQueue \<Rightarrow> 'p ScheduleQueue" where
  "CopyQueue q = q\<lparr>sq_savedQueue := sq_queue q\<rparr>"

definition RestoreQueue :: "'p ScheduleQueue \<Rightarrow> 'p ScheduleQueue" where
  "RestoreQueue q = q\<lparr>sq_queue := sq_savedQueue q\<rparr>"

definition GetUsers :: "'p ScheduleQueue \<Rightarrow> nat" where
  "GetUsers q = sum_list (map (\<lambda>level. length (GetAllTbf (sq_queue q ! level))) [0..<QUEUE_NUM_LEVELS])"

section \<open>Scheduling\<close>

text \<open>
  The loop \<^verbatim>\<open>while (*ppTbf == NULL_TBF && IncrementCurrentIndex(level))\<close>: the state of the entry's
  TBF is read through its pointer, which must not be null.  Returns the TBF found and the index
  the loop leaves.
\<close>

function scan_level :: "('p \<Rightarrow> TBF_STATE) \<Rightarrow> 'p row \<Rightarrow> int \<Rightarrow> int \<Rightarrow> ('p option \<times> int) option" where
  "scan_level st row n idx =
     (if idx + 1 < n then
        (if idx + 1 < 0 then None
         else case e_userTbf (row ! nat (idx + 1)) of
           None \<Rightarrow> None
         | Some t \<Rightarrow> if st t = ALLOCATED then Some (Some t, idx + 1) else scan_level st row n (idx + 1))
      else Some (None, idx + 1))"
  by pat_completeness auto
termination
  by (relation "measure (\<lambda>(st, row, n, idx). nat (n - idx))") auto

declare scan_level.simps [simp del]

text \<open>One pass over the levels; \<open>isEmpty\<close> was computed before the passes.\<close>

fun level_loop :: "('p \<Rightarrow> TBF_STATE) \<Rightarrow> bool list \<Rightarrow> nat list \<Rightarrow> 'p ScheduleQueue \<Rightarrow>
  ('p option \<times> 'p ScheduleQueue) option" where
  "level_loop st isEmpty [] q = Some (None, q)"
| "level_loop st isEmpty (level # levels) q =
     (if isEmpty ! level then level_loop st isEmpty levels q
      else case scan_level st (sq_queue q ! level) (int (nbrEntries ! level)) (sq_currentIndex q ! level) of
        None \<Rightarrow> None
      | Some (Some t, idx) \<Rightarrow> Some (Some t, q\<lparr>sq_currentIndex := (sq_currentIndex q)[level := idx]\<rparr>)
      | Some (None, idx) \<Rightarrow>
          level_loop st isEmpty levels (q\<lparr>sq_currentIndex := (sq_currentIndex q)[level := - 1]\<rparr>))"

definition ScheduleNextBlock ::
  "('p \<Rightarrow> TBF_STATE) \<Rightarrow> 'p ScheduleQueue \<Rightarrow> ('p option \<times> 'p ScheduleQueue) option" where
  "ScheduleNextBlock st q =
     (let isEmpty = map (\<lambda>level. e_userTbf (sq_queue q ! level ! 0) = None) [0..<QUEUE_NUM_LEVELS];
          levels = [0..<QUEUE_NUM_LEVELS]
      in case level_loop st isEmpty levels q of
           None \<Rightarrow> None
         | Some (Some t, q1) \<Rightarrow> Some (Some t, q1)
         | Some (None, q1) \<Rightarrow> level_loop st isEmpty levels q1)"

section \<open>Ranking is a sorted permutation\<close>

definition best_so_far :: "nat \<Rightarrow> 'p row \<Rightarrow> int list \<Rightarrow> nat option \<times> int \<times> 'p option \<Rightarrow> bool" where
  "best_so_far n row loc = (\<lambda>(ri, imp, tb).
     0 \<le> imp \<and> (\<forall>j < n. loc ! j \<le> imp) \<and>
     (case ri of None \<Rightarrow> imp = 0
      | Some i \<Rightarrow> i < n \<and> 0 < imp \<and> imp = loc ! i \<and> tb = e_userTbf (row ! i) \<and> (\<forall>j < i. loc ! j < imp)))"

lemma rank_scan_best: "best_so_far n row loc (rank_scan n row loc)"
proof (induction n)
  case 0
  then show ?case by (simp add: rank_scan_def best_so_far_def)
next
  case (Suc n)
  obtain ri imp tb where r: "rank_scan n row loc = (ri, imp, tb)" by (metis prod_cases3)
  have s: "rank_scan (Suc n) row loc =
      (if loc ! n > imp then (Some n, loc ! n, e_userTbf (row ! n)) else (ri, imp, tb))"
    using r by (simp add: rank_scan_def)
  have IH: "0 \<le> imp" "\<forall>j < n. loc ! j \<le> imp"
    "case ri of None \<Rightarrow> imp = 0
      | Some i \<Rightarrow> i < n \<and> 0 < imp \<and> imp = loc ! i \<and> tb = e_userTbf (row ! i) \<and> (\<forall>j < i. loc ! j < imp)"
    using Suc.IH r by (simp_all add: best_so_far_def)
  show ?case
  proof (cases "loc ! n > imp")
    case True
    then have "\<forall>j < n. loc ! j < loc ! n" using IH(2) by force
    with True IH(1) show ?thesis by (simp add: s best_so_far_def less_Suc_eq order_less_imp_le)
  next
    case False
    with IH show ?thesis by (cases ri) (auto simp: s best_so_far_def less_Suc_eq)
  qed
qed

definition ranked :: "nat \<Rightarrow> 'p row \<Rightarrow> (nat \<times> int \<times> 'p option) list \<Rightarrow> bool" where
  "ranked n row rs \<longleftrightarrow> distinct (map fst rs) \<and> set (map fst rs) = {0..<n} \<and>
     sorted_wrt (\<lambda>i j. e_importance (row ! i) \<ge> e_importance (row ! j)) (map fst rs) \<and>
     (\<forall>(i, imp, tb) \<in> set rs. imp = e_importance (row ! i) \<and> tb = e_userTbf (row ! i))"

lemma rankedD:
  assumes "ranked n row rs" "(i, imp, tb) \<in> set rs"
  shows "imp = e_importance (row ! i)" "tb = e_userTbf (row ! i)"
  using assms unfolding ranked_def by blast+

lemma rank_passes_ranked:
  assumes "D = {i. i < n \<and> loc ! i \<noteq> - 1}" "card D = passes" "n \<le> length loc"
    "\<forall>i \<in> D. loc ! i = e_importance (row ! i) \<and> 0 < loc ! i"
  shows "\<exists>rs. rank_passes passes n row loc = Some rs \<and> distinct (map fst rs) \<and> set (map fst rs) = D \<and>
     sorted_wrt (\<lambda>i j. e_importance (row ! i) \<ge> e_importance (row ! j)) (map fst rs) \<and>
     (\<forall>(i, imp, tb) \<in> set rs. imp = e_importance (row ! i) \<and> tb = e_userTbf (row ! i))"
  using assms
proof (induction passes arbitrary: D loc)
  case 0
  have "finite D" unfolding "0.prems"(1) by simp
  with "0.prems"(2) have "D = {}" by simp
  then show ?case by simp
next
  case (Suc passes)
  obtain ri imp tb where scan: "rank_scan n row loc = (ri, imp, tb)" by (metis prod_cases3)
  have best: "0 \<le> imp" "\<forall>j < n. loc ! j \<le> imp"
    "case ri of None \<Rightarrow> imp = 0
      | Some i \<Rightarrow> i < n \<and> 0 < imp \<and> imp = loc ! i \<and> tb = e_userTbf (row ! i) \<and> (\<forall>j < i. loc ! j < imp)"
    using rank_scan_best [of n row loc] by (simp_all add: scan best_so_far_def)
  have mem: "j \<in> D \<longleftrightarrow> j < n \<and> loc ! j \<noteq> - 1" for j unfolding Suc.prems(1) by simp
  note val = bspec [OF Suc.prems(4)]
  have "D \<noteq> {}" using Suc.prems(2) by (intro notI) simp
  then obtain d where "d \<in> D" by blast
  then have "0 < loc ! d" "d < n" using val [of d] mem [of d] by simp_all
  then have "0 < imp" using best(2) by force
  then obtain i where i: "ri = Some i" using best(3) by (cases ri) auto
  then have b: "i < n" "0 < loc ! i" "imp = loc ! i" "tb = e_userTbf (row ! i)" "\<forall>j < n. loc ! j \<le> loc ! i"
    using best by auto
  then have "i \<in> D" using mem by simp
  with val have iD: "i \<in> D" "loc ! i = e_importance (row ! i)" by simp_all
  have D': "D - {i} = {j. j < n \<and> loc[i := - 1] ! j \<noteq> - 1}"
    using Suc.prems(3) b(1) mem by (auto simp: nth_list_update)
  have len': "n \<le> length (loc[i := - 1])" using Suc.prems(3) by simp
  have card': "card (D - {i}) = passes" using Suc.prems(2) iD(1) by (simp add: card_Diff_singleton)
  have val': "\<forall>j \<in> D - {i}. loc[i := - 1] ! j = e_importance (row ! j) \<and> 0 < loc[i := - 1] ! j"
  proof
    fix j assume "j \<in> D - {i}"
    then have "j \<noteq> i" "loc ! j = e_importance (row ! j) \<and> 0 < loc ! j" using val by blast+
    then show "loc[i := - 1] ! j = e_importance (row ! j) \<and> 0 < loc[i := - 1] ! j" by simp
  qed
  obtain rs where rs: "rank_passes passes n row (loc[i := - 1]) = Some rs"
    "distinct (map fst rs)" "set (map fst rs) = D - {i}"
    "sorted_wrt (\<lambda>i j. e_importance (row ! i) \<ge> e_importance (row ! j)) (map fst rs)"
    "(\<forall>(i, imp, tb) \<in> set rs. imp = e_importance (row ! i) \<and> tb = e_userTbf (row ! i))"
    using Suc.IH [OF D' card' len' val'] by blast
  have worst: "\<forall>j \<in> set (map fst rs). e_importance (row ! i) \<ge> e_importance (row ! j)"
  proof
    fix j assume "j \<in> set (map fst rs)"
    then have "j \<in> D" using rs(3) by blast
    then have "j < n" "loc ! j = e_importance (row ! j)" using mem [of j] val [of j] by simp_all
    then show "e_importance (row ! i) \<ge> e_importance (row ! j)" using b(5) iD(2) by (metis (full_types))
  qed
  let ?rs = "(i, imp, tb) # rs"
  have "rank_passes (Suc passes) n row loc = Some ?rs" using scan i rs(1) by simp
  moreover have "distinct (map fst ?rs)" using rs(2,3) by simp
  moreover have "set (map fst ?rs) = D" using rs(3) iD(1) by auto
  moreover have "sorted_wrt (\<lambda>i j. e_importance (row ! i) \<ge> e_importance (row ! j)) (map fst ?rs)"
    using rs(4) worst by simp
  moreover have "(\<forall>(i, imp, tb) \<in> set ?rs. imp = e_importance (row ! i) \<and> tb = e_userTbf (row ! i))"
    using rs(5) b(3,4) iD(2) by simp
  ultimately show ?case by blast
qed

lemma Rank_ranked:
  assumes "length row = QUEUE_MAX_SIZE" "n \<le> QUEUE_MAX_SIZE" "\<forall>i < n. 0 < e_importance (row ! i)"
  shows "\<exists>rs. Rank n row = Some rs \<and> ranked n row rs"
proof -
  let ?loc = "map e_importance row"
  have D: "{0..<n} = {i. i < n \<and> ?loc ! i \<noteq> - 1}" using assms by force
  have "\<forall>i \<in> {0..<n}. ?loc ! i = e_importance (row ! i) \<and> 0 < ?loc ! i" using assms by simp
  from rank_passes_ranked [OF D _ _ this] show ?thesis
    using assms by (auto simp: Rank_def ranked_def)
qed

section \<open>The loops replace the worst entries\<close>

fun fits :: "int \<Rightarrow> int \<Rightarrow> nat list \<Rightarrow> 'p row \<Rightarrow> nat" where
  "fits p b [] row = 0"
| "fits p b (i # is) row =
     (if newImportance p b < e_importance (row ! i) then Suc (fits p (b + 1) is row) else 0)"

fun put_all :: "'p \<Rightarrow> int \<Rightarrow> int \<Rightarrow> nat list \<Rightarrow> 'p row \<Rightarrow> 'p row" where
  "put_all u p b [] row = row"
| "put_all u p b (i # is) row = put_all u p (b + 1) is (SetEntry i u p b (newImportance p b) row)"

lemma fits_le: "fits p b is row \<le> length is"
  by (induction "is" arbitrary: b) auto

lemma fits_SetEntry: "i \<notin> set is \<Longrightarrow> fits p b is (SetEntry i u q c w row) = fits p b is row"
  by (induction "is" arbitrary: b) (auto simp: SetEntry_def)

lemma length_SetEntry [simp]: "length (SetEntry i u p c w row) = length row"
  by (simp add: SetEntry_def)

lemma length_put_all [simp]: "length (put_all u p b is row) = length row"
  by (induction "is" arbitrary: b row) auto

lemma put_all_other: "j \<notin> set is \<Longrightarrow> put_all u p b is row ! j = row ! j"
  by (induction "is" arbitrary: b row) (auto simp: SetEntry_def)

lemma put_all_nth:
  "distinct is \<Longrightarrow> k < length is \<Longrightarrow> is ! k < length row \<Longrightarrow>
   put_all u p b is row ! (is ! k) =
     \<lparr>e_userTbf = Some u, e_precedence = p, e_entryNumber = b + int k, e_importance = newImportance p (b + int k)\<rparr>"
proof (induction "is" arbitrary: b row k)
  case Nil
  then show ?case by simp
next
  case (Cons i "is")
  show ?case
  proof (cases k)
    case 0
    with Cons.prems show ?thesis by (simp add: put_all_other) (simp add: SetEntry_def)
  next
    case (Suc k')
    with Cons show ?thesis by (simp add: algebra_simps)
  qed
qed

lemma alloc_loop_put:
  "distinct is \<Longrightarrow> alloc_loop u p is b row =
     (b + int (fits p b is row) + (if fits p b is row < length is then 1 else 0),
      put_all u p b (take (fits p b is row) is) row)"
  by (induction "is" arbitrary: b row) (auto simp: AllocateOneEntry_def fits_SetEntry Let_def)

lemma balance_loop_put:
  "distinct is \<Longrightarrow> balance_loop u p h is c row =
     (if fits p (int c + h + 1) is row = length is \<and> c + length is < QUEUE_MAX_SIZE then None
      else Some (put_all u p (int c + h + 1) (take (fits p (int c + h + 1) is row) is) row))"
proof (induction "is" arbitrary: c row)
  case Nil
  then show ?case by simp
next
  case (Cons i "is")
  have "int (c + 1) + h + 1 = int c + h + 1 + 1" by simp
  with Cons show ?case by (auto simp: AllocateOneEntry_def fits_SetEntry Let_def)
qed

lemma fits_beaten:
  "k < fits p b is row \<Longrightarrow> newImportance p (b + int k) < e_importance (row ! (is ! k))"
proof (induction "is" arbitrary: b k)
  case (Cons i "is")
  then show ?case using Cons.IH [of _ "b + 1"] by (cases k) (auto simp: algebra_simps split: if_splits)
qed simp

lemma fits_stop:
  "fits p b is row < length is \<Longrightarrow>
   newImportance p (b + int (fits p b is row)) \<ge> e_importance (row ! (is ! fits p b is row))"
proof (induction "is" arbitrary: b)
  case (Cons i "is")
  then show ?case using Cons.IH [of "b + 1"] by (auto simp: algebra_simps)
qed simp

lemma find_loop_fits:
  assumes "\<forall>(i, imp, tb) \<in> set rs. imp = e_importance (row ! i) \<and> tb \<noteq> Some u"
  shows "find_loop u p rs b a = a + int (fits p b (map fst rs) row)"
  using assms by (induction rs arbitrary: a b) auto

section \<open>The invariant of a level\<close>

text \<open>
  An entry is null or belongs to a user \<open>u\<close> of precedence \<open>prec u\<close>, with the importance the code
  computes.  The entry numbers of a user have no gaps: with entry \<open>m\<close> it holds every entry below.
\<close>

definition entry_ok :: "('p \<Rightarrow> int) \<Rightarrow> 'p Entry \<Rightarrow> bool" where
  "entry_ok prec e = (case e_userTbf e of None \<Rightarrow> e = null_entry
     | Some u \<Rightarrow> e_precedence e = prec u \<and> 0 \<le> e_entryNumber e \<and>
         e_importance e = newImportance (prec u) (e_entryNumber e))"

definition holds :: "nat \<Rightarrow> 'p row \<Rightarrow> 'p \<Rightarrow> int \<Rightarrow> bool" where
  "holds n row u k \<longleftrightarrow> (\<exists>j < n. e_userTbf (row ! j) = Some u \<and> e_entryNumber (row ! j) = k)"

definition row_ok :: "('p \<Rightarrow> int) \<Rightarrow> nat \<Rightarrow> 'p row \<Rightarrow> bool" where
  "row_ok prec n row \<longleftrightarrow> length row = QUEUE_MAX_SIZE \<and>
     (\<forall>i. n \<le> i \<and> i < QUEUE_MAX_SIZE \<longrightarrow> row ! i = null_entry) \<and>
     (\<forall>i < n. entry_ok prec (row ! i)) \<and>
     (\<forall>u m k. holds n row u m \<and> 0 \<le> k \<and> k < m \<longrightarrow> holds n row u k)"

definition row_full :: "nat \<Rightarrow> 'p row \<Rightarrow> bool" where
  "row_full n row \<longleftrightarrow> (\<forall>i < n. e_userTbf (row ! i) = None) \<or> (\<forall>i < n. e_userTbf (row ! i) \<noteq> None)"

definition precs_ok :: "('p \<Rightarrow> int) \<Rightarrow> bool" where
  "precs_ok prec \<longleftrightarrow> (\<forall>u. 1 \<le> prec u \<and> prec u \<le> 3)"

lemma newImportance_mono: "1 \<le> p \<Longrightarrow> 0 \<le> k \<Longrightarrow> k < l \<Longrightarrow> newImportance p k < newImportance p l"
  by (auto simp: newImportance_def)

lemma newImportance_bounds: "precs_ok prec \<Longrightarrow> 0 \<le> k \<Longrightarrow> 0 < newImportance (prec u) k \<and> newImportance (prec u) k \<le> 30 + k"
  unfolding precs_ok_def newImportance_def by (smt (verit, best))

lemma entry_ok_pos: "precs_ok prec \<Longrightarrow> entry_ok prec e \<Longrightarrow> 0 < e_importance e"
  by (auto simp: entry_ok_def null_entry_def newImportance_bounds split: option.splits)

lemma entry_okD:
  "entry_ok prec e \<Longrightarrow> e_userTbf e = Some u \<Longrightarrow>
     e_precedence e = prec u \<and> 0 \<le> e_entryNumber e \<and> e_importance e = newImportance (prec u) (e_entryNumber e)"
  by (simp add: entry_ok_def)

lemma entry_ok_null: "entry_ok prec e \<Longrightarrow> e_userTbf e = None \<Longrightarrow> e_importance e = NULL_IMPORTANCE"
  by (simp add: entry_ok_def null_entry_def)

lemma row_okD:
  assumes "row_ok prec n row"
  shows "length row = QUEUE_MAX_SIZE" "i < n \<Longrightarrow> entry_ok prec (row ! i)"
    "n \<le> i \<Longrightarrow> i < QUEUE_MAX_SIZE \<Longrightarrow> row ! i = null_entry"
    "holds n row u m \<Longrightarrow> 0 \<le> k \<Longrightarrow> k < m \<Longrightarrow> holds n row u k"
  using assms unfolding row_ok_def by blast+

lemma row_ok_null: "row_ok prec n (replicate QUEUE_MAX_SIZE null_entry)" if "n \<le> QUEUE_MAX_SIZE"
  using that by (auto simp: row_ok_def holds_def entry_ok_def null_entry_def)

text \<open>Without gaps, a user's entry numbers stay below the number of entries of the level.\<close>

lemma holds_bound:
  assumes "row_ok prec n row" "holds n row u m"
  shows "m < int n"
proof (rule ccontr)
  assume "\<not> m < int n"
  then have "{0..int n} \<subseteq> (\<lambda>j. e_entryNumber (row ! j)) ` {..<n}"
  proof (intro subsetI)
    fix k assume "k \<in> {0..int n}"
    then have "k = m \<or> 0 \<le> k \<and> k < m" using \<open>\<not> m < int n\<close> by auto
    then have "holds n row u k" using assms(2) row_okD(4) [OF assms] by blast
    then show "k \<in> (\<lambda>j. e_entryNumber (row ! j)) ` {..<n}" by (auto simp: holds_def)
  qed
  then have "card {0..int n} \<le> card ((\<lambda>j. e_entryNumber (row ! j)) ` {..<n})"
    by (intro card_mono) auto
  also have "\<dots> \<le> card {..<n}" by (rule card_image_le) simp
  finally show False by simp
qed

section \<open>One round of replacements\<close>

text \<open>
  The situation of both allocation loops: a ranked level and the \<open>fits\<close> first ranks replaced by
  consecutive entries of \<open>u\<close> from number \<open>b\<close> on.
\<close>

definition replace_worst :: "nat \<Rightarrow> 'p \<Rightarrow> int \<Rightarrow> int \<Rightarrow> nat list \<Rightarrow> 'p row \<Rightarrow> 'p row" where
  "replace_worst n u p b is row = put_all u p b (take (fits p b is row) is) row"

definition rank_order :: "nat \<Rightarrow> nat list \<Rightarrow> 'p row \<Rightarrow> bool" where
  "rank_order n is row \<longleftrightarrow> distinct is \<and> set is = {0..<n} \<and>
     (\<forall>k l. k < l \<and> l < length is \<longrightarrow> e_importance (row ! (is ! l)) \<le> e_importance (row ! (is ! k)))"

lemma ranked_order: "ranked n row rs \<Longrightarrow> rank_order n (map fst rs) row"
  unfolding ranked_def rank_order_def sorted_wrt_iff_nth_less by blast

lemma rank_order_length: "rank_order n is row \<Longrightarrow> length is = n"
  unfolding rank_order_def by (metis card_atLeastLessThan diff_zero distinct_card)

lemma replaced_nth:
  assumes "rank_order n is row" "n \<le> length row" "k < fits p b is row"
  shows "replace_worst n u p b is row ! (is ! k) =
       \<lparr>e_userTbf = Some u, e_precedence = p, e_entryNumber = b + int k, e_importance = newImportance p (b + int k)\<rparr>"
    "is ! k < n" "newImportance p (b + int k) < e_importance (row ! (is ! k))"
proof -
  have k: "k < length is" using assms(3) fits_le less_le_trans by blast
  then show "is ! k < n" using assms(1) nth_mem unfolding rank_order_def by fastforce
  then have "take (fits p b is row) is ! k < length row" using assms(2,3) by simp
  then show "replace_worst n u p b is row ! (is ! k) =
       \<lparr>e_userTbf = Some u, e_precedence = p, e_entryNumber = b + int k, e_importance = newImportance p (b + int k)\<rparr>"
    using put_all_nth [of "take (fits p b is row) is" k row u p b] assms(1,3) k
    by (simp add: replace_worst_def rank_order_def)
  show "newImportance p (b + int k) < e_importance (row ! (is ! k))" by (rule fits_beaten [OF assms(3)])
qed

lemma replace_cases:
  assumes "rank_order n is row" "j < n"
  obtains (new) k where "k < fits p b is row" "j = is ! k"
  | (kept) "replace_worst n u p b is row ! j = row ! j"
      "\<And>k. k < fits p b is row \<Longrightarrow> e_importance (row ! j) \<le> e_importance (row ! (is ! k))"
      "e_importance (row ! j) \<le> e_importance (row ! (is ! fits p b is row))" "fits p b is row < n"
proof -
  have "j \<in> set is" using assms by (simp add: rank_order_def)
  then obtain k where k: "k < length is" "is ! k = j" by (auto simp: in_set_conv_nth)
  show thesis
  proof (cases "k < fits p b is row")
    case True
    then show thesis using new k by blast
  next
    case False
    have d: "distinct is" using assms(1) by (simp add: rank_order_def)
    have "j \<notin> set (take (fits p b is row) is)"
    proof
      assume "j \<in> set (take (fits p b is row) is)"
      then obtain l where "l < fits p b is row" "l < length is" "is ! l = j" by (auto simp: in_set_conv_nth)
      then show False using k False d nth_eq_iff_index_eq by blast
    qed
    then have "replace_worst n u p b is row ! j = row ! j" by (simp add: replace_worst_def put_all_other)
    moreover have "e_importance (row ! j) \<le> e_importance (row ! (is ! l))" if "l < fits p b is row" for l
      using assms(1) k False that unfolding rank_order_def by (metis not_less order.strict_trans2)
    moreover have "e_importance (row ! j) \<le> e_importance (row ! (is ! fits p b is row))"
      using assms(1) k False unfolding rank_order_def by (metis not_less nless_le order_refl)
    moreover have "fits p b is row < n" using False k rank_order_length [OF assms(1)] by linarith
    ultimately show thesis by (rule kept)
  qed
qed

lemma length_replace_worst [simp]: "length (replace_worst n u p b is row) = length row"
  by (simp add: replace_worst_def)

lemma replace_beyond:
  assumes "rank_order n is row" "n \<le> i"
  shows "replace_worst n u p b is row ! i = row ! i"
proof -
  have "i \<notin> set (take (fits p b is row) is)"
    using assms in_set_takeD [of i "fits p b is row" "is"] by (auto simp: rank_order_def)
  then show ?thesis by (simp add: replace_worst_def put_all_other)
qed

lemma replace_improves:
  assumes "rank_order n is row" "n \<le> length row" "j < n"
  shows "e_importance (replace_worst n u p b is row ! j) \<le> e_importance (row ! j)"
  using assms(1,3)
proof (cases rule: replace_cases [where p = p and b = b and u = u])
  case (new k)
  then show ?thesis using replaced_nth [OF assms(1,2) new(1)] by simp
qed simp_all

text \<open>
  A round of replacements keeps the invariant of the level, provided that \<open>u\<close> already holds every
  entry below number \<open>b\<close> (nothing to show when no rank is replaced).
\<close>

lemma replaced_holds:
  assumes "rank_order n is row" "n \<le> length row" "holds n (replace_worst n u p b is row) v m"
  shows "(\<exists>k < fits p b is row. v = u \<and> m = b + int k) \<or>
     (\<exists>j < n. replace_worst n u p b is row ! j = row ! j \<and> e_userTbf (row ! j) = Some v \<and>
        e_entryNumber (row ! j) = m \<and>
        (\<forall>k < fits p b is row. e_importance (row ! j) \<le> e_importance (row ! (is ! k))))"
proof -
  obtain j where j: "j < n" "e_userTbf (replace_worst n u p b is row ! j) = Some v"
    "e_entryNumber (replace_worst n u p b is row ! j) = m"
    using assms(3) by (auto simp: holds_def)
  show ?thesis
    using assms(1) j(1)
  proof (cases rule: replace_cases [where p = p and b = b and u = u])
    case (new k)
    then show ?thesis using j replaced_nth(1) [OF assms(1,2) new(1), of u] by auto
  next
    case kept
    then show ?thesis using j by metis
  qed
qed

lemma holds_new:
  assumes "rank_order n is row" "n \<le> length row" "k < fits p b is row"
  shows "holds n (replace_worst n u p b is row) u (b + int k)"
  unfolding holds_def using replaced_nth(1) [OF assms, of u] replaced_nth(2) [OF assms]
  by (intro exI [of _ "is ! k"]) simp

lemma holds_kept:
  assumes ok: "row_ok prec n row" and order: "rank_order n is row" and len: "n \<le> length row"
    and h: "holds n row v m" "p = prec u"
    and le: "\<And>k. k < fits p b is row \<Longrightarrow> newImportance (prec v) m < e_importance (row ! (is ! k)) \<or>
       newImportance (prec v) m \<le> newImportance p (b + int k)"
  shows "holds n (replace_worst n u p b is row) v m"
proof -
  obtain j where j: "j < n" "e_userTbf (row ! j) = Some v" "e_entryNumber (row ! j) = m"
    using h(1) by (auto simp: holds_def)
  have imp: "e_importance (row ! j) = newImportance (prec v) m"
    using entry_okD [OF row_okD(2) [OF ok j(1)] j(2)] j(3) by simp
  show ?thesis
    using order j(1)
  proof (cases rule: replace_cases [where p = p and b = b and u = u])
    case (new k)
    then have False using le [OF new(1)] imp replaced_nth(3) [OF order len new(1)] by auto
    then show ?thesis ..
  next
    case kept
    then show ?thesis using j unfolding holds_def by metis
  qed
qed

lemma replace_row_ok:
  assumes ok: "row_ok prec n row" and pr: "precs_ok prec" and n: "n \<le> QUEUE_MAX_SIZE"
    and order: "rank_order n is row" and b: "0 \<le> b" and p: "p = prec u"
    and low: "0 < fits p b is row \<Longrightarrow> \<forall>k. 0 \<le> k \<and> k < b \<longrightarrow> holds n row u k"
  shows "row_ok prec n (replace_worst n u p b is row)"
proof -
  let ?row = "replace_worst n u p b is row"
  have len: "n \<le> length row" using row_okD(1) [OF ok] n by simp
  have p1: "1 \<le> prec v" for v using pr by (simp add: precs_ok_def)
  have "entry_ok prec (?row ! j)" if "j < n" for j
    using order that
  proof (cases rule: replace_cases [where p = p and b = b and u = u])
    case (new k)
    then show ?thesis using replaced_nth(1) [OF order len new(1), of u] b p by (simp add: entry_ok_def)
  next
    case kept
    then show ?thesis using row_okD(2) [OF ok that] by simp
  qed
  moreover have "holds n ?row v k" if h: "holds n ?row v m" and k: "0 \<le> k" "k < m" for v m k
    using replaced_holds [OF order len h]
  proof (elim disjE exE conjE)
    fix l assume l: "l < fits p b is row" "v = u" "m = b + int l"
    show ?thesis
    proof (cases "k < b")
      case True
      then have hk: "holds n row u k" using low l(1) k(1) by simp
      have "holds n ?row u k"
      proof (rule holds_kept [OF ok order len hk p])
        fix i assume "i < fits p b is row"
        have "newImportance p k < newImportance p (b + int i)"
          using newImportance_mono [OF p1 [of u] k(1)] True p by auto
        then show "newImportance (prec u) k < e_importance (row ! (is ! i)) \<or>
            newImportance (prec u) k \<le> newImportance p (b + int i)" using p by simp
      qed
      then show ?thesis using l by simp
    next
      case False
      then have "holds n ?row u (b + int (nat (k - b)))"
        using k l by (intro holds_new [OF order len]) auto
      then show ?thesis using False l by simp
    qed
  next
    fix j assume j: "j < n" "e_userTbf (row ! j) = Some v" "e_entryNumber (row ! j) = m"
      "\<forall>i < fits p b is row. e_importance (row ! j) \<le> e_importance (row ! (is ! i))"
    then have hm: "holds n row v m" by (auto simp: holds_def)
    have imp: "e_importance (row ! j) = newImportance (prec v) m"
      using entry_okD [OF row_okD(2) [OF ok j(1)] j(2)] j(3) by simp
    show ?thesis
    proof (rule holds_kept [OF ok order len row_okD(4) [OF ok hm k] p])
      fix i assume "i < fits p b is row"
      then have "newImportance (prec v) m \<le> e_importance (row ! (is ! i))" using j(4) imp by auto
      then show "newImportance (prec v) k < e_importance (row ! (is ! i)) \<or>
          newImportance (prec v) k \<le> newImportance p (b + int i)"
        using newImportance_mono [OF p1 [of v] k] by auto
    qed
  qed
  ultimately show ?thesis
    using row_okD(1,3) [OF ok] replace_beyond [OF order] unfolding row_ok_def
    by (intro conjI allI impI) (simp_all, blast)
qed

text \<open>When the new entries stay below the null importance, no null entry is left.\<close>

lemma replace_fills:
  assumes ok: "row_ok prec n row" and order: "rank_order n is row" and n: "n \<le> QUEUE_MAX_SIZE"
    and pr: "precs_ok prec" and p: "p = prec u" and b: "0 \<le> b" "b \<le> int n" and j: "j < n"
  shows "e_userTbf (replace_worst n u p b is row ! j) \<noteq> None"
  using order j
proof (cases rule: replace_cases [where p = p and b = b and u = u])
  case (new k)
  then show ?thesis using replaced_nth(1) [OF order _ new(1), of u] row_okD(1) [OF ok] n by simp
next
  case kept
  let ?m = "fits p b is row"
  have "newImportance p (b + int ?m) \<le> 30 + (b + int ?m)"
    using newImportance_bounds [OF pr, of "b + int ?m" u] b p by simp
  then have "newImportance p (b + int ?m) < NULL_IMPORTANCE" using kept(4) b n by simp
  moreover have "e_importance (row ! j) \<le> newImportance p (b + int ?m)"
    using fits_stop [of p b "is" row] kept(3,4) rank_order_length [OF order] by simp
  ultimately have "e_importance (row ! j) \<noteq> NULL_IMPORTANCE" by simp
  then show ?thesis using entry_ok_null [OF row_okD(2) [OF ok j]] kept(1) by auto
qed

lemma replace_keeps_users:
  assumes "rank_order n is row" "n \<le> length row" "e_userTbf (row ! j) \<noteq> None" "j < n"
  shows "e_userTbf (replace_worst n u p b is row ! j) \<noteq> None"
  using assms(1,4)
proof (cases rule: replace_cases [where p = p and b = b and u = u])
  case (new k)
  then show ?thesis using replaced_nth(1) [OF assms(1,2) new(1), of u] by simp
qed (use assms in simp)

lemma row_ok_Rank:
  assumes "row_ok prec n row" "precs_ok prec" "n \<le> QUEUE_MAX_SIZE"
  obtains rs where "Rank n row = Some rs" "ranked n row rs" "rank_order n (map fst rs) row"
proof -
  have "\<forall>i < n. 0 < e_importance (row ! i)"
    using entry_ok_pos [OF assms(2)] row_okD(2) [OF assms(1)] by blast
  then show thesis
    using Rank_ranked [OF row_okD(1) [OF assms(1)] assms(3)] ranked_order that by blast
qed

section \<open>Allocation keeps the invariant\<close>

lemma AllocateRow_replace:
  assumes "row_ok prec n row" "precs_ok prec" "n \<le> QUEUE_MAX_SIZE"
  obtains rs where "Rank n row = Some rs" "ranked n row rs" "rank_order n (map fst rs) row"
    "AllocateRow n u p row =
       Some (int (fits p 0 (map fst rs) row) - (if fits p 0 (map fst rs) row < n then 0 else 1),
             replace_worst n u p 0 (map fst rs) row)"
proof -
  obtain rs where rs: "Rank n row = Some rs" "ranked n row rs" "rank_order n (map fst rs) row"
    by (rule row_ok_Rank [OF assms])
  have "distinct (map fst rs)" "length rs = n"
    using rs(3) rank_order_length [OF rs(3)] by (simp_all add: rank_order_def)
  then have "AllocateRow n u p row =
       Some (int (fits p 0 (map fst rs) row) - (if fits p 0 (map fst rs) row < n then 0 else 1),
             replace_worst n u p 0 (map fst rs) row)"
    using alloc_loop_put [of "map fst rs" u p 0 row] rs(1)
    by (simp add: AllocateRow_def replace_worst_def)
  with rs show thesis by (rule that)
qed

lemma AllocateRow_ok:
  assumes "row_ok prec n row" "precs_ok prec" "n \<le> QUEUE_MAX_SIZE"
  shows "\<exists>k row'. AllocateRow n u (prec u) row = Some (k, row') \<and> row_ok prec n row' \<and> row_full n row'"
proof -
  obtain rs where rs: "Rank n row = Some rs" "ranked n row rs" "rank_order n (map fst rs) row"
    "AllocateRow n u (prec u) row =
       Some (int (fits (prec u) 0 (map fst rs) row) - (if fits (prec u) 0 (map fst rs) row < n then 0 else 1),
             replace_worst n u (prec u) 0 (map fst rs) row)"
    by (rule AllocateRow_replace [OF assms])
  have "\<forall>k. 0 \<le> k \<and> k < (0 :: int) \<longrightarrow> holds n row u k" by auto
  then have "row_ok prec n (replace_worst n u (prec u) 0 (map fst rs) row)"
    using replace_row_ok [OF assms rs(3), of 0 "prec u" u] by blast
  then show ?thesis
    using rs(4) replace_fills [OF assms(1) rs(3) assms(3,2), of "prec u" u 0]
    by (simp add: row_full_def)
qed

section \<open>Deallocation and balancing keep the invariant\<close>

lemma dealloc_row_map:
  "snd (dealloc_row u row) = map (\<lambda>e. if e_userTbf e = Some u then null_entry else e) row"
  "fst (dealloc_row u row) = int (length (filter (\<lambda>e. e_userTbf e = Some u) row))"
  by (induction row) (auto simp: Let_def split: prod.splits)

lemma dealloc_row_ok:
  assumes "row_ok prec n row" "n \<le> QUEUE_MAX_SIZE"
  shows "row_ok prec n (snd (dealloc_row u row))"
proof -
  let ?row = "snd (dealloc_row u row)"
  have len: "length row = 12" by (rule row_okD(1) [OF assms(1)])
  have nth: "?row ! i = (if e_userTbf (row ! i) = Some u then null_entry else row ! i)" if "i < 12" for i
    using that len by (simp add: dealloc_row_map)
  have hold: "holds n ?row v m \<longleftrightarrow> v \<noteq> u \<and> holds n row v m" for v m
  proof
    assume "holds n ?row v m"
    then obtain j where "j < n" "e_userTbf (?row ! j) = Some v" "e_entryNumber (?row ! j) = m"
      by (auto simp: holds_def)
    then show "v \<noteq> u \<and> holds n row v m"
      using nth [of j] assms(2) by (auto simp: holds_def null_entry_def split: if_splits)
  next
    assume "v \<noteq> u \<and> holds n row v m"
    then obtain j where "v \<noteq> u" "j < n" "e_userTbf (row ! j) = Some v" "e_entryNumber (row ! j) = m"
      by (auto simp: holds_def)
    then show "holds n ?row v m"
      using nth [of j] assms(2) unfolding holds_def by (intro exI [of _ j]) simp
  qed
  have "?row ! i = null_entry" if "n \<le> i \<and> i < 12" for i
    using that nth row_okD(3) [OF assms(1), of i] by simp
  moreover have "entry_ok prec (?row ! i)" if "i < n" for i
    using that nth [of i] row_okD(2) [OF assms(1) that] assms(2) by (simp add: entry_ok_def null_entry_def)
  ultimately show ?thesis
    using row_okD(4) [OF assms(1)] hold len unfolding row_ok_def by (auto simp: dealloc_row_map(1))
qed

text \<open>
  The balancing loop works with the highest entries noted before its first replacement.  They are
  still held when the user's turn comes, or else no entry of the level is worse than the noted one,
  and the user gets nothing.
\<close>

definition user_current :: "('p \<Rightarrow> int) \<Rightarrow> nat \<Rightarrow> 'p row \<Rightarrow> 'p \<times> int \<times> int \<Rightarrow> bool" where
  "user_current prec n row = (\<lambda>(u, p, h). p = prec u \<and> 0 \<le> h \<and>
     (holds n row u h \<or> (\<forall>j < n. e_importance (row ! j) \<le> newImportance p h)))"

lemma balance_step:
  assumes ok: "row_ok prec n row" and pr: "precs_ok prec" and n: "0 < n" "n \<le> QUEUE_MAX_SIZE"
    and cur: "user_current prec n row (u, p, h)" and rank: "Rank n row = Some rs" "rank_order n (map fst rs) row"
  shows "balance_loop u p h (map fst rs) 0 row = Some (replace_worst n u p (h + 1) (map fst rs) row)"
    "row_ok prec n (replace_worst n u p (h + 1) (map fst rs) row)"
    "holds n row u h \<Longrightarrow> j < n \<Longrightarrow> e_userTbf (replace_worst n u p (h + 1) (map fst rs) row ! j) \<noteq> None"
proof -
  let ?is = "map fst rs"
  have len: "n \<le> length row" using row_okD(1) [OF ok] n by simp
  have p: "p = prec u" "0 \<le> h" using cur by (simp_all add: user_current_def)
  then have p1: "1 \<le> p" using pr by (simp add: precs_ok_def)
  have beat: "newImportance p h < newImportance p (h + 1 + int k)" for k
    using newImportance_mono [OF p1 p(2)] by simp
  have held: "holds n row u h" if "0 < fits p (h + 1) ?is row"
  proof (rule ccontr)
    assume "\<not> holds n row u h"
    then have "\<forall>j < n. e_importance (row ! j) \<le> newImportance p h" using cur unfolding user_current_def by simp blast
    then have "e_importance (row ! (?is ! 0)) \<le> newImportance p h"
      using replaced_nth(2) [OF rank(2) len that] by blast
    then show False using replaced_nth(3) [OF rank(2) len that] beat [of 0] by simp
  qed
  have "fits p (h + 1) ?is row \<noteq> n"
  proof
    assume all: "fits p (h + 1) ?is row = n"
    then have "holds n row u h" using held n(1) by simp
    then obtain j where j: "j < n" "e_userTbf (row ! j) = Some u" "e_entryNumber (row ! j) = h"
      by (auto simp: holds_def)
    then have imp: "e_importance (row ! j) = newImportance p h"
      using entry_okD [OF row_okD(2) [OF ok j(1)] j(2)] p(1) by simp
    from rank(2) j(1) show False
    proof (cases rule: replace_cases [where p = p and b = "h + 1" and u = u])
      case (new k)
      then show ?thesis using replaced_nth(3) [OF rank(2) len new(1)] imp beat [of k] by simp
    next
      case kept
      then show ?thesis using all by simp
    qed
  qed
  then have "fits p (h + 1) ?is row \<noteq> length ?is" using rank_order_length [OF rank(2)] by simp
  then show "balance_loop u p h ?is 0 row = Some (replace_worst n u p (h + 1) ?is row)"
    using balance_loop_put [of ?is u p h 0 row] rank(2) by (simp add: rank_order_def replace_worst_def)
  have low: "\<forall>k. 0 \<le> k \<and> k < h + 1 \<longrightarrow> holds n row u k" if "0 < fits p (h + 1) ?is row"
  proof (intro allI impI)
    fix k assume k: "0 \<le> k \<and> k < h + 1"
    show "holds n row u k"
      using held [OF that] row_okD(4) [OF ok held [OF that]] k by (cases "k = h") auto
  qed
  show "row_ok prec n (replace_worst n u p (h + 1) ?is row)"
    using replace_row_ok [OF ok pr n(2) rank(2) _ p(1) low] p(2) by simp
  show "e_userTbf (replace_worst n u p (h + 1) ?is row ! j) \<noteq> None" if "holds n row u h" "j < n"
    using replace_fills [OF ok rank(2) n(2) pr p(1) _ _ that(2), of "h + 1"] holds_bound [OF ok that(1)] p(2)
    by simp
qed

lemma balance_current:
  assumes ok: "row_ok prec n row" and pr: "precs_ok prec" and n: "n \<le> QUEUE_MAX_SIZE"
    and cur: "user_current prec n row (v, q, g)" and order: "rank_order n is row"
    and b: "0 \<le> b" and p: "1 \<le> p"
  shows "user_current prec n (replace_worst n u p b is row) (v, q, g)"
proof -
  let ?row = "replace_worst n u p b is row"
  have len: "n \<le> length row" using row_okD(1) [OF ok] n by simp
  have q: "q = prec v" "0 \<le> g" using cur by (simp_all add: user_current_def)
  have "holds n ?row v g \<or> (\<forall>j < n. e_importance (?row ! j) \<le> newImportance q g)"
  proof (cases "holds n row v g")
    case False
    then have "\<forall>j < n. e_importance (row ! j) \<le> newImportance q g" using cur unfolding user_current_def by simp blast
    then show ?thesis using replace_improves [OF order len] order_trans by blast
  next
    case True
    then obtain j where j: "j < n" "e_userTbf (row ! j) = Some v" "e_entryNumber (row ! j) = g"
      by (auto simp: holds_def)
    then have imp: "e_importance (row ! j) = newImportance q g"
      using entry_okD [OF row_okD(2) [OF ok j(1)] j(2)] q(1) by simp
    from order j(1) show ?thesis
    proof (cases rule: replace_cases [where p = p and b = b and u = u])
      case kept
      then show ?thesis using j unfolding holds_def by metis
    next
      case (new k)
      have "e_importance (?row ! i) \<le> newImportance q g" if "i < n" for i
        using order that
      proof (cases rule: replace_cases [where p = p and b = b and u = u])
        case kept
        then show ?thesis using new imp by metis
      next
        case new2: (new l)
        have val: "e_importance (?row ! i) = newImportance p (b + int l)"
          using replaced_nth(1) [OF order len new2(1), of u] new2(2) by simp
        show ?thesis
        proof (cases "l \<le> k")
          case True
          then have "newImportance p (b + int l) \<le> newImportance p (b + int k)"
            using newImportance_mono [OF p, of "b + int l" "b + int k"] b by (cases "l = k") auto
          then show ?thesis using val replaced_nth(3) [OF order len new(1)] new(2) imp by simp
        next
          case False
          then have "e_importance (row ! (is ! l)) \<le> e_importance (row ! (is ! k))"
            using order new2(1) fits_le [of p b "is" row] unfolding rank_order_def
            by (metis not_less less_le_trans)
          then show ?thesis using val replaced_nth(3) [OF order len new2(1)] new(2) imp by simp
        qed
      qed
      then show ?thesis by blast
    qed
  qed
  then show ?thesis using q by (simp add: user_current_def)
qed

lemma balance_users_ok:
  assumes "row_ok prec n row" "precs_ok prec" "0 < n" "n \<le> QUEUE_MAX_SIZE"
    "\<forall>x \<in> set us. user_current prec n row x"
  shows "\<exists>row'. balance_users n us row = Some row' \<and> row_ok prec n row' \<and>
     (\<forall>j < n. e_userTbf (row ! j) \<noteq> None \<longrightarrow> e_userTbf (row' ! j) \<noteq> None)"
  using assms
proof (induction us arbitrary: row)
  case Nil
  then show ?case by simp
next
  case (Cons x us)
  obtain u p h where x: "x = (u, p, h)" by (metis prod_cases3)
  obtain rs where rs: "Rank n row = Some rs" "rank_order n (map fst rs) row"
    using row_ok_Rank [OF Cons.prems(1,2,4)] by metis
  have cur: "user_current prec n row (u, p, h)" using Cons.prems(5) x by simp
  then have p: "0 \<le> h + 1" "1 \<le> p" using Cons.prems(2) by (simp_all add: user_current_def precs_ok_def)
  let ?row = "replace_worst n u p (h + 1) (map fst rs) row"
  note step = balance_step [OF Cons.prems(1-4) cur rs]
  have "user_current prec n ?row y" if "y \<in> set us" for y
    using balance_current [OF Cons.prems(1,2,4) _ rs(2) p] Cons.prems(5) that
    by (cases y) auto
  then obtain row' where row': "balance_users n us ?row = Some row'" "row_ok prec n row'"
    "\<forall>j < n. e_userTbf (?row ! j) \<noteq> None \<longrightarrow> e_userTbf (row' ! j) \<noteq> None"
    using Cons.IH [OF step(2) Cons.prems(2-4)] by blast
  have "n \<le> length row" using row_okD(1) [OF Cons.prems(1)] Cons.prems(4) by simp
  then have "\<forall>j < n. e_userTbf (row ! j) \<noteq> None \<longrightarrow> e_userTbf (row' ! j) \<noteq> None"
    using row'(3) replace_keeps_users [OF rs(2)] by blast
  then show ?case using row' rs(1) step(1) x by simp
qed

section \<open>The users of a level\<close>

lemma note_user_set:
  "fst ` set (note_user t p k us) = insert t (fst ` set us)"
proof (induction us)
  case (Cons y us)
  obtain u q h where "y = (u, q, h)" by (metis prod_cases3)
  then show ?case using Cons by (cases "u = t") (simp_all add: insert_commute)
qed simp

lemma note_user_distinct:
  "distinct (map fst us) \<Longrightarrow> distinct (map fst (note_user t p k us))"
proof (induction us)
  case (Cons x us)
  then show ?case
    using note_user_set [of t p k us] by (cases x) (auto simp: set_map [symmetric] simp del: set_map)
qed simp

lemma note_user_mem:
  "x \<in> set (note_user t p k us) \<Longrightarrow> x \<in> set us \<or> x = (t, p, k) \<or> (\<exists>q h. (t, q, h) \<in> set us \<and> x = (t, q, k))"
proof (induction us)
  case (Cons y us)
  obtain u q h where y: "y = (u, q, h)" by (metis prod_cases3)
  show ?case
  proof (cases "u = t")
    case True
    then show ?thesis using Cons.prems y by (cases "k > h") auto
  next
    case False
    then show ?thesis using Cons y by auto
  qed
qed simp

lemma GetAllTbf_snoc:
  "GetAllTbf (row @ [e]) = (case e_userTbf e of None \<Rightarrow> GetAllTbf row
     | Some t \<Rightarrow> note_user t (e_precedence e) (e_entryNumber e) (GetAllTbf row))"
  by (simp add: GetAllTbf_def split: option.splits)

lemma GetAllTbf_users:
  "distinct (map fst (GetAllTbf row)) \<and>
   fst ` set (GetAllTbf row) = {u. \<exists>e \<in> set row. e_userTbf e = Some u}"
proof (induction row rule: rev_induct)
  case Nil
  then show ?case by (simp add: GetAllTbf_def)
next
  case (snoc e row)
  then show ?case
    by (auto simp: GetAllTbf_snoc note_user_set note_user_distinct split: option.splits)
qed

lemma GetAllTbf_entry:
  assumes "\<forall>e \<in> set row. entry_ok prec e" "(u, p, h) \<in> set (GetAllTbf row)"
  shows "p = prec u \<and> (\<exists>e \<in> set row. e_userTbf e = Some u \<and> e_entryNumber e = h)"
  using assms
proof (induction row arbitrary: u p h rule: rev_induct)
  case Nil
  then show ?case by (simp add: GetAllTbf_def)
next
  case (snoc e row)
  show ?case
  proof (cases "e_userTbf e")
    case None
    with snoc show ?thesis by (auto simp: GetAllTbf_snoc)
  next
    case (Some t)
    have e: "e_precedence e = prec t" using snoc.prems(1) Some entry_okD by fastforce
    have "(u, p, h) \<in> set (note_user t (e_precedence e) (e_entryNumber e) (GetAllTbf row))"
      using snoc.prems(2) Some by (simp add: GetAllTbf_snoc)
    from note_user_mem [OF this] show ?thesis
      using snoc.IH snoc.prems(1) e Some by fastforce
  qed
qed

lemma GetAllTbf_current:
  assumes ok: "row_ok prec n row" and n: "n \<le> QUEUE_MAX_SIZE" and x: "x \<in> set (GetAllTbf row)"
  shows "user_current prec n row x \<and> (\<exists>u p h. x = (u, p, h) \<and> holds n row u h)"
proof -
  obtain u p h where uph: "x = (u, p, h)" by (metis prod_cases3)
  have len: "length row = 12" by (rule row_okD(1) [OF ok])
  have all: "entry_ok prec (row ! i)" if "i < 12" for i
    using row_okD(2,3) [OF ok, of i] that by (cases "i < n") (auto simp: entry_ok_def null_entry_def)
  then have "\<forall>e \<in> set row. entry_ok prec e" using len by (auto simp: in_set_conv_nth)
  from GetAllTbf_entry [OF this] x uph obtain e where
    e: "p = prec u" "e \<in> set row" "e_userTbf e = Some u" "e_entryNumber e = h" by blast
  then obtain j where j: "j < 12" "row ! j = e" using len by (auto simp: in_set_conv_nth)
  then have "j < n" using row_okD(3) [OF ok, of j] e(3) by (cases "j < n") (auto simp: null_entry_def)
  then have "holds n row u h" using j e by (auto simp: holds_def)
  moreover have "0 \<le> h" using entry_okD [OF all [OF j(1)]] j e by simp
  ultimately show ?thesis using e(1) uph by (simp add: user_current_def)
qed

lemma BalanceRow_ok:
  assumes ok: "row_ok prec n row" and pr: "precs_ok prec" and n: "0 < n" "n \<le> QUEUE_MAX_SIZE"
  shows "\<exists>row'. BalanceRow n row = Some row' \<and> row_ok prec n row' \<and> row_full n row'"
proof (cases "GetAllTbf row")
  case Nil
  have "e_userTbf (row ! j) = None" if "j < n" for j
  proof (rule ccontr)
    assume "e_userTbf (row ! j) \<noteq> None"
    then obtain u where "e_userTbf (row ! j) = Some u" by blast
    moreover have "row ! j \<in> set row" using that n row_okD(1) [OF ok] by simp
    ultimately have "u \<in> fst ` set (GetAllTbf row)" using GetAllTbf_users [of row] by blast
    then show False using Nil by simp
  qed
  then show ?thesis using ok Nil by (simp add: BalanceRow_def row_full_def)
next
  case (Cons x us)
  obtain u p h where x: "x = (u, p, h)" by (metis prod_cases3)
  have cur: "user_current prec n row y" if "y \<in> set (x # us)" for y
    using GetAllTbf_current [OF ok n(2), of y] that Cons by auto
  have held: "holds n row u h" using GetAllTbf_current [OF ok n(2), of x] Cons x by auto
  have ucur: "user_current prec n row (u, p, h)" using cur x by simp
  then have p: "0 \<le> h + 1" "1 \<le> p" using pr by (simp_all add: user_current_def precs_ok_def)
  obtain rs where rs: "Rank n row = Some rs" "rank_order n (map fst rs) row"
    using row_ok_Rank [OF ok pr n(2)] by metis
  let ?row = "replace_worst n u p (h + 1) (map fst rs) row"
  note step = balance_step [OF ok pr n ucur rs]
  have "user_current prec n ?row y" if "y \<in> set us" for y
    using balance_current [OF ok pr n(2) _ rs(2) p] cur that by (cases y) auto
  then obtain row' where "balance_users n us ?row = Some row'" "row_ok prec n row'"
    "\<forall>j < n. e_userTbf (?row ! j) \<noteq> None \<longrightarrow> e_userTbf (row' ! j) \<noteq> None"
    using balance_users_ok [OF step(2) pr n] by blast
  then show ?thesis
    using Cons x rs(1) step(1) step(3) [OF held] by (auto simp: BalanceRow_def row_full_def)
qed

section \<open>Scheduling walks over non-null entries\<close>

lemma scan_level_total:
  assumes "\<forall>i < n. e_userTbf (row ! i) \<noteq> None" "- 1 \<le> idx" "idx < int n"
  shows "(\<exists>t i. scan_level st row (int n) idx = Some (Some t, int i) \<and> i < n \<and> idx < int i \<and>
       e_userTbf (row ! i) = Some t \<and> st t = ALLOCATED) \<or>
     (\<exists>j. scan_level st row (int n) idx = Some (None, j) \<and>
       (\<forall>i t. i < n \<and> idx < int i \<and> e_userTbf (row ! i) = Some t \<longrightarrow> st t \<noteq> ALLOCATED))"
  using assms
proof (induction st row "int n" idx rule: scan_level.induct)
  case (1 st row idx)
  show ?case
  proof (cases "idx + 1 < int n")
    case False
    then show ?thesis by (auto simp: scan_level.simps [of st row _ idx])
  next
    case True
    then obtain i where i: "idx + 1 = int i" "i < n" using "1.prems"(2) by (metis add_0 add_le_cancel_right
        add.commute uminus_add_conv_diff diff_add_cancel nat_int nat_less_iff nonneg_int_cases of_nat_less_iff
        add.left_neutral le_minus_iff minus_le_iff add_increasing)
    then obtain t where t: "e_userTbf (row ! i) = Some t" using "1.prems"(1) by blast
    show ?thesis
    proof (cases "st t = ALLOCATED")
      case True
      then show ?thesis using i t by (auto simp: scan_level.simps [of st row _ idx])
    next
      case False
      have eq: "scan_level st row (int n) idx = scan_level st row (int n) (int i)"
        using i t False by (simp add: scan_level.simps [of st row _ idx])
      have IH: "(\<exists>t' j. scan_level st row (int n) (int i) = Some (Some t', int j) \<and> j < n \<and> int i < int j \<and>
           e_userTbf (row ! j) = Some t' \<and> st t' = ALLOCATED) \<or>
         (\<exists>j. scan_level st row (int n) (int i) = Some (None, j) \<and>
           (\<forall>j t'. j < n \<and> int i < int j \<and> e_userTbf (row ! j) = Some t' \<longrightarrow> st t' \<noteq> ALLOCATED))"
        using "1.hyps" [of t] "1.prems"(1) i t False by simp
      have cover: "i < k \<or> k = i" if "idx < int k" for k using i(1) that by linarith
      have "idx < int i" using i(1) by simp
      then show ?thesis using IH cover t False unfolding eq by (smt (verit) of_nat_less_iff option.inject)
    qed
  qed
qed

definition rows_ok :: "('p \<Rightarrow> int) \<Rightarrow> 'p row list \<Rightarrow> bool" where
  "rows_ok prec rows \<longleftrightarrow> length rows = QUEUE_NUM_LEVELS \<and>
     (\<forall>l < QUEUE_NUM_LEVELS. row_ok prec (nbrEntries ! l) (rows ! l) \<and> row_full (nbrEntries ! l) (rows ! l))"

definition index_ok :: "int list \<Rightarrow> bool" where
  "index_ok idx \<longleftrightarrow> length idx = QUEUE_NUM_LEVELS \<and>
     (\<forall>l < QUEUE_NUM_LEVELS. - 1 \<le> idx ! l \<and> idx ! l < int (nbrEntries ! l))"

definition sq_ok :: "('p \<Rightarrow> int) \<Rightarrow> 'p ScheduleQueue \<Rightarrow> bool" where
  "sq_ok prec q \<longleftrightarrow> index_ok (sq_currentIndex q) \<and> rows_ok prec (sq_queue q) \<and> rows_ok prec (sq_savedQueue q)"

lemma nbrEntries_bounds: "l < QUEUE_NUM_LEVELS \<Longrightarrow> 0 < nbrEntries ! l \<and> nbrEntries ! l \<le> QUEUE_MAX_SIZE"
  by (auto simp: nbrEntries_def nth_Cons split: nat.splits)

text \<open>Some entry of the level names an ALLOCATED TBF.\<close>

definition level_has :: "('p \<Rightarrow> TBF_STATE) \<Rightarrow> 'p ScheduleQueue \<Rightarrow> nat \<Rightarrow> 'p \<Rightarrow> bool" where
  "level_has st q l t \<longleftrightarrow> (\<exists>i < nbrEntries ! l. e_userTbf (sq_queue q ! l ! i) = Some t) \<and> st t = ALLOCATED"

lemma level_has_index [simp]: "level_has st (q\<lparr>sq_currentIndex := idx\<rparr>) = level_has st q"
  by (simp add: level_has_def fun_eq_iff)

lemma level_loop_total:
  assumes "index_ok (sq_currentIndex q)" "rows_ok prec (sq_queue q)" "set ls \<subseteq> {..<QUEUE_NUM_LEVELS}"
    "distinct ls" "\<forall>l < QUEUE_NUM_LEVELS. isEmpty ! l \<longleftrightarrow> e_userTbf (sq_queue q ! l ! 0) = None"
  shows "\<exists>r idx. level_loop st isEmpty ls q = Some (r, q\<lparr>sq_currentIndex := idx\<rparr>) \<and> index_ok idx \<and>
     (\<forall>l. l \<notin> set ls \<longrightarrow> idx ! l = sq_currentIndex q ! l) \<and>
     (case r of Some t \<Rightarrow> \<exists>l \<in> set ls. level_has st q l t
      | None \<Rightarrow> (\<forall>l \<in> set ls. (isEmpty ! l \<or> idx ! l = - 1) \<and>
                  (sq_currentIndex q ! l = - 1 \<longrightarrow> (\<forall>t. \<not> level_has st q l t))))"
  using assms
proof (induction ls arbitrary: q)
  case Nil
  then show ?case by (intro exI [of _ None] exI [of _ "sq_currentIndex q"]) simp
next
  case (Cons l ls)
  let ?idx = "sq_currentIndex q" let ?row = "sq_queue q ! l" let ?n = "nbrEntries ! l"
  have l: "l < 4" using Cons.prems(3) by simp
  then have n: "0 < ?n" "?n \<le> 12" using nbrEntries_bounds by auto
  have row: "row_full ?n ?row" using Cons.prems(2) l by (simp add: rows_ok_def)
  have tl: "set ls \<subseteq> {..<4}" "distinct ls" "l \<notin> set ls" using Cons.prems(3,4) by simp_all
  show ?case
  proof (cases "isEmpty ! l")
    case True
    then have "e_userTbf (?row ! 0) = None" using Cons.prems(5) l by blast
    then have none: "\<not> level_has st q l t" for t using row n by (auto simp: row_full_def level_has_def)
    obtain r idx where IH: "level_loop st isEmpty ls q = Some (r, q\<lparr>sq_currentIndex := idx\<rparr>)" "index_ok idx"
      "\<forall>k. k \<notin> set ls \<longrightarrow> idx ! k = ?idx ! k"
      "case r of Some t \<Rightarrow> \<exists>l \<in> set ls. level_has st q l t
       | None \<Rightarrow> (\<forall>k \<in> set ls. (isEmpty ! k \<or> idx ! k = - 1) \<and>
                (?idx ! k = - 1 \<longrightarrow> (\<forall>t. \<not> level_has st q k t)))"
      using Cons.IH [OF Cons.prems(1,2) tl(1,2) Cons.prems(5)] by blast
    then show ?thesis
      using True none by (intro exI [of _ r] exI [of _ idx]) (cases r; auto)
  next
    case False
    then have "e_userTbf (?row ! 0) \<noteq> None" using Cons.prems(5) l by blast
    then have all: "\<forall>i < ?n. e_userTbf (?row ! i) \<noteq> None" using row n by (auto simp: row_full_def)
    have range: "- 1 \<le> ?idx ! l" "?idx ! l < int ?n" using Cons.prems(1) l by (simp_all add: index_ok_def)
    from scan_level_total [OF all range, of st] show ?thesis
    proof (elim disjE exE conjE)
      fix t i assume f: "scan_level st ?row (int ?n) (?idx ! l) = Some (Some t, int i)" "i < ?n"
        "e_userTbf (?row ! i) = Some t" "st t = ALLOCATED"
      have "index_ok (?idx[l := int i])"
        using Cons.prems(1) f(2) l by (auto simp: index_ok_def nth_list_update)
      moreover have "level_has st q l t" using f by (auto simp: level_has_def)
      ultimately show ?thesis using f(1) False by (intro exI [of _ "Some t"] exI) auto
    next
      fix j assume f: "scan_level st ?row (int ?n) (?idx ! l) = Some (None, j)"
        "\<forall>i t. i < ?n \<and> ?idx ! l < int i \<and> e_userTbf (?row ! i) = Some t \<longrightarrow> st t \<noteq> ALLOCATED"
      let ?q = "q\<lparr>sq_currentIndex := ?idx[l := - 1]\<rparr>"
      have "index_ok (sq_currentIndex ?q)"
        using Cons.prems(1) n l by (auto simp: index_ok_def nth_list_update)
      then obtain r idx where IH0: "level_loop st isEmpty ls ?q = Some (r, ?q\<lparr>sq_currentIndex := idx\<rparr>)"
        "index_ok idx" "\<forall>k. k \<notin> set ls \<longrightarrow> idx ! k = sq_currentIndex ?q ! k"
        "case r of Some t \<Rightarrow> \<exists>l \<in> set ls. level_has st ?q l t
         | None \<Rightarrow> (\<forall>k \<in> set ls. (isEmpty ! k \<or> idx ! k = - 1) \<and>
                  (sq_currentIndex ?q ! k = - 1 \<longrightarrow> (\<forall>t. \<not> level_has st ?q k t)))"
        using Cons.IH [of ?q] Cons.prems(2,5) tl(1,2) by simp blast
      then have IH: "level_loop st isEmpty ls ?q = Some (r, q\<lparr>sq_currentIndex := idx\<rparr>)"
        "index_ok idx" "\<forall>k. k \<notin> set ls \<longrightarrow> idx ! k = ?idx[l := - 1] ! k"
        "case r of Some t \<Rightarrow> \<exists>l \<in> set ls. level_has st q l t
         | None \<Rightarrow> (\<forall>k \<in> set ls. (isEmpty ! k \<or> idx ! k = - 1) \<and>
                  (?idx[l := - 1] ! k = - 1 \<longrightarrow> (\<forall>t. \<not> level_has st q k t)))"
        by (simp_all split: option.splits)
      have "?idx[l := - 1] ! l = - 1" using Cons.prems(1) l by (simp add: index_ok_def)
      then have idxl: "idx ! l = - 1" using IH(3) tl(3) by simp
      have other: "?idx[l := - 1] ! k = ?idx ! k" if "k \<noteq> l" for k using that by simp
      have here: "\<not> level_has st q l t" if "?idx ! l = - 1" for t
        using f(2) that by (auto simp: level_has_def)
      show ?thesis
      proof (intro exI conjI)
        show "level_loop st isEmpty (l # ls) q = Some (r, q\<lparr>sq_currentIndex := idx\<rparr>)"
          using f(1) IH(1) False by simp
        show "\<forall>k. k \<notin> set (l # ls) \<longrightarrow> idx ! k = ?idx ! k" using IH(3) other by simp
        show "case r of Some t \<Rightarrow> \<exists>l \<in> set (l # ls). level_has st q l t
          | None \<Rightarrow> (\<forall>k \<in> set (l # ls). (isEmpty ! k \<or> idx ! k = - 1) \<and>
                  (?idx ! k = - 1 \<longrightarrow> (\<forall>t. \<not> level_has st q k t)))"
        proof (cases r)
          case None
          have "?idx[l := - 1] ! k = ?idx ! k" if "k \<in> set ls" for k using that other tl(3) by metis
          then show ?thesis using None IH(4) idxl here by simp
        next
          case (Some t)
          then show ?thesis using IH(4) by auto
        qed
      qed (rule IH(2))
    qed
  qed
qed

lemma ScheduleNextBlock_total:
  assumes "sq_ok prec q"
  shows "\<exists>r idx. ScheduleNextBlock st q = Some (r, q\<lparr>sq_currentIndex := idx\<rparr>) \<and> index_ok idx \<and>
     (case r of Some t \<Rightarrow> \<exists>l < QUEUE_NUM_LEVELS. level_has st q l t
      | None \<Rightarrow> \<forall>l < QUEUE_NUM_LEVELS. \<forall>t. \<not> level_has st q l t)"
proof -
  let ?ls = "[0..<QUEUE_NUM_LEVELS]"
  let ?e = "map (\<lambda>level. e_userTbf (sq_queue q ! level ! 0) = None) ?ls"
  have ls: "set ?ls \<subseteq> {..<QUEUE_NUM_LEVELS}" "distinct ?ls" by auto
  have e: "\<forall>l < QUEUE_NUM_LEVELS. ?e ! l \<longleftrightarrow> e_userTbf (sq_queue q ! l ! 0) = None" by simp
  have ok: "index_ok (sq_currentIndex q)" "rows_ok prec (sq_queue q)" using assms by (simp_all add: sq_ok_def)
  obtain r idx where A: "level_loop st ?e ?ls q = Some (r, q\<lparr>sq_currentIndex := idx\<rparr>)" "index_ok idx"
    "case r of Some t \<Rightarrow> \<exists>l \<in> set ?ls. level_has st q l t
      | None \<Rightarrow> \<forall>l \<in> set ?ls. ?e ! l \<or> idx ! l = - 1"
    using level_loop_total [OF ok ls e, of st] by (fastforce split: option.splits)
  show ?thesis
  proof (cases r)
    case (Some t)
    then show ?thesis using A by (intro exI [of _ "Some t"] exI [of _ idx]) (auto simp: ScheduleNextBlock_def Let_def simp del: upt_rec_numeral)
  next
    case None
    let ?q = "q\<lparr>sq_currentIndex := idx\<rparr>"
    obtain r' idx' where B: "level_loop st ?e ?ls ?q = Some (r', q\<lparr>sq_currentIndex := idx'\<rparr>)" "index_ok idx'"
      "case r' of Some t \<Rightarrow> \<exists>l \<in> set ?ls. level_has st q l t
        | None \<Rightarrow> \<forall>l \<in> set ?ls. idx ! l = - 1 \<longrightarrow> (\<forall>t. \<not> level_has st q l t)"
      using level_loop_total [of ?q, OF _ _ ls, of prec ?e st] ok(2) A(2) e
      by (fastforce simp: level_has_def split: option.splits)
    have none: "\<not> level_has st q l t" if "l < QUEUE_NUM_LEVELS" "idx ! l \<noteq> - 1" for l t
    proof -
      have "?e ! l" using A(3) None that by auto
      then have "e_userTbf (sq_queue q ! l ! 0) = None" using e that(1) by blast
      moreover have "row_full (nbrEntries ! l) (sq_queue q ! l)" using ok(2) that(1) by (simp add: rows_ok_def)
      ultimately show ?thesis
        using nbrEntries_bounds [OF that(1)] by (auto simp: row_full_def level_has_def)
    qed
    have "case r' of Some t \<Rightarrow> \<exists>l < QUEUE_NUM_LEVELS. level_has st q l t
      | None \<Rightarrow> \<forall>l < QUEUE_NUM_LEVELS. \<forall>t. \<not> level_has st q l t"
      using B(3) none by (cases r') (force, auto)
    then show ?thesis
      using A(1) B(1,2) None
      by (intro exI [of _ r'] exI [of _ idx']) (simp add: ScheduleNextBlock_def Let_def del: upt_rec_numeral)
  qed
qed

section \<open>The queue as the scheduler drives it\<close>

text \<open>
  \<open>RemoveFromLevel\<close> is the body of the level loops of \<open>DeallocateUser\<close> and
  \<open>AllocateUserIfBetterQoS\<close> in \<^verbatim>\<open>MacScheduler.cpp\<close>: rebalance when something was deallocated.
\<close>

definition RemoveFromLevel :: "'p \<Rightarrow> nat \<Rightarrow> 'p ScheduleQueue \<Rightarrow> 'p ScheduleQueue option" where
  "RemoveFromLevel pTbf level q =
     (case DeallocateEntries pTbf level q of
        None \<Rightarrow> None
      | Some (k, q') \<Rightarrow> if k \<noteq> 0 then BalanceEntries level q' else Some q')"

datatype 'p sq_step =
    S_Allocate 'p nat
  | S_Remove 'p nat
  | S_Schedule "'p \<Rightarrow> TBF_STATE"
  | S_Copy
  | S_Restore

fun sq_exec :: "('p \<Rightarrow> int) \<Rightarrow> 'p sq_step \<Rightarrow> 'p ScheduleQueue \<Rightarrow> 'p ScheduleQueue option" where
  "sq_exec prec (S_Allocate u level) q = map_option snd (AllocateEntries u level (prec u) q)"
| "sq_exec prec (S_Remove u level) q = RemoveFromLevel u level q"
| "sq_exec prec (S_Schedule st) q = map_option snd (ScheduleNextBlock st q)"
| "sq_exec prec S_Copy q = Some (CopyQueue q)"
| "sq_exec prec S_Restore q = Some (RestoreQueue q)"

fun sq_run :: "('p \<Rightarrow> int) \<Rightarrow> 'p sq_step list \<Rightarrow> 'p ScheduleQueue \<Rightarrow> 'p ScheduleQueue option" where
  "sq_run prec [] q = Some q"
| "sq_run prec (s # ss) q = (case sq_exec prec s q of None \<Rightarrow> None | Some q' \<Rightarrow> sq_run prec ss q')"

text \<open>Delay classes 1 to 4 select the levels 0 to 3.\<close>

fun sq_step_ok :: "'p sq_step \<Rightarrow> bool" where
  "sq_step_ok (S_Allocate u level) = (level < QUEUE_NUM_LEVELS)"
| "sq_step_ok (S_Remove u level) = (level < QUEUE_NUM_LEVELS)"
| "sq_step_ok _ = True"

lemma rows_ok_update:
  assumes "rows_ok prec rows" "row_ok prec (nbrEntries ! l) row" "row_full (nbrEntries ! l) row"
  shows "rows_ok prec (rows[l := row])"
  unfolding rows_ok_def
proof (intro conjI allI impI)
  fix k assume "k < QUEUE_NUM_LEVELS"
  then show "row_ok prec (nbrEntries ! k) (rows[l := row] ! k)"
    "row_full (nbrEntries ! k) (rows[l := row] ! k)"
    using assms by (cases "k = l"; simp add: rows_ok_def)+
qed (use assms(1) in \<open>simp add: rows_ok_def\<close>)

lemma rows_okD:
  "rows_ok prec rows \<Longrightarrow> l < QUEUE_NUM_LEVELS \<Longrightarrow>
     row_ok prec (nbrEntries ! l) (rows ! l) \<and> row_full (nbrEntries ! l) (rows ! l)"
  by (simp add: rows_ok_def)

lemma sq_ok_new: "sq_ok prec (ScheduleQueue_new dir)"
proof -
  have "rows_ok prec (replicate 4 (replicate 12 null_entry))"
    unfolding rows_ok_def
  proof (intro conjI allI impI)
    fix l :: nat assume l: "l < 4"
    then show "row_ok prec (nbrEntries ! l) (replicate 4 (replicate 12 null_entry) ! l)"
      using row_ok_null [of "nbrEntries ! l"] nbrEntries_bounds [OF l] by simp
    show "row_full (nbrEntries ! l) (replicate 4 (replicate 12 null_entry) ! l)"
      using l nbrEntries_bounds [OF l] by (simp add: row_full_def null_entry_def)
  qed simp
  moreover have "index_ok (replicate 4 (- 1))" by (auto simp: index_ok_def)
  ultimately show ?thesis by (simp add: sq_ok_def ScheduleQueue_new_def)
qed

lemma RemoveFromLevel_ok:
  assumes q: "sq_ok prec q" and pr: "precs_ok prec" and l: "l < QUEUE_NUM_LEVELS"
  shows "\<exists>q'. RemoveFromLevel u l q = Some q' \<and> sq_ok prec q' \<and> sq_savedQueue q' = sq_savedQueue q"
proof -
  let ?n = "nbrEntries ! l" let ?row = "sq_queue q ! l"
  have n: "0 < ?n" "?n \<le> QUEUE_MAX_SIZE" using nbrEntries_bounds [OF l] by auto
  have len: "length (sq_queue q) = QUEUE_NUM_LEVELS" using q by (simp add: sq_ok_def rows_ok_def)
  have row: "row_ok prec ?n ?row" "row_full ?n ?row" using q rows_okD [OF _ l] by (auto simp: sq_ok_def)
  obtain k row1 where d: "dealloc_row u ?row = (k, row1)" by fastforce
  have ok1: "row_ok prec ?n row1" using dealloc_row_ok [OF row(1) n(2), of u] d by simp
  show ?thesis
  proof (cases "k = 0")
    case True
    then have "filter (\<lambda>e. e_userTbf e = Some u) ?row = []" using dealloc_row_map(2) [of u ?row] d by simp
    then have "row1 = ?row"
      using dealloc_row_map(1) [of u ?row] d by (auto simp: filter_empty_conv intro: map_idI)
    then show ?thesis using True d q l by (simp add: RemoveFromLevel_def DeallocateEntries_def)
  next
    case False
    obtain row2 where b: "BalanceRow ?n row1 = Some row2" "row_ok prec ?n row2" "row_full ?n row2"
      using BalanceRow_ok [OF ok1 pr n] by blast
    have "rows_ok prec ((sq_queue q)[l := row2])"
      using q b rows_ok_update by (auto simp: sq_ok_def)
    then show ?thesis
      using False d b(1) q l len by (simp add: RemoveFromLevel_def DeallocateEntries_def BalanceEntries_def sq_ok_def)
  qed
qed

lemma sq_exec_ok:
  assumes q: "sq_ok prec q" and pr: "precs_ok prec" and s: "sq_step_ok s"
  shows "\<exists>q'. sq_exec prec s q = Some q' \<and> sq_ok prec q' \<and> (s \<noteq> S_Copy \<longrightarrow> sq_savedQueue q' = sq_savedQueue q)"
proof (cases s)
  case (S_Allocate u l)
  then have l: "l < QUEUE_NUM_LEVELS" using s by simp
  have "row_ok prec (nbrEntries ! l) (sq_queue q ! l)" using q rows_okD [OF _ l] by (auto simp: sq_ok_def)
  then obtain k row where a: "AllocateRow (nbrEntries ! l) u (prec u) (sq_queue q ! l) = Some (k, row)"
    "row_ok prec (nbrEntries ! l) row" "row_full (nbrEntries ! l) row"
    using AllocateRow_ok [OF _ pr] nbrEntries_bounds [OF l] by blast
  then show ?thesis
    using S_Allocate q l rows_ok_update by (auto simp: AllocateEntries_def sq_ok_def)
next
  case (S_Remove u l)
  then show ?thesis using RemoveFromLevel_ok [OF q pr] s by auto
next
  case (S_Schedule st)
  then show ?thesis using ScheduleNextBlock_total [OF q, of st] q by (auto simp: sq_ok_def)
next
  case S_Copy
  then show ?thesis using q by (simp add: CopyQueue_def sq_ok_def)
next
  case S_Restore
  then show ?thesis using q by (simp add: RestoreQueue_def sq_ok_def)
qed

lemma sq_run_ok:
  assumes "sq_ok prec q" "precs_ok prec" "\<forall>s \<in> set ss. sq_step_ok s"
  shows "\<exists>q'. sq_run prec ss q = Some q' \<and> sq_ok prec q' \<and>
     (S_Copy \<notin> set ss \<longrightarrow> sq_savedQueue q' = sq_savedQueue q)"
  using assms
proof (induction ss arbitrary: q)
  case (Cons s ss)
  obtain q1 where "sq_exec prec s q = Some q1" "sq_ok prec q1"
    "s \<noteq> S_Copy \<longrightarrow> sq_savedQueue q1 = sq_savedQueue q"
    using sq_exec_ok [OF Cons.prems(1,2), of s] Cons.prems(3) by auto
  then show ?case using Cons.IH [of q1] Cons.prems(2,3) by auto
qed simp

section \<open>Properties\<close>

text \<open>
  \<open>Rank\<close> sorts. For a twelve-entry level whose first \<open>n\<close> importances are positive it writes all
  \<open>n\<close> ranks: they name each of the entries 0..n-1 exactly once, carry that entry's importance and
  TBF, and go from the worst (largest) importance to the best.
\<close>

theorem Rank_sorts:
  assumes "length row = QUEUE_MAX_SIZE" "n \<le> QUEUE_MAX_SIZE" "\<forall>i < n. 0 < e_importance (row ! i)"
  shows "\<exists>rs. Rank n row = Some rs \<and> length rs = n \<and> distinct (map fst rs) \<and> set (map fst rs) = {0..<n} \<and>
     (\<forall>(i, imp, tb) \<in> set rs. imp = e_importance (row ! i) \<and> tb = e_userTbf (row ! i)) \<and>
     sorted_wrt (\<ge>) (map (\<lambda>(i, imp, tb). imp) rs)"
proof -
  obtain rs where rs: "Rank n row = Some rs" "ranked n row rs" using Rank_ranked [OF assms] by blast
  then have "length rs = n" using rank_order_length [OF ranked_order [OF rs(2)]] by simp
  moreover have "map (\<lambda>(i, imp, tb). imp) rs = map (\<lambda>i. e_importance (row ! i)) (map fst rs)"
    unfolding map_map
  proof (rule map_cong [OF refl])
    fix x assume x: "x \<in> set rs"
    obtain i imp tb where "x = (i, imp, tb)" by (metis prod_cases3)
    with x rankedD(1) [OF rs(2)] show "(case x of (i, imp, tb) \<Rightarrow> imp) = ((\<lambda>i. e_importance (row ! i)) \<circ> fst) x"
      by simp
  qed
  then have "sorted_wrt (\<ge>) (map (\<lambda>(i, imp, tb). imp) rs)"
    using rs(2) by (simp only: sorted_wrt_map ranked_def)
  ultimately show ?thesis using rs(1,2) unfolding ranked_def by blast
qed

theorem Rank_sorts_witness:
  "\<exists>rs. Rank 4 (\<lparr>e_userTbf = Some (5 :: nat), e_precedence = 2, e_entryNumber = 0, e_importance = 2\<rparr> #
       \<lparr>e_userTbf = Some 5, e_precedence = 2, e_entryNumber = 1, e_importance = 21\<rparr> # replicate 10 null_entry) = Some rs \<and>
     map fst rs = [2, 3, 1, 0] \<and> sorted_wrt (\<ge>) (map (\<lambda>(i, imp, tb). imp) rs)"
proof -
  let ?row = "\<lparr>e_userTbf = Some (5 :: nat), e_precedence = 2, e_entryNumber = 0, e_importance = 2\<rparr> #
       \<lparr>e_userTbf = Some 5, e_precedence = 2, e_entryNumber = 1, e_importance = 21\<rparr> # replicate 10 null_entry"
  have "0 < e_importance (?row ! i)" if "i < 4" for i
  proof -
    have "i = 0 \<or> i = 1 \<or> i = 2 \<or> i = 3" using that by auto
    then show ?thesis by (auto simp: null_entry_def)
  qed
  moreover have "Rank 4 ?row = Some [(2, 9999, None), (3, 9999, None), (1, 21, Some 5), (0, 2, Some 5)]"
    by code_simp
  ultimately show ?thesis using Rank_sorts [of ?row 4] by simp
qed

text \<open>
  C4: the queue the way the scheduler drives it. Starting from an empty queue, any sequence of
  allocations, removals with rebalancing, block schedulings, copies and restores runs to the end:
  no unwritten rank is read, no null entry is dereferenced, no array is left. Every level is then
  either empty or held without a gap, with the importances the code computes and the entry numbers
  of each user contiguous from zero.
\<close>

theorem sq_never_undefined:
  assumes "precs_ok prec" "\<forall>s \<in> set ss. sq_step_ok s"
  shows "\<exists>q. sq_run prec ss (ScheduleQueue_new dir) = Some q \<and>
     (\<forall>l < 4. row_full (nbrEntries ! l) (sq_queue q ! l) \<and> row_ok prec (nbrEntries ! l) (sq_queue q ! l))"
  using sq_run_ok [OF sq_ok_new assms, of dir] by (auto simp: sq_ok_def rows_ok_def)

theorem sq_never_undefined_witness:
  "\<exists>q. sq_run (\<lambda>_. 2) [S_Allocate (1 :: nat) 0, S_Allocate 2 0, S_Copy, S_Remove 1 0, S_Schedule (\<lambda>_. ALLOCATED),
       S_Restore] (ScheduleQueue_new DL) = Some q"
  using sq_never_undefined [of "\<lambda>_. 2" "[S_Allocate (1 :: nat) 0, S_Allocate 2 0, S_Copy, S_Remove 1 0,
       S_Schedule (\<lambda>_. ALLOCATED), S_Restore]" DL]
  by (force simp: precs_ok_def)

text \<open>
  C6: scheduling is work conserving. In every state the scheduler can reach,
  \<open>ScheduleNextBlock\<close> picks a TBF of some level that is in state ALLOCATED whenever any level
  holds one, whatever the current indices are, and reports nothing only when there is none; it
  changes nothing but the current indices.
\<close>

theorem ScheduleNextBlock_work_conserving:
  assumes "precs_ok prec" "\<forall>s \<in> set ss. sq_step_ok s" "sq_run prec ss (ScheduleQueue_new dir) = Some q"
  shows "\<exists>r idx. ScheduleNextBlock st q = Some (r, q\<lparr>sq_currentIndex := idx\<rparr>) \<and>
     (case r of
        Some t \<Rightarrow> st t = ALLOCATED \<and> (\<exists>l < 4. \<exists>i < nbrEntries ! l. e_userTbf (sq_queue q ! l ! i) = Some t)
      | None \<Rightarrow> \<forall>l < 4. \<forall>i < nbrEntries ! l. \<forall>t. e_userTbf (sq_queue q ! l ! i) = Some t \<longrightarrow> st t \<noteq> ALLOCATED)"
proof -
  have "sq_ok prec q" using sq_run_ok [OF sq_ok_new assms(1,2), of dir] assms(3) by simp
  then obtain r idx where r: "ScheduleNextBlock st q = Some (r, q\<lparr>sq_currentIndex := idx\<rparr>)"
    "case r of Some t \<Rightarrow> \<exists>l < 4. level_has st q l t | None \<Rightarrow> \<forall>l < 4. \<forall>t. \<not> level_has st q l t"
    using ScheduleNextBlock_total by blast
  have "case r of
        Some t \<Rightarrow> st t = ALLOCATED \<and> (\<exists>l < 4. \<exists>i < nbrEntries ! l. e_userTbf (sq_queue q ! l ! i) = Some t)
      | None \<Rightarrow> \<forall>l < 4. \<forall>i < nbrEntries ! l. \<forall>t. e_userTbf (sq_queue q ! l ! i) = Some t \<longrightarrow> st t \<noteq> ALLOCATED"
    using r(2) unfolding level_has_def by (cases r) auto
  with r(1) show ?thesis by blast
qed

theorem ScheduleNextBlock_work_conserving_witness:
  "\<exists>q r idx. sq_run (\<lambda>_. 2) [S_Allocate (1 :: nat) 2] (ScheduleQueue_new UL) = Some q \<and>
     ScheduleNextBlock (\<lambda>_. ALLOCATED) q = Some (r, q\<lparr>sq_currentIndex := idx\<rparr>) \<and> r \<noteq> None"
proof -
  obtain q where q: "sq_run (\<lambda>_. 2) [S_Allocate (1 :: nat) 2] (ScheduleQueue_new UL) = Some q"
    "e_userTbf (sq_queue q ! 2 ! 0) = Some 1"
    by (rule that [of "the (sq_run (\<lambda>_. 2) [S_Allocate (1 :: nat) 2] (ScheduleQueue_new UL))"]; code_simp)
  have "precs_ok (\<lambda>_ :: nat. 2)" "\<forall>s \<in> set [S_Allocate (1 :: nat) 2]. sq_step_ok s"
    by (simp_all add: precs_ok_def)
  from ScheduleNextBlock_work_conserving [OF this q(1), of "\<lambda>_. ALLOCATED"] obtain r idx where
    r: "ScheduleNextBlock (\<lambda>_. ALLOCATED) q = Some (r, q\<lparr>sq_currentIndex := idx\<rparr>)"
    "r = None \<Longrightarrow> \<forall>l < 4. \<forall>i < nbrEntries ! l. \<forall>t. e_userTbf (sq_queue q ! l ! i) = Some t \<longrightarrow> False"
    by (auto split: option.splits)
  have "r \<noteq> None"
  proof
    assume "r = None"
    from r(2) [OF this] have "\<forall>i < nbrEntries ! 2. \<forall>t. e_userTbf (sq_queue q ! 2 ! i) \<noteq> Some t" by auto
    then show False using q(2) by (auto simp: nbrEntries_def)
  qed
  then show ?thesis using q(1) r(1) by blast
qed

text \<open>
  Rolling a reallocation attempt back. After \<open>CopyQueue\<close>, whatever allocations, removals and
  schedulings follow, \<open>RestoreQueue\<close> gives back the four levels entry by entry.
\<close>

theorem copy_restore_rollback:
  assumes "precs_ok prec" "\<forall>s \<in> set ss. sq_step_ok s" "sq_run prec ss (ScheduleQueue_new dir) = Some q"
    "\<forall>s \<in> set ts. sq_step_ok s" "S_Copy \<notin> set ts"
  shows "\<exists>q'. sq_run prec ts (CopyQueue q) = Some q' \<and> sq_queue (RestoreQueue q') = sq_queue q"
proof -
  have "sq_ok prec q" using sq_run_ok [OF sq_ok_new assms(1,2), of dir] assms(3) by simp
  then have "sq_ok prec (CopyQueue q)" by (simp add: sq_ok_def CopyQueue_def)
  then show ?thesis
    using sq_run_ok [OF _ assms(1,4)] assms(5) by (force simp: RestoreQueue_def CopyQueue_def)
qed

theorem copy_restore_rollback_witness:
  "\<exists>q q'. sq_run (\<lambda>_. 1) [S_Allocate (1 :: nat) 1, S_Allocate 2 1] (ScheduleQueue_new DL) = Some q \<and>
     sq_run (\<lambda>_. 1) [S_Remove 1 1, S_Allocate 3 1] (CopyQueue q) = Some q' \<and>
     sq_queue (RestoreQueue q') = sq_queue q"
proof -
  have p: "precs_ok (\<lambda>_ :: nat. 1)" by (simp add: precs_ok_def)
  obtain q where q: "sq_run (\<lambda>_. 1) [S_Allocate (1 :: nat) 1, S_Allocate 2 1] (ScheduleQueue_new DL) = Some q"
    using sq_run_ok [OF sq_ok_new p, of "[S_Allocate 1 1, S_Allocate 2 1]" DL] by auto
  show ?thesis
    using copy_restore_rollback [OF p _ q, of "[S_Remove 1 1, S_Allocate 3 1]"] q by auto
qed

text \<open>
  \<open>FindAvailableEntries\<close> predicts \<open>AllocateEntries\<close>. For a TBF that holds nothing on the level,
  in every reachable state, the number found is the number of entries the TBF holds after the
  allocation; every other entry is untouched, and each entry it took had a strictly worse
  importance than the one it now has. The value \<open>AllocateEntries\<close> returns is that number too,
  except that it is one too small when the whole level was taken.
\<close>

theorem find_predicts_allocate:
  assumes "precs_ok prec" "\<forall>s \<in> set ss. sq_step_ok s" "sq_run prec ss (ScheduleQueue_new dir) = Some q"
    "l < 4" "\<forall>i < nbrEntries ! l. e_userTbf (sq_queue q ! l ! i) \<noteq> Some u"
  shows "\<exists>k k' q'. FindAvailableEntries u l (prec u) q = Some k \<and> AllocateEntries u l (prec u) q = Some (k', q') \<and>
     k' = (if k = int (nbrEntries ! l) then k - 1 else k) \<and>
     k = int (card {i. i < nbrEntries ! l \<and> e_userTbf (sq_queue q' ! l ! i) = Some u}) \<and>
     (\<forall>i < nbrEntries ! l. sq_queue q' ! l ! i = sq_queue q ! l ! i \<or>
        e_userTbf (sq_queue q' ! l ! i) = Some u \<and>
        e_importance (sq_queue q' ! l ! i) < e_importance (sq_queue q ! l ! i))"
proof -
  let ?n = "nbrEntries ! l" let ?row = "sq_queue q ! l"
  have q: "sq_ok prec q" using sq_run_ok [OF sq_ok_new assms(1,2), of dir] assms(3) by simp
  have ok: "row_ok prec ?n ?row" "length (sq_queue q) = 4"
    using q rows_okD [OF _ assms(4)] by (auto simp: sq_ok_def rows_ok_def)
  have n: "?n \<le> 12" using nbrEntries_bounds [OF assms(4)] by simp
  obtain rs where rs: "Rank ?n ?row = Some rs" "ranked ?n ?row rs" "rank_order ?n (map fst rs) ?row"
    "AllocateRow ?n u (prec u) ?row =
       Some (int (fits (prec u) 0 (map fst rs) ?row) - (if fits (prec u) 0 (map fst rs) ?row < ?n then 0 else 1),
             replace_worst ?n u (prec u) 0 (map fst rs) ?row)"
    by (rule AllocateRow_replace [OF ok(1) assms(1) n])
  let ?is = "map fst rs"
  let ?m = "fits (prec u) 0 ?is ?row" let ?new = "replace_worst ?n u (prec u) 0 ?is ?row"
  have len: "?n \<le> length ?row" using row_okD(1) [OF ok(1)] n by simp
  have m: "?m \<le> ?n" using fits_le [of "prec u" 0 ?is ?row] rank_order_length [OF rs(3)] by simp
  have "imp = e_importance (?row ! i) \<and> tb \<noteq> Some u" if "(i, imp, tb) \<in> set rs" for i imp tb
  proof -
    have "i \<in> set ?is" using that by force
    then have "i < ?n" using rs(3) by (simp add: rank_order_def)
    then show ?thesis using rankedD [OF rs(2) that] assms(5) by simp
  qed
  then have "find_loop u (prec u) rs 0 0 = 0 + int ?m" by (intro find_loop_fits) blast
  then have find: "FindAvailableEntries u l (prec u) q = Some (int ?m)"
    using rs(1) assms(4) by (simp add: FindAvailableEntries_def FindAvailable_def)
  have alloc: "AllocateEntries u l (prec u) q =
      Some (int ?m - (if ?m < ?n then 0 else 1), q\<lparr>sq_queue := (sq_queue q)[l := ?new]\<rparr>)"
    using rs(4) assms(4) by (simp add: AllocateEntries_def)
  have each: "?new ! i = ?row ! i \<and> i \<notin> (!) ?is ` {..<?m} \<or>
      e_userTbf (?new ! i) = Some u \<and> i \<in> (!) ?is ` {..<?m} \<and>
      e_importance (?new ! i) < e_importance (?row ! i)" if "i < ?n" for i
    using rs(3) that
  proof (cases rule: replace_cases [where p = "prec u" and b = 0 and u = u])
    case (new k)
    then show ?thesis
      using replaced_nth(1) [OF rs(3) len new(1), of u] replaced_nth(3) [OF rs(3) len new(1)] by auto
  next
    case kept
    have "i \<notin> (!) ?is ` {..<?m}"
    proof
      assume "i \<in> (!) ?is ` {..<?m}"
      then obtain k where "k < ?m" "i = ?is ! k" by auto
      then have "e_userTbf (?new ! i) = Some u" using replaced_nth(1) [OF rs(3) len, of k _ _ u] by simp
      then show False using kept(1) assms(5) that by simp
    qed
    then show ?thesis using kept(1) by blast
  qed
  have "{i. i < ?n \<and> e_userTbf (?new ! i) = Some u} = (!) ?is ` {..<?m}"
  proof (rule set_eqI)
    fix i
    show "i \<in> {i. i < ?n \<and> e_userTbf (?new ! i) = Some u} \<longleftrightarrow> i \<in> (!) ?is ` {..<?m}"
    proof (cases "i < ?n")
      case True
      then show ?thesis using each [OF True] assms(5) by auto
    next
      case False
      then show ?thesis using replaced_nth(2) [OF rs(3) len] by auto
    qed
  qed
  moreover have "inj_on ((!) ?is) {..<?m}"
  proof (rule inj_onI)
    fix x y assume "x \<in> {..<?m}" "y \<in> {..<?m}" "?is ! x = ?is ! y"
    moreover have "distinct ?is" using rs(3) by (simp add: rank_order_def)
    ultimately show "x = y"
      using m rank_order_length [OF rs(3)] nth_eq_iff_index_eq [of ?is x y] by simp
  qed
  ultimately have card: "card {i. i < ?n \<and> e_userTbf (?new ! i) = Some u} = ?m" by (simp add: card_image)
  let ?q' = "q\<lparr>sq_queue := (sq_queue q)[l := ?new]\<rparr>"
  have row': "sq_queue ?q' ! l = ?new" using ok(2) assms(4) by simp
  show ?thesis
  proof (intro exI conjI)
    show "int ?m - (if ?m < ?n then 0 else 1) = (if int ?m = int ?n then int ?m - 1 else int ?m)"
      using m by simp
    show "int ?m = int (card {i. i < ?n \<and> e_userTbf (sq_queue ?q' ! l ! i) = Some u})"
      unfolding row' card ..
    show "\<forall>i < ?n. sq_queue ?q' ! l ! i = ?row ! i \<or>
        e_userTbf (sq_queue ?q' ! l ! i) = Some u \<and>
        e_importance (sq_queue ?q' ! l ! i) < e_importance (?row ! i)"
      unfolding row' using each by blast
  qed (fact find alloc)+
qed

theorem find_predicts_allocate_witness:
  "\<exists>q k k' q'. sq_run (\<lambda>_. 2) [S_Allocate (1 :: nat) 0] (ScheduleQueue_new DL) = Some q \<and>
     FindAvailableEntries 2 0 2 q = Some k \<and> AllocateEntries 2 0 2 q = Some (k', q') \<and> k' \<le> k"
proof -
  have p: "precs_ok (\<lambda>_ :: nat. 2)" by (simp add: precs_ok_def)
  let ?q = "the (sq_run (\<lambda>_. 2) [S_Allocate (1 :: nat) 0] (ScheduleQueue_new DL))"
  have q: "sq_run (\<lambda>_. 2) [S_Allocate (1 :: nat) 0] (ScheduleQueue_new DL) = Some ?q"
    "list_all (\<lambda>e. e_userTbf e \<noteq> Some 2) (sq_queue ?q ! 0)" "length (sq_queue ?q ! 0) = 12"
    by code_simp+
  have n: "nbrEntries ! 0 = 7" by (simp add: nbrEntries_def)
  have free: "\<forall>i < nbrEntries ! 0. e_userTbf (sq_queue ?q ! 0 ! i) \<noteq> Some 2"
    using q(2,3) unfolding n by (auto simp: list_all_length)
  show ?thesis
    using find_predicts_allocate [OF p _ q(1), of 0 2, OF _ _ free] q(1) by fastforce
qed

end
