(* ===== verification/Tbf.thy ===== *)
theory Tbf
  imports ScheduleQueue
begin

text \<open>
  The temporary block flow objects of \<^verbatim>\<open>Rlc_mac/include/Tbf.h\<close>, \<^verbatim>\<open>ULTbf.h\<close> and \<^verbatim>\<open>DLTbf.h\<close>: the
  resources a TBF records (TFI, timing advance index, uplink state flags, timeslots), its state, and
  the control acknowledgement tags that match answers of the mobile with its TBF. The RLC links
  that a TBF contains have their own theories.
\<close>

section \<open>The TBF record\<close>

abbreviation (input) NULL_TRX :: int where "NULL_TRX \<equiv> - 1"
abbreviation (input) CTL_ACK_TAG_NOT_APPLICABLE :: octet where "CTL_ACK_TAG_NOT_APPLICABLE \<equiv> 0xff"

record IeTFI =
  tfi_isValid :: bool
  tfi_val :: octet

definition SetTFI :: "octet \<Rightarrow> IeTFI \<Rightarrow> RlcMacResult \<times> IeTFI" where
  "SetTFI tfiIn ie =
     (if unat tfiIn \<le> MAX_TFI then (RLC_MAC_SUCCESS, ie\<lparr>tfi_val := tfiIn, tfi_isValid := True\<rparr>)
      else (RLC_MAC_PARAMETER_RANGE_ERROR, ie))"

record Tbf =
  tbf_tfi :: IeTFI
  tbf_tlli :: "32 word"
  tbf_taiTs :: octet
  tbf_tai :: octet
  tbf_trx :: int
  tbf_allocatedTs :: "bool list"
  tbf_naturalTs :: "bool list"
  tbf_state :: TBF_STATE

record ULTbf = Tbf +
  ul_usf :: "octet list"
  ul_ctlAckTag :: octet

record DLTbf = Tbf +
  dl_ctlAckTag :: "octet list"
  dl_currAckTag :: nat
  dl_currNumAckTags :: nat

section \<open>Establishment\<close>

text \<open>The resource part of \<open>EstablishULTbf\<close> and of \<open>EstablishDLTbf\<close>.\<close>

definition EstablishULTbf_clear :: "ULTbf \<Rightarrow> ULTbf" where
  "EstablishULTbf_clear t = t\<lparr>tbf_allocatedTs := replicate MAX_TIMESLOTS False,
      ul_usf := replicate MAX_TIMESLOTS 0, tbf_trx := NULL_TRX\<rparr>"

definition EstablishDLTbf_clear :: "'a Tbf_scheme \<Rightarrow> 'a Tbf_scheme" where
  "EstablishDLTbf_clear t = t\<lparr>tbf_allocatedTs := replicate MAX_TIMESLOTS False, tbf_trx := NULL_TRX\<rparr>"

section \<open>Control acknowledgement tags\<close>

text \<open>
  \<open>++sysCtlAckCount != CTL_ACK_TAG_NOT_APPLICABLE ? sysCtlAckCount : ++sysCtlAckCount\<close>: the static
  counter is one octet and wraps.  Returns the tag, which is also the new counter.
\<close>

definition nextCtlAck :: "octet \<Rightarrow> octet" where
  "nextCtlAck c = (if c + 1 \<noteq> CTL_ACK_TAG_NOT_APPLICABLE then c + 1 else c + 2)"

definition UL_SetControlAckTag :: "octet \<times> ULTbf \<Rightarrow> octet \<times> (octet \<times> ULTbf)" where
  "UL_SetControlAckTag = (\<lambda>(c, t). (nextCtlAck c, (nextCtlAck c, t\<lparr>ul_ctlAckTag := nextCtlAck c\<rparr>)))"

definition UL_ClearControlAckTag :: "ULTbf \<Rightarrow> ULTbf" where
  "UL_ClearControlAckTag t = t\<lparr>ul_ctlAckTag := CTL_ACK_TAG_NOT_APPLICABLE\<rparr>"

abbreviation (input) ControlAckTagArrDepth :: nat where "ControlAckTagArrDepth \<equiv> 40"

definition DL_ClearControlAckTag :: "DLTbf \<Rightarrow> DLTbf" where
  "DL_ClearControlAckTag t =
     t\<lparr>dl_ctlAckTag := replicate ControlAckTagArrDepth CTL_ACK_TAG_NOT_APPLICABLE, dl_currAckTag := 0\<rparr>"

text \<open>\<open>UpdateTSSpecificData\<close>: five tags for each allocated timeslot.\<close>

definition DL_UpdateTSSpecificData :: "DLTbf \<Rightarrow> DLTbf" where
  "DL_UpdateTSSpecificData t = t\<lparr>dl_currNumAckTags := 5 * length (filter id (take MAX_TIMESLOTS (tbf_allocatedTs t)))\<rparr>"

text \<open>\<open>None\<close>: division by \<open>currNumAckTags = 0\<close>, or an index outside the array.\<close>

definition DL_SetControlAckTag :: "octet \<times> DLTbf \<Rightarrow> (octet \<times> (octet \<times> DLTbf)) option" where
  "DL_SetControlAckTag = (\<lambda>(c, t).
     if dl_currNumAckTags t = 0 then None
     else let i = (dl_currAckTag t + 1) mod dl_currNumAckTags t; c' = nextCtlAck c in
       map_option (\<lambda>tags. (c', (c', t\<lparr>dl_currAckTag := i, dl_ctlAckTag := tags\<rparr>)))
         (write_at i c' (dl_ctlAckTag t)))"

definition DL_CheckControlAckTag :: "DLTbf \<Rightarrow> octet \<Rightarrow> bool" where
  "DL_CheckControlAckTag t tag \<longleftrightarrow> (\<exists>i \<in> set [0..<dl_currNumAckTags t]. dl_ctlAckTag t ! i = tag)"

fun DL_SetTags :: "nat \<Rightarrow> octet \<times> DLTbf \<Rightarrow> (octet list \<times> (octet \<times> DLTbf)) option" where
  "DL_SetTags 0 s = Some ([], s)"
| "DL_SetTags (Suc k) s =
     (case DL_SetControlAckTag s of None \<Rightarrow> None
      | Some (tag, s') \<Rightarrow> map_option (\<lambda>(tags, s''). (tag # tags, s'')) (DL_SetTags k s'))"

section \<open>Properties of the tags\<close>

lemma nextCtlAck_valid: "nextCtlAck c \<noteq> CTL_ACK_TAG_NOT_APPLICABLE"
proof (cases "c + 1 = 0xff")
  case True
  then have "c = 0xff - 1" by (simp add: eq_diff_eq)
  then show ?thesis by (simp add: nextCtlAck_def)
qed (simp add: nextCtlAck_def)

text \<open>Counted on the numbers 0..254, the counter advances by one modulo 255.\<close>

lemma nextCtlAck_mod:
  assumes "unat c < 255"
  shows "unat (nextCtlAck c) = (unat c + 1) mod 255"
proof (cases "unat c = 254")
  case True
  then have "c = 254" by (simp add: word_unat_eq_iff)
  then show ?thesis by (simp add: nextCtlAck_def)
next
  case False
  then have u: "unat (c + 1) = unat c + 1" using assms by (simp add: unat_word_ariths)
  then have "c + 1 \<noteq> 0xff" using False assms by (auto simp: word_unat_eq_iff)
  then show ?thesis using u False assms by (simp add: nextCtlAck_def)
qed

lemma nextCtlAck_below: "unat (nextCtlAck c) < 255"
proof -
  have "unat (nextCtlAck c) < 256" using unsigned_less [of "nextCtlAck c"] by simp
  moreover have "unat (nextCtlAck c) \<noteq> 255" using nextCtlAck_valid [of c] by (simp add: word_unat_eq_iff)
  ultimately show ?thesis by simp
qed

lemma DL_SetTags_spec:
  assumes "DL_SetTags k (c, t) = Some (tags, (c', t'))" "length (dl_ctlAckTag t) = ControlAckTagArrDepth"
    "dl_currNumAckTags t \<le> ControlAckTagArrDepth"
  shows "length tags = k \<and> length (dl_ctlAckTag t') = ControlAckTagArrDepth \<and>
     dl_currNumAckTags t' = dl_currNumAckTags t \<and>
     (\<forall>i < k. unat (tags ! i) = (unat (nextCtlAck c) + i) mod 255) \<and>
     (\<forall>i < 40. (\<forall>j < k. i \<noteq> (dl_currAckTag t + 1 + j) mod dl_currNumAckTags t) \<longrightarrow> dl_ctlAckTag t' ! i = dl_ctlAckTag t ! i) \<and>
     (\<forall>i < k. k \<le> dl_currNumAckTags t \<longrightarrow>
        dl_ctlAckTag t' ! ((dl_currAckTag t + 1 + i) mod dl_currNumAckTags t) = tags ! i)"
  using assms
proof (induction k arbitrary: c t tags)
  case 0
  then show ?case by simp
next
  case (Suc k)
  let ?n = "dl_currNumAckTags t" let ?i = "(dl_currAckTag t + 1) mod ?n" let ?c = "nextCtlAck c"
  let ?t = "t\<lparr>dl_currAckTag := ?i, dl_ctlAckTag := (dl_ctlAckTag t)[?i := ?c]\<rparr>"
  have n: "?n \<noteq> 0" using Suc.prems(1) by (auto simp: DL_SetControlAckTag_def split: if_splits)
  then have "?i < 40" using Suc.prems(3) mod_less_divisor [of ?n "dl_currAckTag t + 1"] by linarith
  then have set1: "DL_SetControlAckTag (c, t) = Some (?c, (?c, ?t))"
    using n Suc.prems(2) by (simp add: DL_SetControlAckTag_def Let_def)
  then obtain ts where ts: "DL_SetTags k (?c, ?t) = Some (ts, (c', t'))" "tags = ?c # ts"
    using Suc.prems(1) by auto
  have IH: "length ts = k" "length (dl_ctlAckTag t') = 40" "dl_currNumAckTags t' = ?n"
    "\<forall>i < k. unat (ts ! i) = (unat (nextCtlAck ?c) + i) mod 255"
    "\<forall>i < 40. (\<forall>j < k. i \<noteq> (?i + 1 + j) mod ?n) \<longrightarrow> dl_ctlAckTag t' ! i = dl_ctlAckTag ?t ! i"
    "\<forall>i < k. k \<le> ?n \<longrightarrow> dl_ctlAckTag t' ! ((?i + 1 + i) mod ?n) = ts ! i"
    using Suc.IH [OF ts(1)] Suc.prems(2,3) by simp_all
  have pos: "(?i + 1 + j) mod ?n = (dl_currAckTag t + 1 + Suc j) mod ?n" for j
    by (metis add.assoc add_Suc_right mod_add_left_eq plus_1_eq_Suc add.commute)
  have seq: "unat (tags ! i) = (unat ?c + i) mod 255" if "i < Suc k" for i
  proof (cases i)
    case 0
    then show ?thesis using ts(2) nextCtlAck_below [of c] by simp
  next
    case (Suc j)
    then have "unat (tags ! i) = (unat (nextCtlAck ?c) + j) mod 255" using IH(4) ts(2) that by simp
    then show ?thesis using nextCtlAck_mod [OF nextCtlAck_below, of c] Suc by (simp add: mod_simps)
  qed
  have keep: "dl_ctlAckTag t' ! i = dl_ctlAckTag t ! i"
    if "i < 40" "\<forall>j < Suc k. i \<noteq> (dl_currAckTag t + 1 + j) mod ?n" for i
  proof -
    have "\<forall>j < k. i \<noteq> (?i + 1 + j) mod ?n" unfolding pos using that(2) by auto
    moreover have "i \<noteq> ?i" using that(2) by auto
    ultimately show ?thesis using IH(5) that(1) by simp
  qed
  have store: "dl_ctlAckTag t' ! ((dl_currAckTag t + 1 + i) mod ?n) = tags ! i"
    if "i < Suc k" "Suc k \<le> ?n" for i
  proof (cases i)
    case (Suc j)
    then have "dl_ctlAckTag t' ! ((?i + 1 + j) mod ?n) = ts ! j" using IH(6) that by simp
    then show ?thesis unfolding pos using Suc ts(2) by simp
  next
    case 0
    have "?i \<noteq> (?i + 1 + j) mod ?n" if "j < k" for j
    proof -
      define a where "a = ?i"
      have "a < ?n" unfolding a_def using n by simp
      moreover have "1 + j < ?n" using that \<open>Suc k \<le> ?n\<close> by simp
      ultimately have "(a + 1 + j) mod ?n = (if a + 1 + j < ?n then a + 1 + j else a + 1 + j - ?n)"
        by (simp add: mod_if)
      then show ?thesis unfolding a_def [symmetric] using \<open>1 + j < ?n\<close> by (simp split: if_splits)
    qed
    then have "dl_ctlAckTag t' ! ?i = dl_ctlAckTag ?t ! ?i" using IH(5) \<open>?i < 40\<close> by blast
    then show ?thesis using 0 ts(2) Suc.prems(2) \<open>?i < 40\<close> by simp
  qed
  show ?case using ts IH(1-3) seq keep store by auto
qed

lemma DL_SetTags_total:
  assumes "length (dl_ctlAckTag t) = ControlAckTagArrDepth" "0 < dl_currNumAckTags t"
    "dl_currNumAckTags t \<le> ControlAckTagArrDepth"
  shows "DL_SetTags k (c, t) \<noteq> None"
  using assms
proof (induction k arbitrary: c t)
  case (Suc k)
  let ?i = "(dl_currAckTag t + 1) mod dl_currNumAckTags t"
  let ?t = "t\<lparr>dl_currAckTag := ?i, dl_ctlAckTag := (dl_ctlAckTag t)[?i := nextCtlAck c]\<rparr>"
  have "?i < 40" using Suc.prems(2,3) mod_less_divisor [of "dl_currNumAckTags t" "dl_currAckTag t + 1"] by linarith
  then have "DL_SetControlAckTag (c, t) = Some (nextCtlAck c, (nextCtlAck c, ?t))"
    using Suc.prems by (simp add: DL_SetControlAckTag_def Let_def)
  then show ?case using Suc.IH [of ?t "nextCtlAck c"] Suc.prems by simp
qed simp

text \<open>
  Acknowledgement tags of a downlink TBF. With tags for at least one timeslot (five a slot, at
  most forty), up to \<open>currNumAckTags\<close> consecutive \<open>SetControlAckTag\<close> calls hand out pairwise different
  tags, never the not-applicable value 0xff whatever the shared counter wraps to, and
  \<open>CheckControlAckTag\<close> then recognises every one of them.
\<close>

theorem ack_tags_recognised:
  assumes "length (dl_ctlAckTag t) = ControlAckTagArrDepth" "0 < dl_currNumAckTags t"
    "dl_currNumAckTags t \<le> ControlAckTagArrDepth" "k \<le> dl_currNumAckTags t"
  shows "\<exists>tags c' t'. DL_SetTags k (c, t) = Some (tags, (c', t')) \<and> length tags = k \<and> distinct tags \<and>
     CTL_ACK_TAG_NOT_APPLICABLE \<notin> set tags \<and> (\<forall>tag \<in> set tags. DL_CheckControlAckTag t' tag)"
proof -
  obtain tags c' t' where run: "DL_SetTags k (c, t) = Some (tags, (c', t'))"
    using DL_SetTags_total [OF assms(1-3), of k c] by auto
  let ?n = "dl_currNumAckTags t"
  have spec: "length tags = k" "dl_currNumAckTags t' = ?n"
    "\<forall>i < k. unat (tags ! i) = (unat (nextCtlAck c) + i) mod 255"
    "\<forall>i < k. k \<le> ?n \<longrightarrow> dl_ctlAckTag t' ! ((dl_currAckTag t + 1 + i) mod ?n) = tags ! i"
    using DL_SetTags_spec [OF run assms(1,3)] by blast+
  have "distinct tags"
  proof (unfold distinct_conv_nth, intro allI impI)
    fix i j assume ij: "i < length tags" "j < length tags" "i \<noteq> j"
    show "tags ! i \<noteq> tags ! j"
    proof
      assume "tags ! i = tags ! j"
      then have eq: "(unat (nextCtlAck c) + i) mod 255 = (unat (nextCtlAck c) + j) mod 255"
        using spec(1,3) ij by metis
      have bounds: "i < 40" "j < 40" "unat (nextCtlAck c) < 255"
        using ij spec(1) assms(3,4) nextCtlAck_below [of c] by simp_all
      have "a mod 255 = (if a < 255 then a else a - 255)" if "a < 510" for a :: nat
        using that by (simp add: mod_if)
      then show False using eq bounds ij(3) by (simp split: if_splits)
    qed
  qed
  moreover have "tag \<noteq> 0xff" if tag: "tag \<in> set tags" for tag
  proof -
    obtain i where "i < k" "tag = tags ! i" using tag spec(1) by (auto simp: in_set_conv_nth)
    then have "unat tag < 255" using spec(3) by simp
    then show ?thesis by auto
  qed
  moreover have "DL_CheckControlAckTag t' tag" if tag: "tag \<in> set tags" for tag
  proof -
    obtain i where "i < k" "tag = tags ! i" using tag spec(1) by (auto simp: in_set_conv_nth)
    then have "dl_ctlAckTag t' ! ((dl_currAckTag t + 1 + i) mod ?n) = tag" using spec(4) assms(4) by simp
    then show ?thesis unfolding DL_CheckControlAckTag_def spec(2) using assms(2) by force
  qed
  ultimately show ?thesis using run spec(1) by blast
qed

theorem ack_tags_recognised_witness:
  "\<exists>t :: DLTbf. \<exists>tags c' t'. dl_currNumAckTags t = 5 \<and> DL_SetTags 3 (253, t) = Some (tags, (c', t')) \<and>
     tags = [254, 0, 1] \<and> (\<forall>tag \<in> set tags. DL_CheckControlAckTag t' tag)"
proof -
  let ?t = "\<lparr>tbf_tfi = \<lparr>tfi_isValid = True, tfi_val = 0\<rparr>, tbf_tlli = 0, tbf_taiTs = 0, tbf_tai = 0,
      tbf_trx = 0, tbf_allocatedTs = replicate 8 True, tbf_naturalTs = replicate 8 True, tbf_state = ALLOCATED,
      dl_ctlAckTag = replicate 40 255, dl_currAckTag = 4, dl_currNumAckTags = 5\<rparr>"
  have "map_option fst (DL_SetTags 3 (253, ?t)) = Some [254, 0, 1]" by code_simp
  then obtain s where s: "DL_SetTags 3 (253, ?t) = Some ([254, 0, 1], s)" by force
  show ?thesis
    using ack_tags_recognised [of ?t 3 253] s by (intro exI [of _ ?t]) auto
qed

end
