(* ===== verification/TSPool.thy ===== *)
theory TSPool
  imports ResourceTables Tbf
begin

text \<open>
  The timeslot pool: \<^verbatim>\<open>Rlc_mac/include/Timeslot.h\<close>, \<^verbatim>\<open>DLSignallingMsgQueue\<close>,
  \<^verbatim>\<open>ScheduleInfo\<close> and \<^verbatim>\<open>TSPool\<close>.  The pool owns, per transceiver, eight timeslots and the two
  tables of temporary flow identities; its operations check the transceiver and timeslot numbers,
  delegate to the timeslot and record what was allocated in the TBF.

  TBFs live in a store \<open>'p \<Rightarrow> Tbf\<close> indexed by their pointers; an operation that writes through a
  TBF pointer returns the updated store.
\<close>

section \<open>Downlink signalling message queue\<close>

abbreviation (input) MAX_DL_SIGNALLING_QUEUE_ENTRIES :: nat where "MAX_DL_SIGNALLING_QUEUE_ENTRIES \<equiv> 5"

record 'm DLSignallingMsgQueue =
  dq_pacchMsg :: "'m list"
  dq_qHead :: nat
  dq_qTail :: nat
  dq_numEntries :: int

definition DLSignallingMsgQueue_new :: "'m list \<Rightarrow> 'm DLSignallingMsgQueue" where
  "DLSignallingMsgQueue_new buf = \<lparr>dq_pacchMsg = buf, dq_qHead = 0, dq_qTail = 0, dq_numEntries = 0\<rparr>"

text \<open>
  \<open>bcopy(source, destination, n)\<close> with the queue slot as source: the caller's message is
  overwritten, the slot keeps its content.  The failing branch compares \<open>status\<close> and does not
  assign it.
\<close>

definition QueueDLSignallingMsg ::
  "'m \<Rightarrow> 'm DLSignallingMsgQueue \<Rightarrow> JC_STATUS \<times> 'm \<times> 'm DLSignallingMsgQueue" where
  "QueueDLSignallingMsg l1Msg q =
     (if dq_numEntries q < int MAX_DL_SIGNALLING_QUEUE_ENTRIES then
        let tail = (dq_qHead q + 1) mod MAX_DL_SIGNALLING_QUEUE_ENTRIES
        in (JC_OK, dq_pacchMsg q ! tail, q\<lparr>dq_qTail := tail, dq_numEntries := dq_numEntries q + 1\<rparr>)
      else (JC_OK, l1Msg, q))"

text \<open>The result is a pointer into the buffer: the slot's index.\<close>

definition DequeueDLSignallingMsg :: "'m DLSignallingMsgQueue \<Rightarrow> nat option \<times> 'm DLSignallingMsgQueue" where
  "DequeueDLSignallingMsg q =
     (if dq_qHead q = dq_qTail q then (None, q)
      else (Some (dq_qTail q),
            q\<lparr>dq_qHead := (dq_qHead q + 1) mod MAX_DL_SIGNALLING_QUEUE_ENTRIES,
              dq_numEntries := dq_numEntries q - 1\<rparr>))"

section \<open>Schedule information of a timeslot\<close>

abbreviation (input) MAX_USERS_PER_SLOT :: int where "MAX_USERS_PER_SLOT \<equiv> 16"
abbreviation (input) MAX_USERS_PER_SLOT_UL :: int where "MAX_USERS_PER_SLOT_UL \<equiv> 7"

record 'p ScheduleInfo =
  si_nbrUsersDL :: int
  si_nbrUsersUL :: int
  si_scheduleQueueDL :: "'p ScheduleQueue"
  si_scheduleQueueUL :: "'p ScheduleQueue"

definition ScheduleInfo_new :: "'p ScheduleInfo" where
  "ScheduleInfo_new = \<lparr>si_nbrUsersDL = 0, si_nbrUsersUL = 0,
     si_scheduleQueueDL = ScheduleQueue_new DL, si_scheduleQueueUL = ScheduleQueue_new UL\<rparr>"

fun GetNbrUsers :: "LinkDirection \<Rightarrow> 'p ScheduleInfo \<Rightarrow> int" where
  "GetNbrUsers DL s = si_nbrUsersDL s"
| "GetNbrUsers UL s = si_nbrUsersUL s"

fun GetQueue :: "LinkDirection \<Rightarrow> 'p ScheduleInfo \<Rightarrow> 'p ScheduleQueue" where
  "GetQueue DL s = si_scheduleQueueDL s"
| "GetQueue UL s = si_scheduleQueueUL s"

fun PutQueue :: "LinkDirection \<Rightarrow> 'p ScheduleQueue \<Rightarrow> 'p ScheduleInfo \<Rightarrow> 'p ScheduleInfo" where
  "PutQueue DL q s = s\<lparr>si_scheduleQueueDL := q\<rparr>"
| "PutQueue UL q s = s\<lparr>si_scheduleQueueUL := q\<rparr>"

definition OkayToAddUser :: "LinkDirection \<Rightarrow> 'p ScheduleInfo \<Rightarrow> bool" where
  "OkayToAddUser dir s \<longleftrightarrow> si_nbrUsersUL s + si_nbrUsersDL s < MAX_USERS_PER_SLOT \<and>
     (dir = UL \<and> si_nbrUsersUL s < MAX_USERS_PER_SLOT_UL \<or> dir = DL)"

text \<open>The user count of \<open>GetUsersAndCapacity\<close>; the utilized capacity, a float, is left out.\<close>

fun UpdateUsersAndCapacity :: "LinkDirection \<Rightarrow> 'p ScheduleInfo \<Rightarrow> 'p ScheduleInfo" where
  "UpdateUsersAndCapacity DL s = s\<lparr>si_nbrUsersDL := int (GetUsers (si_scheduleQueueDL s))\<rparr>"
| "UpdateUsersAndCapacity UL s = s\<lparr>si_nbrUsersUL := int (GetUsers (si_scheduleQueueUL s))\<rparr>"

section \<open>A timeslot\<close>

abbreviation (input) INVALID_CHANNEL_COMBINATION :: int where "INVALID_CHANNEL_COMBINATION \<equiv> - 1"
abbreviation (input) INVALID_RTI :: octet where "INVALID_RTI \<equiv> 0xff"
abbreviation (input) MAX_RTI_VAL :: octet where "MAX_RTI_VAL \<equiv> 32"

record ('p, 'm) Timeslot =
  ts_channelComb :: int
  ts_dataRTSCount :: int
  ts_signallingRTSCount :: int
  ts_sysTAI :: "'p table"
  ts_sysUSF :: "'p table"
  ts_sysDLSigMsgQ :: "'m DLSignallingMsgQueue"
  ts_rti :: octet
  ts_scheduleInfo :: "'p ScheduleInfo"

definition Timeslot_new :: "'m list \<Rightarrow> ('p, 'm) Timeslot" where
  "Timeslot_new buf = \<lparr>ts_channelComb = INVALID_CHANNEL_COMBINATION, ts_dataRTSCount = 0,
     ts_signallingRTSCount = 0, ts_sysTAI = TAITable_new, ts_sysUSF = USFTable_new,
     ts_sysDLSigMsgQ = DLSignallingMsgQueue_new buf, ts_rti = 0, ts_scheduleInfo = ScheduleInfo_new\<rparr>"

definition Timeslot_IncDataRTSCount :: "int \<Rightarrow> ('p, 'm) Timeslot \<Rightarrow> ('p, 'm) Timeslot" where
  "Timeslot_IncDataRTSCount k t =
     (let c = ts_dataRTSCount t + k in t\<lparr>ts_dataRTSCount := (if c > 1 then 1 else c)\<rparr>)"

definition Timeslot_IncSignallingRTSCount :: "int \<Rightarrow> ('p, 'm) Timeslot \<Rightarrow> ('p, 'm) Timeslot" where
  "Timeslot_IncSignallingRTSCount k t =
     (let c = ts_signallingRTSCount t + k in t\<lparr>ts_signallingRTSCount := (if c > 2 then 2 else c)\<rparr>)"

definition Timeslot_DecDataRTSCount :: "('p, 'm) Timeslot \<Rightarrow> ('p, 'm) Timeslot" where
  "Timeslot_DecDataRTSCount t =
     (let c = ts_dataRTSCount t - 1 in t\<lparr>ts_dataRTSCount := (if c < 0 then 0 else c)\<rparr>)"

definition Timeslot_DecSignallingRTSCount :: "('p, 'm) Timeslot \<Rightarrow> ('p, 'm) Timeslot" where
  "Timeslot_DecSignallingRTSCount t =
     (let c = ts_signallingRTSCount t - 1 in t\<lparr>ts_signallingRTSCount := (if c < 0 then 0 else c)\<rparr>)"

text \<open>
  \<open>rti = rti++ % MAX_RTI_VAL\<close>: the assignment stores the value computed from the old counter, after
  the increment's own store.
\<close>

definition Timeslot_GetNextRTIVal :: "('p, 'm) Timeslot \<Rightarrow> octet \<times> ('p, 'm) Timeslot" where
  "Timeslot_GetNextRTIVal t = (let r = ts_rti t mod MAX_RTI_VAL in (r, t\<lparr>ts_rti := r\<rparr>))"

section \<open>The pool\<close>

abbreviation (input) INVALID_TFI :: octet where "INVALID_TFI \<equiv> 0xff"

record ('p, 'm) TSPool =
  tp_sysTS :: "('p, 'm) Timeslot list list"
  tp_sysUlTFI :: "'p table list"
  tp_sysDlTFI :: "'p table list"

definition TSPool_new :: "'m list \<Rightarrow> ('p, 'm) TSPool" where
  "TSPool_new buf =
     \<lparr>tp_sysTS = replicate MAX_TRX (replicate MAX_TIMESLOTS (Timeslot_new buf)),
      tp_sysUlTFI = replicate MAX_TRX (replicate MAX_TFI None),
      tp_sysDlTFI = replicate MAX_TRX (replicate MAX_TFI None)\<rparr>"

definition IsTrxValid :: "int \<Rightarrow> bool" where
  "IsTrxValid trx \<longleftrightarrow> 0 \<le> trx \<and> trx < int MAX_TRX"

definition IsTrxTsValid :: "int \<Rightarrow> int \<Rightarrow> bool" where
  "IsTrxTsValid trx ts \<longleftrightarrow> (0 \<le> trx \<and> trx < int MAX_TRX) \<and> (0 \<le> ts \<and> ts < int MAX_TIMESLOTS)"

definition get_ts :: "int \<Rightarrow> int \<Rightarrow> ('p, 'm) TSPool \<Rightarrow> ('p, 'm) Timeslot" where
  "get_ts trx ts p = tp_sysTS p ! nat trx ! nat ts"

definition put_ts :: "int \<Rightarrow> int \<Rightarrow> ('p, 'm) Timeslot \<Rightarrow> ('p, 'm) TSPool \<Rightarrow> ('p, 'm) TSPool" where
  "put_ts trx ts t p = p\<lparr>tp_sysTS := (tp_sysTS p)[nat trx := (tp_sysTS p ! nat trx)[nat ts := t]]\<rparr>"

definition on_ts :: "int \<Rightarrow> int \<Rightarrow> (('p, 'm) Timeslot \<Rightarrow> ('p, 'm) Timeslot) \<Rightarrow> ('p, 'm) TSPool \<Rightarrow> ('p, 'm) TSPool" where
  "on_ts trx ts f p = (if IsTrxTsValid trx ts then put_ts trx ts (f (get_ts trx ts p)) p else p)"

definition TSPool_AllocateTAI ::
  "int \<Rightarrow> int \<Rightarrow> 'p \<Rightarrow> ('p \<Rightarrow> 'a Tbf_scheme) \<times> ('p, 'm) TSPool \<Rightarrow>
   octet \<times> ('p \<Rightarrow> 'a Tbf_scheme) \<times> ('p, 'm) TSPool" where
  "TSPool_AllocateTAI trx ts pTbf = (\<lambda>(h, p).
     if IsTrxTsValid trx ts then
       let t = get_ts trx ts p; (tai, tab) = AllocateTAI pTbf (ts_sysTAI t)
       in (tai, h(pTbf := (h pTbf)\<lparr>tbf_tai := tai, tbf_taiTs := of_int ts\<rparr>),
           put_ts trx ts (t\<lparr>ts_sysTAI := tab\<rparr>) p)
     else (INVALID_TAI, h, p))"

definition TSPool_ReleaseTAI :: "int \<Rightarrow> int \<Rightarrow> octet \<Rightarrow> ('p, 'm) TSPool \<Rightarrow> ('p, 'm) TSPool" where
  "TSPool_ReleaseTAI trx ts tai = on_ts trx ts (\<lambda>t. t\<lparr>ts_sysTAI := ReleaseTAI tai (ts_sysTAI t)\<rparr>)"

definition TSPool_AllocateUSF ::
  "int \<Rightarrow> int \<Rightarrow> 'p \<Rightarrow> ('p \<Rightarrow> ULTbf) \<times> ('p, 'm) TSPool \<Rightarrow> octet \<times> ('p \<Rightarrow> ULTbf) \<times> ('p, 'm) TSPool" where
  "TSPool_AllocateUSF trx ts pTbf = (\<lambda>(h, p).
     if IsTrxTsValid trx ts then
       let t = get_ts trx ts p; (usf, tab) = AllocateUSF pTbf (ts_sysUSF t)
       in (usf, h(pTbf := (h pTbf)\<lparr>ul_usf := (ul_usf (h pTbf))[nat ts := usf]\<rparr>),
           put_ts trx ts (t\<lparr>ts_sysUSF := tab\<rparr>) p)
     else (INVALID_USF, h, p))"

definition TSPool_ReleaseUSF :: "int \<Rightarrow> int \<Rightarrow> octet \<Rightarrow> ('p, 'm) TSPool \<Rightarrow> ('p, 'm) TSPool" where
  "TSPool_ReleaseUSF trx ts usf = on_ts trx ts (\<lambda>t. t\<lparr>ts_sysUSF := ReleaseUSF usf (ts_sysUSF t)\<rparr>)"

text \<open>
  The TFI loops leave \<open>tfi = MAX_TFI\<close> when no entry is free.  \<open>alloc_tfi\<close> is the body for one
  transceiver's table.
\<close>

definition alloc_tfi :: "'p \<Rightarrow> 'p table \<Rightarrow> octet \<times> 'p table" where
  "alloc_tfi pTbf t =
     (case first_free 0 MAX_TFI t of
        Some i \<Rightarrow> (of_nat i, t[i := Some pTbf])
      | None \<Rightarrow> (of_nat MAX_TFI, t))"

definition record_tfi :: "octet \<Rightarrow> 'p \<Rightarrow> 'p table \<Rightarrow> ('p \<Rightarrow> 'a Tbf_scheme) \<Rightarrow> ('p \<Rightarrow> 'a Tbf_scheme)" where
  "record_tfi tfi pTbf t h =
     (if first_free 0 MAX_TFI t = None then h
      else h(pTbf := (h pTbf)\<lparr>tbf_tfi := snd (SetTFI tfi (tbf_tfi (h pTbf)))\<rparr>))"

definition AllocateULTFI ::
  "int \<Rightarrow> 'p \<Rightarrow> ('p \<Rightarrow> 'a Tbf_scheme) \<times> ('p, 'm) TSPool \<Rightarrow>
   octet \<times> ('p \<Rightarrow> 'a Tbf_scheme) \<times> ('p, 'm) TSPool" where
  "AllocateULTFI trx pUlTbf = (\<lambda>(h, p).
     if IsTrxValid trx then
       let t = tp_sysUlTFI p ! nat trx; (tfi, t') = alloc_tfi pUlTbf t
       in (tfi, record_tfi tfi pUlTbf t h, p\<lparr>tp_sysUlTFI := (tp_sysUlTFI p)[nat trx := t']\<rparr>)
     else (INVALID_TFI, h, p))"

definition AllocateDLTFI ::
  "int \<Rightarrow> 'p \<Rightarrow> ('p \<Rightarrow> 'a Tbf_scheme) \<times> ('p, 'm) TSPool \<Rightarrow>
   octet \<times> ('p \<Rightarrow> 'a Tbf_scheme) \<times> ('p, 'm) TSPool" where
  "AllocateDLTFI trx pDlTbf = (\<lambda>(h, p).
     if IsTrxValid trx then
       let t = tp_sysDlTFI p ! nat trx; (tfi, t') = alloc_tfi pDlTbf t
       in (tfi, record_tfi tfi pDlTbf t h, p\<lparr>tp_sysDlTFI := (tp_sysDlTFI p)[nat trx := t']\<rparr>)
     else (INVALID_TFI, h, p))"

definition ReleaseULTFI :: "int \<Rightarrow> octet \<Rightarrow> ('p, 'm) TSPool \<Rightarrow> ('p, 'm) TSPool" where
  "ReleaseULTFI trx tfi p =
     (if IsTrxValid trx \<and> unat tfi < MAX_TFI then
        p\<lparr>tp_sysUlTFI := (tp_sysUlTFI p)[nat trx := (tp_sysUlTFI p ! nat trx)[unat tfi := None]]\<rparr>
      else p)"

definition ReleaseDLTFI :: "int \<Rightarrow> octet \<Rightarrow> ('p, 'm) TSPool \<Rightarrow> ('p, 'm) TSPool" where
  "ReleaseDLTFI trx tfi p =
     (if IsTrxValid trx \<and> unat tfi < MAX_TFI then
        p\<lparr>tp_sysDlTFI := (tp_sysDlTFI p)[nat trx := (tp_sysDlTFI p ! nat trx)[unat tfi := None]]\<rparr>
      else p)"

definition FindULTbf :: "int \<Rightarrow> octet \<Rightarrow> ('p, 'm) TSPool \<Rightarrow> 'p option" where
  "FindULTbf trx tfi p =
     (if IsTrxValid trx \<and> unat tfi < MAX_TFI then tp_sysUlTFI p ! nat trx ! unat tfi else None)"

definition FindDLTbf :: "int \<Rightarrow> octet \<Rightarrow> ('p, 'm) TSPool \<Rightarrow> 'p option" where
  "FindDLTbf trx tfi p =
     (if IsTrxValid trx \<and> unat tfi < MAX_TFI then tp_sysDlTFI p ! nat trx ! unat tfi else None)"

definition TSPool_QueueDLSignallingMsg ::
  "int \<Rightarrow> int \<Rightarrow> 'm \<Rightarrow> ('p, 'm) TSPool \<Rightarrow> JC_STATUS \<times> 'm \<times> ('p, 'm) TSPool" where
  "TSPool_QueueDLSignallingMsg trx ts l1Msg p =
     (if IsTrxTsValid trx ts then
        let t = get_ts trx ts p; (status, m, q) = QueueDLSignallingMsg l1Msg (ts_sysDLSigMsgQ t)
        in (status, m, put_ts trx ts (t\<lparr>ts_sysDLSigMsgQ := q\<rparr>) p)
      else (JC_ERROR, l1Msg, p))"

definition TSPool_DequeueDLSignallingMsg ::
  "int \<Rightarrow> int \<Rightarrow> ('p, 'm) TSPool \<Rightarrow> nat option \<times> ('p, 'm) TSPool" where
  "TSPool_DequeueDLSignallingMsg trx ts p =
     (if IsTrxTsValid trx ts then
        let t = get_ts trx ts p; (m, q) = DequeueDLSignallingMsg (ts_sysDLSigMsgQ t)
        in (m, put_ts trx ts (t\<lparr>ts_sysDLSigMsgQ := q\<rparr>) p)
      else (None, p))"

definition IncDataRTSCount :: "int \<Rightarrow> int \<Rightarrow> int \<Rightarrow> ('p, 'm) TSPool \<Rightarrow> ('p, 'm) TSPool" where
  "IncDataRTSCount trx ts k = on_ts trx ts (Timeslot_IncDataRTSCount k)"

definition IncSignallingRTSCount :: "int \<Rightarrow> int \<Rightarrow> int \<Rightarrow> ('p, 'm) TSPool \<Rightarrow> ('p, 'm) TSPool" where
  "IncSignallingRTSCount trx ts k = on_ts trx ts (Timeslot_IncSignallingRTSCount k)"

definition DecDataRTSCount :: "int \<Rightarrow> int \<Rightarrow> ('p, 'm) TSPool \<Rightarrow> ('p, 'm) TSPool" where
  "DecDataRTSCount trx ts = on_ts trx ts Timeslot_DecDataRTSCount"

definition DecSignallingRTSCount :: "int \<Rightarrow> int \<Rightarrow> ('p, 'm) TSPool \<Rightarrow> ('p, 'm) TSPool" where
  "DecSignallingRTSCount trx ts = on_ts trx ts Timeslot_DecSignallingRTSCount"

definition SetChannelComb :: "int \<Rightarrow> int \<Rightarrow> int \<Rightarrow> ('p, 'm) TSPool \<Rightarrow> ('p, 'm) TSPool" where
  "SetChannelComb trx ts comb = on_ts trx ts (\<lambda>t. t\<lparr>ts_channelComb := comb\<rparr>)"

definition GetDataRTSCount :: "int \<Rightarrow> int \<Rightarrow> ('p, 'm) TSPool \<Rightarrow> int" where
  "GetDataRTSCount trx ts p = (if IsTrxTsValid trx ts then ts_dataRTSCount (get_ts trx ts p) else 0)"

definition GetSignallingRTSCount :: "int \<Rightarrow> int \<Rightarrow> ('p, 'm) TSPool \<Rightarrow> int" where
  "GetSignallingRTSCount trx ts p = (if IsTrxTsValid trx ts then ts_signallingRTSCount (get_ts trx ts p) else 0)"

definition GetChannelComb :: "int \<Rightarrow> int \<Rightarrow> ('p, 'm) TSPool \<Rightarrow> int" where
  "GetChannelComb trx ts p =
     (if IsTrxTsValid trx ts then ts_channelComb (get_ts trx ts p) else INVALID_CHANNEL_COMBINATION)"

definition GetNextRTIVal :: "int \<Rightarrow> int \<Rightarrow> ('p, 'm) TSPool \<Rightarrow> octet \<times> ('p, 'm) TSPool" where
  "GetNextRTIVal trx ts p =
     (if IsTrxTsValid trx ts then
        let (r, t) = Timeslot_GetNextRTIVal (get_ts trx ts p) in (r, put_ts trx ts t p)
      else (INVALID_RTI, p))"

section \<open>The invariant of the pool\<close>

definition dlq_ok :: "'m DLSignallingMsgQueue \<Rightarrow> bool" where
  "dlq_ok q \<longleftrightarrow> dq_qHead q < 5 \<and> 0 \<le> dq_numEntries q \<and> dq_numEntries q \<le> 5 \<and>
     (dq_qTail q = dq_qHead q \<or> dq_qTail q = (dq_qHead q + 1) mod 5 \<and> 1 \<le> dq_numEntries q)"

definition ts_ok :: "('p, 'm) Timeslot \<Rightarrow> bool" where
  "ts_ok t \<longleftrightarrow> length (ts_sysTAI t) = MAX_TAI_PER_TS \<and>
     length (ts_sysUSF t) = MAX_USF_PER_TS \<and> ts_sysUSF t ! 0 = None \<and>
     0 \<le> ts_dataRTSCount t \<and> ts_dataRTSCount t \<le> 1 \<and>
     0 \<le> ts_signallingRTSCount t \<and> ts_signallingRTSCount t \<le> 2 \<and>
     dlq_ok (ts_sysDLSigMsgQ t) \<and> ts_rti t = 0"

definition tfi_tables_ok :: "'p table list \<Rightarrow> bool" where
  "tfi_tables_ok ts \<longleftrightarrow> length ts = MAX_TRX \<and> (\<forall>i < MAX_TRX. length (ts ! i) = MAX_TFI)"

definition pool_ok :: "('p, 'm) TSPool \<Rightarrow> bool" where
  "pool_ok p \<longleftrightarrow> length (tp_sysTS p) = MAX_TRX \<and> (\<forall>i < MAX_TRX. length (tp_sysTS p ! i) = MAX_TIMESLOTS) \<and>
     (\<forall>i < MAX_TRX. \<forall>j < MAX_TIMESLOTS. ts_ok (tp_sysTS p ! i ! j)) \<and>
     tfi_tables_ok (tp_sysUlTFI p) \<and> tfi_tables_ok (tp_sysDlTFI p)"

lemma pool_ok_new: "pool_ok (TSPool_new buf)"
  by (auto simp: pool_ok_def TSPool_new_def tfi_tables_ok_def ts_ok_def Timeslot_new_def dlq_ok_def
      DLSignallingMsgQueue_new_def TAITable_new_def USFTable_new_def)

lemma IsTrxTsValidD: "IsTrxTsValid trx ts \<Longrightarrow> nat trx < 2 \<and> nat ts < 8"
  by (auto simp: IsTrxTsValid_def)

lemma IsTrxValidD: "IsTrxValid trx \<Longrightarrow> nat trx < 2"
  by (auto simp: IsTrxValid_def)

lemma get_ts_ok: "pool_ok p \<Longrightarrow> IsTrxTsValid trx ts \<Longrightarrow> ts_ok (get_ts trx ts p)"
  using IsTrxTsValidD [of trx ts] by (simp add: pool_ok_def get_ts_def)

lemma put_ts_fields [simp]:
  "length (tp_sysTS (put_ts trx ts t p)) = length (tp_sysTS p)"
  "tp_sysUlTFI (put_ts trx ts t p) = tp_sysUlTFI p" "tp_sysDlTFI (put_ts trx ts t p) = tp_sysDlTFI p"
  by (simp_all add: put_ts_def)

lemma put_ts_ok:
  assumes "pool_ok p" "IsTrxTsValid trx ts" "ts_ok t"
  shows "pool_ok (put_ts trx ts t p)"
proof -
  have v: "nat trx < 2" "nat ts < 8" using IsTrxTsValidD [OF assms(2)] by simp_all
  have each: "ts_ok (tp_sysTS (put_ts trx ts t p) ! i ! j) \<and> length (tp_sysTS (put_ts trx ts t p) ! i) = 8"
    if "i < 2" "j < 8" for i j
    using assms(1,3) v that
    by (cases "i = nat trx"; cases "j = nat ts") (simp_all add: pool_ok_def put_ts_def)
  have "length (tp_sysTS (put_ts trx ts t p) ! i) = 8" if "i < 2" for i
    using each [OF that, of 0] by simp
  then show ?thesis using assms(1) each by (simp add: pool_ok_def)
qed

lemma on_ts_ok: "pool_ok p \<Longrightarrow> (\<And>t. ts_ok t \<Longrightarrow> ts_ok (f t)) \<Longrightarrow> pool_ok (on_ts trx ts f p)"
  by (simp add: on_ts_def put_ts_ok get_ts_ok)

lemma get_put_ts: "pool_ok p \<Longrightarrow> IsTrxTsValid trx ts \<Longrightarrow> get_ts trx ts (put_ts trx ts t p) = t"
  using IsTrxTsValidD [of trx ts] by (simp add: pool_ok_def get_ts_def put_ts_def)

lemma AllocateTAI_length: "AllocateTAI u t = (k, t') \<Longrightarrow> length t' = length t"
  by (auto simp: AllocateTAI_def split: option.splits)

lemma AllocateUSF_keeps: "AllocateUSF u t = (k, t') \<Longrightarrow> length t' = length t \<and> (t ! 0 = None \<longrightarrow> t' ! 0 = None)"
  by (auto simp: AllocateUSF_def dest: first_free_Some split: option.splits)

lemma dlq_ok_Queue: "dlq_ok q \<Longrightarrow> QueueDLSignallingMsg m q = (s, m', q') \<Longrightarrow> dlq_ok q'"
  by (auto simp: dlq_ok_def QueueDLSignallingMsg_def Let_def split: if_splits)

lemma dlq_ok_Dequeue: "dlq_ok q \<Longrightarrow> DequeueDLSignallingMsg q = (r, q') \<Longrightarrow> dlq_ok q'"
  by (auto simp: dlq_ok_def DequeueDLSignallingMsg_def split: if_splits)

lemma alloc_tfi_length: "alloc_tfi u t = (k, t') \<Longrightarrow> length t' = length t"
  by (auto simp: alloc_tfi_def split: option.splits)

lemma tfi_tables_ok_update:
  "tfi_tables_ok ts \<Longrightarrow> length t = MAX_TFI \<Longrightarrow> tfi_tables_ok (ts[i := t])"
  by (auto simp: tfi_tables_ok_def nth_update_if)

section \<open>The pool as its clients drive it\<close>

datatype ('p, 'm) pool_op =
    P_AllocateTAI LinkDirection int int 'p
  | P_ReleaseTAI int int octet
  | P_AllocateUSF int int 'p
  | P_ReleaseUSF int int octet
  | P_AllocateULTFI int 'p
  | P_ReleaseULTFI int octet
  | P_AllocateDLTFI int 'p
  | P_ReleaseDLTFI int octet
  | P_Queue int int 'm
  | P_Dequeue int int
  | P_IncData int int nat
  | P_IncSignalling int int nat
  | P_DecData int int
  | P_DecSignalling int int
  | P_SetChannelComb int int int
  | P_GetNextRTI int int

type_synonym ('p, 'm) pool_state = "('p \<Rightarrow> ULTbf) \<times> ('p \<Rightarrow> DLTbf) \<times> ('p, 'm) TSPool"

fun pool_exec :: "('p, 'm) pool_op \<Rightarrow> ('p, 'm) pool_state \<Rightarrow> ('p, 'm) pool_state" where
  "pool_exec (P_AllocateTAI UL trx ts u) (uh, dh, p) =
     (let (_, uh', p') = TSPool_AllocateTAI trx ts u (uh, p) in (uh', dh, p'))"
| "pool_exec (P_AllocateTAI DL trx ts u) (uh, dh, p) =
     (let (_, dh', p') = TSPool_AllocateTAI trx ts u (dh, p) in (uh, dh', p'))"
| "pool_exec (P_ReleaseTAI trx ts k) (uh, dh, p) = (uh, dh, TSPool_ReleaseTAI trx ts k p)"
| "pool_exec (P_AllocateUSF trx ts u) (uh, dh, p) =
     (let (_, uh', p') = TSPool_AllocateUSF trx ts u (uh, p) in (uh', dh, p'))"
| "pool_exec (P_ReleaseUSF trx ts k) (uh, dh, p) = (uh, dh, TSPool_ReleaseUSF trx ts k p)"
| "pool_exec (P_AllocateULTFI trx u) (uh, dh, p) =
     (let (_, uh', p') = AllocateULTFI trx u (uh, p) in (uh', dh, p'))"
| "pool_exec (P_ReleaseULTFI trx k) (uh, dh, p) = (uh, dh, ReleaseULTFI trx k p)"
| "pool_exec (P_AllocateDLTFI trx u) (uh, dh, p) =
     (let (_, dh', p') = AllocateDLTFI trx u (dh, p) in (uh, dh', p'))"
| "pool_exec (P_ReleaseDLTFI trx k) (uh, dh, p) = (uh, dh, ReleaseDLTFI trx k p)"
| "pool_exec (P_Queue trx ts m) (uh, dh, p) =
     (let (_, _, p') = TSPool_QueueDLSignallingMsg trx ts m p in (uh, dh, p'))"
| "pool_exec (P_Dequeue trx ts) (uh, dh, p) = (uh, dh, snd (TSPool_DequeueDLSignallingMsg trx ts p))"
| "pool_exec (P_IncData trx ts k) (uh, dh, p) = (uh, dh, IncDataRTSCount trx ts (int k) p)"
| "pool_exec (P_IncSignalling trx ts k) (uh, dh, p) = (uh, dh, IncSignallingRTSCount trx ts (int k) p)"
| "pool_exec (P_DecData trx ts) (uh, dh, p) = (uh, dh, DecDataRTSCount trx ts p)"
| "pool_exec (P_DecSignalling trx ts) (uh, dh, p) = (uh, dh, DecSignallingRTSCount trx ts p)"
| "pool_exec (P_SetChannelComb trx ts c) (uh, dh, p) = (uh, dh, SetChannelComb trx ts c p)"
| "pool_exec (P_GetNextRTI trx ts) (uh, dh, p) = (uh, dh, snd (GetNextRTIVal trx ts p))"

lemma AllocateTAI_pool_ok: "pool_ok p \<Longrightarrow> TSPool_AllocateTAI trx ts u (h, p) = (k, h', p') \<Longrightarrow> pool_ok p'"
  using get_ts_ok [of p trx ts] AllocateTAI_length [of u "ts_sysTAI (get_ts trx ts p)"]
  by (auto simp: TSPool_AllocateTAI_def Let_def split: if_splits prod.splits intro!: put_ts_ok)
    (simp add: ts_ok_def)

lemma AllocateUSF_pool_ok: "pool_ok p \<Longrightarrow> TSPool_AllocateUSF trx ts u (h, p) = (k, h', p') \<Longrightarrow> pool_ok p'"
  using get_ts_ok [of p trx ts] AllocateUSF_keeps [of u "ts_sysUSF (get_ts trx ts p)"]
  by (auto simp: TSPool_AllocateUSF_def Let_def split: if_splits prod.splits intro!: put_ts_ok)
    (auto simp add: ts_ok_def)

lemma AllocateULTFI_pool_ok: "pool_ok p \<Longrightarrow> AllocateULTFI trx u (h, p) = (k, h', p') \<Longrightarrow> pool_ok p'"
  using alloc_tfi_length [of u "tp_sysUlTFI p ! nat trx"] IsTrxValidD [of trx]
  by (auto simp: AllocateULTFI_def Let_def pool_ok_def split: if_splits prod.splits
      intro!: tfi_tables_ok_update) (simp add: tfi_tables_ok_def)

lemma AllocateDLTFI_pool_ok: "pool_ok p \<Longrightarrow> AllocateDLTFI trx u (h, p) = (k, h', p') \<Longrightarrow> pool_ok p'"
  using alloc_tfi_length [of u "tp_sysDlTFI p ! nat trx"] IsTrxValidD [of trx]
  by (auto simp: AllocateDLTFI_def Let_def pool_ok_def split: if_splits prod.splits
      intro!: tfi_tables_ok_update) (simp add: tfi_tables_ok_def)

lemma ReleaseTFI_pool_ok: "pool_ok p \<Longrightarrow> pool_ok (ReleaseULTFI trx k p)" "pool_ok p \<Longrightarrow> pool_ok (ReleaseDLTFI trx k p)"
  using IsTrxValidD [of trx]
  by (auto simp: ReleaseULTFI_def ReleaseDLTFI_def pool_ok_def intro!: tfi_tables_ok_update)
    (simp_all add: tfi_tables_ok_def)

lemma Queue_pool_ok: "pool_ok p \<Longrightarrow> TSPool_QueueDLSignallingMsg trx ts m p = (s, m', p') \<Longrightarrow> pool_ok p'"
  using get_ts_ok [of p trx ts] dlq_ok_Queue [of "ts_sysDLSigMsgQ (get_ts trx ts p)" m]
  by (auto simp: TSPool_QueueDLSignallingMsg_def Let_def split: if_splits prod.splits intro!: put_ts_ok)
    (simp add: ts_ok_def)

lemma Dequeue_pool_ok: "pool_ok p \<Longrightarrow> TSPool_DequeueDLSignallingMsg trx ts p = (r, p') \<Longrightarrow> pool_ok p'"
  using get_ts_ok [of p trx ts] dlq_ok_Dequeue [of "ts_sysDLSigMsgQ (get_ts trx ts p)"]
  by (auto simp: TSPool_DequeueDLSignallingMsg_def Let_def split: if_splits prod.splits intro!: put_ts_ok)
    (simp add: ts_ok_def)

lemma GetNextRTIVal_pool_ok: "pool_ok p \<Longrightarrow> GetNextRTIVal trx ts p = (r, p') \<Longrightarrow> pool_ok p'"
  using get_ts_ok [of p trx ts]
  by (auto simp: GetNextRTIVal_def Timeslot_GetNextRTIVal_def Let_def split: if_splits intro!: put_ts_ok)
    (simp add: ts_ok_def)

lemma counts_pool_ok:
  assumes "pool_ok p"
  shows "0 \<le> k \<Longrightarrow> pool_ok (IncDataRTSCount trx ts k p)" "0 \<le> k \<Longrightarrow> pool_ok (IncSignallingRTSCount trx ts k p)"
    "pool_ok (DecDataRTSCount trx ts p)" "pool_ok (DecSignallingRTSCount trx ts p)"
    "pool_ok (SetChannelComb trx ts c p)" "pool_ok (TSPool_ReleaseTAI trx ts tai p)"
    "pool_ok (TSPool_ReleaseUSF trx ts usf p)"
  unfolding IncDataRTSCount_def IncSignallingRTSCount_def DecDataRTSCount_def DecSignallingRTSCount_def
    SetChannelComb_def TSPool_ReleaseTAI_def TSPool_ReleaseUSF_def
  by (rule on_ts_ok [OF assms]; simp add: ts_ok_def Timeslot_IncDataRTSCount_def Timeslot_IncSignallingRTSCount_def
      Timeslot_DecDataRTSCount_def Timeslot_DecSignallingRTSCount_def Let_def ReleaseTAI_def ReleaseUSF_def
      nth_list_update)+

lemma pool_exec_ok: "pool_ok p \<Longrightarrow> pool_ok (snd (snd (pool_exec op (uh, dh, p))))"
  by (cases "(op, (uh, dh, p))" rule: pool_exec.cases)
    (auto simp: counts_pool_ok ReleaseTFI_pool_ok split: prod.splits
      dest: AllocateTAI_pool_ok AllocateUSF_pool_ok AllocateULTFI_pool_ok AllocateDLTFI_pool_ok Queue_pool_ok
      intro: Dequeue_pool_ok [OF _ prod.collapse [symmetric]] GetNextRTIVal_pool_ok [OF _ prod.collapse [symmetric]])

lemma pool_run_ok: "pool_ok p \<Longrightarrow> pool_ok (snd (snd (fold pool_exec ops (uh, dh, p))))"
proof (induction ops arbitrary: uh dh p)
  case (Cons op ops)
  obtain uh' dh' p' where s: "pool_exec op (uh, dh, p) = (uh', dh', p')" by (metis prod_cases3)
  then have "pool_ok p'" using pool_exec_ok [OF Cons.prems, of op uh dh] by simp
  then show ?case using Cons.IH s by simp
qed simp

section \<open>The TFI tables are allocators\<close>

lemma SetTFI_in: "unat k < MAX_TFI \<Longrightarrow> snd (SetTFI k ie) = \<lparr>tfi_isValid = True, tfi_val = k\<rparr>"
  by (cases ie) (simp add: SetTFI_def)

lemma alloc_tfi_law:
  assumes "length t = MAX_TFI" "alloc_tfi u t = (k, t')"
  shows "unat k < MAX_TFI \<and> first_free 0 MAX_TFI t \<noteq> None \<and> range_owner 0 MAX_TFI t k = None \<and>
       range_owner 0 MAX_TFI t' = (range_owner 0 MAX_TFI t)(k := Some u) \<or>
     k = of_nat MAX_TFI \<and> t' = t \<and> first_free 0 MAX_TFI t = None"
proof (cases "first_free 0 MAX_TFI t")
  case None
  with assms show ?thesis by (simp add: alloc_tfi_def)
next
  case (Some i)
  with assms range_store [OF Some, of u] show ?thesis by (simp add: alloc_tfi_def)
qed

lemma FindULTbf_owner:
  "IsTrxValid trx \<Longrightarrow> FindULTbf trx k p = range_owner 0 MAX_TFI (tp_sysUlTFI p ! nat trx) k"
  by (simp add: FindULTbf_def range_owner_def)

lemma FindULTbf_AllocateULTFI:
  assumes "pool_ok p" "IsTrxValid trx" "AllocateULTFI trx u (h, p) = (k, h', p')"
  shows "if unat k < MAX_TFI
     then FindULTbf trx k p = None \<and> (\<forall>j. FindULTbf trx j p' = (if j = k then Some u else FindULTbf trx j p)) \<and>
       h' = h(u := (h u)\<lparr>tbf_tfi := \<lparr>tfi_isValid = True, tfi_val = k\<rparr>\<rparr>)
     else k = of_nat MAX_TFI \<and> p' = p \<and> h' = h \<and> (\<forall>j. unat j < MAX_TFI \<longrightarrow> FindULTbf trx j p \<noteq> None)"
proof -
  let ?t = "tp_sysUlTFI p ! nat trx"
  have len: "nat trx < length (tp_sysUlTFI p)" "length ?t = MAX_TFI"
    using assms(1) IsTrxValidD [OF assms(2)] by (simp_all add: pool_ok_def tfi_tables_ok_def)
  obtain t' where t': "alloc_tfi u ?t = (k, t')" "h' = record_tfi k u ?t h"
    "p' = p\<lparr>tp_sysUlTFI := (tp_sysUlTFI p)[nat trx := t']\<rparr>"
    using assms(2,3) by (auto simp: AllocateULTFI_def Let_def split: prod.splits)
  have row: "tp_sysUlTFI p' ! nat trx = t'" using t'(3) len(1) by simp
  from alloc_tfi_law [OF len(2) t'(1)] show ?thesis
  proof (elim disjE conjE)
    assume law: "unat k < MAX_TFI" "first_free 0 MAX_TFI ?t \<noteq> None" "range_owner 0 MAX_TFI ?t k = None"
      "range_owner 0 MAX_TFI t' = (range_owner 0 MAX_TFI ?t)(k := Some u)"
    then have "h' = h(u := (h u)\<lparr>tbf_tfi := \<lparr>tfi_isValid = True, tfi_val = k\<rparr>\<rparr>)"
      using t'(2) by (auto simp: record_tfi_def SetTFI_in)
    then show ?thesis using law by (simp add: FindULTbf_owner [OF assms(2)] row)
  next
    assume law: "k = of_nat MAX_TFI" "t' = ?t" "first_free 0 MAX_TFI ?t = None"
    then have "p' = p" "h' = h" using t'(2,3) by (simp_all add: record_tfi_def)
    moreover have "FindULTbf trx j p \<noteq> None" if "unat j < MAX_TFI" for j
      using range_full [OF law(3), of j] that by (simp add: FindULTbf_owner [OF assms(2)])
    ultimately show ?thesis using law(1) by simp
  qed
qed

lemma FindULTbf_ReleaseULTFI:
  assumes "pool_ok p" "IsTrxValid trx"
  shows "FindULTbf trx j (ReleaseULTFI trx k p) =
     (if unat k < MAX_TFI \<and> j = k then None else FindULTbf trx j p)"
proof -
  let ?t = "tp_sysUlTFI p ! nat trx"
  have len: "nat trx < length (tp_sysUlTFI p)" "MAX_TFI \<le> length ?t"
    using assms(1) IsTrxValidD [OF assms(2)] by (simp_all add: pool_ok_def tfi_tables_ok_def)
  have "tp_sysUlTFI (ReleaseULTFI trx k p) ! nat trx = (if unat k < MAX_TFI then ?t[unat k := None] else ?t)"
    using assms(2) len(1) by (simp add: ReleaseULTFI_def)
  then show ?thesis
    using range_clear [OF len(2), of 0 k] by (simp add: FindULTbf_owner [OF assms(2)])
qed

lemma FindDLTbf_owner:
  "IsTrxValid trx \<Longrightarrow> FindDLTbf trx k p = range_owner 0 MAX_TFI (tp_sysDlTFI p ! nat trx) k"
  by (simp add: FindDLTbf_def range_owner_def)

lemma FindDLTbf_AllocateDLTFI:
  assumes "pool_ok p" "IsTrxValid trx" "AllocateDLTFI trx u (h, p) = (k, h', p')"
  shows "if unat k < MAX_TFI
     then FindDLTbf trx k p = None \<and> (\<forall>j. FindDLTbf trx j p' = (if j = k then Some u else FindDLTbf trx j p)) \<and>
       h' = h(u := (h u)\<lparr>tbf_tfi := \<lparr>tfi_isValid = True, tfi_val = k\<rparr>\<rparr>)
     else k = of_nat MAX_TFI \<and> p' = p \<and> h' = h \<and> (\<forall>j. unat j < MAX_TFI \<longrightarrow> FindDLTbf trx j p \<noteq> None)"
proof -
  let ?t = "tp_sysDlTFI p ! nat trx"
  have len: "nat trx < length (tp_sysDlTFI p)" "length ?t = MAX_TFI"
    using assms(1) IsTrxValidD [OF assms(2)] by (simp_all add: pool_ok_def tfi_tables_ok_def)
  obtain t' where t': "alloc_tfi u ?t = (k, t')" "h' = record_tfi k u ?t h"
    "p' = p\<lparr>tp_sysDlTFI := (tp_sysDlTFI p)[nat trx := t']\<rparr>"
    using assms(2,3) by (auto simp: AllocateDLTFI_def Let_def split: prod.splits)
  have row: "tp_sysDlTFI p' ! nat trx = t'" using t'(3) len(1) by simp
  from alloc_tfi_law [OF len(2) t'(1)] show ?thesis
  proof (elim disjE conjE)
    assume law: "unat k < MAX_TFI" "first_free 0 MAX_TFI ?t \<noteq> None" "range_owner 0 MAX_TFI ?t k = None"
      "range_owner 0 MAX_TFI t' = (range_owner 0 MAX_TFI ?t)(k := Some u)"
    then have "h' = h(u := (h u)\<lparr>tbf_tfi := \<lparr>tfi_isValid = True, tfi_val = k\<rparr>\<rparr>)"
      using t'(2) by (auto simp: record_tfi_def SetTFI_in)
    then show ?thesis using law by (simp add: FindDLTbf_owner [OF assms(2)] row)
  next
    assume law: "k = of_nat MAX_TFI" "t' = ?t" "first_free 0 MAX_TFI ?t = None"
    then have "p' = p" "h' = h" using t'(2,3) by (simp_all add: record_tfi_def)
    moreover have "FindDLTbf trx j p \<noteq> None" if "unat j < MAX_TFI" for j
      using range_full [OF law(3), of j] that by (simp add: FindDLTbf_owner [OF assms(2)])
    ultimately show ?thesis using law(1) by simp
  qed
qed

lemma FindDLTbf_ReleaseDLTFI:
  assumes "pool_ok p" "IsTrxValid trx"
  shows "FindDLTbf trx j (ReleaseDLTFI trx k p) =
     (if unat k < MAX_TFI \<and> j = k then None else FindDLTbf trx j p)"
proof -
  let ?t = "tp_sysDlTFI p ! nat trx"
  have len: "nat trx < length (tp_sysDlTFI p)" "MAX_TFI \<le> length ?t"
    using assms(1) IsTrxValidD [OF assms(2)] by (simp_all add: pool_ok_def tfi_tables_ok_def)
  have "tp_sysDlTFI (ReleaseDLTFI trx k p) ! nat trx = (if unat k < MAX_TFI then ?t[unat k := None] else ?t)"
    using assms(2) len(1) by (simp add: ReleaseDLTFI_def)
  then show ?thesis
    using range_clear [OF len(2), of 0 k] by (simp add: FindDLTbf_owner [OF assms(2)])
qed

interpretation ultfi: slot_allocator "AllocateULTFI trx" "\<lambda>k (h, p). (h, ReleaseULTFI trx k p)"
  "\<lambda>(h, p) k. FindULTbf trx k p" "{k. unat k < MAX_TFI}" "\<lambda>(h, p). IsTrxValid trx \<and> pool_ok p"
  for trx :: int
proof unfold_locales
  fix t t' :: "('a \<Rightarrow> 'b Tbf_scheme) \<times> ('a, 'c) TSPool" and u k
  assume wf: "case t of (h, p) \<Rightarrow> IsTrxValid trx \<and> pool_ok p" and run: "AllocateULTFI trx u t = (k, t')"
  obtain h p h' p' where t: "t = (h, p)" "t' = (h', p')" by fastforce
  have ok: "pool_ok p" "IsTrxValid trx" "pool_ok p'"
    using wf run t AllocateULTFI_pool_ok [of p trx u h k h' p'] by simp_all
  show "(case t' of (h, p) \<Rightarrow> IsTrxValid trx \<and> pool_ok p) \<and>
      (if k \<in> {k. unat k < 32} then (case t of (h, p) \<Rightarrow> \<lambda>k. FindULTbf trx k p) k = None \<and>
         (case t' of (h, p) \<Rightarrow> \<lambda>k. FindULTbf trx k p) = (case t of (h, p) \<Rightarrow> \<lambda>k. FindULTbf trx k p)(k := Some u)
       else t' = t \<and> (\<forall>j \<in> {k. unat k < 32}. (case t of (h, p) \<Rightarrow> \<lambda>k. FindULTbf trx k p) j \<noteq> None))"
    using FindULTbf_AllocateULTFI [OF ok(1,2) run [unfolded t]] ok t
    by (cases "unat k < 32") (simp_all add: fun_eq_iff)
next
  fix t :: "('a \<Rightarrow> 'b Tbf_scheme) \<times> ('a, 'c) TSPool" and k :: octet
  assume wf: "case t of (h, p) \<Rightarrow> IsTrxValid trx \<and> pool_ok p"
  obtain h p where t: "t = (h, p)" by fastforce
  show "(case case t of (h, p) \<Rightarrow> (h, ReleaseULTFI trx k p) of (h, p) \<Rightarrow> IsTrxValid trx \<and> pool_ok p) \<and>
      (case case t of (h, p) \<Rightarrow> (h, ReleaseULTFI trx k p) of (h, p) \<Rightarrow> \<lambda>k. FindULTbf trx k p) =
      (if k \<in> {k. unat k < 32} then (case t of (h, p) \<Rightarrow> \<lambda>k. FindULTbf trx k p)(k := None)
       else (case t of (h, p) \<Rightarrow> \<lambda>k. FindULTbf trx k p))"
    using wf t ReleaseTFI_pool_ok [of p trx k] FindULTbf_ReleaseULTFI [of p trx _ k] by (simp add: fun_eq_iff)
qed

interpretation dltfi: slot_allocator "AllocateDLTFI trx" "\<lambda>k (h, p). (h, ReleaseDLTFI trx k p)"
  "\<lambda>(h, p) k. FindDLTbf trx k p" "{k. unat k < MAX_TFI}" "\<lambda>(h, p). IsTrxValid trx \<and> pool_ok p"
  for trx :: int
proof unfold_locales
  fix t t' :: "('a \<Rightarrow> 'b Tbf_scheme) \<times> ('a, 'c) TSPool" and u k
  assume wf: "case t of (h, p) \<Rightarrow> IsTrxValid trx \<and> pool_ok p" and run: "AllocateDLTFI trx u t = (k, t')"
  obtain h p h' p' where t: "t = (h, p)" "t' = (h', p')" by fastforce
  have ok: "pool_ok p" "IsTrxValid trx" "pool_ok p'"
    using wf run t AllocateDLTFI_pool_ok [of p trx u h k h' p'] by simp_all
  show "(case t' of (h, p) \<Rightarrow> IsTrxValid trx \<and> pool_ok p) \<and>
      (if k \<in> {k. unat k < 32} then (case t of (h, p) \<Rightarrow> \<lambda>k. FindDLTbf trx k p) k = None \<and>
         (case t' of (h, p) \<Rightarrow> \<lambda>k. FindDLTbf trx k p) = (case t of (h, p) \<Rightarrow> \<lambda>k. FindDLTbf trx k p)(k := Some u)
       else t' = t \<and> (\<forall>j \<in> {k. unat k < 32}. (case t of (h, p) \<Rightarrow> \<lambda>k. FindDLTbf trx k p) j \<noteq> None))"
    using FindDLTbf_AllocateDLTFI [OF ok(1,2) run [unfolded t]] ok t
    by (cases "unat k < 32") (simp_all add: fun_eq_iff)
next
  fix t :: "('a \<Rightarrow> 'b Tbf_scheme) \<times> ('a, 'c) TSPool" and k :: octet
  assume wf: "case t of (h, p) \<Rightarrow> IsTrxValid trx \<and> pool_ok p"
  obtain h p where t: "t = (h, p)" by fastforce
  show "(case case t of (h, p) \<Rightarrow> (h, ReleaseDLTFI trx k p) of (h, p) \<Rightarrow> IsTrxValid trx \<and> pool_ok p) \<and>
      (case case t of (h, p) \<Rightarrow> (h, ReleaseDLTFI trx k p) of (h, p) \<Rightarrow> \<lambda>k. FindDLTbf trx k p) =
      (if k \<in> {k. unat k < 32} then (case t of (h, p) \<Rightarrow> \<lambda>k. FindDLTbf trx k p)(k := None)
       else (case t of (h, p) \<Rightarrow> \<lambda>k. FindDLTbf trx k p))"
    using wf t ReleaseTFI_pool_ok [of p trx k] FindDLTbf_ReleaseDLTFI [of p trx _ k] by (simp add: fun_eq_iff)
qed

section \<open>Properties\<close>

text \<open>
  C19: the pool's invariant. Whatever operations its clients call from a fresh pool, with whatever
  transceiver and timeslot numbers, no index leaves an array; the tables keep their sizes, the
  uplink state flag 0 stays unassigned, the request-to-send counts stay within 0..1 (data) and 0..2
  (signalling), and the signalling queue's indices stay in range. The invariant also records that
  the RTI counter is still 0, so \<open>GetNextRTIVal\<close> returns 0 for every valid timeslot.
\<close>

theorem pool_invariant:
  "(let p = snd (snd (fold pool_exec ops (uh, dh, TSPool_new buf))) in
     pool_ok p \<and>
     (\<forall>trx ts. 0 \<le> GetDataRTSCount trx ts p \<and> GetDataRTSCount trx ts p \<le> 1 \<and>
        0 \<le> GetSignallingRTSCount trx ts p \<and> GetSignallingRTSCount trx ts p \<le> 2 \<and>
        fst (GetNextRTIVal trx ts p) = (if IsTrxTsValid trx ts then 0 else INVALID_RTI)))"
proof -
  define p where "p = snd (snd (fold pool_exec ops (uh, dh, TSPool_new buf)))"
  have ok: "pool_ok p" unfolding p_def by (rule pool_run_ok [OF pool_ok_new])
  have "0 \<le> GetDataRTSCount trx ts p \<and> GetDataRTSCount trx ts p \<le> 1 \<and>
        0 \<le> GetSignallingRTSCount trx ts p \<and> GetSignallingRTSCount trx ts p \<le> 2 \<and>
        fst (GetNextRTIVal trx ts p) = (if IsTrxTsValid trx ts then 0 else INVALID_RTI)" for trx ts
    using get_ts_ok [OF ok, of trx ts]
    by (auto simp: GetDataRTSCount_def GetSignallingRTSCount_def GetNextRTIVal_def Timeslot_GetNextRTIVal_def
        ts_ok_def)
  with ok show ?thesis by (simp add: p_def [symmetric])
qed

text \<open>
  Allocating an uplink TFI, both outcomes. With a free entry on the transceiver the TFI is
  below 32, belonged to nobody, is found for the TBF afterwards and stored in it as valid, and no
  other TFI changes owner. With all 32 taken the pool and the TBF stay as they are and the returned
  value is 32, which is not the pool's invalid-TFI value 0xff.
\<close>

theorem AllocateULTFI_outcomes:
  assumes "pool_ok p" "IsTrxValid trx" "AllocateULTFI trx u (h, p) = (k, h', p')"
  shows "(if \<exists>j. unat j < 32 \<and> FindULTbf trx j p = None
     then unat k < 32 \<and> FindULTbf trx k p = None \<and>
       (\<forall>j. FindULTbf trx j p' = (if j = k then Some u else FindULTbf trx j p)) \<and>
       h' = h(u := (h u)\<lparr>tbf_tfi := \<lparr>tfi_isValid = True, tfi_val = k\<rparr>\<rparr>)
     else k = 32 \<and> k \<noteq> INVALID_TFI \<and> p' = p \<and> h' = h) \<and>
    tp_sysDlTFI p' = tp_sysDlTFI p \<and> tp_sysTS p' = tp_sysTS p"
proof -
  have "tp_sysDlTFI p' = tp_sysDlTFI p \<and> tp_sysTS p' = tp_sysTS p"
    using assms(2,3) by (auto simp: AllocateULTFI_def Let_def split: prod.splits)
  then show ?thesis
    using FindULTbf_AllocateULTFI [OF assms] by (cases "unat k < 32") auto
qed

theorem AllocateULTFI_outcomes_witness:
  "\<exists>k h' p'. AllocateULTFI 1 (7 :: nat) ((\<lambda>_. undefined :: Tbf), TSPool_new ([] :: nat list)) = (k, h', p') \<and>
     unat k < 32 \<and> FindULTbf 1 k p' = Some 7"
proof -
  obtain k h' p' where run: "AllocateULTFI 1 (7 :: nat) ((\<lambda>_. undefined :: Tbf), TSPool_new ([] :: nat list)) = (k, h', p')"
    by (metis prod_cases3)
  have "IsTrxValid 1" by (simp add: IsTrxValid_def)
  moreover have "FindULTbf 1 0 (TSPool_new ([] :: nat list) :: (nat, nat) TSPool) = None" by code_simp
  then have "\<exists>j. unat j < 32 \<and> FindULTbf 1 j (TSPool_new ([] :: nat list) :: (nat, nat) TSPool) = None"
    by (intro exI [of _ 0]) simp
  ultimately show ?thesis
    using AllocateULTFI_outcomes [OF pool_ok_new _ run] run by auto
qed

text \<open>
  Batches of uplink TFI allocations on one transceiver. When at least as many TFIs are free as
  TBFs ask for one, every TBF gets a TFI below 32, the TFIs are pairwise different, each is found for
  its TBF afterwards, and every TBF that had a TFI before keeps it.
\<close>

theorem ULTFI_batch:
  assumes "pool_ok p" "IsTrxValid trx" "alloc_all (AllocateULTFI trx) us (h, p) = (ks, (h', p'))"
    "length us \<le> card {k. unat k < 32 \<and> FindULTbf trx k p = None}"
  shows "length ks = length us \<and> distinct ks \<and> (\<forall>k \<in> set ks. unat k < 32) \<and>
     (\<forall>i < length us. FindULTbf trx (ks ! i) p' = Some (us ! i)) \<and>
     (\<forall>j. FindULTbf trx j p \<noteq> None \<longrightarrow> FindULTbf trx j p' = FindULTbf trx j p)"
proof -
  let ?ids = "{k :: octet. unat k < 32}"
  have wf: "case (h, p) of (h, p) \<Rightarrow> IsTrxValid trx \<and> pool_ok p" using assms(1,2) by simp
  have served: "set ks \<subseteq> ?ids"
    using ultfi.alloc_all_served [OF wf assms(3)] assms(4) by simp
  then have all: "filter (\<lambda>k. k \<in> ?ids) ks = ks" by (intro filter_True) blast
  have law: "length ks = length us" "distinct (filter (\<lambda>k. k \<in> ?ids) ks)"
    "\<forall>i < length ks. ks ! i \<in> ?ids \<longrightarrow> FindULTbf trx (ks ! i) p' = Some (us ! i)"
    "\<forall>j. FindULTbf trx j p \<noteq> None \<longrightarrow> FindULTbf trx j p' = FindULTbf trx j p"
    using ultfi.alloc_all_law [OF wf assms(3)] by simp_all
  have "FindULTbf trx (ks ! i) p' = Some (us ! i)" if "i < length us" for i
  proof -
    have "ks ! i \<in> set ks" using that law(1) by simp
    then have "ks ! i \<in> ?ids" using served by (rule rev_subsetD)
    then show ?thesis using law(1,3) that by simp
  qed
  moreover have "\<forall>k \<in> set ks. unat k < 32" using served by blast
  ultimately show ?thesis using law all by simp
qed

theorem ULTFI_batch_witness:
  "\<exists>ks h' p'. alloc_all (AllocateULTFI 0) [5 :: nat, 6] ((\<lambda>_. undefined :: Tbf), TSPool_new ([] :: nat list)) =
     (ks, (h', p')) \<and> distinct ks \<and> length ks = 2"
proof -
  let ?p = "TSPool_new ([] :: nat list) :: (nat, nat) TSPool"
  obtain ks h' p' where run: "alloc_all (AllocateULTFI 0) [5 :: nat, 6] ((\<lambda>_. undefined :: Tbf), ?p) = (ks, (h', p'))"
    by (metis prod_cases3)
  have v: "IsTrxValid 0" by (simp add: IsTrxValid_def)
  have "FindULTbf 0 k ?p = None" for k by (simp add: FindULTbf_def TSPool_new_def)
  then have "{k. unat k < 32 \<and> FindULTbf 0 k ?p = None} = {k. 0 \<le> unat k \<and> unat k < 32}" by auto
  then have "card {k. unat k < 32 \<and> FindULTbf 0 k ?p = None} = 32"
    using card_octet_range [of 0 32] by (simp only:)
  then have "length [5 :: nat, 6] \<le> card {k. unat k < 32 \<and> FindULTbf 0 k ?p = None}" by (simp only: list.size)
  from ULTFI_batch [OF pool_ok_new v run this] have "distinct ks" "length ks = length [5 :: nat, 6]" by blast+
  moreover have "length [5 :: nat, 6] = 2" by simp
  ultimately show ?thesis using run by metis
qed

section \<open>The signalling queue\<close>

datatype 'm dlq_op = DQ_Enqueue 'm | DQ_Dequeue

fun dlq_exec :: "'m dlq_op \<Rightarrow> 'm DLSignallingMsgQueue \<Rightarrow> 'm DLSignallingMsgQueue" where
  "dlq_exec (DQ_Enqueue m) q = (let (_, _, q') = QueueDLSignallingMsg m q in q')"
| "dlq_exec DQ_Dequeue q = snd (DequeueDLSignallingMsg q)"

lemma dlq_exec_buffer: "dq_pacchMsg (dlq_exec op q) = dq_pacchMsg q"
  by (cases op) (auto simp: QueueDLSignallingMsg_def DequeueDLSignallingMsg_def Let_def)

lemma dlq_run_buffer: "dq_pacchMsg (fold dlq_exec ops q) = dq_pacchMsg q"
  by (induction ops arbitrary: q) (simp_all add: dlq_exec_buffer)

text \<open>
  The downlink signalling queue never stores a message. Over any sequence of enqueue and
  dequeue calls its buffer keeps the initial content, every enqueue answers JC_OK, full queue
  included, and a second message enqueued before a dequeue cannot be dequeued: after two enqueues
  on an empty queue the second dequeue finds nothing.
\<close>

theorem sig_queue_loses_messages:
  "dq_pacchMsg (fold dlq_exec ops (DLSignallingMsgQueue_new buf)) = buf \<and>
   fst (QueueDLSignallingMsg m (fold dlq_exec ops (DLSignallingMsgQueue_new buf))) = JC_OK \<and>
   fst (DequeueDLSignallingMsg (fold dlq_exec [DQ_Enqueue m1, DQ_Enqueue m2, DQ_Dequeue] (DLSignallingMsgQueue_new buf))) =
     None"
  by (simp add: dlq_run_buffer QueueDLSignallingMsg_def Let_def)
    (simp add: DLSignallingMsgQueue_new_def DequeueDLSignallingMsg_def)

end
