(* ===== verification/UlRlcWindow.thy ===== *)
theory UlRlcWindow
  imports AckNackIe
begin

text \<open>
  The receive window of the uplink RLC link, from \<^verbatim>\<open>Rlc_mac/src/ULRlcLink.cpp\<close>: the state
  variables V(Q), V(R) and the receive state array V(N), their update on a received block
  (\<open>UpdateRcvStateVariables\<close>), the received block bitmap that \<open>SendULAckNack\<close> reports, and the
  abstract selective-repeat receiver that they implement.
\<close>

section \<open>State\<close>

datatype RLC_MODE = ACKNOWLEDGED_RLC_MODE | UNACKNOWLEDGED_RLC_MODE
datatype RECEIVE_STATUS = RECEIVED | INVALID

abbreviation (input) RCV_WINDOW_SIZE_K :: int where "RCV_WINDOW_SIZE_K \<equiv> 64"
abbreviation (input) MOD :: int where "MOD \<equiv> 128"

record RcvWindow =
  rw_rlcMode :: RLC_MODE
  rw_vQ :: int
  rw_vN :: "RECEIVE_STATUS list"
  rw_vR :: int

definition RcvWindow_new :: "RLC_MODE \<Rightarrow> RcvWindow" where
  "RcvWindow_new mode = \<lparr>rw_rlcMode = mode, rw_vQ = 0, rw_vN = replicate RLC_MOD_VAL INVALID, rw_vR = 0\<rparr>"

section \<open>UpdateRcvStateVariables\<close>

text \<open>The two loops test for equality only, so they are partial: \<open>None\<close> is a loop that never ends.\<close>

partial_function (option) clear_loop ::
  "int \<Rightarrow> int \<Rightarrow> RECEIVE_STATUS list \<Rightarrow> RECEIVE_STATUS list option" where
  "clear_loop tmpVR vR vN =
     (if tmpVR = vR then Some vN
      else clear_loop ((tmpVR + 1) mod MOD) vR (vN[nat ((tmpVR + (RCV_WINDOW_SIZE_K + 1)) mod MOD) := INVALID]))"

partial_function (option) advance_loop ::
  "int \<Rightarrow> int \<Rightarrow> RECEIVE_STATUS list \<Rightarrow> int option" where
  "advance_loop vQ vR vN =
     (if vQ = vR then Some vQ
      else if vN ! nat ((vQ + 1) mod MOD) = INVALID then Some ((vQ + 1) mod MOD)
      else advance_loop ((vQ + 1) mod MOD) vR vN)"

declare clear_loop.simps [code] advance_loop.simps [code]

text \<open>The window test, with the sign correction as the code has it.\<close>

definition in_window :: "int \<Rightarrow> int \<Rightarrow> bool" where
  "in_window vQ bsn =
     (let rcvDiff = vQ - bsn; rcvDiff = (if rcvDiff > 0 then MOD - rcvDiff else rcvDiff)
      in rcvDiff < RCV_WINDOW_SIZE_K)"

definition UpdateAcked :: "int \<Rightarrow> 'a RcvWindow_scheme \<Rightarrow> (bool \<times> 'a RcvWindow_scheme) option" where
  "UpdateAcked bsn w =
     (if \<not> in_window (rw_vQ w) bsn then Some (False, w)
      else
        let vR = (if rw_vR w \<le> bsn \<or> rw_vR w > bsn \<and> rw_vQ w > bsn then (bsn + 1) mod MOD else rw_vR w)
        in case clear_loop (rw_vR w) vR (rw_vN w) of
             None \<Rightarrow> None
           | Some vN \<Rightarrow>
               let vN = vN[nat (bsn mod MOD) := RECEIVED] in
               map_option (\<lambda>vQ. (True, w\<lparr>rw_vR := vR, rw_vN := vN, rw_vQ := vQ\<rparr>))
                 (if bsn mod MOD = rw_vQ w then advance_loop (rw_vQ w) vR vN else Some (rw_vQ w)))"

text \<open>\<open>(BSN) + 1 % RLC_MOD_VAL\<close> is \<open>BSN + 1\<close>: the remainder binds tighter.\<close>

definition UpdateUnacked :: "int \<Rightarrow> 'a RcvWindow_scheme \<Rightarrow> bool \<times> 'a RcvWindow_scheme" where
  "UpdateUnacked bsn w =
     (if rw_vR w \<noteq> bsn + 1 mod MOD then
        let vR = bsn + 1 mod MOD; vQ = rw_vQ w in
        (True, w\<lparr>rw_vR := vR,
                 rw_vQ := (if vR \<ge> vQ then
                             if (vR - vQ) mod MOD > RCV_WINDOW_SIZE_K then vR - RCV_WINDOW_SIZE_K else vQ
                           else
                             if vR + (MOD - vQ) > RCV_WINDOW_SIZE_K
                             then (MOD - (RCV_WINDOW_SIZE_K - vR)) mod MOD else vQ)\<rparr>)
      else (False, w))"

definition UpdateRcvStateVariables ::
  "int \<Rightarrow> 'a RcvWindow_scheme \<Rightarrow> (bool \<times> 'a RcvWindow_scheme) option" where
  "UpdateRcvStateVariables bsn w =
     (case rw_rlcMode w of
        ACKNOWLEDGED_RLC_MODE \<Rightarrow> UpdateAcked bsn w
      | UNACKNOWLEDGED_RLC_MODE \<Rightarrow> Some (UpdateUnacked bsn w))"

section \<open>The received block bitmap\<close>

text \<open>
  The loop \<^verbatim>\<open>while (bitPos)\<close> over one octet shifts \<open>bitPos\<close> through the eight bits 0..7;
  the outer loop fills the octets from the last to the first.
\<close>

definition rrb_bit :: "RECEIVE_STATUS list \<Rightarrow> nat \<Rightarrow> octet \<times> int \<Rightarrow> octet \<times> int" where
  "rrb_bit vN j = (\<lambda>(oct, vrTmp).
     let v = (if vrTmp - 1 < 0 then vrTmp - 1 + MOD else vrTmp - 1)
     in (if vN ! nat v = RECEIVED then or oct (push_bit j 1) else oct, v))"

definition rrb_octet :: "RECEIVE_STATUS list \<Rightarrow> int \<Rightarrow> octet \<times> int" where
  "rrb_octet vN vrTmp = fold (rrb_bit vN) [0..<8] (0, vrTmp)"

fun rrb_octets :: "RECEIVE_STATUS list \<Rightarrow> nat \<Rightarrow> int \<Rightarrow> octet list" where
  "rrb_octets vN 0 vrTmp = []"
| "rrb_octets vN (Suc n) vrTmp =
     (let (oct, v) = rrb_octet vN vrTmp in rrb_octets vN n v @ [oct])"

definition build_rrb :: "'a RcvWindow_scheme \<Rightarrow> octet list" where
  "build_rrb w = rrb_octets (rw_vN w) RRB_SIZE (rw_vR w)"

section \<open>The loops in closed form\<close>

lemma nat_mod_ne: "0 < d \<Longrightarrow> d < 128 \<Longrightarrow> (r + d) mod 128 \<noteq> r mod (128 :: nat)"
  using mod_eq_dvd_iff_nat [of r "r + d" 128] by (auto dest: dvd_imp_le)

lemma int_mod_ne: "0 < d \<Longrightarrow> d < 128 \<Longrightarrow> int r mod 128 \<noteq> int (r + d) mod 128"
  using nat_mod_ne [of d r] by (metis of_nat_eq_iff of_nat_mod of_nat_numeral)

text \<open>The clearing loop, from a counter \<open>r\<close> by \<open>d\<close> steps.\<close>

lemma clear_loop_closed:
  assumes "d < 128"
  shows "clear_loop (int r mod 128) (int (r + d) mod 128) vN =
     Some (fold (\<lambda>i v. v[(r + 65 + i) mod 128 := INVALID]) [0..<d] vN)"
  using assms
proof (induction d arbitrary: r vN)
  case 0
  then show ?case by (simp add: clear_loop.simps)
next
  case (Suc d)
  have ne: "int r mod 128 \<noteq> int (r + Suc d) mod 128" using int_mod_ne [of "Suc d" r] Suc.prems by simp
  have idx: "nat ((int r mod 128 + (64 + 1)) mod 128) = (r + 65) mod 128"
    by (simp add: mod_simps nat_mod_distrib) (simp add: nat_add_distrib nat_mod_distrib)
  have step: "(int r mod 128 + 1) mod 128 = int (Suc r) mod 128" by (simp add: mod_simps add.commute)
  have "clear_loop (int r mod 128) (int (r + Suc d) mod 128) vN =
      clear_loop (int (Suc r) mod 128) (int (Suc r + d) mod 128) (vN[(r + 65) mod 128 := INVALID])"
    by (subst clear_loop.simps) (simp only: ne ne [unfolded add_Suc_right] if_False idx step add_Suc add_Suc_right)
  also have "\<dots> = Some (fold (\<lambda>i v. v[(Suc r + 65 + i) mod 128 := INVALID]) [0..<d] (vN[(r + 65) mod 128 := INVALID]))"
    by (rule Suc.IH) (use Suc.prems in simp)
  also have "fold (\<lambda>i v. v[(Suc r + 65 + i) mod 128 := INVALID]) [0..<d] (vN[(r + 65) mod 128 := INVALID]) =
      fold (\<lambda>i v. v[(r + 65 + i) mod 128 := INVALID]) [0..<Suc d] vN"
    unfolding upt_conv_Cons [OF zero_less_Suc] map_Suc_upt [symmetric]
    by (simp add: fold_map comp_def ac_simps)
  finally show ?case .
qed

lemma fold_clear_length [simp]:
  "length (fold (\<lambda>i v. v[f i := INVALID]) is v) = length v"
  by (induction "is" arbitrary: v) simp_all

lemma fold_clear_nth:
  "j < length v \<Longrightarrow> fold (\<lambda>i v. v[f i := INVALID]) is v ! j = (if j \<in> f ` set is then INVALID else v ! j)"
  by (induction "is" arbitrary: v) (auto simp: nth_list_update)

text \<open>The advancing loop: to the first sequence number after \<open>q\<close> that is \<open>r\<close> or not received.\<close>

lemma advance_loop_closed:
  assumes "q \<le> s" "s \<le> r" "r - q < 128" "q < r \<Longrightarrow> q < s"
    "\<forall>m. q < m \<and> m < s \<longrightarrow> vN ! (m mod 128) = RECEIVED" "s < r \<Longrightarrow> vN ! (s mod 128) = INVALID"
  shows "advance_loop (int q mod 128) (int r mod 128) vN = Some (int s mod 128)"
  using assms
proof (induction "s - q" arbitrary: q)
  case 0
  then have "q = s" by simp
  with 0 have "q = r" by (metis le_neq_implies_less less_irrefl)
  with \<open>q = s\<close> show ?case by (simp add: advance_loop.simps)
next
  case (Suc x)
  have qr: "q < r" using Suc.hyps(2) Suc.prems(2) by simp
  have ne: "int q mod 128 \<noteq> int r mod 128" using int_mod_ne [of "r - q" q] qr Suc.prems(3) by simp
  have step: "(int q mod 128 + 1) mod 128 = int (Suc q) mod 128" by (simp add: mod_simps add.commute)
  have idx: "nat (int (Suc q) mod 128) = Suc q mod 128" by (simp add: nat_mod_distrib nat_add_distrib)
  show ?case
  proof (cases "Suc q = s")
    case True
    show ?thesis
    proof (cases "s < r")
      case True
      then have "vN ! (Suc q mod 128) = INVALID" using Suc.prems(6) \<open>Suc q = s\<close> by simp
      then show ?thesis unfolding \<open>Suc q = s\<close> [symmetric]
        by (subst advance_loop.simps) (simp only: ne if_False step idx if_True simp_thms)
    next
      case False
      then have "s = r" using Suc.prems(2) by simp
      then show ?thesis
        using \<open>Suc q = s\<close> by (subst advance_loop.simps)
          (simp only: ne if_False step idx advance_loop.simps [of "int r mod 128" "int r mod 128"] if_cancel if_True simp_thms)
    qed
  next
    case False
    then have "vN ! (Suc q mod 128) = RECEIVED" using Suc.prems(5) Suc.hyps(2) by simp
    moreover have "advance_loop (int (Suc q) mod 128) (int r mod 128) vN = Some (int s mod 128)"
      using Suc.hyps(1) [of "Suc q"] Suc.hyps(2) Suc.prems False by simp
    ultimately show ?thesis
      by (subst advance_loop.simps) (simp only: ne if_False step idx RECEIVE_STATUS.distinct)
  qed
qed

section \<open>The abstract selective-repeat receiver\<close>

text \<open>
  Blocks carry unbounded sequence numbers; the BSN is the number modulo 128.  The receiver knows the
  oldest missing number \<open>rx_Q\<close>, the number \<open>rx_R\<close> after the newest one received, and the set \<open>rx_S\<close>
  of the numbers received.
\<close>

record receiver =
  rx_Q :: nat
  rx_R :: nat
  rx_S :: "nat set"

definition receiver_new :: receiver where
  "receiver_new = \<lparr>rx_Q = 0, rx_R = 0, rx_S = {}\<rparr>"

function first_missing :: "nat \<Rightarrow> nat \<Rightarrow> nat set \<Rightarrow> nat" where
  "first_missing q r S = (if q < r \<and> q \<in> S then first_missing (Suc q) r S else q)"
  by pat_completeness auto
termination
  by (relation "measure (\<lambda>(q, r, S). r - q)") auto

declare first_missing.simps [simp del]

definition receive :: "nat \<Rightarrow> receiver \<Rightarrow> receiver" where
  "receive n x =
     (let R = max (rx_R x) (Suc n); S = insert n (rx_S x)
      in \<lparr>rx_Q = first_missing (rx_Q x) R S, rx_R = R, rx_S = S\<rparr>)"

lemma first_missing_spec:
  "q \<le> r \<Longrightarrow> q \<le> first_missing q r S \<and> first_missing q r S \<le> r \<and>
     (\<forall>m. q \<le> m \<and> m < first_missing q r S \<longrightarrow> m \<in> S) \<and>
     (first_missing q r S < r \<longrightarrow> first_missing q r S \<notin> S)"
proof (induction q r S rule: first_missing.induct)
  case (1 q r S)
  show ?case
  proof (cases "q < r \<and> q \<in> S")
    case True
    then have "first_missing q r S = first_missing (Suc q) r S" by (simp add: first_missing.simps [of q])
    moreover have "m = q \<or> Suc q \<le> m" if "q \<le> m" for m using that by auto
    ultimately show ?thesis using "1.IH" True by (metis Suc_leD Suc_leI)
  next
    case False
    then have "first_missing q r S = q" by (auto simp: first_missing.simps [of q])
    then show ?thesis using "1.prems" False by auto
  qed
qed

text \<open>
  The simulation relation.  The last 63 numbers below \<open>rx_R\<close> have their true status in V(N); the 65
  entries from V(R) on are invalid, ready for new blocks, and so are the entries never reached yet.
\<close>

definition sim :: "receiver \<Rightarrow> 'a RcvWindow_scheme \<Rightarrow> bool" where
  "sim x w \<longleftrightarrow> rw_rlcMode w = ACKNOWLEDGED_RLC_MODE \<and> length (rw_vN w) = RLC_MOD_VAL \<and>
     rw_vQ w = int (rx_Q x) mod MOD \<and> rw_vR w = int (rx_R x) mod MOD \<and>
     rx_Q x \<le> rx_R x \<and> rx_R x \<le> rx_Q x + 63 \<and>
     {..<rx_Q x} \<subseteq> rx_S x \<and> rx_S x \<subseteq> {..<rx_R x} \<and> rx_Q x \<notin> rx_S x \<and>
     (\<forall>m < rx_R x. rx_R x \<le> m + 63 \<longrightarrow> (rw_vN w ! (m mod RLC_MOD_VAL) = RECEIVED \<longleftrightarrow> m \<in> rx_S x)) \<and>
     (\<forall>m. rx_R x \<le> m \<and> (m \<le> rx_R x + 64 \<or> m < RLC_MOD_VAL) \<longrightarrow> rw_vN w ! (m mod RLC_MOD_VAL) = INVALID)"

lemma sim_new: "sim receiver_new (RcvWindow_new ACKNOWLEDGED_RLC_MODE)"
  by (simp add: sim_def receiver_new_def RcvWindow_new_def)

lemma nat_mod_cases:
  fixes q n :: nat
  assumes "q \<le> n" "n < q + 128"
  shows "n div 128 = q div 128 \<and> n mod 128 = q mod 128 + (n - q) \<or>
     n div 128 = q div 128 + 1 \<and> n mod 128 + 128 = q mod 128 + (n - q)"
proof -
  define d where "d = n - q"
  have n: "n = 128 * (q div 128) + (q mod 128 + d)" using assms by (simp add: d_def)
  have d: "d < 128" using assms by (simp add: d_def)
  have q: "q mod 128 < 128" by simp
  have mod: "n mod 128 + 128 * (n div 128) = n" by simp
  show ?thesis
  proof (cases "q mod 128 + d < 128")
    case True
    have "128 * (q div 128) \<le> n" using n by linarith
    moreover have "n < 128 * Suc (q div 128)" unfolding mult_Suc_right using n True by linarith
    ultimately have div: "n div 128 = q div 128" by (rule div_nat_eqI)
    have "n mod 128 = q mod 128 + d" using mod n unfolding div by linarith
    then show ?thesis using div by (simp add: d_def)
  next
    case False
    have "128 * Suc (q div 128) \<le> n" unfolding mult_Suc_right using n False by linarith
    moreover have "n < 128 * Suc (Suc (q div 128))" unfolding mult_Suc_right using n d q by linarith
    ultimately have div: "n div 128 = Suc (q div 128)" by (rule div_nat_eqI)
    have "n mod 128 + 128 = q mod 128 + d" using mod n unfolding div mult_Suc_right by linarith
    then show ?thesis using div by (simp add: d_def)
  qed
qed

lemma in_window_next:
  assumes "q \<le> n" "n < q + 64"
  shows "in_window (int q mod MOD) (int n mod MOD)"
proof -
  have m: "int q mod 128 = int (q mod 128)" "int n mod 128 = int (n mod 128)"
    by (simp_all only: of_nat_mod of_nat_numeral)
  show ?thesis
    using nat_mod_cases [of q n] assms unfolding in_window_def Let_def m by (auto split: if_splits)
qed

text \<open>The V(R) test of the code decides \<open>rx_R \<le> n\<close>, except for a hole below V(R) in a wrapped window.\<close>

lemma vR_test:
  assumes "q \<le> r" "r \<le> q + 63" "q \<le> n" "n < q + 64" "q div 128 = r div 128 \<or> r \<le> n"
  shows "(int r mod MOD \<le> int n mod MOD \<or> int r mod MOD > int n mod MOD \<and> int q mod MOD > int n mod MOD) \<longleftrightarrow> r \<le> n"
proof -
  have m: "int q mod 128 = int (q mod 128)" "int n mod 128 = int (n mod 128)" "int r mod 128 = int (r mod 128)"
    by (simp_all only: of_nat_mod of_nat_numeral)
  have n: "n div 128 = q div 128 \<and> n mod 128 = q mod 128 + (n - q) \<or>
      n div 128 = q div 128 + 1 \<and> n mod 128 + 128 = q mod 128 + (n - q)"
    using nat_mod_cases [of q n] assms by simp
  have r: "r div 128 = q div 128 \<and> r mod 128 = q mod 128 + (r - q) \<or>
      r div 128 = q div 128 + 1 \<and> r mod 128 + 128 = q mod 128 + (r - q)"
    using nat_mod_cases [of q r] assms by simp
  show ?thesis
    unfolding m of_nat_le_iff of_nat_less_iff using n r assms
    by (elim disjE conjE) linarith+
qed

section \<open>One received block refines the abstract receiver\<close>

text \<open>V(N) after clearing ahead of V(R) and marking block \<open>n\<close>.\<close>

definition marked :: "nat \<Rightarrow> nat \<Rightarrow> nat \<Rightarrow> RECEIVE_STATUS list \<Rightarrow> RECEIVE_STATUS list" where
  "marked r r' n vN =
     (fold (\<lambda>i v. v[(r + 65 + i) mod 128 := INVALID]) [0..<r' - r] vN)[n mod 128 := RECEIVED]"

lemma length_marked [simp]: "length (marked r r' n vN) = length vN"
  by (simp add: marked_def)

lemma marked_nth:
  assumes "length vN = 128"
  shows "marked r r' n vN ! (m mod 128) =
     (if m mod 128 = n mod 128 then RECEIVED
      else if \<exists>i < r' - r. m mod 128 = (r + 65 + i) mod 128 then INVALID else vN ! (m mod 128))"
proof -
  have "m mod 128 < length vN" using assms by simp
  then have "fold (\<lambda>i v. v[(r + 65 + i) mod 128 := INVALID]) [0..<r' - r] vN ! (m mod 128) =
      (if m mod 128 \<in> (\<lambda>i. (r + 65 + i) mod 128) ` set [0..<r' - r] then INVALID else vN ! (m mod 128))"
    by (rule fold_clear_nth)
  moreover have "m mod 128 \<in> (\<lambda>i. (r + 65 + i) mod 128) ` set [0..<r' - r] \<longleftrightarrow>
      (\<exists>i < r' - r. m mod 128 = (r + 65 + i) mod 128)" by auto
  ultimately show ?thesis
    using assms unfolding marked_def by (subst nth_update_if) auto
qed

lemma mod_ne_near: "a < b \<Longrightarrow> b < a + 128 \<Longrightarrow> b mod 128 \<noteq> a mod (128 :: nat)"
  using nat_mod_ne [of "b - a" a] by simp

lemma marked_status:
  assumes s: "sim x w" and n: "rx_Q x \<le> n" "n < rx_Q x + 63" and r': "r' = max (rx_R x) (Suc n)"
  shows "m < r' \<Longrightarrow> r' \<le> m + 63 \<Longrightarrow>
      (marked (rx_R x) r' n (rw_vN w) ! (m mod 128) = RECEIVED \<longleftrightarrow> m \<in> insert n (rx_S x))"
    "r' \<le> m \<Longrightarrow> m \<le> r' + 64 \<or> m < 128 \<Longrightarrow> marked (rx_R x) r' n (rw_vN w) ! (m mod 128) = INVALID"
proof -
  let ?r = "rx_R x" let ?q = "rx_Q x"
  have len: "length (rw_vN w) = 128" using s by (simp add: sim_def)
  have qr: "?q \<le> ?r" "?r \<le> ?q + 63" using s by (simp_all add: sim_def)
  have known: "rw_vN w ! (m mod 128) = RECEIVED \<longleftrightarrow> m \<in> rx_S x" if "m < ?r" "?r \<le> m + 63" for m
    using s that by (simp add: sim_def)
  have ahead: "rw_vN w ! (m mod 128) = INVALID" if "?r \<le> m" "m \<le> ?r + 64 \<or> m < 128" for m
    using s that by (simp add: sim_def)
  have below: "rx_S x \<subseteq> {..<?r}" using s by (simp add: sim_def)
  show "marked ?r r' n (rw_vN w) ! (m mod 128) = RECEIVED \<longleftrightarrow> m \<in> insert n (rx_S x)"
    if m: "m < r'" "r' \<le> m + 63"
  proof (cases "m = n")
    case True
    then show ?thesis by (simp add: marked_nth [OF len])
  next
    case False
    have "n < r'" "r' \<le> n + 64" using n r' qr by simp_all
    then have ne: "m mod 128 \<noteq> n mod 128"
      using False m mod_ne_near [of m n] mod_ne_near [of n m] by (cases "m < n") auto
    have "m mod 128 \<noteq> (?r + 65 + i) mod 128" if "i < r' - ?r" for i
    proof -
      have "r' \<le> ?q + 63" using r' n qr by simp
      then have "m < ?r + 65 + i" "?r + 65 + i < m + 128" using that m qr by linarith+
      from mod_ne_near [OF this] show ?thesis by simp
    qed
    then have "marked ?r r' n (rw_vN w) ! (m mod 128) = rw_vN w ! (m mod 128)"
      using ne by (auto simp: marked_nth [OF len])
    moreover have "rw_vN w ! (m mod 128) = RECEIVED \<longleftrightarrow> m \<in> rx_S x"
    proof (cases "m < ?r")
      case True
      then show ?thesis using known m r' by simp
    next
      case False
      have "m \<le> ?r + 64" using m r' n qr by simp
      then have "rw_vN w ! (m mod 128) = INVALID" using ahead False by simp
      then show ?thesis using False below by auto
    qed
    ultimately show ?thesis using False by simp
  qed
  show "marked ?r r' n (rw_vN w) ! (m mod 128) = INVALID" if m: "r' \<le> m" "m \<le> r' + 64 \<or> m < 128"
  proof -
    have "n < m" "m < n + 128" using m n r' qr by auto
    then have ne: "m mod 128 \<noteq> n mod 128" by (rule mod_ne_near)
    show ?thesis
    proof (cases "m \<le> ?r + 64 \<or> m < 128")
      case True
      then have "rw_vN w ! (m mod 128) = INVALID" using ahead m r' by simp
      then show ?thesis using ne by (simp add: marked_nth [OF len])
    next
      case False
      then have "?r + 65 \<le> m" "m \<le> r' + 64" using m(2) by auto
      then have "m - ?r - 65 < r' - ?r" "m = ?r + 65 + (m - ?r - 65)" by simp_all
      then show ?thesis using ne by (simp only: marked_nth [OF len]) auto
    qed
  qed
qed

lemma UpdateAcked_marked:
  assumes s: "sim x w" and n: "rx_Q x \<le> n" "n < rx_Q x + 63"
    and unwrapped: "rx_Q x div 128 = rx_R x div 128 \<or> rx_R x \<le> n" and r': "r' = max (rx_R x) (Suc n)"
  shows "UpdateRcvStateVariables (int n mod MOD) w =
     map_option (\<lambda>vQ. (True, w\<lparr>rw_vR := int r' mod MOD, rw_vN := marked (rx_R x) r' n (rw_vN w), rw_vQ := vQ\<rparr>))
       (if n = rx_Q x then advance_loop (int (rx_Q x) mod MOD) (int r' mod MOD) (marked (rx_R x) r' n (rw_vN w))
        else Some (int (rx_Q x) mod MOD))"
proof -
  let ?r = "rx_R x" let ?q = "rx_Q x" let ?B = "int n mod 128"
  have w: "rw_rlcMode w = ACKNOWLEDGED_RLC_MODE" "rw_vQ w = int ?q mod 128" "rw_vR w = int ?r mod 128"
    and qr: "?q \<le> ?r" "?r \<le> ?q + 63" using s by (simp_all add: sim_def)
  have win: "in_window (rw_vQ w) ?B" using in_window_next [of ?q n] n w by simp
  have test: "(rw_vR w \<le> ?B \<or> rw_vR w > ?B \<and> rw_vQ w > ?B) \<longleftrightarrow> ?r \<le> n"
    unfolding w by (rule vR_test) (use qr n unwrapped in auto)
  have next1: "(?B + 1) mod 128 = int (Suc n) mod 128" by (simp add: mod_simps add.commute)
  have "r' = (if ?r \<le> n then Suc n else ?r)" using r' by auto
  then have vR: "(if rw_vR w \<le> ?B \<or> rw_vR w > ?B \<and> rw_vQ w > ?B then (?B + 1) mod 128 else rw_vR w) = int r' mod 128"
    unfolding test next1 using w(3) by simp
  have "r' = ?r + (r' - ?r)" "r' - ?r < 128" using r' n qr by simp_all
  then have clear: "clear_loop (rw_vR w) (int r' mod 128) (rw_vN w) =
      Some (fold (\<lambda>i v. v[(?r + 65 + i) mod 128 := INVALID]) [0..<r' - ?r] (rw_vN w))"
    using clear_loop_closed [of "r' - ?r" ?r "rw_vN w"] w(3) by simp
  have idx: "nat (?B mod 128) = n mod 128" by (simp add: nat_mod_distrib)
  have eqQ: "?B mod 128 = rw_vQ w \<longleftrightarrow> n = ?q"
  proof -
    have "?B mod 128 = int (n mod 128)" "rw_vQ w = int (?q mod 128)" using w(2) by (simp_all add: of_nat_mod)
    moreover have "n mod 128 = ?q mod 128 \<longleftrightarrow> n = ?q"
      using mod_ne_near [of ?q n] n by (cases "n = ?q") auto
    ultimately show ?thesis by simp
  qed
  show ?thesis
    unfolding UpdateRcvStateVariables_def UpdateAcked_def w(1) RLC_MODE.case Let_def
      vR clear eqQ idx marked_def [symmetric] option.case
    by (simp only: win not_True_eq_False if_False) (simp only: w(2))
qed

lemma receive_refines:
  assumes s: "sim x w" and n: "rx_Q x \<le> n" "n < rx_Q x + 63"
    and unwrapped: "rx_Q x div 128 = rx_R x div 128 \<or> rx_R x \<le> n"
  shows "\<exists>w'. UpdateRcvStateVariables (int n mod MOD) w = Some (True, w') \<and> sim (receive n x) w'"
proof -
  let ?r = "rx_R x" let ?q = "rx_Q x" let ?S = "insert n (rx_S x)"
  define r' where r': "r' = max ?r (Suc n)"
  define s' where s': "s' = first_missing ?q r' ?S"
  let ?vN = "marked ?r r' n (rw_vN w)"
  have len: "length (rw_vN w) = 128" and qr: "?q \<le> ?r" "?r \<le> ?q + 63"
    and S: "{..<?q} \<subseteq> rx_S x" "rx_S x \<subseteq> {..<?r}" "?q \<notin> rx_S x"
    using s by (simp_all add: sim_def)
  have bounds: "?q < r'" "r' \<le> ?q + 63" "?r \<le> r'" "n < r'" using r' n qr by simp_all
  have miss: "?q \<le> s'" "s' \<le> r'" "\<forall>m. ?q \<le> m \<and> m < s' \<longrightarrow> m \<in> ?S" "s' < r' \<longrightarrow> s' \<notin> ?S"
    using first_missing_spec [of ?q r' ?S] bounds(1) unfolding s' by simp_all
  note st = marked_status [OF s n r']
  have Q': "(if n = ?q then advance_loop (int ?q mod 128) (int r' mod 128) ?vN else Some (int ?q mod 128)) =
      Some (int s' mod 128)"
  proof (cases "n = ?q")
    case True
    then have "?q < s'" using miss(1,4) bounds(1) by (cases "s' = ?q") auto
    moreover have "?vN ! (m mod 128) = RECEIVED" if "?q < m \<and> m < s'" for m
    proof -
      have "m \<in> ?S" using miss(3) that by simp
      then show ?thesis using st(1) [of m] that bounds miss(2) by simp
    qed
    moreover have "?vN ! (s' mod 128) = INVALID" if "s' < r'"
    proof -
      have "?vN ! (s' mod 128) \<noteq> RECEIVED" using st(1) [of s'] miss that bounds by simp
      then show ?thesis by (cases "?vN ! (s' mod 128)") simp_all
    qed
    ultimately have "advance_loop (int ?q mod 128) (int r' mod 128) ?vN = Some (int s' mod 128)"
      using miss(1,2) bounds by (intro advance_loop_closed) auto
    then show ?thesis using True by simp
  next
    case False
    then have "s' = ?q" unfolding s' using S(3) by (simp add: first_missing.simps [of ?q])
    then show ?thesis using False by simp
  qed
  let ?w = "w\<lparr>rw_vR := int r' mod 128, rw_vN := ?vN, rw_vQ := int s' mod 128\<rparr>"
  have upd: "UpdateRcvStateVariables (int n mod 128) w = Some (True, ?w)"
    unfolding UpdateAcked_marked [OF s n unwrapped r'] Q' by simp
  have x': "receive n x = \<lparr>rx_Q = s', rx_R = r', rx_S = ?S\<rparr>" by (simp add: receive_def Let_def r' s')
  have "{..<s'} \<subseteq> ?S"
  proof
    fix m assume "m \<in> {..<s'}"
    then show "m \<in> ?S" using miss(3) S(1) by (cases "m < ?q") auto
  qed
  moreover have "?S \<subseteq> {..<r'}" using S(2) bounds(3,4) by auto
  moreover from this have "s' \<notin> ?S" using miss(2,4) by (cases "s' < r'") auto
  ultimately have "sim (receive n x) ?w"
    using s st len miss(1,2) bounds unfolding x' sim_def by simp
  with upd show ?thesis by blast
qed

section \<open>Runs\<close>

fun update_all :: "int list \<Rightarrow> RcvWindow \<Rightarrow> (bool list \<times> RcvWindow) option" where
  "update_all [] w = Some ([], w)"
| "update_all (bsn # bsns) w =
     (case UpdateRcvStateVariables bsn w of
        None \<Rightarrow> None
      | Some (ok, w1) \<Rightarrow> map_option (\<lambda>(oks, w2). (ok # oks, w2)) (update_all bsns w1))"

text \<open>
  An arrival the window update handles as specified: inside a window of 63, and not a block that
  fills a hole while V(R) has already wrapped past 127 and V(Q) has not.
\<close>

definition arrival_ok :: "nat \<Rightarrow> receiver \<Rightarrow> bool" where
  "arrival_ok n x \<longleftrightarrow> rx_Q x \<le> n \<and> n < rx_Q x + 63 \<and> (rx_Q x div 128 = rx_R x div 128 \<or> rx_R x \<le> n)"

text \<open>
  A block sent once more although everything up to V(Q) is received: at most 64 behind V(Q), and both on the same
  side of the wrap.
\<close>

definition repeat_ok :: "nat \<Rightarrow> receiver \<Rightarrow> bool" where
  "repeat_ok n x \<longleftrightarrow> n < rx_Q x \<and> rx_Q x \<le> n + 64 \<and> n div 128 = rx_Q x div 128"

lemma receive_repeat:
  assumes "sim x w" "n < rx_Q x"
  shows "receive n x = x"
proof -
  have "insert n (rx_S x) = rx_S x" "max (rx_R x) (Suc n) = rx_R x" "rx_Q x \<notin> rx_S x"
    using assms by (auto simp: sim_def)
  then show ?thesis by (simp add: receive_def Let_def first_missing.simps [of "rx_Q x"])
qed

lemma repeat_rejected:
  assumes s: "sim x w" and n: "repeat_ok n x"
  shows "UpdateRcvStateVariables (int n mod MOD) w = Some (False, w)"
proof -
  have "rx_Q x = 128 * (rx_Q x div 128) + rx_Q x mod 128" "n = 128 * (n div 128) + n mod 128" by simp_all
  then have "n mod 128 < rx_Q x mod 128" "rx_Q x mod 128 \<le> n mod 128 + 64"
    using n unfolding repeat_ok_def by linarith+
  moreover have "int (rx_Q x) mod 128 = int (rx_Q x mod 128)" "int n mod 128 = int (n mod 128)"
    by (simp_all only: of_nat_mod of_nat_numeral)
  ultimately have "\<not> in_window (int (rx_Q x) mod 128) (int n mod 128)"
    by (simp only: in_window_def Let_def) simp
  then show ?thesis using s by (simp add: sim_def UpdateRcvStateVariables_def UpdateAcked_def)
qed

fun arrivals_ok :: "nat list \<Rightarrow> receiver \<Rightarrow> bool" where
  "arrivals_ok [] x = True"
| "arrivals_ok (n # ns) x = ((arrival_ok n x \<or> repeat_ok n x) \<and> arrivals_ok ns (receive n x))"

text \<open>Which of the blocks are accepted: those that are not behind V(Q).\<close>

fun accepted_of :: "nat list \<Rightarrow> receiver \<Rightarrow> bool list" where
  "accepted_of [] x = []"
| "accepted_of (n # ns) x = (rx_Q x \<le> n) # accepted_of ns (receive n x)"

lemma update_all_sim:
  "sim x w \<Longrightarrow> arrivals_ok ns x \<Longrightarrow>
   \<exists>w'. update_all (map (\<lambda>n. int n mod MOD) ns) w = Some (accepted_of ns x, w') \<and> sim (fold receive ns x) w'"
proof (induction ns arbitrary: x w)
  case (Cons n ns)
  have "\<exists>w1. UpdateRcvStateVariables (int n mod MOD) w = Some (rx_Q x \<le> n, w1) \<and> sim (receive n x) w1"
  proof (cases "repeat_ok n x")
    case True
    then show ?thesis
      using repeat_rejected [OF Cons.prems(1) True] receive_repeat [OF Cons.prems(1)] Cons.prems(1) by (simp add: repeat_ok_def)
  next
    case False
    then have "arrival_ok n x" using Cons.prems(2) by simp
    then show ?thesis using receive_refines [OF Cons.prems(1), of n] by (simp add: arrival_ok_def)
  qed
  then obtain w1 where "UpdateRcvStateVariables (int n mod MOD) w = Some (rx_Q x \<le> n, w1)" "sim (receive n x) w1" by blast
  then show ?case using Cons.IH [of "receive n x" w1] Cons.prems(2) by auto
qed simp

lemma fold_receive_upt: "fold receive [0..<N] receiver_new = \<lparr>rx_Q = N, rx_R = N, rx_S = {..<N}\<rparr>"
proof (induction N)
  case 0
  then show ?case by (simp add: receiver_new_def)
next
  case (Suc N)
  have "insert N {..<N} = {..<Suc N}" by auto
  then have "receive N \<lparr>rx_Q = N, rx_R = N, rx_S = {..<N}\<rparr> = \<lparr>rx_Q = Suc N, rx_R = Suc N, rx_S = {..<Suc N}\<rparr>"
    by (simp add: receive_def Let_def first_missing.simps [of N "Suc N"] first_missing.simps [of "Suc N" "Suc N"])
  then show ?case using Suc by simp
qed

lemma arrivals_ok_append: "arrivals_ok (ns @ ms) x \<longleftrightarrow> arrivals_ok ns x \<and> arrivals_ok ms (fold receive ns x)"
  by (induction ns arbitrary: x) auto

lemma accepted_of_append: "accepted_of (ns @ ms) x = accepted_of ns x @ accepted_of ms (fold receive ns x)"
  by (induction ns arbitrary: x) auto

lemma accepted_of_upt: "accepted_of [0..<N] receiver_new = replicate N True"
  by (induction N) (simp_all add: accepted_of_append fold_receive_upt replicate_append_same del: replicate_Suc, simp)

lemma arrivals_ok_upt: "arrivals_ok [0..<N] receiver_new"
  by (induction N) (simp_all add: arrivals_ok_append fold_receive_upt arrival_ok_def)

section \<open>The bitmap\<close>

lemma rrb_bit_fold:
  assumes "0 \<le> v" "v \<le> 128" "k \<le> 8"
  shows "let (oct, u) = fold (rrb_bit vN) [0..<k] (0, v) in
     u = (if int k \<le> v then v - int k else v - int k + 128) \<and>
     (\<forall>j. bit oct j \<longleftrightarrow> j < k \<and> vN ! nat ((v - 1 - int j) mod 128) = RECEIVED)"
  using assms(3)
proof (induction k)
  case 0
  then show ?case using assms(1) by simp
next
  case (Suc k)
  obtain oct u where f: "fold (rrb_bit vN) [0..<k] (0, v) = (oct, u)" by fastforce
  have IH: "u = (if int k \<le> v then v - int k else v - int k + 128)"
    "\<forall>j. bit oct j \<longleftrightarrow> j < k \<and> vN ! nat ((v - 1 - int j) mod 128) = RECEIVED"
    using Suc f by simp_all
  let ?u = "if u - 1 < 0 then u - 1 + 128 else u - 1"
  have u: "?u = (if int (Suc k) \<le> v then v - int (Suc k) else v - int (Suc k) + 128)"
    using IH(1) assms Suc.prems by auto
  have "(v - 1 - int k) mod 128 = ?u"
  proof (cases "int (Suc k) \<le> v")
    case True
    then show ?thesis unfolding u using assms by (simp add: algebra_simps)
  next
    case False
    have "v - int (Suc k) + 128 = (v - 1 - int k) + 128" by simp
    then have "(v - 1 - int k) mod 128 = (v - int (Suc k) + 128) mod 128" by (simp only: mod_add_self2)
    also have "\<dots> = v - int (Suc k) + 128" using False assms Suc.prems by (intro mod_pos_pos_trivial) auto
    finally show ?thesis unfolding u using False by simp
  qed
  moreover have "bit (push_bit k 1 :: octet) j \<longleftrightarrow> j = k" for j
    using Suc.prems by (auto simp: bit_simps)
  moreover have "fold (rrb_bit vN) [0..<Suc k] (0, v) =
      (if vN ! nat ?u = RECEIVED then or oct (push_bit k 1) else oct, ?u)"
    using f by (simp add: rrb_bit_def Let_def)
  ultimately show ?case
    using IH(2) u by (auto simp: bit_or_iff less_Suc_eq)
qed

lemma rrb_octet_spec:
  assumes "0 \<le> v" "v \<le> 128"
  shows "let (oct, u) = rrb_octet vN v in
     u = (if 8 \<le> v then v - 8 else v + 120) \<and>
     (\<forall>j. bit oct j \<longleftrightarrow> j < 8 \<and> vN ! nat ((v - 1 - int j) mod 128) = RECEIVED)"
  using rrb_bit_fold [OF assms, of 8 vN] unfolding rrb_octet_def by (auto split: prod.splits)

lemma rrb_octets_spec:
  assumes "0 \<le> v" "v \<le> 128"
  shows "length (rrb_octets vN n v) = n \<and>
     (\<forall>i < n. \<forall>j < 8. bit (rrb_octets vN n v ! i) j \<longleftrightarrow>
        vN ! nat ((v - 1 - int (8 * (n - 1 - i) + j)) mod 128) = RECEIVED)"
  using assms
proof (induction n arbitrary: v)
  case 0
  then show ?case by simp
next
  case (Suc n)
  obtain oct u where o: "rrb_octet vN v = (oct, u)" by fastforce
  have oct: "u = (if 8 \<le> v then v - 8 else v + 120)"
    "\<forall>j. bit oct j \<longleftrightarrow> j < 8 \<and> vN ! nat ((v - 1 - int j) mod 128) = RECEIVED"
    using rrb_octet_spec [OF Suc.prems, of vN] o by simp_all
  then have "0 \<le> u" "u \<le> 128" using Suc.prems by (auto split: if_splits)
  moreover have "v + 120 = (v - 8) + 128" by simp
  then have "(v + 120) mod 128 = (v - 8) mod 128" by (simp only: mod_add_self2)
  then have "u mod 128 = (v - 8) mod 128" using oct(1) by (simp split: if_splits)
  ultimately have u: "0 \<le> u" "u \<le> 128" "u mod 128 = (v - 8) mod 128" by blast+
  have IH: "length (rrb_octets vN n u) = n"
    "\<forall>i < n. \<forall>j < 8. bit (rrb_octets vN n u ! i) j \<longleftrightarrow>
        vN ! nat ((u - 1 - int (8 * (n - 1 - i) + j)) mod 128) = RECEIVED"
    using Suc.IH [OF u(1,2)] by simp_all
  have "bit (rrb_octets vN (Suc n) v ! i) j \<longleftrightarrow>
      vN ! nat ((v - 1 - int (8 * (Suc n - 1 - i) + j)) mod 128) = RECEIVED" if ij: "i < Suc n" "j < 8" for i j
  proof (cases "i = n")
    case True
    then show ?thesis using o oct(2) IH(1) ij by (simp add: nth_append)
  next
    case False
    then have i: "i < n" using ij by simp
    define c where "c = 1 + int (8 * (n - 1 - i) + j)"
    have "8 * (Suc n - 1 - i) + j = 8 + (8 * (n - 1 - i) + j)" using i by (simp add: Suc_diff_Suc [symmetric])
    then have "v - 1 - int (8 * (Suc n - 1 - i) + j) = (v - 8) - c" by (simp add: c_def)
    moreover have "u - 1 - int (8 * (n - 1 - i) + j) = u - c" by (simp add: c_def)
    then have "bit (rrb_octets vN n u ! i) j \<longleftrightarrow> vN ! nat ((u - c) mod 128) = RECEIVED"
      using IH(2) i ij(2) by metis
    moreover have "(u - c) mod 128 = ((v - 8) - c) mod 128" using u(3) by (metis mod_diff_left_eq)
    moreover have "rrb_octets vN (Suc n) v ! i = rrb_octets vN n u ! i" using o IH(1) i by (simp add: nth_append)
    ultimately show ?thesis by (simp only:)
  qed
  moreover have "length (rrb_octets vN (Suc n) v) = Suc n" using o IH(1) by simp
  ultimately show ?case by blast
qed

lemma build_rrb_bit:
  assumes "0 \<le> rw_vR w" "rw_vR w \<le> 128" "d < 64"
  shows "bit (build_rrb w ! (7 - d div 8)) (d mod 8) \<longleftrightarrow> rw_vN w ! nat ((rw_vR w - 1 - int d) mod 128) = RECEIVED"
proof -
  have "d div 8 < 8" using assms(3) by simp
  then have "8 * (8 - 1 - (7 - d div 8)) + d mod 8 = d" by simp
  then show ?thesis
    using rrb_octets_spec [OF assms(1,2), of "rw_vN w" 8, THEN conjunct2, rule_format, of "7 - d div 8" "d mod 8"]
    by (simp add: build_rrb_def)
qed

lemma wrapped_clear:
  assumes s: "sim x w" and n: "rx_Q x \<le> n" "n + 1 < rx_R x" and wrapped: "rx_Q x div 128 \<noteq> rx_R x div 128"
  shows "\<exists>w'. UpdateRcvStateVariables (int n mod MOD) w = Some (True, w') \<and> rw_vR w' = int (n + 1) mod MOD \<and>
     (\<forall>m. rx_Q x \<le> m \<and> m < rx_R x \<and> m \<noteq> n \<longrightarrow> rw_vN w' ! (m mod RLC_MOD_VAL) = INVALID)"
proof -
  let ?r = "rx_R x" let ?q = "rx_Q x" let ?B = "int n mod 128"
  have w: "rw_rlcMode w = ACKNOWLEDGED_RLC_MODE" "rw_vQ w = int ?q mod 128" "rw_vR w = int ?r mod 128"
    "length (rw_vN w) = 128" and qr: "?q \<le> ?r" "?r \<le> ?q + 63" using s by (simp_all add: sim_def)
  have win: "in_window (rw_vQ w) ?B" using in_window_next [of ?q n] n qr w by simp
  have m: "int ?q mod 128 = int (?q mod 128)" "?B = int (n mod 128)" "int ?r mod 128 = int (?r mod 128)"
    by (simp_all only: of_nat_mod of_nat_numeral)
  have nc: "n div 128 = ?q div 128 \<and> n mod 128 = ?q mod 128 + (n - ?q) \<or>
      n div 128 = ?q div 128 + 1 \<and> n mod 128 + 128 = ?q mod 128 + (n - ?q)"
    using nat_mod_cases [of ?q n] n qr by simp
  have rc: "?r mod 128 + 128 = ?q mod 128 + (?r - ?q)"
    using nat_mod_cases [of ?q ?r] qr wrapped by simp
  have "rw_vR w \<le> ?B \<or> rw_vR w > ?B \<and> rw_vQ w > ?B"
    unfolding w(2,3) m of_nat_le_iff of_nat_less_iff using nc
  proof (elim disjE conjE)
    assume "n mod 128 = ?q mod 128 + (n - ?q)"
    then show "?r mod 128 \<le> n mod 128 \<or> n mod 128 < ?r mod 128 \<and> n mod 128 < ?q mod 128"
      using rc n qr by (intro disjI1) linarith
  next
    assume "n mod 128 + 128 = ?q mod 128 + (n - ?q)"
    then show "?r mod 128 \<le> n mod 128 \<or> n mod 128 < ?r mod 128 \<and> n mod 128 < ?q mod 128"
      using rc n qr by (intro disjI2 conjI) linarith+
  qed
  then have test: "(rw_vR w \<le> ?B \<or> rw_vR w > ?B \<and> rw_vQ w > ?B) = True" by (rule eqTrueI)
  have next1: "(?B + 1) mod 128 = int (n + 1) mod 128" by (simp add: mod_simps add.commute)
  let ?r' = "n + 129" let ?vN = "marked ?r ?r' n (rw_vN w)"
  have "?r' = ?r + (?r' - ?r)" "?r' - ?r < 128" using n qr by simp_all
  moreover have "int ?r' = int (n + 1) + 128" by simp
  then have "int ?r' mod 128 = int (n + 1) mod 128" by (simp only: mod_add_self2)
  ultimately have clear: "clear_loop (rw_vR w) (int (n + 1) mod 128) (rw_vN w) =
      Some (fold (\<lambda>i v. v[(?r + 65 + i) mod 128 := INVALID]) [0..<?r' - ?r] (rw_vN w))"
    using clear_loop_closed [of "?r' - ?r" ?r "rw_vN w"] w(3) by simp
  have idx: "nat (?B mod 128) = n mod 128" by (simp add: nat_mod_distrib)
  have adv: "advance_loop (rw_vQ w) (int (n + 1) mod 128) ?vN = Some (int (n + 1) mod 128)"
    if "?B mod 128 = rw_vQ w"
  proof -
    have "rw_vQ w = int n mod 128" using that by simp
    moreover have "advance_loop (int n mod 128) (int (n + 1) mod 128) ?vN = Some (int (n + 1) mod 128)"
      by (rule advance_loop_closed) auto
    ultimately show ?thesis by (simp only:)
  qed
  have "UpdateRcvStateVariables ?B w = map_option (\<lambda>vQ. (True, w\<lparr>rw_vR := int (n + 1) mod 128, rw_vN := ?vN, rw_vQ := vQ\<rparr>))
      (if ?B mod 128 = rw_vQ w then advance_loop (rw_vQ w) (int (n + 1) mod 128) ?vN else Some (rw_vQ w))"
    unfolding UpdateRcvStateVariables_def UpdateAcked_def w(1) RLC_MODE.case Let_def test if_True next1
      clear idx marked_def [symmetric] option.case
    by (simp only: win not_True_eq_False if_False)
  moreover obtain vQ where "(if ?B mod 128 = rw_vQ w then advance_loop (rw_vQ w) (int (n + 1) mod 128) ?vN
      else Some (rw_vQ w)) = Some vQ"
    using adv by (cases "?B mod 128 = rw_vQ w") auto
  ultimately have "UpdateRcvStateVariables ?B w =
      Some (True, w\<lparr>rw_vR := int (n + 1) mod 128, rw_vN := ?vN, rw_vQ := vQ\<rparr>)"
    by (simp only: option.map)
  moreover have "?vN ! (m mod 128) = INVALID" if m: "?q \<le> m" "m < ?r" "m \<noteq> n" for m
  proof -
    have "m mod 128 \<noteq> n mod 128"
      using m n qr mod_ne_near [of m n] mod_ne_near [of n m] by (cases "m < n") auto
    moreover have "m mod 128 = (?r + 65 + (m + 63 - ?r)) mod 128" "m + 63 - ?r < ?r' - ?r"
      using m n qr by simp_all
    ultimately show ?thesis by (simp only: marked_nth [OF w(4)]) auto
  qed
  ultimately show ?thesis
    by (intro exI [of _ "w\<lparr>rw_vR := int (n + 1) mod 128, rw_vN := ?vN, rw_vQ := vQ\<rparr>"]) simp
qed

section \<open>Properties\<close>

text \<open>
  C3: the receive state update refines the abstract selective-repeat receiver. Blocks may arrive in any order, late,
  and repeatedly, as long as each is less than 63 ahead of V(Q), or a repetition at most 64 behind it on the same side of
  the wrap, and none fills a hole while V(R) has wrapped past 127 and V(Q) has not. Then, on a new link, every
  update ends and accepts exactly the blocks that are not behind V(Q); V(R) and V(Q) are the abstract ends modulo
  128, and V(N) holds the true status of the last 63 numbers below V(R). The three exclusions are cases where
  the code goes wrong: see \<open>full_window_skips_block\<close> for the block 63 ahead, \<open>repeat_across_wrap_accepted\<close>, and \<open>wrapped_clear\<close>.
\<close>

theorem window_refines_receiver:
  assumes "arrivals_ok ns receiver_new"
  shows "\<exists>w. update_all (map (\<lambda>n. int n mod 128) ns) (RcvWindow_new ACKNOWLEDGED_RLC_MODE) =
       Some (accepted_of ns receiver_new, w) \<and>
     (let x = fold receive ns receiver_new in
        rw_vQ w = int (rx_Q x) mod 128 \<and> rw_vR w = int (rx_R x) mod 128 \<and>
        (\<forall>m < rx_R x. rx_R x \<le> m + 63 \<longrightarrow> (rw_vN w ! (m mod 128) = RECEIVED \<longleftrightarrow> m \<in> rx_S x)))"
proof -
  obtain w where "update_all (map (\<lambda>n. int n mod 128) ns) (RcvWindow_new ACKNOWLEDGED_RLC_MODE) =
       Some (accepted_of ns receiver_new, w)" "sim (fold receive ns receiver_new) w"
    using update_all_sim [OF sim_new assms] by blast
  then show ?thesis by (intro exI [of _ w]) (simp add: sim_def)
qed

theorem window_refines_receiver_witness:
  "\<exists>w. update_all [0, 3, 1, 0, 2, 3, 5] (RcvWindow_new ACKNOWLEDGED_RLC_MODE) =
       Some ([True, True, True, False, True, False, True], w) \<and> rw_vQ w = 4 \<and> rw_vR w = 6"
proof -
  let ?ns = "[0, 3, 1, 0, 2, 3, 5] :: nat list"
  note d = receive_def receiver_new_def first_missing.simps
  have "rx_Q (fold receive ?ns receiver_new) = 4" "rx_R (fold receive ?ns receiver_new) = 6"
    "accepted_of ?ns receiver_new = [True, True, True, False, True, False, True]"
    by (simp_all add: d)
  moreover have "arrivals_ok ?ns receiver_new"
    by (simp add: arrival_ok_def repeat_ok_def d)
  moreover have "map (\<lambda>n. int n mod 128) ?ns = [0, 3, 1, 0, 2, 3, 5]" by simp
  ultimately show ?thesis
    using window_refines_receiver [of ?ns] unfolding Let_def by (simp only: of_nat_numeral) auto
qed

text \<open>
  In-order reception never stalls. However many blocks arrive in order, over any number of
  wraps of the sequence number, each is accepted and afterwards V(Q) = V(R) = the number of blocks
  modulo 128.
\<close>

theorem in_order_reception:
  "\<exists>w. update_all (map (\<lambda>n. int n mod 128) [0..<N]) (RcvWindow_new ACKNOWLEDGED_RLC_MODE) =
       Some (replicate N True, w) \<and> rw_vQ w = int N mod 128 \<and> rw_vR w = int N mod 128"
proof -
  have "arrivals_ok [0..<N] receiver_new" by (rule arrivals_ok_upt)
  then obtain w where "update_all (map (\<lambda>n. int n mod 128) [0..<N]) (RcvWindow_new ACKNOWLEDGED_RLC_MODE) =
       Some (accepted_of [0..<N] receiver_new, w)" "sim (fold receive [0..<N] receiver_new) w"
    using update_all_sim [OF sim_new, of "[0..<N]"] by blast
  then show ?thesis by (intro exI [of _ w]) (simp add: accepted_of_upt fold_receive_upt sim_def)
qed

text \<open>
  The window test as coded. A BSN is rejected exactly when it lies 1 to 64 below V(Q) without
  wrapping. So all 64 numbers of the documented window [V(Q), V(Q)+64) modulo 128 are accepted, but
  so are numbers outside it: every BSN from V(Q)+64 up to 127.
\<close>

theorem window_test_exact:
  assumes "0 \<le> vQ" "vQ < 128" "0 \<le> bsn" "bsn < 128"
  shows "(in_window vQ bsn \<longleftrightarrow> \<not> (bsn < vQ \<and> vQ \<le> bsn + 64)) \<and>
     (\<forall>d. 0 \<le> d \<and> d < 64 \<longrightarrow> in_window vQ ((vQ + d) mod 128)) \<and>
     (vQ + 64 \<le> bsn \<longrightarrow> in_window vQ bsn)"
proof -
  have exact: "in_window vQ b \<longleftrightarrow> \<not> (b < vQ \<and> vQ \<le> b + 64)" if "0 \<le> b" "b < 128" for b
    using that assms(1,2) by (auto simp: in_window_def Let_def)
  have "in_window vQ ((vQ + d) mod 128)" if "0 \<le> d" "d < 64" for d
  proof (cases "vQ + d < 128")
    case True
    then show ?thesis using exact [of "vQ + d"] that assms by simp
  next
    case False
    have "(vQ + d - 128 + 128) mod 128 = (vQ + d - 128) mod 128" by (rule mod_add_self2)
    moreover have "(vQ + d - 128) mod 128 = vQ + d - 128"
      by (rule mod_pos_pos_trivial) (use False that assms(2) in simp_all)
    ultimately have "(vQ + d) mod 128 = vQ + d - 128" by simp
    then show ?thesis using exact [of "vQ + d - 128"] False that assms(2) by simp
  qed
  then show ?thesis using exact [OF assms(3,4)] assms by auto
qed

theorem window_test_exact_witness:
  "in_window 10 100 \<and> \<not> in_window 10 9 \<and> in_window 100 ((100 + 63) mod 128)"
  using window_test_exact [of 10 100, THEN conjunct1] window_test_exact [of 10 9, THEN conjunct1]
    window_test_exact [of 100 0, THEN conjunct2, THEN conjunct1, rule_format, of 63] by simp

text \<open>
  A repetition across the wrap. When V(Q) has wrapped and the block sent once more has not, its number is far above
  V(Q) and it is accepted as a new block.
\<close>

lemma repeat_across_wrap_accepted:
  assumes "sim x w" "n < rx_Q x" "rx_Q x \<le> n + 64" "n div 128 \<noteq> rx_Q x div 128"
  shows "in_window (rw_vQ w) (int n mod 128)"
proof -
  have "rx_Q x = 128 * (rx_Q x div 128) + rx_Q x mod 128" "n = 128 * (n div 128) + n mod 128" by simp_all
  moreover have "n div 128 \<le> rx_Q x div 128" using assms(2) by (intro div_le_mono) simp
  ultimately have "rx_Q x mod 128 \<le> n mod 128" using assms(2-4) mod_less_divisor [of 128 n] by linarith
  moreover have "rw_vQ w = int (rx_Q x mod 128)" "int n mod 128 = int (n mod 128)"
    using assms(1) by (simp_all add: sim_def of_nat_mod)
  ultimately show ?thesis by (simp only: in_window_def Let_def) simp
qed

text \<open>
  The block 63 ahead of V(Q). Of the blocks 0 to 73, block 10 is lost at first; the update for block 73 clears the
  entry of block 10, one too far, before block 10 arrives, and no later update clears it. So block 138, which has
  the same entry, counts as received when V(Q) comes to it, although it never arrived.
\<close>

lemma full_window_skips_block:
  fixes ns :: "nat list"
  defines "ns \<equiv> [0..<10] @ [11..<74] @ [10] @ [74..<137] @ [139, 137]"
  shows "138 \<notin> set ns \<and> rx_Q (fold receive ns receiver_new) = 138 \<and>
     map_option (\<lambda>(oks, w). (oks = replicate (length ns) True, rw_vQ w)) (update_all (map (\<lambda>n. int n mod 128) ns) (RcvWindow_new ACKNOWLEDGED_RLC_MODE)) =
       Some (True, 140 mod 128)"
  unfolding ns_def by code_simp

text \<open>
  The received block bitmap. In every state that simulates an abstract receiver, bit \<open>d\<close> before
  the starting sequence number V(R) (octets from the last, bits from the least significant) is set
  exactly when block V(R)-1-d was received, for \<open>d\<close> below 63; the 64th bit, for the block V(R)-64, is
  never set although that block was received.
\<close>

theorem bitmap_reports_received:
  assumes "sim x w" "d < 64"
  shows "bit (build_rrb w ! (7 - d div 8)) (d mod 8) \<longleftrightarrow> d < 63 \<and> d < rx_R x \<and> rx_R x - 1 - d \<in> rx_S x"
proof -
  let ?r = "rx_R x"
  have vR: "rw_vR w = int ?r mod 128" using assms(1) by (simp add: sim_def)
  then have b: "bit (build_rrb w ! (7 - d div 8)) (d mod 8) \<longleftrightarrow> rw_vN w ! nat ((rw_vR w - 1 - int d) mod 128) = RECEIVED"
    using build_rrb_bit [of w d] assms(2) pos_mod_bound [of 128 "int ?r"] by simp
  have "(int ?r mod 128 - (1 + int d)) mod 128 = (int ?r - (1 + int d)) mod 128" by (rule mod_diff_left_eq)
  then have "(rw_vR w - 1 - int d) mod 128 = (int ?r - 1 - int d) mod 128" unfolding vR by (simp only: diff_diff_eq)
  also have "\<dots> = (int ?r - 1 - int d + 128) mod 128" by (simp only: mod_add_self2)
  also have "int ?r - 1 - int d + 128 = int (?r + 127 - d)" using assms(2) by simp
  finally have idx: "nat ((rw_vR w - 1 - int d) mod 128) = (?r + 127 - d) mod 128"
    by (simp add: nat_mod_distrib)
  show ?thesis
  proof (cases "d < ?r \<and> d < 63")
    case True
    then have "?r + 127 - d = (?r - 1 - d) + 128" by simp
    then have "(?r + 127 - d) mod 128 = (?r - 1 - d) mod 128" by (simp only: mod_add_self2)
    moreover have "rw_vN w ! ((?r - 1 - d) mod 128) = RECEIVED \<longleftrightarrow> ?r - 1 - d \<in> rx_S x"
    proof -
      have "\<forall>m < ?r. ?r \<le> m + 63 \<longrightarrow> (rw_vN w ! (m mod 128) = RECEIVED \<longleftrightarrow> m \<in> rx_S x)"
        using assms(1) unfolding sim_def by blast
      moreover have "?r - 1 - d < ?r" using True by linarith
      moreover have "?r \<le> ?r - 1 - d + 63" using True by linarith
      ultimately show ?thesis by blast
    qed
    ultimately show ?thesis unfolding b idx using True by simp
  next
    case False
    have "?r \<le> ?r + 127 - d \<and> (?r + 127 - d \<le> ?r + 64 \<or> ?r + 127 - d < 128)" using False assms(2) by auto
    then have "rw_vN w ! ((?r + 127 - d) mod 128) = INVALID" using assms(1) unfolding sim_def by blast
    then show ?thesis unfolding b idx using False by auto
  qed
qed

theorem bitmap_reports_received_witness:
  "\<exists>w :: RcvWindow. sim (receive 2 (receive 0 receiver_new)) w \<and>
     bit (build_rrb w ! 7) 0 \<and> \<not> bit (build_rrb w ! 7) 1 \<and> bit (build_rrb w ! 7) 2"
proof -
  have "arrivals_ok [0, 2] receiver_new"
    by (simp add: arrival_ok_def receive_def receiver_new_def first_missing.simps)
  from update_all_sim [OF sim_new this] obtain w :: RcvWindow where "sim (fold receive [0, 2] receiver_new) w" by blast
  then have w: "sim (receive 2 (receive 0 receiver_new)) w" by simp
  then show ?thesis
    using bitmap_reports_received [OF w, of 0] bitmap_reports_received [OF w, of 1]
      bitmap_reports_received [OF w, of 2]
    by (intro exI [of _ w]) (simp add: receive_def receiver_new_def Let_def first_missing.simps)
qed

text \<open>
  C40: the case the refinement leaves out. When V(R) has wrapped past 127 and V(Q) has not, a
  block that fills a hole is accepted but moves V(R) back to just after it and marks every other
  block of the window as not received, so all of them have to be sent again.
\<close>

theorem wrapped_hole_forgets_window:
  assumes "sim x w" "rx_Q x \<le> n" "n + 1 < rx_R x" "rx_Q x div 128 \<noteq> rx_R x div 128"
  shows "\<exists>w'. UpdateRcvStateVariables (int n mod 128) w = Some (True, w') \<and>
     rw_vR w' = int (n + 1) mod 128 \<and> rw_vR w' \<noteq> rw_vR w \<and>
     (\<forall>m. rx_Q x \<le> m \<and> m < rx_R x \<and> m \<noteq> n \<longrightarrow> rw_vN w' ! (m mod 128) = INVALID)"
proof -
  have "int (n + 1) mod 128 \<noteq> rw_vR w"
  proof -
    have "rx_R x - (n + 1) < 128" "0 < rx_R x - (n + 1)" "n + 1 + (rx_R x - (n + 1)) = rx_R x"
      "rw_vR w = int (rx_R x) mod 128" using assms by (auto simp: sim_def)
    then show ?thesis using int_mod_ne [of "rx_R x - (n + 1)" "n + 1"] by (simp only:) blast
  qed
  then show ?thesis using wrapped_clear [OF assms] by metis
qed

theorem wrapped_hole_forgets_window_witness:
  "\<exists>(w :: RcvWindow) w'. rw_vQ w = 120 \<and> rw_vR w = 2 \<and> rw_vN w ! 1 = RECEIVED \<and>
     UpdateRcvStateVariables 121 w = Some (True, w') \<and> rw_vR w' = 122 \<and> rw_vN w' ! 1 = INVALID"
proof -
  let ?x = "receive 129 (fold receive [0..<120] receiver_new)"
  have x: "rx_Q ?x = 120" "rx_R ?x = 130" "129 \<in> rx_S ?x"
    by (simp_all add: fold_receive_upt receive_def Let_def first_missing.simps)
  have "arrivals_ok ([0..<120] @ [129]) receiver_new"
    unfolding arrivals_ok_append by (simp add: arrivals_ok_upt fold_receive_upt arrival_ok_def del: upt_rec_numeral)
  from update_all_sim [OF sim_new this] obtain w :: RcvWindow where
    "sim (fold receive ([0..<120] @ [129]) receiver_new) w" by blast
  moreover have "fold receive ([0..<120] @ [129]) receiver_new = ?x" by (simp del: upt_rec_numeral)
  ultimately have w: "sim ?x w" by (simp only:)
  obtain w' where w': "UpdateRcvStateVariables (int 121 mod 128) w = Some (True, w')" "rw_vR w' = int (121 + 1) mod 128"
    "\<forall>m. rx_Q ?x \<le> m \<and> m < rx_R ?x \<and> m \<noteq> 121 \<longrightarrow> rw_vN w' ! (m mod 128) = INVALID"
    using wrapped_hole_forgets_window [OF w, of 121] x(1,2) by auto
  have "rw_vN w' ! (129 mod 128) = INVALID" using w'(3) [rule_format, of 129] unfolding x(1,2) by simp
  moreover have "rw_vN w ! (129 mod 128) = RECEIVED"
  proof -
    have "\<forall>m < rx_R ?x. rx_R ?x \<le> m + 63 \<longrightarrow> (rw_vN w ! (m mod 128) = RECEIVED \<longleftrightarrow> m \<in> rx_S ?x)"
      using w unfolding sim_def by blast
    from this [rule_format, of 129] show ?thesis using x by simp
  qed
  moreover have "rw_vQ w = 120" "rw_vR w = 2" using w x by (simp_all add: sim_def)
  ultimately show ?thesis using w'(1,2) by (intro exI [of _ w] exI [of _ w']) simp
qed

end
