(* ===== verification/DataBlockPool.thy ===== *)
theory DataBlockPool
  imports AckNackIe
begin

text \<open>
  The pools of RLC data blocks, from \<^verbatim>\<open>Rlc_mac/src/ULDataBlockPool.cpp\<close> and
  \<^verbatim>\<open>DLDataBlockPool.cpp\<close> with their headers: singly linked free lists threaded through the blocks
  themselves.  A pointer is the number of a block, \<open>None\<close> the null pointer; the store maps every
  block to its content and to its \<open>next\<close> pointer, so that a block that two owners share, or that is
  returned twice, is one block here too.  The two classes differ only in the block and in the header
  that is reset when a block comes back.
\<close>

section \<open>The blocks\<close>

type_synonym addr = nat

record ULDataBlock =
  ub_streamIn :: BitStreamIn
  ub_ulHeader :: ULMacHeader
  ub_chanCoding :: IeChannelCodingCommand

definition GetDataBlockLength :: "ULDataBlock \<Rightarrow> nat" where
  "GetDataBlockLength b = GetRLCDataBlockSize (cc_coding (ub_chanCoding b))"

record DLDataBlock =
  db_streamOut :: "octet list"
  db_streamOutLen :: nat
  db_dlHeader :: DLMacHeader
  db_dlHeaderLen :: nat
  db_chanCoding :: IeChannelCodingCommand

section \<open>The pool\<close>

record 'b BlockPool =
  bp_head :: "addr option"
  bp_tail :: "addr option"
  bp_next :: "addr \<Rightarrow> addr option"
  bp_block :: "addr \<Rightarrow> 'b"

text \<open>
  Appending a block, the same statements in the constructor and in \<open>ReturnXXDataBlock\<close>.
  \<open>None\<close>: \<open>tail->next\<close> through a null \<open>tail\<close>.
\<close>

definition append_block :: "addr \<Rightarrow> 'b BlockPool \<Rightarrow> 'b BlockPool option" where
  "append_block p q =
     (if bp_head q \<noteq> bp_tail q \<or> bp_head q = bp_tail q \<and> bp_head q \<noteq> None then
        (case bp_tail q of
           None \<Rightarrow> None
         | Some t \<Rightarrow> Some (q\<lparr>bp_next := (bp_next q)(t := Some p, p := None), bp_tail := Some p\<rparr>))
      else Some (q\<lparr>bp_head := Some p, bp_tail := Some p, bp_next := (bp_next q)(p := None)\<rparr>))"

definition GetDataBlock :: "'b BlockPool \<Rightarrow> (addr option \<times> 'b BlockPool) option" where
  "GetDataBlock q =
     (if bp_head q \<noteq> bp_tail q then
        (case bp_head q of
           None \<Rightarrow> None
         | Some h \<Rightarrow> Some (Some h, q\<lparr>bp_head := bp_next q h\<rparr>))
      else Some (bp_head q, q\<lparr>bp_head := None, bp_tail := None\<rparr>))"

definition reset_block :: "('b \<Rightarrow> 'b) \<Rightarrow> addr \<Rightarrow> 'b BlockPool \<Rightarrow> 'b BlockPool" where
  "reset_block reset p q = q\<lparr>bp_block := (bp_block q)(p := reset (bp_block q p))\<rparr>"

definition ReturnULDataBlock :: "addr \<Rightarrow> ULDataBlock BlockPool \<Rightarrow> ULDataBlock BlockPool option" where
  "ReturnULDataBlock p q =
     map_option (reset_block (\<lambda>b. b\<lparr>ub_ulHeader := ul_ResetCurrLengthOctet (ub_ulHeader b)\<rparr>) p) (append_block p q)"

definition ReturnDLDataBlock :: "addr \<Rightarrow> DLDataBlock BlockPool \<Rightarrow> DLDataBlock BlockPool option" where
  "ReturnDLDataBlock p q =
     map_option (reset_block (\<lambda>b. b\<lparr>db_dlHeader := dl_ResetCurrLengthOctet (db_dlHeader b)\<rparr>) p) (append_block p q)"

text \<open>
  The constructor: blocks 0, 1, ... as \<open>new\<close> creates them (\<open>blk\<close>), appended one after the other.
  The source allocates \<open>MAX_TFI * MAX_TRX * MAX_RL_BLOCKS_PER_PDU\<close> blocks.
\<close>

abbreviation (input) POOL_SIZE :: nat where "POOL_SIZE \<equiv> MAX_TFI * MAX_TRX * 100"

fun append_upto :: "nat \<Rightarrow> 'b BlockPool \<Rightarrow> 'b BlockPool option" where
  "append_upto 0 q = Some q"
| "append_upto (Suc n) q = (case append_upto n q of None \<Rightarrow> None | Some q' \<Rightarrow> append_block n q')"

definition BlockPool_new :: "nat \<Rightarrow> (addr \<Rightarrow> 'b) \<Rightarrow> 'b BlockPool option" where
  "BlockPool_new n blk = append_upto n \<lparr>bp_head = None, bp_tail = None, bp_next = (\<lambda>_. None), bp_block = blk\<rparr>"

text \<open>The destructor, with the blocks it deletes; the loop looks at \<open>head->next\<close> without a test of \<open>head\<close>.\<close>

partial_function (option) destroy_loop ::
  "(addr \<Rightarrow> addr option) \<Rightarrow> addr option \<Rightarrow> addr list \<Rightarrow> (addr list \<times> addr option) option" where
  "destroy_loop nx h freed =
     (case h of
        None \<Rightarrow> None
      | Some p \<Rightarrow> (case nx p of None \<Rightarrow> Some (freed, h) | Some p' \<Rightarrow> destroy_loop nx (Some p') (freed @ [p])))"

declare destroy_loop.simps [code]

definition BlockPool_destroy :: "'b BlockPool \<Rightarrow> (addr list \<times> addr option) option" where
  "BlockPool_destroy q = destroy_loop (bp_next q) (bp_head q) []"

section \<open>The list a pool stands for\<close>

primrec chain :: "(addr \<Rightarrow> addr option) \<Rightarrow> addr option \<Rightarrow> addr list \<Rightarrow> bool" where
  "chain nx p [] \<longleftrightarrow> p = None"
| "chain nx p (x # xs) \<longleftrightarrow> p = Some x \<and> chain nx (nx x) xs"

definition pool_holds :: "'b BlockPool \<Rightarrow> addr list \<Rightarrow> bool" where
  "pool_holds q xs \<longleftrightarrow> chain (bp_next q) (bp_head q) xs \<and> distinct xs \<and>
     bp_tail q = (if xs = [] then None else Some (last xs))"

lemma chain_cong: "(\<And>x. x \<in> set xs \<Longrightarrow> nx' x = nx x) \<Longrightarrow> chain nx' p xs = chain nx p xs"
  by (induction xs arbitrary: p) auto

text \<open>Cutting a list after one of its blocks: what \<open>append_block\<close> does to the \<open>next\<close> pointers.\<close>

lemma chain_cut:
  "chain nx p (as @ x # bs) \<Longrightarrow> distinct (as @ x # bs) \<Longrightarrow> t \<notin> set as \<Longrightarrow>
   chain (nx(t := v, x := None)) p (as @ [x])"
  by (induction as arbitrary: p) auto

lemma chain_link:
  "chain nx p (xs @ [t]) \<Longrightarrow> distinct (xs @ [t]) \<Longrightarrow> x \<notin> set (xs @ [t]) \<Longrightarrow>
   chain (nx(t := Some x, x := None)) p (xs @ [t, x])"
  by (induction xs arbitrary: p) auto

lemma chain_head: "chain nx p xs \<Longrightarrow> p = (case xs of [] \<Rightarrow> None | x # _ \<Rightarrow> Some x)"
  by (cases xs) auto

lemma pool_holds_unique: "pool_holds q xs \<Longrightarrow> pool_holds q ys \<Longrightarrow> xs = ys"
proof -
  have "chain nx p xs \<Longrightarrow> chain nx p ys \<Longrightarrow> xs = ys" for nx p
  proof (induction xs arbitrary: p ys)
    case Nil then show ?case by (cases ys) auto
  next
    case (Cons x xs) then show ?case by (cases ys) auto
  qed
  then show "pool_holds q xs \<Longrightarrow> pool_holds q ys \<Longrightarrow> xs = ys" by (auto simp: pool_holds_def)
qed

section \<open>Operations on the list\<close>

lemma append_block_fresh:
  assumes "pool_holds q xs" "p \<notin> set xs"
  shows "\<exists>q'. append_block p q = Some q' \<and> pool_holds q' (xs @ [p]) \<and> bp_block q' = bp_block q"
proof (cases xs rule: rev_cases)
  case Nil
  then show ?thesis using assms by (auto simp: pool_holds_def append_block_def)
next
  case (snoc ys t)
  then have "bp_tail q = Some t" "bp_head q \<noteq> None" using assms by (cases ys; auto simp: pool_holds_def)+
  then show ?thesis using assms snoc chain_link [of "bp_next q" "bp_head q" ys t p]
    by (auto simp: pool_holds_def append_block_def)
qed

lemma append_block_again:
  assumes "pool_holds q (as @ p # bs)"
  shows "\<exists>q'. append_block p q = Some q' \<and> pool_holds q' (as @ [p]) \<and> bp_block q' = bp_block q"
proof -
  let ?t = "last (p # bs)"
  have "bp_tail q = Some ?t" "bp_head q \<noteq> None" using assms by (cases as; auto simp: pool_holds_def)+
  moreover have "?t \<notin> set as" using assms last_in_set [of "p # bs"] by (auto simp: pool_holds_def)
  ultimately show ?thesis using assms chain_cut [of "bp_next q" "bp_head q" as p bs ?t "Some p"]
    by (auto simp: pool_holds_def append_block_def)
qed

lemma GetDataBlock_empty: "pool_holds q [] \<Longrightarrow> \<exists>q'. GetDataBlock q = Some (None, q') \<and> pool_holds q' []"
  by (auto simp: pool_holds_def GetDataBlock_def)

lemma GetDataBlock_Cons:
  "pool_holds q (x # xs) \<Longrightarrow>
     \<exists>q'. GetDataBlock q = Some (Some x, q') \<and> pool_holds q' xs \<and> bp_block q' = bp_block q"
  by (cases xs rule: rev_cases) (auto simp: pool_holds_def GetDataBlock_def)



lemma append_upto_holds:
  "pool_holds q [] \<Longrightarrow> \<exists>q'. append_upto n q = Some q' \<and> pool_holds q' [0..<n] \<and> bp_block q' = bp_block q"
proof (induction n)
  case (Suc n)
  then obtain q' where "append_upto n q = Some q'" "pool_holds q' [0..<n]" "bp_block q' = bp_block q" by auto
  then show ?case using append_block_fresh [of q' "[0..<n]" n] by auto
qed auto

lemma BlockPool_new_holds:
  "\<exists>q. BlockPool_new n blk = Some q \<and> pool_holds q [0..<n] \<and> bp_block q = blk"
  unfolding BlockPool_new_def using append_upto_holds [of "\<lparr>bp_head = None, bp_tail = None, bp_next = (\<lambda>_. None), bp_block = blk\<rparr>" n]
  by (auto simp: pool_holds_def)

lemma pool_holds_reset [simp]: "pool_holds (reset_block f p q) xs = pool_holds q xs"
  by (simp add: pool_holds_def reset_block_def)

lemma ReturnULDataBlock_fresh:
  "pool_holds q xs \<Longrightarrow> p \<notin> set xs \<Longrightarrow> \<exists>q'. ReturnULDataBlock p q = Some q' \<and> pool_holds q' (xs @ [p])"
  using append_block_fresh [of q xs p] by (auto simp: ReturnULDataBlock_def)

lemma ReturnDLDataBlock_fresh:
  "pool_holds q xs \<Longrightarrow> p \<notin> set xs \<Longrightarrow> \<exists>q'. ReturnDLDataBlock p q = Some q' \<and> pool_holds q' (xs @ [p])"
  using append_block_fresh [of q xs p] by (auto simp: ReturnDLDataBlock_def)

lemma destroy_loop_last:
  "chain nx h (xs @ [x]) \<Longrightarrow> destroy_loop nx h freed = Some (freed @ xs, Some x)"
proof (induction xs arbitrary: h freed)
  case (Cons y xs)
  then obtain z where "nx y = Some z" by (cases xs) auto
  then show ?case using Cons.prems Cons.IH [of "nx y" "freed @ [y]"] by (simp add: destroy_loop.simps [of nx "Some y"])
qed (simp add: destroy_loop.simps)

text \<open>The destructor leaves the last block of a pool alone, and dereferences null on an empty pool.\<close>

lemma BlockPool_destroy_holds:
  "pool_holds q xs \<Longrightarrow>
     BlockPool_destroy q = (if xs = [] then None else Some (butlast xs, Some (last xs)))"
  using destroy_loop_last [of "bp_next q" "bp_head q" "butlast xs" "last xs" "[]"]
  by (auto simp: BlockPool_destroy_def pool_holds_def destroy_loop.simps)

section \<open>The contract of the pools\<close>

text \<open>
  What the RLC links rely on: a first-in first-out supply of blocks, each handed to one owner.  A
  client's calls are a list of \<open>Take\<close> and \<open>Give p\<close>; the contract covers the clients that give back
  only blocks that are not in the pool.
\<close>

datatype pool_call = Take | Give addr

fun queue_run :: "pool_call list \<Rightarrow> addr list \<Rightarrow> addr option list \<times> addr list" where
  "queue_run [] xs = ([], xs)"
| "queue_run (Take # cs) xs =
     (let (outs, ys) = queue_run cs (drop 1 xs)
      in ((case xs of [] \<Rightarrow> None | x # _ \<Rightarrow> Some x) # outs, ys))"
| "queue_run (Give p # cs) xs = queue_run cs (xs @ [p])"

fun calls_ok :: "pool_call list \<Rightarrow> addr list \<Rightarrow> bool" where
  "calls_ok [] xs \<longleftrightarrow> True"
| "calls_ok (Take # cs) xs \<longleftrightarrow> calls_ok cs (drop 1 xs)"
| "calls_ok (Give p # cs) xs \<longleftrightarrow> p \<notin> set xs \<and> calls_ok cs (xs @ [p])"

fun pool_run ::
  "('s \<Rightarrow> (addr option \<times> 's) option) \<Rightarrow> (addr \<Rightarrow> 's \<Rightarrow> 's option) \<Rightarrow> pool_call list \<Rightarrow> 's \<Rightarrow>
     (addr option list \<times> 's) option" where
  "pool_run get put [] s = Some ([], s)"
| "pool_run get put (Take # cs) s =
     (case get s of
        None \<Rightarrow> None
      | Some (x, s') \<Rightarrow> map_option (\<lambda>(outs, t). (x # outs, t)) (pool_run get put cs s'))"
| "pool_run get put (Give p # cs) s =
     (case put p s of None \<Rightarrow> None | Some s' \<Rightarrow> pool_run get put cs s')"

text \<open>
  \<open>owned_in holds S blks s\<close>: the blocks of \<open>S\<close> are spread without overlap over the supply \<open>s\<close> and the
  table \<open>blks\<close> of a link, each in one place.
\<close>

definition owned_in :: "('s \<Rightarrow> addr list \<Rightarrow> bool) \<Rightarrow> addr set \<Rightarrow> addr option list \<Rightarrow> 's \<Rightarrow> bool" where
  "owned_in holds S blks q \<longleftrightarrow> (\<exists>xs. holds q xs \<and> length blks = RLC_MOD_VAL \<and>
     (\<forall>i < RLC_MOD_VAL. \<forall>p. blks ! i = Some p \<longrightarrow> p \<notin> set xs) \<and>
     (\<forall>i < RLC_MOD_VAL. \<forall>j < RLC_MOD_VAL. \<forall>p. blks ! i = Some p \<longrightarrow> blks ! j = Some p \<longrightarrow> i = j) \<and>
     S = set xs \<union> {p. \<exists>i < RLC_MOD_VAL. blks ! i = Some p})"

abbreviation owned :: "addr set \<Rightarrow> addr option list \<Rightarrow> 'b BlockPool \<Rightarrow> bool" where
  "owned \<equiv> owned_in pool_holds"

lemmas owned_def = owned_in_def [where holds = pool_holds]

locale block_supply =
  fixes get :: "'s \<Rightarrow> (addr option \<times> 's) option"
    and put :: "addr \<Rightarrow> 's \<Rightarrow> 's option"
    and holds :: "'s \<Rightarrow> addr list \<Rightarrow> bool"
  assumes get_empty: "holds s [] \<Longrightarrow> \<exists>s'. get s = Some (None, s') \<and> holds s' []"
    and get_first: "holds s (x # xs) \<Longrightarrow> \<exists>s'. get s = Some (Some x, s') \<and> holds s' xs"
    and put_last: "holds s xs \<Longrightarrow> p \<notin> set xs \<Longrightarrow> \<exists>s'. put p s = Some s' \<and> holds s' (xs @ [p])"
    and holds_distinct: "holds s xs \<Longrightarrow> distinct xs"
begin

lemma run_refines_queue:
  "holds s xs \<Longrightarrow> calls_ok cs xs \<Longrightarrow>
     \<exists>s'. pool_run get put cs s = Some (fst (queue_run cs xs), s') \<and> holds s' (snd (queue_run cs xs))"
proof (induction cs arbitrary: s xs)
  case (Cons c cs)
  show ?case
  proof (cases c)
    case Take
    obtain s' where s': "get s = Some ((case xs of [] \<Rightarrow> None | x # _ \<Rightarrow> Some x), s')" "holds s' (drop 1 xs)"
      using Cons.prems(1) get_empty [of s] get_first [of s "List.hd xs" "tl xs"] by (cases xs) auto
    then show ?thesis using Cons.IH [of s' "drop 1 xs"] Cons.prems(2) Take by (auto simp: split_beta)
  next
    case (Give p)
    then obtain s' where "put p s = Some s'" "holds s' (xs @ [p])"
      using Cons.prems put_last [of s xs p] by auto
    then show ?thesis using Cons.IH [of s' "xs @ [p]"] Cons.prems(2) Give by auto
  qed
qed simp

lemma take_all:
  "holds s xs \<Longrightarrow> \<exists>s'. pool_run get put (replicate (length xs) Take) s = Some (map Some xs, s') \<and> holds s' []"
proof -
  assume "holds s xs"
  moreover have "calls_ok (replicate n Take) xs" for n by (induction n arbitrary: xs) auto
  moreover have "queue_run (replicate (length xs) Take) xs = (map Some xs, [])" by (induction xs) auto
  ultimately show ?thesis using run_refines_queue [of s xs "replicate (length xs) Take"] by simp
qed

lemma owned_return_slot:
  assumes "owned_in holds S blks q" "blks ! i = Some p" "i < RLC_MOD_VAL"
  shows "\<exists>q'. put p q = Some q' \<and> owned_in holds S (blks[i := None]) q'"
proof -
  obtain xs where xs: "holds q xs" "length blks = RLC_MOD_VAL"
    "\<forall>i < RLC_MOD_VAL. \<forall>p. blks ! i = Some p \<longrightarrow> p \<notin> set xs"
    "\<forall>i < RLC_MOD_VAL. \<forall>j < RLC_MOD_VAL. \<forall>p. blks ! i = Some p \<longrightarrow> blks ! j = Some p \<longrightarrow> i = j"
    "S = set xs \<union> {p. \<exists>i < RLC_MOD_VAL. blks ! i = Some p}"
    using assms(1) by (auto simp: owned_in_def)
  have p: "p \<notin> set xs" using xs(3) assms(2,3) by blast
  then obtain q' where q': "put p q = Some q'" "holds q' (xs @ [p])"
    using put_last xs(1) by blast
  have upd: "blks[i := None] ! j = Some r \<longleftrightarrow> j \<noteq> i \<and> blks ! j = Some r" if "j < RLC_MOD_VAL" for j r
    using that xs(2) assms(3) by (simp add: nth_list_update)
  have "{r. \<exists>j < RLC_MOD_VAL. blks ! j = Some r} = insert p {r. \<exists>j < RLC_MOD_VAL. blks[i := None] ! j = Some r}"
    using upd assms(2,3) by (auto, metis option.inject)
  moreover have "\<forall>j < RLC_MOD_VAL. \<forall>r. blks[i := None] ! j = Some r \<longrightarrow> r \<notin> set (xs @ [p])"
    using upd xs(3,4) assms(2,3) by auto
  moreover have "\<forall>j < RLC_MOD_VAL. \<forall>k < RLC_MOD_VAL. \<forall>r. blks[i := None] ! j = Some r \<longrightarrow>
      blks[i := None] ! k = Some r \<longrightarrow> j = k"
    using upd xs(4) by blast
  ultimately have "owned_in holds S (blks[i := None]) q'"
    unfolding owned_in_def using q'(2) xs(2,5) by (intro exI [of _ "xs @ [p]"]) auto
  then show ?thesis using q'(1) by blast
qed

lemma owned_return_new:
  assumes "owned_in holds S blks q" "p \<notin> S"
  shows "\<exists>q'. put p q = Some q' \<and> owned_in holds (insert p S) blks q'"
proof -
  obtain xs where xs: "holds q xs" "length blks = RLC_MOD_VAL"
    "\<forall>i < RLC_MOD_VAL. \<forall>p. blks ! i = Some p \<longrightarrow> p \<notin> set xs"
    "\<forall>i < RLC_MOD_VAL. \<forall>j < RLC_MOD_VAL. \<forall>p. blks ! i = Some p \<longrightarrow> blks ! j = Some p \<longrightarrow> i = j"
    "S = set xs \<union> {p. \<exists>i < RLC_MOD_VAL. blks ! i = Some p}"
    using assms(1) by (auto simp: owned_in_def)
  then obtain q' where q': "put p q = Some q'" "holds q' (xs @ [p])"
    using put_last [of q xs p] assms(2) by blast
  have "\<forall>i < RLC_MOD_VAL. \<forall>r. blks ! i = Some r \<longrightarrow> r \<notin> set (xs @ [p])" using xs(3,5) assms(2) by auto
  then have "owned_in holds (insert p S) blks q'"
    unfolding owned_in_def using q'(2) xs(2,4,5) by (intro exI [of _ "xs @ [p]"]) auto
  then show ?thesis using q'(1) by blast
qed

lemma owned_keep:
  assumes "owned_in holds S blks q" "p \<notin> S" "i < RLC_MOD_VAL" "blks ! i = None"
  shows "owned_in holds (insert p S) (blks[i := Some p]) q"
proof -
  obtain xs where xs: "holds q xs" "length blks = RLC_MOD_VAL"
    "\<forall>i < RLC_MOD_VAL. \<forall>p. blks ! i = Some p \<longrightarrow> p \<notin> set xs"
    "\<forall>i < RLC_MOD_VAL. \<forall>j < RLC_MOD_VAL. \<forall>p. blks ! i = Some p \<longrightarrow> blks ! j = Some p \<longrightarrow> i = j"
    "S = set xs \<union> {p. \<exists>i < RLC_MOD_VAL. blks ! i = Some p}"
    using assms(1) by (auto simp: owned_in_def)
  have upd: "blks[i := Some p] ! j = Some r \<longleftrightarrow> (if j = i then r = p else blks ! j = Some r)"
    if "j < RLC_MOD_VAL" for j r
    using that xs(2) assms(3) by (auto simp: nth_list_update)
  have new: "blks ! j \<noteq> Some p" if "j < RLC_MOD_VAL" for j using that assms(2) xs(5) by blast
  have "{r. \<exists>j < RLC_MOD_VAL. blks[i := Some p] ! j = Some r} = insert p {r. \<exists>j < RLC_MOD_VAL. blks ! j = Some r}"
    using upd assms(3,4) by (auto split: if_splits) (metis option.distinct(1))
  moreover have "\<forall>j < RLC_MOD_VAL. \<forall>r. blks[i := Some p] ! j = Some r \<longrightarrow> r \<notin> set xs"
    using upd xs(3,5) assms(2) by (auto split: if_splits)
  moreover have "\<forall>j < RLC_MOD_VAL. \<forall>k < RLC_MOD_VAL. \<forall>r. blks[i := Some p] ! j = Some r \<longrightarrow>
      blks[i := Some p] ! k = Some r \<longrightarrow> j = k"
    using upd xs(4) new by (auto split: if_splits)
  ultimately show ?thesis
    unfolding owned_in_def using xs(1,2,5) by (intro exI [of _ xs]) auto
qed

lemma owned_empty_table:
  assumes "owned_in holds S blks q" "\<forall>i < RLC_MOD_VAL. blks ! i = None"
  shows "\<exists>xs. holds q xs \<and> set xs = S"
  using assms by (auto simp: owned_in_def)

lemma owned_take:
  assumes "owned_in holds S blks s"
  shows "(\<exists>s'. get s = Some (None, s') \<and> S = {p. \<exists>i < RLC_MOD_VAL. blks ! i = Some p}) \<or>
     (\<exists>p s'. get s = Some (Some p, s') \<and> p \<in> S \<and> (\<forall>i < RLC_MOD_VAL. blks ! i \<noteq> Some p) \<and>
        owned_in holds (S - {p}) blks s')"
proof -
  obtain xs where xs: "holds s xs" "length blks = RLC_MOD_VAL"
    "\<forall>i < RLC_MOD_VAL. \<forall>p. blks ! i = Some p \<longrightarrow> p \<notin> set xs"
    "\<forall>i < RLC_MOD_VAL. \<forall>j < RLC_MOD_VAL. \<forall>p. blks ! i = Some p \<longrightarrow> blks ! j = Some p \<longrightarrow> i = j"
    "S = set xs \<union> {p. \<exists>i < RLC_MOD_VAL. blks ! i = Some p}" "distinct xs"
    using assms holds_distinct by (auto simp: owned_in_def)
  show ?thesis
  proof (cases xs)
    case Nil
    then show ?thesis using xs get_empty [of s] by auto
  next
    case (Cons p ys)
    obtain s' where s': "get s = Some (Some p, s')" "holds s' ys" using get_first xs(1) Cons by blast
    have out: "\<forall>i < RLC_MOD_VAL. blks ! i \<noteq> Some p" using xs(3) Cons by auto
    then have "S - {p} = set ys \<union> {r. \<exists>i < RLC_MOD_VAL. blks ! i = Some r}" using xs(5,6) Cons by auto
    then have "owned_in holds (S - {p}) blks s'"
      unfolding owned_in_def using s'(2) xs(2-4) Cons by (intro exI [of _ ys]) auto
    moreover have "p \<in> S" using xs(5) Cons by simp
    ultimately show ?thesis using s'(1) out by blast
  qed
qed

end

interpretation ulpool: block_supply GetDataBlock ReturnULDataBlock pool_holds
  using GetDataBlock_empty GetDataBlock_Cons ReturnULDataBlock_fresh
  by unfold_locales (blast | simp add: pool_holds_def)+

interpretation dlpool: block_supply GetDataBlock ReturnDLDataBlock pool_holds
  using GetDataBlock_empty GetDataBlock_Cons ReturnDLDataBlock_fresh
  by unfold_locales (blast | simp add: pool_holds_def)+

section \<open>Properties\<close>

text \<open>
  C18: the pools refine a queue of blocks. From the constructor's pool of any size, any sequence of
  takes and returns in which only blocks outside the pool are given back runs without following a
  null pointer and hands out the blocks a first-in first-out queue hands out, null exactly when the
  queue is empty; the uplink and the downlink pool alike. A pool of \<open>N\<close> blocks can be taken empty.
\<close>

theorem pools_refine_queue:
  assumes "calls_ok cs [0..<N]"
  shows "(\<exists>q0 q. BlockPool_new N ub = Some q0 \<and>
       pool_run GetDataBlock ReturnULDataBlock cs q0 = Some (fst (queue_run cs [0..<N]), q) \<and>
       pool_holds q (snd (queue_run cs [0..<N]))) \<and>
     (\<exists>q0 q. BlockPool_new N db = Some q0 \<and>
       pool_run GetDataBlock ReturnDLDataBlock cs q0 = Some (fst (queue_run cs [0..<N]), q) \<and>
       pool_holds q (snd (queue_run cs [0..<N])))"
  using BlockPool_new_holds [of N ub] BlockPool_new_holds [of N db] assms
    ulpool.run_refines_queue dlpool.run_refines_queue by meson

theorem pools_refine_queue_witness:
  "\<forall>b. \<exists>q0 q. BlockPool_new 3 (\<lambda>_. b) = Some q0 \<and>
     pool_run GetDataBlock ReturnULDataBlock [Take, Take, Give 1, Take, Take, Take] q0 =
       Some ([Some 0, Some 1, Some 2, Some 1, None], q) \<and> pool_holds q []"
  using pools_refine_queue [of "[Take, Take, Give 1, Take, Take, Take]" 3, THEN conjunct1]
  by (simp add: upt_rec numeral_2_eq_2)

text \<open>
  Returning a block that is in the pool already. The list is cut after that block: every block
  behind it is lost to the pool, without an error. Returning the last block again changes nothing.
\<close>

theorem double_return_leaks:
  assumes "pool_holds q (as @ p # bs)"
  shows "\<exists>q'. ReturnULDataBlock p q = Some q' \<and> pool_holds q' (as @ [p])"
  using append_block_again [OF assms] by (auto simp: ReturnULDataBlock_def)

theorem double_return_leaks_witness:
  "\<forall>b. \<exists>q q'. BlockPool_new 4 (\<lambda>_. b) = Some q \<and> pool_holds q [0, 1, 2, 3] \<and>
     ReturnULDataBlock 1 q = Some q' \<and> pool_holds q' [0, 1]"
proof
  fix b :: ULDataBlock
  obtain q where q: "BlockPool_new 4 (\<lambda>_. b) = Some q" "pool_holds q ([0] @ 1 # [2, 3])"
    using BlockPool_new_holds [of 4 "\<lambda>_. b"] by (auto simp: upt_rec numeral_2_eq_2 numeral_3_eq_3)
  from double_return_leaks [OF this(2)]
  show "\<exists>q q'. BlockPool_new 4 (\<lambda>_. b) = Some q \<and> pool_holds q [0, 1, 2, 3] \<and>
     ReturnULDataBlock 1 q = Some q' \<and> pool_holds q' [0, 1]"
    using q by auto
qed

end
