(* ===== verification/UlRlcLink.thy ===== *)
theory UlRlcLink
  imports UlRlcWindow DataBlockPool TSPool "HOL-Library.Monad_Syntax"
begin

text \<open>
  The uplink RLC link, \<^verbatim>\<open>Rlc_mac/src/ULRlcLink.cpp\<close>: reception of data blocks, the ack/nack
  messages and their counters and timers, reassembly of LLC PDUs and the way back of the blocks to
  their pool.  The receive window is \<open>UlRlcWindow\<close>'s; the blocks live in the store of \<open>DataBlockPool\<close>.
  \<open>None\<close> is the result of an operation that leaves an array, follows a null pointer, reads an
  unwritten variable or never ends.
\<close>

section \<open>State\<close>

abbreviation (input) LAST_BLOCK_UNKNOWN :: int where "LAST_BLOCK_UNKNOWN \<equiv> - 1"
abbreviation (input) MAX_RLC_BLOCKS_BETWEEN_ACKS :: int where "MAX_RLC_BLOCKS_BETWEEN_ACKS \<equiv> 32"
abbreviation (input) N3103_MAX :: int where "N3103_MAX \<equiv> 5"
abbreviation (input) N3101_MAX :: int where "N3101_MAX \<equiv> 8"

record ULRlcLink = RcvWindow +
  lk_n3103 :: int
  lk_n3101 :: int
  lk_n3101FirstBlkBuffer :: int
  lk_chanCoding :: IeChannelCodingCommand
  lk_pUlBlocks :: "addr option list"
  lk_firstDataBlock :: int
  lk_lastDataBlock :: int
  lk_numRLCBlocksSinceLastAck :: int
  lk_endOfTBF :: bool

text \<open>
  What a link hands to the rest of the system: the ack/nack message (TFI, coding, ack/nack
  description, supplementary polling bit and tag) given to \<open>SendPacchMsg\<close>, the UNITDATA message with
  a PDU for BSSGP (or with none when BSSGP has no buffer), the TBF RELEASE message, and the release
  of the TBF's resources.
\<close>

datatype ul_event =
    AckNackMsg IeTFI IeChannelCodingCommand IeAckNackDescription SUPPLEMENTARY_POLLING_BIT octet
  | UnitData "32 word" RLC_MODE "octet list"
  | UnitDataEmpty
  | TbfReleaseMsg
  | ResourcesReleased

text \<open>
  The state an operation of a link works on: the link, its TBF, its two timers (running or not), the
  block pool and the ack tag counter that all links share, which lengths BSSGP has a buffer for, the
  content of the stack that the PDU buffer is placed on, and the messages sent so far.
\<close>

record UlState =
  us_link :: ULRlcLink
  us_tbf :: ULTbf
  us_T3169 :: bool
  us_activity :: bool
  us_pool :: "ULDataBlock BlockPool"
  us_sysCtlAckCount :: octet
  us_rxBuff :: "nat \<Rightarrow> bool"
  us_stack :: "octet list"
  us_out :: "ul_event list"

definition emit :: "ul_event \<Rightarrow> UlState \<Rightarrow> UlState" where
  "emit e s = s\<lparr>us_out := us_out s @ [e]\<rparr>"

section \<open>Establishment, counters and timers\<close>

definition ULRlcLink_clear :: "RLC_MODE \<Rightarrow> ULRlcLink \<Rightarrow> ULRlcLink" where
  "ULRlcLink_clear mode l = l\<lparr>rw_rlcMode := mode, rw_vR := 0, rw_vQ := 0,
      rw_vN := replicate RLC_MOD_VAL INVALID, lk_pUlBlocks := replicate RLC_MOD_VAL None,
      lk_firstDataBlock := 0, lk_lastDataBlock := LAST_BLOCK_UNKNOWN,
      lk_numRLCBlocksSinceLastAck := MAX_RLC_BLOCKS_BETWEEN_ACKS, lk_endOfTBF := False,
      lk_chanCoding := snd (SetChannelCodingCommand CS_1 (lk_chanCoding l))\<rparr>"

definition EstablishRLCLink :: "RLC_MODE \<Rightarrow> UlState \<Rightarrow> UlState" where
  "EstablishRLCLink mode s =
     s\<lparr>us_link := (ULRlcLink_clear mode (us_link s))\<lparr>lk_n3103 := 0, lk_n3101 := 0\<rparr>,
       us_tbf := UL_ClearControlAckTag (us_tbf s), us_activity := True\<rparr>"

definition UL_UpdateTSSpecificData :: "UlState \<Rightarrow> UlState" where
  "UL_UpdateTSSpecificData s =
     s\<lparr>us_link := (us_link s)\<lparr>lk_n3101FirstBlkBuffer :=
        4 * int (length (filter id (take MAX_TIMESLOTS (tbf_allocatedTs (us_tbf s)))))\<rparr>\<rparr>"

definition UL_SetTbfState :: "TBF_STATE \<Rightarrow> UlState \<Rightarrow> UlState" where
  "UL_SetTbfState st s = s\<lparr>us_tbf := (us_tbf s)\<lparr>tbf_state := st\<rparr>\<rparr>"

text \<open>Always \<open>TRUE\<close>, as in the source.\<close>

definition IncrementN3101 :: "UlState \<Rightarrow> bool \<times> UlState" where
  "IncrementN3101 s =
     (let s = s\<lparr>us_link := (us_link s)\<lparr>lk_n3101 := lk_n3101 (us_link s) + 1\<rparr>\<rparr>
      in (True,
          if lk_n3101 (us_link s) \<ge> N3101_MAX + lk_n3101FirstBlkBuffer (us_link s)
          then (UL_SetTbfState INACTIVE s)\<lparr>us_T3169 := True\<rparr> else s))"

section \<open>SendULAckNack\<close>

definition an_new :: IeAckNackDescription where
  "an_new = \<lparr>an_isValid = False, an_finalAckIndication = TBF_INCOMPLETE, an_startingSeqNum = 0,
     an_recBlockBitmap = replicate RRB_SIZE 0\<rparr>"

text \<open>The last ack/nack of the TBF: it takes a tag, polls the mobile and stops the scheduling.\<close>

definition final_ack_due :: "ULRlcLink \<Rightarrow> bool" where
  "final_ack_due l \<longleftrightarrow> lk_endOfTBF l \<and>
     (case rw_rlcMode l of ACKNOWLEDGED_RLC_MODE \<Rightarrow> rw_vR l = rw_vQ l | UNACKNOWLEDGED_RLC_MODE \<Rightarrow> True)"

definition take_ack_tag :: "UlState \<Rightarrow> octet \<times> UlState" where
  "take_ack_tag s =
     (case UL_SetControlAckTag (us_sysCtlAckCount s, us_tbf s) of
        (tag, (c, t)) \<Rightarrow> (tag, s\<lparr>us_sysCtlAckCount := c, us_tbf := t\<rparr>))"

definition SendULAckNack :: "UlState \<Rightarrow> UlState" where
  "SendULAckNack s =
     (let l = us_link s;
          (finalAck, spBit, tag, s) =
            (if final_ack_due l then
               (case take_ack_tag s of (tag, s) \<Rightarrow>
                  (TBF_COMPLETE, RRBP_VALID, tag, UL_SetTbfState INACTIVE s))
             else (TBF_INCOMPLETE, RRBP_NOT_VALID, CTL_ACK_TAG_NOT_APPLICABLE, s));
          an = snd (SetAckNackDescription finalAck (word_of_int (rw_vR l)) (build_rrb l) an_new)
      in emit (AckNackMsg (tbf_tfi (us_tbf s)) (lk_chanCoding l) an spBit tag)
           (s\<lparr>us_link := l\<lparr>lk_numRLCBlocksSinceLastAck := MAX_RLC_BLOCKS_BETWEEN_ACKS\<rparr>\<rparr>))"

section \<open>ReleaseDataBlocks and the end of a TBF\<close>

text \<open>
  The loop runs over 0..128 and may read \<^verbatim>\<open>pUlBlocks[128]\<close>, whose value the second test makes
  irrelevant.  A start outside 0..128 leaves the array.
\<close>

partial_function (option) release_loop ::
  "int \<Rightarrow> int \<Rightarrow> addr option list \<Rightarrow> ULDataBlock BlockPool \<Rightarrow> (addr option list \<times> ULDataBlock BlockPool) option" where
  "release_loop i e blks q =
     (if i = e then Some (blks, q)
      else if i < 0 \<or> i > 128 then None
      else if i < 128 then
        (case blks ! nat i of
           None \<Rightarrow> release_loop ((i + 1) mod 129) e blks q
         | Some p \<Rightarrow>
             Option.bind (ReturnULDataBlock p q)
               (\<lambda>q'. release_loop ((i + 1) mod 129) e (blks[nat i := None]) q'))
      else release_loop ((i + 1) mod 129) e blks q)"

declare release_loop.simps [code]

definition ReleaseDataBlocks :: "int \<Rightarrow> int \<Rightarrow> UlState \<Rightarrow> UlState option" where
  "ReleaseDataBlocks startBlock endBlock s =
     map_option (\<lambda>(blks, q). s\<lparr>us_link := (us_link s)\<lparr>lk_pUlBlocks := blks\<rparr>, us_pool := q\<rparr>)
       (release_loop startBlock (min endBlock 128) (lk_pUlBlocks (us_link s)) (us_pool s))"

text \<open>Releasing the resources with the scheduler leaves the TBF without timeslots.\<close>

definition ReleaseULTbf :: "UlState \<Rightarrow> UlState" where
  "ReleaseULTbf s = UL_SetTbfState FREE
     (emit ResourcesReleased (s\<lparr>us_tbf := (us_tbf s)\<lparr>tbf_allocatedTs := replicate MAX_TIMESLOTS False\<rparr>\<rparr>))"

definition ReceivePacketControlAck :: "UlState \<Rightarrow> UlState option" where
  "ReceivePacketControlAck s =
     map_option ReleaseULTbf (ReleaseDataBlocks 0 128 (s\<lparr>us_T3169 := False, us_activity := False\<rparr>))"

definition ProcessT3169Expiry :: "UlState \<Rightarrow> UlState option" where
  "ProcessT3169Expiry s =
     map_option ReleaseULTbf (ReleaseDataBlocks 0 128 (s\<lparr>us_T3169 := False, us_activity := False\<rparr>))"

definition ProcessActivityTimerExpiry :: "UlState \<Rightarrow> UlState option" where
  "ProcessActivityTimerExpiry s = map_option ReleaseULTbf (ReleaseDataBlocks 0 128 s)"

definition ReceivePacketControlNack :: "UlState \<Rightarrow> UlState" where
  "ReceivePacketControlNack s =
     (let n = lk_n3103 (us_link s) + 1; s = s\<lparr>us_link := (us_link s)\<lparr>lk_n3103 := n\<rparr>\<rparr>
      in if n < N3103_MAX then SendULAckNack s else s\<lparr>us_T3169 := True\<rparr>)"

definition UL_AbnormalRelease :: "UlState \<Rightarrow> UlState" where
  "UL_AbnormalRelease s = (emit TbfReleaseMsg (UL_SetTbfState INACTIVE s))\<lparr>us_T3169 := True\<rparr>"


section \<open>When a PDU is complete\<close>

text \<open>
  \<open>IsPDUAssemblyNeeded\<close> of a block with header \<open>h\<close>: the answer, and the link with the end of the PDU
  noted.  The BSN is below 128, so \<open>GetBSN() % RLC_MOD_VAL\<close> is the BSN.
\<close>

definition note_last_block :: "ULMacHeader \<Rightarrow> ULRlcLink \<Rightarrow> ULRlcLink" where
  "note_last_block h l =
     (let here = l\<lparr>lk_lastDataBlock := uint (ul_bsn h) mod MOD\<rparr>
      in if lk_lastDataBlock l \<noteq> LAST_BLOCK_UNKNOWN then l
         else if ul_countdownVal h = 0 then here
         else if ul_extensionBit h = EXTENSION_OCTET_FOLLOWS then
           (case ul_GetCurrentLengthOctet h of
              Some lo \<Rightarrow> if lo_length lo \<noteq> 0 \<and> lo_length lo \<noteq> INVALID_LENGTH_VAL then here else l
            | None \<Rightarrow> l)
         else l)"

definition all_received :: "ULRlcLink \<Rightarrow> bool" where
  "all_received l =
     (case rw_rlcMode l of
        ACKNOWLEDGED_RLC_MODE \<Rightarrow>
          (let rcvDiff = rw_vQ l - lk_lastDataBlock l;
               rcvDiff = (if rcvDiff < 0 then rcvDiff + MOD else rcvDiff)
           in rcvDiff < RCV_WINDOW_SIZE_K)
      | UNACKNOWLEDGED_RLC_MODE \<Rightarrow> True)"

definition IsPDUAssemblyNeeded :: "ULMacHeader \<Rightarrow> ULRlcLink \<Rightarrow> bool \<times> ULRlcLink" where
  "IsPDUAssemblyNeeded h l =
     (let l = note_last_block h l
      in (lk_lastDataBlock l \<noteq> LAST_BLOCK_UNKNOWN \<and> all_received l, l))"

section \<open>Reassembly\<close>

text \<open>
  The PDU buffer: an array of \<open>MAX_RLC_PDU_SIZE\<close> octets on the stack and the position of
  \<open>pPduBuf\<close> in it.  Writing outside the array is \<open>None\<close>; moving the position is not.
\<close>

type_synonym pdu_buf = "octet list \<times> int"

definition put_octets :: "octet list \<Rightarrow> pdu_buf \<Rightarrow> octet list option" where
  "put_octets bs = (\<lambda>(buf, pos).
     if bs = [] then Some buf
     else if 0 \<le> pos \<and> nat pos + length bs \<le> MAX_RLC_PDU_SIZE
     then Some (take (nat pos) buf @ bs @ drop (nat pos + length bs) buf) else None)"

text \<open>
  \<open>ExtractBytesN (pPduBuf, len); pPduBuf += len\<close>: the result code is ignored, so the position
  advances even when the stream refused and nothing was written.
\<close>

definition set_stream :: "addr \<Rightarrow> BitStreamIn \<Rightarrow> ULDataBlock BlockPool \<Rightarrow> ULDataBlock BlockPool" where
  "set_stream p str q = q\<lparr>bp_block := (bp_block q)(p := (bp_block q p)\<lparr>ub_streamIn := str\<rparr>)\<rparr>"

definition take_octets ::
  "addr \<Rightarrow> int \<Rightarrow> pdu_buf \<times> ULDataBlock BlockPool \<Rightarrow> (pdu_buf \<times> ULDataBlock BlockPool) option" where
  "take_octets p len = (\<lambda>((buf, pos), q). do {
     (r, v, str) \<leftarrow> ExtractBytesN len (ub_streamIn (bp_block q p));
     buf \<leftarrow> put_octets (case v of None \<Rightarrow> [] | Some bs \<Rightarrow> bs) (buf, pos);
     Some ((buf, pos + len), set_stream p str q)
   })"

text \<open>The part of one received block that belongs to the current PDU.\<close>

definition block_rest :: "ULDataBlock \<Rightarrow> int" where
  "block_rest b = int (GetDataBlockLength b) - int (in_currByte (ub_streamIn b))"

definition reassemble_block ::
  "addr \<Rightarrow> pdu_buf \<times> ULDataBlock BlockPool \<Rightarrow> (pdu_buf \<times> ULDataBlock BlockPool) option" where
  "reassemble_block p = (\<lambda>(pb, q).
     let b = bp_block q p; h = ub_ulHeader b; rest = block_rest b in
     if ul_extensionBit h = EXTENSION_OCTET_FOLLOWS then
       (case ul_GetCurrentLengthOctet h of
          None \<Rightarrow> None
        | Some lo \<Rightarrow>
            if lo_length lo \<noteq> INVALID_LENGTH_VAL then
              if lo_moreBit lo = NO_MORE_LLC_DATA \<and> lo_extensionBit lo = NO_EXTENSION_OCTET \<and> lo_length lo = 0
              then take_octets p rest (pb, q)
              else take_octets p (uint (lo_length lo)) (pb, q)
            else take_octets p rest (pb, q))
     else take_octets p rest (pb, q))"

text \<open>Zero fill for a block that was never received.\<close>

definition fill_block ::
  "IeChannelCodingCommand \<Rightarrow> pdu_buf \<times> ULDataBlock BlockPool \<Rightarrow> (pdu_buf \<times> ULDataBlock BlockPool) option" where
  "fill_block cc = (\<lambda>((buf, pos), q).
     let n = GetNumFillBytes (cc_coding cc)
     in map_option (\<lambda>buf. ((buf, pos + int n), q)) (put_octets (replicate n 0) (buf, pos)))"

text \<open>The inner do-while loop, from block \<open>cur\<close> up to and including \<open>lastDataBlock\<close>.\<close>

partial_function (option) pdu_loop ::
  "ULRlcLink \<Rightarrow> int \<Rightarrow> pdu_buf \<times> ULDataBlock BlockPool \<Rightarrow> (int \<times> pdu_buf \<times> ULDataBlock BlockPool) option" where
  "pdu_loop l cur st =
     (if cur < 0 \<or> 128 \<le> cur then None
      else do {
        st \<leftarrow> (case lk_pUlBlocks l ! nat cur of
                  Some p \<Rightarrow> reassemble_block p st
                | None \<Rightarrow> fill_block (lk_chanCoding l) st);
        if cur = lk_lastDataBlock l then Some (cur, st) else pdu_loop l ((cur + 1) mod MOD) st
      })"

declare pdu_loop.simps [code]

text \<open>\<open>SendBSSGPUnitData\<close> of the octets before the position; a length outside the buffer is \<open>None\<close>.\<close>

definition SendBSSGPUnitData :: "pdu_buf \<Rightarrow> UlState \<Rightarrow> UlState option" where
  "SendBSSGPUnitData = (\<lambda>(buf, pos) s.
     if 0 \<le> pos \<and> pos \<le> int MAX_RLC_PDU_SIZE then
       Some (emit (if us_rxBuff s (nat pos)
                   then UnitData (tbf_tlli (us_tbf s)) (rw_rlcMode (us_link s)) (take (nat pos) buf)
                   else UnitDataEmpty) s)
     else None)"

text \<open>The forward scan of \<open>ScanDataBlocks\<close>, from \<open>cur\<close> to V(R).\<close>

partial_function (option) scan_loop ::
  "int \<Rightarrow> (addr \<Rightarrow> ULDataBlock) \<Rightarrow> ULRlcLink \<Rightarrow> (bool \<times> ULRlcLink) option" where
  "scan_loop cur blk l =
     (if cur = rw_vR l then Some (False, l)
      else if cur < 0 \<or> 128 \<le> cur then None
      else
        (case lk_pUlBlocks l ! nat cur of
           None \<Rightarrow> scan_loop ((cur + 1) mod MOD) blk l
         | Some p \<Rightarrow>
             (case IsPDUAssemblyNeeded (ub_ulHeader (blk p)) l of
                (needed, l') \<Rightarrow>
                  if needed then Some (True, l') else scan_loop ((cur + 1) mod MOD) blk l')))"

declare scan_loop.simps [code]

text \<open>
  Where the next PDU starts: in the same block when its length octet announces more data (the header
  then moves to the next length octet), otherwise in the next one.  The statement
  \<^verbatim>\<open>++currDataBlock % RLC_MOD_VAL;\<close> only increments: its remainder is not used.
\<close>

definition next_start :: "int \<Rightarrow> ULMacHeader \<Rightarrow> (int \<times> ULMacHeader) option" where
  "next_start cur h =
     (if ul_extensionBit h = EXTENSION_OCTET_FOLLOWS then
        (case ul_GetCurrentLengthOctet h of
           None \<Rightarrow> None
         | Some lo \<Rightarrow>
             if lo_moreBit lo = MORE_LLC_DATA then Some (cur, snd (ul_GetNextLengthOctet h))
             else if lo_extensionBit lo = NO_EXTENSION_OCTET then Some (cur + 1, h)
             else Some (cur, h))
      else Some (cur + 1, h))"

definition set_header :: "addr \<Rightarrow> ULMacHeader \<Rightarrow> ULDataBlock BlockPool \<Rightarrow> ULDataBlock BlockPool" where
  "set_header p h q = q\<lparr>bp_block := (bp_block q)(p := (bp_block q p)\<lparr>ub_ulHeader := h\<rparr>)\<rparr>"

definition ScanDataBlocks :: "int \<Rightarrow> UlState \<Rightarrow> (bool \<times> UlState) option" where
  "ScanDataBlocks cur s =
     (if cur < 0 \<or> 128 \<le> cur then None
      else case lk_pUlBlocks (us_link s) ! nat cur of
        None \<Rightarrow> None
      | Some p \<Rightarrow> do {
          (start, h) \<leftarrow> next_start cur (ub_ulHeader (bp_block (us_pool s) p));
          s \<leftarrow> ReleaseDataBlocks (lk_firstDataBlock (us_link s)) start (s\<lparr>us_pool := set_header p h (us_pool s)\<rparr>);
          (again, l) \<leftarrow> scan_loop start (bp_block (us_pool s))
             ((us_link s)\<lparr>lk_firstDataBlock := start, lk_lastDataBlock := LAST_BLOCK_UNKNOWN\<rparr>);
          Some (again, s\<lparr>us_link := l\<rparr>)
        })"

text \<open>
  The outer loop.  Neither \<open>currDataBlock\<close> nor \<open>pPduBuf\<close> is set again for the next PDU.
\<close>

partial_function (option) reassemble_loop :: "int \<Rightarrow> pdu_buf \<Rightarrow> UlState \<Rightarrow> UlState option" where
  "reassemble_loop cur pb s = do {
     (cur, pb, q) \<leftarrow> pdu_loop (us_link s) cur (pb, us_pool s);
     s \<leftarrow> SendBSSGPUnitData pb (s\<lparr>us_pool := q\<rparr>);
     (again, s) \<leftarrow> ScanDataBlocks cur s;
     if again then reassemble_loop cur pb s else Some s
   }"

declare reassemble_loop.simps [code]

definition ReassembleULPDU :: "UlState \<Rightarrow> UlState option" where
  "ReassembleULPDU s = reassemble_loop (lk_firstDataBlock (us_link s)) (us_stack s, 0) s"

section \<open>Reception of a data block\<close>

text \<open>
  Why an ack/nack is sent, evaluated left to right as the source does: the third operand of the
  disjunction assigns V(R) to V(Q) when it is reached with \<open>endOfTBF\<close> set.
\<close>

definition ack_due :: "octet \<Rightarrow> ULRlcLink \<Rightarrow> bool \<times> ULRlcLink" where
  "ack_due cv l =
     (let l = l\<lparr>lk_numRLCBlocksSinceLastAck := lk_numRLCBlocksSinceLastAck l - 1\<rparr>
      in if lk_numRLCBlocksSinceLastAck l = 0 \<or> cv = 0 then (True, l)
         else if lk_endOfTBF l then (rw_vR l \<noteq> 0, l\<lparr>rw_vQ := rw_vR l\<rparr>)
         else (False, l))"

text \<open>Keep a new block, return one received before; then acknowledge.\<close>

definition store_block :: "addr \<Rightarrow> nat \<Rightarrow> UlState \<Rightarrow> UlState option" where
  "store_block p i s =
     (if lk_pUlBlocks (us_link s) ! i \<noteq> None
      then map_option (\<lambda>q. s\<lparr>us_pool := q\<rparr>) (ReturnULDataBlock p (us_pool s))
      else Some (s\<lparr>us_link := (us_link s)\<lparr>lk_pUlBlocks := (lk_pUlBlocks (us_link s))[i := Some p]\<rparr>\<rparr>))"

definition acknowledge :: "octet \<Rightarrow> UlState \<Rightarrow> UlState" where
  "acknowledge cv s =
     (case ack_due cv (us_link s) of
        (False, l) \<Rightarrow> s\<lparr>us_link := l\<rparr>
      | (True, l) \<Rightarrow> SendULAckNack (s\<lparr>us_link := (if cv = 0 then l\<lparr>lk_endOfTBF := True\<rparr> else l)\<rparr>))"

definition check_assembly :: "addr \<Rightarrow> UlState \<Rightarrow> UlState option" where
  "check_assembly p s =
     (case IsPDUAssemblyNeeded (ub_ulHeader (bp_block (us_pool s) p)) (us_link s) of
        (True, l) \<Rightarrow> ReassembleULPDU (s\<lparr>us_link := l\<rparr>)
      | (False, l) \<Rightarrow> Some (s\<lparr>us_link := l\<rparr>))"

definition ReceiveULDataBlock :: "addr \<Rightarrow> UlState \<Rightarrow> UlState option" where
  "ReceiveULDataBlock p s =
     (let h = ub_ulHeader (bp_block (us_pool s) p); bsn = uint (ul_bsn h);
          s = s\<lparr>us_link := (us_link s)\<lparr>lk_n3101 := 0, lk_n3101FirstBlkBuffer := 0\<rparr>, us_activity := True\<rparr>
      in do {
        (fresh, l) \<leftarrow> UpdateRcvStateVariables bsn (us_link s);
        let s = s\<lparr>us_link := l\<rparr>;
        if fresh then do {
          s \<leftarrow> store_block p (nat (bsn mod MOD)) s;
          check_assembly p (acknowledge (ul_countdownVal h) s)
        }
        else map_option (\<lambda>q. s\<lparr>us_pool := q\<rparr>) (ReturnULDataBlock p (us_pool s))
      })"


section \<open>Ownership of the blocks\<close>

text \<open>The blocks of \<open>S\<close>, spread over the pool and the table of a link.\<close>

abbreviation owns :: "addr set \<Rightarrow> UlState \<Rightarrow> bool" where
  "owns S s \<equiv> owned S (lk_pUlBlocks (us_link s)) (us_pool s)"

lemma pool_holds_set [simp]:
  "pool_holds (set_stream p str q) xs = pool_holds q xs" "pool_holds (set_header p h q) xs = pool_holds q xs"
  by (simp_all add: pool_holds_def set_stream_def set_header_def)

lemma owned_set [simp]:
  "owned S blks (set_stream p str q) = owned S blks q" "owned S blks (set_header p h q) = owned S blks q"
  by (simp_all add: owned_def)

lemmas owned_return_slot = ulpool.owned_return_slot
lemmas owned_return_new = ulpool.owned_return_new
lemmas owned_keep = ulpool.owned_keep

lemma release_loop_owned:
  "release_loop i e blks q = Some r \<Longrightarrow> owned S blks q \<Longrightarrow> owned S (fst r) (snd r)"
proof (induction rule: release_loop.raw_induct [rotated 1, consumes 1, case_names step])
  case (step rec i e blks q r)
  show ?case
  proof (cases "0 \<le> i \<and> i < 128 \<and> i \<noteq> e \<and> blks ! nat i \<noteq> None")
    case True
    then obtain p where p: "blks ! nat i = Some p" by auto
    then obtain q1 where q1: "ReturnULDataBlock p q = Some q1" "owned S (blks[nat i := None]) q1"
      using owned_return_slot [of S blks q "nat i" p] True step.prems nat_less_iff [of i 128] by auto
    then have "rec ((i + 1) mod 129) e (blks[nat i := None]) q1 = Some r" using step.hyps True p by simp
    then show ?thesis using step.IH q1 by blast
  next
    case False
    then show ?thesis using step.hyps step.prems step.IH by (auto split: if_splits option.splits)
  qed
qed


lemma ReleaseDataBlocks_owned:
  "ReleaseDataBlocks a b s = Some s' \<Longrightarrow> owns S s \<Longrightarrow> owns S s'"
  using release_loop_owned [of a "min b 128" "lk_pUlBlocks (us_link s)" "us_pool s"]
  by (auto simp: ReleaseDataBlocks_def)

lemma reassemble_block_owned:
  "reassemble_block p st = Some st' \<Longrightarrow> owned S blks (snd st) \<Longrightarrow> owned S blks (snd st')"
  by (auto simp: reassemble_block_def take_octets_def Let_def split: if_splits option.splits bind_splits prod.splits)

lemma fill_block_owned:
  "fill_block cc st = Some st' \<Longrightarrow> snd st' = snd st"
  by (auto simp: fill_block_def Let_def split: prod.splits)

lemma pdu_loop_owned:
  "pdu_loop l cur st = Some r \<Longrightarrow> owned S blks (snd st) \<Longrightarrow> owned S blks (snd (snd r))"
proof (induction rule: pdu_loop.raw_induct [rotated 1, consumes 1, case_names step])
  case (step rec l cur st r)
  obtain st1 where st1: "(case lk_pUlBlocks l ! nat cur of Some p \<Rightarrow> reassemble_block p st
      | None \<Rightarrow> fill_block (lk_chanCoding l) st) = Some st1"
    and r: "(if cur = lk_lastDataBlock l then Some (cur, st1) else rec l ((cur + 1) mod MOD) st1) = Some r"
    using step.hyps by (auto split: if_splits bind_splits)
  have "owned S blks (snd st1)"
    using st1 step.prems reassemble_block_owned fill_block_owned by (auto split: option.splits)
  then show ?case using r step.IH by (auto split: if_splits)
qed


lemma note_last_block_blocks [simp]: "lk_pUlBlocks (note_last_block h l) = lk_pUlBlocks l"
  by (simp add: note_last_block_def Let_def split: option.split)

lemma scan_loop_blocks:
  "scan_loop cur blk l = Some r \<Longrightarrow> lk_pUlBlocks (snd r) = lk_pUlBlocks l"
proof (induction rule: scan_loop.raw_induct [rotated 1, consumes 1, case_names step])
  case (step rec cur blk l r)
  have IH: "lk_pUlBlocks (snd r') = lk_pUlBlocks l'" if "rec c b l' = Some r'" for c b l' r'
    using step.IH that .
  show ?case
    using step.hyps
    by (auto simp: IsPDUAssemblyNeeded_def Let_def dest: IH split: if_splits option.splits)
qed

lemma SendBSSGPUnitData_state:
  "SendBSSGPUnitData pb s = Some s' \<Longrightarrow> us_link s' = us_link s \<and> us_pool s' = us_pool s"
  by (auto simp: SendBSSGPUnitData_def emit_def split: prod.splits if_splits)

lemma ScanDataBlocks_owned:
  assumes "ScanDataBlocks cur s = Some r" "owns S s"
  shows "owns S (snd r)"
proof -
  obtain p start h s1 again l where p: "lk_pUlBlocks (us_link s) ! nat cur = Some p"
    and s1: "ReleaseDataBlocks (lk_firstDataBlock (us_link s)) start (s\<lparr>us_pool := set_header p h (us_pool s)\<rparr>) = Some s1"
    and l: "scan_loop start (bp_block (us_pool s1))
      ((us_link s1)\<lparr>lk_firstDataBlock := start, lk_lastDataBlock := LAST_BLOCK_UNKNOWN\<rparr>) = Some (again, l)"
    and r: "r = (again, s1\<lparr>us_link := l\<rparr>)"
    using assms(1) by (auto simp: ScanDataBlocks_def split: if_splits option.splits bind_splits)
  have "owns S s1" using ReleaseDataBlocks_owned [OF s1] assms(2) by simp
  moreover have "lk_pUlBlocks l = lk_pUlBlocks (us_link s1)" using scan_loop_blocks [OF l] by simp
  ultimately show ?thesis using r by simp
qed

lemma reassemble_loop_owned:
  "reassemble_loop cur pb s = Some s' \<Longrightarrow> owns S s \<Longrightarrow> owns S s'"
proof (induction rule: reassemble_loop.raw_induct [rotated 1, consumes 1, case_names step])
  case (step rec cur pb s s')
  obtain cur1 pb1 q s1 again s2 where q: "pdu_loop (us_link s) cur (pb, us_pool s) = Some (cur1, pb1, q)"
    and s1: "SendBSSGPUnitData pb1 (s\<lparr>us_pool := q\<rparr>) = Some s1"
    and s2: "ScanDataBlocks cur1 s1 = Some (again, s2)"
    and r: "(if again then rec cur1 pb1 s2 else Some s2) = Some s'"
    using step.hyps by (auto split: bind_splits)
  have "owns S s1"
    using pdu_loop_owned [OF q] SendBSSGPUnitData_state [OF s1] step.prems by auto
  then have "owns S s2" using ScanDataBlocks_owned [OF s2] by auto
  then show ?case using r step.IH by (auto split: if_splits)
qed

lemma SendULAckNack_owns [simp]:
  "lk_pUlBlocks (us_link (SendULAckNack s)) = lk_pUlBlocks (us_link s)" "us_pool (SendULAckNack s) = us_pool s"
  by (simp_all add: SendULAckNack_def emit_def take_ack_tag_def UL_SetTbfState_def Let_def split: prod.splits)

lemma ack_due_blocks [simp]: "lk_pUlBlocks (snd (ack_due cv l)) = lk_pUlBlocks l"
  by (simp add: ack_due_def Let_def)

lemma acknowledge_owns [simp]:
  "lk_pUlBlocks (us_link (acknowledge cv s)) = lk_pUlBlocks (us_link s)" "us_pool (acknowledge cv s) = us_pool s"
proof -
  obtain d l where d: "ack_due cv (us_link s) = (d, l)" by force
  then have "lk_pUlBlocks l = lk_pUlBlocks (us_link s)" using ack_due_blocks [of cv "us_link s"] by simp
  then show "lk_pUlBlocks (us_link (acknowledge cv s)) = lk_pUlBlocks (us_link s)"
    "us_pool (acknowledge cv s) = us_pool s"
    by (cases d; simp add: acknowledge_def d)+
qed

lemma store_block_owned:
  assumes "owns S s" "p \<notin> S" "i < RLC_MOD_VAL"
  shows "\<exists>s'. store_block p i s = Some s' \<and> owns (insert p S) s'"
  using owned_return_new [OF assms(1,2)] owned_keep [OF assms]
  by (auto simp: store_block_def)

text \<open>The window update does not touch the link's blocks.\<close>

lemma UpdateRcvStateVariables_blocks:
  "UpdateRcvStateVariables bsn (l :: ULRlcLink) = Some (f, l') \<Longrightarrow> lk_pUlBlocks l' = lk_pUlBlocks l"
  by (auto simp: UpdateRcvStateVariables_def UpdateAcked_def UpdateUnacked_def Let_def
      split: RLC_MODE.splits if_splits option.splits)

lemma ReceiveULDataBlock_owned:
  assumes r: "ReceiveULDataBlock p s = Some s'" and S: "owns S s" "p \<notin> S"
  shows "owns (insert p S) s'"
proof -
  let ?h = "ub_ulHeader (bp_block (us_pool s) p)"
  define s0 where "s0 = s\<lparr>us_link := (us_link s)\<lparr>lk_n3101 := 0, lk_n3101FirstBlkBuffer := 0\<rparr>, us_activity := True\<rparr>"
  obtain f l where l: "UpdateRcvStateVariables (uint (ul_bsn ?h)) (us_link s0) = Some (f, l)"
    using r by (auto simp: ReceiveULDataBlock_def Let_def s0_def split: bind_splits)
  define s1 where "s1 = s0\<lparr>us_link := l\<rparr>"
  have s1: "owns S s1"
    using S(1) UpdateRcvStateVariables_blocks [OF l] by (simp add: s1_def s0_def)
  show ?thesis
  proof (cases f)
    case False
    have "map_option (\<lambda>q. s1\<lparr>us_pool := q\<rparr>) (ReturnULDataBlock p (us_pool s1)) = Some s'"
      using r False l by (simp add: ReceiveULDataBlock_def Let_def s0_def s1_def)
    then show ?thesis using owned_return_new [OF s1 S(2)] by auto
  next
    case True
    let ?i = "nat (uint (ul_bsn ?h) mod MOD)"
    have i: "?i < RLC_MOD_VAL" by (simp add: nat_less_iff)
    then obtain s2 where s2: "store_block p ?i s1 = Some s2" "owns (insert p S) s2"
      using store_block_owned [OF s1 S(2)] by blast
    define s3 where "s3 = acknowledge (ul_countdownVal ?h) s2"
    have s3: "owns (insert p S) s3" using s2(2) by (simp add: s3_def)
    obtain g l3 where g: "IsPDUAssemblyNeeded (ub_ulHeader (bp_block (us_pool s3) p)) (us_link s3) = (g, l3)" by force
    then have l3: "lk_pUlBlocks l3 = lk_pUlBlocks (us_link s3)" by (auto simp: IsPDUAssemblyNeeded_def Let_def)
    have "(if g then ReassembleULPDU (s3\<lparr>us_link := l3\<rparr>) else Some (s3\<lparr>us_link := l3\<rparr>)) = Some s'"
      using r True l s2(1) g by (cases g) (simp_all add: ReceiveULDataBlock_def check_assembly_def Let_def s0_def s1_def s3_def)
    then show ?thesis
      using s3 l3 reassemble_loop_owned [of _ _ "s3\<lparr>us_link := l3\<rparr>" s']
      by (auto simp: ReassembleULPDU_def split: if_splits)
  qed
qed


section \<open>Releasing the blocks\<close>

lemma release_range:
  assumes "owned S blks q" "a \<le> b" "b \<le> RLC_MOD_VAL"
  shows "\<exists>blks' q'. release_loop (int a) (int b) blks q = Some (blks', q') \<and> owned S blks' q' \<and>
     (\<forall>i. blks' ! i = (if a \<le> i \<and> i < b then None else blks ! i))"
  using assms
proof (induction "b - a" arbitrary: a blks q)
  case 0
  then show ?case by (auto simp: release_loop.simps)
next
  case (Suc n)
  then have ab: "a < b" "a < 128" "int (Suc a) = (int a + 1) mod 129" by auto
  have len: "length blks = 128" using Suc.prems(1) by (auto simp: owned_def)
  show ?case
  proof (cases "blks ! a")
    case None
    then have "release_loop (int a) (int b) blks q = release_loop (int (Suc a)) (int b) blks q"
      using ab(1,2) None unfolding ab(3) by (simp add: release_loop.simps [of "int a"])
    moreover have "(if Suc a \<le> i \<and> i < b then None else blks ! i) = (if a \<le> i \<and> i < b then None else blks ! i)" for i
      using None by (auto simp: le_less Suc_le_eq)
    ultimately show ?thesis using Suc.hyps(1) [of "Suc a" blks q] Suc.hyps(2) Suc.prems ab by auto
  next
    case (Some p)
    then obtain q1 where q1: "ReturnULDataBlock p q = Some q1" "owned S (blks[a := None]) q1"
      using owned_return_slot [OF Suc.prems(1) Some ab(2)] by blast
    then have "release_loop (int a) (int b) blks q = release_loop (int (Suc a)) (int b) (blks[a := None]) q1"
      using ab(1,2) Some q1(1) unfolding ab(3) by (simp add: release_loop.simps [of "int a"])
    moreover have "(if Suc a \<le> i \<and> i < b then None else blks[a := None] ! i) = (if a \<le> i \<and> i < b then None else blks ! i)" for i
      using ab len by (cases "i = a") auto
    ultimately show ?thesis using Suc.hyps(1) [of "Suc a" "blks[a := None]" q1] Suc.hyps(2) Suc.prems ab q1(2) by auto
  qed
qed

lemma ReleaseDataBlocks_range:
  assumes "owns S s" "a \<le> b" "b \<le> RLC_MOD_VAL"
  shows "\<exists>blks q. ReleaseDataBlocks (int a) (int b) s =
       Some (s\<lparr>us_link := (us_link s)\<lparr>lk_pUlBlocks := blks\<rparr>, us_pool := q\<rparr>) \<and> owned S blks q \<and>
     (\<forall>i. blks ! i = (if a \<le> i \<and> i < b then None else lk_pUlBlocks (us_link s) ! i))"
proof -
  obtain blks q where r: "release_loop (int a) (int b) (lk_pUlBlocks (us_link s)) (us_pool s) = Some (blks, q)"
    "owned S blks q" "\<forall>i. blks ! i = (if a \<le> i \<and> i < b then None else lk_pUlBlocks (us_link s) ! i)"
    using release_range [OF assms] by blast
  have "min (int b) 128 = int b" using assms(3) by simp
  then have "ReleaseDataBlocks (int a) (int b) s =
      Some (s\<lparr>us_link := (us_link s)\<lparr>lk_pUlBlocks := blks\<rparr>, us_pool := q\<rparr>)"
    using r(1) by (simp add: ReleaseDataBlocks_def)
  then show ?thesis using r(2,3) by blast
qed

lemmas owned_empty_table = ulpool.owned_empty_table

text \<open>Every way a TBF ends gives all its blocks back and releases its resources.\<close>

lemma end_of_TBF:
  assumes "owns S s" "f \<in> {ReceivePacketControlAck, ProcessT3169Expiry, ProcessActivityTimerExpiry}"
  shows "\<exists>s' xs. f s = Some s' \<and> owns S s' \<and> pool_holds (us_pool s') xs \<and> set xs = S \<and>
     (\<forall>i < RLC_MOD_VAL. lk_pUlBlocks (us_link s') ! i = None) \<and>
     tbf_state (us_tbf s') = FREE \<and> us_out s' = us_out s @ [ResourcesReleased]"
proof -
  have f: "f s = map_option ReleaseULTbf (ReleaseDataBlocks 0 128 s) \<or>
      f s = map_option ReleaseULTbf (ReleaseDataBlocks 0 128 (s\<lparr>us_T3169 := False, us_activity := False\<rparr>))"
    using assms(2) by (auto simp: ReceivePacketControlAck_def ProcessT3169Expiry_def ProcessActivityTimerExpiry_def)
  have "\<exists>s' xs. map_option ReleaseULTbf (ReleaseDataBlocks 0 128 t) = Some s' \<and> owns S s' \<and> pool_holds (us_pool s') xs \<and> set xs = S \<and>
     (\<forall>i < RLC_MOD_VAL. lk_pUlBlocks (us_link s') ! i = None) \<and>
     tbf_state (us_tbf s') = FREE \<and> us_out s' = us_out t @ [ResourcesReleased]" if t: "owns S t" for t
  proof -
    obtain blks q where r: "ReleaseDataBlocks 0 128 t = Some (t\<lparr>us_link := (us_link t)\<lparr>lk_pUlBlocks := blks\<rparr>, us_pool := q\<rparr>)"
      "owned S blks q" "\<forall>i. blks ! i = (if i < 128 then None else lk_pUlBlocks (us_link t) ! i)"
      using ReleaseDataBlocks_range [OF t, of 0 128] by auto
    moreover obtain xs where "pool_holds q xs" "set xs = S" using owned_empty_table [OF r(2)] r(3) by auto
    ultimately show ?thesis by (auto simp: ReleaseULTbf_def emit_def UL_SetTbfState_def)
  qed
  from this [of s] this [of "s\<lparr>us_T3169 := False, us_activity := False\<rparr>"] show ?thesis
    using f assms(1) by auto
qed

end
