(* ===== verification/UlDelivery.thy ===== *)
theory UlDelivery
  imports UlRlcLink
begin

text \<open>
  What the uplink link achieves, over the operations of \<open>UlRlcLink\<close>: the blocks of a PDU, arriving in
  any order that ends with the last one, are delivered as that PDU; TBFs of silent mobiles end; and the
  places where the link does not do what it should: reassembly at sequence number 127, a second PDU in
  the same pass, and the assignment in the acknowledgement condition.
\<close>

section \<open>A PDU in plain blocks\<close>

text \<open>
  \<open>plain_block n cv pl b\<close>: block \<open>b\<close> carries BSN \<open>n\<close>, countdown value \<open>cv\<close> and no length octet, and its
  stream stands at its payload \<open>pl\<close>, which reaches to the end of the block.
\<close>

definition plain_block :: "nat \<Rightarrow> octet \<Rightarrow> octet list \<Rightarrow> ULDataBlock \<Rightarrow> bool" where
  "plain_block n cv pl b \<longleftrightarrow> uint (ul_bsn (ub_ulHeader b)) = int n \<and> ul_countdownVal (ub_ulHeader b) = cv \<and>
     ul_extensionBit (ub_ulHeader b) = NO_EXTENSION_OCTET \<and> in_wf (ub_streamIn b) \<and>
     (\<exists>rest. in_rest (ub_streamIn b) = octets_bits pl @ rest) \<and> block_rest b = int (length pl)"

lemma plain_block_header:
  "plain_block n cv pl b \<Longrightarrow> uint (ul_bsn (ub_ulHeader b)) = int n"
  "plain_block n cv pl b \<Longrightarrow> ul_countdownVal (ub_ulHeader b) = cv"
  by (simp_all add: plain_block_def)

text \<open>The first \<open>m\<close> octets of the PDU buffer are \<open>pre\<close>.\<close>

definition buf_holds :: "pdu_buf \<Rightarrow> octet list \<Rightarrow> bool" where
  "buf_holds pb pre \<longleftrightarrow> snd pb = int (length pre) \<and> length (fst pb) = MAX_RLC_PDU_SIZE \<and>
     length pre \<le> MAX_RLC_PDU_SIZE \<and> take (length pre) (fst pb) = pre"

lemma put_octets_holds:
  assumes "buf_holds (buf, pos) pre" "length pre + length bs \<le> MAX_RLC_PDU_SIZE"
  shows "\<exists>buf'. put_octets bs (buf, pos) = Some buf' \<and> buf_holds (buf', pos + int (length bs)) (pre @ bs)"
  using assms by (cases "bs = []") (auto simp: buf_holds_def put_octets_def)

lemma take_octets_holds:
  assumes "in_wf (ub_streamIn (bp_block q p))" "in_rest (ub_streamIn (bp_block q p)) = octets_bits bs @ rest"
    "buf_holds pb pre" "length pre + length bs \<le> MAX_RLC_PDU_SIZE"
  shows "\<exists>pb' str. take_octets p (int (length bs)) (pb, q) = Some (pb', set_stream p str q) \<and>
     buf_holds pb' (pre @ bs) \<and> in_wf str \<and> in_rest str = rest"
proof -
  obtain buf pos where pb: "pb = (buf, pos)" by force
  obtain str where str: "ExtractBytesN (int (length bs)) (ub_streamIn (bp_block q p)) = Some (RLC_MAC_SUCCESS, Some bs, str)"
    "in_wf str" "in_rest str = rest"
    using ExtractBytesN_bits [OF assms(1,2)] by blast
  obtain buf' where "put_octets bs (buf, pos) = Some buf'" "buf_holds (buf', pos + int (length bs)) (pre @ bs)"
    using put_octets_holds assms(3,4) pb by blast
  then show ?thesis using str pb by (auto simp: take_octets_def)
qed

lemma reassemble_plain:
  assumes "plain_block n cv pl (bp_block q p)" "buf_holds pb pre" "length pre + length pl \<le> MAX_RLC_PDU_SIZE"
  shows "\<exists>pb' str. reassemble_block p (pb, q) = Some (pb', set_stream p str q) \<and> buf_holds pb' (pre @ pl)"
proof -
  obtain rest where "in_rest (ub_streamIn (bp_block q p)) = octets_bits pl @ rest"
    using assms(1) by (auto simp: plain_block_def)
  then have "\<exists>pb' str. take_octets p (int (length pl)) (pb, q) = Some (pb', set_stream p str q) \<and> buf_holds pb' (pre @ pl)"
    using take_octets_holds [of q p pl rest pb pre] assms by (auto simp: plain_block_def)
  then show ?thesis using assms(1) by (simp add: reassemble_block_def plain_block_def Let_def)
qed

lemma set_stream_other [simp]:
  "r \<noteq> p \<Longrightarrow> bp_block (set_stream p str q) r = bp_block q r"
  "ub_ulHeader (bp_block (set_stream p str q) r) = ub_ulHeader (bp_block q r)"
  by (simp_all add: set_stream_def)

lemma pdu_loop_plain:
  assumes "i < n" "n \<le> RLC_MOD_VAL" "lk_lastDataBlock l = int n - 1"
    "\<And>j. i \<le> j \<Longrightarrow> j < n \<Longrightarrow> lk_pUlBlocks l ! j = Some (a j)"
    "\<And>j. i \<le> j \<Longrightarrow> j < n \<Longrightarrow> \<exists>cv. plain_block j cv (pl j) (bp_block q (a j))"
    "inj_on a {..<n}" "buf_holds pb pre" "length pre + length (concat (map pl [i..<n])) \<le> MAX_RLC_PDU_SIZE"
  shows "\<exists>pb' q'. pdu_loop l (int i) (pb, q) = Some (int n - 1, pb', q') \<and>
     buf_holds pb' (pre @ concat (map pl [i..<n])) \<and>
     (\<forall>xs. pool_holds q' xs = pool_holds q xs) \<and> (\<forall>r. ub_ulHeader (bp_block q' r) = ub_ulHeader (bp_block q r))"
  using assms
proof (induction "n - i" arbitrary: i pb pre q)
  case (Suc d)
  have upt: "[i..<n] = i # [Suc i..<n]" using Suc.prems(1) by (simp add: upt_conv_Cons)
  obtain cv where plain: "plain_block i cv (pl i) (bp_block q (a i))" using Suc.prems(1,5) by auto
  obtain pb1 str where one: "reassemble_block (a i) (pb, q) = Some (pb1, set_stream (a i) str q)"
    and pb1: "buf_holds pb1 (pre @ pl i)"
    using reassemble_plain [OF plain Suc.prems(7)] Suc.prems(8) upt by auto
  let ?q1 = "set_stream (a i) str q"
  have step: "pdu_loop l (int i) (pb, q) =
      (if int i = int n - 1 then Some (int i, pb1, ?q1) else pdu_loop l ((int i + 1) mod MOD) (pb1, ?q1))"
    using Suc.prems(1-4) one by (simp add: pdu_loop.simps [of l "int i"])
  show ?case
  proof (cases "i = n - 1")
    case True
    then have "[i..<n] = [i]" "int i = int n - 1" using upt Suc.prems(1) by auto
    then show ?thesis using step pb1 by auto
  next
    case False
    have "(int i + 1) mod MOD = int (Suc i)" using Suc.prems(1,2) False by (simp add: mod_pos_pos_trivial)
    then have rec: "pdu_loop l (int i) (pb, q) = pdu_loop l (int (Suc i)) (pb1, ?q1)"
      using step False Suc.prems(1) by auto
    have ne: "a j \<noteq> a i" if "Suc i \<le> j" "j < n" for j
      using inj_onD [OF Suc.prems(6), of j i] Suc.prems(1) that by auto
    have "\<exists>cv. plain_block j cv (pl j) (bp_block ?q1 (a j))" if "Suc i \<le> j" "j < n" for j
      using Suc.prems(5) [of j] ne [OF that] that by simp
    then show ?thesis
      using Suc.hyps(1) [of "Suc i" ?q1 pb1 "pre @ pl i"] Suc.hyps(2) Suc.prems False pb1 upt rec by auto
  qed
qed simp


section \<open>The blocks of a PDU arrive\<close>

text \<open>The window update changes nothing else of the link.\<close>

lemma UpdateRcvStateVariables_lk:
  "UpdateRcvStateVariables bsn (l :: ULRlcLink) = Some (f, l') \<Longrightarrow>
     lk_pUlBlocks l' = lk_pUlBlocks l \<and> lk_firstDataBlock l' = lk_firstDataBlock l \<and>
     lk_lastDataBlock l' = lk_lastDataBlock l \<and> lk_endOfTBF l' = lk_endOfTBF l \<and>
     lk_chanCoding l' = lk_chanCoding l \<and> lk_numRLCBlocksSinceLastAck l' = lk_numRLCBlocksSinceLastAck l \<and>
     rw_rlcMode l' = rw_rlcMode l"
  by (auto simp: UpdateRcvStateVariables_def UpdateAcked_def UpdateUnacked_def Let_def
      split: RLC_MODE.splits if_splits option.splits)

lemma sim_lk [simp]:
  "sim x (l\<lparr>lk_n3101 := n, lk_n3101FirstBlkBuffer := m\<rparr>) = sim x (l :: ULRlcLink)"
  "sim x (l\<lparr>lk_pUlBlocks := blks\<rparr>) = sim x l"
  "sim x (l\<lparr>lk_numRLCBlocksSinceLastAck := n\<rparr>) = sim x l"
  "sim x (l\<lparr>lk_endOfTBF := b\<rparr>) = sim x l"
  by (simp_all add: sim_def)

text \<open>The PDUs among the messages sent, and the ack/nacks that announce the end of the TBF.\<close>

fun pdus :: "ul_event list \<Rightarrow> octet list list" where
  "pdus [] = []"
| "pdus (UnitData t m pdu # es) = pdu # pdus es"
| "pdus (_ # es) = pdus es"

fun final_acks :: "ul_event list \<Rightarrow> nat" where
  "final_acks [] = 0"
| "final_acks (AckNackMsg t c an sp tag # es) = (if sp = RRBP_VALID then 1 else 0) + final_acks es"
| "final_acks (_ # es) = final_acks es"

lemma pdus_append [simp]: "pdus (es @ fs) = pdus es @ pdus fs"
  by (induction es rule: pdus.induct) auto

lemma final_acks_append [simp]: "final_acks (es @ fs) = final_acks es + final_acks fs"
  by (induction es rule: final_acks.induct) auto

text \<open>
  The state while the blocks of one PDU arrive: the window simulates the abstract receiver \<open>x\<close>, the
  blocks received are in the table, no end of a PDU and no end of the TBF has been seen.
\<close>

definition arriving :: "receiver \<Rightarrow> (nat \<Rightarrow> addr) \<Rightarrow> UlState \<Rightarrow> bool" where
  "arriving x a s \<longleftrightarrow> sim x (us_link s) \<and> length (lk_pUlBlocks (us_link s)) = RLC_MOD_VAL \<and>
     (\<forall>j < RLC_MOD_VAL. lk_pUlBlocks (us_link s) ! j = (if j \<in> rx_S x then Some (a j) else None)) \<and>
     lk_firstDataBlock (us_link s) = 0 \<and> lk_lastDataBlock (us_link s) = LAST_BLOCK_UNKNOWN \<and>
     \<not> lk_endOfTBF (us_link s)"

text \<open>What the arrival of a block that ends nothing leaves alone.\<close>

definition same_outside :: "UlState \<Rightarrow> UlState \<Rightarrow> bool" where
  "same_outside s s' \<longleftrightarrow> us_pool s' = us_pool s \<and> us_tbf s' = us_tbf s \<and> us_rxBuff s' = us_rxBuff s \<and>
     us_stack s' = us_stack s \<and> us_sysCtlAckCount s' = us_sysCtlAckCount s \<and> us_T3169 s' = us_T3169 s \<and>
     lk_chanCoding (us_link s') = lk_chanCoding (us_link s) \<and>
     pdus (us_out s') = pdus (us_out s) \<and> final_acks (us_out s') = final_acks (us_out s)"

lemma acknowledge_middle:
  assumes "cv \<noteq> 0" "\<not> lk_endOfTBF (us_link s)"
  shows "\<exists>n. us_link (acknowledge cv s) = (us_link s)\<lparr>lk_numRLCBlocksSinceLastAck := n\<rparr>"
    "us_pool (acknowledge cv s) = us_pool s" "us_tbf (acknowledge cv s) = us_tbf s"
    "us_rxBuff (acknowledge cv s) = us_rxBuff s" "us_stack (acknowledge cv s) = us_stack s"
    "us_sysCtlAckCount (acknowledge cv s) = us_sysCtlAckCount s" "us_T3169 (acknowledge cv s) = us_T3169 s"
    "pdus (us_out (acknowledge cv s)) = pdus (us_out s)"
    "final_acks (us_out (acknowledge cv s)) = final_acks (us_out s)"
  using assms
  by (auto simp: acknowledge_def ack_due_def Let_def SendULAckNack_def final_ack_due_def emit_def split: if_splits)


text \<open>Reception up to the acknowledgement: the window accepts the block and the table keeps it.\<close>

lemma arriving_bounds:
  assumes "arriving x a s" "n \<notin> rx_S x" "n < 63" "rx_R x \<le> 63"
  shows "rx_Q x \<le> n" "n < rx_Q x + 63" "rx_Q x div 128 = rx_R x div 128 \<or> rx_R x \<le> n" "lk_pUlBlocks (us_link s) ! n = None"
proof -
  have s: "sim x (us_link s)" "\<forall>j < 128. lk_pUlBlocks (us_link s) ! j = (if j \<in> rx_S x then Some (a j) else None)"
    using assms(1) by (simp_all add: arriving_def)
  then have q: "{..<rx_Q x} \<subseteq> rx_S x" "rx_Q x \<le> rx_R x" by (simp_all add: sim_def)
  show "rx_Q x \<le> n" using q(1) assms(2) by (meson lessThan_iff not_le subsetD)
  show "n < rx_Q x + 63" using assms(3) by simp
  show "rx_Q x div 128 = rx_R x div 128 \<or> rx_R x \<le> n" using q(2) assms(4) by simp
  show "lk_pUlBlocks (us_link s) ! n = None" using s(2) assms(2,3) by auto
qed

lemma arriving_store:
  assumes s: "arriving x a s" and n: "n \<notin> rx_S x" "n < 63" "rx_R x \<le> 63"
    and h: "uint (ul_bsn (ub_ulHeader (bp_block (us_pool s) (a n)))) = int n"
      "ul_countdownVal (ub_ulHeader (bp_block (us_pool s) (a n))) = cv"
  shows "\<exists>s1. ReceiveULDataBlock (a n) s = check_assembly (a n) (acknowledge cv s1) \<and>
     arriving (receive n x) a s1 \<and> same_outside s s1"
proof -
  note bd = arriving_bounds [OF s n]
  define s0 where "s0 = s\<lparr>us_link := (us_link s)\<lparr>lk_n3101 := 0, lk_n3101FirstBlkBuffer := 0\<rparr>, us_activity := True\<rparr>"
  have sim0: "sim x (us_link s0)" using s by (simp add: s0_def arriving_def)
  then obtain l where l: "UpdateRcvStateVariables (int n mod 128) (us_link s0) = Some (True, l)" "sim (receive n x) l"
    using receive_refines [of x "us_link s0" n] bd by blast
  note lk = UpdateRcvStateVariables_lk [OF l(1)]
  define s1 where "s1 = s0\<lparr>us_link := l\<lparr>lk_pUlBlocks := (lk_pUlBlocks (us_link s))[n := Some (a n)]\<rparr>\<rparr>"
  have m: "int n mod 128 = int n" using n(2) by simp
  have "store_block (a n) n (s0\<lparr>us_link := l\<rparr>) = Some s1"
    using lk bd(4) by (simp add: store_block_def s1_def s0_def)
  then have "ReceiveULDataBlock (a n) s = check_assembly (a n) (acknowledge cv s1)"
    using l(1) h m by (simp add: ReceiveULDataBlock_def Let_def s0_def)
  moreover have "arriving (receive n x) a s1"
  proof -
    have blks: "lk_pUlBlocks (us_link s1) ! j = (if j \<in> rx_S (receive n x) then Some (a j) else None)" if "j < 128" for j
    proof -
      have "length (lk_pUlBlocks (us_link s)) = 128"
        "lk_pUlBlocks (us_link s) ! j = (if j \<in> rx_S x then Some (a j) else None)"
        using s that by (simp_all add: arriving_def)
      then show ?thesis using that n(2) by (simp add: s1_def nth_list_update receive_def Let_def)
    qed
    have "sim (receive n x) (us_link s1)" using l(2) by (simp add: s1_def)
    moreover have "length (lk_pUlBlocks (us_link s1)) = 128" "lk_firstDataBlock (us_link s1) = 0"
      "lk_lastDataBlock (us_link s1) = - 1" "\<not> lk_endOfTBF (us_link s1)"
      using s lk by (simp_all add: arriving_def s1_def s0_def)
    ultimately show ?thesis using blks by (simp add: arriving_def)
  qed
  moreover have "same_outside s s1" using lk by (simp add: same_outside_def s1_def s0_def)
  ultimately show ?thesis by blast
qed

lemma receive_middle:
  assumes s: "arriving x a s" and n: "n \<notin> rx_S x" "n < 63" "rx_R x \<le> 63"
    and b: "plain_block n cv pl (bp_block (us_pool s) (a n))" "cv \<noteq> 0"
  shows "\<exists>s'. ReceiveULDataBlock (a n) s = Some s' \<and> arriving (receive n x) a s' \<and> same_outside s s'"
proof -
  obtain s1 where s1: "ReceiveULDataBlock (a n) s = check_assembly (a n) (acknowledge cv s1)"
    "arriving (receive n x) a s1" "same_outside s s1"
    using arriving_store [OF s n plain_block_header [OF b(1)]] by blast
  have e: "\<not> lk_endOfTBF (us_link s1)" using s1(2) by (simp add: arriving_def)
  note ack = acknowledge_middle [OF b(2) e]
  obtain k where k: "us_link (acknowledge cv s1) = (us_link s1)\<lparr>lk_numRLCBlocksSinceLastAck := k\<rparr>"
    using ack(1) by blast
  have p: "us_pool s1 = us_pool s" using s1(3) by (simp add: same_outside_def)
  have "note_last_block (ub_ulHeader (bp_block (us_pool s) (a n))) (us_link (acknowledge cv s1)) = us_link (acknowledge cv s1)"
    using b by (simp add: note_last_block_def Let_def plain_block_def)
  then have "IsPDUAssemblyNeeded (ub_ulHeader (bp_block (us_pool s) (a n))) (us_link (acknowledge cv s1)) =
      (False, us_link (acknowledge cv s1))"
    using s1(2) by (simp add: IsPDUAssemblyNeeded_def Let_def k arriving_def)
  then have "ReceiveULDataBlock (a n) s = Some (acknowledge cv s1)"
    using s1(1) p by (simp add: check_assembly_def)
  moreover have "arriving (receive n x) a (acknowledge cv s1)"
    using s1(2) unfolding arriving_def by (simp add: k)
  moreover have "same_outside s (acknowledge cv s1)"
    using s1(3) ack(2-) unfolding same_outside_def by (simp add: k)
  ultimately show ?thesis by blast
qed


fun receive_all :: "addr list \<Rightarrow> UlState \<Rightarrow> UlState option" where
  "receive_all [] s = Some s"
| "receive_all (p # ps) s = Option.bind (ReceiveULDataBlock p s) (receive_all ps)"

lemma receive_all_append:
  "receive_all (ps @ qs) s = Option.bind (receive_all ps s) (receive_all qs)"
  by (induction ps arbitrary: s) (auto split: bind_splits)

lemma same_outside_trans: "same_outside s t \<Longrightarrow> same_outside t u \<Longrightarrow> same_outside s u"
  by (simp add: same_outside_def)

lemma receive_simps: "rx_S (receive n x) = insert n (rx_S x)" "rx_R (receive n x) = max (rx_R x) (Suc n)"
  by (simp_all add: receive_def Let_def)

lemma receive_middles:
  assumes "arriving x a s" "distinct ns" "set ns \<inter> rx_S x = {}" "rx_R x \<le> m" "m \<le> 63"
    "\<And>n. n \<in> set ns \<Longrightarrow> n < m \<and> (\<exists>cv. cv \<noteq> 0 \<and> plain_block n cv (pl n) (bp_block (us_pool s) (a n)))"
  shows "\<exists>s' x'. receive_all (map a ns) s = Some s' \<and> arriving x' a s' \<and> same_outside s s' \<and>
     rx_S x' = rx_S x \<union> set ns \<and> rx_R x' \<le> m"
  using assms
proof (induction ns arbitrary: x s)
  case Nil
  then show ?case by (auto simp: same_outside_def)
next
  case (Cons n ns)
  obtain cv where n: "n < m" "cv \<noteq> 0" "plain_block n cv (pl n) (bp_block (us_pool s) (a n))"
    using Cons.prems(6) [of n] by auto
  have out: "n \<notin> rx_S x" using Cons.prems(3) by auto
  obtain s1 where s1: "ReceiveULDataBlock (a n) s = Some s1" "arriving (receive n x) a s1" "same_outside s s1"
    using receive_middle [OF Cons.prems(1) out _ _ n(3,2)] n(1) Cons.prems(4,5) by auto
  have pool: "us_pool s1 = us_pool s" using s1(3) by (simp add: same_outside_def)
  have disj: "set ns \<inter> rx_S (receive n x) = {}" using Cons.prems(2,3) by (auto simp: receive_simps)
  have R: "rx_R (receive n x) \<le> m" using Cons.prems(4) n(1) by (simp add: receive_simps)
  have blk: "k < m \<and> (\<exists>cv. cv \<noteq> 0 \<and> plain_block k cv (pl k) (bp_block (us_pool s1) (a k)))" if "k \<in> set ns" for k
    using Cons.prems(6) [of k] that pool by simp
  obtain s' x' where s': "receive_all (map a ns) s1 = Some s'" "arriving x' a s'" "same_outside s1 s'"
    "rx_S x' = rx_S (receive n x) \<union> set ns" "rx_R x' \<le> m"
    using Cons.IH [OF s1(2) _ disj R Cons.prems(5) blk] Cons.prems(2) by auto
  show ?case
    using s1(1) s' same_outside_trans [OF s1(3) s'(3)] by (intro exI [of _ s'] exI [of _ x']) (auto simp: receive_simps)
qed

section \<open>The last block\<close>

lemma acknowledge_final:
  assumes "rw_rlcMode (us_link s) = ACKNOWLEDGED_RLC_MODE" "rw_vR (us_link s) = rw_vQ (us_link s)"
  shows "\<exists>an tag. us_link (acknowledge 0 s) =
       (us_link s)\<lparr>lk_numRLCBlocksSinceLastAck := MAX_RLC_BLOCKS_BETWEEN_ACKS, lk_endOfTBF := True\<rparr> \<and>
     us_pool (acknowledge 0 s) = us_pool s \<and> us_stack (acknowledge 0 s) = us_stack s \<and>
     us_rxBuff (acknowledge 0 s) = us_rxBuff s \<and>
     us_tbf (acknowledge 0 s) = (us_tbf s)\<lparr>tbf_state := INACTIVE, ul_ctlAckTag := tag\<rparr> \<and>
     us_out (acknowledge 0 s) =
       us_out s @ [AckNackMsg (tbf_tfi (us_tbf s)) (lk_chanCoding (us_link s)) an RRBP_VALID tag] \<and>
     (an_isValid an \<longrightarrow> an_finalAckIndication an = TBF_COMPLETE)"
  using assms
  by (simp add: acknowledge_def ack_due_def Let_def SendULAckNack_def final_ack_due_def emit_def
      take_ack_tag_def UL_SetControlAckTag_def UL_SetTbfState_def SetAckNackDescription_def an_new_def)

text \<open>Scanning after the last block of the TBF: its blocks go back, nothing more to reassemble.\<close>

lemma ScanDataBlocks_end:
  assumes "owns S s" "Suc n < RLC_MOD_VAL" "lk_firstDataBlock (us_link s) = 0"
    "lk_pUlBlocks (us_link s) ! n = Some p" "rw_vR (us_link s) = int n + 1"
    "ul_extensionBit (ub_ulHeader (bp_block (us_pool s) p)) = NO_EXTENSION_OCTET"
  shows "\<exists>blks q. ScanDataBlocks (int n) s = Some (False, s\<lparr>us_link := (us_link s)\<lparr>lk_pUlBlocks := blks,
       lk_firstDataBlock := int n + 1, lk_lastDataBlock := LAST_BLOCK_UNKNOWN\<rparr>, us_pool := q\<rparr>) \<and> owned S blks q \<and>
     (\<forall>i. blks ! i = (if i \<le> n then None else lk_pUlBlocks (us_link s) ! i))"
proof -
  let ?h = "ub_ulHeader (bp_block (us_pool s) p)"
  have ns: "next_start (int n) ?h = Some (int (Suc n), ?h)" using assms(6) by (simp add: next_start_def)
  obtain blks q where r: "ReleaseDataBlocks (int 0) (int (Suc n)) (s\<lparr>us_pool := set_header p ?h (us_pool s)\<rparr>) =
       Some ((s\<lparr>us_pool := set_header p ?h (us_pool s)\<rparr>)\<lparr>us_link := (us_link s)\<lparr>lk_pUlBlocks := blks\<rparr>, us_pool := q\<rparr>)"
    "owned S blks q" "\<forall>i. blks ! i = (if 0 \<le> i \<and> i < Suc n then None else lk_pUlBlocks (us_link s) ! i)"
    using ReleaseDataBlocks_range [of S "s\<lparr>us_pool := set_header p ?h (us_pool s)\<rparr>" 0 "Suc n"] assms(1,2) by auto
  have sc: "scan_loop (int (Suc n)) blk l = Some (False, l)" if "rw_vR l = int n + 1" for blk l
    using that by (subst scan_loop.simps) simp
  have "ScanDataBlocks (int n) s = Some (False, s\<lparr>us_link := (us_link s)\<lparr>lk_pUlBlocks := blks,
       lk_firstDataBlock := int n + 1, lk_lastDataBlock := LAST_BLOCK_UNKNOWN\<rparr>, us_pool := q\<rparr>)"
    using assms(2-5) ns r(1) sc by (simp add: ScanDataBlocks_def)
  moreover have "\<forall>i. blks ! i = (if i \<le> n then None else lk_pUlBlocks (us_link s) ! i)"
    using r(3) by (simp add: less_Suc_eq_le)
  ultimately show ?thesis using r(2) by blast
qed

lemma arriving_complete:
  assumes "arriving x a s" "rx_S x = {..<n}" "rx_R x \<le> n"
  shows "rx_Q x = n" "rx_R x = n"
proof -
  have "{..<rx_Q x} \<subseteq> {..<n}" "rx_Q x \<notin> {..<n}" "rx_Q x \<le> rx_R x"
    using assms(1,2) by (simp_all add: arriving_def sim_def)
  then show "rx_Q x = n" "rx_R x = n" using assms(3) by auto
qed

lemma reassemble_whole:
  assumes own: "owns S s" and n: "Suc n < RLC_MOD_VAL" and l: "lk_firstDataBlock (us_link s) = 0"
    "lk_lastDataBlock (us_link s) = int n" "rw_vR (us_link s) = int n + 1"
    and blks: "\<And>j. j \<le> n \<Longrightarrow> lk_pUlBlocks (us_link s) ! j = Some (a j)"
    and plain: "\<And>j. j \<le> n \<Longrightarrow> \<exists>cv. plain_block j cv (pl j) (bp_block (us_pool s) (a j))"
    and inj: "inj_on a {..n}" and stack: "length (us_stack s) = MAX_RLC_PDU_SIZE"
    and size: "length (concat (map pl [0..<Suc n])) \<le> MAX_RLC_PDU_SIZE"
    and buff: "us_rxBuff s (length (concat (map pl [0..<Suc n])))"
  shows "\<exists>s'. ReassembleULPDU s = Some s' \<and> owns S s' \<and> us_tbf s' = us_tbf s \<and>
     us_out s' = us_out s @ [UnitData (tbf_tlli (us_tbf s)) (rw_rlcMode (us_link s)) (concat (map pl [0..<Suc n]))] \<and>
     (\<forall>i. lk_pUlBlocks (us_link s') ! i = (if i \<le> n then None else lk_pUlBlocks (us_link s) ! i)) \<and>
     lk_firstDataBlock (us_link s') = int n + 1 \<and> lk_lastDataBlock (us_link s') = LAST_BLOCK_UNKNOWN"
proof -
  let ?pdu = "concat (map pl [0..<Suc n])"
  have buf0: "buf_holds (us_stack s, 0) []" using stack by (simp add: buf_holds_def)
  have "\<exists>pb q. pdu_loop (us_link s) (int 0) ((us_stack s, 0), us_pool s) = Some (int (Suc n) - 1, pb, q) \<and>
      buf_holds pb ([] @ concat (map pl [0..<Suc n])) \<and> (\<forall>xs. pool_holds q xs = pool_holds (us_pool s) xs) \<and>
      (\<forall>r. ub_ulHeader (bp_block q r) = ub_ulHeader (bp_block (us_pool s) r))"
    by (rule pdu_loop_plain)
      (use n l blks plain inj buf0 size in \<open>auto simp: lessThan_Suc_atMost less_Suc_eq_le simp del: upt_Suc\<close>)
  then obtain pb q where loop: "pdu_loop (us_link s) 0 ((us_stack s, 0), us_pool s) = Some (int n, pb, q)"
    and pb: "buf_holds pb ?pdu" and q: "\<forall>xs. pool_holds q xs = pool_holds (us_pool s) xs"
    "\<forall>r. ub_ulHeader (bp_block q r) = ub_ulHeader (bp_block (us_pool s) r)"
    by (auto simp del: upt_Suc)
  let ?e = "UnitData (tbf_tlli (us_tbf s)) (rw_rlcMode (us_link s)) ?pdu"
  let ?s1 = "emit ?e (s\<lparr>us_pool := q\<rparr>)"
  have send: "SendBSSGPUnitData pb (s\<lparr>us_pool := q\<rparr>) = Some ?s1"
    using pb buff by (cases pb) (simp add: SendBSSGPUnitData_def buf_holds_def del: upt_Suc)
  obtain cv where an: "plain_block n cv (pl n) (bp_block (us_pool s) (a n))" using plain [of n] by auto
  have "\<exists>blks q'. ScanDataBlocks (int n) ?s1 = Some (False, ?s1\<lparr>us_link := (us_link ?s1)\<lparr>lk_pUlBlocks := blks,
       lk_firstDataBlock := int n + 1, lk_lastDataBlock := LAST_BLOCK_UNKNOWN\<rparr>, us_pool := q'\<rparr>) \<and> owned S blks q' \<and>
     (\<forall>i. blks ! i = (if i \<le> n then None else lk_pUlBlocks (us_link ?s1) ! i))"
  proof (rule ScanDataBlocks_end)
    show "owns S ?s1" using own q(1) by (simp add: emit_def owned_def)
    show "ul_extensionBit (ub_ulHeader (bp_block (us_pool ?s1) (a n))) = NO_EXTENSION_OCTET"
      using an q(2) by (simp add: emit_def plain_block_def)
  qed (use n l blks in \<open>simp_all add: emit_def\<close>)
  then obtain blks q' where scan: "ScanDataBlocks (int n) ?s1 = Some (False, ?s1\<lparr>us_link := (us_link ?s1)\<lparr>lk_pUlBlocks := blks,
       lk_firstDataBlock := int n + 1, lk_lastDataBlock := LAST_BLOCK_UNKNOWN\<rparr>, us_pool := q'\<rparr>)"
    "owned S blks q'" "\<forall>i. blks ! i = (if i \<le> n then None else lk_pUlBlocks (us_link ?s1) ! i)" by blast
  have "ReassembleULPDU s = Some (?s1\<lparr>us_link := (us_link ?s1)\<lparr>lk_pUlBlocks := blks,
       lk_firstDataBlock := int n + 1, lk_lastDataBlock := LAST_BLOCK_UNKNOWN\<rparr>, us_pool := q'\<rparr>)"
    unfolding ReassembleULPDU_def l(1) by (subst reassemble_loop.simps) (simp add: loop send scan(1) del: upt_Suc)
  then show ?thesis using scan(2,3) by (auto simp: emit_def simp del: upt_Suc)
qed


lemma receive_last:
  assumes s: "arriving x a s" "rx_S x = {..<n}" "rx_R x \<le> n" "n < 63"
    and plain: "\<And>j. j < n \<Longrightarrow> \<exists>cv. plain_block j cv (pl j) (bp_block (us_pool s) (a j))"
      "plain_block n 0 (pl n) (bp_block (us_pool s) (a n))"
    and own: "pool_holds (us_pool s) xs" "inj_on a {..n}" "a ` {..n} \<inter> set xs = {}"
    and stack: "length (us_stack s) = MAX_RLC_PDU_SIZE"
    and size: "length (concat (map pl [0..<Suc n])) \<le> MAX_RLC_PDU_SIZE"
    and buff: "us_rxBuff s (length (concat (map pl [0..<Suc n])))"
  shows "\<exists>s' an tag. ReceiveULDataBlock (a n) s = Some s' \<and> owns (set xs \<union> a ` {..n}) s' \<and>
     tbf_state (us_tbf s') = INACTIVE \<and> (\<forall>i < RLC_MOD_VAL. lk_pUlBlocks (us_link s') ! i = None) \<and>
     (\<exists>acks. us_out s' = acks @ [AckNackMsg (tbf_tfi (us_tbf s)) (lk_chanCoding (us_link s)) an RRBP_VALID tag,
        UnitData (tbf_tlli (us_tbf s)) ACKNOWLEDGED_RLC_MODE (concat (map pl [0..<Suc n]))] \<and>
        pdus acks = pdus (us_out s) \<and> final_acks acks = final_acks (us_out s)) \<and>
     (an_isValid an \<longrightarrow> an_finalAckIndication an = TBF_COMPLETE)"
proof -
  let ?pdu = "concat (map pl [0..<Suc n])"
  have new: "n \<notin> rx_S x" "rx_R x \<le> 63" using s by auto
  obtain s1 where s1: "ReceiveULDataBlock (a n) s = check_assembly (a n) (acknowledge 0 s1)"
    "arriving (receive n x) a s1" "same_outside s s1"
    using arriving_store [OF s(1) new(1) s(4) new(2) plain_block_header [OF plain(2)]] by blast
  have S: "rx_S (receive n x) = {..<Suc n}" "rx_R (receive n x) \<le> Suc n"
    using s(2,3) by (simp_all add: receive_simps lessThan_Suc)
  note full = arriving_complete [OF s1(2) S]
  have l1: "rw_rlcMode (us_link s1) = ACKNOWLEDGED_RLC_MODE" "rw_vQ (us_link s1) = int n + 1"
    "rw_vR (us_link s1) = int n + 1" "lk_firstDataBlock (us_link s1) = 0" "lk_lastDataBlock (us_link s1) = - 1"
    "length (lk_pUlBlocks (us_link s1)) = 128"
    using s1(2) full s(4) by (simp_all add: arriving_def sim_def)
  have blks: "lk_pUlBlocks (us_link s1) ! j = (if j \<le> n then Some (a j) else None)" if "j < 128" for j
    using s1(2) that by (auto simp: arriving_def S)
  have pool: "us_pool s1 = us_pool s" "us_tbf s1 = us_tbf s" "us_rxBuff s1 = us_rxBuff s" "us_stack s1 = us_stack s"
    "lk_chanCoding (us_link s1) = lk_chanCoding (us_link s)"
    "pdus (us_out s1) = pdus (us_out s)" "final_acks (us_out s1) = final_acks (us_out s)"
    using s1(3) by (simp_all add: same_outside_def)
  have eqRQ: "rw_vR (us_link s1) = rw_vQ (us_link s1)" using l1(2,3) by simp
  define s2 where "s2 = acknowledge 0 s1"
  obtain an tag where s2: "us_link s2 = (us_link s1)\<lparr>lk_numRLCBlocksSinceLastAck := 32, lk_endOfTBF := True\<rparr>"
    "us_pool s2 = us_pool s" "us_stack s2 = us_stack s" "us_rxBuff s2 = us_rxBuff s"
    "us_tbf s2 = (us_tbf s)\<lparr>tbf_state := INACTIVE, ul_ctlAckTag := tag\<rparr>"
    "us_out s2 = us_out s1 @ [AckNackMsg (tbf_tfi (us_tbf s)) (lk_chanCoding (us_link s)) an RRBP_VALID tag]"
    "an_isValid an \<longrightarrow> an_finalAckIndication an = TBF_COMPLETE"
    using acknowledge_final [OF l1(1) eqRQ] pool unfolding s2_def by auto
  define s3 where "s3 = s2\<lparr>us_link := (us_link s2)\<lparr>lk_lastDataBlock := int n\<rparr>\<rparr>"
  have h: "uint (ul_bsn (ub_ulHeader (bp_block (us_pool s) (a n)))) = int n"
    "ul_countdownVal (ub_ulHeader (bp_block (us_pool s) (a n))) = 0"
    using plain(2) by (simp_all add: plain_block_def)
  have "IsPDUAssemblyNeeded (ub_ulHeader (bp_block (us_pool s) (a n))) (us_link s2) =
      (True, (us_link s2)\<lparr>lk_lastDataBlock := int n\<rparr>)"
    using l1 s(4) unfolding s2(1)
    by (simp add: IsPDUAssemblyNeeded_def note_last_block_def all_received_def h)
  then have rec: "ReceiveULDataBlock (a n) s = ReassembleULPDU s3"
    using s1(1) by (simp add: check_assembly_def s2_def [symmetric] s2(2) s3_def)
  have "owned (set xs \<union> a ` {..n}) (lk_pUlBlocks (us_link s1)) (us_pool s)"
  proof -
    have "{p. \<exists>i < 128. lk_pUlBlocks (us_link s1) ! i = Some p} = a ` {..n}"
    proof (intro equalityI subsetI)
      fix p assume "p \<in> a ` {..n}"
      then obtain j where "j \<le> n" "p = a j" by auto
      then show "p \<in> {p. \<exists>i < 128. lk_pUlBlocks (us_link s1) ! i = Some p}"
        using blks [of j] s(4) by (auto intro!: exI [of _ j])
    qed (use blks in \<open>auto split: if_splits\<close>)
    moreover have "\<forall>i < 128. \<forall>j < 128. \<forall>p. lk_pUlBlocks (us_link s1) ! i = Some p \<longrightarrow>
        lk_pUlBlocks (us_link s1) ! j = Some p \<longrightarrow> i = j"
      using blks inj_onD [OF own(2)] by (auto split: if_splits)
    moreover have "\<forall>i < 128. \<forall>p. lk_pUlBlocks (us_link s1) ! i = Some p \<longrightarrow> p \<notin> set xs"
      using blks own(3) by (auto split: if_splits)
    ultimately show ?thesis unfolding owned_def using own(1) l1(6) by (intro exI [of _ xs]) simp
  qed
  then have own3: "owns (set xs \<union> a ` {..n}) s3" by (simp add: s3_def s2)
  have plain3: "\<exists>cv. plain_block j cv (pl j) (bp_block (us_pool s3) (a j))" if "j \<le> n" for j
    using plain(1) [of j] plain(2) that by (cases "j = n") (auto simp: s3_def s2)
  have "\<exists>s'. ReassembleULPDU s3 = Some s' \<and> owns (set xs \<union> a ` {..n}) s' \<and> us_tbf s' = us_tbf s3 \<and>
     us_out s' = us_out s3 @ [UnitData (tbf_tlli (us_tbf s3)) (rw_rlcMode (us_link s3)) ?pdu] \<and>
     (\<forall>i. lk_pUlBlocks (us_link s') ! i = (if i \<le> n then None else lk_pUlBlocks (us_link s3) ! i)) \<and>
     lk_firstDataBlock (us_link s') = int n + 1 \<and> lk_lastDataBlock (us_link s') = - 1"
    by (rule reassemble_whole [OF own3])
      (use l1 blks s(4) own(2) stack size buff plain3 in \<open>simp_all add: s3_def s2 del: upt_Suc\<close>)
  then obtain s' where s': "ReassembleULPDU s3 = Some s'" "owns (set xs \<union> a ` {..n}) s'" "us_tbf s' = us_tbf s3"
    "us_out s' = us_out s3 @ [UnitData (tbf_tlli (us_tbf s3)) (rw_rlcMode (us_link s3)) ?pdu]"
    "\<forall>i. lk_pUlBlocks (us_link s') ! i = (if i \<le> n then None else lk_pUlBlocks (us_link s3) ! i)" by blast
  have tab: "\<forall>i < 128. lk_pUlBlocks (us_link s') ! i = None" using s'(5) blks by (simp add: s3_def s2)
  have out: "us_out s' = us_out s1 @ [AckNackMsg (tbf_tfi (us_tbf s)) (lk_chanCoding (us_link s)) an RRBP_VALID tag,
        UnitData (tbf_tlli (us_tbf s)) ACKNOWLEDGED_RLC_MODE ?pdu]"
    using s'(4) l1(1) by (simp add: s3_def s2 del: upt_Suc)
  have st: "tbf_state (us_tbf s') = INACTIVE" using s'(3) by (simp add: s3_def s2)
  have run: "ReceiveULDataBlock (a n) s = Some s'" using rec s'(1) by simp
  have evs: "\<exists>acks. us_out s' = acks @ [AckNackMsg (tbf_tfi (us_tbf s)) (lk_chanCoding (us_link s)) an RRBP_VALID tag,
        UnitData (tbf_tlli (us_tbf s)) ACKNOWLEDGED_RLC_MODE ?pdu] \<and>
        pdus acks = pdus (us_out s) \<and> final_acks acks = final_acks (us_out s)"
    using out pool(6,7) by (intro exI [of _ "us_out s1"]) (simp only: simp_thms)
  from run s'(2) st tab evs s2(7) show ?thesis by blast
qed


text \<open>The link right after establishment, for an acknowledged TBF.\<close>

lemma arriving_established:
  "arriving receiver_new a (EstablishRLCLink ACKNOWLEDGED_RLC_MODE s)"
  by (simp add: arriving_def EstablishRLCLink_def ULRlcLink_clear_def sim_def receiver_new_def)

section \<open>Properties\<close>

text \<open>
  C9: delivery of an LLC PDU. On a newly established acknowledged link, let the blocks 0..n of a PDU
  (n below 63, no length octets, countdown value 0 in the last) arrive in any order that ends with
  block n. Whatever their contents, as long as the PDU fits the 1560-octet buffer and BSSGP has a
  buffer for it, every reception runs to its end; BSSGP gets exactly one message, which holds the
  payloads in order of the sequence numbers; exactly one ack/nack polls the mobile and says the TBF is
  complete; the TBF stops being scheduled; and every block is back in the pool.
\<close>

theorem pdu_delivered:
  assumes order: "distinct ns" "set ns = {..<n}" "n < 63"
    and blocks: "\<And>j. j < n \<Longrightarrow> \<exists>cv. cv \<noteq> 0 \<and> plain_block j cv (pl j) (bp_block (us_pool s) (a j))"
      "plain_block n 0 (pl n) (bp_block (us_pool s) (a n))"
    and own: "pool_holds (us_pool s) xs" "inj_on a {..n}" "a ` {..n} \<inter> set xs = {}"
    and stack: "length (us_stack s) = MAX_RLC_PDU_SIZE"
    and size: "length (concat (map pl [0..<Suc n])) \<le> MAX_RLC_PDU_SIZE"
    and buff: "us_rxBuff s (length (concat (map pl [0..<Suc n])))"
    and quiet: "us_out s = []"
  shows "\<exists>s' ys. receive_all (map a ns @ [a n]) (EstablishRLCLink ACKNOWLEDGED_RLC_MODE s) = Some s' \<and>
     pdus (us_out s') = [concat (map pl [0..<Suc n])] \<and> final_acks (us_out s') = 1 \<and>
     tbf_state (us_tbf s') = INACTIVE \<and>
     pool_holds (us_pool s') ys \<and> set ys = set xs \<union> a ` {..n}"
proof -
  define s0 where "s0 = EstablishRLCLink ACKNOWLEDGED_RLC_MODE s"
  have s0: "us_pool s0 = us_pool s" "us_stack s0 = us_stack s" "us_rxBuff s0 = us_rxBuff s" "us_out s0 = []"
    using quiet by (simp_all add: s0_def EstablishRLCLink_def)
  have "arriving receiver_new a s0" unfolding s0_def by (rule arriving_established)
  then obtain s1 x where s1: "receive_all (map a ns) s0 = Some s1" "arriving x a s1" "same_outside s0 s1"
    "rx_S x = rx_S receiver_new \<union> set ns" "rx_R x \<le> n"
    using receive_middles [of receiver_new a s0 ns n pl] order blocks(1) s0(1) by (auto simp: receiver_new_def)
  have S: "rx_S x = {..<n}" using s1(4) order(2) by (simp add: receiver_new_def)
  have same: "us_pool s1 = us_pool s" "us_stack s1 = us_stack s" "us_rxBuff s1 = us_rxBuff s"
    "pdus (us_out s1) = []" "final_acks (us_out s1) = 0"
    using s1(3) s0 by (simp_all add: same_outside_def)
  have mid: "\<exists>cv. plain_block j cv (pl j) (bp_block (us_pool s1) (a j))" if "j < n" for j
    using blocks(1) [OF that] same(1) by auto
  obtain s' an tag acks where s': "ReceiveULDataBlock (a n) s1 = Some s'" "owns (set xs \<union> a ` {..n}) s'"
    "tbf_state (us_tbf s') = INACTIVE" "\<forall>i < RLC_MOD_VAL. lk_pUlBlocks (us_link s') ! i = None"
    "us_out s' = acks @ [AckNackMsg (tbf_tfi (us_tbf s1)) (lk_chanCoding (us_link s1)) an RRBP_VALID tag,
        UnitData (tbf_tlli (us_tbf s1)) ACKNOWLEDGED_RLC_MODE (concat (map pl [0..<Suc n]))]"
    "pdus acks = []" "final_acks acks = 0"
    using receive_last [OF s1(2) S s1(5) order(3) mid] blocks(2) own stack size buff
    unfolding same by metis
  have "receive_all (map a ns @ [a n]) s0 = Some s'" using s1(1) s'(1) by (simp add: receive_all_append)
  moreover obtain ys where "pool_holds (us_pool s') ys" "set ys = set xs \<union> a ` {..n}"
    using owned_empty_table [OF s'(2,4)] by blast
  ultimately show ?thesis using s'(3,5-7) unfolding s0_def by (intro exI [of _ s'] exI [of _ ys]) (simp del: upt_Suc)
qed

text \<open>A concrete block: octets \<open>ds\<close> from layer 1 in coding CS-1, read up to the end of its header.\<close>

definition sample_block :: "octet \<Rightarrow> octet \<Rightarrow> octet list \<Rightarrow> ULDataBlock" where
  "sample_block n cv ds = \<lparr>
     ub_streamIn = \<lparr>in_dataStream = ds, in_bitPointer = 24, in_streamLen = 53, in_currByte = 3\<rparr>,
     ub_ulHeader = \<lparr>ul_payloadType = RLC_DATA_BLOCK, ul_retryBit = ONE_CHAN_REQ, ul_stallInd = NOT_STALLED,
       ul_countdownVal = cv, ul_tfi = 4, ul_tlliInd = TLLI_NOT_PRESENT, ul_bsn = n,
       ul_extensionBit = NO_EXTENSION_OCTET,
       ul_LengthOctets = replicate 10 \<lparr>lo_length = 0, lo_moreBit = MORE_LLC_DATA, lo_extensionBit = NO_EXTENSION_OCTET\<rparr>,
       ul_currLengthOctet = 0, ul_tlli = 0\<rparr>,
     ub_chanCoding = \<lparr>cc_isValid = True, cc_coding = CS_1\<rparr>\<rparr>"

lemma bits_between_octet: "k < length d \<Longrightarrow> bits_between d (8 * k) 8 = field 8 (d ! k)"
  by (rule nth_equalityI) (auto simp: sbit_def)

lemma bits_between_octets:
  "k + m \<le> length d \<Longrightarrow> bits_between d (8 * k) (8 * m) = octets_bits (take m (drop k d))"
proof (induction m)
  case (Suc m)
  have "bits_between d (8 * k) (8 * Suc m) = bits_between d (8 * k) (8 * m) @ bits_between d (8 * (k + m)) 8"
    using bits_between_add [of d "8 * k" "8 * m" 8] by (simp add: algebra_simps)
  then show ?case
    using Suc bits_between_octet [of "k + m" d] by (simp add: take_Suc_conv_app_nth)
qed simp

lemma sample_block_rest:
  assumes "length ds = 53"
  shows "in_rest (ub_streamIn (sample_block n cv ds)) = octets_bits (drop 3 ds)"
    "in_wf (ub_streamIn (sample_block n cv ds))"
proof -
  have "bits_between ds (8 * 3) (8 * 50) = octets_bits (take 50 (drop 3 ds))"
    using assms by (intro bits_between_octets) simp
  then show "in_rest (ub_streamIn (sample_block n cv ds)) = octets_bits (drop 3 ds)"
    using assms by (simp add: in_rest_def sample_block_def)
  show "in_wf (ub_streamIn (sample_block n cv ds))" using assms by (simp add: sample_block_def in_wf_def)
qed

lemma octets_bits_split: "octets_bits ds = octets_bits (take k ds) @ octets_bits (drop k ds)"
  by (subst append_take_drop_id [of k ds, symmetric]) (simp only: octets_bits_simps)

lemma sample_block_plain:
  assumes "length ds = 53" "uint n < 128"
  shows "plain_block (unat n) cv (take 20 (drop 3 ds)) (sample_block n cv ds)"
  using assms sample_block_rest [OF assms(1), of n cv] octets_bits_split [of "drop 3 ds" 20]
  by (auto simp: plain_block_def sample_block_def block_rest_def GetDataBlockLength_def)

text \<open>A link with blocks 8 and 7 out of the pool, which holds block 3.\<close>

definition sample_state :: "(addr \<Rightarrow> ULDataBlock) \<Rightarrow> UlState" where
  "sample_state blk = \<lparr>
     us_link = \<lparr>rw_rlcMode = ACKNOWLEDGED_RLC_MODE, rw_vQ = 0, rw_vN = replicate 128 INVALID, rw_vR = 0,
       lk_n3103 = 0, lk_n3101 = 0, lk_n3101FirstBlkBuffer = 0,
       lk_chanCoding = \<lparr>cc_isValid = True, cc_coding = CS_1\<rparr>, lk_pUlBlocks = replicate 128 None,
       lk_firstDataBlock = 0, lk_lastDataBlock = - 1, lk_numRLCBlocksSinceLastAck = 32, lk_endOfTBF = False\<rparr>,
     us_tbf = \<lparr>tbf_tfi = \<lparr>tfi_isValid = True, tfi_val = 4\<rparr>, tbf_tlli = 0xC0FFEE00, tbf_taiTs = 0, tbf_tai = 0,
       tbf_trx = 0, tbf_allocatedTs = [True, False, False, False, False, False, False, False],
       tbf_naturalTs = replicate 8 False, tbf_state = ALLOCATED, ul_usf = replicate 8 0, ul_ctlAckTag = 0xff\<rparr>,
     us_T3169 = False, us_activity = False,
     us_pool = \<lparr>bp_head = Some 3, bp_tail = Some 3, bp_next = (\<lambda>_. None), bp_block = blk\<rparr>,
     us_sysCtlAckCount = 5, us_rxBuff = (\<lambda>_. True), us_stack = replicate 1560 0xEE, us_out = []\<rparr>"

lemma sample_pool: "pool_holds (us_pool (sample_state blk)) [3]"
  by (simp add: pool_holds_def sample_state_def)

theorem pdu_delivered_witness:
  "\<exists>s' ys. receive_all [8, 7] (EstablishRLCLink ACKNOWLEDGED_RLC_MODE
       (sample_state (\<lambda>p. if p = 8 then sample_block 0 1 (replicate 53 0xAB) else sample_block 1 0 (replicate 53 0xCD)))) = Some s' \<and>
     pdus (us_out s') = [replicate 20 0xAB @ replicate 20 0xCD] \<and> final_acks (us_out s') = 1 \<and>
     tbf_state (us_tbf s') = INACTIVE \<and> pool_holds (us_pool s') ys \<and> set ys = {3, 7, 8}"
proof -
  let ?blk = "\<lambda>p :: addr. if p = 8 then sample_block 0 1 (replicate 53 0xAB) else sample_block 1 0 (replicate 53 0xCD)"
  let ?a = "\<lambda>j :: nat. 8 - j" and ?pl = "\<lambda>j :: nat. if j = 0 then replicate 20 (0xAB :: octet) else replicate 20 0xCD"
  have p0: "plain_block 0 1 (replicate 20 0xAB) (sample_block 0 1 (replicate 53 0xAB))"
    using sample_block_plain [of "replicate 53 0xAB" 0 1] by simp
  have p1: "plain_block 1 0 (replicate 20 0xCD) (sample_block 1 0 (replicate 53 0xCD))"
    using sample_block_plain [of "replicate 53 0xCD" 1 0] by simp
  have "\<exists>s' ys. receive_all (map ?a [0] @ [?a 1]) (EstablishRLCLink ACKNOWLEDGED_RLC_MODE (sample_state ?blk)) = Some s' \<and>
     pdus (us_out s') = [concat (map ?pl [0..<Suc 1])] \<and> final_acks (us_out s') = 1 \<and>
     tbf_state (us_tbf s') = INACTIVE \<and> pool_holds (us_pool s') ys \<and> set ys = set [3] \<union> ?a ` {..1}"
  proof (rule pdu_delivered)
    show "\<exists>cv. cv \<noteq> 0 \<and> plain_block j cv (?pl j) (bp_block (us_pool (sample_state ?blk)) (?a j))" if "j < 1" for j
      using that p0 by (intro exI [of _ 1]) (simp add: sample_state_def)
    show "plain_block 1 0 (?pl 1) (bp_block (us_pool (sample_state ?blk)) (?a 1))"
      using p1 by (simp add: sample_state_def)
    show "pool_holds (us_pool (sample_state ?blk)) [3]" by (rule sample_pool)
  qed (auto simp: sample_state_def inj_on_def)
  moreover have "set [3] \<union> ?a ` {..1} = {3, 7, 8}" by (auto simp: atMost_Suc)
  moreover have "concat (map ?pl [0..<Suc 1]) = replicate 20 0xAB @ replicate 20 0xCD" by (simp add: upt_rec)
  ultimately show ?thesis by (simp del: upt_Suc)
qed

section \<open>Silent mobiles\<close>

lemma grant_step:
  "snd (IncrementN3101 s) =
     (let s' = s\<lparr>us_link := (us_link s)\<lparr>lk_n3101 := lk_n3101 (us_link s) + 1\<rparr>\<rparr>
      in if lk_n3101 (us_link s) + 1 \<ge> N3101_MAX + lk_n3101FirstBlkBuffer (us_link s)
         then (UL_SetTbfState INACTIVE s')\<lparr>us_T3169 := True\<rparr> else s')"
  by (simp add: IncrementN3101_def Let_def)

fun grants :: "nat \<Rightarrow> UlState \<Rightarrow> UlState" where
  "grants 0 s = s"
| "grants (Suc k) s = snd (IncrementN3101 (grants k s))"

lemma grants_kept:
  "us_link (grants k s) = (us_link s)\<lparr>lk_n3101 := lk_n3101 (us_link s) + int k\<rparr> \<and> us_pool (grants k s) = us_pool s \<and>
   (int k + lk_n3101 (us_link s) < N3101_MAX + lk_n3101FirstBlkBuffer (us_link s) \<longrightarrow>
     us_tbf (grants k s) = us_tbf s \<and> us_T3169 (grants k s) = us_T3169 s)"
proof (induction k)
  case (Suc k)
  then show ?case by (simp add: grant_step Let_def UL_SetTbfState_def)
qed simp

lemma grants_limit:
  assumes "N3101_MAX + lk_n3101FirstBlkBuffer (us_link s) \<le> int (Suc k) + lk_n3101 (us_link s)"
  shows "tbf_state (us_tbf (grants (Suc k) s)) = INACTIVE \<and> us_T3169 (grants (Suc k) s)"
  using assms grants_kept [of k s] 
  by (simp add: grant_step Let_def UL_SetTbfState_def)

text \<open>
  C38: a mobile that never answers. From establishment with timeslots, each unused uplink grant counts
  N3101; up to 7 grants plus four for each allocated timeslot the TBF and T3169 stay as they were, with
  one more grant or any number after it the TBF is out of the schedule and T3169 runs, and the expiry
  of T3169 then frees the TBF with all its blocks back in the pool.
\<close>

theorem silent_mobile_released:
  assumes own: "owns S (EstablishRLCLink m s)" and slots: "n = length (filter id (take MAX_TIMESLOTS (tbf_allocatedTs (us_tbf s))))"
  shows "let t = UL_UpdateTSSpecificData (EstablishRLCLink m s) in
     (k < 8 + 4 * n \<longrightarrow> us_tbf (grants k t) = us_tbf t \<and> us_T3169 (grants k t) = us_T3169 s) \<and>
     (8 + 4 * n \<le> k \<longrightarrow> tbf_state (us_tbf (grants k t)) = INACTIVE \<and> us_T3169 (grants k t) \<and>
        (\<exists>s' xs. ProcessT3169Expiry (grants k t) = Some s' \<and> tbf_state (us_tbf s') = FREE \<and>
           pool_holds (us_pool s') xs \<and> set xs = S))"
proof -
  define t where "t = UL_UpdateTSSpecificData (EstablishRLCLink m s)"
  have t: "lk_n3101 (us_link t) = 0" "lk_n3101FirstBlkBuffer (us_link t) = 4 * int n" "us_T3169 t = us_T3169 s"
    "owns S t"
    using own by (simp_all add: t_def UL_UpdateTSSpecificData_def EstablishRLCLink_def UL_ClearControlAckTag_def slots)
  have "us_tbf (grants k t) = us_tbf t \<and> us_T3169 (grants k t) = us_T3169 s" if "k < 8 + 4 * n"
    using grants_kept [of k t] that t by simp
  moreover have "tbf_state (us_tbf (grants k t)) = INACTIVE \<and> us_T3169 (grants k t) \<and>
      (\<exists>s' xs. ProcessT3169Expiry (grants k t) = Some s' \<and> tbf_state (us_tbf s') = FREE \<and>
         pool_holds (us_pool s') xs \<and> set xs = S)" if "8 + 4 * n \<le> k"
  proof -
    obtain j where j: "k = Suc j" using \<open>8 + 4 * n \<le> k\<close> by (cases k) auto
    have "owns S (grants k t)" using grants_kept [of k t] t(4) by simp
    then have "\<exists>s' xs. ProcessT3169Expiry (grants k t) = Some s' \<and> tbf_state (us_tbf s') = FREE \<and>
        pool_holds (us_pool s') xs \<and> set xs = S"
      using end_of_TBF [of S "grants k t" ProcessT3169Expiry] by blast
    moreover have "N3101_MAX + lk_n3101FirstBlkBuffer (us_link t) \<le> int (Suc j) + lk_n3101 (us_link t)"
      using \<open>8 + 4 * n \<le> k\<close> t(1,2) j by linarith
    ultimately show ?thesis using grants_limit [of t j] j by simp
  qed
  ultimately show ?thesis unfolding t_def [symmetric] Let_def by blast
qed

theorem silent_mobile_released_witness:
  "let t = UL_UpdateTSSpecificData (EstablishRLCLink ACKNOWLEDGED_RLC_MODE (sample_state (\<lambda>_. sample_block 0 0 []))) in
     tbf_state (us_tbf (grants 11 t)) = ALLOCATED \<and> tbf_state (us_tbf (grants 12 t)) = INACTIVE \<and>
     (\<exists>s' xs. ProcessT3169Expiry (grants 12 t) = Some s' \<and> tbf_state (us_tbf s') = FREE \<and>
        pool_holds (us_pool s') xs \<and> set xs = {3})"
proof -
  let ?s = "sample_state (\<lambda>_. sample_block 0 0 [])"
  have own: "owns {3} (EstablishRLCLink ACKNOWLEDGED_RLC_MODE ?s)"
    using sample_pool [of "\<lambda>_. sample_block 0 0 []"]
    by (auto simp: owned_def EstablishRLCLink_def ULRlcLink_clear_def intro!: exI [of _ "[3]"])
  have n: "1 = length (filter id (take MAX_TIMESLOTS (tbf_allocatedTs (us_tbf ?s))))" by (simp add: sample_state_def)
  show ?thesis
    using silent_mobile_released [OF own n, of 11] silent_mobile_released [OF own n, of 12]
    by (auto simp: Let_def UL_UpdateTSSpecificData_def EstablishRLCLink_def UL_ClearControlAckTag_def sample_state_def)
qed

fun control_nacks :: "nat \<Rightarrow> UlState \<Rightarrow> UlState" where
  "control_nacks 0 s = s"
| "control_nacks (Suc k) s = ReceivePacketControlNack (control_nacks k s)"

lemma final_ack_due_lk [simp]:
  "final_ack_due (l\<lparr>lk_n3103 := n\<rparr>) = final_ack_due l"
  "final_ack_due (l\<lparr>lk_numRLCBlocksSinceLastAck := n\<rparr>) = final_ack_due l"
  by (simp_all add: final_ack_due_def split: RLC_MODE.split)

lemma SendULAckNack_final:
  assumes "final_ack_due (us_link s)"
  shows "final_acks (us_out (SendULAckNack s)) = Suc (final_acks (us_out s))"
    "us_link (SendULAckNack s) = (us_link s)\<lparr>lk_numRLCBlocksSinceLastAck := MAX_RLC_BLOCKS_BETWEEN_ACKS\<rparr>"
    "us_T3169 (SendULAckNack s) = us_T3169 s"
  using assms by (simp_all add: SendULAckNack_def Let_def take_ack_tag_def UL_SetControlAckTag_def UL_SetTbfState_def emit_def)

lemma control_nacks_count:
  assumes "final_ack_due (us_link s)" "lk_n3103 (us_link s) = 0"
  shows "final_ack_due (us_link (control_nacks k s)) \<and> lk_n3103 (us_link (control_nacks k s)) = int k \<and>
     final_acks (us_out (control_nacks k s)) = final_acks (us_out s) + min k 4 \<and>
     us_T3169 (control_nacks k s) = (us_T3169 s \<or> 5 \<le> k) \<and>
     lk_pUlBlocks (us_link (control_nacks k s)) = lk_pUlBlocks (us_link s) \<and> us_pool (control_nacks k s) = us_pool s"
proof (induction k)
  case (Suc k)
  define t where "t = control_nacks k s"
  define t' where "t' = t\<lparr>us_link := (us_link t)\<lparr>lk_n3103 := int k + 1\<rparr>\<rparr>"
  have step: "control_nacks (Suc k) s = (if int k + 1 < N3103_MAX then SendULAckNack t' else t'\<lparr>us_T3169 := True\<rparr>)"
    using Suc by (simp add: ReceivePacketControlNack_def Let_def t_def t'_def)
  have due: "final_ack_due (us_link t')" using Suc by (simp add: t_def t'_def)
  show ?case
  proof (cases "int k + 1 < N3103_MAX")
    case True
    then show ?thesis using Suc SendULAckNack_final [OF due] unfolding step
      by (simp add: t'_def t_def [symmetric])
  next
    case False
    then show ?thesis using Suc unfolding step by (simp add: t'_def t_def [symmetric])
  qed
qed (use assms in simp)

text \<open>
  C39: a mobile that does not acknowledge the final ack/nack. However many control nacks come in after
  a completed TBF, the link repeats the final ack/nack exactly for the first four; from the fifth on
  it only starts T3169, whose expiry frees the TBF with all its blocks back in the pool.
\<close>

theorem final_ack_repeated_four_times:
  assumes "final_ack_due (us_link s)" "lk_n3103 (us_link s) = 0" "\<not> us_T3169 s" "owns S s"
  shows "final_acks (us_out (control_nacks k s)) = final_acks (us_out s) + min k 4 \<and>
     us_T3169 (control_nacks k s) = (5 \<le> k) \<and>
     (\<exists>s' xs. ProcessT3169Expiry (control_nacks k s) = Some s' \<and> tbf_state (us_tbf s') = FREE \<and>
        pool_holds (us_pool s') xs \<and> set xs = S)"
proof -
  note c = control_nacks_count [OF assms(1,2), of k]
  have "owns S (control_nacks k s)" using c assms(4) by simp
  then show ?thesis using end_of_TBF [of S "control_nacks k s" ProcessT3169Expiry] c assms(3) by blast
qed

theorem final_ack_repeated_four_times_witness:
  "let s = (sample_state (\<lambda>_. sample_block 0 0 [])) in
   let t = s\<lparr>us_link := (us_link s)\<lparr>lk_endOfTBF := True\<rparr>\<rparr> in
     final_acks (us_out (control_nacks 3 t)) = 3 \<and> final_acks (us_out (control_nacks 9 t)) = 4 \<and>
     us_T3169 (control_nacks 9 t)"
proof -
  let ?s = "sample_state (\<lambda>_. sample_block 0 0 [])"
  let ?t = "?s\<lparr>us_link := (us_link ?s)\<lparr>lk_endOfTBF := True\<rparr>\<rparr>"
  have "final_ack_due (us_link ?t)" "lk_n3103 (us_link ?t) = 0" "\<not> us_T3169 ?t"
    by (simp_all add: final_ack_due_def sample_state_def)
  moreover have "owns {3} ?t"
    using sample_pool [of "\<lambda>_. sample_block 0 0 []"] by (auto simp: owned_def sample_state_def intro!: exI [of _ "[3]"])
  ultimately show ?thesis
    using final_ack_repeated_four_times [of ?t "{3}" 3] final_ack_repeated_four_times [of ?t "{3}" 9]
    by (simp add: Let_def) (simp add: sample_state_def)
qed

section \<open>Where reception goes wrong\<close>

text \<open>
  A PDU that ends in block 127. When the block after which the link scans on has sequence number
  127 and no length octet, the statement \<^verbatim>\<open>++currDataBlock % RLC_MOD_VAL;\<close> leaves 128, and the scan reads
  \<^verbatim>\<open>pUlBlocks[128]\<close>, outside the table, in every state with V(R) below 128.
\<close>

theorem scan_leaves_table_at_127:
  assumes "owns S s" "0 \<le> rw_vR (us_link s)" "rw_vR (us_link s) < 128"
    "lk_pUlBlocks (us_link s) ! 127 = Some p"
    "ul_extensionBit (ub_ulHeader (bp_block (us_pool s) p)) = NO_EXTENSION_OCTET"
  shows "ScanDataBlocks 127 s = None"
proof -
  have "scan_loop 128 blk l = None" if "rw_vR l = rw_vR (us_link s)" for blk l
    using that assms(2,3) by (subst scan_loop.simps) simp
  moreover have "rw_vR (us_link s') = rw_vR (us_link s)" if "ReleaseDataBlocks a b s = Some s'" for a b s s'
    using that by (auto simp: ReleaseDataBlocks_def)
  ultimately show ?thesis
    using assms(4,5) by (auto simp: ScanDataBlocks_def next_start_def split: bind_splits)
qed

text \<open>
  Completion announced with blocks missing. Once the last block of the TBF has been seen, the next
  accepted block (unless it is the periodic one) makes the link assign V(R) to V(Q) while it decides
  whether to acknowledge: it sends the final ack/nack, TBF complete, and stops scheduling the mobile,
  however many blocks are still missing between V(Q) and V(R).
\<close>

theorem completion_despite_holes:
  assumes "rw_rlcMode (us_link s) = ACKNOWLEDGED_RLC_MODE" "lk_endOfTBF (us_link s)" "cv \<noteq> 0"
    "lk_numRLCBlocksSinceLastAck (us_link s) \<noteq> 1" "0 < rw_vR (us_link s)" "rw_vR (us_link s) < 128"
    "rw_vQ (us_link s) \<noteq> rw_vR (us_link s)"
  shows "\<exists>an tag. rw_vQ (us_link (acknowledge cv s)) = rw_vR (us_link s) \<and>
     tbf_state (us_tbf (acknowledge cv s)) = INACTIVE \<and>
     us_out (acknowledge cv s) = us_out s @ [AckNackMsg (tbf_tfi (us_tbf s)) (lk_chanCoding (us_link s)) an RRBP_VALID tag] \<and>
     an_isValid an \<and> an_finalAckIndication an = TBF_COMPLETE"
proof -
  have "word_of_int (rw_vR (us_link s)) \<le> (127 :: octet)"
    using assms(5,6) by (simp add: word_le_def uint_word_of_int)
  then show ?thesis
    using assms
    by (simp add: acknowledge_def ack_due_def Let_def SendULAckNack_def final_ack_due_def emit_def
      take_ack_tag_def UL_SetControlAckTag_def UL_SetTbfState_def SetAckNackDescription_def)
qed

theorem completion_despite_holes_witness:
  "let s = (sample_state (\<lambda>_. sample_block 0 0 []))
        \<lparr>us_link := (us_link (sample_state (\<lambda>_. sample_block 0 0 [])))\<lparr>rw_vR := 4, rw_vQ := 1, lk_endOfTBF := True\<rparr>\<rparr> in
     rw_vQ (us_link (acknowledge 3 s)) = 4 \<and> tbf_state (us_tbf (acknowledge 3 s)) = INACTIVE"
proof -
  let ?s = "(sample_state (\<lambda>_. sample_block 0 0 []))
        \<lparr>us_link := (us_link (sample_state (\<lambda>_. sample_block 0 0 [])))\<lparr>rw_vR := 4, rw_vQ := 1, lk_endOfTBF := True\<rparr>\<rparr>"
  have "\<exists>an tag. rw_vQ (us_link (acknowledge 3 ?s)) = rw_vR (us_link ?s) \<and>
     tbf_state (us_tbf (acknowledge 3 ?s)) = INACTIVE \<and>
     us_out (acknowledge 3 ?s) = us_out ?s @ [AckNackMsg (tbf_tfi (us_tbf ?s)) (lk_chanCoding (us_link ?s)) an RRBP_VALID tag] \<and>
     an_isValid an \<and> an_finalAckIndication an = TBF_COMPLETE"
    by (rule completion_despite_holes) (simp_all add: sample_state_def)
  then show ?thesis by (simp add: Let_def)
qed

theorem scan_leaves_table_at_127_witness:
  "let b = sample_block 127 0 (replicate 53 0); s = sample_state (\<lambda>_. b);
       t = s\<lparr>us_link := (us_link s)\<lparr>lk_pUlBlocks := (replicate 128 None)[127 := Some 7]\<rparr>\<rparr> in
     ScanDataBlocks 127 t = None"
proof -
  let ?s = "sample_state (\<lambda>_. sample_block 127 0 (replicate 53 0))"
  let ?t = "?s\<lparr>us_link := (us_link ?s)\<lparr>lk_pUlBlocks := (replicate 128 None)[127 := Some 7]\<rparr>\<rparr>"
  have "owns {3, 7} ?t"
    using sample_pool [of "\<lambda>_. sample_block 127 0 (replicate 53 0)"]
    by (auto simp: owned_def sample_state_def nth_list_update intro!: exI [of _ "[3]"] split: if_splits)
  then have "ScanDataBlocks 127 ?t = None"
    by (rule scan_leaves_table_at_127) (simp_all add: sample_state_def sample_block_def)
  then show ?thesis by (simp add: Let_def)
qed

text \<open>A block 0 with two PDUs, the second ending the TBF.\<close>

definition two_pdu_block :: "octet list \<Rightarrow> octet list \<Rightarrow> ULDataBlock \<Rightarrow> bool" where
  "two_pdu_block p1 p2 b \<longleftrightarrow> uint (ul_bsn (ub_ulHeader b)) = 0 \<and> ul_countdownVal (ub_ulHeader b) = 0 \<and>
     ul_extensionBit (ub_ulHeader b) = EXTENSION_OCTET_FOLLOWS \<and> ul_currLengthOctet (ub_ulHeader b) = 0 \<and>
     ul_LengthOctets (ub_ulHeader b) ! 0 =
       \<lparr>lo_length = of_nat (length p1), lo_moreBit = MORE_LLC_DATA, lo_extensionBit = EXTENSION_OCTET_FOLLOWS\<rparr> \<and>
     ul_LengthOctets (ub_ulHeader b) ! 1 =
       \<lparr>lo_length = of_nat (length p2), lo_moreBit = NO_MORE_LLC_DATA, lo_extensionBit = NO_EXTENSION_OCTET\<rparr> \<and>
     0 < length p1 \<and> length p1 < 64 \<and> 0 < length p2 \<and> length p2 < 64 \<and>
     in_wf (ub_streamIn b) \<and> (\<exists>rest. in_rest (ub_streamIn b) = octets_bits p1 @ octets_bits p2 @ rest)"

lemma two_pdu_take:
  assumes h: "ul_extensionBit (ub_ulHeader (bp_block q p)) = EXTENSION_OCTET_FOLLOWS"
      "ul_GetCurrentLengthOctet (ub_ulHeader (bp_block q p)) = Some lo"
      "lo_length lo = of_nat (length bs)" "0 < length bs" "length bs < 64"
    and s: "in_wf (ub_streamIn (bp_block q p))" "in_rest (ub_streamIn (bp_block q p)) = octets_bits bs @ rest"
    and b: "buf_holds pb pre" "length pre + length bs \<le> MAX_RLC_PDU_SIZE"
  shows "\<exists>pb' str. reassemble_block p (pb, q) = Some (pb', set_stream p str q) \<and> buf_holds pb' (pre @ bs) \<and>
     in_wf str \<and> in_rest str = rest"
proof -
  have u: "unat (of_nat (length bs) :: octet) = length bs" using h(5) by (simp add: unat_of_nat)
  have "unat (0xff :: octet) = 255" "unat (0 :: octet) = 0" by simp_all
  then have "unat (lo_length lo) \<noteq> unat (0 :: octet)" "unat (lo_length lo) \<noteq> unat (0xff :: octet)"
    using u h(3-5) by simp_all
  then have "lo_length lo \<noteq> 0" "lo_length lo \<noteq> INVALID_LENGTH_VAL" by auto
  moreover have "uint (lo_length lo) = int (length bs)" using u h(3) by (simp flip: uint_nat add: uint_nat)
  ultimately have "reassemble_block p (pb, q) = take_octets p (int (length bs)) (pb, q)"
    using h(1,2) by (simp add: reassemble_block_def Let_def)
  then show ?thesis using take_octets_holds [OF s b] by simp
qed

text \<open>Scanning on after a length octet that announces more data in the same block.\<close>

lemma scan_same_block:
  assumes "lk_pUlBlocks (us_link s) ! 0 = Some p" "lk_firstDataBlock (us_link s) = 0"
    "rw_rlcMode (us_link s) = ACKNOWLEDGED_RLC_MODE" "rw_vR (us_link s) = 1" "rw_vQ (us_link s) = 1"
    and h: "uint (ul_bsn h) = 0" "ul_countdownVal h = 0" "h = ub_ulHeader (bp_block (us_pool s) p)"
      "ul_extensionBit h = EXTENSION_OCTET_FOLLOWS"
      "ul_GetCurrentLengthOctet h = Some lo" "lo_moreBit lo = MORE_LLC_DATA"
  shows "ScanDataBlocks 0 s = Some (True, s\<lparr>us_link := (us_link s)\<lparr>lk_lastDataBlock := 0\<rparr>,
      us_pool := set_header p (h\<lparr>ul_currLengthOctet := ul_currLengthOctet h + 1\<rparr>) (us_pool s)\<rparr>)"
proof -
  let ?h = "h\<lparr>ul_currLengthOctet := Suc (ul_currLengthOctet h)\<rparr>"
  have ns: "next_start 0 h = Some (0, ?h)"
    using h(4-6) by (simp add: next_start_def ul_GetNextLengthOctet_def Let_def)
  have hdr: "ub_ulHeader (bp_block (set_header p ?h (us_pool s)) p) = ?h" by (simp add: set_header_def)
  have sc: "scan_loop 0 (bp_block (set_header p ?h (us_pool s)))
      ((us_link s)\<lparr>lk_firstDataBlock := 0, lk_lastDataBlock := - 1\<rparr>) =
      Some (True, (us_link s)\<lparr>lk_firstDataBlock := 0, lk_lastDataBlock := 0\<rparr>)"
    using assms(1,3-5) h(1,2)
    by (subst scan_loop.simps) (simp add: hdr Let_def IsPDUAssemblyNeeded_def note_last_block_def all_received_def)
  have rel: "ReleaseDataBlocks 0 0 t = Some t" for t
    by (simp add: ReleaseDataBlocks_def release_loop.simps)
  have "(us_link s)\<lparr>lk_firstDataBlock := 0\<rparr> = us_link s" using assms(2) by simp
  then show ?thesis
    using assms(1,2) ns rel sc h(3) by (simp add: ScanDataBlocks_def)
qed

text \<open>One pass over the single block 0 of a PDU.\<close>

lemma pdu_loop_single:
  assumes "lk_pUlBlocks l ! 0 = Some p" "lk_lastDataBlock l = 0" "reassemble_block p st = Some st'"
  shows "pdu_loop l 0 st = Some (0, st')"
  using assms by (subst pdu_loop.simps) simp

lemma send_pdu:
  assumes "buf_holds pb pdu" "us_rxBuff s (length pdu)"
  shows "SendBSSGPUnitData pb s = Some (emit (UnitData (tbf_tlli (us_tbf s)) (rw_rlcMode (us_link s)) pdu) s)"
  using assms by (cases pb) (simp add: SendBSSGPUnitData_def buf_holds_def)

lemma scan_header_end:
  assumes "h = ub_ulHeader (bp_block (us_pool s) p)" "owns S s" "lk_firstDataBlock (us_link s) = 0"
    "lk_pUlBlocks (us_link s) ! 0 = Some p" "rw_vR (us_link s) = 1"
    "ul_extensionBit h = EXTENSION_OCTET_FOLLOWS" "ul_GetCurrentLengthOctet h = Some lo"
    "lo_moreBit lo = NO_MORE_LLC_DATA" "lo_extensionBit lo = NO_EXTENSION_OCTET"
  shows "\<exists>t. ScanDataBlocks 0 s = Some (False, t) \<and> us_out t = us_out s"
proof -
  have ns: "next_start 0 h = Some (1, h)" using assms(6-9) by (simp add: next_start_def)
  obtain blks q where r: "ReleaseDataBlocks (int 0) (int 1) (s\<lparr>us_pool := set_header p h (us_pool s)\<rparr>) =
       Some ((s\<lparr>us_pool := set_header p h (us_pool s)\<rparr>)\<lparr>us_link := (us_link s)\<lparr>lk_pUlBlocks := blks\<rparr>, us_pool := q\<rparr>)"
    using ReleaseDataBlocks_range [of S "s\<lparr>us_pool := set_header p h (us_pool s)\<rparr>" 0 1] assms(2) by auto
  have sc: "scan_loop 1 blk l = Some (False, l)" if "rw_vR l = 1" for blk l
    using that by (subst scan_loop.simps) simp
  show ?thesis using assms(1,3-5) ns r sc by (simp add: ScanDataBlocks_def)
qed

text \<open>
  A second PDU in the same block. Let one block carry two PDUs \<open>p1\<close> and \<open>p2\<close>, each announced by its
  length octet, on a newly established acknowledged link. The PDU buffer is not emptied between them:
  BSSGP gets \<open>p1\<close>, and then \<open>p1\<close> again followed by \<open>p2\<close>.
\<close>

theorem second_pdu_keeps_first:
  assumes b: "two_pdu_block p1 p2 (bp_block (us_pool s) p)"
    and own: "pool_holds (us_pool s) xs" "p \<notin> set xs" and stack: "length (us_stack s) = MAX_RLC_PDU_SIZE"
    and buff: "\<And>n. us_rxBuff s n" and quiet: "us_out s = []"
  shows "\<exists>s'. ReceiveULDataBlock p (EstablishRLCLink ACKNOWLEDGED_RLC_MODE s) = Some s' \<and>
     pdus (us_out s') = [p1, p1 @ p2]"
proof -
  define s0 where "s0 = EstablishRLCLink ACKNOWLEDGED_RLC_MODE s"
  define h where "h = ub_ulHeader (bp_block (us_pool s) p)"
  define h2 where "h2 = h\<lparr>ul_currLengthOctet := Suc (ul_currLengthOctet h)\<rparr>"
  obtain rest where h: "uint (ul_bsn h) = 0" "ul_countdownVal h = 0" "ul_extensionBit h = EXTENSION_OCTET_FOLLOWS"
    "ul_GetCurrentLengthOctet h =
       Some \<lparr>lo_length = of_nat (length p1), lo_moreBit = MORE_LLC_DATA, lo_extensionBit = EXTENSION_OCTET_FOLLOWS\<rparr>"
    "ul_GetCurrentLengthOctet h2 =
       Some \<lparr>lo_length = of_nat (length p2), lo_moreBit = NO_MORE_LLC_DATA, lo_extensionBit = NO_EXTENSION_OCTET\<rparr>"
    and len: "0 < length p1" "length p1 < 64" "0 < length p2" "length p2 < 64"
    and str: "in_wf (ub_streamIn (bp_block (us_pool s) p))"
      "in_rest (ub_streamIn (bp_block (us_pool s) p)) = octets_bits p1 @ octets_bits p2 @ rest"
    using b by (auto simp: two_pdu_block_def h_def h2_def ul_GetCurrentLengthOctet_def)
  have s0: "us_pool s0 = us_pool s" "us_stack s0 = us_stack s" "us_rxBuff s0 = us_rxBuff s" "us_out s0 = []"
    using quiet by (simp_all add: s0_def EstablishRLCLink_def)
  have arr0: "arriving receiver_new (\<lambda>_. p) s0" unfolding s0_def by (rule arriving_established)
  have "\<exists>s1. ReceiveULDataBlock p s0 = check_assembly p (acknowledge 0 s1) \<and>
      arriving (receive 0 receiver_new) (\<lambda>_. p) s1 \<and> same_outside s0 s1"
    using arriving_store [OF arr0, of 0 0] h(1,2) s0(1) by (simp add: receiver_new_def h_def)
  then obtain s1 where s1: "ReceiveULDataBlock p s0 = check_assembly p (acknowledge 0 s1)"
    "arriving (receive 0 receiver_new) (\<lambda>_. p) s1" "same_outside s0 s1" by blast
  have S: "rx_S (receive 0 receiver_new) = {..<1}" "rx_R (receive 0 receiver_new) \<le> 1"
    by (simp_all add: receive_simps receiver_new_def lessThan_Suc)
  note full = arriving_complete [OF s1(2) S]
  have l1: "rw_rlcMode (us_link s1) = ACKNOWLEDGED_RLC_MODE" "rw_vQ (us_link s1) = 1" "rw_vR (us_link s1) = 1"
    "lk_firstDataBlock (us_link s1) = 0" "lk_lastDataBlock (us_link s1) = - 1"
    "length (lk_pUlBlocks (us_link s1)) = 128"
    using s1(2) full by (simp_all add: arriving_def sim_def)
  have blks: "lk_pUlBlocks (us_link s1) ! j = (if j = 0 then Some p else None)" if "j < 128" for j
    using s1(2) that by (auto simp: arriving_def S)
  have same: "us_pool s1 = us_pool s" "us_rxBuff s1 = us_rxBuff s" "us_stack s1 = us_stack s" "pdus (us_out s1) = []"
    using s1(3) s0 by (simp_all add: same_outside_def)
  define s2 where "s2 = acknowledge 0 s1"
  obtain an tag where s2: "us_link s2 = (us_link s1)\<lparr>lk_numRLCBlocksSinceLastAck := 32, lk_endOfTBF := True\<rparr>"
    "us_pool s2 = us_pool s" "us_stack s2 = us_stack s" "us_rxBuff s2 = us_rxBuff s"
    "us_out s2 = us_out s1 @ [AckNackMsg (tbf_tfi (us_tbf s1)) (lk_chanCoding (us_link s1)) an RRBP_VALID tag]"
    using acknowledge_final [OF l1(1)] l1(2,3) same unfolding s2_def by auto
  define s3 where "s3 = s2\<lparr>us_link := (us_link s2)\<lparr>lk_lastDataBlock := 0\<rparr>\<rparr>"
  have "IsPDUAssemblyNeeded h (us_link s2) = (True, (us_link s2)\<lparr>lk_lastDataBlock := 0\<rparr>)"
    using l1 h(1,2) unfolding s2(1) by (simp add: IsPDUAssemblyNeeded_def note_last_block_def all_received_def)
  then have rec: "ReceiveULDataBlock p s0 = ReassembleULPDU s3"
    using s1(1) by (simp add: check_assembly_def s2_def [symmetric] s2(2) s3_def h_def)
  have l3: "lk_pUlBlocks (us_link s3) ! 0 = Some p" "lk_firstDataBlock (us_link s3) = 0" "lk_lastDataBlock (us_link s3) = 0"
    "rw_rlcMode (us_link s3) = ACKNOWLEDGED_RLC_MODE" "rw_vR (us_link s3) = 1" "rw_vQ (us_link s3) = 1"
    using l1 blks [of 0] by (simp_all add: s3_def s2)
  have "owned (set xs \<union> {p}) (lk_pUlBlocks (us_link s1)) (us_pool s)"
    unfolding owned_def using own blks l1(6) by (intro exI [of _ xs]) (auto split: if_splits intro: exI [of _ 0])
  then have own3: "owns (set xs \<union> {p}) s3" by (simp add: s3_def s2)
  have buf0: "buf_holds (us_stack s, 0) []" using stack by (simp add: buf_holds_def)
  obtain pb1 str1 where one: "reassemble_block p ((us_stack s, 0), us_pool s) = Some (pb1, set_stream p str1 (us_pool s))"
    "buf_holds pb1 p1" "in_wf str1" "in_rest str1 = octets_bits p2 @ rest"
    using two_pdu_take [OF _ _ _ len(1,2) str buf0] h(3,4) len(2) by (auto simp: h_def)
  define s4 where "s4 = emit (UnitData (tbf_tlli (us_tbf s3)) (rw_rlcMode (us_link s3)) p1)
      (s3\<lparr>us_pool := set_stream p str1 (us_pool s)\<rparr>)"
  define s5 where "s5 = s4\<lparr>us_link := (us_link s4)\<lparr>lk_lastDataBlock := 0\<rparr>, us_pool := set_header p h2 (us_pool s4)\<rparr>"
  have hdr4: "ub_ulHeader (bp_block (us_pool s4) p) = h" by (simp add: s4_def emit_def set_stream_def h_def)
  have l4: "us_link s4 = us_link s3" by (simp add: s4_def emit_def)
  have "ScanDataBlocks 0 s4 = Some (True, s5)"
    unfolding s5_def h2_def Suc_eq_plus1
    by (rule scan_same_block [OF _ _ _ _ _ h(1,2) hdr4 [symmetric] h(3,4)]) (simp_all add: l3 l4)
  moreover have "pdu_loop (us_link s3) 0 ((us_stack s3, 0), us_pool s3) = Some (0, pb1, set_stream p str1 (us_pool s))"
    using pdu_loop_single [OF l3(1,3)] one(1) by (simp add: s3_def s2)
  moreover have "SendBSSGPUnitData pb1 (s3\<lparr>us_pool := set_stream p str1 (us_pool s)\<rparr>) = Some s4"
    using send_pdu [OF one(2), of "s3\<lparr>us_pool := set_stream p str1 (us_pool s)\<rparr>"] buff
    by (simp add: s4_def s3_def s2)
  ultimately have first: "ReassembleULPDU s3 = reassemble_loop 0 pb1 s5"
    unfolding ReassembleULPDU_def l3(2) by (subst reassemble_loop.simps) simp
  have pool5: "us_pool s5 = set_header p h2 (set_stream p str1 (us_pool s))" by (simp add: s5_def s4_def emit_def)
  have l5: "lk_pUlBlocks (us_link s5) ! 0 = Some p" "lk_firstDataBlock (us_link s5) = 0" "lk_lastDataBlock (us_link s5) = 0"
    "rw_vR (us_link s5) = 1"
    using l3 by (simp_all add: s5_def l4)
  have hdr5: "ub_ulHeader (bp_block (us_pool s5) p) = h2" "ub_streamIn (bp_block (us_pool s5) p) = str1"
    by (simp_all add: pool5 set_header_def set_stream_def)
  have ext2: "ul_extensionBit h2 = EXTENSION_OCTET_FOLLOWS" using h(3) by (simp add: h2_def)
  have take2: "\<exists>pb' str. reassemble_block p (pb1, us_pool s5) = Some (pb', set_stream p str (us_pool s5)) \<and>
      buf_holds pb' (p1 @ p2) \<and> in_wf str \<and> in_rest str = rest"
    by (rule two_pdu_take [where lo = "\<lparr>lo_length = of_nat (length p2), lo_moreBit = NO_MORE_LLC_DATA,
        lo_extensionBit = NO_EXTENSION_OCTET\<rparr>", OF _ _ _ len(3,4) _ _ one(2)])
      (use hdr5 ext2 h(5) len one(3,4) in simp_all)
  obtain pb2 str2 where two: "reassemble_block p (pb1, us_pool s5) = Some (pb2, set_stream p str2 (us_pool s5))"
    "buf_holds pb2 (p1 @ p2)"
    using take2 by blast
  define s6 where "s6 = emit (UnitData (tbf_tlli (us_tbf s5)) (rw_rlcMode (us_link s5)) (p1 @ p2))
      (s5\<lparr>us_pool := set_stream p str2 (us_pool s5)\<rparr>)"
  have loop2: "pdu_loop (us_link s5) 0 (pb1, us_pool s5) = Some (0, pb2, set_stream p str2 (us_pool s5))"
    using pdu_loop_single [OF l5(1,3) two(1)] .
  have send2: "SendBSSGPUnitData pb2 (s5\<lparr>us_pool := set_stream p str2 (us_pool s5)\<rparr>) = Some s6"
    using send_pdu [OF two(2), of "s5\<lparr>us_pool := set_stream p str2 (us_pool s5)\<rparr>"] buff
    by (simp add: s6_def s5_def s4_def s3_def s2 emit_def)
  have own6: "owns (set xs \<union> {p}) s6"
    using own3 by (simp add: s6_def emit_def pool5) (simp add: s5_def l4 s3_def s2)
  have hdr6: "h2 = ub_ulHeader (bp_block (us_pool s6) p)"
    using hdr5(1) by (simp add: s6_def emit_def set_stream_def)
  have l6: "us_link s6 = us_link s5" by (simp add: s6_def emit_def)
  obtain s7 where s7: "ScanDataBlocks 0 s6 = Some (False, s7)" "us_out s7 = us_out s6"
    using scan_header_end [OF hdr6 own6 _ _ _ ext2 h(5)] l5 l6 by auto
  have "reassemble_loop 0 pb1 s5 = Some s7"
    by (subst reassemble_loop.simps) (simp add: loop2 send2 s7(1))
  moreover have "pdus (us_out s7) = [p1, p1 @ p2]"
    using s7(2) same(4) by (simp add: s6_def s5_def s4_def s3_def s2 emit_def)
  ultimately show ?thesis using first rec unfolding s0_def by auto
qed

text \<open>A CS-1 block with two PDUs of three and two octets.\<close>

definition sample_two :: ULDataBlock where
  "sample_two = (let b = sample_block 0 0 ([0, 0, 0, 1, 2, 3, 4, 5] @ replicate 45 0x2B) in
     b\<lparr>ub_ulHeader := (ub_ulHeader b)\<lparr>ul_extensionBit := EXTENSION_OCTET_FOLLOWS,
       ul_LengthOctets := [\<lparr>lo_length = 3, lo_moreBit = MORE_LLC_DATA, lo_extensionBit = EXTENSION_OCTET_FOLLOWS\<rparr>,
         \<lparr>lo_length = 2, lo_moreBit = NO_MORE_LLC_DATA, lo_extensionBit = NO_EXTENSION_OCTET\<rparr>]
         @ drop 2 (ul_LengthOctets (ub_ulHeader b))\<rparr>\<rparr>)"

theorem second_pdu_keeps_first_witness:
  "\<exists>s'. ReceiveULDataBlock 8 (EstablishRLCLink ACKNOWLEDGED_RLC_MODE (sample_state (\<lambda>_. sample_two))) = Some s' \<and>
     pdus (us_out s') = [[1, 2, 3], [1, 2, 3, 4, 5]]"
proof -
  let ?ds = "[0, 0, 0, 1, 2, 3, 4, 5] @ replicate 45 0x2B :: octet list"
  have "octets_bits (drop 3 ?ds) = octets_bits [1, 2, 3] @ octets_bits [4, 5] @ octets_bits (replicate 45 0x2B)"
    using octets_bits_split [of "drop 3 ?ds" 3] octets_bits_split [of "drop 6 ?ds" 2] by simp
  then have "two_pdu_block [1, 2, 3] [4, 5] sample_two"
    using sample_block_rest [of ?ds 0 0]
    by (auto simp: two_pdu_block_def sample_two_def Let_def) (simp_all add: sample_block_def)
  then have "\<exists>s'. ReceiveULDataBlock 8 (EstablishRLCLink ACKNOWLEDGED_RLC_MODE (sample_state (\<lambda>_. sample_two))) = Some s' \<and>
     pdus (us_out s') = [[1, 2, 3], [1, 2, 3] @ [4, 5]]"
    by (intro second_pdu_keeps_first [OF _ sample_pool]) (simp_all add: sample_state_def)
  then show ?thesis by simp
qed

section \<open>The end of a TBF\<close>

text \<open>
  C17: the end of a TBF, however it comes (the answer to the final ack/nack, T3169 or the activity
  timer), runs to its end, returns every block of the link's table to the pool, empties the table,
  releases the resources once and leaves the TBF free.
\<close>

theorem tbf_end_returns_blocks:
  assumes "owns S s"
  shows "\<forall>f \<in> {ReceivePacketControlAck, ProcessT3169Expiry, ProcessActivityTimerExpiry}.
     \<exists>s' xs. f s = Some s' \<and> pool_holds (us_pool s') xs \<and> set xs = S \<and>
       (\<forall>i < RLC_MOD_VAL. lk_pUlBlocks (us_link s') ! i = None) \<and>
       tbf_state (us_tbf s') = FREE \<and> us_out s' = us_out s @ [ResourcesReleased]"
  using end_of_TBF [OF assms] by blast

theorem tbf_end_returns_blocks_witness:
  "let s = sample_state (\<lambda>_. sample_block 0 0 []);
       t = s\<lparr>us_link := (us_link s)\<lparr>lk_pUlBlocks := (replicate 128 None)[5 := Some 7]\<rparr>\<rparr> in
     \<exists>s' xs. ProcessT3169Expiry t = Some s' \<and> pool_holds (us_pool s') xs \<and> set xs = {3, 7}"
proof -
  let ?s = "sample_state (\<lambda>_. sample_block 0 0 [])"
  let ?t = "?s\<lparr>us_link := (us_link ?s)\<lparr>lk_pUlBlocks := (replicate 128 None)[5 := Some 7]\<rparr>\<rparr>"
  have "owns {3, 7} ?t"
    using sample_pool [of "\<lambda>_. sample_block 0 0 []"]
    by (auto simp: owned_def sample_state_def nth_list_update intro!: exI [of _ "[3]"] split: if_splits)
  then show ?thesis using tbf_end_returns_blocks [of "{3, 7}" ?t] unfolding Let_def by blast
qed

end
