(* ===== verification/UplinkPath.thy ===== *)
theory UplinkPath
  imports UlDelivery
begin

text \<open>
  The way of an uplink data block through the system: \<open>ProcessPhPdtchInd\<close>
  (\<^verbatim>\<open>Rlc_mac/src/RlcMacL1Proc.cpp\<close>) takes a block from the pool, fills it with the octets of the
  layer 1 message and decodes its header, \<open>ProcessULRlcDataBlock\<close> (\<^verbatim>\<open>RlcMacMsgProc.cpp\<close>) finds the
  TBF of the TFI, and the link of that TBF receives it.  Many links share the pool: a block must have
  one owner at any time.
\<close>

section \<open>The uplink part of the task\<close>

record 'm UlSystem =
  sy_link :: "addr \<Rightarrow> ULRlcLink"
  sy_tbf :: "addr \<Rightarrow> ULTbf"
  sy_T3169 :: "addr \<Rightarrow> bool"
  sy_activity :: "addr \<Rightarrow> bool"
  sy_pool :: "ULDataBlock BlockPool"
  sy_sysCtlAckCount :: octet
  sy_rxBuff :: "nat \<Rightarrow> bool"
  sy_stack :: "octet list"
  sy_out :: "ul_event list"
  sy_tsPool :: "(addr, 'm) TSPool"

text \<open>The state a member function of TBF \<open>i\<close> works on, and the system after it.\<close>

definition load :: "addr \<Rightarrow> 'm UlSystem \<Rightarrow> UlState" where
  "load i y = \<lparr>us_link = sy_link y i, us_tbf = sy_tbf y i, us_T3169 = sy_T3169 y i,
     us_activity = sy_activity y i, us_pool = sy_pool y, us_sysCtlAckCount = sy_sysCtlAckCount y,
     us_rxBuff = sy_rxBuff y, us_stack = sy_stack y, us_out = sy_out y\<rparr>"

definition save :: "addr \<Rightarrow> UlState \<Rightarrow> 'm UlSystem \<Rightarrow> 'm UlSystem" where
  "save i s y = y\<lparr>sy_link := (sy_link y)(i := us_link s), sy_tbf := (sy_tbf y)(i := us_tbf s),
     sy_T3169 := (sy_T3169 y)(i := us_T3169 s), sy_activity := (sy_activity y)(i := us_activity s),
     sy_pool := us_pool s, sy_sysCtlAckCount := us_sysCtlAckCount s, sy_out := us_out s\<rparr>"

definition return_block :: "addr \<Rightarrow> 'm UlSystem \<Rightarrow> 'm UlSystem option" where
  "return_block p y = map_option (\<lambda>q. y\<lparr>sy_pool := q\<rparr>) (ReturnULDataBlock p (sy_pool y))"

text \<open>The status is left out: its only caller ignores it.\<close>

definition ProcessULRlcDataBlock :: "int \<Rightarrow> addr \<Rightarrow> 'm UlSystem \<Rightarrow> 'm UlSystem option" where
  "ProcessULRlcDataBlock trx p y =
     (case FindULTbf trx (ul_tfi (ub_ulHeader (bp_block (sy_pool y) p))) (sy_tsPool y) of
        Some i \<Rightarrow> map_option (\<lambda>s. save i s y) (ReceiveULDataBlock p (load i y))
      | None \<Rightarrow> return_block p y)"

text \<open>
  The stream is always of \<^verbatim>\<open>MAX_RLC_DATA_MSG\<close> octets, the size of the message's array; a shorter array
  is \<open>None\<close>.
\<close>

definition fill_from_l1 ::
  "octet list \<Rightarrow> CHANNEL_CODING_COMMAND \<Rightarrow> ULDataBlock \<Rightarrow> ULDataBlock option" where
  "fill_from_l1 dat codeRate b =
     (if length dat < MAX_BITSTREAM then None
      else map_option
        (\<lambda>str. b\<lparr>ub_streamIn := str, ub_chanCoding := snd (SetChannelCodingCommand codeRate (ub_chanCoding b))\<rparr>)
        (InitBitStreamIn (in_dataStream (ub_streamIn b)) (take MAX_BITSTREAM dat)))"

definition set_block :: "addr \<Rightarrow> ULDataBlock \<Rightarrow> 'm UlSystem \<Rightarrow> 'm UlSystem" where
  "set_block p b y = y\<lparr>sy_pool := (sy_pool y)\<lparr>bp_block := (bp_block (sy_pool y))(p := b)\<rparr>\<rparr>"

definition ProcessPhPdtchInd ::
  "int \<Rightarrow> octet list \<Rightarrow> CHANNEL_CODING_COMMAND \<Rightarrow> 'm UlSystem \<Rightarrow> (JC_STATUS \<times> 'm UlSystem) option" where
  "ProcessPhPdtchInd trx dat codeRate y = do {
     (got, q) \<leftarrow> GetDataBlock (sy_pool y);
     let y = y\<lparr>sy_pool := q\<rparr>;
     (case got of
        None \<Rightarrow> Some (JC_ERROR, y)
      | Some p \<Rightarrow> do {
          b \<leftarrow> fill_from_l1 dat codeRate (bp_block q p);
          (r, h, str) \<leftarrow> DecodeULMacHeader (ub_ulHeader b, ub_streamIn b);
          let y = set_block p (b\<lparr>ub_ulHeader := h, ub_streamIn := str\<rparr>) y;
          if r = RLC_MAC_SUCCESS \<and> ul_payloadType h = RLC_DATA_BLOCK
          then map_option (\<lambda>y. (JC_OK, y)) (ProcessULRlcDataBlock trx p y)
          else map_option (\<lambda>y. (JC_ERROR, y)) (return_block p y)
        })
   }"


text \<open>
  The messages that reach the uplink links: a block from layer 1, the answers of the mobile to a
  polling ack/nack of TBF \<open>i\<close>, its timers, an unused uplink grant and an abnormal release.
\<close>

datatype ul_input =
    PdtchInd int "octet list" CHANNEL_CODING_COMMAND
  | ControlAck addr
  | ControlNack addr
  | T3169Expiry addr
  | ActivityExpiry addr
  | UplinkGrant addr
  | AbnormalEnd addr

definition on_tbf :: "addr \<Rightarrow> (UlState \<Rightarrow> UlState option) \<Rightarrow> 'm UlSystem \<Rightarrow> 'm UlSystem option" where
  "on_tbf i f y = map_option (\<lambda>s. save i s y) (f (load i y))"

fun ul_input_step :: "ul_input \<Rightarrow> 'm UlSystem \<Rightarrow> 'm UlSystem option" where
  "ul_input_step (PdtchInd trx dat codeRate) y = map_option snd (ProcessPhPdtchInd trx dat codeRate y)"
| "ul_input_step (ControlAck i) y = on_tbf i ReceivePacketControlAck y"
| "ul_input_step (ControlNack i) y = on_tbf i (Some \<circ> ReceivePacketControlNack) y"
| "ul_input_step (T3169Expiry i) y = on_tbf i ProcessT3169Expiry y"
| "ul_input_step (ActivityExpiry i) y = on_tbf i ProcessActivityTimerExpiry y"
| "ul_input_step (UplinkGrant i) y = on_tbf i (Some \<circ> snd \<circ> IncrementN3101) y"
| "ul_input_step (AbnormalEnd i) y = on_tbf i (Some \<circ> UL_AbnormalRelease) y"

fun ul_input_run :: "ul_input list \<Rightarrow> 'm UlSystem \<Rightarrow> 'm UlSystem option" where
  "ul_input_run [] y = Some y"
| "ul_input_run (c # cs) y = Option.bind (ul_input_step c y) (ul_input_run cs)"

section \<open>One owner for every block\<close>

definition stored :: "ULRlcLink \<Rightarrow> addr set" where
  "stored l = {p. \<exists>k < RLC_MOD_VAL. lk_pUlBlocks l ! k = Some p}"

definition table_ok :: "ULRlcLink \<Rightarrow> bool" where
  "table_ok l \<longleftrightarrow> length (lk_pUlBlocks l) = RLC_MOD_VAL \<and>
     (\<forall>j < RLC_MOD_VAL. \<forall>k < RLC_MOD_VAL. \<forall>p. lk_pUlBlocks l ! j = Some p \<longrightarrow> lk_pUlBlocks l ! k = Some p \<longrightarrow> j = k)"

text \<open>
  The blocks of \<open>S\<close> are all there, each in the pool or in one entry of one link's table.
\<close>

definition one_owner :: "addr set \<Rightarrow> 'm UlSystem \<Rightarrow> bool" where
  "one_owner S y \<longleftrightarrow> (\<exists>xs. pool_holds (sy_pool y) xs \<and> (\<forall>i. table_ok (sy_link y i)) \<and>
     (\<forall>i. stored (sy_link y i) \<inter> set xs = {}) \<and>
     (\<forall>i j. i \<noteq> j \<longrightarrow> stored (sy_link y i) \<inter> stored (sy_link y j) = {}) \<and>
     S = set xs \<union> (\<Union>i. stored (sy_link y i)))"

lemma owned_iff:
  "owned S (lk_pUlBlocks l) q \<longleftrightarrow>
     (\<exists>xs. pool_holds q xs \<and> table_ok l \<and> stored l \<inter> set xs = {} \<and> S = set xs \<union> stored l)"
  by (auto simp: owned_def table_ok_def stored_def) blast+

lemma load_save [simp]:
  "us_link (load i y) = sy_link y i" "us_pool (load i y) = sy_pool y"
  "sy_link (save i s y) = (sy_link y)(i := us_link s)" "sy_pool (save i s y) = us_pool s"
  by (simp_all add: load_def save_def)

text \<open>What one link does to its blocks and the pool keeps every other link's blocks apart.\<close>

lemma one_owner_view:
  assumes "one_owner S y"
  shows "\<exists>T. owns T (load i y) \<and> S = T \<union> (\<Union>j \<in> - {i}. stored (sy_link y j)) \<and>
     (\<forall>j. j \<noteq> i \<longrightarrow> stored (sy_link y j) \<inter> T = {})"
proof -
  obtain xs where xs: "pool_holds (sy_pool y) xs" "\<forall>i. table_ok (sy_link y i)"
    "\<forall>i. stored (sy_link y i) \<inter> set xs = {}"
    "\<forall>i j. i \<noteq> j \<longrightarrow> stored (sy_link y i) \<inter> stored (sy_link y j) = {}"
    "S = set xs \<union> (\<Union>i. stored (sy_link y i))"
    using assms by (auto simp: one_owner_def)
  have "owns (set xs \<union> stored (sy_link y i)) (load i y)"
    unfolding load_save owned_iff using xs(1-3) by blast
  moreover have "S = set xs \<union> stored (sy_link y i) \<union> (\<Union>j \<in> - {i}. stored (sy_link y j))"
    using xs(5) by auto
  moreover have "\<forall>j. j \<noteq> i \<longrightarrow> stored (sy_link y j) \<inter> (set xs \<union> stored (sy_link y i)) = {}"
    using xs(3,4) by blast
  ultimately show ?thesis by blast
qed

lemma one_owner_save:
  assumes y: "one_owner S y" and T: "owns T s"
    and S: "S' = T \<union> (\<Union>j \<in> - {i}. stored (sy_link y j))"
    and d: "\<forall>j. j \<noteq> i \<longrightarrow> stored (sy_link y j) \<inter> T = {}"
  shows "one_owner S' (save i s y)"
proof -
  obtain xs where xs: "pool_holds (us_pool s) xs" "table_ok (us_link s)" "stored (us_link s) \<inter> set xs = {}"
    "T = set xs \<union> stored (us_link s)"
    using T by (auto simp: owned_iff)
  have ok: "table_ok (sy_link y j)" "j \<noteq> k \<Longrightarrow> stored (sy_link y j) \<inter> stored (sy_link y k) = {}" for j k
    using y unfolding one_owner_def by blast+
  have l: "sy_link (save i s y) j = (if j = i then us_link s else sy_link y j)" for j by simp
  have "(\<Union>j. stored (sy_link (save i s y) j)) = stored (us_link s) \<union> (\<Union>j \<in> - {i}. stored (sy_link y j))"
    unfolding l by (auto split: if_splits)
  then have "S' = set xs \<union> (\<Union>j. stored (sy_link (save i s y) j))" using S xs(4) by blast
  moreover have "\<forall>j. stored (sy_link (save i s y) j) \<inter> set xs = {}"
    unfolding l using xs(3,4) d by auto
  moreover have "\<forall>j k. j \<noteq> k \<longrightarrow> stored (sy_link (save i s y) j) \<inter> stored (sy_link (save i s y) k) = {}"
  proof (intro allI impI)
    fix j k :: addr
    assume "j \<noteq> k"
    moreover have "stored (sy_link y m) \<inter> stored (us_link s) = {}" if "m \<noteq> i" for m using d xs(4) that by blast
    ultimately show "stored (sy_link (save i s y) j) \<inter> stored (sy_link (save i s y) k) = {}"
      unfolding l using ok(2) [of j k] by (cases "j = i"; cases "k = i") (simp_all add: Int_commute)
  qed
  moreover have "\<forall>j. table_ok (sy_link (save i s y) j)" unfolding l using xs(2) ok(1) by simp
  ultimately show ?thesis unfolding one_owner_def using xs(1) by (intro exI [of _ xs]) simp
qed

lemma on_tbf_one_owner:
  assumes "on_tbf i f y = Some y'" "one_owner S y"
    and f: "\<And>T s s'. owns T s \<Longrightarrow> f s = Some s' \<Longrightarrow> owns T s'"
  shows "one_owner S y'"
proof -
  obtain s where s: "f (load i y) = Some s" "y' = save i s y" using assms(1) by (auto simp: on_tbf_def)
  obtain T where T: "owns T (load i y)" "S = T \<union> (\<Union>j \<in> - {i}. stored (sy_link y j))"
    "\<forall>j. j \<noteq> i \<longrightarrow> stored (sy_link y j) \<inter> T = {}"
    using one_owner_view [OF assms(2)] by blast
  show ?thesis using one_owner_save [OF assms(2) f [OF T(1) s(1)] T(2,3)] s(2) by simp
qed


lemma one_owner_cong:
  "sy_link y' = sy_link y \<Longrightarrow> (\<And>xs. pool_holds (sy_pool y') xs = pool_holds (sy_pool y) xs) \<Longrightarrow>
     one_owner S y' = one_owner S y"
  by (simp add: one_owner_def)

lemma one_owner_set_block [simp]: "one_owner S (set_block p b y) = one_owner S y"
  by (rule one_owner_cong) (simp_all add: set_block_def pool_holds_def)

lemma one_owner_get:
  assumes "one_owner S y" "GetDataBlock (sy_pool y) = Some (g, q)"
  shows "case g of None \<Rightarrow> one_owner S (y\<lparr>sy_pool := q\<rparr>)
    | Some p \<Rightarrow> p \<in> S \<and> one_owner (S - {p}) (y\<lparr>sy_pool := q\<rparr>)"
proof -
  obtain xs where xs: "pool_holds (sy_pool y) xs" "\<forall>i. table_ok (sy_link y i)"
    "\<forall>i. stored (sy_link y i) \<inter> set xs = {}"
    "\<forall>i j. i \<noteq> j \<longrightarrow> stored (sy_link y i) \<inter> stored (sy_link y j) = {}"
    "S = set xs \<union> (\<Union>i. stored (sy_link y i))"
    using assms(1) unfolding one_owner_def by blast
  show ?thesis
  proof (cases xs)
    case Nil
    then have "g = None" "pool_holds q []" using GetDataBlock_empty [of "sy_pool y"] xs(1) assms(2) by auto
    then show ?thesis using xs Nil unfolding one_owner_def by auto
  next
    case (Cons p ys)
    then have g: "g = Some p" "pool_holds q ys" using GetDataBlock_Cons [of "sy_pool y" p ys] xs(1) assms(2) by auto
    have "p \<notin> set ys" using xs(1) Cons by (simp add: pool_holds_def)
    moreover have "p \<notin> (\<Union>i. stored (sy_link y i))" using xs(3) Cons by auto
    ultimately have "S - {p} = set ys \<union> (\<Union>i. stored (sy_link y i))" "p \<in> S" using xs(5) Cons by auto
    moreover have "one_owner (set ys \<union> (\<Union>i. stored (sy_link y i))) (y\<lparr>sy_pool := q\<rparr>)"
      unfolding one_owner_def using g(2) xs(2-4) Cons by (intro exI [of _ ys]) auto
    ultimately show ?thesis using g(1) by simp
  qed
qed

lemma one_owner_return:
  assumes "one_owner (S - {p}) y" "return_block p y = Some y'" "p \<in> S"
  shows "one_owner S y'"
proof -
  obtain xs where xs: "pool_holds (sy_pool y) xs" "\<forall>i. table_ok (sy_link y i)"
    "\<forall>i. stored (sy_link y i) \<inter> set xs = {}"
    "\<forall>i j. i \<noteq> j \<longrightarrow> stored (sy_link y i) \<inter> stored (sy_link y j) = {}"
    "S - {p} = set xs \<union> (\<Union>i. stored (sy_link y i))"
    using assms(1) unfolding one_owner_def by blast
  then have p: "p \<notin> set xs" "p \<notin> stored (sy_link y i)" for i by auto
  then obtain q where q: "y' = y\<lparr>sy_pool := q\<rparr>" "pool_holds q (xs @ [p])"
    using ReturnULDataBlock_fresh [OF xs(1) p(1)] assms(2) by (auto simp: return_block_def)
  have "S = set (xs @ [p]) \<union> (\<Union>i. stored (sy_link y i))" using xs(5) assms(3) by auto
  then show ?thesis unfolding one_owner_def using q xs(2-4) p(2) by (intro exI [of _ "xs @ [p]"]) auto
qed

lemma one_owner_ProcessULRlcDataBlock:
  assumes "one_owner (S - {p}) y" "ProcessULRlcDataBlock trx p y = Some y'" "p \<in> S"
  shows "one_owner S y'"
proof (cases "FindULTbf trx (ul_tfi (ub_ulHeader (bp_block (sy_pool y) p))) (sy_tsPool y)")
  case None
  then show ?thesis using assms one_owner_return [OF assms(1)] by (simp add: ProcessULRlcDataBlock_def)
next
  case (Some i)
  then obtain s where s: "ReceiveULDataBlock p (load i y) = Some s" "y' = save i s y"
    using assms(2) by (auto simp: ProcessULRlcDataBlock_def)
  obtain T where T: "owns T (load i y)" "S - {p} = T \<union> (\<Union>j \<in> - {i}. stored (sy_link y j))"
    "\<forall>j. j \<noteq> i \<longrightarrow> stored (sy_link y j) \<inter> T = {}"
    using one_owner_view [OF assms(1)] by blast
  have "p \<notin> T" "\<forall>j. j \<noteq> i \<longrightarrow> stored (sy_link y j) \<inter> insert p T = {}" using T(2,3) by auto
  moreover have "S = insert p T \<union> (\<Union>j \<in> - {i}. stored (sy_link y j))" using T(2) assms(3) by auto
  ultimately show ?thesis
    using one_owner_save [OF assms(1)] ReceiveULDataBlock_owned [OF s(1) T(1)] s(2) by blast
qed

lemma one_owner_ProcessPhPdtchInd:
  assumes "one_owner S y" "ProcessPhPdtchInd trx dat codeRate y = Some (st, y')"
  shows "one_owner S y'"
proof -
  obtain g q where g: "GetDataBlock (sy_pool y) = Some (g, q)"
    using assms(2) by (auto simp: ProcessPhPdtchInd_def split: bind_splits)
  show ?thesis
  proof (cases g)
    case None
    then show ?thesis using one_owner_get [OF assms(1) g] assms(2) g by (simp add: ProcessPhPdtchInd_def)
  next
    case (Some p)
    then have p: "p \<in> S" "one_owner (S - {p}) (y\<lparr>sy_pool := q\<rparr>)" using one_owner_get [OF assms(1) g] by auto
    obtain b r h str where b: "fill_from_l1 dat codeRate (bp_block q p) = Some b"
      "DecodeULMacHeader (ub_ulHeader b, ub_streamIn b) = Some (r, h, str)"
      using assms(2) g Some by (auto simp: ProcessPhPdtchInd_def split: bind_splits)
    define y1 where "y1 = set_block p (b\<lparr>ub_ulHeader := h, ub_streamIn := str\<rparr>) (y\<lparr>sy_pool := q\<rparr>)"
    have y1: "one_owner (S - {p}) y1" using p(2) by (simp add: y1_def)
    have "return_block p y1 = Some y' \<or> ProcessULRlcDataBlock trx p y1 = Some y'"
      using assms(2) g Some b by (auto simp: ProcessPhPdtchInd_def y1_def Let_def split: if_splits)
    then show ?thesis using one_owner_return [OF y1 _ p(1)] one_owner_ProcessULRlcDataBlock [OF y1 _ p(1)] by blast
  qed
qed

lemma ul_input_step_one_owner:
  assumes "ul_input_step c y = Some y'" "one_owner S y"
  shows "one_owner S y'"
proof (cases c)
  case (PdtchInd trx dat codeRate)
  then show ?thesis using assms one_owner_ProcessPhPdtchInd [OF assms(2)] by auto
next
  case (ControlAck i)
  then show ?thesis using assms on_tbf_one_owner [of i ReceivePacketControlAck y y' S] end_of_TBF by force
next
  case (ControlNack i)
  have "owns T s \<Longrightarrow> owns T (ReceivePacketControlNack s)" for T s
    by (simp add: ReceivePacketControlNack_def Let_def)
  then show ?thesis using ControlNack assms on_tbf_one_owner [of i "Some \<circ> ReceivePacketControlNack" y y' S] by auto
next
  case (T3169Expiry i)
  then show ?thesis using assms on_tbf_one_owner [of i ProcessT3169Expiry y y' S] end_of_TBF by force
next
  case (ActivityExpiry i)
  then show ?thesis using assms on_tbf_one_owner [of i ProcessActivityTimerExpiry y y' S] end_of_TBF by force
next
  case (UplinkGrant i)
  have "owns T s \<Longrightarrow> owns T (snd (IncrementN3101 s))" for T s
    by (simp add: IncrementN3101_def Let_def UL_SetTbfState_def)
  then show ?thesis using UplinkGrant assms on_tbf_one_owner [of i "Some \<circ> snd \<circ> IncrementN3101" y y' S] by auto
next
  case (AbnormalEnd i)
  have "owns T s \<Longrightarrow> owns T (UL_AbnormalRelease s)" for T s
    by (simp add: UL_AbnormalRelease_def emit_def UL_SetTbfState_def)
  then show ?thesis using AbnormalEnd assms on_tbf_one_owner [of i "Some \<circ> UL_AbnormalRelease" y y' S] by auto
qed

text \<open>
  Where a layer 1 block makes the code leave its tables: its message array is too short, its header has more length
  octets than there is room for, or the link of the TBF it is for cannot take it.
\<close>

definition block_fails :: "int \<Rightarrow> octet list \<Rightarrow> CHANNEL_CODING_COMMAND \<Rightarrow> 'm UlSystem \<Rightarrow> bool" where
  "block_fails trx dat codeRate y \<longleftrightarrow> length dat < MAX_BITSTREAM \<or>
     (\<exists>p q b. GetDataBlock (sy_pool y) = Some (Some p, q) \<and> fill_from_l1 dat codeRate (bp_block q p) = Some b \<and>
        (case DecodeULMacHeader (ub_ulHeader b, ub_streamIn b) of
           None \<Rightarrow> True
         | Some (r, h, str) \<Rightarrow>
             (\<exists>i. FindULTbf trx (ul_tfi h) (sy_tsPool y) = Some i \<and>
                ReceiveULDataBlock p (load i (set_block p (b\<lparr>ub_ulHeader := h, ub_streamIn := str\<rparr>) (y\<lparr>sy_pool := q\<rparr>))) = None)))"

lemma return_block_defined:
  assumes "one_owner S y" "p \<notin> S"
  shows "return_block p y \<noteq> None"
proof -
  obtain xs where "pool_holds (sy_pool y) xs" "p \<notin> set xs" using assms unfolding one_owner_def by auto
  then show ?thesis using ReturnULDataBlock_fresh by (fastforce simp: return_block_def)
qed

lemma ProcessPhPdtchInd_undefined:
  assumes "one_owner S y" "ProcessPhPdtchInd trx dat codeRate y = None"
  shows "block_fails trx dat codeRate y"
proof -
  obtain xs where xs: "pool_holds (sy_pool y) xs" using assms(1) unfolding one_owner_def by blast
  then obtain g q where g: "GetDataBlock (sy_pool y) = Some (g, q)"
    using GetDataBlock_empty [of "sy_pool y"] GetDataBlock_Cons [of "sy_pool y"] by (cases xs) blast+
  then obtain p where p: "g = Some p" using assms(2) by (cases g) (simp_all add: ProcessPhPdtchInd_def)
  show ?thesis
  proof (cases "fill_from_l1 dat codeRate (bp_block q p)")
    case None
    then show ?thesis by (auto simp: fill_from_l1_def InitBitStreamIn_def block_fails_def split: if_splits)
  next
    case (Some b)
    show ?thesis
    proof (cases "DecodeULMacHeader (ub_ulHeader b, ub_streamIn b)")
      case None
      then show ?thesis using g p Some unfolding block_fails_def by (intro disjI2 exI [of _ p] exI [of _ q] exI [of _ b]) simp
    next
      case d: (Some z)
      obtain r h str where z: "z = (r, h, str)" by (cases z)
      define y1 where "y1 = set_block p (b\<lparr>ub_ulHeader := h, ub_streamIn := str\<rparr>) (y\<lparr>sy_pool := q\<rparr>)"
      have "one_owner (S - {p}) y1" using one_owner_get [OF assms(1) g] p by (simp add: y1_def)
      then have "return_block p y1 \<noteq> None" by (rule return_block_defined) simp
      then have "ProcessULRlcDataBlock trx p y1 = None"
        using assms(2) g p Some d z by (auto simp: ProcessPhPdtchInd_def y1_def Let_def split: if_splits)
      with \<open>return_block p y1 \<noteq> None\<close> obtain i where "FindULTbf trx (ul_tfi h) (sy_tsPool y) = Some i" "ReceiveULDataBlock p (load i y1) = None"
        by (auto simp: ProcessULRlcDataBlock_def y1_def set_block_def split: option.splits)
      then show ?thesis
        using g p Some d z unfolding block_fails_def y1_def by (intro disjI2 exI [of _ p] exI [of _ q] exI [of _ b]) auto
    qed
  qed
qed

lemma ul_input_step_undefined:
  assumes "ul_input_step c y = None" "one_owner S y"
  shows "\<exists>trx dat codeRate. c = PdtchInd trx dat codeRate \<and> block_fails trx dat codeRate y"
proof -
  obtain T where T: "\<And>i. owns (T i) (load i y)" using one_owner_view [OF assms(2)] by metis
  have e: "f (load i y) \<noteq> None" if "f \<in> {ReceivePacketControlAck, ProcessT3169Expiry, ProcessActivityTimerExpiry}" for f i
    using end_of_TBF [OF T [of i] that] by auto
  show ?thesis
    using assms(1) ProcessPhPdtchInd_undefined [OF assms(2)] e by (cases c) (auto simp: on_tbf_def)
qed

text \<open>
  C16: every uplink data block has one owner. In a system whose blocks are each in the pool or in one
  entry of one link's table, any sequence of layer 1 blocks (with any content), answers of the
  mobiles, timer expiries, grants and releases leaves every block again in exactly one of these places: no block
  is lost, none is in two places. The only inputs that can make the code leave a table are layer 1 blocks:
  with more length octets than the header has room for, or that the link they are for cannot take (it leaves
  its table or the PDU buffer, or follows a null pointer); up to there every block still has its one owner.
\<close>

theorem uplink_blocks_one_owner:
  assumes "one_owner S y"
  shows "case ul_input_run cs y of
      Some y' \<Rightarrow> one_owner S y'
    | None \<Rightarrow> \<exists>before trx dat codeRate after y1. cs = before @ PdtchInd trx dat codeRate # after \<and>
        ul_input_run before y = Some y1 \<and> one_owner S y1 \<and> block_fails trx dat codeRate y1"
  using assms
proof (induction cs arbitrary: y)
  case (Cons c cs)
  show ?case
  proof (cases "ul_input_step c y")
    case None
    from ul_input_step_undefined [OF this Cons.prems] obtain trx dat codeRate
      where "c = PdtchInd trx dat codeRate" "block_fails trx dat codeRate y" by blast
    then show ?thesis
      using None Cons.prems by (auto intro!: exI [of _ "[]"])
  next
    case (Some y1)
    have y1: "one_owner S y1" by (rule ul_input_step_one_owner [OF Some Cons.prems])
    show ?thesis
    proof (cases "ul_input_run cs y1")
      case None
      then obtain bs trx dat codeRate as y2 where "cs = bs @ PdtchInd trx dat codeRate # as"
          "ul_input_run bs y1 = Some y2" "one_owner S y2" "block_fails trx dat codeRate y2"
        using Cons.IH [OF y1] by auto
      then show ?thesis using None Some by (auto intro!: exI [of _ "c # bs"])
    next
      case s: (Some y2)
      then show ?thesis using Cons.IH [OF y1] Some by simp
    qed
  qed
qed simp

text \<open>Two idle TBFs with one free block.\<close>

definition sample_system :: "nat UlSystem" where
  "sample_system = (let s = sample_state (\<lambda>_. sample_block 0 0 (replicate 53 0)) in
     \<lparr>sy_link = (\<lambda>_. us_link s), sy_tbf = (\<lambda>_. us_tbf s), sy_T3169 = (\<lambda>_. False), sy_activity = (\<lambda>_. False),
       sy_pool = us_pool s, sy_sysCtlAckCount = 5, sy_rxBuff = (\<lambda>_. True), sy_stack = replicate 1560 0xEE,
       sy_out = [], sy_tsPool = snd (snd (AllocateULTFI 0 6 ((\<lambda>_. undefined :: Tbf), TSPool_new [])))\<rparr>)"

lemma sample_system_one_owner: "one_owner {3} sample_system"
  unfolding one_owner_def
  by (intro exI [of _ "[3]"])
    (simp add: sample_system_def Let_def sample_pool stored_def table_ok_def, auto simp: sample_state_def)

theorem uplink_blocks_one_owner_witness:
  "\<exists>y. ul_input_run [UplinkGrant 6, PdtchInd 0 ([4, 0, 1] @ replicate 50 0xAB) CS_1] sample_system = Some y \<and>
     lk_pUlBlocks (sy_link y 6) ! 0 = Some 3 \<and> one_owner {3} y"
proof -
  let ?cs = "[UplinkGrant 6, PdtchInd 0 ([4, 0, 1] @ replicate 50 0xAB) CS_1]"
  have "map_option (\<lambda>y. lk_pUlBlocks (sy_link y 6) ! 0) (ul_input_run ?cs sample_system) = Some (Some 3)" by code_simp
  then obtain y where "ul_input_run ?cs sample_system = Some y" "lk_pUlBlocks (sy_link y 6) ! 0 = Some 3" by auto
  then show ?thesis using uplink_blocks_one_owner [OF sample_system_one_owner, of ?cs] by auto
qed

end
