(* ===== verification/DlRlcLink.thy ===== *)
theory DlRlcLink
  imports UlRlcWindow DataBlockPool Tbf "HOL-Library.Monad_Syntax"
begin

text \<open>
  The downlink RLC link, \<^verbatim>\<open>Rlc_mac/src/DLRlcLink.cpp\<close>: segmentation of LLC PDUs into data blocks,
  the send window with its retransmissions, polling of the mobile, and the handlers of its answers
  and of the link's timers.  \<open>None\<close> is the result of an operation that leaves an array, follows a
  null pointer, reads an unwritten variable, divides by zero or never ends.
\<close>

section \<open>State\<close>

abbreviation (input) XMT_WINDOW :: nat where "XMT_WINDOW \<equiv> 64"
abbreviation (input) RlcMacNumBlocksBetweenPolls :: int where "RlcMacNumBlocksBetweenPolls \<equiv> 8"
abbreviation (input) dlAssignCntMax :: int where "dlAssignCntMax \<equiv> 3"

datatype ACKNOWLEDGE_STATUS = NACKED | PENDING_ACK | ACKED | VB_INVALID

text \<open>
  A downlink PDU in a BSSGP buffer: the buffer it lies in and its octets.  \<open>llcPdu\<close>, \<open>llcPduLen\<close> are
  always set together, to the \<open>data\<close> and \<open>data_len\<close> of one message.
\<close>

record LlcPdu =
  pdu_buffer :: nat
  pdu_data :: "octet list"

text \<open>
  V(S), V(A) and the other sequence numbers only ever hold results of \<open>% RLC_MOD_VAL\<close> or of an
  index below it; \<open>None\<close> in \<open>dk_lastDataBlock\<close> is \<open>LAST_BLOCK_UNKNOWN\<close>.  V(CS) is never used.
\<close>

record DLRlcLink =
  dk_rlcMode :: RLC_MODE
  dk_vS :: nat
  dk_pDlBlocks :: "addr option list"
  dk_lastPendingAckXmit :: nat
  dk_lastBlockSentOnPollTs :: bool
  dk_lastDataBlock :: "nat option"
  dk_chanCoding :: IeChannelCodingCommand
  dk_n3105 :: int
  dk_numBlocksSincePoll :: int
  dk_dlAssignCnt :: int
  dk_pollOnActivation :: bool
  dk_vA :: nat
  dk_vB :: "ACKNOWLEDGE_STATUS list"
  dk_llcPdu :: "LlcPdu option"
  dk_currPduByte :: nat
  dk_N3105_MAX :: int
  dk_isT3193Running :: bool

text \<open>
  What a link hands to the rest of the system: messages for the DSPs, the mobile and BSSGP, and calls
  of the scheduler and of the resource manager that nothing of the link depends on afterwards.
\<close>

datatype dl_event =
    DL_TbfReleaseMsg
  | DL_DeactivationMsg
  | DL_ReconfigurationMsg
  | DL_ResourcesReleased
  | DL_CheckMsgQueues
  | DL_ReallocAssignment
  | DL_Assignment
  | DL_ImmediateAssignment
  | DL_TriggerRTS nat
  | DL_AckNackInfo IeAckNackDescription
  | DL_AllocateULResources
  | DL_AllocateDLResources
  | DL_TimingAdvanceMsg octet
  | DL_PollingRequest octet
  | DL_ReturnRxBuff nat

text \<open>
  The state an operation of a link works on: the link, its TBF, its timers (running or not), the
  block pool and the tag counter that all links share, the PDUs that wait in BSSGP for each TLLI (the
  first one is handed out next), the answers of the scheduler to the next requests for resources (the
  timeslots granted, \<open>None\<close> when refused; refused when the list is used up), whether there is an uplink
  TBF of the same TLLI, and the messages and calls so far.
\<close>

record DlState =
  ds_link :: DLRlcLink
  ds_tbf :: DLTbf
  ds_T3195 :: bool
  ds_T3191 :: bool
  ds_T3193 :: bool
  ds_activity :: bool
  ds_pool :: "DLDataBlock BlockPool"
  ds_sysCtlAckCount :: octet
  ds_bssgp :: "32 word \<Rightarrow> LlcPdu list"
  ds_sched :: "bool list option list"
  ds_ulTbf :: bool
  ds_out :: "dl_event list"

definition dl_emit :: "dl_event list \<Rightarrow> DlState \<Rightarrow> DlState" where
  "dl_emit es s = s\<lparr>ds_out := ds_out s @ es\<rparr>"

definition DL_SetTbfState :: "TBF_STATE \<Rightarrow> DlState \<Rightarrow> DlState" where
  "DL_SetTbfState st s = s\<lparr>ds_tbf := (ds_tbf s)\<lparr>tbf_state := st\<rparr>\<rparr>"

definition sched_request :: "DlState \<Rightarrow> bool \<times> DlState" where
  "sched_request s =
     (case ds_sched s of
        Some ts # ans \<Rightarrow> (True, s\<lparr>ds_sched := ans, ds_tbf := (ds_tbf s)\<lparr>tbf_allocatedTs := ts\<rparr>\<rparr>)
      | None # ans \<Rightarrow> (False, s\<lparr>ds_sched := ans\<rparr>)
      | [] \<Rightarrow> (False, s))"

section \<open>Establishment\<close>

definition DLRlcLink_clear :: "RLC_MODE \<Rightarrow> DLRlcLink \<Rightarrow> DLRlcLink" where
  "DLRlcLink_clear mode l = l\<lparr>dk_llcPdu := None, dk_rlcMode := mode, dk_vS := 0, dk_vA := 0,
      dk_vB := replicate RLC_MOD_VAL VB_INVALID, dk_pDlBlocks := replicate RLC_MOD_VAL None,
      dk_lastPendingAckXmit := 0, dk_lastDataBlock := None, dk_lastBlockSentOnPollTs := False,
      dk_dlAssignCnt := 0, dk_pollOnActivation := False,
      dk_chanCoding := snd (SetChannelCodingCommand CS_1 (dk_chanCoding l)),
      dk_n3105 := 0, dk_numBlocksSincePoll := RlcMacNumBlocksBetweenPolls\<rparr>"

definition DL_EstablishRLCLink :: "RLC_MODE \<Rightarrow> DlState \<Rightarrow> DlState" where
  "DL_EstablishRLCLink mode s =
     s\<lparr>ds_link := (DLRlcLink_clear mode (ds_link s))\<lparr>dk_isT3193Running := False\<rparr>,
       ds_tbf := DL_ClearControlAckTag (ds_tbf s),
       ds_T3195 := False, ds_T3191 := False, ds_T3193 := False, ds_activity := True\<rparr>"

definition DL_ReestablishRLCLink :: "RLC_MODE \<Rightarrow> DlState \<Rightarrow> DlState" where
  "DL_ReestablishRLCLink mode s =
     s\<lparr>ds_link := DLRlcLink_clear mode (ds_link s), ds_tbf := DL_ClearControlAckTag (ds_tbf s),
       ds_T3195 := False, ds_T3191 := False, ds_activity := True\<rparr>"

definition DL_UpdateLinkTSData :: "DlState \<Rightarrow> DlState" where
  "DL_UpdateLinkTSData s =
     s\<lparr>ds_link := (ds_link s)\<lparr>dk_N3105_MAX :=
        5 * int (length (filter id (take MAX_TIMESLOTS (tbf_allocatedTs (ds_tbf s)))))\<rparr>\<rparr>"

text \<open>\<open>DLTbf::UpdateTSSpecificData\<close>, which updates its link too.\<close>

definition DLTbf_UpdateTSSpecificData :: "DlState \<Rightarrow> DlState" where
  "DLTbf_UpdateTSSpecificData s = DL_UpdateLinkTSData (s\<lparr>ds_tbf := DL_UpdateTSSpecificData (ds_tbf s)\<rparr>)"

section \<open>Ending a TBF\<close>

text \<open>Releasing the resources with the scheduler leaves the TBF without timeslots.\<close>

definition dl_release_resources :: "DlState \<Rightarrow> DlState" where
  "dl_release_resources s = dl_emit [DL_ResourcesReleased]
     (s\<lparr>ds_tbf := (ds_tbf s)\<lparr>tbf_allocatedTs := replicate MAX_TIMESLOTS False\<rparr>\<rparr>)"

definition ReleaseDLTbf :: "bool \<Rightarrow> DlState \<Rightarrow> DlState" where
  "ReleaseDLTbf deactivateDsp s =
     DL_SetTbfState FREE (dl_emit (if deactivateDsp then [DL_DeactivationMsg] else []) (dl_release_resources s))"

definition InternalReleaseDLTbf :: "DlState \<Rightarrow> DlState" where
  "InternalReleaseDLTbf s =
     (let s = DL_SetTbfState RELEASING (dl_emit [DL_DeactivationMsg] s)
      in s\<lparr>ds_tbf := DL_ClearControlAckTag ((ds_tbf s)\<lparr>tbf_tlli := 0xffffffff\<rparr>)\<rparr>)"

definition DL_AbnormalRelease :: "DlState \<Rightarrow> DlState" where
  "DL_AbnormalRelease s = (dl_emit [DL_TbfReleaseMsg] (DL_SetTbfState INACTIVE s))\<lparr>ds_T3195 := True\<rparr>"

text \<open>The loop of \<open>ReleaseDataBlocks\<close> over the table, from entry \<open>i\<close> on.\<close>

fun dl_release_loop ::
  "addr option list \<Rightarrow> DLDataBlock BlockPool \<Rightarrow> (addr option list \<times> DLDataBlock BlockPool) option" where
  "dl_release_loop [] q = Some ([], q)"
| "dl_release_loop (e # es) q =
     (case e of
        None \<Rightarrow> map_option (\<lambda>(es, q). (None # es, q)) (dl_release_loop es q)
      | Some p \<Rightarrow> do {
          q \<leftarrow> ReturnDLDataBlock p q;
          (es, q) \<leftarrow> dl_release_loop es q;
          Some (None # es, q)
        })"

definition DL_ReleaseDataBlocks :: "DlState \<Rightarrow> DlState option" where
  "DL_ReleaseDataBlocks s = do {
     (blks, q) \<leftarrow> dl_release_loop (dk_pDlBlocks (ds_link s)) (ds_pool s);
     Some (dl_emit (case dk_llcPdu (ds_link s) of None \<Rightarrow> [] | Some pdu \<Rightarrow> [DL_ReturnRxBuff (pdu_buffer pdu)])
       (s\<lparr>ds_link := (ds_link s)\<lparr>dk_pDlBlocks := blks\<rparr>, ds_pool := q\<rparr>))
   }"

definition end_of_dl_tbf :: "bool \<Rightarrow> DlState \<Rightarrow> DlState option" where
  "end_of_dl_tbf deactivateDsp s =
     map_option (dl_emit [DL_CheckMsgQueues]) (DL_ReleaseDataBlocks (ReleaseDLTbf deactivateDsp s))"

definition ProcessT3195Expiry :: "DlState \<Rightarrow> DlState option" where
  "ProcessT3195Expiry s = end_of_dl_tbf False (s\<lparr>ds_T3195 := False, ds_activity := False\<rparr>)"

definition ProcessT3191Expiry :: "DlState \<Rightarrow> DlState option" where
  "ProcessT3191Expiry s = end_of_dl_tbf True (s\<lparr>ds_T3191 := False, ds_activity := False\<rparr>)"

definition ProcessT3193Expiry :: "DlState \<Rightarrow> DlState option" where
  "ProcessT3193Expiry s =
     end_of_dl_tbf True (s\<lparr>ds_T3193 := False, ds_link := (ds_link s)\<lparr>dk_isT3193Running := False\<rparr>, ds_activity := False\<rparr>)"

definition DL_ProcessActivityTimerExpiry :: "DlState \<Rightarrow> DlState option" where
  "DL_ProcessActivityTimerExpiry s = end_of_dl_tbf True s"

section \<open>PDUs from BSSGP\<close>

definition GetNextLLCPdu :: "DlState \<Rightarrow> bool \<times> DlState" where
  "GetNextLLCPdu s =
     (case ds_bssgp s (tbf_tlli (ds_tbf s)) of
        [] \<Rightarrow> (False, s)
      | pdu # pdus \<Rightarrow>
          (True, dl_emit (case dk_llcPdu (ds_link s) of None \<Rightarrow> [] | Some old \<Rightarrow> [DL_ReturnRxBuff (pdu_buffer old)])
             (s\<lparr>ds_bssgp := (ds_bssgp s)(tbf_tlli (ds_tbf s) := pdus),
                ds_link := (ds_link s)\<lparr>dk_llcPdu := Some pdu, dk_currPduByte := 0\<rparr>\<rparr>)))"

definition MoreLLCPdusAvailable :: "DlState \<Rightarrow> bool" where
  "MoreLLCPdusAvailable s \<longleftrightarrow> ds_bssgp s (tbf_tlli (ds_tbf s)) \<noteq> []"

definition ReallocateDLResources :: "DlState \<Rightarrow> DlState" where
  "ReallocateDLResources s =
     (case sched_request s of
        (False, s) \<Rightarrow> s
      | (True, s) \<Rightarrow> dl_emit [DL_ReallocAssignment] (DL_SetTbfState REALLOCATING (DLTbf_UpdateTSSpecificData s)))"

section \<open>Segmentation\<close>

text \<open>The fields of the block at address \<open>p\<close>.\<close>

definition on_block :: "addr \<Rightarrow> (DLDataBlock \<Rightarrow> DLDataBlock) \<Rightarrow> DlState \<Rightarrow> DlState" where
  "on_block p f s = s\<lparr>ds_pool := (ds_pool s)\<lparr>bp_block := (bp_block (ds_pool s))(p := f (bp_block (ds_pool s) p))\<rparr>\<rparr>"

abbreviation dl_block :: "DlState \<Rightarrow> addr \<Rightarrow> DLDataBlock" where
  "dl_block s p \<equiv> bp_block (ds_pool s) p"

abbreviation on_header :: "(DLMacHeader \<Rightarrow> DLMacHeader) \<Rightarrow> DLDataBlock \<Rightarrow> DLDataBlock" where
  "on_header f b \<equiv> b\<lparr>db_dlHeader := f (db_dlHeader b)\<rparr>"

text \<open>
  The last length octet written so far becomes the last of the block; the header's index, which stands
  one behind it, moves back to it.
\<close>

definition end_length_octets :: "DLMacHeader \<Rightarrow> DLMacHeader" where
  "end_length_octets h =
     (if dl_currLengthOctet h \<noteq> 0
      then snd (dl_SetCurrLengthOctetExtension NO_EXTENSION_OCTET (dl_DecrementCurrLengthOctetIndex h)) else h)"

definition copy_octets :: "octet list \<Rightarrow> DLDataBlock \<Rightarrow> DLDataBlock option" where
  "copy_octets bs b =
     (let n = db_streamOutLen b
      in if n + length bs \<le> MAX_BITSTREAM
         then Some (b\<lparr>db_streamOut := take n (db_streamOut b) @ bs @ drop (n + length bs) (db_streamOut b),
                      db_streamOutLen := n + length bs\<rparr>)
         else None)"

text \<open>
  \<open>SegmentLLCPdu\<close>: whether the block is full, and the number of octets copied.  A negative number of
  octets, or a link without a PDU, is \<open>None\<close>.
\<close>

definition end_in_block :: "addr \<Rightarrow> DlState \<Rightarrow> DlState" where
  "end_in_block p s =
     (if MoreLLCPdusAvailable s then
        on_block p (\<lambda>b. b\<lparr>db_streamOutLen := db_streamOutLen b - 1, db_dlHeaderLen := db_dlHeaderLen b + 1,
            db_dlHeader := snd (dl_SetLengthOctet 0 MORE_LLC_DATA NO_EXTENSION_OCTET
               ((db_dlHeader b)\<lparr>dl_fbiBit := NOT_LAST_RLC_BLOCK, dl_extensionBit := EXTENSION_OCTET_FOLLOWS\<rparr>))\<rparr>)
          (s\<lparr>ds_link := (ds_link s)\<lparr>dk_currPduByte := dk_currPduByte (ds_link s) - 1\<rparr>\<rparr>)
      else
        on_block p (on_header (\<lambda>h. end_length_octets (h\<lparr>dl_fbiBit := LAST_RLC_BLOCK, dl_spBit := RRBP_VALID\<rparr>)))
          (s\<lparr>ds_link := (ds_link s)\<lparr>dk_lastDataBlock := Some (dk_vS (ds_link s))\<rparr>, ds_T3191 := True\<rparr>))"

definition SegmentLLCPdu :: "addr \<Rightarrow> DlState \<Rightarrow> (bool \<times> nat \<times> DlState) option" where
  "SegmentLLCPdu p s = do {
     pdu \<leftarrow> dk_llcPdu (ds_link s);
     let b = dl_block s p;
     let len = GetRLCDataBlockSize (cc_coding (db_chanCoding b));
     let cur = dk_currPduByte (ds_link s);
     if len < db_dlHeaderLen b + db_streamOutLen b \<or> length (pdu_data pdu) < cur then None
     else do {
       let n = min (len - db_dlHeaderLen b - db_streamOutLen b) (length (pdu_data pdu) - cur);
       b \<leftarrow> copy_octets (take n (drop cur (pdu_data pdu))) b;
       let s = on_block p (\<lambda>_. b) (s\<lparr>ds_link := (ds_link s)\<lparr>dk_currPduByte := cur + n\<rparr>\<rparr>);
       Some (if db_streamOutLen b + db_dlHeaderLen b = len \<and> n \<noteq> 0
             then (True, n, if length (pdu_data pdu) = cur + n then end_in_block p s
                            else on_block p (on_header end_length_octets) s)
             else (False, n, on_block p (on_header (\<lambda>h. h\<lparr>dl_extensionBit := EXTENSION_OCTET_FOLLOWS\<rparr>)) s))
     }
   }"

section \<open>BuildDLRlcBlock\<close>

definition init_block :: "IeChannelCodingCommand \<Rightarrow> octet \<Rightarrow> nat \<Rightarrow> DLDataBlock \<Rightarrow> DLDataBlock" where
  "init_block cc tfi vS b = b\<lparr>db_chanCoding := cc, db_streamOutLen := 0, db_dlHeaderLen := GetDataHdrSize,
     db_dlHeader := (db_dlHeader b)\<lparr>dl_payloadType := RLC_DATA_BLOCK, dl_rrbp := FN_N_13, dl_spBit := RRBP_NOT_VALID,
       dl_powerReduction := MODEA_NOT_USABLE_OR_MODEB_24_30_DB, dl_tfi := tfi, dl_bsn := of_nat vS,
       dl_extensionBit := NO_EXTENSION_OCTET, dl_fbiBit := NOT_LAST_RLC_BLOCK\<rparr>\<rparr>"

text \<open>A length octet for the PDU that ends here, more to come, or no more.\<close>

definition next_pdu_octet :: "nat \<Rightarrow> DLDataBlock \<Rightarrow> DLDataBlock" where
  "next_pdu_octet n b = b\<lparr>db_dlHeaderLen := db_dlHeaderLen b + 1, db_dlHeader := dl_IncrementCurrLengthOctetIndex
     (snd (dl_SetLengthOctet (of_nat n) MORE_LLC_DATA EXTENSION_OCTET_FOLLOWS (db_dlHeader b)))\<rparr>"

definition last_pdu_octet :: "nat \<Rightarrow> DLDataBlock \<Rightarrow> DLDataBlock" where
  "last_pdu_octet n b = b\<lparr>db_dlHeaderLen := db_dlHeaderLen b + 1, db_dlHeader :=
     (snd (dl_SetLengthOctet (of_nat n) NO_MORE_LLC_DATA NO_EXTENSION_OCTET (db_dlHeader b)))
       \<lparr>dl_fbiBit := LAST_RLC_BLOCK, dl_spBit := RRBP_VALID\<rparr>\<rparr>"

partial_function (option) segment_loop :: "addr \<Rightarrow> DlState \<Rightarrow> DlState option" where
  "segment_loop p s = do {
     (full, n, s) \<leftarrow> SegmentLLCPdu p s;
     if full then Some s
     else if n = 0 then Some (on_block p (on_header end_length_octets) s)
     else if fst (GetNextLLCPdu s)
     then segment_loop p (ReallocateDLResources (on_block p (next_pdu_octet n) (snd (GetNextLLCPdu s))))
     else Some (on_block p (last_pdu_octet n)
            (s\<lparr>ds_link := (ds_link s)\<lparr>dk_lastDataBlock := Some (dk_vS (ds_link s))\<rparr>, ds_T3191 := True\<rparr>))
   }"

declare segment_loop.simps [code]

text \<open>Unacknowledged mode: the block that held this sequence number goes back first.\<close>

definition free_slot :: "DlState \<Rightarrow> DlState option" where
  "free_slot s =
     (case dk_pDlBlocks (ds_link s) ! dk_vS (ds_link s) of
        Some p \<Rightarrow> if dk_rlcMode (ds_link s) = UNACKNOWLEDGED_RLC_MODE
                  then map_option (\<lambda>q. s\<lparr>ds_pool := q\<rparr>) (ReturnDLDataBlock p (ds_pool s)) else Some s
      | None \<Rightarrow> Some s)"

definition window_open :: "DLRlcLink \<Rightarrow> bool" where
  "window_open l \<longleftrightarrow> dk_vS l \<noteq> (dk_vA l + XMT_WINDOW) mod RLC_MOD_VAL \<or> dk_rlcMode l = UNACKNOWLEDGED_RLC_MODE"

definition BuildDLRlcBlock :: "DlState \<Rightarrow> (addr option \<times> DlState) option" where
  "BuildDLRlcBlock s =
     (let l = ds_link s; vS = dk_vS l in
      if dk_lastDataBlock l \<noteq> None \<or> \<not> window_open l then Some (None, s)
      else do {
        s \<leftarrow> free_slot s;
        (got, q) \<leftarrow> GetDataBlock (ds_pool s);
        p \<leftarrow> got;
        s \<leftarrow> segment_loop p (on_block p (init_block (dk_chanCoding l) (tfi_val (tbf_tfi (ds_tbf s))) vS)
               (s\<lparr>ds_pool := q, ds_link := (ds_link s)\<lparr>dk_pDlBlocks := (dk_pDlBlocks (ds_link s))[vS := Some p]\<rparr>\<rparr>));
        Some (Some p, s\<lparr>ds_link := (ds_link s)\<lparr>dk_vB := (dk_vB (ds_link s))[vS := PENDING_ACK],
                          dk_vS := (vS + 1) mod RLC_MOD_VAL\<rparr>\<rparr>)
      })"

section \<open>Retransmission\<close>

partial_function (option) nacked_loop :: "DLRlcLink \<Rightarrow> nat \<Rightarrow> nat option option" where
  "nacked_loop l cur =
     (if cur = dk_vS l then Some None
      else if RLC_MOD_VAL \<le> cur then None
      else if dk_vB l ! cur = NACKED then Some (Some cur)
      else nacked_loop l ((cur + 1) mod RLC_MOD_VAL))"

declare nacked_loop.simps [code]

definition restart_T3191 :: "nat \<Rightarrow> DlState \<Rightarrow> DlState" where
  "restart_T3191 cur s = (if Some cur = dk_lastDataBlock (ds_link s) then s\<lparr>ds_T3191 := True\<rparr> else s)"

definition RetransmitNackedDLRlcBlock :: "DlState \<Rightarrow> (addr option \<times> DlState) option" where
  "RetransmitNackedDLRlcBlock s = do {
     let l = ds_link s;
     found \<leftarrow> nacked_loop l (dk_vA l);
     Some (case found of
         None \<Rightarrow> (None, s)
       | Some cur \<Rightarrow> (dk_pDlBlocks l ! cur,
           restart_T3191 cur (s\<lparr>ds_link := l\<lparr>dk_vB := (dk_vB l)[cur := PENDING_ACK], dk_lastPendingAckXmit := dk_vA l\<rparr>\<rparr>)))
   }"

partial_function (option) pending_loop :: "DLRlcLink \<Rightarrow> nat \<Rightarrow> nat option option" where
  "pending_loop l cur =
     (if cur = dk_vS l then Some None
      else if RLC_MOD_VAL \<le> cur then None
      else if dk_vB l ! cur = PENDING_ACK then Some (Some cur)
      else pending_loop l ((cur + 1) mod RLC_MOD_VAL))"

declare pending_loop.simps [code]

definition RetransmitPendingAckDLRlcBlock :: "DlState \<Rightarrow> (addr option \<times> DlState) option" where
  "RetransmitPendingAckDLRlcBlock s =
     (let l = ds_link s;
          resend_last = (case dk_lastDataBlock l of
              Some lb \<Rightarrow> (dk_pDlBlocks l ! lb, s\<lparr>ds_T3191 := True\<rparr>) | None \<Rightarrow> (None, s))
      in if dk_lastDataBlock l \<noteq> None \<and> \<not> dk_lastBlockSentOnPollTs l then Some resend_last
         else do {
           found \<leftarrow> pending_loop l (dk_lastPendingAckXmit l);
           Some (case found of
               None \<Rightarrow> resend_last
             | Some cur \<Rightarrow>
                 (let nxt = (cur + 1) mod RLC_MOD_VAL
                  in (dk_pDlBlocks l ! cur, restart_T3191 cur
                       (s\<lparr>ds_link := l\<lparr>dk_lastPendingAckXmit := (if nxt = dk_vS l then dk_vA l else nxt)\<rparr>\<rparr>))))
         })"

section \<open>Polling\<close>

definition PollingTsCheck :: "int \<Rightarrow> nat \<Rightarrow> 'a Tbf_scheme \<Rightarrow> bool" where
  "PollingTsCheck trx ts t \<longleftrightarrow> tbf_trx t = trx \<and> tbf_naturalTs t ! ts"

datatype BURST = RLC_MAC_NORMAL_BURST | RLC_MAC_ACCESS_BURST

text \<open>The mobile is given up: N3105 polls without an answer.\<close>

definition radio_link_lost :: "DlState \<Rightarrow> DlState" where
  "radio_link_lost s = InternalReleaseDLTbf (s\<lparr>ds_T3195 := True\<rparr>)"

definition count_poll :: "DlState \<Rightarrow> bool \<times> DlState" where
  "count_poll s =
     (let n = dk_n3105 (ds_link s); s = s\<lparr>ds_link := (ds_link s)\<lparr>dk_n3105 := n + 1\<rparr>\<rparr>
      in if n \<ge> dk_N3105_MAX (ds_link s) then (True, radio_link_lost s) else (False, s))"

definition poll_final :: "DlState \<Rightarrow> (bool \<times> octet \<times> BURST \<times> DlState) option" where
  "poll_final s =
     (case count_poll s of
        (True, s) \<Rightarrow> Some (True, CTL_ACK_TAG_NOT_APPLICABLE, RLC_MAC_NORMAL_BURST, s)
      | (False, s) \<Rightarrow> do {
          (tag, c, t) \<leftarrow> DL_SetControlAckTag (ds_sysCtlAckCount s, ds_tbf s);
          Some (False, tag,
            if dk_rlcMode (ds_link s) = UNACKNOWLEDGED_RLC_MODE then RLC_MAC_ACCESS_BURST else RLC_MAC_NORMAL_BURST,
            s\<lparr>ds_sysCtlAckCount := c, ds_tbf := t\<lparr>tbf_state := INACTIVE\<rparr>,
              ds_link := (ds_link s)\<lparr>dk_numBlocksSincePoll := RlcMacNumBlocksBetweenPolls,
                 dk_lastBlockSentOnPollTs := True\<rparr>\<rparr>)
        })"

definition is_last_block :: "addr \<Rightarrow> DLRlcLink \<Rightarrow> bool" where
  "is_last_block p l \<longleftrightarrow>
     (case dk_lastDataBlock l of None \<Rightarrow> False | Some lb \<Rightarrow> dk_pDlBlocks l ! lb = Some p)"

text \<open>
  \<open>SetPollingBit\<close> of the block at \<open>p\<close>: whether nothing is to be sent, the control acknowledgement tag
  and the burst type.
\<close>

definition SetPollingBit :: "addr \<Rightarrow> int \<Rightarrow> nat \<Rightarrow> DlState \<Rightarrow> (bool \<times> octet \<times> BURST \<times> DlState) option" where
  "SetPollingBit p reqTrx reqTs s =
     (let l = ds_link s in
      if is_last_block p l then
        (if PollingTsCheck reqTrx reqTs (ds_tbf s) then poll_final s
         else Some (True, CTL_ACK_TAG_NOT_APPLICABLE, RLC_MAC_NORMAL_BURST, s))
      else
        (let n = (if dk_numBlocksSincePoll l = 0 then 0 else dk_numBlocksSincePoll l - 1);
             s = on_block p (on_header (\<lambda>h. h\<lparr>dl_spBit := RRBP_NOT_VALID\<rparr>))
                   (s\<lparr>ds_link := l\<lparr>dk_numBlocksSincePoll := n\<rparr>\<rparr>)
         in if n \<le> 0 \<and> PollingTsCheck reqTrx reqTs (ds_tbf s) then
              (case count_poll (on_block p (on_header (\<lambda>h. h\<lparr>dl_spBit := RRBP_VALID\<rparr>))
                 (s\<lparr>ds_link := (ds_link s)\<lparr>dk_numBlocksSincePoll := RlcMacNumBlocksBetweenPolls\<rparr>\<rparr>)) of
                 (lost, s) \<Rightarrow> Some (lost, CTL_ACK_TAG_NOT_APPLICABLE, RLC_MAC_NORMAL_BURST, s))
            else Some (False, CTL_ACK_TAG_NOT_APPLICABLE, RLC_MAC_NORMAL_BURST, s)))"

section \<open>GetDLRlcBlock\<close>

text \<open>The first of the three sources that has a block: nacked, new, pending.\<close>

definition pick_block :: "DlState \<Rightarrow> (addr option \<times> DlState) option" where
  "pick_block s = do {
     let acked = (dk_rlcMode (ds_link s) = ACKNOWLEDGED_RLC_MODE);
     (b, s) \<leftarrow> (if acked then RetransmitNackedDLRlcBlock s else Some (None, s));
     if b \<noteq> None then Some (b, s)
     else do {
       (b, s) \<leftarrow> BuildDLRlcBlock s;
       if b \<noteq> None \<or> \<not> acked then Some (b, s) else RetransmitPendingAckDLRlcBlock s
     }
   }"

text \<open>
  \<open>ctrlAckTag\<close> and \<open>burstType\<close> are the caller's variables, unchanged when there is no block.
\<close>

definition GetDLRlcBlock ::
  "octet \<times> BURST \<Rightarrow> int \<Rightarrow> nat \<Rightarrow> DlState \<Rightarrow> (addr option \<times> (octet \<times> BURST) \<times> DlState) option" where
  "GetDLRlcBlock out reqTrx reqTs s = do {
     (b, s) \<leftarrow> pick_block s;
     (b, out, s) \<leftarrow> (case b of
         None \<Rightarrow> Some (None, out, s)
       | Some p \<Rightarrow> do {
           (failed, tag, burst, s) \<leftarrow> SetPollingBit p reqTrx reqTs s;
           Some (if failed then None else Some p, (tag, burst), s)
         });
     Some (b, out, s\<lparr>ds_activity := True\<rparr>)
   }"

section \<open>Answers of the mobile\<close>

text \<open>
  Every timeslot of the TBF is asked for its next block.
\<close>

definition trigger_RTS :: "DlState \<Rightarrow> DlState" where
  "trigger_RTS s = dl_emit (map DL_TriggerRTS (filter (\<lambda>i. tbf_allocatedTs (ds_tbf s) ! i) [0..<MAX_TIMESLOTS])) s"

text \<open>\<open>TBF_COMPLETE\<close>: everything up to V(S) is acknowledged.\<close>

partial_function (option) ack_all :: "nat \<Rightarrow> nat \<Rightarrow> ACKNOWLEDGE_STATUS list \<Rightarrow> ACKNOWLEDGE_STATUS list option" where
  "ack_all vA vS vB =
     (if vA = vS then Some vB
      else if RLC_MOD_VAL \<le> vA then None
      else ack_all ((vA + 1) mod RLC_MOD_VAL) vS (vB[vA := ACKED]))"

declare ack_all.simps [code]

text \<open>
  The bitmap, read backwards from the block before \<open>ssn\<close> down to V(A): the new V(B) and the last
  nacked block seen. \<open>rrb\<close> has eight octets; reading before or behind it is \<open>None\<close>.
\<close>

partial_function (option) bitmap_loop ::
  "octet list \<Rightarrow> nat \<Rightarrow> int \<Rightarrow> octet \<Rightarrow> nat \<Rightarrow> nat \<Rightarrow> ACKNOWLEDGE_STATUS list \<Rightarrow> (nat \<times> ACKNOWLEDGE_STATUS list) option" where
  "bitmap_loop rrb vA rrbIndex bitPos i tmpVA vB =
     (if rrbIndex < 0 \<or> RLC_MOD_VAL \<le> i then None
      else
        (let bit = (rrb ! nat rrbIndex AND bitPos \<noteq> 0);
             vB = vB[i := if bit then ACKED else NACKED];
             tmpVA = (if bit then tmpVA else i);
             over = (push_bit 1 bitPos = 0)
         in if i = vA then Some (tmpVA, vB)
            else bitmap_loop rrb vA (if over then rrbIndex - 1 else rrbIndex) (if over then 1 else push_bit 1 bitPos)
                   (if i = 0 then RLC_MOD_VAL - 1 else i - 1) tmpVA vB))"

declare bitmap_loop.simps [code]

text \<open>Blocks up to the new V(A) leave the window and go back to the pool.\<close>

partial_function (option) slide_loop ::
  "nat \<Rightarrow> nat \<Rightarrow> DLRlcLink \<times> DLDataBlock BlockPool \<Rightarrow> (DLRlcLink \<times> DLDataBlock BlockPool) option" where
  "slide_loop i newA lq =
     (if i = newA then Some lq
      else if RLC_MOD_VAL \<le> i then None
      else do {
        p \<leftarrow> dk_pDlBlocks (fst lq) ! i;
        q \<leftarrow> ReturnDLDataBlock p (snd lq);
        slide_loop ((i + 1) mod RLC_MOD_VAL) newA
          ((fst lq)\<lparr>dk_vB := (dk_vB (fst lq))[i := VB_INVALID], dk_pDlBlocks := (dk_pDlBlocks (fst lq))[i := None]\<rparr>, q)
      })"

declare slide_loop.simps [code]

definition partial_ack :: "octet \<Rightarrow> octet list \<Rightarrow> DlState \<Rightarrow> DlState option" where
  "partial_ack ssn rrb s = do {
     let l = ds_link s;
     (newA, vB) \<leftarrow> bitmap_loop rrb (dk_vA l) 7 1 (if ssn = 0 then RLC_MOD_VAL - 1 else unat ssn - 1) (unat ssn) (dk_vB l);
     (l, q) \<leftarrow> slide_loop (dk_vA l) newA (l\<lparr>dk_vB := vB\<rparr>, ds_pool s);
     let s = s\<lparr>ds_link := l\<lparr>dk_vA := newA\<rparr>, ds_pool := q\<rparr>;
     Some (if dk_lastDataBlock l \<noteq> None \<and> tbf_state (ds_tbf s) \<noteq> ALLOCATED
           then trigger_RTS (DL_SetTbfState ALLOCATED (s\<lparr>ds_link := (ds_link s)\<lparr>dk_lastBlockSentOnPollTs := False\<rparr>\<rparr>))
           else s)
   }"

definition complete_ack :: "DlState \<Rightarrow> DlState option" where
  "complete_ack s = do {
     let l = ds_link s;
     vB \<leftarrow> ack_all (dk_vA l) (dk_vS l) (dk_vB l);
     let s = s\<lparr>ds_link := l\<lparr>dk_vB := vB, dk_vA := dk_vS l, dk_isT3193Running := True\<rparr>, ds_T3193 := True\<rparr>;
     Some (if MoreLLCPdusAvailable s then dl_emit [DL_AllocateDLResources] s else s)
   }"

text \<open>\<open>chanReq\<close>: the message carries a channel request description.\<close>

definition ReceiveDLAckNack :: "bool \<Rightarrow> IeAckNackDescription \<Rightarrow> DlState \<Rightarrow> DlState option" where
  "ReceiveDLAckNack chanReq an s =
     (if tbf_state (ds_tbf s) = RELEASING then Some s
      else
        (let s = dl_emit ((if chanReq then [DL_AllocateULResources] else []) @ [DL_AckNackInfo an])
                   (s\<lparr>ds_T3191 := False, ds_link := (ds_link s)\<lparr>dk_n3105 := 0\<rparr>\<rparr>)
         in if dk_rlcMode (ds_link s) = UNACKNOWLEDGED_RLC_MODE then Some s
            else if an_finalAckIndication an = TBF_COMPLETE then complete_ack s
            else partial_ack (an_startingSeqNum an) (an_recBlockBitmap an) s))"

definition DL_ReceivePacketControlAck :: "octet \<Rightarrow> DlState \<Rightarrow> DlState" where
  "DL_ReceivePacketControlAck ta s =
     (if tbf_state (ds_tbf s) = ACTIVATING then
        trigger_RTS (dl_emit (if ta \<noteq> 0xff then [DL_TimingAdvanceMsg ta] else []) (DL_SetTbfState ALLOCATED s))
      else if tbf_state (ds_tbf s) = REALLOCATING then
        trigger_RTS (dl_emit [DL_ReconfigurationMsg] (DL_SetTbfState ALLOCATED s))
      else if dk_rlcMode (ds_link s) = UNACKNOWLEDGED_RLC_MODE then
        (let s = DL_SetTbfState INACTIVE s
         in if MoreLLCPdusAvailable s then dl_emit [DL_AllocateDLResources] s
            else s\<lparr>ds_T3193 := True, ds_link := (ds_link s)\<lparr>dk_isT3193Running := True\<rparr>\<rparr>)
      else s)"

definition SendPacketPollingRequest :: "DlState \<Rightarrow> DlState option" where
  "SendPacketPollingRequest s = do {
     (tag, c, t) \<leftarrow> DL_SetControlAckTag (ds_sysCtlAckCount s, ds_tbf s);
     Some (dl_emit [DL_PollingRequest tag] (s\<lparr>ds_sysCtlAckCount := c, ds_tbf := t\<rparr>))
   }"

text \<open>No uplink TBF: the assignment goes on the CCCH, which can only give one timeslot.\<close>

definition reassign :: "DlState \<Rightarrow> DlState" where
  "reassign s =
     (if ds_ulTbf s then dl_emit [DL_Assignment] s
      else
        dl_emit [DL_ImmediateAssignment]
          (if 1 < length (filter id (take MAX_TIMESLOTS (tbf_allocatedTs (ds_tbf s)))) then
             (case sched_request (dl_release_resources s) of
                (True, s) \<Rightarrow> dl_emit [DL_ReconfigurationMsg] (DLTbf_UpdateTSSpecificData s)
              | (False, s) \<Rightarrow> s\<lparr>ds_T3195 := True\<rparr>)
           else s))"

definition DL_ReceivePacketControlNack :: "DlState \<Rightarrow> DlState option" where
  "DL_ReceivePacketControlNack s =
     (if tbf_state (ds_tbf s) = ACTIVATING then
        (if \<not> dk_pollOnActivation (ds_link s) then
           SendPacketPollingRequest (s\<lparr>ds_link := (ds_link s)\<lparr>dk_pollOnActivation := True\<rparr>\<rparr>)
         else
           (let s = s\<lparr>ds_link := (ds_link s)\<lparr>dk_dlAssignCnt := dk_dlAssignCnt (ds_link s) + 1\<rparr>\<rparr>
            in if dk_dlAssignCnt (ds_link s) < dlAssignCntMax
               then Some (reassign (s\<lparr>ds_link := (ds_link s)\<lparr>dk_pollOnActivation := False\<rparr>\<rparr>))
               else Some (s\<lparr>ds_T3195 := True\<rparr>)))
      else if tbf_state (ds_tbf s) = REALLOCATING \<or> dk_rlcMode (ds_link s) = UNACKNOWLEDGED_RLC_MODE
      then Some (InternalReleaseDLTbf (s\<lparr>ds_T3195 := True\<rparr>))
      else Some (trigger_RTS (DL_SetTbfState ALLOCATED (s\<lparr>ds_link := (ds_link s)\<lparr>dk_lastBlockSentOnPollTs := False\<rparr>\<rparr>))))"

end
