(* ===== verification/DlSegment.thy ===== *)
theory DlSegment
  imports DlRlcLink
begin

text \<open>
  Segmentation on the downlink, over \<open>BuildDLRlcBlock\<close> of \<open>DlRlcLink\<close>: what a mobile that follows the
  air interface (GSM 04.60, 10.4.14) reads out of the blocks are the PDUs that BSSGP handed over.
\<close>

section \<open>The mobile's side\<close>

text \<open>
  The PDUs that end in a block, and the part of a PDU left at its end, given the length octets, the
  part \<open>cur\<close> of a PDU carried over from earlier blocks, and the data octets. A length of 0 says that
  no PDU ends in the block.
\<close>

fun split_data :: "LengthOctet list \<Rightarrow> octet list \<Rightarrow> octet list \<Rightarrow> octet list list \<times> octet list" where
  "split_data [] cur dat = ([], cur @ dat)"
| "split_data (lo # los) cur dat =
     (if lo_length lo = 0 then ([], cur @ dat)
      else let n = unat (lo_length lo); pdu = cur @ take n dat; rest = drop n dat
           in if lo_extensionBit lo = EXTENSION_OCTET_FOLLOWS
              then (case split_data los [] rest of (ps, c) \<Rightarrow> (pdu # ps, c))
              else if lo_moreBit lo = MORE_LLC_DATA then ([pdu], rest) else ([pdu], []))"

definition dl_octets :: "DLDataBlock \<Rightarrow> octet list" where
  "dl_octets b = take (db_streamOutLen b) (db_streamOut b)"

text \<open>A block received with \<open>cur\<close> carried over; the final block ends the PDU that is open.\<close>

definition mobile_block :: "DLDataBlock \<Rightarrow> octet list \<Rightarrow> octet list list \<times> octet list" where
  "mobile_block b cur =
     (let h = db_dlHeader b;
          (ps, c) = (if dl_extensionBit h = EXTENSION_OCTET_FOLLOWS
                     then split_data (dl_LengthOctets h) cur (dl_octets b) else ([], cur @ dl_octets b))
      in if dl_fbiBit h = LAST_RLC_BLOCK \<and> c \<noteq> [] then (ps @ [c], []) else (ps, c))"

section \<open>A block while it is filled\<close>

definition follows :: "nat \<Rightarrow> LengthOctet" where
  "follows n = \<lparr>lo_length = of_nat n, lo_moreBit = MORE_LLC_DATA, lo_extensionBit = EXTENSION_OCTET_FOLLOWS\<rparr>"

text \<open>
  \<open>filled b ns dat\<close>: block \<open>b\<close> holds the octets \<open>dat\<close>, with one length octet for each of the lengths
  \<open>ns\<close>, which all announce a successor.
\<close>

definition filled :: "DLDataBlock \<Rightarrow> nat list \<Rightarrow> octet list \<Rightarrow> bool" where
  "filled b ns dat \<longleftrightarrow> dl_octets b = dat \<and> db_streamOutLen b = length dat \<and> length (db_streamOut b) = MAX_BITSTREAM \<and>
     db_dlHeaderLen b = 3 + length ns \<and>
     3 + length ns + length dat \<le> GetRLCDataBlockSize (cc_coding (db_chanCoding b)) \<and>
     length (dl_LengthOctets (db_dlHeader b)) = 10 \<and> dl_currLengthOctet (db_dlHeader b) = length ns \<and>
     take (length ns) (dl_LengthOctets (db_dlHeader b)) = map follows ns \<and>
     (\<forall>n \<in> set ns. 0 < n) \<and> sum_list ns = length dat \<and> 5 * length ns \<le> length dat + 4 \<and>
     dl_extensionBit (db_dlHeader b) = (if ns = [] then NO_EXTENSION_OCTET else EXTENSION_OCTET_FOLLOWS) \<and>
     dl_fbiBit (db_dlHeader b) = NOT_LAST_RLC_BLOCK"

lemma block_sizes: "23 \<le> GetRLCDataBlockSize c" "GetRLCDataBlockSize c \<le> 53"
  by (cases c; simp)+

lemma filled_bounds:
  assumes "filled b ns dat"
  shows "length ns \<le> 9" "length dat \<le> 50" "n \<in> set ns \<Longrightarrow> unat (of_nat n :: octet) = n"
proof -
  have b: "3 + length ns + length dat \<le> 53" "5 * length ns \<le> length dat + 4" "sum_list ns = length dat"
    using assms block_sizes(2) [of "cc_coding (db_chanCoding b)"] by (auto simp: filled_def)
  then show "length ns \<le> 9" "length dat \<le> 50" by linarith+
  then have "n \<le> 50" if "n \<in> set ns" using b(3) member_le_sum_list [OF that] by simp
  then show "n \<in> set ns \<Longrightarrow> unat (of_nat n :: octet) = n" by (simp add: unat_of_nat)
qed

text \<open>The PDUs that the lengths \<open>ns\<close> cut out of the octets, the first one started by \<open>cur\<close>.\<close>

fun cut :: "nat list \<Rightarrow> octet list \<Rightarrow> octet list \<Rightarrow> octet list list" where
  "cut [] cur dat = []"
| "cut (n # ns) cur dat = (cur @ take n dat) # cut ns [] (drop n dat)"

lemma cut_snoc:
  "sum_list ns = length dat \<Longrightarrow>
     cut (ns @ [length seg]) cur (dat @ seg) = cut ns cur dat @ [(if ns = [] then cur else []) @ seg]"
  by (induction ns arbitrary: cur dat) auto

lemma split_follows:
  assumes "\<forall>n \<in> set ns. 0 < n \<and> unat (of_nat n :: octet) = n" "sum_list ns = length dat"
  shows "split_data (map follows ns @ los) cur (dat @ dat2) =
       (case split_data los (if ns = [] then cur else []) dat2 of (ps, c) \<Rightarrow> (cut ns cur dat @ ps, c))"
  using assms
proof (induction ns arbitrary: cur dat)
  case (Cons n ns)
  have n: "(of_nat n :: octet) \<noteq> 0" "unat (of_nat n :: octet) = n" using Cons.prems(1) by auto
  have len: "n \<le> length dat" "sum_list ns = length (drop n dat)" using Cons.prems(2) by auto
  show ?case
    using Cons.IH [of "drop n dat" "[]"] Cons.prems(1) len n by (simp add: follows_def Let_def split: prod.splits)
qed (simp split: prod.splits)

text \<open>The same with the last of them marked as the last of the block.\<close>

lemma split_follows_last:
  assumes "\<forall>n \<in> set (ns @ [n]). 0 < n \<and> unat (of_nat n :: octet) = n" "sum_list (ns @ [n]) = length dat"
  shows "split_data (map follows ns @ (follows n)\<lparr>lo_extensionBit := NO_EXTENSION_OCTET\<rparr> # los) cur (dat @ dat2) =
       (cut (ns @ [n]) cur dat, dat2)"
proof -
  let ?d = "take (sum_list ns) dat" and ?s = "drop (sum_list ns) dat"
  have d: "dat = ?d @ ?s" "sum_list ns = length ?d" "n = length ?s" using assms(2) by auto
  have n: "(of_nat n :: octet) \<noteq> 0" "unat (of_nat n :: octet) = n" using assms(1) by auto
  have "split_data (map follows ns @ (follows n)\<lparr>lo_extensionBit := NO_EXTENSION_OCTET\<rparr> # los) cur (?d @ (?s @ dat2)) =
      (cut ns cur ?d @ [(if ns = [] then cur else []) @ ?s], dat2)"
    using split_follows [of ns ?d "(follows n)\<lparr>lo_extensionBit := NO_EXTENSION_OCTET\<rparr> # los" cur "?s @ dat2"] assms(1) d n
    by (simp add: follows_def Let_def)
  moreover have "cut (ns @ [n]) cur (?d @ ?s) = cut ns cur ?d @ [(if ns = [] then cur else []) @ ?s]"
    using cut_snoc [OF d(2), of ?s cur] d(3) by simp
  ultimately show ?thesis by (simp only: d(1) [symmetric] append_assoc [symmetric])
qed

section \<open>The steps of segmentation\<close>

lemma copy_filled:
  assumes "filled b ns dat" "3 + length ns + length dat + length bs \<le> GetRLCDataBlockSize (cc_coding (db_chanCoding b))"
  shows "\<exists>so. copy_octets bs b = Some (b\<lparr>db_streamOut := so, db_streamOutLen := length dat + length bs\<rparr>) \<and>
     take (length dat + length bs) so = dat @ bs \<and> length so = MAX_BITSTREAM"
  using assms block_sizes(2) [of "cc_coding (db_chanCoding b)"]
  by (auto simp: filled_def copy_octets_def Let_def dl_octets_def min_def)

text \<open>A block that ends without a further length octet.\<close>

lemma end_length_octets_filled:
  assumes "filled b ns dat" "h = db_dlHeader b"
  shows "\<exists>los. end_length_octets (h\<lparr>dl_fbiBit := f, dl_spBit := sp, dl_extensionBit := e\<rparr>) =
       h\<lparr>dl_fbiBit := f, dl_spBit := sp, dl_extensionBit := e, dl_LengthOctets := los, dl_currLengthOctet := length ns - 1\<rparr> \<and>
     length los = 10 \<and>
     (if ns = [] then los = dl_LengthOctets h
      else \<exists>rest. los = map follows (butlast ns) @ (follows (last ns))\<lparr>lo_extensionBit := NO_EXTENSION_OCTET\<rparr> # rest)"
proof (cases ns rule: rev_cases)
  case Nil
  then show ?thesis using assms by (intro exI [of _ "dl_LengthOctets h"]) (simp add: filled_def end_length_octets_def)
next
  case (snoc ms n)
  let ?l = "dl_LengthOctets h"
  have l: "length ?l = 10" "dl_currLengthOctet h = Suc (length ms)" "take (Suc (length ms)) ?l = map follows ms @ [follows n]"
    "length ms < 10"
    using assms snoc filled_bounds(1) [OF assms(1)] by (auto simp: filled_def)
  have "?l = take (Suc (length ms)) ?l @ drop (Suc (length ms)) ?l" by simp
  then have "?l = map follows ms @ follows n # drop (Suc (length ms)) ?l" unfolding l(3) by simp
  then have u: "?l[length ms := (?l ! length ms)\<lparr>lo_extensionBit := NO_EXTENSION_OCTET\<rparr>] =
      map follows ms @ (follows n)\<lparr>lo_extensionBit := NO_EXTENSION_OCTET\<rparr> # drop (Suc (length ms)) ?l"
    by (metis length_map list_update_length nth_append_length)
  show ?thesis
    by (intro exI [of _ "?l[length ms := (?l ! length ms)\<lparr>lo_extensionBit := NO_EXTENSION_OCTET\<rparr>]"])
      (use l snoc u in \<open>auto simp: end_length_octets_def dl_DecrementCurrLengthOctetIndex_def dl_SetCurrLengthOctetExtension_def\<close>)
qed

text \<open>What the mobile reads out of a block that is finished in one of the three ways.\<close>

lemma mobile_closed:
  assumes b: "filled b ns dat" and so: "take (length dat + length seg) so = dat @ seg"
    and e: "e = (if ns = [] then NO_EXTENSION_OCTET else EXTENSION_OCTET_FOLLOWS)"
  shows "mobile_block (b\<lparr>db_streamOut := so, db_streamOutLen := length dat + length seg,
       db_dlHeader := end_length_octets ((db_dlHeader b)\<lparr>dl_fbiBit := f, dl_spBit := sp, dl_extensionBit := e\<rparr>)\<rparr>) cur =
     (let c = (if ns = [] then cur else []) @ seg
      in if f = LAST_RLC_BLOCK \<and> c \<noteq> [] then (cut ns cur dat @ [c], []) else (cut ns cur dat, c))"
proof -
  obtain los where los: "end_length_octets ((db_dlHeader b)\<lparr>dl_fbiBit := f, dl_spBit := sp, dl_extensionBit := e\<rparr>) =
       (db_dlHeader b)\<lparr>dl_fbiBit := f, dl_spBit := sp, dl_extensionBit := e, dl_LengthOctets := los, dl_currLengthOctet := length ns - 1\<rparr>"
    "if ns = [] then los = dl_LengthOctets (db_dlHeader b)
      else \<exists>rest. los = map follows (butlast ns) @ (follows (last ns))\<lparr>lo_extensionBit := NO_EXTENSION_OCTET\<rparr> # rest"
    using end_length_octets_filled [OF b refl] by blast
  show ?thesis
  proof (cases "ns = []")
    case True
    then show ?thesis using b los(1) so e by (simp add: mobile_block_def dl_octets_def filled_def Let_def)
  next
    case False
    then obtain rest where rest: "los = map follows (butlast ns) @ (follows (last ns))\<lparr>lo_extensionBit := NO_EXTENSION_OCTET\<rparr> # rest"
      using los(2) by auto
    have "split_data los cur (dat @ seg) = (cut ns cur dat, seg)"
      unfolding rest using split_follows_last [of "butlast ns" "last ns" dat rest cur seg] b False filled_bounds(3) [OF b]
      by (auto simp: filled_def)
    then show ?thesis using False b los(1) so e by (simp add: mobile_block_def dl_octets_def Let_def)
  qed
qed

lemma mobile_zero_octet:
  assumes b: "filled b ns dat" and so: "take (length dat + length seg) so = dat @ seg" "seg \<noteq> []"
  shows "mobile_block (b\<lparr>db_streamOut := so, db_streamOutLen := length dat + length seg - 1, db_dlHeaderLen := k,
       db_dlHeader := snd (dl_SetLengthOctet 0 MORE_LLC_DATA NO_EXTENSION_OCTET
          ((db_dlHeader b)\<lparr>dl_fbiBit := NOT_LAST_RLC_BLOCK, dl_extensionBit := EXTENSION_OCTET_FOLLOWS\<rparr>))\<rparr>) cur =
     (cut ns cur dat, (if ns = [] then cur else []) @ butlast seg)"
proof -
  let ?l = "dl_LengthOctets (db_dlHeader b)"
  let ?z = "\<lparr>lo_length = 0, lo_moreBit = MORE_LLC_DATA, lo_extensionBit = NO_EXTENSION_OCTET\<rparr>"
  have l: "length ?l = 10" "dl_currLengthOctet (db_dlHeader b) = length ns" "take (length ns) ?l = map follows ns" "length ns < 10"
    using b filled_bounds(1) [OF b] by (auto simp: filled_def)
  have u: "?l[length ns := ?z] = map follows ns @ ?z # drop (Suc (length ns)) ?l"
    using upd_conv_take_nth_drop [of "length ns" ?l ?z] l by simp
  have "take (length dat + length seg - 1) so = take (length dat + length seg - 1) (dat @ seg)"
    using so(1) [symmetric] by simp
  also have "\<dots> = dat @ butlast seg" using so(2) by (cases seg rule: rev_cases) simp_all
  finally have t: "take (length dat + length seg - 1) so = dat @ butlast seg" .
  have "split_data (map follows ns @ ?z # drop (Suc (length ns)) ?l) cur (dat @ butlast seg) =
      (cut ns cur dat, (if ns = [] then cur else []) @ butlast seg)"
    using split_follows [of ns dat "?z # drop (Suc (length ns)) ?l" cur "butlast seg"] b filled_bounds(3) [OF b]
    by (auto simp: filled_def)
  then show ?thesis
    using l t u by (simp add: mobile_block_def dl_octets_def dl_SetLengthOctet_def Let_def)
qed

lemma mobile_last_octet:
  assumes b: "filled b ns dat" and so: "take (length dat + length seg) so = dat @ seg" "seg \<noteq> []" "length seg \<le> 50"
  shows "mobile_block (last_pdu_octet (length seg) (b\<lparr>db_streamOut := so, db_streamOutLen := length dat + length seg,
       db_dlHeader := (db_dlHeader b)\<lparr>dl_extensionBit := EXTENSION_OCTET_FOLLOWS\<rparr>\<rparr>)) cur =
     (cut ns cur dat @ [(if ns = [] then cur else []) @ seg], [])"
proof -
  let ?l = "dl_LengthOctets (db_dlHeader b)"
  let ?z = "\<lparr>lo_length = of_nat (length seg), lo_moreBit = NO_MORE_LLC_DATA, lo_extensionBit = NO_EXTENSION_OCTET\<rparr>"
  have l: "length ?l = 10" "dl_currLengthOctet (db_dlHeader b) = length ns" "take (length ns) ?l = map follows ns" "length ns < 10"
    using b filled_bounds(1) [OF b] by (auto simp: filled_def)
  have u: "?l[length ns := ?z] = map follows ns @ ?z # drop (Suc (length ns)) ?l"
    using upd_conv_take_nth_drop [of "length ns" ?l ?z] l by simp
  have n: "unat (of_nat (length seg) :: octet) = length seg" using so(3) by (simp add: unat_of_nat)
  then have nz: "(of_nat (length seg) :: octet) \<noteq> 0" using so(2) by (metis length_0_conv unat_0)
  have "split_data (map follows ns @ ?z # drop (Suc (length ns)) ?l) cur (dat @ seg) =
      (cut ns cur dat @ [(if ns = [] then cur else []) @ seg], [])"
    using split_follows [of ns dat "?z # drop (Suc (length ns)) ?l" cur seg] b filled_bounds(3) [OF b] n nz
    by (auto simp: filled_def Let_def)
  then show ?thesis
    using l so u by (simp add: mobile_block_def last_pdu_octet_def dl_octets_def dl_SetLengthOctet_def Let_def)
qed

lemma next_octet_filled:
  assumes b: "filled b ns dat" and so: "take (length dat + length seg) so = dat @ seg" "length so = MAX_BITSTREAM"
    and seg: "seg \<noteq> []" "ns \<noteq> [] \<longrightarrow> 5 \<le> length seg"
    and room: "3 + length ns + length dat + length seg < GetRLCDataBlockSize (cc_coding (db_chanCoding b))"
  shows "filled (next_pdu_octet (length seg) (b\<lparr>db_streamOut := so, db_streamOutLen := length dat + length seg,
       db_dlHeader := (db_dlHeader b)\<lparr>dl_extensionBit := EXTENSION_OCTET_FOLLOWS\<rparr>\<rparr>)) (ns @ [length seg]) (dat @ seg)"
proof -
  let ?l = "dl_LengthOctets (db_dlHeader b)"
  have l: "length ?l = 10" "dl_currLengthOctet (db_dlHeader b) = length ns" "take (length ns) ?l = map follows ns" "length ns < 10"
    using b filled_bounds(1) [OF b] by (auto simp: filled_def)
  have u: "?l[length ns := follows (length seg)] = map follows ns @ follows (length seg) # drop (Suc (length ns)) ?l"
    using upd_conv_take_nth_drop [of "length ns" ?l "follows (length seg)"] l by simp
  have "take (Suc (length ns)) (?l[length ns := follows (length seg)]) = map follows ns @ [follows (length seg)]"
    unfolding u by simp
  moreover have "5 * length ns + 1 \<le> length dat + length seg"
    using b seg by (cases "ns = []") (auto simp: filled_def Suc_le_eq)
  ultimately show ?thesis
    using b so seg room l
    by (simp add: filled_def next_pdu_octet_def dl_octets_def dl_SetLengthOctet_def
        dl_IncrementCurrLengthOctetIndex_def follows_def)
qed


text \<open>The shape every block of the pool has; blocks that wait there have their length octet index reset.\<close>

definition block_shape :: "DLDataBlock \<Rightarrow> bool" where
  "block_shape b \<longleftrightarrow> length (db_streamOut b) = MAX_BITSTREAM \<and> length (dl_LengthOctets (db_dlHeader b)) = 10"

definition fresh_block :: "DLDataBlock \<Rightarrow> bool" where
  "fresh_block b \<longleftrightarrow> block_shape b \<and> dl_currLengthOctet (db_dlHeader b) = 0"

text \<open>
  The scheduler never grants an empty set of timeslots; then the TBF has control acknowledgement tags.
\<close>

definition grants_ok :: "DlState \<Rightarrow> bool" where
  "grants_ok s \<longleftrightarrow> length (dl_ctlAckTag (ds_tbf s)) = 40 \<and> 0 < dl_currNumAckTags (ds_tbf s) \<and> dl_currNumAckTags (ds_tbf s) \<le> 40 \<and>
     (\<forall>ts. Some ts \<in> set (ds_sched s) \<longrightarrow> filter id (take MAX_TIMESLOTS ts) \<noteq> [])"

lemma grants_ok_cong:
  "ds_tbf s' = ds_tbf s \<Longrightarrow> ds_sched s' = ds_sched s \<Longrightarrow> grants_ok s' = grants_ok s"
  by (simp add: grants_ok_def)

lemma block_shape_header [simp]:
  "length (dl_LengthOctets (end_length_octets h)) = length (dl_LengthOctets h)"
  "length (dl_LengthOctets (snd (dl_SetLengthOctet n m e h))) = length (dl_LengthOctets h)"
  by (simp_all add: end_length_octets_def dl_SetCurrLengthOctetExtension_def dl_DecrementCurrLengthOctetIndex_def
      dl_SetLengthOctet_def)

section \<open>The loop\<close>

text \<open>What filling a block leaves alone: the window, the other blocks, the TBF's identity.\<close>

definition window_part :: "DLRlcLink \<Rightarrow> DLRlcLink" where
  "window_part l = l\<lparr>dk_lastDataBlock := None, dk_llcPdu := None, dk_currPduByte := 0, dk_N3105_MAX := 0\<rparr>"

definition seg_frame :: "addr \<Rightarrow> DlState \<Rightarrow> DlState \<Rightarrow> bool" where
  "seg_frame p s s' \<longleftrightarrow> window_part (ds_link s') = window_part (ds_link s) \<and>
     (\<forall>xs. pool_holds (ds_pool s') xs = pool_holds (ds_pool s) xs) \<and>
     (\<forall>r. r \<noteq> p \<longrightarrow> dl_block s' r = dl_block s r) \<and>
     dl_bsn (db_dlHeader (dl_block s' p)) = dl_bsn (db_dlHeader (dl_block s p)) \<and>
     tbf_tlli (ds_tbf s') = tbf_tlli (ds_tbf s) \<and> tbf_tfi (ds_tbf s') = tbf_tfi (ds_tbf s) \<and>
     (block_shape (dl_block s p) \<longrightarrow> block_shape (dl_block s' p)) \<and> (grants_ok s \<longrightarrow> grants_ok s') \<and>
     (tbf_state (ds_tbf s') = RELEASING \<longrightarrow> tbf_state (ds_tbf s) = RELEASING) \<and>
     (\<forall>t. set (ds_bssgp s' t) \<subseteq> set (ds_bssgp s t))"

lemma seg_frame_trans: "seg_frame p s t \<Longrightarrow> seg_frame p t u \<Longrightarrow> seg_frame p s u"
  unfolding seg_frame_def by (simp add: subset_trans) (meson subset_trans)

lemma window_part_update [simp]:
  "window_part (l\<lparr>dk_lastDataBlock := x\<rparr>) = window_part l" "window_part (l\<lparr>dk_llcPdu := y\<rparr>) = window_part l"
  "window_part (l\<lparr>dk_currPduByte := z\<rparr>) = window_part l" "window_part (l\<lparr>dk_N3105_MAX := w\<rparr>) = window_part l"
  by (simp_all add: window_part_def)

lemma window_part_fields:
  assumes "window_part l' = window_part l"
  shows "dk_vS l' = dk_vS l" "dk_vA l' = dk_vA l" "dk_vB l' = dk_vB l" "dk_pDlBlocks l' = dk_pDlBlocks l"
    "dk_rlcMode l' = dk_rlcMode l" "dk_chanCoding l' = dk_chanCoding l" "dk_lastPendingAckXmit l' = dk_lastPendingAckXmit l"
  using assms by (cases l; cases l'; simp add: window_part_def)+

lemma pool_holds_on_block [simp]: "pool_holds (ds_pool (on_block p f s)) xs = pool_holds (ds_pool s) xs"
  by (simp add: on_block_def pool_holds_def)

lemma on_block_simps [simp]:
  "ds_link (on_block p f s) = ds_link s" "ds_tbf (on_block p f s) = ds_tbf s" "ds_bssgp (on_block p f s) = ds_bssgp s"
  "dl_block (on_block p f s) p = f (dl_block s p)" "r \<noteq> p \<Longrightarrow> dl_block (on_block p f s) r = dl_block s r"
  "ds_T3191 (on_block p f s) = ds_T3191 s" "ds_out (on_block p f s) = ds_out s"
  by (simp_all add: on_block_def)

lemma grants_ok_on_block [simp]: "grants_ok (on_block p f s) = grants_ok s"
  by (rule grants_ok_cong) (simp_all add: on_block_def)

lemma grants_ok_link [simp]:
  "grants_ok (s\<lparr>ds_link := l\<rparr>) = grants_ok s" "grants_ok (s\<lparr>ds_pool := q\<rparr>) = grants_ok s"
  "grants_ok (s\<lparr>ds_T3191 := b\<rparr>) = grants_ok s" "grants_ok (s\<lparr>ds_bssgp := x\<rparr>) = grants_ok s"
  "grants_ok (s\<lparr>ds_activity := b\<rparr>) = grants_ok s" "grants_ok (s\<lparr>ds_T3193 := b\<rparr>) = grants_ok s"
  "grants_ok (s\<lparr>ds_T3195 := b\<rparr>) = grants_ok s" "grants_ok (dl_emit es s) = grants_ok s"
  "grants_ok (s\<lparr>ds_out := es\<rparr>) = grants_ok s"
  by (rule grants_ok_cong; simp add: dl_emit_def)+

lemma ReallocateDLResources_grants:
  "grants_ok s \<Longrightarrow> grants_ok (ReallocateDLResources s)"
  "tbf_state (ds_tbf (ReallocateDLResources s)) = RELEASING \<Longrightarrow> tbf_state (ds_tbf s) = RELEASING"
proof -
  have eight: "length (filter id (take 8 ts)) \<le> 8" for ts :: "bool list"
    using length_filter_le [of id "take 8 ts"] by simp
  show "grants_ok s \<Longrightarrow> grants_ok (ReallocateDLResources s)"
    using eight
    by (auto simp: grants_ok_def ReallocateDLResources_def sched_request_def dl_emit_def DL_SetTbfState_def
        DLTbf_UpdateTSSpecificData_def DL_UpdateTSSpecificData_def DL_UpdateLinkTSData_def split: list.split option.split)
  show "tbf_state (ds_tbf (ReallocateDLResources s)) = RELEASING \<Longrightarrow> tbf_state (ds_tbf s) = RELEASING"
    by (auto simp: ReallocateDLResources_def sched_request_def dl_emit_def DL_SetTbfState_def split: list.splits option.splits)
qed

lemma ReallocateDLResources_frame [simp]:
  "ds_pool (ReallocateDLResources s) = ds_pool s" "ds_bssgp (ReallocateDLResources s) = ds_bssgp s"
  "dk_lastDataBlock (ds_link (ReallocateDLResources s)) = dk_lastDataBlock (ds_link s)"
  "dk_llcPdu (ds_link (ReallocateDLResources s)) = dk_llcPdu (ds_link s)"
  "dk_currPduByte (ds_link (ReallocateDLResources s)) = dk_currPduByte (ds_link s)"
  "window_part (ds_link (ReallocateDLResources s)) = window_part (ds_link s)"
  "tbf_tlli (ds_tbf (ReallocateDLResources s)) = tbf_tlli (ds_tbf s)"
  "tbf_tfi (ds_tbf (ReallocateDLResources s)) = tbf_tfi (ds_tbf s)"
  by (auto simp: ReallocateDLResources_def sched_request_def dl_emit_def DL_SetTbfState_def DL_UpdateTSSpecificData_def
      DLTbf_UpdateTSSpecificData_def DL_UpdateLinkTSData_def window_part_def split: list.split option.split)

lemma end_length_octets_bsn [simp]: "dl_bsn (end_length_octets h) = dl_bsn h"
  by (simp add: end_length_octets_def dl_SetCurrLengthOctetExtension_def dl_DecrementCurrLengthOctetIndex_def)

lemma length_octets_fbi [simp]:
  "dl_fbiBit (end_length_octets h) = dl_fbiBit h" "dl_fbiBit (snd (dl_SetLengthOctet n m e h)) = dl_fbiBit h"
  by (simp_all add: end_length_octets_def dl_SetCurrLengthOctetExtension_def dl_DecrementCurrLengthOctetIndex_def dl_SetLengthOctet_def)

lemma SetLengthOctet_bsn [simp]: "dl_bsn (snd (dl_SetLengthOctet n m e h)) = dl_bsn h"
  by (simp add: dl_SetLengthOctet_def)

text \<open>
  The result of filling block \<open>p\<close>: either everything has been sent, or the block is full and the
  link stands inside a PDU.  \<open>pdus\<close> are the current PDU, sent up to octet \<open>c\<close>, and those that wait; the
  block held \<open>k\<close> octets.
\<close>

definition filled_to :: "addr \<Rightarrow> LlcPdu list \<Rightarrow> octet list list \<Rightarrow> octet list \<Rightarrow> nat \<Rightarrow> nat \<Rightarrow> DlState \<Rightarrow> bool" where
  "filled_to p pdus ended cur c k s \<longleftrightarrow>
     (let m = mobile_block (dl_block s p) cur; waiting = ds_bssgp s (tbf_tlli (ds_tbf s)) in
        dk_lastDataBlock (ds_link s) = Some (dk_vS (ds_link s)) \<and> waiting = [] \<and>
          m = (ended @ map pdu_data pdus, []) \<and> dl_fbiBit (db_dlHeader (dl_block s p)) = LAST_RLC_BLOCK \<or>
        dk_lastDataBlock (ds_link s) = None \<and> dl_fbiBit (db_dlHeader (dl_block s p)) = NOT_LAST_RLC_BLOCK \<and>
          (\<exists>us pdu. pdus = us @ pdu # waiting \<and> dk_llcPdu (ds_link s) = Some pdu \<and>
             dk_currPduByte (ds_link s) < length (pdu_data pdu) \<and>
             m = (ended @ map pdu_data us, take (dk_currPduByte (ds_link s)) (pdu_data pdu)) \<and>
             10 \<le> db_streamOutLen (dl_block s p) \<and>
             sum_list (map (length \<circ> pdu_data) us) + dk_currPduByte (ds_link s) + k = c + db_streamOutLen (dl_block s p)))"

lemma filled_to_Cons:
  assumes "filled_to p pdus (ended @ [pdu_data pdu]) cur 0 k' s" "k' + c = k + length (pdu_data pdu)"
  shows "filled_to p (pdu # pdus) ended cur c k s"
proof -
  have "\<exists>us u. pdu # pdus = us @ u # w \<and> l = Some u \<and> j < length (pdu_data u) \<and>
       m = (ended @ map pdu_data us, take j (pdu_data u)) \<and> 10 \<le> n \<and> sum_list (map (length \<circ> pdu_data) us) + j + k = c + n"
    if "pdus = us @ u # w" "l = Some u" "j < length (pdu_data u)"
      "m = (ended @ pdu_data pdu # map pdu_data us, take j (pdu_data u))" "10 \<le> n"
      "sum_list (map (length \<circ> pdu_data) us) + j + k' = n" for us u w l j m n
    using that assms(2) by (intro exI [of _ "pdu # us"] exI [of _ u]) simp
  then show ?thesis using assms(1) unfolding filled_to_def Let_def by (elim disjE conjE exE) auto
qed

lemma take_seg: "take i xs @ take n (drop i xs) = take (i + n) xs"
  by (simp add: take_add)

text \<open>The state in which a block is being filled.\<close>

definition at_pdu :: "addr \<Rightarrow> nat list \<Rightarrow> octet list \<Rightarrow> octet list \<Rightarrow> LlcPdu \<Rightarrow> DlState \<Rightarrow> bool" where
  "at_pdu p ns dat cur pdu s \<longleftrightarrow> filled (dl_block s p) ns dat \<and> dk_llcPdu (ds_link s) = Some pdu \<and>
     dk_currPduByte (ds_link s) < length (pdu_data pdu) \<and>
     (if ns = [] then cur else []) = take (dk_currPduByte (ds_link s)) (pdu_data pdu) \<and>
     dk_lastDataBlock (ds_link s) = None"

definition room :: "addr \<Rightarrow> DlState \<Rightarrow> nat" where
  "room p s = (let b = dl_block s p in
     GetRLCDataBlockSize (cc_coding (db_chanCoding b)) - db_dlHeaderLen b - db_streamOutLen b)"

text \<open>The copy that \<open>SegmentLLCPdu\<close> starts with.\<close>

lemma SegmentLLCPdu_copy:
  assumes a: "at_pdu p ns dat cur pdu s"
    and n: "n = min (room p s) (length (pdu_data pdu) - dk_currPduByte (ds_link s))"
    and seg: "seg = take n (drop (dk_currPduByte (ds_link s)) (pdu_data pdu))"
  shows "length seg = n" "3 + length ns + length dat + length seg \<le> GetRLCDataBlockSize (cc_coding (db_chanCoding (dl_block s p)))"
    "\<exists>so. take (length dat + length seg) so = dat @ seg \<and> length so = MAX_BITSTREAM \<and>
     SegmentLLCPdu p s =
       (let t = on_block p (\<lambda>b. b\<lparr>db_streamOut := so, db_streamOutLen := length dat + length seg\<rparr>)
                  (s\<lparr>ds_link := (ds_link s)\<lparr>dk_currPduByte := dk_currPduByte (ds_link s) + n\<rparr>\<rparr>)
        in Some (if n = room p s \<and> n \<noteq> 0
             then (True, n, if length (pdu_data pdu) = dk_currPduByte (ds_link s) + n then end_in_block p t
                            else on_block p (on_header end_length_octets) t)
             else (False, n, on_block p (on_header (\<lambda>h. h\<lparr>dl_extensionBit := EXTENSION_OCTET_FOLLOWS\<rparr>)) t)))"
proof -
  let ?b = "dl_block s p" and ?size = "GetRLCDataBlockSize (cc_coding (db_chanCoding (dl_block s p)))"
  let ?c = "dk_currPduByte (ds_link s)"
  have b: "filled ?b ns dat" and l: "?c < length (pdu_data pdu)" "dk_llcPdu (ds_link s) = Some pdu"
    using a by (simp_all add: at_pdu_def)
  have f: "db_streamOutLen ?b = length dat" "db_dlHeaderLen ?b = 3 + length ns" "3 + length ns + length dat \<le> ?size"
    using b by (simp_all add: filled_def)
  show len: "length seg = n" unfolding seg n by simp
  show fit: "3 + length ns + length dat + length seg \<le> ?size"
    using f(3) unfolding len n room_def Let_def f(1,2) by linarith
  obtain so where so: "copy_octets seg ?b = Some (?b\<lparr>db_streamOut := so, db_streamOutLen := length dat + length seg\<rparr>)"
    "take (length dat + length seg) so = dat @ seg" "length so = MAX_BITSTREAM"
    using copy_filled [OF b fit] by blast
  have full: "n = room p s \<longleftrightarrow> length dat + length seg + (3 + length ns) = ?size"
    unfolding len room_def Let_def f(1,2) using fit len by linarith
  have "SegmentLLCPdu p s = Option.bind (copy_octets (take (min (room p s) (length (pdu_data pdu) - ?c)) (drop ?c (pdu_data pdu))) ?b)
      (\<lambda>b. let k = min (room p s) (length (pdu_data pdu) - ?c);
               t = on_block p (\<lambda>_. b) (s\<lparr>ds_link := (ds_link s)\<lparr>dk_currPduByte := ?c + k\<rparr>\<rparr>)
       in Some (if db_streamOutLen b + db_dlHeaderLen b = ?size \<and> k \<noteq> 0
             then (True, k, if length (pdu_data pdu) = ?c + k then end_in_block p t
                            else on_block p (on_header end_length_octets) t)
             else (False, k, on_block p (on_header (\<lambda>h. h\<lparr>dl_extensionBit := EXTENSION_OCTET_FOLLOWS\<rparr>)) t)))"
    using l f by (simp add: SegmentLLCPdu_def room_def Let_def)
  then have eq: "SegmentLLCPdu p s =
       (let t = on_block p (\<lambda>_. ?b\<lparr>db_streamOut := so, db_streamOutLen := length dat + length seg\<rparr>)
                  (s\<lparr>ds_link := (ds_link s)\<lparr>dk_currPduByte := ?c + n\<rparr>\<rparr>)
        in Some (if n = room p s \<and> n \<noteq> 0
             then (True, n, if length (pdu_data pdu) = ?c + n then end_in_block p t
                            else on_block p (on_header end_length_octets) t)
             else (False, n, on_block p (on_header (\<lambda>h. h\<lparr>dl_extensionBit := EXTENSION_OCTET_FOLLOWS\<rparr>)) t)))"
    unfolding n [symmetric] seg [symmetric] so(1) full by (simp add: Let_def f(2))
  have "on_block p (\<lambda>_. ?b\<lparr>db_streamOut := so, db_streamOutLen := length dat + length seg\<rparr>) t =
      on_block p (\<lambda>b. b\<lparr>db_streamOut := so, db_streamOutLen := length dat + length seg\<rparr>) t" if "ds_pool t = ds_pool s" for t
    using that by (simp add: on_block_def)
  then have "on_block p (\<lambda>_. ?b\<lparr>db_streamOut := so, db_streamOutLen := length dat + length seg\<rparr>)
        (s\<lparr>ds_link := (ds_link s)\<lparr>dk_currPduByte := ?c + n\<rparr>\<rparr>) =
      on_block p (\<lambda>b. b\<lparr>db_streamOut := so, db_streamOutLen := length dat + length seg\<rparr>)
        (s\<lparr>ds_link := (ds_link s)\<lparr>dk_currPduByte := ?c + n\<rparr>\<rparr>)" by simp
  note eq [unfolded this]
  then show "\<exists>so. take (length dat + length seg) so = dat @ seg \<and> length so = MAX_BITSTREAM \<and>
     SegmentLLCPdu p s =
       (let t = on_block p (\<lambda>b. b\<lparr>db_streamOut := so, db_streamOutLen := length dat + length seg\<rparr>)
                  (s\<lparr>ds_link := (ds_link s)\<lparr>dk_currPduByte := ?c + n\<rparr>\<rparr>)
        in Some (if n = room p s \<and> n \<noteq> 0
             then (True, n, if length (pdu_data pdu) = ?c + n then end_in_block p t
                            else on_block p (on_header end_length_octets) t)
             else (False, n, on_block p (on_header (\<lambda>h. h\<lparr>dl_extensionBit := EXTENSION_OCTET_FOLLOWS\<rparr>)) t)))"
    using so by blast
qed

lemma mobile_closed_plain:
  assumes b: "filled b ns dat" and so: "take (length dat + length seg) so = dat @ seg"
  shows "mobile_block (b\<lparr>db_streamOut := so, db_streamOutLen := length dat + length seg,
       db_dlHeader := end_length_octets (db_dlHeader b)\<rparr>) cur = (cut ns cur dat, (if ns = [] then cur else []) @ seg)"
proof -
  have e: "dl_extensionBit (db_dlHeader b) = (if ns = [] then NO_EXTENSION_OCTET else EXTENSION_OCTET_FOLLOWS)"
    and f: "dl_fbiBit (db_dlHeader b) = NOT_LAST_RLC_BLOCK" using b by (simp_all add: filled_def)
  have "(db_dlHeader b)\<lparr>dl_fbiBit := dl_fbiBit (db_dlHeader b), dl_spBit := dl_spBit (db_dlHeader b),
      dl_extensionBit := dl_extensionBit (db_dlHeader b)\<rparr> = db_dlHeader b" by simp
  from mobile_closed [OF b so e, where f = "dl_fbiBit (db_dlHeader b)" and sp = "dl_spBit (db_dlHeader b)" and cur = cur,
      unfolded this] show ?thesis unfolding f Let_def by simp
qed

lemma mobile_closed_last:
  assumes b: "filled b ns dat" and so: "take (length dat + length seg) so = dat @ seg" "seg \<noteq> []"
  shows "mobile_block (b\<lparr>db_streamOut := so, db_streamOutLen := length dat + length seg,
       db_dlHeader := end_length_octets ((db_dlHeader b)\<lparr>dl_fbiBit := LAST_RLC_BLOCK, dl_spBit := RRBP_VALID\<rparr>)\<rparr>) cur =
     (cut ns cur dat @ [(if ns = [] then cur else []) @ seg], [])"
proof -
  have e: "dl_extensionBit (db_dlHeader b) = (if ns = [] then NO_EXTENSION_OCTET else EXTENSION_OCTET_FOLLOWS)"
    using b by (simp add: filled_def)
  have "(db_dlHeader b)\<lparr>dl_fbiBit := LAST_RLC_BLOCK, dl_spBit := RRBP_VALID,
      dl_extensionBit := dl_extensionBit (db_dlHeader b)\<rparr> = (db_dlHeader b)\<lparr>dl_fbiBit := LAST_RLC_BLOCK, dl_spBit := RRBP_VALID\<rparr>"
    by simp
  from mobile_closed [OF b so(1) e, where f = LAST_RLC_BLOCK and sp = RRBP_VALID and cur = cur, unfolded this]
  show ?thesis using so(2) by (simp add: Let_def)
qed

lemma segment_stop:
  assumes a: "at_pdu p ns dat cur pdu s" and queue: "ds_bssgp s (tbf_tlli (ds_tbf s)) = queue"
    and stop: "room p s \<le> length (pdu_data pdu) - dk_currPduByte (ds_link s)"
  shows "\<exists>s'. segment_loop p s = Some s' \<and> seg_frame p s s' \<and> filled_to p (pdu # queue) (cut ns cur dat) cur (dk_currPduByte (ds_link s)) (length dat) s'"
proof -
  let ?b = "dl_block s p" and ?c = "dk_currPduByte (ds_link s)" and ?data = "pdu_data pdu"
  define n where "n = room p s"
  define seg where "seg = take n (drop ?c ?data)"
  have mn: "n = min (room p s) (length ?data - ?c)" using stop by (simp add: n_def)
  note copy = SegmentLLCPdu_copy [OF a mn seg_def]
  obtain so where so: "take (length dat + length seg) so = dat @ seg" "length so = MAX_BITSTREAM" and
    run: "SegmentLLCPdu p s =
       (let t = on_block p (\<lambda>b. b\<lparr>db_streamOut := so, db_streamOutLen := length dat + length seg\<rparr>)
                  (s\<lparr>ds_link := (ds_link s)\<lparr>dk_currPduByte := ?c + n\<rparr>\<rparr>)
        in Some (if n \<noteq> 0
             then (True, n, if length ?data = ?c + n then end_in_block p t else on_block p (on_header end_length_octets) t)
             else (False, n, on_block p (on_header (\<lambda>h. h\<lparr>dl_extensionBit := EXTENSION_OCTET_FOLLOWS\<rparr>)) t)))"
    using copy(3) n_def by auto
  have b: "filled ?b ns dat" and l: "?c < length ?data" "dk_llcPdu (ds_link s) = Some pdu" "dk_lastDataBlock (ds_link s) = None"
    and P: "(if ns = [] then cur else []) = take ?c ?data"
    using a by (simp_all add: at_pdu_def)
  have fb: "dl_fbiBit (db_dlHeader ?b) = NOT_LAST_RLC_BLOCK" using b by (simp add: filled_def)
  have f: "db_streamOutLen ?b = length dat" "db_dlHeaderLen ?b = 3 + length ns"
    "3 + length ns + length dat \<le> GetRLCDataBlockSize (cc_coding (db_chanCoding ?b))" "ns = [] \<longrightarrow> dat = []"
    using b by (auto simp: filled_def)
  have full: "length dat + length seg + (3 + length ns) = GetRLCDataBlockSize (cc_coding (db_chanCoding ?b))"
    using copy(1,2) f(1,2) by (simp add: n_def room_def Let_def)
  have ten: "10 \<le> length dat + length seg" "10 \<le> length dat + length seg - 1"
    using full filled_bounds(1) [OF b] block_sizes(1) [of "cc_coding (db_chanCoding ?b)"] by linarith+
  have take: "take ?c ?data @ seg = take (?c + n) ?data" unfolding seg_def by (rule take_seg)
  show ?thesis
  proof (cases "n = 0")
    case True
    then have "seg = []" using copy(1) by simp
    moreover have ns: "ns \<noteq> []" using full f(4) block_sizes(1) [of "cc_coding (db_chanCoding ?b)"] calculation by force
    moreover have c0: "?c = 0" using P ns l(1) by (cases "pdu_data pdu") auto
    moreover have "(db_dlHeader ?b)\<lparr>dl_extensionBit := EXTENSION_OCTET_FOLLOWS\<rparr> = db_dlHeader ?b"
      using b ns by (cases "db_dlHeader ?b") (simp add: filled_def)
    ultimately have "mobile_block (?b\<lparr>db_streamOut := so, db_streamOutLen := length dat,
        db_dlHeader := end_length_octets ((db_dlHeader ?b)\<lparr>dl_extensionBit := EXTENSION_OCTET_FOLLOWS\<rparr>)\<rparr>) cur = (cut ns cur dat, [])"
      using mobile_closed_plain [OF b, of "[]" so cur] so(1) by simp
    then show ?thesis
      using run True l ten c0 queue \<open>seg = []\<close> copy(1) so(2) fb
      by (subst segment_loop.simps)
        (auto simp: Let_def seg_frame_def filled_to_def block_shape_def intro!: exI [of _ "[]"])
  next
    case False
    then have seg: "seg \<noteq> []" using copy(1) by auto
    show ?thesis
    proof (cases "length ?data = ?c + n")
      case ended: True
      show ?thesis
      proof (cases "queue = []")
        case True
        have m: "mobile_block (?b\<lparr>db_streamOut := so, db_streamOutLen := length dat + length seg,
            db_dlHeader := end_length_octets ((db_dlHeader ?b)\<lparr>dl_fbiBit := LAST_RLC_BLOCK, dl_spBit := RRBP_VALID\<rparr>)\<rparr>) cur =
            (cut ns cur dat @ [?data], [])"
          using mobile_closed_last [OF b so(1) seg, of cur] P take ended by simp
        show ?thesis
          using run False ended True queue m so(2) fb
          by (subst segment_loop.simps)
            (simp add: Let_def end_in_block_def MoreLLCPdusAvailable_def seg_frame_def filled_to_def block_shape_def)
      next
        case more: False
        let ?z = "snd (dl_SetLengthOctet 0 MORE_LLC_DATA NO_EXTENSION_OCTET
               ((db_dlHeader ?b)\<lparr>dl_fbiBit := NOT_LAST_RLC_BLOCK, dl_extensionBit := EXTENSION_OCTET_FOLLOWS\<rparr>))"
        have "(if ns = [] then cur else []) @ butlast seg = take (?c + n - 1) ?data"
          unfolding P using take seg by (metis butlast_append butlast_take copy(1) copy(2) ended l(1) le_refl butlast_conv_take length_take min.absorb2 diff_le_self)
        then have m: "mobile_block (?b\<lparr>db_streamOut := so, db_streamOutLen := length dat + length seg - 1,
            db_dlHeaderLen := db_dlHeaderLen ?b + 1, db_dlHeader := ?z\<rparr>) cur = (cut ns cur dat, take (?c + n - 1) ?data)"
          using mobile_zero_octet [OF b so(1) seg, of "db_dlHeaderLen ?b + 1" cur] by simp
        show ?thesis
          using run False ended more queue m l ten copy(1) so(2) fb
          by (subst segment_loop.simps)
            (auto simp: Let_def end_in_block_def MoreLLCPdusAvailable_def seg_frame_def filled_to_def block_shape_def
              intro!: exI [of _ "[]"])
      qed
    next
      case going: False
      have m: "mobile_block (?b\<lparr>db_streamOut := so, db_streamOutLen := length dat + length seg,
          db_dlHeader := end_length_octets (db_dlHeader ?b)\<rparr>) cur = (cut ns cur dat, take (?c + n) ?data)"
        using mobile_closed_plain [OF b so(1), of cur] P take by simp
      have "?c + n < length ?data" using going stop l(1) by (simp add: n_def)
      then show ?thesis
        using run False going queue m l ten copy(1) so(2) fb
        by (subst segment_loop.simps)
          (auto simp: Let_def seg_frame_def filled_to_def block_shape_def intro!: exI [of _ "[]"])
    qed
  qed
qed

lemma segment_more:
  assumes a: "at_pdu p ns dat cur pdu s" and queue: "ds_bssgp s (tbf_tlli (ds_tbf s)) = queue"
    and more: "length (pdu_data pdu) - dk_currPduByte (ds_link s) < room p s"
    and five: "5 \<le> length (pdu_data pdu)"
  shows "case queue of
      [] \<Rightarrow> \<exists>s'. segment_loop p s = Some s' \<and> seg_frame p s s' \<and> filled_to p [pdu] (cut ns cur dat) cur (dk_currPduByte (ds_link s)) (length dat) s'
    | u # us \<Rightarrow> \<exists>t m dat'. segment_loop p s = segment_loop p t \<and> seg_frame p s t \<and>
        ds_bssgp t (tbf_tlli (ds_tbf t)) = us \<and> dk_currPduByte (ds_link t) = 0 \<and>
        length dat' + dk_currPduByte (ds_link s) = length dat + length (pdu_data pdu) \<and> cut (ns @ [m]) cur dat' = cut ns cur dat @ [pdu_data pdu] \<and>
        (0 < length (pdu_data u) \<longrightarrow> at_pdu p (ns @ [m]) dat' cur u t)"
proof -
  let ?b = "dl_block s p" and ?c = "dk_currPduByte (ds_link s)" and ?data = "pdu_data pdu"
  define n where "n = length ?data - ?c"
  define seg where "seg = take n (drop ?c ?data)"
  have mn: "n = min (room p s) (length ?data - ?c)" using more by (simp add: n_def)
  note copy = SegmentLLCPdu_copy [OF a mn seg_def]
  have b: "filled ?b ns dat" and l: "?c < length ?data" "dk_llcPdu (ds_link s) = Some pdu" "dk_lastDataBlock (ds_link s) = None"
    and P: "(if ns = [] then cur else []) = take ?c ?data"
    using a by (simp_all add: at_pdu_def)
  have n: "n \<noteq> 0" "n \<noteq> room p s" "?c + n = length ?data" using l(1) more by (simp_all add: n_def)
  obtain so where so: "take (length dat + length seg) so = dat @ seg" "length so = MAX_BITSTREAM" and
    run: "SegmentLLCPdu p s = Some (False, n, on_block p (on_header (\<lambda>h. h\<lparr>dl_extensionBit := EXTENSION_OCTET_FOLLOWS\<rparr>))
       (on_block p (\<lambda>b. b\<lparr>db_streamOut := so, db_streamOutLen := length dat + length seg\<rparr>)
                  (s\<lparr>ds_link := (ds_link s)\<lparr>dk_currPduByte := ?c + n\<rparr>\<rparr>)))"
    using copy(3) n(2) by (auto simp: Let_def)
  have seg: "seg \<noteq> []" "length seg = n" "(if ns = [] then cur else []) @ seg = ?data"
    using copy(1) n P unfolding seg_def by auto
  have f: "db_streamOutLen ?b = length dat" "db_dlHeaderLen ?b = 3 + length ns" "sum_list ns = length dat"
    using b by (auto simp: filled_def)
  have rm: "3 + length ns + length dat + length seg < GetRLCDataBlockSize (cc_coding (db_chanCoding ?b))"
    using more f(1,2) seg(2) by (simp add: n_def room_def Let_def)
  let ?b1 = "?b\<lparr>db_streamOut := so, db_streamOutLen := length dat + length seg,
       db_dlHeader := (db_dlHeader ?b)\<lparr>dl_extensionBit := EXTENSION_OCTET_FOLLOWS\<rparr>\<rparr>"
  show ?thesis
  proof (cases queue)
    case Nil
    have "length seg \<le> 50" using rm block_sizes(2) [of "cc_coding (db_chanCoding ?b)"] by linarith
    then have m: "mobile_block (last_pdu_octet n ?b1) cur = (cut ns cur dat @ [?data], [])"
      using mobile_last_octet [OF b so(1) seg(1), of cur] seg(2,3) by simp
    show ?thesis
      using run n(1) Nil queue m so(2)
      by (subst segment_loop.simps)
        (auto simp: Let_def GetNextLLCPdu_def seg_frame_def filled_to_def last_pdu_octet_def block_shape_def)
  next
    case (Cons u us)
    have five': "ns \<noteq> [] \<longrightarrow> 5 \<le> length seg" using five P l(1) seg(3) by auto
    have fill: "filled (next_pdu_octet n ?b1) (ns @ [n]) (dat @ seg)"
      using next_octet_filled [OF b so seg(1) five' rm] seg(2) by simp
    let ?t = "ReallocateDLResources (on_block p (next_pdu_octet n)
        (snd (GetNextLLCPdu (on_block p (on_header (\<lambda>h. h\<lparr>dl_extensionBit := EXTENSION_OCTET_FOLLOWS\<rparr>))
       (on_block p (\<lambda>b. b\<lparr>db_streamOut := so, db_streamOutLen := length dat + length seg\<rparr>)
                  (s\<lparr>ds_link := (ds_link s)\<lparr>dk_currPduByte := ?c + n\<rparr>\<rparr>))))))"
    have get: "fst (GetNextLLCPdu (on_block p g t)) \<longleftrightarrow> True" if "ds_bssgp t = ds_bssgp s" "ds_tbf t = ds_tbf s" for g t
      using that Cons queue by (simp add: GetNextLLCPdu_def)
    have "segment_loop p s = segment_loop p ?t"
      using run n(1) by (subst segment_loop.simps) (simp add: get)
    moreover have "seg_frame p s ?t"
      using Cons queue so(2)
      by (auto simp: seg_frame_def GetNextLLCPdu_def dl_emit_def next_pdu_octet_def dl_IncrementCurrLengthOctetIndex_def block_shape_def
          intro!: ReallocateDLResources_grants(1) dest!: ReallocateDLResources_grants(2))
    moreover have "ds_bssgp ?t (tbf_tlli (ds_tbf ?t)) = us" using Cons queue by (simp add: GetNextLLCPdu_def dl_emit_def)
    moreover have "dk_currPduByte (ds_link ?t) = 0" "length (dat @ seg) + ?c = length dat + length ?data"
      using Cons queue seg(2) n(3) by (simp_all add: GetNextLLCPdu_def dl_emit_def)
    moreover have "cut (ns @ [n]) cur (dat @ seg) = cut ns cur dat @ [?data]"
      using cut_snoc [OF f(3), of seg cur] seg(2,3) by simp
    moreover have "at_pdu p (ns @ [n]) (dat @ seg) cur u ?t" if "0 < length (pdu_data u)"
    proof -
      have "dl_block ?t p = next_pdu_octet n ?b1" using Cons queue by (simp add: GetNextLLCPdu_def dl_emit_def)
      moreover have "dk_llcPdu (ds_link ?t) = Some u" "dk_currPduByte (ds_link ?t) = 0" "dk_lastDataBlock (ds_link ?t) = None"
        using Cons queue l(3) by (simp_all add: GetNextLLCPdu_def dl_emit_def)
      ultimately show ?thesis using fill that unfolding at_pdu_def by (simp only:) simp
    qed
    ultimately show ?thesis unfolding Cons list.case by blast
  qed
qed

lemma segment_loop_fills:
  assumes "at_pdu p ns dat cur pdu s" "ds_bssgp s (tbf_tlli (ds_tbf s)) = queue"
    "\<forall>u \<in> set (pdu # queue). 5 \<le> length (pdu_data u)"
  shows "\<exists>s'. segment_loop p s = Some s' \<and> seg_frame p s s' \<and> filled_to p (pdu # queue) (cut ns cur dat) cur (dk_currPduByte (ds_link s)) (length dat) s'"
  using assms
proof (induction queue arbitrary: s ns dat pdu)
  case Nil
  show ?case
  proof (cases "room p s \<le> length (pdu_data pdu) - dk_currPduByte (ds_link s)")
    case True
    show ?thesis using segment_stop [OF Nil(1,2) True] .
  next
    case False
    then show ?thesis using segment_more [OF Nil(1,2)] Nil(3) by simp
  qed
next
  case (Cons u us)
  show ?case
  proof (cases "room p s \<le> length (pdu_data pdu) - dk_currPduByte (ds_link s)")
    case True
    show ?thesis using segment_stop [OF Cons.prems(1,2) True] .
  next
    case False
    then obtain t m dat' where t: "segment_loop p s = segment_loop p t" "seg_frame p s t"
      "ds_bssgp t (tbf_tlli (ds_tbf t)) = us" "cut (ns @ [m]) cur dat' = cut ns cur dat @ [pdu_data pdu]"
      "at_pdu p (ns @ [m]) dat' cur u t" "dk_currPduByte (ds_link t) = 0"
      "length dat' + dk_currPduByte (ds_link s) = length dat + length (pdu_data pdu)"
      using segment_more [OF Cons.prems(1,2)] Cons.prems(3) by force
    obtain s' where s': "segment_loop p t = Some s'" "seg_frame p t s'" "filled_to p (u # us) (cut (ns @ [m]) cur dat') cur (dk_currPduByte (ds_link t)) (length dat') s'"
      using Cons.IH [OF t(5,3)] Cons.prems(3) by auto
    have "filled_to p (pdu # u # us) (cut ns cur dat) cur (dk_currPduByte (ds_link s)) (length dat) s'"
    proof (rule filled_to_Cons)
      show "filled_to p (u # us) (cut ns cur dat @ [pdu_data pdu]) cur 0 (length dat') s'" using s'(3) unfolding t(4,6) .
    qed (rule t(7))
    then show ?thesis using t(1,2) s'(1,2) seg_frame_trans by metis
  qed
qed


section \<open>A new block\<close>

lemma filled_init_block:
  "fresh_block b \<Longrightarrow> filled (init_block cc tfi n b) [] []"
  by (simp add: filled_def init_block_def fresh_block_def block_shape_def dl_octets_def GetDataHdrSize_def
      order.trans [OF _ block_sizes(1)])

text \<open>The link stands inside a PDU, with the given ones waiting.\<close>

definition sending :: "LlcPdu list \<Rightarrow> DlState \<Rightarrow> bool" where
  "sending pdus s \<longleftrightarrow> (\<exists>pdu. pdus = pdu # ds_bssgp s (tbf_tlli (ds_tbf s)) \<and> dk_llcPdu (ds_link s) = Some pdu \<and>
     dk_currPduByte (ds_link s) < length (pdu_data pdu)) \<and> dk_lastDataBlock (ds_link s) = None \<and>
     (\<forall>u \<in> set pdus. 5 \<le> length (pdu_data u))"

abbreviation part_sent :: "LlcPdu list \<Rightarrow> DlState \<Rightarrow> octet list" where
  "part_sent pdus s \<equiv> take (dk_currPduByte (ds_link s)) (pdu_data (hd pdus))"

lemma BuildDLRlcBlock_fills:
  assumes s: "sending pdus s" and w: "window_open (ds_link s)" "free_slot s = Some s0"
    and s0: "ds_link s0 = ds_link s" "ds_tbf s0 = ds_tbf s" "ds_bssgp s0 = ds_bssgp s"
    and get: "GetDataBlock (ds_pool s0) = Some (Some p, q)" "fresh_block (bp_block q p)"
  shows "\<exists>s1 s'. BuildDLRlcBlock s = Some (Some p, s') \<and>
     s' = s1\<lparr>ds_link := (ds_link s1)\<lparr>dk_vB := (dk_vB (ds_link s))[dk_vS (ds_link s) := PENDING_ACK],
               dk_vS := (dk_vS (ds_link s) + 1) mod RLC_MOD_VAL\<rparr>\<rparr> \<and>
     window_part (ds_link s1) = window_part ((ds_link s)\<lparr>dk_pDlBlocks := (dk_pDlBlocks (ds_link s))[dk_vS (ds_link s) := Some p]\<rparr>) \<and>
     (\<forall>xs. pool_holds (ds_pool s1) xs = pool_holds q xs) \<and> (\<forall>r. r \<noteq> p \<longrightarrow> dl_block s1 r = bp_block q r) \<and>
     dl_bsn (db_dlHeader (dl_block s1 p)) = of_nat (dk_vS (ds_link s)) \<and>
     tbf_tlli (ds_tbf s1) = tbf_tlli (ds_tbf s) \<and> block_shape (dl_block s1 p) \<and>
     (grants_ok s0 \<longrightarrow> grants_ok s1) \<and> (tbf_state (ds_tbf s1) = RELEASING \<longrightarrow> tbf_state (ds_tbf s) = RELEASING) \<and>
     filled_to p pdus [] (part_sent pdus s) (dk_currPduByte (ds_link s)) 0 s1"
proof -
  let ?l = "ds_link s"
  obtain pdu where pdu: "pdus = pdu # ds_bssgp s (tbf_tlli (ds_tbf s))" "dk_llcPdu ?l = Some pdu"
    "dk_currPduByte ?l < length (pdu_data pdu)" "dk_lastDataBlock ?l = None" "\<forall>u \<in> set pdus. 5 \<le> length (pdu_data u)"
    using s by (auto simp: sending_def)
  let ?t = "on_block p (init_block (dk_chanCoding ?l) (tfi_val (tbf_tfi (ds_tbf s))) (dk_vS ?l))
      (s0\<lparr>ds_pool := q, ds_link := ?l\<lparr>dk_pDlBlocks := (dk_pDlBlocks ?l)[dk_vS ?l := Some p]\<rparr>\<rparr>)"
  have at: "at_pdu p [] [] (part_sent pdus s) pdu ?t"
    using filled_init_block [OF get(2)] pdu by (simp add: at_pdu_def)
  obtain s1 where s1: "segment_loop p ?t = Some s1" "seg_frame p ?t s1"
    "filled_to p pdus [] (part_sent pdus s) (dk_currPduByte ?l) 0 s1"
    using segment_loop_fills [OF at, of "ds_bssgp s (tbf_tlli (ds_tbf s))"] pdu s0 by auto
  have wp: "window_part (ds_link s1) = window_part (?l\<lparr>dk_pDlBlocks := (dk_pDlBlocks ?l)[dk_vS ?l := Some p]\<rparr>)"
    using s1(2) by (simp add: seg_frame_def)
  note wf = window_part_fields [OF wp]
  have "BuildDLRlcBlock s = Some (Some p, s1\<lparr>ds_link := (ds_link s1)\<lparr>dk_vB := (dk_vB ?l)[dk_vS ?l := PENDING_ACK],
      dk_vS := (dk_vS ?l + 1) mod RLC_MOD_VAL\<rparr>\<rparr>)"
    using pdu(4) w get(1) s1(1) wf(3) s0 by (simp add: BuildDLRlcBlock_def Let_def)
  moreover have "\<forall>xs. pool_holds (ds_pool s1) xs = pool_holds q xs" "\<forall>r. r \<noteq> p \<longrightarrow> dl_block s1 r = bp_block q r"
    "dl_bsn (db_dlHeader (dl_block s1 p)) = of_nat (dk_vS ?l)" "tbf_tlli (ds_tbf s1) = tbf_tlli (ds_tbf s)"
    "block_shape (dl_block s1 p)" "grants_ok s0 \<longrightarrow> grants_ok s1"
    "tbf_state (ds_tbf s1) = RELEASING \<longrightarrow> tbf_state (ds_tbf s) = RELEASING"
    using s1(2) s0(2) get(2) by (simp_all add: seg_frame_def init_block_def fresh_block_def block_shape_def)
  ultimately show ?thesis using s1(3) wp by blast
qed


section \<open>A whole TBF\<close>

fun mobile_read :: "DLDataBlock list \<Rightarrow> octet list \<Rightarrow> octet list list \<times> octet list" where
  "mobile_read [] cur = ([], cur)"
| "mobile_read (b # bs) cur =
     (case mobile_block b cur of (ps, c) \<Rightarrow> (case mobile_read bs c of (qs, d) \<Rightarrow> (ps @ qs, d)))"

text \<open>Up to \<open>k\<close> new blocks, as long as there are any.\<close>

fun build_upto :: "nat \<Rightarrow> DlState \<Rightarrow> (DLDataBlock list \<times> DlState) option" where
  "build_upto 0 s = Some ([], s)"
| "build_upto (Suc k) s =
     (case BuildDLRlcBlock s of
        None \<Rightarrow> None
      | Some (None, s') \<Rightarrow> Some ([], s')
      | Some (Some p, s') \<Rightarrow> map_option (\<lambda>(bs, t). (dl_block s' p # bs, t)) (build_upto k s'))"

definition octets_left :: "LlcPdu list \<Rightarrow> DlState \<Rightarrow> nat" where
  "octets_left pdus s = sum_list (map (length \<circ> pdu_data) pdus) - dk_currPduByte (ds_link s)"

text \<open>An acknowledged link that has sent \<open>n\<close> blocks, none acknowledged, with the free blocks \<open>xs\<close>.\<close>

definition unacked :: "nat \<Rightarrow> addr list \<Rightarrow> DlState \<Rightarrow> bool" where
  "unacked n xs s \<longleftrightarrow> dk_rlcMode (ds_link s) = ACKNOWLEDGED_RLC_MODE \<and> dk_vA (ds_link s) = 0 \<and>
     dk_vS (ds_link s) = n \<and> pool_holds (ds_pool s) xs \<and> (\<forall>r \<in> set xs. fresh_block (dl_block s r))"

lemma build_step:
  assumes s: "sending pdus s" and u: "unacked n (p # xs) s" and n: "n < XMT_WINDOW"
  shows "\<exists>s'. BuildDLRlcBlock s = Some (Some p, s') \<and> unacked (Suc n) xs s' \<and>
     (dk_lastDataBlock (ds_link s') \<noteq> None \<and>
        mobile_block (dl_block s' p) (part_sent pdus s) = (map pdu_data pdus, []) \<or>
      (\<exists>us pdus'. pdus = us @ pdus' \<and> sending pdus' s' \<and>
        mobile_block (dl_block s' p) (part_sent pdus s) = (map pdu_data us, part_sent pdus' s') \<and>
        octets_left pdus' s' + 10 \<le> octets_left pdus s))"
proof -
  have w: "window_open (ds_link s)" "free_slot s = Some s"
    using u n by (auto simp: unacked_def window_open_def free_slot_def split: option.split)
  have dist: "distinct (p # xs)" and pool: "pool_holds (ds_pool s) (p # xs)" using u by (auto simp: unacked_def pool_holds_def)
  obtain q where q: "GetDataBlock (ds_pool s) = Some (Some p, q)" "pool_holds q xs" "bp_block q = bp_block (ds_pool s)"
    using GetDataBlock_Cons [OF pool] by blast
  have fr: "fresh_block (bp_block q p)" using u q(3) by (simp add: unacked_def)
  obtain s1 s' where run: "BuildDLRlcBlock s = Some (Some p, s')"
    and s': "s' = s1\<lparr>ds_link := (ds_link s1)\<lparr>dk_vB := (dk_vB (ds_link s))[dk_vS (ds_link s) := PENDING_ACK],
               dk_vS := (dk_vS (ds_link s) + 1) mod RLC_MOD_VAL\<rparr>\<rparr>"
    and wp: "window_part (ds_link s1) = window_part ((ds_link s)\<lparr>dk_pDlBlocks := (dk_pDlBlocks (ds_link s))[dk_vS (ds_link s) := Some p]\<rparr>)"
    and ph: "\<forall>xs. pool_holds (ds_pool s1) xs = pool_holds q xs" and bl: "\<forall>r. r \<noteq> p \<longrightarrow> dl_block s1 r = bp_block q r"
    and fill: "filled_to p pdus [] (part_sent pdus s) (dk_currPduByte (ds_link s)) 0 s1"
    using BuildDLRlcBlock_fills [OF s w refl refl refl q(1) fr] by blast
  note wf = window_part_fields [OF wp]
  have "\<forall>r \<in> set xs. fresh_block (dl_block s1 r)" using u bl dist q(3) by (auto simp: unacked_def)
  then have un: "unacked (Suc n) xs s'"
    using u n wf q(2) ph by (simp add: unacked_def s')
  have five: "\<forall>u \<in> set pdus. 5 \<le> length (pdu_data u)" using s by (simp add: sending_def)
  let ?d = "dk_currPduByte (ds_link s1)"
  show ?thesis
  proof (cases "dk_lastDataBlock (ds_link s1)")
    case (Some m)
    then have "mobile_block (dl_block s1 p) (part_sent pdus s) = (map pdu_data pdus, [])"
      using fill by (simp add: filled_to_def Let_def)
    then show ?thesis using run un Some s' by simp
  next
    case None
    then obtain us pdu where us: "pdus = us @ pdu # ds_bssgp s1 (tbf_tlli (ds_tbf s1))" "dk_llcPdu (ds_link s1) = Some pdu"
      "?d < length (pdu_data pdu)" "mobile_block (dl_block s1 p) (part_sent pdus s) = (map pdu_data us, take ?d (pdu_data pdu))"
      "10 \<le> db_streamOutLen (dl_block s1 p)"
      "sum_list (map (length \<circ> pdu_data) us) + ?d = dk_currPduByte (ds_link s) + db_streamOutLen (dl_block s1 p)"
      using fill by (auto simp: filled_to_def Let_def)
    let ?ps = "pdu # ds_bssgp s1 (tbf_tlli (ds_tbf s1))"
    have "sending ?ps s'" using us(1-3) None five s' by (simp add: sending_def)
    moreover have "octets_left ?ps s' + 10 \<le> octets_left pdus s"
      using us(1,3,5,6) by (simp add: octets_left_def s')
    moreover have "mobile_block (dl_block s' p) (part_sent pdus s) = (map pdu_data us, part_sent ?ps s')"
      using us(4) by (simp add: s')
    ultimately show ?thesis using run un us(1) by blast
  qed
qed

lemma build_upto_reads:
  assumes "sending pdus s" "unacked n xs s" "n + k \<le> XMT_WINDOW" "k \<le> length xs"
  shows "\<exists>bs s'. build_upto k s = Some (bs, s') \<and>
     (dk_lastDataBlock (ds_link s') \<noteq> None \<and> mobile_read bs (part_sent pdus s) = (map pdu_data pdus, []) \<or>
      dk_lastDataBlock (ds_link s') = None \<and>
      (\<exists>us pdus'. pdus = us @ pdus' \<and> pdus' \<noteq> [] \<and> mobile_read bs (part_sent pdus s) = (map pdu_data us, part_sent pdus' s')) \<and>
        10 * k < octets_left pdus s)"
  using assms
proof (induction k arbitrary: pdus s n xs)
  case 0
  then show ?case by (auto simp: sending_def octets_left_def intro!: exI [of _ "[]"])
next
  case (Suc k)
  obtain p ys where xs: "xs = p # ys" using Suc.prems(4) by (cases xs) auto
  obtain s1 where s1: "BuildDLRlcBlock s = Some (Some p, s1)" "unacked (Suc n) ys s1"
    "dk_lastDataBlock (ds_link s1) \<noteq> None \<and> mobile_block (dl_block s1 p) (part_sent pdus s) = (map pdu_data pdus, []) \<or>
      (\<exists>us pdus'. pdus = us @ pdus' \<and> sending pdus' s1 \<and>
        mobile_block (dl_block s1 p) (part_sent pdus s) = (map pdu_data us, part_sent pdus' s1) \<and>
        octets_left pdus' s1 + 10 \<le> octets_left pdus s)"
    using build_step [OF Suc.prems(1), of n p ys] Suc.prems(2,3) xs by auto
  from s1(3) show ?case
  proof (elim disjE exE conjE)
    assume e: "dk_lastDataBlock (ds_link s1) \<noteq> None" "mobile_block (dl_block s1 p) (part_sent pdus s) = (map pdu_data pdus, [])"
    then have "build_upto k s1 = Some ([], s1)" by (cases k) (simp_all add: BuildDLRlcBlock_def Let_def)
    then show ?thesis using s1(1) e by (intro exI [of _ "[dl_block s1 p]"] exI [of _ s1]) simp
  next
    fix us pdus'
    assume a: "pdus = us @ pdus'" "sending pdus' s1"
      "mobile_block (dl_block s1 p) (part_sent pdus s) = (map pdu_data us, part_sent pdus' s1)"
      "octets_left pdus' s1 + 10 \<le> octets_left pdus s"
    obtain bs s' where r: "build_upto k s1 = Some (bs, s')"
     "dk_lastDataBlock (ds_link s') \<noteq> None \<and> mobile_read bs (part_sent pdus' s1) = (map pdu_data pdus', []) \<or>
      dk_lastDataBlock (ds_link s') = None \<and>
      (\<exists>us pdus''. pdus' = us @ pdus'' \<and> pdus'' \<noteq> [] \<and> mobile_read bs (part_sent pdus' s1) = (map pdu_data us, part_sent pdus'' s')) \<and>
        10 * k < octets_left pdus' s1"
      using Suc.IH [OF a(2) s1(2)] Suc.prems(3,4) xs by auto
    have "build_upto (Suc k) s = Some (dl_block s1 p # bs, s')" using s1(1) r(1) by simp
    moreover have "mobile_read (dl_block s1 p # bs) (part_sent pdus s) =
        (case mobile_read bs (part_sent pdus' s1) of (qs, d) \<Rightarrow> (map pdu_data us @ qs, d))" using a(3) by simp
    ultimately show ?thesis
      using r(2) a(1,4) by (elim disjE conjE exE) (force intro: exI [of _ "us @ _"])+
  qed
qed

section \<open>Property\<close>

text \<open>
  C11: segmentation. On a newly established acknowledged link whose TLLI has PDUs waiting in BSSGP,
  whatever their number, lengths (at least the five octets of an LLC frame) and contents, and whatever the
  scheduler answers in between, building new blocks always succeeds while the window is open, and a
  mobile that reads them by the rules of the air interface gets the PDUs in order: complete ones
  followed by the beginning of the next, and all of them once the final block indicator is set, which
  happens at the latest when ten octets a block would have carried everything.
\<close>

theorem mobile_reads_pdus:
  assumes "pool_holds (ds_pool s) xs" "XMT_WINDOW \<le> length xs" "\<forall>r \<in> set xs. fresh_block (dl_block s r)"
    and "ds_bssgp s (tbf_tlli (ds_tbf s)) = pdus" "pdus \<noteq> []" "\<forall>u \<in> set pdus. 5 \<le> length (pdu_data u)"
    and "k \<le> XMT_WINDOW"
  shows "\<exists>bs s'. build_upto k (snd (GetNextLLCPdu (DL_EstablishRLCLink ACKNOWLEDGED_RLC_MODE s))) = Some (bs, s') \<and>
     (if dk_lastDataBlock (ds_link s') \<noteq> None then mobile_read bs [] = (map pdu_data pdus, [])
      else \<exists>us u rest m. pdus = us @ u # rest \<and> mobile_read bs [] = (map pdu_data us, take m (pdu_data u))) \<and>
     (sum_list (map (length \<circ> pdu_data) pdus) \<le> 10 * k \<longrightarrow> dk_lastDataBlock (ds_link s') \<noteq> None)"
proof -
  obtain u us where pdus: "pdus = u # us" using assms(5) by (cases pdus) auto
  define s0 where "s0 = snd (GetNextLLCPdu (DL_EstablishRLCLink ACKNOWLEDGED_RLC_MODE s))"
  have s: "dk_llcPdu (ds_link s0) = Some u" "dk_currPduByte (ds_link s0) = 0" "dk_lastDataBlock (ds_link s0) = None"
    "dk_rlcMode (ds_link s0) = ACKNOWLEDGED_RLC_MODE" "dk_vA (ds_link s0) = 0" "dk_vS (ds_link s0) = 0"
    "ds_pool s0 = ds_pool s" "ds_bssgp s0 (tbf_tlli (ds_tbf s0)) = us"
    using assms(4) pdus
    by (simp_all add: s0_def GetNextLLCPdu_def dl_emit_def DL_EstablishRLCLink_def DL_ClearControlAckTag_def DLRlcLink_clear_def)
  have five: "5 \<le> length (pdu_data u)" using assms(6) pdus by simp
  have "sending pdus s0" using s five assms(6) pdus by (auto simp: sending_def)
  moreover have "unacked 0 xs s0" using s assms(1,3) by (simp add: unacked_def)
  ultimately obtain bs s' where r: "build_upto k s0 = Some (bs, s')"
    "dk_lastDataBlock (ds_link s') \<noteq> None \<and> mobile_read bs (part_sent pdus s0) = (map pdu_data pdus, []) \<or>
      dk_lastDataBlock (ds_link s') = None \<and>
      (\<exists>us pdus'. pdus = us @ pdus' \<and> pdus' \<noteq> [] \<and> mobile_read bs (part_sent pdus s0) = (map pdu_data us, part_sent pdus' s')) \<and>
        10 * k < octets_left pdus s0"
    using build_upto_reads [of pdus s0 0 xs k] assms(2,7) by auto
  have z: "part_sent pdus s0 = []" "octets_left pdus s0 = sum_list (map (length \<circ> pdu_data) pdus)"
    using s(2) by (simp_all add: octets_left_def)
  have tail: "\<exists>us u rest m. pdus = us @ u # rest \<and> (map pdu_data vs, part_sent pdus' s') = (map pdu_data us, take m (pdu_data u))"
    if "pdus = vs @ pdus'" "pdus' \<noteq> []" for vs pdus'
    using that by (cases pdus') auto
  from r(2) show ?thesis
  proof (elim disjE conjE exE)
    assume a: "dk_lastDataBlock (ds_link s') \<noteq> None" "mobile_read bs (part_sent pdus s0) = (map pdu_data pdus, [])"
    show ?thesis unfolding s0_def [symmetric] using r(1) a(1) a(2) [unfolded z(1)] by (intro exI [of _ bs] exI [of _ s']) simp
  next
    fix vs pdus'
    assume a: "dk_lastDataBlock (ds_link s') = None" "10 * k < octets_left pdus s0" "pdus = vs @ pdus'" "pdus' \<noteq> []"
      "mobile_read bs (part_sent pdus s0) = (map pdu_data vs, part_sent pdus' s')"
    have "\<exists>us u rest m. pdus = us @ u # rest \<and> mobile_read bs [] = (map pdu_data us, take m (pdu_data u))"
      using tail [OF a(3,4)] a(5) [unfolded z(1)] by simp
    then show ?thesis unfolding s0_def [symmetric] using r(1) a(1,2) z(2) by (intro exI [of _ bs] exI [of _ s']) simp
  qed
qed

text \<open>A downlink link with a pool of \<open>n\<close> blocks, the PDUs \<open>ps\<close> waiting for its TLLI.\<close>

definition sample_dl_block :: DLDataBlock where
  "sample_dl_block = \<lparr>db_streamOut = replicate 53 0, db_streamOutLen = 0,
     db_dlHeader = \<lparr>dl_payloadType = RLC_DATA_BLOCK, dl_rrbp = FN_N_13, dl_spBit = RRBP_NOT_VALID, dl_usf = 0,
       dl_rbsn = 0, dl_rti = 0, dl_finalSegBit = NOT_FINAL_SEGMENT, dl_acBit = TFI_D_NOT_PRESENT,
       dl_powerReduction = MODEA_NOT_USABLE_OR_MODEB_24_30_DB, dl_tfi = 0, dl_fbiBit = NOT_LAST_RLC_BLOCK,
       dl_directionBit = UPLINK_TBF, dl_bsn = 0, dl_extensionBit = NO_EXTENSION_OCTET,
       dl_LengthOctets = replicate 10 \<lparr>lo_length = 0, lo_moreBit = MORE_LLC_DATA, lo_extensionBit = NO_EXTENSION_OCTET\<rparr>,
       dl_currLengthOctet = 0\<rparr>,
     db_dlHeaderLen = 0, db_chanCoding = \<lparr>cc_isValid = True, cc_coding = CS_1\<rparr>\<rparr>"

definition sample_dl_link :: DLRlcLink where
  "sample_dl_link = \<lparr>dk_rlcMode = ACKNOWLEDGED_RLC_MODE, dk_vS = 0, dk_pDlBlocks = replicate 128 None,
     dk_lastPendingAckXmit = 0, dk_lastBlockSentOnPollTs = False, dk_lastDataBlock = None,
     dk_chanCoding = \<lparr>cc_isValid = True, cc_coding = CS_1\<rparr>, dk_n3105 = 0, dk_numBlocksSincePoll = 8, dk_dlAssignCnt = 0,
     dk_pollOnActivation = False, dk_vA = 0, dk_vB = replicate 128 VB_INVALID, dk_llcPdu = None, dk_currPduByte = 0,
     dk_N3105_MAX = 5, dk_isT3193Running = False\<rparr>"

definition sample_dl_state :: "nat \<Rightarrow> octet list list \<Rightarrow> DlState" where
  "sample_dl_state n ps = \<lparr>ds_link = sample_dl_link,
     ds_tbf = \<lparr>tbf_tfi = \<lparr>tfi_isValid = True, tfi_val = 4\<rparr>, tbf_tlli = 0xC0FFEE00, tbf_taiTs = 0, tbf_tai = 0,
       tbf_trx = 0, tbf_allocatedTs = [True, False, False, False, False, False, False, False],
       tbf_naturalTs = replicate 8 True, tbf_state = ALLOCATED, dl_ctlAckTag = replicate 40 255, dl_currAckTag = 0,
       dl_currNumAckTags = 5\<rparr>,
     ds_T3195 = False, ds_T3191 = False, ds_T3193 = False, ds_activity = False,
     ds_pool = the (BlockPool_new n (\<lambda>_. sample_dl_block)), ds_sysCtlAckCount = 5,
     ds_bssgp = (\<lambda>t. if t = 0xC0FFEE00 then map (\<lambda>p. \<lparr>pdu_buffer = 1, pdu_data = p\<rparr>) ps else []),
     ds_sched = [], ds_ulTbf = False, ds_out = []\<rparr>"

lemma sample_dl_pool:
  "pool_holds (ds_pool (sample_dl_state n ps)) [0..<n]" "dl_block (sample_dl_state n ps) r = sample_dl_block"
  using BlockPool_new_holds [of n "\<lambda>_. sample_dl_block"] by (auto simp: sample_dl_state_def)

theorem mobile_reads_pdus_witness:
  "\<exists>bs s'. build_upto 4 (snd (GetNextLLCPdu (DL_EstablishRLCLink ACKNOWLEDGED_RLC_MODE
       (sample_dl_state 64 [replicate 30 0xAB, replicate 10 0xCD])))) = Some (bs, s') \<and>
     mobile_read bs [] = ([replicate 30 0xAB, replicate 10 0xCD], [])"
proof -
  let ?ps = "[replicate 30 0xAB, replicate 10 0xCD] :: octet list list"
  let ?s = "sample_dl_state 64 ?ps"
  let ?pdus = "map (\<lambda>p. \<lparr>pdu_buffer = 1, pdu_data = p\<rparr>) ?ps"
  have "\<exists>bs s'. build_upto 4 (snd (GetNextLLCPdu (DL_EstablishRLCLink ACKNOWLEDGED_RLC_MODE ?s))) = Some (bs, s') \<and>
     (if dk_lastDataBlock (ds_link s') \<noteq> None then mobile_read bs [] = (map pdu_data ?pdus, [])
      else \<exists>us u rest m. ?pdus = us @ u # rest \<and> mobile_read bs [] = (map pdu_data us, take m (pdu_data u))) \<and>
     (sum_list (map (length \<circ> pdu_data) ?pdus) \<le> 10 * 4 \<longrightarrow> dk_lastDataBlock (ds_link s') \<noteq> None)"
    by (rule mobile_reads_pdus [OF sample_dl_pool(1)])
      (simp_all add: sample_dl_pool(2), simp_all add: sample_dl_state_def sample_dl_block_def fresh_block_def block_shape_def)
  then obtain bs s' where r: "build_upto 4 (snd (GetNextLLCPdu (DL_EstablishRLCLink ACKNOWLEDGED_RLC_MODE ?s))) = Some (bs, s')"
    "if dk_lastDataBlock (ds_link s') \<noteq> None then mobile_read bs [] = (map pdu_data ?pdus, [])
      else \<exists>us u rest m. ?pdus = us @ u # rest \<and> mobile_read bs [] = (map pdu_data us, take m (pdu_data u))"
    "sum_list (map (length \<circ> pdu_data) ?pdus) \<le> 10 * 4 \<longrightarrow> dk_lastDataBlock (ds_link s') \<noteq> None" by blast
  have "dk_lastDataBlock (ds_link s') \<noteq> None" using r(3) by simp
  then have "mobile_read bs [] = (map pdu_data ?pdus, [])" using r(2) by simp
  then show ?thesis using r(1) by simp
qed

end
