(* ===== verification/DlWindow.thy ===== *)
theory DlWindow
  imports DlSegment
begin

text \<open>
  The send window of the downlink link over a lossy channel.  Blocks are counted by unbounded numbers;
  the sender keeps them modulo 128.
\<close>

section \<open>The loops over the window\<close>

lemma mod_window:
  assumes "A \<le> i" "i < A + 128" "A \<le> j" "j < A + 128" "i mod 128 = j mod (128 :: nat)"
  shows "i = j"
proof (rule ccontr)
  assume "i \<noteq> j"
  then consider "i < j" "j < i + 128" | "j < i" "i < j + 128" using assms(1-4) by linarith
  then show False using mod_ne_near [of i j] mod_ne_near [of j i] assms(5) by cases auto
qed

lemma mod_Suc_window [simp]: "(n mod 128 + 1) mod 128 = Suc n mod (128 :: nat)" "Suc (n mod 128) mod 128 = Suc n mod (128 :: nat)"
  by (simp_all add: mod_Suc_eq)

text \<open>The loops that look for a block by its status, and what they find.\<close>

locale window_scan =
  fixes scan :: "DLRlcLink \<Rightarrow> nat \<Rightarrow> nat option option" and st :: ACKNOWLEDGE_STATUS
  assumes scan_step: "scan l cur =
     (if cur = dk_vS l then Some None else if RLC_MOD_VAL \<le> cur then None
      else if dk_vB l ! cur = st then Some (Some cur) else scan l ((cur + 1) mod RLC_MOD_VAL))"
begin

lemma scan_find:
  "T mod 128 = dk_vS l \<Longrightarrow> m \<le> T \<Longrightarrow> T < m + 128 \<Longrightarrow>
     scan l (m mod 128) = Some (map_option (\<lambda>i. i mod 128) (find (\<lambda>i. dk_vB l ! (i mod 128) = st) [m..<T]))"
proof (induction "T - m" arbitrary: m)
  case 0
  then show ?case by (simp add: scan_step [of l "dk_vS l"])
next
  case (Suc d)
  then have "m < T" by simp
  then have "m mod 128 \<noteq> dk_vS l" using mod_ne_near [of m T] Suc.prems by simp
  moreover have "scan l (Suc m mod 128) =
      Some (map_option (\<lambda>i. i mod 128) (find (\<lambda>i. dk_vB l ! (i mod 128) = st) [Suc m..<T]))"
    using Suc by auto
  ultimately show ?case using \<open>m < T\<close> by (simp add: scan_step [of l "m mod 128"] upt_conv_Cons)
qed

end

interpretation nacked: window_scan nacked_loop NACKED
  by unfold_locales (rule nacked_loop.simps)

interpretation pending: window_scan pending_loop PENDING_ACK
  by unfold_locales (rule pending_loop.simps)

lemma find_append: "find P (xs @ ys) = (case find P xs of None \<Rightarrow> find P ys | Some y \<Rightarrow> Some y)"
  by (induction xs) auto

lemma find_upt_SomeD: "find P [m..<T] = Some i \<Longrightarrow> m \<le> i \<and> i < T \<and> P i"
  by (auto simp: find_Some_iff)

lemma ack_all_runs:
  "S mod 128 = vS \<Longrightarrow> A \<le> S \<Longrightarrow> S < A + 128 \<Longrightarrow> length vB = 128 \<Longrightarrow>
     \<exists>vB'. ack_all (A mod 128) vS vB = Some vB' \<and> length vB' = 128 \<and>
       (\<forall>k < 128. vB' ! k = (if \<exists>n. A \<le> n \<and> n < S \<and> k = n mod 128 then ACKED else vB ! k))"
proof (induction "S - A" arbitrary: A vB)
  case 0
  then show ?case by (subst ack_all.simps) auto
next
  case (Suc d)
  then have "A < S" by simp
  then have "A mod 128 \<noteq> vS" using mod_ne_near [of A S] Suc.prems by simp
  then have "ack_all (A mod 128) vS vB = ack_all (Suc A mod 128) vS (vB[A mod 128 := ACKED])"
    by (simp add: ack_all.simps [of "A mod 128"] linorder_not_le [THEN iffD2, OF mod_less_divisor])
  moreover have "d = S - Suc A" "Suc A \<le> S" "S < Suc A + 128" "length (vB[A mod 128 := ACKED]) = 128"
    using Suc by simp_all
  from Suc.hyps(1) [OF this(1) Suc.prems(1) this(2-4)]
  obtain vB' where "ack_all (Suc A mod 128) vS (vB[A mod 128 := ACKED]) = Some vB'" "length vB' = 128"
    "\<forall>k < 128. vB' ! k = (if \<exists>n. Suc A \<le> n \<and> n < S \<and> k = n mod 128 then ACKED else vB[A mod 128 := ACKED] ! k)"
    by auto
  moreover have "(\<exists>n. A \<le> n \<and> n < S \<and> k = n mod 128) \<longleftrightarrow> k = A mod 128 \<or> (\<exists>n. Suc A \<le> n \<and> n < S \<and> k = n mod 128)" for k
    using \<open>A < S\<close> by (metis Suc_leD Suc_leI le_antisym le_eq_less_or_eq)
  ultimately show ?case using Suc.prems(4) by (auto simp: nth_list_update)
qed

section \<open>The report of the mobile\<close>

text \<open>
  \<open>reports x rrb\<close>: the bitmap of a mobile that has received what the receiver \<open>x\<close> of \<open>UlRlcWindow\<close> has;
  the starting sequence number is \<open>rx_R x\<close>.
\<close>

definition reports :: "receiver \<Rightarrow> octet list \<Rightarrow> bool" where
  "reports x rrb \<longleftrightarrow> length rrb = 8 \<and>
     (\<forall>d < 64. d < rx_R x \<longrightarrow> bit (rrb ! (7 - d div 8)) (d mod 8) = (rx_R x - 1 - d \<in> rx_S x))"

lemma bitPos_test: "(w AND push_bit k 1 \<noteq> 0) = bit (w :: octet) k"
  by (simp add: push_bit_of_1 and_exp_eq_0_iff_not_bit)

lemma bitPos_next:
  "(if push_bit 1 (push_bit (d mod 8) 1) = (0 :: octet) then 7 - int (d div 8) - 1 else 7 - int (d div 8)) = 7 - int (Suc d div 8)"
  "(if push_bit 1 (push_bit (d mod 8) 1) = (0 :: octet) then 1 else push_bit 1 (push_bit (d mod 8) 1)) = push_bit (Suc d mod 8) (1 :: octet)"
proof -
  have "d mod 8 \<in> {0, 1, 2, 3, 4, 5, 6, 7}" by auto
  moreover have "Suc d mod 8 = (if d mod 8 = 7 then 0 else Suc (d mod 8))" "Suc d div 8 = (if d mod 8 = 7 then Suc (d div 8) else d div 8)"
    by (simp_all add: mod_Suc div_Suc)
  ultimately show
    "(if push_bit 1 (push_bit (d mod 8) 1) = (0 :: octet) then 7 - int (d div 8) - 1 else 7 - int (d div 8)) = 7 - int (Suc d div 8)"
    "(if push_bit 1 (push_bit (d mod 8) 1) = (0 :: octet) then 1 else push_bit 1 (push_bit (d mod 8) 1)) = push_bit (Suc d mod 8) (1 :: octet)"
    by auto
qed

lemma bitmap_loop_step:
  assumes "d < 64" "i < 128" "b = bit (rrb ! (7 - d div 8)) (d mod 8)"
  shows "bitmap_loop rrb vA (7 - int (d div 8)) (push_bit (d mod 8) 1) i t vB =
     (if i = vA then Some (if b then t else i, vB[i := if b then ACKED else NACKED])
      else bitmap_loop rrb vA (7 - int (Suc d div 8)) (push_bit (Suc d mod 8) 1) (if i = 0 then 127 else i - 1)
             (if b then t else i) (vB[i := if b then ACKED else NACKED]))"
proof -
  have ix: "nat (7 - int (d div 8)) = 7 - d div 8" "\<not> 7 - int (d div 8) < 0" using assms(1) by linarith+
  show ?thesis
    by (subst bitmap_loop.simps)
      (use assms(2,3) in \<open>simp only: ix bitPos_test bitPos_next Let_def, simp\<close>)
qed

lemma bitmap_loop_reads:
  assumes "reports x rrb" "A \<le> i" "i < rx_R x" "rx_R x \<le> A + 64" "d = rx_R x - 1 - i" "length vB = 128"
  shows "\<exists>vB'. bitmap_loop rrb (A mod 128) (7 - int (d div 8)) (push_bit (d mod 8) 1) (i mod 128) (t mod 128) vB =
       Some ((case find (\<lambda>n. n \<notin> rx_S x) [A..<Suc i] of None \<Rightarrow> t | Some n \<Rightarrow> n) mod 128, vB') \<and> length vB' = 128 \<and>
     (\<forall>n. A \<le> n \<and> n < A + 128 \<longrightarrow> vB' ! (n mod 128) =
        (if n \<le> i then if n \<in> rx_S x then ACKED else NACKED else vB ! (n mod 128)))"
  using assms(2-)
proof (induction "i - A" arbitrary: i d t vB)
  case 0
  have d: "d < 64" "d < rx_R x" "rx_R x - 1 - d = i" "A = i" using 0 by auto
  then have b: "bit (rrb ! (7 - d div 8)) (d mod 8) \<longleftrightarrow> i \<in> rx_S x" using assms(1) by (auto simp: reports_def)
  have ne: "i mod 128 \<noteq> n mod 128" if "i < n" "n < i + 128" for n
    using that mod_ne_near [of i n] by auto
  let ?vB = "vB[i mod 128 := if i \<in> rx_S x then ACKED else NACKED]"
  have "bitmap_loop rrb (A mod 128) (7 - int (d div 8)) (push_bit (d mod 8) 1) (i mod 128) (t mod 128) vB =
      Some ((case find (\<lambda>n. n \<notin> rx_S x) [A..<Suc i] of None \<Rightarrow> t | Some n \<Rightarrow> n) mod 128, ?vB)"
    unfolding bitmap_loop_step [OF d(1) mod_less_divisor [OF zero_less_numeral] b [symmetric]] d(4) by simp
  moreover have "?vB ! (n mod 128) = (if n \<le> i then if n \<in> rx_S x then ACKED else NACKED else vB ! (n mod 128))"
    if "A \<le> n" "n < A + 128" for n
    using that ne [of n] 0(6) d(4) by (cases "n = i") (simp_all add: nth_update_if)
  ultimately show ?case using 0(6) by simp
next
  case (Suc k)
  have d: "d < 64" "d < rx_R x" "rx_R x - 1 - d = i" "A < i" "Suc d = rx_R x - 1 - (i - 1)" using Suc by auto
  then have b: "bit (rrb ! (7 - d div 8)) (d mod 8) \<longleftrightarrow> i \<in> rx_S x" using assms(1) by (auto simp: reports_def)
  have ne: "i mod 128 \<noteq> A mod 128" using mod_ne_near [of A i] d(4) Suc.prems by simp
  have dec: "(if i mod 128 = 0 then 127 else i mod 128 - 1) = (i - 1) mod 128"
    using d(4) by (cases i) (auto simp: mod_Suc)
  let ?t = "if i \<in> rx_S x then t else i" and ?vB = "vB[i mod 128 := if i \<in> rx_S x then ACKED else NACKED]"
  have "i - 1 < rx_R x" "A \<le> i - 1" "k = i - 1 - A" using Suc d(4) by auto
  from Suc.hyps(1) [OF this(3,2,1) Suc.prems(3) d(5), of ?vB ?t]
  obtain vB' where vB': "bitmap_loop rrb (A mod 128) (7 - int (Suc d div 8)) (push_bit (Suc d mod 8) 1) ((i - 1) mod 128) (?t mod 128) ?vB =
       Some ((case find (\<lambda>n. n \<notin> rx_S x) [A..<Suc (i - 1)] of None \<Rightarrow> ?t | Some n \<Rightarrow> n) mod 128, vB')" "length vB' = 128"
     "\<forall>n. A \<le> n \<and> n < A + 128 \<longrightarrow> vB' ! (n mod 128) =
        (if n \<le> i - 1 then if n \<in> rx_S x then ACKED else NACKED else ?vB ! (n mod 128))"
    using Suc.prems(5) by auto
  have "bitmap_loop rrb (A mod 128) (7 - int (d div 8)) (push_bit (d mod 8) 1) (i mod 128) (t mod 128) vB =
     bitmap_loop rrb (A mod 128) (7 - int (Suc d div 8)) (push_bit (Suc d mod 8) 1) ((i - 1) mod 128) (?t mod 128) ?vB"
    unfolding bitmap_loop_step [OF d(1) mod_less_divisor [OF zero_less_numeral] b [symmetric]] dec using ne by simp
  moreover have "find (\<lambda>n. n \<notin> rx_S x) [A..<Suc i] =
      (case find (\<lambda>n. n \<notin> rx_S x) [A..<Suc (i - 1)] of None \<Rightarrow> if i \<in> rx_S x then None else Some i | Some n \<Rightarrow> Some n)"
    using d(4) by (simp add: find_append split: option.splits)
  moreover have "?vB ! (n mod 128) = (if n = i then if i \<in> rx_S x then ACKED else NACKED else vB ! (n mod 128))"
    if "A \<le> n" "n < A + 128" for n
    using that mod_window [of A n i] d(4) Suc.prems by (auto simp: nth_update_if)
  ultimately show ?case using vB' d(4) by (auto split: option.splits)
qed

section \<open>The blocks of the link\<close>

text \<open>
  \<open>stock P blks q\<close>: the blocks of \<open>P\<close> are spread over the pool and the table of the link, without a
  block in two places, and those not in the table are ready to be filled.
\<close>

definition stock :: "addr set \<Rightarrow> addr option list \<Rightarrow> DLDataBlock BlockPool \<Rightarrow> bool" where
  "stock P blks q \<longleftrightarrow> owned P blks q \<and> (\<forall>r \<in> P. block_shape (bp_block q r)) \<and>
     (\<forall>r \<in> P. (\<forall>i < RLC_MOD_VAL. blks ! i \<noteq> Some r) \<longrightarrow> fresh_block (bp_block q r))"

lemma stock_length [simp]: "stock P blks q \<Longrightarrow> length blks = 128"
  unfolding stock_def owned_in_def by blast

lemma stock_inj:
  "stock P blks q \<Longrightarrow> i < 128 \<Longrightarrow> j < 128 \<Longrightarrow> blks ! i = Some p \<Longrightarrow> blks ! j = Some p \<Longrightarrow> i = j"
  unfolding stock_def owned_in_def by blast

lemma stock_in: "stock P blks q \<Longrightarrow> i < 128 \<Longrightarrow> blks ! i = Some p \<Longrightarrow> p \<in> P"
  unfolding stock_def owned_in_def by blast

lemma append_block_blocks: "append_block p q = Some q' \<Longrightarrow> bp_block q' = bp_block q"
  by (auto simp: append_block_def split: option.splits if_splits)

lemma ReturnDLDataBlock_blocks:
  "ReturnDLDataBlock p q = Some q' \<Longrightarrow>
     bp_block q' = (bp_block q)(p := (bp_block q p)\<lparr>db_dlHeader := dl_ResetCurrLengthOctet (db_dlHeader (bp_block q p))\<rparr>)"
  by (auto simp: ReturnDLDataBlock_def reset_block_def dest: append_block_blocks)

lemma fresh_after_reset: "block_shape b \<Longrightarrow> fresh_block (b\<lparr>db_dlHeader := dl_ResetCurrLengthOctet (db_dlHeader b)\<rparr>)"
  by (simp add: fresh_block_def block_shape_def dl_ResetCurrLengthOctet_def)

lemma stock_return:
  assumes s: "stock P blks q" "blks ! i = Some p" "i < 128"
  shows "\<exists>q'. ReturnDLDataBlock p q = Some q' \<and> stock P (blks[i := None]) q' \<and>
     (\<forall>r. r \<noteq> p \<longrightarrow> bp_block q' r = bp_block q r)"
proof -
  obtain q' where q': "ReturnDLDataBlock p q = Some q'" "owned P (blks[i := None]) q'"
    using dlpool.owned_return_slot [of P blks q i p] s by (auto simp: stock_def)
  note b = ReturnDLDataBlock_blocks [OF q'(1)]
  have p: "fresh_block (bp_block q' p)"
    using stock_in [OF s(1,3,2)] s(1) by (simp add: b stock_def fresh_after_reset)
  have "fresh_block (bp_block q r)" if "r \<in> P" "r \<noteq> p" "\<forall>j < 128. blks[i := None] ! j \<noteq> Some r" for r
  proof -
    have "blks ! j \<noteq> Some r" if "j < 128" for j
      using that \<open>\<forall>j < 128. _\<close> \<open>r \<noteq> p\<close> s by (cases "j = i") (auto simp: nth_list_update)
    then show ?thesis using s(1) that(1) by (auto simp: stock_def)
  qed
  then have "stock P (blks[i := None]) q'"
    using q'(2) s(1) p by (auto simp: stock_def b fresh_block_def)
  then show ?thesis using q'(1) b by simp
qed

lemma stock_take:
  assumes s: "stock P blks q" "i < 128" "blks ! i = None" "finite P" "card {j. j < 128 \<and> blks ! j \<noteq> None} < card P"
  shows "\<exists>p q'. GetDataBlock q = Some (Some p, q') \<and> bp_block q' = bp_block q \<and> p \<in> P \<and>
     fresh_block (bp_block q p) \<and> (\<forall>j < 128. blks ! j \<noteq> Some p) \<and> stock P (blks[i := Some p]) q'"
proof -
  have "P \<noteq> {p. \<exists>j < 128. blks ! j = Some p}"
  proof
    assume "P = {p. \<exists>j < 128. blks ! j = Some p}"
    also have "\<dots> \<subseteq> (\<lambda>j. the (blks ! j)) ` {j. j < 128 \<and> blks ! j \<noteq> None}" by force
    finally have "card P \<le> card {j. j < 128 \<and> blks ! j \<noteq> None}" by (rule surj_card_le [rotated]) simp
    then show False using s(5) by simp
  qed
  then obtain p q' where p: "GetDataBlock q = Some (Some p, q')" "p \<in> P" "\<forall>j < 128. blks ! j \<noteq> Some p" "owned (P - {p}) blks q'"
    using dlpool.owned_take [of P blks q] s(1) by (auto simp: stock_def)
  have b: "bp_block q' = bp_block q" using p(1) by (auto simp: GetDataBlock_def split: option.splits if_splits)
  have fr: "fresh_block (bp_block q p)" using s(1) p(2,3) by (auto simp: stock_def)
  have "owned P (blks[i := Some p]) q'"
    using dlpool.owned_keep [OF p(4) _ s(2,3), of p] p(2) by (simp add: insert_absorb)
  moreover have "fresh_block (bp_block q r)" if "r \<in> P" "\<forall>j < 128. blks[i := Some p] ! j \<noteq> Some r" for r
  proof -
    have "blks ! j \<noteq> Some r" if "j < 128" for j
      using \<open>j < 128\<close> \<open>\<forall>j < 128. blks[i := Some p] ! j \<noteq> Some r\<close> s(1,3) by (cases "j = i") (auto simp: nth_list_update)
    then show ?thesis using s(1) that(1) by (auto simp: stock_def)
  qed
  ultimately have "stock P (blks[i := Some p]) q'" using s(1) by (simp add: stock_def b)
  then show ?thesis using p(1-3) b fr by blast
qed

lemma slide_loop_returns:
  assumes "stock P (dk_pDlBlocks l) q" "A \<le> T" "T < A + 128" "length (dk_vB l) = 128"
    and "\<forall>n. A \<le> n \<and> n < T \<longrightarrow> dk_pDlBlocks l ! (n mod 128) \<noteq> None"
  shows "\<exists>vB' blks' q'. slide_loop (A mod 128) (T mod 128) (l, q) = Some (l\<lparr>dk_vB := vB', dk_pDlBlocks := blks'\<rparr>, q') \<and>
     stock P blks' q' \<and> length vB' = 128 \<and>
     (\<forall>n. A \<le> n \<and> n < A + 128 \<longrightarrow> vB' ! (n mod 128) = (if n < T then VB_INVALID else dk_vB l ! (n mod 128)) \<and>
        blks' ! (n mod 128) = (if n < T then None else dk_pDlBlocks l ! (n mod 128))) \<and>
     (\<forall>n r. T \<le> n \<and> n < A + 128 \<longrightarrow> dk_pDlBlocks l ! (n mod 128) = Some r \<longrightarrow> bp_block q' r = bp_block q r)"
  using assms
proof (induction "T - A" arbitrary: A l q)
  case 0
  then show ?case
    by (subst slide_loop.simps) (auto intro!: exI [of _ "dk_vB l"] exI [of _ "dk_pDlBlocks l"] exI [of _ q])
next
  case (Suc k)
  then have "A < T" by simp
  then have A: "A < T" "A mod 128 \<noteq> T mod 128" using mod_ne_near [of A T] Suc.prems(3) by auto
  obtain p where p: "dk_pDlBlocks l ! (A mod 128) = Some p" using Suc.prems(5) A(1) by auto
  obtain q1 where q1: "ReturnDLDataBlock p q = Some q1" "stock P ((dk_pDlBlocks l)[A mod 128 := None]) q1"
    "\<forall>r. r \<noteq> p \<longrightarrow> bp_block q1 r = bp_block q r"
    using stock_return [OF Suc.prems(1) p] by auto
  let ?l = "l\<lparr>dk_vB := (dk_vB l)[A mod 128 := VB_INVALID], dk_pDlBlocks := (dk_pDlBlocks l)[A mod 128 := None]\<rparr>"
  have step: "slide_loop (A mod 128) (T mod 128) (l, q) = slide_loop (Suc A mod 128) (T mod 128) (?l, q1)"
    by (subst slide_loop.simps) (simp add: A(2) p q1(1) linorder_not_le [THEN iffD2, OF mod_less_divisor])
  have at: "xs[A mod 128 := v] ! (n mod 128) = (if n = A then v else xs ! (n mod 128))"
    if "A \<le> n" "n < A + 128" "length xs = 128" for n v and xs :: "'b list"
    using that mod_ne_near [of A n] by (cases "n = A") auto
  have ih: "k = T - Suc A" "stock P (dk_pDlBlocks ?l) q1" "Suc A \<le> T" "T < Suc A + 128" "length (dk_vB ?l) = 128"
    "\<forall>n. Suc A \<le> n \<and> n < T \<longrightarrow> dk_pDlBlocks ?l ! (n mod 128) \<noteq> None"
    using Suc.hyps(2) Suc.prems q1(2) A(1) at [OF _ _ stock_length [OF Suc.prems(1)]] by auto
  obtain vB' blks' q' where r: "slide_loop (Suc A mod 128) (T mod 128) (?l, q1) = Some (?l\<lparr>dk_vB := vB', dk_pDlBlocks := blks'\<rparr>, q')"
     "stock P blks' q'" "length vB' = 128"
     "\<forall>n. Suc A \<le> n \<and> n < Suc A + 128 \<longrightarrow> vB' ! (n mod 128) = (if n < T then VB_INVALID else dk_vB ?l ! (n mod 128)) \<and>
        blks' ! (n mod 128) = (if n < T then None else dk_pDlBlocks ?l ! (n mod 128))"
     "\<forall>n r. T \<le> n \<and> n < Suc A + 128 \<longrightarrow> dk_pDlBlocks ?l ! (n mod 128) = Some r \<longrightarrow> bp_block q' r = bp_block q1 r"
    using Suc.hyps(1) [OF ih] by auto
  have wrap: "vB' ! (A mod 128) = VB_INVALID" "blks' ! (A mod 128) = None"
    using r(4) [rule_format, of "A + 128"] Suc.prems(1,3,4) by (simp_all split: if_splits)
  have ne: "r \<noteq> p" if "T \<le> n" "n < A + 128" "dk_pDlBlocks l ! (n mod 128) = Some r" for n r
  proof
    assume "r = p"
    then have "n mod 128 = A mod 128" using stock_inj [OF Suc.prems(1) _ _ _ p] that(3) by simp
    then show False using that mod_ne_near [of A n] A(1) by simp
  qed
  show ?case
    unfolding step r(1)
  proof (intro exI conjI allI impI)
    show "Some (?l\<lparr>dk_vB := vB', dk_pDlBlocks := blks'\<rparr>, q') = Some (l\<lparr>dk_vB := vB', dk_pDlBlocks := blks'\<rparr>, q')" by simp
    fix n assume n: "A \<le> n \<and> n < A + 128"
    have "vB' ! (n mod 128) = (if n < T then VB_INVALID else dk_vB l ! (n mod 128)) \<and>
       blks' ! (n mod 128) = (if n < T then None else dk_pDlBlocks l ! (n mod 128))"
    proof (cases "n = A")
      case False
      then show ?thesis
        using n r(4) [rule_format, of n] at [of n "dk_vB l"] at [of n "dk_pDlBlocks l"] Suc.prems(1,4) by simp
    qed (simp add: wrap A(1))
    then show "vB' ! (n mod 128) = (if n < T then VB_INVALID else dk_vB l ! (n mod 128))"
      "blks' ! (n mod 128) = (if n < T then None else dk_pDlBlocks l ! (n mod 128))" by simp_all
  next
    fix n r' assume n: "T \<le> n \<and> n < A + 128" "dk_pDlBlocks l ! (n mod 128) = Some r'"
    then show "bp_block q' r' = bp_block q r'"
      using r(5) [rule_format, of n r'] q1(3) ne [of n r'] at [of n "dk_pDlBlocks l"] A(1) Suc.prems(1) by auto
  qed (use r in auto)
qed

end
