(* ===== verification/DlChannel.thy ===== *)
theory DlChannel
  imports DlWindow
begin

text \<open>
  The downlink over a lossy channel: the sender of \<open>DlRlcLink\<close>, a mobile that follows the air
  interface, and a channel that loses blocks and answers as it likes.
\<close>

section \<open>The window of the sender\<close>

text \<open>What a block carries besides the poll.\<close>

definition payload :: "DLDataBlock \<Rightarrow> DLDataBlock" where
  "payload b = b\<lparr>db_dlHeader := (db_dlHeader b)\<lparr>dl_spBit := RRBP_NOT_VALID\<rparr>\<rparr>"

lemma payload_header:
  "payload b = payload c \<Longrightarrow> dl_bsn (db_dlHeader b) = dl_bsn (db_dlHeader c)"
  "payload b = payload c \<Longrightarrow> dl_fbiBit (db_dlHeader b) = dl_fbiBit (db_dlHeader c)"
  "payload b = payload c \<Longrightarrow> dl_LengthOctets (db_dlHeader b) = dl_LengthOctets (db_dlHeader c)"
  "payload b = payload c \<Longrightarrow> dl_extensionBit (db_dlHeader b) = dl_extensionBit (db_dlHeader c)"
  "payload b = payload c \<Longrightarrow> db_streamOut b = db_streamOut c"
  "payload b = payload c \<Longrightarrow> db_streamOutLen b = db_streamOutLen c"
  by (cases b; cases c; cases "db_dlHeader b"; cases "db_dlHeader c"; simp add: payload_def)+

lemma payload_poll [simp]: "payload (on_header (\<lambda>h. h\<lparr>dl_spBit := v\<rparr>) b) = payload b"
  by (simp add: payload_def)

lemma mobile_block_payload: "payload b = payload c \<Longrightarrow> mobile_block b cur = mobile_block c cur"
  using payload_header [of b c] by (simp add: mobile_block_def dl_octets_def Let_def)

text \<open>
  \<open>window B A S P bs s\<close>: the blocks \<open>bs\<close> have been built, in this order, \<open>S\<close> of them; those from \<open>B\<close>
  on are still stored.  Blocks leave the table when V(A) passes them, except at the very end, when the
  mobile has reported the TBF complete.
\<close>

definition stored :: "nat \<Rightarrow> nat \<Rightarrow> DLDataBlock list \<Rightarrow> addr option list \<Rightarrow> (addr \<Rightarrow> DLDataBlock) \<Rightarrow> bool" where
  "stored B S bs blks blk \<longleftrightarrow> (\<forall>n. B \<le> n \<and> n < B + 128 \<longrightarrow>
     (if n < S then \<exists>p. blks ! (n mod 128) = Some p \<and> payload (blk p) = payload (bs ! n) else blks ! (n mod 128) = None))"

definition window :: "nat \<Rightarrow> nat \<Rightarrow> nat \<Rightarrow> addr set \<Rightarrow> DLDataBlock list \<Rightarrow> DLRlcLink \<Rightarrow> DLDataBlock BlockPool \<Rightarrow> bool" where
  "window B A S P bs l q \<longleftrightarrow> dk_rlcMode l = ACKNOWLEDGED_RLC_MODE \<and> B \<le> A \<and> A \<le> S \<and> S \<le> B + XMT_WINDOW \<and>
     (B = A \<or> A = S \<and> dk_lastDataBlock l \<noteq> None) \<and> dk_vA l = A mod 128 \<and> dk_vS l = S mod 128 \<and>
     length (dk_vB l) = 128 \<and> dk_lastPendingAckXmit l < 128 \<and>
     (dk_lastDataBlock l = None \<or> 0 < S \<and> dk_lastDataBlock l = Some ((S - 1) mod 128)) \<and>
     (\<forall>n. B \<le> n \<and> n < B + 128 \<longrightarrow> (dk_vB l ! (n mod 128) = VB_INVALID \<longleftrightarrow> S \<le> n)) \<and>
     length bs = S \<and> (\<forall>n < S. dl_bsn (db_dlHeader (bs ! n)) = of_nat (n mod 128)) \<and>
     stored B S bs (dk_pDlBlocks l) (bp_block q) \<and> stock P (dk_pDlBlocks l) q \<and> finite P \<and> XMT_WINDOW \<le> card P"

text \<open>Other fields of the link do not matter, nor do polls in the blocks.\<close>

lemma window_link [simp]:
  "window B A S P bs (l\<lparr>dk_n3105 := x1\<rparr>) q = window B A S P bs l q"
  "window B A S P bs (l\<lparr>dk_numBlocksSincePoll := x2\<rparr>) q = window B A S P bs l q"
  "window B A S P bs (l\<lparr>dk_lastBlockSentOnPollTs := x3\<rparr>) q = window B A S P bs l q"
  "window B A S P bs (l\<lparr>dk_isT3193Running := x4\<rparr>) q = window B A S P bs l q"
  "window B A S P bs (l\<lparr>dk_pollOnActivation := x5\<rparr>) q = window B A S P bs l q"
  "window B A S P bs (l\<lparr>dk_dlAssignCnt := x6\<rparr>) q = window B A S P bs l q"
  "window B A S P bs (l\<lparr>dk_N3105_MAX := x7\<rparr>) q = window B A S P bs l q"
  by (simp_all add: window_def)

lemma stock_owned: "owned P blks (q\<lparr>bp_block := f\<rparr>) = owned P blks q"
  by (simp add: owned_def pool_holds_def)

lemma stock_poll:
  "stock P blks q \<Longrightarrow> stock P blks (q\<lparr>bp_block := (bp_block q)(p := on_header (\<lambda>h. h\<lparr>dl_spBit := v\<rparr>) (bp_block q p))\<rparr>)"
  by (simp add: stock_def stock_owned fresh_block_def block_shape_def)

lemma window_poll:
  assumes "window B A S P bs (ds_link s) (ds_pool s)"
  shows "window B A S P bs (ds_link (on_block p (on_header (\<lambda>h. h\<lparr>dl_spBit := v\<rparr>)) s))
           (ds_pool (on_block p (on_header (\<lambda>h. h\<lparr>dl_spBit := v\<rparr>)) s))"
proof -
  let ?b = "(bp_block (ds_pool s))(p := on_header (\<lambda>h. h\<lparr>dl_spBit := v\<rparr>) (bp_block (ds_pool s) p))"
  have pl: "payload (?b r) = payload (bp_block (ds_pool s) r)" for r by simp
  have "stored B S bs (dk_pDlBlocks (ds_link s)) ?b \<longleftrightarrow> stored B S bs (dk_pDlBlocks (ds_link s)) (bp_block (ds_pool s))"
    unfolding stored_def pl ..
  then show ?thesis using assms stock_poll [of P _ "ds_pool s" p v]
    by (auto simp: window_def on_block_def)
qed

text \<open>Where the stored blocks are.\<close>

lemma window_block:
  assumes "window B A S P bs l q" "B \<le> n" "n < S"
  shows "\<exists>p. dk_pDlBlocks l ! (n mod 128) = Some p \<and> payload (bp_block q p) = payload (bs ! n)"
proof -
  have "n < B + 128" using assms by (auto simp: window_def)
  then show ?thesis using assms by (auto simp: window_def stored_def)
qed

lemma mod_hit: "k < 128 \<Longrightarrow> \<exists>n. B \<le> n \<and> n < B + 128 \<and> n mod 128 = (k :: nat)"
proof -
  assume k: "k < 128"
  have "(B + (k + 128 - B mod 128)) mod 128 = (B mod 128 + (k + 128 - B mod 128)) mod 128" by (rule mod_add_left_eq [symmetric])
  also have "B mod 128 + (k + 128 - B mod 128) = k + 128"
    using mod_less_divisor [of 128 B] by linarith
  finally have "(B + (k + 128 - B mod 128) mod 128) mod 128 = k" using k by (simp add: mod_add_right_eq)
  then show ?thesis by (intro exI [of _ "B + (k + 128 - B mod 128) mod 128"]) simp
qed

lemma window_status:
  assumes w: "window B A S P bs l q" and k: "k < 128" "dk_vB l ! k \<noteq> VB_INVALID"
  shows "\<exists>n. B \<le> n \<and> n < S \<and> k = n mod 128"
proof -
  obtain n where n: "B \<le> n" "n < B + 128" "n mod 128 = k" using mod_hit [OF k(1)] by blast
  moreover have "n < S" using w k(2) n by (auto simp: window_def)
  ultimately show ?thesis by blast
qed

section \<open>What is left to send\<close>

text \<open>
  \<open>keeps s s'\<close>: \<open>s'\<close> stands at the same place in the same PDUs, unless the mobile has been given up.
\<close>

abbreviation lost :: "DlState \<Rightarrow> bool" where
  "lost s \<equiv> tbf_state (ds_tbf s) = RELEASING"

definition source :: "DlState \<Rightarrow> LlcPdu option \<times> nat \<times> LlcPdu list" where
  "source s = (dk_llcPdu (ds_link s), dk_currPduByte (ds_link s), ds_bssgp s (tbf_tlli (ds_tbf s)))"

definition keeps :: "DlState \<Rightarrow> DlState \<Rightarrow> bool" where
  "keeps s s' \<longleftrightarrow> dk_lastDataBlock (ds_link s') = dk_lastDataBlock (ds_link s) \<and> (grants_ok s \<longrightarrow> grants_ok s') \<and>
     (\<not> lost s' \<longrightarrow> \<not> lost s \<and> source s' = source s)"

lemma keeps_refl [simp]: "keeps s s"
  by (simp add: keeps_def)

lemma keeps_trans: "keeps s t \<Longrightarrow> keeps t u \<Longrightarrow> keeps s u"
  by (simp add: keeps_def)

text \<open>
  \<open>finals bs l\<close>: the final block indicator is on the last block, once that is known.
  \<open>reading pdus bs s\<close>: a mobile that has all of \<open>bs\<close> has read the first of the PDUs \<open>pdus\<close> and, while the
  link stands inside a PDU, the octets of it sent so far; the remaining ones wait in BSSGP.
\<close>

definition finals :: "DLDataBlock list \<Rightarrow> DLRlcLink \<Rightarrow> bool" where
  "finals bs l \<longleftrightarrow> (\<forall>n < length bs. dl_fbiBit (db_dlHeader (bs ! n)) = LAST_RLC_BLOCK \<longleftrightarrow>
     dk_lastDataBlock l \<noteq> None \<and> Suc n = length bs)"

definition reading :: "LlcPdu list \<Rightarrow> DLDataBlock list \<Rightarrow> DlState \<Rightarrow> bool" where
  "reading pdus bs s \<longleftrightarrow> finals bs (ds_link s) \<and> (\<exists>us rest. pdus = us @ rest \<and> fst (mobile_read bs []) = map pdu_data us \<and>
     (if dk_lastDataBlock (ds_link s) = None
      then \<not> lost s \<longrightarrow> sending rest s \<and> snd (mobile_read bs []) = part_sent rest s
      else snd (mobile_read bs []) = [] \<and> (\<not> lost s \<longrightarrow> rest = ds_bssgp s (tbf_tlli (ds_tbf s)))))"

lemma sending_source:
  "source s' = source s \<Longrightarrow> dk_lastDataBlock (ds_link s') = dk_lastDataBlock (ds_link s) \<Longrightarrow>
     sending rest s' = sending rest s \<and> part_sent rest s' = part_sent rest s"
  by (simp add: source_def sending_def)

lemma reading_keeps:
  assumes "reading pdus bs s" "keeps s s'"
  shows "reading pdus bs s'"
proof (cases "lost s'")
  case True
  moreover obtain us rest where "pdus = us @ rest" "fst (mobile_read bs []) = map pdu_data us"
    "dk_lastDataBlock (ds_link s) = None \<or> snd (mobile_read bs []) = []"
    using assms(1) by (auto simp: reading_def split: if_splits)
  ultimately show ?thesis
    using assms unfolding reading_def keeps_def finals_def by (intro conjI exI [of _ us] exI [of _ rest]) auto
next
  case False
  then have s: "\<not> lost s" "source s' = source s" "dk_lastDataBlock (ds_link s') = dk_lastDataBlock (ds_link s)"
    using assms(2) by (simp_all add: keeps_def)
  then have eq: "ds_bssgp s' (tbf_tlli (ds_tbf s')) = ds_bssgp s (tbf_tlli (ds_tbf s))"
    "dk_currPduByte (ds_link s') = dk_currPduByte (ds_link s)" "lost s' = lost s" "\<And>rest. sending rest s' = sending rest s"
    using False sending_source [OF s(2,3)] by (simp_all add: source_def)
  show ?thesis using assms(1) unfolding reading_def finals_def eq s(3) .
qed

lemma mobile_read_append:
  "mobile_read (bs @ cs) cur = (case mobile_read bs cur of (ps, c) \<Rightarrow> case mobile_read cs c of (qs, d) \<Rightarrow> (ps @ qs, d))"
  by (induction bs arbitrary: cur) (auto split: prod.splits)

section \<open>Choosing a block\<close>

lemma nacked_window:
  assumes w: "window B A S P bs (ds_link s) (ds_pool s)"
  shows "\<exists>r s'. RetransmitNackedDLRlcBlock s = Some (r, s') \<and> window B A S P bs (ds_link s') (ds_pool s') \<and> keeps s s' \<and> ds_tbf s' = ds_tbf s \<and>
     (case r of None \<Rightarrow> s' = s | Some p \<Rightarrow> \<exists>n. B \<le> n \<and> n < S \<and> dk_pDlBlocks (ds_link s') ! (n mod 128) = Some p)"
proof -
  let ?l = "ds_link s"
  have l: "dk_vA ?l = A mod 128" "S mod 128 = dk_vS ?l" "A \<le> S" "S < A + 128" "B \<le> A" "S \<le> B + 64"
    using w by (auto simp: window_def)
  have run: "nacked_loop ?l (dk_vA ?l) = Some (map_option (\<lambda>i. i mod 128) (find (\<lambda>i. dk_vB ?l ! (i mod 128) = NACKED) [A..<S]))"
    unfolding l(1) by (rule nacked.scan_find [OF l(2,3,4)])
  show ?thesis
  proof (cases "find (\<lambda>i. dk_vB ?l ! (i mod 128) = NACKED) [A..<S]")
    case None
    then show ?thesis using run w by (simp add: RetransmitNackedDLRlcBlock_def Let_def)
  next
    case (Some i)
    then have i: "B \<le> i" "i < S" using find_upt_SomeD [OF Some] l(5) by auto
    obtain p where p: "dk_pDlBlocks ?l ! (i mod 128) = Some p" using window_block [OF w i] by blast
    let ?m = "?l\<lparr>dk_vB := (dk_vB ?l)[i mod 128 := PENDING_ACK], dk_lastPendingAckXmit := dk_vA ?l\<rparr>"
    have "(dk_vB ?l)[i mod 128 := PENDING_ACK] ! (n mod 128) = VB_INVALID \<longleftrightarrow> S \<le> n" if "B \<le> n" "n < B + 128" for n
      using that w i mod_window [of B i n] l(6) by (auto simp: window_def nth_list_update)
    then have "window B A S P bs ?m (ds_pool s)" using w by (simp add: window_def)
    moreover have "RetransmitNackedDLRlcBlock s = Some (Some p, restart_T3191 (i mod 128) (s\<lparr>ds_link := ?m\<rparr>))"
      using run Some p by (simp add: RetransmitNackedDLRlcBlock_def Let_def)
    moreover have "keeps s (restart_T3191 (i mod 128) (s\<lparr>ds_link := ?m\<rparr>))"
      by (simp add: keeps_def restart_T3191_def source_def)
    ultimately show ?thesis
      using i p by (intro exI [of _ "Some p"] exI [of _ "restart_T3191 (i mod 128) (s\<lparr>ds_link := ?m\<rparr>)"])
        (auto simp: restart_T3191_def intro!: exI [of _ i])
  qed
qed

lemma resend_last_window:
  assumes w: "window B A S P bs l q" and lb: "dk_lastDataBlock l = Some lb" "dk_pDlBlocks l ! lb = Some p"
  shows "B \<le> S - 1 \<and> S - 1 < S \<and> dk_pDlBlocks l ! ((S - 1) mod 128) = Some p"
proof -
  have S: "0 < S" "lb = (S - 1) mod 128" "B \<le> S" "S \<le> B + 64" using w lb(1) by (auto simp: window_def)
  have "B \<noteq> S"
  proof
    assume "B = S"
    have "S - 1 + 128 = S + 127" using S(1) by simp
    then have "(S - 1) mod 128 = (S + 127) mod 128" using mod_add_self2 [of "S - 1" 128] by (simp only:)
    moreover have "dk_pDlBlocks l ! ((S + 127) mod 128) = None" using w \<open>B = S\<close> by (simp add: window_def stored_def)
    ultimately show False using lb(2) S(2) by simp
  qed
  then show ?thesis using S lb(2) by simp
qed

lemma pending_window:
  assumes w: "window B A S P bs (ds_link s) (ds_pool s)"
  shows "\<exists>r s'. RetransmitPendingAckDLRlcBlock s = Some (r, s') \<and> window B A S P bs (ds_link s') (ds_pool s') \<and> keeps s s' \<and> ds_tbf s' = ds_tbf s \<and>
     (case r of None \<Rightarrow> True | Some p \<Rightarrow> \<exists>n. B \<le> n \<and> n < S \<and> dk_pDlBlocks (ds_link s') ! (n mod 128) = Some p)"
proof -
  let ?l = "ds_link s" and ?L = "dk_lastPendingAckXmit (ds_link s)"
  define resend where "resend = (case dk_lastDataBlock ?l of Some lb \<Rightarrow> (dk_pDlBlocks ?l ! lb, s\<lparr>ds_T3191 := True\<rparr>) | None \<Rightarrow> (None, s))"
  have last: ?thesis if "RetransmitPendingAckDLRlcBlock s = Some resend"
    unfolding that using w resend_last_window [OF w]
    by (auto simp: resend_def keeps_def source_def split: option.split)
  have "?L < 128" using w by (simp add: window_def)
  then obtain m where "Suc S \<le> m" "m < Suc S + 128" "m mod 128 = ?L" using mod_hit by blast
  moreover define T where "T = S + 128"
  moreover have "T mod 128 = dk_vS ?l" using w by (simp add: window_def T_def)
  ultimately have T: "T mod 128 = dk_vS ?l" "m \<le> T" "T < m + 128" "m mod 128 = ?L" by simp_all
  show ?thesis
  proof (cases "dk_lastDataBlock ?l \<noteq> None \<and> \<not> dk_lastBlockSentOnPollTs ?l")
    case True
    then show ?thesis by (intro last) (simp add: RetransmitPendingAckDLRlcBlock_def resend_def Let_def)
  next
    case False
    have run: "pending_loop ?l ?L = Some (map_option (\<lambda>i. i mod 128) (find (\<lambda>i. dk_vB ?l ! (i mod 128) = PENDING_ACK) [m..<T]))"
      using pending.scan_find [OF T(1-3)] T(4) by simp
    show ?thesis
    proof (cases "find (\<lambda>i. dk_vB ?l ! (i mod 128) = PENDING_ACK) [m..<T]")
      case None
      then show ?thesis using False run by (intro last) (auto simp: RetransmitPendingAckDLRlcBlock_def resend_def Let_def)
    next
      case (Some i)
      let ?k = "i mod 128"
      have k: "?k < 128" "dk_vB ?l ! ?k \<noteq> VB_INVALID" using find_upt_SomeD [OF Some] by auto
      obtain n where n: "B \<le> n" "n < S" "?k = n mod 128" using window_status [OF w k] by blast
      obtain p where p: "dk_pDlBlocks ?l ! (n mod 128) = Some p" using window_block [OF w n(1,2)] by blast
      let ?m = "?l\<lparr>dk_lastPendingAckXmit := if (?k + 1) mod 128 = dk_vS ?l then dk_vA ?l else (?k + 1) mod 128\<rparr>"
      have "RetransmitPendingAckDLRlcBlock s = Some (Some p, restart_T3191 ?k (s\<lparr>ds_link := ?m\<rparr>))"
        using False run Some p n(3) by (auto simp: RetransmitPendingAckDLRlcBlock_def Let_def)
      moreover have "window B A S P bs ?m (ds_pool s)" using w by (simp add: window_def)
      moreover have "keeps s (restart_T3191 ?k (s\<lparr>ds_link := ?m\<rparr>))"
        by (simp add: keeps_def restart_T3191_def source_def)
      ultimately show ?thesis
        using n p by (intro exI [of _ "Some p"] exI [of _ "restart_T3191 ?k (s\<lparr>ds_link := ?m\<rparr>)"])
          (auto simp: restart_T3191_def intro!: exI [of _ n])
    qed
  qed
qed

lemma stock_filled:
  assumes "stock P blks q" "\<forall>xs. pool_holds q' xs = pool_holds q xs" "\<forall>r. r \<noteq> p \<longrightarrow> bp_block q' r = bp_block q r"
    and "block_shape (bp_block q' p)" "blks ! i = Some p" "i < 128"
  shows "stock P blks q'"
proof -
  have "owned P blks q'" using assms(1,2) by (simp add: stock_def owned_def)
  moreover have "\<forall>r \<in> P. block_shape (bp_block q' r)" using assms(1,3,4) by (metis stock_def)
  moreover have "\<forall>r \<in> P. (\<forall>j < 128. blks ! j \<noteq> Some r) \<longrightarrow> fresh_block (bp_block q' r)"
    using assms(1,3,5,6) by (metis stock_def)
  ultimately show ?thesis by (simp add: stock_def)
qed

lemma window_free:
  assumes w: "window B A S P bs l q" and S: "S < B + 64"
  shows "dk_pDlBlocks l ! (S mod 128) = None" "card {j. j < 128 \<and> dk_pDlBlocks l ! j \<noteq> None} < card P"
proof -
  have st: "stored B S bs (dk_pDlBlocks l) (bp_block q)" "B \<le> S" "64 \<le> card P" using w by (simp_all add: window_def)
  then show "dk_pDlBlocks l ! (S mod 128) = None" using S by (simp add: stored_def)
  have "{j. j < 128 \<and> dk_pDlBlocks l ! j \<noteq> None} \<subseteq> (\<lambda>n. n mod 128) ` {B..<S}"
  proof
    fix j assume j: "j \<in> {j. j < 128 \<and> dk_pDlBlocks l ! j \<noteq> None}"
    then obtain n where n: "B \<le> n" "n < B + 128" "n mod 128 = j" using mod_hit [of j B] by auto
    have "\<not> S \<le> n"
    proof
      assume "S \<le> n"
      then have "dk_pDlBlocks l ! (n mod 128) = None" using st(1) n unfolding stored_def by auto
      then show False using j n(3) by simp
    qed
    then have "n < S" by simp
    then show "j \<in> (\<lambda>n. n mod 128) ` {B..<S}" using n by force
  qed
  from card_mono [OF _ this] have "card {j. j < 128 \<and> dk_pDlBlocks l ! j \<noteq> None} \<le> card ((\<lambda>n. n mod 128) ` {B..<S})" by simp
  also have "\<dots> \<le> S - B" using card_image_le [of "{B..<S}" "\<lambda>n. n mod 128"] by simp
  finally show "card {j. j < 128 \<and> dk_pDlBlocks l ! j \<noteq> None} < card P" using S st(2,3) by linarith
qed

lemma window_Suc:
  assumes w: "window A A S P bs l q" and S: "S < A + 64"
    and l': "dk_rlcMode l' = dk_rlcMode l" "dk_vA l' = dk_vA l" "dk_vS l' = (dk_vS l + 1) mod 128"
      "dk_vB l' = (dk_vB l)[dk_vS l := PENDING_ACK]" "dk_pDlBlocks l' = (dk_pDlBlocks l)[dk_vS l := Some p]"
      "dk_lastPendingAckXmit l' = dk_lastPendingAckXmit l"
      "dk_lastDataBlock l' = None \<or> dk_lastDataBlock l' = Some (dk_vS l)"
    and q': "stock P (dk_pDlBlocks l') q'" "\<forall>r. r \<noteq> p \<longrightarrow> bp_block q' r = bp_block q r" "\<forall>j < 128. dk_pDlBlocks l ! j \<noteq> Some p"
      "dl_bsn (db_dlHeader (bp_block q' p)) = of_nat (dk_vS l)"
  shows "window A A (Suc S) P (bs @ [bp_block q' p]) l' q'"
proof -
  have l: "dk_vS l = S mod 128" "length (dk_vB l) = 128" "length (dk_pDlBlocks l) = 128" "A \<le> S" "length bs = S"
    using w stock_length by (auto simp: window_def)
  have at: "xs[S mod 128 := v] ! (n mod 128) = (if n = S then v else xs ! (n mod 128))"
    if "A \<le> n" "n < A + 128" "length xs = 128" for n v and xs :: "'b list"
    using that mod_window [of A S n] S l(4) by (auto simp: nth_list_update)
  have "stored A (Suc S) (bs @ [bp_block q' p]) (dk_pDlBlocks l') (bp_block q')"
    unfolding stored_def
  proof (intro allI impI)
    fix n assume n: "A \<le> n \<and> n < A + 128"
    have old: "if n < S then \<exists>r. dk_pDlBlocks l ! (n mod 128) = Some r \<and> payload (bp_block q r) = payload (bs ! n)
        else dk_pDlBlocks l ! (n mod 128) = None"
      using w n by (auto simp: window_def stored_def)
    have "dk_pDlBlocks l' ! (n mod 128) = (if n = S then Some p else dk_pDlBlocks l ! (n mod 128))"
      using at [of n "dk_pDlBlocks l"] n l by (simp add: l'(5))
    moreover have "(bs @ [bp_block q' p]) ! n = (if n = S then bp_block q' p else bs ! n)" if "n < Suc S"
      using that l(5) by (auto simp: nth_append)
    moreover have "\<exists>r. dk_pDlBlocks l ! (n mod 128) = Some r \<and> payload (bp_block q' r) = payload (bs ! n)" if "n < S"
      using old that q'(2,3) by (metis mod_less_divisor zero_less_numeral)
    ultimately show "if n < Suc S then \<exists>r. dk_pDlBlocks l' ! (n mod 128) = Some r \<and> payload (bp_block q' r) = payload ((bs @ [bp_block q' p]) ! n)
        else dk_pDlBlocks l' ! (n mod 128) = None"
      using old by (auto simp: less_Suc_eq)
  qed
  moreover have "\<forall>n. A \<le> n \<and> n < A + 128 \<longrightarrow> (dk_vB l' ! (n mod 128) = VB_INVALID \<longleftrightarrow> Suc S \<le> n)"
    using w at [of _ "dk_vB l" PENDING_ACK] l by (auto simp: l'(4) window_def)
  moreover have "\<forall>n < Suc S. dl_bsn (db_dlHeader ((bs @ [bp_block q' p]) ! n)) = of_nat (n mod 128)"
    using w l q'(4) by (auto simp: window_def nth_append less_Suc_eq)
  ultimately show ?thesis
    using w S l l' q'(1) by (auto simp: window_def)
qed

lemma sending_reading:
  assumes "dk_lastDataBlock (ds_link s) = None" "reading pdus bs s" "\<not> lost s"
  obtains us rest where "pdus = us @ rest" "mobile_read bs [] = (map pdu_data us, part_sent rest s)" "sending rest s"
  using assms unfolding reading_def by (metis prod.collapse)

lemma build_window:
  assumes w: "window B A S P bs (ds_link s) (ds_pool s)" and r: "reading pdus bs s" and lo: "\<not> lost s" and g: "grants_ok s"
  shows "\<exists>r s' S' bs'. BuildDLRlcBlock s = Some (r, s') \<and> window B A S' P bs' (ds_link s') (ds_pool s') \<and>
     reading pdus bs' s' \<and> \<not> lost s' \<and> grants_ok s' \<and> S \<le> S' \<and> take S bs' = bs \<and>
     (case r of None \<Rightarrow> s' = s | Some p \<Rightarrow> S' = Suc S \<and> dk_pDlBlocks (ds_link s') ! (S mod 128) = Some p)"
proof (cases "dk_lastDataBlock (ds_link s) \<noteq> None \<or> \<not> window_open (ds_link s)")
  case True
  then have "BuildDLRlcBlock s = Some (None, s)" by (simp add: BuildDLRlcBlock_def Let_def)
  moreover have "take S bs = bs" using w by (simp add: window_def)
  ultimately show ?thesis
    using w r lo g by (intro exI [of _ None] exI [of _ s] exI [of _ S] exI [of _ bs]) simp
next
  case False
  let ?l = "ds_link s"
  have l: "B = A" "dk_vS ?l = S mod 128" "S \<le> A + 64" "length (dk_pDlBlocks ?l) = 128" "finite P" "stock P (dk_pDlBlocks ?l) (ds_pool s)"
    using w False stock_length by (auto simp: window_def)
  have "S \<noteq> A + 64" using False w by (auto simp: window_open_def window_def mod_add_left_eq)
  then have S: "S < A + 64" using l(3) by simp
  have wA: "window A A S P bs ?l (ds_pool s)" using w l(1) by simp
  have fs: "free_slot s = Some s" using w by (auto simp: free_slot_def window_def split: option.split)
  obtain us rest where rd: "pdus = us @ rest" "mobile_read bs [] = (map pdu_data us, part_sent rest s)" "sending rest s"
    using sending_reading [OF _ r lo] False by auto
  obtain p q where q: "GetDataBlock (ds_pool s) = Some (Some p, q)" "bp_block q = bp_block (ds_pool s)"
    "fresh_block (bp_block (ds_pool s) p)" "\<forall>j < 128. dk_pDlBlocks ?l ! j \<noteq> Some p" "stock P ((dk_pDlBlocks ?l)[S mod 128 := Some p]) q"
    using stock_take [OF l(6) _ window_free(1) [OF wA S] l(5) window_free(2) [OF wA S]] by auto
  have fr: "fresh_block (bp_block q p)" using q(2,3) by simp
  obtain s1 s' where run: "BuildDLRlcBlock s = Some (Some p, s')"
    and s': "s' = s1\<lparr>ds_link := (ds_link s1)\<lparr>dk_vB := (dk_vB ?l)[dk_vS ?l := PENDING_ACK], dk_vS := (dk_vS ?l + 1) mod RLC_MOD_VAL\<rparr>\<rparr>"
    and wp: "window_part (ds_link s1) = window_part (?l\<lparr>dk_pDlBlocks := (dk_pDlBlocks ?l)[dk_vS ?l := Some p]\<rparr>)"
    and ph: "\<forall>xs. pool_holds (ds_pool s1) xs = pool_holds q xs" and bl: "\<forall>r. r \<noteq> p \<longrightarrow> dl_block s1 r = bp_block q r"
    and bsn: "dl_bsn (db_dlHeader (dl_block s1 p)) = of_nat (dk_vS ?l)" and sh: "block_shape (dl_block s1 p)"
    and g1: "grants_ok s1" and lo1: "\<not> lost s1"
    and fill: "filled_to p rest [] (part_sent rest s) (dk_currPduByte ?l) 0 s1"
    using BuildDLRlcBlock_fills [OF rd(3) _ fs refl refl refl q(1) fr] False g lo by blast
  note wf = window_part_fields [OF wp]
  have st: "stock P (dk_pDlBlocks (ds_link s')) (ds_pool s1)"
    using stock_filled [OF q(5) ph bl sh, of "S mod 128"] l(2,4) wf(4) by (simp add: s')
  have last: "dk_lastDataBlock (ds_link s1) = None \<or> dk_lastDataBlock (ds_link s1) = Some (dk_vS ?l)"
    using fill wf(1) by (auto simp: filled_to_def Let_def)
  have win: "window A A (Suc S) P (bs @ [dl_block s1 p]) (ds_link s') (ds_pool s1)"
    by (rule window_Suc [OF wA S _ _ _ _ _ _ _ st _ q(4) bsn]) (use wf last bl q(2) l(2) in \<open>simp_all add: s'\<close>)
  have rds: "mobile_read (bs @ [dl_block s1 p]) [] =
      (case mobile_block (dl_block s1 p) (part_sent rest s) of (ps, c) \<Rightarrow> (map pdu_data us @ ps, c))"
    using rd(2) by (simp add: mobile_read_append)
  have fin: "finals (bs @ [dl_block s1 p]) (ds_link s')"
    using r False fill by (auto simp: reading_def finals_def nth_append less_Suc_eq filled_to_def Let_def s')
  have "reading pdus (bs @ [dl_block s1 p]) s'"
  proof (cases "dk_lastDataBlock (ds_link s1)")
    case (Some m)
    then have "mobile_read (bs @ [dl_block s1 p]) [] = (map pdu_data pdus, [])" "ds_bssgp s1 (tbf_tlli (ds_tbf s1)) = []"
      using fill rds rd(1) by (simp_all add: filled_to_def Let_def)
    then show ?thesis unfolding reading_def using Some fin by (intro conjI exI [of _ pdus] exI [of _ "[]"]) (simp_all add: s')
  next
    case None
    then obtain vs pdu where vs: "rest = vs @ pdu # ds_bssgp s1 (tbf_tlli (ds_tbf s1))" "dk_llcPdu (ds_link s1) = Some pdu"
      "dk_currPduByte (ds_link s1) < length (pdu_data pdu)"
      "mobile_block (dl_block s1 p) (part_sent rest s) = (map pdu_data vs, take (dk_currPduByte (ds_link s1)) (pdu_data pdu))"
      using fill by (auto simp: filled_to_def Let_def)
    have "sending (pdu # ds_bssgp s1 (tbf_tlli (ds_tbf s1))) s'" using vs None rd(3) by (simp add: sending_def s')
    then show ?thesis
      unfolding reading_def rds vs(4) using vs(1) rd(1) None fin
      by (intro conjI exI [of _ "us @ vs"] exI [of _ "pdu # ds_bssgp s1 (tbf_tlli (ds_tbf s1))"]) (simp_all add: s')
  qed
  moreover have "dk_pDlBlocks (ds_link s') ! (S mod 128) = Some p" using wf(4) l(2,4) by (simp add: s')
  moreover have "\<not> lost s'" "grants_ok s'" using lo1 g1 by (simp_all add: s')
  ultimately show ?thesis
    using run win l(1) w by (intro exI [of _ "Some p"] exI [of _ s'] exI [of _ "Suc S"] exI [of _ "bs @ [dl_block s1 p]"])
      (simp add: s' window_def)
qed

lemma pick_window:
  assumes w: "window B A S P bs (ds_link s) (ds_pool s)" and r: "reading pdus bs s" and lo: "\<not> lost s" and g: "grants_ok s"
  shows "\<exists>r s' S' bs'. pick_block s = Some (r, s') \<and> window B A S' P bs' (ds_link s') (ds_pool s') \<and>
     reading pdus bs' s' \<and> \<not> lost s' \<and> grants_ok s' \<and> S \<le> S' \<and> take S bs' = bs \<and>
     (case r of None \<Rightarrow> True | Some p \<Rightarrow> \<exists>n. B \<le> n \<and> n < S' \<and> dk_pDlBlocks (ds_link s') ! (n mod 128) = Some p)"
proof -
  have m: "dk_rlcMode (ds_link s) = ACKNOWLEDGED_RLC_MODE" and bs: "take S bs = bs" and BS: "B \<le> S" using w by (auto simp: window_def)
  have kept: "reading pdus bs s' \<and> \<not> lost s' \<and> grants_ok s'" if "keeps s s'" "ds_tbf s' = ds_tbf s" for s'
    using reading_keeps [OF r that(1)] that lo g by (simp add: keeps_def)
  obtain r1 s1 where n: "RetransmitNackedDLRlcBlock s = Some (r1, s1)" "window B A S P bs (ds_link s1) (ds_pool s1)" "keeps s s1"
    "ds_tbf s1 = ds_tbf s" "case r1 of None \<Rightarrow> s1 = s | Some p \<Rightarrow> \<exists>n. B \<le> n \<and> n < S \<and> dk_pDlBlocks (ds_link s1) ! (n mod 128) = Some p"
    using nacked_window [OF w] by blast
  show ?thesis
  proof (cases r1)
    case (Some p)
    then have "pick_block s = Some (Some p, s1)" using m n(1) by (simp add: pick_block_def Let_def)
    then show ?thesis
      using n(2,5) kept [OF n(3,4)] bs Some by (intro exI [of _ "Some p"] exI [of _ s1] exI [of _ S] exI [of _ bs]) simp
  next
    case None
    then have s1: "s1 = s" using n(5) by simp
    obtain r2 s2 S' bs' where b: "BuildDLRlcBlock s = Some (r2, s2)" "window B A S' P bs' (ds_link s2) (ds_pool s2)"
      "reading pdus bs' s2" "\<not> lost s2" "grants_ok s2" "S \<le> S'" "take S bs' = bs"
      "case r2 of None \<Rightarrow> s2 = s | Some p \<Rightarrow> S' = Suc S \<and> dk_pDlBlocks (ds_link s2) ! (S mod 128) = Some p"
      using build_window [OF w r lo g] by blast
    show ?thesis
    proof (cases r2)
      case (Some p)
      then have "pick_block s = Some (Some p, s2)" using m n(1) None s1 b(1) by (simp add: pick_block_def Let_def)
      then show ?thesis
        using b Some BS by (intro exI [of _ "Some p"] exI [of _ s2] exI [of _ S'] exI [of _ bs']) auto
    next
      case none: None
      then have s2: "s2 = s" using b(8) by simp
      obtain r3 s3 where p: "RetransmitPendingAckDLRlcBlock s = Some (r3, s3)" "window B A S P bs (ds_link s3) (ds_pool s3)" "keeps s s3"
        "ds_tbf s3 = ds_tbf s" "case r3 of None \<Rightarrow> True | Some p \<Rightarrow> \<exists>n. B \<le> n \<and> n < S \<and> dk_pDlBlocks (ds_link s3) ! (n mod 128) = Some p"
        using pending_window [OF w] by blast
      have "pick_block s = Some (r3, s3)" using m n(1) None s1 b(1) none s2 p(1) by (simp add: pick_block_def Let_def)
      then show ?thesis
        using p(2,5) kept [OF p(3,4)] bs by (intro exI [of _ r3] exI [of _ s3] exI [of _ S] exI [of _ bs]) simp
    qed
  qed
qed

section \<open>The poll\<close>

lemma SetControlAckTag_ok:
  assumes "grants_ok s"
  shows "\<exists>tag c t. DL_SetControlAckTag (c0, ds_tbf s) = Some (tag, c, t) \<and> tbf_tlli t = tbf_tlli (ds_tbf s) \<and>
     tbf_state t = tbf_state (ds_tbf s) \<and> length (dl_ctlAckTag t) = 40 \<and> dl_currNumAckTags t = dl_currNumAckTags (ds_tbf s)"
proof -
  let ?t = "ds_tbf s"
  have "(dl_currAckTag ?t + 1) mod dl_currNumAckTags ?t < dl_currNumAckTags ?t" using assms by (simp add: grants_ok_def)
  then have "(dl_currAckTag ?t + 1) mod dl_currNumAckTags ?t < 40" using assms by (simp add: grants_ok_def)
  then show ?thesis using assms by (simp add: DL_SetControlAckTag_def Let_def grants_ok_def)
qed

lemma radio_link_lost_window:
  "ds_link (radio_link_lost s) = ds_link s" "ds_pool (radio_link_lost s) = ds_pool s" "lost (radio_link_lost s)"
  "grants_ok s \<Longrightarrow> grants_ok (radio_link_lost s)"
  by (simp_all add: radio_link_lost_def InternalReleaseDLTbf_def DL_SetTbfState_def dl_emit_def Let_def grants_ok_def
      DL_ClearControlAckTag_def)

lemma count_poll_window:
  assumes "window B A S P bs (ds_link s) (ds_pool s)"
  shows "\<exists>f s'. count_poll s = (f, s') \<and> window B A S P bs (ds_link s') (ds_pool s') \<and> keeps s s' \<and>
     dk_pDlBlocks (ds_link s') = dk_pDlBlocks (ds_link s) \<and> (f \<longrightarrow> lost s') \<and> (\<not> f \<longrightarrow> ds_tbf s' = ds_tbf s)"
  using assms by (auto simp: count_poll_def Let_def keeps_def radio_link_lost_window source_def)

lemma SetPollingBit_window:
  assumes w: "window B A S P bs (ds_link s) (ds_pool s)" and g: "grants_ok s" and lo: "\<not> lost s"
  shows "\<exists>f tag burst s'. SetPollingBit p trx ts s = Some (f, tag, burst, s') \<and>
     window B A S P bs (ds_link s') (ds_pool s') \<and> keeps s s' \<and> dk_pDlBlocks (ds_link s') = dk_pDlBlocks (ds_link s)"
proof (cases "is_last_block p (ds_link s)")
  case last: True
  obtain f s1 where c: "count_poll s = (f, s1)" "window B A S P bs (ds_link s1) (ds_pool s1)" "keeps s s1"
    "dk_pDlBlocks (ds_link s1) = dk_pDlBlocks (ds_link s)" "f \<longrightarrow> lost s1" "\<not> f \<longrightarrow> ds_tbf s1 = ds_tbf s"
    using count_poll_window [OF w] by blast
  show ?thesis
  proof (cases "PollingTsCheck trx ts (ds_tbf s)")
    case True
    show ?thesis
    proof (cases f)
      case True
      then show ?thesis using \<open>PollingTsCheck trx ts (ds_tbf s)\<close> last c by (auto simp: SetPollingBit_def poll_final_def Let_def)
    next
      case False
      obtain tag n t where t: "DL_SetControlAckTag (ds_sysCtlAckCount s1, ds_tbf s1) = Some (tag, n, t)"
        "tbf_tlli t = tbf_tlli (ds_tbf s1)" "length (dl_ctlAckTag t) = 40" "dl_currNumAckTags t = dl_currNumAckTags (ds_tbf s1)"
        using SetControlAckTag_ok [of s1 "ds_sysCtlAckCount s1"] c(3) g by (auto simp: keeps_def)
      have "keeps s1 (s1\<lparr>ds_sysCtlAckCount := n, ds_tbf := t\<lparr>tbf_state := INACTIVE\<rparr>,
              ds_link := (ds_link s1)\<lparr>dk_numBlocksSincePoll := RlcMacNumBlocksBetweenPolls, dk_lastBlockSentOnPollTs := True\<rparr>\<rparr>)"
        using t(2-4) lo c(6) False by (simp add: keeps_def source_def grants_ok_def)
      then show ?thesis
        using last c False t(1) \<open>PollingTsCheck trx ts (ds_tbf s)\<close> keeps_trans [OF c(3)]
        by (intro exI [of _ False]) (simp add: SetPollingBit_def poll_final_def Let_def)
    qed
  next
    case False
    then show ?thesis using last w by (intro exI [of _ True]) (simp add: SetPollingBit_def Let_def)
  qed
next
  case False
  let ?l = "ds_link s" let ?n = "if dk_numBlocksSincePoll ?l = 0 then 0 else dk_numBlocksSincePoll ?l - 1"
  let ?s = "on_block p (on_header (\<lambda>h. h\<lparr>dl_spBit := RRBP_NOT_VALID\<rparr>)) (s\<lparr>ds_link := ?l\<lparr>dk_numBlocksSincePoll := ?n\<rparr>\<rparr>)"
  let ?t = "on_block p (on_header (\<lambda>h. h\<lparr>dl_spBit := RRBP_VALID\<rparr>))
      (?s\<lparr>ds_link := (ds_link ?s)\<lparr>dk_numBlocksSincePoll := RlcMacNumBlocksBetweenPolls\<rparr>\<rparr>)"
  have "window B A S P bs (ds_link (s\<lparr>ds_link := ?l\<lparr>dk_numBlocksSincePoll := ?n\<rparr>\<rparr>)) (ds_pool (s\<lparr>ds_link := ?l\<lparr>dk_numBlocksSincePoll := ?n\<rparr>\<rparr>))"
    using w by simp
  note ws = window_poll [OF this, of p RRBP_NOT_VALID]
  then have "window B A S P bs (ds_link (?s\<lparr>ds_link := (ds_link ?s)\<lparr>dk_numBlocksSincePoll := RlcMacNumBlocksBetweenPolls\<rparr>\<rparr>))
      (ds_pool (?s\<lparr>ds_link := (ds_link ?s)\<lparr>dk_numBlocksSincePoll := RlcMacNumBlocksBetweenPolls\<rparr>\<rparr>))" by simp
  note wt = window_poll [OF this, of p RRBP_VALID]
  have k: "keeps s ?s" "keeps s ?t" by (simp_all add: keeps_def source_def)
  obtain f s1 where c: "count_poll ?t = (f, s1)" "window B A S P bs (ds_link s1) (ds_pool s1)" "keeps ?t s1"
    "dk_pDlBlocks (ds_link s1) = dk_pDlBlocks (ds_link ?t)"
    using count_poll_window [OF wt] by blast
  show ?thesis
  proof (cases "?n \<le> 0 \<and> PollingTsCheck trx ts (ds_tbf ?s)")
    case True
    then have "SetPollingBit p trx ts s = Some (f, CTL_ACK_TAG_NOT_APPLICABLE, RLC_MAC_NORMAL_BURST, s1)"
      using False c(1) by (simp add: SetPollingBit_def Let_def)
    then show ?thesis using c(2,4) keeps_trans [OF k(2) c(3)] by simp
  next
    case no: False
    then have "SetPollingBit p trx ts s = Some (False, CTL_ACK_TAG_NOT_APPLICABLE, RLC_MAC_NORMAL_BURST, ?s)"
      by (simp only: SetPollingBit_def Let_def if_not_P [OF False] if_not_P [OF no] if_False)
    then show ?thesis using ws k(1) by (intro exI [of _ False]) simp
  qed
qed

lemma GetDLRlcBlock_window:
  assumes w: "window B A S P bs (ds_link s) (ds_pool s)" and r: "reading pdus bs s" and lo: "\<not> lost s" and g: "grants_ok s"
  shows "\<exists>r out' s' S' bs'. GetDLRlcBlock out trx ts s = Some (r, out', s') \<and>
     window B A S' P bs' (ds_link s') (ds_pool s') \<and> reading pdus bs' s' \<and> grants_ok s' \<and> S \<le> S' \<and> take S bs' = bs \<and>
     (case r of None \<Rightarrow> True | Some p \<Rightarrow> \<exists>n. B \<le> n \<and> n < S' \<and> dk_pDlBlocks (ds_link s') ! (n mod 128) = Some p)"
proof -
  obtain r s1 S' bs' where k: "pick_block s = Some (r, s1)" "window B A S' P bs' (ds_link s1) (ds_pool s1)"
    "reading pdus bs' s1" "\<not> lost s1" "grants_ok s1" "S \<le> S'" "take S bs' = bs"
    "case r of None \<Rightarrow> True | Some p \<Rightarrow> \<exists>n. B \<le> n \<and> n < S' \<and> dk_pDlBlocks (ds_link s1) ! (n mod 128) = Some p"
    using pick_window [OF w r lo g] by blast
  have act: "reading pdus bs' (t\<lparr>ds_activity := True\<rparr>) \<longleftrightarrow> reading pdus bs' t" for t by (simp add: reading_def sending_def)
  show ?thesis
  proof (cases r)
    case None
    then have "GetDLRlcBlock out trx ts s = Some (None, out, s1\<lparr>ds_activity := True\<rparr>)" using k(1) by (simp add: GetDLRlcBlock_def)
    then show ?thesis using k(2,3,5-7) act
      by (intro exI [of _ None] exI [of _ out] exI [of _ "s1\<lparr>ds_activity := True\<rparr>"] exI [of _ S'] exI [of _ bs']) simp
  next
    case (Some p)
    obtain f tag burst s2 where b: "SetPollingBit p trx ts s1 = Some (f, tag, burst, s2)"
     "window B A S' P bs' (ds_link s2) (ds_pool s2)" "keeps s1 s2" "dk_pDlBlocks (ds_link s2) = dk_pDlBlocks (ds_link s1)"
      using SetPollingBit_window [OF k(2,5,4)] by blast
    have "GetDLRlcBlock out trx ts s = Some (if f then None else Some p, (tag, burst), s2\<lparr>ds_activity := True\<rparr>)"
      using k(1) Some b(1) by (simp add: GetDLRlcBlock_def)
    moreover have "reading pdus bs' s2" "grants_ok s2" using reading_keeps [OF k(3) b(3)] b(3) k(5) by (simp_all add: keeps_def)
    ultimately show ?thesis
      using b(2,4) k(6-8) act Some
      by (intro exI [of _ "if f then None else Some p"] exI [of _ "(tag, burst)"] exI [of _ "s2\<lparr>ds_activity := True\<rparr>"]
          exI [of _ S'] exI [of _ bs']) simp
  qed
qed

section \<open>Answers of the mobile\<close>

definition rx_ok :: "receiver \<Rightarrow> bool" where
  "rx_ok x \<longleftrightarrow> rx_Q x \<le> rx_R x \<and> {..<rx_Q x} \<subseteq> rx_S x \<and> rx_S x \<subseteq> {..<rx_R x} \<and> (rx_Q x < rx_R x \<longrightarrow> rx_Q x \<notin> rx_S x)"

lemma rx_ok_new: "rx_ok receiver_new"
  by (simp add: rx_ok_def receiver_new_def)

lemma rx_ok_receive: "rx_ok x \<Longrightarrow> rx_ok (receive n x)"
proof -
  assume x: "rx_ok x"
  let ?R = "max (rx_R x) (Suc n)" and ?S = "insert n (rx_S x)"
  let ?F = "first_missing (rx_Q x) ?R ?S"
  have "rx_Q x \<le> ?R" using x by (auto simp: rx_ok_def)
  note f = first_missing_spec [OF this, of ?S]
  have "m \<in> ?S" if "m < ?F" for m
    using f x that by (cases "m < rx_Q x") (auto simp: rx_ok_def)
  then show ?thesis using f x by (auto simp: rx_ok_def receive_def Let_def)
qed

lemma rx_ok_first: "rx_ok x \<Longrightarrow> A \<le> rx_Q x \<Longrightarrow> A < rx_R x \<Longrightarrow>
     (case find (\<lambda>n. n \<notin> rx_S x) [A..<rx_R x] of None \<Rightarrow> rx_R x | Some n \<Rightarrow> n) = rx_Q x"
proof -
  assume x: "rx_ok x" "A \<le> rx_Q x" "A < rx_R x"
  have "find (\<lambda>n. n \<notin> rx_S x) [A..<rx_Q x] = None" using x by (auto simp: rx_ok_def find_None_iff)
  moreover have "[A..<rx_R x] = [A..<rx_Q x] @ [rx_Q x..<rx_R x]"
    using upt_add_eq_append [of A "rx_Q x" "rx_R x - rx_Q x"] x by (simp add: rx_ok_def)
  ultimately have "find (\<lambda>n. n \<notin> rx_S x) [A..<rx_R x] = find (\<lambda>n. n \<notin> rx_S x) [rx_Q x..<rx_R x]"
    by (simp only: find_append option.case)
  then show ?thesis using x(1) by (cases "rx_Q x < rx_R x") (auto simp: upt_conv_Cons rx_ok_def)
qed

text \<open>The window moves on: everything before \<open>T\<close> has left the table.\<close>

lemma window_slide:
  assumes w: "window A A S P bs l q" and T: "A \<le> T" "T \<le> S"
    and l': "dk_rlcMode l' = dk_rlcMode l" "dk_vA l' = T mod 128" "dk_vS l' = dk_vS l" "length (dk_vB l') = 128"
      "dk_lastPendingAckXmit l' = dk_lastPendingAckXmit l" "dk_lastDataBlock l' = dk_lastDataBlock l"
    and new: "\<forall>n. A \<le> n \<and> n < A + 128 \<longrightarrow> (dk_vB l' ! (n mod 128) = VB_INVALID \<longleftrightarrow> n < T \<or> S \<le> n) \<and>
        dk_pDlBlocks l' ! (n mod 128) = (if n < T then None else dk_pDlBlocks l ! (n mod 128))"
    and q': "stock P (dk_pDlBlocks l') q'"
      "\<forall>n r. T \<le> n \<and> n < A + 128 \<longrightarrow> dk_pDlBlocks l ! (n mod 128) = Some r \<longrightarrow> bp_block q' r = bp_block q r"
  shows "window T T S P bs l' q'"
proof -
  have SA: "S \<le> A + 64" using w by (simp add: window_def)
  have st: "if n < S then \<exists>p. dk_pDlBlocks l ! (n mod 128) = Some p \<and> payload (bp_block q p) = payload (bs ! n)
      else dk_pDlBlocks l ! (n mod 128) = None" if "A \<le> n" "n < A + 128" for n
    using w that by (auto simp: window_def stored_def)
  have new': "(dk_vB l' ! (n mod 128) = VB_INVALID \<longleftrightarrow> S \<le> n) \<and>
      (if n < S then \<exists>p. dk_pDlBlocks l' ! (n mod 128) = Some p \<and> payload (bp_block q' p) = payload (bs ! n)
       else dk_pDlBlocks l' ! (n mod 128) = None)" if n: "T \<le> n" "n < T + 128" for n
  proof (cases "n < A + 128")
    case True
    then have "dk_pDlBlocks l' ! (n mod 128) = dk_pDlBlocks l ! (n mod 128)" "dk_vB l' ! (n mod 128) = VB_INVALID \<longleftrightarrow> S \<le> n"
      using new n T(1) by auto
    moreover have "bp_block q' r = bp_block q r" if "dk_pDlBlocks l ! (n mod 128) = Some r" for r
      using q'(2) n(1) True that by blast
    ultimately show ?thesis using st [of n] True n(1) T(1) by auto
  next
    case False
    then have m: "n mod 128 = (n - 128) mod 128" "A \<le> n - 128" "n - 128 < T" using n by (auto simp: le_mod_geq)
    then have "dk_vB l' ! (n mod 128) = VB_INVALID" "dk_pDlBlocks l' ! (n mod 128) = None"
      using new T(2) SA by auto
    then show ?thesis using False SA by simp
  qed
  then have "stored T S bs (dk_pDlBlocks l') (bp_block q')" by (simp add: stored_def)
  then show ?thesis using w T l' new' q'(1) by (auto simp: window_def)
qed

lemma partial_ack_window:
  assumes w: "window B A S P bs (ds_link s) (ds_pool s)" and lo: "\<not> lost s"
    and x: "rx_ok x" "A \<le> rx_Q x" "rx_R x \<le> S" "reports x rrb" and ssn: "ssn = of_nat (rx_R x mod 128)" "unat ssn \<noteq> dk_vA (ds_link s)"
  shows "\<exists>s'. partial_ack ssn rrb s = Some s' \<and> keeps s s' \<and> window (rx_Q x) (rx_Q x) S P bs (ds_link s') (ds_pool s')"
proof -
  let ?l = "ds_link s" let ?R = "rx_R x" let ?Q = "rx_Q x"
  have "(rx_R x mod 128) < 256" using mod_less_divisor [of 128 "rx_R x"] by linarith
  then have u: "unat ssn = ?R mod 128" by (simp add: ssn(1) unat_of_nat)
  have QR: "?Q \<le> ?R" using x(1) by (simp add: rx_ok_def)
  have "A \<noteq> ?R" using ssn(2) u w by (auto simp: window_def)
  then have R: "A < ?R" "?R - 1 < ?R" "A \<le> ?R - 1" "Suc (?R - 1) = ?R" using x(2) QR by auto
  then have BA: "B = A" using w x(3) by (auto simp: window_def)
  have wA: "window A A S P bs ?l (ds_pool s)" using w BA by simp
  have l: "dk_vA ?l = A mod 128" "?R \<le> A + 64" "length (dk_vB ?l) = 128" "S \<le> A + 64" "stock P (dk_pDlBlocks ?l) (ds_pool s)"
    using wA x(3) by (auto simp: window_def)
  have start: "(if ssn = 0 then RLC_MOD_VAL - 1 else unat ssn - 1) = (?R - 1) mod 128"
    using R(1) u by (cases ?R) (auto simp: mod_Suc unat_eq_0 [symmetric])
  obtain vB' where vB': "bitmap_loop rrb (dk_vA ?l) 7 1 ((?R - 1) mod 128) (unat ssn) (dk_vB ?l) = Some (?Q mod 128, vB')" "length vB' = 128"
    "\<forall>n. A \<le> n \<and> n < A + 128 \<longrightarrow> vB' ! (n mod 128) = (if n \<le> ?R - 1 then if n \<in> rx_S x then ACKED else NACKED else dk_vB ?l ! (n mod 128))"
    using bitmap_loop_reads [OF x(4) R(3,2) l(2) refl l(3), of ?R] rx_ok_first [OF x(1,2) R(1)] R(4) u l(1) by (auto simp: push_bit_of_1)
  have "dk_pDlBlocks ?l ! (n mod 128) \<noteq> None" if "A \<le> n" "n < ?Q" for n
    using window_block [OF wA, of n] that QR x(3) by auto
  then obtain vB2 blks q where sl: "slide_loop (A mod 128) (?Q mod 128) (?l\<lparr>dk_vB := vB'\<rparr>, ds_pool s) =
      Some (?l\<lparr>dk_vB := vB2, dk_pDlBlocks := blks\<rparr>, q)" "stock P blks q" "length vB2 = 128"
    "\<forall>n. A \<le> n \<and> n < A + 128 \<longrightarrow> vB2 ! (n mod 128) = (if n < ?Q then VB_INVALID else vB' ! (n mod 128)) \<and>
        blks ! (n mod 128) = (if n < ?Q then None else dk_pDlBlocks ?l ! (n mod 128))"
    "\<forall>n r. ?Q \<le> n \<and> n < A + 128 \<longrightarrow> dk_pDlBlocks ?l ! (n mod 128) = Some r \<longrightarrow> bp_block q r = bp_block (ds_pool s) r"
    using slide_loop_returns [of P "?l\<lparr>dk_vB := vB'\<rparr>" "ds_pool s" A ?Q] l x(2,3) QR vB'(2) by auto
  define l2 where "l2 = ?l\<lparr>dk_vB := vB2, dk_pDlBlocks := blks, dk_vA := ?Q mod 128\<rparr>"
  have "vB2 ! (n mod 128) = VB_INVALID \<longleftrightarrow> n < ?Q \<or> S \<le> n" if n: "A \<le> n" "n < A + 128" for n
  proof -
    have "dk_vB ?l ! (n mod 128) = VB_INVALID \<longleftrightarrow> S \<le> n" using wA n by (auto simp: window_def)
    then show ?thesis using sl(4) vB'(3) n R(4) x(3) by auto
  qed
  then have win: "window ?Q ?Q S P bs l2 q"
    using window_slide [OF wA x(2), of l2 q] QR x(3) sl(2-5) by (simp add: l2_def)
  have run: "partial_ack ssn rrb s =
     (let s = s\<lparr>ds_link := l2, ds_pool := q\<rparr>
      in Some (if dk_lastDataBlock l2 \<noteq> None \<and> tbf_state (ds_tbf s) \<noteq> ALLOCATED
           then trigger_RTS (DL_SetTbfState ALLOCATED (s\<lparr>ds_link := (ds_link s)\<lparr>dk_lastBlockSentOnPollTs := False\<rparr>\<rparr>)) else s))"
    using vB'(1) sl(1) l(1) unfolding partial_ack_def start by (simp add: l2_def Let_def)
  show ?thesis
    unfolding run Let_def using win lo
    by (auto simp: keeps_def source_def trigger_RTS_def dl_emit_def DL_SetTbfState_def l2_def grants_ok_def)
qed

lemma complete_ack_window:
  assumes w: "window B A S P bs (ds_link s) (ds_pool s)" and lo: "\<not> lost s" and last: "dk_lastDataBlock (ds_link s) \<noteq> None"
  shows "\<exists>s'. complete_ack s = Some s' \<and> keeps s s' \<and> window B S S P bs (ds_link s') (ds_pool s')"
proof -
  let ?l = "ds_link s"
  have l: "S mod 128 = dk_vS ?l" "A \<le> S" "S < A + 128" "length (dk_vB ?l) = 128" "dk_vA ?l = A mod 128" "B \<le> A" "S \<le> B + 64"
    using w by (auto simp: window_def)
  obtain vB' where vB': "ack_all (dk_vA ?l) (dk_vS ?l) (dk_vB ?l) = Some vB'" "length vB' = 128"
    "\<forall>k < 128. vB' ! k = (if \<exists>n. A \<le> n \<and> n < S \<and> k = n mod 128 then ACKED else dk_vB ?l ! k)"
    using ack_all_runs [OF l(1-4)] l(5) by auto
  let ?m = "?l\<lparr>dk_vB := vB', dk_vA := dk_vS ?l, dk_isT3193Running := True\<rparr>"
  have "vB' ! (n mod 128) = VB_INVALID \<longleftrightarrow> S \<le> n" if n: "B \<le> n" "n < B + 128" for n
  proof (cases "\<exists>m. A \<le> m \<and> m < S \<and> n mod 128 = m mod 128")
    case True
    then obtain m where m: "A \<le> m" "m < S" "n mod 128 = m mod 128" by blast
    then have "n = m" using mod_window [of B n m] n l(6,7) by simp
    then show ?thesis using vB'(3) True m(2) by simp
  next
    case False
    then have "vB' ! (n mod 128) = dk_vB ?l ! (n mod 128)" using vB'(3) by auto
    then show ?thesis using w n by (simp add: window_def)
  qed
  then have "window B S S P bs ?m (ds_pool s)" using w vB'(2) last by (simp add: window_def)
  moreover have "complete_ack s = (let s = s\<lparr>ds_link := ?m, ds_T3193 := True\<rparr>
      in Some (if MoreLLCPdusAvailable s then dl_emit [DL_AllocateDLResources] s else s))"
    using vB'(1) by (simp add: complete_ack_def Let_def)
  ultimately show ?thesis using lo by (simp add: keeps_def source_def dl_emit_def Let_def)
qed

text \<open>The report of a mobile, or that it has everything.\<close>

definition report :: "receiver \<Rightarrow> octet list \<Rightarrow> FINAL_ACK_INDICATION \<Rightarrow> IeAckNackDescription" where
  "report x rrb f = \<lparr>an_isValid = True, an_finalAckIndication = f, an_startingSeqNum = of_nat (rx_R x mod 128), an_recBlockBitmap = rrb\<rparr>"

lemma report_fields:
  "an_finalAckIndication (report x rrb f) = f" "an_startingSeqNum (report x rrb f) = of_nat (rx_R x mod 128)"
  "an_recBlockBitmap (report x rrb f) = rrb"
  by (simp_all add: report_def)

lemma ReceiveDLAckNack_window:
  assumes w: "window B A S P bs (ds_link s) (ds_pool s)"
    and x: "rx_ok x" "A \<le> rx_Q x" "rx_R x \<le> S"
    and an: "if f = TBF_COMPLETE then rx_Q x = S \<and> dk_lastDataBlock (ds_link s) \<noteq> None
        else reports x rrb \<and> rx_R x mod 128 \<noteq> dk_vA (ds_link s)"
  shows "\<exists>s' A' B'. ReceiveDLAckNack chanReq (report x rrb f) s = Some s' \<and> keeps s s' \<and> A' \<le> rx_Q x \<and>
     window B' A' S P bs (ds_link s') (ds_pool s')"
proof (cases "lost s")
  case True
  then show ?thesis using w x(2) by (intro exI [of _ s] exI [of _ A] exI [of _ B]) (simp add: ReceiveDLAckNack_def)
next
  case False
  define t where "t = dl_emit ((if chanReq then [DL_AllocateULResources] else []) @ [DL_AckNackInfo (report x rrb f)])
      (s\<lparr>ds_T3191 := False, ds_link := (ds_link s)\<lparr>dk_n3105 := 0\<rparr>\<rparr>)"
  have t: "window B A S P bs (ds_link t) (ds_pool t)" "keeps s t" "\<not> lost t" "dk_rlcMode (ds_link t) = ACKNOWLEDGED_RLC_MODE"
    "dk_vA (ds_link t) = dk_vA (ds_link s)" "dk_lastDataBlock (ds_link t) = dk_lastDataBlock (ds_link s)"
    using w False by (simp_all add: t_def dl_emit_def keeps_def source_def grants_ok_def) (simp add: window_def)
  have run: "ReceiveDLAckNack chanReq (report x rrb f) s =
      (if f = TBF_COMPLETE then complete_ack t else partial_ack (of_nat (rx_R x mod 128)) rrb t)"
    by (simp only: ReceiveDLAckNack_def if_not_P [OF False] Let_def t_def [symmetric]) (simp add: t(4) report_fields)
  have "rx_R x mod 128 < 256" using mod_less_divisor [of 128 "rx_R x"] by linarith
  then have u: "unat (of_nat (rx_R x mod 128) :: octet) = rx_R x mod 128" by (simp add: unat_of_nat)
  show ?thesis
  proof (cases "f = TBF_COMPLETE")
    case True
    then have "dk_lastDataBlock (ds_link t) \<noteq> None" "S \<le> rx_Q x" using an t(6) by auto
    then show ?thesis
      using complete_ack_window [OF t(1,3)] True keeps_trans [OF t(2)] unfolding run by auto
  next
    case no: False
    then have "reports x rrb" "unat (of_nat (rx_R x mod 128) :: octet) \<noteq> dk_vA (ds_link t)" using an t(5) u by auto
    from partial_ack_window [OF t(1,3) x this(1) refl this(2)] show ?thesis
      using no keeps_trans [OF t(2)] unfolding run by auto
  qed
qed

lemma ControlAck_window:
  assumes "window B A S P bs (ds_link s) (ds_pool s)"
  shows "window B A S P bs (ds_link (DL_ReceivePacketControlAck ta s)) (ds_pool (DL_ReceivePacketControlAck ta s)) \<and>
     keeps s (DL_ReceivePacketControlAck ta s)"
proof -
  have "dk_rlcMode (ds_link s) = ACKNOWLEDGED_RLC_MODE" using assms by (simp add: window_def)
  then show ?thesis
    using assms by (simp add: DL_ReceivePacketControlAck_def trigger_RTS_def dl_emit_def DL_SetTbfState_def keeps_def source_def grants_ok_def)
qed

lemma sched_request_keeps:
  assumes g: "grants_ok s" and r: "sched_request s = (ok, t)"
  shows "keeps s t" "ds_pool t = ds_pool s" "ds_link t = ds_link s"
    "ok \<Longrightarrow> keeps s (DLTbf_UpdateTSSpecificData t) \<and> ds_pool (DLTbf_UpdateTSSpecificData t) = ds_pool s \<and>
       (\<exists>n. ds_link (DLTbf_UpdateTSSpecificData t) = (ds_link s)\<lparr>dk_N3105_MAX := n\<rparr>)"
proof -
  have t: "ds_pool t = ds_pool s" "ds_link t = ds_link s" "ds_bssgp t = ds_bssgp s" "tbf_tlli (ds_tbf t) = tbf_tlli (ds_tbf s)"
    "tbf_state (ds_tbf t) = tbf_state (ds_tbf s)" "dl_ctlAckTag (ds_tbf t) = dl_ctlAckTag (ds_tbf s)"
    "dl_currNumAckTags (ds_tbf t) = dl_currNumAckTags (ds_tbf s)" "set (ds_sched t) \<subseteq> set (ds_sched s)"
    "ok \<Longrightarrow> Some (tbf_allocatedTs (ds_tbf t)) \<in> set (ds_sched s)"
    using r by (auto simp: sched_request_def split: list.splits option.splits)
  then show "keeps s t" "ds_pool t = ds_pool s" "ds_link t = ds_link s"
    by (auto simp: keeps_def source_def grants_ok_def)
  assume ok
  have "length (filter id (take 8 (tbf_allocatedTs (ds_tbf t)))) \<le> 8"
    using length_filter_le [of id "take 8 (tbf_allocatedTs (ds_tbf t))"] by simp
  then have "grants_ok (DLTbf_UpdateTSSpecificData t)"
    using g t(6,8,9) \<open>ok\<close>
    by (auto simp: grants_ok_def DLTbf_UpdateTSSpecificData_def DL_UpdateTSSpecificData_def DL_UpdateLinkTSData_def)
  then show "keeps s (DLTbf_UpdateTSSpecificData t) \<and> ds_pool (DLTbf_UpdateTSSpecificData t) = ds_pool s \<and>
       (\<exists>n. ds_link (DLTbf_UpdateTSSpecificData t) = (ds_link s)\<lparr>dk_N3105_MAX := n\<rparr>)"
    using t(1-5) by (auto simp: keeps_def source_def DLTbf_UpdateTSSpecificData_def DL_UpdateTSSpecificData_def DL_UpdateLinkTSData_def)
qed

lemma dl_emit_keeps [simp]: "keeps s (dl_emit es t) = keeps s t" "ds_link (dl_emit es t) = ds_link t" "ds_pool (dl_emit es t) = ds_pool t"
  by (simp_all add: keeps_def source_def dl_emit_def grants_ok_def)

lemma reassign_keeps:
  assumes g: "grants_ok s"
  shows "ds_pool (reassign s) = ds_pool s \<and> keeps s (reassign s) \<and> (\<exists>n. ds_link (reassign s) = (ds_link s)\<lparr>dk_N3105_MAX := n\<rparr>)"
proof -
  have same: "\<exists>n. ds_link s = (ds_link s)\<lparr>dk_N3105_MAX := n\<rparr>" by (rule exI [of _ "dk_N3105_MAX (ds_link s)"]) simp
  let ?r = "dl_release_resources s"
  have r: "keeps s ?r" "ds_pool ?r = ds_pool s" "ds_link ?r = ds_link s" "grants_ok ?r"
    using g by (simp_all add: dl_release_resources_def keeps_def source_def grants_ok_def dl_emit_def)
  obtain ok t where t: "sched_request ?r = (ok, t)" by (cases "sched_request ?r")
  note k = sched_request_keeps [OF r(4) t]
  show ?thesis
  proof (cases "ds_ulTbf s \<or> length (filter id (take MAX_TIMESLOTS (tbf_allocatedTs (ds_tbf s)))) \<le> 1")
    case True
    then show ?thesis using same by (auto simp: reassign_def)
  next
    case False
    then have "reassign s = dl_emit [DL_ImmediateAssignment]
        (if ok then dl_emit [DL_ReconfigurationMsg] (DLTbf_UpdateTSSpecificData t) else t\<lparr>ds_T3195 := True\<rparr>)"
      using t by (cases ok) (auto simp: reassign_def)
    note run = this
    show ?thesis
    proof (cases ok)
      case True
      obtain n where n: "ds_link (DLTbf_UpdateTSSpecificData t) = (ds_link s)\<lparr>dk_N3105_MAX := n\<rparr>" using k(4) [OF True] r(3) by auto
      have "keeps s (DLTbf_UpdateTSSpecificData t)" "ds_pool (DLTbf_UpdateTSSpecificData t) = ds_pool s"
        using k(4) [OF True] keeps_trans [OF r(1)] r(2) by simp_all
      then show ?thesis unfolding run using True n by (intro conjI exI [of _ n]) simp_all
    next
      case False
      have "keeps ?r (t\<lparr>ds_T3195 := True\<rparr>)" using k(1) by (simp add: keeps_def source_def)
      then have "keeps s (t\<lparr>ds_T3195 := True\<rparr>)" by (rule keeps_trans [OF r(1)])
      then show ?thesis unfolding run using False k(2,3) r(2,3) same by (intro conjI) simp_all
    qed
  qed
qed

lemma ControlNack_window:
  assumes w: "window B A S P bs (ds_link s) (ds_pool s)" and lo: "\<not> lost s" and g: "grants_ok s"
  shows "\<exists>s'. DL_ReceivePacketControlNack s = Some s' \<and> window B A S P bs (ds_link s') (ds_pool s') \<and> keeps s s'"
proof -
  have m: "dk_rlcMode (ds_link s) = ACKNOWLEDGED_RLC_MODE" using w by (simp add: window_def)
  consider (act) "tbf_state (ds_tbf s) = ACTIVATING" | (re) "tbf_state (ds_tbf s) = REALLOCATING"
    | (other) "tbf_state (ds_tbf s) \<noteq> ACTIVATING" "tbf_state (ds_tbf s) \<noteq> REALLOCATING" by blast
  then show ?thesis
  proof cases
    case act
    show ?thesis
    proof (cases "dk_pollOnActivation (ds_link s)")
      case False
      let ?s = "s\<lparr>ds_link := (ds_link s)\<lparr>dk_pollOnActivation := True\<rparr>\<rparr>"
      obtain tag c t where t: "DL_SetControlAckTag (ds_sysCtlAckCount ?s, ds_tbf ?s) = Some (tag, c, t)" "tbf_tlli t = tbf_tlli (ds_tbf ?s)"
        "tbf_state t = tbf_state (ds_tbf ?s)" "length (dl_ctlAckTag t) = 40" "dl_currNumAckTags t = dl_currNumAckTags (ds_tbf ?s)"
        using SetControlAckTag_ok [of ?s "ds_sysCtlAckCount ?s"] g by auto
      then show ?thesis
        using act False w lo by (simp add: DL_ReceivePacketControlNack_def SendPacketPollingRequest_def dl_emit_def keeps_def source_def grants_ok_def)
    next
      case True
      let ?s = "s\<lparr>ds_link := (ds_link s)\<lparr>dk_dlAssignCnt := dk_dlAssignCnt (ds_link s) + 1\<rparr>\<rparr>"
      let ?t = "?s\<lparr>ds_link := (ds_link ?s)\<lparr>dk_pollOnActivation := False\<rparr>\<rparr>"
      have k: "keeps s ?t" by (simp add: keeps_def source_def)
      obtain n where n: "ds_pool (reassign ?t) = ds_pool s" "keeps ?t (reassign ?t)" "ds_link (reassign ?t) = (ds_link ?t)\<lparr>dk_N3105_MAX := n\<rparr>"
        using reassign_keeps [of ?t] g by auto
      have win: "window B A S P bs (ds_link (reassign ?t)) (ds_pool (reassign ?t))" unfolding n(1,3) using w by simp
      show ?thesis
      proof (cases "dk_dlAssignCnt (ds_link s) + 1 < dlAssignCntMax")
        case lt: True
        then have "DL_ReceivePacketControlNack s = Some (reassign ?t)"
          using act True by (simp add: DL_ReceivePacketControlNack_def Let_def)
        then show ?thesis using win keeps_trans [OF k n(2)] by blast
      next
        case False
        then have "DL_ReceivePacketControlNack s = Some (?s\<lparr>ds_T3195 := True\<rparr>)"
          using act True by (simp add: DL_ReceivePacketControlNack_def Let_def)
        then show ?thesis using w by (simp add: keeps_def source_def)
      qed
    qed
  next
    case re
    then show ?thesis
      using w by (simp add: DL_ReceivePacketControlNack_def InternalReleaseDLTbf_def DL_SetTbfState_def dl_emit_def Let_def keeps_def
          grants_ok_def DL_ClearControlAckTag_def)
  next
    case other
    then show ?thesis
      using w m lo by (simp add: DL_ReceivePacketControlNack_def trigger_RTS_def DL_SetTbfState_def dl_emit_def keeps_def source_def grants_ok_def)
  qed
qed

section \<open>The mobile and the channel\<close>

record Mobile =
  m_rx :: receiver
  m_got :: "nat \<Rightarrow> DLDataBlock option"

definition mobile_new :: Mobile where
  "mobile_new = \<lparr>m_rx = receiver_new, m_got = (\<lambda>_. None)\<rparr>"

text \<open>
  The mobile takes a block for the one number of its window that the BSN stands for, and ignores it when
  there is none or when it has the block already.
\<close>

definition mobile_receive :: "DLDataBlock \<Rightarrow> Mobile \<Rightarrow> Mobile" where
  "mobile_receive b m =
     (case find (\<lambda>n. of_nat (n mod 128) = dl_bsn (db_dlHeader b)) [rx_Q (m_rx m)..<rx_Q (m_rx m) + XMT_WINDOW] of
        None \<Rightarrow> m
      | Some n \<Rightarrow> if n \<in> rx_S (m_rx m) then m else m\<lparr>m_rx := receive n (m_rx m), m_got := (m_got m)(n \<mapsto> b)\<rparr>)"

text \<open>The complete PDUs in the blocks received without a gap, and whether the final block is among them.\<close>

definition delivered :: "Mobile \<Rightarrow> octet list list" where
  "delivered m = fst (mobile_read (map (\<lambda>n. the (m_got m n)) [0..<rx_Q (m_rx m)]) [])"

definition has_everything :: "Mobile \<Rightarrow> bool" where
  "has_everything m \<longleftrightarrow> 0 < rx_Q (m_rx m) \<and>
     (case m_got m (rx_Q (m_rx m) - 1) of None \<Rightarrow> False | Some b \<Rightarrow> dl_fbiBit (db_dlHeader b) = LAST_RLC_BLOCK)"

text \<open>
  The steps of sender, channel, mobile and BSSGP: the scheduler asks the link for a block, which is
  lost or received; the mobile's report arrives (only one that covers a block the sender does not
  know to be received; \<open>report_at_vA\<close> says what the others do); the answers to assignments and polls
  arrive; BSSGP queues another PDU.  The third component collects the PDUs of BSSGP.
\<close>

inductive air :: "DlState \<times> Mobile \<times> LlcPdu list \<Rightarrow> DlState \<times> Mobile \<times> LlcPdu list \<Rightarrow> bool" where
  no_block: "tbf_state (ds_tbf s) = ALLOCATED \<Longrightarrow> GetDLRlcBlock out trx ts s = Some (None, out', s') \<Longrightarrow> air (s, m, us) (s', m, us)"
| block_lost: "tbf_state (ds_tbf s) = ALLOCATED \<Longrightarrow> GetDLRlcBlock out trx ts s = Some (Some p, out', s') \<Longrightarrow> air (s, m, us) (s', m, us)"
| block_received: "tbf_state (ds_tbf s) = ALLOCATED \<Longrightarrow> GetDLRlcBlock out trx ts s = Some (Some p, out', s') \<Longrightarrow>
     air (s, m, us) (s', mobile_receive (dl_block s' p) m, us)"
| some_received: "reports (m_rx m) rrb \<Longrightarrow> rx_R (m_rx m) mod 128 \<noteq> dk_vA (ds_link s) \<Longrightarrow>
     ReceiveDLAckNack chanReq (report (m_rx m) rrb TBF_INCOMPLETE) s = Some s' \<Longrightarrow> air (s, m, us) (s', m, us)"
| all_received: "has_everything m \<Longrightarrow> ReceiveDLAckNack chanReq (report (m_rx m) rrb TBF_COMPLETE) s = Some s' \<Longrightarrow>
     air (s, m, us) (s', m, us)"
| control_ack: "air (s, m, us) (DL_ReceivePacketControlAck ta s, m, us)"
| control_nack: "\<not> lost s \<Longrightarrow> DL_ReceivePacketControlNack s = Some s' \<Longrightarrow> air (s, m, us) (s', m, us)"
| pdu_arrives: "5 \<le> length (pdu_data u) \<Longrightarrow>
     air (s, m, us) (s\<lparr>ds_bssgp := (ds_bssgp s)(tbf_tlli (ds_tbf s) := ds_bssgp s (tbf_tlli (ds_tbf s)) @ [u])\<rparr>, m, us @ [u])"

inductive_cases air_cases: "air x y"

definition mobile_ok :: "nat \<Rightarrow> nat \<Rightarrow> DLDataBlock list \<Rightarrow> Mobile \<Rightarrow> bool" where
  "mobile_ok A S bs m \<longleftrightarrow> rx_ok (m_rx m) \<and> A \<le> rx_Q (m_rx m) \<and> rx_R (m_rx m) \<le> S \<and>
     (\<forall>n \<in> rx_S (m_rx m). \<exists>b. m_got m n = Some b \<and> payload b = payload (bs ! n))"

definition air_ok :: "addr set \<Rightarrow> DlState \<times> Mobile \<times> LlcPdu list \<Rightarrow> bool" where
  "air_ok P = (\<lambda>(s, m, us). \<exists>B A S bs. window B A S P bs (ds_link s) (ds_pool s) \<and> reading us bs s \<and> grants_ok s \<and> mobile_ok A S bs m)"

lemma bsn_eq: "(of_nat (k mod 128) :: octet) = of_nat (n mod 128) \<longleftrightarrow> k mod 128 = n mod 128"
proof -
  have "k mod 128 < 256" "n mod 128 < 256" using mod_less_divisor [of 128 k] mod_less_divisor [of 128 n] by linarith+
  then have "unat (of_nat (k mod 128) :: octet) = k mod 128" "unat (of_nat (n mod 128) :: octet) = n mod 128"
    by (simp_all add: unat_of_nat)
  then show ?thesis by metis
qed

lemma mobile_ok_more:
  "mobile_ok A S bs m \<Longrightarrow> S \<le> S' \<Longrightarrow> take S bs' = bs \<Longrightarrow> mobile_ok A S' bs' m"
proof -
  assume a: "mobile_ok A S bs m" "S \<le> S'" "take S bs' = bs"
  have "bs ! n = bs' ! n" if "n \<in> rx_S (m_rx m)" for n
    using a that by (auto simp: mobile_ok_def rx_ok_def)
  then show ?thesis using a(1,2) by (auto simp: mobile_ok_def)
qed

lemma mobile_receive_ok:
  assumes m: "mobile_ok A S bs m" and n: "B \<le> n" "n < S" "S \<le> B + 64" "B \<le> A" and len: "length bs = S"
    and b: "payload b = payload (bs ! n)" "dl_bsn (db_dlHeader (bs ! n)) = of_nat (n mod 128)"
  shows "mobile_ok A S bs (mobile_receive b m)"
proof -
  let ?x = "m_rx m"
  have x: "rx_ok ?x" "A \<le> rx_Q ?x" "rx_R ?x \<le> S" "rx_Q ?x \<le> rx_R ?x" using m by (simp_all add: mobile_ok_def rx_ok_def)
  have bsn: "dl_bsn (db_dlHeader b) = of_nat (n mod 128)" using payload_header(1) [OF b(1)] b(2) by simp
  show ?thesis
  proof (cases "find (\<lambda>n. of_nat (n mod 128) = dl_bsn (db_dlHeader b)) [rx_Q ?x..<rx_Q ?x + 64]")
    case None
    then show ?thesis using m by (simp add: mobile_receive_def)
  next
    case (Some k)
    then have k: "rx_Q ?x \<le> k" "k < rx_Q ?x + 64" "k mod 128 = n mod 128"
      using find_upt_SomeD [OF Some] by (auto simp: bsn bsn_eq)
    then have kn: "k = n" using mod_window [of B k n] n x by simp
    show ?thesis
    proof (cases "k \<in> rx_S ?x")
      case True
      then show ?thesis using m Some by (simp add: mobile_receive_def)
    next
      case False
      have "rx_Q ?x \<le> first_missing (rx_Q ?x) (max (rx_R ?x) (Suc n)) (insert n (rx_S ?x))"
        using first_missing_spec [of "rx_Q ?x" "max (rx_R ?x) (Suc n)"] x(4) by (simp add: le_max_iff_disj)
      then show ?thesis
        using m Some False kn n(2) b(1) rx_ok_receive [OF x(1), of n]
        by (auto simp: mobile_receive_def mobile_ok_def) (auto simp: receive_def Let_def)
    qed
  qed
qed

lemma has_everything_all:
  assumes "has_everything m" "mobile_ok A S bs m" "finals bs l" "length bs = S"
  shows "rx_Q (m_rx m) = S" "dk_lastDataBlock l \<noteq> None"
proof -
  let ?n = "rx_Q (m_rx m) - 1"
  obtain b where b: "m_got m ?n = Some b" "dl_fbiBit (db_dlHeader b) = LAST_RLC_BLOCK" "0 < rx_Q (m_rx m)"
    using assms(1) by (auto simp: has_everything_def split: option.splits)
  have n: "?n \<in> rx_S (m_rx m)" "?n < S" using assms(2) b(3) by (auto simp: mobile_ok_def rx_ok_def)
  then have "payload b = payload (bs ! ?n)" using assms(2) b(1) by (auto simp: mobile_ok_def)
  then have "dl_fbiBit (db_dlHeader (bs ! ?n)) = LAST_RLC_BLOCK" using payload_header(2) b(2) by metis
  then show "rx_Q (m_rx m) = S" "dk_lastDataBlock l \<noteq> None" using assms(3,4) n(2) b(3) by (auto simp: finals_def)
qed

lemma reading_arrives:
  assumes "reading us bs s" "5 \<le> length (pdu_data u)"
  shows "reading (us @ [u]) bs (s\<lparr>ds_bssgp := (ds_bssgp s)(tbf_tlli (ds_tbf s) := ds_bssgp s (tbf_tlli (ds_tbf s)) @ [u])\<rparr>)"
proof -
  let ?s = "s\<lparr>ds_bssgp := (ds_bssgp s)(tbf_tlli (ds_tbf s) := ds_bssgp s (tbf_tlli (ds_tbf s)) @ [u])\<rparr>"
  obtain vs rest where v: "finals bs (ds_link s)" "us = vs @ rest" "fst (mobile_read bs []) = map pdu_data vs"
    "if dk_lastDataBlock (ds_link s) = None then \<not> lost s \<longrightarrow> sending rest s \<and> snd (mobile_read bs []) = part_sent rest s
      else snd (mobile_read bs []) = [] \<and> (\<not> lost s \<longrightarrow> rest = ds_bssgp s (tbf_tlli (ds_tbf s)))"
    using assms(1) unfolding reading_def by blast
  have "sending (rest @ [u]) ?s" "part_sent (rest @ [u]) ?s = part_sent rest s" if "sending rest s"
    using that assms(2) by (auto simp: sending_def)
  then show ?thesis unfolding reading_def using v by (intro conjI exI [of _ vs] exI [of _ "rest @ [u]"]) auto
qed

section \<open>Every reachable state\<close>

lemma air_ok_send:
  assumes ok: "air_ok P (s, m, us)" and st: "tbf_state (ds_tbf s) = ALLOCATED" and g: "GetDLRlcBlock out trx ts s = Some (r, out', s')"
  shows "air_ok P (s', m, us)" "r = Some p \<Longrightarrow> air_ok P (s', mobile_receive (dl_block s' p) m, us)"
proof -
  obtain B A S bs where o: "window B A S P bs (ds_link s) (ds_pool s)" "reading us bs s" "grants_ok s" "mobile_ok A S bs m"
    using ok by (auto simp: air_ok_def)
  obtain S' bs' where n: "window B A S' P bs' (ds_link s') (ds_pool s')" "reading us bs' s'" "grants_ok s'" "S \<le> S'" "take S bs' = bs"
    "case r of None \<Rightarrow> True | Some p \<Rightarrow> \<exists>n. B \<le> n \<and> n < S' \<and> dk_pDlBlocks (ds_link s') ! (n mod 128) = Some p"
    using GetDLRlcBlock_window [OF o(1,2) _ o(3), of out trx ts] st g by auto
  have m: "mobile_ok A S' bs' m" by (rule mobile_ok_more [OF o(4) n(4,5)])
  then show "air_ok P (s', m, us)" using n unfolding air_ok_def by blast
  assume "r = Some p"
  then obtain k where k: "B \<le> k" "k < S'" "dk_pDlBlocks (ds_link s') ! (k mod 128) = Some p" using n(6) by auto
  have w: "S' \<le> B + 64" "B \<le> A" "length bs' = S'" "dl_bsn (db_dlHeader (bs' ! k)) = of_nat (k mod 128)"
    using n(1) k(2) by (auto simp: window_def)
  have "payload (dl_block s' p) = payload (bs' ! k)" using window_block [OF n(1) k(1,2)] k(3) by simp
  from mobile_receive_ok [OF m k(1,2) w(1,2,3) this w(4)]
  show "air_ok P (s', mobile_receive (dl_block s' p) m, us)" using n(1-3) unfolding air_ok_def by blast
qed

lemma air_ok_answer:
  assumes ok: "air_ok P (s, m, us)"
    and f: "if f = TBF_COMPLETE then has_everything m else reports (m_rx m) rrb \<and> rx_R (m_rx m) mod 128 \<noteq> dk_vA (ds_link s)"
  shows "\<exists>s'. ReceiveDLAckNack chanReq (report (m_rx m) rrb f) s = Some s' \<and> air_ok P (s', m, us)"
proof -
  obtain B A S bs where o: "window B A S P bs (ds_link s) (ds_pool s)" "reading us bs s" "grants_ok s" "mobile_ok A S bs m"
    using ok by (auto simp: air_ok_def)
  have x: "rx_ok (m_rx m)" "A \<le> rx_Q (m_rx m)" "rx_R (m_rx m) \<le> S" using o(4) by (simp_all add: mobile_ok_def)
  have "finals bs (ds_link s)" "length bs = S" using o(1,2) by (simp_all add: reading_def window_def)
  note all = has_everything_all [OF _ o(4) this]
  have an: "if f = TBF_COMPLETE then rx_Q (m_rx m) = S \<and> dk_lastDataBlock (ds_link s) \<noteq> None
        else reports (m_rx m) rrb \<and> rx_R (m_rx m) mod 128 \<noteq> dk_vA (ds_link s)"
    using f all by auto
  obtain s' A' B' where n: "ReceiveDLAckNack chanReq (report (m_rx m) rrb f) s = Some s'" "keeps s s'" "A' \<le> rx_Q (m_rx m)"
     "window B' A' S P bs (ds_link s') (ds_pool s')"
    using ReceiveDLAckNack_window [OF o(1) x an] by blast
  have "mobile_ok A' S bs m" using o(4) n(3) by (simp add: mobile_ok_def)
  moreover have "grants_ok s'" using n(2) o(3) by (simp add: keeps_def)
  ultimately show ?thesis using n(1,4) reading_keeps [OF o(2) n(2)] unfolding air_ok_def by blast
qed

lemma air_ok_control:
  assumes ok: "air_ok P (s, m, us)"
  shows "air_ok P (DL_ReceivePacketControlAck ta s, m, us)"
    "\<not> lost s \<Longrightarrow> \<exists>s'. DL_ReceivePacketControlNack s = Some s' \<and> air_ok P (s', m, us)"
proof -
  obtain B A S bs where o: "window B A S P bs (ds_link s) (ds_pool s)" "reading us bs s" "grants_ok s" "mobile_ok A S bs m"
    using ok by (auto simp: air_ok_def)
  have same: "air_ok P (s', m, us)" if "window B A S P bs (ds_link s') (ds_pool s')" "keeps s s'" for s'
    using that reading_keeps [OF o(2) that(2)] o(3,4) unfolding air_ok_def keeps_def by blast
  show "air_ok P (DL_ReceivePacketControlAck ta s, m, us)" using ControlAck_window [OF o(1)] same by blast
  show "\<exists>s'. DL_ReceivePacketControlNack s = Some s' \<and> air_ok P (s', m, us)" if "\<not> lost s"
    using ControlNack_window [OF o(1) that o(3)] same by blast
qed

lemma air_ok_arrives:
  assumes "air_ok P (s, m, us)" "5 \<le> length (pdu_data u)"
  shows "air_ok P (s\<lparr>ds_bssgp := (ds_bssgp s)(tbf_tlli (ds_tbf s) := ds_bssgp s (tbf_tlli (ds_tbf s)) @ [u])\<rparr>, m, us @ [u])"
proof -
  obtain B A S bs where "window B A S P bs (ds_link s) (ds_pool s)" "reading us bs s" "grants_ok s" "mobile_ok A S bs m"
    using assms(1) by (auto simp: air_ok_def)
  with reading_arrives [OF this(2) assms(2)] show ?thesis
    unfolding air_ok_def by (simp, intro exI [of _ B] exI [of _ A] exI [of _ S] exI [of _ bs]) simp
qed

lemma air_ok_step: "air x y \<Longrightarrow> air_ok P x \<Longrightarrow> air_ok P y"
proof (induction rule: air.induct)
  case no_block
  show ?case by (rule air_ok_send(1) [OF no_block.prems no_block.hyps])
next
  case block_lost
  show ?case by (rule air_ok_send(1) [OF block_lost.prems block_lost.hyps])
next
  case block_received
  show ?case by (rule air_ok_send(2) [OF block_received.prems block_received.hyps refl])
next
  case (some_received m rrb s chanReq s' us)
  then show ?case using air_ok_answer [OF some_received.prems, of TBF_INCOMPLETE rrb chanReq] by simp
next
  case (all_received m chanReq rrb s s' us)
  then show ?case using air_ok_answer [OF all_received.prems, of TBF_COMPLETE rrb chanReq] by simp
next
  case control_ack
  show ?case by (rule air_ok_control(1) [OF control_ack.prems])
next
  case (control_nack s s' m us)
  then show ?case using air_ok_control(2) [OF control_nack.prems] by simp
next
  case pdu_arrives
  show ?case by (rule air_ok_arrives [OF pdu_arrives.prems pdu_arrives.hyps])
qed

lemma air_ok_star: "air\<^sup>*\<^sup>* x y \<Longrightarrow> air_ok P x \<Longrightarrow> air_ok P y"
  by (induction rule: rtranclp_induct) (auto intro: air_ok_step)

text \<open>A link that starts with the first of the PDUs that wait, and a pool of fresh blocks.\<close>

definition dl_start :: "DlState \<Rightarrow> DlState" where
  "dl_start s = snd (GetNextLLCPdu (DL_EstablishRLCLink ACKNOWLEDGED_RLC_MODE s))"

definition start_ok :: "addr list \<Rightarrow> LlcPdu list \<Rightarrow> DlState \<Rightarrow> bool" where
  "start_ok xs us s \<longleftrightarrow> pool_holds (ds_pool s) xs \<and> XMT_WINDOW \<le> length xs \<and> (\<forall>r \<in> set xs. fresh_block (dl_block s r)) \<and>
     ds_bssgp s (tbf_tlli (ds_tbf s)) = us \<and> us \<noteq> [] \<and> (\<forall>u \<in> set us. 5 \<le> length (pdu_data u)) \<and> grants_ok s \<and> \<not> lost s"

lemma air_ok_new:
  assumes s: "dk_llcPdu (ds_link s) = Some u" "dk_currPduByte (ds_link s) = 0" "dk_lastDataBlock (ds_link s) = None"
    "dk_rlcMode (ds_link s) = ACKNOWLEDGED_RLC_MODE" "dk_vA (ds_link s) = 0" "dk_vS (ds_link s) = 0"
    "dk_vB (ds_link s) = replicate 128 VB_INVALID" "dk_pDlBlocks (ds_link s) = replicate 128 None" "dk_lastPendingAckXmit (ds_link s) = 0"
    "ds_bssgp s (tbf_tlli (ds_tbf s)) = vs" "grants_ok s"
    and us: "us = u # vs" "\<forall>v \<in> set us. 5 \<le> length (pdu_data v)"
    and xs: "pool_holds (ds_pool s) xs" "XMT_WINDOW \<le> length xs" "\<forall>r \<in> set xs. fresh_block (dl_block s r)"
  shows "air_ok (set xs) (s, mobile_new, us)"
proof -
  have "owned (set xs) (replicate 128 None) (ds_pool s)"
    using xs by (auto simp: owned_in_def intro!: exI [of _ xs])
  then have st: "stock (set xs) (replicate 128 None) (ds_pool s)"
    using xs by (auto simp: stock_def fresh_block_def)
  have "card (set xs) = length xs" using xs by (auto simp: pool_holds_def distinct_card)
  then have "window 0 0 0 (set xs) [] (ds_link s) (ds_pool s)"
    using s st xs by (simp add: window_def stored_def)
  moreover have "sending us s" using s us by (auto simp: sending_def)
  then have "reading us [] s"
    unfolding reading_def using s(2,3) by (intro conjI exI [of _ "[]"] exI [of _ us]) (simp_all add: finals_def)
  moreover have "mobile_ok 0 0 [] mobile_new" by (simp add: mobile_ok_def mobile_new_def receiver_new_def rx_ok_def)
  ultimately show ?thesis using s(11) unfolding air_ok_def by blast
qed

lemma air_ok_start:
  assumes "start_ok xs us s"
  shows "air_ok (set xs) (dl_start s, mobile_new, us)"
proof -
  obtain u vs where us: "us = u # vs" using assms by (cases us) (auto simp: start_ok_def)
  let ?s = "dl_start s"
  have s: "dk_llcPdu (ds_link ?s) = Some u" "dk_currPduByte (ds_link ?s) = 0" "dk_lastDataBlock (ds_link ?s) = None"
    "dk_rlcMode (ds_link ?s) = ACKNOWLEDGED_RLC_MODE" "dk_vA (ds_link ?s) = 0" "dk_vS (ds_link ?s) = 0"
    "dk_vB (ds_link ?s) = replicate 128 VB_INVALID" "dk_pDlBlocks (ds_link ?s) = replicate 128 None" "dk_lastPendingAckXmit (ds_link ?s) = 0"
    "ds_pool ?s = ds_pool s" "ds_bssgp ?s (tbf_tlli (ds_tbf ?s)) = vs" "lost ?s = lost s" "grants_ok s \<Longrightarrow> grants_ok ?s"
    using assms us
    by (simp_all add: start_ok_def dl_start_def GetNextLLCPdu_def dl_emit_def DL_EstablishRLCLink_def DL_ClearControlAckTag_def
        DLRlcLink_clear_def grants_ok_def)
  show ?thesis
    by (rule air_ok_new [where u = u, OF s(1-9,11) s(13) us]) (use assms s(10) in \<open>auto simp: start_ok_def\<close>)
qed

end
