(* ===== verification/DlDelivery.thy ===== *)
theory DlDelivery
  imports DlChannel "HOL-Library.Sublist"
begin

text \<open>
  What the downlink link achieves over the lossy channel of \<open>DlChannel\<close>, and where it fails.
\<close>

section \<open>Delivery\<close>

lemma mobile_read_payload:
  "list_all2 (\<lambda>b c. payload b = payload c) bs cs \<Longrightarrow> mobile_read bs cur = mobile_read cs cur"
proof (induction arbitrary: cur rule: list_all2_induct)
  case (Cons b bs c cs)
  have "mobile_block b cur = mobile_block c cur" by (rule mobile_block_payload [OF Cons.hyps(1)])
  then show ?case using Cons.IH by simp
qed simp

lemma delivered_prefix:
  assumes "mobile_ok A S bs m" "length bs = S"
  shows "delivered m = fst (mobile_read (take (rx_Q (m_rx m)) bs) [])" "prefix (delivered m) (fst (mobile_read bs []))"
proof -
  let ?Q = "rx_Q (m_rx m)"
  have Q: "?Q \<le> S" "{..<?Q} \<subseteq> rx_S (m_rx m)" using assms by (auto simp: mobile_ok_def rx_ok_def)
  have "list_all2 (\<lambda>b c. payload b = payload c) (map (\<lambda>n. the (m_got m n)) [0..<?Q]) (take ?Q bs)"
  proof (rule list_all2_all_nthI)
    fix i assume "i < length (map (\<lambda>n. the (m_got m n)) [0..<?Q])"
    then have i: "i < ?Q" by simp
    then obtain b where "m_got m i = Some b" "payload b = payload (bs ! i)"
      using assms(1) Q(2) by (auto simp: mobile_ok_def)
    then show "payload (map (\<lambda>n. the (m_got m n)) [0..<?Q] ! i) = payload (take ?Q bs ! i)" using i by simp
  qed (use Q(1) assms(2) in simp)
  then show d: "delivered m = fst (mobile_read (take ?Q bs) [])" unfolding delivered_def by (simp add: mobile_read_payload)
  have "mobile_read bs [] = mobile_read (take ?Q bs @ drop ?Q bs) []" by simp
  then show "prefix (delivered m) (fst (mobile_read bs []))"
    unfolding d mobile_read_append by (auto split: prod.split)
qed

section \<open>A run\<close>

text \<open>
  A PDU of 30 octets: the first block is lost, the second one, which is the last and polls, arrives; the
  mobile reports the hole and gets the first block again.
\<close>

definition demo_start :: DlState where
  "demo_start = sample_dl_state 64 [replicate 30 0xAB]"

definition demo_pdus :: "LlcPdu list" where
  "demo_pdus = [\<lparr>pdu_buffer = 1, pdu_data = replicate 30 0xAB\<rparr>]"

definition demo_rrb :: "octet list" where
  "demo_rrb = [0, 0, 0, 0, 0, 0, 0, 1]"

definition demo_run :: "(DlState \<times> DlState \<times> Mobile \<times> DlState \<times> DlState \<times> Mobile) option" where
  "demo_run = do {
     (b0, o0, s1) \<leftarrow> GetDLRlcBlock (0, RLC_MAC_NORMAL_BURST) 0 0 (dl_start demo_start);
     p0 \<leftarrow> b0;
     (b1, o1, s2) \<leftarrow> GetDLRlcBlock (0, RLC_MAC_NORMAL_BURST) 0 0 s1;
     p1 \<leftarrow> b1;
     let m1 = mobile_receive (dl_block s2 p1) mobile_new;
     s3 \<leftarrow> ReceiveDLAckNack False (report (m_rx m1) demo_rrb TBF_INCOMPLETE) s2;
     (b2, o2, s4) \<leftarrow> GetDLRlcBlock (0, RLC_MAC_NORMAL_BURST) 0 0 s3;
     p2 \<leftarrow> b2;
     Some (s1, s2, m1, s3, s4, mobile_receive (dl_block s4 p2) m1)
   }"

lemma demo_values:
  "map_option (\<lambda>(s1, s2, m1, s3, s4, m). (tbf_state (ds_tbf s1), tbf_state (ds_tbf s3), tbf_state (ds_tbf s4),
       rx_R (m_rx m1), 0 \<in> rx_S (m_rx m1), 1 \<in> rx_S (m_rx m1), dk_vA (ds_link s2),
       delivered m1, delivered m, has_everything m, ds_bssgp s4 (tbf_tlli (ds_tbf s4)))) demo_run =
     Some (ALLOCATED, ALLOCATED, ALLOCATED, 2, False, True, 0, [], [replicate 30 0xAB], True, [])"
  by code_simp

lemma demo_start_ok: "start_ok [0..<64] demo_pdus demo_start"
proof -
  have "grants_ok demo_start" "\<not> lost demo_start" by (simp_all add: demo_start_def sample_dl_state_def grants_ok_def)
  moreover have "ds_bssgp demo_start (tbf_tlli (ds_tbf demo_start)) = demo_pdus"
    by (simp add: demo_start_def sample_dl_state_def demo_pdus_def)
  ultimately show ?thesis
    unfolding start_ok_def using sample_dl_pool [of 64 "[replicate 30 0xAB]"]
    by (simp add: demo_start_def demo_pdus_def sample_dl_block_def fresh_block_def block_shape_def)
qed

lemma demo_reachable:
  "\<exists>s m s2 m1. air\<^sup>*\<^sup>* (dl_start demo_start, mobile_new, demo_pdus) (s2, m1, demo_pdus) \<and>
     air\<^sup>*\<^sup>* (dl_start demo_start, mobile_new, demo_pdus) (s, m, demo_pdus) \<and>
     reports (m_rx m1) demo_rrb \<and> rx_R (m_rx m1) mod 128 \<noteq> dk_vA (ds_link s2) \<and> delivered m1 = [] \<and>
     delivered m = [replicate 30 0xAB] \<and> has_everything m \<and> tbf_state (ds_tbf s) = ALLOCATED \<and> ds_bssgp s (tbf_tlli (ds_tbf s)) = []"
proof -
  obtain s1 s2 m1 s3 s4 m where r: "demo_run = Some (s1, s2, m1, s3, s4, m)"
    and v: "tbf_state (ds_tbf s1) = ALLOCATED" "tbf_state (ds_tbf s3) = ALLOCATED" "tbf_state (ds_tbf s4) = ALLOCATED"
      "rx_R (m_rx m1) = 2" "0 \<notin> rx_S (m_rx m1)" "1 \<in> rx_S (m_rx m1)" "dk_vA (ds_link s2) = 0" "delivered m1 = []"
      "delivered m = [replicate 30 0xAB]" "has_everything m" "ds_bssgp s4 (tbf_tlli (ds_tbf s4)) = []"
    using demo_values by (auto simp: map_option_case split: option.splits)
  obtain p0 o0 p1 o1 p2 o2 where g: "GetDLRlcBlock (0, RLC_MAC_NORMAL_BURST) 0 0 (dl_start demo_start) = Some (Some p0, o0, s1)"
    "GetDLRlcBlock (0, RLC_MAC_NORMAL_BURST) 0 0 s1 = Some (Some p1, o1, s2)" "m1 = mobile_receive (dl_block s2 p1) mobile_new"
    "ReceiveDLAckNack False (report (m_rx m1) demo_rrb TBF_INCOMPLETE) s2 = Some s3"
    "GetDLRlcBlock (0, RLC_MAC_NORMAL_BURST) 0 0 s3 = Some (Some p2, o2, s4)" "m = mobile_receive (dl_block s4 p2) m1"
    using r by (auto simp: demo_run_def bind_eq_Some_conv Let_def)
  have start: "tbf_state (ds_tbf (dl_start demo_start)) = ALLOCATED"
    by (simp add: dl_start_def GetNextLLCPdu_def DL_EstablishRLCLink_def DL_ClearControlAckTag_def demo_start_def
        sample_dl_state_def dl_emit_def split: list.split)
  have rep: "reports (m_rx m1) demo_rrb"
    unfolding reports_def v(4)
  proof (intro conjI allI impI)
    show "length demo_rrb = 8" by (simp add: demo_rrb_def)
    fix d :: nat
    assume "d < 64" "d < 2"
    then have "d = 0 \<or> d = 1" by auto
    then show "bit (demo_rrb ! (7 - d div 8)) (d mod 8) \<longleftrightarrow> 2 - 1 - d \<in> rx_S (m_rx m1)"
      using v(5,6) by (auto simp: demo_rrb_def)
  qed
  have new: "rx_R (m_rx m1) mod 128 \<noteq> dk_vA (ds_link s2)" by (simp add: v(4,7))
  have 2: "air\<^sup>*\<^sup>* (dl_start demo_start, mobile_new, demo_pdus) (s2, m1, demo_pdus)"
    using air.block_lost [OF start g(1)] air.block_received [OF v(1) g(2)] unfolding g(3)
    by (meson rtranclp.rtrancl_into_rtrancl rtranclp.rtrancl_refl)
  moreover have "air\<^sup>*\<^sup>* (s2, m1, demo_pdus) (s4, m, demo_pdus)"
    using air.some_received [OF rep new g(4)] air.block_received [OF v(2) g(5), of m1] unfolding g(6)
    by (meson rtranclp.rtrancl_into_rtrancl rtranclp.rtrancl_refl)
  ultimately have "air\<^sup>*\<^sup>* (dl_start demo_start, mobile_new, demo_pdus) (s4, m, demo_pdus)" by simp
  then show ?thesis using 2 rep new v(3,8-11) by blast
qed

section \<open>Again and again\<close>

text \<open>
  The PDU that finds its mobile's TBF completed and T3193 running: the part of \<open>AllocateDLResources\<close> that
  reestablishes the TBF in acknowledged mode, after the scheduler has reallocated the timeslots.
\<close>

definition dl_again :: "bool list \<Rightarrow> bool list \<Rightarrow> DlState \<Rightarrow> DlState" where
  "dl_again tss nats s0 =
     (let s1 = DL_SetTbfState ACTIVATING (DL_ReestablishRLCLink ACKNOWLEDGED_RLC_MODE s0);
          s2 = s1\<lparr>ds_tbf := (ds_tbf s1)\<lparr>tbf_allocatedTs := tss, tbf_naturalTs := nats\<rparr>\<rparr>;
          s3 = snd (GetNextLLCPdu (dl_emit [DL_ReconfigurationMsg] (DLTbf_UpdateTSSpecificData s2)))
      in dl_emit [DL_Assignment] (s3\<lparr>ds_T3193 := False, ds_link := (ds_link s3)\<lparr>dk_isT3193Running := False\<rparr>\<rparr>))"

text \<open>
  The life of a TBF object in acknowledged mode: it is established; air steps follow; when it is complete and PDUs wait
  it is reestablished, with a new mobile side.  The first component lists the blocks that are still to be had; the last
  one the PDUs handed over since the TBF was last established.
\<close>

inductive life :: "addr list \<Rightarrow> DlState \<times> Mobile \<times> LlcPdu list \<Rightarrow> bool" where
  established: "start_ok xs us s \<Longrightarrow> life xs (dl_start s, mobile_new, us)"
| on_air: "life xs x \<Longrightarrow> air x y \<Longrightarrow> life xs y"
| again: "life xs (s, m, us) \<Longrightarrow> tbf_state (ds_tbf s) = INACTIVE \<Longrightarrow> dk_isT3193Running (ds_link s) \<Longrightarrow>
     vs = ds_bssgp s (tbf_tlli (ds_tbf s)) \<Longrightarrow> vs \<noteq> [] \<Longrightarrow> \<forall>v \<in> set vs. 5 \<le> length (pdu_data v) \<Longrightarrow>
     pool_holds (ds_pool s) ys \<Longrightarrow> XMT_WINDOW \<le> length ys \<Longrightarrow> filter id (take MAX_TIMESLOTS tss) \<noteq> [] \<Longrightarrow>
     life ys (dl_again tss nats s, mobile_new, vs)"

lemma life_start: "start_ok xs us0 s0 \<Longrightarrow> air\<^sup>*\<^sup>* (dl_start s0, mobile_new, us0) x \<Longrightarrow> life xs x"
  by (rotate_tac, induction rule: rtranclp_induct) (auto intro: life.intros)

lemma dl_again_read:
  assumes "ds_bssgp s (tbf_tlli (ds_tbf s)) = u # vs"
  shows "dk_llcPdu (ds_link (dl_again tss nats s)) = Some u" "dk_currPduByte (ds_link (dl_again tss nats s)) = 0"
    "dk_lastDataBlock (ds_link (dl_again tss nats s)) = None" "dk_rlcMode (ds_link (dl_again tss nats s)) = ACKNOWLEDGED_RLC_MODE"
    "dk_vA (ds_link (dl_again tss nats s)) = 0" "dk_vS (ds_link (dl_again tss nats s)) = 0"
    "dk_vB (ds_link (dl_again tss nats s)) = replicate 128 VB_INVALID" "dk_pDlBlocks (ds_link (dl_again tss nats s)) = replicate 128 None"
    "dk_lastPendingAckXmit (ds_link (dl_again tss nats s)) = 0" "ds_pool (dl_again tss nats s) = ds_pool s"
    "ds_bssgp (dl_again tss nats s) (tbf_tlli (ds_tbf (dl_again tss nats s))) = vs" "tbf_state (ds_tbf (dl_again tss nats s)) = ACTIVATING"
    "grants_ok s \<Longrightarrow> filter id (take MAX_TIMESLOTS tss) \<noteq> [] \<Longrightarrow> grants_ok (dl_again tss nats s)"
proof -
  note d = dl_again_def Let_def GetNextLLCPdu_def dl_emit_def DL_ReestablishRLCLink_def DL_ClearControlAckTag_def DLRlcLink_clear_def
    DL_SetTbfState_def DLTbf_UpdateTSSpecificData_def DL_UpdateLinkTSData_def DL_UpdateTSSpecificData_def
  have n: "length (filter id (take 8 tss)) \<le> 8" by (rule order_trans [OF length_filter_le]) simp
  show "dk_llcPdu (ds_link (dl_again tss nats s)) = Some u" "dk_currPduByte (ds_link (dl_again tss nats s)) = 0"
    "dk_lastDataBlock (ds_link (dl_again tss nats s)) = None" "dk_rlcMode (ds_link (dl_again tss nats s)) = ACKNOWLEDGED_RLC_MODE"
    "dk_vA (ds_link (dl_again tss nats s)) = 0" "dk_vS (ds_link (dl_again tss nats s)) = 0"
    "dk_vB (ds_link (dl_again tss nats s)) = replicate 128 VB_INVALID" "dk_pDlBlocks (ds_link (dl_again tss nats s)) = replicate 128 None"
    "dk_lastPendingAckXmit (ds_link (dl_again tss nats s)) = 0" "ds_pool (dl_again tss nats s) = ds_pool s"
    "ds_bssgp (dl_again tss nats s) (tbf_tlli (ds_tbf (dl_again tss nats s))) = vs" "tbf_state (ds_tbf (dl_again tss nats s)) = ACTIVATING"
    using assms by (simp_all add: d)
  show "grants_ok (dl_again tss nats s)" if "grants_ok s" "filter id (take MAX_TIMESLOTS tss) \<noteq> []"
    using assms that n by (simp add: d grants_ok_def)
qed

lemma air_ok_again:
  assumes ok: "air_ok P (s, m, us)" and vs: "ds_bssgp s (tbf_tlli (ds_tbf s)) \<noteq> []" "\<forall>v \<in> set (ds_bssgp s (tbf_tlli (ds_tbf s))). 5 \<le> length (pdu_data v)"
    and ys: "pool_holds (ds_pool s) ys" "XMT_WINDOW \<le> length ys" and tss: "filter id (take MAX_TIMESLOTS tss) \<noteq> []"
  shows "air_ok (set ys) (dl_again tss nats s, mobile_new, ds_bssgp s (tbf_tlli (ds_tbf s)))"
proof -
  obtain B A S bs where w: "window B A S P bs (ds_link s) (ds_pool s)" "grants_ok s"
    using ok by (auto simp: air_ok_def)
  then have st: "stock P (dk_pDlBlocks (ds_link s)) (ds_pool s)" by (simp add: window_def)
  then have ow: "owned P (dk_pDlBlocks (ds_link s)) (ds_pool s)" by (simp add: stock_def)
  then obtain zs where zs: "pool_holds (ds_pool s) zs" "set zs \<subseteq> P" "\<forall>i < 128. \<forall>p. dk_pDlBlocks (ds_link s) ! i = Some p \<longrightarrow> p \<notin> set zs"
    by (auto simp: owned_def)
  have "ys = zs" using ys(1) zs(1) by (rule pool_holds_unique)
  then have f: "\<forall>r \<in> set ys. fresh_block (dl_block s r)"
    using st zs(2,3) unfolding stock_def \<open>ys = zs\<close> by blast
  obtain u vs where u: "ds_bssgp s (tbf_tlli (ds_tbf s)) = u # vs" using assms(2) by (cases "ds_bssgp s (tbf_tlli (ds_tbf s))") auto
  note r = dl_again_read [OF u, of tss nats]
  show ?thesis
    by (rule air_ok_new [OF r(1-9,11) r(13) [OF w(2) tss] u]) (use assms(3) ys f r(10) in simp_all)
qed

lemma life_ok: "life xs (s, m, us) \<Longrightarrow> air_ok (set xs) (s, m, us)"
proof (induction xs x \<equiv> "(s, m, us)" arbitrary: s m us rule: life.induct)
  case (established xs us s)
  then show ?case using air_ok_start by simp
next
  case (on_air xs x y)
  show ?case using on_air by (metis air_ok_step prod_cases3)
next
  case (again xs s m us vs ys tss nats)
  then show ?case using air_ok_again by auto
qed

lemma bitmap_loop_overrun:
  "d \<le> 64 \<Longrightarrow> 64 \<le> e + d \<Longrightarrow> e < 128 \<Longrightarrow>
     bitmap_loop rrb (V mod 128) (7 - int (d div 8)) (push_bit (d mod 8) 1) ((V + e) mod 128) t vB = None"
proof (induction "64 - d" arbitrary: d e t vB)
  case 0
  then show ?case by (subst bitmap_loop.simps) simp
next
  case (Suc k)
  then have d: "d < 64" "k = 64 - Suc d" "Suc d \<le> 64" "64 \<le> (e - 1) + Suc d" "e - 1 < 128" "0 < e" by auto
  have ne: "(V + e) mod 128 \<noteq> V mod 128" using mod_ne_near [of V "V + e"] d(6) Suc.prems(3) by simp
  have dec: "(if (V + e) mod 128 = 0 then 127 else (V + e) mod 128 - 1) = (V + (e - 1)) mod 128"
    using d(6) by (cases e) (auto simp: mod_Suc)
  show ?case
    unfolding bitmap_loop_step [OF d(1) mod_less_divisor [OF zero_less_numeral] refl] dec
    using Suc.hyps(1) [OF d(2-5)] ne by simp
qed

text \<open>
  A report that starts at V(A), which says that nothing after V(A) has arrived, makes
  \<open>ReceiveDLAckNack\<close> read in front of the bitmap: its loop over the window ends only when it has met V(A),
  127 blocks away, and the bitmap has 64 bits.
\<close>

lemma report_at_vA:
  assumes "dk_rlcMode (ds_link s) = ACKNOWLEDGED_RLC_MODE" "tbf_state (ds_tbf s) \<noteq> RELEASING"
    and "an_finalAckIndication an = TBF_INCOMPLETE" "dk_vA (ds_link s) < RLC_MOD_VAL"
    and "unat (an_startingSeqNum an) = dk_vA (ds_link s)"
  shows "ReceiveDLAckNack chanReq an s = None"
proof -
  let ?ssn = "an_startingSeqNum an" let ?i = "if ?ssn = 0 then RLC_MOD_VAL - 1 else unat ?ssn - 1" let ?vA = "dk_vA (ds_link s)"
  have u: "?ssn = 0 \<longleftrightarrow> ?vA = 0" using assms(5) by (metis unat_eq_0)
  have "?i = (?vA + 127) mod 128" "?vA mod 128 = ?vA" using assms(4,5) u by (cases ?vA; simp)+
  then have none: "bitmap_loop rrb ?vA 7 1 ?i t vB = None" for rrb t vB
    using bitmap_loop_overrun [of 0 127 rrb ?vA t vB] by simp
  have "partial_ack ?ssn rrb t = None" if "dk_vA (ds_link t) = ?vA" for rrb t
    unfolding partial_ack_def Let_def that none by simp
  then show ?thesis
    using assms(1-3) by (simp add: ReceiveDLAckNack_def Let_def dl_emit_def)
qed

lemma answer_or_overrun:
  assumes ok: "air_ok P (s, m, us)" and r: "reports (m_rx m) rrb"
  shows "ReceiveDLAckNack chanReq (report (m_rx m) rrb TBF_INCOMPLETE) s = None \<longleftrightarrow>
     tbf_state (ds_tbf s) \<noteq> RELEASING \<and> rx_R (m_rx m) mod RLC_MOD_VAL = dk_vA (ds_link s)"
proof (cases "rx_R (m_rx m) mod 128 = dk_vA (ds_link s)")
  case False
  then show ?thesis using air_ok_answer [OF ok, of TBF_INCOMPLETE rrb chanReq] r by auto
next
  case True
  obtain B A S bs where w: "window B A S P bs (ds_link s) (ds_pool s)" using ok by (auto simp: air_ok_def)
  have "unat (of_nat (rx_R (m_rx m) mod 128) :: octet) = rx_R (m_rx m) mod 128"
    using mod_less_divisor [of 128 "rx_R (m_rx m)"] by (simp add: unat_of_nat)
  then have "ReceiveDLAckNack chanReq (report (m_rx m) rrb TBF_INCOMPLETE) s = None" if "tbf_state (ds_tbf s) \<noteq> RELEASING"
    using w True that by (intro report_at_vA) (simp_all add: window_def report_def)
  moreover have "ReceiveDLAckNack chanReq (report (m_rx m) rrb TBF_INCOMPLETE) s \<noteq> None" if "tbf_state (ds_tbf s) = RELEASING"
    using that by (simp add: ReceiveDLAckNack_def dl_emit_def Let_def)
  ultimately show ?thesis using True by blast
qed

section \<open>Properties\<close>

text \<open>
  C1: downlink delivery. Whatever the channel loses, whatever the scheduler grants, and however sends,
  reports, control acknowledgements, new PDUs and re-establishments follow on each other, the PDUs that the mobile has
  completed are an initial part of those BSSGP handed over since the TBF was last established: none is missing,
  repeated, reordered or corrupted, over any number of wraps of the sequence numbers. A mobile that has the final block
  and everything before it has all of them except those BSSGP still holds for the next TBF. (One TBF in
  acknowledged mode, PDUs of at least five octets, 64 blocks in the pool at each establishment; every report covers a
  block after V(A), since the code leaves its table on the others, see \<open>report_at_vA\<close>.)
\<close>

theorem downlink_in_order:
  assumes "life xs (s, m, us)"
  shows "prefix (delivered m) (map pdu_data us) \<and>
     (has_everything m \<and> tbf_state (ds_tbf s) \<noteq> RELEASING \<longrightarrow>
        map pdu_data us = delivered m @ map pdu_data (ds_bssgp s (tbf_tlli (ds_tbf s))))"
proof -
  obtain B A S bs where o: "window B A S (set xs) bs (ds_link s) (ds_pool s)" "reading us bs s" "mobile_ok A S bs m"
    using life_ok [OF assms] by (auto simp: air_ok_def)
  have len: "length bs = S" using o(1) by (simp add: window_def)
  obtain vs rest where v: "finals bs (ds_link s)" "us = vs @ rest" "fst (mobile_read bs []) = map pdu_data vs"
    "dk_lastDataBlock (ds_link s) \<noteq> None \<longrightarrow> \<not> lost s \<longrightarrow> rest = ds_bssgp s (tbf_tlli (ds_tbf s))"
    using o(2) by (auto simp: reading_def split: if_splits)
  have "prefix (delivered m) (map pdu_data us)"
    using delivered_prefix(2) [OF o(3) len] v(2,3) by (auto simp: prefix_def)
  moreover have "map pdu_data us = delivered m @ map pdu_data (ds_bssgp s (tbf_tlli (ds_tbf s)))"
    if "has_everything m" "\<not> lost s"
    using has_everything_all [OF that(1) o(3) v(1) len] that(2) v(2-4) delivered_prefix(1) [OF o(3) len] len by simp
  ultimately show ?thesis by blast
qed

theorem downlink_in_order_witness:
  "\<exists>s m. air\<^sup>*\<^sup>* (dl_start demo_start, mobile_new, demo_pdus) (s, m, demo_pdus) \<and> delivered m = [replicate 30 0xAB] \<and>
     map pdu_data demo_pdus = delivered m @ map pdu_data (ds_bssgp s (tbf_tlli (ds_tbf s)))"
proof -
  obtain s m where r: "air\<^sup>*\<^sup>* (dl_start demo_start, mobile_new, demo_pdus) (s, m, demo_pdus)" "delivered m = [replicate 30 0xAB]"
    "has_everything m" "tbf_state (ds_tbf s) = ALLOCATED"
    using demo_reachable by blast
  have "tbf_state (ds_tbf s) \<noteq> RELEASING" using r(4) by simp
  then have "map pdu_data demo_pdus = delivered m @ map pdu_data (ds_bssgp s (tbf_tlli (ds_tbf s)))"
    using downlink_in_order [OF life_start [OF demo_start_ok r(1)]] r(3) by blast
  then show ?thesis using r(1,2) by blast
qed

text \<open>
  C2: where the operations of the link are undefined. In every state of the life of a TBF the link answers the
  scheduler (it never leaves one of its tables, finds the block pool empty, divides by zero or loops), a negative
  control acknowledgement and the final report. A report of what the mobile has leaves the table in exactly one
  case: the link has not been given up, and the report starts at V(A), that is, covers no block after it.
\<close>

theorem downlink_never_undefined:
  assumes "life xs (s, m, us)"
  shows "(tbf_state (ds_tbf s) \<noteq> RELEASING \<longrightarrow>
       GetDLRlcBlock out trx ts s \<noteq> None \<and> DL_ReceivePacketControlNack s \<noteq> None) \<and>
     (reports (m_rx m) rrb \<longrightarrow>
       (ReceiveDLAckNack chanReq (report (m_rx m) rrb TBF_INCOMPLETE) s = None \<longleftrightarrow>
          tbf_state (ds_tbf s) \<noteq> RELEASING \<and> rx_R (m_rx m) mod RLC_MOD_VAL = dk_vA (ds_link s))) \<and>
     (has_everything m \<longrightarrow> ReceiveDLAckNack chanReq (report (m_rx m) rrb TBF_COMPLETE) s \<noteq> None)"
proof -
  have ok: "air_ok (set xs) (s, m, us)" by (rule life_ok [OF assms])
  then obtain B A S bs where o: "window B A S (set xs) bs (ds_link s) (ds_pool s)" "reading us bs s" "grants_ok s"
    by (auto simp: air_ok_def)
  show ?thesis
    using GetDLRlcBlock_window [OF o(1,2) _ o(3), of out trx ts] air_ok_control(2) [OF ok]
      answer_or_overrun [OF ok] air_ok_answer [OF ok, of TBF_COMPLETE rrb chanReq]
    by force
qed

theorem downlink_never_undefined_witness:
  "\<exists>s m. air\<^sup>*\<^sup>* (dl_start demo_start, mobile_new, demo_pdus) (s, m, demo_pdus) \<and>
     GetDLRlcBlock (0, RLC_MAC_NORMAL_BURST) 0 0 s \<noteq> None \<and>
     ReceiveDLAckNack True (report (m_rx m) demo_rrb TBF_COMPLETE) s \<noteq> None"
proof -
  obtain s m where r: "air\<^sup>*\<^sup>* (dl_start demo_start, mobile_new, demo_pdus) (s, m, demo_pdus)" "has_everything m"
    "tbf_state (ds_tbf s) = ALLOCATED"
    using demo_reachable by blast
  have "tbf_state (ds_tbf s) \<noteq> RELEASING" using r(3) by simp
  then have "GetDLRlcBlock (0, RLC_MAC_NORMAL_BURST) 0 0 s \<noteq> None"
    "ReceiveDLAckNack True (report (m_rx m) demo_rrb TBF_COMPLETE) s \<noteq> None"
    using downlink_never_undefined [OF life_start [OF demo_start_ok r(1)], of "(0, RLC_MAC_NORMAL_BURST)" 0 0 demo_rrb True] r(2) by blast+
  then show ?thesis using r(1) by blast
qed

section \<open>The blocks\<close>

lemma dl_release_loop_slots:
  "owned P (pre @ blks) q \<Longrightarrow> set pre \<subseteq> {None} \<Longrightarrow>
     \<exists>q'. dl_release_loop blks q = Some (replicate (length blks) None, q') \<and> owned P (pre @ replicate (length blks) None) q'"
proof (induction blks arbitrary: pre q)
  case (Cons e es)
  have len: "length pre + Suc (length es) = 128" using Cons.prems(1) unfolding owned_def by auto
  have up: "owned P ((pre @ [None]) @ es) q1 \<Longrightarrow> \<exists>q'. dl_release_loop es q1 = Some (replicate (length es) None, q') \<and>
      owned P (pre @ None # replicate (length es) None) q'" for q1
    using Cons.IH [of "pre @ [None]" q1] Cons.prems(2) by simp
  show ?case
  proof (cases e)
    case None
    then show ?thesis using up [of q] Cons.prems(1) by auto
  next
    case (Some p)
    have "(pre @ e # es) ! length pre = Some p" "length pre < 128" using Some len by simp_all
    from dlpool.owned_return_slot [OF Cons.prems(1) this]
    obtain q1 where "ReturnDLDataBlock p q = Some q1" "owned P ((pre @ [None]) @ es) q1" by auto
    then show ?thesis using up [of q1] Some by auto
  qed
qed auto

lemma ReleaseDataBlocks_all:
  assumes "owned P (dk_pDlBlocks (ds_link s)) (ds_pool s)"
  shows "\<exists>q ys. DL_ReleaseDataBlocks s = Some (dl_emit (case dk_llcPdu (ds_link s) of None \<Rightarrow> [] | Some pdu \<Rightarrow> [DL_ReturnRxBuff (pdu_buffer pdu)])
       (s\<lparr>ds_link := (ds_link s)\<lparr>dk_pDlBlocks := replicate 128 None\<rparr>, ds_pool := q\<rparr>)) \<and> pool_holds q ys \<and> set ys = P"
proof -
  have len: "length (dk_pDlBlocks (ds_link s)) = 128" using assms unfolding owned_def by blast
  obtain q where q: "dl_release_loop (dk_pDlBlocks (ds_link s)) (ds_pool s) = Some (replicate 128 None, q)" "owned P (replicate 128 None) q"
    using dl_release_loop_slots [of P "[]" "dk_pDlBlocks (ds_link s)" "ds_pool s"] assms len by auto
  moreover obtain ys where "pool_holds q ys" "set ys = P" using dlpool.owned_empty_table [OF q(2)] by auto
  ultimately show ?thesis by (auto simp: DL_ReleaseDataBlocks_def)
qed

text \<open>
  C10: from one establishment to the next no block is lost. In every state of the life of a TBF each block that was in
  the pool when the link was last established is either in the pool or in the table of the link, in one place,
  and every way the TBF ends (expiry of T3191, T3193, T3195 or the activity timer) runs to its end and gives all
  of them back. (Re-establishment itself empties the table without returning what is in it; the blocks of the
  pool are what \<open>again\<close> starts from.)
\<close>

theorem downlink_blocks_conserved:
  assumes "life xs (s, m, us)"
    and "expiry \<in> {ProcessT3191Expiry, ProcessT3193Expiry, ProcessT3195Expiry, DL_ProcessActivityTimerExpiry}"
  shows "owned (set xs) (dk_pDlBlocks (ds_link s)) (ds_pool s) \<and>
     (\<exists>s' ys. expiry s = Some s' \<and> pool_holds (ds_pool s') ys \<and> set ys = set xs \<and>
        dk_pDlBlocks (ds_link s') = replicate 128 None \<and> tbf_state (ds_tbf s') = FREE)"
proof -
  obtain B A S bs where o: "window B A S (set xs) bs (ds_link s) (ds_pool s)"
    using life_ok [OF assms(1)] by (auto simp: air_ok_def)
  then have ow: "owned (set xs) (dk_pDlBlocks (ds_link s)) (ds_pool s)" by (simp add: window_def stock_def)
  have fin: "\<exists>s' ys. end_of_dl_tbf d t = Some s' \<and> pool_holds (ds_pool s') ys \<and> set ys = set xs \<and>
      dk_pDlBlocks (ds_link s') = replicate 128 None \<and> tbf_state (ds_tbf s') = FREE"
    if "dk_pDlBlocks (ds_link t) = dk_pDlBlocks (ds_link s)" "ds_pool t = ds_pool s" for d t
  proof -
    let ?t = "ReleaseDLTbf d t"
    have "dk_pDlBlocks (ds_link ?t) = dk_pDlBlocks (ds_link s)" "ds_pool ?t = ds_pool s" "tbf_state (ds_tbf ?t) = FREE"
      using that by (simp_all add: ReleaseDLTbf_def DL_SetTbfState_def dl_release_resources_def dl_emit_def)
    then show ?thesis using ReleaseDataBlocks_all [of "set xs" ?t] ow by (auto simp: end_of_dl_tbf_def) (auto simp: dl_emit_def)
  qed
  show ?thesis
    using ow assms(2) fin
    by (auto simp: ProcessT3191Expiry_def ProcessT3193Expiry_def ProcessT3195Expiry_def DL_ProcessActivityTimerExpiry_def)
qed

theorem downlink_blocks_conserved_witness:
  "\<exists>s m s' ys. air\<^sup>*\<^sup>* (dl_start demo_start, mobile_new, demo_pdus) (s, m, demo_pdus) \<and> delivered m = [replicate 30 0xAB] \<and>
     ProcessT3191Expiry s = Some s' \<and> pool_holds (ds_pool s') ys \<and> set ys = {..<64}"
proof -
  obtain s m where r: "air\<^sup>*\<^sup>* (dl_start demo_start, mobile_new, demo_pdus) (s, m, demo_pdus)" "delivered m = [replicate 30 0xAB]"
    using demo_reachable by blast
  have "ProcessT3191Expiry \<in> {ProcessT3191Expiry, ProcessT3193Expiry, ProcessT3195Expiry, DL_ProcessActivityTimerExpiry}" by simp
  from downlink_blocks_conserved [OF life_start [OF demo_start_ok r(1)] this] obtain s' ys where
    "ProcessT3191Expiry s = Some s'" "pool_holds (ds_pool s') ys" "set ys = set [0..<64]" by blast
  moreover have "set [0..<64] = {..<64 :: nat}" by auto
  ultimately show ?thesis using r by metis
qed

end
