(* ===== verification/DlFaults.thy ===== *)
theory DlFaults
  imports DlDelivery
begin

text \<open>
  Where the downlink link goes wrong: reports outside the ones that \<open>DlChannel\<close> lets the mobile send, a
  window that stalls, and the ways of ending a TBF that lose blocks or return a buffer twice.
\<close>

section \<open>A report that starts at V(A)\<close>

theorem report_at_vA_witness:
  "ReceiveDLAckNack False (report (m_rx mobile_new) demo_rrb TBF_INCOMPLETE) (dl_start demo_start) = None"
  by (rule report_at_vA)
    (simp_all add: report_fields mobile_new_def receiver_new_def dl_start_def demo_start_def sample_dl_state_def GetNextLLCPdu_def
      DL_EstablishRLCLink_def DL_ClearControlAckTag_def DLRlcLink_clear_def dl_emit_def)

section \<open>A stalled window\<close>

text \<open>
  C36: a link whose window is full, with \<open>lastPendingAckXmit\<close> equal to V(S), sends nothing: the search for a
  block to repeat starts at \<open>lastPendingAckXmit\<close> and stops at V(S), so it looks at none. As nothing is sent,
  nothing polls the mobile, and each call restarts the activity timer: however often the scheduler
  asks, the link stays as it is. A link gets there when 128 blocks were sent, the first 64 acknowledged
  without a gap and the reports since then lost, because \<open>lastPendingAckXmit\<close> is still 0.
\<close>

theorem stalled_window_silent:
  assumes "dk_rlcMode (ds_link s) = ACKNOWLEDGED_RLC_MODE" "dk_lastDataBlock (ds_link s) = None"
    and "dk_vA (ds_link s) = A mod RLC_MOD_VAL" "dk_vS (ds_link s) = (A + XMT_WINDOW) mod RLC_MOD_VAL"
    and "dk_lastPendingAckXmit (ds_link s) = dk_vS (ds_link s)"
    and "\<forall>n. A \<le> n \<and> n < A + XMT_WINDOW \<longrightarrow> dk_vB (ds_link s) ! (n mod RLC_MOD_VAL) = PENDING_ACK"
  shows "((\<lambda>r. Option.bind r (\<lambda>(_, out, s). GetDLRlcBlock out trx ts s)) ^^ k) (GetDLRlcBlock out trx ts s) =
     Some (None, out, s\<lparr>ds_activity := True\<rparr>)"
proof -
  have once: "GetDLRlcBlock out trx ts t = Some (None, out, t\<lparr>ds_activity := True\<rparr>)" if "ds_link t = ds_link s" for t
  proof -
    let ?l = "ds_link t"
    have "find (\<lambda>i. dk_vB ?l ! (i mod 128) = NACKED) [A..<A + 64] = None"
      using assms(6) that by (auto simp: find_None_iff)
    then have "nacked_loop ?l (dk_vA ?l) = Some None"
      using nacked.scan_find [of "A + 64" ?l A] assms(3,4) that by simp
    moreover have "\<not> window_open ?l" using assms(1,3,4) that by (simp add: window_open_def mod_add_left_eq)
    moreover have "pending_loop ?l (dk_lastPendingAckXmit ?l) = Some None"
      using assms(5) that by (simp add: pending_loop.simps)
    ultimately show ?thesis
      using assms(1,2) that
      by (simp add: GetDLRlcBlock_def pick_block_def RetransmitNackedDLRlcBlock_def BuildDLRlcBlock_def
          RetransmitPendingAckDLRlcBlock_def Let_def)
  qed
  show ?thesis
  proof (induction k)
    case (Suc k)
    then show ?case using once [of "s\<lparr>ds_activity := True\<rparr>"] by simp
  qed (simp add: once)
qed

text \<open>The link after 128 blocks, the first 64 acknowledged.\<close>

definition stalled_state :: DlState where
  "stalled_state = demo_start\<lparr>ds_link := sample_dl_link\<lparr>dk_vA := 64, dk_vB := replicate 64 VB_INVALID @ replicate 64 PENDING_ACK\<rparr>\<rparr>"

theorem stalled_window_silent_witness:
  "((\<lambda>r. Option.bind r (\<lambda>(_, out, s). GetDLRlcBlock out 0 0 s)) ^^ 1000)
       (GetDLRlcBlock (255, RLC_MAC_NORMAL_BURST) 0 0 stalled_state) =
     Some (None, (255, RLC_MAC_NORMAL_BURST), stalled_state\<lparr>ds_activity := True\<rparr>)"
  by (rule stalled_window_silent [where A = 64])
    (auto simp: stalled_state_def sample_dl_link_def nth_append)

section \<open>Ways to lose blocks and to return a buffer twice\<close>

text \<open>
  A TBF of one block: the mobile gets it and reports the TBF complete, which starts T3193.
\<close>

definition short_start :: DlState where
  "short_start = sample_dl_state 128 [replicate 10 0xAB]"

definition short_pdus :: "LlcPdu list" where
  "short_pdus = [\<lparr>pdu_buffer = 1, pdu_data = replicate 10 0xAB\<rparr>]"

definition short_run :: "(DlState \<times> Mobile \<times> DlState) option" where
  "short_run = do {
     (b, out, s1) \<leftarrow> GetDLRlcBlock (0, RLC_MAC_NORMAL_BURST) 0 0 (dl_start short_start);
     p \<leftarrow> b;
     let m = mobile_receive (dl_block s1 p) mobile_new;
     s2 \<leftarrow> ReceiveDLAckNack False (report (m_rx m) demo_rrb TBF_COMPLETE) s1;
     Some (s1, m, s2)
   }"

lemma short_values:
  "map_option (\<lambda>(s1, m, s2). (has_everything m, is_last_block 0 (ds_link s1), dk_n3105 (ds_link s1), ds_T3191 s1, tbf_trx (ds_tbf s1),
       tbf_naturalTs (ds_tbf s1), dk_llcPdu (ds_link s1), dk_N3105_MAX (ds_link s1), tbf_state (ds_tbf s2),
       dk_isT3193Running (ds_link s2), dk_pDlBlocks (ds_link s2), ds_bssgp s2 (tbf_tlli (ds_tbf s2)))) short_run =
     Some (True, True, 1, True, 0, replicate 8 True, Some \<lparr>pdu_buffer = 1, pdu_data = replicate 10 0xAB\<rparr>, 5, INACTIVE,
       True, Some 0 # replicate 127 None, [])"
  by code_simp

lemma short_start_ok: "start_ok [0..<128] short_pdus short_start"
proof -
  have "grants_ok short_start" "\<not> lost short_start" by (simp_all add: short_start_def sample_dl_state_def grants_ok_def)
  moreover have "ds_bssgp short_start (tbf_tlli (ds_tbf short_start)) = short_pdus"
    by (simp add: short_start_def sample_dl_state_def short_pdus_def)
  ultimately show ?thesis
    unfolding start_ok_def using sample_dl_pool [of 128 "[replicate 10 0xAB]"]
    by (simp add: short_start_def short_pdus_def sample_dl_block_def fresh_block_def block_shape_def)
qed

lemma short_reachable:
  "\<exists>s1 m s2. short_run = Some (s1, m, s2) \<and> air\<^sup>*\<^sup>* (dl_start short_start, mobile_new, short_pdus) (s1, m, short_pdus) \<and>
     air\<^sup>*\<^sup>* (dl_start short_start, mobile_new, short_pdus) (s2, m, short_pdus)"
proof -
  obtain s1 m s2 where r: "short_run = Some (s1, m, s2)" and h: "has_everything m"
    using short_values by (auto simp: map_option_case split: option.splits)
  obtain p out where g: "GetDLRlcBlock (0, RLC_MAC_NORMAL_BURST) 0 0 (dl_start short_start) = Some (Some p, out, s1)"
    "m = mobile_receive (dl_block s1 p) mobile_new"
    "ReceiveDLAckNack False (report (m_rx m) demo_rrb TBF_COMPLETE) s1 = Some s2"
    using r by (auto simp: short_run_def bind_eq_Some_conv Let_def)
  have start: "tbf_state (ds_tbf (dl_start short_start)) = ALLOCATED"
    by (simp add: dl_start_def GetNextLLCPdu_def DL_EstablishRLCLink_def DL_ClearControlAckTag_def short_start_def
        sample_dl_state_def dl_emit_def split: list.split)
  have 1: "air (dl_start short_start, mobile_new, short_pdus) (s1, m, short_pdus)"
    using air.block_received [OF start g(1)] unfolding g(2) .
  moreover have "air (s1, m, short_pdus) (s2, m, short_pdus)" by (rule air.all_received [OF h g(3)])
  ultimately show ?thesis using r by (meson r_into_rtranclp rtranclp.rtrancl_into_rtrancl)
qed

text \<open>
  C37: a downlink TBF that continues after its completion loses blocks. When more PDUs arrive while T3193
  runs, \<open>ReestablishRLCLink\<close> clears the table without giving the blocks in it back: from then on they are
  neither in the pool nor in the table, for ever; nor is the buffer of the last PDU returned to BSSGP.
\<close>

theorem reestablish_loses_blocks:
  assumes "start_ok xs us0 s0" "air\<^sup>*\<^sup>* (dl_start s0, mobile_new, us0) (s, m, us)"
  shows "\<exists>ys. pool_holds (ds_pool (DL_ReestablishRLCLink mode s)) ys \<and>
     set ys = set xs - {p. \<exists>i < RLC_MOD_VAL. dk_pDlBlocks (ds_link s) ! i = Some p} \<and>
     dk_pDlBlocks (ds_link (DL_ReestablishRLCLink mode s)) = replicate RLC_MOD_VAL None \<and>
     dk_llcPdu (ds_link (DL_ReestablishRLCLink mode s)) = None \<and> ds_out (DL_ReestablishRLCLink mode s) = ds_out s"
proof -
  obtain B A S bs where "window B A S (set xs) bs (ds_link s) (ds_pool s)"
    using air_ok_star [OF assms(2) air_ok_start [OF assms(1)]] by (auto simp: air_ok_def)
  then have "owned (set xs) (dk_pDlBlocks (ds_link s)) (ds_pool s)" by (simp add: window_def stock_def)
  then obtain ys where ys: "pool_holds (ds_pool s) ys" "\<forall>i < 128. \<forall>p. dk_pDlBlocks (ds_link s) ! i = Some p \<longrightarrow> p \<notin> set ys"
    "set xs = set ys \<union> {p. \<exists>i < 128. dk_pDlBlocks (ds_link s) ! i = Some p}"
    by (auto simp: owned_def)
  have "set ys = set xs - {p. \<exists>i < 128. dk_pDlBlocks (ds_link s) ! i = Some p}" using ys(2,3) by auto
  then show ?thesis
    using ys(1) by (intro exI [of _ ys]) (simp add: DL_ReestablishRLCLink_def DLRlcLink_clear_def)
qed

lemma short_table: "dk_pDlBlocks l = Some 0 # replicate 127 None \<Longrightarrow> (\<exists>i < 128. dk_pDlBlocks l ! i = Some p) \<longleftrightarrow> p = 0"
proof
  assume l: "dk_pDlBlocks l = Some 0 # replicate 127 None" and "\<exists>i < 128. dk_pDlBlocks l ! i = Some p"
  then obtain i where "i < 128" "dk_pDlBlocks l ! i = Some p" by blast
  then show "p = 0" unfolding l by (cases i) simp_all
qed (auto intro!: exI [of _ 0])

theorem reestablish_loses_blocks_witness:
  "\<exists>s m ys. air\<^sup>*\<^sup>* (dl_start short_start, mobile_new, short_pdus) (s, m, short_pdus) \<and>
     tbf_state (ds_tbf s) = INACTIVE \<and> dk_isT3193Running (ds_link s) \<and>
     pool_holds (ds_pool (DL_ReestablishRLCLink ACKNOWLEDGED_RLC_MODE s)) ys \<and> set ys = {1..<128}"
proof -
  obtain s1 m s2 where r: "short_run = Some (s1, m, s2)" "air\<^sup>*\<^sup>* (dl_start short_start, mobile_new, short_pdus) (s2, m, short_pdus)"
    using short_reachable by blast
  have v: "tbf_state (ds_tbf s2) = INACTIVE" "dk_isT3193Running (ds_link s2)" "dk_pDlBlocks (ds_link s2) = Some 0 # replicate 127 None"
    using short_values unfolding r(1) by simp_all
  have "(\<exists>i < 128. dk_pDlBlocks (ds_link s2) ! i = Some p) \<longleftrightarrow> p = 0" for p
    by (rule short_table [OF v(3)])
  moreover obtain ys where "pool_holds (ds_pool (DL_ReestablishRLCLink ACKNOWLEDGED_RLC_MODE s2)) ys"
    "set ys = set [0..<128] - {p. \<exists>i < 128. dk_pDlBlocks (ds_link s2) ! i = Some p}"
    using reestablish_loses_blocks [OF short_start_ok r(2), of ACKNOWLEDGED_RLC_MODE] by blast
  moreover have "set [0..<128] - {0} = {1..<128 :: nat}" by auto
  ultimately show ?thesis using r(2) v(1,2) by auto
qed

text \<open>A second life: a PDU that comes while T3193 runs reestablishes the TBF, with the blocks that are left.\<close>

lemma second_life:
  "\<exists>s xs. life xs (dl_again (replicate 8 True) (replicate 8 True) s, mobile_new, short_pdus) \<and> set xs = {1..<128} \<and> length xs = 127"
proof -
  obtain s1 m s2 where r: "short_run = Some (s1, m, s2)" "air\<^sup>*\<^sup>* (dl_start short_start, mobile_new, short_pdus) (s2, m, short_pdus)"
    using short_reachable by blast
  have v: "tbf_state (ds_tbf s2) = INACTIVE" "dk_isT3193Running (ds_link s2)" "dk_pDlBlocks (ds_link s2) = Some 0 # replicate 127 None"
    "ds_bssgp s2 (tbf_tlli (ds_tbf s2)) = []"
    using short_values unfolding r(1) by simp_all
  have t: "(\<exists>i < 128. dk_pDlBlocks (ds_link s2) ! i = Some p) \<longleftrightarrow> p = 0" for p
    by (rule short_table [OF v(3)])
  have l: "life [0..<128] (s2, m, short_pdus)" by (rule life_start [OF short_start_ok r(2)])
  let ?u = "hd short_pdus"
  let ?s = "s2\<lparr>ds_bssgp := (ds_bssgp s2)(tbf_tlli (ds_tbf s2) := ds_bssgp s2 (tbf_tlli (ds_tbf s2)) @ [?u])\<rparr>"
  have u: "short_pdus = [?u]" "5 \<le> length (pdu_data ?u)" by (simp_all add: short_pdus_def)
  have l2: "life [0..<128] (?s, m, short_pdus @ [?u])" by (rule life.on_air [OF l air.pdu_arrives [OF u(2)]])
  obtain B A S bs where "window B A S (set [0..<128]) bs (ds_link s2) (ds_pool s2)"
    using life_ok [OF l] by (auto simp: air_ok_def)
  then have "owned {0..<128} (dk_pDlBlocks (ds_link s2)) (ds_pool s2)" by (simp add: window_def stock_def)
  then obtain ys where ys: "pool_holds (ds_pool s2) ys" "\<forall>i < 128. \<forall>p. dk_pDlBlocks (ds_link s2) ! i = Some p \<longrightarrow> p \<notin> set ys"
    "{0..<128} = set ys \<union> {p. \<exists>i < 128. dk_pDlBlocks (ds_link s2) ! i = Some p}"
    by (auto simp: owned_def)
  have "0 \<notin> set ys" using ys(2) t [of 0] by blast
  moreover have "{p. \<exists>i < 128. dk_pDlBlocks (ds_link s2) ! i = Some p} = {0}" using t by blast
  ultimately have "set ys = {0..<128} - {0}" using ys(3) by blast
  also have "\<dots> = {1..<128}" by auto
  finally have y: "set ys = {1..<128}" .
  then have n: "length ys = 127" using ys(1) distinct_card [of ys] by (simp add: pool_holds_def)
  have "life ys (dl_again (replicate 8 True) (replicate 8 True) ?s, mobile_new, short_pdus)"
    by (rule life.again [OF l2]) (use v ys(1) u(1) n in \<open>simp_all add: short_pdus_def\<close>)
  then show ?thesis using y n by blast
qed

text \<open>
  A mobile that stops answering gets its last PDU's buffer and its resources returned twice. The
  poll that reaches N3105 starts T3195 and leaves T3191 running; when T3191 expires, the TBF is released but
  T3195 keeps running; when that expires too, \<open>ReleaseDataBlocks\<close> returns the same buffer to BSSGP again, and
  the scheduler is asked again to release the timeslots of a TBF that may by then serve another mobile.
\<close>

theorem given_up_returns_buffer_twice:
  assumes "owned P (dk_pDlBlocks (ds_link s)) (ds_pool s)" "dk_llcPdu (ds_link s) = Some u" "ds_T3191 s"
    and "is_last_block p (ds_link s)" "PollingTsCheck trx ts (ds_tbf s)" "dk_N3105_MAX (ds_link s) \<le> dk_n3105 (ds_link s)"
  shows "\<exists>s1 s2 s3. SetPollingBit p trx ts s = Some (True, CTL_ACK_TAG_NOT_APPLICABLE, RLC_MAC_NORMAL_BURST, s1) \<and>
     ds_T3191 s1 \<and> ds_T3195 s1 \<and> ProcessT3191Expiry s1 = Some s2 \<and> ds_T3195 s2 \<and> ProcessT3195Expiry s2 = Some s3 \<and>
     ds_out s3 = ds_out s1 @
       [DL_ResourcesReleased, DL_DeactivationMsg, DL_ReturnRxBuff (pdu_buffer u), DL_CheckMsgQueues] @
       [DL_ResourcesReleased, DL_ReturnRxBuff (pdu_buffer u), DL_CheckMsgQueues]"
proof -
  define s1 where "s1 = radio_link_lost (s\<lparr>ds_link := (ds_link s)\<lparr>dk_n3105 := dk_n3105 (ds_link s) + 1\<rparr>\<rparr>)"
  have run: "SetPollingBit p trx ts s = Some (True, CTL_ACK_TAG_NOT_APPLICABLE, RLC_MAC_NORMAL_BURST, s1)"
    using assms(4-6) by (simp add: SetPollingBit_def poll_final_def count_poll_def Let_def s1_def)
  have s1: "dk_pDlBlocks (ds_link s1) = dk_pDlBlocks (ds_link s)" "ds_pool s1 = ds_pool s" "dk_llcPdu (ds_link s1) = Some u"
    "ds_T3191 s1" "ds_T3195 s1"
    using assms(2,3) by (simp_all add: s1_def radio_link_lost_def InternalReleaseDLTbf_def DL_SetTbfState_def dl_emit_def Let_def)
  have fin: "\<exists>t'. end_of_dl_tbf d t = Some t' \<and> owned P (dk_pDlBlocks (ds_link t')) (ds_pool t') \<and> dk_llcPdu (ds_link t') = Some u \<and>
      ds_T3195 t' = ds_T3195 t \<and> ds_out t' = ds_out t @ [DL_ResourcesReleased] @ (if d then [DL_DeactivationMsg] else []) @
        [DL_ReturnRxBuff (pdu_buffer u), DL_CheckMsgQueues]"
    if "owned P (dk_pDlBlocks (ds_link t)) (ds_pool t)" "dk_llcPdu (ds_link t) = Some u" for d t
  proof -
    note pre = that
    let ?t = "ReleaseDLTbf d t"
    have r: "ds_link ?t = ds_link t" "ds_pool ?t = ds_pool t" "ds_T3195 ?t = ds_T3195 t"
      "ds_out ?t = ds_out t @ [DL_ResourcesReleased] @ (if d then [DL_DeactivationMsg] else [])"
      by (simp_all add: ReleaseDLTbf_def DL_SetTbfState_def dl_release_resources_def dl_emit_def)
    obtain q ys where q: "DL_ReleaseDataBlocks ?t = Some (dl_emit [DL_ReturnRxBuff (pdu_buffer u)]
       (?t\<lparr>ds_link := (ds_link t)\<lparr>dk_pDlBlocks := replicate 128 None\<rparr>, ds_pool := q\<rparr>))" "pool_holds q ys" "set ys = P"
      using ReleaseDataBlocks_all [of P ?t] pre by (auto simp: r)
    have "owned P (replicate 128 None) q" using q(2,3) by (auto simp: owned_def intro!: exI [of _ ys])
    then show ?thesis using q(1) pre(2) by (simp add: end_of_dl_tbf_def dl_emit_def r)
  qed
  obtain s2 where s2: "ProcessT3191Expiry s1 = Some s2" "owned P (dk_pDlBlocks (ds_link s2)) (ds_pool s2)" "dk_llcPdu (ds_link s2) = Some u"
    "ds_T3195 s2" "ds_out s2 = ds_out s1 @ [DL_ResourcesReleased, DL_DeactivationMsg, DL_ReturnRxBuff (pdu_buffer u), DL_CheckMsgQueues]"
    using fin [of "s1\<lparr>ds_T3191 := False, ds_activity := False\<rparr>" True] assms(1) s1 by (auto simp: ProcessT3191Expiry_def)
  obtain s3 where "ProcessT3195Expiry s2 = Some s3" "ds_out s3 = ds_out s2 @ [DL_ResourcesReleased, DL_ReturnRxBuff (pdu_buffer u), DL_CheckMsgQueues]"
    using fin [of "s2\<lparr>ds_T3195 := False, ds_activity := False\<rparr>" False] s2(2,3) by (auto simp: ProcessT3195Expiry_def)
  then show ?thesis using run s1(4,5) s2(1,4,5) by simp
qed

theorem given_up_returns_buffer_twice_witness:
  "\<exists>s s1 s2 s3. air\<^sup>*\<^sup>* (dl_start short_start, mobile_new, short_pdus) s \<and>
     SetPollingBit 0 0 0 ((fst s)\<lparr>ds_link := (ds_link (fst s))\<lparr>dk_n3105 := 5\<rparr>\<rparr>) =
       Some (True, CTL_ACK_TAG_NOT_APPLICABLE, RLC_MAC_NORMAL_BURST, s1) \<and>
     ProcessT3191Expiry s1 = Some s2 \<and> ProcessT3195Expiry s2 = Some s3 \<and>
     length (filter (\<lambda>e. e = DL_ReturnRxBuff 1) (ds_out s3)) = length (filter (\<lambda>e. e = DL_ReturnRxBuff 1) (ds_out s1)) + 2"
proof -
  obtain s1 m s2 where r: "short_run = Some (s1, m, s2)" "air\<^sup>*\<^sup>* (dl_start short_start, mobile_new, short_pdus) (s1, m, short_pdus)"
    using short_reachable by blast
  let ?s = "s1\<lparr>ds_link := (ds_link s1)\<lparr>dk_n3105 := 5\<rparr>\<rparr>"
  have v: "is_last_block 0 (ds_link s1)" "ds_T3191 s1" "tbf_trx (ds_tbf s1) = 0" "tbf_naturalTs (ds_tbf s1) = replicate 8 True"
    "dk_llcPdu (ds_link s1) = Some \<lparr>pdu_buffer = 1, pdu_data = replicate 10 0xAB\<rparr>" "dk_N3105_MAX (ds_link s1) = 5"
    using short_values unfolding r(1) by simp_all
  obtain B A S bs where "window B A S (set [0..<128]) bs (ds_link s1) (ds_pool s1)"
    using air_ok_star [OF r(2) air_ok_start [OF short_start_ok]] by (auto simp: air_ok_def)
  then have "owned (set [0..<128]) (dk_pDlBlocks (ds_link ?s)) (ds_pool ?s)" by (simp add: window_def stock_def)
  moreover have "dk_llcPdu (ds_link ?s) = Some \<lparr>pdu_buffer = 1, pdu_data = replicate 10 0xAB\<rparr>" "ds_T3191 ?s" "is_last_block 0 (ds_link ?s)"
    "PollingTsCheck 0 0 (ds_tbf ?s)" "dk_N3105_MAX (ds_link ?s) \<le> dk_n3105 (ds_link ?s)"
    using v by (simp_all add: is_last_block_def PollingTsCheck_def split: option.splits)
  ultimately have "\<exists>a b c. SetPollingBit 0 0 0 ?s = Some (True, CTL_ACK_TAG_NOT_APPLICABLE, RLC_MAC_NORMAL_BURST, a) \<and>
     ds_T3191 a \<and> ds_T3195 a \<and> ProcessT3191Expiry a = Some b \<and> ds_T3195 b \<and> ProcessT3195Expiry b = Some c \<and>
     ds_out c = ds_out a @
       [DL_ResourcesReleased, DL_DeactivationMsg, DL_ReturnRxBuff (pdu_buffer \<lparr>pdu_buffer = 1, pdu_data = replicate 10 0xAB\<rparr>), DL_CheckMsgQueues] @
       [DL_ResourcesReleased, DL_ReturnRxBuff (pdu_buffer \<lparr>pdu_buffer = 1, pdu_data = replicate 10 0xAB\<rparr>), DL_CheckMsgQueues]"
    by (rule given_up_returns_buffer_twice)
  then obtain a b c where "SetPollingBit 0 0 0 ?s = Some (True, CTL_ACK_TAG_NOT_APPLICABLE, RLC_MAC_NORMAL_BURST, a)"
    "ProcessT3191Expiry a = Some b" "ProcessT3195Expiry b = Some c"
    "ds_out c = ds_out a @ [DL_ResourcesReleased, DL_DeactivationMsg, DL_ReturnRxBuff 1, DL_CheckMsgQueues] @
       [DL_ResourcesReleased, DL_ReturnRxBuff 1, DL_CheckMsgQueues]" by auto
  then show ?thesis using r(2) by (intro exI [of _ "(s1, m, short_pdus)"] exI [of _ a] exI [of _ b] exI [of _ c]) simp
qed

end
