(* ===== verification/MultislotTables.thy ===== *)
theory MultislotTables
  imports RlcPrelude
begin

text \<open>
  The multislot tables of \<^verbatim>\<open>Rlc_mac/src/MultislotConfigurationGenerator.cpp\<close>: the timeslot patterns, the
  parameter sets that place a downlink and an uplink pattern next to each other, and the sets that a
  mobile of each multislot class can use.  The tables have element type \<^verbatim>\<open>char\<close>, whose signedness C++
  leaves to the compiler: \<open>schar\<close> says that it is signed.
\<close>

abbreviation (input) PAT_ORDER :: nat where "PAT_ORDER \<equiv> 8"
abbreviation (input) PAT_INDEX :: nat where "PAT_INDEX \<equiv> 35"
abbreviation (input) PAT_SLOTS :: nat where "PAT_SLOTS \<equiv> 8"
abbreviation (input) MULTI_CLASS :: nat where "MULTI_CLASS \<equiv> 12"
abbreviation (input) MULTI_INDEX :: nat where "MULTI_INDEX \<equiv> 28"
abbreviation (input) MULTI_SETS :: nat where "MULTI_SETS \<equiv> 28"
abbreviation (input) MAX_MULTI_CONFIG_CANDIDATES :: nat where "MAX_MULTI_CONFIG_CANDIDATES \<equiv> 173"

section \<open>Patterns\<close>

definition nbrTsPatterns :: "nat list" where
  "nbrTsPatterns = [1, 7, 21, 35, 35, 21, 7, 1]"

text \<open>
  The table has 35 patterns of eight entries for every order; \<open>pat_rows\<close> supplies the zeros that pad
  them.
\<close>

definition pat_rows :: "int list list \<Rightarrow> int list list" where
  "pat_rows rows = map (\<lambda>r. r @ replicate (PAT_SLOTS - length r) 0) rows @
     replicate (PAT_INDEX - length rows) (replicate PAT_SLOTS 0)"

definition tsPattern :: "int list list list" where
  "tsPattern =
    [pat_rows
      [[0]],
     pat_rows
      [[0, 1], [0, 2], [0, 3], [0, 4], [0, 5], [0, 6], [0, 7]],
     pat_rows
      [[0, 1, 2], [0, 1, 3], [0, 1, 4], [0, 1, 5], [0, 1, 6], [0, 1, 7], [0, 2, 3], [0, 2, 4], [0, 2, 5],
       [0, 2, 6], [0, 2, 7], [0, 3, 4], [0, 3, 5], [0, 3, 6], [0, 3, 7], [0, 4, 5], [0, 4, 6], [0, 4, 7],
       [0, 5, 6], [0, 5, 7], [0, 6, 7]],
     pat_rows
      [[0, 1, 2, 3], [0, 1, 2, 4], [0, 1, 2, 5], [0, 1, 2, 6], [0, 1, 2, 7], [0, 1, 3, 4], [0, 1, 3, 5],
       [0, 1, 3, 6], [0, 1, 3, 7], [0, 1, 4, 5], [0, 1, 4, 6], [0, 1, 4, 7], [0, 1, 5, 6], [0, 1, 5, 7],
       [0, 1, 6, 7], [0, 2, 3, 4], [0, 2, 3, 5], [0, 2, 3, 6], [0, 2, 3, 7], [0, 2, 4, 5], [0, 2, 4, 6],
       [0, 2, 4, 7], [0, 2, 5, 6], [0, 2, 5, 7], [0, 2, 6, 7], [0, 3, 4, 5], [0, 3, 4, 6], [0, 3, 4, 7],
       [0, 3, 5, 6], [0, 3, 5, 7], [0, 3, 6, 7], [0, 4, 5, 6], [0, 4, 5, 7], [0, 4, 6, 7], [0, 5, 6, 7]],
     pat_rows
      [[0, 1, 2, 3, 4], [0, 1, 2, 3, 5], [0, 1, 2, 3, 6], [0, 1, 2, 3, 7], [0, 1, 2, 4, 5], [0, 1, 2, 4, 6],
       [0, 1, 2, 4, 7], [0, 1, 2, 5, 6], [0, 1, 2, 5, 7], [0, 2, 3, 6, 7], [0, 1, 3, 4, 5], [0, 1, 3, 4, 6],
       [0, 1, 3, 4, 7], [0, 1, 3, 5, 6], [0, 1, 3, 5, 7], [0, 1, 3, 6, 7], [0, 1, 4, 5, 6], [0, 1, 4, 5, 7],
       [0, 1, 4, 6, 7], [0, 1, 5, 6, 7], [0, 2, 3, 4, 5], [0, 2, 3, 4, 6], [0, 2, 3, 4, 7], [0, 2, 3, 5, 6],
       [0, 2, 3, 5, 7], [0, 2, 3, 6, 7], [0, 2, 4, 5, 6], [0, 2, 4, 5, 7], [0, 2, 4, 6, 7], [0, 2, 5, 6, 7],
       [0, 3, 4, 5, 6], [0, 3, 4, 5, 7], [0, 3, 4, 6, 7], [0, 3, 5, 6, 7], [0, 4, 5, 6, 7]],
     pat_rows
      [[0, 1, 2, 3, 4, 5], [0, 1, 2, 3, 4, 6], [0, 1, 2, 3, 4, 7], [0, 1, 2, 3, 5, 6], [0, 1, 2, 3, 5, 7],
       [0, 1, 2, 3, 6, 7], [0, 1, 2, 4, 5, 6], [0, 1, 2, 4, 5, 7], [0, 1, 2, 4, 6, 7], [0, 1, 2, 5, 6, 7],
       [0, 1, 3, 4, 5, 6], [0, 1, 3, 4, 5, 7], [0, 1, 3, 4, 6, 7], [0, 1, 3, 5, 6, 7], [0, 1, 4, 5, 6, 7],
       [0, 2, 3, 4, 5, 6], [0, 2, 3, 4, 5, 7], [0, 2, 3, 4, 6, 7], [0, 2, 3, 5, 6, 7], [0, 2, 4, 5, 6, 7],
       [0, 3, 4, 5, 6, 7]],
     pat_rows
      [[0, 1, 2, 3, 4, 5, 6], [0, 1, 2, 3, 4, 5, 7], [0, 1, 2, 3, 4, 6, 7], [0, 1, 2, 3, 5, 6, 7],
       [0, 1, 2, 4, 5, 6, 7], [0, 1, 3, 4, 5, 6, 7], [0, 2, 3, 4, 5, 6, 7]],
     pat_rows
      [[0, 1, 2, 3, 4, 5, 6, 7]]]"

section \<open>Parameter sets\<close>

text \<open>\<^verbatim>\<open>char(-1)\<close>.\<close>

definition M_char :: "bool \<Rightarrow> int" where
  "M_char schar = (if schar then - 1 else 255)"

definition ms :: "bool \<Rightarrow> int list list" where
  "ms schar = (let M = M_char schar in
    [[1, 7, 1, 1, M, 1, 1], [0, 7, 1, 1, 0, 1, 1], [0, 6, 1, 1, 1, 1, 1], [0, 5, 1, 1, 2, 1, 1],
     [0, 6, 2, 1, 0, 1, 1], [0, 6, 2, 1, 1, 1, 1], [0, 5, 2, 1, 2, 1, 1], [0, 5, 2, 2, 1, 1, 1],
     [0, 5, 2, 2, 2, 1, 1], [0, 5, 3, 1, 1, 1, 1], [0, 5, 3, 1, 2, 1, 1], [0, 4, 3, 2, 2, 1, 1],
     [0, 4, 3, 7, 2, 1, 1], [0, 4, 4, 1, 2, 1, 1], [1, 7, 1, 1, M, 2, 1], [0, 6, 1, 1, 0, 2, 1],
     [0, 5, 1, 1, 1, 2, 1], [1, 6, 1, 1, M, 2, 2], [0, 5, 1, 1, 0, 2, 2], [0, 6, 2, 1, 0, 2, 1],
     [0, 5, 2, 1, 1, 2, 1], [0, 5, 2, 1, 0, 2, 2], [0, 5, 2, 2, 1, 2, 1], [0, 5, 3, 1, 1, 2, 1],
     [1, 6, 1, 1, M, 3, 1], [0, 5, 1, 1, 0, 3, 1], [0, 5, 2, 1, 0, 3, 1], [1, 5, 1, 1, M, 4, 1]])"

text \<open>The pointers into \<open>ms\<close> as indices, the rest of a row null.\<close>

definition config_row :: "nat list \<Rightarrow> nat option list" where
  "config_row is = map Some is @ replicate (MULTI_INDEX - length is) None"

definition nbrMultiConfig :: "nat list" where
  "nbrMultiConfig = [1, 3, 4, 7, 10, 11, 12, 14, 23, 24, 27, 28]"

definition multiMaxDlSlots :: "int list" where
  "multiMaxDlSlots = [1, 2, 2, 3, 2, 3, 3, 4, 3, 4, 4, 4]"

definition multiMaxUlSlots :: "int list" where
  "multiMaxUlSlots = [1, 1, 2, 1, 2, 2, 3, 1, 2, 2, 3, 4]"

definition multiConfig :: "nat option list list" where
  "multiConfig =
    [config_row [1],
     config_row [1, 2, 5],
     config_row [1, 2, 5, 15],
     config_row [0, 1, 2, 4, 5, 7, 9],
     config_row [0, 1, 2, 4, 5, 7, 14, 15, 17, 19],
     config_row [0, 1, 2, 4, 5, 7, 9, 14, 15, 17, 19],
     config_row [0, 1, 2, 4, 5, 7, 9, 14, 15, 17, 19, 24],
     config_row [0, 1, 2, 3, 4, 5, 6, 7, 8, 9, 10, 11, 12, 13],
     config_row [0, 1, 2, 3, 4, 5, 6, 7, 8, 9, 10, 11, 12, 14, 15, 16, 17, 18, 19, 20, 21, 22, 23],
     config_row [0, 1, 2, 3, 4, 5, 6, 7, 8, 9, 10, 11, 12, 13, 14, 15, 16, 17, 18, 19, 20, 21, 22, 23],
     config_row [0, 1, 2, 3, 4, 5, 6, 7, 8, 9, 10, 11, 12, 13, 14, 15, 16, 17, 18, 19, 20, 21, 22, 23, 24, 25, 26],
     config_row [0, 1, 2, 3, 4, 5, 6, 7, 8, 9, 10, 11, 12, 13, 14, 15, 16, 17, 18, 19, 20, 21, 22, 23, 24, 25, 26, 27]]"

text \<open>\<open>MultiSet\<close>, the structure the seven characters of a set are read through.\<close>

record MultiSet =
  rangeStartDL :: int
  rangeEndDL :: int
  patternOrderDL :: int
  patternIndexDL :: int
  slotOffsetUL :: int
  patternOrderUL :: int
  patternIndexUL :: int

definition MultiSet_of :: "int list \<Rightarrow> MultiSet option" where
  "MultiSet_of cs =
     (case cs of
        [a, b, c, d, e, f, g] \<Rightarrow>
          Some \<lparr>rangeStartDL = a, rangeEndDL = b, patternOrderDL = c, patternIndexDL = d,
                slotOffsetUL = e, patternOrderUL = f, patternIndexUL = g\<rparr>
      | _ \<Rightarrow> None)"

text \<open>\<open>(MultiSet* )multiConfig[mclass][tindex]\<close>: \<open>None\<close> for a null pointer.\<close>

definition multiSet_at :: "bool \<Rightarrow> nat \<Rightarrow> nat \<Rightarrow> MultiSet option" where
  "multiSet_at schar mclass tindex =
     (case multiConfig ! mclass ! tindex of
        None \<Rightarrow> None
      | Some k \<Rightarrow> MultiSet_of (ms schar ! k))"

text \<open>
  The entries \<open>tsPattern[order - 1][index - 1][0 .. order - 1]\<close>, which the loops over a pattern read.
\<close>

definition pattern_slots :: "int \<Rightarrow> int \<Rightarrow> int list option" where
  "pattern_slots order index =
     (if 0 < order \<and> order \<le> int PAT_ORDER \<and> 0 < index \<and> index \<le> int PAT_INDEX
      then Some (take (nat order) (tsPattern ! (nat order - 1) ! (nat index - 1)))
      else None)"

end
