(* ===== verification/ScheduleAllocation.thy ===== *)
theory ScheduleAllocation
  imports MultislotTables Tbf "HOL-Library.Monad_Syntax"
begin

text \<open>
  \<^verbatim>\<open>Rlc_mac/src/ScheduleAllocationInfo.cpp\<close> and its header: the object that is created to schedule a user.
  It holds the user's quality of service, the timeslots allocated so far in both directions, and
  the candidate multislot configurations of the mobile's class, of which those that no longer fit are
  crossed out while slots are allocated.
\<close>

section \<open>The object\<close>

record MultislotConfig =
  mc_valid :: bool
  mc_allowedTsDL :: "bool list"
  mc_allowedTsUL :: "bool list"

record 'p SchedAlloc =
  sa_nbrOfCandConfigs :: int
  sa_candMultiConfig :: "MultislotConfig list"
  sa_multislotClass :: int
  sa_delayClass :: int
  sa_precedenceClass :: int
  sa_peakThroughputClass :: int
  sa_tbf :: 'p
  sa_direction :: LinkDirection
  sa_maxDlSlots :: int
  sa_maxUlSlots :: int
  sa_allocatedTsDL :: "bool list"
  sa_allocatedTsUL :: "bool list"
  sa_trx :: int
  sa_ts :: int
  sa_entries :: int

text \<open>
  The constructor leaves the candidates and the slot allocation as the stack has them: \<open>cands\<close>, \<open>trx\<close>,
  \<open>ts\<close>, \<open>entries\<close>.
\<close>

definition SchedAlloc_new ::
  "MultislotConfig list \<Rightarrow> int \<Rightarrow> int \<Rightarrow> int \<Rightarrow> int \<Rightarrow> int \<Rightarrow> int \<Rightarrow> int \<Rightarrow> 'p \<Rightarrow> LinkDirection \<Rightarrow>
   bool list option \<Rightarrow> 'p SchedAlloc" where
  "SchedAlloc_new cands trx ts entries mclass dclass pclass ptclass tbfArg dir opposite =
     (let none = replicate MAX_TIMESLOTS False;
          other = (case opposite of None \<Rightarrow> none | Some a \<Rightarrow> map ((!) a) [0..<MAX_TIMESLOTS])
      in \<lparr>sa_nbrOfCandConfigs = 0, sa_candMultiConfig = cands, sa_multislotClass = mclass,
          sa_delayClass = dclass, sa_precedenceClass = pclass, sa_peakThroughputClass = ptclass,
          sa_tbf = tbfArg, sa_direction = dir, sa_maxDlSlots = 0, sa_maxUlSlots = 0,
          sa_allocatedTsDL = (if dir = DL then none else other),
          sa_allocatedTsUL = (if dir = DL then other else none),
          sa_trx = trx, sa_ts = ts, sa_entries = entries\<rparr>)"

definition InitializeNewSlotAllocation :: "'p SchedAlloc \<Rightarrow> 'p SchedAlloc" where
  "InitializeNewSlotAllocation s = s\<lparr>sa_trx := - 1, sa_ts := - 1, sa_entries := - 1\<rparr>"

definition SetNewSlotAllocation :: "int \<Rightarrow> int \<Rightarrow> int \<Rightarrow> 'p SchedAlloc \<Rightarrow> 'p SchedAlloc" where
  "SetNewSlotAllocation trx ts entries s = s\<lparr>sa_trx := trx, sa_ts := ts, sa_entries := entries\<rparr>"

text \<open>\<open>None\<close>: the slot lies outside the array.\<close>

definition AddSlotAllocation :: "'p SchedAlloc \<Rightarrow> 'p SchedAlloc option" where
  "AddSlotAllocation s =
     (if 0 \<le> sa_ts s \<and> sa_ts s < int MAX_TIMESLOTS then
        Some (if sa_direction s = DL
              then s\<lparr>sa_allocatedTsDL := (sa_allocatedTsDL s)[nat (sa_ts s) := True]\<rparr>
              else s\<lparr>sa_allocatedTsUL := (sa_allocatedTsUL s)[nat (sa_ts s) := True]\<rparr>)
      else None)"

section \<open>ComputeMultislotOptions\<close>

definition limit :: "int \<Rightarrow> int \<Rightarrow> int \<Rightarrow> int" where
  "limit lo hi v = (if v < lo then lo else if v > hi then hi else v)"

definition LimitQoS :: "'p SchedAlloc \<Rightarrow> 'p SchedAlloc" where
  "LimitQoS s = s\<lparr>sa_multislotClass := limit 1 12 (sa_multislotClass s),
     sa_delayClass := limit 1 4 (sa_delayClass s),
     sa_precedenceClass := limit 1 3 (sa_precedenceClass s),
     sa_peakThroughputClass := limit 1 9 (sa_peakThroughputClass s)\<rparr>"

definition multi_sets :: "bool \<Rightarrow> nat \<Rightarrow> MultiSet list option" where
  "multi_sets schar mclass = those (map (multiSet_at schar mclass) [0..<nbrMultiConfig ! mclass])"

definition count_configs :: "MultiSet list \<Rightarrow> int" where
  "count_configs sets = (\<Sum>m\<leftarrow>sets. 1 + rangeEndDL m - rangeStartDL m)"

definition clear_config :: "MultislotConfig \<Rightarrow> MultislotConfig" where
  "clear_config c = c\<lparr>mc_valid := False, mc_allowedTsDL := replicate 8 False, mc_allowedTsUL := replicate 8 False\<rparr>"

text \<open>The loop that enters a pattern, at \<open>base\<close>, into one of the arrays of a configuration.\<close>

fun mark_pattern :: "int \<Rightarrow> int list \<Rightarrow> bool list \<Rightarrow> bool list option" where
  "mark_pattern base [] a = Some a"
| "mark_pattern base (p # ps) a =
     (if 0 \<le> base + p \<and> base + p < int (length a)
      then mark_pattern base ps (a[nat (base + p) := True]) else None)"

definition fill_config :: "MultiSet \<Rightarrow> int \<Rightarrow> MultislotConfig \<Rightarrow> MultislotConfig option" where
  "fill_config m offDL c = do {
     dl \<leftarrow> pattern_slots (patternOrderDL m) (patternIndexDL m);
     a \<leftarrow> mark_pattern offDL dl (mc_allowedTsDL c);
     ul \<leftarrow> pattern_slots (patternOrderUL m) (patternIndexUL m);
     b \<leftarrow> mark_pattern (offDL + slotOffsetUL m) ul (mc_allowedTsUL c);
     Some (c\<lparr>mc_valid := True, mc_allowedTsDL := a, mc_allowedTsUL := b\<rparr>)
   }"

text \<open>The loop over the starting timeslots of a set, and the loop over the sets; \<open>cindex\<close> runs through both.\<close>

fun start_loop :: "MultiSet \<Rightarrow> int list \<Rightarrow> nat \<Rightarrow> MultislotConfig list \<Rightarrow> (nat \<times> MultislotConfig list) option" where
  "start_loop m [] cindex cands = Some (cindex, cands)"
| "start_loop m (offDL # offs) cindex cands =
     (if cindex < length cands then
        (case fill_config m offDL (cands ! cindex) of
           None \<Rightarrow> None
         | Some c \<Rightarrow> start_loop m offs (cindex + 1) (cands[cindex := c]))
      else None)"

fun set_loop :: "MultiSet list \<Rightarrow> nat \<Rightarrow> MultislotConfig list \<Rightarrow> (nat \<times> MultislotConfig list) option" where
  "set_loop [] cindex cands = Some (cindex, cands)"
| "set_loop (m # sets) cindex cands =
     (case start_loop m [rangeStartDL m..rangeEndDL m] cindex cands of
        None \<Rightarrow> None
      | Some (cindex', cands') \<Rightarrow> set_loop sets cindex' cands')"

text \<open>It always returns \<open>TRUE\<close>.\<close>

definition ComputeMultislotOptions :: "bool \<Rightarrow> 'p SchedAlloc \<Rightarrow> 'p SchedAlloc option" where
  "ComputeMultislotOptions schar s0 = do {
     let s = LimitQoS s0;
     let mclass = nat (sa_multislotClass s - 1);
     sets \<leftarrow> multi_sets schar mclass;
     let nbr = (if count_configs sets > int MAX_MULTI_CONFIG_CANDIDATES
                then int MAX_MULTI_CONFIG_CANDIDATES else count_configs sets);
     let cands = map clear_config (take (nat nbr) (sa_candMultiConfig s)) @ drop (nat nbr) (sa_candMultiConfig s);
     (_, cands') \<leftarrow> set_loop sets 0 cands;
     Some (s\<lparr>sa_maxDlSlots := multiMaxDlSlots ! mclass, sa_maxUlSlots := multiMaxUlSlots ! mclass,
             sa_nbrOfCandConfigs := nbr, sa_candMultiConfig := cands'\<rparr>)
   }"

section \<open>The other operations\<close>

definition ComputeDesiredNumberOfSlots :: "'p SchedAlloc \<Rightarrow> int" where
  "ComputeDesiredNumberOfSlots s =
     (let desiredSlots = (if sa_direction s = DL then sa_maxDlSlots s else sa_maxUlSlots s);
          testClass = min (sa_peakThroughputClass s) 5
      in if testClass = 5 then min desiredSlots 8
         else if testClass = 4 then min desiredSlots 4
         else if testClass = 3 then min desiredSlots 2
         else 1)"

definition still_valid :: "bool list \<Rightarrow> bool list \<Rightarrow> MultislotConfig \<Rightarrow> bool" where
  "still_valid allocDL allocUL c \<longleftrightarrow> mc_valid c \<and>
     list_all (\<lambda>ts. \<not> (allocDL ! ts \<and> \<not> mc_allowedTsDL c ! ts \<or> allocUL ! ts \<and> \<not> mc_allowedTsUL c ! ts))
       [0..<MAX_TIMESLOTS]"

text \<open>The operations look at the first \<open>nbrOfCandConfigs\<close> candidates.\<close>

abbreviation cands :: "'p SchedAlloc \<Rightarrow> MultislotConfig list" where
  "cands s \<equiv> take (nat (sa_nbrOfCandConfigs s)) (sa_candMultiConfig s)"

definition ConstrainCandMultiConfig ::
  "'p SchedAlloc \<times> ('p \<Rightarrow> 'a Tbf_scheme) \<Rightarrow> 'p SchedAlloc \<times> ('p \<Rightarrow> 'a Tbf_scheme)" where
  "ConstrainCandMultiConfig = (\<lambda>(s, h).
     let cs = map (\<lambda>c. c\<lparr>mc_valid := still_valid (sa_allocatedTsDL s) (sa_allocatedTsUL s) c\<rparr>) (cands s);
         natural = map (\<lambda>ts. list_ex (\<lambda>c. mc_valid c \<and> mc_allowedTsDL c ! ts \<and> mc_allowedTsUL c ! ts) cs)
                     [0..<MAX_TIMESLOTS]
     in (s\<lparr>sa_candMultiConfig := cs @ drop (nat (sa_nbrOfCandConfigs s)) (sa_candMultiConfig s)\<rparr>,
         h(sa_tbf s := (h (sa_tbf s))\<lparr>tbf_naturalTs := natural\<rparr>)))"

text \<open>The timeslot arguments are below \<open>MAX_TIMESLOTS\<close>.\<close>

definition IsAllowedTs :: "LinkDirection \<Rightarrow> nat \<Rightarrow> 'p SchedAlloc \<Rightarrow> bool" where
  "IsAllowedTs dir ts s \<longleftrightarrow>
     list_ex (\<lambda>c. mc_valid c \<and> (dir = DL \<and> mc_allowedTsDL c ! ts \<or> dir = UL \<and> mc_allowedTsUL c ! ts)) (cands s)"

definition IncludesNaturalTs :: "LinkDirection \<Rightarrow> nat \<Rightarrow> 'p SchedAlloc \<times> ('p \<Rightarrow> 'a Tbf_scheme) \<Rightarrow> bool" where
  "IncludesNaturalTs dir newTs = (\<lambda>(s, h).
     let natural = tbf_naturalTs (h (sa_tbf s))
     in natural ! newTs \<or>
        list_ex (\<lambda>ts. natural ! ts \<and> (dir = DL \<and> sa_allocatedTsDL s ! ts \<or> dir = UL \<and> sa_allocatedTsUL s ! ts))
          [0..<MAX_TIMESLOTS])"

end
