(* ===== verification/MultislotOptions.thy ===== *)
theory MultislotOptions
  imports ScheduleAllocation
begin

text \<open>
  What the candidate configurations of \<open>ScheduleAllocation\<close> are: the configurations of the mobile's multislot
  class that contain everything allocated so far.
\<close>

section \<open>The tables\<close>

text \<open>
  What GSM 05.02, annex B, grants a class: the largest numbers of timeslots in reception, in transmission,
  and of both together.
\<close>

definition capability :: "(nat \<times> nat \<times> nat) list" where
  "capability = [(1, 1, 2), (2, 1, 3), (2, 2, 3), (3, 1, 4), (2, 2, 4), (3, 2, 4),
     (3, 3, 4), (4, 1, 5), (3, 2, 5), (4, 2, 5), (4, 3, 5), (4, 4, 5)]"

definition within :: "nat \<times> nat \<times> nat \<Rightarrow> nat \<Rightarrow> nat \<Rightarrow> bool" where
  "within = (\<lambda>(rx, tx, total) dl ul. dl \<le> rx \<and> ul \<le> tx \<and> dl + ul \<le> total)"

text \<open>A pattern of \<open>order\<close> different slots fits into the timeslots when it begins anywhere from \<open>a\<close> to \<open>b\<close>.\<close>

definition pattern_fits :: "int \<Rightarrow> int \<Rightarrow> int \<Rightarrow> int \<Rightarrow> bool" where
  "pattern_fits order index a b =
     (case pattern_slots order index of
        None \<Rightarrow> False
      | Some ps \<Rightarrow> distinct ps \<and> int (length ps) = order \<and> list_all (\<lambda>p. 0 \<le> a + p \<and> b + p < 8) ps)"

definition set_fits :: "MultiSet \<Rightarrow> bool" where
  "set_fits m \<longleftrightarrow> rangeStartDL m \<le> rangeEndDL m \<and>
     pattern_fits (patternOrderDL m) (patternIndexDL m) (rangeStartDL m) (rangeEndDL m) \<and>
     pattern_fits (patternOrderUL m) (patternIndexUL m) (rangeStartDL m + slotOffsetUL m) (rangeEndDL m + slotOffsetUL m)"

definition set_within :: "nat \<times> nat \<times> nat \<Rightarrow> MultiSet \<Rightarrow> bool" where
  "set_within cap m \<longleftrightarrow> within cap (nat (patternOrderDL m)) (nat (patternOrderUL m))"

lemma sets_fit: "list_all (\<lambda>cs. case MultiSet_of cs of None \<Rightarrow> False | Some m \<Rightarrow> set_fits m) (ms True)"
  by code_simp

lemma config_indices: "list_all (\<lambda>row. list_all (\<lambda>k. case k of None \<Rightarrow> True | Some k \<Rightarrow> k < length (ms True)) row) multiConfig"
  by code_simp

lemma classes_within:
  "list_all (\<lambda>k. case multi_sets True k of None \<Rightarrow> False
     | Some sets \<Rightarrow> list_all (set_within (capability ! k)) sets \<and> count_configs sets \<le> 173) [0..<12]"
  by code_simp

lemma sum_take_nbr: "k < 12 \<Longrightarrow> nbrMultiConfig ! k \<le> 28 \<and> length multiConfig = 12 \<and> length (multiConfig ! k) = 28"
proof -
  have "list_all (\<lambda>k. nbrMultiConfig ! k \<le> 28 \<and> length (multiConfig ! k) = 28) [0..<12]" "length multiConfig = 12"
    by code_simp+
  then show "k < 12 \<Longrightarrow> ?thesis" by (simp add: list_all_iff)
qed

lemma those_Some: "those xs = Some ys \<Longrightarrow> xs = map Some ys"
  by (induction xs arbitrary: ys) (auto split: option.splits)

lemma those_map_Some [simp]: "those (map Some ys) = Some ys"
  by (induction ys) auto

lemma those_append: "those (xs @ ys) = (case those xs of None \<Rightarrow> None | Some a \<Rightarrow> map_option ((@) a) (those ys))"
  by (induction xs) (auto split: option.splits simp: map_option.compositionality comp_def map_option_case)

text \<open>Every set that a class uses is a row of \<open>ms\<close>, and fits.\<close>

lemma class_sets:
  assumes "k < 12"
  obtains sets where "multi_sets True k = Some sets" "\<And>m. m \<in> set sets \<Longrightarrow> set_fits m"
    "\<And>m. m \<in> set sets \<Longrightarrow> set_within (capability ! k) m" "count_configs sets \<le> 173"
proof -
  obtain sets where s: "multi_sets True k = Some sets" "list_all (set_within (capability ! k)) sets" "count_configs sets \<le> 173"
    using classes_within assms by (fastforce simp: list_all_iff split: option.splits)
  have "set_fits m" if m: "m \<in> set sets" for m
  proof -
    have "Some m \<in> set (map (multiSet_at True k) [0..<nbrMultiConfig ! k])"
      using those_Some [OF s(1) [unfolded multi_sets_def]] m by (metis imageI list.set_map)
    then obtain t where t: "t < nbrMultiConfig ! k" "multiSet_at True k t = Some m" by auto
    then obtain j where j: "multiConfig ! k ! t = Some j" "MultiSet_of (ms True ! j) = Some m"
      by (auto simp: multiSet_at_def split: option.splits)
    have "multiConfig ! k \<in> set multiConfig" "Some j \<in> set (multiConfig ! k)"
      using sum_take_nbr [OF assms] assms t(1) j(1) nth_mem [of t "multiConfig ! k"] by auto
    then have "j < length (ms True)" using config_indices unfolding list_all_iff by fastforce
    then show ?thesis using sets_fit j(2) nth_mem unfolding list_all_iff by fastforce
  qed
  then show ?thesis using that [OF s(1)] s(2,3) by (simp add: list_all_iff)
qed

section \<open>Filling one configuration\<close>

definition fresh :: MultislotConfig where
  "fresh = \<lparr>mc_valid = False, mc_allowedTsDL = replicate 8 False, mc_allowedTsUL = replicate 8 False\<rparr>"

lemma clear_fresh: "map clear_config cs = replicate (length cs) fresh"
  by (induction cs) (simp_all add: clear_config_def fresh_def)

text \<open>The slots that a row of flags allows.\<close>

definition slots :: "bool list \<Rightarrow> nat set" where
  "slots a = {ts. ts < length a \<and> a ! ts}"

lemma finite_slots [simp]: "finite (slots a)"
  by (simp add: slots_def)

lemma slots_none [simp]: "slots (replicate n False) = {}"
  by (auto simp: slots_def)

lemma slots_update: "t < length a \<Longrightarrow> slots (a[t := True]) = insert t (slots a)"
  by (auto simp: slots_def nth_list_update)

lemma mark_pattern_slots:
  assumes "list_all (\<lambda>p. 0 \<le> base + p \<and> base + p < 8) ps" "length a = 8"
  shows "\<exists>b. mark_pattern base ps a = Some b \<and> length b = 8 \<and>
     slots b = slots a \<union> (\<lambda>p. nat (base + p)) ` set ps"
  using assms
proof (induction ps arbitrary: a)
  case (Cons p ps)
  let ?a = "a[nat (base + p) := True]"
  obtain b where "mark_pattern base ps ?a = Some b" "length b = 8"
    "slots b = slots ?a \<union> (\<lambda>p. nat (base + p)) ` set ps"
    using Cons.IH [of ?a] Cons.prems by auto
  then show ?case using Cons.prems by (auto simp: slots_update)
qed simp

lemma card_pattern:
  assumes "distinct ps" "list_all (\<lambda>p. 0 \<le> base + p \<and> base + p < 8) ps"
  shows "card ((\<lambda>p. nat (base + p)) ` set ps) = length ps"
proof -
  have "inj_on (\<lambda>p. nat (base + p)) (set ps)"
    using assms(2) by (auto simp: inj_on_def list_all_iff nat_eq_iff2)
  then show ?thesis using assms(1) by (simp add: card_image distinct_card)
qed

text \<open>The configuration that \<open>fill_config\<close> makes: its slots are those of the two patterns.\<close>

definition offers :: "MultiSet \<Rightarrow> int \<Rightarrow> nat set \<times> nat set" where
  "offers m off =
     ((\<lambda>p. nat (off + p)) ` set (the (pattern_slots (patternOrderDL m) (patternIndexDL m))),
      (\<lambda>p. nat (off + slotOffsetUL m + p)) ` set (the (pattern_slots (patternOrderUL m) (patternIndexUL m))))"

definition config_slots :: "MultislotConfig \<Rightarrow> nat set \<times> nat set" where
  "config_slots c = (slots (mc_allowedTsDL c), slots (mc_allowedTsUL c))"

definition sized :: "MultislotConfig \<Rightarrow> bool" where
  "sized c \<longleftrightarrow> length (mc_allowedTsDL c) = MAX_TIMESLOTS \<and> length (mc_allowedTsUL c) = MAX_TIMESLOTS"

lemma pattern_fitsD:
  assumes "pattern_fits order index a b" "a - s \<le> off" "off \<le> b - s"
  obtains ps where "pattern_slots order index = Some ps" "distinct ps" "int (length ps) = order"
    "list_all (\<lambda>p. 0 \<le> (off + s) + p \<and> (off + s) + p < 8) ps"
  using assms by (force simp: pattern_fits_def list_all_iff split: option.splits)

lemma fill_config_fresh:
  assumes "set_fits m" "rangeStartDL m \<le> off" "off \<le> rangeEndDL m"
  shows "\<exists>c. fill_config m off fresh = Some c \<and> mc_valid c \<and> sized c \<and> config_slots c = offers m off \<and>
     int (card (fst (offers m off))) = patternOrderDL m \<and> int (card (snd (offers m off))) = patternOrderUL m"
proof -
  obtain dl where dl: "pattern_slots (patternOrderDL m) (patternIndexDL m) = Some dl" "distinct dl"
    "int (length dl) = patternOrderDL m" "list_all (\<lambda>p. 0 \<le> off + p \<and> off + p < 8) dl"
    using assms pattern_fitsD [of "patternOrderDL m" "patternIndexDL m" _ _ 0 off] by (auto simp: set_fits_def)
  obtain ul where ul: "pattern_slots (patternOrderUL m) (patternIndexUL m) = Some ul" "distinct ul"
    "int (length ul) = patternOrderUL m"
    "list_all (\<lambda>p. 0 \<le> off + slotOffsetUL m + p \<and> off + slotOffsetUL m + p < 8) ul"
    using assms pattern_fitsD [of "patternOrderUL m" "patternIndexUL m" "rangeStartDL m + slotOffsetUL m"
      "rangeEndDL m + slotOffsetUL m" "slotOffsetUL m" off] by (auto simp: set_fits_def)
  obtain a where a: "mark_pattern off dl (replicate 8 False) = Some a" "length a = 8"
    "slots a = (\<lambda>p. nat (off + p)) ` set dl"
    using mark_pattern_slots [OF dl(4), of "replicate 8 False"] by auto
  obtain b where b: "mark_pattern (off + slotOffsetUL m) ul (replicate 8 False) = Some b" "length b = 8"
    "slots b = (\<lambda>p. nat (off + slotOffsetUL m + p)) ` set ul"
    using mark_pattern_slots [OF ul(4), of "replicate 8 False"] by auto
  show ?thesis
    using dl ul a b card_pattern [OF dl(2,4)] card_pattern [OF ul(2,4)]
    by (simp add: fill_config_def fresh_def offers_def config_slots_def sized_def)
qed

section \<open>Filling them all\<close>

definition config_of :: "MultiSet \<Rightarrow> int \<Rightarrow> MultislotConfig" where
  "config_of m off = the (fill_config m off fresh)"

definition configs :: "MultiSet list \<Rightarrow> MultislotConfig list" where
  "configs sets = concat (map (\<lambda>m. map (config_of m) [rangeStartDL m..rangeEndDL m]) sets)"

text \<open>
  The reference: the configurations of a class, as pairs of the sets of timeslots that the mobile uses
  in reception and in transmission.
\<close>

definition multislot_options :: "nat \<Rightarrow> (nat set \<times> nat set) set" where
  "multislot_options mclass =
     (\<Union>m \<in> set (the (multi_sets True mclass)). offers m ` {rangeStartDL m..rangeEndDL m})"

lemma config_ofD:
  assumes "set_fits m" "off \<in> set [rangeStartDL m..rangeEndDL m]"
  shows "fill_config m off fresh = Some (config_of m off)" "mc_valid (config_of m off)" "sized (config_of m off)"
    "config_slots (config_of m off) = offers m off"
  using fill_config_fresh [OF assms(1), of off] assms(2) by (auto simp: config_of_def)

lemma configs_slots:
  assumes "multi_sets True k = Some sets" "\<And>m. m \<in> set sets \<Longrightarrow> set_fits m"
  shows "config_slots ` set (configs sets) = multislot_options k" "\<forall>c \<in> set (configs sets). mc_valid c \<and> sized c"
proof -
  have "config_slots ` set (configs sets) =
      (\<Union>m \<in> set sets. (\<lambda>off. config_slots (config_of m off)) ` {rangeStartDL m..rangeEndDL m})"
    by (simp add: configs_def image_UN image_image)
  also have "\<dots> = (\<Union>m \<in> set sets. offers m ` {rangeStartDL m..rangeEndDL m})"
    using config_ofD(4) assms(2) by (intro SUP_cong refl image_cong) auto
  also have "\<dots> = multislot_options k" by (simp add: multislot_options_def assms(1))
  finally show "config_slots ` set (configs sets) = multislot_options k" .
  show "\<forall>c \<in> set (configs sets). mc_valid c \<and> sized c"
    using config_ofD(2,3) assms(2) by (auto simp: configs_def)
qed

lemma start_loop_fresh:
  assumes "\<forall>off \<in> set offs. fill_config m off fresh = Some (config_of m off)"
  shows "start_loop m offs (length pre) (pre @ replicate (length offs) fresh @ post) =
     Some (length pre + length offs, pre @ map (config_of m) offs @ post)"
  using assms
proof (induction offs arbitrary: pre)
  case (Cons off offs)
  then have "start_loop m offs (length (pre @ [config_of m off]))
      ((pre @ [config_of m off]) @ replicate (length offs) fresh @ post) =
    Some (length (pre @ [config_of m off]) + length offs, (pre @ [config_of m off]) @ map (config_of m) offs @ post)"
    by (intro Cons.IH) simp
  then show ?case using Cons.prems by (simp add: nth_append list_update_append)
qed simp

lemma set_loop_fresh:
  assumes "\<And>m. m \<in> set sets \<Longrightarrow> set_fits m"
  shows "set_loop sets (length pre) (pre @ replicate (length (configs sets)) fresh @ post) =
     Some (length pre + length (configs sets), pre @ configs sets @ post)"
  using assms
proof (induction sets arbitrary: pre)
  case (Cons m sets)
  let ?offs = "[rangeStartDL m..rangeEndDL m]"
  let ?pre = "pre @ map (config_of m) ?offs"
  have cons: "configs (m # sets) = map (config_of m) ?offs @ configs sets" by (simp add: configs_def)
  have len: "length (configs (m # sets)) = length ?offs + length (configs sets)" unfolding cons by simp
  have "start_loop m ?offs (length pre)
      (pre @ replicate (length ?offs) fresh @ replicate (length (configs sets)) fresh @ post) =
    Some (length pre + length ?offs,
      pre @ map (config_of m) ?offs @ replicate (length (configs sets)) fresh @ post)"
    using config_ofD(1) Cons.prems by (intro start_loop_fresh) auto
  moreover have "set_loop sets (length ?pre) (?pre @ replicate (length (configs sets)) fresh @ post) =
    Some (length ?pre + length (configs sets), ?pre @ configs sets @ post)"
    using Cons.prems by (intro Cons.IH) simp
  ultimately show ?case by (simp add: len replicate_add cons del: length_upto)
qed (simp add: configs_def)

lemma count_configs_length:
  assumes "\<And>m. m \<in> set sets \<Longrightarrow> set_fits m"
  shows "count_configs sets = int (length (configs sets))"
  using assms by (induction sets) (auto simp: count_configs_def configs_def set_fits_def)

lemma limit_bounds: "lo \<le> hi \<Longrightarrow> lo \<le> limit lo hi v \<and> limit lo hi v \<le> hi"
  by (simp add: limit_def)

lemma compute_options:
  assumes "length (sa_candMultiConfig s) = MAX_MULTI_CONFIG_CANDIDATES"
  obtains k sets where "k = nat (sa_multislotClass (LimitQoS s) - 1)" "k < 12" "multi_sets True k = Some sets"
    "\<forall>m \<in> set sets. set_fits m" "\<forall>m \<in> set sets. set_within (capability ! k) m"
    "ComputeMultislotOptions True s = Some ((LimitQoS s)\<lparr>sa_maxDlSlots := multiMaxDlSlots ! k,
       sa_maxUlSlots := multiMaxUlSlots ! k, sa_nbrOfCandConfigs := int (length (configs sets)),
       sa_candMultiConfig := configs sets @ drop (length (configs sets)) (sa_candMultiConfig s)\<rparr>)"
    "length (configs sets) \<le> 173"
proof -
  let ?k = "nat (sa_multislotClass (LimitQoS s) - 1)"
  have k: "?k < 12" using limit_bounds [of 1 12 "sa_multislotClass s"] by (auto simp: LimitQoS_def)
  obtain sets where s: "multi_sets True ?k = Some sets" "\<And>m. m \<in> set sets \<Longrightarrow> set_fits m"
    "\<And>m. m \<in> set sets \<Longrightarrow> set_within (capability ! ?k) m" "count_configs sets \<le> 173"
    using class_sets [OF k] by blast
  let ?n = "length (configs sets)"
  have n: "count_configs sets = int ?n" "?n \<le> 173" using count_configs_length [OF s(2)] s(4) by auto
  have fresh: "map clear_config (take ?n (sa_candMultiConfig s)) = replicate ?n fresh"
    using n(2) assms by (simp add: clear_fresh)
  have "set_loop sets 0 (replicate ?n fresh @ drop ?n (sa_candMultiConfig s)) =
      Some (?n, configs sets @ drop ?n (sa_candMultiConfig s))"
    using set_loop_fresh [of sets "[]"] s(2) by simp
  then have "ComputeMultislotOptions True s = Some ((LimitQoS s)\<lparr>sa_maxDlSlots := multiMaxDlSlots ! ?k,
       sa_maxUlSlots := multiMaxUlSlots ! ?k, sa_nbrOfCandConfigs := int ?n,
       sa_candMultiConfig := configs sets @ drop ?n (sa_candMultiConfig s)\<rparr>)"
    using s(1) n fresh by (simp add: ComputeMultislotOptions_def Let_def LimitQoS_def)
  then show ?thesis using that [OF refl k s(1)] s(2,3) n(2) by blast
qed

lemma multislot_options_within:
  assumes "k < 12" "(D, U) \<in> multislot_options k"
  shows "0 < card D" "0 < card U" "within (capability ! k) (card D) (card U)" "finite D" "finite U"
proof -
  obtain sets where s: "multi_sets True k = Some sets" "\<forall>m \<in> set sets. set_fits m"
    "\<forall>m \<in> set sets. set_within (capability ! k) m"
    using class_sets [OF assms(1)] by metis
  obtain m off where m: "m \<in> set sets" "rangeStartDL m \<le> off" "off \<le> rangeEndDL m" "offers m off = (D, U)"
    using assms(2) s(1) by (auto simp: multislot_options_def)
  have eq: "patternOrderDL m = int (card D)" "patternOrderUL m = int (card U)"
    using fill_config_fresh [OF s(2) [rule_format, OF m(1)] m(2,3)] m(4) by auto
  have pos: "0 < patternOrderDL m" "0 < patternOrderUL m"
  proof -
    have "set_fits m" using s(2) m(1) by blast
    then show "0 < patternOrderDL m" "0 < patternOrderUL m"
      unfolding set_fits_def pattern_fits_def pattern_slots_def by (auto split: if_splits)
  qed
  show card: "0 < card D" "0 < card U" using pos by (simp_all add: eq)
  have "set_within (capability ! k) m" using s(3) m(1) by blast
  then show "within (capability ! k) (card D) (card U)" by (simp add: set_within_def eq)
  show "finite D" "finite U" using card by (simp_all add: card_gt_0_iff)
qed

section \<open>Crossing out configurations\<close>

text \<open>The configurations of a class that contain everything allocated so far.\<close>

definition options_left :: "nat \<Rightarrow> 'p SchedAlloc \<Rightarrow> (nat set \<times> nat set) set" where
  "options_left mclass s = {(D, U) \<in> multislot_options mclass.
     slots (sa_allocatedTsDL s) \<subseteq> D \<and> slots (sa_allocatedTsUL s) \<subseteq> U}"

definition fits_config :: "'p SchedAlloc \<Rightarrow> MultislotConfig \<Rightarrow> bool" where
  "fits_config s c \<longleftrightarrow> slots (sa_allocatedTsDL s) \<subseteq> slots (mc_allowedTsDL c) \<and>
     slots (sa_allocatedTsUL s) \<subseteq> slots (mc_allowedTsUL c)"

text \<open>
  \<open>prepared\<close>: the candidates are the configurations of the class, and none that still fits has been crossed
  out; \<open>tracking\<close>: those that no longer fit have been.
\<close>

definition prepared :: "nat \<Rightarrow> 'p SchedAlloc \<Rightarrow> bool" where
  "prepared mclass s \<longleftrightarrow> config_slots ` set (cands s) = multislot_options mclass \<and>
     length (sa_allocatedTsDL s) = MAX_TIMESLOTS \<and> length (sa_allocatedTsUL s) = MAX_TIMESLOTS \<and>
     (\<forall>c \<in> set (cands s). sized c \<and> (fits_config s c \<longrightarrow> mc_valid c)) \<and>
     0 \<le> sa_nbrOfCandConfigs s \<and> sa_nbrOfCandConfigs s \<le> int (length (sa_candMultiConfig s))"

definition tracking :: "nat \<Rightarrow> 'p SchedAlloc \<Rightarrow> bool" where
  "tracking mclass s \<longleftrightarrow> prepared mclass s \<and> (\<forall>c \<in> set (cands s). mc_valid c \<longleftrightarrow> fits_config s c)"

definition naturals :: "nat \<Rightarrow> 'p SchedAlloc \<Rightarrow> nat set" where
  "naturals mclass s = {ts. \<exists>(D, U) \<in> options_left mclass s. ts \<in> D \<and> ts \<in> U}"

lemma config_valid_update [simp]:
  "config_slots (c\<lparr>mc_valid := v\<rparr>) = config_slots c" "sized (c\<lparr>mc_valid := v\<rparr>) = sized c"
  "fits_config s (c\<lparr>mc_valid := v\<rparr>) = fits_config s c" "fits_config (s\<lparr>sa_candMultiConfig := cs\<rparr>) c = fits_config s c"
  by (simp_all add: config_slots_def sized_def fits_config_def)

lemma slots_nth: "length a = n \<Longrightarrow> ts < n \<Longrightarrow> a ! ts \<longleftrightarrow> ts \<in> slots a"
  by (auto simp: slots_def)

lemma slots_subset:
  assumes "length a = 8" "length b = 8"
  shows "slots a \<subseteq> slots b \<longleftrightarrow> list_all (\<lambda>ts. a ! ts \<longrightarrow> b ! ts) [0..<8]"
  using assms by (auto simp: slots_def list_all_iff)

lemma still_valid_fits:
  assumes "sized c" "length (sa_allocatedTsDL s) = 8" "length (sa_allocatedTsUL s) = 8"
  shows "still_valid (sa_allocatedTsDL s) (sa_allocatedTsUL s) c \<longleftrightarrow> mc_valid c \<and> fits_config s c"
  using assms slots_subset [of "sa_allocatedTsDL s" "mc_allowedTsDL c"]
    slots_subset [of "sa_allocatedTsUL s" "mc_allowedTsUL c"]
  by (auto simp: still_valid_def fits_config_def sized_def list_all_iff)

lemma tracking_options:
  assumes "tracking k s"
  shows "(\<exists>c \<in> set (cands s). mc_valid c \<and> P (slots (mc_allowedTsDL c)) (slots (mc_allowedTsUL c))) \<longleftrightarrow>
     (\<exists>(D, U) \<in> options_left k s. P D U)"
proof -
  have m: "multislot_options k = config_slots ` set (cands s)" using assms by (simp add: tracking_def prepared_def)
  have "options_left k s = config_slots ` {c \<in> set (cands s). fits_config s c}"
    unfolding options_left_def m by (auto simp: fits_config_def config_slots_def)
  moreover have "{c \<in> set (cands s). fits_config s c} = {c \<in> set (cands s). mc_valid c}"
    using assms by (auto simp: tracking_def)
  ultimately have "options_left k s = config_slots ` {c \<in> set (cands s). mc_valid c}" by simp
  then show ?thesis by (auto simp: config_slots_def)
qed

lemma ConstrainCandMultiConfig_tracking:
  assumes "prepared k s" "ConstrainCandMultiConfig (s, h) = (s', h')"
  shows "tracking k s'" "options_left k s' = options_left k s" "sa_tbf s' = sa_tbf s"
    "sa_allocatedTsDL s' = sa_allocatedTsDL s" "sa_allocatedTsUL s' = sa_allocatedTsUL s"
    "\<exists>natural. h' = h(sa_tbf s := (h (sa_tbf s))\<lparr>tbf_naturalTs := natural\<rparr>) \<and>
       length natural = MAX_TIMESLOTS \<and> slots natural = naturals k s' \<inter> {..<MAX_TIMESLOTS}"
proof -
  let ?n = "nat (sa_nbrOfCandConfigs s)"
  let ?f = "\<lambda>c. c\<lparr>mc_valid := still_valid (sa_allocatedTsDL s) (sa_allocatedTsUL s) c\<rparr>"
  have n: "?n \<le> length (sa_candMultiConfig s)" using assms(1) by (simp add: prepared_def nat_le_iff)
  have s': "s' = s\<lparr>sa_candMultiConfig := map ?f (cands s) @ drop ?n (sa_candMultiConfig s)\<rparr>"
    using assms(2) by (simp add: ConstrainCandMultiConfig_def Let_def)
  have cs: "cands s' = map ?f (cands s)" using n by (simp add: s' min_def)
  have valid: "still_valid (sa_allocatedTsDL s) (sa_allocatedTsUL s) c \<longleftrightarrow> fits_config s c" if "c \<in> set (cands s)" for c
    using assms(1) that still_valid_fits [of c s] by (auto simp: prepared_def)
  have "config_slots ` set (cands s') = config_slots ` set (cands s)"
    unfolding cs by (simp add: image_image)
  then have prep: "prepared k s'"
    using assms(1) n valid unfolding prepared_def cs by (auto simp: s')
  show tr: "tracking k s'"
    unfolding tracking_def cs using prep valid by (auto simp: s')
  show "options_left k s' = options_left k s" "sa_tbf s' = sa_tbf s"
    "sa_allocatedTsDL s' = sa_allocatedTsDL s" "sa_allocatedTsUL s' = sa_allocatedTsUL s"
    by (simp_all add: options_left_def s')
  let ?nat = "map (\<lambda>ts. list_ex (\<lambda>c. mc_valid c \<and> mc_allowedTsDL c ! ts \<and> mc_allowedTsUL c ! ts) (cands s')) [0..<8]"
  have h': "h' = h(sa_tbf s := (h (sa_tbf s))\<lparr>tbf_naturalTs := ?nat\<rparr>)"
    unfolding cs using assms(2) by (simp add: ConstrainCandMultiConfig_def Let_def)
  have "ts \<in> slots ?nat \<longleftrightarrow> ts \<in> naturals k s' \<inter> {..<8}" for ts
  proof (cases "ts < 8")
    case True
    have "list_ex (\<lambda>c. mc_valid c \<and> mc_allowedTsDL c ! ts \<and> mc_allowedTsUL c ! ts) (cands s') \<longleftrightarrow>
        (\<exists>c \<in> set (cands s'). mc_valid c \<and> (ts \<in> slots (mc_allowedTsDL c) \<and> ts \<in> slots (mc_allowedTsUL c)))"
      using prep True unfolding list_ex_iff
      by (intro bex_cong refl) (auto simp: prepared_def sized_def slots_nth)
    then show ?thesis
      using True tracking_options [OF tr, of "\<lambda>D U. ts \<in> D \<and> ts \<in> U"] by (simp add: slots_def naturals_def)
  qed (simp add: slots_def)
  then show "\<exists>natural. h' = h(sa_tbf s := (h (sa_tbf s))\<lparr>tbf_naturalTs := natural\<rparr>) \<and>
       length natural = MAX_TIMESLOTS \<and> slots natural = naturals k s' \<inter> {..<MAX_TIMESLOTS}"
    using h' by (intro exI [of _ ?nat]) auto
qed

lemma ConstrainCandMultiConfig_natural:
  assumes "prepared k s" "ConstrainCandMultiConfig (s, h) = (s', h')"
  shows "length (tbf_naturalTs (h' (sa_tbf s))) = MAX_TIMESLOTS"
    "slots (tbf_naturalTs (h' (sa_tbf s))) = naturals k s' \<inter> {..<MAX_TIMESLOTS}"
proof -
  obtain natural where n: "h' = h(sa_tbf s := (h (sa_tbf s))\<lparr>tbf_naturalTs := natural\<rparr>)"
    "length natural = MAX_TIMESLOTS" "slots natural = naturals k s' \<inter> {..<MAX_TIMESLOTS}"
    using ConstrainCandMultiConfig_tracking(6) [OF assms] by blast
  have "tbf_naturalTs (h' (sa_tbf s)) = natural" unfolding n(1) by simp
  then show "length (tbf_naturalTs (h' (sa_tbf s))) = MAX_TIMESLOTS"
    "slots (tbf_naturalTs (h' (sa_tbf s))) = naturals k s' \<inter> {..<MAX_TIMESLOTS}" using n(2,3) by simp_all
qed

text \<open>The slots of direction \<open>dir\<close>.\<close>

definition side :: "LinkDirection \<Rightarrow> 'a \<times> 'a \<Rightarrow> 'a" where
  "side dir = (if dir = DL then fst else snd)"

lemma side_simps [simp]: "side DL = fst" "side UL = snd"
  by (simp_all add: side_def)

lemma IsAllowedTs_iff:
  assumes "tracking k s" "ts < MAX_TIMESLOTS"
  shows "IsAllowedTs dir ts s \<longleftrightarrow> (\<exists>opt \<in> options_left k s. ts \<in> side dir opt)"
proof -
  have "IsAllowedTs dir ts s \<longleftrightarrow>
      (\<exists>c \<in> set (cands s). mc_valid c \<and> ts \<in> side dir (slots (mc_allowedTsDL c), slots (mc_allowedTsUL c)))"
    using assms unfolding IsAllowedTs_def list_ex_iff
    by (intro bex_cong refl; cases dir) (auto simp: tracking_def prepared_def sized_def slots_nth)
  also have "\<dots> \<longleftrightarrow> (\<exists>(D, U) \<in> options_left k s. ts \<in> side dir (D, U))"
    by (rule tracking_options [OF assms(1)])
  finally show ?thesis by auto
qed

lemma IncludesNaturalTs_iff:
  assumes "length (tbf_naturalTs (h (sa_tbf s))) = MAX_TIMESLOTS" "length (sa_allocatedTsDL s) = MAX_TIMESLOTS"
    "length (sa_allocatedTsUL s) = MAX_TIMESLOTS" "ts < MAX_TIMESLOTS"
  shows "IncludesNaturalTs dir ts (s, h) \<longleftrightarrow> ts \<in> slots (tbf_naturalTs (h (sa_tbf s))) \<or>
     slots (tbf_naturalTs (h (sa_tbf s))) \<inter> side dir (slots (sa_allocatedTsDL s), slots (sa_allocatedTsUL s)) \<noteq> {}"
  using assms by (cases dir) (auto simp: IncludesNaturalTs_def Let_def list_ex_iff slots_def)

lemma AddSlotAllocation_prepared:
  assumes "tracking k s" "0 \<le> sa_ts s" "sa_ts s < int MAX_TIMESLOTS"
  obtains s' where "AddSlotAllocation s = Some s'" "prepared k s'"
    "side (sa_direction s) (slots (sa_allocatedTsDL s'), slots (sa_allocatedTsUL s')) =
       insert (nat (sa_ts s)) (side (sa_direction s) (slots (sa_allocatedTsDL s), slots (sa_allocatedTsUL s)))"
    "options_left k s' = {opt \<in> options_left k s. nat (sa_ts s) \<in> side (sa_direction s) opt}"
    "sa_tbf s' = sa_tbf s"
proof -
  have t: "nat (sa_ts s) < 8" "length (sa_allocatedTsDL s) = 8" "length (sa_allocatedTsUL s) = 8"
    using assms by (auto simp: tracking_def prepared_def)
  obtain s' where s': "AddSlotAllocation s = Some s'" using assms(2,3) by (simp add: AddSlotAllocation_def)
  have "fits_config s c" if "fits_config s' c" for c
    using that s' t assms(2,3) slots_update
    by (auto simp: AddSlotAllocation_def fits_config_def slots_update split: if_splits)
  then have "prepared k s'"
    using assms s' t by (cases "sa_direction s") (auto simp: AddSlotAllocation_def tracking_def prepared_def)
  moreover have "side (sa_direction s) (slots (sa_allocatedTsDL s'), slots (sa_allocatedTsUL s')) =
      insert (nat (sa_ts s)) (side (sa_direction s) (slots (sa_allocatedTsDL s), slots (sa_allocatedTsUL s)))"
    using s' t assms(2,3) by (cases "sa_direction s") (auto simp: AddSlotAllocation_def slots_update)
  moreover have "options_left k s' = {opt \<in> options_left k s. nat (sa_ts s) \<in> side (sa_direction s) opt}"
    using s' t assms(2,3) by (cases "sa_direction s") (auto simp: AddSlotAllocation_def slots_update options_left_def)
  moreover have "sa_tbf s' = sa_tbf s" using s' by (auto simp: AddSlotAllocation_def split: if_splits)
  ultimately show ?thesis using that s' by blast
qed

lemma compute_prepared:
  assumes "length (sa_candMultiConfig s) = MAX_MULTI_CONFIG_CANDIDATES"
    "length (sa_allocatedTsDL s) = MAX_TIMESLOTS" "length (sa_allocatedTsUL s) = MAX_TIMESLOTS"
    "ComputeMultislotOptions True s = Some s'"
  shows "prepared (nat (sa_multislotClass s' - 1)) s'" "\<forall>c \<in> set (cands s'). mc_valid c"
proof -
  obtain k sets where k: "k = nat (sa_multislotClass (LimitQoS s) - 1)" "k < 12" "multi_sets True k = Some sets"
    "\<forall>m \<in> set sets. set_fits m" "length (configs sets) \<le> 173"
    and s': "s' = (LimitQoS s)\<lparr>sa_maxDlSlots := multiMaxDlSlots ! k,
       sa_maxUlSlots := multiMaxUlSlots ! k, sa_nbrOfCandConfigs := int (length (configs sets)),
       sa_candMultiConfig := configs sets @ drop (length (configs sets)) (sa_candMultiConfig s)\<rparr>"
    using compute_options [OF assms(1)] assms(4) by (metis option.sel)
  have cs: "cands s' = configs sets" by (simp add: s')
  show "\<forall>c \<in> set (cands s'). mc_valid c" unfolding cs using configs_slots(2) [OF k(3)] k(4) by blast
  show "prepared (nat (sa_multislotClass s' - 1)) s'"
    using configs_slots [OF k(3)] assms(2,3) k(1,4,5) unfolding prepared_def cs
    by (simp add: s' LimitQoS_def)
qed

lemma ComputeMultislotOptions_total:
  assumes "length (sa_candMultiConfig s) = MAX_MULTI_CONFIG_CANDIDATES"
  shows "\<exists>s'. ComputeMultislotOptions True s = Some s'"
  using compute_options [OF assms] by blast

section \<open>Properties\<close>

lemma those_length: "those xs = Some ys \<Longrightarrow> length ys = length xs"
  by (auto dest: those_Some)

lemma multi_sets_nonempty:
  assumes "k < 12" "multi_sets schar k = Some sets"
  shows "sets \<noteq> []"
proof -
  have "list_all (\<lambda>k. 0 < nbrMultiConfig ! k) [0..<12]" by code_simp
  then have "0 < nbrMultiConfig ! k" using assms(1) unfolding list_all_iff by (metis atLeastLessThan_iff le0 set_upt)
  then show ?thesis using those_length [OF assms(2) [unfolded multi_sets_def]] by auto
qed

lemma options_wellformed:
  assumes "length (sa_candMultiConfig s) = MAX_MULTI_CONFIG_CANDIDATES"
  shows "\<exists>s' rx tx total. ComputeMultislotOptions True s = Some s' \<and>
     sa_multislotClass s' \<in> {1..12} \<and> sa_delayClass s' \<in> {1..4} \<and> sa_precedenceClass s' \<in> {1..3} \<and>
     sa_peakThroughputClass s' \<in> {1..9} \<and>
     capability ! nat (sa_multislotClass s' - 1) = (rx, tx, total) \<and>
     sa_maxDlSlots s' = int rx \<and> sa_maxUlSlots s' = int tx \<and>
     0 < sa_nbrOfCandConfigs s' \<and> sa_nbrOfCandConfigs s' \<le> int MAX_MULTI_CONFIG_CANDIDATES \<and>
     (\<forall>c \<in> set (cands s'). mc_valid c \<and>
        length (mc_allowedTsDL c) = MAX_TIMESLOTS \<and> length (mc_allowedTsUL c) = MAX_TIMESLOTS \<and>
        0 < card (slots (mc_allowedTsDL c)) \<and> card (slots (mc_allowedTsDL c)) \<le> rx \<and>
        0 < card (slots (mc_allowedTsUL c)) \<and> card (slots (mc_allowedTsUL c)) \<le> tx \<and>
        card (slots (mc_allowedTsDL c)) + card (slots (mc_allowedTsUL c)) \<le> total)"
proof -
  obtain k sets where k: "k = nat (sa_multislotClass (LimitQoS s) - 1)" "k < 12" "multi_sets True k = Some sets"
    and fits: "\<forall>m \<in> set sets. set_fits m" and cap: "\<forall>m \<in> set sets. set_within (capability ! k) m"
    and run: "ComputeMultislotOptions True s = Some ((LimitQoS s)\<lparr>sa_maxDlSlots := multiMaxDlSlots ! k,
       sa_maxUlSlots := multiMaxUlSlots ! k, sa_nbrOfCandConfigs := int (length (configs sets)),
       sa_candMultiConfig := configs sets @ drop (length (configs sets)) (sa_candMultiConfig s)\<rparr>)"
      (is "_ = Some ?s'")
    and len: "length (configs sets) \<le> 173"
    using compute_options [OF assms] by blast
  note fit = fits [rule_format]
  obtain rx tx total where rx: "capability ! k = (rx, tx, total)" by (cases "capability ! k")
  have "list_all (\<lambda>k. multiMaxDlSlots ! k = int (fst (capability ! k)) \<and>
      multiMaxUlSlots ! k = int (fst (snd (capability ! k)))) [0..<12]" by code_simp
  then have max: "multiMaxDlSlots ! k = int rx" "multiMaxUlSlots ! k = int tx"
    using k(2) rx by (auto simp: list_all_iff)
  have card: "0 < card (fst (config_slots c)) \<and> 0 < card (snd (config_slots c)) \<and>
      within (rx, tx, total) (card (fst (config_slots c))) (card (snd (config_slots c)))"
    if "c \<in> set (configs sets)" for c
    using multislot_options_within [OF k(2), of "fst (config_slots c)" "snd (config_slots c)"] that rx
      configs_slots(1) [OF k(3) fit] by (metis (no_types, lifting) imageI prod.collapse)
  have some: "configs sets \<noteq> []"
    using multi_sets_nonempty [OF k(2,3)] fit
    by (cases sets) (auto simp: configs_def set_fits_def upto.simps)
  have cs: "cands ?s' = configs sets" by simp
  have each: "\<forall>c \<in> set (cands ?s'). mc_valid c \<and>
        length (mc_allowedTsDL c) = MAX_TIMESLOTS \<and> length (mc_allowedTsUL c) = MAX_TIMESLOTS \<and>
        0 < card (slots (mc_allowedTsDL c)) \<and> card (slots (mc_allowedTsDL c)) \<le> rx \<and>
        0 < card (slots (mc_allowedTsUL c)) \<and> card (slots (mc_allowedTsUL c)) \<le> tx \<and>
        card (slots (mc_allowedTsDL c)) + card (slots (mc_allowedTsUL c)) \<le> total"
    unfolding cs using card configs_slots(2) [OF k(3) fit] by (auto simp: config_slots_def sized_def within_def)
  show ?thesis
  proof (intro exI conjI)
    show "ComputeMultislotOptions True s = Some ?s'" by (rule run)
    show "\<forall>c \<in> set (cands ?s'). mc_valid c \<and>
        length (mc_allowedTsDL c) = MAX_TIMESLOTS \<and> length (mc_allowedTsUL c) = MAX_TIMESLOTS \<and>
        0 < card (slots (mc_allowedTsDL c)) \<and> card (slots (mc_allowedTsDL c)) \<le> rx \<and>
        0 < card (slots (mc_allowedTsUL c)) \<and> card (slots (mc_allowedTsUL c)) \<le> tx \<and>
        card (slots (mc_allowedTsDL c)) + card (slots (mc_allowedTsUL c)) \<le> total" by (rule each)
  qed (use max some len rx k(1) limit_bounds in \<open>simp_all add: LimitQoS_def\<close>)
qed

text \<open>
  The tables rely on the signedness of \<^verbatim>\<open>char\<close>. Where the compiler takes \<^verbatim>\<open>char\<close> as unsigned, as compilers
  for the PowerPC of this board do unless told otherwise, \<open>char(-1)\<close> is 255, and for every multislot
  class from 4 on the uplink pattern of the first parameter set is entered behind the end of its array.
\<close>

theorem unsigned_char_overruns:
  assumes "4 \<le> sa_multislotClass s" "length (sa_candMultiConfig s) = MAX_MULTI_CONFIG_CANDIDATES"
  shows "ComputeMultislotOptions False s = None"
proof -
  let ?k = "nat (sa_multislotClass (LimitQoS s) - 1)"
  let ?m = "\<lparr>rangeStartDL = 1, rangeEndDL = 7, patternOrderDL = 1, patternIndexDL = 1,
     slotOffsetUL = 255, patternOrderUL = 1, patternIndexUL = 1\<rparr>"
  have k: "?k \<in> set [3..<12]" using assms(1) by (auto simp: LimitQoS_def limit_def)
  have "list_all (\<lambda>k. case multi_sets False k of None \<Rightarrow> False | Some sets \<Rightarrow> hd sets = ?m \<and> 0 < count_configs sets) [3..<12]"
    by code_simp
  then obtain sets where s: "multi_sets False ?k = Some sets" "hd sets = ?m" "0 < count_configs sets"
    using k unfolding list_all_iff by (fastforce split: option.splits)
  moreover have "sets \<noteq> []" using multi_sets_nonempty [OF _ s(1)] k by auto
  ultimately obtain rest where sets: "sets = ?m # rest" by (cases sets) auto
  let ?n = "nat (if count_configs sets > 173 then 173 else count_configs sets)"
  let ?cands = "map clear_config (take ?n (sa_candMultiConfig s)) @ drop ?n (sa_candMultiConfig s)"
  have n: "0 < ?n" using s(3) by simp
  then have c: "?cands ! 0 = fresh" "0 < length ?cands"
    using assms(2) by (auto simp: nth_append clear_config_def fresh_def)
  have "pattern_slots 1 1 = Some [0]" by code_simp
  then have "fill_config ?m 1 fresh = None" by (simp add: fill_config_def fresh_def)
  then have "set_loop sets 0 ?cands = None"
    using c by (simp add: sets upto.simps [of 1 7])
  then show ?thesis
    using s(1) by (cases "count_configs sets > 173") (simp_all add: ComputeMultislotOptions_def Let_def LimitQoS_def)
qed

theorem unsigned_char_overruns_witness:
  "ComputeMultislotOptions False (SchedAlloc_new (replicate 173 fresh) 0 0 0 8 1 1 5 (0 :: nat) DL None) = None"
  by (rule unsigned_char_overruns) (simp_all add: SchedAlloc_new_def Let_def)

text \<open>The first three classes name no negative offset, and the signedness is the same to them.\<close>

lemma multi_sets_small: "k < 3 \<Longrightarrow> multi_sets schar k = multi_sets True k"
proof (cases schar)
  case False
  assume k: "k < 3"
  have "list_all (\<lambda>k. multi_sets False k = multi_sets True k) [0..<3]" by code_simp
  then have "multi_sets False k = multi_sets True k" using k unfolding list_all_iff by (metis atLeastLessThan_iff le0 set_upt)
  then show ?thesis using False by simp
qed simp

lemma ComputeMultislotOptions_schar:
  assumes "schar \<or> sa_multislotClass s < 4"
  shows "ComputeMultislotOptions schar s = ComputeMultislotOptions True s"
proof (cases schar)
  case False
  then have "nat (sa_multislotClass (LimitQoS s) - 1) < 3" using assms by (auto simp: LimitQoS_def limit_def)
  from multi_sets_small [OF this, of schar] show ?thesis by (simp add: ComputeMultislotOptions_def Let_def)
qed simp

text \<open>
  C29: the candidate configurations are well formed, and which are computed at all depends on \<^verbatim>\<open>char\<close>. Where it
  is signed, or the multislot class is one of the first three, \<open>ComputeMultislotOptions\<close> stays inside its tables and
  arrays, brings the four classes into their ranges, and leaves at least one and at most 173 candidates; each of them
  is valid, uses at least one timeslot in either direction, and no more timeslots in reception, in transmission and
  together than GSM 05.02 grants the multislot class. Where \<^verbatim>\<open>char\<close> is unsigned, every other class leaves the array.
\<close>

theorem multislot_options_wellformed:
  assumes "length (sa_candMultiConfig s) = MAX_MULTI_CONFIG_CANDIDATES"
  shows "if schar \<or> sa_multislotClass s < 4 then
       \<exists>s' rx tx total. ComputeMultislotOptions schar s = Some s' \<and>
         sa_multislotClass s' \<in> {1..12} \<and> sa_delayClass s' \<in> {1..4} \<and> sa_precedenceClass s' \<in> {1..3} \<and>
         sa_peakThroughputClass s' \<in> {1..9} \<and>
         capability ! nat (sa_multislotClass s' - 1) = (rx, tx, total) \<and>
         sa_maxDlSlots s' = int rx \<and> sa_maxUlSlots s' = int tx \<and>
         0 < sa_nbrOfCandConfigs s' \<and> sa_nbrOfCandConfigs s' \<le> int MAX_MULTI_CONFIG_CANDIDATES \<and>
         (\<forall>c \<in> set (cands s'). mc_valid c \<and>
            length (mc_allowedTsDL c) = MAX_TIMESLOTS \<and> length (mc_allowedTsUL c) = MAX_TIMESLOTS \<and>
            0 < card (slots (mc_allowedTsDL c)) \<and> card (slots (mc_allowedTsDL c)) \<le> rx \<and>
            0 < card (slots (mc_allowedTsUL c)) \<and> card (slots (mc_allowedTsUL c)) \<le> tx \<and>
            card (slots (mc_allowedTsDL c)) + card (slots (mc_allowedTsUL c)) \<le> total)
     else ComputeMultislotOptions schar s = None"
proof (cases "schar \<or> sa_multislotClass s < 4")
  case True
  show ?thesis unfolding if_P [OF True] ComputeMultislotOptions_schar [OF True] by (rule options_wellformed [OF assms])
next
  case False
  then have "ComputeMultislotOptions schar s = None" using unsigned_char_overruns [OF _ assms] by simp
  then show ?thesis unfolding if_not_P [OF False] .
qed

theorem multislot_options_wellformed_witness:
  "(\<exists>s'. ComputeMultislotOptions True (SchedAlloc_new (replicate 173 fresh) 0 0 0 29 0 7 0 (0 :: nat) UL None) = Some s') \<and>
   ComputeMultislotOptions False (SchedAlloc_new (replicate 173 fresh) 0 0 0 4 0 7 0 (0 :: nat) UL None) = None"
  using multislot_options_wellformed [of "SchedAlloc_new (replicate 173 fresh) 0 0 0 29 0 7 0 (0 :: nat) UL None" True]
    multislot_options_wellformed [of "SchedAlloc_new (replicate 173 fresh) 0 0 0 4 0 7 0 (0 :: nat) UL None" False]
  by (auto simp: SchedAlloc_new_def Let_def)

text \<open>Of the pattern tables, that of order 5 lists one pattern twice and misses another; the others are complete.\<close>

definition all_patterns :: "nat \<Rightarrow> int list list" where
  "all_patterns order = filter (\<lambda>p. length p = order \<and> hd p = 0 \<and> p \<noteq> []) (subseqs [0..7])"

lemma pattern_tables:
  "list_all (\<lambda>o'. (set (map (take o') (take (nbrTsPatterns ! (o' - 1)) (tsPattern ! (o' - 1)))) = set (all_patterns o')) =
     (o' \<noteq> 5)) [1..<9]"
  by code_simp

end
