(* ===== verification/MacScheduler.thy ===== *)
theory MacScheduler
  imports MultislotOptions TSPool
begin

text \<open>
  The MAC scheduler, \<^verbatim>\<open>Rlc_mac/src/MacScheduler.cpp\<close>: allocation of timeslots and schedule queue entries to a
  TBF, reallocation, release, and the choice of the next TBF to send.  A TBF is known by its pointer \<open>'p\<close>;
  the operations work on the store of TBFs and on the timeslot pool.  \<open>None\<close> is the result of an operation
  that follows a null pointer or leaves an array.  Left out: the choice of a slot by its floating-point
  utilised capacity.
\<close>

section \<open>Surroundings\<close>

text \<open>What the radio resource component answers about the configuration of the cell.\<close>

datatype AdministrativeState = locked | unlocked | shuttingDown
datatype EnableDisable = opStateDisabled | opStateEnabled

abbreviation (input) pDCHData :: int where "pDCHData \<equiv> 13"

record Grr =
  grr_GetBtsAmState :: AdministrativeState
  grr_GetTrxAmState :: "nat \<Rightarrow> AdministrativeState"
  grr_GetTrxSlotAmState :: "nat \<Rightarrow> nat \<Rightarrow> AdministrativeState"
  grr_GetBtsOpState :: EnableDisable
  grr_GetTrxOpState :: "nat \<Rightarrow> EnableDisable"
  grr_GetTrxSlotOpState :: "nat \<Rightarrow> nat \<Rightarrow> EnableDisable"
  grr_GetTrxSlotChanComb :: "nat \<Rightarrow> nat \<Rightarrow> int"

definition usable :: "Grr \<Rightarrow> nat \<Rightarrow> nat \<Rightarrow> bool" where
  "usable g trx ts \<longleftrightarrow>
     grr_GetBtsAmState g = unlocked \<and> grr_GetTrxAmState g trx = unlocked \<and>
     grr_GetTrxSlotAmState g trx ts = unlocked \<and>
     grr_GetBtsOpState g = opStateEnabled \<and> grr_GetTrxOpState g trx = opStateEnabled \<and>
     grr_GetTrxSlotOpState g trx ts = opStateEnabled \<and> grr_GetTrxSlotChanComb g trx ts = pDCHData"

text \<open>The pointers that \<open>GetQueue\<close> and \<open>GetScheduleInfo\<close> of the pool return are null for invalid numbers.\<close>

definition queue_at :: "LinkDirection \<Rightarrow> int \<Rightarrow> int \<Rightarrow> ('p, 'm) TSPool \<Rightarrow> 'p ScheduleQueue option" where
  "queue_at dir trx ts p =
     (if IsTrxTsValid trx ts then Some (GetQueue dir (ts_scheduleInfo (get_ts trx ts p))) else None)"

definition on_info :: "('p ScheduleInfo \<Rightarrow> 'p ScheduleInfo) \<Rightarrow> int \<Rightarrow> int \<Rightarrow> ('p, 'm) TSPool \<Rightarrow> ('p, 'm) TSPool" where
  "on_info f trx ts p = put_ts trx ts
     ((get_ts trx ts p)\<lparr>ts_scheduleInfo := f (ts_scheduleInfo (get_ts trx ts p))\<rparr>) p"

type_synonym ('p, 'a, 'm) sched = "'p SchedAlloc \<times> ('p \<Rightarrow> 'a Tbf_scheme) \<times> ('p, 'm) TSPool"

definition set_allocatedTs :: "nat \<Rightarrow> bool \<Rightarrow> 'a Tbf_scheme \<Rightarrow> 'a Tbf_scheme" where
  "set_allocatedTs ts v t = t\<lparr>tbf_allocatedTs := (tbf_allocatedTs t)[ts := v]\<rparr>"

section \<open>Finding and allocating one slot\<close>

text \<open>The body of the loops of \<open>FindBestSlot\<close>.\<close>

definition consider_slot ::
  "Grr \<Rightarrow> ('p \<Rightarrow> 'a Tbf_scheme) \<Rightarrow> ('p, 'm) TSPool \<Rightarrow> nat \<times> nat \<Rightarrow> 'p SchedAlloc \<Rightarrow> 'p SchedAlloc option" where
  "consider_slot g h p = (\<lambda>(localTrx, ts) s.
     if usable g localTrx ts \<and>
        OkayToAddUser (sa_direction s) (ts_scheduleInfo (get_ts (int localTrx) (int ts) p)) \<and>
        IsAllowedTs (sa_direction s) ts s \<and> IncludesNaturalTs (sa_direction s) ts (s, h)
     then do {
       q \<leftarrow> queue_at (sa_direction s) (int localTrx) (int ts) p;
       availableEntries \<leftarrow> FindAvailableEntries (sa_tbf s) (nat (sa_delayClass s - 1)) (sa_precedenceClass s) q;
       Some (if availableEntries > sa_entries s
             then SetNewSlotAllocation (int localTrx) (int ts) availableEntries s else s)
     }
     else Some s)"

definition slots_to_try :: "LinkDirection \<Rightarrow> int \<Rightarrow> (nat \<times> nat) list" where
  "slots_to_try dir trx =
     concat (map (\<lambda>localTrx. if trx = NULL_TRX \<or> trx = int localTrx
       then map (Pair localTrx) (if dir = DL then [0..<MAX_TIMESLOTS] else rev [0..<MAX_TIMESLOTS])
       else []) [0..<MAX_TRX])"

fun consider_loop ::
  "Grr \<Rightarrow> ('p \<Rightarrow> 'a Tbf_scheme) \<Rightarrow> ('p, 'm) TSPool \<Rightarrow> (nat \<times> nat) list \<Rightarrow> 'p SchedAlloc \<Rightarrow> 'p SchedAlloc option" where
  "consider_loop g h p [] s = Some s"
| "consider_loop g h p (x # xs) s = do { s' \<leftarrow> consider_slot g h p x s; consider_loop g h p xs s' }"

definition FindBestSlot ::
  "Grr \<Rightarrow> ('p \<Rightarrow> 'a Tbf_scheme) \<Rightarrow> ('p, 'm) TSPool \<Rightarrow> 'p SchedAlloc \<Rightarrow> 'p SchedAlloc option" where
  "FindBestSlot g h p s =
     consider_loop g h p (slots_to_try (sa_direction s) (tbf_trx (h (sa_tbf s)))) (InitializeNewSlotAllocation s)"

definition UpdateAllowedSlots ::
  "'p SchedAlloc \<times> ('p \<Rightarrow> 'a Tbf_scheme) \<Rightarrow> ('p SchedAlloc \<times> ('p \<Rightarrow> 'a Tbf_scheme)) option" where
  "UpdateAllowedSlots = (\<lambda>(s, h). map_option (\<lambda>s'. ConstrainCandMultiConfig (s', h)) (AddSlotAllocation s))"

text \<open>It returns \<open>TRUE\<close> whenever entries were found, also when \<open>AllocateEntries\<close> then takes none.\<close>

definition AllocateOneSlot :: "Grr \<Rightarrow> ('p, 'a, 'm) sched \<Rightarrow> (bool \<times> ('p, 'a, 'm) sched) option" where
  "AllocateOneSlot g = (\<lambda>(s0, h, p). do {
     s \<leftarrow> FindBestSlot g h p s0;
     let dir = sa_direction s;
     if sa_entries s > 0 then do {
       q \<leftarrow> queue_at dir (sa_trx s) (sa_ts s) p;
       (k, q') \<leftarrow> AllocateEntries (sa_tbf s) (nat (sa_delayClass s - 1)) (sa_precedenceClass s) q;
       let p1 = on_info (PutQueue dir q') (sa_trx s) (sa_ts s) p;
       if k \<noteq> 0 then do {
         let h1 = h(sa_tbf s := set_allocatedTs (nat (sa_ts s)) True ((h (sa_tbf s))\<lparr>tbf_trx := sa_trx s\<rparr>));
         (s2, h2) \<leftarrow> UpdateAllowedSlots (s, h1);
         Some (True, s2, h2, on_info (UpdateUsersAndCapacity dir) (sa_trx s) (sa_ts s) p1)
       }
       else Some (True, s, h, p1)
     }
     else Some (False, s, h, p)
   })"

text \<open>
  The loop \<^verbatim>\<open>while (slotCount < desiredSlots && AllocateOneSlot(schedAllocInfo))\<close>, \<open>n\<close> slots to go; it returns
  the slots and the queue entries that were allocated.
\<close>

fun allocate_slots :: "Grr \<Rightarrow> nat \<Rightarrow> ('p, 'a, 'm) sched \<Rightarrow> (nat \<times> int \<times> ('p, 'a, 'm) sched) option" where
  "allocate_slots g 0 st = Some (0, 0, st)"
| "allocate_slots g (Suc n) st = do {
     (more_slots, st1) \<leftarrow> AllocateOneSlot g st;
     if more_slots then do {
       (slotCount, entries, st2) \<leftarrow> allocate_slots g n st1;
       Some (slotCount + 1, sa_entries (fst st1) + entries, st2)
     }
     else Some (0, 0, st1)
   }"

section \<open>The branches on the direction\<close>

text \<open>
  What \<open>AllocateUser\<close>, \<open>AllocateUserIfBetterQoS\<close> and \<open>DeallocateUser\<close> do under \<^verbatim>\<open>if (dir == DL)\<close> and
  \<^verbatim>\<open>if (dir == UL)\<close>, where they cast the TBF pointer to the class of that direction.
\<close>

record ('p, 'a, 'm) branch =
  br_AllocateTFI :: "int \<Rightarrow> 'p \<Rightarrow> ('p \<Rightarrow> 'a Tbf_scheme) \<times> ('p, 'm) TSPool \<Rightarrow> ('p \<Rightarrow> 'a Tbf_scheme) \<times> ('p, 'm) TSPool"
  br_AllocateUSF :: "int \<Rightarrow> int \<Rightarrow> 'p \<Rightarrow> ('p \<Rightarrow> 'a Tbf_scheme) \<times> ('p, 'm) TSPool \<Rightarrow> ('p \<Rightarrow> 'a Tbf_scheme) \<times> ('p, 'm) TSPool"
  br_ReleaseUSF :: "int \<Rightarrow> int \<Rightarrow> 'a Tbf_scheme \<Rightarrow> ('p, 'm) TSPool \<Rightarrow> ('p, 'm) TSPool"
  br_ReleaseTFI :: "int \<Rightarrow> 'a Tbf_scheme \<Rightarrow> ('p, 'm) TSPool \<Rightarrow> ('p, 'm) TSPool"

definition dl_branch :: "('p, 'a, 'm) branch" where
  "dl_branch = \<lparr>br_AllocateTFI = (\<lambda>trx u x. snd (AllocateDLTFI trx u x)),
     br_AllocateUSF = (\<lambda>trx ts u x. x), br_ReleaseUSF = (\<lambda>trx ts t p. p),
     br_ReleaseTFI = (\<lambda>trx t p. ReleaseDLTFI trx (tfi_val (tbf_tfi t)) p)\<rparr>"

definition ul_branch :: "('p, \<lparr>ul_usf :: octet list, ul_ctlAckTag :: octet\<rparr>, 'm) branch" where
  "ul_branch = \<lparr>br_AllocateTFI = (\<lambda>trx u x. snd (AllocateULTFI trx u x)),
     br_AllocateUSF = (\<lambda>trx ts u x. snd (TSPool_AllocateUSF trx ts u x)),
     br_ReleaseUSF = (\<lambda>trx ts t p. TSPool_ReleaseUSF trx ts (ul_usf t ! nat ts) p),
     br_ReleaseTFI = (\<lambda>trx t p. ReleaseULTFI trx (tfi_val (tbf_tfi t)) p)\<rparr>"

section \<open>Allocating a user\<close>

text \<open>A TAI on the first allocated slot and a USF on each; \<open>todo\<close>: no TAI has been allocated yet.\<close>

fun assign_loop ::
  "('p, 'a, 'm) branch \<Rightarrow> 'p \<Rightarrow> nat list \<Rightarrow> bool \<Rightarrow> ('p \<Rightarrow> 'a Tbf_scheme) \<times> ('p, 'm) TSPool \<Rightarrow>
   ('p \<Rightarrow> 'a Tbf_scheme) \<times> ('p, 'm) TSPool" where
  "assign_loop br u [] todo x = x"
| "assign_loop br u (ts # tss) todo x =
     (if tbf_allocatedTs (fst x u) ! ts then
        let trx = tbf_trx (fst x u);
            x1 = (if todo then snd (TSPool_AllocateTAI trx (int ts) u x) else x)
        in assign_loop br u tss False (br_AllocateUSF br trx (int ts) u x1)
      else assign_loop br u tss todo x)"

definition AllocateUser ::
  "('p, 'a, 'm) branch \<Rightarrow> Grr \<Rightarrow> ('p, 'a, 'm) sched \<Rightarrow> (bool \<times> ('p, 'a, 'm) sched) option" where
  "AllocateUser br g = (\<lambda>(s0, h0, p0). do {
     let desiredSlots = ComputeDesiredNumberOfSlots s0;
     let (s1, h1) = ConstrainCandMultiConfig (s0, h0);
     (slotCount, _, s, h, p) \<leftarrow> allocate_slots g (nat desiredSlots) (s1, h1, p0);
     if slotCount > 0 then
       let u = sa_tbf s;
           (h', p') = assign_loop br u [0..<MAX_TIMESLOTS] True (br_AllocateTFI br (tbf_trx (h u)) u (h, p))
       in Some (True, s, h', p')
     else Some (False, s, h, p)
   })"

section \<open>Reallocation\<close>

text \<open>
  The level loop of \<open>AllocateUserIfBetterQoS\<close>: deallocate, rebalance, and count slots and entries of the
  desired level.
\<close>

fun vacate_levels :: "'p \<Rightarrow> nat \<Rightarrow> nat list \<Rightarrow> 'p ScheduleQueue \<times> nat \<times> int \<Rightarrow> ('p ScheduleQueue \<times> nat \<times> int) option" where
  "vacate_levels u desiredLevel [] x = Some x"
| "vacate_levels u desiredLevel (level # levels) (q, nslots, entries) = do {
     (nbr, q1) \<leftarrow> DeallocateEntries u level q;
     if nbr > 0 then do {
       q2 \<leftarrow> BalanceEntries level q1;
       vacate_levels u desiredLevel levels
         (q2, if level = desiredLevel then nslots + 1 else nslots,
              if level = desiredLevel then entries + nbr else entries)
     }
     else vacate_levels u desiredLevel levels (q1, nslots, entries)
   }"

text \<open>The loop over the timeslots that saves the queues and takes the TBF out of them.\<close>

fun vacate_slots ::
  "LinkDirection \<Rightarrow> 'p \<Rightarrow> nat \<Rightarrow> nat list \<Rightarrow> ('p \<Rightarrow> 'a Tbf_scheme) \<times> ('p, 'm) TSPool \<times> nat \<times> int \<Rightarrow>
   (('p \<Rightarrow> 'a Tbf_scheme) \<times> ('p, 'm) TSPool \<times> nat \<times> int) option" where
  "vacate_slots dir u desiredLevel [] x = Some x"
| "vacate_slots dir u desiredLevel (ts # tss) (h, p, nslots, entries) = do {
     let trx = tbf_trx (h u);
     q \<leftarrow> queue_at dir trx (int ts) p;
     let p1 = on_info (PutQueue dir (CopyQueue q)) trx (int ts) p;
     let h1 = h(u := set_allocatedTs ts False (h u));
     if tbf_allocatedTs (h u) ! ts then do {
       (q', nslots', entries') \<leftarrow> vacate_levels u desiredLevel [0..<QUEUE_NUM_LEVELS] (CopyQueue q, nslots, entries);
       let p2 = on_info (\<lambda>i. UpdateUsersAndCapacity dir (PutQueue dir q' i)) trx (int ts) p1;
       vacate_slots dir u desiredLevel tss (h1, p2, nslots', entries')
     }
     else vacate_slots dir u desiredLevel tss (h1, p1, nslots, entries)
   }"

fun release_usfs ::
  "('p, 'a, 'm) branch \<Rightarrow> nat list \<Rightarrow> 'a Tbf_scheme \<Rightarrow> ('p, 'm) TSPool \<Rightarrow> ('p, 'm) TSPool" where
  "release_usfs br [] t p = p"
| "release_usfs br (ts # tss) t p = release_usfs br tss t (br_ReleaseUSF br (tbf_trx t) (int ts) t p)"

fun restore_slots ::
  "LinkDirection \<Rightarrow> 'p \<Rightarrow> bool list \<Rightarrow> nat list \<Rightarrow> ('p \<Rightarrow> 'a Tbf_scheme) \<times> ('p, 'm) TSPool \<Rightarrow>
   (('p \<Rightarrow> 'a Tbf_scheme) \<times> ('p, 'm) TSPool) option" where
  "restore_slots dir u original [] x = Some x"
| "restore_slots dir u original (ts # tss) (h, p) = do {
     let trx = tbf_trx (h u);
     q \<leftarrow> queue_at dir trx (int ts) p;
     restore_slots dir u original tss
       (h(u := set_allocatedTs ts (original ! ts) (h u)), on_info (PutQueue dir (RestoreQueue q)) trx (int ts) p)
   }"

definition AllocateUserIfBetterQoS ::
  "('p, 'a, 'm) branch \<Rightarrow> Grr \<Rightarrow> ('p, 'a, 'm) sched \<Rightarrow> (bool \<times> ('p, 'a, 'm) sched) option" where
  "AllocateUserIfBetterQoS br g = (\<lambda>(s0, h0, p0). do {
     let desiredSlots = ComputeDesiredNumberOfSlots s0;
     let u = sa_tbf s0;
     let dir = sa_direction s0;
     let (s1, h1) = ConstrainCandMultiConfig (s0, h0);
     let original = tbf_allocatedTs (h1 u);
     (h2, p2, oldSlotCount, oldEntryCount) \<leftarrow>
       vacate_slots dir u (nat (sa_delayClass s1 - 1)) [0..<MAX_TIMESLOTS] (h1, p0, 0, 0);
     (newSlotCount, newEntryCount, s, h, p) \<leftarrow> allocate_slots g (nat desiredSlots) (s1, h2, p2);
     if newSlotCount > oldSlotCount \<or> newEntryCount > oldEntryCount then
       let t = h u;
           p3 = release_usfs br [0..<MAX_TIMESLOTS] t (TSPool_ReleaseTAI (tbf_trx t) (uint (tbf_taiTs t)) (tbf_tai t) p);
           (h', p') = assign_loop br u [0..<MAX_TIMESLOTS] True (h, p3)
       in Some (True, s, h', p')
     else do {
       (h', p') \<leftarrow> restore_slots dir u original [0..<MAX_TIMESLOTS] (h, p);
       Some (False, s, h', p')
     }
   })"

section \<open>Release\<close>

fun remove_levels :: "'p \<Rightarrow> nat list \<Rightarrow> 'p ScheduleQueue \<Rightarrow> 'p ScheduleQueue option" where
  "remove_levels u [] q = Some q"
| "remove_levels u (level # levels) q = do { q' \<leftarrow> RemoveFromLevel u level q; remove_levels u levels q' }"

fun release_slots ::
  "('p, 'a, 'm) branch \<Rightarrow> LinkDirection \<Rightarrow> 'p \<Rightarrow> nat list \<Rightarrow> ('p \<Rightarrow> 'a Tbf_scheme) \<times> ('p, 'm) TSPool \<Rightarrow>
   (('p \<Rightarrow> 'a Tbf_scheme) \<times> ('p, 'm) TSPool) option" where
  "release_slots br dir u [] x = Some x"
| "release_slots br dir u (ts # tss) (h, p) = do {
     let t = h u;
     let h1 = h(u := set_allocatedTs ts False t);
     if tbf_allocatedTs t ! ts then do {
       q \<leftarrow> queue_at dir (tbf_trx t) (int ts) p;
       q' \<leftarrow> remove_levels u [0..<QUEUE_NUM_LEVELS] q;
       let p1 = on_info (\<lambda>i. UpdateUsersAndCapacity dir (PutQueue dir q' i)) (tbf_trx t) (int ts) p;
       release_slots br dir u tss (h1, br_ReleaseUSF br (tbf_trx t) (int ts) t p1)
     }
     else release_slots br dir u tss (h1, p)
   }"

text \<open>It always returns \<open>TRUE\<close>.\<close>

definition DeallocateUser ::
  "('p, 'a, 'm) branch \<Rightarrow> LinkDirection \<Rightarrow> 'p \<Rightarrow> ('p \<Rightarrow> 'a Tbf_scheme) \<times> ('p, 'm) TSPool \<Rightarrow>
   (('p \<Rightarrow> 'a Tbf_scheme) \<times> ('p, 'm) TSPool) option" where
  "DeallocateUser br dir u x = do {
     (h, p) \<leftarrow> release_slots br dir u [0..<MAX_TIMESLOTS] x;
     let t = h u;
     let p1 = TSPool_ReleaseTAI (tbf_trx t) (uint (tbf_taiTs t)) (tbf_tai t) p;
     Some (h, br_ReleaseTFI br (tbf_trx t) t p1)
   }"

definition DLReleaseResourceRequest where
  "DLReleaseResourceRequest pDlTbf x = DeallocateUser dl_branch DL pDlTbf x"

definition ULReleaseResourceRequest where
  "ULReleaseResourceRequest pUlTbf x = DeallocateUser ul_branch UL pUlTbf x"

section \<open>Requests\<close>

text \<open>
  The quality of service that the accessors of the TBF return, and the bytes that the stack holds where the
  allocation object is created.
\<close>

record Qos =
  qos_MultislotClass :: int
  qos_DelayClass :: int
  qos_PrecedenceClass :: int
  qos_PeakThroughputClass :: int

record Raw =
  raw_cands :: "MultislotConfig list"
  raw_trx :: int
  raw_ts :: int
  raw_entries :: int

definition new_request :: "Raw \<Rightarrow> Qos \<Rightarrow> 'p \<Rightarrow> LinkDirection \<Rightarrow> bool list option \<Rightarrow> 'p SchedAlloc" where
  "new_request raw qos u dir opposite =
     SchedAlloc_new (raw_cands raw) (raw_trx raw) (raw_ts raw) (raw_entries raw)
       (qos_MultislotClass qos) (qos_DelayClass qos) (qos_PrecedenceClass qos) (qos_PeakThroughputClass qos)
       u dir opposite"

text \<open>The part that the eight requests have in common; \<open>alloc\<close> is \<open>AllocateUser\<close> or \<open>AllocateUserIfBetterQoS\<close>.\<close>

definition run_request ::
  "(('p, 'a, 'm) sched \<Rightarrow> (bool \<times> ('p, 'a, 'm) sched) option) \<Rightarrow> bool \<Rightarrow> 'p SchedAlloc \<Rightarrow>
   ('p \<Rightarrow> 'a Tbf_scheme) \<times> ('p, 'm) TSPool \<Rightarrow> (bool \<times> ('p \<Rightarrow> 'a Tbf_scheme) \<times> ('p, 'm) TSPool) option" where
  "run_request alloc schar s0 = (\<lambda>(h, p). do {
     s \<leftarrow> ComputeMultislotOptions schar s0;
     (status, _, h', p') \<leftarrow> alloc (s, h, p);
     Some (status, h', p')
   })"

definition copy_trx :: "'p \<Rightarrow> int \<Rightarrow> ('p \<Rightarrow> 'a Tbf_scheme) \<Rightarrow> ('p \<Rightarrow> 'a Tbf_scheme)" where
  "copy_trx u trx h = h(u := (h u)\<lparr>tbf_trx := trx\<rparr>)"

definition DLResourceRequest where
  "DLResourceRequest schar raw g qos pDlTbf =
     run_request (AllocateUser dl_branch g) schar (new_request raw qos pDlTbf DL None)"

definition DLResourceRequest_with where
  "DLResourceRequest_with schar raw g qos pDlTbf pUlTbf = (\<lambda>(dh, p).
     run_request (AllocateUser dl_branch g) schar
       (new_request raw qos pDlTbf DL (Some (tbf_allocatedTs pUlTbf))) (copy_trx pDlTbf (tbf_trx pUlTbf) dh, p))"

definition DLSingleTSResourceRequest where
  "DLSingleTSResourceRequest schar raw g qos pDlTbf =
     run_request (AllocateUser dl_branch g) schar
       (new_request raw (qos\<lparr>qos_MultislotClass := 1\<rparr>) pDlTbf DL None)"

definition ULResourceRequest where
  "ULResourceRequest schar raw g qos pUlTbf =
     run_request (AllocateUser ul_branch g) schar (new_request raw qos pUlTbf UL None)"

definition ULResourceRequest_with where
  "ULResourceRequest_with schar raw g qos pUlTbf pDlTbf = (\<lambda>(uh, p).
     run_request (AllocateUser ul_branch g) schar
       (new_request raw qos pUlTbf UL (Some (tbf_allocatedTs pDlTbf))) (copy_trx pUlTbf (tbf_trx pDlTbf) uh, p))"

definition DLResourceReallocRequest where
  "DLResourceReallocRequest schar raw g qos pDlTbf =
     run_request (AllocateUserIfBetterQoS dl_branch g) schar (new_request raw qos pDlTbf DL None)"

definition DLResourceReallocRequest_with where
  "DLResourceReallocRequest_with schar raw g qos pDlTbf pUlTbf = (\<lambda>(dh, p).
     run_request (AllocateUserIfBetterQoS dl_branch g) schar
       (new_request raw qos pDlTbf DL (Some (tbf_allocatedTs pUlTbf))) (copy_trx pDlTbf (tbf_trx pUlTbf) dh, p))"

definition ULResourceReallocRequest where
  "ULResourceReallocRequest schar raw g qos pUlTbf =
     run_request (AllocateUserIfBetterQoS ul_branch g) schar (new_request raw qos pUlTbf UL None)"

definition ULResourceReallocRequest_with where
  "ULResourceReallocRequest_with schar raw g qos pUlTbf pDlTbf = (\<lambda>(uh, p).
     run_request (AllocateUserIfBetterQoS ul_branch g) schar
       (new_request raw qos pUlTbf UL (Some (tbf_allocatedTs pDlTbf))) (copy_trx pUlTbf (tbf_trx pDlTbf) uh, p))"

section \<open>Scheduling\<close>

text \<open>Status, transceiver and, when the status is \<open>TRUE\<close>, the timeslot. (\<open>PollingTsCheck\<close> is in \<open>DlRlcLink\<close>.)\<close>

definition GetNaturalSlot :: "'a Tbf_scheme \<Rightarrow> bool \<times> int \<times> nat option" where
  "GetNaturalSlot t =
     (case List.find (\<lambda>ts. tbf_naturalTs t ! ts) [0..<MAX_TIMESLOTS] of
        None \<Rightarrow> (False, tbf_trx t, None)
      | Some ts \<Rightarrow> (True, tbf_trx t, Some ts))"

definition TSSelectionRequest :: "'a Tbf_scheme \<Rightarrow> bool \<times> int \<times> nat option" where
  "TSSelectionRequest t = GetNaturalSlot t"

definition ScheduleRLCBlock ::
  "LinkDirection \<Rightarrow> ('p \<Rightarrow> TBF_STATE) \<Rightarrow> int \<Rightarrow> int \<Rightarrow> ('p, 'm) TSPool \<Rightarrow> ('p option \<times> ('p, 'm) TSPool) option" where
  "ScheduleRLCBlock dir st trx ts p = do {
     q \<leftarrow> queue_at dir trx ts p;
     (r, q') \<leftarrow> ScheduleNextBlock st q;
     Some (r, on_info (PutQueue dir q') trx ts p)
   }"

definition ScheduleRLCBlock_both ::
  "('p \<Rightarrow> TBF_STATE) \<Rightarrow> ('p \<Rightarrow> TBF_STATE) \<Rightarrow> int \<Rightarrow> int \<Rightarrow> ('p, 'm) TSPool \<Rightarrow>
   (bool \<times> 'p option \<times> 'p option \<times> ('p, 'm) TSPool) option" where
  "ScheduleRLCBlock_both dst ust trx ts p = do {
     (d, p1) \<leftarrow> ScheduleRLCBlock DL dst trx ts p;
     (u, p2) \<leftarrow> ScheduleRLCBlock UL ust trx ts p1;
     Some (d \<noteq> None \<and> u \<noteq> None, d, u, p2)
   }"

end
