(* ===== verification/SlotAllocation.thy ===== *)
theory SlotAllocation
  imports MacScheduler
begin

text \<open>
  What the allocation of timeslots in \<open>MacScheduler\<close> guarantees: it never leaves an array or follows a null
  pointer, and what it allocates fits the cell and the mobile.
\<close>

section \<open>Schedule queues of the pool\<close>

definition queues_ok :: "(LinkDirection \<Rightarrow> 'p \<Rightarrow> int) \<Rightarrow> ('p, 'm) TSPool \<Rightarrow> bool" where
  "queues_ok prec p \<longleftrightarrow> pool_ok p \<and> (\<forall>dir trx ts. IsTrxTsValid trx ts \<longrightarrow>
     sq_ok (prec dir) (GetQueue dir (ts_scheduleInfo (get_ts trx ts p))))"

lemma queues_okD:
  "queues_ok prec p \<Longrightarrow> pool_ok p"
  "queues_ok prec p \<Longrightarrow> IsTrxTsValid trx ts \<Longrightarrow> sq_ok (prec dir) (GetQueue dir (ts_scheduleInfo (get_ts trx ts p)))"
  by (simp_all add: queues_ok_def)

lemma GetQueue_PutQueue:
  "GetQueue dir (PutQueue dir' q i) = (if dir = dir' then q else GetQueue dir i)"
  by (cases dir; cases dir') simp_all

lemma GetQueue_Update [simp]: "GetQueue dir (UpdateUsersAndCapacity dir' i) = GetQueue dir i"
  by (cases dir; cases dir') simp_all

lemma valid_slot: "trx < MAX_TRX \<Longrightarrow> ts < MAX_TIMESLOTS \<Longrightarrow> IsTrxTsValid (int trx) (int ts)"
  by (simp add: IsTrxTsValid_def)

lemma queue_at_valid: "IsTrxTsValid trx ts \<Longrightarrow> queue_at dir trx ts p = Some (GetQueue dir (ts_scheduleInfo (get_ts trx ts p)))"
  by (simp add: queue_at_def)

lemma get_put_other:
  assumes "pool_ok p" "IsTrxTsValid trx ts" "IsTrxTsValid trx' ts'"
  shows "get_ts trx' ts' (put_ts trx ts t p) = (if trx' = trx \<and> ts' = ts then t else get_ts trx' ts' p)"
  using assms by (auto simp: get_ts_def put_ts_def pool_ok_def IsTrxTsValid_def nth_list_update nat_eq_iff)

lemma get_on_info:
  assumes "pool_ok p" "IsTrxTsValid trx ts" "IsTrxTsValid trx' ts'"
  shows "ts_scheduleInfo (get_ts trx' ts' (on_info f trx ts p)) =
     (if trx' = trx \<and> ts' = ts then f (ts_scheduleInfo (get_ts trx ts p)) else ts_scheduleInfo (get_ts trx' ts' p))"
  using assms by (simp add: on_info_def get_put_other)

lemma on_info_pool_ok: "pool_ok p \<Longrightarrow> IsTrxTsValid trx ts \<Longrightarrow> pool_ok (on_info f trx ts p)"
  using get_ts_ok [of p trx ts] by (auto simp: on_info_def ts_ok_def intro!: put_ts_ok)

lemma queues_ok_on_info:
  assumes "queues_ok prec p" "IsTrxTsValid trx ts"
    "\<And>dir. sq_ok (prec dir) (GetQueue dir (f (ts_scheduleInfo (get_ts trx ts p))))"
  shows "queues_ok prec (on_info f trx ts p)"
  unfolding queues_ok_def
proof (intro conjI allI impI)
  show "pool_ok (on_info f trx ts p)" using assms(1,2) by (simp add: queues_ok_def on_info_pool_ok)
  fix dir trx' ts' assume v: "IsTrxTsValid trx' ts'"
  show "sq_ok (prec dir) (GetQueue dir (ts_scheduleInfo (get_ts trx' ts' (on_info f trx ts p))))"
    using assms v by (simp add: queues_ok_def get_on_info)
qed

lemma queues_ok_Put:
  assumes "queues_ok prec p" "IsTrxTsValid trx ts" "sq_ok (prec dir) q"
  shows "queues_ok prec (on_info (PutQueue dir q) trx ts p)"
    "queues_ok prec (on_info (\<lambda>i. UpdateUsersAndCapacity dir (PutQueue dir q i)) trx ts p)"
  using assms by (auto intro!: queues_ok_on_info simp: GetQueue_PutQueue queues_okD(2))

lemma queues_ok_Update:
  "queues_ok prec p \<Longrightarrow> IsTrxTsValid trx ts \<Longrightarrow> queues_ok prec (on_info (UpdateUsersAndCapacity dir) trx ts p)"
  by (rule queues_ok_on_info) (simp_all add: queues_okD(2))

section \<open>Entries found can be allocated\<close>

lemma find_then_allocate:
  assumes q: "sq_ok prec q" and pr: "precs_ok prec" and l: "l < QUEUE_NUM_LEVELS"
  obtains k k' q' where "FindAvailableEntries u l (prec u) q = Some k" "AllocateEntries u l (prec u) q = Some (k', q')"
    "sq_ok prec q'" "sq_savedQueue q' = sq_savedQueue q" "k > 0 \<Longrightarrow> k' > 0"
proof -
  let ?n = "nbrEntries ! l" let ?row = "sq_queue q ! l"
  have ok: "row_ok prec ?n ?row" using q rows_okD [OF _ l] by (auto simp: sq_ok_def)
  have n: "?n \<le> 12" "1 < ?n" using nbrEntries_bounds [OF l] l by (auto simp: nbrEntries_def nth_Cons split: nat.splits)
  obtain rs where rs: "Rank ?n ?row = Some rs" "ranked ?n ?row rs" "rank_order ?n (map fst rs) ?row"
    "AllocateRow ?n u (prec u) ?row =
       Some (int (fits (prec u) 0 (map fst rs) ?row) - (if fits (prec u) 0 (map fst rs) ?row < ?n then 0 else 1),
             replace_worst ?n u (prec u) 0 (map fst rs) ?row)"
    by (rule AllocateRow_replace [OF ok pr n(1)])
  obtain q' where q': "sq_exec prec (S_Allocate u l) q = Some q'" "sq_ok prec q'" "sq_savedQueue q' = sq_savedQueue q"
    using sq_exec_ok [OF q pr, of "S_Allocate u l"] l by auto
  then obtain k' where k': "AllocateEntries u l (prec u) q = Some (k', q')" by auto
  have k'_eq: "k' = int (fits (prec u) 0 (map fst rs) ?row) - (if fits (prec u) 0 (map fst rs) ?row < ?n then 0 else 1)"
    using k' rs(4) l by (simp add: AllocateEntries_def)
  let ?k = "find_loop u (prec u) rs 0 0"
  have "k' > 0" if pos: "?k > 0"
  proof -
    obtain i imp tb rs' where c: "rs = (i, imp, tb) # rs'" using pos by (cases rs) auto
    then have imp: "newImportance (prec u) 0 < imp" using pos c by (auto split: if_splits)
    have "i \<in> set (map fst rs)" using c by simp
    then have "i < ?n" using rs(3) unfolding rank_order_def by (metis atLeastLessThan_iff)
    then have "imp = e_importance (?row ! i)" using rankedD [OF rs(2), of i imp tb] c by simp
    then have "0 < fits (prec u) 0 (map fst rs) ?row" using imp c by simp
    then show ?thesis using n(2) k'_eq by simp
  qed
  moreover have "FindAvailableEntries u l (prec u) q = Some ?k"
    using rs(1) l by (simp add: FindAvailableEntries_def FindAvailable_def)
  ultimately show ?thesis using that k' q'(2,3) by blast
qed

section \<open>The best slot\<close>

lemma slots_to_try_valid:
  "(trx, ts) \<in> set (slots_to_try dir t) \<Longrightarrow> trx < MAX_TRX \<and> ts < MAX_TIMESLOTS \<and> (t = NULL_TRX \<or> t = int trx)"
  by (auto simp: slots_to_try_def split: if_splits)

text \<open>A slot that \<open>FindBestSlot\<close> may choose, with the number of entries it found there.\<close>

definition candidate :: "Grr \<Rightarrow> ('p \<Rightarrow> 'a Tbf_scheme) \<Rightarrow> ('p, 'm) TSPool \<Rightarrow> 'p SchedAlloc \<Rightarrow> int \<Rightarrow> int \<Rightarrow> int \<Rightarrow> bool" where
  "candidate g h p s trx ts k \<longleftrightarrow>
     IsTrxTsValid trx ts \<and> (tbf_trx (h (sa_tbf s)) = NULL_TRX \<or> tbf_trx (h (sa_tbf s)) = trx) \<and>
     usable g (nat trx) (nat ts) \<and> OkayToAddUser (sa_direction s) (ts_scheduleInfo (get_ts trx ts p)) \<and>
     IsAllowedTs (sa_direction s) (nat ts) s \<and> IncludesNaturalTs (sa_direction s) (nat ts) (s, h) \<and>
     FindAvailableEntries (sa_tbf s) (nat (sa_delayClass s - 1)) (sa_precedenceClass s)
       (GetQueue (sa_direction s) (ts_scheduleInfo (get_ts trx ts p))) = Some k"

text \<open>The search changes nothing but the slot allocation.\<close>

definition searched :: "Grr \<Rightarrow> ('p \<Rightarrow> 'a Tbf_scheme) \<Rightarrow> ('p, 'm) TSPool \<Rightarrow> 'p SchedAlloc \<Rightarrow> 'p SchedAlloc \<Rightarrow> bool" where
  "searched g h p s s' \<longleftrightarrow> (\<exists>trx ts k. s' = s\<lparr>sa_trx := trx, sa_ts := ts, sa_entries := k\<rparr> \<and>
     (k > 0 \<longrightarrow> candidate g h p s trx ts k))"

lemma slot_update_irrelevant [simp]:
  "IsAllowedTs dir t (s\<lparr>sa_trx := a, sa_ts := b, sa_entries := c\<rparr>) = IsAllowedTs dir t s"
  "IncludesNaturalTs dir t (s\<lparr>sa_trx := a, sa_ts := b, sa_entries := c\<rparr>, h) = IncludesNaturalTs dir t (s, h)"
  "tracking m (s\<lparr>sa_trx := a, sa_ts := b, sa_entries := c\<rparr>) = tracking m s"
  "options_left m (s\<lparr>sa_trx := a, sa_ts := b, sa_entries := c\<rparr>) = options_left m s"
  by (simp_all add: IsAllowedTs_def IncludesNaturalTs_def tracking_def prepared_def fits_config_def options_left_def)

lemma consider_slot_searched:
  assumes q: "queues_ok prec p" "precs_ok (prec (sa_direction s))" and l: "nat (sa_delayClass s - 1) < QUEUE_NUM_LEVELS"
    and pr: "sa_precedenceClass s = prec (sa_direction s) (sa_tbf s)" and s: "searched g h p s s1"
    and x: "x \<in> set (slots_to_try (sa_direction s) (tbf_trx (h (sa_tbf s))))"
  shows "\<exists>s2. consider_slot g h p x s1 = Some s2 \<and> searched g h p s s2"
proof -
  obtain trx ts where xv: "x = (trx, ts)" by fastforce
  have v: "IsTrxTsValid (int trx) (int ts)"
    "tbf_trx (h (sa_tbf s)) = NULL_TRX \<or> tbf_trx (h (sa_tbf s)) = int trx"
    using slots_to_try_valid x xv valid_slot by blast+
  let ?q = "GetQueue (sa_direction s) (ts_scheduleInfo (get_ts (int trx) (int ts) p))"
  obtain a b c where s1: "s1 = s\<lparr>sa_trx := a, sa_ts := b, sa_entries := c\<rparr>" using s by (auto simp: searched_def)
  obtain k where k: "FindAvailableEntries (sa_tbf s) (nat (sa_delayClass s - 1)) (sa_precedenceClass s) ?q = Some k"
    using find_then_allocate [OF queues_okD(2) [OF q(1) v(1)] q(2) l, of "sa_tbf s"] pr by metis
  let ?c = "usable g trx ts \<and> OkayToAddUser (sa_direction s) (ts_scheduleInfo (get_ts (int trx) (int ts) p)) \<and>
    IsAllowedTs (sa_direction s) ts s \<and> IncludesNaturalTs (sa_direction s) ts (s, h)"
  show ?thesis
  proof (cases ?c)
    case True
    have "candidate g h p s (int trx) (int ts) k" using True v k by (simp add: candidate_def)
    then have "searched g h p s (s\<lparr>sa_trx := int trx, sa_ts := int ts, sa_entries := k\<rparr>)"
      by (auto simp: searched_def)
    moreover have "consider_slot g h p x s1 = Some (if k > c then SetNewSlotAllocation (int trx) (int ts) k s1 else s1)"
      using True k queue_at_valid [OF v(1), of "sa_direction s" p] by (simp add: consider_slot_def xv s1)
    ultimately show ?thesis using s by (auto simp: SetNewSlotAllocation_def s1)
  next
    case False
    then have "consider_slot g h p x s1 = Some s1" by (auto simp: consider_slot_def xv s1)
    then show ?thesis using s by blast
  qed
qed

lemma FindBestSlot_searched:
  assumes "queues_ok prec p" "precs_ok (prec (sa_direction s))" "nat (sa_delayClass s - 1) < QUEUE_NUM_LEVELS"
    "sa_precedenceClass s = prec (sa_direction s) (sa_tbf s)"
  shows "\<exists>s'. FindBestSlot g h p s = Some s' \<and> searched g h p s s'"
proof -
  have "\<exists>s'. consider_loop g h p xs s1 = Some s' \<and> searched g h p s s'"
    if "set xs \<subseteq> set (slots_to_try (sa_direction s) (tbf_trx (h (sa_tbf s))))" "searched g h p s s1" for xs s1
    using that
  proof (induction xs arbitrary: s1)
    case (Cons x xs)
    then obtain s2 where "consider_slot g h p x s1 = Some s2" "searched g h p s s2"
      using consider_slot_searched [OF assms, of g h s1 x] by auto
    then show ?case using Cons.IH [of s2] Cons.prems by simp
  qed simp
  moreover have "searched g h p s (InitializeNewSlotAllocation s)"
    unfolding searched_def InitializeNewSlotAllocation_def by (intro exI [of _ "- 1"]) simp
  ultimately show ?thesis unfolding FindBestSlot_def by blast
qed

section \<open>One slot\<close>

definition allocated :: "LinkDirection \<Rightarrow> 'p SchedAlloc \<Rightarrow> nat set" where
  "allocated dir s = side dir (slots (sa_allocatedTsDL s), slots (sa_allocatedTsUL s))"

definition opposite :: "LinkDirection \<Rightarrow> LinkDirection" where
  "opposite dir = (if dir = DL then UL else DL)"

text \<open>
  The invariant of the allocation loop for TBF \<open>u\<close>: the slots in the TBF are those in the object, some
  configuration of the class still contains them with the slots of the other direction, and all of them
  can be used, on one transceiver (\<open>trx0\<close> if it was fixed before).
\<close>

definition alloc_inv ::
  "Grr \<Rightarrow> (LinkDirection \<Rightarrow> 'p \<Rightarrow> int) \<Rightarrow> nat \<Rightarrow> LinkDirection \<Rightarrow> 'p \<Rightarrow> int \<Rightarrow> nat set \<Rightarrow> ('p, 'a, 'm) sched \<Rightarrow> bool" where
  "alloc_inv g prec k dir u trx0 other = (\<lambda>(s, h, p).
     queues_ok prec p \<and> tracking k s \<and> sa_tbf s = u \<and> sa_direction s = dir \<and>
     nat (sa_delayClass s - 1) < QUEUE_NUM_LEVELS \<and> sa_precedenceClass s = prec dir u \<and>
     length (tbf_naturalTs (h u)) = MAX_TIMESLOTS \<and> length (tbf_allocatedTs (h u)) = MAX_TIMESLOTS \<and>
     slots (tbf_allocatedTs (h u)) = allocated dir s \<and> allocated (opposite dir) s = other \<and>
     (tbf_trx (h u) = NULL_TRX \<or> IsTrxValid (tbf_trx (h u))) \<and> (trx0 \<noteq> NULL_TRX \<longrightarrow> tbf_trx (h u) = trx0) \<and>
     (allocated dir s \<noteq> {} \<longrightarrow> options_left k s \<noteq> {} \<and> IsTrxValid (tbf_trx (h u)) \<and>
        (\<forall>ts \<in> allocated dir s. usable g (nat (tbf_trx (h u))) ts)))"

lemma allocated_slot_update [simp]:
  "allocated dir (s\<lparr>sa_trx := a, sa_ts := b, sa_entries := c\<rparr>) = allocated dir s"
  by (simp add: allocated_def)

lemma not_null_trx: "IsTrxValid trx \<Longrightarrow> trx \<noteq> NULL_TRX"
  by (simp add: IsTrxValid_def)

text \<open>What a step of the loop changes.\<close>

definition one_slot :: "'p \<Rightarrow> ('p, 'a, 'm) sched \<Rightarrow> bool \<Rightarrow> ('p, 'a, 'm) sched \<Rightarrow> bool" where
  "one_slot u = (\<lambda>(s, h, p) b (s', h', p').
     if b then \<exists>trx ts natural. ts < MAX_TIMESLOTS \<and> 0 < sa_entries s' \<and>
       h' = h(u := (h u)\<lparr>tbf_trx := trx, tbf_allocatedTs := (tbf_allocatedTs (h u))[ts := True],
                         tbf_naturalTs := natural\<rparr>)
     else h' = h \<and> p' = p)"

lemma AllocateOneSlot_step:
  assumes inv: "alloc_inv g prec k dir u trx0 other (s0, h, p)" and pr: "precs_ok (prec dir)"
  shows "\<exists>b x. AllocateOneSlot g (s0, h, p) = Some (b, x) \<and> alloc_inv g prec k dir u trx0 other x \<and>
     one_slot u (s0, h, p) b x"
proof -
  have i: "queues_ok prec p" "tracking k s0" "sa_tbf s0 = u" "sa_direction s0 = dir"
    "nat (sa_delayClass s0 - 1) < QUEUE_NUM_LEVELS" "sa_precedenceClass s0 = prec dir u"
    using inv by (auto simp: alloc_inv_def)
  obtain s where s: "FindBestSlot g h p s0 = Some s" "searched g h p s0 s"
    using FindBestSlot_searched [OF i(1)] i pr by blast
  obtain trx ts n where sn: "s = s0\<lparr>sa_trx := trx, sa_ts := ts, sa_entries := n\<rparr>"
    and cand: "n > 0 \<longrightarrow> candidate g h p s0 trx ts n" using s(2) by (auto simp: searched_def)
  show ?thesis
  proof (cases "n > 0")
    case False
    have "AllocateOneSlot g (s0, h, p) = Some (False, s, h, p)" using s(1) False by (simp add: AllocateOneSlot_def sn)
    moreover have "alloc_inv g prec k dir u trx0 other (s, h, p)" using inv by (simp add: alloc_inv_def sn)
    ultimately show ?thesis by (auto simp: one_slot_def)
  next
    case True
    then have c: "IsTrxTsValid trx ts" "tbf_trx (h u) = NULL_TRX \<or> tbf_trx (h u) = trx" "usable g (nat trx) (nat ts)"
      "IsAllowedTs dir (nat ts) s0"
      "FindAvailableEntries u (nat (sa_delayClass s0 - 1)) (prec dir u)
         (GetQueue dir (ts_scheduleInfo (get_ts trx ts p))) = Some n"
      using cand i by (auto simp: candidate_def)
    have v: "0 \<le> ts" "ts < 8" "nat ts < 8" "IsTrxValid trx" using c(1) by (auto simp: IsTrxTsValid_def IsTrxValid_def)
    let ?q = "GetQueue dir (ts_scheduleInfo (get_ts trx ts p))"
    obtain n' q' where q': "AllocateEntries u (nat (sa_delayClass s0 - 1)) (prec dir u) ?q = Some (n', q')"
      "sq_ok (prec dir) q'" "n' > 0"
      by (rule find_then_allocate [OF queues_okD(2) [OF i(1) c(1)] pr i(5), of u]) (use c(5) True in auto)
    let ?p1 = "on_info (PutQueue dir q') trx ts p"
    let ?p2 = "on_info (UpdateUsersAndCapacity dir) trx ts ?p1"
    let ?h1 = "h(u := set_allocatedTs (nat ts) True ((h u)\<lparr>tbf_trx := trx\<rparr>))"
    have p2: "queues_ok prec ?p2"
      using queues_ok_Update [OF queues_ok_Put(1) [OF i(1) c(1) q'(2)] c(1)] .
    have tr: "tracking k s" using i(2) by (simp add: sn)
    obtain s1 where s1: "AddSlotAllocation s = Some s1" "prepared k s1"
      "allocated dir s1 = insert (nat ts) (allocated dir s0)" "sa_tbf s1 = u"
      "options_left k s1 = {opt \<in> options_left k s0. nat ts \<in> side dir opt}"
      by (rule AddSlotAllocation_prepared [OF tr]) (use v i(3,4) in \<open>auto simp: sn allocated_def\<close>)
    have s1_other: "allocated (opposite dir) s1 = allocated (opposite dir) s0" "sa_direction s1 = dir"
      "sa_delayClass s1 = sa_delayClass s0" "sa_precedenceClass s1 = sa_precedenceClass s0" "sa_entries s1 = n"
      using s1(1) i(4) by (cases dir; auto simp: AddSlotAllocation_def sn allocated_def opposite_def split: if_splits)+
    obtain s2 h2 where c2: "ConstrainCandMultiConfig (s1, ?h1) = (s2, h2)" by fastforce
    note C = ConstrainCandMultiConfig_tracking [OF s1(2) c2]
    obtain natural where nat: "h2 = ?h1(u := (?h1 u)\<lparr>tbf_naturalTs := natural\<rparr>)" "length natural = 8"
      using C(6) s1(4) by auto
    have s2: "sa_direction s2 = dir" "sa_delayClass s2 = sa_delayClass s0" "sa_precedenceClass s2 = sa_precedenceClass s0"
      "sa_entries s2 = n"
      using c2 s1_other by (auto simp: ConstrainCandMultiConfig_def Let_def)
    have al: "allocated d s2 = allocated d s1" for d using C(4,5) by (simp add: allocated_def)
    have run: "AllocateOneSlot g (s0, h, p) = Some (True, s2, h2, ?p2)"
      using s(1) True i c2 s1(1) q' queue_at_valid [OF c(1), of dir p]
      by (simp add: AllocateOneSlot_def UpdateAllowedSlots_def sn)
    have h2u: "h2 u = (h u)\<lparr>tbf_trx := trx, tbf_allocatedTs := (tbf_allocatedTs (h u))[nat ts := True], tbf_naturalTs := natural\<rparr>"
      using nat(1) by (simp add: set_allocatedTs_def)
    have len: "length (tbf_allocatedTs (h u)) = 8" "slots (tbf_allocatedTs (h u)) = allocated dir s0"
      using inv by (auto simp: alloc_inv_def)
    have "slots (tbf_allocatedTs (h2 u)) = allocated dir s2"
      using len v(3) s1(3) al by (simp add: h2u slots_update)
    moreover have "options_left k s2 \<noteq> {}"
      using c(4) IsAllowedTs_iff [OF i(2) v(3)] C(2) s1(5) by auto
    moreover have "\<forall>t \<in> allocated dir s2. usable g (nat trx) t"
      using inv c(2,3) s1(3) al by (auto simp: alloc_inv_def not_null_trx)
    moreover have "trx0 \<noteq> NULL_TRX \<longrightarrow> trx = trx0" using inv c(2) by (auto simp: alloc_inv_def)
    ultimately have "alloc_inv g prec k dir u trx0 other (s2, h2, ?p2)"
      using inv p2 C(1,3) s1(4) s2 s1_other len(1) nat(2) v(4) al i(5,6) by (simp add: alloc_inv_def h2u)
    moreover have "one_slot u (s0, h, p) True (s2, h2, ?p2)"
    proof -
      have "h2 = h(u := (h u)\<lparr>tbf_trx := trx, tbf_allocatedTs := (tbf_allocatedTs (h u))[nat ts := True], tbf_naturalTs := natural\<rparr>)"
        using nat(1) by (auto simp: set_allocatedTs_def fun_eq_iff)
      then show ?thesis using v(3) s2(4) True unfolding one_slot_def by auto
    qed
    ultimately show ?thesis using run by blast
  qed
qed

section \<open>The loop over the slots\<close>

text \<open>The TBF after the loop, and all the others.\<close>

definition only_slots :: "'p \<Rightarrow> ('p \<Rightarrow> 'a Tbf_scheme) \<Rightarrow> ('p \<Rightarrow> 'a Tbf_scheme) \<Rightarrow> bool" where
  "only_slots u h h' \<longleftrightarrow> (\<exists>trx al nat. h' = h(u := (h u)\<lparr>tbf_trx := trx, tbf_allocatedTs := al, tbf_naturalTs := nat\<rparr>))"

lemma only_slots_refl: "only_slots u h h"
  unfolding only_slots_def
  by (rule exI [of _ "tbf_trx (h u)"], rule exI [of _ "tbf_allocatedTs (h u)"], rule exI [of _ "tbf_naturalTs (h u)"]) simp

lemma only_slots_trans:
  assumes "only_slots u h h1" "only_slots u h1 h2"
  shows "only_slots u h h2"
proof -
  obtain a b c where h1: "h1 = h(u := (h u)\<lparr>tbf_trx := a, tbf_allocatedTs := b, tbf_naturalTs := c\<rparr>)"
    using assms(1) by (auto simp: only_slots_def)
  obtain a' b' c' where "h2 = h1(u := (h1 u)\<lparr>tbf_trx := a', tbf_allocatedTs := b', tbf_naturalTs := c'\<rparr>)"
    using assms(2) by (auto simp: only_slots_def)
  then have "h2 = h(u := (h u)\<lparr>tbf_trx := a', tbf_allocatedTs := b', tbf_naturalTs := c'\<rparr>)" by (simp add: h1)
  then show ?thesis unfolding only_slots_def by blast
qed

lemma one_slot_only: "one_slot u (s, h, p) b (s', h', p') \<Longrightarrow> only_slots u h h'"
  by (cases b) (auto simp: one_slot_def only_slots_refl only_slots_def)

lemma allocate_slots_inv:
  assumes "alloc_inv g prec k dir u trx0 other (s, h, p)" "precs_ok (prec dir)"
  shows "\<exists>c e s' h' p'. allocate_slots g n (s, h, p) = Some (c, e, s', h', p') \<and>
     alloc_inv g prec k dir u trx0 other (s', h', p') \<and> c \<le> n \<and> int c \<le> e \<and> only_slots u h h' \<and>
     card (allocated dir s') \<le> card (allocated dir s) + c \<and> (c > 0 \<longrightarrow> allocated dir s' \<noteq> {}) \<and>
     (c = 0 \<longrightarrow> h' = h \<and> p' = p)"
  using assms
proof (induction n arbitrary: s h p)
  case 0
  then show ?case by (auto simp: only_slots_refl)
next
  case (Suc n)
  obtain b s1 h1 p1 where one: "AllocateOneSlot g (s, h, p) = Some (b, s1, h1, p1)"
    "alloc_inv g prec k dir u trx0 other (s1, h1, p1)" "one_slot u (s, h, p) b (s1, h1, p1)"
    using AllocateOneSlot_step [OF Suc.prems] by (metis prod.exhaust)
  have al: "allocated dir s = slots (tbf_allocatedTs (h u))" "allocated dir s1 = slots (tbf_allocatedTs (h1 u))"
    "length (tbf_allocatedTs (h u)) = 8"
    using Suc.prems(1) one(2) by (auto simp: alloc_inv_def)
  show ?case
  proof (cases b)
    case False
    then have "allocate_slots g (Suc n) (s, h, p) = Some (0, 0, s1, h1, p1)" "h1 = h" "p1 = p"
      using one by (auto simp: one_slot_def)
    then show ?thesis using one(2) al only_slots_refl by (auto simp: al)
  next
    case True
    then obtain ts where ts: "ts < 8" "allocated dir s1 = insert ts (allocated dir s)" "0 < sa_entries s1"
      using one(3) al by (auto simp: one_slot_def slots_update)
    obtain c e s2 h2 p2 where r: "allocate_slots g n (s1, h1, p1) = Some (c, e, s2, h2, p2)"
      "alloc_inv g prec k dir u trx0 other (s2, h2, p2)" "c \<le> n" "int c \<le> e" "only_slots u h1 h2"
      "card (allocated dir s2) \<le> card (allocated dir s1) + c" "c > 0 \<longrightarrow> allocated dir s2 \<noteq> {}"
      "c = 0 \<longrightarrow> h2 = h1 \<and> p2 = p1"
      using Suc.IH [OF one(2) Suc.prems(2)] by blast
    have "allocate_slots g (Suc n) (s, h, p) = Some (c + 1, sa_entries s1 + e, s2, h2, p2)"
      using one(1) True r(1) by simp
    moreover have "only_slots u h h2" using one_slot_only [OF one(3)] r(5) by (rule only_slots_trans)
    moreover have "card (allocated dir s2) \<le> card (allocated dir s) + (c + 1)"
      using r(6) ts(2) card_insert_le_m1 [of "Suc (card (allocated dir s))"]
      by (simp add: al(1) card_insert_if split: if_splits)
    moreover have "allocated dir s2 \<noteq> {}"
    proof (cases "c = 0")
      case True
      then have "allocated dir s2 = allocated dir s1" using r(2,8) al(2) by (simp add: alloc_inv_def)
      then show ?thesis using ts(2) by simp
    qed (use r(7) in simp)
    moreover have "int (c + 1) \<le> sa_entries s1 + e" using r(4) ts(3) by simp
    ultimately show ?thesis using r(2,3) by (metis (no_types, lifting) Suc_eq_plus1 Suc_le_mono nat.distinct(1))
  qed
qed

section \<open>What the branches of the directions keep\<close>

definition same_info :: "('p, 'm) TSPool \<Rightarrow> ('p, 'm) TSPool \<Rightarrow> bool" where
  "same_info p p' \<longleftrightarrow> pool_ok p' \<and> (\<forall>trx ts. IsTrxTsValid trx ts \<longrightarrow>
     ts_scheduleInfo (get_ts trx ts p') = ts_scheduleInfo (get_ts trx ts p))"

definition same_slots :: "'p \<Rightarrow> ('p \<Rightarrow> 'a Tbf_scheme) \<Rightarrow> ('p \<Rightarrow> 'a Tbf_scheme) \<Rightarrow> bool" where
  "same_slots u h h' \<longleftrightarrow> (\<forall>v. v \<noteq> u \<longrightarrow> h' v = h v) \<and> tbf_trx (h' u) = tbf_trx (h u) \<and>
     tbf_allocatedTs (h' u) = tbf_allocatedTs (h u) \<and> tbf_naturalTs (h' u) = tbf_naturalTs (h u)"

lemma same_info_trans: "same_info p p1 \<Longrightarrow> same_info p1 p2 \<Longrightarrow> same_info p p2"
  by (simp add: same_info_def)

lemma same_slots_trans: "same_slots u h h1 \<Longrightarrow> same_slots u h1 h2 \<Longrightarrow> same_slots u h h2"
  by (simp add: same_slots_def)

lemma same_refl [simp]: "same_slots u h h" "pool_ok p \<Longrightarrow> same_info p p"
  by (simp_all add: same_slots_def same_info_def)

lemma same_info_queues: "queues_ok prec p \<Longrightarrow> same_info p p' \<Longrightarrow> queues_ok prec p'"
  by (simp add: queues_ok_def same_info_def)

lemma put_ts_same_info:
  assumes "pool_ok p" "IsTrxTsValid trx ts" "ts_scheduleInfo t = ts_scheduleInfo (get_ts trx ts p)" "ts_ok t"
  shows "same_info p (put_ts trx ts t p)"
  using assms put_ts_ok [OF assms(1,2,4)] by (auto simp: same_info_def get_put_other)

lemma AllocateTAI_same:
  assumes "pool_ok p" "TSPool_AllocateTAI trx ts u (h, p) = (k, h', p')"
  shows "same_slots u h h'" "same_info p p'"
proof -
  have "same_info p p' \<and> same_slots u h h'"
  proof (cases "IsTrxTsValid trx ts")
    case True
    obtain tai tab where t: "AllocateTAI u (ts_sysTAI (get_ts trx ts p)) = (tai, tab)" by fastforce
    have "ts_ok ((get_ts trx ts p)\<lparr>ts_sysTAI := tab\<rparr>)"
      using get_ts_ok [OF assms(1) True] AllocateTAI_length [OF t] by (simp add: ts_ok_def)
    then have "same_info p (put_ts trx ts ((get_ts trx ts p)\<lparr>ts_sysTAI := tab\<rparr>) p)"
      by (intro put_ts_same_info assms(1) True) simp_all
    then show ?thesis using assms(2) True t by (auto simp: TSPool_AllocateTAI_def same_slots_def)
  qed (use assms in \<open>auto simp: TSPool_AllocateTAI_def\<close>)
  then show "same_slots u h h'" "same_info p p'" by auto
qed

lemma AllocateUSF_same:
  assumes "pool_ok p" "TSPool_AllocateUSF trx ts u (h, p) = (k, h', p')"
  shows "same_slots u h h'" "same_info p p'"
proof -
  have "same_info p p' \<and> same_slots u h h'"
  proof (cases "IsTrxTsValid trx ts")
    case True
    obtain usf tab where t: "AllocateUSF u (ts_sysUSF (get_ts trx ts p)) = (usf, tab)" by fastforce
    have "ts_ok ((get_ts trx ts p)\<lparr>ts_sysUSF := tab\<rparr>)"
      using get_ts_ok [OF assms(1) True] AllocateUSF_keeps [OF t] by (simp add: ts_ok_def)
    then have "same_info p (put_ts trx ts ((get_ts trx ts p)\<lparr>ts_sysUSF := tab\<rparr>) p)"
      by (intro put_ts_same_info assms(1) True) simp_all
    then show ?thesis using assms(2) True t by (auto simp: TSPool_AllocateUSF_def same_slots_def)
  qed (use assms in \<open>auto simp: TSPool_AllocateUSF_def\<close>)
  then show "same_slots u h h'" "same_info p p'" by auto
qed

lemma on_ts_same_info:
  assumes "pool_ok p" "\<And>t. ts_ok t \<Longrightarrow> ts_ok (f t) \<and> ts_scheduleInfo (f t) = ts_scheduleInfo t"
  shows "same_info p (on_ts trx ts f p)"
  using assms get_ts_ok [OF assms(1), of trx ts] by (auto simp: on_ts_def intro!: put_ts_same_info)

lemma release_same_info:
  assumes "pool_ok p"
  shows "same_info p (TSPool_ReleaseTAI trx ts k p)" "same_info p (TSPool_ReleaseUSF trx ts k p)"
    "same_info p (ReleaseULTFI trx k p)" "same_info p (ReleaseDLTFI trx k p)"
proof -
  show "same_info p (TSPool_ReleaseTAI trx ts k p)" "same_info p (TSPool_ReleaseUSF trx ts k p)"
    unfolding TSPool_ReleaseTAI_def TSPool_ReleaseUSF_def
    by (intro on_ts_same_info assms; auto simp: ts_ok_def ReleaseTAI_def ReleaseUSF_def nth_list_update)+
  have "tp_sysTS (ReleaseULTFI trx k p) = tp_sysTS p" "tp_sysTS (ReleaseDLTFI trx k p) = tp_sysTS p"
    by (simp_all add: ReleaseULTFI_def ReleaseDLTFI_def)
  then show "same_info p (ReleaseULTFI trx k p)" "same_info p (ReleaseDLTFI trx k p)"
    using ReleaseTFI_pool_ok [OF assms, of trx k] by (simp_all add: same_info_def get_ts_def)
qed

lemma AllocateTFI_same:
  assumes "pool_ok p"
  shows "AllocateULTFI trx u (h, p) = (k, h', p') \<Longrightarrow> same_slots u h h' \<and> same_info p p'"
    "AllocateDLTFI trx u (h, p) = (k, h', p') \<Longrightarrow> same_slots u h h' \<and> same_info p p'"
  using assms AllocateULTFI_pool_ok [of p trx u h k h' p'] AllocateDLTFI_pool_ok [of p trx u h k h' p']
  by (auto simp: AllocateULTFI_def AllocateDLTFI_def same_slots_def same_info_def get_ts_def record_tfi_def Let_def
      split: if_splits prod.splits)

section \<open>Allocating a user\<close>

text \<open>
  What the scheduler relies on in the branches for the two directions: they leave the schedule queues and
  the slots of the TBF alone.
\<close>

locale branch_laws =
  fixes br :: "('p, 'a, 'm) branch"
  assumes AllocateTFI: "pool_ok p \<Longrightarrow> br_AllocateTFI br trx u (h, p) = (h', p') \<Longrightarrow> same_slots u h h' \<and> same_info p p'"
    and AllocateUSF: "pool_ok p \<Longrightarrow> br_AllocateUSF br trx ts u (h, p) = (h', p') \<Longrightarrow> same_slots u h h' \<and> same_info p p'"
    and ReleaseUSF: "pool_ok p \<Longrightarrow> same_info p (br_ReleaseUSF br trx ts t p)"
    and ReleaseTFI: "pool_ok p \<Longrightarrow> same_info p (br_ReleaseTFI br trx t p)"

context branch_laws begin

lemma assign_loop_same:
  "pool_ok p \<Longrightarrow> assign_loop br u tss todo (h, p) = (h', p') \<Longrightarrow> same_slots u h h' \<and> same_info p p'"
proof (induction tss arbitrary: todo h p)
  case Nil
  then show ?case by simp
next
  case (Cons ts tss)
  show ?case
  proof (cases "tbf_allocatedTs (h u) ! ts")
    case False
    then show ?thesis using Cons by simp
  next
    case True
    obtain h1 p1 where 1: "(if todo then snd (TSPool_AllocateTAI (tbf_trx (h u)) (int ts) u (h, p)) else (h, p)) = (h1, p1)"
      by fastforce
    obtain k h1' p1' where t: "TSPool_AllocateTAI (tbf_trx (h u)) (int ts) u (h, p) = (k, h1', p1')"
      by (metis prod.exhaust)
    have s1: "same_slots u h h1 \<and> same_info p p1"
      using 1 t AllocateTAI_same [OF Cons.prems(1) t] Cons.prems(1) by (auto split: if_splits)
    obtain h2 p2 where 2: "br_AllocateUSF br (tbf_trx (h u)) (int ts) u (h1, p1) = (h2, p2)" by fastforce
    have s2: "same_slots u h1 h2 \<and> same_info p1 p2"
      using AllocateUSF [OF _ 2] s1 by (simp add: same_info_def)
    have "assign_loop br u tss False (h2, p2) = (h', p')"
      using Cons.prems(2) True 1 2 by (simp add: Let_def)
    moreover have "pool_ok p2" using s2 by (simp add: same_info_def)
    ultimately have "same_slots u h2 h' \<and> same_info p2 p'" by (intro Cons.IH)
    then show ?thesis
      using s1 s2 same_slots_trans [of u h h1 h2] same_slots_trans [of u h h2 h']
        same_info_trans [of p p1 p2] same_info_trans [of p p2 p'] by simp
  qed
qed

lemma AllocateUser_outcome:
  assumes q: "queues_ok prec p" "precs_ok (prec dir)" and s: "prepared k s" "sa_tbf s = u" "sa_direction s = dir"
    "nat (sa_delayClass s - 1) < QUEUE_NUM_LEVELS" "sa_precedenceClass s = prec dir u"
    and t: "length (tbf_allocatedTs (h u)) = MAX_TIMESLOTS" "slots (tbf_allocatedTs (h u)) = {}" "allocated dir s = {}"
      "tbf_trx (h u) = NULL_TRX \<or> IsTrxValid (tbf_trx (h u))"
  shows "\<exists>status s' h' p'. AllocateUser br g (s, h, p) = Some (status, s', h', p') \<and> queues_ok prec p' \<and>
     (\<forall>v. v \<noteq> u \<longrightarrow> h' v = h v) \<and>
     card (slots (tbf_allocatedTs (h' u))) \<le> nat (ComputeDesiredNumberOfSlots s) \<and>
     (if status then slots (tbf_allocatedTs (h' u)) \<noteq> {} \<and> IsTrxValid (tbf_trx (h' u)) \<and>
          (tbf_trx (h u) \<noteq> NULL_TRX \<longrightarrow> tbf_trx (h' u) = tbf_trx (h u)) \<and>
          (\<forall>ts \<in> slots (tbf_allocatedTs (h' u)). usable g (nat (tbf_trx (h' u))) ts) \<and>
          (\<exists>opt \<in> multislot_options k. slots (tbf_allocatedTs (h' u)) \<subseteq> side dir opt \<and>
             allocated (opposite dir) s \<subseteq> side (opposite dir) opt)
      else slots (tbf_allocatedTs (h' u)) = {} \<and> tbf_trx (h' u) = tbf_trx (h u) \<and> p' = p)"
proof -
  obtain s1 h1 where c: "ConstrainCandMultiConfig (s, h) = (s1, h1)" by fastforce
  note C = ConstrainCandMultiConfig_tracking [OF s(1) c]
  obtain natural where h1: "h1 = h(u := (h u)\<lparr>tbf_naturalTs := natural\<rparr>)" "length natural = 8"
    using C(6) s(2) by auto
  have al: "allocated d s1 = allocated d s" for d using C(4,5) by (simp add: allocated_def)
  have s1: "sa_direction s1 = dir" "sa_delayClass s1 = sa_delayClass s" "sa_precedenceClass s1 = sa_precedenceClass s"
    using c s(3) by (auto simp: ConstrainCandMultiConfig_def Let_def)
  have start: "alloc_inv g prec k dir u (tbf_trx (h u)) (allocated (opposite dir) s) (s1, h1, p)"
    using q C(1,3) s s1 t al h1(2) by (simp add: alloc_inv_def h1(1))
  obtain n e s2 h2 p2 where run: "allocate_slots g (nat (ComputeDesiredNumberOfSlots s)) (s1, h1, p) = Some (n, e, s2, h2, p2)"
    and inv: "alloc_inv g prec k dir u (tbf_trx (h u)) (allocated (opposite dir) s) (s2, h2, p2)"
    and n: "n \<le> nat (ComputeDesiredNumberOfSlots s)" "only_slots u h1 h2"
      "card (allocated dir s2) \<le> card (allocated dir s1) + n" "n > 0 \<longrightarrow> allocated dir s2 \<noteq> {}"
      "n = 0 \<longrightarrow> h2 = h1 \<and> p2 = p"
    using allocate_slots_inv [OF start q(2)] by blast
  have own: "slots (tbf_allocatedTs (h2 u)) = allocated dir s2" "queues_ok prec p2" using inv by (auto simp: alloc_inv_def)
  have others: "\<forall>v. v \<noteq> u \<longrightarrow> h2 v = h v" using n(2) h1(1) by (auto simp: only_slots_def)
  have few: "card (slots (tbf_allocatedTs (h2 u))) \<le> nat (ComputeDesiredNumberOfSlots s)"
    using n(1,3) al t(3) own(1) by simp
  show ?thesis
  proof (cases "n = 0")
    case True
    then have "AllocateUser br g (s, h, p) = Some (False, s2, h1, p)" using run c n(5) by (simp add: AllocateUser_def)
    then show ?thesis using True n(5) t(2) q(1) h1(1) by auto
  next
    case False
    then have a: "allocated dir s2 \<noteq> {}" using n(4) by simp
    then obtain opt where opt: "opt \<in> options_left k s2" using inv by (auto simp: alloc_inv_def)
    have tu: "sa_tbf s2 = u" using inv by (simp add: alloc_inv_def)
    obtain h3 p3 where 3: "br_AllocateTFI br (tbf_trx (h2 u)) u (h2, p2) = (h3, p3)" by fastforce
    have s3: "same_slots u h2 h3" "same_info p2 p3" using AllocateTFI [OF queues_okD(1) [OF own(2)] 3] by auto
    obtain h4 p4 where 4: "assign_loop br u [0..<8] True (h3, p3) = (h4, p4)" by fastforce
    have s4: "same_slots u h3 h4" "same_info p3 p4"
      using assign_loop_same [OF _ 4] s3(2) by (auto simp: same_info_def)
    have same: "same_slots u h2 h4" "same_info p2 p4"
      using same_slots_trans [OF s3(1) s4(1)] same_info_trans [OF s3(2) s4(2)] by auto
    have "AllocateUser br g (s, h, p) = Some (True, s2, h4, p4)"
      using run c False 3 4 tu by (simp add: AllocateUser_def Let_def)
    moreover have "opt \<in> multislot_options k" "allocated dir s2 \<subseteq> side dir opt"
      "allocated (opposite dir) s \<subseteq> side (opposite dir) opt"
      using opt inv by (cases dir; auto simp: options_left_def allocated_def opposite_def alloc_inv_def)+
    moreover have "IsTrxValid (tbf_trx (h2 u))" "\<forall>ts \<in> allocated dir s2. usable g (nat (tbf_trx (h2 u))) ts"
      "tbf_trx (h u) \<noteq> NULL_TRX \<longrightarrow> tbf_trx (h2 u) = tbf_trx (h u)"
      using inv a by (auto simp: alloc_inv_def)
    moreover have h4: "tbf_allocatedTs (h4 u) = tbf_allocatedTs (h2 u)" "tbf_trx (h4 u) = tbf_trx (h2 u)"
      "\<forall>v. v \<noteq> u \<longrightarrow> h4 v = h v"
      using same(1) others by (simp_all add: same_slots_def)
    moreover have "queues_ok prec p4" by (rule same_info_queues [OF own(2) same(2)])
    ultimately show ?thesis
      using a few unfolding own(1) by (intro exI [of _ True] exI [of _ s2] exI [of _ h4] exI [of _ p4]) (simp add: own(1), blast)
  qed
qed

end

lemma branch_steps:
  assumes "pool_ok p"
  shows "snd (AllocateULTFI trx u (h, p)) = (h', p') \<Longrightarrow> same_slots u h h' \<and> same_info p p'"
    "snd (AllocateDLTFI trx u (h, p)) = (h', p') \<Longrightarrow> same_slots u h h' \<and> same_info p p'"
    "snd (TSPool_AllocateUSF trx ts u (k, p)) = (k', p') \<Longrightarrow> same_slots u k k' \<and> same_info p p'"
  using AllocateTFI_same [OF assms] AllocateUSF_same [OF assms] by (metis surjective_pairing)+

interpretation dl: branch_laws dl_branch
  by unfold_locales (auto simp: dl_branch_def release_same_info dest: branch_steps)

interpretation ul: branch_laws ul_branch
  by unfold_locales (auto simp: ul_branch_def release_same_info dest: branch_steps)

section \<open>Requests\<close>

text \<open>The number of slots that a peak throughput class is worth.\<close>

definition throughput_slots :: "int \<Rightarrow> nat" where
  "throughput_slots peak = (if peak \<ge> 5 then 8 else if peak = 4 then 4 else if peak = 3 then 2 else 1)"

definition class_index :: "Qos \<Rightarrow> nat" where
  "class_index qos = nat (limit 1 12 (qos_MultislotClass qos) - 1)"

lemma new_request_prepared:
  assumes "length (raw_cands raw) = MAX_MULTI_CONFIG_CANDIDATES"
    "\<forall>a. opp = Some a \<longrightarrow> length a = MAX_TIMESLOTS"
  obtains s where "ComputeMultislotOptions True (new_request raw qos u dir opp) = Some s"
    "prepared (class_index qos) s" "sa_tbf s = u" "sa_direction s = dir"
    "nat (sa_delayClass s - 1) < QUEUE_NUM_LEVELS" "sa_precedenceClass s = limit 1 3 (qos_PrecedenceClass qos)"
    "allocated dir s = {}" "allocated (opposite dir) s = (case opp of None \<Rightarrow> {} | Some a \<Rightarrow> slots a)"
    "nat (ComputeDesiredNumberOfSlots s) \<le> throughput_slots (qos_PeakThroughputClass qos)"
proof -
  let ?s0 = "new_request raw qos u dir opp"
  have len: "length (sa_candMultiConfig ?s0) = 173" "length (sa_allocatedTsDL ?s0) = 8" "length (sa_allocatedTsUL ?s0) = 8"
    using assms by (auto simp: new_request_def SchedAlloc_new_def Let_def split: option.splits)
  obtain s where s: "ComputeMultislotOptions True ?s0 = Some s" using ComputeMultislotOptions_total [OF len(1)] by blast
  obtain k sets where "s = (LimitQoS ?s0)\<lparr>sa_maxDlSlots := multiMaxDlSlots ! k,
       sa_maxUlSlots := multiMaxUlSlots ! k, sa_nbrOfCandConfigs := int (length (configs sets)),
       sa_candMultiConfig := configs sets @ drop (length (configs sets)) (sa_candMultiConfig ?s0)\<rparr>"
    using compute_options [OF len(1)] s by (metis option.sel)
  then have f: "sa_tbf s = u" "sa_direction s = dir" "sa_precedenceClass s = limit 1 3 (qos_PrecedenceClass qos)"
    "sa_delayClass s = limit 1 4 (qos_DelayClass qos)" "sa_multislotClass s = limit 1 12 (qos_MultislotClass qos)"
    "sa_peakThroughputClass s = limit 1 9 (qos_PeakThroughputClass qos)"
    "sa_allocatedTsDL s = sa_allocatedTsDL ?s0" "sa_allocatedTsUL s = sa_allocatedTsUL ?s0"
    by (simp_all add: LimitQoS_def new_request_def SchedAlloc_new_def Let_def)
  have a: "map ((!) x) [0..<8] = x" if "length x = 8" for x :: "bool list" using that by (metis map_nth)
  have "allocated dir s = {}" "allocated (opposite dir) s = (case opp of None \<Rightarrow> {} | Some a \<Rightarrow> slots a)"
    using assms(2) a f(7,8)
    by (cases dir; cases opp; simp add: allocated_def opposite_def new_request_def SchedAlloc_new_def Let_def)+
  moreover have "prepared (class_index qos) s" using compute_prepared(1) [OF len s] f(5) by (simp add: class_index_def)
  moreover have "nat (ComputeDesiredNumberOfSlots s) \<le> throughput_slots (qos_PeakThroughputClass qos)"
    using f(6) by (auto simp: ComputeDesiredNumberOfSlots_def Let_def throughput_slots_def limit_def)
  moreover have "nat (sa_delayClass s - 1) < QUEUE_NUM_LEVELS" using f(4) limit_bounds [of 1 4 "qos_DelayClass qos"] by auto
  ultimately show ?thesis using that s f by blast
qed

text \<open>
  What a request for direction \<open>dir\<close> may leave: \<open>A\<close> are the slots of the TBF, \<open>other\<close> those of the mobile in the
  opposite direction.
\<close>

definition grant_ok :: "Grr \<Rightarrow> Qos \<Rightarrow> LinkDirection \<Rightarrow> int \<Rightarrow> nat set \<Rightarrow> nat set \<Rightarrow> bool" where
  "grant_ok g qos dir trx A other \<longleftrightarrow> (\<exists>rx tx total. capability ! class_index qos = (rx, tx, total) \<and>
     A \<noteq> {} \<and> card A \<le> throughput_slots (qos_PeakThroughputClass qos) \<and>
     card A \<le> side dir (rx, tx) \<and> card other \<le> side (opposite dir) (rx, tx) \<and> card A + card other \<le> total \<and>
     IsTrxValid trx \<and> (\<forall>ts \<in> A. usable g (nat trx) ts))"

lemma class_index_bound: "class_index qos < 12"
  using limit_bounds [of 1 12 "qos_MultislotClass qos"] by (simp add: class_index_def) linarith

lemma option_grant:
  assumes "opt \<in> multislot_options (class_index qos)" "A \<subseteq> side dir opt" "other \<subseteq> side (opposite dir) opt"
    "A \<noteq> {}" "card A \<le> throughput_slots (qos_PeakThroughputClass qos)" "IsTrxValid trx"
    "\<forall>ts \<in> A. usable g (nat trx) ts"
  shows "grant_ok g qos dir trx A other"
proof -
  obtain D U where opt: "opt = (D, U)" by fastforce
  obtain rx tx total where cap: "capability ! class_index qos = (rx, tx, total)" by (metis prod.exhaust)
  note W = multislot_options_within [OF class_index_bound assms(1) [unfolded opt]]
  have "card D \<le> rx" "card U \<le> tx" "card D + card U \<le> total" using W(3) cap by (auto simp: within_def)
  moreover have "card A \<le> card (side dir opt)" "card other \<le> card (side (opposite dir) opt)"
    using assms(2,3) W(4,5) by (cases dir; auto simp: opt opposite_def intro: card_mono)+
  ultimately show ?thesis
    using cap assms(4-7) unfolding grant_ok_def by (cases dir) (auto simp: opt opposite_def)
qed

context branch_laws begin

lemma request_outcome:
  assumes "queues_ok prec p" "precs_ok (prec dir)" "prec dir u = limit 1 3 (qos_PrecedenceClass qos)"
    "length (raw_cands raw) = MAX_MULTI_CONFIG_CANDIDATES" "\<forall>a. opp = Some a \<longrightarrow> length a = MAX_TIMESLOTS"
    "tbf_allocatedTs (h u) = replicate MAX_TIMESLOTS False" "tbf_trx (h u) = NULL_TRX \<or> IsTrxValid (tbf_trx (h u))"
  shows "\<exists>status h' p'. run_request (AllocateUser br g) True (new_request raw qos u dir opp) (h, p) = Some (status, h', p') \<and>
     queues_ok prec p' \<and> (\<forall>v. v \<noteq> u \<longrightarrow> h' v = h v) \<and>
     (if status then grant_ok g qos dir (tbf_trx (h' u)) (slots (tbf_allocatedTs (h' u)))
          (case opp of None \<Rightarrow> {} | Some a \<Rightarrow> slots a) \<and>
          (tbf_trx (h u) \<noteq> NULL_TRX \<longrightarrow> tbf_trx (h' u) = tbf_trx (h u))
      else slots (tbf_allocatedTs (h' u)) = {} \<and> p' = p)"
proof -
  obtain s where s: "ComputeMultislotOptions True (new_request raw qos u dir opp) = Some s"
    "prepared (class_index qos) s" "sa_tbf s = u" "sa_direction s = dir"
    "nat (sa_delayClass s - 1) < QUEUE_NUM_LEVELS" "sa_precedenceClass s = limit 1 3 (qos_PrecedenceClass qos)"
    "allocated dir s = {}" "allocated (opposite dir) s = (case opp of None \<Rightarrow> {} | Some a \<Rightarrow> slots a)"
    "nat (ComputeDesiredNumberOfSlots s) \<le> throughput_slots (qos_PeakThroughputClass qos)"
    by (rule new_request_prepared [OF assms(4,5)])
  have t: "length (tbf_allocatedTs (h u)) = 8" "slots (tbf_allocatedTs (h u)) = {}" unfolding assms(6) by simp_all
  obtain status s' h' p' where r: "AllocateUser br g (s, h, p) = Some (status, s', h', p')" "queues_ok prec p'"
    "\<forall>v. v \<noteq> u \<longrightarrow> h' v = h v" "card (slots (tbf_allocatedTs (h' u))) \<le> nat (ComputeDesiredNumberOfSlots s)"
    and o: "if status then slots (tbf_allocatedTs (h' u)) \<noteq> {} \<and> IsTrxValid (tbf_trx (h' u)) \<and>
          (tbf_trx (h u) \<noteq> NULL_TRX \<longrightarrow> tbf_trx (h' u) = tbf_trx (h u)) \<and>
          (\<forall>ts \<in> slots (tbf_allocatedTs (h' u)). usable g (nat (tbf_trx (h' u))) ts) \<and>
          (\<exists>opt \<in> multislot_options (class_index qos). slots (tbf_allocatedTs (h' u)) \<subseteq> side dir opt \<and>
             allocated (opposite dir) s \<subseteq> side (opposite dir) opt)
      else slots (tbf_allocatedTs (h' u)) = {} \<and> tbf_trx (h' u) = tbf_trx (h u) \<and> p' = p"
    using AllocateUser_outcome [where g = g and prec = prec and dir = dir and h = h and u = u, OF assms(1,2) s(2-5) _ t s(7) assms(7)]
      s(6) assms(3) by metis
  have "run_request (AllocateUser br g) True (new_request raw qos u dir opp) (h, p) = Some (status, h', p')"
    using s(1) r(1) by (simp add: run_request_def)
  moreover have "grant_ok g qos dir (tbf_trx (h' u)) (slots (tbf_allocatedTs (h' u)))
      (case opp of None \<Rightarrow> {} | Some a \<Rightarrow> slots a)" if status
  proof -
    note yes = that
    obtain opt where opt: "opt \<in> multislot_options (class_index qos)" "slots (tbf_allocatedTs (h' u)) \<subseteq> side dir opt"
      "(case opp of None \<Rightarrow> {} | Some a \<Rightarrow> slots a) \<subseteq> side (opposite dir) opt"
      using o yes unfolding s(8) by auto
    show ?thesis by (rule option_grant [OF opt]) (use o yes r(4) s(9) in auto)
  qed
  ultimately show ?thesis using r(2,3) o by (cases status) auto
qed

end

section \<open>Signed and unsigned characters\<close>

text \<open>The multislot classes of a quality of service for which the tables are read inside their bounds.\<close>

definition class_ok :: "bool \<Rightarrow> Qos \<Rightarrow> bool" where
  "class_ok schar qos \<longleftrightarrow> schar \<or> qos_MultislotClass qos < 4"

lemma new_request_class: "sa_multislotClass (new_request raw qos u dir opp) = qos_MultislotClass qos"
  by (simp add: new_request_def SchedAlloc_new_def Let_def)

lemma run_request_schar:
  assumes "class_ok schar qos"
  shows "run_request alloc schar (new_request raw qos u dir opp) = run_request alloc True (new_request raw qos u dir opp)"
  unfolding run_request_def
  using ComputeMultislotOptions_schar [of schar "new_request raw qos u dir opp"] assms new_request_class class_ok_def by metis

lemma run_request_overruns:
  assumes "\<not> class_ok schar qos" "length (raw_cands raw) = MAX_MULTI_CONFIG_CANDIDATES"
  shows "run_request alloc schar (new_request raw qos u dir opp) x = None"
proof -
  have "4 \<le> sa_multislotClass (new_request raw qos u dir opp)" "\<not> schar" using assms(1) by (simp_all add: new_request_class class_ok_def)
  moreover have "length (sa_candMultiConfig (new_request raw qos u dir opp)) = MAX_MULTI_CONFIG_CANDIDATES"
    using assms(2) by (simp add: new_request_def SchedAlloc_new_def Let_def)
  ultimately show ?thesis using unsigned_char_overruns [of "new_request raw qos u dir opp"]
    by (cases x) (simp add: run_request_def)
qed

lemmas request_defs = DLResourceRequest_def DLResourceRequest_with_def ULResourceRequest_def ULResourceRequest_with_def
  DLResourceReallocRequest_def DLResourceReallocRequest_with_def ULResourceReallocRequest_def ULResourceReallocRequest_with_def

lemma request_schar:
  assumes "class_ok schar qos"
  shows "DLResourceRequest schar raw g qos u = DLResourceRequest True raw g qos u"
    "DLResourceRequest_with schar raw g qos u ult = DLResourceRequest_with True raw g qos u ult"
    "ULResourceRequest schar raw g qos v = ULResourceRequest True raw g qos v"
    "ULResourceRequest_with schar raw g qos v dlt = ULResourceRequest_with True raw g qos v dlt"
    "DLResourceReallocRequest schar raw g qos u = DLResourceReallocRequest True raw g qos u"
    "DLResourceReallocRequest_with schar raw g qos u ult = DLResourceReallocRequest_with True raw g qos u ult"
    "ULResourceReallocRequest schar raw g qos v = ULResourceReallocRequest True raw g qos v"
    "ULResourceReallocRequest_with schar raw g qos v dlt = ULResourceReallocRequest_with True raw g qos v dlt"
  unfolding request_defs run_request_schar [OF assms] by simp_all

text \<open>A single timeslot is asked for with class 1.\<close>

lemma single_schar: "DLSingleTSResourceRequest schar raw g qos u = DLSingleTSResourceRequest True raw g qos u"
  unfolding DLSingleTSResourceRequest_def by (rule run_request_schar) (simp add: class_ok_def)

section \<open>Properties\<close>

text \<open>The search for slots, started by \<open>AllocateUser\<close> and continued by one slot after the other.\<close>

fun note_slots :: "nat list \<Rightarrow> 'p SchedAlloc \<times> ('p \<Rightarrow> 'a Tbf_scheme) \<Rightarrow> ('p SchedAlloc \<times> ('p \<Rightarrow> 'a Tbf_scheme)) option" where
  "note_slots [] x = Some x"
| "note_slots (ts # tss) (s, h) = do {
     x \<leftarrow> UpdateAllowedSlots (SetNewSlotAllocation 0 (int ts) 1 s, h);
     note_slots tss x
   }"

lemma allocated_options:
  "options_left k s = {opt \<in> multislot_options k. allocated dir s \<subseteq> side dir opt \<and>
     allocated (opposite dir) s \<subseteq> side (opposite dir) opt}"
  by (cases dir) (auto simp: options_left_def allocated_def opposite_def)

lemma note_slots_tracking:
  assumes "tracking k s" "sa_tbf s = u" "sa_direction s = dir" "set tss \<subseteq> {..<8}"
    "length (tbf_naturalTs (h u)) = 8" "slots (tbf_naturalTs (h u)) = naturals k s \<inter> {..<8}"
  shows "\<exists>s' h'. note_slots tss (s, h) = Some (s', h') \<and> tracking k s' \<and>
     allocated dir s' = allocated dir s \<union> set tss \<and> allocated (opposite dir) s' = allocated (opposite dir) s \<and>
     length (tbf_naturalTs (h' u)) = 8 \<and> slots (tbf_naturalTs (h' u)) = naturals k s' \<inter> {..<8} \<and> sa_tbf s' = u"
  using assms
proof (induction tss arbitrary: s h)
  case (Cons ts tss)
  let ?s = "SetNewSlotAllocation 0 (int ts) 1 s"
  have tr: "tracking k ?s" using Cons.prems(1) by (simp add: SetNewSlotAllocation_def)
  obtain s1 where s1: "AddSlotAllocation ?s = Some s1" "prepared k s1" "sa_tbf s1 = u"
    "allocated dir s1 = insert ts (allocated dir s)"
    by (rule AddSlotAllocation_prepared [OF tr])
      (use Cons.prems in \<open>auto simp: SetNewSlotAllocation_def allocated_def\<close>)
  have o: "allocated (opposite dir) s1 = allocated (opposite dir) s" "sa_direction s1 = dir"
    using s1(1) Cons.prems(3)
    by (cases dir; auto simp: AddSlotAllocation_def SetNewSlotAllocation_def allocated_def opposite_def split: if_splits)+
  obtain s2 h2 where c: "ConstrainCandMultiConfig (s1, h) = (s2, h2)" by fastforce
  note C = ConstrainCandMultiConfig_tracking [OF s1(2) c]
  have d: "sa_direction s2 = dir" using c o(2) by (auto simp: ConstrainCandMultiConfig_def Let_def)
  have a: "allocated d s2 = allocated d s1" for d using C(4,5) by (simp add: allocated_def)
  have "length (tbf_naturalTs (h2 u)) = 8" "slots (tbf_naturalTs (h2 u)) = naturals k s2 \<inter> {..<8}"
    using ConstrainCandMultiConfig_natural [OF s1(2) c] unfolding s1(3) by auto
  from Cons.IH [where s = s2 and h = h2, OF C(1) _ d _ this] Cons.prems(4) C(3) s1(1,3,4) c
  show ?case by (simp add: UpdateAllowedSlots_def a o(1))
qed simp

lemma search_noted:
  assumes "length (raw_cands raw) = MAX_MULTI_CONFIG_CANDIDATES" "\<forall>a. opp = Some a \<longrightarrow> length a = MAX_TIMESLOTS"
    "ComputeMultislotOptions True (new_request raw qos u dir opp) = Some s0" "set tss \<subseteq> {..<MAX_TIMESLOTS}"
  obtains s h' where "note_slots tss (ConstrainCandMultiConfig (s0, h)) = Some (s, h')" "tracking (class_index qos) s"
    "sa_tbf s = u" "allocated dir s = set tss"
    "allocated (opposite dir) s = (case opp of None \<Rightarrow> {} | Some a \<Rightarrow> slots a)" "length (tbf_naturalTs (h' u)) = 8"
    "slots (tbf_naturalTs (h' u)) = naturals (class_index qos) s \<inter> {..<8}"
    "options_left (class_index qos) s = {opt \<in> multislot_options (class_index qos).
       set tss \<subseteq> side dir opt \<and> (case opp of None \<Rightarrow> {} | Some a \<Rightarrow> slots a) \<subseteq> side (opposite dir) opt}"
proof -
  let ?O = "case opp of None \<Rightarrow> {} | Some a \<Rightarrow> slots a"
  let ?k = "class_index qos"
  obtain s where "ComputeMultislotOptions True (new_request raw qos u dir opp) = Some s"
    "prepared ?k s" "sa_tbf s = u" "sa_direction s = dir" "allocated dir s = {}" "allocated (opposite dir) s = ?O"
    by (rule new_request_prepared [OF assms(1,2)])
  then have s: "prepared ?k s0" "sa_tbf s0 = u" "sa_direction s0 = dir" "allocated dir s0 = {}"
    "allocated (opposite dir) s0 = ?O" using assms(3) by auto
  obtain s1 h1 where c: "ConstrainCandMultiConfig (s0, h) = (s1, h1)" by fastforce
  note C = ConstrainCandMultiConfig_tracking [OF s(1) c]
  have d: "sa_direction s1 = dir" using c s(3) by (auto simp: ConstrainCandMultiConfig_def Let_def)
  have a: "allocated d s1 = allocated d s0" for d using C(4,5) by (simp add: allocated_def)
  have nat: "length (tbf_naturalTs (h1 u)) = 8" "slots (tbf_naturalTs (h1 u)) = naturals ?k s1 \<inter> {..<8}"
    using ConstrainCandMultiConfig_natural [OF s(1) c] unfolding s(2) by auto
  obtain s2 h2 where r: "note_slots tss (s1, h1) = Some (s2, h2)" "tracking ?k s2" "allocated dir s2 = set tss"
    "allocated (opposite dir) s2 = ?O" "length (tbf_naturalTs (h2 u)) = 8" "slots (tbf_naturalTs (h2 u)) = naturals ?k s2 \<inter> {..<8}"
    "sa_tbf s2 = u"
    using note_slots_tracking [where h = h1, OF C(1) _ d assms(4) nat] unfolding C(3) s(2) a s(4,5) by auto
  moreover have "options_left ?k s2 = {opt \<in> multislot_options ?k. set tss \<subseteq> side dir opt \<and> ?O \<subseteq> side (opposite dir) opt}"
    using allocated_options [of ?k s2 dir] r(3,4) by simp
  ultimately show ?thesis using that [of s2 h2] c by simp
qed

text \<open>
  C28: which slots the search allows. After any sequence of allocated slots, \<open>IsAllowedTs\<close>, which looks at the
  candidates that have not been crossed out, says exactly that some configuration of the mobile's multislot
  class contains the slot, all the slots allocated, and those of the opposite direction; and the
  natural slots in the TBF are those that such a configuration uses in both directions.
\<close>

theorem allowed_slots_equivalence:
  assumes "length (raw_cands raw) = MAX_MULTI_CONFIG_CANDIDATES" "\<forall>a. opp = Some a \<longrightarrow> length a = MAX_TIMESLOTS"
    "ComputeMultislotOptions True (new_request raw qos u dir opp) = Some s0" "set tss \<subseteq> {..<MAX_TIMESLOTS}"
  shows "\<exists>s h'. note_slots tss (ConstrainCandMultiConfig (s0, h)) = Some (s, h') \<and>
     (\<forall>ts < MAX_TIMESLOTS.
        (\<forall>d. IsAllowedTs d ts s \<longleftrightarrow> (\<exists>opt \<in> multislot_options (class_index qos).
           set tss \<subseteq> side dir opt \<and> (case opp of None \<Rightarrow> {} | Some a \<Rightarrow> slots a) \<subseteq> side (opposite dir) opt \<and>
           ts \<in> side d opt)) \<and>
        (tbf_naturalTs (h' u) ! ts \<longleftrightarrow> (\<exists>opt \<in> multislot_options (class_index qos).
           set tss \<subseteq> side dir opt \<and> (case opp of None \<Rightarrow> {} | Some a \<Rightarrow> slots a) \<subseteq> side (opposite dir) opt \<and>
           ts \<in> fst opt \<and> ts \<in> snd opt)))"
proof -
  let ?O = "case opp of None \<Rightarrow> {} | Some a \<Rightarrow> slots a"
  let ?k = "class_index qos"
  obtain s2 h2 where r: "note_slots tss (ConstrainCandMultiConfig (s0, h)) = Some (s2, h2)" "tracking ?k s2"
    "length (tbf_naturalTs (h2 u)) = 8" "slots (tbf_naturalTs (h2 u)) = naturals ?k s2 \<inter> {..<8}"
    and left: "options_left ?k s2 = {opt \<in> multislot_options ?k. set tss \<subseteq> side dir opt \<and> ?O \<subseteq> side (opposite dir) opt}"
    by (rule search_noted [OF assms])
  have "IsAllowedTs d ts s2 \<longleftrightarrow> (\<exists>opt \<in> multislot_options ?k. set tss \<subseteq> side dir opt \<and>
      ?O \<subseteq> side (opposite dir) opt \<and> ts \<in> side d opt)" if "ts < 8" for d ts
    using IsAllowedTs_iff [OF r(2) that] left by auto
  moreover have "tbf_naturalTs (h2 u) ! ts \<longleftrightarrow> (\<exists>opt \<in> multislot_options ?k. set tss \<subseteq> side dir opt \<and>
      ?O \<subseteq> side (opposite dir) opt \<and> ts \<in> fst opt \<and> ts \<in> snd opt)" if "ts < 8" for ts
    using slots_nth [OF r(3) that] r(4) left that by (auto simp: naturals_def)
  ultimately show ?thesis using r(1) by auto
qed

definition raw0 :: Raw where
  "raw0 = \<lparr>raw_cands = replicate 173 fresh, raw_trx = 0, raw_ts = 0, raw_entries = 0\<rparr>"

definition qos_of :: "int \<Rightarrow> Qos" where
  "qos_of mclass = \<lparr>qos_MultislotClass = mclass, qos_DelayClass = 2, qos_PrecedenceClass = 1, qos_PeakThroughputClass = 5\<rparr>"

definition dl_tbf0 :: DLTbf where
  "dl_tbf0 = \<lparr>tbf_tfi = \<lparr>tfi_isValid = False, tfi_val = 0\<rparr>, tbf_tlli = 0, tbf_taiTs = 0, tbf_tai = 0, tbf_trx = NULL_TRX,
     tbf_allocatedTs = replicate 8 False, tbf_naturalTs = replicate 8 False, tbf_state = ALLOCATED,
     dl_ctlAckTag = replicate 40 0, dl_currAckTag = 0, dl_currNumAckTags = 0\<rparr>"

definition ul_tbf0 :: ULTbf where
  "ul_tbf0 = \<lparr>tbf_tfi = \<lparr>tfi_isValid = False, tfi_val = 0\<rparr>, tbf_tlli = 0, tbf_taiTs = 0, tbf_tai = 0, tbf_trx = NULL_TRX,
     tbf_allocatedTs = replicate 8 False, tbf_naturalTs = replicate 8 False, tbf_state = ALLOCATED,
     ul_usf = replicate 8 0, ul_ctlAckTag = 0\<rparr>"

text \<open>A cell whose timeslots \<open>tss\<close> of transceiver 0 carry packet data.\<close>

definition grr_of :: "nat list \<Rightarrow> Grr" where
  "grr_of tss = \<lparr>grr_GetBtsAmState = unlocked, grr_GetTrxAmState = (\<lambda>_. unlocked), grr_GetTrxSlotAmState = (\<lambda>_ _. unlocked),
     grr_GetBtsOpState = opStateEnabled, grr_GetTrxOpState = (\<lambda>_. opStateEnabled),
     grr_GetTrxSlotOpState = (\<lambda>_ _. opStateEnabled),
     grr_GetTrxSlotChanComb = (\<lambda>trx ts. if trx = 0 \<and> ts \<in> set tss then pDCHData else 1)\<rparr>"

theorem allowed_slots_equivalence_witness:
  "\<exists>s0 s h'. ComputeMultislotOptions True (new_request raw0 (qos_of 4) (0 :: nat) DL None) = Some s0 \<and>
     note_slots [5, 7] (ConstrainCandMultiConfig (s0, \<lambda>_. dl_tbf0)) = Some (s, h') \<and>
     (IsAllowedTs DL 6 s \<longleftrightarrow> (\<exists>opt \<in> multislot_options (class_index (qos_of 4)). {5, 7} \<subseteq> fst opt \<and> 6 \<in> fst opt))"
proof -
  have raw: "length (raw_cands raw0) = 173" by (simp add: raw0_def)
  then obtain s0 where s0: "ComputeMultislotOptions True (new_request raw0 (qos_of 4) (0 :: nat) DL None) = Some s0"
    using ComputeMultislotOptions_total [of "new_request raw0 (qos_of 4) (0 :: nat) DL None"]
    by (auto simp: new_request_def SchedAlloc_new_def Let_def)
  from allowed_slots_equivalence [OF raw _ s0, of "[5, 7]" "\<lambda>_. dl_tbf0"]
  obtain s h' where "note_slots [5, 7] (ConstrainCandMultiConfig (s0, \<lambda>_. dl_tbf0)) = Some (s, h')"
    "IsAllowedTs DL 6 s \<longleftrightarrow> (\<exists>opt \<in> multislot_options (class_index (qos_of 4)). {5, 7} \<subseteq> fst opt \<and> 6 \<in> fst opt)"
    by (auto simp: opposite_def)
  then show ?thesis using s0 by blast
qed

text \<open>The slots and the transceiver that the TBF of the mobile in the opposite direction, if it has one, brings in.\<close>

definition opposite_slots :: "'b Tbf_scheme option \<Rightarrow> nat set" where
  "opposite_slots other = (case other of None \<Rightarrow> {} | Some t \<Rightarrow> slots (tbf_allocatedTs t))"

definition start_trx :: "'a Tbf_scheme \<Rightarrow> 'b Tbf_scheme option \<Rightarrow> int" where
  "start_trx t other = (case other of None \<Rightarrow> tbf_trx t | Some o2 \<Rightarrow> tbf_trx o2)"

definition opposite_ok :: "'a Tbf_scheme \<Rightarrow> 'b Tbf_scheme option \<Rightarrow> bool" where
  "opposite_ok t other \<longleftrightarrow> (start_trx t other = NULL_TRX \<or> IsTrxValid (start_trx t other)) \<and>
     (case other of None \<Rightarrow> True | Some o2 \<Rightarrow> length (tbf_allocatedTs o2) = MAX_TIMESLOTS)"

context branch_laws begin

lemma request_with_outcome:
  assumes "queues_ok prec p" "precs_ok (prec dir)" "prec dir u = limit 1 3 (qos_PrecedenceClass qos)"
    "length (raw_cands raw) = MAX_MULTI_CONFIG_CANDIDATES" "tbf_allocatedTs (h u) = replicate MAX_TIMESLOTS False" "opposite_ok (h u) other"
  shows "\<exists>status h' p'. run_request (AllocateUser br g) True (new_request raw qos u dir (map_option tbf_allocatedTs other))
       (copy_trx u (start_trx (h u) other) h, p) = Some (status, h', p') \<and>
     queues_ok prec p' \<and> (\<forall>v. v \<noteq> u \<longrightarrow> h' v = h v) \<and>
     (if status then grant_ok g qos dir (tbf_trx (h' u)) (slots (tbf_allocatedTs (h' u))) (opposite_slots other) \<and>
          (start_trx (h u) other \<noteq> NULL_TRX \<longrightarrow> tbf_trx (h' u) = start_trx (h u) other)
      else slots (tbf_allocatedTs (h' u)) = {} \<and> p' = p)"
proof -
  let ?h = "copy_trx u (start_trx (h u) other) h" let ?opp = "map_option tbf_allocatedTs other"
  have h: "tbf_allocatedTs (?h u) = replicate MAX_TIMESLOTS False" "tbf_trx (?h u) = start_trx (h u) other" "\<forall>v. v \<noteq> u \<longrightarrow> ?h v = h v"
    using assms(5) by (simp_all add: copy_trx_def)
  have l: "\<forall>a. ?opp = Some a \<longrightarrow> length a = MAX_TIMESLOTS" and t: "tbf_trx (?h u) = NULL_TRX \<or> IsTrxValid (tbf_trx (?h u))"
    using assms(6) h(2) by (auto simp: opposite_ok_def)
  have o: "(case ?opp of None \<Rightarrow> {} | Some a \<Rightarrow> slots a) = opposite_slots other" by (cases other) (simp_all add: opposite_slots_def)
  from request_outcome [where g = g and h = ?h, OF assms(1-4) l h(1) t] show ?thesis unfolding o h(2) using h(3) by metis
qed

end

lemma copy_trx_same: "trx = tbf_trx (h u) \<Longrightarrow> copy_trx u trx h = h"
  by (auto simp: copy_trx_def)

text \<open>
  C26: a downlink request is safe exactly as far as the tables are, and respects the mobile. In every state whose
  queues are as \<open>queues_ok\<close> says, for a TBF without slots and whatever slots the mobile's uplink TBF has, if it has
  one: where \<^verbatim>\<open>char\<close> is signed or the multislot class is below 4, the request does not leave an array or follow a null
  pointer and keeps \<open>queues_ok\<close>. If it succeeds, the TBF has at least one slot, no more than its peak throughput
  class is worth, all of them usable slots of one transceiver (the uplink TBF's, if that has one), and with the
  uplink slots they stay within the numbers that GSM 05.02 grants the multislot class. If it fails, the TBF has no
  slot and the pool is unchanged. For the other classes an unsigned \<^verbatim>\<open>char\<close> makes it leave an array.
\<close>

theorem dl_request_respects_mobile:
  assumes "queues_ok prec p" "precs_ok (prec DL)" "prec DL u = limit 1 3 (qos_PrecedenceClass qos)"
    "length (raw_cands raw) = MAX_MULTI_CONFIG_CANDIDATES"
    "tbf_allocatedTs (h u) = replicate MAX_TIMESLOTS False" "opposite_ok (h u) ult"
    and request: "request = (case ult of None \<Rightarrow> DLResourceRequest schar raw g qos u
      | Some t \<Rightarrow> DLResourceRequest_with schar raw g qos u t)"
  shows "if schar \<or> qos_MultislotClass qos < 4 then
      \<exists>status h' p'. request (h, p) = Some (status, h', p') \<and> queues_ok prec p' \<and> (\<forall>v. v \<noteq> u \<longrightarrow> h' v = h v) \<and>
        (if status then grant_ok g qos DL (tbf_trx (h' u)) (slots (tbf_allocatedTs (h' u))) (opposite_slots ult) \<and>
             (start_trx (h u) ult \<noteq> NULL_TRX \<longrightarrow> tbf_trx (h' u) = start_trx (h u) ult)
         else slots (tbf_allocatedTs (h' u)) = {} \<and> p' = p)
    else request (h, p) = None"
proof -
  have r: "request (h, p) = run_request (AllocateUser dl_branch g) schar (new_request raw qos u DL (map_option tbf_allocatedTs ult))
      (copy_trx u (start_trx (h u) ult) h, p)"
    unfolding request by (cases ult) (simp_all add: request_defs start_trx_def copy_trx_same)
  show ?thesis
  proof (cases "class_ok schar qos")
    case True
    from dl.request_with_outcome [where g = g and h = h and u = u and prec = prec and dir = DL and other = ult, OF assms(1-6)] True show ?thesis
      unfolding r run_request_schar [OF True] class_ok_def by (simp only: if_True)
  next
    case False
    then show ?thesis unfolding r run_request_overruns [OF False assms(4)] class_ok_def by (simp only: if_False)
  qed
qed

lemma GetQueue_new: "GetQueue dir ScheduleInfo_new = ScheduleQueue_new dir"
  by (cases dir) (simp_all add: ScheduleInfo_new_def)

lemma new_pool_info: "IsTrxTsValid trx ts \<Longrightarrow> ts_scheduleInfo (get_ts trx ts (TSPool_new buf)) = ScheduleInfo_new"
  using IsTrxTsValidD [of trx ts] by (simp add: get_ts_def TSPool_new_def Timeslot_new_def)

lemma queues_ok_new: "queues_ok prec (TSPool_new buf)"
  using pool_ok_new [of buf] by (simp add: queues_ok_def new_pool_info GetQueue_new sq_ok_new)

lemma samples:
  "length (raw_cands raw0) = 173" "precs_ok (\<lambda>_. 1)" "qos_PrecedenceClass (qos_of c) = 1" "limit 1 3 1 = 1"
  "tbf_allocatedTs dl_tbf0 = replicate 8 False" "tbf_allocatedTs ul_tbf0 = replicate 8 False"
  "tbf_trx dl_tbf0 = NULL_TRX" "tbf_trx ul_tbf0 = NULL_TRX"
  by (simp_all add: raw0_def precs_ok_def qos_of_def limit_def dl_tbf0_def ul_tbf0_def)

theorem dl_request_respects_mobile_witness:
  "(\<exists>status h' p'. DLResourceRequest_with True raw0 (grr_of [5, 7]) (qos_of 4) (0 :: nat) ul_tbf0
     (\<lambda>_. dl_tbf0, TSPool_new [1, 2, 3, 4, 5 :: nat]) = Some (status, h', p') \<and> queues_ok (\<lambda>_ _. 1) p') \<and>
   DLResourceRequest_with False raw0 (grr_of [5, 7]) (qos_of 4) (0 :: nat) ul_tbf0
     (\<lambda>_. dl_tbf0, TSPool_new [1, 2, 3, 4, 5 :: nat]) = None"
proof -
  have o: "opposite_ok dl_tbf0 (Some ul_tbf0)" by (simp add: opposite_ok_def start_trx_def samples)
  note at = dl_request_respects_mobile [where prec = "\<lambda>_ _. 1" and u = "0 :: nat" and qos = "qos_of 4" and raw = raw0 and h = "\<lambda>_. dl_tbf0"
    and ult = "Some ul_tbf0" and g = "grr_of [5, 7]" and p = "TSPool_new [1, 2, 3, 4, 5 :: nat]",
    OF queues_ok_new samples(2) _ samples(1) _ o refl]
  from at [of True] at [of False] show ?thesis by (auto simp: samples qos_of_def)
qed

text \<open>
  C27: an uplink request, alone or together with the mobile's downlink TBF, is safe exactly as far as the tables are,
  and respects the mobile. In every state whose queues are as \<open>queues_ok\<close> says, for a TBF without slots and whatever
  slots the downlink TBF has: where \<^verbatim>\<open>char\<close> is signed or the multislot class is below 4, the request does not
  leave an array or follow a null pointer and keeps \<open>queues_ok\<close>. If it succeeds, the TBF has at least one slot, no
  more than its peak throughput class is worth, all of them usable slots of one transceiver (the downlink TBF's, if
  that has one), and with the downlink slots they stay within the limits of the multislot class. If it fails, the TBF
  has no slot and the pool is unchanged. For the other classes an unsigned \<^verbatim>\<open>char\<close> makes it leave an array.
\<close>

theorem ul_request_respects_mobile:
  assumes "queues_ok prec p" "precs_ok (prec UL)" "prec UL u = limit 1 3 (qos_PrecedenceClass qos)"
    "length (raw_cands raw) = MAX_MULTI_CONFIG_CANDIDATES"
    "tbf_allocatedTs (h u) = replicate MAX_TIMESLOTS False" "opposite_ok (h u) dlt"
    and request: "request = (case dlt of None \<Rightarrow> ULResourceRequest schar raw g qos u
      | Some t \<Rightarrow> ULResourceRequest_with schar raw g qos u t)"
  shows "if schar \<or> qos_MultislotClass qos < 4 then
      \<exists>status h' p'. request (h, p) = Some (status, h', p') \<and> queues_ok prec p' \<and> (\<forall>v. v \<noteq> u \<longrightarrow> h' v = h v) \<and>
        (if status then grant_ok g qos UL (tbf_trx (h' u)) (slots (tbf_allocatedTs (h' u))) (opposite_slots dlt) \<and>
             (start_trx (h u) dlt \<noteq> NULL_TRX \<longrightarrow> tbf_trx (h' u) = start_trx (h u) dlt)
         else slots (tbf_allocatedTs (h' u)) = {} \<and> p' = p)
    else request (h, p) = None"
proof -
  have r: "request (h, p) = run_request (AllocateUser ul_branch g) schar (new_request raw qos u UL (map_option tbf_allocatedTs dlt))
      (copy_trx u (start_trx (h u) dlt) h, p)"
    unfolding request by (cases dlt) (simp_all add: request_defs start_trx_def copy_trx_same)
  show ?thesis
  proof (cases "class_ok schar qos")
    case True
    from ul.request_with_outcome [where g = g and h = h and u = u and prec = prec and dir = UL and other = dlt, OF assms(1-6)] True show ?thesis
      unfolding r run_request_schar [OF True] class_ok_def by (simp only: if_True)
  next
    case False
    then show ?thesis unfolding r run_request_overruns [OF False assms(4)] class_ok_def by (simp only: if_False)
  qed
qed

text \<open>A mobile with a downlink TBF on slot 2 of transceiver 0.\<close>

theorem ul_request_respects_mobile_witness:
  "(\<exists>status h' p'. ULResourceRequest_with True raw0 (grr_of [2, 3]) (qos_of 6) (0 :: nat)
     (dl_tbf0\<lparr>tbf_trx := 0, tbf_allocatedTs := (replicate 8 False)[2 := True]\<rparr>)
     (\<lambda>_. ul_tbf0, TSPool_new [1, 2, 3, 4, 5 :: nat]) = Some (status, h', p') \<and> queues_ok (\<lambda>_ _. 1) p') \<and>
   ULResourceRequest False raw0 (grr_of [2, 3]) (qos_of 6) (0 :: nat) (\<lambda>_. ul_tbf0, TSPool_new [1, 2, 3, 4, 5 :: nat]) = None"
proof -
  let ?d = "dl_tbf0\<lparr>tbf_trx := 0, tbf_allocatedTs := (replicate 8 False)[2 := True]\<rparr>"
  have o: "opposite_ok ul_tbf0 (Some ?d)" "opposite_ok ul_tbf0 (None :: DLTbf option)"
    by (simp_all add: opposite_ok_def start_trx_def samples IsTrxValid_def)
  note at = ul_request_respects_mobile [where prec = "\<lambda>_ _. 1" and u = "0 :: nat" and qos = "qos_of 6" and raw = raw0 and h = "\<lambda>_. ul_tbf0"
    and g = "grr_of [2, 3]" and p = "TSPool_new [1, 2, 3, 4, 5 :: nat]", OF queues_ok_new samples(2) _ samples(1) _ _ refl]
  from at [OF _ _ o(1), of True] at [OF _ _ o(2), of False] show ?thesis by (auto simp: samples qos_of_def)
qed

end
