(* ===== verification/SlotFaults.thy ===== *)
theory SlotFaults
  imports SlotAllocation
begin

text \<open>
  Where the allocation of timeslots goes wrong: a TBF that ends without a slot on which the mobile can be polled,
  and a slot that is given to the same TBF twice.
\<close>

section \<open>The configurations of a class as a list\<close>

definition options_of :: "MultiSet \<Rightarrow> (nat list \<times> nat list) list" where
  "options_of m =
     (let dl = the (pattern_slots (patternOrderDL m) (patternIndexDL m));
          ul = the (pattern_slots (patternOrderUL m) (patternIndexUL m))
      in map (\<lambda>off. (map (\<lambda>p. nat (off + p)) dl, map (\<lambda>p. nat (off + slotOffsetUL m + p)) ul))
           [rangeStartDL m..rangeEndDL m])"

definition options_list :: "nat \<Rightarrow> (nat list \<times> nat list) list" where
  "options_list k = concat (map options_of (the (multi_sets True k)))"

lemma offers_options_of: "offers m off = (\<lambda>(d, u). (set d, set u)) (map (\<lambda>p. nat (off + p))
     (the (pattern_slots (patternOrderDL m) (patternIndexDL m))), map (\<lambda>p. nat (off + slotOffsetUL m + p))
     (the (pattern_slots (patternOrderUL m) (patternIndexUL m))))"
  by (simp add: offers_def)

lemma options_list: "multislot_options k = (\<lambda>(d, u). (set d, set u)) ` set (options_list k)"
  unfolding multislot_options_def options_list_def options_of_def Let_def offers_options_of
  by (simp add: image_UN image_image)

lemma ex_options:
  "(\<exists>opt \<in> multislot_options k. P (fst opt) (snd opt)) \<longleftrightarrow> list_ex (\<lambda>(d, u). P (set d) (set u)) (options_list k)"
  unfolding options_list list_ex_iff by (simp add: case_prod_beta)

lemma class4_options:
  "list_ex (\<lambda>(d, u). 5 \<in> set d \<and> 5 \<in> set u) (options_list 3)"
  "list_ex (\<lambda>(d, u). 5 \<in> set d \<and> 7 \<in> set d) (options_list 3)"
  "filter (\<lambda>(d, u). 5 \<in> set d \<and> 7 \<in> set d) (options_list 3) = [([5, 7], [6]), ([5, 6, 7], [6])]"
  by code_simp+

lemma class4_ex:
  "\<exists>opt \<in> multislot_options 3. 5 \<in> fst opt \<and> 5 \<in> snd opt"
  "\<exists>opt \<in> multislot_options 3. 5 \<in> fst opt \<and> 7 \<in> fst opt"
  unfolding ex_options [where P = "\<lambda>D U. 5 \<in> D \<and> 5 \<in> U"] ex_options [where P = "\<lambda>D U. 5 \<in> D \<and> 7 \<in> D"]
  by (rule class4_options)+

lemma class4_57: "{opt \<in> multislot_options 3. 5 \<in> fst opt \<and> 7 \<in> fst opt} = {({5, 7}, {6}), ({5, 6, 7}, {6})}"
proof -
  have "{opt \<in> multislot_options 3. 5 \<in> fst opt \<and> 7 \<in> fst opt} =
      (\<lambda>(d, u). (set d, set u)) ` set (filter (\<lambda>(d, u). 5 \<in> set d \<and> 7 \<in> set d) (options_list 3))"
    unfolding options_list by auto
  then show ?thesis unfolding class4_options(3) by simp
qed

text \<open>What the search knows of the slots: \<open>search_noted\<close> for a downlink TBF of a mobile that has no uplink slots.\<close>

lemma dl_search:
  assumes "length (raw_cands raw) = MAX_MULTI_CONFIG_CANDIDATES"
    "ComputeMultislotOptions True (new_request raw qos u DL None) = Some s0" "set tss \<subseteq> {..<MAX_TIMESLOTS}"
  obtains s h' where "note_slots tss (ConstrainCandMultiConfig (s0, h)) = Some (s, h')"
    "\<forall>ts < 8. IsAllowedTs DL ts s \<longleftrightarrow> (\<exists>opt \<in> multislot_options (class_index qos). set tss \<subseteq> fst opt \<and> ts \<in> fst opt)"
    "\<forall>ts < 8. IncludesNaturalTs DL ts (s, h') \<longleftrightarrow>
       ts \<in> slots (tbf_naturalTs (h' u)) \<or> slots (tbf_naturalTs (h' u)) \<inter> set tss \<noteq> {}"
    "slots (tbf_naturalTs (h' u)) = {ts. \<exists>opt \<in> multislot_options (class_index qos).
       set tss \<subseteq> fst opt \<and> ts \<in> fst opt \<and> ts \<in> snd opt} \<inter> {..<8}" "length (tbf_naturalTs (h' u)) = 8"
    "allocated DL s = set tss"
proof -
  have none: "\<forall>a. None = Some (a :: bool list) \<longrightarrow> length a = 8" by simp
  let ?k = "class_index qos"
  obtain s h' where r: "note_slots tss (ConstrainCandMultiConfig (s0, h)) = Some (s, h')" "tracking ?k s" "sa_tbf s = u"
    "allocated DL s = set tss" "length (tbf_naturalTs (h' u)) = 8"
    "slots (tbf_naturalTs (h' u)) = naturals ?k s \<inter> {..<8}"
    and left: "options_left ?k s = {opt \<in> multislot_options ?k. set tss \<subseteq> side DL opt \<and>
       (case None of None \<Rightarrow> {} | Some a \<Rightarrow> slots a) \<subseteq> side (opposite DL) opt}"
    by (rule search_noted [OF assms(1) none assms(2,3)])
  have left': "options_left ?k s = {opt \<in> multislot_options ?k. set tss \<subseteq> fst opt}" unfolding left by simp
  have len: "length (tbf_naturalTs (h' (sa_tbf s))) = 8" "length (sa_allocatedTsDL s) = 8" "length (sa_allocatedTsUL s) = 8"
    using r(2,3,5) by (auto simp: tracking_def prepared_def)
  show ?thesis
  proof (rule that [of s h'])
    show "\<forall>ts < 8. IsAllowedTs DL ts s \<longleftrightarrow> (\<exists>opt \<in> multislot_options ?k. set tss \<subseteq> fst opt \<and> ts \<in> fst opt)"
      using IsAllowedTs_iff [OF r(2), of _ DL] unfolding left' side_simps by blast
    show "\<forall>ts < 8. IncludesNaturalTs DL ts (s, h') \<longleftrightarrow>
       ts \<in> slots (tbf_naturalTs (h' u)) \<or> slots (tbf_naturalTs (h' u)) \<inter> set tss \<noteq> {}"
      using IncludesNaturalTs_iff [where h = h' and s = s and dir = DL, OF len] r(3,4) by (simp add: allocated_def)
    show "slots (tbf_naturalTs (h' u)) = {ts. \<exists>opt \<in> multislot_options ?k. set tss \<subseteq> fst opt \<and> ts \<in> fst opt \<and> ts \<in> snd opt} \<inter> {..<8}"
      unfolding r(6) naturals_def left' case_prod_beta by blast
  qed (use r in auto)
qed

lemma GetNaturalSlot_single:
  assumes "length (tbf_naturalTs t) = 8" "slots (tbf_naturalTs t) = {ts}"
  shows "GetNaturalSlot t = (True, tbf_trx t, Some ts)"
proof -
  have n: "tbf_naturalTs t ! i \<longleftrightarrow> i = ts" if "i < 8" for i
    using slots_nth [OF assms(1) that] assms(2) by simp
  have ts: "ts < 8" using assms by (auto simp: slots_def)
  obtain i where i: "List.find (\<lambda>ts. tbf_naturalTs t ! ts) [0..<8] = Some i"
    using n ts by (cases "List.find (\<lambda>ts. tbf_naturalTs t ! ts) [0..<8]") (auto simp: find_None_iff)
  then have "i < 8" "tbf_naturalTs t ! i" by (auto simp: find_Some_iff)
  then show ?thesis using i n by (simp add: GetNaturalSlot_def)
qed

section \<open>A polling slot that the TBF does not have\<close>

text \<open>Slot 5 and then slot 7, for a class that has a configuration with slot 5 in both directions.\<close>

lemma slots_5_7:
  assumes "class_index qos = k" "length (raw_cands raw) = MAX_MULTI_CONFIG_CANDIDATES"
    "ComputeMultislotOptions True (new_request raw qos u DL None) = Some s0"
    "\<exists>opt \<in> multislot_options k. 5 \<in> fst opt \<and> 5 \<in> snd opt" "\<exists>opt \<in> multislot_options k. 5 \<in> fst opt \<and> 7 \<in> fst opt"
  shows "\<exists>s1 h1 s2 h2 s3 h3.
     ConstrainCandMultiConfig (s0, h) = (s1, h1) \<and> IsAllowedTs DL 5 s1 \<and> IncludesNaturalTs DL 5 (s1, h1) \<and>
     UpdateAllowedSlots (SetNewSlotAllocation 0 5 1 s1, h1) = Some (s2, h2) \<and>
     IsAllowedTs DL 7 s2 \<and> IncludesNaturalTs DL 7 (s2, h2) \<and>
     UpdateAllowedSlots (SetNewSlotAllocation 0 7 1 s2, h2) = Some (s3, h3) \<and>
     allocated DL s3 = {5, 7} \<and> length (tbf_naturalTs (h3 u)) = 8 \<and>
     slots (tbf_naturalTs (h3 u)) = {ts. \<exists>opt \<in> {opt \<in> multislot_options k. 5 \<in> fst opt \<and> 7 \<in> fst opt}. ts \<in> fst opt \<and> ts \<in> snd opt} \<inter> {..<8}"
proof -
  obtain s1 h1 where c: "ConstrainCandMultiConfig (s0, h) = (s1, h1)" by fastforce
  obtain s1' h1' where r1: "note_slots [] (ConstrainCandMultiConfig (s0, h)) = Some (s1', h1')"
    "\<forall>ts < 8. IsAllowedTs DL ts s1' \<longleftrightarrow> (\<exists>opt \<in> multislot_options k. set [] \<subseteq> fst opt \<and> ts \<in> fst opt)"
    "\<forall>ts < 8. IncludesNaturalTs DL ts (s1', h1') \<longleftrightarrow>
       ts \<in> slots (tbf_naturalTs (h1' u)) \<or> slots (tbf_naturalTs (h1' u)) \<inter> set [] \<noteq> {}"
    "slots (tbf_naturalTs (h1' u)) = {ts. \<exists>opt \<in> multislot_options k. set [] \<subseteq> fst opt \<and> ts \<in> fst opt \<and> ts \<in> snd opt} \<inter> {..<8}"
    by (rule dl_search [OF assms(2,3), of "[]" h, unfolded assms(1)]) auto
  have e: "s1' = s1" "h1' = h1" using r1(1) c by simp_all
  have one: "IsAllowedTs DL 5 s1" "IncludesNaturalTs DL 5 (s1, h1)"
    using r1(2-4) assms(4) unfolding e by auto
  obtain s2 h2 where r2: "note_slots [5] (ConstrainCandMultiConfig (s0, h)) = Some (s2, h2)"
    "\<forall>ts < 8. IsAllowedTs DL ts s2 \<longleftrightarrow> (\<exists>opt \<in> multislot_options k. set [5] \<subseteq> fst opt \<and> ts \<in> fst opt)"
    "\<forall>ts < 8. IncludesNaturalTs DL ts (s2, h2) \<longleftrightarrow>
       ts \<in> slots (tbf_naturalTs (h2 u)) \<or> slots (tbf_naturalTs (h2 u)) \<inter> set [5] \<noteq> {}"
    "slots (tbf_naturalTs (h2 u)) = {ts. \<exists>opt \<in> multislot_options k. set [5] \<subseteq> fst opt \<and> ts \<in> fst opt \<and> ts \<in> snd opt} \<inter> {..<8}"
    by (rule dl_search [OF assms(2,3), of "[5]" h, unfolded assms(1)]) auto
  have two: "IsAllowedTs DL 7 s2" "IncludesNaturalTs DL 7 (s2, h2)" using r2(2-4) assms(4,5) by auto
  obtain s3 h3 where r3: "note_slots [5, 7] (ConstrainCandMultiConfig (s0, h)) = Some (s3, h3)"
    "slots (tbf_naturalTs (h3 u)) = {ts. \<exists>opt \<in> multislot_options k. set [5, 7] \<subseteq> fst opt \<and> ts \<in> fst opt \<and> ts \<in> snd opt} \<inter> {..<8}"
    "length (tbf_naturalTs (h3 u)) = 8" "allocated DL s3 = set [5, 7]"
    by (rule dl_search [OF assms(2,3), of "[5, 7]" h, unfolded assms(1)]) auto
  have "{ts. \<exists>opt \<in> multislot_options k. set [5, 7] \<subseteq> fst opt \<and> ts \<in> fst opt \<and> ts \<in> snd opt} =
      {ts. \<exists>opt \<in> {opt \<in> multislot_options k. 5 \<in> fst opt \<and> 7 \<in> fst opt}. ts \<in> fst opt \<and> ts \<in> snd opt}"
    by (simp del: split_paired_Ex add: Bex_def conj_assoc)
  then have n: "slots (tbf_naturalTs (h3 u)) = {ts. \<exists>opt \<in> {opt \<in> multislot_options k. 5 \<in> fst opt \<and> 7 \<in> fst opt}. ts \<in> fst opt \<and> ts \<in> snd opt} \<inter> {..<8}"
    using r3(2) by simp
  have u2: "UpdateAllowedSlots (SetNewSlotAllocation 0 5 1 s1, h1) = Some (s2, h2)"
    using r2(1) c by (auto split: bind_splits)
  have u3: "UpdateAllowedSlots (SetNewSlotAllocation 0 7 1 s2, h2) = Some (s3, h3)"
    using r3(1) c u2 by (auto split: bind_splits)
  have al: "allocated DL s3 = {5, 7}" using r3(4) by simp
  show ?thesis
    by (intro exI conjI) (rule c one two u2 u3 al r3(3) n)+
qed

text \<open>
  The check for a natural slot does not keep one. For a mobile of multislot class 4 with no uplink TBF the
  search takes slot 5, and then slot 7: both are allowed and pass the check that the allocation includes a
  natural slot. But after slot 7 the only natural slot left is 6, which the TBF does not have, and
  \<open>GetNaturalSlot\<close>, which chooses the slot on which the mobile is polled, returns it.
\<close>

theorem natural_slot_lost:
  assumes "qos_MultislotClass qos = 4" "length (raw_cands raw) = MAX_MULTI_CONFIG_CANDIDATES"
    "ComputeMultislotOptions True (new_request raw qos u DL None) = Some s0"
  shows "\<exists>s1 h1 s2 h2 s3 h3.
     ConstrainCandMultiConfig (s0, h) = (s1, h1) \<and> IsAllowedTs DL 5 s1 \<and> IncludesNaturalTs DL 5 (s1, h1) \<and>
     UpdateAllowedSlots (SetNewSlotAllocation 0 5 1 s1, h1) = Some (s2, h2) \<and>
     IsAllowedTs DL 7 s2 \<and> IncludesNaturalTs DL 7 (s2, h2) \<and>
     UpdateAllowedSlots (SetNewSlotAllocation 0 7 1 s2, h2) = Some (s3, h3) \<and>
     allocated DL s3 = {5, 7} \<and> GetNaturalSlot (h3 u) = (True, tbf_trx (h3 u), Some 6)"
proof -
  have k: "class_index qos = 3" using assms(1) by (simp add: class_index_def limit_def)
  obtain s1 h1 s2 h2 s3 h3 where r: "ConstrainCandMultiConfig (s0, h) = (s1, h1)" "IsAllowedTs DL 5 s1" "IncludesNaturalTs DL 5 (s1, h1)"
    "UpdateAllowedSlots (SetNewSlotAllocation 0 5 1 s1, h1) = Some (s2, h2)" "IsAllowedTs DL 7 s2" "IncludesNaturalTs DL 7 (s2, h2)"
    "UpdateAllowedSlots (SetNewSlotAllocation 0 7 1 s2, h2) = Some (s3, h3)" "allocated DL s3 = {5, 7}"
    and n: "length (tbf_naturalTs (h3 u)) = 8"
    "slots (tbf_naturalTs (h3 u)) = {ts. \<exists>opt \<in> {({5, 7}, {6}), ({5, 6, 7}, {6})}. ts \<in> fst opt \<and> ts \<in> snd opt} \<inter> {..<8}"
    using slots_5_7 [OF k assms(2,3) class4_ex, of h] unfolding class4_57 by blast
  have "slots (tbf_naturalTs (h3 u)) = {6}" unfolding n(2) by auto
  then have "GetNaturalSlot (h3 u) = (True, tbf_trx (h3 u), Some 6)" by (rule GetNaturalSlot_single [OF n(1)])
  then show ?thesis using r by blast
qed

theorem natural_slot_lost_witness:
  "\<exists>s0 s3 h3. ComputeMultislotOptions True (new_request raw0 (qos_of 4) (0 :: nat) DL None) = Some s0 \<and>
     note_slots [5, 7] (ConstrainCandMultiConfig (s0, \<lambda>_. dl_tbf0)) = Some (s3, h3) \<and>
     allocated DL s3 = {5, 7} \<and> snd (snd (GetNaturalSlot (h3 0))) = Some 6"
proof -
  have q: "qos_MultislotClass (qos_of 4) = 4" by (simp add: qos_of_def)
  obtain s0 where s0: "ComputeMultislotOptions True (new_request raw0 (qos_of 4) (0 :: nat) DL None) = Some s0"
    using ComputeMultislotOptions_total [of "new_request raw0 (qos_of 4) (0 :: nat) DL None"] samples(1)
    by (auto simp: new_request_def SchedAlloc_new_def Let_def)
  from natural_slot_lost [OF q samples(1) s0, of "\<lambda>_. dl_tbf0"]
  obtain s1 h1 s2 h2 s3 h3 where "ConstrainCandMultiConfig (s0, \<lambda>_. dl_tbf0) = (s1, h1)"
    "UpdateAllowedSlots (SetNewSlotAllocation 0 5 1 s1, h1) = Some (s2, h2)"
    "UpdateAllowedSlots (SetNewSlotAllocation 0 7 1 s2, h2) = Some (s3, h3)"
    "allocated DL s3 = {5, 7}" "GetNaturalSlot (h3 0) = (True, tbf_trx (h3 0), Some 6)" by blast
  then show ?thesis using s0 by (intro exI [of _ s0] exI [of _ s3] exI [of _ h3]) simp
qed

end
