(* ===== verification/QueueUsers.thy ===== *)
theory QueueUsers
  imports SlotAllocation
begin

text \<open>
  Which TBFs the schedule queues name.  Entries are pointers to TBFs, so a TBF that is still named after its
  release would be a dangling pointer.
\<close>

section \<open>The users of a queue\<close>

definition row_users :: "'p row \<Rightarrow> 'p set" where
  "row_users row = {u. \<exists>e \<in> set row. e_userTbf e = Some u}"

definition sq_users :: "'p ScheduleQueue \<Rightarrow> 'p set" where
  "sq_users q = (\<Union>row \<in> set (sq_queue q). row_users row)"

lemma row_users_update: "row_users (row[i := e]) \<subseteq> row_users row \<union> set_option (e_userTbf e)"
  using set_update_subset_insert [of row i e] by (auto simp: row_users_def)

lemma AllocateOneEntry_users:
  "AllocateOneEntry i u precedence n row = (made, row') \<Longrightarrow> row_users row' \<subseteq> insert u (row_users row)"
  using row_users_update [of row i "\<lparr>e_userTbf = Some u, e_precedence = precedence, e_entryNumber = n,
     e_importance = newImportance precedence n\<rparr>"]
  by (auto simp: AllocateOneEntry_def SetEntry_def split: if_splits)

lemma alloc_loop_users:
  "alloc_loop u precedence is n row = (k, row') \<Longrightarrow> row_users row' \<subseteq> insert u (row_users row)"
proof (induction "is" arbitrary: n row)
  case (Cons i "is")
  obtain made row1 where one: "AllocateOneEntry i u precedence n row = (made, row1)" by fastforce
  show ?case using Cons.IH [of "n + 1" row1] Cons.prems AllocateOneEntry_users [OF one]
    by (auto simp: one split: if_splits)
qed auto

lemma balance_loop_users:
  "balance_loop u precedence h is n row = Some row' \<Longrightarrow> row_users row' \<subseteq> insert u (row_users row)"
proof (induction "is" arbitrary: n row)
  case (Cons i "is")
  obtain made row1 where one: "AllocateOneEntry i u precedence (int n + h + 1) row = (made, row1)" by fastforce
  show ?case using Cons.IH [of "n + 1" row1] Cons.prems AllocateOneEntry_users [OF one]
    by (auto simp: one split: if_splits)
qed (auto split: if_splits)

lemma balance_users_users:
  "balance_users n us row = Some row' \<Longrightarrow> row_users row' \<subseteq> fst ` set us \<union> row_users row"
proof (induction us arbitrary: row)
  case (Cons x us)
  obtain u p h where x: "x = (u, p, h)" by (cases x)
  obtain rs row1 where "Rank n row = Some rs" and one: "balance_loop u p h (map fst rs) 0 row = Some row1"
    and rest: "balance_users n us row1 = Some row'"
    using Cons.prems by (auto simp: x split: option.splits)
  then show ?case using Cons.IH [OF rest] balance_loop_users [OF one] by (auto simp: x)
qed simp

lemma BalanceRow_users: "BalanceRow n row = Some row' \<Longrightarrow> row_users row' \<subseteq> row_users row"
  using balance_users_users [of n "GetAllTbf row" row row'] GetAllTbf_users [of row]
  by (simp add: BalanceRow_def row_users_def)

lemma dealloc_row_users: "row_users (snd (dealloc_row u row)) = row_users row - {u}"
  unfolding row_users_def dealloc_row_map(1) by (auto simp: null_entry_def)

lemma dealloc_row_none: "fst (dealloc_row u row) \<le> 0 \<longleftrightarrow> u \<notin> row_users row"
  unfolding dealloc_row_map(2) by (auto simp: row_users_def filter_empty_conv)

section \<open>The operations\<close>

lemma AllocateEntries_users:
  assumes "AllocateEntries u l precedence q = Some (k, q')"
  shows "sq_users q' \<subseteq> insert u (sq_users q)" "sq_savedQueue q' = sq_savedQueue q"
proof -
  obtain row where row: "AllocateRow (nbrEntries ! l) u precedence (sq_queue q ! l) = Some (k, row)"
    and q': "q' = q\<lparr>sq_queue := (sq_queue q)[l := row]\<rparr>"
    using assms by (auto simp: AllocateEntries_def split: if_splits)
  have "row_users row \<subseteq> insert u (row_users (sq_queue q ! l))"
  proof -
    obtain rs where rs: "Rank (nbrEntries ! l) (sq_queue q ! l) = Some rs"
      using row by (auto simp: AllocateRow_def)
    then have "row = snd (alloc_loop u precedence (map fst rs) 0 (sq_queue q ! l))"
      using row by (simp add: AllocateRow_def case_prod_beta)
    then have "alloc_loop u precedence (map fst rs) 0 (sq_queue q ! l) =
        (fst (alloc_loop u precedence (map fst rs) 0 (sq_queue q ! l)), row)" by simp
    then show ?thesis by (rule alloc_loop_users)
  qed
  then have "sq_users q' \<subseteq> insert u (sq_users q)" if "l < length (sq_queue q)"
    using that set_update_subset_insert [of "sq_queue q" l row] nth_mem [OF that] by (fastforce simp: sq_users_def q')
  then show "sq_users q' \<subseteq> insert u (sq_users q)"
    by (cases "l < length (sq_queue q)") (auto simp: q' list_update_beyond)
  show "sq_savedQueue q' = sq_savedQueue q" by (simp add: q')
qed

text \<open>\<open>cleared u ls q q'\<close>: \<open>u\<close> has been taken out of the levels \<open>ls\<close>, and nobody has come in.\<close>

definition cleared :: "'p \<Rightarrow> nat set \<Rightarrow> 'p ScheduleQueue \<Rightarrow> 'p ScheduleQueue \<Rightarrow> bool" where
  "cleared u ls q q' \<longleftrightarrow> length (sq_queue q') = length (sq_queue q) \<and> sq_savedQueue q' = sq_savedQueue q \<and>
     (\<forall>l < length (sq_queue q). row_users (sq_queue q' ! l) \<subseteq> row_users (sq_queue q ! l) - (if l \<in> ls then {u} else {}))"

lemma cleared_none: "cleared u {} q q"
  by (simp add: cleared_def)

lemma cleared_trans:
  assumes "cleared u ls q q1" "cleared u ls' q1 q2"
  shows "cleared u (ls \<union> ls') q q2"
proof -
  have "row_users (sq_queue q2 ! l) \<subseteq> row_users (sq_queue q ! l) - (if l \<in> ls \<union> ls' then {u} else {})"
    if "l < length (sq_queue q)" for l
  proof -
    have "row_users (sq_queue q1 ! l) \<subseteq> row_users (sq_queue q ! l) - (if l \<in> ls then {u} else {})"
      "row_users (sq_queue q2 ! l) \<subseteq> row_users (sq_queue q1 ! l) - (if l \<in> ls' then {u} else {})"
      using assms that by (simp_all add: cleared_def)
    then show ?thesis by (auto split: if_splits)
  qed
  then show ?thesis using assms by (simp add: cleared_def)
qed

lemma cleared_all:
  assumes "cleared u {..<QUEUE_NUM_LEVELS} q q'" "length (sq_queue q) = QUEUE_NUM_LEVELS"
  shows "sq_users q' \<subseteq> sq_users q - {u}"
proof
  fix v assume "v \<in> sq_users q'"
  then obtain l where l: "l < 4" "v \<in> row_users (sq_queue q' ! l)"
    using assms by (auto simp: sq_users_def cleared_def in_set_conv_nth)
  then have "v \<in> row_users (sq_queue q ! l) - {u}" using assms by (auto simp: cleared_def)
  then show "v \<in> sq_users q - {u}" using l(1) assms(2) nth_mem [of l "sq_queue q"] by (auto simp: sq_users_def)
qed

lemma DeallocateEntries_cleared:
  assumes "DeallocateEntries u l q = Some (k, q')"
  shows "cleared u {l} q q'"
proof -
  obtain row where row: "dealloc_row u (sq_queue q ! l) = (k, row)" "q' = q\<lparr>sq_queue := (sq_queue q)[l := row]\<rparr>"
    using assms by (auto simp: DeallocateEntries_def split: if_splits prod.splits)
  have "row_users row = row_users (sq_queue q ! l) - {u}" using dealloc_row_users [of u "sq_queue q ! l"] row(1) by simp
  then show ?thesis by (auto simp: cleared_def row(2) nth_list_update)
qed

lemma BalanceEntries_cleared:
  assumes "BalanceEntries l q = Some q'"
  shows "cleared u {} q q'"
proof -
  obtain row where row: "BalanceRow (nbrEntries ! l) (sq_queue q ! l) = Some row" "q' = q\<lparr>sq_queue := (sq_queue q)[l := row]\<rparr>"
    using assms by (auto simp: BalanceEntries_def split: if_splits)
  then show ?thesis using BalanceRow_users [OF row(1)]
    by (cases "l < length (sq_queue q)") (simp_all add: cleared_def nth_list_update)
qed

lemma RemoveFromLevel_cleared:
  assumes "RemoveFromLevel u l q = Some q'"
  shows "cleared u {l} q q'"
proof -
  obtain k q1 where q1: "DeallocateEntries u l q = Some (k, q1)" "(if k \<noteq> 0 then BalanceEntries l q1 else Some q1) = Some q'"
    using assms by (auto simp: RemoveFromLevel_def split: option.splits)
  then show ?thesis
    using cleared_trans [OF DeallocateEntries_cleared [OF q1(1)] BalanceEntries_cleared [of l q1 q' u]]
      DeallocateEntries_cleared [OF q1(1)] by (auto split: if_splits)
qed

lemma remove_levels_cleared:
  "remove_levels u ls q = Some q' \<Longrightarrow> cleared u (set ls) q q'"
proof (induction ls arbitrary: q)
  case (Cons l ls)
  then obtain q1 where "RemoveFromLevel u l q = Some q1" "remove_levels u ls q1 = Some q'" by (auto split: bind_splits)
  then show ?case using cleared_trans [OF RemoveFromLevel_cleared Cons.IH] by fastforce
qed (simp add: cleared_none)

lemma remove_levels_ok:
  assumes "sq_ok prec q" "precs_ok prec" "set ls \<subseteq> {..<QUEUE_NUM_LEVELS}"
  shows "\<exists>q'. remove_levels u ls q = Some q' \<and> sq_ok prec q'"
  using assms
proof (induction ls arbitrary: q)
  case (Cons l ls)
  obtain q1 where "RemoveFromLevel u l q = Some q1" "sq_ok prec q1"
    using RemoveFromLevel_ok [OF Cons.prems(1,2), of l u] Cons.prems(3) by auto
  then show ?case using Cons.IH [of q1] Cons.prems(2,3) by simp
qed simp

text \<open>The level loop of the reallocation does the same as that of the release, and counts.\<close>

lemma vacate_levels_remove:
  assumes "remove_levels u ls q = Some q'"
  shows "\<exists>n' e'. vacate_levels u d ls (q, n, e) = Some (q', n', e') \<and> e \<le> e'"
  using assms
proof (induction ls arbitrary: q n e)
  case (Cons l ls)
  obtain q2 where q2: "RemoveFromLevel u l q = Some q2" "remove_levels u ls q2 = Some q'"
    using Cons.prems by (auto split: bind_splits)
  obtain k q1 where q1: "DeallocateEntries u l q = Some (k, q1)" "(if k \<noteq> 0 then BalanceEntries l q1 else Some q1) = Some q2"
    using q2(1) by (auto simp: RemoveFromLevel_def split: option.splits)
  have "0 \<le> k" using q1(1) by (auto simp: DeallocateEntries_def dealloc_row_map(2) split: if_splits prod.splits
      dest!: arg_cong [where f = fst])
  then show ?case
    using q1 Cons.IH [OF q2(2), of "if l = d then n + 1 else n" "if l = d then e + k else e"] Cons.IH [OF q2(2), of n e]
    by (cases "k = 0") (auto split: if_splits)
qed simp

lemma ScheduleNextBlock_users:
  assumes "sq_ok prec q" "ScheduleNextBlock st q = Some (r, q')"
  shows "sq_queue q' = sq_queue q" "sq_savedQueue q' = sq_savedQueue q" "r = Some u \<Longrightarrow> u \<in> sq_users q"
proof -
  obtain r' idx where t: "ScheduleNextBlock st q = Some (r', q\<lparr>sq_currentIndex := idx\<rparr>)"
    "case r' of Some t \<Rightarrow> \<exists>l < QUEUE_NUM_LEVELS. level_has st q l t | None \<Rightarrow> True"
  proof -
    obtain r' idx where a: "ScheduleNextBlock st q = Some (r', q\<lparr>sq_currentIndex := idx\<rparr>)"
      "case r' of Some t \<Rightarrow> \<exists>l < QUEUE_NUM_LEVELS. level_has st q l t
       | None \<Rightarrow> \<forall>l < QUEUE_NUM_LEVELS. \<forall>t. \<not> level_has st q l t"
      using ScheduleNextBlock_total [OF assms(1), of st] by blast
    then show ?thesis using that [OF a(1)] by (cases r') simp_all
  qed
  then show "sq_queue q' = sq_queue q" "sq_savedQueue q' = sq_savedQueue q" using assms(2) by auto
  show "u \<in> sq_users q" if r: "r = Some u"
  proof -
    obtain l i where l: "l < 4" "i < nbrEntries ! l" "e_userTbf (sq_queue q ! l ! i) = Some u"
      using t assms(2) r by (cases r') (auto simp: level_has_def)
    have rows: "rows_ok prec (sq_queue q)" using assms(1) by (simp add: sq_ok_def)
    have "row_ok prec (nbrEntries ! l) (sq_queue q ! l)" "l < length (sq_queue q)"
      using rows_okD [OF rows l(1)] rows l(1) by (simp_all add: rows_ok_def)
    then have "i < length (sq_queue q ! l)" "sq_queue q ! l \<in> set (sq_queue q)"
      using l(2) nbrEntries_bounds [OF l(1)] by (auto simp: row_ok_def)
    then show ?thesis using l(3) nth_mem by (fastforce simp: sq_users_def row_users_def)
  qed
qed

end
