(* ===== verification/SlotHolders.thy ===== *)
theory SlotHolders
  imports QueueUsers
begin

text \<open>
  The schedule queues name only TBFs that hold the timeslot: this is kept by allocation, reallocation and
  release, and after its release a TBF is named nowhere.
\<close>

section \<open>Holders\<close>

definition slot_queue :: "LinkDirection \<Rightarrow> int \<Rightarrow> int \<Rightarrow> ('p, 'm) TSPool \<Rightarrow> 'p ScheduleQueue" where
  "slot_queue dir trx ts p = GetQueue dir (ts_scheduleInfo (get_ts trx ts p))"

definition held :: "LinkDirection \<Rightarrow> ('p \<Rightarrow> 'a Tbf_scheme) \<Rightarrow> ('p, 'm) TSPool \<Rightarrow> bool" where
  "held dir h p \<longleftrightarrow> (\<forall>trx ts u. IsTrxTsValid trx ts \<longrightarrow> u \<in> sq_users (slot_queue dir trx ts p) \<longrightarrow>
     tbf_trx (h u) = trx \<and> nat ts \<in> slots (tbf_allocatedTs (h u)))"

definition tbf_ok :: "'a Tbf_scheme \<Rightarrow> bool" where
  "tbf_ok t \<longleftrightarrow> length (tbf_allocatedTs t) = MAX_TIMESLOTS \<and> length (tbf_naturalTs t) = MAX_TIMESLOTS \<and>
     (tbf_trx t = NULL_TRX \<or> IsTrxValid (tbf_trx t)) \<and> (slots (tbf_allocatedTs t) \<noteq> {} \<longrightarrow> IsTrxValid (tbf_trx t))"

lemma heldD:
  "held dir h p \<Longrightarrow> IsTrxTsValid trx ts \<Longrightarrow> u \<in> sq_users (slot_queue dir trx ts p) \<Longrightarrow>
     tbf_trx (h u) = trx \<and> nat ts \<in> slots (tbf_allocatedTs (h u))"
  by (simp add: held_def)

lemma slot_queue_on_info:
  assumes "pool_ok p" "IsTrxTsValid trx ts" "IsTrxTsValid t s"
  shows "slot_queue d t s (on_info f trx ts p) =
     (if t = trx \<and> s = ts then GetQueue d (f (ts_scheduleInfo (get_ts trx ts p))) else slot_queue d t s p)"
  using assms by (simp add: slot_queue_def get_on_info)

lemma slot_queue_put:
  assumes "pool_ok p" "IsTrxTsValid trx ts" "IsTrxTsValid t s"
  shows "slot_queue d t s (on_info (PutQueue dir q) trx ts p) = (if d = dir \<and> t = trx \<and> s = ts then q else slot_queue d t s p)"
    "slot_queue d t s (on_info (\<lambda>i. UpdateUsersAndCapacity dir (PutQueue dir q i)) trx ts p) =
       (if d = dir \<and> t = trx \<and> s = ts then q else slot_queue d t s p)"
    "slot_queue d t s (on_info (UpdateUsersAndCapacity dir) trx ts p) = slot_queue d t s p"
  using assms by (simp_all add: slot_queue_def get_on_info GetQueue_PutQueue)

lemma same_info_queue: "same_info p p' \<Longrightarrow> IsTrxTsValid t s \<Longrightarrow> slot_queue d t s p' = slot_queue d t s p"
  by (simp add: same_info_def slot_queue_def)

lemma same_info_held: "held dir h p \<Longrightarrow> same_info p p' \<Longrightarrow> held dir h p'"
  by (simp add: held_def same_info_queue)

lemma same_slots_held: "held dir h p \<Longrightarrow> same_slots u h h' \<Longrightarrow> held dir h' p"
  unfolding held_def same_slots_def by metis

lemma slot_queue_ok: "queues_ok prec p \<Longrightarrow> IsTrxTsValid trx ts \<Longrightarrow> sq_ok (prec dir) (slot_queue dir trx ts p)"
  by (simp add: slot_queue_def queues_okD)

lemma queue_at_slot: "IsTrxTsValid trx ts \<Longrightarrow> queue_at dir trx ts p = Some (slot_queue dir trx ts p)"
  by (simp add: slot_queue_def queue_at_valid)

section \<open>What the search for slots changes\<close>

text \<open>
  \<open>grown dir u\<close>: TBF \<open>u\<close> has stayed on its transceiver, if it had one, and taken further slots there; nobody
  else has come into a queue, and the saved queues and the other transceivers are as they were.
\<close>

definition grown :: "LinkDirection \<Rightarrow> 'p \<Rightarrow> ('p \<Rightarrow> 'a Tbf_scheme) \<times> ('p, 'm) TSPool \<Rightarrow>
  ('p \<Rightarrow> 'a Tbf_scheme) \<times> ('p, 'm) TSPool \<Rightarrow> bool" where
  "grown dir u = (\<lambda>(h, p) (h', p'). pool_ok p' \<and> only_slots u h h' \<and> length (tbf_allocatedTs (h' u)) = length (tbf_allocatedTs (h u)) \<and>
     (tbf_trx (h u) \<noteq> NULL_TRX \<longrightarrow> tbf_trx (h' u) = tbf_trx (h u)) \<and>
     slots (tbf_allocatedTs (h u)) \<subseteq> slots (tbf_allocatedTs (h' u)) \<and>
     (\<forall>d t s. IsTrxTsValid t s \<longrightarrow>
        (if d = dir \<and> t = tbf_trx (h' u)
         then sq_savedQueue (slot_queue d t s p') = sq_savedQueue (slot_queue d t s p) \<and>
           sq_users (slot_queue d t s p') \<subseteq> sq_users (slot_queue d t s p) \<union>
             (if nat s \<in> slots (tbf_allocatedTs (h' u)) then {u} else {})
         else slot_queue d t s p' = slot_queue d t s p)))"

lemma grown_queue:
  "grown dir u (h, p) (h', p') \<Longrightarrow> IsTrxTsValid t s \<Longrightarrow>
     (if d = dir \<and> t = tbf_trx (h' u)
      then sq_savedQueue (slot_queue d t s p') = sq_savedQueue (slot_queue d t s p) \<and>
        sq_users (slot_queue d t s p') \<subseteq> sq_users (slot_queue d t s p) \<union>
          (if nat s \<in> slots (tbf_allocatedTs (h' u)) then {u} else {})
      else slot_queue d t s p' = slot_queue d t s p)"
  unfolding grown_def prod.case by blast

lemma grownD:
  assumes "grown dir u (h, p) (h', p')"
  shows "pool_ok p'" "only_slots u h h'" "length (tbf_allocatedTs (h' u)) = length (tbf_allocatedTs (h u))"
    "tbf_trx (h u) \<noteq> NULL_TRX \<Longrightarrow> tbf_trx (h' u) = tbf_trx (h u)"
    "slots (tbf_allocatedTs (h u)) \<subseteq> slots (tbf_allocatedTs (h' u))" "v \<noteq> u \<Longrightarrow> h' v = h v"
  using assms unfolding grown_def prod.case only_slots_def by auto

lemma grown_refl: "pool_ok p \<Longrightarrow> grown dir u (h, p) (h, p)"
  by (auto simp: grown_def only_slots_refl)

lemma not_valid_null: "IsTrxTsValid t s \<Longrightarrow> t \<noteq> NULL_TRX"
  by (simp add: IsTrxTsValid_def)

lemma grown_trans:
  assumes "grown dir u (h, p) (h1, p1)" "grown dir u (h1, p1) (h2, p2)"
  shows "grown dir u (h, p) (h2, p2)"
proof -
  let ?A = "\<lambda>h. slots (tbf_allocatedTs (h u))"
  note a = grownD [OF assms(1)] and b = grownD [OF assms(2)]
  have "if d = dir \<and> t = tbf_trx (h2 u)
     then sq_savedQueue (slot_queue d t s p2) = sq_savedQueue (slot_queue d t s p) \<and>
       sq_users (slot_queue d t s p2) \<subseteq> sq_users (slot_queue d t s p) \<union> (if nat s \<in> ?A h2 then {u} else {})
     else slot_queue d t s p2 = slot_queue d t s p" if v: "IsTrxTsValid t s" for d t s
    using grown_queue [OF assms(1) v, of d] grown_queue [OF assms(2) v, of d] a(4) b(4,5) not_valid_null [OF v]
    by (cases "d = dir"; cases "t = tbf_trx (h1 u)"; cases "t = tbf_trx (h2 u)") (auto split: if_splits)
  moreover have "only_slots u h h2" using a(2) b(2) by (rule only_slots_trans)
  moreover have "tbf_trx (h u) \<noteq> NULL_TRX \<longrightarrow> tbf_trx (h2 u) = tbf_trx (h u)" using a(4) b(4) by auto
  ultimately show ?thesis using a(3,5) b(1,3,5) unfolding grown_def by auto
qed

lemma grown_held:
  assumes "held dir h p" "grown dir u (h, p) (h', p')"
  shows "held dir h' p'"
  unfolding held_def
proof (intro allI impI)
  fix t s v assume v: "IsTrxTsValid t s" and mem: "v \<in> sq_users (slot_queue dir t s p')"
  note g = grownD [OF assms(2)] and q = grown_queue [OF assms(2) v, of dir]
  show "tbf_trx (h' v) = t \<and> nat s \<in> slots (tbf_allocatedTs (h' v))"
  proof (cases "v \<in> sq_users (slot_queue dir t s p)")
    case True
    then have old: "tbf_trx (h v) = t \<and> nat s \<in> slots (tbf_allocatedTs (h v))" using heldD [OF assms(1) v] by blast
    then show ?thesis using g(4-6) not_valid_null [OF v] by (cases "v = u") auto
  next
    case False
    then show ?thesis using q mem by (auto split: if_splits)
  qed
qed

section \<open>The search grows the TBF\<close>

lemma UpdateAllowedSlots_effect:
  assumes "UpdateAllowedSlots (s, h) = Some (s', h')"
  obtains natural where "h' = h(sa_tbf s := (h (sa_tbf s))\<lparr>tbf_naturalTs := natural\<rparr>)"
    "sa_tbf s' = sa_tbf s" "sa_direction s' = sa_direction s"
proof -
  obtain s1 where s1: "AddSlotAllocation s = Some s1" "ConstrainCandMultiConfig (s1, h) = (s', h')"
    using assms by (auto simp: UpdateAllowedSlots_def)
  have "sa_tbf s1 = sa_tbf s" "sa_direction s1 = sa_direction s"
    using s1(1) by (auto simp: AddSlotAllocation_def split: if_splits)
  then show ?thesis using that s1(2) by (auto simp: ConstrainCandMultiConfig_def Let_def)
qed

lemma AllocateOneSlot_grown:
  assumes inv: "alloc_inv g prec m dir u trx0 other (s0, h, p)" and pr: "precs_ok (prec dir)"
    and run: "AllocateOneSlot g (s0, h, p) = Some (b, s', h', p')"
  shows "grown dir u (h, p) (h', p')"
proof -
  have i: "queues_ok prec p" "sa_tbf s0 = u" "sa_direction s0 = dir"
    "nat (sa_delayClass s0 - 1) < QUEUE_NUM_LEVELS" "sa_precedenceClass s0 = prec dir u"
    and len: "length (tbf_allocatedTs (h u)) = MAX_TIMESLOTS"
    using inv by (auto simp: alloc_inv_def)
  have ok: "pool_ok p" by (rule queues_okD(1) [OF i(1)])
  obtain s where s: "FindBestSlot g h p s0 = Some s" "searched g h p s0 s"
    using FindBestSlot_searched [OF i(1)] i pr by blast
  obtain trx ts n where sn: "s = s0\<lparr>sa_trx := trx, sa_ts := ts, sa_entries := n\<rparr>"
    and cand: "n > 0 \<longrightarrow> candidate g h p s0 trx ts n" using s(2) by (auto simp: searched_def)
  show ?thesis
  proof (cases "0 < n")
    case False
    then show ?thesis using run s grown_refl [OF ok] by (auto simp: AllocateOneSlot_def sn)
  next
    case True
    then have v: "IsTrxTsValid trx ts" "tbf_trx (h u) = NULL_TRX \<or> tbf_trx (h u) = trx"
      "FindAvailableEntries u (nat (sa_delayClass s0 - 1)) (prec dir u) (slot_queue dir trx ts p) = Some n"
      using cand i by (auto simp: candidate_def slot_queue_def)
    have ts: "0 \<le> ts" "nat ts < 8" "nat ts < length (tbf_allocatedTs (h u))" using v(1) len by (auto simp: IsTrxTsValid_def)
    obtain k q' where q': "AllocateEntries u (nat (sa_delayClass s0 - 1)) (prec dir u) (slot_queue dir trx ts p) = Some (k, q')"
      "k \<noteq> 0"
      by (rule find_then_allocate [OF slot_queue_ok [OF i(1) v(1)] pr i(4), of u]) (use v(3) True in auto)
    let ?p1 = "on_info (PutQueue dir q') trx ts p"
    let ?h1 = "h(u := set_allocatedTs (nat ts) True ((h u)\<lparr>tbf_trx := trx\<rparr>))"
    have p1: "pool_ok ?p1" by (rule on_info_pool_ok [OF ok v(1)])
    note Q = AllocateEntries_users [OF q'(1)] and put = slot_queue_put [OF ok v(1)]
    obtain s2 h2 where u: "UpdateAllowedSlots (s, ?h1) = Some (s2, h2)"
      and r: "h' = h2" "p' = on_info (UpdateUsersAndCapacity dir) trx ts ?p1"
      using run s q' True i queue_at_slot [OF v(1), of dir p]
      by (auto simp: AllocateOneSlot_def sn Let_def split: bind_splits)
    obtain natural where nat: "h2 = ?h1(sa_tbf s := (?h1 (sa_tbf s))\<lparr>tbf_naturalTs := natural\<rparr>)"
      by (rule UpdateAllowedSlots_effect [OF u])
    have h': "h' = h(u := (h u)\<lparr>tbf_trx := trx, tbf_allocatedTs := (tbf_allocatedTs (h u))[nat ts := True], tbf_naturalTs := natural\<rparr>)"
      unfolding r(1) nat by (auto simp: set_allocatedTs_def sn i fun_eq_iff)
    have A: "slots (tbf_allocatedTs (h' u)) = insert (nat ts) (slots (tbf_allocatedTs (h u)))"
      using ts(3) by (simp add: h' slots_update)
    have q: "slot_queue d t s p' = (if d = dir \<and> t = trx \<and> s = ts then q' else slot_queue d t s p)"
      if "IsTrxTsValid t s" for d t s
      using put(1) slot_queue_put(3) [OF p1 v(1) that] that unfolding r(2) by simp
    show ?thesis
      unfolding grown_def prod.case
    proof (intro conjI allI impI)
      show "pool_ok p'" unfolding r(2) by (rule on_info_pool_ok [OF p1 v(1)])
      show "only_slots u h h'" unfolding h' only_slots_def by blast
      show "slots (tbf_allocatedTs (h u)) \<subseteq> slots (tbf_allocatedTs (h' u))" unfolding A by blast
    next
      fix d t s assume "IsTrxTsValid t s"
      then show "if d = dir \<and> t = tbf_trx (h' u)
        then sq_savedQueue (slot_queue d t s p') = sq_savedQueue (slot_queue d t s p) \<and>
          sq_users (slot_queue d t s p') \<subseteq> sq_users (slot_queue d t s p) \<union>
            (if nat s \<in> slots (tbf_allocatedTs (h' u)) then {u} else {})
        else slot_queue d t s p' = slot_queue d t s p"
        using q [of t s d] Q unfolding A by (auto simp: h')
    qed (use v(2) in \<open>auto simp: h'\<close>)
  qed
qed

lemma allocate_slots_grown:
  assumes "alloc_inv g prec m dir u trx0 other (s, h, p)" "precs_ok (prec dir)"
    "allocate_slots g n (s, h, p) = Some (c, e, s', h', p')"
  shows "grown dir u (h, p) (h', p')"
  using assms
proof (induction n arbitrary: s h p c e)
  case 0
  then show ?case by (auto simp: alloc_inv_def queues_okD intro!: grown_refl)
next
  case (Suc n)
  obtain b s1 h1 p1 where one: "AllocateOneSlot g (s, h, p) = Some (b, s1, h1, p1)"
    "alloc_inv g prec m dir u trx0 other (s1, h1, p1)"
    using AllocateOneSlot_step [OF Suc.prems(1,2)] by (metis prod.exhaust)
  have g: "grown dir u (h, p) (h1, p1)" by (rule AllocateOneSlot_grown [OF Suc.prems(1,2) one(1)])
  show ?case
  proof (cases b)
    case True
    then obtain c' e' where rest: "allocate_slots g n (s1, h1, p1) = Some (c', e', s', h', p')"
      using Suc.prems(3) one(1) by (auto split: bind_splits)
    show ?thesis by (rule grown_trans [OF g Suc.IH [OF one(2) Suc.prems(2) rest]])
  next
    case False
    then show ?thesis using Suc.prems(3) one(1) g by auto
  qed
qed

section \<open>Taking a TBF out of its slots\<close>

text \<open>
  x of the slots \<open>tss\<close> are saved, the TBF is no longer in them, and it has given
  up these slots.
\<close>

definition vacated :: "bool \<Rightarrow> LinkDirection \<Rightarrow> 'p \<Rightarrow> nat set \<Rightarrow> ('p \<Rightarrow> 'a Tbf_scheme) \<times> ('p, 'm) TSPool \<Rightarrow>
  ('p \<Rightarrow> 'a Tbf_scheme) \<times> ('p, 'm) TSPool \<Rightarrow> bool" where
  "vacated sv dir u tss = (\<lambda>(h, p) (h', p'). only_slots u h h' \<and> tbf_trx (h' u) = tbf_trx (h u) \<and>
     tbf_naturalTs (h' u) = tbf_naturalTs (h u) \<and> length (tbf_allocatedTs (h' u)) = length (tbf_allocatedTs (h u)) \<and>
     slots (tbf_allocatedTs (h' u)) = slots (tbf_allocatedTs (h u)) - tss \<and>
     (\<forall>d t s. IsTrxTsValid t s \<longrightarrow>
        (if d = dir \<and> t = tbf_trx (h u) \<and> nat s \<in> tss
         then (sv \<longrightarrow> sq_savedQueue (slot_queue d t s p') = sq_queue (slot_queue d t s p)) \<and>
           sq_users (slot_queue d t s p') \<subseteq> sq_users (slot_queue d t s p) -
             (if nat s \<in> slots (tbf_allocatedTs (h u)) then {u} else {})
         else slot_queue d t s p' = slot_queue d t s p)))"

lemma vacated_queue:
  "vacated sv dir u tss (h, p) (h', p') \<Longrightarrow> IsTrxTsValid t s \<Longrightarrow>
     (if d = dir \<and> t = tbf_trx (h u) \<and> nat s \<in> tss
      then (sv \<longrightarrow> sq_savedQueue (slot_queue d t s p') = sq_queue (slot_queue d t s p)) \<and>
        sq_users (slot_queue d t s p') \<subseteq> sq_users (slot_queue d t s p) -
          (if nat s \<in> slots (tbf_allocatedTs (h u)) then {u} else {})
      else slot_queue d t s p' = slot_queue d t s p)"
  unfolding vacated_def prod.case by blast

lemma vacatedD:
  assumes "vacated sv dir u tss (h, p) (h', p')"
  shows "only_slots u h h'" "tbf_trx (h' u) = tbf_trx (h u)" "tbf_naturalTs (h' u) = tbf_naturalTs (h u)"
    "length (tbf_allocatedTs (h' u)) = length (tbf_allocatedTs (h u))"
    "slots (tbf_allocatedTs (h' u)) = slots (tbf_allocatedTs (h u)) - tss" "v \<noteq> u \<Longrightarrow> h' v = h v"
  using assms unfolding vacated_def prod.case only_slots_def by auto

lemma vacated_none: "vacated sv dir u {} (h, p) (h, p)"
  by (simp add: vacated_def only_slots_refl)

lemma vacated_step:
  assumes "vacated sv dir u {ts} (h, p) (h1, p1)" "vacated sv dir u tss (h1, p1) (h2, p2)" "ts \<notin> tss"
  shows "vacated sv dir u (insert ts tss) (h, p) (h2, p2)"
proof -
  note a = vacatedD [OF assms(1)] and b = vacatedD [OF assms(2)]
  have "if d = dir \<and> t = tbf_trx (h u) \<and> nat s \<in> insert ts tss
      then (sv \<longrightarrow> sq_savedQueue (slot_queue d t s p2) = sq_queue (slot_queue d t s p)) \<and>
        sq_users (slot_queue d t s p2) \<subseteq> sq_users (slot_queue d t s p) -
          (if nat s \<in> slots (tbf_allocatedTs (h u)) then {u} else {})
      else slot_queue d t s p2 = slot_queue d t s p" if v: "IsTrxTsValid t s" for d t s
    using vacated_queue [OF assms(1) v, of d] vacated_queue [OF assms(2) v, of d] a(2,5) assms(3)
    by (cases "d = dir \<and> t = tbf_trx (h u)"; cases "nat s = ts"; cases "nat s \<in> tss") auto
  moreover have "only_slots u h h2" using a(1) b(1) by (rule only_slots_trans)
  ultimately show ?thesis using a(2-5) b(2-5) unfolding vacated_def by auto
qed

lemma set_allocatedTs_vacated:
  assumes "\<forall>d t s. IsTrxTsValid t s \<longrightarrow>
        (if d = dir \<and> t = tbf_trx (h u) \<and> nat s = ts
         then (sv \<longrightarrow> sq_savedQueue (slot_queue d t s p') = sq_queue (slot_queue d t s p)) \<and>
           sq_users (slot_queue d t s p') \<subseteq> sq_users (slot_queue d t s p) -
             (if nat s \<in> slots (tbf_allocatedTs (h u)) then {u} else {})
         else slot_queue d t s p' = slot_queue d t s p)"
    "length (tbf_allocatedTs (h u)) = MAX_TIMESLOTS" "ts < MAX_TIMESLOTS"
  shows "vacated sv dir u {ts} (h, p) (h(u := set_allocatedTs ts False (h u)), p')"
proof -
  have "h(u := set_allocatedTs ts False (h u)) = h(u := (h u)\<lparr>tbf_trx := tbf_trx (h u),
      tbf_allocatedTs := (tbf_allocatedTs (h u))[ts := False], tbf_naturalTs := tbf_naturalTs (h u)\<rparr>)"
    by (simp add: set_allocatedTs_def)
  then have "only_slots u h (h(u := set_allocatedTs ts False (h u)))" unfolding only_slots_def by blast
  moreover have "slots ((tbf_allocatedTs (h u))[ts := False]) = slots (tbf_allocatedTs (h u)) - {ts}"
    using assms(2,3) by (auto simp: slots_def nth_list_update)
  ultimately show ?thesis using assms(1) by (simp add: vacated_def set_allocatedTs_def)
qed

lemma queues_ok_put2:
  assumes "queues_ok prec p" "IsTrxTsValid trx ts" "sq_ok (prec dir) q" "sq_ok (prec dir) q'"
  shows "queues_ok prec (on_info (PutQueue dir q) trx ts p)"
    "queues_ok prec (on_info (\<lambda>i. UpdateUsersAndCapacity dir (PutQueue dir q' i)) trx ts (on_info (PutQueue dir q) trx ts p))"
  using queues_ok_Put [OF assms(1,2,3)] queues_ok_Put(2) [OF queues_ok_Put(1) [OF assms(1-3)] assms(2,4)] by auto

lemma sq_ok_Copy: "sq_ok prec q \<Longrightarrow> sq_ok prec (CopyQueue q)"
  and sq_ok_Restore: "sq_ok prec q \<Longrightarrow> sq_ok prec (RestoreQueue q)"
  by (auto simp: sq_ok_def CopyQueue_def RestoreQueue_def)

lemma sq_users_Copy [simp]: "sq_users (CopyQueue q) = sq_users q" "sq_savedQueue (CopyQueue q) = sq_queue q"
  by (simp_all add: sq_users_def CopyQueue_def)

lemma sq_ok_levels: "sq_ok prec q \<Longrightarrow> length (sq_queue q) = QUEUE_NUM_LEVELS"
  by (simp add: sq_ok_def rows_ok_def)

lemma remove_all_levels:
  assumes "sq_ok prec q" "precs_ok prec"
  obtains q' where "remove_levels u [0..<QUEUE_NUM_LEVELS] q = Some q'" "sq_ok prec q'"
    "sq_users q' \<subseteq> sq_users q - {u}" "sq_savedQueue q' = sq_savedQueue q"
proof -
  obtain q' where q': "remove_levels u [0..<QUEUE_NUM_LEVELS] q = Some q'" "sq_ok prec q'"
    using remove_levels_ok [OF assms, of "[0..<QUEUE_NUM_LEVELS]" u] by (auto simp: subset_iff)
  have c: "cleared u {..<QUEUE_NUM_LEVELS} q q'" using remove_levels_cleared [OF q'(1)] by (simp add: lessThan_atLeast0)
  show ?thesis
    by (rule that [OF q' cleared_all [OF c sq_ok_levels [OF assms(1)]]]) (use c in \<open>simp add: cleared_def\<close>)
qed

lemma vacate_slots_vacated:
  assumes "queues_ok prec p" "precs_ok (prec dir)" "IsTrxValid (tbf_trx (h u))" "length (tbf_allocatedTs (h u)) = MAX_TIMESLOTS"
    "set tss \<subseteq> {..<MAX_TIMESLOTS}" "distinct tss"
  shows "\<exists>h' p' n' e'. vacate_slots dir u l tss (h, p, n, e) = Some (h', p', n', e') \<and> queues_ok prec p' \<and> e \<le> e' \<and>
     vacated True dir u (set tss) (h, p) (h', p')"
  using assms
proof (induction tss arbitrary: h p n e)
  case Nil
  then show ?case by (auto simp: vacated_none)
next
  case (Cons ts tss)
  let ?trx = "tbf_trx (h u)"
  have v: "IsTrxTsValid ?trx (int ts)" using Cons.prems(3,5) by (auto simp: IsTrxTsValid_def IsTrxValid_def)
  have ts: "ts < 8" "ts < length (tbf_allocatedTs (h u))" using Cons.prems(4,5) by auto
  have ok: "pool_ok p" by (rule queues_okD(1) [OF Cons.prems(1)])
  let ?q = "slot_queue dir ?trx (int ts) p"
  have q: "sq_ok (prec dir) (CopyQueue ?q)" using slot_queue_ok [OF Cons.prems(1) v] by (rule sq_ok_Copy)
  obtain q' where q': "remove_levels u [0..<QUEUE_NUM_LEVELS] (CopyQueue ?q) = Some q'" "sq_ok (prec dir) q'"
    "sq_users q' \<subseteq> sq_users (CopyQueue ?q) - {u}" "sq_savedQueue q' = sq_savedQueue (CopyQueue ?q)"
    by (rule remove_all_levels [OF q Cons.prems(2)])
  obtain n' e' where n': "vacate_levels u l [0..<QUEUE_NUM_LEVELS] (CopyQueue ?q, n, e) = Some (q', n', e')" "e \<le> e'"
    using vacate_levels_remove [OF q'(1)] by blast
  let ?p1 = "on_info (PutQueue dir (CopyQueue ?q)) ?trx (int ts) p"
  let ?p2 = "on_info (\<lambda>i. UpdateUsersAndCapacity dir (PutQueue dir q' i)) ?trx (int ts) ?p1"
  let ?h1 = "h(u := set_allocatedTs ts False (h u))"
  have ok1: "pool_ok ?p1" by (rule on_info_pool_ok [OF ok v])
  have s: "nat s = ts \<longleftrightarrow> s = int ts" if "IsTrxTsValid t s" for t s using that by (auto simp: IsTrxTsValid_def)
  have 1: "slot_queue d t s ?p1 = (if d = dir \<and> t = ?trx \<and> s = int ts then CopyQueue ?q else slot_queue d t s p)"
    "slot_queue d t s ?p2 = (if d = dir \<and> t = ?trx \<and> s = int ts then q' else slot_queue d t s p)"
    if "IsTrxTsValid t s" for d t s
    using slot_queue_put(1) [OF ok v that] slot_queue_put(2) [OF ok1 v that] by simp_all
  have alloc: "tbf_allocatedTs (h u) ! ts \<longleftrightarrow> ts \<in> slots (tbf_allocatedTs (h u))"
    using ts(2) by (simp add: slots_def)
  obtain p3 where step: "vacated True dir u {ts} (h, p) (?h1, p3)" "queues_ok prec p3"
    "vacate_slots dir u l (ts # tss) (h, p, n, e) = vacate_slots dir u l tss (?h1, p3,
       if tbf_allocatedTs (h u) ! ts then n' else n, if tbf_allocatedTs (h u) ! ts then e' else e)"
  proof (cases "tbf_allocatedTs (h u) ! ts")
    case True
    have "vacated True dir u {ts} (h, p) (?h1, ?p2)"
      using 1(2) s q'(3,4) alloc True by (intro set_allocatedTs_vacated Cons.prems(4) ts(1)) auto
    then show ?thesis
      using that [of ?p2] True n' queue_at_slot [OF v, of dir p] queues_ok_put2(2) [OF Cons.prems(1) v q q'(2)]
      by (simp add: Let_def)
  next
    case False
    have "vacated True dir u {ts} (h, p) (?h1, ?p1)"
      using 1(1) s alloc False by (intro set_allocatedTs_vacated Cons.prems(4) ts(1)) auto
    then show ?thesis
      using that [of ?p1] False queue_at_slot [OF v, of dir p] queues_ok_put2(1) [OF Cons.prems(1) v q q'(2)]
      by (simp add: Let_def)
  qed
  note S = vacatedD [OF step(1)]
  let ?n = "if tbf_allocatedTs (h u) ! ts then n' else n" and ?e = "if tbf_allocatedTs (h u) ! ts then e' else e"
  obtain h' p' n2 e2 where r: "vacate_slots dir u l tss (?h1, p3, ?n, ?e) = Some (h', p', n2, e2)" "queues_ok prec p'" "?e \<le> e2"
    "vacated True dir u (set tss) (?h1, p3) (h', p')"
  proof -
    have "IsTrxValid (tbf_trx (?h1 u))" "length (tbf_allocatedTs (?h1 u)) = MAX_TIMESLOTS" "set tss \<subseteq> {..<MAX_TIMESLOTS}" "distinct tss"
      using S(2,4) Cons.prems(3-6) by simp_all
    from Cons.IH [where p = p3 and h = ?h1 and n = ?n and e = ?e, OF step(2) Cons.prems(2) this] show ?thesis using that by blast
  qed
  have "vacated True dir u (set (ts # tss)) (h, p) (h', p')"
    using vacated_step [OF step(1) r(4)] Cons.prems(6) by simp
  then show ?case using step(3) r(1-3) n'(2) by (auto split: if_splits)
qed

lemma vacated_held:
  assumes "held dir h p" "vacated sv dir u {..<MAX_TIMESLOTS} (h, p) (h', p')"
  shows "held dir h' p'" "\<And>t s. IsTrxTsValid t s \<Longrightarrow> u \<notin> sq_users (slot_queue dir t s p')"
proof -
  note v = vacatedD [OF assms(2)]
  have q: "sq_users (slot_queue dir t s p') \<subseteq> sq_users (slot_queue dir t s p) - {u}" if "IsTrxTsValid t s" for t s
  proof (cases "t = tbf_trx (h u)")
    case True
    have s: "nat s < 8" using that by (auto simp: IsTrxTsValid_def)
    have "sq_users (slot_queue dir t s p') \<subseteq> sq_users (slot_queue dir t s p) - (if nat s \<in> slots (tbf_allocatedTs (h u)) then {u} else {})"
      using vacated_queue [OF assms(2) that, of dir] True s by simp
    then show ?thesis using heldD [OF assms(1) that, of u] by (auto split: if_splits)
  next
    case False
    then have "slot_queue dir t s p' = slot_queue dir t s p" using vacated_queue [OF assms(2) that, of dir] by simp
    then show ?thesis using heldD [OF assms(1) that, of u] False by auto
  qed
  show "held dir h' p'"
    unfolding held_def
  proof (intro allI impI)
    fix t s w assume "IsTrxTsValid t s" "w \<in> sq_users (slot_queue dir t s p')"
    then have "w \<noteq> u" "w \<in> sq_users (slot_queue dir t s p)" using q by auto
    then show "tbf_trx (h' w) = t \<and> nat s \<in> slots (tbf_allocatedTs (h' w))"
      using v(6) heldD [OF assms(1) \<open>IsTrxTsValid t s\<close>, of w] by simp
  qed
  show "u \<notin> sq_users (slot_queue dir t s p')" if "IsTrxTsValid t s" for t s using q [OF that] by blast
qed

section \<open>Putting it back\<close>

lemma RestoreQueue_simps [simp]:
  "RestoreQueue (RestoreQueue q) = RestoreQueue q" "sq_queue (RestoreQueue q) = sq_savedQueue q"
  by (simp_all add: RestoreQueue_def)

lemma restore_slots_queues:
  assumes "queues_ok prec p" "IsTrxValid (tbf_trx (h u))" "length (tbf_allocatedTs (h u)) = MAX_TIMESLOTS"
    "set tss \<subseteq> {..<MAX_TIMESLOTS}"
  shows "\<exists>h' p'. restore_slots dir u original tss (h, p) = Some (h', p') \<and> queues_ok prec p' \<and> only_slots u h h' \<and>
     tbf_trx (h' u) = tbf_trx (h u) \<and> tbf_naturalTs (h' u) = tbf_naturalTs (h u) \<and>
     length (tbf_allocatedTs (h' u)) = MAX_TIMESLOTS \<and>
     (\<forall>ts < MAX_TIMESLOTS. tbf_allocatedTs (h' u) ! ts = (if ts \<in> set tss then original ! ts else tbf_allocatedTs (h u) ! ts)) \<and>
     (\<forall>d t s. IsTrxTsValid t s \<longrightarrow> slot_queue d t s p' =
        (if d = dir \<and> t = tbf_trx (h u) \<and> nat s \<in> set tss then RestoreQueue (slot_queue d t s p) else slot_queue d t s p))"
  using assms
proof (induction tss arbitrary: h p)
  case Nil
  then show ?case by (auto simp: only_slots_refl)
next
  case (Cons ts tss)
  let ?trx = "tbf_trx (h u)"
  have v: "IsTrxTsValid ?trx (int ts)" using Cons.prems(2,4) by (auto simp: IsTrxTsValid_def IsTrxValid_def)
  have ok: "pool_ok p" by (rule queues_okD(1) [OF Cons.prems(1)])
  let ?q = "RestoreQueue (slot_queue dir ?trx (int ts) p)"
  let ?p1 = "on_info (PutQueue dir ?q) ?trx (int ts) p"
  let ?h1 = "h(u := set_allocatedTs ts (original ! ts) (h u))"
  have q: "sq_ok (prec dir) ?q" using slot_queue_ok [OF Cons.prems(1) v] by (rule sq_ok_Restore)
  have p1: "queues_ok prec ?p1" by (rule queues_ok_Put(1) [OF Cons.prems(1) v q])
  have h1: "?h1 u = (h u)\<lparr>tbf_allocatedTs := (tbf_allocatedTs (h u))[ts := original ! ts]\<rparr>"
    by (simp add: set_allocatedTs_def)
  have only: "only_slots u h ?h1"
    unfolding only_slots_def
    by (intro exI [of _ ?trx] exI [of _ "(tbf_allocatedTs (h u))[ts := original ! ts]"] exI [of _ "tbf_naturalTs (h u)"])
      (simp add: set_allocatedTs_def)
  have Q: "slot_queue d t s ?p1 = (if d = dir \<and> t = ?trx \<and> nat s = ts then RestoreQueue (slot_queue d t s p) else slot_queue d t s p)"
    if "IsTrxTsValid t s" for d t s
    using slot_queue_put(1) [OF ok v that] that by (auto simp: IsTrxTsValid_def)
  have prems: "IsTrxValid (tbf_trx (?h1 u))" "length (tbf_allocatedTs (?h1 u)) = MAX_TIMESLOTS" "set tss \<subseteq> {..<MAX_TIMESLOTS}"
    using Cons.prems(2-4) unfolding h1 by simp_all
  obtain h' p' where r: "restore_slots dir u original tss (?h1, ?p1) = Some (h', p')" "queues_ok prec p'" "only_slots u ?h1 h'"
    "tbf_trx (h' u) = tbf_trx (?h1 u)" "tbf_naturalTs (h' u) = tbf_naturalTs (?h1 u)"
    "length (tbf_allocatedTs (h' u)) = MAX_TIMESLOTS"
    "\<forall>ts < MAX_TIMESLOTS. tbf_allocatedTs (h' u) ! ts = (if ts \<in> set tss then original ! ts else tbf_allocatedTs (?h1 u) ! ts)"
    "\<forall>d t s. IsTrxTsValid t s \<longrightarrow> slot_queue d t s p' =
        (if d = dir \<and> t = tbf_trx (?h1 u) \<and> nat s \<in> set tss then RestoreQueue (slot_queue d t s ?p1) else slot_queue d t s ?p1)"
    using Cons.IH [where h = ?h1 and p = ?p1, OF p1 prems] by blast
  show ?case
  proof (intro exI conjI)
    show "restore_slots dir u original (ts # tss) (h, p) = Some (h', p')"
      using r(1) queue_at_slot [OF v, of dir p] by (simp add: Let_def)
    show "queues_ok prec p'" by (rule r(2))
    show "only_slots u h h'" by (rule only_slots_trans [OF only r(3)])
    show "tbf_trx (h' u) = ?trx" "tbf_naturalTs (h' u) = tbf_naturalTs (h u)" using r(4,5) unfolding h1 by simp_all
    show "length (tbf_allocatedTs (h' u)) = MAX_TIMESLOTS" by (rule r(6))
    show "\<forall>i < MAX_TIMESLOTS. tbf_allocatedTs (h' u) ! i = (if i \<in> set (ts # tss) then original ! i else tbf_allocatedTs (h u) ! i)"
      using r(7) Cons.prems(3,4) unfolding h1 by (auto simp: nth_list_update)
    show "\<forall>d t s. IsTrxTsValid t s \<longrightarrow> slot_queue d t s p' =
        (if d = dir \<and> t = ?trx \<and> nat s \<in> set (ts # tss) then RestoreQueue (slot_queue d t s p) else slot_queue d t s p)"
      using r(8) Q unfolding h1 by auto
  qed
qed

section \<open>Release\<close>

lemma vacated_same_info:
  assumes "vacated sv dir u tss (h, p) (h', p')" "same_info p' p''"
  shows "vacated sv dir u tss (h, p) (h', p'')"
  using assms same_info_queue [OF assms(2)] unfolding vacated_def prod.case by simp

context branch_laws begin

lemma release_slots_vacated:
  assumes "queues_ok prec p" "precs_ok (prec dir)" "slots (tbf_allocatedTs (h u)) \<noteq> {} \<longrightarrow> IsTrxValid (tbf_trx (h u))"
    "length (tbf_allocatedTs (h u)) = MAX_TIMESLOTS" "set tss \<subseteq> {..<MAX_TIMESLOTS}" "distinct tss"
  shows "\<exists>h' p'. release_slots br dir u tss (h, p) = Some (h', p') \<and> queues_ok prec p' \<and>
     vacated False dir u (set tss) (h, p) (h', p')"
  using assms
proof (induction tss arbitrary: h p)
  case Nil
  then show ?case by (auto simp: vacated_none)
next
  case (Cons ts tss)
  let ?trx = "tbf_trx (h u)" and ?h1 = "h(u := set_allocatedTs ts False (h u))"
  have ts: "ts < 8" "ts < length (tbf_allocatedTs (h u))" using Cons.prems(4,5) by auto
  have alloc: "tbf_allocatedTs (h u) ! ts \<longleftrightarrow> ts \<in> slots (tbf_allocatedTs (h u))" using ts(2) by (simp add: slots_def)
  obtain p1 where step: "vacated False dir u {ts} (h, p) (?h1, p1)" "queues_ok prec p1"
    "release_slots br dir u (ts # tss) (h, p) = release_slots br dir u tss (?h1, p1)"
  proof (cases "tbf_allocatedTs (h u) ! ts")
    case False
    have "vacated False dir u {ts} (h, p) (?h1, p)"
      using alloc False by (intro set_allocatedTs_vacated Cons.prems(4) ts(1)) auto
    then show ?thesis using that [of p] False Cons.prems(1) by (simp add: Let_def)
  next
    case True
    have v: "IsTrxTsValid ?trx (int ts)" using Cons.prems(3) alloc True ts by (auto simp: IsTrxTsValid_def IsTrxValid_def)
    have ok: "pool_ok p" by (rule queues_okD(1) [OF Cons.prems(1)])
    let ?q = "slot_queue dir ?trx (int ts) p"
    obtain q' where q': "remove_levels u [0..<QUEUE_NUM_LEVELS] ?q = Some q'" "sq_ok (prec dir) q'"
      "sq_users q' \<subseteq> sq_users ?q - {u}" "sq_savedQueue q' = sq_savedQueue ?q"
      by (rule remove_all_levels [OF slot_queue_ok [OF Cons.prems(1) v] Cons.prems(2)])
    let ?p1 = "on_info (\<lambda>i. UpdateUsersAndCapacity dir (PutQueue dir q' i)) ?trx (int ts) p"
    have s: "nat s = ts \<longleftrightarrow> s = int ts" if "IsTrxTsValid t s" for t s using that by (auto simp: IsTrxTsValid_def)
    have "vacated False dir u {ts} (h, p) (?h1, ?p1)"
      using slot_queue_put(2) [OF ok v] s q'(3) alloc True by (intro set_allocatedTs_vacated Cons.prems(4) ts(1)) auto
    moreover have p1: "queues_ok prec ?p1" by (rule queues_ok_Put(2) [OF Cons.prems(1) v q'(2)])
    moreover have i: "same_info ?p1 (br_ReleaseUSF br ?trx (int ts) (h u) ?p1)"
      by (rule ReleaseUSF [OF queues_okD(1) [OF p1]])
    ultimately have "vacated False dir u {ts} (h, p) (?h1, br_ReleaseUSF br ?trx (int ts) (h u) ?p1)"
      by (blast intro: vacated_same_info)
    then show ?thesis
      by (rule that [OF _ same_info_queues [OF p1 i]]) (use True q'(1) queue_at_slot [OF v, of dir p] in \<open>simp add: Let_def\<close>)
  qed
  note S = vacatedD [OF step(1)]
  have prems: "slots (tbf_allocatedTs (?h1 u)) \<noteq> {} \<longrightarrow> IsTrxValid (tbf_trx (?h1 u))"
    "length (tbf_allocatedTs (?h1 u)) = MAX_TIMESLOTS" "set tss \<subseteq> {..<MAX_TIMESLOTS}" "distinct tss"
    using S(2,4,5) Cons.prems(3-6) by auto
  obtain h' p' where r: "release_slots br dir u tss (?h1, p1) = Some (h', p')" "queues_ok prec p'"
    "vacated False dir u (set tss) (?h1, p1) (h', p')"
    using Cons.IH [where p = p1 and h = ?h1, OF step(2) Cons.prems(2) prems] by blast
  have "vacated False dir u (set (ts # tss)) (h, p) (h', p')"
    using vacated_step [OF step(1) r(3)] Cons.prems(6) by simp
  then show ?case using step(3) r(1,2) by auto
qed

lemma DeallocateUser_vacated:
  assumes "queues_ok prec p" "precs_ok (prec dir)" "tbf_ok (h u)"
  shows "\<exists>h' p'. DeallocateUser br dir u (h, p) = Some (h', p') \<and> queues_ok prec p' \<and>
     vacated False dir u {..<MAX_TIMESLOTS} (h, p) (h', p')"
proof -
  have t: "slots (tbf_allocatedTs (h u)) \<noteq> {} \<longrightarrow> IsTrxValid (tbf_trx (h u))" "length (tbf_allocatedTs (h u)) = MAX_TIMESLOTS"
    "set [0..<MAX_TIMESLOTS] \<subseteq> {..<MAX_TIMESLOTS}" "distinct [0..<MAX_TIMESLOTS]"
    using assms(3) by (auto simp: tbf_ok_def)
  obtain h1 p1 where r: "release_slots br dir u [0..<MAX_TIMESLOTS] (h, p) = Some (h1, p1)" "queues_ok prec p1"
    "vacated False dir u {..<MAX_TIMESLOTS} (h, p) (h1, p1)"
    using release_slots_vacated [where h = h and u = u and dir = dir and prec = prec, OF assms(1,2) t] by (auto simp: lessThan_atLeast0)
  let ?p2 = "TSPool_ReleaseTAI (tbf_trx (h1 u)) (uint (tbf_taiTs (h1 u))) (tbf_tai (h1 u)) p1"
  let ?p3 = "br_ReleaseTFI br (tbf_trx (h1 u)) (h1 u) ?p2"
  have i: "same_info p1 ?p2" "same_info ?p2 ?p3"
    using release_same_info(1) [OF queues_okD(1) [OF r(2)]] ReleaseTFI by (auto simp: same_info_def)
  have s: "same_info p1 ?p3" using i by (rule same_info_trans)
  have "DeallocateUser br dir u (h, p) = Some (h1, ?p3)" using r(1) by (simp add: DeallocateUser_def Let_def)
  then show ?thesis using same_info_queues [OF r(2) s] vacated_same_info [OF r(3) s] by blast
qed

end

section \<open>Allocation and reallocation\<close>

definition other_queues :: "LinkDirection \<Rightarrow> ('p, 'm) TSPool \<Rightarrow> ('p, 'm) TSPool \<Rightarrow> bool" where
  "other_queues dir p p' \<longleftrightarrow> (\<forall>d t s. d \<noteq> dir \<longrightarrow> IsTrxTsValid t s \<longrightarrow> slot_queue d t s p' = slot_queue d t s p)"

lemma other_queues_trans: "other_queues dir p p1 \<Longrightarrow> other_queues dir p1 p2 \<Longrightarrow> other_queues dir p p2"
  by (simp add: other_queues_def)

lemma other_queues_held: "other_queues dir p p' \<Longrightarrow> d \<noteq> dir \<Longrightarrow> held d h p \<Longrightarrow> held d h p'"
  by (simp add: other_queues_def held_def)

lemma other_queues_same: "same_info p p' \<Longrightarrow> other_queues dir p p'"
  by (simp add: other_queues_def same_info_queue)

lemma other_queues_grown:
  assumes "grown dir u (h, p) (h', p')"
  shows "other_queues dir p p'"
  unfolding other_queues_def
proof (intro allI impI)
  fix d t s assume "d \<noteq> dir" "IsTrxTsValid t s"
  then show "slot_queue d t s p' = slot_queue d t s p" using grown_queue [OF assms, of t s d] by simp
qed

lemma other_queues_vacated:
  assumes "vacated sv dir u tss (h, p) (h', p')"
  shows "other_queues dir p p'"
  unfolding other_queues_def
proof (intro allI impI)
  fix d t s assume "d \<noteq> dir" "IsTrxTsValid t s"
  then show "slot_queue d t s p' = slot_queue d t s p" using vacated_queue [OF assms, of t s d] by simp
qed

lemma allocate_none: "allocate_slots g n st = Some (0, e, st') \<Longrightarrow> e = 0"
  by (cases n) (auto split: bind_splits if_splits)

context branch_laws begin

lemma AllocateUser_held:
  assumes q: "queues_ok prec p" "precs_ok (prec dir)" and s: "prepared k s" "sa_tbf s = u" "sa_direction s = dir"
    "nat (sa_delayClass s - 1) < QUEUE_NUM_LEVELS" "sa_precedenceClass s = prec dir u"
    and t: "length (tbf_allocatedTs (h u)) = MAX_TIMESLOTS" "slots (tbf_allocatedTs (h u)) = {}" "allocated dir s = {}"
      "tbf_trx (h u) = NULL_TRX \<or> IsTrxValid (tbf_trx (h u))"
    and h: "held dir h p" and run: "AllocateUser br g (s, h, p) = Some (status, s', h', p')"
  shows "held dir h' p' \<and> other_queues dir p p' \<and> length (tbf_allocatedTs (h' u)) = MAX_TIMESLOTS \<and>
     length (tbf_naturalTs (h' u)) = MAX_TIMESLOTS"
proof -
  obtain s1 h1 where c: "ConstrainCandMultiConfig (s, h) = (s1, h1)" by fastforce
  note C = ConstrainCandMultiConfig_tracking [OF s(1) c]
  obtain natural where h1: "h1 = h(u := (h u)\<lparr>tbf_naturalTs := natural\<rparr>)" "length natural = 8"
    using C(6) s(2) by auto
  have al: "allocated d s1 = allocated d s" for d using C(4,5) by (simp add: allocated_def)
  have s1: "sa_direction s1 = dir" "sa_delayClass s1 = sa_delayClass s" "sa_precedenceClass s1 = sa_precedenceClass s"
    using c s(3) by (auto simp: ConstrainCandMultiConfig_def Let_def)
  have start: "alloc_inv g prec k dir u (tbf_trx (h u)) (allocated (opposite dir) s) (s1, h1, p)"
    using q C(1,3) s s1 t al h1(2) by (simp add: alloc_inv_def h1(1))
  have held1: "held dir h1 p" using h unfolding held_def h1(1) by auto
  obtain n e s2 h2 p2 where al2: "allocate_slots g (nat (ComputeDesiredNumberOfSlots s)) (s1, h1, p) = Some (n, e, s2, h2, p2)"
    and inv: "alloc_inv g prec k dir u (tbf_trx (h u)) (allocated (opposite dir) s) (s2, h2, p2)"
    using allocate_slots_inv [OF start q(2)] by blast
  note G = allocate_slots_grown [OF start q(2) al2]
  have 2: "held dir h2 p2" "other_queues dir p p2" using grown_held [OF held1 G] other_queues_grown [OF G] by auto
  have i2: "sa_tbf s2 = u" "queues_ok prec p2" "length (tbf_allocatedTs (h2 u)) = 8" "length (tbf_naturalTs (h2 u)) = 8"
    using inv by (auto simp: alloc_inv_def)
  show ?thesis
  proof (cases "n = 0")
    case True
    then have "h' = h2" "p' = p2" using run c al2 by (simp_all add: AllocateUser_def)
    then show ?thesis using 2 i2 by simp
  next
    case False
    obtain h3 p3 where 3: "br_AllocateTFI br (tbf_trx (h2 u)) u (h2, p2) = (h3, p3)" by fastforce
    have s3: "same_slots u h2 h3" "same_info p2 p3" using AllocateTFI [OF queues_okD(1) [OF i2(2)] 3] by auto
    obtain h4 p4 where 4: "assign_loop br u [0..<8] True (h3, p3) = (h4, p4)" by fastforce
    have s4: "same_slots u h3 h4" "same_info p3 p4"
      using assign_loop_same [OF _ 4] s3(2) by (auto simp: same_info_def)
    have same: "same_slots u h2 h4" "same_info p2 p4"
      using same_slots_trans [OF s3(1) s4(1)] same_info_trans [OF s3(2) s4(2)] by auto
    have "h' = h4" "p' = p4" using run c al2 False 3 4 i2(1) by (simp_all add: AllocateUser_def Let_def)
    then show ?thesis
      using same_slots_held [OF same_info_held [OF 2(1) same(2)] same(1)] i2
        other_queues_trans [OF 2(2) other_queues_same [OF same(2)]] same(1) by (simp add: same_slots_def)
  qed
qed

lemma release_usfs_same:
  "pool_ok p \<Longrightarrow> same_info p (release_usfs br tss t p)"
proof (induction tss arbitrary: p)
  case (Cons ts tss)
  have "same_info p (br_ReleaseUSF br (tbf_trx t) (int ts) t p)" by (rule ReleaseUSF [OF Cons.prems])
  then show ?case using Cons.IH [of "br_ReleaseUSF br (tbf_trx t) (int ts) t p"] same_info_trans
    by (simp add: same_info_def)
qed simp

lemma Realloc_outcome:
  assumes q: "queues_ok prec p" "precs_ok (prec dir)" and s: "prepared k s" "sa_tbf s = u" "sa_direction s = dir"
    "nat (sa_delayClass s - 1) < QUEUE_NUM_LEVELS" "sa_precedenceClass s = prec dir u"
    and t: "length (tbf_allocatedTs (h u)) = MAX_TIMESLOTS" "allocated dir s = {}" "IsTrxValid (tbf_trx (h u))"
    and h: "held dir h p"
  shows "\<exists>status s' h' p'. AllocateUserIfBetterQoS br g (s, h, p) = Some (status, s', h', p') \<and> queues_ok prec p' \<and>
     held dir h' p' \<and> other_queues dir p p' \<and> (\<forall>v. v \<noteq> u \<longrightarrow> h' v = h v) \<and> tbf_trx (h' u) = tbf_trx (h u) \<and>
     length (tbf_allocatedTs (h' u)) = MAX_TIMESLOTS \<and> length (tbf_naturalTs (h' u)) = MAX_TIMESLOTS \<and>
     (if status then slots (tbf_allocatedTs (h' u)) \<noteq> {} \<and>
          card (slots (tbf_allocatedTs (h' u))) \<le> nat (ComputeDesiredNumberOfSlots s) \<and>
          (\<forall>ts \<in> slots (tbf_allocatedTs (h' u)). usable g (nat (tbf_trx (h' u))) ts) \<and>
          (\<exists>opt \<in> multislot_options k. slots (tbf_allocatedTs (h' u)) \<subseteq> side dir opt \<and>
             allocated (opposite dir) s \<subseteq> side (opposite dir) opt)
      else tbf_allocatedTs (h' u) = tbf_allocatedTs (h u) \<and> only_slots u h h' \<and>
        (\<forall>d t s. IsTrxTsValid t s \<longrightarrow> sq_queue (slot_queue d t s p') = sq_queue (slot_queue d t s p)))"
proof -
  obtain s1 h1 where c: "ConstrainCandMultiConfig (s, h) = (s1, h1)" by fastforce
  note C = ConstrainCandMultiConfig_tracking [OF s(1) c]
  obtain natural where h1: "h1 = h(u := (h u)\<lparr>tbf_naturalTs := natural\<rparr>)" "length natural = 8"
    using C(6) s(2) by auto
  have al: "allocated d s1 = allocated d s" for d using C(4,5) by (simp add: allocated_def)
  have s1: "sa_direction s1 = dir" "sa_delayClass s1 = sa_delayClass s" "sa_precedenceClass s1 = sa_precedenceClass s"
    using c s(3) by (auto simp: ConstrainCandMultiConfig_def Let_def)
  have held1: "held dir h1 p" using h unfolding held_def h1(1) by auto
  have only1: "only_slots u h h1" unfolding only_slots_def h1(1)
    by (intro exI [of _ "tbf_trx (h u)"] exI [of _ "tbf_allocatedTs (h u)"] exI [of _ natural]) simp
  let ?l = "nat (sa_delayClass s1 - 1)"
  have pv: "IsTrxValid (tbf_trx (h1 u))" "length (tbf_allocatedTs (h1 u)) = MAX_TIMESLOTS"
    "set [0..<MAX_TIMESLOTS] \<subseteq> {..<MAX_TIMESLOTS}" "distinct [0..<MAX_TIMESLOTS]" using t h1 by auto
  obtain h2 p2 n0 e0 where vac: "vacate_slots dir u ?l [0..<MAX_TIMESLOTS] (h1, p, 0, 0) = Some (h2, p2, n0, e0)"
    "queues_ok prec p2" "0 \<le> e0" "vacated True dir u {..<MAX_TIMESLOTS} (h1, p) (h2, p2)"
    using vacate_slots_vacated [where h = h1 and u = u and dir = dir and prec = prec, OF q pv, of ?l 0 0]
    by (auto simp: lessThan_atLeast0)
  note V = vacatedD [OF vac(4)] and H2 = vacated_held [OF held1 vac(4)]
  have none: "slots (tbf_allocatedTs (h2 u)) = {}" using V(5) pv(2) by (auto simp: slots_def)
  have trx: "tbf_trx (h2 u) = tbf_trx (h u)" using V(2) h1 by simp
  have start: "alloc_inv g prec k dir u (tbf_trx (h u)) (allocated (opposite dir) s) (s1, h2, p2)"
    using vac(2) C(1,3) s s1 t al h1 V none trx pv(2) by (simp add: alloc_inv_def)
  obtain n e s3 h3 p3 where al3: "allocate_slots g (nat (ComputeDesiredNumberOfSlots s)) (s1, h2, p2) = Some (n, e, s3, h3, p3)"
    and inv: "alloc_inv g prec k dir u (tbf_trx (h u)) (allocated (opposite dir) s) (s3, h3, p3)"
    and n: "n \<le> nat (ComputeDesiredNumberOfSlots s)" "card (allocated dir s3) \<le> card (allocated dir s1) + n"
      "n > 0 \<longrightarrow> allocated dir s3 \<noteq> {}"
    using allocate_slots_inv [OF start q(2)] by blast
  note G = allocate_slots_grown [OF start q(2) al3]
  note GD = grownD [OF G]
  have H3: "held dir h3 p3" by (rule grown_held [OF H2(1) G])
  have O3: "other_queues dir p p3" using other_queues_trans [OF other_queues_vacated [OF vac(4)] other_queues_grown [OF G]] .
  have i3: "sa_tbf s3 = u" "sa_direction s3 = dir" "queues_ok prec p3" "length (tbf_allocatedTs (h3 u)) = 8"
    "length (tbf_naturalTs (h3 u)) = 8" "slots (tbf_allocatedTs (h3 u)) = allocated dir s3" "tbf_trx (h3 u) = tbf_trx (h u)"
    using inv not_null_trx [OF t(3)] by (auto simp: alloc_inv_def)
  have only3: "only_slots u h h3" using only_slots_trans [OF only_slots_trans [OF only1 V(1)] GD(2)] .
  have others: "h3 v = h v" if "v \<noteq> u" for v using only3 that by (auto simp: only_slots_def)
  show ?thesis
  proof (cases "n > n0 \<or> e > e0")
    case True
    then have pos: "n > 0" using allocate_none [of g "nat (ComputeDesiredNumberOfSlots s)" "(s1, h2, p2)" e] al3 vac(3) by (cases "n = 0") auto
    let ?p4 = "TSPool_ReleaseTAI (tbf_trx (h3 u)) (uint (tbf_taiTs (h3 u))) (tbf_tai (h3 u)) p3"
    let ?p5 = "release_usfs br [0..<MAX_TIMESLOTS] (h3 u) ?p4"
    have i4: "same_info p3 ?p4" by (rule release_same_info(1) [OF queues_okD(1) [OF i3(3)]])
    have i5: "same_info p3 ?p5"
      using same_info_trans [OF i4 release_usfs_same] i4 by (simp add: same_info_def)
    obtain h6 p6 where 6: "assign_loop br u [0..<8] True (h3, ?p5) = (h6, p6)" by fastforce
    have s6: "same_slots u h3 h6" "same_info p3 p6"
      using assign_loop_same [OF _ 6] i5 same_info_trans [OF i5, of p6] by (auto simp: same_info_def)
    have run: "AllocateUserIfBetterQoS br g (s, h, p) = Some (True, s3, h6, p6)"
      using c s s1 vac(1) al3 True 6 by (simp add: AllocateUserIfBetterQoS_def Let_def)
    obtain opt where opt: "opt \<in> options_left k s3" using inv n(3) pos by (auto simp: alloc_inv_def)
    have "opt \<in> multislot_options k" "allocated dir s3 \<subseteq> side dir opt" "allocated (opposite dir) s \<subseteq> side (opposite dir) opt"
      using opt inv by (cases dir; auto simp: options_left_def allocated_def opposite_def alloc_inv_def)+
    moreover have "\<forall>ts \<in> allocated dir s3. usable g (nat (tbf_trx (h3 u))) ts" "allocated dir s3 \<noteq> {}"
      "card (allocated dir s3) \<le> nat (ComputeDesiredNumberOfSlots s)"
      using inv n pos al t(2) by (auto simp: alloc_inv_def)
    moreover have h6: "tbf_allocatedTs (h6 u) = tbf_allocatedTs (h3 u)" "tbf_trx (h6 u) = tbf_trx (h3 u)"
      "tbf_naturalTs (h6 u) = tbf_naturalTs (h3 u)" "\<forall>v. v \<noteq> u \<longrightarrow> h6 v = h v"
      using s6(1) others by (simp_all add: same_slots_def)
    moreover have "queues_ok prec p6" by (rule same_info_queues [OF i3(3) s6(2)])
    moreover have "held dir h6 p6" by (rule same_slots_held [OF same_info_held [OF H3 s6(2)] s6(1)])
    moreover have "other_queues dir p p6" by (rule other_queues_trans [OF O3 other_queues_same [OF s6(2)]])
    ultimately show ?thesis using run i3
      by (intro exI [of _ True] exI [of _ s3] exI [of _ h6] exI [of _ p6]) (simp only: if_True, blast)
  next
    case False
    let ?o = "tbf_allocatedTs (h1 u)"
    have rv: "IsTrxValid (tbf_trx (h3 u))" "length (tbf_allocatedTs (h3 u)) = MAX_TIMESLOTS" "set [0..<MAX_TIMESLOTS] \<subseteq> {..<MAX_TIMESLOTS}"
      using i3 t(3) by auto
    obtain h4 p4 where r: "restore_slots dir u ?o [0..<MAX_TIMESLOTS] (h3, p3) = Some (h4, p4)" "queues_ok prec p4"
      "only_slots u h3 h4" "tbf_trx (h4 u) = tbf_trx (h3 u)" "tbf_naturalTs (h4 u) = tbf_naturalTs (h3 u)"
      "length (tbf_allocatedTs (h4 u)) = MAX_TIMESLOTS"
      "\<forall>ts < MAX_TIMESLOTS. tbf_allocatedTs (h4 u) ! ts = (if ts \<in> set [0..<MAX_TIMESLOTS] then ?o ! ts else tbf_allocatedTs (h3 u) ! ts)"
      "\<forall>d t s. IsTrxTsValid t s \<longrightarrow> slot_queue d t s p4 =
        (if d = dir \<and> t = tbf_trx (h3 u) \<and> nat s \<in> set [0..<MAX_TIMESLOTS] then RestoreQueue (slot_queue d t s p3) else slot_queue d t s p3)"
      using restore_slots_queues [where h = h3 and u = u and dir = dir and prec = prec and original = ?o, OF i3(3) rv] by blast
    have alloc: "tbf_allocatedTs (h4 u) = tbf_allocatedTs (h u)"
      using r(6,7) t(1) by (intro nth_equalityI) (simp_all add: h1(1))
    have Q: "sq_queue (slot_queue d t s p4) = sq_queue (slot_queue d t s p)" if v: "IsTrxTsValid t s" for d t s
    proof -
      have s: "nat s < 8" using v by (auto simp: IsTrxTsValid_def)
      show ?thesis
        using r(8) v s grown_queue [OF G v, of d] vacated_queue [OF vac(4) v, of d] V(2) i3(7) trx
        by (cases "d = dir \<and> t = tbf_trx (h u)") (auto split: if_splits)
    qed
    have O: "other_queues dir p p4"
      using other_queues_trans [OF O3, of p4] r(8) by (simp add: other_queues_def)
    have "held dir h4 p4"
      unfolding held_def
    proof (intro allI impI)
      fix t' s' v assume v: "IsTrxTsValid t' s'" "v \<in> sq_users (slot_queue dir t' s' p4)"
      then have "v \<in> sq_users (slot_queue dir t' s' p)" using Q [OF v(1)] by (simp add: sq_users_def)
      then have "tbf_trx (h v) = t' \<and> nat s' \<in> slots (tbf_allocatedTs (h v))" by (rule heldD [OF h v(1)])
      then show "tbf_trx (h4 v) = t' \<and> nat s' \<in> slots (tbf_allocatedTs (h4 v))"
        using alloc r(3,4) i3(7) others [of v] by (cases "v = u") (auto simp: only_slots_def)
    qed
    moreover have "AllocateUserIfBetterQoS br g (s, h, p) = Some (False, s3, h4, p4)"
      using c s s1 vac(1) al3 False r(1) by (simp add: AllocateUserIfBetterQoS_def Let_def)
    moreover have "only_slots u h h4" using only3 r(3) by (rule only_slots_trans)
    moreover have "\<forall>v. v \<noteq> u \<longrightarrow> h4 v = h v" using others r(3) by (auto simp: only_slots_def)
    ultimately show ?thesis using r(2,4,5,6) O i3 alloc Q
      by (intro exI [of _ False] exI [of _ s3] exI [of _ h4] exI [of _ p4]) simp
  qed
qed

end

end
