(* ===== verification/MacRuns.thy ===== *)
theory MacRuns
  imports SlotHolders
begin

text \<open>
  The scheduler in operation: any sequence of establishments, requests, reallocations, releases and block
  schedulings for the TBFs of both directions, as a transition system.
\<close>

section \<open>One direction\<close>

definition dir_ok :: "(LinkDirection \<Rightarrow> 'p \<Rightarrow> int) \<Rightarrow> LinkDirection \<Rightarrow> ('p \<Rightarrow> 'a Tbf_scheme) \<times> ('p, 'm) TSPool \<Rightarrow> bool" where
  "dir_ok prec dir = (\<lambda>(h, p). queues_ok prec p \<and> held dir h p \<and> (\<forall>u. tbf_ok (h u)))"

lemma no_slots: "length a = n \<Longrightarrow> slots a = {} \<Longrightarrow> a = replicate n False"
  by (auto simp: slots_def list_eq_iff_nth_eq)

lemma tbf_okD:
  "tbf_ok t \<Longrightarrow> length (tbf_allocatedTs t) = MAX_TIMESLOTS"
  "tbf_ok t \<Longrightarrow> length (tbf_naturalTs t) = MAX_TIMESLOTS"
  "tbf_ok t \<Longrightarrow> tbf_trx t = NULL_TRX \<or> IsTrxValid (tbf_trx t)"
  by (simp_all add: tbf_ok_def)

lemma dir_okI:
  assumes "queues_ok prec p'" "held dir h' p'" "\<forall>v. v \<noteq> u \<longrightarrow> h' v = h v" "\<forall>u. tbf_ok (h u)" "tbf_ok (h' u)"
  shows "dir_ok prec dir (h', p')"
  using assms unfolding dir_ok_def prod.case by metis

lemma copy_trx_ok:
  assumes "dir_ok prec dir (h, p)" "slots (tbf_allocatedTs (h u)) = {} \<or> trx = tbf_trx (h u)" "trx = NULL_TRX \<or> IsTrxValid trx"
  shows "dir_ok prec dir (copy_trx u trx h, p)"
proof -
  have h: "held dir h p" "\<forall>u. tbf_ok (h u)" "queues_ok prec p" using assms(1) by (auto simp: dir_ok_def)
  have "held dir (copy_trx u trx h) p"
    unfolding held_def
  proof (intro allI impI)
    fix t s v assume "IsTrxTsValid t s" "v \<in> sq_users (slot_queue dir t s p)"
    then have "tbf_trx (h v) = t \<and> nat s \<in> slots (tbf_allocatedTs (h v))" using heldD [OF h(1)] by blast
    then show "tbf_trx (copy_trx u trx h v) = t \<and> nat s \<in> slots (tbf_allocatedTs (copy_trx u trx h v))"
      using assms(2) by (cases "v = u") (auto simp: copy_trx_def)
  qed
  moreover have "tbf_ok (copy_trx u trx h v)" for v
    using h(2) [rule_format, of v] assms(2,3) by (cases "v = u") (auto simp: copy_trx_def tbf_ok_def)
  ultimately show ?thesis using h(3) by (simp add: dir_ok_def)
qed

context branch_laws begin

lemma request_kept:
  assumes ok: "dir_ok prec dir (h, p)" "precs_ok (prec dir)" "prec dir u = limit 1 3 (qos_PrecedenceClass qos)"
    "length (raw_cands raw) = MAX_MULTI_CONFIG_CANDIDATES" "\<forall>a. opp = Some a \<longrightarrow> length a = MAX_TIMESLOTS"
    and none: "slots (tbf_allocatedTs (h u)) = {}"
  shows "\<exists>status h' p'. run_request (AllocateUser br g) True (new_request raw qos u dir opp) (h, p) = Some (status, h', p') \<and>
     dir_ok prec dir (h', p') \<and> other_queues dir p p'"
proof -
  have h: "held dir h p" "\<forall>u. tbf_ok (h u)" "queues_ok prec p" using ok(1) by (auto simp: dir_ok_def)
  note tu = tbf_okD [OF h(2) [rule_format, of u]]
  have rep: "tbf_allocatedTs (h u) = replicate MAX_TIMESLOTS False" by (rule no_slots [OF tu(1) none])
  obtain s where s: "ComputeMultislotOptions True (new_request raw qos u dir opp) = Some s"
    "prepared (class_index qos) s" "sa_tbf s = u" "sa_direction s = dir"
    "nat (sa_delayClass s - 1) < QUEUE_NUM_LEVELS" "sa_precedenceClass s = limit 1 3 (qos_PrecedenceClass qos)"
    "allocated dir s = {}" by (rule new_request_prepared [OF ok(4,5)])
  obtain status h' p' where r: "run_request (AllocateUser br g) True (new_request raw qos u dir opp) (h, p) = Some (status, h', p')"
    "queues_ok prec p'" "\<forall>v. v \<noteq> u \<longrightarrow> h' v = h v"
    and o: "if status then grant_ok g qos dir (tbf_trx (h' u)) (slots (tbf_allocatedTs (h' u)))
        (case opp of None \<Rightarrow> {} | Some a \<Rightarrow> slots a) \<and> (tbf_trx (h u) \<noteq> NULL_TRX \<longrightarrow> tbf_trx (h' u) = tbf_trx (h u))
      else slots (tbf_allocatedTs (h' u)) = {} \<and> p' = p"
    using request_outcome [where h = h and u = u and g = g, OF h(3) ok(2-5) rep tu(3)] by blast
  obtain s' where run: "AllocateUser br g (s, h, p) = Some (status, s', h', p')"
    using r(1) s(1) by (auto simp: run_request_def split: bind_splits)
  have prec: "sa_precedenceClass s = prec dir u" using s(6) ok(3) by simp
  note K = AllocateUser_held [OF h(3) ok(2) s(2-5) prec tu(1) none s(7) tu(3) h(1) run]
  obtain status2 s2 h2 p2 where "AllocateUser br g (s, h, p) = Some (status2, s2, h2, p2)"
    "\<not> status2 \<longrightarrow> tbf_trx (h2 u) = tbf_trx (h u)"
    using AllocateUser_outcome [where g = g and h = h, OF h(3) ok(2) s(2-5) prec tu(1) none s(7) tu(3)] by metis
  then have "\<not> status \<longrightarrow> tbf_trx (h' u) = tbf_trx (h u)" using run by auto
  then have "tbf_ok (h' u)"
    using K o tu(3) by (cases status) (auto simp: tbf_ok_def grant_ok_def)
  then have "dir_ok prec dir (h', p')" using dir_okI [OF r(2) _ r(3) h(2)] K by blast
  then show ?thesis using r(1) K by blast
qed

lemma realloc_kept:
  assumes ok: "dir_ok prec dir (h, p)" "precs_ok (prec dir)" "prec dir u = limit 1 3 (qos_PrecedenceClass qos)"
    "length (raw_cands raw) = MAX_MULTI_CONFIG_CANDIDATES" "\<forall>a. opp = Some a \<longrightarrow> length a = MAX_TIMESLOTS"
    and trx: "IsTrxValid (tbf_trx (h u))"
  shows "\<exists>status h' p'. run_request (AllocateUserIfBetterQoS br g) True (new_request raw qos u dir opp) (h, p) = Some (status, h', p') \<and>
     dir_ok prec dir (h', p') \<and> other_queues dir p p' \<and> (\<forall>v. v \<noteq> u \<longrightarrow> h' v = h v) \<and> tbf_trx (h' u) = tbf_trx (h u) \<and>
     (if status then grant_ok g qos dir (tbf_trx (h' u)) (slots (tbf_allocatedTs (h' u)))
          (case opp of None \<Rightarrow> {} | Some a \<Rightarrow> slots a)
      else tbf_allocatedTs (h' u) = tbf_allocatedTs (h u) \<and> only_slots u h h' \<and>
        (\<forall>d t s. IsTrxTsValid t s \<longrightarrow> sq_queue (slot_queue d t s p') = sq_queue (slot_queue d t s p)))"
proof -
  have h: "held dir h p" "\<forall>u. tbf_ok (h u)" "queues_ok prec p" using ok(1) by (auto simp: dir_ok_def)
  note tu = tbf_okD [OF h(2) [rule_format, of u]]
  obtain s where s: "ComputeMultislotOptions True (new_request raw qos u dir opp) = Some s"
    "prepared (class_index qos) s" "sa_tbf s = u" "sa_direction s = dir"
    "nat (sa_delayClass s - 1) < QUEUE_NUM_LEVELS" "sa_precedenceClass s = limit 1 3 (qos_PrecedenceClass qos)"
    "allocated dir s = {}" "allocated (opposite dir) s = (case opp of None \<Rightarrow> {} | Some a \<Rightarrow> slots a)"
    "nat (ComputeDesiredNumberOfSlots s) \<le> throughput_slots (qos_PeakThroughputClass qos)"
    by (rule new_request_prepared [OF ok(4,5)])
  have prec: "sa_precedenceClass s = prec dir u" using s(6) ok(3) by simp
  obtain status s' h' p' where r: "AllocateUserIfBetterQoS br g (s, h, p) = Some (status, s', h', p')" "queues_ok prec p'"
    "held dir h' p'" "other_queues dir p p'" "\<forall>v. v \<noteq> u \<longrightarrow> h' v = h v" "tbf_trx (h' u) = tbf_trx (h u)"
    "length (tbf_allocatedTs (h' u)) = MAX_TIMESLOTS" "length (tbf_naturalTs (h' u)) = MAX_TIMESLOTS"
    and o: "if status then slots (tbf_allocatedTs (h' u)) \<noteq> {} \<and>
          card (slots (tbf_allocatedTs (h' u))) \<le> nat (ComputeDesiredNumberOfSlots s) \<and>
          (\<forall>ts \<in> slots (tbf_allocatedTs (h' u)). usable g (nat (tbf_trx (h' u))) ts) \<and>
          (\<exists>opt \<in> multislot_options (class_index qos). slots (tbf_allocatedTs (h' u)) \<subseteq> side dir opt \<and>
             allocated (opposite dir) s \<subseteq> side (opposite dir) opt)
      else tbf_allocatedTs (h' u) = tbf_allocatedTs (h u) \<and> only_slots u h h' \<and>
        (\<forall>d t s. IsTrxTsValid t s \<longrightarrow> sq_queue (slot_queue d t s p') = sq_queue (slot_queue d t s p))"
    using Realloc_outcome [where g = g and h = h, OF h(3) ok(2) s(2-5) prec tu(1) s(7) trx h(1)] by blast
  have "tbf_ok (h' u)" using r(6-8) trx by (simp add: tbf_ok_def)
  then have "dir_ok prec dir (h', p')" by (rule dir_okI [OF r(2,3,5) h(2)])
  moreover have "run_request (AllocateUserIfBetterQoS br g) True (new_request raw qos u dir opp) (h, p) = Some (status, h', p')"
    using s(1) r(1) by (simp add: run_request_def)
  moreover have "grant_ok g qos dir (tbf_trx (h' u)) (slots (tbf_allocatedTs (h' u))) (case opp of None \<Rightarrow> {} | Some a \<Rightarrow> slots a)"
    if status
  proof -
    note yes = that
    obtain opt where opt: "opt \<in> multislot_options (class_index qos)" "slots (tbf_allocatedTs (h' u)) \<subseteq> side dir opt"
      "(case opp of None \<Rightarrow> {} | Some a \<Rightarrow> slots a) \<subseteq> side (opposite dir) opt"
      using o yes unfolding s(8) by auto
    show ?thesis by (rule option_grant [OF opt]) (use o yes s(9) r(6) trx in auto)
  qed
  ultimately show ?thesis using r(4-6) o
    by (intro exI [of _ status] exI [of _ h'] exI [of _ p']) (cases status; simp)
qed

lemma release_kept:
  assumes ok: "dir_ok prec dir (h, p)" "precs_ok (prec dir)"
  shows "\<exists>h' p'. DeallocateUser br dir u (h, p) = Some (h', p') \<and> dir_ok prec dir (h', p') \<and> other_queues dir p p' \<and>
     (\<forall>v. v \<noteq> u \<longrightarrow> h' v = h v) \<and> slots (tbf_allocatedTs (h' u)) = {} \<and>
     (\<forall>t s. IsTrxTsValid t s \<longrightarrow> u \<notin> sq_users (slot_queue dir t s p'))"
proof -
  have h: "held dir h p" "\<forall>u. tbf_ok (h u)" "queues_ok prec p" using ok(1) by (auto simp: dir_ok_def)
  obtain h' p' where r: "DeallocateUser br dir u (h, p) = Some (h', p')" "queues_ok prec p'"
    "vacated False dir u {..<MAX_TIMESLOTS} (h, p) (h', p')"
    using DeallocateUser_vacated [where h = h and u = u and prec = prec and dir = dir, OF h(3) ok(2)] h(2) by blast
  note V = vacatedD [OF r(3)] and H = vacated_held [OF h(1) r(3)]
  have none: "slots (tbf_allocatedTs (h' u)) = {}"
    using V(5) tbf_okD(1) [OF h(2) [rule_format, of u]] by (auto simp: slots_def)
  then have "tbf_ok (h' u)" using h(2) [rule_format, of u] V(2-4) by (simp add: tbf_ok_def)
  then have "dir_ok prec dir (h', p')" using dir_okI [OF r(2) H(1) _ h(2)] V(6) by blast
  then show ?thesis using r(1) none H(2) V(6) other_queues_vacated [OF r(3)] by blast
qed

end

section \<open>The transition system\<close>

record ('p, 'm) mac =
  mac_dl :: "'p \<Rightarrow> DLTbf"
  mac_ul :: "'p \<Rightarrow> ULTbf"
  mac_pool :: "('p, 'm) TSPool"

text \<open>
  The operations, with the TBFs, the state of the cell, the uninitialised bytes and the quality of service
  they work with.  \<open>Establish\<close> is the part of \<open>EstablishDLTbf\<close> and \<open>EstablishULTbf\<close> that clears the resources.
\<close>

datatype 'p mac_op =
    EstablishDL 'p | EstablishUL 'p
  | RequestDL 'p Grr Raw Qos | RequestDLWith 'p 'p Grr Raw Qos | RequestDLSingle 'p Grr Raw Qos
  | RequestUL 'p Grr Raw Qos | RequestULWith 'p 'p Grr Raw Qos
  | ReallocDL 'p Grr Raw Qos | ReallocDLWith 'p 'p Grr Raw Qos
  | ReallocUL 'p Grr Raw Qos | ReallocULWith 'p 'p Grr Raw Qos
  | ReleaseDL 'p | ReleaseUL 'p
  | Schedule LinkDirection "'p \<Rightarrow> TBF_STATE" int int

definition on_dl where
  "on_dl f st = do { (h, p) \<leftarrow> f (mac_dl st, mac_pool st); Some (st\<lparr>mac_dl := h, mac_pool := p\<rparr>) }"

definition on_ul where
  "on_ul f st = do { (h, p) \<leftarrow> f (mac_ul st, mac_pool st); Some (st\<lparr>mac_ul := h, mac_pool := p\<rparr>) }"

fun mac_exec :: "bool \<Rightarrow> 'p mac_op \<Rightarrow> ('p, 'm) mac \<Rightarrow> ('p, 'm) mac option" where
  "mac_exec schar (EstablishDL u) st = Some (st\<lparr>mac_dl := (mac_dl st)(u := EstablishDLTbf_clear (mac_dl st u))\<rparr>)"
| "mac_exec schar (EstablishUL u) st = Some (st\<lparr>mac_ul := (mac_ul st)(u := EstablishULTbf_clear (mac_ul st u))\<rparr>)"
| "mac_exec schar (RequestDL u g raw qos) st = on_dl (\<lambda>x. map_option snd (DLResourceRequest schar raw g qos u x)) st"
| "mac_exec schar (RequestDLWith u w g raw qos) st = on_dl (\<lambda>x. map_option snd (DLResourceRequest_with schar raw g qos u (mac_ul st w) x)) st"
| "mac_exec schar (RequestDLSingle u g raw qos) st = on_dl (\<lambda>x. map_option snd (DLSingleTSResourceRequest schar raw g qos u x)) st"
| "mac_exec schar (RequestUL u g raw qos) st = on_ul (\<lambda>x. map_option snd (ULResourceRequest schar raw g qos u x)) st"
| "mac_exec schar (RequestULWith u w g raw qos) st = on_ul (\<lambda>x. map_option snd (ULResourceRequest_with schar raw g qos u (mac_dl st w) x)) st"
| "mac_exec schar (ReallocDL u g raw qos) st = on_dl (\<lambda>x. map_option snd (DLResourceReallocRequest schar raw g qos u x)) st"
| "mac_exec schar (ReallocDLWith u w g raw qos) st = on_dl (\<lambda>x. map_option snd (DLResourceReallocRequest_with schar raw g qos u (mac_ul st w) x)) st"
| "mac_exec schar (ReallocUL u g raw qos) st = on_ul (\<lambda>x. map_option snd (ULResourceReallocRequest schar raw g qos u x)) st"
| "mac_exec schar (ReallocULWith u w g raw qos) st = on_ul (\<lambda>x. map_option snd (ULResourceReallocRequest_with schar raw g qos u (mac_dl st w) x)) st"
| "mac_exec schar (ReleaseDL u) st = on_dl (DLReleaseResourceRequest u) st"
| "mac_exec schar (ReleaseUL u) st = on_ul (ULReleaseResourceRequest u) st"
| "mac_exec schar (Schedule dir tst trx ts) st = do {
     (_, p) \<leftarrow> ScheduleRLCBlock dir tst trx ts (mac_pool st);
     Some (st\<lparr>mac_pool := p\<rparr>)
   }"

text \<open>
  What the callers see to: TBFs without slots are established and requested for, a TBF with a transceiver
  is reallocated, both directions of a mobile on the same one; \<open>prec\<close> is the precedence of each TBF object, the same in
  the whole run.  Where \<^verbatim>\<open>char\<close> is unsigned (\<open>schar\<close> is false) the multislot classes are those below 4.
\<close>

definition qos_ok :: "(LinkDirection \<Rightarrow> 'p \<Rightarrow> int) \<Rightarrow> LinkDirection \<Rightarrow> 'p \<Rightarrow> Raw \<Rightarrow> Qos \<Rightarrow> bool" where
  "qos_ok prec dir u raw qos \<longleftrightarrow> prec dir u = limit 1 3 (qos_PrecedenceClass qos) \<and>
     length (raw_cands raw) = MAX_MULTI_CONFIG_CANDIDATES"

definition no_slot :: "'a Tbf_scheme \<Rightarrow> bool" where
  "no_slot t \<longleftrightarrow> slots (tbf_allocatedTs t) = {}"

fun mac_allowed :: "bool \<Rightarrow> (LinkDirection \<Rightarrow> 'p \<Rightarrow> int) \<Rightarrow> 'p mac_op \<Rightarrow> ('p, 'm) mac \<Rightarrow> bool" where
  "mac_allowed schar prec (EstablishDL u) st = no_slot (mac_dl st u)"
| "mac_allowed schar prec (EstablishUL u) st = no_slot (mac_ul st u)"
| "mac_allowed schar prec (RequestDL u g raw qos) st = (class_ok schar qos \<and> qos_ok prec DL u raw qos \<and> no_slot (mac_dl st u))"
| "mac_allowed schar prec (RequestDLWith u w g raw qos) st = (class_ok schar qos \<and> qos_ok prec DL u raw qos \<and> no_slot (mac_dl st u))"
| "mac_allowed schar prec (RequestDLSingle u g raw qos) st = (qos_ok prec DL u raw qos \<and> no_slot (mac_dl st u))"
| "mac_allowed schar prec (RequestUL u g raw qos) st = (class_ok schar qos \<and> qos_ok prec UL u raw qos \<and> no_slot (mac_ul st u))"
| "mac_allowed schar prec (RequestULWith u w g raw qos) st = (class_ok schar qos \<and> qos_ok prec UL u raw qos \<and> no_slot (mac_ul st u))"
| "mac_allowed schar prec (ReallocDL u g raw qos) st = (class_ok schar qos \<and> qos_ok prec DL u raw qos \<and> IsTrxValid (tbf_trx (mac_dl st u)))"
| "mac_allowed schar prec (ReallocDLWith u w g raw qos) st = (class_ok schar qos \<and> qos_ok prec DL u raw qos \<and> IsTrxValid (tbf_trx (mac_dl st u)) \<and>
     tbf_trx (mac_ul st w) = tbf_trx (mac_dl st u))"
| "mac_allowed schar prec (ReallocUL u g raw qos) st = (class_ok schar qos \<and> qos_ok prec UL u raw qos \<and> IsTrxValid (tbf_trx (mac_ul st u)))"
| "mac_allowed schar prec (ReallocULWith u w g raw qos) st = (class_ok schar qos \<and> qos_ok prec UL u raw qos \<and> IsTrxValid (tbf_trx (mac_ul st u)) \<and>
     tbf_trx (mac_dl st w) = tbf_trx (mac_ul st u))"
| "mac_allowed schar prec (ReleaseDL u) st = True"
| "mac_allowed schar prec (ReleaseUL u) st = True"
| "mac_allowed schar prec (Schedule dir tst trx ts) st = IsTrxTsValid trx ts"

text \<open>The state in which the program starts: a new pool, TBFs without slots.\<close>

definition mac_start :: "('p, 'm) mac \<Rightarrow> bool" where
  "mac_start st \<longleftrightarrow> (\<exists>buf. mac_pool st = TSPool_new buf) \<and>
     (\<forall>u. tbf_ok (mac_dl st u) \<and> no_slot (mac_dl st u) \<and> tbf_ok (mac_ul st u) \<and> no_slot (mac_ul st u))"

inductive mac_reachable :: "bool \<Rightarrow> (LinkDirection \<Rightarrow> 'p \<Rightarrow> int) \<Rightarrow> ('p, 'm) mac \<Rightarrow> bool" for schar prec where
  start: "mac_start st \<Longrightarrow> mac_reachable schar prec st"
| step: "mac_reachable schar prec st \<Longrightarrow> mac_allowed schar prec op st \<Longrightarrow> mac_exec schar op st = Some st' \<Longrightarrow>
     mac_reachable schar prec st'"

definition mac_ok :: "(LinkDirection \<Rightarrow> 'p \<Rightarrow> int) \<Rightarrow> ('p, 'm) mac \<Rightarrow> bool" where
  "mac_ok prec st \<longleftrightarrow> dir_ok prec DL (mac_dl st, mac_pool st) \<and> dir_ok prec UL (mac_ul st, mac_pool st)"

lemma dir_ok_other:
  assumes "dir_ok prec d (h, p)" "queues_ok prec p'" "other_queues dir p p'" "d \<noteq> dir"
  shows "dir_ok prec d (h, p')"
  using assms other_queues_held [where h = h, OF assms(3,4)] by (simp add: dir_ok_def)

lemma mac_ok_dl:
  assumes "mac_ok prec st" "dir_ok prec DL (h, p)" "other_queues DL (mac_pool st) p"
  shows "mac_ok prec (st\<lparr>mac_dl := h, mac_pool := p\<rparr>)"
  using assms dir_ok_other [of prec UL "mac_ul st" "mac_pool st" p DL] by (simp add: mac_ok_def) (simp add: dir_ok_def)

lemma mac_ok_ul:
  assumes "mac_ok prec st" "dir_ok prec UL (h, p)" "other_queues UL (mac_pool st) p"
  shows "mac_ok prec (st\<lparr>mac_ul := h, mac_pool := p\<rparr>)"
  using assms dir_ok_other [of prec DL "mac_dl st" "mac_pool st" p UL] by (simp add: mac_ok_def) (simp add: dir_ok_def)

lemma on_dl_ok:
  assumes "mac_ok prec st" "\<exists>h p. f (mac_dl st, mac_pool st) = Some (h, p) \<and> dir_ok prec DL (h, p) \<and> other_queues DL (mac_pool st) p"
  shows "\<exists>st'. on_dl f st = Some st' \<and> mac_ok prec st'"
  using assms mac_ok_dl by (fastforce simp: on_dl_def)

lemma on_ul_ok:
  assumes "mac_ok prec st" "\<exists>h p. f (mac_ul st, mac_pool st) = Some (h, p) \<and> dir_ok prec UL (h, p) \<and> other_queues UL (mac_pool st) p"
  shows "\<exists>st'. on_ul f st = Some st' \<and> mac_ok prec st'"
  using assms mac_ok_ul by (fastforce simp: on_ul_def)

lemma clear_ok:
  assumes "dir_ok prec dir (h, p)" "slots (tbf_allocatedTs (h u)) = {}" "tbf_naturalTs t = tbf_naturalTs (h u)"
    "tbf_allocatedTs t = replicate MAX_TIMESLOTS False" "tbf_trx t = NULL_TRX"
  shows "dir_ok prec dir (h(u := t), p)"
proof -
  have h: "held dir h p" "\<forall>u. tbf_ok (h u)" "queues_ok prec p" using assms(1) by (auto simp: dir_ok_def)
  have "held dir (h(u := t)) p"
    unfolding held_def using heldD [OF h(1)] assms(2) by (metis empty_iff fun_upd_other)
  moreover have "tbf_ok t" using assms(3-5) h(2) tbf_okD(2) [of "h u"] by (simp add: tbf_ok_def)
  ultimately show ?thesis using h by (simp add: dir_ok_def)
qed

lemma Schedule_ok:
  assumes "queues_ok prec p" "IsTrxTsValid trx ts"
  shows "\<exists>r p'. ScheduleRLCBlock dir tst trx ts p = Some (r, p') \<and> queues_ok prec p' \<and>
     (\<forall>d t s. IsTrxTsValid t s \<longrightarrow> sq_queue (slot_queue d t s p') = sq_queue (slot_queue d t s p)) \<and>
     (\<forall>u. r = Some u \<longrightarrow> u \<in> sq_users (slot_queue dir trx ts p))"
proof -
  let ?q = "slot_queue dir trx ts p"
  have q: "sq_ok (prec dir) ?q" by (rule slot_queue_ok [OF assms])
  obtain r idx where r: "ScheduleNextBlock tst ?q = Some (r, ?q\<lparr>sq_currentIndex := idx\<rparr>)" "index_ok idx"
    using ScheduleNextBlock_total [OF q, of tst] by blast
  let ?q' = "?q\<lparr>sq_currentIndex := idx\<rparr>"
  let ?p' = "on_info (PutQueue dir ?q') trx ts p"
  have q': "sq_ok (prec dir) ?q'" using q r(2) by (simp add: sq_ok_def)
  have "ScheduleRLCBlock dir tst trx ts p = Some (r, ?p')"
    using r(1) queue_at_slot [OF assms(2), of dir p] by (simp add: ScheduleRLCBlock_def)
  moreover have "queues_ok prec ?p'" by (rule queues_ok_Put(1) [OF assms q'])
  moreover have "sq_queue (slot_queue d t s ?p') = sq_queue (slot_queue d t s p)" if "IsTrxTsValid t s" for d t s
    using slot_queue_put(1) [OF queues_okD(1) [OF assms(1)] assms(2) that] by simp
  ultimately show ?thesis using ScheduleNextBlock_users(3) [OF q r(1)] by blast
qed

lemma dl_request_step:
  assumes "mac_ok prec st" "precs_ok (prec DL)" "dir_ok prec DL (h, mac_pool st)" "qos_ok prec DL u raw qos"
    "\<forall>a. opp = Some a \<longrightarrow> length a = MAX_TIMESLOTS" "slots (tbf_allocatedTs (h u)) = {}"
    "f (mac_dl st, mac_pool st) = run_request (AllocateUser dl_branch g) True (new_request raw qos u DL opp) (h, mac_pool st)"
  shows "\<exists>st'. on_dl (\<lambda>x. map_option snd (f x)) st = Some st' \<and> mac_ok prec st'"
proof (rule on_dl_ok [OF assms(1)])
  have q: "prec DL u = limit 1 3 (qos_PrecedenceClass qos)" "length (raw_cands raw) = MAX_MULTI_CONFIG_CANDIDATES"
    using assms(4) by (auto simp: qos_ok_def)
  show "\<exists>h' p'. map_option snd (f (mac_dl st, mac_pool st)) = Some (h', p') \<and> dir_ok prec DL (h', p') \<and>
      other_queues DL (mac_pool st) p'"
    using dl.request_kept [where g = g and h = h and u = u and dir = DL and prec = prec, OF assms(3,2) q assms(5,6)] unfolding assms(7)
    by auto
qed

lemma dl_realloc_step:
  assumes "mac_ok prec st" "precs_ok (prec DL)" "dir_ok prec DL (h, mac_pool st)" "qos_ok prec DL u raw qos"
    "\<forall>a. opp = Some a \<longrightarrow> length a = MAX_TIMESLOTS" "IsTrxValid (tbf_trx (h u))"
    "f (mac_dl st, mac_pool st) = run_request (AllocateUserIfBetterQoS dl_branch g) True (new_request raw qos u DL opp) (h, mac_pool st)"
  shows "\<exists>st'. on_dl (\<lambda>x. map_option snd (f x)) st = Some st' \<and> mac_ok prec st'"
proof (rule on_dl_ok [OF assms(1)])
  have q: "prec DL u = limit 1 3 (qos_PrecedenceClass qos)" "length (raw_cands raw) = MAX_MULTI_CONFIG_CANDIDATES"
    using assms(4) by (auto simp: qos_ok_def)
  show "\<exists>h' p'. map_option snd (f (mac_dl st, mac_pool st)) = Some (h', p') \<and> dir_ok prec DL (h', p') \<and>
      other_queues DL (mac_pool st) p'"
    using dl.realloc_kept [where g = g and h = h and u = u and dir = DL and prec = prec, OF assms(3,2) q assms(5,6)] unfolding assms(7)
    by auto
qed

lemma ul_request_step:
  assumes "mac_ok prec st" "precs_ok (prec UL)" "dir_ok prec UL (h, mac_pool st)" "qos_ok prec UL u raw qos"
    "\<forall>a. opp = Some a \<longrightarrow> length a = MAX_TIMESLOTS" "slots (tbf_allocatedTs (h u)) = {}"
    "f (mac_ul st, mac_pool st) = run_request (AllocateUser ul_branch g) True (new_request raw qos u UL opp) (h, mac_pool st)"
  shows "\<exists>st'. on_ul (\<lambda>x. map_option snd (f x)) st = Some st' \<and> mac_ok prec st'"
proof (rule on_ul_ok [OF assms(1)])
  have q: "prec UL u = limit 1 3 (qos_PrecedenceClass qos)" "length (raw_cands raw) = MAX_MULTI_CONFIG_CANDIDATES"
    using assms(4) by (auto simp: qos_ok_def)
  show "\<exists>h' p'. map_option snd (f (mac_ul st, mac_pool st)) = Some (h', p') \<and> dir_ok prec UL (h', p') \<and>
      other_queues UL (mac_pool st) p'"
    using ul.request_kept [where g = g and h = h and u = u and dir = UL and prec = prec, OF assms(3,2) q assms(5,6)] unfolding assms(7)
    by auto
qed

lemma ul_realloc_step:
  assumes "mac_ok prec st" "precs_ok (prec UL)" "dir_ok prec UL (h, mac_pool st)" "qos_ok prec UL u raw qos"
    "\<forall>a. opp = Some a \<longrightarrow> length a = MAX_TIMESLOTS" "IsTrxValid (tbf_trx (h u))"
    "f (mac_ul st, mac_pool st) = run_request (AllocateUserIfBetterQoS ul_branch g) True (new_request raw qos u UL opp) (h, mac_pool st)"
  shows "\<exists>st'. on_ul (\<lambda>x. map_option snd (f x)) st = Some st' \<and> mac_ok prec st'"
proof (rule on_ul_ok [OF assms(1)])
  have q: "prec UL u = limit 1 3 (qos_PrecedenceClass qos)" "length (raw_cands raw) = MAX_MULTI_CONFIG_CANDIDATES"
    using assms(4) by (auto simp: qos_ok_def)
  show "\<exists>h' p'. map_option snd (f (mac_ul st, mac_pool st)) = Some (h', p') \<and> dir_ok prec UL (h', p') \<and>
      other_queues UL (mac_pool st) p'"
    using ul.realloc_kept [where g = g and h = h and u = u and dir = UL and prec = prec, OF assms(3,2) q assms(5,6)] unfolding assms(7)
    by auto
qed

lemma qos_ok_single: "qos_ok prec dir u raw (qos\<lparr>qos_MultislotClass := c\<rparr>) = qos_ok prec dir u raw qos"
  by (simp add: qos_ok_def)

lemma copy_trx_simps [simp]:
  "tbf_allocatedTs (copy_trx u trx h u) = tbf_allocatedTs (h u)" "tbf_trx (copy_trx u trx h u) = trx"
  by (simp_all add: copy_trx_def)

lemma held_sq_queue:
  assumes "\<forall>d t s. IsTrxTsValid t s \<longrightarrow> sq_queue (slot_queue d t s p') = sq_queue (slot_queue d t s p)"
  shows "held DL dh p \<Longrightarrow> held DL dh p'" "held UL uh p \<Longrightarrow> held UL uh p'"
  using assms by (simp_all add: held_def sq_users_def)

lemma mac_exec_ok_signed:
  assumes ok: "mac_ok prec st" and pr: "precs_ok (prec DL)" "precs_ok (prec UL)" and a: "mac_allowed True prec op st"
  shows "\<exists>st'. mac_exec True op st = Some st' \<and> mac_ok prec st'"
proof -
  have D: "dir_ok prec DL (mac_dl st, mac_pool st)" and U: "dir_ok prec UL (mac_ul st, mac_pool st)"
    using ok by (auto simp: mac_ok_def)
  have len: "\<forall>b. Some (tbf_allocatedTs (mac_ul st w)) = Some b \<longrightarrow> length b = MAX_TIMESLOTS"
    "\<forall>b. Some (tbf_allocatedTs (mac_dl st w)) = Some b \<longrightarrow> length b = MAX_TIMESLOTS"
    "tbf_trx (mac_ul st w) = NULL_TRX \<or> IsTrxValid (tbf_trx (mac_ul st w))"
    "tbf_trx (mac_dl st w) = NULL_TRX \<or> IsTrxValid (tbf_trx (mac_dl st w))" for w
    using D U tbf_okD [of "mac_ul st w"] tbf_okD [of "mac_dl st w"] by (auto simp: dir_ok_def)
  have none: "\<forall>b. None = Some (b :: bool list) \<longrightarrow> length b = MAX_TIMESLOTS" by simp
  note copy = copy_trx_ok [OF D _ len(3)] copy_trx_ok [OF U _ len(4)]
  note request = DLResourceRequest_def DLResourceRequest_with_def DLSingleTSResourceRequest_def DLResourceReallocRequest_def
    DLResourceReallocRequest_with_def ULResourceRequest_def ULResourceRequest_with_def ULResourceReallocRequest_def
    ULResourceReallocRequest_with_def qos_ok_single no_slot_def
  show ?thesis
  proof (cases op)
    case (EstablishDL u)
    have "dir_ok prec DL ((mac_dl st)(u := EstablishDLTbf_clear (mac_dl st u)), mac_pool st)"
      by (rule clear_ok [OF D]) (use a in \<open>simp_all add: EstablishDL no_slot_def EstablishDLTbf_clear_def\<close>)
    then show ?thesis using U by (simp add: EstablishDL mac_ok_def)
  next
    case (EstablishUL u)
    have "dir_ok prec UL ((mac_ul st)(u := EstablishULTbf_clear (mac_ul st u)), mac_pool st)"
      by (rule clear_ok [OF U]) (use a in \<open>simp_all add: EstablishUL no_slot_def EstablishULTbf_clear_def\<close>)
    then show ?thesis using D by (simp add: EstablishUL mac_ok_def)
  next
    case (RequestDL u g raw qos)
    show ?thesis
      unfolding RequestDL mac_exec.simps
      by (rule dl_request_step [where u = u and qos = "qos" and g = g, OF ok pr(1) D _ none]) (use a in \<open>auto simp: RequestDL request\<close>)
  next
    case (RequestDLSingle u g raw qos)
    show ?thesis
      unfolding RequestDLSingle mac_exec.simps
      by (rule dl_request_step [where u = u and qos = "qos\<lparr>qos_MultislotClass := 1\<rparr>" and g = g, OF ok pr(1) D _ none]) (use a in \<open>auto simp: RequestDLSingle request\<close>)
  next
    case (RequestUL u g raw qos)
    show ?thesis
      unfolding RequestUL mac_exec.simps
      by (rule ul_request_step [where u = u and qos = "qos" and g = g, OF ok pr(2) U _ none]) (use a in \<open>auto simp: RequestUL request\<close>)
  next
    case (RequestDLWith u w g raw qos)
    have "dir_ok prec DL (copy_trx u (tbf_trx (mac_ul st w)) (mac_dl st), mac_pool st)"
      by (rule copy(1)) (use a in \<open>auto simp: RequestDLWith no_slot_def\<close>)
    then show ?thesis
      unfolding RequestDLWith mac_exec.simps
      by (rule dl_request_step [where u = u and qos = qos and g = g, OF ok pr(1) _ _ len(1)]) (use a in \<open>auto simp: RequestDLWith request\<close>)
  next
    case (RequestULWith u w g raw qos)
    have "dir_ok prec UL (copy_trx u (tbf_trx (mac_dl st w)) (mac_ul st), mac_pool st)"
      by (rule copy(2)) (use a in \<open>auto simp: RequestULWith no_slot_def\<close>)
    then show ?thesis
      unfolding RequestULWith mac_exec.simps
      by (rule ul_request_step [where u = u and qos = qos and g = g, OF ok pr(2) _ _ len(2)]) (use a in \<open>auto simp: RequestULWith request\<close>)
  next
    case (ReallocDL u g raw qos)
    show ?thesis
      unfolding ReallocDL mac_exec.simps
      by (rule dl_realloc_step [where u = u and qos = "qos" and g = g, OF ok pr(1) D _ none]) (use a in \<open>auto simp: ReallocDL request\<close>)
  next
    case (ReallocUL u g raw qos)
    show ?thesis
      unfolding ReallocUL mac_exec.simps
      by (rule ul_realloc_step [where u = u and qos = "qos" and g = g, OF ok pr(2) U _ none]) (use a in \<open>auto simp: ReallocUL request\<close>)
  next
    case (ReallocDLWith u w g raw qos)
    have "dir_ok prec DL (copy_trx u (tbf_trx (mac_ul st w)) (mac_dl st), mac_pool st)"
      by (rule copy(1)) (use a in \<open>auto simp: ReallocDLWith no_slot_def\<close>)
    then show ?thesis
      unfolding ReallocDLWith mac_exec.simps
      by (rule dl_realloc_step [where u = u and qos = qos and g = g, OF ok pr(1) _ _ len(1)]) (use a in \<open>auto simp: ReallocDLWith request\<close>)
  next
    case (ReallocULWith u w g raw qos)
    have "dir_ok prec UL (copy_trx u (tbf_trx (mac_dl st w)) (mac_ul st), mac_pool st)"
      by (rule copy(2)) (use a in \<open>auto simp: ReallocULWith no_slot_def\<close>)
    then show ?thesis
      unfolding ReallocULWith mac_exec.simps
      by (rule ul_realloc_step [where u = u and qos = qos and g = g, OF ok pr(2) _ _ len(2)]) (use a in \<open>auto simp: ReallocULWith request\<close>)
  next
    case (ReleaseDL u)
    show ?thesis
      unfolding ReleaseDL mac_exec.simps DLReleaseResourceRequest_def
      by (rule on_dl_ok [OF ok]) (use dl.release_kept [OF D pr(1), of u] in auto)
  next
    case (ReleaseUL u)
    show ?thesis
      unfolding ReleaseUL mac_exec.simps ULReleaseResourceRequest_def
      by (rule on_ul_ok [OF ok]) (use ul.release_kept [OF U pr(2), of u] in auto)
  next
    case (Schedule dir tst trx ts)
    have v: "IsTrxTsValid trx ts" and q: "queues_ok prec (mac_pool st)" using a D by (auto simp: Schedule dir_ok_def)
    obtain r p' where r: "ScheduleRLCBlock dir tst trx ts (mac_pool st) = Some (r, p')" "queues_ok prec p'"
      "\<forall>d t s. IsTrxTsValid t s \<longrightarrow> sq_queue (slot_queue d t s p') = sq_queue (slot_queue d t s (mac_pool st))"
      using Schedule_ok [OF q v, of dir tst] by blast
    have "mac_ok prec (st\<lparr>mac_pool := p'\<rparr>)"
      using D U r(2) held_sq_queue(1) [where dh = "mac_dl st", OF r(3)] held_sq_queue(2) [where uh = "mac_ul st", OF r(3)]
      by (simp add: mac_ok_def dir_ok_def)
    then show ?thesis using r(1) by (simp add: Schedule)
  qed
qed

lemma mac_exec_signed:
  assumes "mac_allowed schar prec op st"
  shows "mac_exec schar op st = mac_exec True op st" "mac_allowed True prec op st"
  using assms by (cases op; simp add: request_schar [of schar] single_schar [of schar] class_ok_def [of True])+

lemma mac_exec_ok:
  assumes "mac_ok prec st" "precs_ok (prec DL)" "precs_ok (prec UL)" "mac_allowed schar prec op st"
  shows "\<exists>st'. mac_exec schar op st = Some st' \<and> mac_ok prec st'"
  using mac_exec_ok_signed [OF assms(1-3) mac_exec_signed(2) [OF assms(4)]] unfolding mac_exec_signed(1) [OF assms(4)] .

lemma new_pool_users: "IsTrxTsValid t s \<Longrightarrow> sq_users (slot_queue d t s (TSPool_new buf)) = {}"
  by (simp add: slot_queue_def new_pool_info GetQueue_new)
    (auto simp: sq_users_def row_users_def ScheduleQueue_new_def null_entry_def)

lemma mac_start_ok: "mac_start st \<Longrightarrow> mac_ok prec st"
proof -
  assume st: "mac_start st"
  then obtain buf where p: "mac_pool st = TSPool_new buf" by (auto simp: mac_start_def)
  have "queues_ok prec (mac_pool st)" unfolding p by (rule queues_ok_new)
  then show "mac_ok prec st" using st by (simp add: mac_ok_def dir_ok_def mac_start_def held_def p new_pool_users)
qed

lemma mac_reachable_ok:
  assumes "mac_reachable schar prec st" "precs_ok (prec DL)" "precs_ok (prec UL)"
  shows "mac_ok prec st"
  using assms
proof induction
  case (step st op st')
  then show ?case using mac_exec_ok [OF _ step.prems step.hyps(2)] by fastforce
qed (rule mac_start_ok)

section \<open>Properties\<close>

text \<open>
  C23: the schedule queues name only holders, and no operation fails. In every state that the scheduler can
  reach from a new pool, by establishments, requests, reallocations, releases and block schedulings of any
  TBFs of both directions in any order that \<open>mac_allowed\<close> admits (each TBF object keeps one precedence class; the
  multislot classes are below 4 where \<^verbatim>\<open>char\<close> is unsigned), a TBF that an entry of a queue points to is on the
  transceiver of this queue and holds its timeslot; and every such operation returns, without leaving an array or
  following a null pointer.
\<close>

theorem scheduler_names_only_holders:
  assumes "mac_reachable schar prec st" "precs_ok (prec DL)" "precs_ok (prec UL)"
  shows "(\<forall>trx ts u. IsTrxTsValid trx ts \<longrightarrow>
       (u \<in> sq_users (slot_queue DL trx ts (mac_pool st)) \<longrightarrow>
          tbf_trx (mac_dl st u) = trx \<and> tbf_allocatedTs (mac_dl st u) ! nat ts) \<and>
       (u \<in> sq_users (slot_queue UL trx ts (mac_pool st)) \<longrightarrow>
          tbf_trx (mac_ul st u) = trx \<and> tbf_allocatedTs (mac_ul st u) ! nat ts)) \<and>
     (\<forall>op. mac_allowed schar prec op st \<longrightarrow> (\<exists>st'. mac_exec schar op st = Some st'))"
proof -
  have ok: "mac_ok prec st" by (rule mac_reachable_ok [OF assms])
  then have held: "held DL (mac_dl st) (mac_pool st)" "held UL (mac_ul st) (mac_pool st)" by (auto simp: mac_ok_def dir_ok_def)
  have "\<forall>op. mac_allowed schar prec op st \<longrightarrow> (\<exists>st'. mac_exec schar op st = Some st')"
    using mac_exec_ok [OF ok assms(2,3)] by blast
  then show ?thesis using held unfolding held_def slots_def by blast
qed

text \<open>
  C24: a released TBF is forgotten. In every reachable state the release of any TBF returns, leaves it no
  slot, and from then on no timeslot's queue of its direction yields it as the next TBF to send.
\<close>

theorem released_tbf_forgotten:
  assumes "mac_reachable schar prec st" "precs_ok (prec DL)" "precs_ok (prec UL)" "IsTrxTsValid trx ts"
  shows "(\<exists>st' r p. mac_exec schar (ReleaseDL u) st = Some st' \<and> slots (tbf_allocatedTs (mac_dl st' u)) = {} \<and>
       ScheduleRLCBlock DL tst trx ts (mac_pool st') = Some (r, p) \<and> r \<noteq> Some u) \<and>
    (\<exists>st' r p. mac_exec schar (ReleaseUL u) st = Some st' \<and> slots (tbf_allocatedTs (mac_ul st' u)) = {} \<and>
       ScheduleRLCBlock UL tst trx ts (mac_pool st') = Some (r, p) \<and> r \<noteq> Some u)"
proof -
  have ok: "dir_ok prec DL (mac_dl st, mac_pool st)" "dir_ok prec UL (mac_ul st, mac_pool st)"
    using mac_reachable_ok [OF assms(1-3)] by (auto simp: mac_ok_def)
  obtain h p where d: "DeallocateUser dl_branch DL u (mac_dl st, mac_pool st) = Some (h, p)" "dir_ok prec DL (h, p)"
    "slots (tbf_allocatedTs (h u)) = {}" "u \<notin> sq_users (slot_queue DL trx ts p)"
    using dl.release_kept [OF ok(1) assms(2), of u] assms(4) by blast
  obtain h' p' where u: "DeallocateUser ul_branch UL u (mac_ul st, mac_pool st) = Some (h', p')" "dir_ok prec UL (h', p')"
    "slots (tbf_allocatedTs (h' u)) = {}" "u \<notin> sq_users (slot_queue UL trx ts p')"
    using ul.release_kept [OF ok(2) assms(3), of u] assms(4) by blast
  obtain r p2 where s: "ScheduleRLCBlock DL tst trx ts p = Some (r, p2)" "r \<noteq> Some u"
    using Schedule_ok [OF _ assms(4), of prec p DL tst] d(2,4) by (auto simp: dir_ok_def)
  obtain r' p2' where s': "ScheduleRLCBlock UL tst trx ts p' = Some (r', p2')" "r' \<noteq> Some u"
    using Schedule_ok [OF _ assms(4), of prec p' UL tst] u(2,4) by (auto simp: dir_ok_def)
  have "\<exists>st' r p. mac_exec schar (ReleaseDL u) st = Some st' \<and> slots (tbf_allocatedTs (mac_dl st' u)) = {} \<and>
       ScheduleRLCBlock DL tst trx ts (mac_pool st') = Some (r, p) \<and> r \<noteq> Some u"
    using d s by (simp add: on_dl_def DLReleaseResourceRequest_def)
  moreover have "\<exists>st' r p. mac_exec schar (ReleaseUL u) st = Some st' \<and> slots (tbf_allocatedTs (mac_ul st' u)) = {} \<and>
       ScheduleRLCBlock UL tst trx ts (mac_pool st') = Some (r, p) \<and> r \<noteq> Some u"
    using u s' by (simp add: on_ul_def ULReleaseResourceRequest_def)
  ultimately show ?thesis ..
qed

text \<open>
  What a reallocation of \<open>u\<close> leaves: \<open>h\<close> are the TBFs of its direction before it, \<open>other\<close> the slots of the mobile in
  the opposite direction.
\<close>

definition realloc_left where
  "realloc_left g qos dir other u h p r \<longleftrightarrow> (case r of (status, h', p') \<Rightarrow>
     (\<forall>v. v \<noteq> u \<longrightarrow> h' v = h v) \<and> tbf_trx (h' u) = tbf_trx (h u) \<and>
     (if status then grant_ok g qos dir (tbf_trx (h' u)) (slots (tbf_allocatedTs (h' u))) other
      else tbf_allocatedTs (h' u) = tbf_allocatedTs (h u) \<and>
        (\<forall>d t s. IsTrxTsValid t s \<longrightarrow> sq_queue (slot_queue d t s p') = sq_queue (slot_queue d t s p))))"

context branch_laws begin

lemma realloc_result:
  assumes ok: "dir_ok prec dir (h, p)" "precs_ok (prec dir)" "qos_ok prec dir u raw qos" "class_ok schar qos"
    "\<forall>t. other = Some t \<longrightarrow> length (tbf_allocatedTs t) = MAX_TIMESLOTS" and trx: "IsTrxValid (tbf_trx (h u))"
  shows "\<exists>r. run_request (AllocateUserIfBetterQoS br g) schar (new_request raw qos u dir (map_option tbf_allocatedTs other)) (h, p) = Some r \<and>
     realloc_left g qos dir (opposite_slots other) u h p r"
proof -
  have q: "prec dir u = limit 1 3 (qos_PrecedenceClass qos)" "length (raw_cands raw) = MAX_MULTI_CONFIG_CANDIDATES"
    using ok(3) by (simp_all add: qos_ok_def)
  have l: "\<forall>a. map_option tbf_allocatedTs other = Some a \<longrightarrow> length a = MAX_TIMESLOTS" using ok(5) by auto
  have o: "(case map_option tbf_allocatedTs other of None \<Rightarrow> {} | Some a \<Rightarrow> slots a) = opposite_slots other"
    by (cases other) (simp_all add: opposite_slots_def)
  obtain status h' p' where "run_request (AllocateUserIfBetterQoS br g) True
      (new_request raw qos u dir (map_option tbf_allocatedTs other)) (h, p) = Some (status, h', p')"
    "(\<forall>v. v \<noteq> u \<longrightarrow> h' v = h v) \<and> tbf_trx (h' u) = tbf_trx (h u) \<and>
     (if status then grant_ok g qos dir (tbf_trx (h' u)) (slots (tbf_allocatedTs (h' u))) (opposite_slots other)
      else tbf_allocatedTs (h' u) = tbf_allocatedTs (h u) \<and> only_slots u h h' \<and>
        (\<forall>d t s. IsTrxTsValid t s \<longrightarrow> sq_queue (slot_queue d t s p') = sq_queue (slot_queue d t s p)))"
    using realloc_kept [where h = h and u = u and g = g and opp = "map_option tbf_allocatedTs other", OF ok(1,2) q l trx] unfolding o by blast
  then show ?thesis unfolding run_request_schar [OF ok(4)] realloc_left_def by (intro exI [of _ "(status, h', p')"]) auto
qed

end

text \<open>
  C25: reallocation either improves or undoes. In every state that \<open>mac_reachable\<close> describes, each of the four
  reallocations, of a downlink or an uplink TBF, alone or together with the TBF of the mobile in the other direction,
  returns. It touches no other TBF; when it succeeds the TBF has usable slots of its transceiver, with the slots of
  the other direction within the limits of its mobile, and when it fails the TBF has the slots it had and every
  schedule queue of the cell is as it was, whatever entries of whichever TBFs were moved in between.
\<close>

theorem reallocation_improves_or_undoes:
  assumes "mac_reachable schar prec st" "precs_ok (prec DL)" "precs_ok (prec UL)"
  shows "(mac_allowed schar prec (ReallocDL u g raw qos) st \<longrightarrow>
       (\<exists>r. DLResourceReallocRequest schar raw g qos u (mac_dl st, mac_pool st) = Some r \<and>
          realloc_left g qos DL {} u (mac_dl st) (mac_pool st) r)) \<and>
     (mac_allowed schar prec (ReallocDLWith u w g raw qos) st \<longrightarrow>
       (\<exists>r. DLResourceReallocRequest_with schar raw g qos u (mac_ul st w) (mac_dl st, mac_pool st) = Some r \<and>
          realloc_left g qos DL (slots (tbf_allocatedTs (mac_ul st w))) u (mac_dl st) (mac_pool st) r)) \<and>
     (mac_allowed schar prec (ReallocUL u g raw qos) st \<longrightarrow>
       (\<exists>r. ULResourceReallocRequest schar raw g qos u (mac_ul st, mac_pool st) = Some r \<and>
          realloc_left g qos UL {} u (mac_ul st) (mac_pool st) r)) \<and>
     (mac_allowed schar prec (ReallocULWith u w g raw qos) st \<longrightarrow>
       (\<exists>r. ULResourceReallocRequest_with schar raw g qos u (mac_dl st w) (mac_ul st, mac_pool st) = Some r \<and>
          realloc_left g qos UL (slots (tbf_allocatedTs (mac_dl st w))) u (mac_ul st) (mac_pool st) r))"
proof -
  have D: "dir_ok prec DL (mac_dl st, mac_pool st)" and U: "dir_ok prec UL (mac_ul st, mac_pool st)"
    using mac_reachable_ok [OF assms] by (simp_all add: mac_ok_def)
  have len: "length (tbf_allocatedTs (mac_dl st w)) = MAX_TIMESLOTS" "length (tbf_allocatedTs (mac_ul st w)) = MAX_TIMESLOTS"
    using D U tbf_okD(1) by (auto simp: dir_ok_def)
  note dl_alone = dl.realloc_result [where u = u and g = g and qos = qos and raw = raw and schar = schar and other = "None :: ULTbf option", OF D assms(2)]
  note dl_with = dl.realloc_result [where u = u and g = g and qos = qos and raw = raw and schar = schar and other = "Some (mac_ul st w)", OF D assms(2)]
  note ul_alone = ul.realloc_result [where u = u and g = g and qos = qos and raw = raw and schar = schar and other = "None :: DLTbf option", OF U assms(3)]
  note ul_with = ul.realloc_result [where u = u and g = g and qos = qos and raw = raw and schar = schar and other = "Some (mac_dl st w)", OF U assms(3)]
  show ?thesis
  proof (intro conjI impI)
    assume "mac_allowed schar prec (ReallocDL u g raw qos) st"
    then show "\<exists>r. DLResourceReallocRequest schar raw g qos u (mac_dl st, mac_pool st) = Some r \<and>
        realloc_left g qos DL {} u (mac_dl st) (mac_pool st) r"
      using dl_alone by (simp add: DLResourceReallocRequest_def opposite_slots_def)
  next
    assume "mac_allowed schar prec (ReallocDLWith u w g raw qos) st"
    then show "\<exists>r. DLResourceReallocRequest_with schar raw g qos u (mac_ul st w) (mac_dl st, mac_pool st) = Some r \<and>
        realloc_left g qos DL (slots (tbf_allocatedTs (mac_ul st w))) u (mac_dl st) (mac_pool st) r"
      using dl_with len by (simp add: DLResourceReallocRequest_with_def opposite_slots_def copy_trx_same)
  next
    assume "mac_allowed schar prec (ReallocUL u g raw qos) st"
    then show "\<exists>r. ULResourceReallocRequest schar raw g qos u (mac_ul st, mac_pool st) = Some r \<and>
        realloc_left g qos UL {} u (mac_ul st) (mac_pool st) r"
      using ul_alone by (simp add: ULResourceReallocRequest_def opposite_slots_def)
  next
    assume "mac_allowed schar prec (ReallocULWith u w g raw qos) st"
    then show "\<exists>r. ULResourceReallocRequest_with schar raw g qos u (mac_dl st w) (mac_ul st, mac_pool st) = Some r \<and>
        realloc_left g qos UL (slots (tbf_allocatedTs (mac_dl st w))) u (mac_ul st) (mac_pool st) r"
      using ul_with len by (simp add: ULResourceReallocRequest_with_def opposite_slots_def copy_trx_same)
  qed
qed

definition mac0 :: "(nat, nat) mac" where
  "mac0 = \<lparr>mac_dl = \<lambda>_. dl_tbf0, mac_ul = \<lambda>_. ul_tbf0, mac_pool = TSPool_new [1, 2, 3, 4, 5]\<rparr>"

lemma mac0_start: "mac_start mac0"
  by (auto simp: mac_start_def mac0_def no_slot_def tbf_ok_def dl_tbf0_def ul_tbf0_def slots_def)

lemma mac0_request:
  obtains st where "mac_exec False (RequestDL 0 (grr_of [5, 7]) raw0 (qos_of 3)) mac0 = Some st" "mac_reachable False (\<lambda>_ _. 1) st"
proof -
  have a: "mac_allowed False (\<lambda>_ _. 1) (RequestDL 0 (grr_of [5, 7]) raw0 (qos_of 3)) mac0"
    using mac0_start samples by (simp add: mac_start_def qos_ok_def class_ok_def qos_of_def)
  obtain st where "mac_exec False (RequestDL 0 (grr_of [5, 7]) raw0 (qos_of 3)) mac0 = Some st"
    using mac_exec_ok [OF mac_start_ok [OF mac0_start] _ _ a] samples(2) by auto
  then show ?thesis using that mac_reachable.step [OF mac_reachable.start [OF mac0_start] a] by blast
qed

theorem scheduler_names_only_holders_witness:
  "\<exists>st st'. mac_exec False (RequestDL 0 (grr_of [5, 7]) raw0 (qos_of 3)) mac0 = Some st \<and> mac_exec False (ReleaseDL 0) st = Some st'"
proof -
  obtain st where st: "mac_exec False (RequestDL 0 (grr_of [5, 7]) raw0 (qos_of 3)) mac0 = Some st" "mac_reachable False (\<lambda>_ _. 1) st"
    by (rule mac0_request)
  then show ?thesis using scheduler_names_only_holders [OF st(2)] samples(2) by (metis mac_allowed.simps(12))
qed

theorem released_tbf_forgotten_witness:
  "\<exists>st st' r p. mac_exec False (RequestDL 0 (grr_of [5, 7]) raw0 (qos_of 3)) mac0 = Some st \<and>
     mac_exec False (ReleaseDL 0) st = Some st' \<and> ScheduleRLCBlock DL (\<lambda>_. ALLOCATED) 0 5 (mac_pool st') = Some (r, p) \<and> r \<noteq> Some 0"
proof -
  obtain st where st: "mac_exec False (RequestDL 0 (grr_of [5, 7]) raw0 (qos_of 3)) mac0 = Some st" "mac_reachable False (\<lambda>_ _. 1) st"
    by (rule mac0_request)
  have v: "IsTrxTsValid 0 5" by (simp add: IsTrxTsValid_def)
  show ?thesis using released_tbf_forgotten [OF st(2) _ _ v, of 0 "\<lambda>_. ALLOCATED"] st(1) samples(2) by blast
qed

text \<open>TBFs on transceiver 0, as after a request together with the mobile's other direction.\<close>

definition mac1 :: "(nat, nat) mac" where
  "mac1 = mac0\<lparr>mac_dl := \<lambda>_. dl_tbf0\<lparr>tbf_trx := 0\<rparr>, mac_ul := \<lambda>_. ul_tbf0\<lparr>tbf_trx := 0\<rparr>\<rparr>"

theorem reallocation_improves_or_undoes_witness:
  "(\<exists>r. DLResourceReallocRequest True raw0 (grr_of [5, 7]) (qos_of 4) 0 (mac_dl mac1, mac_pool mac1) = Some r \<and>
      realloc_left (grr_of [5, 7]) (qos_of 4) DL {} 0 (mac_dl mac1) (mac_pool mac1) r) \<and>
   (\<exists>r. ULResourceReallocRequest_with True raw0 (grr_of [5, 7]) (qos_of 4) 0 (mac_dl mac1 1) (mac_ul mac1, mac_pool mac1) = Some r \<and>
      realloc_left (grr_of [5, 7]) (qos_of 4) UL (slots (tbf_allocatedTs (mac_dl mac1 1))) 0 (mac_ul mac1) (mac_pool mac1) r)"
proof -
  have "mac_start mac1"
    by (auto simp: mac_start_def mac0_def mac1_def no_slot_def tbf_ok_def dl_tbf0_def ul_tbf0_def slots_def IsTrxValid_def)
  then have r: "mac_reachable True (\<lambda>_ _. 1) mac1" by (rule mac_reachable.start)
  have "mac_allowed True (\<lambda>_ _. 1) (ReallocDL 0 (grr_of [5, 7]) raw0 (qos_of 4)) mac1"
    "mac_allowed True (\<lambda>_ _. 1) (ReallocULWith 0 1 (grr_of [5, 7]) raw0 (qos_of 4)) mac1"
    using samples by (simp_all add: qos_ok_def class_ok_def IsTrxValid_def mac1_def)
  with reallocation_improves_or_undoes [OF r, of 0 "grr_of [5, 7]" raw0 "qos_of 4" 1] samples(2) show ?thesis by blast
qed

end
