(* ===== verification/DoublyLinked.thy ===== *)
theory DoublyLinked
  imports RlcPrelude
begin

text \<open>
  Doubly linked lists in a store: nodes are addresses, \<open>nx\<close> and \<open>pv\<close> their link fields.  \<open>dlinked\<close> says that
  head, tail and links represent a list of nodes.  There is one rule for each of the pointer manipulations
  that the program's queues use: appending a node, taking the first, moving a node to the end.
\<close>

fun first_of :: "'n list \<Rightarrow> 'n option \<Rightarrow> 'n option" where
  "first_of [] d = d"
| "first_of (x # xs) d = Some x"

fun last_of :: "'n option \<Rightarrow> 'n list \<Rightarrow> 'n option" where
  "last_of d [] = d"
| "last_of d (x # xs) = last_of (Some x) xs"

fun dlseg :: "('n \<Rightarrow> 'n option) \<Rightarrow> ('n \<Rightarrow> 'n option) \<Rightarrow> 'n option \<Rightarrow> 'n list \<Rightarrow> 'n option \<Rightarrow> bool" where
  "dlseg nx pv before [] after = True"
| "dlseg nx pv before (x # xs) after \<longleftrightarrow>
     pv x = before \<and> nx x = first_of xs after \<and> dlseg nx pv (Some x) xs after"

definition dlinked :: "('n \<Rightarrow> 'n option) \<Rightarrow> ('n \<Rightarrow> 'n option) \<Rightarrow> 'n option \<Rightarrow> 'n option \<Rightarrow> 'n list \<Rightarrow> bool" where
  "dlinked nx pv h t xs \<longleftrightarrow>
     distinct xs \<and> h = first_of xs None \<and> t = last_of None xs \<and> dlseg nx pv None xs None"

section \<open>Segments\<close>

lemma first_of_append [simp]: "first_of (xs @ ys) d = first_of xs (first_of ys d)"
  by (cases xs) simp_all

lemma last_of_append [simp]: "last_of d (xs @ ys) = last_of (last_of d xs) ys"
  by (induction d xs rule: last_of.induct) simp_all

lemma first_of_Some [simp]: "xs \<noteq> [] \<Longrightarrow> first_of xs d = Some (hd xs)"
  by (cases xs) simp_all

lemma last_of_Some [simp]: "xs \<noteq> [] \<Longrightarrow> last_of d xs = Some (last xs)"
  by (induction d xs rule: last_of.induct) (auto split: if_splits)

lemma dlseg_append [simp]:
  "dlseg nx pv b (xs @ ys) a \<longleftrightarrow> dlseg nx pv b xs (first_of ys a) \<and> dlseg nx pv (last_of b xs) ys a"
  by (induction xs arbitrary: b) auto

lemma dlseg_cong:
  assumes "\<forall>x \<in> set xs. nx' x = nx x" "\<forall>x \<in> set xs. pv' x = pv x"
  shows "dlseg nx' pv' b xs a = dlseg nx pv b xs a"
  using assms by (induction xs arbitrary: b) auto

text \<open>A segment whose last node is linked to another successor, or its first to another predecessor.\<close>

lemma dlseg_after:
  assumes "dlseg nx pv b xs a" "\<forall>x \<in> set xs. pv' x = pv x" "\<forall>x \<in> set xs. Some x \<noteq> last_of None xs \<longrightarrow> nx' x = nx x"
    "\<forall>x. last_of None xs = Some x \<longrightarrow> nx' x = a'" "distinct xs"
  shows "dlseg nx' pv' b xs a'"
  using assms
proof (induction xs arbitrary: b)
  case (Cons x xs)
  show ?case
  proof (cases "xs = []")
    case False
    then have l: "last_of None xs = last_of (Some x) xs" "x \<noteq> last xs" using Cons.prems(5) by auto
    have "dlseg nx' pv' (Some x) xs a'" using Cons.IH [of "Some x"] Cons.prems False by auto
    moreover have "nx' x = nx x" using Cons.prems(3) l False by simp
    ultimately show ?thesis using Cons.prems(1,2) False by simp
  qed (use Cons.prems in auto)
qed simp

lemma dlseg_before:
  assumes "dlseg nx pv b xs a" "\<forall>x \<in> set xs. nx' x = nx x" "\<forall>x \<in> set (tl xs). pv' x = pv x" "xs \<noteq> [] \<longrightarrow> pv' (hd xs) = b'"
  shows "dlseg nx' pv' b' xs a"
  using assms by (cases xs) (auto simp: dlseg_cong [of _ nx' nx pv' pv])

section \<open>The pointer manipulations\<close>

lemma dlinked_Nil [simp]: "dlinked nx pv h t [] \<longleftrightarrow> h = None \<and> t = None"
  by (auto simp: dlinked_def)

lemma dlinked_head: "dlinked nx pv h t xs \<Longrightarrow> h = first_of xs None"
  and dlinked_tail: "dlinked nx pv h t xs \<Longrightarrow> t = last_of None xs"
  and dlinked_distinct: "dlinked nx pv h t xs \<Longrightarrow> distinct xs"
  by (simp_all add: dlinked_def)

lemma dlinked_cong:
  assumes "\<forall>x \<in> set xs. nx' x = nx x" "\<forall>x \<in> set xs. pv' x = pv x"
  shows "dlinked nx' pv' h t xs = dlinked nx pv h t xs"
  using dlseg_cong [OF assms] by (simp add: dlinked_def)

lemma dlinked_nth_next:
  assumes "dlinked nx pv h t (xs @ x # ys)"
  shows "nx x = first_of ys None" "pv x = last_of None xs"
  using assms by (simp_all add: dlinked_def)

lemma dlinked_append:
  assumes "dlinked nx pv h t xs" "x \<notin> set xs"
    "\<forall>y \<in> set xs. pv' y = pv y" "\<forall>y \<in> set xs. Some y \<noteq> t \<longrightarrow> nx' y = nx y" "\<forall>y. t = Some y \<longrightarrow> nx' y = Some x"
    "nx' x = None" "pv' x = t"
  shows "dlinked nx' pv' (if t = None then Some x else h) (Some x) (xs @ [x])"
proof -
  have t: "t = last_of None xs" "h = first_of xs None" "distinct xs" "dlseg nx pv None xs None" using assms(1) by (auto simp: dlinked_def)
  have "dlseg nx' pv' None xs (Some x)"
    by (rule dlseg_after [OF t(4) assms(3)]) (use assms(4,5) t in auto)
  moreover have "(if t = None then Some x else h) = first_of (xs @ [x]) None" using t by (cases "xs = []") auto
  ultimately show ?thesis using assms(2,6,7) t by (simp add: dlinked_def)
qed

lemma dlinked_pop:
  assumes "dlinked nx pv h t (x # xs)"
    "\<forall>y \<in> set xs. nx' y = nx y" "\<forall>y \<in> set (tl xs). pv' y = pv y" "xs \<noteq> [] \<longrightarrow> pv' (hd xs) = None"
  shows "dlinked nx' pv' (nx x) (if nx x = None then None else t) xs"
proof -
  have "distinct (x # xs)" "t = last_of (Some x) xs" "nx x = first_of xs None" "dlseg nx pv (Some x) xs None"
    using assms(1) by (auto simp: dlinked_def)
  then show ?thesis
    using dlseg_before [OF \<open>dlseg nx pv (Some x) xs None\<close> assms(2-4)] by (cases "xs = []") (simp_all add: dlinked_def)
qed

lemma dlinked_remove:
  assumes "dlinked nx pv h t (xs @ x # ys)"
    "\<forall>y \<in> set (xs @ ys). Some y \<noteq> last_of None xs \<longrightarrow> nx' y = nx y" "\<forall>y. last_of None xs = Some y \<longrightarrow> nx' y = nx x"
    "\<forall>y \<in> set (xs @ ys). Some y \<noteq> first_of ys None \<longrightarrow> pv' y = pv y" "\<forall>y. first_of ys None = Some y \<longrightarrow> pv' y = pv x"
  shows "dlinked nx' pv' (first_of (xs @ ys) None) (last_of None (xs @ ys)) (xs @ ys)"
proof -
  have d: "distinct (xs @ x # ys)" "dlseg nx pv None xs (Some x)" "nx x = first_of ys None" "pv x = last_of None xs"
    "dlseg nx pv (Some x) ys None" using assms(1) by (auto simp: dlinked_def)
  have fy: "first_of ys None = Some y \<Longrightarrow> y \<in> set ys" for y by (cases ys) auto
  have lx: "last_of None xs = Some y \<Longrightarrow> y \<in> set xs" for y by (cases "xs = []") auto
  have nfy: "\<forall>y \<in> set xs. first_of ys None \<noteq> Some y" using fy d(1) by fastforce
  have "dlseg nx' pv' None xs (first_of ys None)"
    by (rule dlseg_after [OF d(2)]) (use assms(2-4) d(1,3) nfy in auto)
  moreover have "dlseg nx' pv' (last_of None xs) ys None"
  proof (rule dlseg_before [OF d(5)])
    have "\<forall>y \<in> set ys. last_of None xs \<noteq> Some y" using lx d(1) by fastforce
    then show "\<forall>y \<in> set ys. nx' y = nx y" using assms(2) by auto
    have "\<forall>y \<in> set (tl ys). Some y \<noteq> first_of ys None \<and> y \<in> set ys" using d(1) by (cases ys) auto
    then show "\<forall>y \<in> set (tl ys). pv' y = pv y" using assms(4) by (simp add: ball_Un)
    show "ys \<noteq> [] \<longrightarrow> pv' (hd ys) = last_of None xs" using assms(5) d(4) by simp
  qed
  ultimately show ?thesis using d(1) by (auto simp: dlinked_def)
qed

end
