(* ===== verification/UnitDataQueue.thy ===== *)
theory UnitDataQueue
  imports DoublyLinked "HOL-Library.Monad_Syntax"
begin

text \<open>
  The queues of downlink PDUs between BSSGP and the RLC/MAC task, \<^verbatim>\<open>bssgp/src_api/bssgp_unitdata.cpp\<close>: for
  each TLLI a node with one list of buffers per quality of service level, the nodes in a list of their own.
  Nodes and buffers come from pools allocated once; the address of an entry is its index in the pool, so
  that the checks of magic number and index in the functions that return an entry hold for each of them.
\<close>

section \<open>Data\<close>

abbreviation (input) BSSGP_MAX_NETWORK_QOS_LEVELS :: nat where "BSSGP_MAX_NETWORK_QOS_LEVELS \<equiv> 4"
abbreviation (input) tlli_low_watermark_bytes :: "32 word" where "tlli_low_watermark_bytes \<equiv> 8092"
abbreviation (input) tlli_high_watermark_bytes :: "32 word" where "tlli_high_watermark_bytes \<equiv> 10240"

text \<open>
  The message as far as the queues look at it: the TLLI, the PDU in its receive buffer, and the rest.
\<close>

record 'd DlUnitData =
  um_tlli :: "32 word"
  um_pdu_data :: nat
  um_pdu_data_len :: "32 word"
  um_rest :: 'd

record 'd UdtBuffer =
  ub_prev :: "nat option"
  ub_next :: "nat option"
  ub_data_size :: "32 word"
  ub_dl_unitdata :: "'d DlUnitData"
  ub_data :: nat

record QosQueue =
  qq_buff_count :: "32 word"
  qq_rx_bytes :: "32 word"
  qq_head :: "nat option"
  qq_tail :: "nat option"

record TlliQueue =
  tq_prev :: "nat option"
  tq_next :: "nat option"
  tq_tlli :: "32 word"
  tq_buff_count :: "32 word"
  tq_rx_bytes :: "32 word"
  tq_high_watermark_indicated :: bool
  tq_qos :: "QosQueue list"

text \<open>
  \<open>bssgp_udt_config\<close> with everything it points to; \<open>cf_watermark_cb\<close> says whether there is a callback.  The
  messages for the RLC/MAC task and the calls of the callback are collected in \<open>cf_out\<close>.
\<close>

datatype 'd udt_event =
    RlcMacBssgpUnitDataRequest "'d DlUnitData"
  | WatermarkCb "32 word" "32 word" "32 word" bool

record 'd UdtConfig =
  cf_tlli_q_head :: "nat option"
  cf_tlli_q_tail :: "nat option"
  cf_tlli :: "nat \<Rightarrow> TlliQueue"
  cf_tlli_used :: "bool list"
  cf_buff :: "nat \<Rightarrow> 'd UdtBuffer"
  cf_buff_used :: "bool list"
  cf_watermark_cb :: bool
  cf_out :: "'d udt_event list"

definition qos_at :: "nat \<Rightarrow> nat \<Rightarrow> 'd UdtConfig \<Rightarrow> QosQueue" where
  "qos_at q l c = tq_qos (cf_tlli c q) ! l"

definition upd_tlli :: "nat \<Rightarrow> (TlliQueue \<Rightarrow> TlliQueue) \<Rightarrow> 'd UdtConfig \<Rightarrow> 'd UdtConfig" where
  "upd_tlli q f c = c\<lparr>cf_tlli := (cf_tlli c)(q := f (cf_tlli c q))\<rparr>"

definition upd_qos :: "nat \<Rightarrow> nat \<Rightarrow> (QosQueue \<Rightarrow> QosQueue) \<Rightarrow> 'd UdtConfig \<Rightarrow> 'd UdtConfig" where
  "upd_qos q l f = upd_tlli q (\<lambda>t. t\<lparr>tq_qos := (tq_qos t)[l := f (tq_qos t ! l)]\<rparr>)"

definition upd_buff :: "nat \<Rightarrow> ('d UdtBuffer \<Rightarrow> 'd UdtBuffer) \<Rightarrow> 'd UdtConfig \<Rightarrow> 'd UdtConfig" where
  "upd_buff b f c = c\<lparr>cf_buff := (cf_buff c)(b := f (cf_buff c b))\<rparr>"

definition udt_emit :: "'d udt_event \<Rightarrow> 'd UdtConfig \<Rightarrow> 'd UdtConfig" where
  "udt_emit e c = c\<lparr>cf_out := cf_out c @ [e]\<rparr>"

section \<open>The pools\<close>

definition empty_qos :: QosQueue where
  "empty_qos = \<lparr>qq_buff_count = 0, qq_rx_bytes = 0, qq_head = None, qq_tail = None\<rparr>"

definition empty_tlli :: TlliQueue where
  "empty_tlli = \<lparr>tq_prev = None, tq_next = None, tq_tlli = 0, tq_buff_count = 0, tq_rx_bytes = 0,
     tq_high_watermark_indicated = False, tq_qos = replicate BSSGP_MAX_NETWORK_QOS_LEVELS empty_qos\<rparr>"

text \<open>
  \<open>bssgp_udt_initialize\<close> with the two pools, when \<open>malloc\<close> never fails; \<open>z\<close> is a buffer set to zero.
\<close>

definition bssgp_udt_initialize :: "nat \<Rightarrow> nat \<Rightarrow> bool \<Rightarrow> 'd UdtBuffer \<Rightarrow> 'd UdtConfig" where
  "bssgp_udt_initialize tlli_list_count bssgp_udt_buffer_count watermark_cb z =
     \<lparr>cf_tlli_q_head = None, cf_tlli_q_tail = None, cf_tlli = \<lambda>_. empty_tlli,
      cf_tlli_used = replicate tlli_list_count False, cf_buff = \<lambda>_. z,
      cf_buff_used = replicate bssgp_udt_buffer_count False, cf_watermark_cb = watermark_cb, cf_out = []\<rparr>"

fun first_unused :: "bool list \<Rightarrow> nat option" where
  "first_unused [] = None"
| "first_unused (u # us) = (if u = False then Some 0 else map_option Suc (first_unused us))"

definition bssgp_udt_get_buff_from_pool :: "'d UdtConfig \<Rightarrow> nat option \<times> 'd UdtConfig" where
  "bssgp_udt_get_buff_from_pool c =
     (case first_unused (cf_buff_used c) of
        None \<Rightarrow> (None, c)
      | Some b \<Rightarrow> (Some b, c\<lparr>cf_buff_used := (cf_buff_used c)[b := True]\<rparr>))"

definition bssgp_udt_return_buff_to_pool :: "nat \<Rightarrow> 'd UdtConfig \<Rightarrow> 'd UdtConfig" where
  "bssgp_udt_return_buff_to_pool b c =
     (if b \<ge> length (cf_buff_used c) then c else c\<lparr>cf_buff_used := (cf_buff_used c)[b := False]\<rparr>)"

definition bssgp_udt_get_tlli_list_from_pool :: "'d UdtConfig \<Rightarrow> nat option \<times> 'd UdtConfig" where
  "bssgp_udt_get_tlli_list_from_pool c =
     (case first_unused (cf_tlli_used c) of
        None \<Rightarrow> (None, c)
      | Some q \<Rightarrow> (Some q, c\<lparr>cf_tlli_used := (cf_tlli_used c)[q := True]\<rparr>))"

section \<open>Queueing a PDU\<close>

text \<open>\<open>while ((tlli_q->next != NULL) && (tlli_q->tlli != tlli))\<close>; an endless loop is \<open>None\<close>.\<close>

partial_function (option) find_tlli :: "'d UdtConfig \<Rightarrow> 32 word \<Rightarrow> nat \<Rightarrow> nat option" where
  "find_tlli c tlli q =
     (if tq_tlli (cf_tlli c q) \<noteq> tlli
      then case tq_next (cf_tlli c q) of None \<Rightarrow> Some q | Some q' \<Rightarrow> find_tlli c tlli q'
      else Some q)"

text \<open>The buffer becomes head and tail of a list that was empty, and the RLC/MAC task hears of it.\<close>

definition first_buffer :: "nat \<Rightarrow> nat \<Rightarrow> nat \<Rightarrow> 'd DlUnitData \<Rightarrow> 'd UdtConfig \<Rightarrow> 'd UdtConfig" where
  "first_buffer q l b msg c = udt_emit (RlcMacBssgpUnitDataRequest msg)
     (upd_buff b (\<lambda>u. u\<lparr>ub_prev := None, ub_next := None\<rparr>)
        (upd_qos q l (\<lambda>s. s\<lparr>qq_head := Some b, qq_tail := Some b\<rparr>) c))"

definition next_buffer :: "nat \<Rightarrow> nat \<Rightarrow> nat \<Rightarrow> 'd UdtConfig \<Rightarrow> 'd UdtConfig option" where
  "next_buffer q l b c = do {
     t \<leftarrow> qq_tail (qos_at q l c);
     let c1 = upd_buff b (\<lambda>u. u\<lparr>ub_prev := Some t\<rparr>) c;
     let c2 = upd_buff t (\<lambda>u. u\<lparr>ub_next := Some b\<rparr>) c1;
     let c3 = upd_buff b (\<lambda>u. u\<lparr>ub_next := None\<rparr>) c2;
     Some (upd_qos q l (\<lambda>s. s\<lparr>qq_tail := Some b\<rparr>) c3)
   }"

definition count_buffer :: "nat \<Rightarrow> nat \<Rightarrow> 32 word \<Rightarrow> 'd UdtConfig \<Rightarrow> 'd UdtConfig" where
  "count_buffer q l buff_size c =
     (let c1 = upd_qos q l (\<lambda>s. s\<lparr>qq_buff_count := qq_buff_count s + 1, qq_rx_bytes := qq_rx_bytes s + buff_size\<rparr>) c;
          c2 = upd_tlli q (\<lambda>t. t\<lparr>tq_buff_count := tq_buff_count t + 1, tq_rx_bytes := tq_rx_bytes t + buff_size\<rparr>) c1;
          t = cf_tlli c2 q
      in if tq_rx_bytes t \<ge> tlli_high_watermark_bytes
         then (if cf_watermark_cb c2 then udt_emit (WatermarkCb (tq_tlli t) (tq_rx_bytes t) (tq_buff_count t) True) else id)
           (upd_tlli q (\<lambda>t. t\<lparr>tq_high_watermark_indicated := True\<rparr>) c2)
         else c2)"

definition bssgp_udt_put_buffer_in_q ::
  "32 word \<Rightarrow> nat \<Rightarrow> nat \<Rightarrow> 32 word \<Rightarrow> 'd DlUnitData \<Rightarrow> 'd UdtConfig \<Rightarrow> (bool \<times> 'd UdtConfig) option" where
  "bssgp_udt_put_buffer_in_q tlli l buff buff_size msg c0 =
     (case bssgp_udt_get_buff_from_pool c0 of
        (None, c) \<Rightarrow> Some (False, c)
      | (Some b, c1) \<Rightarrow>
          let c = upd_buff b (\<lambda>u. u\<lparr>ub_data := buff, ub_data_size := buff_size,
                ub_dl_unitdata := msg\<lparr>um_pdu_data := buff, um_pdu_data_len := buff_size\<rparr>\<rparr>) c1
          in case cf_tlli_q_head c of
            None \<Rightarrow>
              (case bssgp_udt_get_tlli_list_from_pool c of
                 (None, c2) \<Rightarrow> Some (False, bssgp_udt_return_buff_to_pool b c2)
               | (Some q, c2) \<Rightarrow>
                   let c3 = c2\<lparr>cf_tlli_q_head := Some q, cf_tlli_q_tail := Some q\<rparr>;
                       c4 = upd_tlli q (\<lambda>t. t\<lparr>tq_prev := None, tq_next := None, tq_tlli := tlli\<rparr>) c3
                   in Some (True, count_buffer q l buff_size (first_buffer q l b msg c4)))
          | Some h \<Rightarrow> do {
              q \<leftarrow> find_tlli c tlli h;
              if tq_tlli (cf_tlli c q) = tlli then
                if tq_high_watermark_indicated (cf_tlli c q) \<and> \<not> cf_watermark_cb c
                then Some (False, bssgp_udt_return_buff_to_pool b c)
                else if qq_head (qos_at q l c) = None
                then Some (True, count_buffer q l buff_size (first_buffer q l b msg c))
                else do { c2 \<leftarrow> next_buffer q l b c; Some (True, count_buffer q l buff_size c2) }
              else if tq_next (cf_tlli c q) = None then
                (case bssgp_udt_get_tlli_list_from_pool c of
                   (None, c2) \<Rightarrow> Some (False, bssgp_udt_return_buff_to_pool b c2)
                 | (Some q', c2) \<Rightarrow> do {
                     let c3 = upd_tlli q' (\<lambda>t. t\<lparr>tq_prev := cf_tlli_q_tail c2\<rparr>) c2;
                     t \<leftarrow> cf_tlli_q_tail c3;
                     let c4 = upd_tlli t (\<lambda>t. t\<lparr>tq_next := Some q'\<rparr>) c3;
                     let c5 = upd_tlli q' (\<lambda>t. t\<lparr>tq_next := None\<rparr>) c4;
                     let c6 = upd_tlli q' (\<lambda>t. t\<lparr>tq_tlli := tlli\<rparr>) (c5\<lparr>cf_tlli_q_tail := Some q'\<rparr>);
                     Some (True, count_buffer q' l buff_size (first_buffer q' l b msg c6))
                   })
              else Some (True, count_buffer q l buff_size c)
            })"

section \<open>Taking a PDU\<close>

text \<open>
  The code that three functions repeat once they have found a list at \<open>l\<close> with a buffer at its head.
  \<open>clears\<close>: only \<open>bssgp_udt_get_buff_by_tlli\<close> clears \<open>high_watermark_indicated\<close>.
\<close>

definition unlink_first :: "nat \<Rightarrow> nat \<Rightarrow> nat \<Rightarrow> 'd UdtConfig \<Rightarrow> 'd UdtConfig" where
  "unlink_first q l b c =
     (case ub_next (cf_buff c b) of
        Some n \<Rightarrow> upd_buff n (\<lambda>u. u\<lparr>ub_prev := None\<rparr>) (upd_qos q l (\<lambda>s. s\<lparr>qq_head := Some n\<rparr>) c)
      | None \<Rightarrow> upd_qos q l (\<lambda>s. s\<lparr>qq_head := None, qq_tail := None\<rparr>) c)"

definition uncount_buffer :: "bool \<Rightarrow> nat \<Rightarrow> nat \<Rightarrow> 32 word \<Rightarrow> 'd UdtConfig \<Rightarrow> 'd UdtConfig" where
  "uncount_buffer clears q l sz c =
     (let c1 = upd_qos q l (\<lambda>s. s\<lparr>qq_buff_count := qq_buff_count s - 1, qq_rx_bytes := qq_rx_bytes s - sz\<rparr>) c;
          c2 = upd_tlli q (\<lambda>t. t\<lparr>tq_buff_count := tq_buff_count t - 1, tq_rx_bytes := tq_rx_bytes t - sz\<rparr>) c1;
          t = cf_tlli c2 q
      in if tq_rx_bytes t \<le> tlli_low_watermark_bytes \<and> tq_high_watermark_indicated t
         then (if clears then upd_tlli q (\<lambda>t. t\<lparr>tq_high_watermark_indicated := False\<rparr>) else id)
           ((if cf_watermark_cb c2 then udt_emit (WatermarkCb (tq_tlli t) (tq_rx_bytes t) (tq_buff_count t) False) else id) c2)
         else c2)"

definition take_first :: "bool \<Rightarrow> nat \<Rightarrow> nat \<Rightarrow> nat \<Rightarrow> 'd UdtConfig \<Rightarrow> (nat \<times> 'd DlUnitData) \<times> 'd UdtConfig" where
  "take_first clears q l b c =
     (let c1 = unlink_first q l b c; u = cf_buff c1 b
      in ((ub_data u, ub_dl_unitdata u),
          bssgp_udt_return_buff_to_pool b (uncount_buffer clears q l (ub_data_size u) c1)))"

text \<open>The first level from \<open>l\<close> on with a positive count.\<close>

definition first_level :: "nat \<Rightarrow> 'd UdtConfig \<Rightarrow> nat option" where
  "first_level q c = find (\<lambda>l. qq_buff_count (qos_at q l c) \<noteq> 0) [0..<BSSGP_MAX_NETWORK_QOS_LEVELS]"

definition take_level :: "nat option \<Rightarrow> nat \<Rightarrow> 'd UdtConfig \<Rightarrow> (nat \<times> 'd DlUnitData) option \<times> 'd UdtConfig" where
  "take_level lo q c =
     (case lo of None \<Rightarrow> (None, c)
      | Some l \<Rightarrow>
          (case qq_head (qos_at q l c) of None \<Rightarrow> (None, c)
           | Some b \<Rightarrow> (case take_first True q l b c of (r, c') \<Rightarrow> (Some r, c'))))"

definition bssgp_udt_get_buff_by_tlli ::
  "32 word \<Rightarrow> 'd UdtConfig \<Rightarrow> ((nat \<times> 'd DlUnitData) option \<times> 'd UdtConfig) option" where
  "bssgp_udt_get_buff_by_tlli tlli c =
     (case cf_tlli_q_head c of None \<Rightarrow> Some (None, c)
      | Some h \<Rightarrow> do {
          q \<leftarrow> find_tlli c tlli h;
          Some (if tq_tlli (cf_tlli c q) = tlli \<and> tq_buff_count (cf_tlli c q) \<noteq> 0
            then take_level (first_level q c) q c else (None, c))
        })"

definition bssgp_udt_get_buff_by_tlli_qos ::
  "32 word \<Rightarrow> nat \<Rightarrow> 'd UdtConfig \<Rightarrow> ((nat \<times> 'd DlUnitData) option \<times> 'd UdtConfig) option" where
  "bssgp_udt_get_buff_by_tlli_qos tlli l c =
     (case cf_tlli_q_head c of None \<Rightarrow> Some (None, c)
      | Some h \<Rightarrow> do {
          q \<leftarrow> find_tlli c tlli h;
          Some (if tq_tlli (cf_tlli c q) = tlli \<and> tq_buff_count (cf_tlli c q) \<noteq> 0 \<and>
                qq_buff_count (qos_at q l c) \<noteq> 0
            then case qq_head (qos_at q l c) of None \<Rightarrow> (None, c)
              | Some b \<Rightarrow> (case take_first False q l b c of (r, c') \<Rightarrow> (Some r, c'))
            else (None, c))
        })"

text \<open>The node moves to the end of the list, so that the other TLLIs come first next time.\<close>

definition to_end :: "nat \<Rightarrow> 'd UdtConfig \<Rightarrow> 'd UdtConfig option" where
  "to_end q c =
     (if Some q \<noteq> cf_tlli_q_head c \<and> Some q \<noteq> cf_tlli_q_tail c then do {
        p \<leftarrow> tq_prev (cf_tlli c q);
        let c1 = upd_tlli p (\<lambda>t. t\<lparr>tq_next := tq_next (cf_tlli c q)\<rparr>) c;
        n \<leftarrow> tq_next (cf_tlli c1 q);
        let c2 = upd_tlli n (\<lambda>t. t\<lparr>tq_prev := tq_prev (cf_tlli c1 q)\<rparr>) c1;
        let c3 = upd_tlli q (\<lambda>t. t\<lparr>tq_prev := cf_tlli_q_tail c2\<rparr>) c2;
        e \<leftarrow> cf_tlli_q_tail c3;
        let c4 = upd_tlli e (\<lambda>t. t\<lparr>tq_next := Some q\<rparr>) c3;
        let c5 = upd_tlli q (\<lambda>t. t\<lparr>tq_next := None\<rparr>) c4;
        Some (c5\<lparr>cf_tlli_q_tail := Some q\<rparr>)
      }
      else if Some q = cf_tlli_q_head c \<and> Some q \<noteq> cf_tlli_q_tail c then do {
        let c1 = c\<lparr>cf_tlli_q_head := tq_next (cf_tlli c q)\<rparr>;
        h \<leftarrow> cf_tlli_q_head c1;
        let c2 = upd_tlli h (\<lambda>t. t\<lparr>tq_prev := None\<rparr>) c1;
        let c3 = upd_tlli q (\<lambda>t. t\<lparr>tq_prev := cf_tlli_q_tail c2\<rparr>) c2;
        e \<leftarrow> cf_tlli_q_tail c3;
        let c4 = upd_tlli e (\<lambda>t. t\<lparr>tq_next := Some q\<rparr>) c3;
        Some (upd_tlli q (\<lambda>t. t\<lparr>tq_next := None\<rparr>) (c4\<lparr>cf_tlli_q_tail := Some q\<rparr>))
      }
      else Some c)"

definition has_level :: "nat \<Rightarrow> nat \<Rightarrow> 'd UdtConfig \<Rightarrow> bool" where
  "has_level q l c \<longleftrightarrow> tq_buff_count (cf_tlli c q) \<noteq> 0 \<and> qq_buff_count (qos_at q l c) \<noteq> 0"

text \<open>The loop of \<open>bssgp_udt_get_buff_by_qos\<close> ends at the last node, without looking at it.\<close>

partial_function (option) get_loop :: "nat \<Rightarrow> 'd UdtConfig \<Rightarrow> nat \<Rightarrow> ((nat \<times> 'd DlUnitData) option \<times> 'd UdtConfig) option" where
  "get_loop l c q =
     (case tq_next (cf_tlli c q) of None \<Rightarrow> Some (None, c)
      | Some n \<Rightarrow>
          if has_level q l c
          then (case qq_head (qos_at q l c) of None \<Rightarrow> Some (None, c)
             | Some b \<Rightarrow> (case take_first False q l b c of (r, c') \<Rightarrow> map_option (Pair (Some r)) (to_end q c')))
          else get_loop l c n)"

definition bssgp_udt_get_buff_by_qos ::
  "nat \<Rightarrow> 'd UdtConfig \<Rightarrow> ((nat \<times> 'd DlUnitData) option \<times> 'd UdtConfig) option" where
  "bssgp_udt_get_buff_by_qos l c =
     (case cf_tlli_q_head c of None \<Rightarrow> Some (None, c) | Some h \<Rightarrow> get_loop l c h)"

section \<open>Looking for a PDU\<close>

text \<open>
  The functions return a pointer to the message inside the buffer: the address of the buffer.  In
  \<open>bssgp_udt_check_buff_by_qos\<close> the head of the list is not tested.
\<close>

definition bssgp_udt_check_buff_by_tlli :: "32 word \<Rightarrow> 'd UdtConfig \<Rightarrow> nat option option" where
  "bssgp_udt_check_buff_by_tlli tlli c =
     (case cf_tlli_q_head c of None \<Rightarrow> Some None
      | Some h \<Rightarrow> do {
          q \<leftarrow> find_tlli c tlli h;
          Some (if tq_tlli (cf_tlli c q) = tlli \<and> tq_buff_count (cf_tlli c q) \<noteq> 0
            then case first_level q c of None \<Rightarrow> None | Some l \<Rightarrow> qq_head (qos_at q l c)
            else None)
        })"

partial_function (option) check_loop :: "nat \<Rightarrow> 'd UdtConfig \<Rightarrow> nat \<Rightarrow> (nat option \<times> 'd UdtConfig) option" where
  "check_loop l c q =
     (if has_level q l c
      then do { c' \<leftarrow> to_end q c; b \<leftarrow> qq_head (qos_at q l c'); Some (Some b, c') }
      else case tq_next (cf_tlli c q) of None \<Rightarrow> Some (None, c) | Some n \<Rightarrow> check_loop l c n)"

definition bssgp_udt_check_buff_by_qos :: "nat \<Rightarrow> 'd UdtConfig \<Rightarrow> (nat option \<times> 'd UdtConfig) option" where
  "bssgp_udt_check_buff_by_qos l c =
     (case cf_tlli_q_head c of None \<Rightarrow> Some (None, c) | Some h \<Rightarrow> check_loop l c h)"

section \<open>Discarding PDUs\<close>

text \<open>
  \<open>bssgp_udt_free_qos_list_buffs\<close>: after the loop the last buffer's predecessor is read, not the buffer.
  The result has the queue, the bytes and the buffers freed.
\<close>

partial_function (option) free_loop ::
  "nat \<Rightarrow> QosQueue \<times> 32 word \<times> 32 word \<times> 'd UdtConfig \<Rightarrow> (nat \<times> QosQueue \<times> 32 word \<times> 32 word \<times> 'd UdtConfig) option" where
  "free_loop b x =
     (case x of (s, bytes, buffs, c) \<Rightarrow>
        case ub_next (cf_buff c b) of
          None \<Rightarrow> Some (b, x)
        | Some n \<Rightarrow> do {
            p \<leftarrow> ub_prev (cf_buff c n);
            let sz = ub_data_size (cf_buff c p);
            free_loop n (s\<lparr>qq_rx_bytes := qq_rx_bytes s - sz, qq_buff_count := qq_buff_count s - 1\<rparr>, bytes + sz, buffs + 1,
              bssgp_udt_return_buff_to_pool p c)
          })"

definition bssgp_udt_free_qos_list_buffs ::
  "QosQueue \<Rightarrow> 'd UdtConfig \<Rightarrow> (QosQueue \<times> 32 word \<times> 32 word \<times> 'd UdtConfig) option" where
  "bssgp_udt_free_qos_list_buffs s0 c0 = do {
     h \<leftarrow> qq_head s0;
     (b, s, bytes, buffs, c) \<leftarrow> free_loop h (s0, 0, 0, c0);
     p \<leftarrow> ub_prev (cf_buff c b);
     let sz = ub_data_size (cf_buff c p);
     Some (s\<lparr>qq_rx_bytes := qq_rx_bytes s - sz, qq_buff_count := qq_buff_count s - 1, qq_head := None, qq_tail := None\<rparr>,
       bytes + sz, buffs + 1, bssgp_udt_return_buff_to_pool b c)
   }"

fun flush_levels :: "nat \<Rightarrow> nat list \<Rightarrow> 'd UdtConfig \<Rightarrow> 'd UdtConfig option" where
  "flush_levels q [] c = Some c"
| "flush_levels q (l # ls) c =
     (if qq_buff_count (qos_at q l c) \<noteq> 0 then do {
        (s, bytes, buffs, c1) \<leftarrow> bssgp_udt_free_qos_list_buffs (qos_at q l c) c;
        let c2 = upd_qos q l (\<lambda>_. s) c1;
        flush_levels q ls
          (upd_tlli q (\<lambda>t. t\<lparr>tq_buff_count := tq_buff_count t - buffs, tq_rx_bytes := tq_rx_bytes t - bytes\<rparr>) c2)
      }
      else flush_levels q ls c)"

text \<open>
  After the loop over the levels \<open>bssgp_udt_flush_tlli\<close> reads \<open>qos_queues[count]\<close>, where \<open>count\<close> is the
  number of levels: behind the array.
\<close>

definition bssgp_udt_flush_tlli :: "32 word \<Rightarrow> 'd UdtConfig \<Rightarrow> 'd UdtConfig option" where
  "bssgp_udt_flush_tlli tlli c =
     (case cf_tlli_q_head c of None \<Rightarrow> Some c
      | Some h \<Rightarrow> do {
          q \<leftarrow> find_tlli c tlli h;
          if tq_tlli (cf_tlli c q) = tlli \<and> tq_buff_count (cf_tlli c q) \<noteq> 0 then do {
            c' \<leftarrow> flush_levels q [0..<BSSGP_MAX_NETWORK_QOS_LEVELS] c;
            if BSSGP_MAX_NETWORK_QOS_LEVELS < length (tq_qos (cf_tlli c' q)) then Some c' else None
          }
          else Some c
        })"

end
