(* ===== verification/UnitDataLists.thy ===== *)
theory UnitDataLists
  imports UnitDataQueue "HOL-Library.Multiset"
begin

text \<open>
  The pointer structure of \<open>UnitDataQueue\<close> represents a list of TLLIs with four lists of PDUs each.  The
  specification works on those lists; every operation of the program implements it.
\<close>

section \<open>The specification\<close>

type_synonym 'd item = "nat \<times> 32 word \<times> 'd DlUnitData"

record 'd TlliPdus =
  tp_tlli :: "32 word"
  tp_high :: bool
  tp_levels :: "'d item list list"

definition all_items :: "'d TlliPdus \<Rightarrow> 'd item list" where
  "all_items a = concat (tp_levels a)"

definition item_bytes :: "'d item list \<Rightarrow> 32 word" where
  "item_bytes xs = sum_list (map (\<lambda>i. fst (snd i)) xs)"

definition add_item :: "nat \<Rightarrow> 'd item \<Rightarrow> 'd TlliPdus \<Rightarrow> 'd TlliPdus" where
  "add_item l i a = (let a' = a\<lparr>tp_levels := (tp_levels a)[l := tp_levels a ! l @ [i]]\<rparr>
     in a'\<lparr>tp_high := (tp_high a \<or> item_bytes (all_items a') \<ge> tlli_high_watermark_bytes)\<rparr>)"

definition drop_item :: "bool \<Rightarrow> nat \<Rightarrow> 'd TlliPdus \<Rightarrow> 'd TlliPdus" where
  "drop_item clears l a = (let a' = a\<lparr>tp_levels := (tp_levels a)[l := tl (tp_levels a ! l)]\<rparr>
     in a'\<lparr>tp_high := (tp_high a \<and> \<not> (clears \<and> item_bytes (all_items a') \<le> tlli_low_watermark_bytes))\<rparr>)"

definition no_pdus :: "32 word \<Rightarrow> 'd TlliPdus" where
  "no_pdus tlli = \<lparr>tp_tlli = tlli, tp_high = False, tp_levels = replicate BSSGP_MAX_NETWORK_QOS_LEVELS []\<rparr>"

definition on_tlli :: "32 word \<Rightarrow> ('d TlliPdus \<Rightarrow> 'd TlliPdus) \<Rightarrow> 'd TlliPdus list \<Rightarrow> 'd TlliPdus list" where
  "on_tlli tlli f = map (\<lambda>a. if tp_tlli a = tlli then f a else a)"

definition of_tlli :: "32 word \<Rightarrow> 'd TlliPdus list \<Rightarrow> 'd TlliPdus option" where
  "of_tlli tlli = find (\<lambda>a. tp_tlli a = tlli)"

text \<open>\<open>M\<close> nodes, \<open>N\<close> buffers, \<open>cb\<close>: a callback is configured.\<close>

definition spec_put ::
  "nat \<Rightarrow> nat \<Rightarrow> bool \<Rightarrow> 32 word \<Rightarrow> nat \<Rightarrow> 'd item \<Rightarrow> 'd TlliPdus list \<Rightarrow> bool \<times> 'd TlliPdus list" where
  "spec_put M N cb tlli l i qs =
     (if length (concat (map all_items qs)) = N then (False, qs)
      else case of_tlli tlli qs of
        None \<Rightarrow> if length qs = M then (False, qs) else (True, qs @ [add_item l i (no_pdus tlli)])
      | Some a \<Rightarrow> if tp_high a \<and> \<not> cb then (False, qs) else (True, on_tlli tlli (add_item l i) qs))"

definition spec_get :: "32 word \<Rightarrow> 'd TlliPdus list \<Rightarrow> 'd item option \<times> 'd TlliPdus list" where
  "spec_get tlli qs =
     (case of_tlli tlli qs of None \<Rightarrow> (None, qs)
      | Some a \<Rightarrow> (case find (\<lambda>l. tp_levels a ! l \<noteq> []) [0..<BSSGP_MAX_NETWORK_QOS_LEVELS] of
          None \<Rightarrow> (None, qs)
        | Some l \<Rightarrow> (Some (hd (tp_levels a ! l)), on_tlli tlli (drop_item True l) qs)))"

definition spec_get_level :: "32 word \<Rightarrow> nat \<Rightarrow> 'd TlliPdus list \<Rightarrow> 'd item option \<times> 'd TlliPdus list" where
  "spec_get_level tlli l qs =
     (case of_tlli tlli qs of None \<Rightarrow> (None, qs)
      | Some a \<Rightarrow> if tp_levels a ! l = [] then (None, qs)
          else (Some (hd (tp_levels a ! l)), on_tlli tlli (drop_item False l) qs))"

definition spec_has :: "32 word \<Rightarrow> 'd TlliPdus list \<Rightarrow> 'd item option" where
  "spec_has tlli qs = fst (spec_get tlli qs)"

text \<open>The first TLLI with a PDU at the level becomes the last one.\<close>

definition spec_next :: "nat \<Rightarrow> 'd TlliPdus list \<Rightarrow> 'd item option \<times> 'd TlliPdus list" where
  "spec_next l qs =
     (case find (\<lambda>a. tp_levels a ! l \<noteq> []) qs of None \<Rightarrow> (None, qs)
      | Some a \<Rightarrow> (Some (hd (tp_levels a ! l)), filter (\<lambda>b. tp_tlli b \<noteq> tp_tlli a) qs @ [a]))"

text \<open>What \<open>bssgp_udt_get_buff_by_qos\<close> does: the last TLLI is not looked at.\<close>

definition spec_get_next :: "nat \<Rightarrow> 'd TlliPdus list \<Rightarrow> 'd item option \<times> 'd TlliPdus list" where
  "spec_get_next l qs =
     (case find (\<lambda>a. tp_levels a ! l \<noteq> []) (butlast qs) of None \<Rightarrow> (None, qs)
      | Some a \<Rightarrow> (Some (hd (tp_levels a ! l)),
          filter (\<lambda>b. tp_tlli b \<noteq> tp_tlli a) qs @ [drop_item False l a]))"

section \<open>Representation\<close>

definition bnx :: "'d UdtConfig \<Rightarrow> nat \<Rightarrow> nat option" where "bnx c = (\<lambda>b. ub_next (cf_buff c b))"
definition bpv :: "'d UdtConfig \<Rightarrow> nat \<Rightarrow> nat option" where "bpv c = (\<lambda>b. ub_prev (cf_buff c b))"
definition tnx :: "'d UdtConfig \<Rightarrow> nat \<Rightarrow> nat option" where "tnx c = (\<lambda>q. tq_next (cf_tlli c q))"
definition tpv :: "'d UdtConfig \<Rightarrow> nat \<Rightarrow> nat option" where "tpv c = (\<lambda>q. tq_prev (cf_tlli c q))"

definition item_of :: "'d UdtConfig \<Rightarrow> nat \<Rightarrow> 'd item" where
  "item_of c b = (ub_data (cf_buff c b), ub_data_size (cf_buff c b), ub_dl_unitdata (cf_buff c b))"

text \<open>\<open>bs q l\<close>: the buffers of node \<open>q\<close> at level \<open>l\<close>.\<close>

definition node_buffs :: "(nat \<Rightarrow> nat \<Rightarrow> nat list) \<Rightarrow> nat \<Rightarrow> nat list" where
  "node_buffs bs q = concat (map (bs q) [0..<BSSGP_MAX_NETWORK_QOS_LEVELS])"

text \<open>The four queues of a node, and its counters.\<close>

definition node_ok :: "'d UdtConfig \<Rightarrow> (nat \<Rightarrow> nat \<Rightarrow> nat list) \<Rightarrow> nat \<Rightarrow> bool" where
  "node_ok c bs q \<longleftrightarrow>
     length (tq_qos (cf_tlli c q)) = BSSGP_MAX_NETWORK_QOS_LEVELS \<and>
     (\<forall>l < BSSGP_MAX_NETWORK_QOS_LEVELS.
        dlinked (bnx c) (bpv c) (qq_head (qos_at q l c)) (qq_tail (qos_at q l c)) (bs q l) \<and>
        qq_buff_count (qos_at q l c) = of_nat (length (bs q l)) \<and>
        qq_rx_bytes (qos_at q l c) = item_bytes (map (item_of c) (bs q l))) \<and>
     tq_buff_count (cf_tlli c q) = of_nat (length (node_buffs bs q)) \<and>
     tq_rx_bytes (cf_tlli c q) = item_bytes (map (item_of c) (node_buffs bs q))"

definition buffs_ok :: "'d UdtConfig \<Rightarrow> nat list \<Rightarrow> (nat \<Rightarrow> nat \<Rightarrow> nat list) \<Rightarrow> bool" where
  "buffs_ok c ls bs \<longleftrightarrow>
     distinct (concat (map (node_buffs bs) ls)) \<and>
     (\<forall>b. b \<in> set (concat (map (node_buffs bs) ls)) \<longleftrightarrow> b < length (cf_buff_used c) \<and> cf_buff_used c ! b) \<and>
     length (cf_buff_used c) < 2 ^ 32"

definition lists_ok :: "'d UdtConfig \<Rightarrow> nat list \<Rightarrow> bool" where
  "lists_ok c ls \<longleftrightarrow>
     dlinked (tnx c) (tpv c) (cf_tlli_q_head c) (cf_tlli_q_tail c) ls \<and>
     distinct (map (\<lambda>q. tq_tlli (cf_tlli c q)) ls) \<and>
     (\<forall>q. q \<in> set ls \<longleftrightarrow> q < length (cf_tlli_used c) \<and> cf_tlli_used c ! q) \<and>
     (\<forall>q < length (cf_tlli_used c). q \<notin> set ls \<longrightarrow> cf_tlli c q = empty_tlli)"

definition udt_ok :: "'d UdtConfig \<Rightarrow> nat list \<Rightarrow> (nat \<Rightarrow> nat \<Rightarrow> nat list) \<Rightarrow> bool" where
  "udt_ok c ls bs \<longleftrightarrow> lists_ok c ls \<and> buffs_ok c ls bs \<and> (\<forall>q \<in> set ls. node_ok c bs q)"

definition pdus_of :: "'d UdtConfig \<Rightarrow> (nat \<Rightarrow> nat \<Rightarrow> nat list) \<Rightarrow> nat \<Rightarrow> 'd TlliPdus" where
  "pdus_of c bs q = \<lparr>tp_tlli = tq_tlli (cf_tlli c q), tp_high = tq_high_watermark_indicated (cf_tlli c q),
     tp_levels = map (\<lambda>l. map (item_of c) (bs q l)) [0..<BSSGP_MAX_NETWORK_QOS_LEVELS]\<rparr>"

definition represents :: "'d UdtConfig \<Rightarrow> 'd TlliPdus list \<Rightarrow> bool" where
  "represents c qs \<longleftrightarrow> (\<exists>ls bs. udt_ok c ls bs \<and> qs = map (pdus_of c bs) ls)"

section \<open>Reading the updates\<close>

named_theorems udt_read

lemma read_tlli [udt_read]:
  "cf_tlli (upd_tlli q f c) = (cf_tlli c)(q := f (cf_tlli c q))"
  "cf_buff (upd_tlli q f c) = cf_buff c" "cf_buff_used (upd_tlli q f c) = cf_buff_used c"
  "cf_tlli_used (upd_tlli q f c) = cf_tlli_used c" "cf_tlli_q_head (upd_tlli q f c) = cf_tlli_q_head c"
  "cf_tlli_q_tail (upd_tlli q f c) = cf_tlli_q_tail c" "cf_watermark_cb (upd_tlli q f c) = cf_watermark_cb c"
  "cf_out (upd_tlli q f c) = cf_out c"
  by (simp_all add: upd_tlli_def)

lemma read_qos [udt_read]:
  "cf_buff (upd_qos q l g c) = cf_buff c" "cf_buff_used (upd_qos q l g c) = cf_buff_used c"
  "cf_tlli_used (upd_qos q l g c) = cf_tlli_used c" "cf_tlli_q_head (upd_qos q l g c) = cf_tlli_q_head c"
  "cf_tlli_q_tail (upd_qos q l g c) = cf_tlli_q_tail c" "cf_watermark_cb (upd_qos q l g c) = cf_watermark_cb c"
  "cf_out (upd_qos q l g c) = cf_out c"
  by (simp_all add: upd_qos_def udt_read)

lemma read_qos_tlli [udt_read]:
  "tq_next (cf_tlli (upd_qos q l g c) q') = tq_next (cf_tlli c q')"
  "tq_prev (cf_tlli (upd_qos q l g c) q') = tq_prev (cf_tlli c q')"
  "tq_tlli (cf_tlli (upd_qos q l g c) q') = tq_tlli (cf_tlli c q')"
  "tq_buff_count (cf_tlli (upd_qos q l g c) q') = tq_buff_count (cf_tlli c q')"
  "tq_rx_bytes (cf_tlli (upd_qos q l g c) q') = tq_rx_bytes (cf_tlli c q')"
  "tq_high_watermark_indicated (cf_tlli (upd_qos q l g c) q') = tq_high_watermark_indicated (cf_tlli c q')"
  "length (tq_qos (cf_tlli (upd_qos q l g c) q')) = length (tq_qos (cf_tlli c q'))"
  "q' \<noteq> q \<Longrightarrow> cf_tlli (upd_qos q l g c) q' = cf_tlli c q'"
  by (simp_all add: upd_qos_def udt_read)

lemma read_qos_at [udt_read]:
  "qos_at q' l' (upd_qos q l g c) =
     (if q' = q \<and> l' = l \<and> l < length (tq_qos (cf_tlli c q)) then g (qos_at q l c) else qos_at q' l' c)"
  by (cases "l < length (tq_qos (cf_tlli c q))") (auto simp: qos_at_def upd_qos_def udt_read nth_list_update list_update_beyond)

lemma read_buff [udt_read]:
  "cf_buff (upd_buff b f c) = (cf_buff c)(b := f (cf_buff c b))"
  "cf_tlli (upd_buff b f c) = cf_tlli c" "cf_buff_used (upd_buff b f c) = cf_buff_used c"
  "cf_tlli_used (upd_buff b f c) = cf_tlli_used c" "cf_tlli_q_head (upd_buff b f c) = cf_tlli_q_head c"
  "cf_tlli_q_tail (upd_buff b f c) = cf_tlli_q_tail c" "cf_watermark_cb (upd_buff b f c) = cf_watermark_cb c"
  "cf_out (upd_buff b f c) = cf_out c" "qos_at q l (upd_buff b f c) = qos_at q l c"
  by (simp_all add: upd_buff_def qos_at_def)

lemma read_emit [udt_read]:
  "cf_buff (udt_emit e c) = cf_buff c" "cf_tlli (udt_emit e c) = cf_tlli c" "cf_buff_used (udt_emit e c) = cf_buff_used c"
  "cf_tlli_used (udt_emit e c) = cf_tlli_used c" "cf_tlli_q_head (udt_emit e c) = cf_tlli_q_head c"
  "cf_tlli_q_tail (udt_emit e c) = cf_tlli_q_tail c" "cf_watermark_cb (udt_emit e c) = cf_watermark_cb c"
  "cf_out (udt_emit e c) = cf_out c @ [e]" "qos_at q l (udt_emit e c) = qos_at q l c"
  by (simp_all add: udt_emit_def qos_at_def)

section \<open>Buffers of a node\<close>

lemma below_four: "l < (4 :: nat) \<longleftrightarrow> l = 0 \<or> l = 1 \<or> l = 2 \<or> l = 3"
  by auto

lemma node_buffs_four: "node_buffs bs q = bs q 0 @ bs q 1 @ bs q 2 @ bs q 3"
  by (simp add: node_buffs_def upt_rec numeral_2_eq_2 numeral_3_eq_3)

lemma set_node_buffs: "set (node_buffs bs q) = (\<Union>l < 4. set (bs q l))"
  by (auto simp: node_buffs_def)

lemma level_in_node: "l < 4 \<Longrightarrow> b \<in> set (bs q l) \<Longrightarrow> b \<in> set (node_buffs bs q)"
  by (auto simp: set_node_buffs)

lemma levels_disjoint:
  assumes "distinct (node_buffs bs q)" "l < 4" "l' < 4" "l \<noteq> l'"
  shows "set (bs q l) \<inter> set (bs q l') = {}"
  using assms unfolding node_buffs_four below_four by auto

lemma node_buffs_other: "q' \<noteq> q \<Longrightarrow> node_buffs (bs(q := f)) q' = node_buffs bs q'"
  by (simp add: node_buffs_def)

lemma item_bytes_append [simp]: "item_bytes (xs @ ys) = item_bytes xs + item_bytes ys"
  and item_bytes_Cons [simp]: "item_bytes (x # xs) = fst (snd x) + item_bytes xs"
  and item_bytes_Nil [simp]: "item_bytes [] = 0"
  by (simp_all add: item_bytes_def)

lemma node_add:
  assumes "l < 4"
  shows "mset (node_buffs (bs(q := (bs q)(l := bs q l @ [b]))) q) = add_mset b (mset (node_buffs bs q))"
  using assms unfolding node_buffs_four below_four by auto

lemma node_remove:
  assumes "l < 4" "bs q l = b # xs"
  shows "mset (node_buffs bs q) = add_mset b (mset (node_buffs (bs(q := (bs q)(l := xs))) q))"
  using assms unfolding node_buffs_four below_four by auto

lemma item_bytes_mset: "item_bytes (map f xs) = sum_mset (image_mset (\<lambda>b. fst (snd (f b))) (mset xs))"
  by (simp add: item_bytes_def sum_mset_sum_list [symmetric] image_mset.compositionality o_def)

lemma node_add_facts:
  fixes bs :: "nat \<Rightarrow> nat \<Rightarrow> nat list" and b q :: nat
  assumes "l < 4"
  defines "bs' \<equiv> bs(q := (bs q)(l := bs q l @ [b]))"
  shows "length (node_buffs bs' q) = Suc (length (node_buffs bs q))"
    "item_bytes (map f (node_buffs bs' q)) = item_bytes (map f (node_buffs bs q)) + fst (snd (f b))"
    "set (node_buffs bs' q) = insert b (set (node_buffs bs q))"
    "distinct (node_buffs bs' q) \<longleftrightarrow> distinct (node_buffs bs q) \<and> b \<notin> set (node_buffs bs q)"
proof -
  note m = node_add [OF assms(1), of bs q b, folded bs'_def]
  show "length (node_buffs bs' q) = Suc (length (node_buffs bs q))"
    using arg_cong [OF m, of size] by simp
  show "item_bytes (map f (node_buffs bs' q)) = item_bytes (map f (node_buffs bs q)) + fst (snd (f b))"
    unfolding item_bytes_mset m by simp
  show "set (node_buffs bs' q) = insert b (set (node_buffs bs q))"
    using arg_cong [OF m, of set_mset] by simp
  show "distinct (node_buffs bs' q) \<longleftrightarrow> distinct (node_buffs bs q) \<and> b \<notin> set (node_buffs bs q)"
    using mset_eq_imp_distinct_iff [of "node_buffs bs' q" "b # node_buffs bs q"] m by auto
qed

lemma node_remove_facts:
  fixes bs :: "nat \<Rightarrow> nat \<Rightarrow> nat list" and b q :: nat
  assumes "l < 4" "bs q l = b # xs"
  defines "bs' \<equiv> bs(q := (bs q)(l := xs))"
  shows "length (node_buffs bs q) = Suc (length (node_buffs bs' q))"
    "item_bytes (map f (node_buffs bs q)) = fst (snd (f b)) + item_bytes (map f (node_buffs bs' q))"
    "set (node_buffs bs q) = insert b (set (node_buffs bs' q))"
    "distinct (node_buffs bs q) \<longleftrightarrow> distinct (node_buffs bs' q) \<and> b \<notin> set (node_buffs bs' q)"
proof -
  note m = node_remove [of l bs q b xs, OF assms(1,2), folded bs'_def]
  show "length (node_buffs bs q) = Suc (length (node_buffs bs' q))"
    using arg_cong [OF m, of size] by simp
  show "item_bytes (map f (node_buffs bs q)) = fst (snd (f b)) + item_bytes (map f (node_buffs bs' q))"
    unfolding item_bytes_mset m by simp
  show "set (node_buffs bs q) = insert b (set (node_buffs bs' q))"
    using arg_cong [OF m, of set_mset] by simp
  show "distinct (node_buffs bs q) \<longleftrightarrow> distinct (node_buffs bs' q) \<and> b \<notin> set (node_buffs bs' q)"
    using mset_eq_imp_distinct_iff [of "node_buffs bs q" "b # node_buffs bs' q"] m by auto
qed

text \<open>Nodes that an operation does not touch.\<close>

lemma node_ok_cong:
  assumes "cf_tlli c' q = cf_tlli c q" "bs' q = bs q" "\<forall>b \<in> set (node_buffs bs q). cf_buff c' b = cf_buff c b"
  shows "node_ok c' bs' q = node_ok c bs q" "pdus_of c' bs' q = pdus_of c bs q"
proof -
  have n: "node_buffs bs' q = node_buffs bs q" using assms(2) by (simp add: node_buffs_def)
  have i: "map (item_of c') (node_buffs bs q) = map (item_of c) (node_buffs bs q)"
    using assms(3) by (simp add: item_of_def)
  have l: "map (item_of c') (bs q l) = map (item_of c) (bs q l)" if "l < 4" for l
    using assms(3) level_in_node [OF that] by (auto simp: item_of_def)
  have d: "dlinked (bnx c') (bpv c') h t (bs q l) = dlinked (bnx c) (bpv c) h t (bs q l)" if "l < 4" for h t l
    by (rule dlinked_cong) (use assms(3) level_in_node [OF that] in \<open>auto simp: bnx_def bpv_def\<close>)
  have qa: "qos_at q l c' = qos_at q l c" for l using assms(1) by (simp add: qos_at_def)
  have ib: "item_bytes (map (item_of c') (bs q l)) = item_bytes (map (item_of c) (bs q l))" if "l < 4" for l
    using arg_cong [OF l [OF that]] .
  show "node_ok c' bs' q = node_ok c bs q"
    unfolding node_ok_def assms(1,2) n i qa by (simp add: ib d cong: conj_cong)
  show "pdus_of c' bs' q = pdus_of c bs q"
    unfolding pdus_of_def assms(1,2) using l by simp
qed

lemma few_buffs:
  assumes "buffs_ok c ls bs" "q \<in> set ls"
  shows "length (node_buffs bs q) < 2 ^ 32" "distinct (node_buffs bs q)"
proof -
  have d: "distinct (concat (map (node_buffs bs) ls))" using assms(1) by (simp add: buffs_ok_def)
  show "distinct (node_buffs bs q)"
    using d assms(2) by (auto simp: distinct_concat_iff split: if_splits)
  have "set (node_buffs bs q) \<subseteq> {..< length (cf_buff_used c)}"
    using assms by (auto simp: buffs_ok_def)
  then have "card (set (node_buffs bs q)) \<le> length (cf_buff_used c)" using card_mono [of "{..< length (cf_buff_used c)}"] by simp
  then show "length (node_buffs bs q) < 2 ^ 32"
    using distinct_card [OF \<open>distinct (node_buffs bs q)\<close>] assms(1) by (simp add: buffs_ok_def)
qed

lemma count_zero:
  assumes "length xs < 2 ^ 32"
  shows "(of_nat (length xs) :: 32 word) = 0 \<longleftrightarrow> xs = []"
proof -
  have "unat (of_nat (length xs) :: 32 word) = length xs" using assms by (simp add: unat_of_nat take_bit_nat_eq_self)
  then show ?thesis by (metis length_0_conv unat_eq_zero)
qed

lemma level_count:
  assumes "node_ok c bs q" "length (node_buffs bs q) < 2 ^ 32" "l < 4"
  shows "qq_buff_count (qos_at q l c) = 0 \<longleftrightarrow> bs q l = []"
proof -
  have "length (bs q l) \<le> length (node_buffs bs q)"
    using assms(3) unfolding node_buffs_four below_four by auto
  then show ?thesis using assms count_zero [of "bs q l"] by (simp add: node_ok_def)
qed

section \<open>One buffer more, one buffer less\<close>

lemma levels_upd:
  assumes "l < 4" "\<forall>l' < 4. l' \<noteq> l \<longrightarrow> map (item_of c') (bs' q l') = map (item_of c) (bs q l')"
  shows "tp_levels (pdus_of c' bs' q) = (tp_levels (pdus_of c bs q))[l := map (item_of c') (bs' q l)]"
  by (rule nth_equalityI) (use assms in \<open>auto simp: pdus_of_def nth_list_update simp del: map_eq_conv upt_conv_Cons\<close>)

lemma levels_nth: "l < 4 \<Longrightarrow> tp_levels (pdus_of c bs q) ! l = map (item_of c) (bs q l)"
  by (simp add: pdus_of_def del: upt_conv_Cons)

lemma node_append:
  assumes ok: "node_ok c bs q" "l < 4" "distinct (node_buffs bs q)" "b \<notin> set (node_buffs bs q)"
    and tq: "length (tq_qos (cf_tlli c' q)) = 4" "\<forall>l'. l' \<noteq> l \<longrightarrow> qos_at q l' c' = qos_at q l' c"
      "tq_buff_count (cf_tlli c' q) = tq_buff_count (cf_tlli c q) + 1"
      "tq_rx_bytes (cf_tlli c' q) = tq_rx_bytes (cf_tlli c q) + fst (snd i)"
    and s: "qq_buff_count (qos_at q l c') = qq_buff_count (qos_at q l c) + 1"
      "qq_rx_bytes (qos_at q l c') = qq_rx_bytes (qos_at q l c) + fst (snd i)"
      "qq_head (qos_at q l c') = (if qq_tail (qos_at q l c) = None then Some b else qq_head (qos_at q l c))"
      "qq_tail (qos_at q l c') = Some b"
    and b: "item_of c' b = i" "bnx c' b = None" "bpv c' b = qq_tail (qos_at q l c)"
      "\<forall>y. qq_tail (qos_at q l c) = Some y \<longrightarrow> bnx c' y = Some b"
      "\<forall>y \<in> set (node_buffs bs q). item_of c' y = item_of c y \<and> bpv c' y = bpv c y \<and>
         (Some y \<noteq> qq_tail (qos_at q l c) \<longrightarrow> bnx c' y = bnx c y)"
  shows "node_ok c' (bs(q := (bs q)(l := bs q l @ [b]))) q" (is ?ok)
    "tp_levels (pdus_of c' (bs(q := (bs q)(l := bs q l @ [b]))) q) =
       (tp_levels (pdus_of c bs q))[l := tp_levels (pdus_of c bs q) ! l @ [i]]" (is ?levels)
proof -
  let ?bs = "bs(q := (bs q)(l := bs q l @ [b]))"
  have same: "map (item_of c') (bs q l') = map (item_of c) (bs q l')" if "l' < 4" for l'
    using b(5) level_in_node [OF that] by simp
  have all: "map (item_of c') (node_buffs bs q) = map (item_of c) (node_buffs bs q)" using b(5) by simp
  have D: "dlinked (bnx c) (bpv c) (qq_head (qos_at q l' c)) (qq_tail (qos_at q l' c)) (bs q l')"
    "qq_buff_count (qos_at q l' c) = of_nat (length (bs q l'))" 
    "qq_rx_bytes (qos_at q l' c) = item_bytes (map (item_of c) (bs q l'))" if "l' < 4" for l'
    using ok(1) that by (simp_all add: node_ok_def)
  have "dlinked (bnx c') (bpv c') (qq_head (qos_at q l c')) (qq_tail (qos_at q l c')) (bs q l @ [b])"
    unfolding s(3,4)
    by (rule dlinked_append [OF D(1) [OF ok(2)]]) (use b ok(4) level_in_node [OF ok(2)] in auto)
  moreover have "dlinked (bnx c') (bpv c') (qq_head (qos_at q l' c')) (qq_tail (qos_at q l' c')) (bs q l')"
    if l': "l' < 4" "l' \<noteq> l" for l'
  proof -
    have "y \<noteq> t" if "y \<in> set (bs q l')" "qq_tail (qos_at q l c) = Some t" for y t
    proof -
      have "t \<in> set (bs q l)"
        using dlinked_tail [OF D(1) [OF ok(2)]] that(2) by (cases "bs q l = []") auto
      then show ?thesis using levels_disjoint [OF ok(3) l'(1) ok(2) l'(2)] that(1) by auto
    qed
    then have "\<forall>y \<in> set (bs q l'). bnx c' y = bnx c y" "\<forall>y \<in> set (bs q l'). bpv c' y = bpv c y"
      using b(5) level_in_node [OF l'(1)] by (metis, blast)
    then show ?thesis
      using dlinked_cong [of "bs q l'" "bnx c'" "bnx c" "bpv c'" "bpv c"] D(1) [OF l'(1)] tq(2) l'(2) by simp
  qed
  moreover have "qq_rx_bytes (qos_at q l c') = item_bytes (map (item_of c') (bs q l @ [b]))"
    unfolding s(2) D(3) [OF ok(2)] map_append item_bytes_append same [OF ok(2)] by (simp add: b(1))
  moreover have "qq_rx_bytes (qos_at q l' c') = item_bytes (map (item_of c') (bs q l'))" if "l' < 4" "l' \<noteq> l" for l'
    unfolding same [OF that(1)] using D(3) [OF that(1)] tq(2) that(2) by simp
  ultimately show ?ok
    using ok(1,2) tq s(1) D(2) arg_cong [OF all, of item_bytes] b(1)
    by (auto simp: node_ok_def node_add_facts [where l = l and bs = bs and q = q and b = b, OF ok(2)])
  show ?levels
    using levels_upd [OF ok(2), of c' ?bs q c bs] same same [OF ok(2)] b(1) levels_nth [OF ok(2), of c bs q]
    by (simp del: map_eq_conv)
qed

lemma node_pop:
  assumes ok: "node_ok c bs q" "l < 4" "distinct (node_buffs bs q)" "bs q l = b # xs"
    and tq: "length (tq_qos (cf_tlli c' q)) = 4" "\<forall>l'. l' \<noteq> l \<longrightarrow> qos_at q l' c' = qos_at q l' c"
      "tq_buff_count (cf_tlli c' q) = tq_buff_count (cf_tlli c q) - 1"
      "tq_rx_bytes (cf_tlli c' q) = tq_rx_bytes (cf_tlli c q) - fst (snd (item_of c b))"
    and s: "qq_buff_count (qos_at q l c') = qq_buff_count (qos_at q l c) - 1"
      "qq_rx_bytes (qos_at q l c') = qq_rx_bytes (qos_at q l c) - fst (snd (item_of c b))"
      "qq_head (qos_at q l c') = bnx c b"
      "qq_tail (qos_at q l c') = (if bnx c b = None then None else qq_tail (qos_at q l c))"
    and b: "\<forall>y. bnx c b = Some y \<longrightarrow> bpv c' y = None"
      "\<forall>y \<in> set (node_buffs bs q). item_of c' y = item_of c y \<and> bnx c' y = bnx c y \<and>
         (Some y \<noteq> bnx c b \<longrightarrow> bpv c' y = bpv c y)"
  shows "node_ok c' (bs(q := (bs q)(l := xs))) q" (is ?ok)
    "tp_levels (pdus_of c' (bs(q := (bs q)(l := xs))) q) =
       (tp_levels (pdus_of c bs q))[l := tl (tp_levels (pdus_of c bs q) ! l)]" (is ?levels)
proof -
  let ?bs = "bs(q := (bs q)(l := xs))"
  have same: "map (item_of c') (bs q l') = map (item_of c) (bs q l')" if "l' < 4" for l'
    using b(2) level_in_node [OF that] by simp
  have samexs: "map (item_of c') xs = map (item_of c) xs" using same [OF ok(2)] ok(4) by simp
  have D: "dlinked (bnx c) (bpv c) (qq_head (qos_at q l' c)) (qq_tail (qos_at q l' c)) (bs q l')"
    "qq_buff_count (qos_at q l' c) = of_nat (length (bs q l'))" 
    "qq_rx_bytes (qos_at q l' c) = item_bytes (map (item_of c) (bs q l'))" if "l' < 4" for l'
    using ok(1) that by (simp_all add: node_ok_def)
  have Dl: "dlinked (bnx c) (bpv c) (qq_head (qos_at q l c)) (qq_tail (qos_at q l c)) (b # xs)"
    using D(1) [OF ok(2)] ok(4) by simp
  then have nb: "bnx c b = first_of xs None" "distinct (b # xs)" by (simp_all add: dlinked_def)
  have inn: "x \<in> set (node_buffs bs q)" if "x \<in> set (b # xs)" for x
    using level_in_node [OF ok(2), of x bs q] that ok(4) by simp
  have "dlinked (bnx c') (bpv c') (qq_head (qos_at q l c')) (qq_tail (qos_at q l c')) xs"
    unfolding s(3,4)
  proof (rule dlinked_pop [OF Dl])
    show "\<forall>y \<in> set xs. bnx c' y = bnx c y" using b(2) inn by auto
    show "xs \<noteq> [] \<longrightarrow> bpv c' (hd xs) = None" using b(1) nb by simp
    have "\<forall>y \<in> set (tl xs). Some y \<noteq> bnx c b \<and> y \<in> set xs" using nb by (cases xs) auto
    then show "\<forall>y \<in> set (tl xs). bpv c' y = bpv c y" using b(2) inn by auto
  qed
  moreover have "dlinked (bnx c') (bpv c') (qq_head (qos_at q l' c')) (qq_tail (qos_at q l' c')) (bs q l')"
    if l': "l' < 4" "l' \<noteq> l" for l'
  proof -
    have "Some y \<noteq> bnx c b" if "y \<in> set (bs q l')" for y
    proof -
      have "\<forall>t. bnx c b = Some t \<longrightarrow> t \<in> set (bs q l)" using nb ok(4) by (cases xs) auto
      then show ?thesis using levels_disjoint [OF ok(3) l'(1) ok(2) l'(2)] that by auto
    qed
    then have "\<forall>y \<in> set (bs q l'). bnx c' y = bnx c y" "\<forall>y \<in> set (bs q l'). bpv c' y = bpv c y"
      using b(2) level_in_node [OF l'(1)] by (blast, metis)
    then show ?thesis
      using dlinked_cong [of "bs q l'" "bnx c'" "bnx c" "bpv c'" "bpv c"] D(1) [OF l'(1)] tq(2) l'(2) by simp
  qed
  moreover have "qq_rx_bytes (qos_at q l c') = item_bytes (map (item_of c') xs)"
    unfolding s(2) D(3) [OF ok(2)] ok(4) samexs by simp
  moreover have "qq_rx_bytes (qos_at q l' c') = item_bytes (map (item_of c') (bs q l'))" if "l' < 4" "l' \<noteq> l" for l'
    unfolding same [OF that(1)] using D(3) [OF that(1)] tq(2) that(2) by simp
  moreover have "item_bytes (map (item_of c') (node_buffs ?bs q)) = item_bytes (map (item_of c) (node_buffs ?bs q))"
  proof -
    have "\<forall>y \<in> set (node_buffs ?bs q). item_of c' y = item_of c y"
      using b(2) node_remove_facts(3) [where l = l and bs = bs and q = q and b = b and xs = xs, OF ok(2,4)] by auto
    then have "map (item_of c') (node_buffs ?bs q) = map (item_of c) (node_buffs ?bs q)" by simp
    then show ?thesis by (rule arg_cong)
  qed
  ultimately show ?ok
    using ok(1,2,4) tq s(1) D(2)
    by (auto simp: node_ok_def node_remove_facts [where l = l and bs = bs and q = q and b = b and xs = xs, OF ok(2,4)])
  show ?levels
    using levels_upd [OF ok(2), of c' ?bs q c bs] same samexs levels_nth [OF ok(2), of c bs q] ok(4)
    by (simp del: map_eq_conv)
qed

end
