(* ===== verification/UnitDataRefinement.thy ===== *)
theory UnitDataRefinement
  imports UnitDataLists
begin

text \<open>
  Each operation on the pointer structure returns, keeps it well formed, and does to the represented lists
  what the specification says.
\<close>

section \<open>Pools and searches\<close>

lemma first_unused_Some: "first_unused us = Some i \<Longrightarrow> i < length us \<and> \<not> us ! i"
  by (induction us arbitrary: i) (auto split: if_splits)

lemma first_unused_None: "first_unused us = None \<longleftrightarrow> (\<forall>i < length us. us ! i)"
  by (induction us) (auto simp: nth_Cons split: nat.splits)

lemma all_items_pdus: "all_items (pdus_of c bs q) = map (item_of c) (node_buffs bs q)"
  by (simp add: all_items_def pdus_of_def node_buffs_def map_concat o_def del: upt_conv_Cons)

lemma card_below:
  assumes s: "\<forall>b :: nat. b \<in> A \<longleftrightarrow> b < N \<and> P b"
  shows "card A = N \<longleftrightarrow> (\<forall>b < N. P b)"
proof
  have sub: "A \<subseteq> {..< N}" using s by auto
  assume "card A = N"
  then have "A = {..< N}" by (intro card_subset_eq [OF _ sub]) simp_all
  then show "\<forall>b < N. P b" using s by auto
next
  assume "\<forall>b < N. P b"
  then have "A = {..< N}" using s by auto
  then show "card A = N" by simp
qed

lemma all_used:
  assumes "buffs_ok c ls bs"
  shows "length (concat (map all_items (map (pdus_of c bs) ls))) = length (cf_buff_used c) \<longleftrightarrow>
     first_unused (cf_buff_used c) = None"
proof -
  let ?xs = "concat (map (node_buffs bs) ls)"
  have "length (concat (map all_items (map (pdus_of c bs) ls))) = length ?xs"
    by (simp add: all_items_pdus o_def length_concat)
  moreover have "length ?xs = card (set ?xs)" using assms distinct_card [of ?xs] by (simp add: buffs_ok_def)
  moreover have "card (set ?xs) = length (cf_buff_used c) \<longleftrightarrow> (\<forall>b < length (cf_buff_used c). cf_buff_used c ! b)"
    by (rule card_below) (use assms in \<open>unfold buffs_ok_def, blast\<close>)
  ultimately show ?thesis by (simp only: first_unused_None)
qed

lemma all_lists_used:
  assumes "lists_ok c ls"
  shows "length ls = length (cf_tlli_used c) \<longleftrightarrow> first_unused (cf_tlli_used c) = None"
proof -
  have "length ls = card (set ls)" using assms distinct_card [of ls] by (simp add: lists_ok_def dlinked_def)
  moreover have "card (set ls) = length (cf_tlli_used c) \<longleftrightarrow> (\<forall>q < length (cf_tlli_used c). cf_tlli_used c ! q)"
    by (rule card_below) (use assms in \<open>unfold lists_ok_def, blast\<close>)
  ultimately show ?thesis by (simp only: first_unused_None)
qed

lemma find_tlli_run:
  assumes "dlseg (tnx c) pv b (x # xs) None"
  shows "find_tlli c t x = Some (case find (\<lambda>q. tq_tlli (cf_tlli c q) = t) (x # xs) of Some q \<Rightarrow> q | None \<Rightarrow> last (x # xs))"
  using assms
proof (induction xs arbitrary: x b)
  case Nil
  then show ?case by (subst find_tlli.simps) (simp add: tnx_def)
next
  case (Cons y ys)
  then have "tq_next (cf_tlli c x) = Some y" "dlseg (tnx c) pv (Some x) (y # ys) None" by (auto simp: tnx_def)
  moreover have "last (x # y # ys) = last (y # ys)" by simp
  ultimately show ?case using Cons.IH [of "Some x" y] by (subst find_tlli.simps) (simp del: last.simps split: option.split)
qed

lemma find_node:
  assumes "lists_ok c ls" "cf_tlli_q_head c = Some h"
  shows "find_tlli c t h = Some (case find (\<lambda>q. tq_tlli (cf_tlli c q) = t) ls of Some q \<Rightarrow> q | None \<Rightarrow> last ls)"
    "ls \<noteq> []"
proof -
  have d: "Some h = first_of ls None" "dlseg (tnx c) (tpv c) None ls None" using assms by (auto simp: lists_ok_def dlinked_def)
  then show "ls \<noteq> []" by auto
  then obtain xs where "ls = h # xs" using d(1) by (cases ls) auto
  then show "find_tlli c t h = Some (case find (\<lambda>q. tq_tlli (cf_tlli c q) = t) ls of Some q \<Rightarrow> q | None \<Rightarrow> last ls)"
    using find_tlli_run d(2) by blast
qed

lemma of_tlli_pdus:
  "of_tlli t (map (pdus_of c bs) ls) = map_option (pdus_of c bs) (find (\<lambda>q. tq_tlli (cf_tlli c q) = t) ls)"
  by (induction ls) (auto simp: of_tlli_def pdus_of_def)

lemma find_tlli_in:
  assumes "find (\<lambda>q. tq_tlli (cf_tlli c q) = t) ls = Some q"
  shows "q \<in> set ls" "tq_tlli (cf_tlli c q) = t"
  using assms by (auto simp: find_Some_iff)

lemma on_tlli_node:
  assumes "distinct (map (\<lambda>q. tq_tlli (cf_tlli c q)) ls)" "q \<in> set ls" "tq_tlli (cf_tlli c q) = t"
    and "\<forall>q' \<in> set ls. q' \<noteq> q \<longrightarrow> P q' = pdus_of c bs q'" "P q = f (pdus_of c bs q)"
  shows "map P ls = on_tlli t f (map (pdus_of c bs) ls)"
proof -
  have "tp_tlli (pdus_of c bs q') = t \<longleftrightarrow> q' = q" if "q' \<in> set ls" for q'
    using assms(1-3) that by (auto simp: distinct_map inj_on_def pdus_of_def)
  then show ?thesis using assms(4,5) by (auto simp: on_tlli_def)
qed

section \<open>A buffer more\<close>

lemma mset_concat_upd:
  assumes "distinct ls" "q \<in> set ls" "\<forall>q'. q' \<noteq> q \<longrightarrow> f' q' = f q'" "mset (f' q) = add_mset b (mset (f q))"
  shows "mset (concat (map f' ls)) = add_mset b (mset (concat (map f ls)))"
proof -
  obtain xs ys where ls: "ls = xs @ q # ys" by (meson assms(2) split_list)
  then have "concat (map f' xs) = concat (map f xs)" "concat (map f' ys) = concat (map f ys)"
    using assms(1,3) by (auto intro!: arg_cong [of _ _ concat])
  then show ?thesis using ls assms(4) by simp
qed

lemma buffs_ok_add:
  assumes "buffs_ok c ls bs" "distinct ls" "q \<in> set ls" "l < 4" "b < length (cf_buff_used c)" "\<not> cf_buff_used c ! b"
    "cf_buff_used c' = (cf_buff_used c)[b := True]"
  shows "buffs_ok c' ls (bs(q := (bs q)(l := bs q l @ [b])))" "b \<notin> set (concat (map (node_buffs bs) ls))"
proof -
  let ?bs = "bs(q := (bs q)(l := bs q l @ [b]))"
  show b: "b \<notin> set (concat (map (node_buffs bs) ls))" using assms(1,6) unfolding buffs_ok_def by blast
  have m: "mset (concat (map (node_buffs ?bs) ls)) = add_mset b (mset (concat (map (node_buffs bs) ls)))"
    by (rule mset_concat_upd [OF assms(2,3)]) (auto simp: node_buffs_other node_add [OF assms(4)])
  have "distinct (concat (map (node_buffs ?bs) ls)) = distinct (b # concat (map (node_buffs bs) ls))"
    by (rule mset_eq_imp_distinct_iff) (simp add: m)
  moreover have "set (concat (map (node_buffs ?bs) ls)) = insert b (set (concat (map (node_buffs bs) ls)))"
    using arg_cong [OF m, of set_mset] by simp
  ultimately show "buffs_ok c' ls ?bs"
    using assms(1,5,7) b unfolding buffs_ok_def by (simp add: nth_list_update) blast
qed

text \<open>What \<open>bssgp_udt_put_buffer_in_q\<close> does to the node \<open>q\<close> of its TLLI, buffer \<open>b\<close> taken from the pool.\<close>

definition added :: "'d UdtConfig \<Rightarrow> nat \<Rightarrow> nat \<Rightarrow> nat \<Rightarrow> 'd item \<Rightarrow> 'd UdtConfig \<Rightarrow> bool" where
  "added c q l b i c' \<longleftrightarrow>
     cf_buff_used c' = (cf_buff_used c)[b := True] \<and> cf_tlli_used c' = cf_tlli_used c \<and>
     cf_tlli_q_head c' = cf_tlli_q_head c \<and> cf_tlli_q_tail c' = cf_tlli_q_tail c \<and>
     (\<forall>q'. q' \<noteq> q \<longrightarrow> cf_tlli c' q' = cf_tlli c q') \<and>
     tq_next (cf_tlli c' q) = tq_next (cf_tlli c q) \<and> tq_prev (cf_tlli c' q) = tq_prev (cf_tlli c q) \<and>
     tq_tlli (cf_tlli c' q) = tq_tlli (cf_tlli c q) \<and> length (tq_qos (cf_tlli c' q)) = length (tq_qos (cf_tlli c q)) \<and>
     (\<forall>l'. l' \<noteq> l \<longrightarrow> qos_at q l' c' = qos_at q l' c) \<and>
     tq_buff_count (cf_tlli c' q) = tq_buff_count (cf_tlli c q) + 1 \<and>
     tq_rx_bytes (cf_tlli c' q) = tq_rx_bytes (cf_tlli c q) + fst (snd i) \<and>
     tq_high_watermark_indicated (cf_tlli c' q) =
       (tq_high_watermark_indicated (cf_tlli c q) \<or> tq_rx_bytes (cf_tlli c' q) \<ge> tlli_high_watermark_bytes) \<and>
     qq_buff_count (qos_at q l c') = qq_buff_count (qos_at q l c) + 1 \<and>
     qq_rx_bytes (qos_at q l c') = qq_rx_bytes (qos_at q l c) + fst (snd i) \<and>
     qq_head (qos_at q l c') = (if qq_tail (qos_at q l c) = None then Some b else qq_head (qos_at q l c)) \<and>
     qq_tail (qos_at q l c') = Some b \<and>
     item_of c' b = i \<and> ub_next (cf_buff c' b) = None \<and> ub_prev (cf_buff c' b) = qq_tail (qos_at q l c) \<and>
     (\<forall>y. y \<noteq> b \<and> Some y \<noteq> qq_tail (qos_at q l c) \<longrightarrow> cf_buff c' y = cf_buff c y) \<and>
     (\<forall>y. qq_tail (qos_at q l c) = Some y \<longrightarrow> cf_buff c' y = (cf_buff c y)\<lparr>ub_next := Some b\<rparr>)"

lemma lists_ok_same:
  assumes "lists_ok c ls" "q \<in> set ls" "cf_tlli_used c' = cf_tlli_used c"
    "cf_tlli_q_head c' = cf_tlli_q_head c" "cf_tlli_q_tail c' = cf_tlli_q_tail c"
    "\<forall>q'. q' \<noteq> q \<longrightarrow> cf_tlli c' q' = cf_tlli c q'"
    "tq_next (cf_tlli c' q) = tq_next (cf_tlli c q)" "tq_prev (cf_tlli c' q) = tq_prev (cf_tlli c q)"
    "tq_tlli (cf_tlli c' q) = tq_tlli (cf_tlli c q)"
  shows "lists_ok c' ls"
proof -
  have "tnx c' = tnx c" "tpv c' = tpv c" "(\<lambda>q. tq_tlli (cf_tlli c' q)) = (\<lambda>q. tq_tlli (cf_tlli c q))"
    using assms(6-9) unfolding tnx_def tpv_def fun_eq_iff by metis+
  then show ?thesis using assms(1-6) unfolding lists_ok_def by metis
qed

lemma tail_in_level:
  assumes "node_ok c bs q" "l < 4" "qq_tail (qos_at q l c) = Some y"
  shows "y \<in> set (bs q l)"
proof -
  have "Some y = last_of None (bs q l)" using assms by (auto simp: node_ok_def dlinked_def)
  then show ?thesis by (cases "bs q l = []") auto
qed

lemma nodes_disjoint:
  assumes "buffs_ok c ls bs" "distinct ls" "q \<in> set ls" "q' \<in> set ls" "q \<noteq> q'"
  shows "set (node_buffs bs q) \<inter> set (node_buffs bs q') = {}"
proof -
  obtain xs ys where ls: "ls = xs @ q # ys" by (meson assms(3) split_list)
  have "distinct (concat (map (node_buffs bs) ls))" using assms(1) by (simp add: buffs_ok_def)
  moreover have "q' \<in> set xs \<or> q' \<in> set ys" using assms(2,4,5) ls by auto
  ultimately show ?thesis unfolding ls by auto
qed

lemma added_ok:
  assumes ok: "udt_ok c ls bs" "q \<in> set ls" "l < 4" "b < length (cf_buff_used c)" "\<not> cf_buff_used c ! b"
    and A: "added c q l b i c'"
  shows "\<exists>bs'. udt_ok c' ls bs' \<and>
     map (pdus_of c' bs') ls = on_tlli (tq_tlli (cf_tlli c q)) (add_item l i) (map (pdus_of c bs) ls)"
proof -
  let ?bs = "bs(q := (bs q)(l := bs q l @ [b]))"
  have lok: "lists_ok c ls" and bok: "buffs_ok c ls bs" and nok: "\<forall>q \<in> set ls. node_ok c bs q" using ok(1) by (auto simp: udt_ok_def)
  have dl: "distinct ls" using lok by (simp add: lists_ok_def dlinked_def)
  note A' = A [unfolded added_def]
  have bok': "buffs_ok c' ls ?bs" and nb: "b \<notin> set (concat (map (node_buffs bs) ls))"
    using buffs_ok_add [OF bok dl ok(2-5)] A' by auto
  have lok': "lists_ok c' ls" by (rule lists_ok_same [OF lok ok(2)]) (use A' in auto)
  note tail = tail_in_level [OF nok [rule_format, OF ok(2)] ok(3)]
  have other: "node_ok c' ?bs q' = node_ok c bs q' \<and> pdus_of c' ?bs q' = pdus_of c bs q'"
    if q': "q' \<in> set ls" "q' \<noteq> q" for q'
  proof -
    have "cf_buff c' y = cf_buff c y" if y: "y \<in> set (node_buffs bs q')" for y
    proof -
      have "y \<noteq> b" using nb y q'(1) by auto
      moreover have "Some y \<noteq> qq_tail (qos_at q l c)"
        using nodes_disjoint [OF bok dl ok(2) q'(1)] q'(2) y tail level_in_node [OF ok(3)] by (metis disjoint_iff)
      ultimately show ?thesis using A' by blast
    qed
    moreover have "cf_tlli c' q' = cf_tlli c q'" using A' q'(2) by blast
    moreover have "?bs q' = bs q'" using q'(2) by simp
    ultimately show ?thesis using node_ok_cong [of c' q' c ?bs bs] by blast
  qed
  have nq: "b \<notin> set (node_buffs bs q)" using nb ok(2) by auto
  have len: "length (tq_qos (cf_tlli c' q)) = 4" using A' nok ok(2) by (simp add: node_ok_def)
  have buf: "cf_buff c' y = cf_buff c y \<or> cf_buff c' y = (cf_buff c y)\<lparr>ub_next := Some b\<rparr> \<and> Some y = qq_tail (qos_at q l c)"
    if "y \<in> set (node_buffs bs q)" for y
    using A' nq that by metis
  have B: "\<forall>y \<in> set (node_buffs bs q). item_of c' y = item_of c y \<and> bpv c' y = bpv c y \<and>
         (Some y \<noteq> qq_tail (qos_at q l c) \<longrightarrow> bnx c' y = bnx c y)"
    using buf by (fastforce simp: item_of_def bnx_def bpv_def)
  have B2: "bnx c' b = None" "bpv c' b = qq_tail (qos_at q l c)"
    "\<forall>y. qq_tail (qos_at q l c) = Some y \<longrightarrow> bnx c' y = Some b"
    using A' by (auto simp: bnx_def bpv_def)
  have node: "node_ok c' ?bs q"
    "tp_levels (pdus_of c' ?bs q) = (tp_levels (pdus_of c bs q))[l := tp_levels (pdus_of c bs q) ! l @ [i]]"
    using node_append [OF nok [rule_format, OF ok(2)] ok(3) few_buffs(2) [OF bok ok(2)] nq len _ _ _ _ _ _ _ _ B2 B, of i] A'
    by blast+
  have "tq_rx_bytes (cf_tlli c' q) = item_bytes (all_items (pdus_of c' ?bs q))"
    using node(1) by (simp add: node_ok_def all_items_pdus)
  moreover have "all_items ((pdus_of c bs q)\<lparr>tp_levels := tp_levels (pdus_of c' ?bs q)\<rparr>) = all_items (pdus_of c' ?bs q)"
    by (simp add: all_items_def)
  ultimately have "pdus_of c' ?bs q = add_item l i (pdus_of c bs q)"
    unfolding add_item_def Let_def node(2) [symmetric] using A'
    by (simp add: pdus_of_def)
  then have "map (pdus_of c' ?bs) ls = on_tlli (tq_tlli (cf_tlli c q)) (add_item l i) (map (pdus_of c bs) ls)"
    using on_tlli_node [of c ls q "tq_tlli (cf_tlli c q)" "pdus_of c' ?bs" bs "add_item l i"] lok ok(2) other
    by (simp add: lists_ok_def)
  moreover have "udt_ok c' ls ?bs" using lok' bok' node(1) other nok by (auto simp: udt_ok_def)
  ultimately show ?thesis by blast
qed

section \<open>Queueing implements its specification\<close>

lemma read_fold [udt_read]:
  "tq_qos (cf_tlli c q) ! l = qos_at q l c"
  "qos_at q' l (upd_tlli q f c) = (if q' = q then tq_qos (f (cf_tlli c q)) ! l else qos_at q' l c)"
  by (simp_all add: qos_at_def udt_read)

lemma count_buffer_read [udt_read]:
  "cf_buff (count_buffer q l sz c) = cf_buff c" "cf_buff_used (count_buffer q l sz c) = cf_buff_used c"
  "cf_tlli_used (count_buffer q l sz c) = cf_tlli_used c" "cf_tlli_q_head (count_buffer q l sz c) = cf_tlli_q_head c"
  "cf_tlli_q_tail (count_buffer q l sz c) = cf_tlli_q_tail c" "cf_watermark_cb (count_buffer q l sz c) = cf_watermark_cb c"
  "q' \<noteq> q \<Longrightarrow> cf_tlli (count_buffer q l sz c) q' = cf_tlli c q'"
  "tq_next (cf_tlli (count_buffer q l sz c) q) = tq_next (cf_tlli c q)"
  "tq_prev (cf_tlli (count_buffer q l sz c) q) = tq_prev (cf_tlli c q)"
  "tq_tlli (cf_tlli (count_buffer q l sz c) q) = tq_tlli (cf_tlli c q)"
  "length (tq_qos (cf_tlli (count_buffer q l sz c) q)) = length (tq_qos (cf_tlli c q))"
  "tq_buff_count (cf_tlli (count_buffer q l sz c) q) = tq_buff_count (cf_tlli c q) + 1"
  "tq_rx_bytes (cf_tlli (count_buffer q l sz c) q) = tq_rx_bytes (cf_tlli c q) + sz"
  "tq_high_watermark_indicated (cf_tlli (count_buffer q l sz c) q) =
     (tq_high_watermark_indicated (cf_tlli c q) \<or> tq_rx_bytes (cf_tlli c q) + sz \<ge> tlli_high_watermark_bytes)"
  "l < length (tq_qos (cf_tlli c q)) \<Longrightarrow> qos_at q' l' (count_buffer q l sz c) =
     (if q' = q \<and> l' = l then (qos_at q l c)\<lparr>qq_buff_count := qq_buff_count (qos_at q l c) + 1,
        qq_rx_bytes := qq_rx_bytes (qos_at q l c) + sz\<rparr> else qos_at q' l' c)"
  by (simp_all add: count_buffer_def Let_def udt_read)

text \<open>The state with buffer \<open>b\<close> taken and filled.\<close>

definition filled :: "nat \<Rightarrow> nat \<Rightarrow> 32 word \<Rightarrow> 'd DlUnitData \<Rightarrow> 'd UdtConfig \<Rightarrow> 'd UdtConfig" where
  "filled b buff sz msg c = upd_buff b (\<lambda>u. u\<lparr>ub_data := buff, ub_data_size := sz,
     ub_dl_unitdata := msg\<lparr>um_pdu_data := buff, um_pdu_data_len := sz\<rparr>\<rparr>) (c\<lparr>cf_buff_used := (cf_buff_used c)[b := True]\<rparr>)"

definition stored_item :: "nat \<Rightarrow> 32 word \<Rightarrow> 'd DlUnitData \<Rightarrow> 'd item" where
  "stored_item buff sz msg = (buff, sz, msg\<lparr>um_pdu_data := buff, um_pdu_data_len := sz\<rparr>)"

lemma filled_read [udt_read]:
  "cf_tlli (filled b buff sz msg c) = cf_tlli c" "cf_tlli_used (filled b buff sz msg c) = cf_tlli_used c"
  "cf_tlli_q_head (filled b buff sz msg c) = cf_tlli_q_head c" "cf_tlli_q_tail (filled b buff sz msg c) = cf_tlli_q_tail c"
  "cf_watermark_cb (filled b buff sz msg c) = cf_watermark_cb c" "qos_at q l (filled b buff sz msg c) = qos_at q l c"
  "cf_buff_used (filled b buff sz msg c) = (cf_buff_used c)[b := True]"
  "y \<noteq> b \<Longrightarrow> cf_buff (filled b buff sz msg c) y = cf_buff c y"
  "item_of (filled b buff sz msg c) b = stored_item buff sz msg"
  by (simp_all add: filled_def upd_buff_def qos_at_def item_of_def stored_item_def)

lemma first_buffer_added:
  assumes "l < length (tq_qos (cf_tlli c q))" "qq_tail (qos_at q l c) = None"
  shows "added c q l b (stored_item buff sz msg) (count_buffer q l sz (first_buffer q l b msg' (filled b buff sz msg c)))"
proof -
  have i: "item_of (first_buffer q l b msg' d) y = item_of d y" for d :: "'a UdtConfig" and y
    by (simp add: item_of_def first_buffer_def udt_read)
  have j: "item_of (count_buffer q l sz d) y = item_of d y" for d :: "'a UdtConfig" and y
    by (simp add: item_of_def udt_read)
  show ?thesis
    unfolding added_def i j using assms
    by (simp add: udt_read first_buffer_def) (simp add: stored_item_def)
qed

lemma next_buffer_added:
  assumes "l < length (tq_qos (cf_tlli c q))" "qq_tail (qos_at q l c) = Some t" "t \<noteq> b"
  obtains c' where "next_buffer q l b (filled b buff sz msg c) = Some c'"
    "added c q l b (stored_item buff sz msg) (count_buffer q l sz c')" "cf_watermark_cb c' = cf_watermark_cb c"
proof -
  obtain c' where c': "next_buffer q l b (filled b buff sz msg c) = Some c'" using assms(2) by (simp add: next_buffer_def udt_read Let_def)
  have i: "item_of c' y = item_of (filled b buff sz msg c) y" for y
    using c' assms(2,3) by (auto simp: item_of_def next_buffer_def udt_read Let_def)
  have j: "item_of (count_buffer q l sz d) y = item_of d y" for d :: "'a UdtConfig" and y
    by (simp add: item_of_def udt_read)
  have "added c q l b (stored_item buff sz msg) (count_buffer q l sz c')"
    unfolding added_def i j using assms c'
    by (auto simp: udt_read next_buffer_def Let_def stored_item_def)
  moreover have "cf_watermark_cb c' = cf_watermark_cb c" using c' assms(2) by (auto simp: udt_read next_buffer_def Let_def)
  ultimately show ?thesis using that c' by blast
qed

text \<open>A node for a new TLLI at the end of the list, without buffers.\<close>

definition new_node :: "32 word \<Rightarrow> nat option \<Rightarrow> TlliQueue" where
  "new_node t prev = empty_tlli\<lparr>tq_prev := prev, tq_tlli := t\<rparr>"

lemma new_node_ok:
  assumes ok: "udt_ok c ls bs" "first_unused (cf_tlli_used c) = Some q" "\<forall>q \<in> set ls. tq_tlli (cf_tlli c q) \<noteq> t"
    and c': "cf_tlli_used c' = (cf_tlli_used c)[q := True]" "cf_buff_used c' = cf_buff_used c" "cf_buff c' = cf_buff c"
      "cf_tlli_q_head c' = (if cf_tlli_q_tail c = None then Some q else cf_tlli_q_head c)" "cf_tlli_q_tail c' = Some q"
      "cf_tlli c' q = new_node t (cf_tlli_q_tail c)"
      "\<forall>y. y \<noteq> q \<and> Some y \<noteq> cf_tlli_q_tail c \<longrightarrow> cf_tlli c' y = cf_tlli c y"
      "\<forall>y. cf_tlli_q_tail c = Some y \<longrightarrow> cf_tlli c' y = (cf_tlli c y)\<lparr>tq_next := Some q\<rparr>"
  shows "udt_ok c' (ls @ [q]) (bs(q := \<lambda>_. []))" "q \<notin> set ls"
    "map (pdus_of c' (bs(q := \<lambda>_. []))) (ls @ [q]) = map (pdus_of c bs) ls @ [no_pdus t]"
proof -
  let ?bs = "bs(q := \<lambda>_. [])"
  have lok: "lists_ok c ls" and bok: "buffs_ok c ls bs" and nok: "\<forall>q \<in> set ls. node_ok c bs q" using ok(1) by (auto simp: udt_ok_def)
  note qu = first_unused_Some [OF ok(2)]
  then show nq: "q \<notin> set ls" using lok unfolding lists_ok_def by blast
  have D: "dlinked (tnx c) (tpv c) (cf_tlli_q_head c) (cf_tlli_q_tail c) ls" using lok by (simp add: lists_ok_def)
  have tl: "y \<in> set ls" if "cf_tlli_q_tail c = Some y" for y
    using dlinked_tail [OF D] that by (cases "ls = []") auto
  have same: "cf_tlli c' y = cf_tlli c y \<or> cf_tlli c' y = (cf_tlli c y)\<lparr>tq_next := Some q\<rparr> \<and> cf_tlli_q_tail c = Some y"
    if "y \<in> set ls" for y
    using c'(7,8) nq that by metis
  then have tlli: "tq_tlli (cf_tlli c' y) = tq_tlli (cf_tlli c y)" "tq_qos (cf_tlli c' y) = tq_qos (cf_tlli c y)"
    "tq_buff_count (cf_tlli c' y) = tq_buff_count (cf_tlli c y)" "tq_rx_bytes (cf_tlli c' y) = tq_rx_bytes (cf_tlli c y)"
    "tq_high_watermark_indicated (cf_tlli c' y) = tq_high_watermark_indicated (cf_tlli c y)"
    "tpv c' y = tpv c y" if "y \<in> set ls" for y
    using that by (fastforce simp: tpv_def)+
  have "dlinked (tnx c') (tpv c') (cf_tlli_q_head c') (cf_tlli_q_tail c') (ls @ [q])"
    unfolding c'(4,5)
  proof (rule dlinked_append [OF D nq])
    show "\<forall>y \<in> set ls. tpv c' y = tpv c y" using tlli by blast
    show "\<forall>y \<in> set ls. Some y \<noteq> cf_tlli_q_tail c \<longrightarrow> tnx c' y = tnx c y" using same by (metis tnx_def)
    show "\<forall>y. cf_tlli_q_tail c = Some y \<longrightarrow> tnx c' y = Some q" using c'(8) by (simp add: tnx_def)
    show "tnx c' q = None" "tpv c' q = cf_tlli_q_tail c" by (simp_all add: c'(6) tnx_def tpv_def new_node_def empty_tlli_def)
  qed
  moreover have "distinct (map (\<lambda>q. tq_tlli (cf_tlli c' q)) (ls @ [q]))"
  proof -
    have "map (\<lambda>q. tq_tlli (cf_tlli c' q)) ls = map (\<lambda>q. tq_tlli (cf_tlli c q)) ls" using tlli(1) by simp
    then have "distinct (map (\<lambda>q. tq_tlli (cf_tlli c' q)) ls)" using lok by (simp only: lists_ok_def)
    moreover have "tq_tlli (cf_tlli c' q) = t" by (simp add: c'(6) new_node_def)
    moreover have "\<forall>y \<in> set ls. tq_tlli (cf_tlli c' y) \<noteq> t" using ok(3) tlli(1) by simp
    ultimately show ?thesis by (auto simp del: distinct_map)
  qed
  moreover have "x \<in> set (ls @ [q]) \<longleftrightarrow> x < length (cf_tlli_used c') \<and> cf_tlli_used c' ! x" for x
    using lok qu unfolding lists_ok_def c'(1) by (cases "x = q") auto
  moreover have "cf_tlli c' x = empty_tlli" if "x < length (cf_tlli_used c')" "x \<notin> set (ls @ [q])" for x
    using lok that c'(1,7) tl unfolding lists_ok_def by auto
  ultimately have lok': "lists_ok c' (ls @ [q])" unfolding lists_ok_def by blast
  have "node_buffs ?bs q = []" by (simp add: node_buffs_def)
  moreover have "node_buffs ?bs y = node_buffs bs y" if "y \<in> set ls" for y
    using nq that by (intro node_buffs_other) auto
  then have "concat (map (node_buffs ?bs) ls) = concat (map (node_buffs bs) ls)" by (simp cong: map_cong)
  ultimately have bok': "buffs_ok c' (ls @ [q]) ?bs" using bok c'(2) by (simp add: buffs_ok_def)
  have old: "node_ok c' ?bs y \<and> pdus_of c' ?bs y = pdus_of c bs y" if y: "y \<in> set ls" for y
  proof -
    have b: "?bs y = bs y" "node_buffs ?bs y = node_buffs bs y" using nq y by (auto simp: node_buffs_def)
    have i: "item_of c' = item_of c" "bnx c' = bnx c" "bpv c' = bpv c" "\<And>l. qos_at y l c' = qos_at y l c"
      using c'(3) tlli(2) [OF y] by (simp_all add: item_of_def bnx_def bpv_def qos_at_def fun_eq_iff)
    have "y \<noteq> q" using nq y by auto
    then show ?thesis using nok y by (simp add: node_ok_def pdus_of_def b i tlli [OF y])
  qed
  have nodeq: "node_ok c' ?bs q"
    using \<open>node_buffs ?bs q = []\<close>
    by (auto simp: node_ok_def c'(6) new_node_def empty_tlli_def empty_qos_def qos_at_def)
  have "pdus_of c' ?bs q = no_pdus t"
    by (simp add: pdus_of_def no_pdus_def c'(6) new_node_def empty_tlli_def eval_nat_numeral)
  then show "map (pdus_of c' ?bs) (ls @ [q]) = map (pdus_of c bs) ls @ [no_pdus t]" using old by simp
  show "udt_ok c' (ls @ [q]) ?bs" using lok' bok' old nodeq by (simp add: udt_ok_def)
qed

definition udt_sizes :: "'d UdtConfig \<Rightarrow> nat \<times> nat \<times> bool" where
  "udt_sizes c = (length (cf_tlli_used c), length (cf_buff_used c), cf_watermark_cb c)"

lemma return_taken:
  assumes "b < length (cf_buff_used c)" "\<not> cf_buff_used c ! b"
  shows "cf_buff_used (bssgp_udt_return_buff_to_pool b (filled b buff sz msg c)) = cf_buff_used c"
    "cf_tlli (bssgp_udt_return_buff_to_pool b (filled b buff sz msg c)) = cf_tlli c"
    "udt_sizes (bssgp_udt_return_buff_to_pool b (filled b buff sz msg c)) = udt_sizes c"
  using assms by (auto simp: bssgp_udt_return_buff_to_pool_def udt_read udt_sizes_def list_eq_iff_nth_eq nth_list_update)

text \<open>A buffer outside the lists may hold anything.\<close>

lemma udt_ok_outside:
  assumes ok: "udt_ok c ls bs"
    and c': "cf_tlli c' = cf_tlli c" "cf_tlli_used c' = cf_tlli_used c" "cf_buff_used c' = cf_buff_used c"
      "cf_tlli_q_head c' = cf_tlli_q_head c" "cf_tlli_q_tail c' = cf_tlli_q_tail c"
      "\<forall>y < length (cf_buff_used c). cf_buff_used c ! y \<longrightarrow> cf_buff c' y = cf_buff c y"
  shows "udt_ok c' ls bs" "map (pdus_of c' bs) ls = map (pdus_of c bs) ls"
proof -
  have "y < length (cf_buff_used c) \<and> cf_buff_used c ! y" if "q \<in> set ls" "y \<in> set (node_buffs bs q)" for q y
    using ok that unfolding udt_ok_def buffs_ok_def by auto
  then have n: "node_ok c' bs q = node_ok c bs q \<and> pdus_of c' bs q = pdus_of c bs q" if "q \<in> set ls" for q
    using node_ok_cong [of c' q c bs bs] c'(1,6) that by metis
  then show "map (pdus_of c' bs) ls = map (pdus_of c bs) ls" by simp
  show "udt_ok c' ls bs"
    using ok n by (simp add: udt_ok_def lists_ok_def buffs_ok_def c'(1-5) tnx_def tpv_def)
qed

lemma refuse_ok:
  assumes "udt_ok c ls bs" "b < length (cf_buff_used c)" "\<not> cf_buff_used c ! b"
  shows "udt_ok (bssgp_udt_return_buff_to_pool b (filled b buff sz msg c)) ls bs"
    "map (pdus_of (bssgp_udt_return_buff_to_pool b (filled b buff sz msg c)) bs) ls = map (pdus_of c bs) ls"
proof -
  let ?c = "bssgp_udt_return_buff_to_pool b (filled b buff sz msg c)"
  have r: "cf_tlli_used ?c = cf_tlli_used c" "cf_tlli_q_head ?c = cf_tlli_q_head c" "cf_tlli_q_tail ?c = cf_tlli_q_tail c"
    "\<forall>y. y \<noteq> b \<longrightarrow> cf_buff ?c y = cf_buff c y"
    by (simp_all add: bssgp_udt_return_buff_to_pool_def udt_read)
  have "\<forall>y < length (cf_buff_used c). cf_buff_used c ! y \<longrightarrow> cf_buff ?c y = cf_buff c y" using r(4) assms(3) by metis
  then show "udt_ok ?c ls bs" "map (pdus_of ?c bs) ls = map (pdus_of c bs) ls"
    using udt_ok_outside [OF assms(1) return_taken(2) [OF assms(2,3)] r(1) return_taken(1) [OF assms(2,3)] r(2,3)] by blast+
qed

lemma tail_none:
  assumes "node_ok c bs q" "l < 4"
  shows "qq_tail (qos_at q l c) = None \<longleftrightarrow> qq_head (qos_at q l c) = None"
proof -
  have "qq_head (qos_at q l c) = first_of (bs q l) None" "qq_tail (qos_at q l c) = last_of None (bs q l)"
    using assms by (auto simp: node_ok_def dlinked_def)
  then show ?thesis by (cases "bs q l = []") auto
qed

lemma added_sizes: "added c q l b i c' \<Longrightarrow> length (cf_tlli_used c') = length (cf_tlli_used c) \<and> length (cf_buff_used c') = length (cf_buff_used c)"
  by (simp add: added_def)

text \<open>Into the lists of a TLLI that has a node.\<close>

lemma put_existing:
  assumes ok: "udt_ok c ls bs" "q \<in> set ls" "l < 4" "b < length (cf_buff_used c)" "\<not> cf_buff_used c ! b"
  obtains c' bs' where
    "(if qq_head (qos_at q l c) = None then Some (True, count_buffer q l sz (first_buffer q l b msg (filled b buff sz msg c)))
      else do { c2 \<leftarrow> next_buffer q l b (filled b buff sz msg c); Some (True, count_buffer q l sz c2) }) = Some (True, c')"
    "udt_ok c' ls bs'" "udt_sizes c' = udt_sizes c"
    "map (pdus_of c' bs') ls = on_tlli (tq_tlli (cf_tlli c q)) (add_item l (stored_item buff sz msg)) (map (pdus_of c bs) ls)"
proof -
  have nok: "node_ok c bs q" using ok(1,2) by (simp add: udt_ok_def)
  then have len: "l < length (tq_qos (cf_tlli c q))" using ok(3) by (simp add: node_ok_def)
  obtain c' where c': "(if qq_head (qos_at q l c) = None then Some (True, count_buffer q l sz (first_buffer q l b msg (filled b buff sz msg c)))
      else do { c2 \<leftarrow> next_buffer q l b (filled b buff sz msg c); Some (True, count_buffer q l sz c2) }) = Some (True, c')"
    "added c q l b (stored_item buff sz msg) c'" "cf_watermark_cb c' = cf_watermark_cb c"
  proof (cases "qq_tail (qos_at q l c)")
    case None
    then show ?thesis
      using that [of "count_buffer q l sz (first_buffer q l b msg (filled b buff sz msg c))"] first_buffer_added [OF len None]
        tail_none [OF nok ok(3)] by (simp add: udt_read first_buffer_def)
  next
    case (Some t)
    have "t \<in> set (concat (map (node_buffs bs) ls))"
      using level_in_node [of l t bs q, OF ok(3) tail_in_level [OF nok ok(3) Some]] ok(2) by auto
    then have "t \<noteq> b" using ok(1,5) unfolding udt_ok_def buffs_ok_def by blast
    then obtain c2 where "next_buffer q l b (filled b buff sz msg c) = Some c2"
      "added c q l b (stored_item buff sz msg) (count_buffer q l sz c2)" "cf_watermark_cb c2 = cf_watermark_cb c"
      by (rule next_buffer_added [OF len Some])
    moreover obtain x where "qq_head (qos_at q l c) = Some x" using tail_none [OF nok ok(3)] Some by auto
    ultimately show ?thesis by (intro that [of "count_buffer q l sz c2"]) (simp_all add: udt_read)
  qed
  then have "udt_sizes c' = udt_sizes c" using added_sizes [OF c'(2)] by (simp add: udt_sizes_def)
  then show ?thesis using added_ok [OF ok c'(2)] that c'(1) by blast
qed

text \<open>Into the lists of a new node.\<close>

lemma put_new:
  assumes ok: "udt_ok c ls bs" "l < 4" "b < length (cf_buff_used c)" "\<not> cf_buff_used c ! b"
    and q: "first_unused (cf_tlli_used c) = Some q" "\<forall>q \<in> set ls. tq_tlli (cf_tlli c q) \<noteq> t"
    and d: "cf_tlli_used d = (cf_tlli_used c)[q := True]" "cf_buff_used d = cf_buff_used c" "cf_buff d = cf_buff c"
      "cf_tlli_q_head d = (if cf_tlli_q_tail c = None then Some q else cf_tlli_q_head c)" "cf_tlli_q_tail d = Some q"
      "cf_tlli d q = new_node t (cf_tlli_q_tail c)"
      "\<forall>y. y \<noteq> q \<and> Some y \<noteq> cf_tlli_q_tail c \<longrightarrow> cf_tlli d y = cf_tlli c y"
      "\<forall>y. cf_tlli_q_tail c = Some y \<longrightarrow> cf_tlli d y = (cf_tlli c y)\<lparr>tq_next := Some q\<rparr>"
      "cf_watermark_cb d = cf_watermark_cb c"
  shows "represents (count_buffer q l sz (first_buffer q l b msg (filled b buff sz msg d)))
       (map (pdus_of c bs) ls @ [add_item l (stored_item buff sz msg) (no_pdus t)])"
    "udt_sizes (count_buffer q l sz (first_buffer q l b msg (filled b buff sz msg d))) = udt_sizes c"
proof -
  let ?c = "count_buffer q l sz (first_buffer q l b msg (filled b buff sz msg d))"
  have N: "udt_ok d (ls @ [q]) (bs(q := \<lambda>_. []))" "q \<notin> set ls"
    "map (pdus_of d (bs(q := \<lambda>_. []))) (ls @ [q]) = map (pdus_of c bs) ls @ [no_pdus t]"
    using new_node_ok [OF ok(1) q d(1-8)] by blast+
  have qd: "qos_at q l d = empty_qos" "length (tq_qos (cf_tlli d q)) = 4" "tq_tlli (cf_tlli d q) = t"
    using ok(2) by (simp_all add: qos_at_def d(6) new_node_def empty_tlli_def)
  have a: "added d q l b (stored_item buff sz msg) ?c"
    by (rule first_buffer_added) (use qd ok(2) in \<open>simp_all add: empty_qos_def\<close>)
  obtain bs' where B: "udt_ok ?c (ls @ [q]) bs'" "map (pdus_of ?c bs') (ls @ [q]) =
      on_tlli (tq_tlli (cf_tlli d q)) (add_item l (stored_item buff sz msg)) (map (pdus_of d (bs(q := \<lambda>_. []))) (ls @ [q]))"
    by (rule exE [OF added_ok [OF N(1) _ ok(2) _ _ a]]) (use ok d(2) in auto)
  have "on_tlli t f (map (pdus_of c bs) ls @ [no_pdus t]) = map (pdus_of c bs) ls @ [f (no_pdus t)]" for f
    using q(2) by (auto simp: on_tlli_def no_pdus_def pdus_of_def)
  then show "represents ?c (map (pdus_of c bs) ls @ [add_item l (stored_item buff sz msg) (no_pdus t)])"
    using B unfolding N(3) qd(3) represents_def by metis
  show "udt_sizes ?c = udt_sizes c"
    using d(1,2,9) by (simp add: udt_sizes_def udt_read first_buffer_def)
qed

lemma filled_move:
  "filled b buff sz msg (upd_tlli q f c) = upd_tlli q f (filled b buff sz msg c)"
  "filled b buff sz msg (c\<lparr>cf_tlli_q_head := h\<rparr>) = (filled b buff sz msg c)\<lparr>cf_tlli_q_head := h\<rparr>"
  "filled b buff sz msg (c\<lparr>cf_tlli_q_tail := h\<rparr>) = (filled b buff sz msg c)\<lparr>cf_tlli_q_tail := h\<rparr>"
  "filled b buff sz msg (c\<lparr>cf_tlli_used := us\<rparr>) = (filled b buff sz msg c)\<lparr>cf_tlli_used := us\<rparr>"
  by (simp_all add: filled_def upd_tlli_def upd_buff_def)

lemma put_refines:
  assumes "represents c qs" "l < 4"
  shows "\<exists>c'. bssgp_udt_put_buffer_in_q tlli l buff sz msg c =
       Some (fst (spec_put (length (cf_tlli_used c)) (length (cf_buff_used c)) (cf_watermark_cb c) tlli l (stored_item buff sz msg) qs), c') \<and>
     represents c' (snd (spec_put (length (cf_tlli_used c)) (length (cf_buff_used c)) (cf_watermark_cb c) tlli l (stored_item buff sz msg) qs)) \<and>
     udt_sizes c' = udt_sizes c"
proof -
  obtain ls bs where ok: "udt_ok c ls bs" and qs: "qs = map (pdus_of c bs) ls" using assms(1) by (auto simp: represents_def)
  have lok: "lists_ok c ls" and bok: "buffs_ok c ls bs" using ok by (auto simp: udt_ok_def)
  have D: "dlinked (tnx c) (tpv c) (cf_tlli_q_head c) (cf_tlli_q_tail c) ls" using lok by (simp add: lists_ok_def)
  show ?thesis
  proof (cases "first_unused (cf_buff_used c)")
    case None
    then show ?thesis using all_used [OF bok] assms(1) unfolding qs
      by (simp add: spec_put_def bssgp_udt_put_buffer_in_q_def bssgp_udt_get_buff_from_pool_def del: map_map)
  next
    case (Some b)
    note b = first_unused_Some [OF Some]
    have full: "length (concat (map all_items qs)) \<noteq> length (cf_buff_used c)" using all_used [OF bok] Some qs by simp
    let ?f = "filled b buff sz msg"
    have put: "bssgp_udt_put_buffer_in_q tlli l buff sz msg c = (case cf_tlli_q_head c of
        None \<Rightarrow> (case bssgp_udt_get_tlli_list_from_pool (?f c) of
             (None, c2) \<Rightarrow> Some (False, bssgp_udt_return_buff_to_pool b c2)
           | (Some q, c2) \<Rightarrow> Some (True, count_buffer q l sz (first_buffer q l b msg
               (upd_tlli q (\<lambda>t. t\<lparr>tq_prev := None, tq_next := None, tq_tlli := tlli\<rparr>)
                 (c2\<lparr>cf_tlli_q_head := Some q, cf_tlli_q_tail := Some q\<rparr>)))))
      | Some h \<Rightarrow> do {
          q \<leftarrow> find_tlli (?f c) tlli h;
          if tq_tlli (cf_tlli c q) = tlli then
            if tq_high_watermark_indicated (cf_tlli c q) \<and> \<not> cf_watermark_cb c
            then Some (False, bssgp_udt_return_buff_to_pool b (?f c))
            else if qq_head (qos_at q l c) = None
            then Some (True, count_buffer q l sz (first_buffer q l b msg (?f c)))
            else do { c2 \<leftarrow> next_buffer q l b (?f c); Some (True, count_buffer q l sz c2) }
          else if tq_next (cf_tlli c q) = None then
            (case bssgp_udt_get_tlli_list_from_pool (?f c) of
               (None, c2) \<Rightarrow> Some (False, bssgp_udt_return_buff_to_pool b c2)
             | (Some q', c2) \<Rightarrow> do {
                 let c3 = upd_tlli q' (\<lambda>t. t\<lparr>tq_prev := cf_tlli_q_tail c2\<rparr>) c2;
                 t \<leftarrow> cf_tlli_q_tail c3;
                 let c4 = upd_tlli t (\<lambda>t. t\<lparr>tq_next := Some q'\<rparr>) c3;
                 let c5 = upd_tlli q' (\<lambda>t. t\<lparr>tq_next := None\<rparr>) c4;
                 let c6 = upd_tlli q' (\<lambda>t. t\<lparr>tq_tlli := tlli\<rparr>) (c5\<lparr>cf_tlli_q_tail := Some q'\<rparr>);
                 Some (True, count_buffer q' l sz (first_buffer q' l b msg c6))
               })
          else Some (True, count_buffer q l sz (?f c))
        })"
      unfolding bssgp_udt_put_buffer_in_q_def bssgp_udt_get_buff_from_pool_def Some option.case prod.case Let_def
        filled_def [symmetric]
      by (simp only: udt_read)
    have refuse: "represents (bssgp_udt_return_buff_to_pool b (?f c)) qs"
      "udt_sizes (bssgp_udt_return_buff_to_pool b (?f c)) = udt_sizes c"
      using refuse_ok [OF ok b [THEN conjunct1] b [THEN conjunct2], of buff sz msg] return_taken(3) b qs unfolding represents_def by metis+
    have pool: "bssgp_udt_get_tlli_list_from_pool (?f c) = (case first_unused (cf_tlli_used c) of
        None \<Rightarrow> (None, ?f c) | Some q \<Rightarrow> (Some q, (?f c)\<lparr>cf_tlli_used := (cf_tlli_used c)[q := True]\<rparr>))"
      unfolding bssgp_udt_get_tlli_list_from_pool_def filled_read(2) ..
    have lists: "length qs = length (cf_tlli_used c) \<longleftrightarrow> first_unused (cf_tlli_used c) = None"
      using all_lists_used [OF lok] qs by simp
    have fresh: "cf_tlli c q = empty_tlli \<and> q \<notin> set ls" if "first_unused (cf_tlli_used c) = Some q" for q
      using first_unused_Some [OF that] lok unfolding lists_ok_def by blast
    have lokf: "lists_ok (?f c) ls" using lok by (simp add: lists_ok_def tnx_def tpv_def udt_read)
    show ?thesis
    proof (cases "find (\<lambda>q. tq_tlli (cf_tlli c q) = tlli) ls")
      case (Some q)
      note q = find_tlli_in [OF Some]
      then obtain h where h: "cf_tlli_q_head c = Some h" using dlinked_head [OF D] by (cases ls) auto
      have f: "find_tlli (?f c) tlli h = Some q" using find_node(1) [OF lokf, of h tlli] h Some by (simp add: udt_read)
      have a: "of_tlli tlli qs = Some (pdus_of c bs q)" unfolding qs of_tlli_pdus Some by simp
      obtain c' bs' where c': 
        "(if qq_head (qos_at q l c) = None then Some (True, count_buffer q l sz (first_buffer q l b msg (?f c)))
          else do { c2 \<leftarrow> next_buffer q l b (?f c); Some (True, count_buffer q l sz c2) }) = Some (True, c')"
        "udt_ok c' ls bs'" "udt_sizes c' = udt_sizes c"
        "map (pdus_of c' bs') ls = on_tlli (tq_tlli (cf_tlli c q)) (add_item l (stored_item buff sz msg)) (map (pdus_of c bs) ls)"
        by (rule put_existing [OF ok q(1) assms(2) b [THEN conjunct1] b [THEN conjunct2]])
      then have "represents c' (on_tlli tlli (add_item l (stored_item buff sz msg)) qs)"
        using qs q(2) unfolding represents_def by metis
      moreover have "tp_high (pdus_of c bs q) = tq_high_watermark_indicated (cf_tlli c q)" by (simp add: pdus_of_def)
      ultimately show ?thesis
        using c'(1,3) refuse by (simp add: put h f q(2) spec_put_def full a del: not_None_eq)
    next
      case None
      then have nt: "\<forall>q \<in> set ls. tq_tlli (cf_tlli c q) \<noteq> tlli" by (simp add: find_None_iff)
      have a: "of_tlli tlli qs = None" unfolding qs of_tlli_pdus None by simp
      have spec: "spec_put (length (cf_tlli_used c)) (length (cf_buff_used c)) (cf_watermark_cb c) tlli l (stored_item buff sz msg) qs =
          (True, qs @ [add_item l (stored_item buff sz msg) (no_pdus tlli)])" if "first_unused (cf_tlli_used c) = Some q" for q
        using that lists full a by (simp add: spec_put_def)
      show ?thesis
      proof (cases "cf_tlli_q_head c")
        case None
        then have e: "ls = []" "cf_tlli_q_tail c = None" using D by (cases ls; simp add: dlinked_def)+
        show ?thesis
        proof (cases "first_unused (cf_tlli_used c)")
          case None
          then show ?thesis using refuse lists \<open>cf_tlli_q_head c = None\<close> by (simp add: put pool spec_put_def full a)
        next
          case (Some q)
          let ?d = "upd_tlli q (\<lambda>t. t\<lparr>tq_prev := None, tq_next := None, tq_tlli := tlli\<rparr>)
            (c\<lparr>cf_tlli_used := (cf_tlli_used c)[q := True], cf_tlli_q_head := Some q, cf_tlli_q_tail := Some q\<rparr>)"
          have "represents (count_buffer q l sz (first_buffer q l b msg (?f ?d))) (qs @ [add_item l (stored_item buff sz msg) (no_pdus tlli)])"
             "udt_sizes (count_buffer q l sz (first_buffer q l b msg (?f ?d))) = udt_sizes c"
            unfolding qs
            by (rule put_new [OF ok assms(2) b [THEN conjunct1] b [THEN conjunct2] Some nt],
              use e fresh [OF Some] in \<open>simp_all add: udt_read new_node_def empty_tlli_def\<close>)+
          moreover have "bssgp_udt_put_buffer_in_q tlli l buff sz msg c =
              Some (True, count_buffer q l sz (first_buffer q l b msg (?f ?d)))"
            using \<open>cf_tlli_q_head c = None\<close> Some by (simp add: put pool filled_move)
          ultimately show ?thesis unfolding spec [OF Some] fst_conv snd_conv by blast
        qed
      next
        case (Some h)
        have f: "find_tlli (?f c) tlli h = Some (last ls)" "ls \<noteq> []"
          using find_node(1) [OF lokf, of h tlli] find_node(2) [OF lokf, of h] Some \<open>find _ ls = None\<close>
          by (simp_all add: udt_read)
        then have nx: "tq_next (cf_tlli c (last ls)) = None" and tl: "cf_tlli_q_tail c = Some (last ls)"
          using dlinked_nth_next(1) [of "tnx c" "tpv c" _ _ "butlast ls" "last ls" "[]"] D dlinked_tail [OF D]
          by (simp_all add: tnx_def)
        have ntl: "tq_tlli (cf_tlli c (last ls)) \<noteq> tlli" using nt f(2) by simp
        show ?thesis
        proof (cases "first_unused (cf_tlli_used c)")
          case None
          then show ?thesis using refuse lists Some by (simp add: put pool spec_put_def full a f(1) nx ntl)
        next
          case (Some q)
          let ?d = "upd_tlli q (\<lambda>t. t\<lparr>tq_tlli := tlli\<rparr>) ((upd_tlli q (\<lambda>t. t\<lparr>tq_next := None\<rparr>)
            (upd_tlli (last ls) (\<lambda>t. t\<lparr>tq_next := Some q\<rparr>) (upd_tlli q (\<lambda>t. t\<lparr>tq_prev := cf_tlli_q_tail c\<rparr>)
              (c\<lparr>cf_tlli_used := (cf_tlli_used c)[q := True]\<rparr>))))\<lparr>cf_tlli_q_tail := Some q\<rparr>)"
          have nq: "last ls \<noteq> q" using fresh [OF Some] f(2) by auto
          have "represents (count_buffer q l sz (first_buffer q l b msg (?f ?d))) (qs @ [add_item l (stored_item buff sz msg) (no_pdus tlli)])"
             "udt_sizes (count_buffer q l sz (first_buffer q l b msg (?f ?d))) = udt_sizes c"
            unfolding qs
            by (rule put_new [OF ok assms(2) b [THEN conjunct1] b [THEN conjunct2] Some nt],
              use tl fresh [OF Some] nq in \<open>auto simp: udt_read new_node_def empty_tlli_def\<close>)+
          moreover have "bssgp_udt_put_buffer_in_q tlli l buff sz msg c =
              Some (True, count_buffer q l sz (first_buffer q l b msg (?f ?d)))"
            using \<open>cf_tlli_q_head c = Some h\<close> Some tl
            by (simp add: put pool f(1) nx ntl Let_def udt_read filled_move)
          ultimately show ?thesis unfolding spec [OF Some] fst_conv snd_conv by blast
        qed
      qed
    qed
  qed
qed

section \<open>A buffer less\<close>

lemma buffs_ok_remove:
  assumes "buffs_ok c ls bs" "distinct ls" "q \<in> set ls" "l < 4" "bs q l = b # xs"
    "cf_buff_used c' = (cf_buff_used c)[b := False]"
  shows "buffs_ok c' ls (bs(q := (bs q)(l := xs)))"
proof -
  let ?bs = "bs(q := (bs q)(l := xs))"
  have m: "mset (concat (map (node_buffs bs) ls)) = add_mset b (mset (concat (map (node_buffs ?bs) ls)))"
    by (rule mset_concat_upd [OF assms(2,3)]) (auto simp: node_buffs_other node_remove [of l bs q b xs, OF assms(4,5)])
  have "distinct (concat (map (node_buffs bs) ls)) = distinct (b # concat (map (node_buffs ?bs) ls))"
    by (rule mset_eq_imp_distinct_iff) (simp add: m)
  moreover have "set (concat (map (node_buffs bs) ls)) = insert b (set (concat (map (node_buffs ?bs) ls)))"
    using arg_cong [OF m, of set_mset] by simp
  ultimately have d: "distinct (concat (map (node_buffs ?bs) ls))"
    "set (concat (map (node_buffs ?bs) ls)) = set (concat (map (node_buffs bs) ls)) - {b}"
    using assms(1) unfolding buffs_ok_def by auto
  have s: "x \<in> set (concat (map (node_buffs bs) ls)) \<longleftrightarrow> x < length (cf_buff_used c) \<and> cf_buff_used c ! x" for x
    using assms(1) unfolding buffs_ok_def by blast
  have "x \<in> set (concat (map (node_buffs ?bs) ls)) \<longleftrightarrow> x < length (cf_buff_used c') \<and> cf_buff_used c' ! x" for x
    unfolding d(2) Diff_iff s assms(6) by (cases "x = b") (auto simp: nth_list_update)
  moreover have "length (cf_buff_used c') < 2 ^ 32" using assms(1,6) by (simp add: buffs_ok_def)
  ultimately show "buffs_ok c' ls ?bs" using d(1) unfolding buffs_ok_def by blast
qed

definition taken :: "'d UdtConfig \<Rightarrow> nat \<Rightarrow> nat \<Rightarrow> nat \<Rightarrow> bool \<Rightarrow> 'd UdtConfig \<Rightarrow> bool" where
  "taken c q l b clears c' \<longleftrightarrow>
     cf_buff_used c' = (cf_buff_used c)[b := False] \<and> cf_tlli_used c' = cf_tlli_used c \<and>
     cf_tlli_q_head c' = cf_tlli_q_head c \<and> cf_tlli_q_tail c' = cf_tlli_q_tail c \<and>
     (\<forall>q'. q' \<noteq> q \<longrightarrow> cf_tlli c' q' = cf_tlli c q') \<and>
     tq_next (cf_tlli c' q) = tq_next (cf_tlli c q) \<and> tq_prev (cf_tlli c' q) = tq_prev (cf_tlli c q) \<and>
     tq_tlli (cf_tlli c' q) = tq_tlli (cf_tlli c q) \<and> length (tq_qos (cf_tlli c' q)) = length (tq_qos (cf_tlli c q)) \<and>
     (\<forall>l'. l' \<noteq> l \<longrightarrow> qos_at q l' c' = qos_at q l' c) \<and>
     tq_buff_count (cf_tlli c' q) = tq_buff_count (cf_tlli c q) - 1 \<and>
     tq_rx_bytes (cf_tlli c' q) = tq_rx_bytes (cf_tlli c q) - fst (snd (item_of c b)) \<and>
     tq_high_watermark_indicated (cf_tlli c' q) = (tq_high_watermark_indicated (cf_tlli c q) \<and>
       \<not> (clears \<and> tq_rx_bytes (cf_tlli c' q) \<le> tlli_low_watermark_bytes)) \<and>
     qq_buff_count (qos_at q l c') = qq_buff_count (qos_at q l c) - 1 \<and>
     qq_rx_bytes (qos_at q l c') = qq_rx_bytes (qos_at q l c) - fst (snd (item_of c b)) \<and>
     qq_head (qos_at q l c') = bnx c b \<and>
     qq_tail (qos_at q l c') = (if bnx c b = None then None else qq_tail (qos_at q l c)) \<and>
     (\<forall>y. bnx c b = Some y \<longrightarrow> cf_buff c' y = (cf_buff c y)\<lparr>ub_prev := None\<rparr>) \<and>
     (\<forall>y. Some y \<noteq> bnx c b \<longrightarrow> cf_buff c' y = cf_buff c y)"

lemma uncount_buffer_read [udt_read]:
  "cf_buff (uncount_buffer cl q l sz c) = cf_buff c" "cf_buff_used (uncount_buffer cl q l sz c) = cf_buff_used c"
  "cf_tlli_used (uncount_buffer cl q l sz c) = cf_tlli_used c" "cf_tlli_q_head (uncount_buffer cl q l sz c) = cf_tlli_q_head c"
  "cf_tlli_q_tail (uncount_buffer cl q l sz c) = cf_tlli_q_tail c" "cf_watermark_cb (uncount_buffer cl q l sz c) = cf_watermark_cb c"
  "q' \<noteq> q \<Longrightarrow> cf_tlli (uncount_buffer cl q l sz c) q' = cf_tlli c q'"
  "tq_next (cf_tlli (uncount_buffer cl q l sz c) q) = tq_next (cf_tlli c q)"
  "tq_prev (cf_tlli (uncount_buffer cl q l sz c) q) = tq_prev (cf_tlli c q)"
  "tq_tlli (cf_tlli (uncount_buffer cl q l sz c) q) = tq_tlli (cf_tlli c q)"
  "length (tq_qos (cf_tlli (uncount_buffer cl q l sz c) q)) = length (tq_qos (cf_tlli c q))"
  "tq_buff_count (cf_tlli (uncount_buffer cl q l sz c) q) = tq_buff_count (cf_tlli c q) - 1"
  "tq_rx_bytes (cf_tlli (uncount_buffer cl q l sz c) q) = tq_rx_bytes (cf_tlli c q) - sz"
  "tq_high_watermark_indicated (cf_tlli (uncount_buffer cl q l sz c) q) =
     (tq_high_watermark_indicated (cf_tlli c q) \<and> \<not> (cl \<and> tq_rx_bytes (cf_tlli c q) - sz \<le> tlli_low_watermark_bytes))"
  "l < length (tq_qos (cf_tlli c q)) \<Longrightarrow> qos_at q' l' (uncount_buffer cl q l sz c) =
     (if q' = q \<and> l' = l then (qos_at q l c)\<lparr>qq_buff_count := qq_buff_count (qos_at q l c) - 1,
        qq_rx_bytes := qq_rx_bytes (qos_at q l c) - sz\<rparr> else qos_at q' l' c)"
  by (simp_all add: uncount_buffer_def Let_def udt_read) blast

lemma return_read [udt_read]:
  "cf_buff (bssgp_udt_return_buff_to_pool b d) = cf_buff d" "cf_tlli (bssgp_udt_return_buff_to_pool b d) = cf_tlli d"
  "cf_tlli_used (bssgp_udt_return_buff_to_pool b d) = cf_tlli_used d"
  "cf_tlli_q_head (bssgp_udt_return_buff_to_pool b d) = cf_tlli_q_head d"
  "cf_tlli_q_tail (bssgp_udt_return_buff_to_pool b d) = cf_tlli_q_tail d"
  "cf_watermark_cb (bssgp_udt_return_buff_to_pool b d) = cf_watermark_cb d"
  "qos_at q' l' (bssgp_udt_return_buff_to_pool b d) = qos_at q' l' d"
  "b < length (cf_buff_used d) \<Longrightarrow> cf_buff_used (bssgp_udt_return_buff_to_pool b d) = (cf_buff_used d)[b := False]"
  by (simp_all add: bssgp_udt_return_buff_to_pool_def qos_at_def)

lemma unlink_first_read [udt_read]:
  "cf_buff_used (unlink_first q l b c) = cf_buff_used c" "cf_tlli_used (unlink_first q l b c) = cf_tlli_used c"
  "cf_tlli_q_head (unlink_first q l b c) = cf_tlli_q_head c" "cf_tlli_q_tail (unlink_first q l b c) = cf_tlli_q_tail c"
  "cf_watermark_cb (unlink_first q l b c) = cf_watermark_cb c"
  "q' \<noteq> q \<Longrightarrow> cf_tlli (unlink_first q l b c) q' = cf_tlli c q'"
  "tq_next (cf_tlli (unlink_first q l b c) q') = tq_next (cf_tlli c q')"
  "tq_prev (cf_tlli (unlink_first q l b c) q') = tq_prev (cf_tlli c q')"
  "tq_tlli (cf_tlli (unlink_first q l b c) q') = tq_tlli (cf_tlli c q')"
  "tq_buff_count (cf_tlli (unlink_first q l b c) q') = tq_buff_count (cf_tlli c q')"
  "tq_rx_bytes (cf_tlli (unlink_first q l b c) q') = tq_rx_bytes (cf_tlli c q')"
  "tq_high_watermark_indicated (cf_tlli (unlink_first q l b c) q') = tq_high_watermark_indicated (cf_tlli c q')"
  "length (tq_qos (cf_tlli (unlink_first q l b c) q')) = length (tq_qos (cf_tlli c q'))"
  "l < length (tq_qos (cf_tlli c q)) \<Longrightarrow> qos_at q' l' (unlink_first q l b c) =
     (if q' = q \<and> l' = l then (qos_at q l c)\<lparr>qq_head := bnx c b, qq_tail := (if bnx c b = None then None else qq_tail (qos_at q l c))\<rparr>
      else qos_at q' l' c)"
  "cf_buff (unlink_first q l b c) y = (if bnx c b = Some y then (cf_buff c y)\<lparr>ub_prev := None\<rparr> else cf_buff c y)"
  by (cases "ub_next (cf_buff c b)"; simp add: unlink_first_def udt_read bnx_def)+

lemma take_first_taken:
  assumes "l < length (tq_qos (cf_tlli c q))" "b < length (cf_buff_used c)"
  obtains c' where "take_first clears q l b c = ((ub_data (cf_buff c b), ub_dl_unitdata (cf_buff c b)), c')"
    "taken c q l b clears c'" "cf_watermark_cb c' = cf_watermark_cb c"
proof
  have same: "ub_data (cf_buff (unlink_first q l b c) b) = ub_data (cf_buff c b)"
    "ub_dl_unitdata (cf_buff (unlink_first q l b c) b) = ub_dl_unitdata (cf_buff c b)"
    "ub_data_size (cf_buff (unlink_first q l b c) b) = ub_data_size (cf_buff c b)"
    by (simp_all add: udt_read)
  let ?c = "bssgp_udt_return_buff_to_pool b (uncount_buffer clears q l (ub_data_size (cf_buff c b)) (unlink_first q l b c))"
  show "take_first clears q l b c = ((ub_data (cf_buff c b), ub_dl_unitdata (cf_buff c b)), ?c)"
    by (simp add: take_first_def Let_def same)
  show "cf_watermark_cb ?c = cf_watermark_cb c" by (simp add: udt_read)
  show "taken c q l b clears ?c"
    unfolding taken_def using assms by (simp add: udt_read item_of_def)
qed

lemma taken_ok:
  assumes ok: "udt_ok c ls bs" "q \<in> set ls" "l < 4" "bs q l = b # xs"
    and T: "taken c q l b clears c'"
  shows "\<exists>bs'. udt_ok c' ls bs' \<and>
     map (pdus_of c' bs') ls = on_tlli (tq_tlli (cf_tlli c q)) (drop_item clears l) (map (pdus_of c bs) ls)"
proof -
  let ?bs = "bs(q := (bs q)(l := xs))"
  have lok: "lists_ok c ls" and bok: "buffs_ok c ls bs" and nok: "\<forall>q \<in> set ls. node_ok c bs q" using ok(1) by (auto simp: udt_ok_def)
  have dl: "distinct ls" using lok by (simp add: lists_ok_def dlinked_def)
  note T' = T [unfolded taken_def]
  have bok': "buffs_ok c' ls ?bs" using buffs_ok_remove [where c' = c', OF bok dl ok(2-4)] T' by blast
  have lok': "lists_ok c' ls" by (rule lists_ok_same [OF lok ok(2)]) (use T' in auto)
  have nx: "y \<in> set (bs q l)" if "bnx c b = Some y" for y
  proof -
    have "dlinked (bnx c) (bpv c) (qq_head (qos_at q l c)) (qq_tail (qos_at q l c)) (b # xs)"
      using nok ok(2-4) by (metis node_ok_def)
    then show ?thesis using that ok(4) by (cases xs) (auto simp: dlinked_def)
  qed
  have other: "node_ok c' ?bs q' = node_ok c bs q' \<and> pdus_of c' ?bs q' = pdus_of c bs q'"
    if q': "q' \<in> set ls" "q' \<noteq> q" for q'
  proof -
    have "cf_buff c' y = cf_buff c y" if y: "y \<in> set (node_buffs bs q')" for y
    proof -
      have "Some y \<noteq> bnx c b"
        using nodes_disjoint [OF bok dl ok(2) q'(1)] q'(2) y nx level_in_node [OF ok(3)] by (metis disjoint_iff)
      then show ?thesis using T' by blast
    qed
    moreover have "cf_tlli c' q' = cf_tlli c q'" using T' q'(2) by blast
    moreover have "?bs q' = bs q'" using q'(2) by simp
    ultimately show ?thesis using node_ok_cong [of c' q' c ?bs bs] by blast
  qed
  have len: "length (tq_qos (cf_tlli c' q)) = 4" using T' nok ok(2) by (simp add: node_ok_def)
  have buf: "cf_buff c' y = cf_buff c y \<or> cf_buff c' y = (cf_buff c y)\<lparr>ub_prev := None\<rparr> \<and> Some y = bnx c b" for y
    using T' by metis
  have "item_of c' y = item_of c y \<and> bnx c' y = bnx c y \<and> (Some y \<noteq> bnx c b \<longrightarrow> bpv c' y = bpv c y)" for y
    using buf [of y] by (auto simp: item_of_def bnx_def bpv_def)
  then have B: "\<forall>y \<in> set (node_buffs bs q). item_of c' y = item_of c y \<and> bnx c' y = bnx c y \<and>
         (Some y \<noteq> bnx c b \<longrightarrow> bpv c' y = bpv c y)" by blast
  have B2: "\<forall>y. bnx c b = Some y \<longrightarrow> bpv c' y = None" using T' by (auto simp: bpv_def)
  have node: "node_ok c' ?bs q"
    "tp_levels (pdus_of c' ?bs q) = (tp_levels (pdus_of c bs q))[l := tl (tp_levels (pdus_of c bs q) ! l)]"
    using node_pop [OF nok [rule_format, OF ok(2)] ok(3) few_buffs(2) [OF bok ok(2)] ok(4) len _ _ _ _ _ _ _ B2 B] T'
    by blast+
  have "tq_rx_bytes (cf_tlli c' q) = item_bytes (all_items (pdus_of c' ?bs q))"
    using node(1) by (simp add: node_ok_def all_items_pdus)
  moreover have "all_items ((pdus_of c bs q)\<lparr>tp_levels := tp_levels (pdus_of c' ?bs q)\<rparr>) = all_items (pdus_of c' ?bs q)"
    by (simp add: all_items_def)
  ultimately have "pdus_of c' ?bs q = drop_item clears l (pdus_of c bs q)"
    unfolding drop_item_def Let_def node(2) [symmetric] using T'
    by (simp add: pdus_of_def)
  then have "map (pdus_of c' ?bs) ls = on_tlli (tq_tlli (cf_tlli c q)) (drop_item clears l) (map (pdus_of c bs) ls)"
    using on_tlli_node [of c ls q "tq_tlli (cf_tlli c q)" "pdus_of c' ?bs" bs "drop_item clears l"] lok ok(2) other
    by (simp add: lists_ok_def)
  moreover have "udt_ok c' ls ?bs" using lok' bok' node(1) other nok by (auto simp: udt_ok_def)
  ultimately show ?thesis by blast
qed

section \<open>Taking a PDU of a TLLI implements its specification\<close>

text \<open>What the functions hand over of a stored PDU: its receive buffer and the message.\<close>

definition handed :: "'d item \<Rightarrow> nat \<times> 'd DlUnitData" where
  "handed i = (fst i, snd (snd i))"

lemma first_level_spec:
  assumes "udt_ok c ls bs" "q \<in> set ls"
  shows "first_level q c = find (\<lambda>l. tp_levels (pdus_of c bs q) ! l \<noteq> []) [0..<4]"
proof -
  have n: "node_ok c bs q" "length (node_buffs bs q) < 2 ^ 32" using assms few_buffs(1) [of c ls bs q] by (auto simp: udt_ok_def)
  show ?thesis
    unfolding first_level_def by (rule find_cong) (auto simp: levels_nth level_count [OF n])
qed

lemma node_count:
  assumes "udt_ok c ls bs" "q \<in> set ls"
  shows "tq_buff_count (cf_tlli c q) = 0 \<longleftrightarrow> (\<forall>l < 4. bs q l = [])"
proof -
  have "node_ok c bs q" "length (node_buffs bs q) < 2 ^ 32" using assms few_buffs(1) [of c ls bs q] by (auto simp: udt_ok_def)
  then have "tq_buff_count (cf_tlli c q) = 0 \<longleftrightarrow> node_buffs bs q = []" using count_zero by (simp add: node_ok_def)
  then show ?thesis unfolding node_buffs_four below_four by auto
qed

lemma level_head:
  assumes "udt_ok c ls bs" "q \<in> set ls" "l < 4"
  shows "qq_head (qos_at q l c) = first_of (bs q l) None"
  using assms by (auto simp: udt_ok_def node_ok_def dlinked_def)

text \<open>Taking the first buffer of a list that has one.\<close>

lemma take_level_ok:
  assumes ok: "udt_ok c ls bs" "q \<in> set ls" "l < 4" "bs q l \<noteq> []"
  obtains b c' where "qq_head (qos_at q l c) = Some b"
    "take_first clears q l b c = (handed (hd (tp_levels (pdus_of c bs q) ! l)), c')"
    "taken c q l b clears c'" "udt_sizes c' = udt_sizes c" "b = hd (bs q l)"
    "\<exists>bs'. udt_ok c' ls bs' \<and> map (pdus_of c' bs') ls =
       on_tlli (tq_tlli (cf_tlli c q)) (drop_item clears l) (map (pdus_of c bs) ls)"
proof -
  obtain b xs where b: "bs q l = b # xs" using ok(4) by (cases "bs q l") auto
  have len: "l < length (tq_qos (cf_tlli c q))" using ok(1-3) by (auto simp: udt_ok_def node_ok_def)
  have "b \<in> set (concat (map (node_buffs bs) ls))" using level_in_node [of l b bs q, OF ok(3)] b ok(2) by auto
  then have "b < length (cf_buff_used c)" using ok(1) unfolding udt_ok_def buffs_ok_def by blast
  then obtain c' where c': "take_first clears q l b c = ((ub_data (cf_buff c b), ub_dl_unitdata (cf_buff c b)), c')"
    "taken c q l b clears c'" "cf_watermark_cb c' = cf_watermark_cb c" by (rule take_first_taken [OF len])
  have "handed (hd (tp_levels (pdus_of c bs q) ! l)) = (ub_data (cf_buff c b), ub_dl_unitdata (cf_buff c b))"
    by (simp add: levels_nth [OF ok(3)] b handed_def item_of_def)
  then have take: "take_first clears q l b c = (handed (hd (tp_levels (pdus_of c bs q) ! l)), c')" using c'(1) by (simp only:)
  have sizes: "udt_sizes c' = udt_sizes c" using c'(2,3) by (simp add: taken_def udt_sizes_def)
  have head: "qq_head (qos_at q l c) = Some b" using level_head [OF ok(1-3)] b by simp
  show ?thesis by (rule that [OF head take c'(2) sizes _ taken_ok [OF ok(1-3) b c'(2)]]) (simp add: b)
qed

text \<open>The search for the node of a TLLI.\<close>

lemma lookup:
  assumes ok: "udt_ok c ls bs" and qs: "map (pdus_of c bs) ls = qs"
  obtains (no_nodes) "of_tlli t qs = None" "cf_tlli_q_head c = None"
  | (other) h q where "of_tlli t qs = None" "cf_tlli_q_head c = Some h"
      "find_tlli c t h = Some q" "tq_tlli (cf_tlli c q) \<noteq> t"
  | (node) h q where "of_tlli t qs = Some (pdus_of c bs q)" "cf_tlli_q_head c = Some h"
      "find_tlli c t h = Some q" "tq_tlli (cf_tlli c q) = t" "q \<in> set ls"
proof -
  have lok: "lists_ok c ls" using ok by (auto simp: udt_ok_def)
  then have D: "dlinked (tnx c) (tpv c) (cf_tlli_q_head c) (cf_tlli_q_tail c) ls" by (simp add: lists_ok_def)
  show ?thesis
  proof (cases "find (\<lambda>q. tq_tlli (cf_tlli c q) = t) ls")
    case None
    then have nt: "\<forall>q \<in> set ls. tq_tlli (cf_tlli c q) \<noteq> t" by (simp add: find_None_iff)
    have a: "of_tlli t qs = None" unfolding qs [symmetric] of_tlli_pdus None by simp
    show ?thesis
    proof (cases "cf_tlli_q_head c")
      case None
      then show ?thesis using no_nodes a by blast
    next
      case (Some h)
      have "find_tlli c t h = Some (last ls)" "ls \<noteq> []"
        using find_node(1) [OF lok, of h t] find_node(2) [OF lok, of h] Some None by simp_all
      then show ?thesis using other [OF a Some] nt by simp
    qed
  next
    case (Some q)
    note q = find_tlli_in [OF Some]
    then obtain h where h: "cf_tlli_q_head c = Some h" using dlinked_head [OF D] by (cases ls) auto
    have "find_tlli c t h = Some q" using find_node(1) [OF lok h] Some by simp
    moreover have "of_tlli t qs = Some (pdus_of c bs q)" unfolding qs [symmetric] of_tlli_pdus Some by simp
    ultimately show ?thesis using node h q by blast
  qed
qed

lemma get_refines:
  assumes "represents c qs"
  shows "\<exists>c'. bssgp_udt_get_buff_by_tlli t c = Some (map_option handed (fst (spec_get t qs)), c') \<and>
     represents c' (snd (spec_get t qs)) \<and> udt_sizes c' = udt_sizes c"
proof -
  obtain ls bs where ok: "udt_ok c ls bs" and qs: "map (pdus_of c bs) ls = qs" using assms by (auto simp: represents_def)
  from ok qs show ?thesis
  proof (cases rule: lookup [where t = t, consumes 2, case_names no_nodes other node])
    case no_nodes
    then show ?thesis using assms by (simp add: bssgp_udt_get_buff_by_tlli_def spec_get_def)
  next
    case (other h q)
    then show ?thesis using assms by (simp add: bssgp_udt_get_buff_by_tlli_def spec_get_def)
  next
    case (node h q)
    have g: "bssgp_udt_get_buff_by_tlli t c = Some (if tq_buff_count (cf_tlli c q) \<noteq> 0
        then take_level (first_level q c) q c else (None, c))"
      by (simp add: bssgp_udt_get_buff_by_tlli_def node)
    note fl = first_level_spec [OF ok node(5)]
    show ?thesis
    proof (cases "first_level q c")
      case None
      then show ?thesis using assms node(1) fl by (auto simp: g spec_get_def take_level_def)
    next
      case (Some l)
      then have l: "l < 4" "bs q l \<noteq> []" using fl by (auto simp: find_Some_iff levels_nth simp del: upt_conv_Cons)
      then have "tq_buff_count (cf_tlli c q) \<noteq> 0" using node_count [OF ok node(5)] by auto
      moreover obtain b c' where "qq_head (qos_at q l c) = Some b"
        "take_first True q l b c = (handed (hd (tp_levels (pdus_of c bs q) ! l)), c')"
        "taken c q l b True c'" "udt_sizes c' = udt_sizes c" "b = hd (bs q l)"
        "\<exists>bs'. udt_ok c' ls bs' \<and> map (pdus_of c' bs') ls =
           on_tlli (tq_tlli (cf_tlli c q)) (drop_item True l) (map (pdus_of c bs) ls)"
        by (rule take_level_ok [where clears = True, OF ok node(5) l])
      moreover have "spec_get t qs = (Some (hd (tp_levels (pdus_of c bs q) ! l)), on_tlli t (drop_item True l) qs)"
        using Some fl by (simp add: spec_get_def node)
      ultimately show ?thesis using Some node(4) qs unfolding g represents_def take_level_def by simp metis
    qed
  qed
qed

lemma get_level_refines:
  assumes "represents c qs" "l < 4"
  shows "\<exists>c'. bssgp_udt_get_buff_by_tlli_qos t l c = Some (map_option handed (fst (spec_get_level t l qs)), c') \<and>
     represents c' (snd (spec_get_level t l qs)) \<and> udt_sizes c' = udt_sizes c"
proof -
  obtain ls bs where ok: "udt_ok c ls bs" and qs: "map (pdus_of c bs) ls = qs" using assms(1) by (auto simp: represents_def)
  from ok qs show ?thesis
  proof (cases rule: lookup [where t = t, consumes 2, case_names no_nodes other node])
    case no_nodes
    then show ?thesis using assms by (simp add: bssgp_udt_get_buff_by_tlli_qos_def spec_get_level_def)
  next
    case (other h q)
    then show ?thesis using assms by (simp add: bssgp_udt_get_buff_by_tlli_qos_def spec_get_level_def)
  next
    case (node h q)
    have n: "node_ok c bs q" "length (node_buffs bs q) < 2 ^ 32" using ok node(5) few_buffs(1) [of c ls bs q] by (auto simp: udt_ok_def)
    show ?thesis
    proof (cases "bs q l = []")
      case True
      then show ?thesis using assms level_count [OF n assms(2)]
        by (simp add: bssgp_udt_get_buff_by_tlli_qos_def node spec_get_level_def levels_nth)
    next
      case False
      then have "tq_buff_count (cf_tlli c q) \<noteq> 0" "qq_buff_count (qos_at q l c) \<noteq> 0"
        using node_count [OF ok node(5)] assms(2) level_count [OF n assms(2)] by auto
      moreover obtain b c' where "qq_head (qos_at q l c) = Some b"
        "take_first False q l b c = (handed (hd (tp_levels (pdus_of c bs q) ! l)), c')"
        "taken c q l b False c'" "udt_sizes c' = udt_sizes c" "b = hd (bs q l)"
        "\<exists>bs'. udt_ok c' ls bs' \<and> map (pdus_of c' bs') ls =
           on_tlli (tq_tlli (cf_tlli c q)) (drop_item False l) (map (pdus_of c bs) ls)"
        by (rule take_level_ok [where clears = False, OF ok node(5) assms(2) False])
      moreover have "spec_get_level t l qs = (Some (hd (tp_levels (pdus_of c bs q) ! l)), on_tlli t (drop_item False l) qs)"
        using False assms(2) by (simp add: spec_get_level_def node levels_nth)
      ultimately show ?thesis using node(4) qs unfolding represents_def
        by (simp add: bssgp_udt_get_buff_by_tlli_qos_def node) metis
    qed
  qed
qed

text \<open>The pointer returned is that of the buffer with the PDU that a \<open>get\<close> would take.\<close>

lemma check_tlli_refines:
  assumes "represents c qs"
  shows "\<exists>r. bssgp_udt_check_buff_by_tlli t c = Some r \<and> map_option (item_of c) r = spec_has t qs"
proof -
  obtain ls bs where ok: "udt_ok c ls bs" and qs: "map (pdus_of c bs) ls = qs" using assms by (auto simp: represents_def)
  from ok qs show ?thesis
  proof (cases rule: lookup [where t = t, consumes 2, case_names no_nodes other node])
    case no_nodes
    then show ?thesis by (simp add: bssgp_udt_check_buff_by_tlli_def spec_get_def spec_has_def)
  next
    case (other h q)
    then show ?thesis by (simp add: bssgp_udt_check_buff_by_tlli_def spec_get_def spec_has_def)
  next
    case (node h q)
    note fl = first_level_spec [OF ok node(5)]
    show ?thesis
    proof (cases "first_level q c")
      case None
      then show ?thesis using node(1) fl by (auto simp: bssgp_udt_check_buff_by_tlli_def node spec_get_def spec_has_def)
    next
      case (Some l)
      then have l: "l < 4" "bs q l \<noteq> []" using fl by (auto simp: find_Some_iff levels_nth simp del: upt_conv_Cons)
      then have "tq_buff_count (cf_tlli c q) \<noteq> 0" using node_count [OF ok node(5)] by auto
      moreover have "spec_has t qs = Some (item_of c (hd (bs q l)))"
        using Some fl l by (simp add: spec_has_def spec_get_def node levels_nth hd_map)
      ultimately show ?thesis using Some level_head [OF ok node(5) l(1)] l(2)
        by (simp add: bssgp_udt_check_buff_by_tlli_def node)
    qed
  qed
qed

section \<open>Round robin\<close>

text \<open>Two states that differ in the links of the TLLI nodes only.\<close>

definition same_pdus :: "'d UdtConfig \<Rightarrow> 'd UdtConfig \<Rightarrow> bool" where
  "same_pdus c c' \<longleftrightarrow> cf_buff c' = cf_buff c \<and> cf_buff_used c' = cf_buff_used c \<and> cf_tlli_used c' = cf_tlli_used c \<and>
     cf_watermark_cb c' = cf_watermark_cb c \<and>
     (\<forall>y. tq_tlli (cf_tlli c' y) = tq_tlli (cf_tlli c y) \<and> tq_qos (cf_tlli c' y) = tq_qos (cf_tlli c y) \<and>
        tq_buff_count (cf_tlli c' y) = tq_buff_count (cf_tlli c y) \<and> tq_rx_bytes (cf_tlli c' y) = tq_rx_bytes (cf_tlli c y) \<and>
        tq_high_watermark_indicated (cf_tlli c' y) = tq_high_watermark_indicated (cf_tlli c y))"

lemma same_pdus_node:
  assumes "same_pdus c c'"
  shows "node_ok c' bs q = node_ok c bs q" "pdus_of c' bs q = pdus_of c bs q" "qos_at q l c' = qos_at q l c"
    "udt_sizes c' = udt_sizes c" "item_of c' = item_of c"
proof -
  have i: "item_of c' = item_of c" "bnx c' = bnx c" "bpv c' = bpv c" "\<And>l. qos_at q l c' = qos_at q l c"
    using assms by (simp_all add: same_pdus_def item_of_def bnx_def bpv_def qos_at_def fun_eq_iff)
  show "node_ok c' bs q = node_ok c bs q" "pdus_of c' bs q = pdus_of c bs q" "qos_at q l c' = qos_at q l c"
    "udt_sizes c' = udt_sizes c" "item_of c' = item_of c"
    using assms by (simp_all add: node_ok_def pdus_of_def i same_pdus_def udt_sizes_def)
qed

lemma to_end_last:
  assumes "cf_tlli_q_tail c = Some q"
  shows "to_end q c = Some c"
  using assms by (simp add: to_end_def)

lemma to_end_read:
  assumes d: "dlinked (tnx c) (tpv c) (cf_tlli_q_head c) (cf_tlli_q_tail c) (xs @ q # ys)" and ys: "ys \<noteq> []"
  obtains c' where "to_end q c = Some c'" "same_pdus c c'" "cf_tlli_q_head c' = first_of (xs @ ys) None" "cf_tlli_q_tail c' = Some q"
    "tnx c' = (\<lambda>y. if y = q then None else if y = last ys then Some q else if last_of None xs = Some y then tnx c q else tnx c y)"
    "tpv c' = (\<lambda>y. if y = q then Some (last ys) else if y = hd ys then tpv c q else tpv c y)"
    "\<forall>y. y \<notin> set (xs @ q # ys) \<longrightarrow> cf_tlli c' y = cf_tlli c y"
proof -
  have dis: "distinct (xs @ q # ys)" and hd: "cf_tlli_q_head c = first_of (xs @ q # ys) None"
    and tl: "cf_tlli_q_tail c = Some (last ys)" using d ys by (auto simp: dlinked_def)
  have nx: "tq_next (cf_tlli c q) = Some (hd ys)" "tq_prev (cf_tlli c q) = last_of None xs"
    using dlinked_nth_next [OF d] ys by (simp_all add: tnx_def tpv_def)
  have ne: "last ys \<noteq> q" "hd ys \<noteq> q" "q \<notin> set xs" "last ys \<in> set ys" "hd ys \<in> set ys" using dis ys by auto
  show ?thesis
  proof (cases "xs = []")
    case True
    let ?c = "upd_tlli q (\<lambda>t. t\<lparr>tq_next := None\<rparr>) ((upd_tlli (last ys) (\<lambda>t. t\<lparr>tq_next := Some q\<rparr>)
      (upd_tlli q (\<lambda>t. t\<lparr>tq_prev := Some (last ys)\<rparr>) (upd_tlli (hd ys) (\<lambda>t. t\<lparr>tq_prev := None\<rparr>)
        (c\<lparr>cf_tlli_q_head := Some (hd ys)\<rparr>))))\<lparr>cf_tlli_q_tail := Some q\<rparr>)"
    show ?thesis
    proof
      show "to_end q c = Some ?c" using True hd tl nx ne by (simp add: to_end_def Let_def udt_read)
      show "same_pdus c ?c" by (auto simp: same_pdus_def udt_read)
      show "cf_tlli_q_head ?c = first_of (xs @ ys) None" "cf_tlli_q_tail ?c = Some q" using True ys by (simp_all add: udt_read)
      show "tnx ?c = (\<lambda>y. if y = q then None else if y = last ys then Some q else if last_of None xs = Some y then tnx c q else tnx c y)"
        using ne True by (auto simp: tnx_def udt_read fun_eq_iff)
      show "tpv ?c = (\<lambda>y. if y = q then Some (last ys) else if y = hd ys then tpv c q else tpv c y)"
        using ne True nx by (auto simp: tpv_def udt_read fun_eq_iff)
      show "\<forall>y. y \<notin> set (xs @ q # ys) \<longrightarrow> cf_tlli ?c y = cf_tlli c y" using ne by (auto simp: udt_read)
    qed
  next
    case False
    have lx: "last xs \<in> set xs" "hd xs \<in> set xs" using False by simp_all
    have dj: "\<And>x. x \<in> set xs \<Longrightarrow> x \<notin> set ys" using dis by auto
    have p: "last xs \<noteq> q" "last xs \<noteq> last ys" "last xs \<noteq> hd ys" "last_of None xs = Some (last xs)" "hd xs \<noteq> q"
      using lx dj [OF lx(1)] ne False by (metis, metis, metis, simp, metis)
    let ?c = "(upd_tlli q (\<lambda>t. t\<lparr>tq_next := None\<rparr>) (upd_tlli (last ys) (\<lambda>t. t\<lparr>tq_next := Some q\<rparr>)
      (upd_tlli q (\<lambda>t. t\<lparr>tq_prev := Some (last ys)\<rparr>) (upd_tlli (hd ys) (\<lambda>t. t\<lparr>tq_prev := Some (last xs)\<rparr>)
        (upd_tlli (last xs) (\<lambda>t. t\<lparr>tq_next := Some (hd ys)\<rparr>) c)))))\<lparr>cf_tlli_q_tail := Some q\<rparr>"
    show ?thesis
    proof
      show "to_end q c = Some ?c" using False hd tl nx ne p by (simp add: to_end_def Let_def udt_read)
      show "same_pdus c ?c" by (auto simp: same_pdus_def udt_read)
      show "cf_tlli_q_head ?c = first_of (xs @ ys) None" "cf_tlli_q_tail ?c = Some q" using False hd by (simp_all add: udt_read)
      show "tnx ?c = (\<lambda>y. if y = q then None else if y = last ys then Some q else if last_of None xs = Some y then tnx c q else tnx c y)"
        using ne nx p lx by (auto simp: tnx_def udt_read fun_eq_iff)
      show "tpv ?c = (\<lambda>y. if y = q then Some (last ys) else if y = hd ys then tpv c q else tpv c y)"
        using ne nx p lx by (auto simp: tpv_def udt_read fun_eq_iff)
      show "\<forall>y. y \<notin> set (xs @ q # ys) \<longrightarrow> cf_tlli ?c y = cf_tlli c y" using ne p lx by (auto simp: udt_read)
    qed
  qed
qed

lemma to_end_ok:
  assumes ok: "udt_ok c (xs @ q # ys) bs"
  obtains c' where "to_end q c = Some c'" "same_pdus c c'" "udt_ok c' (xs @ ys @ [q]) bs"
proof (cases "ys = []")
  case True
  have "cf_tlli_q_tail c = Some q" using ok True by (auto simp: udt_ok_def lists_ok_def dlinked_def)
  then show ?thesis using that [of c] to_end_last ok True by (auto simp: same_pdus_def)
next
  case False
  have lok: "lists_ok c (xs @ q # ys)" and bok: "buffs_ok c (xs @ q # ys) bs"
    and nok: "\<forall>y \<in> set (xs @ q # ys). node_ok c bs y" using ok unfolding udt_ok_def by blast+
  have D: "dlinked (tnx c) (tpv c) (cf_tlli_q_head c) (cf_tlli_q_tail c) (xs @ q # ys)" using lok by (simp add: lists_ok_def)
  then have dis: "distinct (xs @ q # ys)" by (rule dlinked_distinct)
  obtain c' where c': "to_end q c = Some c'" "same_pdus c c'" "cf_tlli_q_head c' = first_of (xs @ ys) None" "cf_tlli_q_tail c' = Some q"
    "tnx c' = (\<lambda>y. if y = q then None else if y = last ys then Some q else if last_of None xs = Some y then tnx c q else tnx c y)"
    "tpv c' = (\<lambda>y. if y = q then Some (last ys) else if y = hd ys then tpv c q else tpv c y)"
    "\<forall>y. y \<notin> set (xs @ q # ys) \<longrightarrow> cf_tlli c' y = cf_tlli c y" by (rule to_end_read [OF D False])
  let ?nx = "\<lambda>y. if last_of None xs = Some y then tnx c q else tnx c y"
  let ?pv = "\<lambda>y. if y = hd ys then tpv c q else tpv c y"
  have fy: "first_of ys None = Some (hd ys)" using False by simp
  have "dlinked ?nx ?pv (first_of (xs @ ys) None) (last_of None (xs @ ys)) (xs @ ys)"
    by (rule dlinked_remove [OF D]) (use fy in auto)
  moreover have "last_of None (xs @ ys) = Some (last ys)" "last ys \<in> set ys" using False by auto
  moreover have "q \<notin> set (xs @ ys)" using dis by auto
  ultimately have "dlinked (tnx c') (tpv c')
      (if last_of None (xs @ ys) = None then Some q else first_of (xs @ ys) None) (Some q) ((xs @ ys) @ [q])"
    unfolding c'(5,6) by (intro dlinked_append [where nx = ?nx and pv = ?pv]) auto
  then have dl: "dlinked (tnx c') (tpv c') (cf_tlli_q_head c') (cf_tlli_q_tail c') (xs @ ys @ [q])"
    using \<open>last_of None (xs @ ys) = Some (last ys)\<close> by (simp only: c'(3,4) append_assoc option.distinct if_False)
  have s: "set (xs @ ys @ [q]) = set (xs @ q # ys)" by auto
  have t: "(\<lambda>y. tq_tlli (cf_tlli c' y)) = (\<lambda>y. tq_tlli (cf_tlli c y))" using c'(2) by (simp add: same_pdus_def)
  have "distinct (map (\<lambda>y. tq_tlli (cf_tlli c' y)) (xs @ ys @ [q]))"
    unfolding t using lok by (auto simp: lists_ok_def)
  moreover have "cf_tlli_used c' = cf_tlli_used c" using c'(2) by (simp add: same_pdus_def)
  ultimately have "lists_ok c' (xs @ ys @ [q])"
    using lok dl c'(7) unfolding lists_ok_def s by metis
  moreover have "mset (concat (map (node_buffs bs) (xs @ ys @ [q]))) = mset (concat (map (node_buffs bs) (xs @ q # ys)))" by simp
  then have "distinct (concat (map (node_buffs bs) (xs @ ys @ [q]))) = distinct (concat (map (node_buffs bs) (xs @ q # ys)))"
    "set (concat (map (node_buffs bs) (xs @ ys @ [q]))) = set (concat (map (node_buffs bs) (xs @ q # ys)))"
    by (rule mset_eq_imp_distinct_iff, rule mset_eq_setD)
  then have "buffs_ok c' (xs @ ys @ [q]) bs" using bok c'(2) unfolding buffs_ok_def same_pdus_def by metis
  ultimately have "udt_ok c' (xs @ ys @ [q]) bs" using nok same_pdus_node(1) [OF c'(2)] unfolding udt_ok_def s by blast
  then show ?thesis using that c'(1,2) by blast
qed

lemma has_level_iff:
  assumes "udt_ok c ls bs" "q \<in> set ls" "l < 4"
  shows "has_level q l c \<longleftrightarrow> bs q l \<noteq> []"
proof -
  have n: "node_ok c bs q" "length (node_buffs bs q) < 2 ^ 32" using assms(1,2) few_buffs(1) [of c ls bs q] by (auto simp: udt_ok_def)
  show ?thesis using level_count [OF n assms(3)] node_count [OF assms(1,2)] assms(3) by (auto simp: has_level_def)
qed

lemma node_next:
  assumes "udt_ok c (pre @ q # ys) bs"
  shows "tq_next (cf_tlli c q) = first_of ys None"
  using dlinked_nth_next(1) [of "tnx c" "tpv c" "cf_tlli_q_head c" "cf_tlli_q_tail c" pre q ys] assms
  by (simp add: udt_ok_def lists_ok_def tnx_def)

lemma check_loop_run:
  assumes "udt_ok c (pre @ x # ys) bs" "l < 4"
  shows "check_loop l c x = (case find (\<lambda>q. bs q l \<noteq> []) (x # ys) of None \<Rightarrow> Some (None, c)
     | Some q \<Rightarrow> do { c' \<leftarrow> to_end q c; b \<leftarrow> qq_head (qos_at q l c'); Some (Some b, c') })"
  using assms(1)
proof (induction ys arbitrary: pre x)
  case Nil
  then show ?case using has_level_iff [OF Nil _ assms(2)] node_next [OF Nil] by (subst check_loop.simps) simp
next
  case (Cons y ys)
  have u: "udt_ok c ((pre @ [x]) @ y # ys) bs" using Cons.prems by simp
  show ?case using Cons.IH [OF u] has_level_iff [OF Cons.prems _ assms(2)] node_next [OF Cons.prems]
    by (subst check_loop.simps) simp
qed

lemma find_pdus:
  assumes "l < 4"
  shows "find (\<lambda>a. tp_levels a ! l \<noteq> []) (map (pdus_of c bs) ls) = map_option (pdus_of c bs) (find (\<lambda>q. bs q l \<noteq> []) ls)"
  by (induction ls) (auto simp: levels_nth [OF assms])

lemma other_tllis:
  assumes "lists_ok c (xs @ q # ys)" "y \<in> set (xs @ ys)"
  shows "tq_tlli (cf_tlli c y) \<noteq> tq_tlli (cf_tlli c q)"
proof -
  have "tq_tlli (cf_tlli c q) \<notin> (\<lambda>q. tq_tlli (cf_tlli c q)) ` set (xs @ ys)" using assms(1) by (simp add: lists_ok_def image_Un)
  then show ?thesis using assms(2) by (metis imageI)
qed

lemma filter_tlli:
  assumes "lists_ok c (xs @ q # ys)"
  shows "filter (\<lambda>b. tp_tlli b \<noteq> tp_tlli (pdus_of c bs q)) (map (pdus_of c bs) (xs @ q # ys)) = map (pdus_of c bs) (xs @ ys)"
proof -
  have "\<forall>y \<in> set (xs @ ys). tq_tlli (cf_tlli c y) \<noteq> tq_tlli (cf_tlli c q)"
    using other_tllis [OF assms] by blast
  then show ?thesis by (auto simp: pdus_of_def filter_id_conv)
qed

lemma check_refines:
  assumes "represents c qs" "l < 4"
  shows "\<exists>r c'. bssgp_udt_check_buff_by_qos l c = Some (r, c') \<and> map_option (item_of c') r = fst (spec_next l qs) \<and>
     represents c' (snd (spec_next l qs)) \<and> udt_sizes c' = udt_sizes c \<and> cf_buff c' = cf_buff c"
proof -
  obtain ls bs where ok: "udt_ok c ls bs" and qs: "qs = map (pdus_of c bs) ls" using assms(1) by (auto simp: represents_def)
  have lok: "lists_ok c ls" using ok by (auto simp: udt_ok_def)
  then have D: "dlinked (tnx c) (tpv c) (cf_tlli_q_head c) (cf_tlli_q_tail c) ls" by (simp add: lists_ok_def)
  show ?thesis
  proof (cases ls)
    case Nil
    then show ?thesis using D assms(1) qs by (simp add: bssgp_udt_check_buff_by_qos_def spec_next_def)
  next
    case (Cons h rest)
    then have run: "bssgp_udt_check_buff_by_qos l c = (case find (\<lambda>q. bs q l \<noteq> []) ls of None \<Rightarrow> Some (None, c)
        | Some q \<Rightarrow> do { c' \<leftarrow> to_end q c; b \<leftarrow> qq_head (qos_at q l c'); Some (Some b, c') })"
      using check_loop_run [of c "[]" h rest bs l] ok assms(2) dlinked_head [OF D]
      by (simp add: bssgp_udt_check_buff_by_qos_def)
    show ?thesis
    proof (cases "find (\<lambda>q. bs q l \<noteq> []) ls")
      case None
      then show ?thesis using assms qs by (simp add: run spec_next_def find_pdus)
    next
      case (Some q)
      then have q: "q \<in> set ls" "bs q l \<noteq> []" by (auto simp: find_Some_iff)
      obtain xs ys where ls: "ls = xs @ q # ys" by (meson q(1) split_list)
      obtain c' where c': "to_end q c = Some c'" "same_pdus c c'" "udt_ok c' (xs @ ys @ [q]) bs"
        by (rule to_end_ok [OF ok [unfolded ls]])
      note s = same_pdus_node [OF c'(2)]
      have head: "qq_head (qos_at q l c') = Some (hd (bs q l))"
        using level_head [OF ok q(1) assms(2)] q(2) by (simp add: s)
      have spec: "spec_next l qs = (Some (item_of c (hd (bs q l))), map (pdus_of c bs) (xs @ ys @ [q]))"
        using Some q(2) assms(2) filter_tlli [OF lok [unfolded ls], of bs] unfolding qs
        by (simp add: spec_next_def find_pdus levels_nth hd_map) (simp add: ls)
      have "represents c' (snd (spec_next l qs))"
        using c'(3) unfolding represents_def spec snd_conv by (intro exI [of _ "xs @ ys @ [q]"] exI [of _ bs]) (simp add: s)
      then show ?thesis using c'(2) head by (simp add: run Some c'(1) spec s same_pdus_def)
    qed
  qed
qed

lemma get_loop_run:
  assumes "udt_ok c (pre @ x # ys) bs" "l < 4"
  shows "get_loop l c x = (case find (\<lambda>q. bs q l \<noteq> []) (butlast (x # ys)) of None \<Rightarrow> Some (None, c)
     | Some q \<Rightarrow> (case qq_head (qos_at q l c) of None \<Rightarrow> Some (None, c)
         | Some b \<Rightarrow> (case take_first False q l b c of (r, c') \<Rightarrow> map_option (Pair (Some r)) (to_end q c'))))"
  using assms(1)
proof (induction ys arbitrary: pre x)
  case Nil
  then show ?case using node_next [OF Nil] by (subst get_loop.simps) simp
next
  case (Cons y ys)
  have u: "udt_ok c ((pre @ [x]) @ y # ys) bs" using Cons.prems by simp
  show ?case using Cons.IH [OF u] has_level_iff [OF Cons.prems _ assms(2)] node_next [OF Cons.prems]
    by (subst get_loop.simps) simp
qed

lemma get_next_refines:
  assumes "represents c qs" "l < 4"
  shows "\<exists>c'. bssgp_udt_get_buff_by_qos l c = Some (map_option handed (fst (spec_get_next l qs)), c') \<and>
     represents c' (snd (spec_get_next l qs)) \<and> udt_sizes c' = udt_sizes c"
proof -
  obtain ls bs where ok: "udt_ok c ls bs" and qs: "qs = map (pdus_of c bs) ls" using assms(1) by (auto simp: represents_def)
  have lok: "lists_ok c ls" using ok by (auto simp: udt_ok_def)
  then have D: "dlinked (tnx c) (tpv c) (cf_tlli_q_head c) (cf_tlli_q_tail c) ls" by (simp add: lists_ok_def)
  show ?thesis
  proof (cases ls)
    case Nil
    then show ?thesis using D assms(1) qs by (simp add: bssgp_udt_get_buff_by_qos_def spec_get_next_def)
  next
    case (Cons h rest)
    then have run: "bssgp_udt_get_buff_by_qos l c = (case find (\<lambda>q. bs q l \<noteq> []) (butlast ls) of None \<Rightarrow> Some (None, c)
     | Some q \<Rightarrow> (case qq_head (qos_at q l c) of None \<Rightarrow> Some (None, c)
         | Some b \<Rightarrow> (case take_first False q l b c of (r, c') \<Rightarrow> map_option (Pair (Some r)) (to_end q c'))))"
      using get_loop_run [of c "[]" h rest bs l] ok assms(2) dlinked_head [OF D]
      by (simp add: bssgp_udt_get_buff_by_qos_def)
    have spec: "spec_get_next l qs = (case find (\<lambda>q. bs q l \<noteq> []) (butlast ls) of None \<Rightarrow> (None, qs)
      | Some q \<Rightarrow> (Some (hd (tp_levels (pdus_of c bs q) ! l)),
          filter (\<lambda>b. tp_tlli b \<noteq> tp_tlli (pdus_of c bs q)) qs @ [drop_item False l (pdus_of c bs q)]))"
      unfolding spec_get_next_def qs map_butlast [symmetric] find_pdus [OF assms(2)] by (simp split: option.split)
    show ?thesis
    proof (cases "find (\<lambda>q. bs q l \<noteq> []) (butlast ls)")
      case None
      then show ?thesis using assms by (simp add: run spec)
    next
      case (Some q)
      then have q: "q \<in> set ls" "bs q l \<noteq> []" by (auto simp: find_Some_iff intro!: in_set_butlastD [of _ ls] nth_mem)
      obtain xs ys where ls: "ls = xs @ q # ys" by (meson q(1) split_list)
      obtain b c1 where take: "qq_head (qos_at q l c) = Some b"
        "take_first False q l b c = (handed (hd (tp_levels (pdus_of c bs q) ! l)), c1)" "taken c q l b False c1" "udt_sizes c1 = udt_sizes c"
        "\<exists>bs'. udt_ok c1 ls bs' \<and> map (pdus_of c1 bs') ls =
           on_tlli (tq_tlli (cf_tlli c q)) (drop_item False l) (map (pdus_of c bs) ls)"
        by (rule take_level_ok [where clears = False, OF ok q(1) assms(2) q(2)])
      obtain bs' where bs': "udt_ok c1 ls bs'" "map (pdus_of c1 bs') ls =
           on_tlli (tq_tlli (cf_tlli c q)) (drop_item False l) (map (pdus_of c bs) ls)" using take(5) by blast
      obtain c' where c': "to_end q c1 = Some c'" "same_pdus c1 c'" "udt_ok c' (xs @ ys @ [q]) bs'"
        by (rule to_end_ok [OF bs'(1) [unfolded ls]])
      note s = same_pdus_node [OF c'(2)]
      have t: "tp_tlli (pdus_of c bs y) = tq_tlli (cf_tlli c y)" for y by (simp add: pdus_of_def)
      have dis: "\<forall>y \<in> set (xs @ ys). tq_tlli (cf_tlli c y) \<noteq> tq_tlli (cf_tlli c q)"
        using other_tllis [OF lok [unfolded ls]] by blast
      have "map (pdus_of c1 bs') (xs @ q # ys) =
          map (pdus_of c bs) xs @ drop_item False l (pdus_of c bs q) # map (pdus_of c bs) ys"
        using bs'(2) dis unfolding ls on_tlli_def by (simp add: t cong: map_cong)
      then have "map (pdus_of c1 bs') (xs @ ys @ [q]) = map (pdus_of c bs) (xs @ ys) @ [drop_item False l (pdus_of c bs q)]"
        by simp
      moreover have "pdus_of c' bs' = pdus_of c1 bs'" by (rule ext) (rule s(2))
      ultimately have "map (pdus_of c' bs') (xs @ ys @ [q]) = map (pdus_of c bs) (xs @ ys) @ [drop_item False l (pdus_of c bs q)]"
        by (simp only:)
      moreover have sp: "spec_get_next l qs = (Some (hd (tp_levels (pdus_of c bs q) ! l)),
          map (pdus_of c bs) (xs @ ys) @ [drop_item False l (pdus_of c bs q)])"
        using filter_tlli [OF lok [unfolded ls], of bs] by (simp only: spec Some option.case) (simp add: qs ls)
      ultimately have "represents c' (snd (spec_get_next l qs))"
        using c'(3) unfolding represents_def sp snd_conv by metis
      then show ?thesis using take(1,2,4) s(4) by (simp add: run Some c'(1) sp)
    qed
  qed
qed

end
