(* ===== verification/UnitDataService.thy ===== *)
theory UnitDataService
  imports UnitDataRefinement
begin

text \<open>
  What the queues of downlink PDUs give their clients: any sequence of operations behaves as on lists, the
  PDUs of a TLLI come out in order, the TLLIs take turns; and where they fail.
\<close>

section \<open>Sequences of operations\<close>

datatype 'd udt_op =
    PutBuffer "32 word" nat nat "32 word" "'d DlUnitData"
  | GetByTlli "32 word"
  | GetByTlliQos "32 word" nat
  | GetByQos nat
  | CheckByTlli "32 word"
  | CheckByQos nat

datatype 'd udt_result =
    Stored bool
  | Handed "(nat \<times> 'd DlUnitData) option"
  | Seen "'d item option"

fun udt_exec :: "'d udt_op \<Rightarrow> 'd UdtConfig \<Rightarrow> ('d udt_result \<times> 'd UdtConfig) option" where
  "udt_exec (PutBuffer t l buff sz msg) c = map_option (apfst Stored) (bssgp_udt_put_buffer_in_q t l buff sz msg c)"
| "udt_exec (GetByTlli t) c = map_option (apfst Handed) (bssgp_udt_get_buff_by_tlli t c)"
| "udt_exec (GetByTlliQos t l) c = map_option (apfst Handed) (bssgp_udt_get_buff_by_tlli_qos t l c)"
| "udt_exec (GetByQos l) c = map_option (apfst Handed) (bssgp_udt_get_buff_by_qos l c)"
| "udt_exec (CheckByTlli t) c = map_option (\<lambda>r. (Seen (map_option (item_of c) r), c)) (bssgp_udt_check_buff_by_tlli t c)"
| "udt_exec (CheckByQos l) c = map_option (\<lambda>(r, c'). (Seen (map_option (item_of c') r), c')) (bssgp_udt_check_buff_by_qos l c)"

fun udt_run :: "'d udt_op list \<Rightarrow> 'd UdtConfig \<Rightarrow> ('d udt_result list \<times> 'd UdtConfig) option" where
  "udt_run [] c = Some ([], c)"
| "udt_run (op # ops) c = do { (r, c1) \<leftarrow> udt_exec op c; (rs, c2) \<leftarrow> udt_run ops c1; Some (r # rs, c2) }"

fun spec_exec :: "nat \<times> nat \<times> bool \<Rightarrow> 'd udt_op \<Rightarrow> 'd TlliPdus list \<Rightarrow> 'd udt_result \<times> 'd TlliPdus list" where
  "spec_exec (M, N, cb) (PutBuffer t l buff sz msg) qs = apfst Stored (spec_put M N cb t l (stored_item buff sz msg) qs)"
| "spec_exec x (GetByTlli t) qs = apfst (Handed \<circ> map_option handed) (spec_get t qs)"
| "spec_exec x (GetByTlliQos t l) qs = apfst (Handed \<circ> map_option handed) (spec_get_level t l qs)"
| "spec_exec x (GetByQos l) qs = apfst (Handed \<circ> map_option handed) (spec_get_next l qs)"
| "spec_exec x (CheckByTlli t) qs = (Seen (spec_has t qs), qs)"
| "spec_exec x (CheckByQos l) qs = apfst Seen (spec_next l qs)"

fun spec_run :: "nat \<times> nat \<times> bool \<Rightarrow> 'd udt_op list \<Rightarrow> 'd TlliPdus list \<Rightarrow> 'd udt_result list \<times> 'd TlliPdus list" where
  "spec_run x [] qs = ([], qs)"
| "spec_run x (op # ops) qs = (case spec_exec x op qs of (r, qs1) \<Rightarrow> apfst (Cons r) (spec_run x ops qs1))"

fun level_ok :: "'d udt_op \<Rightarrow> bool" where
  "level_ok (PutBuffer t l buff sz msg) \<longleftrightarrow> l < BSSGP_MAX_NETWORK_QOS_LEVELS"
| "level_ok (GetByTlliQos t l) \<longleftrightarrow> l < BSSGP_MAX_NETWORK_QOS_LEVELS"
| "level_ok (GetByQos l) \<longleftrightarrow> l < BSSGP_MAX_NETWORK_QOS_LEVELS"
| "level_ok (CheckByQos l) \<longleftrightarrow> l < BSSGP_MAX_NETWORK_QOS_LEVELS"
| "level_ok _ \<longleftrightarrow> True"

lemma exec_refines:
  assumes "represents c qs" "level_ok op" "udt_sizes c = x"
  shows "\<exists>c'. udt_exec op c = Some (fst (spec_exec x op qs), c') \<and> represents c' (snd (spec_exec x op qs)) \<and> udt_sizes c' = x"
proof (cases op)
  case (PutBuffer t l buff sz msg)
  then show ?thesis using put_refines [OF assms(1), of l t buff sz msg] assms(2,3) by (auto simp: udt_sizes_def)
next
  case (GetByTlli t)
  then show ?thesis using get_refines [OF assms(1), of t] assms(3) by auto
next
  case (GetByTlliQos t l)
  then show ?thesis using get_level_refines [OF assms(1), of l t] assms(2,3) by auto
next
  case (GetByQos l)
  then show ?thesis using get_next_refines [OF assms(1), of l] assms(2,3) by auto
next
  case (CheckByTlli t)
  then show ?thesis using check_tlli_refines [OF assms(1), of t] assms(1,3) by auto
next
  case (CheckByQos l)
  then show ?thesis using check_refines [OF assms(1), of l] assms(2,3) by auto
qed

lemma run_refines:
  assumes "represents c qs" "\<forall>op \<in> set ops. level_ok op" "udt_sizes c = x"
  shows "\<exists>c'. udt_run ops c = Some (fst (spec_run x ops qs), c') \<and> represents c' (snd (spec_run x ops qs)) \<and> udt_sizes c' = x"
  using assms
proof (induction ops arbitrary: c qs)
  case (Cons op ops)
  obtain c1 where c1: "udt_exec op c = Some (fst (spec_exec x op qs), c1)" "represents c1 (snd (spec_exec x op qs))" "udt_sizes c1 = x"
    using exec_refines [OF Cons.prems(1) _ Cons.prems(3)] Cons.prems(2) by auto
  then show ?case using Cons.IH [OF c1(2) _ c1(3)] Cons.prems(2) by (auto simp: case_prod_unfold)
qed simp

lemma initial_represents:
  assumes "N < 2 ^ 32"
  shows "represents (bssgp_udt_initialize M N cb z) []" "udt_sizes (bssgp_udt_initialize M N cb z) = (M, N, cb)"
proof -
  have "udt_ok (bssgp_udt_initialize M N cb z) [] (\<lambda>_ _. [])"
    using assms by (simp add: udt_ok_def lists_ok_def buffs_ok_def bssgp_udt_initialize_def)
  then show "represents (bssgp_udt_initialize M N cb z) []" unfolding represents_def by fastforce
  show "udt_sizes (bssgp_udt_initialize M N cb z) = (M, N, cb)" by (simp add: udt_sizes_def bssgp_udt_initialize_def)
qed

text \<open>
  C20: the pointer structure behaves as lists. From the initial state, every sequence of operations runs
  without following a null pointer, looping or leaving an array, and each operation answers what it would
  answer on a list of TLLIs with four lists of PDUs each.
\<close>

theorem unitdata_queues_refine_lists:
  assumes "\<forall>op \<in> set ops. level_ok op" "N < 2 ^ 32"
  shows "\<exists>c'. udt_run ops (bssgp_udt_initialize M N cb z) = Some (fst (spec_run (M, N, cb) ops []), c') \<and>
     represents c' (snd (spec_run (M, N, cb) ops []))"
  using run_refines [OF initial_represents(1) [OF assms(2)] assms(1) initial_represents(2) [OF assms(2)]] by blast

definition msg_of :: "nat \<Rightarrow> 32 word \<Rightarrow> nat DlUnitData" where
  "msg_of r t = \<lparr>um_tlli = t, um_pdu_data = 0, um_pdu_data_len = 0, um_rest = r\<rparr>"

definition zero_buffer :: "nat UdtBuffer" where
  "zero_buffer = \<lparr>ub_prev = None, ub_next = None, ub_data_size = 0, ub_dl_unitdata = msg_of 0 0, ub_data = 0\<rparr>"

definition sample_ops :: "nat udt_op list" where
  "sample_ops = [PutBuffer 7 2 100 40 (msg_of 1 7), PutBuffer 9 0 101 50 (msg_of 2 9), PutBuffer 7 0 102 60 (msg_of 3 7),
     CheckByQos 0, GetByTlli 7, GetByTlli 7, GetByTlli 7]"

theorem unitdata_queues_refine_lists_witness:
  "\<exists>c'. udt_run sample_ops (bssgp_udt_initialize 75 1000 False zero_buffer) = Some (fst (spec_run (75, 1000, False) sample_ops []), c') \<and>
     fst (spec_run (75, 1000, False) sample_ops []) = [Stored True, Stored True, Stored True,
       Seen (Some (102, 60, (msg_of 3 7)\<lparr>um_pdu_data := 102, um_pdu_data_len := 60\<rparr>)),
       Handed (Some (102, (msg_of 3 7)\<lparr>um_pdu_data := 102, um_pdu_data_len := 60\<rparr>)),
       Handed (Some (100, (msg_of 1 7)\<lparr>um_pdu_data := 100, um_pdu_data_len := 40\<rparr>)), Handed None]"
proof -
  have "\<forall>op \<in> set sample_ops. level_ok op" by (simp add: sample_ops_def)
  from unitdata_queues_refine_lists [OF this, of 1000 75 False zero_buffer]
  have "\<exists>c'. udt_run sample_ops (bssgp_udt_initialize 75 1000 False zero_buffer) = Some (fst (spec_run (75, 1000, False) sample_ops []), c')"
    by auto
  moreover have "fst (spec_run (75, 1000, False) sample_ops []) = [Stored True, Stored True, Stored True,
       Seen (Some (102, 60, (msg_of 3 7)\<lparr>um_pdu_data := 102, um_pdu_data_len := 60\<rparr>)),
       Handed (Some (102, (msg_of 3 7)\<lparr>um_pdu_data := 102, um_pdu_data_len := 60\<rparr>)),
       Handed (Some (100, (msg_of 1 7)\<lparr>um_pdu_data := 100, um_pdu_data_len := 40\<rparr>)), Handed None]"
    by code_simp
  ultimately show ?thesis by blast
qed

section \<open>Order within a TLLI\<close>

lemma represents_wf:
  assumes "represents c qs"
  shows "\<forall>a \<in> set qs. length (tp_levels a) = 4" "distinct (map tp_tlli qs)"
  using assms by (auto simp: represents_def udt_ok_def lists_ok_def pdus_of_def o_def)

lemma four_levels:
  assumes "length xs = (4 :: nat)"
  obtains a b c d where "xs = [a, b, c, d]"
proof -
  obtain a ys where "xs = a # ys" "length ys = 3" using assms by (cases xs) auto
  moreover then obtain b zs where "ys = b # zs" "length zs = 2" by (cases ys) auto
  moreover then obtain c ws where "zs = c # ws" "length ws = 1" by (cases zs) auto
  moreover then obtain d where "ws = [d]" by (cases ws) auto
  ultimately show ?thesis using that by blast
qed

lemma of_tlli_on_tlli:
  assumes "\<And>a. tp_tlli (f a) = tp_tlli a"
  shows "of_tlli t (on_tlli t f qs) = map_option f (of_tlli t qs)"
  by (induction qs) (auto simp: of_tlli_def on_tlli_def assms)

lemma find_four: "find P [0..<4] = (if P 0 then Some 0 else if P 1 then Some 1 else if P 2 then Some 2 else if P 3 then Some 3 else None)"
  for P :: "nat \<Rightarrow> bool"
proof -
  have "[0..<4] = [0, 1, 2, 3 :: nat]" by (simp add: upt_rec)
  then show ?thesis by simp
qed

lemma get_next_item:
  assumes "of_tlli t qs = Some a" "length (tp_levels a) = 4" "all_items a = i # is"
  shows "fst (spec_get t qs) = Some i \<and>
    (\<exists>a'. of_tlli t (snd (spec_get t qs)) = Some a' \<and> length (tp_levels a') = 4 \<and> all_items a' = is)"
proof -
  obtain l0 l1 l2 l3 where l: "tp_levels a = [l0, l1, l2, l3]" by (rule four_levels [OF assms(2)])
  have k: "tp_tlli (drop_item True l b) = tp_tlli b" for l and b :: "'a TlliPdus" by (simp add: drop_item_def Let_def)
  have d: "tp_levels (drop_item True l b) = (tp_levels b)[l := tl (tp_levels b ! l)]" for l and b :: "'a TlliPdus"
    by (simp add: drop_item_def Let_def)
  show ?thesis
    using assms(1,3) l
    by (cases l0; cases l1; cases l2; cases l3)
      (simp_all add: spec_get_def find_four all_items_def of_tlli_on_tlli k d)
qed

lemma get_no_item:
  assumes "of_tlli t qs = Some a" "length (tp_levels a) = 4" "all_items a = []"
  shows "fst (spec_get t qs) = None"
proof -
  obtain l0 l1 l2 l3 where l: "tp_levels a = [l0, l1, l2, l3]" by (rule four_levels [OF assms(2)])
  then show ?thesis using assms(1,3) by (simp add: spec_get_def find_four all_items_def)
qed

lemma drain:
  assumes "of_tlli t qs = Some a" "length (tp_levels a) = 4"
  shows "fst (spec_run x (replicate (length (all_items a)) (GetByTlli t) @ [GetByTlli t]) qs) =
     map (Handed \<circ> Some \<circ> handed) (all_items a) @ [Handed None]"
  using assms
proof (induction "all_items a" arbitrary: a qs)
  case Nil
  then show ?case using get_no_item [OF Nil.prems] by (simp add: case_prod_unfold)
next
  case (Cons i "is")
  obtain a' where a': "fst (spec_get t qs) = Some i" "of_tlli t (snd (spec_get t qs)) = Some a'" "length (tp_levels a') = 4" "all_items a' = is"
    using get_next_item [OF Cons.prems Cons.hyps(2) [symmetric]] by blast
  show ?case using Cons.hyps(1) [OF a'(4) [symmetric] a'(2,3)] a' unfolding Cons.hyps(2) [symmetric]
    by (simp add: case_prod_unfold)
qed

text \<open>The PDUs of a TLLI that wait at a level, and those that a run of operations accepted there, in order.\<close>

definition queued :: "32 word \<Rightarrow> nat \<Rightarrow> 'd TlliPdus list \<Rightarrow> 'd item list" where
  "queued t l qs = (case of_tlli t qs of None \<Rightarrow> [] | Some a \<Rightarrow> tp_levels a ! l)"

fun accepted_by :: "32 word \<Rightarrow> nat \<Rightarrow> 'd udt_op \<Rightarrow> 'd udt_result \<Rightarrow> 'd item list" where
  "accepted_by t l (PutBuffer t' l' buff sz msg) r = (if t' = t \<and> l' = l \<and> r = Stored True then [stored_item buff sz msg] else [])"
| "accepted_by t l _ r = []"

definition accepted :: "32 word \<Rightarrow> nat \<Rightarrow> 'd udt_op list \<Rightarrow> 'd udt_result list \<Rightarrow> 'd item list" where
  "accepted t l ops rs = concat (map2 (accepted_by t l) ops rs)"

fun takes_nothing :: "'d udt_op \<Rightarrow> bool" where
  "takes_nothing (PutBuffer t l buff sz msg) \<longleftrightarrow> True"
| "takes_nothing (CheckByTlli t) \<longleftrightarrow> True"
| "takes_nothing (CheckByQos l) \<longleftrightarrow> True"
| "takes_nothing _ \<longleftrightarrow> False"

lemma add_item_tlli: "tp_tlli (add_item l i a) = tp_tlli a"
  by (simp add: add_item_def Let_def)

lemma add_item_levels: "tp_levels (add_item l i a) = (tp_levels a)[l := tp_levels a ! l @ [i]]"
  by (simp add: add_item_def Let_def)

lemma of_tlli_append: "of_tlli t (qs @ [a]) = (case of_tlli t qs of Some b \<Rightarrow> Some b | None \<Rightarrow> if tp_tlli a = t then Some a else None)"
  by (induction qs) (auto simp: of_tlli_def)

lemma of_tlli_move:
  assumes "distinct (map tp_tlli qs)" "a \<in> set qs"
  shows "of_tlli t (filter (\<lambda>b. tp_tlli b \<noteq> tp_tlli a) qs @ [a]) = of_tlli t qs"
proof -
  obtain us vs where qs: "qs = us @ a # vs" by (meson assms(2) split_list)
  have f: "filter (\<lambda>b. tp_tlli b \<noteq> tp_tlli a) us = us" "filter (\<lambda>b. tp_tlli b \<noteq> tp_tlli a) vs = vs"
    using assms(1) unfolding qs by (auto simp: filter_id_conv image_iff)
  have "of_tlli t (us @ vs @ [a]) = of_tlli t (us @ a # vs)" using assms(1) unfolding qs
  proof (induction us)
    case Nil
    then show ?case by (induction vs) (auto simp: of_tlli_def)
  qed (simp add: of_tlli_def)
  then show ?thesis using f by (simp add: qs)
qed

lemma of_tlli_on_other:
  assumes "\<And>a. tp_tlli (f a) = tp_tlli a" "t' \<noteq> t"
  shows "of_tlli t (on_tlli t' f qs) = of_tlli t qs"
  by (induction qs) (use assms(2) in \<open>auto simp: of_tlli_def on_tlli_def assms(1)\<close>)

lemma exec_queued:
  assumes wf: "\<forall>a \<in> set qs. length (tp_levels a) = 4" "distinct (map tp_tlli qs)"
    and op: "takes_nothing op" "level_ok op" and l: "l < BSSGP_MAX_NETWORK_QOS_LEVELS"
  shows "queued t l (snd (spec_exec x op qs)) = queued t l qs @ accepted_by t l op (fst (spec_exec x op qs))"
proof (cases op)
  case (PutBuffer t' l' buff sz msg)
  obtain M N cb where x: "x = (M, N, cb)" by (cases x) auto
  have of: "of_tlli t' qs = Some a \<Longrightarrow> a \<in> set qs \<and> tp_tlli a = t'" for a by (auto simp: of_tlli_def find_Some_iff)
  show ?thesis
  proof (cases "of_tlli t' qs")
    case None
    then show ?thesis
      using l op(2)
      by (auto simp: PutBuffer x spec_put_def queued_def of_tlli_append add_item_levels add_item_tlli no_pdus_def nth_list_update split: option.splits)
  next
    case (Some a)
    have len: "length (tp_levels a) = 4" using of [OF Some] wf(1) by blast
    show ?thesis
      using l op(2) len Some
      by (cases "t' = t")
        (auto simp: PutBuffer x spec_put_def queued_def of_tlli_on_tlli of_tlli_on_other add_item_levels add_item_tlli nth_list_update split: option.splits)
  qed
next
  case (CheckByQos l')
  show ?thesis
  proof (cases "find (\<lambda>a. tp_levels a ! l' \<noteq> []) qs")
    case None
    then show ?thesis by (simp add: CheckByQos spec_next_def)
  next
    case (Some a)
    then have "a \<in> set qs" by (auto simp: find_Some_iff)
    from of_tlli_move [OF wf(2) this, of t] show ?thesis using Some by (simp add: CheckByQos spec_next_def queued_def)
  qed
qed (use op(1) in simp_all)

lemma spec_exec_wf:
  assumes "represents c qs" "level_ok op" "udt_sizes c = x"
  shows "\<forall>a \<in> set (snd (spec_exec x op qs)). length (tp_levels a) = 4" "distinct (map tp_tlli (snd (spec_exec x op qs)))"
  using exec_refines [OF assms] represents_wf by blast+

lemma run_queued:
  assumes "represents c qs" "udt_sizes c = x" "\<forall>op \<in> set ops. takes_nothing op \<and> level_ok op" and l: "l < BSSGP_MAX_NETWORK_QOS_LEVELS"
  shows "queued t l (snd (spec_run x ops qs)) = queued t l qs @ accepted t l ops (fst (spec_run x ops qs))"
  using assms(1-3)
proof (induction ops arbitrary: c qs)
  case (Cons op ops)
  have op: "takes_nothing op" "level_ok op" using Cons.prems(3) by simp_all
  obtain c1 where c1: "represents c1 (snd (spec_exec x op qs))" "udt_sizes c1 = x"
    using exec_refines [OF Cons.prems(1) op(2) Cons.prems(2)] by blast
  from Cons.IH [OF this] exec_queued [OF represents_wf [OF Cons.prems(1)] op l, of t x] Cons.prems(3) show ?case
    by (auto simp: accepted_def case_prod_unfold)
qed (simp add: accepted_def)

lemma drain_queued:
  assumes "\<forall>a \<in> set qs. length (tp_levels a) = 4"
  shows "fst (spec_run x (replicate (length (concat (map (\<lambda>l. queued t l qs) [0..<BSSGP_MAX_NETWORK_QOS_LEVELS])) + 1) (GetByTlli t)) qs) =
     map (Handed \<circ> Some \<circ> handed) (concat (map (\<lambda>l. queued t l qs) [0..<BSSGP_MAX_NETWORK_QOS_LEVELS])) @ [Handed None]"
proof (cases "of_tlli t qs")
  case None
  then have "concat (map (\<lambda>l. queued t l qs) [0..<BSSGP_MAX_NETWORK_QOS_LEVELS]) = []" by (simp add: queued_def)
  then show ?thesis using None by (simp add: spec_get_def case_prod_unfold del: concat_eq_Nil_conv)
next
  case (Some a)
  then have "a \<in> set qs" by (auto simp: of_tlli_def find_Some_iff)
  then have len: "length (tp_levels a) = 4" using assms by blast
  then have "map (\<lambda>l. queued t l qs) [0..<BSSGP_MAX_NETWORK_QOS_LEVELS] = tp_levels a"
    using Some by (simp add: queued_def map_nth flip: len)
  then show ?thesis using drain [OF Some len, of x] by (simp add: all_items_def replicate_append_same)
qed

lemma spec_run_append:
  "spec_run x (ops @ ops') qs = (fst (spec_run x ops qs) @ fst (spec_run x ops' (snd (spec_run x ops qs))),
     snd (spec_run x ops' (snd (spec_run x ops qs))))"
  by (induction ops arbitrary: qs) (simp_all add: case_prod_unfold apfst_def map_prod_def)

text \<open>
  C21: the PDUs of a TLLI come out in the order in which they were accepted.  Let any PDUs be offered, for whatever TLLIs
  and levels, while nothing is taken.  Then taking the PDUs of a TLLI until there is none left hands out, the most urgent
  level first, those that waited before and after them those accepted in this run, in the order of their acceptance.
\<close>

theorem pdus_of_tlli_in_order:
  assumes "represents c qs" "\<forall>op \<in> set ops. takes_nothing op \<and> level_ok op"
  shows "\<exists>rs c1 c2. udt_run ops c = Some (rs, c1) \<and> length rs = length ops \<and>
     (let pdus = concat (map (\<lambda>l. queued t l qs @ accepted t l ops rs) [0..<BSSGP_MAX_NETWORK_QOS_LEVELS])
      in udt_run (replicate (length pdus + 1) (GetByTlli t)) c1 = Some (map (Handed \<circ> Some \<circ> handed) pdus @ [Handed None], c2))"
proof -
  let ?x = "udt_sizes c" let ?rs = "fst (spec_run (udt_sizes c) ops qs)" let ?qs = "snd (spec_run (udt_sizes c) ops qs)"
  let ?pdus = "concat (map (\<lambda>l. queued t l ?qs) [0..<BSSGP_MAX_NETWORK_QOS_LEVELS])"
  obtain c1 where c1: "udt_run ops c = Some (?rs, c1)" "represents c1 ?qs" "udt_sizes c1 = ?x"
    using run_refines [OF assms(1) _ refl] assms(2) by blast
  have "map (\<lambda>l. queued t l qs @ accepted t l ops ?rs) [0..<BSSGP_MAX_NETWORK_QOS_LEVELS] = map (\<lambda>l. queued t l ?qs) [0..<BSSGP_MAX_NETWORK_QOS_LEVELS]"
    using run_queued [OF assms(1) refl assms(2)] by simp
  then have p: "concat (map (\<lambda>l. queued t l qs @ accepted t l ops ?rs) [0..<BSSGP_MAX_NETWORK_QOS_LEVELS]) = ?pdus" by (rule arg_cong)
  have "\<forall>op \<in> set (replicate (length ?pdus + 1) (GetByTlli t)). level_ok op" by auto
  from run_refines [OF c1(2) this c1(3)] obtain c2 where
    "udt_run (replicate (length ?pdus + 1) (GetByTlli t)) c1 = Some (map (Handed \<circ> Some \<circ> handed) ?pdus @ [Handed None], c2)"
    unfolding drain_queued [OF represents_wf(1) [OF c1(2)]] by blast
  moreover have "length ?rs = length ops" for x
    by (induction ops arbitrary: qs) (simp_all add: case_prod_unfold)
  ultimately show ?thesis using c1(1) unfolding p [symmetric] Let_def by blast
qed

section \<open>Turns of the TLLIs\<close>

lemma spec_next_first:
  assumes "\<forall>a \<in> set us. tp_levels a ! l = []" "tp_levels x ! l \<noteq> []" "distinct (map tp_tlli (us @ x # ws))"
  shows "spec_next l (us @ x # ws) = (Some (hd (tp_levels x ! l)), us @ ws @ [x])"
proof -
  have "find (\<lambda>a. tp_levels a ! l \<noteq> []) (us @ x # ws) = Some x" using assms(1,2) by (induction us) auto
  moreover have "filter (\<lambda>b. tp_tlli b \<noteq> tp_tlli x) us = us" "filter (\<lambda>b. tp_tlli b \<noteq> tp_tlli x) ws = ws"
    using assms(3) by (auto simp: filter_id_conv image_iff)
  ultimately show ?thesis by (simp add: spec_next_def)
qed

lemma split_first:
  assumes "filter P us = x # xs"
  obtains as bs where "us = as @ x # bs" "\<forall>a \<in> set as. \<not> P a" "P x" "filter P bs = xs" "filter P as = []"
proof -
  obtain as bs where "us = as @ x # bs" "\<forall>a \<in> set as. \<not> P a" "P x" "xs = filter P bs"
    using assms filter_eq_ConsD [of P us x xs] by blast
  then show ?thesis using that by (auto simp: filter_empty_conv)
qed

lemma rotation:
  assumes "filter (\<lambda>a. tp_levels a ! l \<noteq> []) us = act" "distinct (map tp_tlli (us @ vs))"
  shows "spec_run x (replicate (length act) (CheckByQos l)) (us @ vs) =
     (map (\<lambda>a. Seen (Some (hd (tp_levels a ! l)))) act, filter (\<lambda>a. tp_levels a ! l = []) us @ vs @ act)"
  using assms
proof (induction act arbitrary: us vs)
  case Nil
  then have "filter (\<lambda>a. tp_levels a ! l = []) us = us" by (auto simp: filter_empty_conv filter_id_conv)
  then show ?case by simp
next
  case (Cons y act)
  obtain as bs where s: "us = as @ y # bs" "\<forall>a \<in> set as. \<not> tp_levels a ! l \<noteq> []" "tp_levels y ! l \<noteq> []"
    "filter (\<lambda>a. tp_levels a ! l \<noteq> []) bs = act" "filter (\<lambda>a. tp_levels a ! l \<noteq> []) as = []"
    by (rule split_first [OF Cons.prems(1)])
  have n: "spec_next l (us @ vs) = (Some (hd (tp_levels y ! l)), (as @ bs) @ vs @ [y])"
    using spec_next_first [of as l y "bs @ vs"] s(1-3) Cons.prems(2) by simp
  have "filter (\<lambda>a. tp_levels a ! l = []) as = as" using s(2) by (simp add: filter_id_conv)
  moreover have "distinct (map tp_tlli ((as @ bs) @ vs @ [y]))" using Cons.prems(2) s(1) by auto
  moreover have "filter (\<lambda>a. tp_levels a ! l \<noteq> []) (as @ bs) = act" using s(4,5) by simp
  ultimately have "spec_run x (replicate (length act) (CheckByQos l)) ((as @ bs) @ vs @ [y]) =
     (map (\<lambda>a. Seen (Some (hd (tp_levels a ! l)))) act, filter (\<lambda>a. tp_levels a ! l = []) (as @ bs) @ (vs @ [y]) @ act)"
    by (intro Cons.IH)
  then show ?case using s(3) n unfolding s(1) by simp
qed

text \<open>
  C22: the TLLIs take turns. As many checks of a quality of service level as there are TLLIs with a PDU at
  that level see the first PDU of every one of them, once each and in their order; those TLLIs then stand at
  the end of the list.
\<close>

theorem tllis_take_turns:
  assumes "represents c qs" "l < BSSGP_MAX_NETWORK_QOS_LEVELS"
  shows "\<exists>c'. udt_run (replicate (length (filter (\<lambda>a. tp_levels a ! l \<noteq> []) qs)) (CheckByQos l)) c =
       Some (map (\<lambda>a. Seen (Some (hd (tp_levels a ! l)))) (filter (\<lambda>a. tp_levels a ! l \<noteq> []) qs), c') \<and>
     represents c' (filter (\<lambda>a. tp_levels a ! l = []) qs @ filter (\<lambda>a. tp_levels a ! l \<noteq> []) qs)"
proof -
  let ?ops = "replicate (length (filter (\<lambda>a. tp_levels a ! l \<noteq> []) qs)) (CheckByQos l)"
  have "\<forall>op \<in> set ?ops. level_ok op" using assms(2) by auto
  moreover have "distinct (map tp_tlli (qs @ []))" using represents_wf(2) [OF assms(1)] by simp
  ultimately show ?thesis
    using run_refines [OF assms(1) _ refl, of ?ops] rotation [OF refl, of qs "[]" "udt_sizes c" l]
    unfolding append_Nil2 append_Nil by (metis fst_conv snd_conv)
qed

section \<open>Where the queues fail\<close>

text \<open>
  \<open>bssgp_udt_get_buff_by_qos\<close> never looks at the last TLLI: with a PDU there only, and so whenever one
  mobile alone has traffic, it returns nothing.
\<close>

theorem last_tlli_not_served:
  assumes "represents c (qs @ [a])" "\<forall>b \<in> set qs. tp_levels b ! l = []" "l < BSSGP_MAX_NETWORK_QOS_LEVELS"
  shows "\<exists>c'. bssgp_udt_get_buff_by_qos l c = Some (None, c') \<and> represents c' (qs @ [a])"
proof -
  have "find (\<lambda>a. tp_levels a ! l \<noteq> []) qs = None" using assms(2) by (simp add: find_None_iff)
  then have "spec_get_next l (qs @ [a]) = (None, qs @ [a])" by (simp add: spec_get_next_def)
  then show ?thesis using get_next_refines [OF assms(1,3)] by auto
qed

definition tllis :: "'d TlliPdus list \<Rightarrow> 32 word set" where
  "tllis qs = tp_tlli ` set qs"

lemma on_tlli_tllis:
  assumes "\<And>a. tp_tlli (f a) = tp_tlli a"
  shows "tllis (on_tlli t f qs) = tllis qs" "length (on_tlli t f qs) = length qs"
proof -
  have "tp_tlli ` set (on_tlli t f qs) = tp_tlli ` set qs"
    unfolding on_tlli_def set_map image_image by (rule image_cong) (simp_all add: assms)
  then show "tllis (on_tlli t f qs) = tllis qs" by (simp only: tllis_def)
qed (simp add: on_tlli_def)

lemma drop_item_tlli: "tp_tlli (drop_item cl l a) = tp_tlli a"
  by (simp add: drop_item_def Let_def)

lemmas kept_tllis = on_tlli_tllis [where f = "drop_item cl l" for cl l, OF drop_item_tlli]
  on_tlli_tllis [where f = "add_item l i" for l i, OF add_item_tlli]

lemma move_last:
  assumes "distinct (map tp_tlli qs)" "a \<in> set qs" "tp_tlli a' = tp_tlli a"
  shows "tllis (filter (\<lambda>b. tp_tlli b \<noteq> tp_tlli a) qs @ [a']) = tllis qs"
    "length (filter (\<lambda>b. tp_tlli b \<noteq> tp_tlli a) qs @ [a']) = length qs"
proof -
  show "tllis (filter (\<lambda>b. tp_tlli b \<noteq> tp_tlli a) qs @ [a']) = tllis qs" using assms(2,3) by (auto simp: tllis_def)
  obtain us vs where qs: "qs = us @ a # vs" by (meson assms(2) split_list)
  have "filter (\<lambda>b. tp_tlli b \<noteq> tp_tlli a) us = us" "filter (\<lambda>b. tp_tlli b \<noteq> tp_tlli a) vs = vs"
    using assms(1) unfolding qs by (auto simp: filter_id_conv image_iff)
  then show "length (filter (\<lambda>b. tp_tlli b \<noteq> tp_tlli a) qs @ [a']) = length qs" by (simp add: qs)
qed

lemma full_stays:
  assumes "length qs = M" "distinct (map tp_tlli qs)"
  shows "tllis (snd (spec_exec (M, N, cb) op qs)) = tllis qs \<and> length (snd (spec_exec (M, N, cb) op qs)) = M"
proof (cases op)
  case (PutBuffer t l buff sz msg)
  then show ?thesis using assms(1)
    by (auto simp: kept_tllis spec_put_def split: option.splits)
next
  case (GetByTlli t)
  then show ?thesis using assms(1)
    by (auto simp: kept_tllis spec_get_def split: option.splits)
next
  case (GetByTlliQos t l)
  then show ?thesis using assms(1)
    by (auto simp: kept_tllis spec_get_level_def split: option.splits)
next
  case (GetByQos l)
  show ?thesis
  proof (cases "find (\<lambda>a. tp_levels a ! l \<noteq> []) (butlast qs)")
    case None
    then show ?thesis using assms(1) GetByQos by (simp add: spec_get_next_def)
  next
    case (Some a)
    then have "a \<in> set (butlast qs)" by (auto simp: find_Some_iff)
    then have "a \<in> set qs" by (rule in_set_butlastD)
    from move_last [OF assms(2) this drop_item_tlli] show ?thesis using assms(1) GetByQos Some by (simp add: spec_get_next_def)
  qed
next
  case (CheckByTlli t)
  then show ?thesis using assms(1) by simp
next
  case (CheckByQos l)
  show ?thesis
  proof (cases "find (\<lambda>a. tp_levels a ! l \<noteq> []) qs")
    case None
    then show ?thesis using assms(1) CheckByQos by (simp add: spec_next_def)
  next
    case (Some a)
    then have "a \<in> set qs" by (auto simp: find_Some_iff)
    from move_last [OF assms(2) this refl] show ?thesis using assms(1) CheckByQos Some by (simp add: spec_next_def)
  qed
qed

lemma full_run:
  assumes "represents c qs" "length qs = length (cf_tlli_used c)" "\<forall>op \<in> set ops. level_ok op"
  shows "\<exists>rs c' qs'. udt_run ops c = Some (rs, c') \<and> represents c' qs' \<and> tllis qs' = tllis qs \<and>
     length qs' = length (cf_tlli_used c') \<and> udt_sizes c' = udt_sizes c"
  using assms
proof (induction ops arbitrary: c qs)
  case Nil
  then show ?case by auto
next
  case (Cons op ops)
  obtain c1 where c1: "udt_exec op c = Some (fst (spec_exec (udt_sizes c) op qs), c1)"
    "represents c1 (snd (spec_exec (udt_sizes c) op qs))" "udt_sizes c1 = udt_sizes c"
    using exec_refines [OF Cons.prems(1) _ refl] Cons.prems(3) by auto
  have f: "tllis (snd (spec_exec (udt_sizes c) op qs)) = tllis qs" "length (snd (spec_exec (udt_sizes c) op qs)) = length (cf_tlli_used c)"
    using full_stays [OF Cons.prems(2) represents_wf(2) [OF Cons.prems(1)]] unfolding udt_sizes_def by blast+
  have "length (cf_tlli_used c1) = length (cf_tlli_used c)" using c1(3) by (simp add: udt_sizes_def)
  then have "length (snd (spec_exec (udt_sizes c) op qs)) = length (cf_tlli_used c1)" using f(2) by simp
  from Cons.IH [OF c1(2) this] Cons.prems(3) c1(1,3) f(1) show ?case by fastforce
qed

text \<open>
  C35: nodes are never returned. Once every node belongs to a TLLI (75 of them, as
  \<^verbatim>\<open>bssgp_api_gp.cpp\<close> sets the queues up), PDUs for any other TLLI are refused for ever, whatever is taken out
  of the queues.
\<close>

theorem tlli_nodes_never_returned:
  assumes "represents c qs" "length qs = length (cf_tlli_used c)" "t \<notin> tllis qs" "\<forall>op \<in> set ops. level_ok op"
    "l < BSSGP_MAX_NETWORK_QOS_LEVELS"
  shows "\<exists>rs c' c''. udt_run ops c = Some (rs, c') \<and> bssgp_udt_put_buffer_in_q t l buff sz msg c' = Some (False, c'')"
proof -
  obtain rs c' qs' where r: "udt_run ops c = Some (rs, c')" "represents c' qs'" "tllis qs' = tllis qs" "length qs' = length (cf_tlli_used c')"
    using full_run [OF assms(1,2,4)] by blast
  have "of_tlli t qs' = None" using assms(3) r(3) by (auto simp: of_tlli_def find_None_iff tllis_def)
  then have "fst (spec_put (length (cf_tlli_used c')) (length (cf_buff_used c')) (cf_watermark_cb c') t l (stored_item buff sz msg) qs') = False"
    using r(4) by (simp add: spec_put_def)
  then show ?thesis using put_refines [OF r(2) assms(5), of t buff sz msg] r(1) by auto
qed

section \<open>Flushing\<close>

text \<open>The loop only frees buffers: the nodes keep their four queues.\<close>

lemma free_loop_frame:
  assumes "free_loop b x = Some r"
  shows "cf_tlli (snd (snd (snd (snd r)))) = cf_tlli (snd (snd (snd x)))"
proof -
  have "(case (b, x) of (b, x) \<Rightarrow> \<lambda>r. cf_tlli (snd (snd (snd (snd r)))) = cf_tlli (snd (snd (snd x)))) r"
  proof (rule free_loop.raw_induct)
  fix f :: "nat \<Rightarrow> QosQueue \<times> 32 word \<times> 32 word \<times> 'a UdtConfig \<Rightarrow> (nat \<times> QosQueue \<times> 32 word \<times> 32 word \<times> 'a UdtConfig) option"
    and b x r
  assume IH: "\<And>b x r. f b x = Some r \<Longrightarrow> cf_tlli (snd (snd (snd (snd r)))) = cf_tlli (snd (snd (snd x)))"
    and run: "(case x of (s, bytes, buffs, c) \<Rightarrow>
        case ub_next (cf_buff c b) of
          None \<Rightarrow> Some (b, x)
        | Some n \<Rightarrow> do {
            p \<leftarrow> ub_prev (cf_buff c n);
            let sz = ub_data_size (cf_buff c p);
            f n (s\<lparr>qq_rx_bytes := qq_rx_bytes s - sz, qq_buff_count := qq_buff_count s - 1\<rparr>, bytes + sz, buffs + 1,
              bssgp_udt_return_buff_to_pool p c)
          }) = Some r"
  show "cf_tlli (snd (snd (snd (snd r)))) = cf_tlli (snd (snd (snd x)))"
  proof (cases x)
    case (fields s bytes buffs c)
    show ?thesis
    proof (cases "ub_next (cf_buff c b)")
      case None
      then show ?thesis using run fields by auto
    next
      case (Some n)
      then obtain p where "f n (s\<lparr>qq_rx_bytes := qq_rx_bytes s - ub_data_size (cf_buff c p), qq_buff_count := qq_buff_count s - 1\<rparr>,
          bytes + ub_data_size (cf_buff c p), buffs + 1, bssgp_udt_return_buff_to_pool p c) = Some r"
        using run fields by (auto simp: bind_eq_Some_conv Let_def)
      from IH [OF this] show ?thesis using fields by (simp add: return_read)
    qed
  qed
  qed (use assms in simp)
  then show ?thesis by simp
qed

lemma flush_levels_frame:
  assumes "flush_levels q ls c = Some c'" "q = q'"
  shows "length (tq_qos (cf_tlli c' q')) = length (tq_qos (cf_tlli c q'))"
  using assms
proof (induction ls arbitrary: c)
  case (Cons l ls)
  show ?case
  proof (cases "qq_buff_count (qos_at q l c) = 0")
    case True
    then show ?thesis using Cons by simp
  next
    case False
    then obtain s bytes buffs c1 where c1: "bssgp_udt_free_qos_list_buffs (qos_at q l c) c = Some (s, bytes, buffs, c1)"
      "flush_levels q ls (upd_tlli q (\<lambda>t. t\<lparr>tq_buff_count := tq_buff_count t - buffs, tq_rx_bytes := tq_rx_bytes t - bytes\<rparr>)
        (upd_qos q l (\<lambda>_. s) c1)) = Some c'"
      using Cons.prems(1) by (auto simp: bind_eq_Some_conv Let_def)
    have "cf_tlli c1 = cf_tlli c"
      using c1(1) free_loop_frame unfolding bssgp_udt_free_qos_list_buffs_def
      by (fastforce simp: bind_eq_Some_conv Let_def return_read)
    then show ?thesis using Cons.IH [OF c1(2) Cons.prems(2)] Cons.prems(2) by (simp add: udt_read)
  qed
qed simp

text \<open>
  \<open>bssgp_udt_flush_tlli\<close> of a TLLI with anything queued never returns properly: for a single buffer
  at a level it reads through the null pointer in front of it, and otherwise it reads behind the array of
  levels at the end.
\<close>

theorem flush_overruns:
  assumes "represents c qs" "of_tlli t qs = Some a" "all_items a \<noteq> []"
  shows "bssgp_udt_flush_tlli t c = None"
proof -
  obtain ls bs where ok: "udt_ok c ls bs" and qs: "map (pdus_of c bs) ls = qs" using assms(1) by (auto simp: represents_def)
  from ok qs show ?thesis
  proof (cases rule: lookup [where t = t, consumes 2, case_names no_nodes other node])
    case (node h q)
    have n: "length (tq_qos (cf_tlli c q)) = 4" using ok node(5) by (simp add: udt_ok_def node_ok_def)
    show ?thesis
    proof (cases "flush_levels q [0..<4] c")
      case None
      have "node_buffs bs q \<noteq> []" using assms(2,3) node(1) by (auto simp: all_items_pdus)
      then have "tq_buff_count (cf_tlli c q) \<noteq> 0"
        using node_count [OF ok node(5)] unfolding node_buffs_four below_four by auto
      then show ?thesis using None by (simp add: bssgp_udt_flush_tlli_def node)
    next
      case (Some c')
      have "node_buffs bs q \<noteq> []" using assms(2,3) node(1) by (auto simp: all_items_pdus)
      then have "tq_buff_count (cf_tlli c q) \<noteq> 0"
        using node_count [OF ok node(5)] unfolding node_buffs_four below_four by auto
      then show ?thesis using Some flush_levels_frame [OF Some refl] n by (simp add: bssgp_udt_flush_tlli_def node)
    qed
  qed (use assms(2) in auto)
qed

section \<open>The properties on a state with traffic\<close>

definition sample_traffic :: "nat udt_op list" where
  "sample_traffic = [PutBuffer 7 2 100 40 (msg_of 1 7), PutBuffer 7 0 102 60 (msg_of 3 7), PutBuffer 9 0 101 50 (msg_of 2 9)]"

lemma sample_state:
  obtains c :: "nat UdtConfig" where "represents c (snd (spec_run (2, 1000, False) sample_traffic []))" "udt_sizes c = (2, 1000, False)"
proof -
  have "\<forall>op \<in> set sample_traffic. level_ok op" by (simp add: sample_traffic_def)
  from run_refines [OF initial_represents(1) this initial_represents(2), of 1000 2 False zero_buffer]
  show ?thesis using that by auto
qed

lemma sample_qs:
  obtains a b where "snd (spec_run (2, 1000, False) sample_traffic []) = [a, b]" "tp_tlli a = 7" "tp_tlli b = 9"
    "tp_levels a = [[(102, 60, (msg_of 3 7)\<lparr>um_pdu_data := 102, um_pdu_data_len := 60\<rparr>)], [],
      [(100, 40, (msg_of 1 7)\<lparr>um_pdu_data := 100, um_pdu_data_len := 40\<rparr>)], []]"
    "tp_levels b = [[(101, 50, (msg_of 2 9)\<lparr>um_pdu_data := 101, um_pdu_data_len := 50\<rparr>)], [], [], []]"
proof -
  have "snd (spec_run (2, 1000, False) sample_traffic []) =
     [\<lparr>tp_tlli = 7, tp_high = False, tp_levels = [[(102, 60, (msg_of 3 7)\<lparr>um_pdu_data := 102, um_pdu_data_len := 60\<rparr>)], [],
        [(100, 40, (msg_of 1 7)\<lparr>um_pdu_data := 100, um_pdu_data_len := 40\<rparr>)], []]\<rparr>,
      \<lparr>tp_tlli = 9, tp_high = False, tp_levels = [[(101, 50, (msg_of 2 9)\<lparr>um_pdu_data := 101, um_pdu_data_len := 50\<rparr>)], [], [], []]\<rparr>]"
    by code_simp
  then show ?thesis using that by fastforce
qed

definition later_traffic :: "nat udt_op list" where
  "later_traffic = [PutBuffer 7 0 103 20 (msg_of 4 7), PutBuffer 9 2 104 30 (msg_of 5 9), CheckByQos 0, PutBuffer 7 2 105 40 (msg_of 6 7)]"

theorem pdus_of_tlli_in_order_witness:
  "\<exists>c c1 c2 :: nat UdtConfig. \<exists>rs. udt_run later_traffic c = Some (rs, c1) \<and>
     udt_run (replicate 5 (GetByTlli 7)) c1 = Some (map (\<lambda>(b, s, r). Handed (Some (b, (msg_of r 7)\<lparr>um_pdu_data := b, um_pdu_data_len := s\<rparr>)))
       [(102, 60, 3), (103, 20, 4), (100, 40, 1), (105, 40, 6)] @ [Handed None], c2)"
proof -
  let ?x = "(2, 1000, False)" let ?qs = "snd (spec_run ?x sample_traffic [])"
  obtain c :: "nat UdtConfig" where c: "represents c ?qs" "udt_sizes c = ?x" by (rule sample_state)
  have ok: "\<forall>op \<in> set later_traffic. takes_nothing op \<and> level_ok op" by (simp add: later_traffic_def)
  define rs where "rs = fst (spec_run ?x later_traffic ?qs)"
  have "\<exists>c'. udt_run later_traffic c = Some (rs, c')"
    using run_refines [OF c(1) _ c(2), of later_traffic] ok unfolding rs_def by blast
  then obtain c1 c2 where r: "udt_run later_traffic c = Some (rs, c1)"
    "let pdus = concat (map (\<lambda>l. queued 7 l ?qs @ accepted 7 l later_traffic rs) [0..<BSSGP_MAX_NETWORK_QOS_LEVELS])
     in udt_run (replicate (length pdus + 1) (GetByTlli 7)) c1 = Some (map (Handed \<circ> Some \<circ> handed) pdus @ [Handed None], c2)"
    using pdus_of_tlli_in_order [OF c(1) ok, of 7] by (elim exE conjE) (simp del: upt_Suc)
  let ?pdus = "map (\<lambda>(b, s, r). (b, s, (msg_of r 7)\<lparr>um_pdu_data := b, um_pdu_data_len := s\<rparr>)) [(102, 60, 3), (103, 20, 4), (100, 40, 1), (105, 40, 6)]"
  have p: "concat (map (\<lambda>l. queued 7 l ?qs @ accepted 7 l later_traffic rs) [0..<BSSGP_MAX_NETWORK_QOS_LEVELS]) = ?pdus"
    unfolding rs_def by code_simp
  have "length ?pdus + 1 = 5" by simp
  from r(1) r(2) [unfolded p Let_def this] show ?thesis
    by (intro exI [of _ c] exI [of _ c1] exI [of _ c2] exI [of _ rs]) (simp add: handed_def del: udt_run.simps)
qed

theorem tllis_take_turns_witness:
  "\<exists>c c' :: nat UdtConfig. udt_run [CheckByQos 0, CheckByQos 0] c =
     Some ([Seen (Some (102, 60, (msg_of 3 7)\<lparr>um_pdu_data := 102, um_pdu_data_len := 60\<rparr>)),
       Seen (Some (101, 50, (msg_of 2 9)\<lparr>um_pdu_data := 101, um_pdu_data_len := 50\<rparr>))], c')"
proof -
  obtain a b where q: "snd (spec_run (2, 1000, False) sample_traffic []) = [a, b]"
    "tp_levels a = [[(102, 60, (msg_of 3 7)\<lparr>um_pdu_data := 102, um_pdu_data_len := 60\<rparr>)], [],
      [(100, 40, (msg_of 1 7)\<lparr>um_pdu_data := 100, um_pdu_data_len := 40\<rparr>)], []]"
    "tp_levels b = [[(101, 50, (msg_of 2 9)\<lparr>um_pdu_data := 101, um_pdu_data_len := 50\<rparr>)], [], [], []]"
    by (rule sample_qs)
  obtain c :: "nat UdtConfig" where c: "represents c [a, b]" by (rule sample_state) (simp add: q(1))
  show ?thesis using tllis_take_turns [OF c, of 0] by (auto simp: q(2,3))
qed

theorem last_tlli_not_served_witness:
  "\<exists>c c' :: nat UdtConfig. \<exists>b. tp_tlli b = 9 \<and> tp_levels b ! 0 \<noteq> [] \<and> represents c [b] \<and>
     bssgp_udt_get_buff_by_qos 0 c = Some (None, c')"
proof -
  let ?op = "[PutBuffer 9 0 101 50 (msg_of 2 9)]"
  have ok: "\<forall>op \<in> set ?op. level_ok op" by simp
  obtain c where c: "represents c (snd (spec_run (75, 1000, False) ?op []))"
    using run_refines [OF initial_represents(1) ok initial_represents(2), of 1000 75 False zero_buffer] by auto
  have "snd (spec_run (75, 1000, False) ?op []) =
      [\<lparr>tp_tlli = 9, tp_high = False, tp_levels = [[(101, 50, (msg_of 2 9)\<lparr>um_pdu_data := 101, um_pdu_data_len := 50\<rparr>)], [], [], []]\<rparr>]"
    by code_simp
  then obtain b where b: "represents c ([] @ [b])" "tp_tlli b = 9" "tp_levels b ! 0 \<noteq> []" using c by fastforce
  obtain c' where "bssgp_udt_get_buff_by_qos 0 c = Some (None, c')" using last_tlli_not_served [OF b(1), of 0] by auto
  then show ?thesis using b by (metis append_Nil)
qed

theorem tlli_nodes_never_returned_witness:
  "\<exists>c rs c' c'' :: nat UdtConfig. \<exists>rs. udt_run [GetByTlli 7, GetByTlli 7, GetByTlli 9] c = Some (rs, c') \<and>
     bssgp_udt_put_buffer_in_q 5 0 103 20 (msg_of 4 5) c' = Some (False, c'')"
proof -
  obtain a b where q: "snd (spec_run (2, 1000, False) sample_traffic []) = [a, b]" "tp_tlli a = 7" "tp_tlli b = 9"
    by (rule sample_qs)
  obtain c :: "nat UdtConfig" where c: "represents c [a, b]" "udt_sizes c = (2, 1000, False)" by (rule sample_state) (simp add: q(1))
  have "length [a, b] = length (cf_tlli_used c)" "5 \<notin> tllis [a, b]" using c(2) q(2,3) by (auto simp: udt_sizes_def tllis_def)
  from tlli_nodes_never_returned [OF c(1) this, of "[GetByTlli 7, GetByTlli 7, GetByTlli 9]" 0 103 20 "msg_of 4 5"]
  show ?thesis by auto
qed

theorem flush_overruns_witness:
  "\<exists>c :: nat UdtConfig. (\<exists>qs. represents c qs) \<and> bssgp_udt_flush_tlli 7 c = None"
proof -
  obtain a b where q: "snd (spec_run (2, 1000, False) sample_traffic []) = [a, b]" "tp_tlli a = 7" "tp_tlli b = 9"
    "tp_levels a = [[(102, 60, (msg_of 3 7)\<lparr>um_pdu_data := 102, um_pdu_data_len := 60\<rparr>)], [],
      [(100, 40, (msg_of 1 7)\<lparr>um_pdu_data := 100, um_pdu_data_len := 40\<rparr>)], []]"
    by (rule sample_qs)
  obtain c :: "nat UdtConfig" where c: "represents c [a, b]" by (rule sample_state) (simp add: q(1))
  have "of_tlli 7 [a, b] = Some a" "all_items a \<noteq> []" using q(2,4) by (simp_all add: of_tlli_def all_items_def)
  from flush_overruns [OF c this] c show ?thesis by blast
qed

end
