(* ===== verification/SchedulerFrame.thy ===== *)
theory SchedulerFrame
  imports MacRuns
begin

text \<open>
  What the scheduler leaves alone: the states and the TLLIs of the TBFs, and of a downlink TBF the tags.
\<close>

definition same_by :: "('a Tbf_scheme \<Rightarrow> 'b) \<Rightarrow> ('p \<Rightarrow> 'a Tbf_scheme) \<Rightarrow> ('p \<Rightarrow> 'a Tbf_scheme) \<Rightarrow> bool" where
  "same_by f h h' \<longleftrightarrow> (\<forall>v. f (h' v) = f (h v))"

lemma same_by_refl [simp]: "same_by f h h"
  by (simp add: same_by_def)

lemma same_by_trans: "same_by f h h1 \<Longrightarrow> same_by f h1 h2 \<Longrightarrow> same_by f h h2"
  by (simp add: same_by_def)

text \<open>A branch that keeps it.\<close>

definition branch_by :: "('a Tbf_scheme \<Rightarrow> 'b) \<Rightarrow> ('p, 'a, 'm) branch \<Rightarrow> bool" where
  "branch_by f br \<longleftrightarrow> (\<forall>trx ts u x. same_by f (fst x) (fst (br_AllocateTFI br trx u x)) \<and>
     same_by f (fst x) (fst (br_AllocateUSF br trx ts u x)))"

text \<open>A reading of a TBF that does not depend on the resources it holds.\<close>

locale frame_laws =
  fixes f :: "'a Tbf_scheme \<Rightarrow> 'b"
  assumes slot_free [simp]: "f (u\<lparr>tbf_trx := r\<rparr>) = f u" "f (u\<lparr>tbf_allocatedTs := a\<rparr>) = f u" "f (u\<lparr>tbf_naturalTs := a\<rparr>) = f u"
    and tai_free [simp]: "f (u\<lparr>tbf_taiTs := k\<rparr>) = f u" "f (u\<lparr>tbf_tai := k\<rparr>) = f u"
begin

lemma same_by_upd: "f t = f (h u) \<Longrightarrow> same_by f h (h(u := t))"
  by (simp add: same_by_def)

lemma Constrain_frame: "same_by f h (snd (ConstrainCandMultiConfig (s, h)))"
  by (auto simp: ConstrainCandMultiConfig_def Let_def same_by_def)

lemma AllocateOneSlot_frame:
  assumes "AllocateOneSlot g (s, h, p) = Some (b, s', h', p')"
  shows "same_by f h h'"
proof -
  have "same_by f h (snd (ConstrainCandMultiConfig (s3, h(u := set_allocatedTs k True ((h u)\<lparr>tbf_trx := trx\<rparr>)))))" for s3 u k trx
    by (rule same_by_trans [OF same_by_upd Constrain_frame]) (simp_all add: set_allocatedTs_def)
  then show ?thesis
    using assms
    by (auto simp: AllocateOneSlot_def UpdateAllowedSlots_def Let_def split: bind_splits if_splits) (metis snd_conv)+
qed

lemma allocate_slots_frame:
  "allocate_slots g n (s, h, p) = Some (c, e, s', h', p') \<Longrightarrow> same_by f h h'"
proof (induction n arbitrary: s h p c e)
  case (Suc n)
  obtain b s1 h1 p1 where one: "AllocateOneSlot g (s, h, p) = Some (b, s1, h1, p1)"
    using Suc.prems by (auto split: bind_splits)
  note id1 = AllocateOneSlot_frame [OF one]
  show ?case
  proof (cases b)
    case True
    then obtain c2 e2 where "allocate_slots g n (s1, h1, p1) = Some (c2, e2, s', h', p')"
      using Suc.prems one by (auto split: bind_splits)
    then show ?thesis using Suc.IH same_by_trans [OF id1] by blast
  next
    case False
    then show ?thesis using Suc.prems one id1 by simp
  qed
qed simp

lemma AllocateTAI_frame: "same_by f (fst x) (fst (snd (TSPool_AllocateTAI trx ts u x)))"
  by (cases x) (auto simp: TSPool_AllocateTAI_def Let_def same_by_def split: prod.splits)

lemma assign_loop_frame:
  "branch_by f br \<Longrightarrow> same_by f (fst x) (fst (assign_loop br u tss todo x))"
proof (induction tss arbitrary: todo x)
  case (Cons ts tss)
  let ?trx = "tbf_trx (fst x u)"
  let ?x1 = "if todo then snd (TSPool_AllocateTAI ?trx (int ts) u x) else x"
  have 1: "same_by f (fst x) (fst ?x1)" using AllocateTAI_frame [of x ?trx "int ts" u] by simp
  have 2: "same_by f (fst ?x1) (fst (br_AllocateUSF br ?trx (int ts) u ?x1))" using Cons.prems by (simp only: branch_by_def)
  show ?case
    using Cons.IH [OF Cons.prems, where todo = todo and x = x]
      same_by_trans [OF same_by_trans [OF 1 2] Cons.IH [OF Cons.prems, where todo = False]]
    by (simp add: Let_def)
qed simp

lemma AllocateUser_frame:
  assumes "branch_by f br" "AllocateUser br g (s, h, p) = Some (b, s', h', p')"
  shows "same_by f h h'"
proof -
  obtain s1 h1 where c: "ConstrainCandMultiConfig (s, h) = (s1, h1)" by fastforce
  obtain n e s2 h2 p2 where a: "allocate_slots g (nat (ComputeDesiredNumberOfSlots s)) (s1, h1, p) = Some (n, e, s2, h2, p2)"
    using assms(2) c by (auto simp: AllocateUser_def Let_def split: bind_splits)
  have id1: "same_by f h h1" using Constrain_frame [of h s] c by simp
  have id2: "same_by f h h2" using id1 allocate_slots_frame [OF a] by (simp add: same_by_def)
  show ?thesis
  proof (cases "n > 0")
    case True
    let ?x = "br_AllocateTFI br (tbf_trx (h2 (sa_tbf s2))) (sa_tbf s2) (h2, p2)"
    have "same_by f h2 (fst ?x)" using assms(1) unfolding branch_by_def by (metis fst_conv)
    moreover have "h' = fst (assign_loop br (sa_tbf s2) [0..<MAX_TIMESLOTS] True ?x)"
      using assms(2) c a True by (auto simp: AllocateUser_def Let_def split: prod.splits)
    ultimately show ?thesis using id2 assign_loop_frame [OF assms(1)] same_by_trans by metis
  next
    case False
    then show ?thesis using assms(2) c a id2 by (simp add: AllocateUser_def)
  qed
qed

lemma vacate_slots_frame:
  "vacate_slots dir u l tss (h, p, n, e) = Some (h', p', n', e') \<Longrightarrow> same_by f h h'"
proof (induction tss arbitrary: h p n e)
  case (Cons ts tss)
  have "same_by f h (h(u := set_allocatedTs ts False (h u)))" by (rule same_by_upd) (simp_all add: set_allocatedTs_def)
  then show ?case using Cons.prems Cons.IH same_by_trans
    by (auto simp: Let_def split: bind_splits if_splits) blast+
qed simp

lemma restore_slots_frame:
  "restore_slots dir u orig tss (h, p) = Some (h', p') \<Longrightarrow> same_by f h h'"
proof (induction tss arbitrary: h p)
  case (Cons ts tss)
  have "same_by f h (h(u := set_allocatedTs ts (orig ! ts) (h u)))" by (rule same_by_upd) (simp_all add: set_allocatedTs_def)
  then show ?case using Cons.prems Cons.IH same_by_trans
    by (auto simp: Let_def split: bind_splits) blast+
qed simp

lemma AllocateUserIfBetterQoS_frame:
  assumes "branch_by f br" "AllocateUserIfBetterQoS br g (s, h, p) = Some (b, s', h', p')"
  shows "same_by f h h'"
proof -
  obtain s1 h1 where c: "ConstrainCandMultiConfig (s, h) = (s1, h1)" by fastforce
  obtain h2 p2 n e where v: "vacate_slots (sa_direction s) (sa_tbf s) (nat (sa_delayClass s1 - 1)) [0..<MAX_TIMESLOTS] (h1, p, 0, 0) =
      Some (h2, p2, n, e)"
    using assms(2) c by (auto simp: AllocateUserIfBetterQoS_def Let_def split: bind_splits)
  obtain n3 e3 s3 h3 p3 where a: "allocate_slots g (nat (ComputeDesiredNumberOfSlots s)) (s1, h2, p2) = Some (n3, e3, s3, h3, p3)"
    using assms(2) c v by (auto simp: AllocateUserIfBetterQoS_def Let_def split: bind_splits)
  have id1: "same_by f h h1" using Constrain_frame [of h s] c by simp
  have id3: "same_by f h h3" using id1 vacate_slots_frame [OF v] allocate_slots_frame [OF a] by (simp add: same_by_def)
  show ?thesis
  proof (cases "n3 > n \<or> e3 > e")
    case True
    let ?t = "h3 (sa_tbf s)"
    let ?p4 = "release_usfs br [0..<MAX_TIMESLOTS] ?t (TSPool_ReleaseTAI (tbf_trx ?t) (uint (tbf_taiTs ?t)) (tbf_tai ?t) p3)"
    have e: "assign_loop br (sa_tbf s) [0..<MAX_TIMESLOTS] True (h3, ?p4) = (h', p')"
      using True assms(2) c v a by (simp add: AllocateUserIfBetterQoS_def Let_def split: prod.splits)
    show ?thesis
      using id3 assign_loop_frame [OF assms(1), where x = "(h3, ?p4)" and u = "sa_tbf s" and tss = "[0..<MAX_TIMESLOTS]" and todo = True]
      unfolding e by (simp add: same_by_def)
  next
    case False
    then obtain q where "restore_slots (sa_direction s) (sa_tbf s) (tbf_allocatedTs (h1 (sa_tbf s))) [0..<MAX_TIMESLOTS] (h3, p3) = Some (h', q)"
      using assms(2) c v a by (auto simp: AllocateUserIfBetterQoS_def Let_def split: bind_splits)
    then have "same_by f h3 h'" by (rule restore_slots_frame)
    then show ?thesis using id3 by (simp add: same_by_def)
  qed
qed

lemma release_slots_frame:
  "release_slots br dir u tss (h, p) = Some (h', p') \<Longrightarrow> same_by f h h'"
proof (induction tss arbitrary: h p)
  case (Cons ts tss)
  have "same_by f h (h(u := set_allocatedTs ts False (h u)))" by (rule same_by_upd) (simp_all add: set_allocatedTs_def)
  then show ?case using Cons.prems Cons.IH same_by_trans
    by (auto simp: Let_def split: bind_splits if_splits) blast+
qed simp

lemma DeallocateUser_frame:
  "DeallocateUser br dir u (h, p) = Some (h', p') \<Longrightarrow> same_by f h h'"
  using release_slots_frame by (auto simp: DeallocateUser_def Let_def split: bind_splits)

lemma run_request_frame:
  assumes "\<And>s s' p' b h'. alloc (s, h, p) = Some (b, s', h', p') \<Longrightarrow> same_by f h h'"
    "run_request alloc schar s0 (h, p) = Some (b, h', p')"
  shows "same_by f h h'"
  using assms by (fastforce simp: run_request_def split: bind_splits)

end

section \<open>States and TLLIs\<close>

definition same_id :: "('p \<Rightarrow> 'a Tbf_scheme) \<Rightarrow> ('p \<Rightarrow> 'a Tbf_scheme) \<Rightarrow> bool" where
  "same_id h h' \<longleftrightarrow> (\<forall>v. tbf_state (h' v) = tbf_state (h v) \<and> tbf_tlli (h' v) = tbf_tlli (h v))"

lemma same_id_refl [simp]: "same_id h h"
  by (simp add: same_id_def)

abbreviation ident :: "'a Tbf_scheme \<Rightarrow> TBF_STATE \<times> 32 word" where "ident u \<equiv> (tbf_state u, tbf_tlli u)"

lemma same_id_by: "same_by ident h h' \<longleftrightarrow> same_id h h'"
  by (simp add: same_id_def same_by_def)

definition branch_id :: "('p, 'a, 'm) branch \<Rightarrow> bool" where
  "branch_id br \<longleftrightarrow> branch_by ident br"

lemma branch_id_dl: "branch_id dl_branch"
  by (auto simp: branch_id_def branch_by_def dl_branch_def AllocateDLTFI_def record_tfi_def Let_def same_by_def split: prod.splits)

lemma branch_id_ul: "branch_id ul_branch"
  by (auto simp: branch_id_def branch_by_def ul_branch_def AllocateULTFI_def TSPool_AllocateUSF_def record_tfi_def Let_def same_by_def split: prod.splits)

interpretation id: frame_laws "\<lambda>u. (tbf_state u, tbf_tlli u)"
  by unfold_locales simp_all

text \<open>The part of a downlink TBF that the uplink ones do not have.\<close>

definition tags_of :: "DLTbf \<Rightarrow> octet list \<times> nat \<times> nat" where
  "tags_of d = (dl_ctlAckTag d, dl_currAckTag d, dl_currNumAckTags d)"

interpretation tags: frame_laws tags_of
  by unfold_locales (simp_all add: tags_of_def)

lemma branch_tags_dl: "branch_by tags_of dl_branch"
  by (auto simp: tags_of_def branch_by_def dl_branch_def AllocateDLTFI_def record_tfi_def Let_def same_by_def split: prod.splits)

lemma copy_trx_id: "same_id h (copy_trx u trx h)"
  by (simp add: copy_trx_def same_id_def)

section \<open>Requests on a consistent scheduler\<close>

text \<open>
  Everything a client of the scheduler needs to know about one direction after a request, a reallocation and
  a release; \<open>no_slot\<close> and \<open>IsTrxValid\<close> say what the TBF holds.
\<close>

definition moved :: "LinkDirection \<Rightarrow> 'p \<Rightarrow> ('p \<Rightarrow> 'a Tbf_scheme) \<times> ('p, 'm) TSPool \<Rightarrow>
  ('p \<Rightarrow> 'a Tbf_scheme) \<times> ('p, 'm) TSPool \<Rightarrow> bool" where
  "moved dir u = (\<lambda>(h, p) (h', p'). other_queues dir p p' \<and> (\<forall>v. v \<noteq> u \<longrightarrow> h' v = h v) \<and> same_id h h')"

lemma movedI:
  "other_queues dir p p' \<Longrightarrow> \<forall>v. v \<noteq> u \<longrightarrow> h' v = h v \<Longrightarrow> same_id h h' \<Longrightarrow> moved dir u (h, p) (h', p')"
  by (simp add: moved_def)

lemma movedD:
  "moved dir u (h, p) (h', p') \<Longrightarrow> other_queues dir p p'"
  "moved dir u (h, p) (h', p') \<Longrightarrow> v \<noteq> u \<Longrightarrow> h' v = h v"
  "moved dir u (h, p) (h', p') \<Longrightarrow> same_id h h'"
  by (simp_all add: moved_def)

context branch_laws begin

lemma request_moves:
  assumes ok: "dir_ok prec dir (h, p)" "precs_ok (prec dir)" "qos_ok prec dir u raw qos"
    "\<forall>a. opp = Some a \<longrightarrow> length a = MAX_TIMESLOTS"
    and none: "no_slot (h u)" and id: "branch_id br"
  shows "\<exists>status h' p'. run_request (AllocateUser br g) True (new_request raw qos u dir opp) (h, p) = Some (status, h', p') \<and>
     dir_ok prec dir (h', p') \<and> moved dir u (h, p) (h', p') \<and>
     (if status then grant_ok g qos dir (tbf_trx (h' u)) (slots (tbf_allocatedTs (h' u)))
          (case opp of None \<Rightarrow> {} | Some a \<Rightarrow> slots a) \<and> (tbf_trx (h u) \<noteq> NULL_TRX \<longrightarrow> tbf_trx (h' u) = tbf_trx (h u))
      else no_slot (h' u) \<and> p' = p)"
proof -
  have q: "prec dir u = limit 1 3 (qos_PrecedenceClass qos)" "length (raw_cands raw) = MAX_MULTI_CONFIG_CANDIDATES"
    using ok(3) by (auto simp: qos_ok_def)
  have h: "queues_ok prec p" "\<forall>u. tbf_ok (h u)" using ok(1) by (auto simp: dir_ok_def)
  note tu = tbf_okD [OF h(2) [rule_format, of u]]
  have rep: "tbf_allocatedTs (h u) = replicate MAX_TIMESLOTS False"
    using no_slots [OF tu(1)] none by (simp add: no_slot_def)
  obtain status h' p' where r: "run_request (AllocateUser br g) True (new_request raw qos u dir opp) (h, p) = Some (status, h', p')"
    "dir_ok prec dir (h', p')" "other_queues dir p p'"
    using request_kept [where g = g, OF ok(1,2) q ok(4)] none by (metis no_slot_def)
  moreover have "(\<forall>v. v \<noteq> u \<longrightarrow> h' v = h v) \<and>
     (if status then grant_ok g qos dir (tbf_trx (h' u)) (slots (tbf_allocatedTs (h' u)))
          (case opp of None \<Rightarrow> {} | Some a \<Rightarrow> slots a) \<and> (tbf_trx (h u) \<noteq> NULL_TRX \<longrightarrow> tbf_trx (h' u) = tbf_trx (h u))
      else no_slot (h' u) \<and> p' = p)"
    using request_outcome [where g = g and h = h and u = u, OF h(1) ok(2) q ok(4) rep tu(3)] r(1) unfolding no_slot_def by auto
  moreover have "same_id h h'" using id.run_request_frame [OF id.AllocateUser_frame [OF id [unfolded branch_id_def]] r(1)] by (simp only: same_id_by)
  ultimately show ?thesis using movedI by metis
qed

lemma realloc_moves:
  assumes ok: "dir_ok prec dir (h, p)" "precs_ok (prec dir)" "qos_ok prec dir u raw qos"
    "\<forall>a. opp = Some a \<longrightarrow> length a = MAX_TIMESLOTS"
    and trx: "IsTrxValid (tbf_trx (h u))" "\<not> no_slot (h u)" and id: "branch_id br"
  shows "\<exists>status h' p'. run_request (AllocateUserIfBetterQoS br g) True (new_request raw qos u dir opp) (h, p) = Some (status, h', p') \<and>
     dir_ok prec dir (h', p') \<and> moved dir u (h, p) (h', p') \<and> tbf_trx (h' u) = tbf_trx (h u) \<and> \<not> no_slot (h' u)"
proof -
  have q: "prec dir u = limit 1 3 (qos_PrecedenceClass qos)" "length (raw_cands raw) = MAX_MULTI_CONFIG_CANDIDATES"
    using ok(3) by (auto simp: qos_ok_def)
  obtain status h' p' where r: "run_request (AllocateUserIfBetterQoS br g) True (new_request raw qos u dir opp) (h, p) = Some (status, h', p')"
    "dir_ok prec dir (h', p')" "other_queues dir p p'" "\<forall>v. v \<noteq> u \<longrightarrow> h' v = h v" "tbf_trx (h' u) = tbf_trx (h u)"
    and o: "if status then grant_ok g qos dir (tbf_trx (h' u)) (slots (tbf_allocatedTs (h' u)))
          (case opp of None \<Rightarrow> {} | Some a \<Rightarrow> slots a)
      else tbf_allocatedTs (h' u) = tbf_allocatedTs (h u) \<and> only_slots u h h' \<and>
        (\<forall>d t s. IsTrxTsValid t s \<longrightarrow> sq_queue (slot_queue d t s p') = sq_queue (slot_queue d t s p))"
    using realloc_kept [where g = g, OF ok(1,2) q ok(4) trx(1)] by blast
  have "\<not> no_slot (h' u)" using o trx(2) by (cases status) (auto simp: no_slot_def grant_ok_def)
  moreover have "same_id h h'" using id.run_request_frame [OF id.AllocateUserIfBetterQoS_frame [OF id [unfolded branch_id_def]] r(1)] by (simp only: same_id_by)
  ultimately show ?thesis using r movedI by metis
qed

lemma release_moves:
  assumes ok: "dir_ok prec dir (h, p)" "precs_ok (prec dir)"
  shows "\<exists>h' p'. DeallocateUser br dir u (h, p) = Some (h', p') \<and> dir_ok prec dir (h', p') \<and>
     moved dir u (h, p) (h', p') \<and> no_slot (h' u)"
  using release_kept [OF ok, of u] id.DeallocateUser_frame [unfolded same_id_by] movedI unfolding no_slot_def by metis

end

end
