(* ===== verification/NaturalSlots.thy ===== *)
theory NaturalSlots
  imports SchedulerFrame
    SlotFaults
begin

text \<open>
  For which mobiles a TBF keeps a slot on which they can be polled: for all but those of multislot class 5, 6 and 9
  every configuration is part of one that has a timeslot in common for both directions.
\<close>

definition meets :: "nat list \<times> nat list \<Rightarrow> bool" where
  "meets y \<longleftrightarrow> list_ex (\<lambda>ts. ts < 8 \<and> ts \<in> set (snd y)) (fst y)"

definition covers :: "nat list \<times> nat list \<Rightarrow> nat list \<times> nat list \<Rightarrow> bool" where
  "covers x y \<longleftrightarrow> list_all (\<lambda>t. t \<in> set (fst y)) (fst x) \<and> list_all (\<lambda>t. t \<in> set (snd y)) (snd x)"

text \<open>Where \<open>ys\<close> are the configurations with a slot in common.\<close>

fun covered :: "(nat list \<times> nat list) list \<Rightarrow> nat list \<times> nat list \<Rightarrow> bool" where
  "covered [] x = False"
| "covered (y # ys) x = (if covers x y then True else covered ys x)"

fun all_covered :: "(nat list \<times> nat list) list \<Rightarrow> (nat list \<times> nat list) list \<Rightarrow> (nat list \<times> nat list) list \<Rightarrow> bool" where
  "all_covered [] rest common = list_all (covered common) rest"
| "all_covered (x # xs) rest common = (if meets x then all_covered xs rest (x # common) else all_covered xs (x # rest) common)"

lemma covered_classes: "list_all (\<lambda>k. all_covered (options_list k) [] []) [0, 1, 2, 3, 6, 7, 9, 10, 11]"
  by code_simp

lemma coveredD: "covered ys x \<Longrightarrow> \<exists>y \<in> set ys. set (fst x) \<subseteq> set (fst y) \<and> set (snd x) \<subseteq> set (snd y)"
  by (induction ys) (auto simp: covers_def list_all_iff subset_iff split: if_splits)

lemma all_coveredD:
  assumes "all_covered xs rest common" "\<forall>y \<in> set common. meets y"
  shows "\<exists>ys. set common \<subseteq> set ys \<and> set ys \<subseteq> set xs \<union> set common \<and> (\<forall>y \<in> set ys. meets y) \<and>
     (\<forall>x \<in> set xs \<union> set rest. x \<in> set ys \<or> covered ys x)"
  using assms
proof (induction xs arbitrary: rest common)
  case Nil
  then show ?case by (intro exI [of _ common]) (auto simp: list_all_iff)
next
  case (Cons x xs)
  show ?case
  proof (cases "meets x")
    case True
    obtain ys where "set (x # common) \<subseteq> set ys" "set ys \<subseteq> set xs \<union> set (x # common)" "\<forall>y \<in> set ys. meets y"
      "\<forall>z \<in> set xs \<union> set rest. z \<in> set ys \<or> covered ys z"
      using Cons.IH [of rest "x # common"] Cons.prems True by auto
    then show ?thesis by (intro exI [of _ ys]) auto
  next
    case False
    obtain ys where "set common \<subseteq> set ys" "set ys \<subseteq> set xs \<union> set common" "\<forall>y \<in> set ys. meets y"
      "\<forall>z \<in> set xs \<union> set (x # rest). z \<in> set ys \<or> covered ys z"
      using Cons.IH [of "x # rest" common] Cons.prems False by auto
    then show ?thesis by (intro exI [of _ ys]) auto
  qed
qed

definition shares_slot :: "nat set \<times> nat set \<Rightarrow> bool" where
  "shares_slot opt \<longleftrightarrow> (\<exists>ts < MAX_TIMESLOTS. ts \<in> fst opt \<and> ts \<in> snd opt)"

lemma meets_shares: "meets y = shares_slot (set (fst y), set (snd y))"
  by (auto simp: meets_def shares_slot_def list_ex_iff)

text \<open>Every configuration of the class is part of one with a slot in common.\<close>

definition natural_class :: "nat \<Rightarrow> bool" where
  "natural_class k \<longleftrightarrow> (\<forall>opt \<in> multislot_options k. \<exists>opt' \<in> multislot_options k.
     fst opt \<subseteq> fst opt' \<and> snd opt \<subseteq> snd opt' \<and> shares_slot opt')"

lemma covered_natural:
  assumes "all_covered (options_list k) [] []"
  shows "natural_class k"
  unfolding natural_class_def
proof
  fix opt assume "opt \<in> multislot_options k"
  then obtain x where x: "x \<in> set (options_list k)" "opt = (set (fst x), set (snd x))" unfolding options_list by auto
  obtain ys where ys: "set ys \<subseteq> set (options_list k)" "\<forall>y \<in> set ys. meets y" "x \<in> set ys \<or> covered ys x"
    using all_coveredD [OF assms] x(1) by auto
  obtain y where y: "y \<in> set ys" "set (fst x) \<subseteq> set (fst y)" "set (snd x) \<subseteq> set (snd y)"
    using ys(3) coveredD by blast
  have "(set (fst y), set (snd y)) \<in> multislot_options k" using y(1) ys(1) unfolding options_list by (force simp: case_prod_beta)
  moreover have "shares_slot (set (fst y), set (snd y))" using y(1) ys(2) meets_shares by blast
  ultimately show "\<exists>opt' \<in> multislot_options k. fst opt \<subseteq> fst opt' \<and> snd opt \<subseteq> snd opt' \<and> shares_slot opt'"
    using x(2) y(2,3) by (metis fst_conv snd_conv)
qed

text \<open>Configurations of the three other classes that are part of none.\<close>

lemma uncovered_classes:
  "list_all (\<lambda>(k, x). x \<in> set (options_list k) \<and> list_all (\<lambda>y. covers x y \<longrightarrow> \<not> meets y) (options_list k))
     [(4, ([5, 7], [6])), (5, ([6], [5, 7])), (8, ([4, 5, 7], [6]))]"
  by code_simp

lemma uncovered_not_natural:
  assumes "x \<in> set (options_list k)" "list_all (\<lambda>y. covers x y \<longrightarrow> \<not> meets y) (options_list k)"
  shows "\<not> natural_class k"
proof
  assume n: "natural_class k"
  have "(set (fst x), set (snd x)) \<in> multislot_options k" using assms(1) unfolding options_list by (force simp: case_prod_beta)
  then obtain opt' where o: "opt' \<in> multislot_options k" "set (fst x) \<subseteq> fst opt'" "set (snd x) \<subseteq> snd opt'" "shares_slot opt'"
    using n unfolding natural_class_def by fastforce
  then obtain y where y: "y \<in> set (options_list k)" "opt' = (set (fst y), set (snd y))" unfolding options_list by auto
  then have "covers x y" "meets y" using o by (auto simp: covers_def list_all_iff meets_shares)
  then show False using assms(2) y(1) by (auto simp: list_all_iff)
qed

lemma natural_class_iff:
  assumes "k < 12"
  shows "natural_class k \<longleftrightarrow> k \<notin> {4, 5, 8}"
proof -
  have "k \<in> set [0, 1, 2, 3, 6, 7, 9, 10, 11] \<or> k \<in> {4, 5, 8}"
    using assms by (simp only: set_simps insert_iff empty_iff) presburger
  then show ?thesis
  proof
    assume k: "k \<in> set [0, 1, 2, 3, 6, 7, 9, 10, 11]"
    then have "all_covered (options_list k) [] []" using covered_classes unfolding list_all_iff by blast
    then show ?thesis using covered_natural k by auto
  next
    assume k: "k \<in> {4, 5, 8}"
    then obtain x where "x \<in> set (options_list k)" "list_all (\<lambda>y. covers x y \<longrightarrow> \<not> meets y) (options_list k)"
      using uncovered_classes unfolding list_all_iff by auto
    then show ?thesis using uncovered_not_natural k by blast
  qed
qed

end
