(* ===== verification/NaturalHeld.thy ===== *)
theory NaturalHeld
  imports NaturalSlots
begin

text \<open>The natural slots through a request: they are always those of the configurations that are left.\<close>

definition nat_inv :: "nat \<Rightarrow> 'p \<Rightarrow> 'p SchedAlloc \<Rightarrow> ('p \<Rightarrow> 'a Tbf_scheme) \<Rightarrow> bool" where
  "nat_inv k u s h \<longleftrightarrow> slots (tbf_naturalTs (h u)) = naturals k s \<inter> {..<MAX_TIMESLOTS}"

definition natural_ok :: "'a Tbf_scheme \<Rightarrow> bool" where
  "natural_ok u \<longleftrightarrow> slots (tbf_naturalTs u) \<noteq> {}"

lemma options_have_natural:
  assumes "natural_class k" "options_left k s \<noteq> {}" "nat_inv k u s h"
  shows "natural_ok (h u)"
proof -
  obtain opt where opt: "opt \<in> multislot_options k" "slots (sa_allocatedTsDL s) \<subseteq> fst opt" "slots (sa_allocatedTsUL s) \<subseteq> snd opt"
    using assms(2) by (auto simp: options_left_def)
  then obtain opt' where o: "opt' \<in> multislot_options k" "fst opt \<subseteq> fst opt'" "snd opt \<subseteq> snd opt'" "shares_slot opt'"
    using assms(1) unfolding natural_class_def by blast
  then obtain ts where ts: "ts < 8" "ts \<in> fst opt'" "ts \<in> snd opt'" unfolding shares_slot_def by blast
  have "opt' \<in> options_left k s" using o opt by (auto simp: options_left_def)
  then have "ts \<in> naturals k s" using ts unfolding naturals_def by force
  then show ?thesis using ts(1) assms(3) by (auto simp: nat_inv_def natural_ok_def)
qed

lemma UpdateAllowedSlots_natural:
  assumes "tracking k s" "0 \<le> sa_ts s" "sa_ts s < int MAX_TIMESLOTS" "UpdateAllowedSlots (s, h) = Some (s', h')" "sa_tbf s = u"
  shows "nat_inv k u s' h'"
proof -
  obtain s1 where s1: "AddSlotAllocation s = Some s1" "prepared k s1" "sa_tbf s1 = u"
    using AddSlotAllocation_prepared [OF assms(1-3)] assms(5) by metis
  then have "ConstrainCandMultiConfig (s1, h) = (s', h')" using assms(4) by (simp add: UpdateAllowedSlots_def)
  from ConstrainCandMultiConfig_natural(2) [OF s1(2) this] show ?thesis by (simp add: nat_inv_def s1(3))
qed

lemma AllocateOneSlot_natural:
  assumes inv: "alloc_inv g prec m dir u trx0 other (s0, h, p)" and pr: "precs_ok (prec dir)"
    and n0: "nat_inv m u s0 h" and run: "AllocateOneSlot g (s0, h, p) = Some (b, s', h', p')"
  shows "nat_inv m u s' h'"
proof -
  have i: "queues_ok prec p" "tracking m s0" "sa_tbf s0 = u" "sa_direction s0 = dir"
    "nat (sa_delayClass s0 - 1) < QUEUE_NUM_LEVELS" "sa_precedenceClass s0 = prec dir u"
    using inv by (auto simp: alloc_inv_def)
  obtain s where s: "FindBestSlot g h p s0 = Some s" "searched g h p s0 s"
    using FindBestSlot_searched [OF i(1)] i pr by blast
  obtain trx ts n where sn: "s = s0\<lparr>sa_trx := trx, sa_ts := ts, sa_entries := n\<rparr>"
    and cand: "n > 0 \<longrightarrow> candidate g h p s0 trx ts n" using s(2) by (auto simp: searched_def)
  have e: "naturals m s = naturals m s0" by (simp add: naturals_def options_left_def sn)
  show ?thesis
  proof (cases "0 < n")
    case False
    then show ?thesis using run s(1) n0 e by (auto simp: AllocateOneSlot_def nat_inv_def sn)
  next
    case True
    then have v: "IsTrxTsValid trx ts" "FindAvailableEntries u (nat (sa_delayClass s0 - 1)) (prec dir u) (slot_queue dir trx ts p) = Some n"
      using cand i by (auto simp: candidate_def slot_queue_def)
    obtain k q' where q': "AllocateEntries u (nat (sa_delayClass s0 - 1)) (prec dir u) (slot_queue dir trx ts p) = Some (k, q')"
      "k \<noteq> 0"
      by (rule find_then_allocate [OF slot_queue_ok [OF i(1) v(1)] pr i(5), of u]) (use v(2) True in auto)
    have tr: "tracking m s" using i(2) by (simp add: sn)
    obtain h1 where u1: "UpdateAllowedSlots (s, h1) = Some (s', h')"
      using run s q' True i queue_at_slot [OF v(1), of dir p] by (auto simp: AllocateOneSlot_def sn Let_def split: bind_splits)
    show ?thesis
      by (rule UpdateAllowedSlots_natural [OF tr _ _ u1]) (use v i(3) in \<open>auto simp: sn IsTrxTsValid_def\<close>)
  qed
qed

lemma allocate_slots_natural:
  assumes "alloc_inv g prec m dir u trx0 other (s, h, p)" "precs_ok (prec dir)" "nat_inv m u s h"
    "allocate_slots g n (s, h, p) = Some (c, e, s', h', p')"
  shows "nat_inv m u s' h'"
  using assms
proof (induction n arbitrary: s h p c e)
  case (Suc n)
  obtain b s1 h1 p1 where one: "AllocateOneSlot g (s, h, p) = Some (b, s1, h1, p1)"
    "alloc_inv g prec m dir u trx0 other (s1, h1, p1)"
    using AllocateOneSlot_step [OF Suc.prems(1,2)] by (metis prod.exhaust)
  note n1 = AllocateOneSlot_natural [OF Suc.prems(1-3) one(1)]
  show ?case
  proof (cases b)
    case True
    then obtain c' e' where "allocate_slots g n (s1, h1, p1) = Some (c', e', s', h', p')"
      using Suc.prems(4) one(1) by (auto split: bind_splits)
    then show ?thesis by (rule Suc.IH [OF one(2) Suc.prems(2) n1])
  next
    case False
    then show ?thesis using Suc.prems(4) one(1) n1 by auto
  qed
qed simp

text \<open>The first step of both searches.\<close>

lemma Constrain_nat:
  assumes "prepared k s" "ConstrainCandMultiConfig (s, h) = (s1, h1)" "sa_tbf s = u"
  shows "nat_inv k u s1 h1"
  using ConstrainCandMultiConfig_natural(2) [OF assms(1,2)] by (simp add: nat_inv_def assms(3))

lemma vacate_slots_nat:
  "vacate_slots dir u l tss (h, p, n, e) = Some (h', p', n', e') \<Longrightarrow> tbf_naturalTs (h' u) = tbf_naturalTs (h u)"
proof (induction tss arbitrary: h p n e)
  case (Cons ts tss)
  show ?case using Cons.prems Cons.IH by (fastforce simp: set_allocatedTs_def Let_def split: bind_splits if_splits)
qed simp

lemma restore_slots_nat:
  "restore_slots dir u orig tss (h, p) = Some (h', p') \<Longrightarrow> tbf_naturalTs (h' u) = tbf_naturalTs (h u)"
proof (induction tss arbitrary: h p)
  case (Cons ts tss)
  show ?case using Cons.prems Cons.IH by (fastforce simp: set_allocatedTs_def Let_def split: bind_splits if_splits)
qed simp

lemma some_options: "k < 12 \<Longrightarrow> multislot_options k \<noteq> {}"
proof -
  have "list_all (\<lambda>k. options_list k \<noteq> []) [0..<12]" by code_simp
  then show "k < 12 \<Longrightarrow> multislot_options k \<noteq> {}" unfolding options_list by (simp add: list_all_iff)
qed

context branch_laws begin

lemma AllocateUser_natural:
  assumes q: "queues_ok prec p" "precs_ok (prec dir)" and s: "prepared k s" "sa_tbf s = u" "sa_direction s = dir"
    "nat (sa_delayClass s - 1) < QUEUE_NUM_LEVELS" "sa_precedenceClass s = prec dir u"
    and t: "length (tbf_allocatedTs (h u)) = MAX_TIMESLOTS" "slots (tbf_allocatedTs (h u)) = {}" "allocated dir s = {}"
      "tbf_trx (h u) = NULL_TRX \<or> IsTrxValid (tbf_trx (h u))"
    and k: "natural_class k" and run: "AllocateUser br g (s, h, p) = Some (True, s', h', p')"
  shows "natural_ok (h' u)"
proof -
  obtain s1 h1 where c: "ConstrainCandMultiConfig (s, h) = (s1, h1)" by fastforce
  note C = ConstrainCandMultiConfig_tracking [OF s(1) c]
  obtain natural where h1: "h1 = h(u := (h u)\<lparr>tbf_naturalTs := natural\<rparr>)" "length natural = 8"
    using C(6) s(2) by auto
  have al: "allocated d s1 = allocated d s" for d using C(4,5) by (simp add: allocated_def)
  have s1: "sa_direction s1 = dir" "sa_delayClass s1 = sa_delayClass s" "sa_precedenceClass s1 = sa_precedenceClass s"
    using c s(3) by (auto simp: ConstrainCandMultiConfig_def Let_def)
  have start: "alloc_inv g prec k dir u (tbf_trx (h u)) (allocated (opposite dir) s) (s1, h1, p)"
    using q C(1,3) s s1 t al h1(2) by (simp add: alloc_inv_def h1(1))
  obtain n e s2 h2 p2 where a: "allocate_slots g (nat (ComputeDesiredNumberOfSlots s)) (s1, h1, p) = Some (n, e, s2, h2, p2)"
    and inv: "alloc_inv g prec k dir u (tbf_trx (h u)) (allocated (opposite dir) s) (s2, h2, p2)"
    and n: "n > 0 \<longrightarrow> allocated dir s2 \<noteq> {}"
    using allocate_slots_inv [OF start q(2)] by blast
  have tu: "sa_tbf s2 = u" and q2: "queues_ok prec p2" using inv by (simp_all add: alloc_inv_def)
  obtain h3 p3 where 3: "br_AllocateTFI br (tbf_trx (h2 u)) u (h2, p2) = (h3, p3)" by fastforce
  obtain h4 p4 where 4: "assign_loop br u [0..<8] True (h3, p3) = (h4, p4)" by fastforce
  have n0: "n > 0" and h': "h' = h4" using run c a tu 3 4 by (auto simp: AllocateUser_def Let_def split: if_splits)
  have "same_slots u h2 h3 \<and> same_info p2 p3" using AllocateTFI [OF queues_okD(1) [OF q2] 3] by auto
  then have "tbf_naturalTs (h' u) = tbf_naturalTs (h2 u)"
    using assign_loop_same [OF _ 4] unfolding h' by (auto simp: same_info_def same_slots_def)
  moreover have "natural_ok (h2 u)"
  proof (rule options_have_natural [where h = h2 and u = u and s = s2, OF k])
    show "options_left k s2 \<noteq> {}" using inv n n0 by (simp add: alloc_inv_def)
    show "nat_inv k u s2 h2" by (rule allocate_slots_natural [OF start q(2) Constrain_nat [OF s(1) c s(2)] a])
  qed
  ultimately show ?thesis by (simp add: natural_ok_def)
qed

text \<open>A reallocation of a TBF whose mobile's other direction is not considered.\<close>

lemma Realloc_natural:
  assumes q: "queues_ok prec p" "precs_ok (prec dir)" and s: "prepared k s" "sa_tbf s = u" "sa_direction s = dir"
    "nat (sa_delayClass s - 1) < QUEUE_NUM_LEVELS" "sa_precedenceClass s = prec dir u"
    and t: "length (tbf_allocatedTs (h u)) = MAX_TIMESLOTS" "allocated dir s = {}" "IsTrxValid (tbf_trx (h u))"
    and other: "allocated (opposite dir) s = {}" and some: "multislot_options k \<noteq> {}"
    and k: "natural_class k" and run: "AllocateUserIfBetterQoS br g (s, h, p) = Some (b, s', h', p')"
  shows "natural_ok (h' u)"
proof -
  obtain s1 h1 where c: "ConstrainCandMultiConfig (s, h) = (s1, h1)" by fastforce
  note C = ConstrainCandMultiConfig_tracking [OF s(1) c]
  obtain natural where h1: "h1 = h(u := (h u)\<lparr>tbf_naturalTs := natural\<rparr>)" "length natural = 8"
    using C(6) s(2) by auto
  have al: "allocated d s1 = allocated d s" for d using C(4,5) by (simp add: allocated_def)
  have s1: "sa_direction s1 = dir" "sa_delayClass s1 = sa_delayClass s" "sa_precedenceClass s1 = sa_precedenceClass s"
    using c s(3) by (auto simp: ConstrainCandMultiConfig_def Let_def)
  let ?l = "nat (sa_delayClass s1 - 1)"
  have pv: "IsTrxValid (tbf_trx (h1 u))" "length (tbf_allocatedTs (h1 u)) = MAX_TIMESLOTS"
    "set [0..<MAX_TIMESLOTS] \<subseteq> {..<MAX_TIMESLOTS}" "distinct [0..<MAX_TIMESLOTS]" using t h1 by auto
  obtain h2 p2 n0 e0 where vac: "vacate_slots dir u ?l [0..<MAX_TIMESLOTS] (h1, p, 0, 0) = Some (h2, p2, n0, e0)"
    "queues_ok prec p2" "0 \<le> e0" "vacated True dir u {..<MAX_TIMESLOTS} (h1, p) (h2, p2)"
    using vacate_slots_vacated [where h = h1 and u = u and dir = dir and prec = prec, OF q pv, of ?l 0 0]
    by (auto simp: lessThan_atLeast0)
  note V = vacatedD [OF vac(4)]
  have none: "slots (tbf_allocatedTs (h2 u)) = {}" using V(5) pv(2) by (auto simp: slots_def)
  have trx: "tbf_trx (h2 u) = tbf_trx (h u)" using V(2) h1 by simp
  have start: "alloc_inv g prec k dir u (tbf_trx (h u)) (allocated (opposite dir) s) (s1, h2, p2)"
    using vac(2) C(1,3) s s1 t al h1 V none trx pv(2) by (simp add: alloc_inv_def)
  have n2: "nat_inv k u s1 h2" using Constrain_nat [OF s(1) c s(2)] vacate_slots_nat [OF vac(1)] by (simp add: nat_inv_def)
  obtain n e s3 h3 p3 where al3: "allocate_slots g (nat (ComputeDesiredNumberOfSlots s)) (s1, h2, p2) = Some (n, e, s3, h3, p3)"
    and inv: "alloc_inv g prec k dir u (tbf_trx (h u)) (allocated (opposite dir) s) (s3, h3, p3)"
    using allocate_slots_inv [OF start q(2)] by blast
  have tu: "sa_tbf s3 = u" and q3: "queues_ok prec p3" using inv by (simp_all add: alloc_inv_def)
  have "natural_ok (h3 u)"
  proof (rule options_have_natural [where h = h3 and u = u and s = s3, OF k])
    show "options_left k s3 \<noteq> {}"
    proof (cases "allocated dir s3 = {}")
      case True
      then have "slots (sa_allocatedTsDL s3) = {}" "slots (sa_allocatedTsUL s3) = {}"
        using inv other by (cases dir; auto simp: alloc_inv_def allocated_def opposite_def)+
      then show ?thesis using some by (auto simp: options_left_def)
    qed (use inv in \<open>simp add: alloc_inv_def\<close>)
    show "nat_inv k u s3 h3" by (rule allocate_slots_natural [OF start q(2) n2 al3])
  qed
  moreover have "tbf_naturalTs (h' u) = tbf_naturalTs (h3 u)"
  proof (cases "n > n0 \<or> e > e0")
    case True
    let ?p4 = "TSPool_ReleaseTAI (tbf_trx (h3 u)) (uint (tbf_taiTs (h3 u))) (tbf_tai (h3 u)) p3"
    let ?p5 = "release_usfs br [0..<MAX_TIMESLOTS] (h3 u) ?p4"
    have i4: "same_info p3 ?p4" by (rule release_same_info(1) [OF queues_okD(1) [OF q3]])
    have i5: "pool_ok ?p5"
      using same_info_trans [OF i4 release_usfs_same] i4 by (simp add: same_info_def)
    have "assign_loop br u [0..<8] True (h3, ?p5) = (h', p')"
      using run c s s1 vac(1) al3 True by (simp add: AllocateUserIfBetterQoS_def Let_def split: prod.splits)
    then show ?thesis using assign_loop_same [OF i5] by (auto simp: same_slots_def)
  next
    case False
    then obtain r where "restore_slots dir u (tbf_allocatedTs (h1 u)) [0..<MAX_TIMESLOTS] (h3, p3) = Some (h', r)"
      using run c s s1 vac(1) al3 by (auto simp: AllocateUserIfBetterQoS_def Let_def split: bind_splits)
    then show ?thesis by (rule restore_slots_nat)
  qed
  ultimately show ?thesis by (simp add: natural_ok_def)
qed

text \<open>The requests of the clients.\<close>

lemma request_natural:
  assumes ok: "dir_ok prec dir (h, p)" "precs_ok (prec dir)" "qos_ok prec dir u raw qos"
    "\<forall>a. opp = Some a \<longrightarrow> length a = MAX_TIMESLOTS"
    and none: "no_slot (h u)" and k: "natural_class (class_index qos)"
    and run: "run_request (AllocateUser br g) True (new_request raw qos u dir opp) (h, p) = Some (True, h', p')"
  shows "natural_ok (h' u)"
proof -
  have q: "prec dir u = limit 1 3 (qos_PrecedenceClass qos)" "length (raw_cands raw) = MAX_MULTI_CONFIG_CANDIDATES"
    using ok(3) by (auto simp: qos_ok_def)
  have h: "queues_ok prec p" "\<forall>u. tbf_ok (h u)" using ok(1) by (auto simp: dir_ok_def)
  note tu = tbf_okD [OF h(2) [rule_format, of u]]
  obtain s where s: "ComputeMultislotOptions True (new_request raw qos u dir opp) = Some s"
    "prepared (class_index qos) s" "sa_tbf s = u" "sa_direction s = dir"
    "nat (sa_delayClass s - 1) < QUEUE_NUM_LEVELS" "sa_precedenceClass s = limit 1 3 (qos_PrecedenceClass qos)"
    "allocated dir s = {}" by (rule new_request_prepared [OF q(2) ok(4)])
  obtain s' where r: "AllocateUser br g (s, h, p) = Some (True, s', h', p')"
    using run s(1) by (auto simp: run_request_def split: bind_splits)
  show ?thesis
    by (rule AllocateUser_natural [OF h(1) ok(2) s(2-5) _ tu(1) none [unfolded no_slot_def] s(7) tu(3) k r]) (simp add: s(6) q(1))
qed

lemma realloc_natural:
  assumes ok: "dir_ok prec dir (h, p)" "precs_ok (prec dir)" "qos_ok prec dir u raw qos"
    and trx: "IsTrxValid (tbf_trx (h u))" and k: "natural_class (class_index qos)"
    and run: "run_request (AllocateUserIfBetterQoS br g) True (new_request raw qos u dir None) (h, p) = Some (b, h', p')"
  shows "natural_ok (h' u)"
proof -
  have q: "prec dir u = limit 1 3 (qos_PrecedenceClass qos)" "length (raw_cands raw) = MAX_MULTI_CONFIG_CANDIDATES"
    "\<forall>a. None = Some (a :: bool list) \<longrightarrow> length a = MAX_TIMESLOTS"
    using ok(3) by (auto simp: qos_ok_def)
  have h: "queues_ok prec p" "\<forall>u. tbf_ok (h u)" using ok(1) by (auto simp: dir_ok_def)
  note tu = tbf_okD [OF h(2) [rule_format, of u]]
  obtain s where s: "ComputeMultislotOptions True (new_request raw qos u dir None) = Some s"
    "prepared (class_index qos) s" "sa_tbf s = u" "sa_direction s = dir"
    "nat (sa_delayClass s - 1) < QUEUE_NUM_LEVELS" "sa_precedenceClass s = limit 1 3 (qos_PrecedenceClass qos)"
    "allocated dir s = {}" "allocated (opposite dir) s = (case None of None \<Rightarrow> {} | Some a \<Rightarrow> slots a)"
    by (rule new_request_prepared [OF q(2,3)])
  obtain s' where r: "AllocateUserIfBetterQoS br g (s, h, p) = Some (b, s', h', p')"
    using run s(1) by (auto simp: run_request_def split: bind_splits)
  show ?thesis
    by (rule Realloc_natural [OF h(1) ok(2) s(2-5) _ tu(1) s(7) trx _ some_options [OF class_index_bound] k r]) (use s(6,8) q(1) in simp_all)
qed

end

lemma class_natural: "qos_MultislotClass qos \<notin> {5, 6, 9} \<Longrightarrow> natural_class (class_index qos)"
  unfolding natural_class_iff [OF class_index_bound] by (auto simp: class_index_def limit_def)

end
