(* ===== verification/BestSlot.thy ===== *)
theory BestSlot
  imports NaturalHeld
begin

text \<open>
  The search for a timeslot is complete: \<open>FindBestSlot\<close> returns one with the most entries of all that may be
  chosen, so a request is granted exactly when the cell has a timeslot for it.
\<close>

section \<open>The best slot\<close>

lemma consider_slot_best:
  assumes q: "queues_ok prec p" "precs_ok (prec (sa_direction s))" and l: "nat (sa_delayClass s - 1) < QUEUE_NUM_LEVELS"
    and pr: "sa_precedenceClass s = prec (sa_direction s) (sa_tbf s)" and s: "searched g h p s s1"
    and x: "(trx, ts) \<in> set (slots_to_try (sa_direction s) (tbf_trx (h (sa_tbf s))))"
    and run: "consider_slot g h p (trx, ts) s1 = Some s2"
  shows "sa_entries s1 \<le> sa_entries s2" "candidate g h p s (int trx) (int ts) k \<Longrightarrow> k \<le> sa_entries s2"
proof -
  have v: "IsTrxTsValid (int trx) (int ts)" using slots_to_try_valid x valid_slot by blast
  obtain a b c where s1: "s1 = s\<lparr>sa_trx := a, sa_ts := b, sa_entries := c\<rparr>" using s by (auto simp: searched_def)
  show "sa_entries s1 \<le> sa_entries s2"
    using run by (auto simp: consider_slot_def SetNewSlotAllocation_def split: bind_splits if_splits)
  show "k \<le> sa_entries s2" if "candidate g h p s (int trx) (int ts) k"
    using run that queue_at_valid [OF v, of "sa_direction s" p]
    by (auto simp: consider_slot_def SetNewSlotAllocation_def candidate_def s1 split: bind_splits if_splits)
qed

lemma consider_loop_best:
  assumes q: "queues_ok prec p" "precs_ok (prec (sa_direction s))" and l: "nat (sa_delayClass s - 1) < QUEUE_NUM_LEVELS"
    and pr: "sa_precedenceClass s = prec (sa_direction s) (sa_tbf s)" and s: "searched g h p s s1"
    and xs: "set xs \<subseteq> set (slots_to_try (sa_direction s) (tbf_trx (h (sa_tbf s))))"
  shows "\<exists>s2. consider_loop g h p xs s1 = Some s2 \<and> searched g h p s s2 \<and> sa_entries s1 \<le> sa_entries s2 \<and>
     (\<forall>(trx, ts) \<in> set xs. \<forall>k. candidate g h p s (int trx) (int ts) k \<longrightarrow> k \<le> sa_entries s2)"
  using s xs
proof (induction xs arbitrary: s1)
  case (Cons x xs)
  obtain trx ts where x: "x = (trx, ts)" by fastforce
  obtain s2 where s2: "consider_slot g h p x s1 = Some s2" "searched g h p s s2"
    using consider_slot_searched [OF q l pr Cons.prems(1), of x] Cons.prems(2) by auto
  have v: "(trx, ts) \<in> set (slots_to_try (sa_direction s) (tbf_trx (h (sa_tbf s))))" using Cons.prems(2) x by auto
  note b = consider_slot_best [OF q l pr Cons.prems(1) v s2(1) [unfolded x]]
  obtain s3 where s3: "consider_loop g h p xs s2 = Some s3" "searched g h p s s3" "sa_entries s2 \<le> sa_entries s3"
    "\<forall>(trx, ts) \<in> set xs. \<forall>k. candidate g h p s (int trx) (int ts) k \<longrightarrow> k \<le> sa_entries s3"
    using Cons.IH [OF s2(2)] Cons.prems(2) by auto
  have "k \<le> sa_entries s3" if "candidate g h p s (int trx) (int ts) k" for k using b(2) [OF that] s3(3) by simp
  then show ?case using s2(1) s3 b(1) x by auto
qed simp

lemma slots_to_try_all:
  "IsTrxTsValid trx ts \<Longrightarrow> t = NULL_TRX \<or> t = trx \<Longrightarrow> (nat trx, nat ts) \<in> set (slots_to_try dir t)"
proof -
  assume v: "IsTrxTsValid trx ts" "t = NULL_TRX \<or> t = trx"
  then have "nat trx \<in> {0..<MAX_TRX}" "nat ts \<in> {0..<MAX_TIMESLOTS}" "t = NULL_TRX \<or> t = int (nat trx)"
    by (auto simp: IsTrxTsValid_def)
  then show ?thesis unfolding slots_to_try_def by (cases "dir = DL") (fastforce simp: image_iff)+
qed

lemma FindBestSlot_best:
  assumes "queues_ok prec p" "precs_ok (prec (sa_direction s))" "nat (sa_delayClass s - 1) < QUEUE_NUM_LEVELS"
    "sa_precedenceClass s = prec (sa_direction s) (sa_tbf s)"
  shows "\<exists>s'. FindBestSlot g h p s = Some s' \<and> searched g h p s s' \<and>
     (\<forall>trx ts k. candidate g h p s trx ts k \<longrightarrow> k \<le> sa_entries s')"
proof -
  let ?xs = "slots_to_try (sa_direction s) (tbf_trx (h (sa_tbf s)))"
  have "searched g h p s (InitializeNewSlotAllocation s)"
    unfolding searched_def InitializeNewSlotAllocation_def by (intro exI [of _ "- 1"]) simp
  then obtain s2 where s2: "consider_loop g h p ?xs (InitializeNewSlotAllocation s) = Some s2" "searched g h p s s2"
    "\<forall>(trx, ts) \<in> set ?xs. \<forall>k. candidate g h p s (int trx) (int ts) k \<longrightarrow> k \<le> sa_entries s2"
    using consider_loop_best [OF assms _ subset_refl] by blast
  have "k \<le> sa_entries s2" if c: "candidate g h p s trx ts k" for trx ts k
  proof -
    have v: "IsTrxTsValid trx ts" "tbf_trx (h (sa_tbf s)) = NULL_TRX \<or> tbf_trx (h (sa_tbf s)) = trx"
      using c by (auto simp: candidate_def)
    then have "int (nat trx) = trx" "int (nat ts) = ts" by (auto simp: IsTrxTsValid_def)
    then show ?thesis using s2(3) slots_to_try_all [OF v] c by fastforce
  qed
  then show ?thesis using s2 by (auto simp: FindBestSlot_def)
qed

section \<open>When a request is granted\<close>

lemma AllocateOneSlot_granted:
  assumes "queues_ok prec p" "precs_ok (prec (sa_direction s))" "nat (sa_delayClass s - 1) < QUEUE_NUM_LEVELS"
    "sa_precedenceClass s = prec (sa_direction s) (sa_tbf s)" "AllocateOneSlot g (s, h, p) = Some (b, x)"
  shows "b \<longleftrightarrow> (\<exists>trx ts k. candidate g h p s trx ts k \<and> 0 < k)"
proof -
  obtain s' where s': "FindBestSlot g h p s = Some s'" "searched g h p s s'"
    "\<forall>trx ts k. candidate g h p s trx ts k \<longrightarrow> k \<le> sa_entries s'" using FindBestSlot_best [OF assms(1-4)] by blast
  have b: "b \<longleftrightarrow> 0 < sa_entries s'"
    using assms(5) s'(1) by (auto simp: AllocateOneSlot_def Let_def split: bind_splits if_splits)
  show ?thesis
  proof
    assume b
    then obtain trx ts k where "s' = s\<lparr>sa_trx := trx, sa_ts := ts, sa_entries := k\<rparr>" "0 < k" "candidate g h p s trx ts k"
      using b s'(2) by (auto simp: searched_def)
    then show "\<exists>trx ts k. candidate g h p s trx ts k \<and> 0 < k" by blast
  next
    assume "\<exists>trx ts k. candidate g h p s trx ts k \<and> 0 < k"
    then show b using b s'(3) by fastforce
  qed
qed

lemma allocate_slots_some:
  assumes "AllocateOneSlot g x = Some (b, y)" "0 < n" "allocate_slots g n x = Some (c, e, z)"
  shows "0 < c \<longleftrightarrow> b"
  using assms by (cases n; cases x; cases y) (auto split: bind_splits if_splits)

text \<open>A timeslot where TBF \<open>u\<close> can be put, for a mobile that has the slots \<open>other\<close> in the other direction.\<close>

definition slot_open :: "(LinkDirection \<Rightarrow> 'p \<Rightarrow> int) \<Rightarrow> Grr \<Rightarrow> Qos \<Rightarrow> LinkDirection \<Rightarrow> 'p \<Rightarrow> int \<Rightarrow> nat set \<Rightarrow> ('p, 'm) TSPool \<Rightarrow> int \<Rightarrow> int \<Rightarrow> bool" where
  "slot_open prec g qos dir u own other p trx ts \<longleftrightarrow>
     IsTrxTsValid trx ts \<and> (own = NULL_TRX \<or> own = trx) \<and> usable g (nat trx) (nat ts) \<and>
     OkayToAddUser dir (ts_scheduleInfo (get_ts trx ts p)) \<and>
     (\<exists>opt \<in> multislot_options (class_index qos). other \<subseteq> side (opposite dir) opt \<and> nat ts \<in> fst opt \<and> nat ts \<in> snd opt) \<and>
     (\<exists>k > 0. FindAvailableEntries u (nat (limit 1 4 (qos_DelayClass qos) - 1)) (prec dir u) (slot_queue dir trx ts p) = Some k)"

lemma new_request_more:
  assumes "length (raw_cands raw) = MAX_MULTI_CONFIG_CANDIDATES"
    "ComputeMultislotOptions True (new_request raw qos u dir opp) = Some s"
  shows "sa_delayClass s = limit 1 4 (qos_DelayClass qos)" "0 < nat (ComputeDesiredNumberOfSlots s)"
proof -
  let ?s0 = "new_request raw qos u dir opp"
  have len: "length (sa_candMultiConfig ?s0) = 173"
    using assms by (auto simp: new_request_def SchedAlloc_new_def Let_def split: option.splits)
  obtain k sets where k: "k < 12" and cs: "ComputeMultislotOptions True ?s0 = Some ((LimitQoS ?s0)\<lparr>sa_maxDlSlots := multiMaxDlSlots ! k,
       sa_maxUlSlots := multiMaxUlSlots ! k, sa_nbrOfCandConfigs := int (length (configs sets)),
       sa_candMultiConfig := configs sets @ drop (length (configs sets)) (sa_candMultiConfig ?s0)\<rparr>)"
    by (rule compute_options [OF len])
  note s = option.inject [THEN iffD1, OF trans [OF assms(2) [symmetric] cs]]
  show "sa_delayClass s = limit 1 4 (qos_DelayClass qos)"
    by (simp add: s LimitQoS_def new_request_def SchedAlloc_new_def Let_def)
  have "list_all (\<lambda>k. 0 < multiMaxDlSlots ! k \<and> 0 < multiMaxUlSlots ! k) [0..<12]" by code_simp
  then have "0 < sa_maxDlSlots s" "0 < sa_maxUlSlots s" using k by (auto simp: s list_all_iff)
  then show "0 < nat (ComputeDesiredNumberOfSlots s)" by (simp add: ComputeDesiredNumberOfSlots_def Let_def)
qed

context branch_laws begin

lemma request_granted_iff:
  assumes ok: "dir_ok prec dir (h, p)" "precs_ok (prec dir)" "qos_ok prec dir u raw qos"
    "\<forall>a. opp = Some a \<longrightarrow> length a = MAX_TIMESLOTS"
    and none: "no_slot (h u)"
    and run: "run_request (AllocateUser br g) True (new_request raw qos u dir opp) (h, p) = Some (status, h', p')"
  shows "status \<longleftrightarrow> (\<exists>trx ts. slot_open prec g qos dir u (tbf_trx (h u)) (case opp of None \<Rightarrow> {} | Some a \<Rightarrow> slots a) p trx ts)"
proof -
  have q: "prec dir u = limit 1 3 (qos_PrecedenceClass qos)" "length (raw_cands raw) = MAX_MULTI_CONFIG_CANDIDATES"
    using ok(3) by (auto simp: qos_ok_def)
  have h: "queues_ok prec p" "\<forall>u. tbf_ok (h u)" using ok(1) by (auto simp: dir_ok_def)
  note tu = tbf_okD [OF h(2) [rule_format, of u]]
  let ?k = "class_index qos" and ?O = "case opp of None \<Rightarrow> {} | Some a \<Rightarrow> slots a"
  obtain s where s: "ComputeMultislotOptions True (new_request raw qos u dir opp) = Some s"
    "prepared ?k s" "sa_tbf s = u" "sa_direction s = dir"
    "nat (sa_delayClass s - 1) < QUEUE_NUM_LEVELS" "sa_precedenceClass s = limit 1 3 (qos_PrecedenceClass qos)"
    "allocated dir s = {}" "allocated (opposite dir) s = ?O" by (rule new_request_prepared [OF q(2) ok(4)])
  note more = new_request_more [OF q(2) s(1)]
  obtain s' where r: "AllocateUser br g (s, h, p) = Some (status, s', h', p')"
    using run s(1) by (auto simp: run_request_def split: bind_splits)
  obtain s1 h1 where c: "ConstrainCandMultiConfig (s, h) = (s1, h1)" by fastforce
  note C = ConstrainCandMultiConfig_tracking [OF s(2) c]
  obtain natural where h1: "h1 = h(u := (h u)\<lparr>tbf_naturalTs := natural\<rparr>)" "length natural = 8"
    using C(6) s(3) by auto
  have s1: "sa_direction s1 = dir" "sa_delayClass s1 = sa_delayClass s" "sa_precedenceClass s1 = sa_precedenceClass s" "sa_tbf s1 = u"
    using c s(3,4) C(3) by (auto simp: ConstrainCandMultiConfig_def Let_def)
  obtain n e s2 h2 p2 where a: "allocate_slots g (nat (ComputeDesiredNumberOfSlots s)) (s1, h1, p) = Some (n, e, s2, h2, p2)"
    using r c by (auto simp: AllocateUser_def Let_def split: bind_splits)
  have n: "status \<longleftrightarrow> 0 < n" using r c a by (auto simp: AllocateUser_def Let_def split: if_splits prod.splits)
  obtain b y where one: "AllocateOneSlot g (s1, h1, p) = Some (b, y)"
    using a more(2) by (cases "nat (ComputeDesiredNumberOfSlots s)") (auto split: bind_splits)
  have "0 < n \<longleftrightarrow> b" by (rule allocate_slots_some [OF one more(2) a])
  also have "b \<longleftrightarrow> (\<exists>trx ts k. candidate g h1 p s1 trx ts k \<and> 0 < k)"
    by (rule AllocateOneSlot_granted [OF h(1) _ _ _ one]) (use ok(2) s s1 q(1) in auto)
  finally have st: "status \<longleftrightarrow> (\<exists>trx ts k. candidate g h1 p s1 trx ts k \<and> 0 < k)" using n by simp
  have own: "slots (tbf_naturalTs (h1 u)) = naturals ?k s1 \<inter> {..<8}" "length (tbf_naturalTs (h1 (sa_tbf s1))) = 8"
    "length (sa_allocatedTsDL s1) = 8" "length (sa_allocatedTsUL s1) = 8"
    using Constrain_nat [OF s(2) c s(3)] h1 C(1) s1(4) by (auto simp: nat_inv_def tracking_def prepared_def)
  have none1: "side dir (slots (sa_allocatedTsDL s1), slots (sa_allocatedTsUL s1)) = {}"
    using s(7) C(4,5) by (simp add: allocated_def)
  have left: "options_left ?k s1 = {opt \<in> multislot_options ?k. ?O \<subseteq> side (opposite dir) opt}"
    using s(7,8) C(4,5) by (cases dir; auto simp: options_left_def allocated_def opposite_def)
  have nat: "IncludesNaturalTs dir ts (s1, h1) \<longleftrightarrow>
      (\<exists>opt \<in> multislot_options ?k. ?O \<subseteq> side (opposite dir) opt \<and> ts \<in> fst opt \<and> ts \<in> snd opt)" if "ts < 8" for ts
    using IncludesNaturalTs_iff [where h = h1 and s = s1, OF own(2-4) that, of dir] that none1 own(1) s1(4) left by (auto simp: naturals_def)
  have all: "IsAllowedTs dir ts s1" if "IncludesNaturalTs dir ts (s1, h1)" "ts < 8" for ts
    using that nat [OF that(2)] IsAllowedTs_iff [OF C(1) that(2), of dir] left by (cases dir) auto
  have "(\<exists>k. candidate g h1 p s1 trx ts k \<and> 0 < k) \<longleftrightarrow> slot_open prec g qos dir u (tbf_trx (h u)) ?O p trx ts" for trx ts
  proof (cases "IsTrxTsValid trx ts")
    case True
    then have v: "nat ts < 8" by (auto simp: IsTrxTsValid_def)
    have "tbf_trx (h1 u) = tbf_trx (h u)" using h1(1) by simp
    then show ?thesis
      using nat [OF v] all [OF _ v] True s1 s(6) q(1) more(1) by (auto simp: candidate_def slot_open_def slot_queue_def)
  qed (simp add: candidate_def slot_open_def)
  then show ?thesis unfolding st by blast
qed

end

end
