(* ===== verification/TbfPool.thy ===== *)
theory TbfPool
  imports MacScheduler UplinkPath DlRlcLink UnitDataLists
begin

text \<open>
  The state of the RLC/MAC task with its TBF objects, and \<^verbatim>\<open>Rlc_mac/src/TbfPool.cpp\<close>: establishment, search
  and abnormal release; the member functions of \<^verbatim>\<open>ULTbf.cpp\<close> and \<^verbatim>\<open>DLTbf.cpp\<close> that establish and release a
  TBF; \<open>SendPacchMsg\<close> and the messages for layer 1 of \<^verbatim>\<open>RlcMacL1Proc.cpp\<close>.
\<close>

section \<open>Data\<close>

text \<open>
  What a mobile asks for on the uplink: \<^verbatim>\<open>ieChannelRequestDescription.h\<close>, and of the radio access capability
  (\<^verbatim>\<open>ieMSRadioAccessCapability.h\<close>) the parts up to the multislot class.
\<close>

record ChanReq =
  cr_peakThroughputClass :: octet
  cr_radioPriority :: octet
  cr_rlcMode :: RLC_MODE

record RaPart =
  ra_isValid :: bool
  ra_accessTechnologyType :: int
  ra_gprsMultislotClass :: octet

record RaCapability =
  rc_isValid :: bool
  rc_parts :: "RaPart list"

text \<open>
  What comes with a downlink PDU: the acknowledgement bit, and the classes that the accessors of \<open>DLTbf\<close>
  compute from structures of the message library.
\<close>

record DlQos =
  dq_mode :: RLC_MODE
  dq_qos :: Qos

datatype TFI_TYPE = UPLINK_TFI | DOWNLINK_TFI
datatype MS_ID = MsTlli "32 word" | MsGlobalTfi TFI_TYPE octet

record UplinkAssignment =
  ua_tai :: octet
  ua_taiTs :: octet
  ua_tsc :: octet
  ua_arfcn :: "16 word"
  ua_tfi :: IeTFI
  ua_usf :: "octet option list"

record DownlinkAssignment =
  da_mode :: RLC_MODE
  da_controlAck :: bool
  da_tsAllocation :: octet
  da_tai :: octet
  da_taiTs :: octet
  da_tsc :: octet
  da_arfcn :: "16 word"
  da_tfi :: IeTFI

datatype DownlinkMsg =
    PacketAccessReject MS_ID
  | PacketUplinkAssignment MS_ID UplinkAssignment
  | PacketDownlinkAssignment MS_ID DownlinkAssignment
  | PacketTBFRelease TFI_TYPE octet
  | PacketDownlinkDummyControlBlock

text \<open>A message for layer 1; \<open>pr_usf\<close> are the bits of its first octet that carry the uplink state flag.\<close>

record PacchReq =
  pr_usf :: octet
  pr_msg :: DownlinkMsg
  pr_tbf :: octet
  pr_burstType :: BURST

text \<open>The messages that tell the DSPs about a TBF.\<close>

record TbfMsg =
  tm_trx :: int
  tm_tlli :: "32 word"
  tm_groupTfi :: octet
  tm_channel :: CHANNEL_CODING_COMMAND
  tm_tsAllocation :: "32 word"
  tm_usfTsMap :: "32 word"
  tm_tai :: octet
  tm_taiTs :: octet

record ImmediateAssignment =
  im_ts :: nat
  im_tsc :: octet
  im_arfcn :: "16 word"
  im_tag :: octet
  im_tlli :: "32 word"
  im_tfi :: octet
  im_mode :: RLC_MODE
  im_tai :: octet

text \<open>
  What the task sends: control messages, at once or out of the queue of the timeslot, the messages for the DSPs, the assignment on the CCCH.  \<open>TriggerRTS\<close> is the call of
  \<open>SendDownlinkDataBlock\<close>, and of \<open>SendDownlinkDummyControlBlock\<close> when that sends nothing.
\<close>

datatype mac_event =
    PacchMsg int int PacchReq
  | UlTbfActivation TbfMsg | UlTbfReconfig TbfMsg | UlTbfDeactivation int "32 word"
  | DlTbfActivation TbfMsg | DlTbfReconfig TbfMsg | DlTbfDeactivation int "32 word"
  | CcchImmediateAssignment ImmediateAssignment
  | TriggerRTS int nat

text \<open>
  The task: the uplink part of \<open>UplinkPath\<close>, the downlink TBFs with their links and timers, the requests
  they were established for, the PDUs that wait in BSSGP (in the abstract form of \<open>UnitDataLists\<close>, which the
  pointer structure refines) and the octets in its receive buffers.
\<close>

record Task =
  tk_ul :: "PacchReq UlSystem"
  tk_chanReq :: "addr \<Rightarrow> ChanReq"
  tk_raCapability :: "addr \<Rightarrow> RaCapability"
  tk_dlTbf :: "addr \<Rightarrow> DLTbf"
  tk_dlLink :: "addr \<Rightarrow> DLRlcLink"
  tk_T3195 :: "addr \<Rightarrow> bool"
  tk_T3191 :: "addr \<Rightarrow> bool"
  tk_T3193 :: "addr \<Rightarrow> bool"
  tk_dlActivity :: "addr \<Rightarrow> bool"
  tk_dlPool :: "DLDataBlock BlockPool"
  tk_dlOut :: "dl_event list"
  tk_dlQos :: "addr \<Rightarrow> DlQos"
  tk_bssgp :: "DlQos TlliPdus list"
  tk_rxBuff :: "nat \<Rightarrow> octet list"
  tk_out :: "mac_event list"

text \<open>What radio resource management answers, and the bytes and the \<^verbatim>\<open>char\<close> of \<open>MacScheduler\<close>.\<close>

record Cell =
  ce_grr :: Grr
  ce_accessTechnology :: int
  ce_tsc :: "int \<Rightarrow> nat \<Rightarrow> octet"
  ce_arfcn :: "int \<Rightarrow> nat \<Rightarrow> 16 word"
  ce_raw :: Raw
  ce_schar :: bool

abbreviation ulTbf :: "Task \<Rightarrow> addr \<Rightarrow> ULTbf" where "ulTbf t \<equiv> sy_tbf (tk_ul t)"
abbreviation tsPool :: "Task \<Rightarrow> (addr, PacchReq) TSPool" where "tsPool t \<equiv> sy_tsPool (tk_ul t)"

definition task_emit :: "mac_event list \<Rightarrow> Task \<Rightarrow> Task" where
  "task_emit es t = t\<lparr>tk_out := tk_out t @ es\<rparr>"

definition set_tsPool :: "(addr, PacchReq) TSPool \<Rightarrow> Task \<Rightarrow> Task" where
  "set_tsPool p t = t\<lparr>tk_ul := (tk_ul t)\<lparr>sy_tsPool := p\<rparr>\<rparr>"

definition set_ulTbf :: "addr \<Rightarrow> ULTbf \<Rightarrow> Task \<Rightarrow> Task" where
  "set_ulTbf i u t = t\<lparr>tk_ul := (tk_ul t)\<lparr>sy_tbf := (sy_tbf (tk_ul t))(i := u)\<rparr>\<rparr>"

definition set_dlTbf :: "addr \<Rightarrow> DLTbf \<Rightarrow> Task \<Rightarrow> Task" where
  "set_dlTbf i d t = t\<lparr>tk_dlTbf := (tk_dlTbf t)(i := d)\<rparr>"

definition on_ulLink :: "addr \<Rightarrow> (UlState \<Rightarrow> UlState) \<Rightarrow> Task \<Rightarrow> Task" where
  "on_ulLink i f t = t\<lparr>tk_ul := save i (f (load i (tk_ul t))) (tk_ul t)\<rparr>"

text \<open>The scheduler and the uplink TBF are not part of the state a downlink link works on here.\<close>

definition dl_load :: "addr \<Rightarrow> Task \<Rightarrow> DlState" where
  "dl_load i t = \<lparr>ds_link = tk_dlLink t i, ds_tbf = tk_dlTbf t i, ds_T3195 = tk_T3195 t i, ds_T3191 = tk_T3191 t i,
     ds_T3193 = tk_T3193 t i, ds_activity = tk_dlActivity t i, ds_pool = tk_dlPool t,
     ds_sysCtlAckCount = sy_sysCtlAckCount (tk_ul t), ds_bssgp = \<lambda>_. [], ds_sched = [], ds_ulTbf = False,
     ds_out = tk_dlOut t\<rparr>"

definition dl_save :: "addr \<Rightarrow> DlState \<Rightarrow> Task \<Rightarrow> Task" where
  "dl_save i s t = t\<lparr>tk_dlLink := (tk_dlLink t)(i := ds_link s), tk_dlTbf := (tk_dlTbf t)(i := ds_tbf s),
     tk_T3195 := (tk_T3195 t)(i := ds_T3195 s), tk_T3191 := (tk_T3191 t)(i := ds_T3191 s),
     tk_T3193 := (tk_T3193 t)(i := ds_T3193 s), tk_dlActivity := (tk_dlActivity t)(i := ds_activity s),
     tk_dlPool := ds_pool s, tk_dlOut := ds_out s,
     tk_ul := (tk_ul t)\<lparr>sy_sysCtlAckCount := ds_sysCtlAckCount s\<rparr>\<rparr>"

definition on_dlLink :: "addr \<Rightarrow> (DlState \<Rightarrow> DlState) \<Rightarrow> Task \<Rightarrow> Task" where
  "on_dlLink i f t = dl_save i (f (dl_load i t)) t"

text \<open>A request of the scheduler works on the TBFs of one direction and the timeslot pool.\<close>

definition ul_sched ::
  "((addr \<Rightarrow> ULTbf) \<times> (addr, PacchReq) TSPool \<Rightarrow> (bool \<times> (addr \<Rightarrow> ULTbf) \<times> (addr, PacchReq) TSPool) option) \<Rightarrow>
   Task \<Rightarrow> (bool \<times> Task) option" where
  "ul_sched f t = do {
     (status, h, p) \<leftarrow> f (ulTbf t, tsPool t);
     Some (status, t\<lparr>tk_ul := (tk_ul t)\<lparr>sy_tbf := h, sy_tsPool := p\<rparr>\<rparr>)
   }"

definition dl_sched ::
  "((addr \<Rightarrow> DLTbf) \<times> (addr, PacchReq) TSPool \<Rightarrow> (bool \<times> (addr \<Rightarrow> DLTbf) \<times> (addr, PacchReq) TSPool) option) \<Rightarrow>
   Task \<Rightarrow> (bool \<times> Task) option" where
  "dl_sched f t = do {
     (status, h, p) \<leftarrow> f (tk_dlTbf t, tsPool t);
     Some (status, set_tsPool p (t\<lparr>tk_dlTbf := h\<rparr>))
   }"

section \<open>Messages for layer 1\<close>

definition tsAllocation :: "bool list \<Rightarrow> 32 word" where
  "tsAllocation a = foldl (\<lambda>w i. if a ! i then w OR push_bit i 1 else w) 0 [0..<MAX_TIMESLOTS]"

definition usfTsMap :: "octet list \<Rightarrow> 32 word" where
  "usfTsMap us = foldl (\<lambda>w i. w OR push_bit (i * 4) (ucast (us ! i))) 0 [0..<MAX_TIMESLOTS]"

definition ulTbfMsg :: "addr \<Rightarrow> Task \<Rightarrow> TbfMsg" where
  "ulTbfMsg i t = (let u = ulTbf t i in
     \<lparr>tm_trx = tbf_trx u, tm_tlli = tbf_tlli u, tm_groupTfi = tfi_val (tbf_tfi u),
      tm_channel = cc_coding (lk_chanCoding (sy_link (tk_ul t) i)), tm_tsAllocation = tsAllocation (tbf_allocatedTs u),
      tm_usfTsMap = usfTsMap (ul_usf u), tm_tai = tbf_tai u, tm_taiTs = tbf_taiTs u\<rparr>)"

text \<open>The downlink messages have no USFs and no timing advance index.\<close>

definition dlTbfMsg :: "addr \<Rightarrow> Task \<Rightarrow> TbfMsg" where
  "dlTbfMsg i t = (let d = tk_dlTbf t i in
     \<lparr>tm_trx = tbf_trx d, tm_tlli = tbf_tlli d, tm_groupTfi = tfi_val (tbf_tfi d),
      tm_channel = cc_coding (dk_chanCoding (tk_dlLink t i)), tm_tsAllocation = tsAllocation (tbf_allocatedTs d),
      tm_usfTsMap = 0, tm_tai = 0, tm_taiTs = 0\<rparr>)"

definition SendULActivationMsg :: "addr \<Rightarrow> Task \<Rightarrow> Task" where
  "SendULActivationMsg i t = task_emit [UlTbfActivation (ulTbfMsg i t)] t"

definition SendULReconfigurationMsg :: "addr \<Rightarrow> Task \<Rightarrow> Task" where
  "SendULReconfigurationMsg i t = task_emit [UlTbfReconfig (ulTbfMsg i t)] t"

definition SendULDeactivationMsg :: "addr \<Rightarrow> Task \<Rightarrow> Task" where
  "SendULDeactivationMsg i t = task_emit [UlTbfDeactivation (tbf_trx (ulTbf t i)) (tbf_tlli (ulTbf t i))] t"

definition SendDLActivationMsg :: "addr \<Rightarrow> Task \<Rightarrow> Task" where
  "SendDLActivationMsg i t = task_emit [DlTbfActivation (dlTbfMsg i t)] t"

definition SendDLReconfigurationMsg :: "addr \<Rightarrow> Task \<Rightarrow> Task" where
  "SendDLReconfigurationMsg i t = task_emit [DlTbfReconfig (dlTbfMsg i t)] t"

definition SendDLDeactivationMsg :: "addr \<Rightarrow> Task \<Rightarrow> Task" where
  "SendDLDeactivationMsg i t = task_emit [DlTbfDeactivation (tbf_trx (tk_dlTbf t i)) (tbf_tlli (tk_dlTbf t i))] t"

text \<open>
  The loop that asks the scheduler for an uplink TBF and takes its state flag, 0 when there is none.  The
  flag array has an entry for each timeslot.
\<close>

partial_function (option) usf_loop :: "int \<Rightarrow> int \<Rightarrow> Task \<Rightarrow> (octet \<times> Task) option" where
  "usf_loop trx ts t = do {
     (r, p) \<leftarrow> ScheduleRLCBlock UL (\<lambda>i. tbf_state (ulTbf t i)) trx ts (tsPool t);
     let t = set_tsPool p t;
     (case r of
        None \<Rightarrow> Some (0, t)
      | Some i \<Rightarrow>
          (case IncrementN3101 (load i (tk_ul t)) of (granted, s) \<Rightarrow>
             let t = t\<lparr>tk_ul := save i s (tk_ul t)\<rparr>
             in if granted then Some (ul_usf (ulTbf t i) ! nat ts, t) else usf_loop trx ts t))
   }"

text \<open>
  The encoders of header and message do not fail on a block of 23 octets.  \<open>ScheduleRLCBlock\<close> is asked only
  when the message can go out now; otherwise it is queued with the USF 0.
\<close>

definition SendPacchMsg :: "int \<Rightarrow> int \<Rightarrow> DownlinkMsg \<Rightarrow> octet \<Rightarrow> BURST \<Rightarrow> Task \<Rightarrow> (JC_STATUS \<times> Task) option" where
  "SendPacchMsg trx ts msg ctlAckTag burstType t0 = do {
     (usf, t) \<leftarrow> (if GetSignallingRTSCount trx ts (tsPool t0) > 0 then usf_loop trx ts t0 else Some (0, t0));
     let l1Msg = \<lparr>pr_usf = usf, pr_msg = msg, pr_tbf = ctlAckTag, pr_burstType = burstType\<rparr>;
     Some (if GetSignallingRTSCount trx ts (tsPool t) > 0
       then (JC_OK, set_tsPool (DecSignallingRTSCount trx ts (tsPool t)) (task_emit [PacchMsg trx ts l1Msg] t))
       else (case TSPool_QueueDLSignallingMsg trx ts l1Msg (tsPool t) of (status, _, p) \<Rightarrow> (status, set_tsPool p t)))
   }"

section \<open>Establishing and releasing a TBF\<close>

abbreviation (input) MAX_TBFS :: nat where "MAX_TBFS \<equiv> MAX_TFI * MAX_TRX"
abbreviation (input) MAX_ACCESS_TECHNOLOGIES :: nat where "MAX_ACCESS_TECHNOLOGIES \<equiv> 3"

definition UL_GetMultislotClass :: "Cell \<Rightarrow> RaCapability \<Rightarrow> int" where
  "UL_GetMultislotClass ce ra =
     (if rc_isValid ra
      then case find (\<lambda>p. ra_isValid p \<and> ra_accessTechnologyType p = ce_accessTechnology ce)
          (take MAX_ACCESS_TECHNOLOGIES (rc_parts ra)) of
        Some p \<Rightarrow> uint (ra_gprsMultislotClass p) | None \<Rightarrow> 1
      else 1)"

text \<open>The four accessors that the allocation object of an uplink request is built from.\<close>

definition UL_Qos :: "Cell \<Rightarrow> ChanReq \<Rightarrow> RaCapability \<Rightarrow> Qos" where
  "UL_Qos ce req ra =
     \<lparr>qos_MultislotClass = UL_GetMultislotClass ce ra, qos_DelayClass = uint (cr_radioPriority req) + 1,
      qos_PrecedenceClass = 1, qos_PeakThroughputClass = uint (cr_peakThroughputClass req)\<rparr>"

text \<open>The access type is stored and never read.  The link never refuses.\<close>

definition EstablishULTbf :: "32 word \<Rightarrow> ChanReq \<Rightarrow> RaCapability \<Rightarrow> addr \<Rightarrow> Task \<Rightarrow> Task" where
  "EstablishULTbf tlli req ra i t =
     (let t1 = t\<lparr>tk_chanReq := (tk_chanReq t)(i := req), tk_raCapability := (tk_raCapability t)(i := ra)\<rparr>;
          t2 = set_ulTbf i (EstablishULTbf_clear ((ulTbf t1 i)\<lparr>tbf_tlli := tlli\<rparr>)) t1
      in on_ulLink i (\<lambda>s. UL_SetTbfState ALLOCATED (EstablishRLCLink (cr_rlcMode req) s)) t2)"

definition ReallocateTbf :: "ChanReq \<Rightarrow> RaCapability \<Rightarrow> addr \<Rightarrow> Task \<Rightarrow> Task" where
  "ReallocateTbf req ra i t =
     t\<lparr>tk_chanReq := (tk_chanReq t)(i := req), tk_raCapability := (tk_raCapability t)(i := ra)\<rparr>"

definition ULTbf_ReleaseULTbf :: "addr \<Rightarrow> Task \<Rightarrow> Task option" where
  "ULTbf_ReleaseULTbf i t = do {
     (_, t1) \<leftarrow> ul_sched (\<lambda>x. map_option (Pair True) (ULReleaseResourceRequest i x)) t;
     let t2 = SendULDeactivationMsg i t1;
     Some (set_ulTbf i ((ulTbf t2 i)\<lparr>tbf_state := FREE\<rparr>) t2)
   }"

text \<open>Without the members that are only stored.\<close>

definition EstablishDLTbf :: "DlQos DlUnitData \<Rightarrow> addr \<Rightarrow> Task \<Rightarrow> Task" where
  "EstablishDLTbf msg i t =
     (let t1 = t\<lparr>tk_dlQos := (tk_dlQos t)(i := um_rest msg)\<rparr>;
          t2 = set_dlTbf i (EstablishDLTbf_clear ((tk_dlTbf t1 i)\<lparr>tbf_tlli := um_tlli msg\<rparr>)) t1
      in on_dlLink i (\<lambda>s. DL_SetTbfState ACTIVATING (DL_EstablishRLCLink (dq_mode (um_rest msg)) s)) t2)"

definition ReestablishDLTbf :: "DlQos DlUnitData \<Rightarrow> addr \<Rightarrow> Task \<Rightarrow> Task" where
  "ReestablishDLTbf msg i t =
     (let t1 = t\<lparr>tk_dlQos := (tk_dlQos t)(i := um_rest msg)\<rparr>;
          t2 = set_dlTbf i ((tk_dlTbf t1 i)\<lparr>tbf_tlli := um_tlli msg\<rparr>) t1
      in on_dlLink i (\<lambda>s. DL_SetTbfState ACTIVATING (DL_ReestablishRLCLink (dq_mode (um_rest msg)) s)) t2)"

definition DLTbf_ReleaseDLTbf :: "bool \<Rightarrow> addr \<Rightarrow> Task \<Rightarrow> Task option" where
  "DLTbf_ReleaseDLTbf deactivateDsp i t = do {
     (_, t1) \<leftarrow> dl_sched (\<lambda>x. map_option (Pair True) (DLReleaseResourceRequest i x)) t;
     let t2 = (if deactivateDsp then SendDLDeactivationMsg i t1 else t1);
     Some (set_dlTbf i ((tk_dlTbf t2 i)\<lparr>tbf_state := FREE\<rparr>) t2)
   }"

section \<open>Abnormal release\<close>

text \<open>
  The uplink TBF if there is one.  \<open>TSSelectionRequest\<close> leaves \<open>ts\<close> unset when the TBF has no natural slot.
\<close>

definition SendPacketTBFRelease :: "addr option \<Rightarrow> addr option \<Rightarrow> Task \<Rightarrow> (JC_STATUS \<times> Task) option" where
  "SendPacketTBFRelease pDlTbf pUlTbf t =
     (case pUlTbf of
        Some i \<Rightarrow>
          (case TSSelectionRequest (ulTbf t i) of (_, trx, ts) \<Rightarrow> do {
             ts \<leftarrow> ts;
             SendPacchMsg trx (int ts) (PacketTBFRelease UPLINK_TFI (tfi_val (tbf_tfi (ulTbf t i))))
               CTL_ACK_TAG_NOT_APPLICABLE RLC_MAC_NORMAL_BURST t
           })
      | None \<Rightarrow> do {
          i \<leftarrow> pDlTbf;
          (case TSSelectionRequest (tk_dlTbf t i) of (_, trx, ts) \<Rightarrow> do {
             ts \<leftarrow> ts;
             SendPacchMsg trx (int ts) (PacketTBFRelease DOWNLINK_TFI (tfi_val (tbf_tfi (tk_dlTbf t i))))
               CTL_ACK_TAG_NOT_APPLICABLE RLC_MAC_NORMAL_BURST t
           })
        })"

definition AbnormalReleaseULTbf :: "addr \<Rightarrow> Task \<Rightarrow> Task option" where
  "AbnormalReleaseULTbf i t = do {
     (_, t) \<leftarrow> SendPacketTBFRelease None (Some i) (set_ulTbf i ((ulTbf t i)\<lparr>tbf_state := INACTIVE\<rparr>) t);
     Some (t\<lparr>tk_ul := (tk_ul t)\<lparr>sy_T3169 := (sy_T3169 (tk_ul t))(i := True)\<rparr>\<rparr>)
   }"

definition AbnormalReleaseDLTbf :: "addr \<Rightarrow> Task \<Rightarrow> Task option" where
  "AbnormalReleaseDLTbf i t = do {
     (_, t) \<leftarrow> SendPacketTBFRelease (Some i) None (set_dlTbf i ((tk_dlTbf t i)\<lparr>tbf_state := INACTIVE\<rparr>) t);
     Some (t\<lparr>tk_T3195 := (tk_T3195 t)(i := True)\<rparr>)
   }"

text \<open>
  The loop of the three functions, over the entries \<open>is\<close>; \<open>sel\<close> is their condition on the transceiver and
  the timeslots of a TBF.
\<close>

fun release_loop_tbfs :: "(int \<Rightarrow> bool list \<Rightarrow> bool) \<Rightarrow> addr list \<Rightarrow> Task \<Rightarrow> Task option" where
  "release_loop_tbfs sel [] t = Some t"
| "release_loop_tbfs sel (i # is) t = do {
     t \<leftarrow> (if tbf_state (ulTbf t i) \<noteq> FREE \<and> sel (tbf_trx (ulTbf t i)) (tbf_allocatedTs (ulTbf t i))
          then AbnormalReleaseULTbf i t else Some t);
     t \<leftarrow> (if tbf_state (tk_dlTbf t i) \<noteq> FREE \<and> sel (tbf_trx (tk_dlTbf t i)) (tbf_allocatedTs (tk_dlTbf t i))
          then AbnormalReleaseDLTbf i t else Some t);
     release_loop_tbfs sel is t
   }"

definition AbnormalReleaseBts :: "Task \<Rightarrow> Task option" where
  "AbnormalReleaseBts = release_loop_tbfs (\<lambda>_ _. True) [0..<MAX_TBFS]"

definition AbnormalReleaseTrx :: "int \<Rightarrow> Task \<Rightarrow> Task option" where
  "AbnormalReleaseTrx trx = release_loop_tbfs (\<lambda>r _. r = trx) [0..<MAX_TBFS]"

definition AbnormalReleaseTs :: "int \<Rightarrow> nat \<Rightarrow> Task \<Rightarrow> Task option" where
  "AbnormalReleaseTs trx ts = release_loop_tbfs (\<lambda>r a. r = trx \<and> a ! ts) [0..<MAX_TBFS]"

section \<open>Search\<close>

text \<open>The eight \<open>FindULTbf\<close> and \<open>FindDLTbf\<close>: the first TBF in use with the property.\<close>

definition find_used :: "('a Tbf_scheme \<Rightarrow> bool) \<Rightarrow> (addr \<Rightarrow> 'a Tbf_scheme) \<Rightarrow> addr option" where
  "find_used P h = find (\<lambda>i. tbf_state (h i) \<noteq> FREE \<and> P (h i)) [0..<MAX_TBFS]"

definition FindTbf_tfi :: "octet \<Rightarrow> (addr \<Rightarrow> 'a Tbf_scheme) \<Rightarrow> addr option" where
  "FindTbf_tfi tfi = find_used (\<lambda>u. tfi_val (tbf_tfi u) = tfi)"

definition FindTbf_tlli :: "32 word \<Rightarrow> (addr \<Rightarrow> 'a Tbf_scheme) \<Rightarrow> addr option" where
  "FindTbf_tlli tlli = find_used (\<lambda>u. tbf_tlli u = tlli)"

definition FindULTbf_tag :: "octet \<Rightarrow> (addr \<Rightarrow> ULTbf) \<Rightarrow> addr option" where
  "FindULTbf_tag controlAckTag = find_used (\<lambda>u. ul_ctlAckTag u = controlAckTag)"

definition FindDLTbf_tag :: "octet \<Rightarrow> (addr \<Rightarrow> DLTbf) \<Rightarrow> addr option" where
  "FindDLTbf_tag controlAckTag = find_used (\<lambda>d. DL_CheckControlAckTag d controlAckTag)"

definition AnyActiveTBF :: "int \<Rightarrow> nat \<Rightarrow> Task \<Rightarrow> bool" where
  "AnyActiveTBF trx ts t \<longleftrightarrow> (\<exists>i \<in> set [0..<MAX_TBFS].
     tbf_state (tk_dlTbf t i) = ALLOCATED \<and> tbf_trx (tk_dlTbf t i) = trx \<and> tbf_allocatedTs (tk_dlTbf t i) ! ts \<or>
     tbf_state (ulTbf t i) = ALLOCATED \<and> tbf_trx (ulTbf t i) = trx \<and> tbf_allocatedTs (ulTbf t i) ! ts)"

text \<open>The first free TBF; the address is null when there is none.\<close>

definition first_free_tbf :: "(addr \<Rightarrow> 'a Tbf_scheme) \<Rightarrow> addr option" where
  "first_free_tbf h = find (\<lambda>i. tbf_state (h i) = FREE) [0..<MAX_TBFS]"

definition TbfPool_EstablishULTbf :: "32 word \<Rightarrow> ChanReq \<Rightarrow> RaCapability \<Rightarrow> Task \<Rightarrow> addr option \<times> Task" where
  "TbfPool_EstablishULTbf tlli req ra t =
     (case first_free_tbf (ulTbf t) of
        None \<Rightarrow> (None, t) | Some i \<Rightarrow> (Some i, EstablishULTbf tlli req ra i t))"

definition TbfPool_EstablishDLTbf :: "DlQos DlUnitData \<Rightarrow> Task \<Rightarrow> addr option \<times> Task" where
  "TbfPool_EstablishDLTbf msg t =
     (case first_free_tbf (tk_dlTbf t) of
        None \<Rightarrow> (None, t) | Some i \<Rightarrow> (Some i, EstablishDLTbf msg i t))"

section \<open>Ready to send on the control channel\<close>

definition SendDownlinkDummyControlBlock :: "int \<Rightarrow> int \<Rightarrow> Task \<Rightarrow> (bool \<times> Task) option" where
  "SendDownlinkDummyControlBlock trx ts t =
     (if GetSignallingRTSCount trx ts (tsPool t) \<ge> 2 \<and> GetDataRTSCount trx ts (tsPool t) \<ge> 1 \<and>
         AnyActiveTBF trx (nat ts) t
      then do {
        (_, t) \<leftarrow> SendPacchMsg trx ts PacketDownlinkDummyControlBlock CTL_ACK_TAG_NOT_APPLICABLE RLC_MAC_NORMAL_BURST t;
        Some (True, t)
      }
      else Some (False, t))"

text \<open>
  The loop of \<open>ProcessPhRTSInd\<close> for the control channel.  A dequeued message is a slot of the queue's
  buffer; the state flag is ORed into its first octet there, and stays.
\<close>

definition or_usf :: "int \<Rightarrow> int \<Rightarrow> nat \<Rightarrow> octet \<Rightarrow> ('p, PacchReq) TSPool \<Rightarrow> ('p, PacchReq) TSPool" where
  "or_usf trx ts k usf = on_ts trx ts (\<lambda>x.
     let q = ts_sysDLSigMsgQ x; m = dq_pacchMsg q ! k
     in x\<lparr>ts_sysDLSigMsgQ := q\<lparr>dq_pacchMsg := (dq_pacchMsg q)[k := m\<lparr>pr_usf := pr_usf m OR usf\<rparr>]\<rparr>\<rparr>)"

partial_function (option) rts_loop :: "int \<Rightarrow> int \<Rightarrow> Task \<Rightarrow> Task option" where
  "rts_loop trx ts t =
     (case TSPool_DequeueDLSignallingMsg trx ts (tsPool t) of (m, p) \<Rightarrow>
        let t = set_tsPool p t
        in case m of
          Some k \<Rightarrow>
            if GetSignallingRTSCount trx ts (tsPool t) > 0 then do {
              (usf, t) \<leftarrow> usf_loop trx ts t;
              let t = set_tsPool (or_usf trx ts k usf (tsPool t)) t;
              let t = task_emit [PacchMsg trx ts (dq_pacchMsg (ts_sysDLSigMsgQ (get_ts trx ts (tsPool t))) ! k)] t;
              let t = set_tsPool (DecSignallingRTSCount trx ts (tsPool t)) t;
              if GetSignallingRTSCount trx ts (tsPool t) = 0 then Some t else rts_loop trx ts t
            }
            else map_option snd (SendDownlinkDummyControlBlock trx ts t)
        | None \<Rightarrow> map_option snd (SendDownlinkDummyControlBlock trx ts t))"

definition ProcessPacchRTSInd :: "int \<Rightarrow> int \<Rightarrow> int \<Rightarrow> Task \<Rightarrow> Task option" where
  "ProcessPacchRTSInd trx ts numBuffs t = rts_loop trx ts (set_tsPool (IncSignallingRTSCount trx ts numBuffs (tsPool t)) t)"

end
