(* ===== verification/MacAllocation.thy ===== *)
theory MacAllocation
  imports TbfPool
begin

text \<open>
  \<^verbatim>\<open>Rlc_mac/src/MacAllocation.cpp\<close> and the administrative messages of \<^verbatim>\<open>RlcMacOamProc.cpp\<close>: uplink and downlink
  resources are requested from the scheduler for TBFs of the pool, and the mobiles are told.  The statuses
  are left out where every caller ignores them.
\<close>

section \<open>Uplink resources\<close>

text \<open>A PACKET RESOURCE REQUEST: the TFI of a TBF that the mobile has, or its TLLI.\<close>

record ResourceRequest =
  rr_globalTfi :: "(TFI_TYPE \<times> octet) option"
  rr_tlli :: "32 word"
  rr_chanReq :: ChanReq
  rr_raCapability :: RaCapability

definition SendPacketAccessReject :: "int \<Rightarrow> int \<Rightarrow> MS_ID \<Rightarrow> Task \<Rightarrow> Task option" where
  "SendPacketAccessReject trx ts who t =
     map_option snd (SendPacchMsg trx ts (PacketAccessReject who) CTL_ACK_TAG_NOT_APPLICABLE RLC_MAC_NORMAL_BURST t)"

definition held_slots :: "'a Tbf_scheme \<Rightarrow> nat list" where
  "held_slots u = filter (\<lambda>k. tbf_allocatedTs u ! k) [0..<MAX_TIMESLOTS]"

text \<open>The training sequence and frequency are those of the timeslot the request came in on.\<close>

definition SendPacketUplinkAssignment :: "Cell \<Rightarrow> int \<Rightarrow> int \<Rightarrow> addr \<Rightarrow> MS_ID \<Rightarrow> Task \<Rightarrow> Task option" where
  "SendPacketUplinkAssignment ce trx ts i who t =
     (let u = ulTbf t i;
          asn = \<lparr>ua_tai = tbf_tai u, ua_taiTs = tbf_taiTs u, ua_tsc = ce_tsc ce trx (nat ts), ua_arfcn = ce_arfcn ce trx (nat ts),
             ua_tfi = tbf_tfi u,
             ua_usf = map (\<lambda>k. if tbf_allocatedTs u ! k then Some (ul_usf u ! k) else None) [0..<MAX_TIMESLOTS]\<rparr>
      in do {
        (_, t) \<leftarrow> SendPacchMsg trx ts (PacketUplinkAssignment who asn) CTL_ACK_TAG_NOT_APPLICABLE RLC_MAC_NORMAL_BURST t;
        Some (task_emit (map (TriggerRTS (tbf_trx (ulTbf t i))) (held_slots (ulTbf t i))) t)
      })"

text \<open>
  What follows a request of the scheduler for a TBF that was just established.
\<close>

definition answer_request :: "Cell \<Rightarrow> int \<Rightarrow> int \<Rightarrow> MS_ID \<Rightarrow> addr \<Rightarrow> bool \<Rightarrow> Task \<Rightarrow> Task option" where
  "answer_request ce trx ts who i granted t =
     (if granted
      then SendPacketUplinkAssignment ce trx ts i who (SendULActivationMsg i (on_ulLink i UL_UpdateTSSpecificData t))
      else do {
        t \<leftarrow> SendPacketAccessReject trx ts who t;
        ULTbf_ReleaseULTbf i t
      })"

definition AllocateULResources :: "Cell \<Rightarrow> ResourceRequest \<Rightarrow> int \<Rightarrow> int \<Rightarrow> Task \<Rightarrow> Task option" where
  "AllocateULResources ce msg trx ts t =
     (let req = rr_chanReq msg; ra = rr_raCapability msg; qos = UL_Qos ce req ra in
      case rr_globalTfi msg of
        Some (UPLINK_TFI, tfi) \<Rightarrow>
          (let who = MsGlobalTfi UPLINK_TFI tfi in
           case FindTbf_tfi tfi (ulTbf t) of
             None \<Rightarrow> SendPacketAccessReject trx ts who t
           | Some i \<Rightarrow> do {
               (granted, t) \<leftarrow> ul_sched (ULResourceReallocRequest (ce_schar ce) (ce_raw ce) (ce_grr ce) qos i) (ReallocateTbf req ra i t);
               if granted
               then SendPacketUplinkAssignment ce trx ts i who (SendULReconfigurationMsg i (on_ulLink i UL_UpdateTSSpecificData t))
               else SendPacketAccessReject trx ts who t
             })
      | Some (DOWNLINK_TFI, tfi) \<Rightarrow>
          (let who = MsGlobalTfi DOWNLINK_TFI tfi in
           case FindTbf_tfi tfi (tk_dlTbf t) of
             None \<Rightarrow> SendPacketAccessReject trx ts who t
           | Some d \<Rightarrow>
               (case TbfPool_EstablishULTbf (tbf_tlli (tk_dlTbf t d)) req ra t of
                  (None, t) \<Rightarrow> SendPacketAccessReject trx ts who t
                | (Some i, t) \<Rightarrow> do {
                    (granted, t) \<leftarrow> ul_sched (ULResourceRequest_with (ce_schar ce) (ce_raw ce) (ce_grr ce) qos i (tk_dlTbf t d)) t;
                    answer_request ce trx ts who i granted t
                  }))
      | None \<Rightarrow> do {
          let who = MsTlli (rr_tlli msg);
          t \<leftarrow> (case FindTbf_tlli (rr_tlli msg) (ulTbf t) of None \<Rightarrow> Some t | Some i \<Rightarrow> ULTbf_ReleaseULTbf i t);
          (case TbfPool_EstablishULTbf (rr_tlli msg) req ra t of
             (None, t) \<Rightarrow> SendPacketAccessReject trx ts who t
           | (Some i, t) \<Rightarrow> do {
               (granted, t) \<leftarrow> ul_sched (ULResourceRequest (ce_schar ce) (ce_raw ce) (ce_grr ce) qos i) t;
               answer_request ce trx ts who i granted t
             })
        })"

section \<open>Downlink assignments\<close>

definition set_control_ack_tag :: "addr \<Rightarrow> Task \<Rightarrow> (octet \<times> Task) option" where
  "set_control_ack_tag i t = do {
     (tag, c, d) \<leftarrow> DL_SetControlAckTag (sy_sysCtlAckCount (tk_ul t), tk_dlTbf t i);
     Some (tag, set_dlTbf i d (t\<lparr>tk_ul := (tk_ul t)\<lparr>sy_sysCtlAckCount := c\<rparr>\<rparr>))
   }"

definition slot_bits :: "bool list \<Rightarrow> octet" where
  "slot_bits a = foldl (\<lambda>w k. if a ! k then w OR drop_bit k 0x80 else w) 0 [0..<MAX_TIMESLOTS]"

text \<open>
  Training sequence and frequency are those of the last timeslot, and unset when there is none; the timeslot to
  send on is unset when there is no natural one.
\<close>

definition SendPacketDownlinkAssignment :: "Cell \<Rightarrow> addr \<Rightarrow> addr option \<Rightarrow> bool \<Rightarrow> Task \<Rightarrow> Task option" where
  "SendPacketDownlinkAssignment ce i pUlTbf controlAck t =
     (let d = tk_dlTbf t i;
          who = (case pUlTbf of Some w \<Rightarrow> MsGlobalTfi UPLINK_TFI (tfi_val (tbf_tfi (ulTbf t w)))
             | None \<Rightarrow> MsGlobalTfi DOWNLINK_TFI (tfi_val (tbf_tfi d)));
          (_, xmitTrx, xmitTs) = (case pUlTbf of Some w \<Rightarrow> TSSelectionRequest (ulTbf t w) | None \<Rightarrow> TSSelectionRequest d)
      in if held_slots d = [] then None
      else do {
        let k = List.last (held_slots d);
        let asn = \<lparr>da_mode = dq_mode (tk_dlQos t i), da_controlAck = controlAck, da_tsAllocation = slot_bits (tbf_allocatedTs d),
           da_tai = tbf_tai d, da_taiTs = tbf_taiTs d, da_tsc = ce_tsc ce (tbf_trx d) k, da_arfcn = ce_arfcn ce (tbf_trx d) k,
           da_tfi = tbf_tfi d\<rparr>;
        xmitTs \<leftarrow> xmitTs;
        (tag, t) \<leftarrow> set_control_ack_tag i t;
        (_, t) \<leftarrow> SendPacchMsg xmitTrx (int xmitTs) (PacketDownlinkAssignment who asn) tag RLC_MAC_ACCESS_BURST t;
        Some t
      })"

text \<open>The assignment on the CCCH carries the tag where the mobile's random reference would be.\<close>

definition DLCCCHImmediateAssignment :: "Cell \<Rightarrow> addr \<Rightarrow> Task \<Rightarrow> Task option" where
  "DLCCCHImmediateAssignment ce i t =
     (let d = tk_dlTbf t i in
      case held_slots d of
        [] \<Rightarrow> None
      | ts # _ \<Rightarrow> do {
          (tag, t) \<leftarrow> set_control_ack_tag i t;
          Some (task_emit [CcchImmediateAssignment \<lparr>im_ts = ts, im_tsc = ce_tsc ce (tbf_trx d) ts, im_arfcn = ce_arfcn ce (tbf_trx d) ts,
             im_tag = tag, im_tlli = tbf_tlli d, im_tfi = tfi_val (tbf_tfi d), im_mode = dq_mode (tk_dlQos t i),
             im_tai = tbf_tai d\<rparr>] t)
        })"

section \<open>Downlink resources\<close>

datatype DL_ALLOC_RES = RESOURCES_ALLOCATED | RESOURCES_UNAVAILABLE | TBF_ACTIVE

text \<open>The link gets the PDU that \<open>bssgp_udt_get_buff_by_tlli\<close> hands out.\<close>

definition take_pdu :: "addr \<Rightarrow> Task \<Rightarrow> bool \<times> Task" where
  "take_pdu i t =
     (case spec_get (tbf_tlli (tk_dlTbf t i)) (tk_bssgp t) of
        (None, _) \<Rightarrow> (False, t)
      | (Some (_, _, msg), qs) \<Rightarrow>
          let pdu = \<lparr>pdu_buffer = um_pdu_data msg, pdu_data = take (unat (um_pdu_data_len msg)) (tk_rxBuff t (um_pdu_data msg))\<rparr>
          in (True, on_dlLink i (\<lambda>s. (snd (GetNextLLCPdu (s\<lparr>ds_bssgp := (\<lambda>_. [pdu])\<rparr>)))) (t\<lparr>tk_bssgp := qs\<rparr>)))"

definition CancelT3193 :: "DlState \<Rightarrow> DlState" where
  "CancelT3193 s = s\<lparr>ds_T3193 := False, ds_link := (ds_link s)\<lparr>dk_isT3193Running := False\<rparr>\<rparr>"

text \<open>What follows a request of the scheduler for a new TBF; \<open>pUlTbf\<close> is the mobile's uplink TBF.\<close>

definition start_downlink :: "Cell \<Rightarrow> addr \<Rightarrow> addr option \<Rightarrow> bool \<Rightarrow> Task \<Rightarrow> (DL_ALLOC_RES \<times> Task) option" where
  "start_downlink ce i pUlTbf granted t =
     (case (if granted then take_pdu i t else (False, t)) of
        (True, t) \<Rightarrow> do {
          let t = SendDLActivationMsg i (on_dlLink i DLTbf_UpdateTSSpecificData t);
          t \<leftarrow> (if pUlTbf = None then DLCCCHImmediateAssignment ce i t
               else SendPacketDownlinkAssignment ce i pUlTbf False t);
          Some (RESOURCES_ALLOCATED, t)
        }
      | (False, t) \<Rightarrow> map_option (Pair RESOURCES_UNAVAILABLE) (DLTbf_ReleaseDLTbf False i t))"

definition AllocateDLResources :: "Cell \<Rightarrow> DlQos DlUnitData \<Rightarrow> Task \<Rightarrow> (DL_ALLOC_RES \<times> Task) option" where
  "AllocateDLResources ce msg t =
     (let pUlTbf = FindTbf_tlli (um_tlli msg) (ulTbf t); qos = dq_qos (um_rest msg) in
      case FindTbf_tlli (um_tlli msg) (tk_dlTbf t) of
        None \<Rightarrow>
          (case TbfPool_EstablishDLTbf msg t of
             (None, t) \<Rightarrow> Some (RESOURCES_UNAVAILABLE, t)
           | (Some i, t) \<Rightarrow> do {
               (granted, t) \<leftarrow> (case pUlTbf of
                   None \<Rightarrow> dl_sched (DLSingleTSResourceRequest (ce_schar ce) (ce_raw ce) (ce_grr ce) qos i) t
                 | Some w \<Rightarrow> dl_sched (DLResourceRequest_with (ce_schar ce) (ce_raw ce) (ce_grr ce) qos i (ulTbf t w)) t);
               start_downlink ce i pUlTbf granted t
             })
      | Some i \<Rightarrow>
          if tbf_state (tk_dlTbf t i) = INACTIVE \<and> dk_isT3193Running (tk_dlLink t i) then do {
            let t = ReestablishDLTbf msg i t;
            (_, t) \<leftarrow> (case pUlTbf of
                None \<Rightarrow> dl_sched (DLResourceReallocRequest (ce_schar ce) (ce_raw ce) (ce_grr ce) qos i) t
              | Some w \<Rightarrow> dl_sched (DLResourceReallocRequest_with (ce_schar ce) (ce_raw ce) (ce_grr ce) qos i (ulTbf t w)) t);
            let t = SendDLReconfigurationMsg i (on_dlLink i DLTbf_UpdateTSSpecificData t);
            (case take_pdu i t of
               (True, t) \<Rightarrow> map_option (Pair RESOURCES_ALLOCATED)
                  (SendPacketDownlinkAssignment ce i None True (on_dlLink i CancelT3193 t))
             | (False, t) \<Rightarrow> Some (RESOURCES_UNAVAILABLE, t))
          }
          else Some (TBF_ACTIVE, t))"

text \<open>
  The inner loop of \<open>CheckDLMsgQueues\<close> with the PDU that \<open>bssgp_udt_check_buff_by_qos\<close> has found; an endless loop
  is \<open>None\<close>.  When nothing is found any more the loop ends, whatever the comparison with the first TLLI says.
\<close>

partial_function (option) msg_loop :: "Cell \<Rightarrow> nat \<Rightarrow> 32 word \<Rightarrow> DlQos DlUnitData \<Rightarrow> Task \<Rightarrow> Task option" where
  "msg_loop ce qos firstTlli msg t = do {
     (res, t) \<leftarrow> AllocateDLResources ce msg t;
     if res = RESOURCES_UNAVAILABLE then Some t
     else (case spec_next qos (tk_bssgp t) of (found, qs) \<Rightarrow>
       let t = t\<lparr>tk_bssgp := qs\<rparr> in
       case found of
         None \<Rightarrow> Some t
       | Some (_, _, msg) \<Rightarrow> if um_tlli msg = firstTlli then Some t else msg_loop ce qos firstTlli msg t)
   }"

fun check_levels :: "Cell \<Rightarrow> nat list \<Rightarrow> Task \<Rightarrow> Task option" where
  "check_levels ce [] t = Some t"
| "check_levels ce (l # ls) t =
     (case spec_next l (tk_bssgp t) of (found, qs) \<Rightarrow>
        let t = t\<lparr>tk_bssgp := qs\<rparr> in
        case found of
          None \<Rightarrow> check_levels ce ls t
        | Some (_, _, msg) \<Rightarrow> Option.bind (msg_loop ce l (um_tlli msg) msg t) (check_levels ce ls))"

definition CheckDLMsgQueues :: "Cell \<Rightarrow> Task \<Rightarrow> Task option" where
  "CheckDLMsgQueues ce t = check_levels ce [0..<BSSGP_MAX_NETWORK_QOS_LEVELS] t"

section \<open>Administrative messages\<close>

datatype OamObj = RLC_MAC_TIMESLOT int nat | RLC_MAC_TRX int | RLC_MAC_GP

fun drop_tbfs :: "OamObj \<Rightarrow> Task \<Rightarrow> Task option" where
  "drop_tbfs (RLC_MAC_TIMESLOT trx ts) t = AbnormalReleaseTs trx ts t"
| "drop_tbfs (RLC_MAC_TRX trx) t = AbnormalReleaseTrx trx t"
| "drop_tbfs RLC_MAC_GP t = AbnormalReleaseBts t"

fun DecodeOamAdminMsgInd :: "Cell \<Rightarrow> OamObj \<Rightarrow> AdministrativeState \<Rightarrow> Task \<Rightarrow> Task option" where
  "DecodeOamAdminMsgInd ce obj unlocked t = CheckDLMsgQueues ce t"
| "DecodeOamAdminMsgInd ce obj locked t = drop_tbfs obj t"
| "DecodeOamAdminMsgInd ce obj shuttingDown t = Some t"

fun DecodeOamOpMsgInd :: "Cell \<Rightarrow> OamObj \<Rightarrow> EnableDisable \<Rightarrow> Task \<Rightarrow> Task option" where
  "DecodeOamOpMsgInd ce obj opStateEnabled t = CheckDLMsgQueues ce t"
| "DecodeOamOpMsgInd ce obj opStateDisabled t = drop_tbfs obj t"

end
