(* ===== verification/TaskState.thy ===== *)
theory TaskState
  imports MacAllocation NaturalHeld
begin

text \<open>
  The invariant of the task: the scheduler is consistent, a TBF object that is free holds no timeslot, and one
  in use holds some on a transceiver.  Sending a control message keeps it.
\<close>

section \<open>The invariant\<close>

text \<open>Uplink TBFs are all of precedence class 1; \<open>c\<close> is the class of the downlink PDUs.\<close>

definition precs :: "int \<Rightarrow> LinkDirection \<Rightarrow> addr \<Rightarrow> int" where
  "precs c dir u = (if dir = UL then 1 else c)"

lemma precs_ok_UL [simp]: "precs_ok (precs c UL)"
  by (simp add: precs_ok_def precs_def)

lemma precs_ok_DL: "1 \<le> c \<Longrightarrow> c \<le> 3 \<Longrightarrow> precs_ok (precs c DL)"
  by (simp add: precs_ok_def precs_def)

definition used_ok :: "'a Tbf_scheme \<Rightarrow> bool" where
  "used_ok u \<longleftrightarrow> (if tbf_state u = FREE then no_slot u else IsTrxValid (tbf_trx u) \<and> \<not> no_slot u \<and> natural_ok u)"

text \<open>The second part holds between two operations, the first one all the time.\<close>

definition sched_ok :: "int \<Rightarrow> Task \<Rightarrow> bool" where
  "sched_ok c t \<longleftrightarrow> 1 \<le> c \<and> c \<le> 3 \<and> dir_ok (precs c) DL (tk_dlTbf t, tsPool t) \<and> dir_ok (precs c) UL (ulTbf t, tsPool t) \<and>
     (\<forall>i. tbf_state (tk_dlTbf t i) = FREE \<longrightarrow> no_slot (tk_dlTbf t i)) \<and> (\<forall>i. tbf_state (ulTbf t i) = FREE \<longrightarrow> no_slot (ulTbf t i))"

definition task_ok :: "int \<Rightarrow> Task \<Rightarrow> bool" where
  "task_ok c t \<longleftrightarrow> sched_ok c t \<and> (\<forall>i. used_ok (tk_dlTbf t i)) \<and> (\<forall>i. used_ok (ulTbf t i))"

lemma sched_okD:
  assumes "sched_ok c t"
  shows "1 \<le> c" "c \<le> 3" "dir_ok (precs c) DL (tk_dlTbf t, tsPool t)" "dir_ok (precs c) UL (ulTbf t, tsPool t)"
    "tbf_state (tk_dlTbf t i) = FREE \<Longrightarrow> no_slot (tk_dlTbf t i)" "tbf_state (ulTbf t i) = FREE \<Longrightarrow> no_slot (ulTbf t i)"
    "queues_ok (precs c) (tsPool t)" "pool_ok (tsPool t)" "precs_ok (precs c DL)"
  using assms precs_ok_DL by (auto simp: sched_ok_def dir_ok_def queues_okD)

lemma task_okD:
  assumes "task_ok c t"
  shows "sched_ok c t" "used_ok (tk_dlTbf t i)" "used_ok (ulTbf t i)"
  using assms by (auto simp: task_ok_def)

text \<open>Nothing about a TBF has changed that the invariant depends on, nor its name.\<close>

definition same_use :: "'a Tbf_scheme \<Rightarrow> 'a Tbf_scheme \<Rightarrow> bool" where
  "same_use u u' \<longleftrightarrow> tbf_trx u' = tbf_trx u \<and> tbf_allocatedTs u' = tbf_allocatedTs u \<and> tbf_naturalTs u' = tbf_naturalTs u \<and>
     tbf_tlli u' = tbf_tlli u \<and> tbf_tfi u' = tbf_tfi u \<and> (tbf_state u' = FREE \<longleftrightarrow> tbf_state u = FREE)"

lemma same_use_refl [simp]: "same_use u u"
  by (simp add: same_use_def)

lemma same_use_trans: "same_use u u1 \<Longrightarrow> same_use u1 u2 \<Longrightarrow> same_use u u2"
  by (simp add: same_use_def)

lemma used_ok_use: "same_use u u' \<Longrightarrow> used_ok u' = used_ok u"
  by (simp add: same_use_def used_ok_def no_slot_def natural_ok_def)

definition same_sched :: "int \<Rightarrow> (addr, 'm) TSPool \<Rightarrow> (addr, 'm) TSPool \<Rightarrow> bool" where
  "same_sched c p p' \<longleftrightarrow> queues_ok (precs c) p' \<and>
     (\<forall>d t s. IsTrxTsValid t s \<longrightarrow> sq_queue (slot_queue d t s p') = sq_queue (slot_queue d t s p))"

lemma same_sched_info: "queues_ok (precs c) p \<Longrightarrow> same_info p p' \<Longrightarrow> same_sched c p p'"
  by (simp add: same_sched_def same_info_queues same_info_queue)

lemma same_sched_trans: "same_sched c p p1 \<Longrightarrow> same_sched c p1 p2 \<Longrightarrow> same_sched c p p2"
  by (simp add: same_sched_def)

lemma dir_ok_same:
  assumes "dir_ok prec dir (h, p)" "\<forall>i. same_use (h i) (h' i)" "queues_ok prec p'"
    "\<forall>d t s. IsTrxTsValid t s \<longrightarrow> sq_queue (slot_queue d t s p') = sq_queue (slot_queue d t s p)"
  shows "dir_ok prec dir (h', p')"
  using assms by (simp add: dir_ok_def held_def sq_users_def same_use_def tbf_ok_def)

definition kept :: "int \<Rightarrow> Task \<Rightarrow> Task \<Rightarrow> bool" where
  "kept c t t' \<longleftrightarrow> (\<forall>i. same_use (tk_dlTbf t i) (tk_dlTbf t' i)) \<and> (\<forall>i. same_use (ulTbf t i) (ulTbf t' i)) \<and>
     same_sched c (tsPool t) (tsPool t')"

lemma same_use_no_slot: "same_use u u' \<Longrightarrow> no_slot u' = no_slot u"
  by (simp add: same_use_def no_slot_def)

lemma kept_sched_ok:
  assumes ok: "sched_ok c t" and k: "kept c t t'"
  shows "sched_ok c t'"
proof -
  note S = sched_okD [OF ok]
  have D: "\<And>i. same_use (tk_dlTbf t i) (tk_dlTbf t' i)" and U: "\<And>i. same_use (ulTbf t i) (ulTbf t' i)"
    and q: "queues_ok (precs c) (tsPool t')"
      "\<forall>d a s. IsTrxTsValid a s \<longrightarrow> sq_queue (slot_queue d a s (tsPool t')) = sq_queue (slot_queue d a s (tsPool t))"
    using k by (auto simp: kept_def same_sched_def)
  have "dir_ok (precs c) DL (tk_dlTbf t', tsPool t')" by (rule dir_ok_same [OF S(3) _ q]) (simp add: D)
  moreover have "dir_ok (precs c) UL (ulTbf t', tsPool t')" by (rule dir_ok_same [OF S(4) _ q]) (simp add: U)
  moreover have "tbf_state (tk_dlTbf t' i) = FREE \<Longrightarrow> no_slot (tk_dlTbf t' i)" for i
    using S(5) [of i] same_use_no_slot [OF D [of i]] D [of i] by (simp add: same_use_def)
  moreover have "tbf_state (ulTbf t' i) = FREE \<Longrightarrow> no_slot (ulTbf t' i)" for i
    using S(6) [of i] same_use_no_slot [OF U [of i]] U [of i] by (simp add: same_use_def)
  ultimately show ?thesis using S(1,2) by (simp add: sched_ok_def)
qed

lemma kept_used: "kept c t t' \<Longrightarrow> used_ok (ulTbf t' i) = used_ok (ulTbf t i)" "kept c t t' \<Longrightarrow> used_ok (tk_dlTbf t' i) = used_ok (tk_dlTbf t i)"
  unfolding kept_def using used_ok_use by metis+

lemma kept_task_ok: "task_ok c t \<Longrightarrow> kept c t t' \<Longrightarrow> task_ok c t'"
  unfolding task_ok_def using kept_sched_ok kept_used by metis

lemma kept_trans: "kept c t t1 \<Longrightarrow> kept c t1 t2 \<Longrightarrow> kept c t t2"
  unfolding kept_def using same_use_trans same_sched_trans by metis

lemma kept_refl: "sched_ok c t \<Longrightarrow> kept c t t"
  using sched_okD(7) by (simp add: kept_def same_sched_def)

text \<open>Updates of the other fields.\<close>

lemma same_tbfs:
  assumes "sched_ok c t" "tk_dlTbf t' = tk_dlTbf t" "ulTbf t' = ulTbf t" "tsPool t' = tsPool t"
  shows "kept c t t'"
  using assms kept_refl [OF assms(1)] by (simp add: kept_def)

lemma task_read [simp]:
  "tk_ul (task_emit es t) = tk_ul t" "tk_dlTbf (task_emit es t) = tk_dlTbf t" "tk_bssgp (task_emit es t) = tk_bssgp t"
  "tsPool (set_tsPool p t) = p" "ulTbf (set_tsPool p t) = ulTbf t" "tk_dlTbf (set_tsPool p t) = tk_dlTbf t"
  "tk_bssgp (set_tsPool p t) = tk_bssgp t"
  "ulTbf (set_ulTbf i u t) = (ulTbf t)(i := u)" "tsPool (set_ulTbf i u t) = tsPool t" "tk_dlTbf (set_ulTbf i u t) = tk_dlTbf t"
  "ulTbf (set_dlTbf i d t) = ulTbf t" "tk_ul (set_dlTbf i d t) = tk_ul t" "tk_dlTbf (set_dlTbf i d t) = (tk_dlTbf t)(i := d)"
  by (simp_all add: task_emit_def set_tsPool_def set_ulTbf_def set_dlTbf_def)

lemma save_read [simp]:
  "sy_tbf (save i s y) = (sy_tbf y)(i := us_tbf s)" "sy_tsPool (save i s y) = sy_tsPool y"
  by (simp_all add: save_def)

lemma load_read [simp]: "us_tbf (load i y) = sy_tbf y i" "us_link (load i y) = sy_link y i"
  by (simp_all add: load_def)

lemma on_ulLink_read [simp]:
  "ulTbf (on_ulLink i f t) = (ulTbf t)(i := us_tbf (f (load i (tk_ul t))))" "tsPool (on_ulLink i f t) = tsPool t"
  "tk_dlTbf (on_ulLink i f t) = tk_dlTbf t"
  by (simp_all add: on_ulLink_def)

lemma on_dlLink_read [simp]:
  "tk_dlTbf (on_dlLink i f t) = (tk_dlTbf t)(i := ds_tbf (f (dl_load i t)))"
  "ulTbf (on_dlLink i f t) = ulTbf t" "tsPool (on_dlLink i f t) = tsPool t"
  by (simp_all add: on_dlLink_def dl_save_def)

lemma dl_load_read [simp]: "ds_tbf (dl_load i t) = tk_dlTbf t i"
  by (simp add: dl_load_def)

section \<open>Control messages\<close>

lemma counts_same_info:
  assumes "pool_ok p"
  shows "same_info p (DecSignallingRTSCount trx ts p)" "0 \<le> k \<Longrightarrow> same_info p (IncSignallingRTSCount trx ts k p)"
  unfolding DecSignallingRTSCount_def IncSignallingRTSCount_def
  by (rule on_ts_same_info [OF assms]; simp add: ts_ok_def Timeslot_DecSignallingRTSCount_def Timeslot_IncSignallingRTSCount_def Let_def)+

lemma queue_same_info:
  assumes "pool_ok p"
  shows "TSPool_QueueDLSignallingMsg trx ts m p = (st, m', p') \<Longrightarrow> same_info p p'"
    "TSPool_DequeueDLSignallingMsg trx ts p = (r, p') \<Longrightarrow> same_info p p'"
  using Queue_pool_ok [OF assms] Dequeue_pool_ok [OF assms] assms
  by (auto simp: TSPool_QueueDLSignallingMsg_def TSPool_DequeueDLSignallingMsg_def same_info_def get_put_other Let_def
      split: if_splits prod.splits)

lemma usf_loop_ok:
  assumes ok: "sched_ok c t" and v: "IsTrxTsValid trx ts"
  shows "\<exists>usf t'. usf_loop trx ts t = Some (usf, t') \<and> kept c t t'"
proof -
  note T = sched_okD [OF ok]
  let ?st = "\<lambda>i. tbf_state (ulTbf t i)"
  obtain r p where r: "ScheduleRLCBlock UL ?st trx ts (tsPool t) = Some (r, p)" "queues_ok (precs c) p"
    "\<forall>d t' s. IsTrxTsValid t' s \<longrightarrow> sq_queue (slot_queue d t' s p) = sq_queue (slot_queue d t' s (tsPool t))"
    and u: "\<forall>u. r = Some u \<longrightarrow> u \<in> sq_users (slot_queue UL trx ts (tsPool t))"
    using Schedule_ok [OF T(7) v, of UL ?st] by blast
  have p: "kept c t (set_tsPool p t)" using r by (simp add: kept_def same_sched_def)
  show ?thesis
  proof (cases r)
    case None
    then show ?thesis using r(1) p by (subst usf_loop.simps) simp
  next
    case (Some i)
    have "nat ts \<in> slots (tbf_allocatedTs (ulTbf t i))"
      using u Some T(4) v by (auto simp: dir_ok_def dest: heldD)
    then have "tbf_state (ulTbf t i) \<noteq> FREE" using T(6) [of i] by (auto simp: no_slot_def)
    then have "kept c t ((set_tsPool p t)\<lparr>tk_ul := save i (snd (IncrementN3101 (load i (tk_ul (set_tsPool p t))))) (tk_ul (set_tsPool p t))\<rparr>)"
      using p by (auto simp: kept_def IncrementN3101_def Let_def UL_SetTbfState_def same_use_def)
    then show ?thesis using r(1) Some by (subst usf_loop.simps) (simp add: IncrementN3101_def Let_def)
  qed
qed

lemma set_pool_kept:
  assumes "sched_ok c t" "same_info (tsPool t) p"
  shows "kept c t (set_tsPool p t)"
  using same_sched_info [OF sched_okD(7) [OF assms(1)] assms(2)] by (simp add: kept_def)

lemma SendPacchMsg_ok:
  assumes ok: "sched_ok c t" and v: "IsTrxTsValid trx ts"
  shows "\<exists>st t'. SendPacchMsg trx ts msg tag burst t = Some (st, t') \<and> kept c t t'"
proof -
  obtain usf t1 where t1: "(if GetSignallingRTSCount trx ts (tsPool t) > 0 then usf_loop trx ts t else Some (0, t)) = Some (usf, t1)"
    "kept c t t1"
    using usf_loop_ok [OF ok v] kept_refl [OF ok] by (cases "GetSignallingRTSCount trx ts (tsPool t) > 0") auto
  have ok1: "sched_ok c t1" by (rule kept_sched_ok [OF ok t1(2)])
  let ?m = "\<lparr>pr_usf = usf, pr_msg = msg, pr_tbf = tag, pr_burstType = burst\<rparr>"
  show ?thesis
  proof (cases "GetSignallingRTSCount trx ts (tsPool t1) > 0")
    case True
    let ?t = "task_emit [PacchMsg trx ts ?m] t1"
    have k: "kept c t1 ?t" by (rule same_tbfs [OF ok1]) simp_all
    have "same_info (tsPool ?t) (DecSignallingRTSCount trx ts (tsPool t1))"
      using counts_same_info(1) [OF sched_okD(8) [OF ok1]] by simp
    from set_pool_kept [OF kept_sched_ok [OF ok1 k] this]
    have "kept c t (set_tsPool (DecSignallingRTSCount trx ts (tsPool t1)) ?t)"
      using t1(2) k kept_trans by blast
    then show ?thesis using t1(1) True by (simp add: SendPacchMsg_def)
  next
    case False
    obtain st m' p where q: "TSPool_QueueDLSignallingMsg trx ts ?m (tsPool t1) = (st, m', p)" by (rule prod_cases3)
    have "kept c t1 (set_tsPool p t1)" by (rule set_pool_kept [OF ok1 queue_same_info(1) [OF sched_okD(8) [OF ok1] q]])
    then have "kept c t (set_tsPool p t1)" using t1(2) kept_trans by blast
    then show ?thesis using t1(1) False q by (simp add: SendPacchMsg_def)
  qed
qed

end
