(* ===== verification/TaskUplink.thy ===== *)
theory TaskUplink
  imports TaskState
begin

text \<open>
  Uplink resource requests on a consistent task: they always return, keep the invariant and touch no downlink TBF.
\<close>

section \<open>Steps of one uplink TBF\<close>

definition ul_step :: "int \<Rightarrow> addr \<Rightarrow> Task \<Rightarrow> Task \<Rightarrow> bool" where
  "ul_step c i t t' \<longleftrightarrow> sched_ok c t' \<and> (\<forall>v. same_use (tk_dlTbf t v) (tk_dlTbf t' v)) \<and>
     (\<forall>v. v \<noteq> i \<longrightarrow> same_use (ulTbf t v) (ulTbf t' v))"

lemma ul_step_trans: "ul_step c i t t1 \<Longrightarrow> ul_step c i t1 t2 \<Longrightarrow> ul_step c i t t2"
  unfolding ul_step_def using same_use_trans by metis

lemma ul_step_kept: "ul_step c i t t1 \<Longrightarrow> kept c t1 t2 \<Longrightarrow> ul_step c i t t2"
  unfolding ul_step_def kept_def using same_use_trans kept_sched_ok kept_def by metis

lemma ul_step_refl: "sched_ok c t \<Longrightarrow> ul_step c i t t"
  by (simp add: ul_step_def)

lemma ul_step_task_ok:
  assumes "task_ok c t" "ul_step c i t t'" "used_ok (ulTbf t' i)"
  shows "task_ok c t'"
proof -
  have "used_ok (ulTbf t' v)" for v
    using assms task_okD(3) [OF assms(1), of v] used_ok_use [of "ulTbf t v" "ulTbf t' v"] by (cases "v = i") (auto simp: ul_step_def)
  moreover have "used_ok (tk_dlTbf t' v)" for v
    using assms(2) task_okD(2) [OF assms(1), of v] used_ok_use [of "tk_dlTbf t v" "tk_dlTbf t' v"] by (auto simp: ul_step_def)
  ultimately show ?thesis using assms(2) by (simp add: task_ok_def ul_step_def)
qed

lemma dir_ok_slots:
  assumes "dir_ok prec dir (h, p)" "tbf_trx u = tbf_trx (h i)" "tbf_allocatedTs u = tbf_allocatedTs (h i)"
    "tbf_naturalTs u = tbf_naturalTs (h i)"
  shows "dir_ok prec dir (h(i := u), p)"
  using assms by (simp add: dir_ok_def held_def tbf_ok_def)

text \<open>A change of one uplink TBF that holds nothing.\<close>

lemma ul_change:
  assumes ok: "sched_ok c t" and t': "ulTbf t' = (ulTbf t)(i := u)" "tk_dlTbf t' = tk_dlTbf t" "tsPool t' = tsPool t"
    and u: "dir_ok (precs c) UL ((ulTbf t)(i := u), tsPool t)" "tbf_state u = FREE \<longrightarrow> no_slot u"
  shows "ul_step c i t t'"
  using sched_okD [OF ok] t' u by (simp add: ul_step_def sched_ok_def)

lemma ul_sched_step:
  assumes ok: "sched_ok c t" and f: "f (ulTbf t, tsPool t) = Some (b, h', p')"
    and h': "dir_ok (precs c) UL (h', p')" "moved UL i (ulTbf t, tsPool t) (h', p')"
    and free: "tbf_state (ulTbf t i) = FREE \<longrightarrow> no_slot (h' i)"
  shows "\<exists>t'. ul_sched f t = Some (b, t') \<and> ul_step c i t t' \<and> ulTbf t' = h' \<and> tsPool t' = p' \<and> tk_dlTbf t' = tk_dlTbf t"
proof -
  note S = sched_okD [OF ok] and M = movedD [OF h'(2)]
  let ?t = "t\<lparr>tk_ul := (tk_ul t)\<lparr>sy_tbf := h', sy_tsPool := p'\<rparr>\<rparr>"
  have D: "dir_ok (precs c) DL (tk_dlTbf t, p')"
    using dir_ok_other [OF S(3) _ M(1)] h'(1) by (simp add: dir_ok_def)
  have "no_slot (h' v)" if "tbf_state (h' v) = FREE" for v
    using that S(6) [of v] M(2) [of v] M(3) free by (cases "v = i") (simp_all add: same_id_def)
  then have "sched_ok c ?t" using S(1,2,5) D h'(1) by (simp add: sched_ok_def)
  then have "ul_step c i t ?t" using M(2) by (simp add: ul_step_def)
  then show ?thesis using f by (simp add: ul_sched_def)
qed

lemma ul_release:
  assumes ok: "sched_ok c t"
  shows "\<exists>t'. ULTbf_ReleaseULTbf i t = Some t' \<and> ul_step c i t t' \<and> tbf_state (ulTbf t' i) = FREE \<and> no_slot (ulTbf t' i)"
proof -
  note S = sched_okD [OF ok]
  obtain h' p' where r: "DeallocateUser ul_branch UL i (ulTbf t, tsPool t) = Some (h', p')" "dir_ok (precs c) UL (h', p')"
    "moved UL i (ulTbf t, tsPool t) (h', p')" "no_slot (h' i)"
    using ul.release_moves [OF S(4) precs_ok_UL] by blast
  obtain t1 where t1: "ul_sched (\<lambda>x. map_option (Pair True) (ULReleaseResourceRequest i x)) t = Some (True, t1)"
    "ul_step c i t t1" "ulTbf t1 = h'" "tsPool t1 = p'"
    using ul_sched_step [where f = "\<lambda>x. map_option (Pair True) (ULReleaseResourceRequest i x)", OF ok _ r(2,3)] r(1,4)
    unfolding ULReleaseResourceRequest_def by auto
  let ?t2 = "SendULDeactivationMsg i t1"
  let ?t3 = "set_ulTbf i ((ulTbf ?t2 i)\<lparr>tbf_state := FREE\<rparr>) ?t2"
  have ok1: "sched_ok c t1" using t1(2) by (simp add: ul_step_def)
  have k: "kept c t1 ?t2" by (rule same_tbfs [OF ok1]) (simp_all add: SendULDeactivationMsg_def)
  have ok2: "sched_ok c ?t2" by (rule kept_sched_ok [OF ok1 k])
  have u: "ulTbf ?t2 = h'" "tsPool ?t2 = p'" using t1 by (simp_all add: SendULDeactivationMsg_def)
  have "dir_ok (precs c) UL (h'(i := (h' i)\<lparr>tbf_state := FREE\<rparr>), p')" by (rule dir_ok_slots [OF r(2)]) simp_all
  then have "ul_step c i ?t2 ?t3"
    by (intro ul_change [OF ok2, where u = "(ulTbf ?t2 i)\<lparr>tbf_state := FREE\<rparr>"]) (use u r(4) in \<open>simp_all add: no_slot_def\<close>)
  then have "ul_step c i t ?t3" using t1(2) k ul_step_kept ul_step_trans by blast
  then show ?thesis using t1(1) u r(4) by (simp add: ULTbf_ReleaseULTbf_def no_slot_def)
qed

section \<open>Establishment and requests\<close>

lemma EstablishULTbf_tbf:
  "ulTbf (EstablishULTbf tlli req ra i t) = (ulTbf t)(i := (UL_ClearControlAckTag (EstablishULTbf_clear ((ulTbf t i)\<lparr>tbf_tlli := tlli\<rparr>)))\<lparr>tbf_state := ALLOCATED\<rparr>)"
  "tk_dlTbf (EstablishULTbf tlli req ra i t) = tk_dlTbf t" "tsPool (EstablishULTbf tlli req ra i t) = tsPool t"
  by (auto simp: EstablishULTbf_def Let_def UL_SetTbfState_def EstablishRLCLink_def set_ulTbf_def)

lemma establish_ul:
  assumes ok: "sched_ok c t" and none: "no_slot (ulTbf t i)"
  shows "ul_step c i t (EstablishULTbf tlli req ra i t)"
    "tbf_state (ulTbf (EstablishULTbf tlli req ra i t) i) = ALLOCATED" "no_slot (ulTbf (EstablishULTbf tlli req ra i t) i)"
    "tbf_tlli (ulTbf (EstablishULTbf tlli req ra i t) i) = tlli"
proof -
  note S = sched_okD [OF ok]
  let ?u = "(UL_ClearControlAckTag (EstablishULTbf_clear ((ulTbf t i)\<lparr>tbf_tlli := tlli\<rparr>)))\<lparr>tbf_state := ALLOCATED\<rparr>"
  have u: "tbf_allocatedTs ?u = replicate MAX_TIMESLOTS False" "tbf_trx ?u = NULL_TRX" "tbf_naturalTs ?u = tbf_naturalTs (ulTbf t i)"
    by (simp_all add: UL_ClearControlAckTag_def EstablishULTbf_clear_def)
  have d: "dir_ok (precs c) UL ((ulTbf t)(i := ?u), tsPool t)"
    by (rule clear_ok [OF S(4) none [unfolded no_slot_def] u(3,1,2)])
  show "ul_step c i t (EstablishULTbf tlli req ra i t)"
    by (rule ul_change [OF ok EstablishULTbf_tbf d]) simp
  show "tbf_state (ulTbf (EstablishULTbf tlli req ra i t) i) = ALLOCATED" "no_slot (ulTbf (EstablishULTbf tlli req ra i t) i)"
    "tbf_tlli (ulTbf (EstablishULTbf tlli req ra i t) i) = tlli"
    using u(1) by (simp_all add: EstablishULTbf_tbf no_slot_def slots_def UL_ClearControlAckTag_def EstablishULTbf_clear_def)
qed

text \<open>The bytes that the scheduler needs.\<close>

definition cell_ok :: "Cell \<Rightarrow> bool" where
  "cell_ok ce \<longleftrightarrow> length (raw_cands (ce_raw ce)) = MAX_MULTI_CONFIG_CANDIDATES"

lemma UL_qos_ok: "cell_ok ce \<Longrightarrow> qos_ok (precs c) UL i (ce_raw ce) (UL_Qos ce req ra)"
  by (simp add: cell_ok_def qos_ok_def precs_def UL_Qos_def limit_def)

definition granted_ok :: "'a Tbf_scheme \<Rightarrow> bool" where
  "granted_ok u \<longleftrightarrow> IsTrxValid (tbf_trx u) \<and> \<not> no_slot u \<and> natural_ok u"

lemma ul_request:
  assumes ok: "sched_ok c t" and none: "no_slot (ulTbf t i)" and used: "tbf_state (ulTbf t i) \<noteq> FREE" and ce: "cell_ok ce"
    and opp: "\<forall>a. opp = Some a \<longrightarrow> length a = MAX_TIMESLOTS" "trx = NULL_TRX \<or> IsTrxValid trx"
    and k: "natural_class (class_index (UL_Qos ce req ra))"
    and f: "f (ulTbf t, tsPool t) = run_request (AllocateUser ul_branch (ce_grr ce)) True
      (new_request (ce_raw ce) (UL_Qos ce req ra) i UL opp) (copy_trx i trx (ulTbf t), tsPool t)"
  shows "\<exists>b t'. ul_sched f t = Some (b, t') \<and> ul_step c i t t' \<and> same_id (ulTbf t) (ulTbf t') \<and> tk_dlTbf t' = tk_dlTbf t \<and>
     (if b then granted_ok (ulTbf t' i) \<and> (trx \<noteq> NULL_TRX \<longrightarrow> tbf_trx (ulTbf t' i) = trx) else no_slot (ulTbf t' i))"
proof -
  note S = sched_okD [OF ok]
  let ?h = "copy_trx i trx (ulTbf t)"
  have d: "dir_ok (precs c) UL (?h, tsPool t)" by (rule copy_trx_ok [OF S(4) _ opp(2)]) (use none in \<open>simp add: no_slot_def\<close>)
  have n: "no_slot (?h i)" using none by (simp add: no_slot_def)
  obtain b h' p' where r: "run_request (AllocateUser ul_branch (ce_grr ce)) True
      (new_request (ce_raw ce) (UL_Qos ce req ra) i UL opp) (?h, tsPool t) = Some (b, h', p')"
    "dir_ok (precs c) UL (h', p')" "moved UL i (?h, tsPool t) (h', p')"
    and o: "if b then grant_ok (ce_grr ce) (UL_Qos ce req ra) UL (tbf_trx (h' i)) (slots (tbf_allocatedTs (h' i)))
          (case opp of None \<Rightarrow> {} | Some a \<Rightarrow> slots a) \<and> (trx \<noteq> NULL_TRX \<longrightarrow> tbf_trx (h' i) = trx)
      else no_slot (h' i)"
    using ul.request_moves [where u = i and g = "ce_grr ce", OF d precs_ok_UL UL_qos_ok [OF ce] opp(1) n branch_id_ul]
    unfolding copy_trx_simps by metis
  note M = movedD [OF r(3)]
  have id: "same_id (ulTbf t) h'" using M(3) copy_trx_id by (simp add: same_id_def)
  have "moved UL i (ulTbf t, tsPool t) (h', p')"
    by (rule movedI [OF M(1) _ id]) (use M(2) in \<open>simp add: copy_trx_def\<close>)
  then obtain t' where "ul_sched f t = Some (b, t')" "ul_step c i t t'" "ulTbf t' = h'" "tk_dlTbf t' = tk_dlTbf t"
    using ul_sched_step [where f = f, OF ok f [unfolded r(1)] r(2)] used by blast
  moreover have "natural_ok (h' i)" if b
    by (rule ul.request_natural [where opp = opp, OF d precs_ok_UL UL_qos_ok [OF ce] opp(1) n k]) (use r(1) that in simp)
  ultimately show ?thesis using id o by (auto simp: granted_ok_def grant_ok_def no_slot_def)
qed

lemma ul_reallocation:
  assumes ok: "sched_ok c t" and g: "granted_ok (ulTbf t i)" and used: "tbf_state (ulTbf t i) \<noteq> FREE" and ce: "cell_ok ce"
    and k: "natural_class (class_index (UL_Qos ce req ra))" and cl: "class_ok (ce_schar ce) (UL_Qos ce req ra)"
  shows "\<exists>b t'. ul_sched (ULResourceReallocRequest (ce_schar ce) (ce_raw ce) (ce_grr ce) (UL_Qos ce req ra) i) t = Some (b, t') \<and>
     ul_step c i t t' \<and> same_id (ulTbf t) (ulTbf t') \<and> tk_dlTbf t' = tk_dlTbf t \<and> granted_ok (ulTbf t' i)"
proof -
  note S = sched_okD [OF ok]
  have v: "IsTrxValid (tbf_trx (ulTbf t i))" "\<not> no_slot (ulTbf t i)" using g by (simp_all add: granted_ok_def)
  obtain b h' p' where r: "run_request (AllocateUserIfBetterQoS ul_branch (ce_grr ce)) True
      (new_request (ce_raw ce) (UL_Qos ce req ra) i UL None) (ulTbf t, tsPool t) = Some (b, h', p')"
    "dir_ok (precs c) UL (h', p')" "moved UL i (ulTbf t, tsPool t) (h', p')" "tbf_trx (h' i) = tbf_trx (ulTbf t i)" "\<not> no_slot (h' i)"
    using ul.realloc_moves [where u = i and g = "ce_grr ce", OF S(4) precs_ok_UL UL_qos_ok [OF ce] _ v branch_id_ul, of None] by fastforce
  obtain t' where "ul_sched (ULResourceReallocRequest (ce_schar ce) (ce_raw ce) (ce_grr ce) (UL_Qos ce req ra) i) t = Some (b, t')"
    "ul_step c i t t'" "ulTbf t' = h'" "tk_dlTbf t' = tk_dlTbf t"
    using ul_sched_step [OF ok _ r(2,3), where f = "ULResourceReallocRequest (ce_schar ce) (ce_raw ce) (ce_grr ce) (UL_Qos ce req ra) i"]
      r(1) used ce by (auto simp: run_request_schar [OF cl] ULResourceReallocRequest_def)
  moreover have "natural_ok (h' i)" by (rule ul.realloc_natural [OF S(4) precs_ok_UL UL_qos_ok [OF ce] v(1) k r(1)])
  ultimately show ?thesis using r(4,5) v movedD(3) [OF r(3)] by (simp add: granted_ok_def)
qed

section \<open>The uplink requests of a mobile\<close>

lemma emit_kept: "sched_ok c t \<Longrightarrow> kept c t (task_emit es t)"
  by (rule same_tbfs) simp_all

lemma access_reject:
  assumes "sched_ok c t" "IsTrxTsValid trx ts"
  shows "\<exists>t'. SendPacketAccessReject trx ts who t = Some t' \<and> kept c t t'"
  using SendPacchMsg_ok [OF assms] unfolding SendPacketAccessReject_def by fastforce

lemma uplink_assignment:
  assumes ok: "sched_ok c t" and v: "IsTrxTsValid trx ts"
  shows "\<exists>t'. SendPacketUplinkAssignment ce trx ts i who t = Some t' \<and> kept c t t'"
proof -
  let ?asn = "\<lparr>ua_tai = tbf_tai (ulTbf t i), ua_taiTs = tbf_taiTs (ulTbf t i), ua_tsc = ce_tsc ce trx (nat ts),
    ua_arfcn = ce_arfcn ce trx (nat ts), ua_tfi = tbf_tfi (ulTbf t i),
    ua_usf = map (\<lambda>k. if tbf_allocatedTs (ulTbf t i) ! k then Some (ul_usf (ulTbf t i) ! k) else None) [0..<MAX_TIMESLOTS]\<rparr>"
  obtain st t1 where t1: "SendPacchMsg trx ts (PacketUplinkAssignment who ?asn) CTL_ACK_TAG_NOT_APPLICABLE RLC_MAC_NORMAL_BURST t = Some (st, t1)"
    "kept c t t1" using SendPacchMsg_ok [OF ok v] by blast
  have "kept c t (task_emit es t1)" for es
    using t1(2) emit_kept [OF kept_sched_ok [OF ok t1(2)]] kept_trans by blast
  then show ?thesis using t1(1) by (simp add: SendPacketUplinkAssignment_def Let_def)
qed

lemma ts_data_kept: "sched_ok c t \<Longrightarrow> kept c t (on_ulLink i UL_UpdateTSSpecificData t)"
  by (rule same_tbfs) (simp_all add: UL_UpdateTSSpecificData_def)

lemma told:
  assumes ok: "sched_ok c t" and v: "IsTrxTsValid trx ts"
  shows "\<exists>t'. SendPacketUplinkAssignment ce trx ts i who (task_emit es (on_ulLink i UL_UpdateTSSpecificData t)) = Some t' \<and> kept c t t'"
proof -
  have k: "kept c t (task_emit es (on_ulLink i UL_UpdateTSSpecificData t))"
    using ts_data_kept [OF ok] emit_kept kept_sched_ok [OF ok] kept_trans by blast
  show ?thesis using uplink_assignment [OF kept_sched_ok [OF ok k] v] k kept_trans by blast
qed

lemma granted_used: "granted_ok u \<Longrightarrow> tbf_state u \<noteq> FREE \<Longrightarrow> used_ok u"
  by (simp add: granted_ok_def used_ok_def)

lemma kept_ul_used: "kept c t t' \<Longrightarrow> used_ok (ulTbf t i) \<Longrightarrow> used_ok (ulTbf t' i)"
  using kept_used(1) by blast

text \<open>Granted or refused: in the end the TBF holds slots, or it is free again.\<close>

lemma answer_ok:
  assumes ok: "sched_ok c t" and v: "IsTrxTsValid trx ts" and b: "b \<Longrightarrow> used_ok (ulTbf t i)"
  shows "\<exists>t'. answer_request ce trx ts who i b t = Some t' \<and> ul_step c i t t' \<and> used_ok (ulTbf t' i)"
proof (cases b)
  case True
  then show ?thesis
    using told [OF ok v] b kept_ul_used ul_step_kept [OF ul_step_refl [OF ok]]
    unfolding answer_request_def SendULActivationMsg_def by (metis (no_types, lifting))
next
  case False
  obtain t1 where t1: "SendPacketAccessReject trx ts who t = Some t1" "kept c t t1" using access_reject [OF ok v] by blast
  obtain t2 where t2: "ULTbf_ReleaseULTbf i t1 = Some t2" "ul_step c i t1 t2" "tbf_state (ulTbf t2 i) = FREE" "no_slot (ulTbf t2 i)"
    using ul_release [OF kept_sched_ok [OF ok t1(2)]] by blast
  have "ul_step c i t t2" using ul_step_kept [OF ul_step_refl [OF ok] t1(2)] t2(2) ul_step_trans by blast
  then show ?thesis using False t1(1) t2 by (simp add: answer_request_def used_ok_def)
qed

lemma first_freeD: "first_free_tbf h = Some i \<Longrightarrow> tbf_state (h i) = FREE \<and> i < MAX_TBFS"
  unfolding first_free_tbf_def find_Some_iff by (metis add_0 diff_zero length_upt nth_upt)

lemma find_usedD: "find_used P h = Some i \<Longrightarrow> tbf_state (h i) \<noteq> FREE \<and> P (h i) \<and> i < MAX_TBFS"
  unfolding find_used_def find_Some_iff by (metis add_0 diff_zero length_upt nth_upt)

text \<open>Where a request was served: the invariant, and every downlink TBF where it was.\<close>

definition ul_served :: "int \<Rightarrow> Task \<Rightarrow> Task \<Rightarrow> bool" where
  "ul_served c t t' \<longleftrightarrow> task_ok c t' \<and> (\<forall>v. same_use (tk_dlTbf t v) (tk_dlTbf t' v))"

lemma ul_served_kept: "task_ok c t \<Longrightarrow> kept c t t' \<Longrightarrow> ul_served c t t'"
  using kept_task_ok by (simp add: ul_served_def kept_def)

lemma ul_served_step: "task_ok c t \<Longrightarrow> ul_step c i t t' \<Longrightarrow> used_ok (ulTbf t' i) \<Longrightarrow> ul_served c t t'"
  using ul_step_task_ok by (simp add: ul_served_def ul_step_def)

lemma ul_served_trans: "ul_served c t t1 \<Longrightarrow> ul_served c t1 t2 \<Longrightarrow> ul_served c t t2"
  unfolding ul_served_def using same_use_trans by metis

lemma new_uplink:
  assumes ok: "task_ok c t" and i: "first_free_tbf (ulTbf t) = Some i" and v: "IsTrxTsValid trx ts" and ce: "cell_ok ce"
    and opp: "\<forall>a. opp = Some a \<longrightarrow> length a = MAX_TIMESLOTS" "r = NULL_TRX \<or> IsTrxValid r"
    and k: "natural_class (class_index (UL_Qos ce req ra))"
    and f: "f (ulTbf (EstablishULTbf tlli req ra i t), tsPool t) = run_request (AllocateUser ul_branch (ce_grr ce)) True
      (new_request (ce_raw ce) (UL_Qos ce req ra) i UL opp) (copy_trx i r (ulTbf (EstablishULTbf tlli req ra i t)), tsPool t)"
  shows "\<exists>t'. Option.bind (ul_sched f (EstablishULTbf tlli req ra i t)) (\<lambda>(granted, t). answer_request ce trx ts who i granted t) = Some t' \<and>
     ul_served c t t'"
proof -
  note S = task_okD(1) [OF ok]
  have none: "no_slot (ulTbf t i)" using sched_okD(6) [OF S] first_freeD [OF i] by blast
  let ?t1 = "EstablishULTbf tlli req ra i t"
  note E = establish_ul [OF S none, of tlli req ra]
  have ok1: "sched_ok c ?t1" using E(1) by (simp add: ul_step_def)
  have u: "tbf_state (ulTbf ?t1 i) \<noteq> FREE" using E(2) by simp
  obtain b t2 where t2: "ul_sched f ?t1 = Some (b, t2)" "ul_step c i ?t1 t2" "same_id (ulTbf ?t1) (ulTbf t2)"
    "if b then granted_ok (ulTbf t2 i) \<and> (r \<noteq> NULL_TRX \<longrightarrow> tbf_trx (ulTbf t2 i) = r) else no_slot (ulTbf t2 i)"
    using ul_request [where f = f, OF ok1 E(3) u ce opp k f [folded EstablishULTbf_tbf(3) [of tlli req ra i t]]] by blast
  have g: "used_ok (ulTbf t2 i)" if b
    by (rule granted_used) (use that t2(3,4) E(2) in \<open>simp_all add: same_id_def\<close>)
  have ok2: "sched_ok c t2" using t2(2) by (simp add: ul_step_def)
  obtain t3 where t3: "answer_request ce trx ts who i b t2 = Some t3" "ul_step c i t2 t3" "used_ok (ulTbf t3 i)"
    using answer_ok [where b = b and i = i, OF ok2 v g] by blast
  have "ul_step c i t t3" using E(1) t2(2) t3(2) ul_step_trans by blast
  then show ?thesis using t2(1) t3(1,3) ul_served_step [OF ok] by simp
qed

lemma copy_null [simp]: "tbf_trx (h i) = r \<Longrightarrow> copy_trx i r h = h"
  by (auto simp: copy_trx_def)

lemma establish_trx: "tbf_trx (ulTbf (EstablishULTbf tlli req ra i t) i) = NULL_TRX"
  by (simp add: EstablishULTbf_tbf UL_ClearControlAckTag_def EstablishULTbf_clear_def)

lemma reallocated_uplink:
  assumes ok: "task_ok c t" and i: "tbf_state (ulTbf t i) \<noteq> FREE" and v: "IsTrxTsValid trx ts" and ce: "cell_ok ce"
    and k: "natural_class (class_index (UL_Qos ce req ra))" and cl: "class_ok (ce_schar ce) (UL_Qos ce req ra)"
  shows "\<exists>t'. Option.bind (ul_sched (ULResourceReallocRequest (ce_schar ce) (ce_raw ce) (ce_grr ce) (UL_Qos ce req ra) i) (ReallocateTbf req ra i t))
      (\<lambda>(granted, t). if granted
               then SendPacketUplinkAssignment ce trx ts i who (SendULReconfigurationMsg i (on_ulLink i UL_UpdateTSSpecificData t))
               else SendPacketAccessReject trx ts who t) = Some t' \<and> ul_served c t t'"
proof -
  let ?t1 = "ReallocateTbf req ra i t"
  have k1: "kept c t ?t1" by (rule same_tbfs [OF task_okD(1) [OF ok]]) (simp_all add: ReallocateTbf_def)
  have ok1: "task_ok c ?t1" by (rule kept_task_ok [OF ok k1])
  have u: "tbf_state (ulTbf ?t1 i) \<noteq> FREE" using i by (simp add: ReallocateTbf_def)
  have g: "granted_ok (ulTbf ?t1 i)" using task_okD(3) [OF ok1, of i] u by (simp add: used_ok_def granted_ok_def)
  obtain b t2 where t2: "ul_sched (ULResourceReallocRequest (ce_schar ce) (ce_raw ce) (ce_grr ce) (UL_Qos ce req ra) i) ?t1 = Some (b, t2)"
    "ul_step c i ?t1 t2" "same_id (ulTbf ?t1) (ulTbf t2)" "granted_ok (ulTbf t2 i)"
    using ul_reallocation [OF task_okD(1) [OF ok1] g u ce k cl] by blast
  have "used_ok (ulTbf t2 i)" by (rule granted_used) (use t2(3,4) u in \<open>simp_all add: same_id_def\<close>)
  then have s: "ul_served c t t2" using ul_served_kept [OF ok k1] ul_served_step [OF ok1 t2(2)] ul_served_trans by blast
  have ok2: "task_ok c t2" using s by (simp add: ul_served_def)
  note S2 = task_okD(1) [OF ok2]
  have "\<exists>t3. (if b then SendPacketUplinkAssignment ce trx ts i who (SendULReconfigurationMsg i (on_ulLink i UL_UpdateTSSpecificData t2))
               else SendPacketAccessReject trx ts who t2) = Some t3 \<and> kept c t2 t3"
    using told [OF S2 v] access_reject [OF S2 v] unfolding SendULReconfigurationMsg_def by simp
  then show ?thesis using t2(1) s ul_served_kept [OF ok2] ul_served_trans by fastforce
qed

lemma uplink_request_served:
  assumes ok: "task_ok c t" and v: "IsTrxTsValid trx ts" and ce: "cell_ok ce"
    and k: "natural_class (class_index (UL_Qos ce (rr_chanReq msg) (rr_raCapability msg)))"
    and cl: "class_ok (ce_schar ce) (UL_Qos ce (rr_chanReq msg) (rr_raCapability msg))"
  shows "\<exists>t'. AllocateULResources ce msg trx ts t = Some t' \<and> ul_served c t t'"
proof -
  let ?req = "rr_chanReq msg" and ?ra = "rr_raCapability msg"
  have reject: "\<exists>t'. SendPacketAccessReject trx ts who t = Some t' \<and> ul_served c t t'" if "task_ok c t" for who t
    using access_reject [OF task_okD(1) [OF that] v] ul_served_kept [OF that] by blast
  have len: "length (tbf_allocatedTs (tk_dlTbf t d)) = MAX_TIMESLOTS" for d
    using sched_okD(3) [OF task_okD(1) [OF ok]] by (auto simp: dir_ok_def tbf_ok_def)
  consider (ul) tfi where "rr_globalTfi msg = Some (UPLINK_TFI, tfi)" | (dl) tfi where "rr_globalTfi msg = Some (DOWNLINK_TFI, tfi)"
    | (tlli) "rr_globalTfi msg = None"
    by (cases "rr_globalTfi msg") (auto, metis TFI_TYPE.exhaust)
  then show ?thesis
  proof cases
    case ul
    then show ?thesis
      using reject [OF ok] reallocated_uplink [OF ok _ v ce k cl] find_usedD [of _ "ulTbf t"]
      by (auto simp: AllocateULResources_def Let_def FindTbf_tfi_def split: option.split)
  next
    case dl
    show ?thesis
    proof (cases "FindTbf_tfi tfi (tk_dlTbf t)")
      case None
      then show ?thesis using dl reject [OF ok] by (simp add: AllocateULResources_def)
    next
      case d: (Some d)
      then have "used_ok (tk_dlTbf t d)" "tbf_state (tk_dlTbf t d) \<noteq> FREE"
        using task_okD(2) [OF ok] find_usedD [of _ "tk_dlTbf t"] by (auto simp: FindTbf_tfi_def)
      then have r: "tbf_trx (tk_dlTbf t d) = NULL_TRX \<or> IsTrxValid (tbf_trx (tk_dlTbf t d))" by (simp add: used_ok_def)
      show ?thesis
      proof (cases "first_free_tbf (ulTbf t)")
        case None
        then show ?thesis using dl d reject [OF ok] by (simp add: AllocateULResources_def TbfPool_EstablishULTbf_def)
      next
        case (Some i)
        let ?f = "ULResourceRequest_with (ce_schar ce) (ce_raw ce) (ce_grr ce) (UL_Qos ce ?req ?ra) i (tk_dlTbf t d)"
        let ?tlli = "tbf_tlli (tk_dlTbf t d)"
        have e: "AllocateULResources ce msg trx ts t = Option.bind (ul_sched ?f (EstablishULTbf ?tlli ?req ?ra i t))
            (\<lambda>(granted, t). answer_request ce trx ts (MsGlobalTfi DOWNLINK_TFI tfi) i granted t)"
          using dl d Some by (simp add: AllocateULResources_def TbfPool_EstablishULTbf_def Let_def EstablishULTbf_tbf(2))
        show ?thesis
          unfolding e by (rule new_uplink [OF ok Some v ce _ r k, where opp = "Some (tbf_allocatedTs (tk_dlTbf t d))"])
            (use len in \<open>simp_all add: run_request_schar [OF cl] ULResourceRequest_with_def\<close>)
      qed
    qed
  next
    case tlli
    obtain t1 where t1: "(case FindTbf_tlli (rr_tlli msg) (ulTbf t) of None \<Rightarrow> Some t | Some i \<Rightarrow> ULTbf_ReleaseULTbf i t) = Some t1" "ul_served c t t1"
    proof (cases "FindTbf_tlli (rr_tlli msg) (ulTbf t)")
      case None
      then show ?thesis using that ok by (simp add: ul_served_def)
    next
      case (Some i)
      then show ?thesis using that ul_release [OF task_okD(1) [OF ok], of i] ul_served_step [OF ok] by (auto simp: used_ok_def)
    qed
    have ok1: "task_ok c t1" using t1(2) by (simp add: ul_served_def)
    show ?thesis
    proof (cases "first_free_tbf (ulTbf t1)")
      case None
      then show ?thesis using tlli t1 reject [OF ok1] ul_served_trans by (fastforce simp: AllocateULResources_def TbfPool_EstablishULTbf_def)
    next
      case (Some i)
      let ?f = "ULResourceRequest (ce_schar ce) (ce_raw ce) (ce_grr ce) (UL_Qos ce ?req ?ra) i"
      have e: "AllocateULResources ce msg trx ts t = Option.bind (ul_sched ?f (EstablishULTbf (rr_tlli msg) ?req ?ra i t1))
          (\<lambda>(granted, t). answer_request ce trx ts (MsTlli (rr_tlli msg)) i granted t)"
        using tlli t1(1) Some by (simp add: AllocateULResources_def TbfPool_EstablishULTbf_def Let_def)
      have "\<exists>t'. AllocateULResources ce msg trx ts t = Some t' \<and> ul_served c t1 t'"
        unfolding e by (rule new_uplink [OF ok1 Some v ce _ _ k, where opp = None and r = NULL_TRX])
          (simp_all add: run_request_schar [OF cl] ULResourceRequest_def establish_trx)
      then show ?thesis using t1(2) ul_served_trans by blast
    qed
  qed
qed

end
