(* ===== verification/TaskSignalling.thy ===== *)
theory TaskSignalling
  imports TaskUplink
begin

text \<open>
  The control channel of the task: what waits in a timeslot's queue is sent when layer 1 is ready, and the abnormal
  release of all TBFs of a timeslot, a transceiver or the cell.
\<close>

section \<open>The count of ready-to-send indications\<close>

lemma count_dequeue:
  assumes "pool_ok p" "TSPool_DequeueDLSignallingMsg trx ts p = (m, p')"
  shows "GetSignallingRTSCount trx ts p' = GetSignallingRTSCount trx ts p" "GetDataRTSCount trx ts p' = GetDataRTSCount trx ts p"
  using assms get_put_ts [OF assms(1)]
  by (auto simp: TSPool_DequeueDLSignallingMsg_def GetSignallingRTSCount_def GetDataRTSCount_def Let_def split: if_splits prod.splits)

lemma count_schedule:
  assumes "pool_ok p" "ScheduleRLCBlock dir tst trx ts p = Some (r, p')"
  shows "GetSignallingRTSCount trx ts p' = GetSignallingRTSCount trx ts p"
  using assms get_put_ts [OF assms(1)]
  by (auto simp: ScheduleRLCBlock_def GetSignallingRTSCount_def on_info_def on_ts_def Let_def split: bind_splits)

lemma count_dec:
  assumes "pool_ok p" "IsTrxTsValid trx ts"
  shows "GetSignallingRTSCount trx ts (DecSignallingRTSCount trx ts p) = max 0 (GetSignallingRTSCount trx ts p - 1)"
  using assms get_put_ts [OF assms]
  by (auto simp: GetSignallingRTSCount_def DecSignallingRTSCount_def on_ts_def Timeslot_DecSignallingRTSCount_def Let_def)

text \<open>The USF loop always ends in its first round.\<close>

definition usf_result :: "int \<Rightarrow> addr option \<Rightarrow> Task \<Rightarrow> octet \<times> Task" where
  "usf_result ts r t =
     (case r of None \<Rightarrow> (0, t) | Some i \<Rightarrow> (ul_usf (ulTbf t i) ! nat ts, on_ulLink i (\<lambda>s. snd (IncrementN3101 s)) t))"

lemma usf_loop_once:
  "usf_loop trx ts t = do {
     (r, p) \<leftarrow> ScheduleRLCBlock UL (\<lambda>i. tbf_state (ulTbf t i)) trx ts (tsPool t);
     Some (usf_result ts r (set_tsPool p t))
   }"
proof (cases "ScheduleRLCBlock UL (\<lambda>i. tbf_state (ulTbf t i)) trx ts (tsPool t)")
  case None
  then show ?thesis by (subst usf_loop.simps) simp
next
  case (Some rp)
  obtain r p where rp: "rp = (r, p)" by fastforce
  show ?thesis
  proof (cases r)
    case None
    then show ?thesis using Some rp by (subst usf_loop.simps) (simp add: usf_result_def)
  next
    case i: (Some i)
    have u: "ul_usf (us_tbf (snd (IncrementN3101 s))) = ul_usf (us_tbf s)" for s
      by (simp add: IncrementN3101_def Let_def UL_SetTbfState_def)
    obtain s where inc: "IncrementN3101 (load i (tk_ul (set_tsPool p t))) = (True, s)"
      by (simp add: IncrementN3101_def Let_def)
    show ?thesis
      using Some rp i inc u [of "load i (tk_ul (set_tsPool p t))"]
      by (subst usf_loop.simps) (simp add: usf_result_def on_ulLink_def Let_def)
  qed
qed

lemma usf_result_read:
  "tk_dlTbf (snd (usf_result ts r t)) = tk_dlTbf t" "tk_out (snd (usf_result ts r t)) = tk_out t"
  "tsPool (snd (usf_result ts r t)) = tsPool t" "tk_T3195 (snd (usf_result ts r t)) = tk_T3195 t"
  by (simp_all add: usf_result_def on_ulLink_def split: option.split)

section \<open>TBFs that wind down\<close>

text \<open>A TBF keeps its state, or it is inactive and the timer runs that will release it; no such timer is stopped.\<close>

definition winding :: "Task \<Rightarrow> Task \<Rightarrow> bool" where
  "winding t t' \<longleftrightarrow>
     (\<forall>v. tbf_state (ulTbf t' v) = tbf_state (ulTbf t v) \<or> tbf_state (ulTbf t' v) = INACTIVE \<and> sy_T3169 (tk_ul t') v) \<and>
     (\<forall>v. tbf_state (tk_dlTbf t' v) = tbf_state (tk_dlTbf t v) \<or> tbf_state (tk_dlTbf t' v) = INACTIVE \<and> tk_T3195 t' v) \<and>
     (\<forall>v. sy_T3169 (tk_ul t) v \<longrightarrow> sy_T3169 (tk_ul t') v) \<and> (\<forall>v. tk_T3195 t v \<longrightarrow> tk_T3195 t' v)"

lemma winding_refl [simp]: "winding t t"
  by (simp add: winding_def)

lemma winding_trans: "winding t t1 \<Longrightarrow> winding t1 t2 \<Longrightarrow> winding t t2"
  unfolding winding_def by metis

lemma winding_same:
  assumes "ulTbf t' = ulTbf t" "tk_dlTbf t' = tk_dlTbf t" "sy_T3169 (tk_ul t') = sy_T3169 (tk_ul t)" "tk_T3195 t' = tk_T3195 t"
  shows "winding t t'"
  using assms by (simp add: winding_def)

lemma winding_pool [simp]: "winding t (set_tsPool p t)" "winding t (task_emit es t)"
  by (rule winding_same; simp add: set_tsPool_def task_emit_def)+

lemma winding_usf: "winding t (snd (usf_result ts r t))"
  by (auto simp: winding_def usf_result_def on_ulLink_def save_def load_def IncrementN3101_def Let_def UL_SetTbfState_def split: option.split)

text \<open>The two ways a control message takes: sent at once, or queued.\<close>

definition pacch_out :: "int \<Rightarrow> int \<Rightarrow> PacchReq \<Rightarrow> Task \<Rightarrow> JC_STATUS \<times> Task" where
  "pacch_out trx ts m t =
     (if GetSignallingRTSCount trx ts (tsPool t) > 0
      then (JC_OK, set_tsPool (DecSignallingRTSCount trx ts (tsPool t)) (task_emit [PacchMsg trx ts m] t))
      else (case TSPool_QueueDLSignallingMsg trx ts m (tsPool t) of (status, _, p) \<Rightarrow> (status, set_tsPool p t)))"

lemma SendPacchMsg_split:
  assumes "SendPacchMsg trx ts msg tag burst t = Some (st, t')"
  obtains usf t1 where "(if GetSignallingRTSCount trx ts (tsPool t) > 0 then usf_loop trx ts t else Some (0, t)) = Some (usf, t1)"
    "(st, t') = pacch_out trx ts \<lparr>pr_usf = usf, pr_msg = msg, pr_tbf = tag, pr_burstType = burst\<rparr> t1"
proof -
  obtain usf t1 where 1: "(if GetSignallingRTSCount trx ts (tsPool t) > 0 then usf_loop trx ts t else Some (0, t)) = Some (usf, t1)"
    using assms unfolding SendPacchMsg_def by (cases "if GetSignallingRTSCount trx ts (tsPool t) > 0 then usf_loop trx ts t else Some (0, t)") auto
  show ?thesis by (rule that [OF 1]) (use assms 1 in \<open>simp add: SendPacchMsg_def pacch_out_def Let_def\<close>)
qed

lemma winding_out: "winding t (snd (pacch_out trx ts m t))"
  using winding_trans [OF winding_pool(2) winding_pool(1)] by (simp add: pacch_out_def split: prod.split)

lemma SendPacchMsg_winding:
  assumes "SendPacchMsg trx ts msg tag burst t = Some (st, t')"
  shows "winding t t'"
  using assms
proof (rule SendPacchMsg_split)
  fix usf t1
  assume 1: "(if GetSignallingRTSCount trx ts (tsPool t) > 0 then usf_loop trx ts t else Some (0, t)) = Some (usf, t1)"
    and 2: "(st, t') = pacch_out trx ts \<lparr>pr_usf = usf, pr_msg = msg, pr_tbf = tag, pr_burstType = burst\<rparr> t1"
  have "winding t t1"
  proof (cases "GetSignallingRTSCount trx ts (tsPool t) > 0")
    case True
    then obtain r p where "usf_result ts r (set_tsPool p t) = (usf, t1)" using 1 by (auto simp: usf_loop_once split: bind_splits)
    then have "t1 = snd (usf_result ts r (set_tsPool p t))" by simp
    then show ?thesis using winding_trans [OF winding_pool(1) winding_usf] by simp
  qed (use 1 in simp)
  moreover have "t' = snd (pacch_out trx ts \<lparr>pr_usf = usf, pr_msg = msg, pr_tbf = tag, pr_burstType = burst\<rparr> t1)" using 2 by (metis snd_conv)
  ultimately show ?thesis using winding_out winding_trans by blast
qed

section \<open>Abnormal release\<close>

lemma natural_selection:
  assumes "natural_ok u" "length (tbf_naturalTs u) = MAX_TIMESLOTS"
  obtains ts where "TSSelectionRequest u = (True, tbf_trx u, Some ts)" "ts < MAX_TIMESLOTS"
proof (cases "List.find (\<lambda>ts. tbf_naturalTs u ! ts) [0..<MAX_TIMESLOTS]")
  case None
  then show ?thesis using assms by (auto simp: natural_ok_def slots_def find_None_iff)
next
  case (Some ts)
  then have "ts < MAX_TIMESLOTS" unfolding find_Some_iff by force
  then show ?thesis using that Some by (simp add: TSSelectionRequest_def GetNaturalSlot_def)
qed

lemma TSSelectionRequest_same:
  "tbf_naturalTs u' = tbf_naturalTs u \<Longrightarrow> tbf_trx u' = tbf_trx u \<Longrightarrow> TSSelectionRequest u' = TSSelectionRequest u"
  by (simp add: TSSelectionRequest_def GetNaturalSlot_def split: option.split)

text \<open>A TBF is told on one of its natural slots.\<close>

lemma told_on:
  assumes "used_ok u" "tbf_state u \<noteq> FREE" "tbf_ok u"
  obtains ts where "TSSelectionRequest (u\<lparr>tbf_state := st\<rparr>) = (True, tbf_trx u, Some ts)" "IsTrxTsValid (tbf_trx u) (int ts)"
proof -
  obtain ts where ts: "TSSelectionRequest u = (True, tbf_trx u, Some ts)" "ts < MAX_TIMESLOTS"
    using natural_selection [of u] assms by (auto simp: tbf_ok_def used_ok_def)
  have "TSSelectionRequest (u\<lparr>tbf_state := st\<rparr>) = TSSelectionRequest u" by (rule TSSelectionRequest_same) simp_all
  then show ?thesis using that ts assms(1,2) by (simp add: used_ok_def IsTrxTsValid_def IsTrxValid_def)
qed

lemma abnormal_ul:
  assumes ok: "task_ok c t" and i: "tbf_state (ulTbf t i) \<noteq> FREE"
  shows "\<exists>t'. AbnormalReleaseULTbf i t = Some t' \<and> kept c t t' \<and> winding t t' \<and> tbf_state (ulTbf t' i) = INACTIVE \<and> sy_T3169 (tk_ul t') i"
proof -
  let ?t1 = "set_ulTbf i ((ulTbf t i)\<lparr>tbf_state := INACTIVE\<rparr>) t"
  note S = task_okD(1) [OF ok]
  have k1: "kept c t ?t1" using kept_refl [OF S] i by (simp add: kept_def same_use_def)
  have S1: "sched_ok c ?t1" by (rule kept_sched_ok [OF S k1])
  have b: "tbf_ok (ulTbf t i)" using sched_okD(4) [OF S] by (simp add: dir_ok_def)
  obtain ts where ts: "TSSelectionRequest ((ulTbf t i)\<lparr>tbf_state := INACTIVE\<rparr>) = (True, tbf_trx (ulTbf t i), Some ts)"
    and v: "IsTrxTsValid (tbf_trx (ulTbf t i)) (int ts)"
    by (rule told_on [OF task_okD(3) [OF ok] i b])
  obtain st t2 where t2: "SendPacchMsg (tbf_trx (ulTbf t i)) (int ts) (PacketTBFRelease UPLINK_TFI (tfi_val (tbf_tfi (ulTbf t i))))
      CTL_ACK_TAG_NOT_APPLICABLE RLC_MAC_NORMAL_BURST ?t1 = Some (st, t2)" "kept c ?t1 t2"
    using SendPacchMsg_ok [OF S1 v] by blast
  let ?t3 = "t2\<lparr>tk_ul := (tk_ul t2)\<lparr>sy_T3169 := (sy_T3169 (tk_ul t2))(i := True)\<rparr>\<rparr>"
  have k3: "kept c t2 ?t3" by (rule same_tbfs [OF kept_sched_ok [OF S1 t2(2)]]) simp_all
  note w = SendPacchMsg_winding [OF t2(1)]
  have "AbnormalReleaseULTbf i t = Some ?t3"
    using t2(1) ts by (simp add: AbnormalReleaseULTbf_def SendPacketTBFRelease_def)
  moreover have "kept c t ?t3" using k1 t2(2) k3 kept_trans by blast
  moreover have "winding t ?t3" "tbf_state (ulTbf ?t3 i) = INACTIVE" "sy_T3169 (tk_ul ?t3) i"
    using w by (auto simp: winding_def set_ulTbf_def split: if_splits)
  ultimately show ?thesis by blast
qed

lemma abnormal_dl:
  assumes ok: "task_ok c t" and i: "tbf_state (tk_dlTbf t i) \<noteq> FREE"
  shows "\<exists>t'. AbnormalReleaseDLTbf i t = Some t' \<and> kept c t t' \<and> winding t t' \<and> tbf_state (tk_dlTbf t' i) = INACTIVE \<and> tk_T3195 t' i"
proof -
  let ?t1 = "set_dlTbf i ((tk_dlTbf t i)\<lparr>tbf_state := INACTIVE\<rparr>) t"
  note S = task_okD(1) [OF ok]
  have k1: "kept c t ?t1" using kept_refl [OF S] i by (simp add: kept_def same_use_def)
  have S1: "sched_ok c ?t1" by (rule kept_sched_ok [OF S k1])
  have b: "tbf_ok (tk_dlTbf t i)" using sched_okD(3) [OF S] by (simp add: dir_ok_def)
  obtain ts where ts: "TSSelectionRequest ((tk_dlTbf t i)\<lparr>tbf_state := INACTIVE\<rparr>) = (True, tbf_trx (tk_dlTbf t i), Some ts)"
    and v: "IsTrxTsValid (tbf_trx (tk_dlTbf t i)) (int ts)"
    by (rule told_on [OF task_okD(2) [OF ok] i b])
  obtain st t2 where t2: "SendPacchMsg (tbf_trx (tk_dlTbf t i)) (int ts) (PacketTBFRelease DOWNLINK_TFI (tfi_val (tbf_tfi (tk_dlTbf t i))))
      CTL_ACK_TAG_NOT_APPLICABLE RLC_MAC_NORMAL_BURST ?t1 = Some (st, t2)" "kept c ?t1 t2"
    using SendPacchMsg_ok [OF S1 v] by blast
  let ?t3 = "t2\<lparr>tk_T3195 := (tk_T3195 t2)(i := True)\<rparr>"
  have k3: "kept c t2 ?t3" by (rule same_tbfs [OF kept_sched_ok [OF S1 t2(2)]]) simp_all
  note w = SendPacchMsg_winding [OF t2(1)]
  have "AbnormalReleaseDLTbf i t = Some ?t3"
    using t2(1) ts by (simp add: AbnormalReleaseDLTbf_def SendPacketTBFRelease_def)
  moreover have "kept c t ?t3" using k1 t2(2) k3 kept_trans by blast
  moreover have "winding t ?t3" "tbf_state (tk_dlTbf ?t3 i) = INACTIVE" "tk_T3195 ?t3 i"
    using w by (auto simp: winding_def set_dlTbf_def split: if_splits)
  ultimately show ?thesis by blast
qed

text \<open>A TBF that the release has reached, in either direction.\<close>

definition down_ul :: "Task \<Rightarrow> addr \<Rightarrow> bool" where
  "down_ul t i \<longleftrightarrow> tbf_state (ulTbf t i) = INACTIVE \<and> sy_T3169 (tk_ul t) i"

definition down_dl :: "Task \<Rightarrow> addr \<Rightarrow> bool" where
  "down_dl t i \<longleftrightarrow> tbf_state (tk_dlTbf t i) = INACTIVE \<and> tk_T3195 t i"

lemma winding_down: "winding t t' \<Longrightarrow> down_ul t i \<Longrightarrow> down_ul t' i" "winding t t' \<Longrightarrow> down_dl t i \<Longrightarrow> down_dl t' i"
  unfolding winding_def down_ul_def down_dl_def by metis+

definition chosen :: "(int \<Rightarrow> bool list \<Rightarrow> bool) \<Rightarrow> 'a Tbf_scheme \<Rightarrow> bool" where
  "chosen sel u \<longleftrightarrow> tbf_state u \<noteq> FREE \<and> sel (tbf_trx u) (tbf_allocatedTs u)"

lemma chosen_use: "same_use u u' \<Longrightarrow> chosen sel u' = chosen sel u"
  by (simp add: same_use_def chosen_def)

lemma kept_use: "kept c t t' \<Longrightarrow> same_use (ulTbf t i) (ulTbf t' i)" "kept c t t' \<Longrightarrow> same_use (tk_dlTbf t i) (tk_dlTbf t' i)"
  by (simp_all add: kept_def)

lemma release_loop_ok:
  assumes "task_ok c t"
  shows "\<exists>t'. release_loop_tbfs sel is t = Some t' \<and> kept c t t' \<and> winding t t' \<and>
     (\<forall>i \<in> set is. (chosen sel (ulTbf t i) \<longrightarrow> down_ul t' i) \<and> (chosen sel (tk_dlTbf t i) \<longrightarrow> down_dl t' i))"
  using assms
proof (induction "is" arbitrary: t)
  case Nil
  then show ?case using kept_refl [OF task_okD(1)] by simp
next
  case (Cons i "is")
  obtain t1 where t1: "(if chosen sel (ulTbf t i) then AbnormalReleaseULTbf i t else Some t) = Some t1" "kept c t t1" "winding t t1"
    "chosen sel (ulTbf t i) \<longrightarrow> down_ul t1 i"
  proof (cases "chosen sel (ulTbf t i)")
    case True
    then show ?thesis using that abnormal_ul [OF Cons.prems, of i] by (auto simp: chosen_def down_ul_def)
  qed (use that kept_refl [OF task_okD(1) [OF Cons.prems]] in simp)
  have ok1: "task_ok c t1" by (rule kept_task_ok [OF Cons.prems t1(2)])
  have u1: "chosen sel (tk_dlTbf t1 i) = chosen sel (tk_dlTbf t i)"
    using chosen_use kept_use(2) [OF t1(2)] by blast
  obtain t2 where t2: "(if chosen sel (tk_dlTbf t1 i) then AbnormalReleaseDLTbf i t1 else Some t1) = Some t2" "kept c t1 t2" "winding t1 t2"
    "chosen sel (tk_dlTbf t i) \<longrightarrow> down_dl t2 i"
  proof (cases "chosen sel (tk_dlTbf t1 i)")
    case True
    then show ?thesis using that abnormal_dl [OF ok1, of i] u1 by (auto simp: chosen_def down_dl_def)
  qed (use that kept_refl [OF task_okD(1) [OF ok1]] u1 in simp)
  have k: "kept c t t2" "winding t t2" using t1 t2 kept_trans winding_trans by blast+
  have u2: "chosen sel (ulTbf t2 v) = chosen sel (ulTbf t v)"
    "chosen sel (tk_dlTbf t2 v) = chosen sel (tk_dlTbf t v)" for v
    using chosen_use kept_use [OF k(1)] by blast+
  obtain t3 where t3: "release_loop_tbfs sel is t2 = Some t3" "kept c t2 t3" "winding t2 t3"
    "\<forall>v \<in> set is. (chosen sel (ulTbf t v) \<longrightarrow> down_ul t3 v) \<and> (chosen sel (tk_dlTbf t v) \<longrightarrow> down_dl t3 v)"
    using Cons.IH [OF kept_task_ok [OF Cons.prems k(1)]] unfolding u2 by auto
  have "release_loop_tbfs sel (i # is) t = Some t3" using t1(1) t2(1) t3(1) by (simp add: chosen_def)
  moreover have "kept c t t3" "winding t t3" using k t3(2,3) kept_trans winding_trans by blast+
  moreover have "chosen sel (ulTbf t i) \<longrightarrow> down_ul t3 i" "chosen sel (tk_dlTbf t i) \<longrightarrow> down_dl t3 i"
    using t1(4) t2(3,4) t3(3) winding_down by blast+
  ultimately show ?case using t3(4) by (intro exI [of _ t3]) auto
qed

section \<open>Ready to send\<close>

text \<open>The buffer of a timeslot's queue, but for the flags that are ORed in.\<close>

definition plain :: "PacchReq \<Rightarrow> PacchReq" where
  "plain m = m\<lparr>pr_usf := 0\<rparr>"

lemma plain_msg [simp]: "pr_msg (plain m) = pr_msg m"
  by (simp add: plain_def)

definition sig_buffer :: "int \<Rightarrow> int \<Rightarrow> Task \<Rightarrow> PacchReq list" where
  "sig_buffer trx ts t = map plain (dq_pacchMsg (ts_sysDLSigMsgQ (get_ts trx ts (tsPool t))))"

abbreviation sig_count :: "int \<Rightarrow> int \<Rightarrow> Task \<Rightarrow> int" where
  "sig_count trx ts t \<equiv> GetSignallingRTSCount trx ts (tsPool t)"

lemma buffer_dequeue:
  assumes "pool_ok p" "TSPool_DequeueDLSignallingMsg trx ts p = (m, p')"
  shows "dq_pacchMsg (ts_sysDLSigMsgQ (get_ts trx ts p')) = dq_pacchMsg (ts_sysDLSigMsgQ (get_ts trx ts p))"
  using assms get_put_ts [OF assms(1)]
  by (auto simp: TSPool_DequeueDLSignallingMsg_def DequeueDLSignallingMsg_def Let_def split: if_splits prod.splits)

lemma buffer_queue:
  assumes "pool_ok p" "TSPool_QueueDLSignallingMsg trx ts x p = (st, m, p')"
  shows "dq_pacchMsg (ts_sysDLSigMsgQ (get_ts trx ts p')) = dq_pacchMsg (ts_sysDLSigMsgQ (get_ts trx ts p))"
    "IsTrxTsValid trx ts \<Longrightarrow> st = JC_OK"
  using assms get_put_ts [OF assms(1)]
  by (auto simp: TSPool_QueueDLSignallingMsg_def QueueDLSignallingMsg_def Let_def split: if_splits prod.splits)

lemma buffer_schedule:
  assumes "pool_ok p" "IsTrxTsValid trx ts" "ScheduleRLCBlock dir tst trx ts p = Some (r, p')"
  shows "dq_pacchMsg (ts_sysDLSigMsgQ (get_ts trx ts p')) = dq_pacchMsg (ts_sysDLSigMsgQ (get_ts trx ts p))"
  using assms get_put_ts [OF assms(1,2)]
  by (auto simp: ScheduleRLCBlock_def on_info_def on_ts_def Let_def split: bind_splits)

lemma buffer_dec:
  assumes "pool_ok p" "IsTrxTsValid trx ts"
  shows "dq_pacchMsg (ts_sysDLSigMsgQ (get_ts trx ts (DecSignallingRTSCount trx ts p))) = dq_pacchMsg (ts_sysDLSigMsgQ (get_ts trx ts p))"
    "dq_pacchMsg (ts_sysDLSigMsgQ (get_ts trx ts (IncSignallingRTSCount trx ts k p))) = dq_pacchMsg (ts_sysDLSigMsgQ (get_ts trx ts p))"
  using assms get_put_ts [OF assms]
  by (auto simp: DecSignallingRTSCount_def IncSignallingRTSCount_def on_ts_def Timeslot_DecSignallingRTSCount_def
      Timeslot_IncSignallingRTSCount_def Let_def)

text \<open>One message goes out.\<close>

lemma usf_loop_out:
  assumes ok: "sched_ok c t" and v: "IsTrxTsValid trx ts"
  shows "\<exists>usf t'. usf_loop trx ts t = Some (usf, t') \<and> kept c t t' \<and> winding t t' \<and> tk_out t' = tk_out t \<and>
     sig_count trx ts t' = sig_count trx ts t \<and> sig_buffer trx ts t' = sig_buffer trx ts t"
proof -
  note p = sched_okD(8) [OF ok]
  obtain usf t' where u: "usf_loop trx ts t = Some (usf, t')" "kept c t t'" using usf_loop_ok [OF ok v] by blast
  then obtain r p' where r: "ScheduleRLCBlock UL (\<lambda>i. tbf_state (ulTbf t i)) trx ts (tsPool t) = Some (r, p')"
    "usf_result ts r (set_tsPool p' t) = (usf, t')" by (auto simp: usf_loop_once split: bind_splits)
  have t': "t' = snd (usf_result ts r (set_tsPool p' t))" using r(2) by simp
  have "winding t t'" unfolding t' using winding_trans [OF winding_pool(1) winding_usf] .
  moreover have "tsPool t' = p'" "tk_out t' = tk_out t" unfolding t' usf_result_read by (simp_all add: set_tsPool_def)
  ultimately show ?thesis
    using u count_schedule [OF p r(1)] buffer_schedule [OF p v r(1)] by (simp add: sig_buffer_def)
qed

lemma SendPacchMsg_now:
  assumes ok: "sched_ok c t" and v: "IsTrxTsValid trx ts" and n: "sig_count trx ts t > 0"
  shows "\<exists>usf t'. SendPacchMsg trx ts msg tag burst t = Some (JC_OK, t') \<and> kept c t t' \<and> winding t t' \<and>
     tk_out t' = tk_out t @ [PacchMsg trx ts \<lparr>pr_usf = usf, pr_msg = msg, pr_tbf = tag, pr_burstType = burst\<rparr>] \<and>
     sig_count trx ts t' = sig_count trx ts t - 1 \<and> sig_buffer trx ts t' = sig_buffer trx ts t"
proof -
  obtain st t' where s: "SendPacchMsg trx ts msg tag burst t = Some (st, t')" "kept c t t'" using SendPacchMsg_ok [OF ok v] by blast
  obtain usf t1 where u: "usf_loop trx ts t = Some (usf, t1)" "kept c t t1" "tk_out t1 = tk_out t"
    "sig_count trx ts t1 = sig_count trx ts t" "sig_buffer trx ts t1 = sig_buffer trx ts t" using usf_loop_out [OF ok v] by blast
  note p = sched_okD(8) [OF kept_sched_ok [OF ok u(2)]]
  let ?t2 = "task_emit [PacchMsg trx ts \<lparr>pr_usf = usf, pr_msg = msg, pr_tbf = tag, pr_burstType = burst\<rparr>] t1"
  have "SendPacchMsg trx ts msg tag burst t = Some (JC_OK, set_tsPool (DecSignallingRTSCount trx ts (tsPool t1)) ?t2)"
    using u n by (simp add: SendPacchMsg_def)
  moreover have "tk_out (set_tsPool q ?t2) = tk_out t @ [PacchMsg trx ts \<lparr>pr_usf = usf, pr_msg = msg, pr_tbf = tag, pr_burstType = burst\<rparr>]" for q
    using u(3) by (simp add: set_tsPool_def task_emit_def)
  ultimately show ?thesis
    using s u n count_dec [OF p v] buffer_dec(1) [OF p v] SendPacchMsg_winding [OF s(1)]
    by (intro exI [of _ usf] exI [of _ t']) (simp add: sig_buffer_def)
qed

text \<open>What a run of the loop sends: slots of the buffer, or one dummy block.\<close>

definition sends_stored :: "int \<Rightarrow> int \<Rightarrow> PacchReq list \<Rightarrow> mac_event \<Rightarrow> bool" where
  "sends_stored trx ts buf e \<longleftrightarrow> (\<exists>m. e = PacchMsg trx ts m \<and> (plain m \<in> set buf \<or> pr_msg m = PacketDownlinkDummyControlBlock))"

definition rts_run :: "int \<Rightarrow> int \<Rightarrow> int \<Rightarrow> Task \<Rightarrow> Task \<Rightarrow> bool" where
  "rts_run c trx ts t t' \<longleftrightarrow> kept c t t' \<and> winding t t' \<and> sig_buffer trx ts t' = sig_buffer trx ts t \<and>
     (\<exists>es. tk_out t' = tk_out t @ es \<and> int (length es) + sig_count trx ts t' = sig_count trx ts t \<and>
        (\<forall>e \<in> set es. sends_stored trx ts (sig_buffer trx ts t) e))"

lemma rts_run_trans:
  assumes "rts_run c trx ts t t1" "rts_run c trx ts t1 t2"
  shows "rts_run c trx ts t t2"
proof -
  obtain es1 es2 where "tk_out t1 = tk_out t @ es1" "int (length es1) + sig_count trx ts t1 = sig_count trx ts t"
    "\<forall>e \<in> set es1. sends_stored trx ts (sig_buffer trx ts t) e"
    "tk_out t2 = tk_out t1 @ es2" "int (length es2) + sig_count trx ts t2 = sig_count trx ts t1"
    "\<forall>e \<in> set es2. sends_stored trx ts (sig_buffer trx ts t1) e"
    and b: "sig_buffer trx ts t1 = sig_buffer trx ts t" using assms unfolding rts_run_def by blast
  then have "tk_out t2 = tk_out t @ es1 @ es2 \<and> int (length (es1 @ es2)) + sig_count trx ts t2 = sig_count trx ts t \<and>
    (\<forall>e \<in> set (es1 @ es2). sends_stored trx ts (sig_buffer trx ts t) e)" by auto
  moreover have "kept c t t2" "winding t t2" using assms kept_trans winding_trans unfolding rts_run_def by blast+
  ultimately show ?thesis using assms b unfolding rts_run_def by metis
qed

lemma rts_run_refl: "sched_ok c t \<Longrightarrow> rts_run c trx ts t t"
  using kept_refl by (simp add: rts_run_def)

lemma rts_run_step:
  assumes "kept c t t'" "winding t t'" "sig_buffer trx ts t' = sig_buffer trx ts t" "tk_out t' = tk_out t"
    "sig_count trx ts t' = sig_count trx ts t"
  shows "rts_run c trx ts t t'"
  using assms by (simp add: rts_run_def)

lemma dummy_run:
  assumes ok: "sched_ok c t" and v: "IsTrxTsValid trx ts"
  shows "\<exists>b t'. SendDownlinkDummyControlBlock trx ts t = Some (b, t') \<and> rts_run c trx ts t t'"
proof (cases "sig_count trx ts t \<ge> 2 \<and> GetDataRTSCount trx ts (tsPool t) \<ge> 1 \<and> AnyActiveTBF trx (nat ts) t")
  case True
  then have n: "sig_count trx ts t > 0" by simp
  obtain usf t' where "SendPacchMsg trx ts PacketDownlinkDummyControlBlock CTL_ACK_TAG_NOT_APPLICABLE RLC_MAC_NORMAL_BURST t = Some (JC_OK, t')"
    "kept c t t'" "winding t t'"
    "tk_out t' = tk_out t @ [PacchMsg trx ts \<lparr>pr_usf = usf, pr_msg = PacketDownlinkDummyControlBlock, pr_tbf = CTL_ACK_TAG_NOT_APPLICABLE,
       pr_burstType = RLC_MAC_NORMAL_BURST\<rparr>]"
    "sig_count trx ts t' = sig_count trx ts t - 1" "sig_buffer trx ts t' = sig_buffer trx ts t"
    using SendPacchMsg_now [OF ok v n] by blast
  then show ?thesis using True by (auto simp: SendDownlinkDummyControlBlock_def rts_run_def sends_stored_def)
next
  case False
  then show ?thesis using rts_run_refl [OF ok] by (auto simp: SendDownlinkDummyControlBlock_def)
qed

lemma dequeue_run:
  assumes ok: "sched_ok c t" and v: "IsTrxTsValid trx ts" and d: "TSPool_DequeueDLSignallingMsg trx ts (tsPool t) = (m, p)"
  shows "rts_run c trx ts t (set_tsPool p t)" "\<And>k. m = Some k \<Longrightarrow> k < 5"
proof -
  note p = sched_okD(8) [OF ok]
  have "kept c t (set_tsPool p t)" by (rule set_pool_kept [OF ok queue_same_info(2) [OF p d]])
  then show "rts_run c trx ts t (set_tsPool p t)"
    using count_dequeue(1) [OF p d] buffer_dequeue [OF p d]
    by (intro rts_run_step) (simp_all add: sig_buffer_def, simp add: set_tsPool_def)
  have q: "dq_qTail (ts_sysDLSigMsgQ (get_ts trx ts (tsPool t))) < 5" using get_ts_ok [OF p v] by (auto simp: ts_ok_def dlq_ok_def)
  have m: "m = fst (DequeueDLSignallingMsg (ts_sysDLSigMsgQ (get_ts trx ts (tsPool t))))"
    using d v by (simp add: TSPool_DequeueDLSignallingMsg_def Let_def split: prod.splits)
  show "k < 5" if "m = Some k" for k
    using that q unfolding m by (simp add: DequeueDLSignallingMsg_def split: if_splits)
qed

lemma or_usf_run:
  assumes ok: "sched_ok c t" and v: "IsTrxTsValid trx ts" and k: "k < length (sig_buffer trx ts t)"
    and t': "t' = set_tsPool (or_usf trx ts k usf (tsPool t)) t"
  shows "rts_run c trx ts t t'" "plain (dq_pacchMsg (ts_sysDLSigMsgQ (get_ts trx ts (tsPool t'))) ! k) \<in> set (sig_buffer trx ts t)"
    "sig_count trx ts t' = sig_count trx ts t"
proof -
  note p = sched_okD(8) [OF ok]
  let ?q = "ts_sysDLSigMsgQ (get_ts trx ts (tsPool t))"
  let ?m = "(dq_pacchMsg ?q ! k)\<lparr>pr_usf := pr_usf (dq_pacchMsg ?q ! k) OR usf\<rparr>"
  have len: "k < length (dq_pacchMsg ?q)" using k by (simp add: sig_buffer_def)
  have g: "get_ts trx ts (tsPool t') = (get_ts trx ts (tsPool t))\<lparr>ts_sysDLSigMsgQ := ?q\<lparr>dq_pacchMsg := (dq_pacchMsg ?q)[k := ?m]\<rparr>\<rparr>"
    using get_put_ts [OF p v] v by (simp add: t' or_usf_def on_ts_def Let_def)
  have pm: "plain ?m = plain (dq_pacchMsg ?q ! k)" by (simp add: plain_def)
  have b: "sig_buffer trx ts t' = sig_buffer trx ts t"
    using len by (simp add: sig_buffer_def g map_update pm list_update_same_conv)
  show c: "sig_count trx ts t' = sig_count trx ts t" by (simp add: GetSignallingRTSCount_def g)
  have "same_info (tsPool t) (or_usf trx ts k usf (tsPool t))"
    unfolding or_usf_def by (rule on_ts_same_info [OF p]) (simp add: ts_ok_def dlq_ok_def Let_def)
  then have "kept c t t'" unfolding t' by (rule set_pool_kept [OF ok])
  moreover have "winding t t'" unfolding t' by (rule winding_pool(1))
  moreover have "tk_out t' = tk_out t" by (simp add: t' set_tsPool_def)
  ultimately show "rts_run c trx ts t t'" using b c by (intro rts_run_step)
  show "plain (dq_pacchMsg (ts_sysDLSigMsgQ (get_ts trx ts (tsPool t'))) ! k) \<in> set (sig_buffer trx ts t)"
    using len by (simp add: g pm sig_buffer_def)
qed

lemma send_run:
  assumes ok: "sched_ok c t" and v: "IsTrxTsValid trx ts" and n: "sig_count trx ts t > 0" and m: "plain m \<in> set (sig_buffer trx ts t)"
    and t': "t' = set_tsPool (DecSignallingRTSCount trx ts (tsPool t)) (task_emit [PacchMsg trx ts m] t)"
  shows "rts_run c trx ts t t'" "sig_count trx ts t' = sig_count trx ts t - 1"
proof -
  note p = sched_okD(8) [OF ok]
  let ?t1 = "task_emit [PacchMsg trx ts m] t"
  have k1: "kept c t ?t1" by (rule emit_kept [OF ok])
  have "same_info (tsPool ?t1) (DecSignallingRTSCount trx ts (tsPool t))" using counts_same_info(1) [OF p] by simp
  from set_pool_kept [OF kept_sched_ok [OF ok k1] this]
  have k: "kept c t t'" unfolding t' using k1 kept_trans by blast
  have w: "winding t t'" unfolding t' using winding_trans [OF winding_pool(2) winding_pool(1)] .
  show c: "sig_count trx ts t' = sig_count trx ts t - 1" using count_dec [OF p v] n by (simp add: t')
  have b: "sig_buffer trx ts t' = sig_buffer trx ts t" using buffer_dec(1) [OF p v] by (simp add: t' sig_buffer_def)
  have "tk_out t' = tk_out t @ [PacchMsg trx ts m]" by (simp add: t' set_tsPool_def task_emit_def)
  then show "rts_run c trx ts t t'" using k w c b m by (auto simp: rts_run_def sends_stored_def)
qed

lemma rts_loop_ok:
  assumes "sched_ok c t" "IsTrxTsValid trx ts" "length (sig_buffer trx ts t) = 5"
  shows "\<exists>t'. rts_loop trx ts t = Some t' \<and> rts_run c trx ts t t'"
  using assms
proof (induction "nat (sig_count trx ts t)" arbitrary: t rule: less_induct)
  case less
  note ok = less.prems(1) and v = less.prems(2)
  obtain m p where d: "TSPool_DequeueDLSignallingMsg trx ts (tsPool t) = (m, p)" by fastforce
  let ?t1 = "set_tsPool p t"
  have r1: "rts_run c trx ts t ?t1" by (rule dequeue_run(1) [OF ok v d])
  have ok1: "sched_ok c ?t1" using kept_sched_ok [OF ok] r1 by (simp add: rts_run_def)
  obtain b t2 where dummy: "SendDownlinkDummyControlBlock trx ts ?t1 = Some (b, t2)" "rts_run c trx ts ?t1 t2"
    using dummy_run [OF ok1 v] by blast
  have fin: ?case if "m = None \<or> \<not> sig_count trx ts ?t1 > 0"
    using that d dummy rts_run_trans [OF r1 dummy(2)] by (subst rts_loop.simps) (auto simp: Let_def split: option.split)
  show ?case
  proof (cases "m = None \<or> \<not> sig_count trx ts ?t1 > 0")
    case False
    then obtain k where k: "m = Some k" and n: "sig_count trx ts ?t1 > 0" by auto
    obtain usf t3 where u: "usf_loop trx ts ?t1 = Some (usf, t3)" "kept c ?t1 t3" "winding ?t1 t3" "tk_out t3 = tk_out ?t1"
      "sig_count trx ts t3 = sig_count trx ts ?t1" "sig_buffer trx ts t3 = sig_buffer trx ts ?t1"
      using usf_loop_out [OF ok1 v] by blast
    have r3: "rts_run c trx ts t t3" by (rule rts_run_trans [OF r1 rts_run_step]) (use u in simp_all)
    have ok3: "sched_ok c t3" by (rule kept_sched_ok [OF ok1 u(2)])
    have buf: "sig_buffer trx ts t3 = sig_buffer trx ts t" using r3 by (simp add: rts_run_def)
    let ?t = "set_tsPool (or_usf trx ts k usf (tsPool t3)) t3"
    have k5: "k < length (sig_buffer trx ts t3)" using dequeue_run(2) [OF ok v d k] less.prems(3) buf by simp
    note o = or_usf_run [OF ok3 v k5 refl, of usf]
    have r5: "rts_run c trx ts t ?t" by (rule rts_run_trans [OF r3 o(1)])
    have ok5: "sched_ok c ?t" using kept_sched_ok [OF ok] r5 by (simp add: rts_run_def)
    let ?m = "dq_pacchMsg (ts_sysDLSigMsgQ (get_ts trx ts (tsPool ?t))) ! k"
    have m: "plain ?m \<in> set (sig_buffer trx ts ?t)" using o(1,2) by (simp add: rts_run_def)
    let ?t4 = "set_tsPool (DecSignallingRTSCount trx ts (tsPool ?t)) (task_emit [PacchMsg trx ts ?m] ?t)"
    have n3: "sig_count trx ts ?t > 0" using n u(5) o(3) by simp
    note s = send_run [OF ok5 v n3 m refl]
    have r4: "rts_run c trx ts t ?t4" by (rule rts_run_trans [OF r5 s(1)])
    have e: "rts_loop trx ts t = (if sig_count trx ts ?t4 = 0 then Some ?t4 else rts_loop trx ts ?t4)"
      using d k n u(1) by (subst rts_loop.simps) (simp add: Let_def)
    have ok4: "sched_ok c ?t4" using kept_sched_ok [OF ok] r4 by (simp add: rts_run_def)
    have len: "length (sig_buffer trx ts ?t4) = 5" using r4 less.prems(3) by (simp add: rts_run_def)
    have n1: "sig_count trx ts ?t1 = sig_count trx ts t" using count_dequeue(1) [OF sched_okD(8) [OF ok] d] by simp
    have "nat (sig_count trx ts ?t4) < nat (sig_count trx ts t)" using s(2) n u(5) o(3) n1 by linarith
    then show ?thesis using less.hyps [OF _ ok4 v len] e r4 rts_run_trans by (cases "sig_count trx ts ?t4 = 0") auto
  qed (rule fin)
qed

lemma inc_run:
  assumes ok: "task_ok c t" and v: "IsTrxTsValid trx ts" and k: "0 \<le> k"
  shows "task_ok c (set_tsPool (IncSignallingRTSCount trx ts k (tsPool t)) t)"
    "sig_buffer trx ts (set_tsPool (IncSignallingRTSCount trx ts k (tsPool t)) t) = sig_buffer trx ts t"
    "sig_count trx ts (set_tsPool (IncSignallingRTSCount trx ts k (tsPool t)) t) \<le> 2"
proof -
  note p = sched_okD(8) [OF task_okD(1) [OF ok]]
  have i: "same_info (tsPool t) (IncSignallingRTSCount trx ts k (tsPool t))" by (rule counts_same_info(2) [OF p k])
  show "task_ok c (set_tsPool (IncSignallingRTSCount trx ts k (tsPool t)) t)"
    by (rule kept_task_ok [OF ok set_pool_kept [OF task_okD(1) [OF ok] i]])
  show "sig_buffer trx ts (set_tsPool (IncSignallingRTSCount trx ts k (tsPool t)) t) = sig_buffer trx ts t"
    using buffer_dec(2) [OF p v] by (simp add: sig_buffer_def)
  show "sig_count trx ts (set_tsPool (IncSignallingRTSCount trx ts k (tsPool t)) t) \<le> 2"
    using get_ts_ok [of "IncSignallingRTSCount trx ts k (tsPool t)" trx ts] i v by (simp add: same_info_def ts_ok_def GetSignallingRTSCount_def)
qed

lemma rts_ind_ok:
  assumes ok: "task_ok c t" and v: "IsTrxTsValid trx ts" and k: "0 \<le> k" and len: "length (sig_buffer trx ts t) = 5"
  shows "\<exists>t' es. ProcessPacchRTSInd trx ts k t = Some t' \<and> task_ok c t' \<and> sig_buffer trx ts t' = sig_buffer trx ts t \<and>
     tk_out t' = tk_out t @ es \<and> length es \<le> 2 \<and> (\<forall>e \<in> set es. sends_stored trx ts (sig_buffer trx ts t) e)"
proof -
  let ?t = "set_tsPool (IncSignallingRTSCount trx ts k (tsPool t)) t"
  note i = inc_run [OF ok v k]
  obtain t' where t': "rts_loop trx ts ?t = Some t'" "rts_run c trx ts ?t t'"
    using rts_loop_ok [OF task_okD(1) [OF i(1)] v] i(2) len by auto
  have ok': "task_ok c t'" using kept_task_ok [OF i(1)] t'(2) by (simp add: rts_run_def)
  then have "0 \<le> sig_count trx ts t'"
    using get_ts_ok [OF sched_okD(8) [OF task_okD(1)] v] v by (simp add: ts_ok_def GetSignallingRTSCount_def)
  moreover obtain es where "tk_out t' = tk_out ?t @ es" "int (length es) + sig_count trx ts t' = sig_count trx ts ?t"
    "\<forall>e \<in> set es. sends_stored trx ts (sig_buffer trx ts ?t) e" "sig_buffer trx ts t' = sig_buffer trx ts ?t"
    using t'(2) unfolding rts_run_def by blast
  moreover have "tk_out ?t = tk_out t" by (simp add: set_tsPool_def)
  ultimately show ?thesis using t'(1) ok' i by (intro exI [of _ t'] exI [of _ es]) (simp add: ProcessPacchRTSInd_def)
qed

text \<open>A sequence of indications.\<close>

fun rts_seq :: "int \<Rightarrow> int \<Rightarrow> int list \<Rightarrow> Task \<Rightarrow> Task option" where
  "rts_seq trx ts [] t = Some t"
| "rts_seq trx ts (k # ks) t = Option.bind (ProcessPacchRTSInd trx ts k t) (rts_seq trx ts ks)"

lemma rts_seq_ok:
  assumes "task_ok c t" "IsTrxTsValid trx ts" "\<forall>k \<in> set ks. 0 \<le> k" "length (sig_buffer trx ts t) = 5"
  shows "\<exists>t' es. rts_seq trx ts ks t = Some t' \<and> task_ok c t' \<and> tk_out t' = tk_out t @ es \<and> length es \<le> 2 * length ks \<and>
     (\<forall>e \<in> set es. sends_stored trx ts (sig_buffer trx ts t) e)"
  using assms
proof (induction ks arbitrary: t)
  case (Cons k ks)
  obtain t1 es1 where t1: "ProcessPacchRTSInd trx ts k t = Some t1" "task_ok c t1" "sig_buffer trx ts t1 = sig_buffer trx ts t"
    "tk_out t1 = tk_out t @ es1" "length es1 \<le> 2" "\<forall>e \<in> set es1. sends_stored trx ts (sig_buffer trx ts t) e"
    using rts_ind_ok [OF Cons.prems(1,2) _ Cons.prems(4), of k] Cons.prems(3) by auto
  obtain t2 es2 where t2: "rts_seq trx ts ks t1 = Some t2" "task_ok c t2" "tk_out t2 = tk_out t1 @ es2" "length es2 \<le> 2 * length ks"
    "\<forall>e \<in> set es2. sends_stored trx ts (sig_buffer trx ts t) e"
    using Cons.IH [OF t1(2) Cons.prems(2)] Cons.prems(3,4) t1(3) by auto
  show ?case using t1 t2 by (intro exI [of _ t2] exI [of _ "es1 @ es2"]) auto
qed simp

text \<open>Queueing a message.\<close>

lemma SendPacchMsg_later:
  assumes ok: "task_ok c t" and v: "IsTrxTsValid trx ts" and n: "sig_count trx ts t = 0"
  shows "\<exists>t'. SendPacchMsg trx ts msg tag burst t = Some (JC_OK, t') \<and> task_ok c t' \<and> tk_out t' = tk_out t \<and>
     sig_buffer trx ts t' = sig_buffer trx ts t"
proof -
  note S = task_okD(1) [OF ok]
  note p = sched_okD(8) [OF S]
  let ?m = "\<lparr>pr_usf = 0, pr_msg = msg, pr_tbf = tag, pr_burstType = burst\<rparr>"
  obtain st m' p' where q: "TSPool_QueueDLSignallingMsg trx ts ?m (tsPool t) = (st, m', p')" by (rule prod_cases3)
  have "task_ok c (set_tsPool p' t)" by (rule kept_task_ok [OF ok set_pool_kept [OF S queue_same_info(1) [OF p q]]])
  moreover have "SendPacchMsg trx ts msg tag burst t = Some (st, set_tsPool p' t)" using q n by (simp add: SendPacchMsg_def)
  ultimately show ?thesis using buffer_queue(1) [OF p q] buffer_queue(2) [OF p q v] by (simp add: sig_buffer_def) (simp add: set_tsPool_def)
qed

end
