(* ===== verification/TaskRuns.thy ===== *)
theory TaskRuns
  imports TaskSignalling DlSegment
begin

text \<open>
  Properties of the task: uplink requests, the blocking of a timeslot, the control channel.
\<close>

section \<open>Sample tasks\<close>

definition old_message :: PacchReq where
  "old_message = \<lparr>pr_usf = 0, pr_msg = PacketTBFRelease UPLINK_TFI 31, pr_tbf = 0, pr_burstType = RLC_MAC_NORMAL_BURST\<rparr>"

text \<open>All TBFs free, a new timeslot pool.\<close>

definition idle_task :: Task where
  "idle_task = (let s = sample_state (\<lambda>_. sample_block 0 0 (replicate 53 0)); d = sample_dl_state 64 [] in
     \<lparr>tk_ul = \<lparr>sy_link = (\<lambda>_. us_link s), sy_tbf = (\<lambda>_. ul_tbf0\<lparr>tbf_state := FREE\<rparr>), sy_T3169 = (\<lambda>_. False), sy_activity = (\<lambda>_. False),
        sy_pool = us_pool s, sy_sysCtlAckCount = 5, sy_rxBuff = (\<lambda>_. True), sy_stack = replicate 1560 0xEE,
        sy_out = [], sy_tsPool = TSPool_new (replicate 5 old_message)\<rparr>,
      tk_chanReq = (\<lambda>_. \<lparr>cr_peakThroughputClass = 1, cr_radioPriority = 0, cr_rlcMode = ACKNOWLEDGED_RLC_MODE\<rparr>),
      tk_raCapability = (\<lambda>_. \<lparr>rc_isValid = False, rc_parts = []\<rparr>),
      tk_dlTbf = (\<lambda>_. dl_tbf0\<lparr>tbf_state := FREE\<rparr>), tk_dlLink = (\<lambda>_. sample_dl_link),
      tk_T3195 = (\<lambda>_. False), tk_T3191 = (\<lambda>_. False), tk_T3193 = (\<lambda>_. False), tk_dlActivity = (\<lambda>_. False),
      tk_dlPool = ds_pool d, tk_dlOut = [], tk_dlQos = (\<lambda>_. \<lparr>dq_mode = ACKNOWLEDGED_RLC_MODE, dq_qos = qos_of 4\<rparr>),
      tk_bssgp = [], tk_rxBuff = (\<lambda>_. []), tk_out = []\<rparr>)"

lemma idle_task_read [simp]:
  "ulTbf idle_task = (\<lambda>_. ul_tbf0\<lparr>tbf_state := FREE\<rparr>)" "tk_dlTbf idle_task = (\<lambda>_. dl_tbf0\<lparr>tbf_state := FREE\<rparr>)"
  "tsPool idle_task = TSPool_new (replicate 5 old_message)" "tk_out idle_task = []"
  by (simp_all add: idle_task_def Let_def)

lemma held_new_pool: "held dir h (TSPool_new buf)"
  by (auto simp: held_def new_pool_users)

lemma idle_tbf:
  "tbf_ok (ul_tbf0\<lparr>tbf_state := FREE\<rparr>)" "no_slot (ul_tbf0\<lparr>tbf_state := FREE\<rparr>)"
  "tbf_ok (dl_tbf0\<lparr>tbf_state := FREE\<rparr>)" "no_slot (dl_tbf0\<lparr>tbf_state := FREE\<rparr>)"
  by (simp_all add: tbf_ok_def no_slot_def ul_tbf0_def dl_tbf0_def)

lemma idle_task_ok: "task_ok 1 idle_task"
  using idle_tbf by (simp add: task_ok_def sched_ok_def used_ok_def dir_ok_def held_new_pool queues_ok_new)

text \<open>TBF 3 holds slot 5 of transceiver 0.\<close>

definition busy_tbf :: ULTbf where
  "busy_tbf = ul_tbf0\<lparr>tbf_trx := 0, tbf_allocatedTs := (replicate 8 False)[5 := True], tbf_naturalTs := (replicate 8 False)[5 := True]\<rparr>"

definition busy_task :: Task where
  "busy_task = set_ulTbf 3 busy_tbf idle_task"

lemma busy_task_ok: "task_ok 1 busy_task"
proof -
  have b: "tbf_ok busy_tbf" "used_ok busy_tbf" "tbf_state busy_tbf = ALLOCATED"
    by (simp_all add: busy_tbf_def tbf_ok_def used_ok_def natural_ok_def no_slot_def ul_tbf0_def slots_update IsTrxValid_def)
  have "ulTbf busy_task = (ulTbf idle_task)(3 := busy_tbf)" "tk_dlTbf busy_task = tk_dlTbf idle_task" "tsPool busy_task = tsPool idle_task"
    by (simp_all add: busy_task_def)
  then show ?thesis
    using idle_task_ok b by (simp add: task_ok_def sched_ok_def dir_ok_def held_new_pool queues_ok_new)
qed

definition sample_cell :: Cell where
  "sample_cell = \<lparr>ce_grr = grr_of [5, 7], ce_accessTechnology = 1, ce_tsc = (\<lambda>_ _. 2), ce_arfcn = (\<lambda>_ _. 515), ce_raw = raw0, ce_schar = True\<rparr>"

lemma sample_cell_ok: "cell_ok sample_cell"
  using samples(1) by (simp add: cell_ok_def sample_cell_def)

section \<open>Properties\<close>

text \<open>
  C12: a mobile's uplink request ends well wherever the tables serve its class. On a consistent task the handling of a
  PACKET RESOURCE REQUEST, by TFI of an uplink or a downlink TBF or by TLLI, whatever is granted or refused, returns
  without an access out of bounds or through a null pointer and leaves the task consistent: the queues name only
  holders, a free TBF holds no timeslot, one in use holds some on a transceiver and has a slot to be polled on. No
  downlink TBF is changed. The multislot class of the mobile is none of 5, 6 and 9, which can lose
  their control slot, and where \<^verbatim>\<open>char\<close> is unsigned it is below 4 (see \<open>unsigned_char_overruns\<close>). The block that the code
  schedules at once for the timeslot of an assignment is an event of this model.
\<close>

theorem uplink_requests_keep_task:
  assumes "task_ok c t" "IsTrxTsValid trx ts" "cell_ok ce"
    "UL_GetMultislotClass ce (rr_raCapability msg) \<notin> {5, 6, 9}" "ce_schar ce \<or> UL_GetMultislotClass ce (rr_raCapability msg) < 4"
  shows "\<exists>t'. AllocateULResources ce msg trx ts t = Some t' \<and> task_ok c t' \<and> (\<forall>i. same_use (tk_dlTbf t i) (tk_dlTbf t' i))"
proof -
  have "natural_class (class_index (UL_Qos ce (rr_chanReq msg) (rr_raCapability msg)))"
    by (rule class_natural) (use assms(4) in \<open>simp add: UL_Qos_def\<close>)
  moreover have "class_ok (ce_schar ce) (UL_Qos ce (rr_chanReq msg) (rr_raCapability msg))"
    using assms(5) by (simp add: class_ok_def UL_Qos_def)
  ultimately show ?thesis using uplink_request_served [OF assms(1-3)] by (simp add: ul_served_def)
qed

definition sample_request :: ResourceRequest where
  "sample_request = \<lparr>rr_globalTfi = None, rr_tlli = 0xC0FFEE00,
     rr_chanReq = \<lparr>cr_peakThroughputClass = 5, cr_radioPriority = 1, cr_rlcMode = ACKNOWLEDGED_RLC_MODE\<rparr>,
     rr_raCapability = \<lparr>rc_isValid = True, rc_parts = [\<lparr>ra_isValid = True, ra_accessTechnologyType = 1, ra_gprsMultislotClass = 8\<rparr>]\<rparr>\<rparr>"

theorem uplink_requests_keep_task_witness:
  "\<exists>t'. AllocateULResources sample_cell sample_request 0 5 busy_task = Some t' \<and> task_ok 1 t'"
proof -
  have "UL_GetMultislotClass sample_cell (rr_raCapability sample_request) = 8"
    by (simp add: UL_GetMultislotClass_def sample_cell_def sample_request_def)
  then show ?thesis
    using uplink_requests_keep_task [OF busy_task_ok _ sample_cell_ok, of 0 5 sample_request]
    by (simp add: IsTrxTsValid_def sample_cell_def) blast
qed

text \<open>
  C14: a blocked timeslot falls silent. When operation and maintenance locks a timeslot, every TBF of either
  direction that holds it is made inactive, its mobile is sent a release on a slot it listens to, and the timer
  that will free it runs; after that no TBF is active on the timeslot, and the task is consistent as before.
\<close>

theorem blocked_timeslot_falls_silent:
  assumes "task_ok c t"
  shows "\<exists>t'. AbnormalReleaseTs trx ts t = Some t' \<and> task_ok c t' \<and> \<not> AnyActiveTBF trx ts t' \<and>
     (\<forall>i \<in> set [0..<MAX_TBFS].
        (tbf_state (ulTbf t i) \<noteq> FREE \<and> tbf_trx (ulTbf t i) = trx \<and> tbf_allocatedTs (ulTbf t i) ! ts \<longrightarrow>
           tbf_state (ulTbf t' i) = INACTIVE \<and> sy_T3169 (tk_ul t') i) \<and>
        (tbf_state (tk_dlTbf t i) \<noteq> FREE \<and> tbf_trx (tk_dlTbf t i) = trx \<and> tbf_allocatedTs (tk_dlTbf t i) ! ts \<longrightarrow>
           tbf_state (tk_dlTbf t' i) = INACTIVE \<and> tk_T3195 t' i))"
proof -
  let ?sel = "\<lambda>r a. r = trx \<and> a ! ts"
  obtain t' where t': "release_loop_tbfs ?sel [0..<MAX_TBFS] t = Some t'" "kept c t t'"
    and down: "\<forall>i \<in> set [0..<MAX_TBFS]. (chosen ?sel (ulTbf t i) \<longrightarrow> down_ul t' i) \<and> (chosen ?sel (tk_dlTbf t i) \<longrightarrow> down_dl t' i)"
    using release_loop_ok [OF assms, of ?sel "[0..<MAX_TBFS]"] by blast
  have use: "chosen ?sel (ulTbf t' i) = chosen ?sel (ulTbf t i)" "chosen ?sel (tk_dlTbf t' i) = chosen ?sel (tk_dlTbf t i)" for i
    using chosen_use kept_use [OF t'(2)] by blast+
  have "\<not> AnyActiveTBF trx ts t'"
  proof
    assume "AnyActiveTBF trx ts t'"
    then obtain i where i: "i \<in> set [0..<MAX_TBFS]"
      "tbf_state (tk_dlTbf t' i) = ALLOCATED \<and> chosen ?sel (tk_dlTbf t' i) \<or> tbf_state (ulTbf t' i) = ALLOCATED \<and> chosen ?sel (ulTbf t' i)"
      by (auto simp: AnyActiveTBF_def chosen_def)
    then show False using down use [of i] by (auto simp: down_ul_def down_dl_def)
  qed
  moreover have "task_ok c t'" by (rule kept_task_ok [OF assms t'(2)])
  ultimately show ?thesis using t'(1) down by (auto simp: AbnormalReleaseTs_def chosen_def down_ul_def down_dl_def)
qed

theorem blocked_timeslot_falls_silent_witness:
  "\<exists>t'. AbnormalReleaseTs 0 5 busy_task = Some t' \<and> tbf_state (ulTbf t' 3) = INACTIVE \<and> sy_T3169 (tk_ul t') 3"
proof -
  have "ulTbf busy_task 3 = busy_tbf" by (simp add: busy_task_def)
  moreover have "tbf_state busy_tbf \<noteq> FREE \<and> tbf_trx busy_tbf = 0 \<and> tbf_allocatedTs busy_tbf ! 5"
    by (simp add: busy_tbf_def ul_tbf0_def)
  moreover have "(3::nat) \<in> set [0..<MAX_TBFS]" by simp
  ultimately show ?thesis using blocked_timeslot_falls_silent [OF busy_task_ok, of 0 5] by metis
qed

text \<open>
  C15: an indication is worth at most two blocks. Whatever number of ready-to-send indications layer 1 reports at
  once and whatever waits, the answer ends, sends at most two control blocks, all on that timeslot and each a message
  out of the queue's buffer, with a state flag in it, or the dummy block, and leaves the task consistent.
\<close>

theorem control_channel_within_grant:
  assumes "task_ok c t" "IsTrxTsValid trx ts" "0 \<le> numBuffs" "length (sig_buffer trx ts t) = MAX_DL_SIGNALLING_QUEUE_ENTRIES"
  shows "\<exists>t' es. ProcessPacchRTSInd trx ts numBuffs t = Some t' \<and> task_ok c t' \<and> tk_out t' = tk_out t @ es \<and>
     length es \<le> 2 \<and> (\<forall>e \<in> set es. sends_stored trx ts (sig_buffer trx ts t) e)"
  using rts_ind_ok [OF assms(1-3)] assms(4) by auto

lemma new_buffer: "IsTrxTsValid trx ts \<Longrightarrow> sig_buffer trx ts idle_task = replicate 5 old_message"
  using IsTrxTsValidD [of trx ts] by (simp add: sig_buffer_def get_ts_def TSPool_new_def Timeslot_new_def DLSignallingMsgQueue_new_def
      plain_def old_message_def)

theorem control_channel_within_grant_witness:
  "\<exists>t' es. ProcessPacchRTSInd 0 5 6 idle_task = Some t' \<and> tk_out t' = es \<and> length es \<le> 2"
proof -
  have v: "IsTrxTsValid 0 5" by (simp add: IsTrxTsValid_def)
  show ?thesis using control_channel_within_grant [OF idle_task_ok v, of 6] new_buffer [OF v] by auto
qed

text \<open>
  C34: a control message that has to wait is never sent. When no block is free at once, \<open>SendPacchMsg\<close> answers
  that all is well and sends nothing; and however often layer 1 is ready afterwards, what goes out on
  this timeslot is what the queue's buffer held before, not the message: the mobile is sent an old message or none.
\<close>

theorem waiting_message_lost:
  assumes "task_ok c t" "IsTrxTsValid trx ts" "length (sig_buffer trx ts t) = MAX_DL_SIGNALLING_QUEUE_ENTRIES"
    "sig_count trx ts t = 0" "msg \<noteq> PacketDownlinkDummyControlBlock" "msg \<notin> pr_msg ` set (sig_buffer trx ts t)"
    "\<forall>k \<in> set ks. 0 \<le> k"
  shows "\<exists>t1 t2 es. SendPacchMsg trx ts msg tag burst t = Some (JC_OK, t1) \<and> tk_out t1 = tk_out t \<and>
     rts_seq trx ts ks t1 = Some t2 \<and> tk_out t2 = tk_out t @ es \<and>
     (\<forall>e \<in> set es. \<exists>m. e = PacchMsg trx ts m \<and> pr_msg m \<noteq> msg)"
proof -
  obtain t1 where t1: "SendPacchMsg trx ts msg tag burst t = Some (JC_OK, t1)" "task_ok c t1" "tk_out t1 = tk_out t"
    "sig_buffer trx ts t1 = sig_buffer trx ts t" using SendPacchMsg_later [OF assms(1,2,4)] by blast
  obtain t2 es where t2: "rts_seq trx ts ks t1 = Some t2" "tk_out t2 = tk_out t1 @ es"
    "\<forall>e \<in> set es. sends_stored trx ts (sig_buffer trx ts t) e"
    using rts_seq_ok [OF t1(2) assms(2,7)] assms(3) unfolding t1(4) by blast
  have "\<exists>m. e = PacchMsg trx ts m \<and> pr_msg m \<noteq> msg" if e: "e \<in> set es" for e
  proof -
    obtain m where m: "e = PacchMsg trx ts m" "plain m \<in> set (sig_buffer trx ts t) \<or> pr_msg m = PacketDownlinkDummyControlBlock"
      using bspec [OF t2(3) e, unfolded sends_stored_def] by (elim exE conjE)
    have "pr_msg m \<in> pr_msg ` set (sig_buffer trx ts t)" if "plain m \<in> set (sig_buffer trx ts t)"
      using imageI [OF that, of pr_msg] by simp
    then show ?thesis using m assms(5,6) by (intro exI [of _ m]) auto
  qed
  moreover have "tk_out t2 = tk_out t @ es" using t1(3) t2(2) by simp
  ultimately show ?thesis using t1(1,3) t2(1) by blast
qed

theorem waiting_message_lost_witness:
  "\<exists>t1 t2 es. SendPacchMsg 0 5 (PacketAccessReject (MsTlli 1)) CTL_ACK_TAG_NOT_APPLICABLE RLC_MAC_NORMAL_BURST idle_task = Some (JC_OK, t1) \<and>
     rts_seq 0 5 [1, 1] t1 = Some t2 \<and> tk_out t2 = es \<and>
     (\<forall>e \<in> set es. \<exists>m. e = PacchMsg 0 5 m \<and> pr_msg m \<noteq> PacketAccessReject (MsTlli 1))"
proof -
  have v: "IsTrxTsValid 0 5" by (simp add: IsTrxTsValid_def)
  have n: "sig_count 0 5 idle_task = 0"
    using v by (simp add: GetSignallingRTSCount_def get_ts_def TSPool_new_def Timeslot_new_def IsTrxTsValid_def)
  let ?m = "PacketAccessReject (MsTlli 1)"
  have b: "length (sig_buffer 0 5 idle_task) = 5" "?m \<notin> pr_msg ` set (sig_buffer 0 5 idle_task)"
    unfolding new_buffer [OF v] by (simp_all add: old_message_def)
  have d: "?m \<noteq> PacketDownlinkDummyControlBlock" "\<forall>k \<in> set [1, 1]. (0::int) \<le> k" by simp_all
  from waiting_message_lost [OF idle_task_ok v b(1) n d(1) b(2) d(2), of CTL_ACK_TAG_NOT_APPLICABLE RLC_MAC_NORMAL_BURST]
  show ?thesis unfolding idle_task_read(4) append_Nil by blast
qed

text \<open>
  C31: a granted TBF can be polled. A request of the scheduler for a downlink TBF, together with an uplink TBF
  of the mobile or not, always returns, and when it grants timeslots the TBF has a slot for its control messages:
  \<open>TSSelectionRequest\<close> returns one of the transceiver of the TBF. This holds, where \<^verbatim>\<open>char\<close> is signed, for every mobile
  that is not of multislot class 5, 6 or 9.
\<close>

theorem granted_tbf_has_control_slot:
  assumes "dir_ok prec DL (h, p)" "precs_ok (prec DL)" "qos_ok prec DL u raw qos" "no_slot (h u)" "length (tbf_allocatedTs ul) = MAX_TIMESLOTS"
    "tbf_trx ul = NULL_TRX \<or> IsTrxValid (tbf_trx ul)" "qos_MultislotClass qos \<notin> {5, 6, 9}"
  shows "\<exists>status h' p'. DLResourceRequest_with True raw g qos u ul (h, p) = Some (status, h', p') \<and>
     (if status then \<exists>ts. TSSelectionRequest (h' u) = (True, tbf_trx (h' u), Some ts) \<and> IsTrxTsValid (tbf_trx (h' u)) (int ts)
      else no_slot (h' u))"
proof -
  let ?h = "copy_trx u (tbf_trx ul) h"
  have d: "dir_ok prec DL (?h, p)" by (rule copy_trx_ok [OF assms(1) _ assms(6)]) (use assms(4) in \<open>simp add: no_slot_def\<close>)
  have n: "no_slot (?h u)" using assms(4) by (simp add: no_slot_def)
  have len: "\<forall>a. Some (tbf_allocatedTs ul) = Some a \<longrightarrow> length a = MAX_TIMESLOTS" using assms(5) by simp
  obtain status h' p' where m: "run_request (AllocateUser dl_branch g) True (new_request raw qos u DL (Some (tbf_allocatedTs ul))) (?h, p) = Some (status, h', p')"
    "dir_ok prec DL (h', p')" "if status then grant_ok g qos DL (tbf_trx (h' u)) (slots (tbf_allocatedTs (h' u))) (slots (tbf_allocatedTs ul)) else no_slot (h' u)"
    using dl.request_moves [where u = u and g = g, OF d assms(2,3) len n branch_id_dl] by (auto split: if_splits)
  have run: "DLResourceRequest_with True raw g qos u ul (h, p) = Some (status, h', p')" using m(1) by (simp add: DLResourceRequest_with_def)
  have "\<exists>ts. TSSelectionRequest (h' u) = (True, tbf_trx (h' u), Some ts) \<and> IsTrxTsValid (tbf_trx (h' u)) (int ts)" if s: status
  proof -
    have nat: "natural_ok (h' u)"
      by (rule dl.request_natural [OF d assms(2,3) len n class_natural [OF assms(7)]]) (use m(1) s in simp)
    have "length (tbf_naturalTs (h' u)) = MAX_TIMESLOTS" "IsTrxValid (tbf_trx (h' u))"
      using m(2,3) s by (auto simp: dir_ok_def tbf_ok_def grant_ok_def)
    then obtain ts where "TSSelectionRequest (h' u) = (True, tbf_trx (h' u), Some ts)" "ts < MAX_TIMESLOTS" "IsTrxValid (tbf_trx (h' u))"
      using natural_selection [OF nat] by blast
    then show ?thesis by (auto simp: IsTrxTsValid_def IsTrxValid_def)
  qed
  then show ?thesis using run m(3) by (intro exI [of _ status] exI [of _ h'] exI [of _ p']) simp
qed

theorem granted_tbf_has_control_slot_witness:
  "\<exists>status h' p'. DLResourceRequest_with True raw0 (grr_of [5, 7]) (qos_of 4) (0 :: nat) ul_tbf0 (\<lambda>_. dl_tbf0, TSPool_new [1, 2, 3, 4, 5 :: nat]) = Some (status, h', p') \<and>
     (if status then fst (TSSelectionRequest (h' 0)) else no_slot (h' 0))"
proof -
  have d: "dir_ok (\<lambda>_ _. 1) DL (\<lambda>_ :: nat. dl_tbf0, TSPool_new [1, 2, 3, 4, 5 :: nat])" "no_slot dl_tbf0"
    by (simp_all add: dir_ok_def held_new_pool queues_ok_new tbf_ok_def no_slot_def dl_tbf0_def)
  have q: "precs_ok ((\<lambda>_ _. 1) DL)" "qos_ok (\<lambda>_ _. 1) DL (0 :: nat) raw0 (qos_of 4)" "qos_MultislotClass (qos_of 4) \<notin> {5, 6, 9}"
    "length (tbf_allocatedTs ul_tbf0) = MAX_TIMESLOTS" "tbf_trx ul_tbf0 = NULL_TRX \<or> IsTrxValid (tbf_trx ul_tbf0)"
    using samples by (simp_all add: qos_ok_def precs_ok_def qos_of_def)
  from granted_tbf_has_control_slot [OF d(1) q(1,2) d(2) q(4,5,3), of "grr_of [5, 7]"]
  show ?thesis by (auto split: if_splits)
qed

section \<open>A TBF without a slot to be polled on\<close>

lemma class5_options:
  "filter (\<lambda>(d, u). 5 \<in> set d \<and> 7 \<in> set d) (options_list 4) = [([5, 7], [6])]"
  "list_ex (\<lambda>(d, u). 5 \<in> set d \<and> 5 \<in> set u) (options_list 4)"
  by code_simp+

lemma class5_57: "{opt \<in> multislot_options 4. 5 \<in> fst opt \<and> 7 \<in> fst opt} = {({5, 7}, {6})}"
proof -
  have "{opt \<in> multislot_options 4. 5 \<in> fst opt \<and> 7 \<in> fst opt} =
      (\<lambda>(d, u). (set d, set u)) ` set (filter (\<lambda>(d, u). 5 \<in> set d \<and> 7 \<in> set d) (options_list 4))"
    unfolding options_list by auto
  then show ?thesis unfolding class5_options(1) by simp
qed

lemma class5_5: "\<exists>opt \<in> multislot_options 4. 5 \<in> fst opt \<and> 5 \<in> snd opt"
  unfolding ex_options [where P = "\<lambda>D U. 5 \<in> D \<and> 5 \<in> U"] by (rule class5_options)

text \<open>
  C32: a mobile that can never be polled. For a mobile of multislot class 5 the search takes slot 5 and then
  slot 7, which pass its check that the TBF keeps a slot in both directions; but after that none is left, so
  \<open>TSSelectionRequest\<close> answers that there is no slot for control messages and leaves the timeslot unset, which its
  callers do not look at.
\<close>

theorem control_slot_lost:
  assumes "qos_MultislotClass qos = 5" "length (raw_cands raw) = MAX_MULTI_CONFIG_CANDIDATES"
    "ComputeMultislotOptions True (new_request raw qos u DL None) = Some s0"
  shows "\<exists>s1 h1 s2 h2 s3 h3.
     ConstrainCandMultiConfig (s0, h) = (s1, h1) \<and> IsAllowedTs DL 5 s1 \<and> IncludesNaturalTs DL 5 (s1, h1) \<and>
     UpdateAllowedSlots (SetNewSlotAllocation 0 5 1 s1, h1) = Some (s2, h2) \<and>
     IsAllowedTs DL 7 s2 \<and> IncludesNaturalTs DL 7 (s2, h2) \<and>
     UpdateAllowedSlots (SetNewSlotAllocation 0 7 1 s2, h2) = Some (s3, h3) \<and>
     allocated DL s3 = {5, 7} \<and> TSSelectionRequest (h3 u) = (False, tbf_trx (h3 u), None)"
proof -
  have k: "class_index qos = 4" using assms(1) by (simp add: class_index_def limit_def)
  have "({5, 7}, {6}) \<in> multislot_options 4" using class5_57 by blast
  then have e: "\<exists>opt \<in> multislot_options 4. 5 \<in> fst opt \<and> 7 \<in> fst opt" by force
  obtain s1 h1 s2 h2 s3 h3 where r: "ConstrainCandMultiConfig (s0, h) = (s1, h1)" "IsAllowedTs DL 5 s1" "IncludesNaturalTs DL 5 (s1, h1)"
    "UpdateAllowedSlots (SetNewSlotAllocation 0 5 1 s1, h1) = Some (s2, h2)" "IsAllowedTs DL 7 s2" "IncludesNaturalTs DL 7 (s2, h2)"
    "UpdateAllowedSlots (SetNewSlotAllocation 0 7 1 s2, h2) = Some (s3, h3)" "allocated DL s3 = {5, 7}"
    and n: "length (tbf_naturalTs (h3 u)) = 8"
    "slots (tbf_naturalTs (h3 u)) = {ts. \<exists>opt \<in> {({5, 7}, {6})}. ts \<in> fst opt \<and> ts \<in> snd opt} \<inter> {..<8}"
    using slots_5_7 [OF k assms(2,3) class5_5 e, of h] unfolding class5_57 by blast
  have "slots (tbf_naturalTs (h3 u)) = {}" unfolding n(2) by auto
  then have "List.find (\<lambda>ts. tbf_naturalTs (h3 u) ! ts) [0..<8] = None" using n(1) by (auto simp: find_None_iff slots_def)
  then have "TSSelectionRequest (h3 u) = (False, tbf_trx (h3 u), None)" by (simp add: TSSelectionRequest_def GetNaturalSlot_def)
  then show ?thesis using r by blast
qed

theorem control_slot_lost_witness:
  "\<exists>s0 s3 h3. ComputeMultislotOptions True (new_request raw0 (qos_of 5) (0 :: nat) DL None) = Some s0 \<and>
     note_slots [5, 7] (ConstrainCandMultiConfig (s0, \<lambda>_. dl_tbf0)) = Some (s3, h3) \<and>
     allocated DL s3 = {5, 7} \<and> fst (TSSelectionRequest (h3 0)) = False"
proof -
  have q: "qos_MultislotClass (qos_of 5) = 5" by (simp add: qos_of_def)
  obtain s0 where s0: "ComputeMultislotOptions True (new_request raw0 (qos_of 5) (0 :: nat) DL None) = Some s0"
    using ComputeMultislotOptions_total [of "new_request raw0 (qos_of 5) (0 :: nat) DL None"] samples(1)
    by (auto simp: new_request_def SchedAlloc_new_def Let_def)
  from control_slot_lost [OF q samples(1) s0, of "\<lambda>_. dl_tbf0"]
  obtain s1 h1 s2 h2 s3 h3 where "ConstrainCandMultiConfig (s0, \<lambda>_. dl_tbf0) = (s1, h1)"
    "UpdateAllowedSlots (SetNewSlotAllocation 0 5 1 s1, h1) = Some (s2, h2)"
    "UpdateAllowedSlots (SetNewSlotAllocation 0 7 1 s2, h2) = Some (s3, h3)"
    "allocated DL s3 = {5, 7}" "TSSelectionRequest (h3 0) = (False, tbf_trx (h3 0), None)" by blast
  then show ?thesis using s0 by (intro exI [of _ s0] exI [of _ s3] exI [of _ h3]) simp
qed

end
