(* ===== verification/TaskDownlink.thy ===== *)
theory TaskDownlink
  imports TaskRuns BestSlot
begin

text \<open>
  A downlink TBF is started for a waiting PDU, and the loop over the queues of waiting PDUs.
\<close>

section \<open>Steps of one downlink TBF\<close>

definition dl_step :: "int \<Rightarrow> addr \<Rightarrow> Task \<Rightarrow> Task \<Rightarrow> bool" where
  "dl_step c i t t' \<longleftrightarrow> sched_ok c t' \<and> (\<forall>v. same_use (ulTbf t v) (ulTbf t' v)) \<and>
     (\<forall>v. v \<noteq> i \<longrightarrow> same_use (tk_dlTbf t v) (tk_dlTbf t' v))"

lemma dl_step_trans: "dl_step c i t t1 \<Longrightarrow> dl_step c i t1 t2 \<Longrightarrow> dl_step c i t t2"
  unfolding dl_step_def using same_use_trans by metis

lemma dl_step_kept: "dl_step c i t t1 \<Longrightarrow> kept c t1 t2 \<Longrightarrow> dl_step c i t t2"
  unfolding dl_step_def kept_def using same_use_trans kept_sched_ok kept_def by metis

lemma dl_step_task_ok:
  assumes "task_ok c t" "dl_step c i t t'" "used_ok (tk_dlTbf t' i)"
  shows "task_ok c t'"
proof -
  have "used_ok (tk_dlTbf t' v)" for v
    using assms task_okD(2) [OF assms(1), of v] used_ok_use [of "tk_dlTbf t v" "tk_dlTbf t' v"] by (cases "v = i") (auto simp: dl_step_def)
  moreover have "used_ok (ulTbf t' v)" for v
    using assms(2) task_okD(3) [OF assms(1), of v] used_ok_use [of "ulTbf t v" "ulTbf t' v"] by (auto simp: dl_step_def)
  ultimately show ?thesis using assms(2) by (simp add: task_ok_def dl_step_def)
qed

lemma dl_change:
  assumes ok: "sched_ok c t" and t': "tk_dlTbf t' = (tk_dlTbf t)(i := u)" "ulTbf t' = ulTbf t" "tsPool t' = tsPool t"
    and u: "dir_ok (precs c) DL ((tk_dlTbf t)(i := u), tsPool t)" "tbf_state u = FREE \<longrightarrow> no_slot u"
  shows "dl_step c i t t'"
  using sched_okD [OF ok] t' u by (simp add: dl_step_def sched_ok_def)

lemma dl_sched_step:
  assumes ok: "sched_ok c t" and f: "f (tk_dlTbf t, tsPool t) = Some (b, h', p')"
    and h': "dir_ok (precs c) DL (h', p')" "moved DL i (tk_dlTbf t, tsPool t) (h', p')"
    and free: "tbf_state (tk_dlTbf t i) = FREE \<longrightarrow> no_slot (h' i)"
  shows "\<exists>t'. dl_sched f t = Some (b, t') \<and> dl_step c i t t' \<and> t' = set_tsPool p' (t\<lparr>tk_dlTbf := h'\<rparr>)"
proof -
  note S = sched_okD [OF ok] and M = movedD [OF h'(2)]
  let ?t = "set_tsPool p' (t\<lparr>tk_dlTbf := h'\<rparr>)"
  have U: "dir_ok (precs c) UL (ulTbf t, p')"
    using dir_ok_other [OF S(4) _ M(1)] h'(1) by (simp add: dir_ok_def)
  have "no_slot (h' v)" if "tbf_state (h' v) = FREE" for v
    using that S(5) [of v] M(2) [of v] M(3) free by (cases "v = i") (simp_all add: same_id_def)
  then have "sched_ok c ?t" using S(1,2,6) U h'(1) by (simp add: sched_ok_def)
  then have "dl_step c i t ?t" using M(2) by (simp add: dl_step_def)
  then show ?thesis using f by (simp add: dl_sched_def)
qed

section \<open>Establishment\<close>

lemma EstablishDLTbf_tbf:
  "tk_dlTbf (EstablishDLTbf msg i t) = (tk_dlTbf t)(i :=
     (DL_ClearControlAckTag (EstablishDLTbf_clear ((tk_dlTbf t i)\<lparr>tbf_tlli := um_tlli msg\<rparr>)))\<lparr>tbf_state := ACTIVATING\<rparr>)"
  "ulTbf (EstablishDLTbf msg i t) = ulTbf t" "tsPool (EstablishDLTbf msg i t) = tsPool t"
  "tk_bssgp (EstablishDLTbf msg i t) = tk_bssgp t" "tk_out (EstablishDLTbf msg i t) = tk_out t"
  by (auto simp: EstablishDLTbf_def Let_def DL_SetTbfState_def DL_EstablishRLCLink_def set_dlTbf_def on_dlLink_def dl_save_def dl_load_def)

lemma establish_dl:
  assumes ok: "sched_ok c t" and none: "no_slot (tk_dlTbf t i)"
  shows "dl_step c i t (EstablishDLTbf msg i t)"
    "no_slot (tk_dlTbf (EstablishDLTbf msg i t) i)" "length (dl_ctlAckTag (tk_dlTbf (EstablishDLTbf msg i t) i)) = ControlAckTagArrDepth"
proof -
  note S = sched_okD [OF ok]
  let ?u = "(DL_ClearControlAckTag (EstablishDLTbf_clear ((tk_dlTbf t i)\<lparr>tbf_tlli := um_tlli msg\<rparr>)))\<lparr>tbf_state := ACTIVATING\<rparr>"
  have u: "tbf_allocatedTs ?u = replicate MAX_TIMESLOTS False" "tbf_trx ?u = NULL_TRX" "tbf_naturalTs ?u = tbf_naturalTs (tk_dlTbf t i)"
    by (simp_all add: DL_ClearControlAckTag_def EstablishDLTbf_clear_def)
  have d: "dir_ok (precs c) DL ((tk_dlTbf t)(i := ?u), tsPool t)"
    by (rule clear_ok [OF S(3) none [unfolded no_slot_def] u(3,1,2)])
  show "dl_step c i t (EstablishDLTbf msg i t)"
    by (rule dl_change [OF ok EstablishDLTbf_tbf(1-3) d]) simp
  show "no_slot (tk_dlTbf (EstablishDLTbf msg i t) i)"
    using u(1) by (simp add: EstablishDLTbf_tbf no_slot_def slots_def DL_ClearControlAckTag_def EstablishDLTbf_clear_def)
  show "length (dl_ctlAckTag (tk_dlTbf (EstablishDLTbf msg i t) i)) = ControlAckTagArrDepth"
    by (simp add: EstablishDLTbf_tbf DL_ClearControlAckTag_def)
qed

text \<open>The control acknowledgement tags and the link data of a TBF that has timeslots.\<close>

definition tags_ok :: "DLTbf \<Rightarrow> bool" where
  "tags_ok d \<longleftrightarrow> length (dl_ctlAckTag d) = ControlAckTagArrDepth \<and> 0 < dl_currNumAckTags d \<and> dl_currNumAckTags d \<le> ControlAckTagArrDepth"

lemma set_control_ack_tag_ok:
  assumes ok: "sched_ok c t" and d: "tags_ok (tk_dlTbf t i)"
  shows "\<exists>tag t'. set_control_ack_tag i t = Some (tag, t') \<and> kept c t t' \<and> tk_bssgp t' = tk_bssgp t \<and> tk_out t' = tk_out t \<and>
     (\<forall>v. tbf_state (tk_dlTbf t' v) = tbf_state (tk_dlTbf t v))"
proof -
  let ?d = "tk_dlTbf t i" and ?c' = "nextCtlAck (sy_sysCtlAckCount (tk_ul t))"
  let ?k = "(dl_currAckTag ?d + 1) mod dl_currNumAckTags ?d"
  have n: "0 < dl_currNumAckTags ?d" "dl_currNumAckTags ?d \<le> 40" "length (dl_ctlAckTag ?d) = 40" using d by (auto simp: tags_ok_def)
  have k: "?k < length (dl_ctlAckTag ?d)" using mod_less_divisor [OF n(1), of "dl_currAckTag ?d + 1"] n(2,3) by linarith
  let ?d' = "?d\<lparr>dl_currAckTag := ?k, dl_ctlAckTag := (dl_ctlAckTag ?d)[?k := ?c']\<rparr>"
  let ?t = "set_dlTbf i ?d' (t\<lparr>tk_ul := (tk_ul t)\<lparr>sy_sysCtlAckCount := ?c'\<rparr>\<rparr>)"
  have "set_control_ack_tag i t = Some (?c', ?t)"
    using n(1) write_at_in [OF k] by (simp add: set_control_ack_tag_def DL_SetControlAckTag_def Let_def)
  moreover have "kept c t ?t" using kept_refl [OF ok] by (simp add: kept_def same_use_def)
  ultimately show ?thesis by (simp add: set_dlTbf_def)
qed

lemma update_tags:
  assumes "slots (tbf_allocatedTs d) \<noteq> {}" "length (tbf_allocatedTs d) = MAX_TIMESLOTS" "length (dl_ctlAckTag d) = ControlAckTagArrDepth"
  shows "tags_ok (DL_UpdateTSSpecificData d)"
proof -
  obtain k where k: "k < length (tbf_allocatedTs d)" "tbf_allocatedTs d ! k" using assms(1) unfolding slots_def by blast
  have "True \<in> set (filter id (tbf_allocatedTs d))" using nth_mem [OF k(1)] k(2) by simp
  then have "0 < length (filter id (tbf_allocatedTs d))" by (rule length_pos_if_in_set)
  moreover have "length (filter id (tbf_allocatedTs d)) \<le> 8" using length_filter_le [of id "tbf_allocatedTs d"] assms(2) by simp
  moreover have "dl_currNumAckTags (DL_UpdateTSSpecificData d) = 5 * length (filter id (tbf_allocatedTs d))"
    "dl_ctlAckTag (DL_UpdateTSSpecificData d) = dl_ctlAckTag d"
    using assms(2) by (simp_all add: DL_UpdateTSSpecificData_def)
  ultimately show ?thesis using assms(3) unfolding tags_ok_def by (intro conjI) (simp, linarith+)
qed

section \<open>The request\<close>

lemma dl_release:
  assumes ok: "sched_ok c t"
  shows "\<exists>t'. DLTbf_ReleaseDLTbf False i t = Some t' \<and> dl_step c i t t' \<and> tbf_state (tk_dlTbf t' i) = FREE \<and> no_slot (tk_dlTbf t' i) \<and>
     tk_bssgp t' = tk_bssgp t \<and> tk_out t' = tk_out t"
proof -
  note S = sched_okD [OF ok]
  obtain h' p' where r: "DeallocateUser dl_branch DL i (tk_dlTbf t, tsPool t) = Some (h', p')" "dir_ok (precs c) DL (h', p')"
    "moved DL i (tk_dlTbf t, tsPool t) (h', p')" "no_slot (h' i)"
    using dl.release_moves [OF S(3,9)] by blast
  let ?f = "\<lambda>x. map_option (Pair True) (DLReleaseResourceRequest i x)"
  have f: "?f (tk_dlTbf t, tsPool t) = Some (True, h', p')" using r(1) by (simp add: DLReleaseResourceRequest_def)
  let ?t1 = "set_tsPool p' (t\<lparr>tk_dlTbf := h'\<rparr>)"
  have t1: "dl_sched ?f t = Some (True, ?t1)" "dl_step c i t ?t1"
    using dl_sched_step [where f = ?f, OF ok f r(2,3)] r(4) by auto
  let ?t2 = "set_dlTbf i ((tk_dlTbf ?t1 i)\<lparr>tbf_state := FREE\<rparr>) ?t1"
  have ok1: "sched_ok c ?t1" using t1(2) by (simp add: dl_step_def)
  have "dir_ok (precs c) DL (h'(i := (h' i)\<lparr>tbf_state := FREE\<rparr>), p')" by (rule dir_ok_slots [OF r(2)]) simp_all
  then have "dl_step c i ?t1 ?t2"
    by (intro dl_change [OF ok1, where u = "(h' i)\<lparr>tbf_state := FREE\<rparr>"]) (use r(4) in \<open>simp_all add: no_slot_def\<close>)
  then have "dl_step c i t ?t2" using t1(2) dl_step_trans by blast
  then show ?thesis using t1(1) r(4) by (simp add: DLTbf_ReleaseDLTbf_def no_slot_def) (simp add: set_tsPool_def set_dlTbf_def)
qed

lemma dl_single_request:
  assumes ok: "sched_ok c t" and none: "no_slot (tk_dlTbf t i)" and used: "tbf_state (tk_dlTbf t i) \<noteq> FREE" and ce: "cell_ok ce"
    and c: "c = limit 1 3 (qos_PrecedenceClass q)"
  shows "\<exists>b h' p'. dl_sched (DLSingleTSResourceRequest (ce_schar ce) (ce_raw ce) (ce_grr ce) q i) t = Some (b, set_tsPool p' (t\<lparr>tk_dlTbf := h'\<rparr>)) \<and>
     dl_step c i t (set_tsPool p' (t\<lparr>tk_dlTbf := h'\<rparr>)) \<and> (\<forall>v. v \<noteq> i \<longrightarrow> h' v = tk_dlTbf t v) \<and> same_id (tk_dlTbf t) h' \<and> same_by tags_of (tk_dlTbf t) h' \<and>
     (b \<longleftrightarrow> (\<exists>trx ts. slot_open (precs c) (ce_grr ce) (q\<lparr>qos_MultislotClass := 1\<rparr>) DL i (tbf_trx (tk_dlTbf t i)) {} (tsPool t) trx ts)) \<and>
     (if b then granted_ok (h' i) \<and> length (tbf_allocatedTs (h' i)) = MAX_TIMESLOTS else no_slot (h' i))"
proof -
  note S = sched_okD [OF ok]
  let ?q = "q\<lparr>qos_MultislotClass := 1\<rparr>" and ?f = "DLSingleTSResourceRequest (ce_schar ce) (ce_raw ce) (ce_grr ce) q i"
  have q: "qos_ok (precs c) DL i (ce_raw ce) ?q" using c ce by (simp add: qos_ok_def precs_def cell_ok_def)
  have opp: "\<forall>a. None = Some (a :: bool list) \<longrightarrow> length a = MAX_TIMESLOTS" by simp
  obtain b h' p' where r: "run_request (AllocateUser dl_branch (ce_grr ce)) True (new_request (ce_raw ce) ?q i DL None) (tk_dlTbf t, tsPool t) = Some (b, h', p')"
    "dir_ok (precs c) DL (h', p')" "moved DL i (tk_dlTbf t, tsPool t) (h', p')"
    and o: "if b then grant_ok (ce_grr ce) ?q DL (tbf_trx (h' i)) (slots (tbf_allocatedTs (h' i))) {} else no_slot (h' i)"
    using dl.request_moves [where u = i and g = "ce_grr ce", OF S(3,9) q opp none branch_id_dl] by (auto split: if_splits)
  note M = movedD [OF r(3)]
  have f: "?f (tk_dlTbf t, tsPool t) = Some (b, h', p')" using r(1) unfolding single_schar [of "ce_schar ce"] by (simp add: DLSingleTSResourceRequest_def)
  have 1: "dl_sched ?f t = Some (b, set_tsPool p' (t\<lparr>tk_dlTbf := h'\<rparr>))" "dl_step c i t (set_tsPool p' (t\<lparr>tk_dlTbf := h'\<rparr>))"
    using dl_sched_step [where f = ?f, OF ok f r(2,3)] used by auto
  have 2: "b \<longleftrightarrow> (\<exists>trx ts. slot_open (precs c) (ce_grr ce) ?q DL i (tbf_trx (tk_dlTbf t i)) {} (tsPool t) trx ts)"
    using dl.request_granted_iff [OF S(3,9) q opp none r(1)] by simp
  have n: "natural_ok (h' i)" if b
    by (rule dl.request_natural [OF S(3,9) q opp none class_natural]) (use r(1) that in simp_all)
  have "length (tbf_allocatedTs (h' i)) = MAX_TIMESLOTS" using r(2) by (auto simp: dir_ok_def tbf_ok_def)
  then have 3: "if b then granted_ok (h' i) \<and> length (tbf_allocatedTs (h' i)) = MAX_TIMESLOTS else no_slot (h' i)"
    using o n by (cases b) (auto simp: granted_ok_def grant_ok_def no_slot_def)
  have 4: "\<forall>v. v \<noteq> i \<longrightarrow> h' v = tk_dlTbf t v" using M(2) by blast
  have 5: "same_by tags_of (tk_dlTbf t) h'" by (rule tags.run_request_frame [OF tags.AllocateUser_frame [OF branch_tags_dl] r(1)])
  show ?thesis by (intro exI conjI) (rule 1 4 M(3) 5 2 3)+
qed

section \<open>A downlink TBF for a waiting PDU\<close>

lemma take_pdu_some:
  assumes "spec_get (tbf_tlli (tk_dlTbf t i)) (tk_bssgp t) = (Some x, qs)"
  shows "\<exists>t'. take_pdu i t = (True, t') \<and> tk_dlTbf t' = tk_dlTbf t \<and> ulTbf t' = ulTbf t \<and> tsPool t' = tsPool t \<and> tk_bssgp t' = qs \<and>
     tk_out t' = tk_out t"
proof -
  obtain a b msg where x: "x = (a, b, msg)" by (rule prod_cases3)
  have g: "ds_tbf (snd (GetNextLLCPdu s)) = ds_tbf s" for s
    by (simp add: GetNextLLCPdu_def dl_emit_def split: list.split)
  show ?thesis
    using assms by (simp add: take_pdu_def x Let_def g) (simp add: on_dlLink_def dl_save_def)
qed

lemma send_activation_read [simp]:
  "tk_dlTbf (SendDLActivationMsg i t) = tk_dlTbf t" "ulTbf (SendDLActivationMsg i t) = ulTbf t" "tsPool (SendDLActivationMsg i t) = tsPool t"
  "tk_bssgp (SendDLActivationMsg i t) = tk_bssgp t" "tk_out (SendDLActivationMsg i t) = tk_out t @ [DlTbfActivation (dlTbfMsg i t)]"
  by (simp_all add: SendDLActivationMsg_def) (simp add: task_emit_def)

lemma update_data_tbf [simp]: "ds_tbf (DLTbf_UpdateTSSpecificData s) = DL_UpdateTSSpecificData (ds_tbf s)"
  by (simp add: DLTbf_UpdateTSSpecificData_def DL_UpdateLinkTSData_def)

lemma update_data_read [simp]:
  "tk_bssgp (on_dlLink i f t) = tk_bssgp t" "tk_out (on_dlLink i f t) = tk_out t"
  by (simp_all add: on_dlLink_def dl_save_def)

lemma ccch_assignment:
  assumes ok: "sched_ok c t" and d: "tags_ok (tk_dlTbf t i)" "slots (tbf_allocatedTs (tk_dlTbf t i)) \<noteq> {}"
    "length (tbf_allocatedTs (tk_dlTbf t i)) = MAX_TIMESLOTS"
  shows "\<exists>t' im. DLCCCHImmediateAssignment ce i t = Some t' \<and> kept c t t' \<and> tk_bssgp t' = tk_bssgp t \<and>
     tk_out t' = tk_out t @ [CcchImmediateAssignment im] \<and> im_tlli im = tbf_tlli (tk_dlTbf t i) \<and> im_ts im \<in> slots (tbf_allocatedTs (tk_dlTbf t i)) \<and>
     (\<forall>v. tbf_state (tk_dlTbf t' v) = tbf_state (tk_dlTbf t v))"
proof -
  obtain tag t1 where t1: "set_control_ack_tag i t = Some (tag, t1)" "kept c t t1" "tk_bssgp t1 = tk_bssgp t" "tk_out t1 = tk_out t"
    "\<forall>v. tbf_state (tk_dlTbf t1 v) = tbf_state (tk_dlTbf t v)" using set_control_ack_tag_ok [OF ok d(1)] by blast
  have h: "set (held_slots (tk_dlTbf t i)) = slots (tbf_allocatedTs (tk_dlTbf t i))"
    using d(3) by (auto simp: held_slots_def slots_def)
  then obtain ts rest where ts: "held_slots (tk_dlTbf t i) = ts # rest" using d(2) by (cases "held_slots (tk_dlTbf t i)") auto
  let ?d = "tk_dlTbf t i"
  let ?im = "\<lparr>im_ts = ts, im_tsc = ce_tsc ce (tbf_trx ?d) ts, im_arfcn = ce_arfcn ce (tbf_trx ?d) ts,
    im_tag = tag, im_tlli = tbf_tlli ?d, im_tfi = tfi_val (tbf_tfi ?d), im_mode = dq_mode (tk_dlQos t1 i), im_tai = tbf_tai ?d\<rparr>"
  let ?t2 = "task_emit [CcchImmediateAssignment ?im] t1"
  have q: "tk_dlQos t1 = tk_dlQos t" using t1(1) by (auto simp: set_control_ack_tag_def set_dlTbf_def split: bind_splits)
  have "DLCCCHImmediateAssignment ce i t = Some ?t2"
    using ts t1(1) q by (simp add: DLCCCHImmediateAssignment_def Let_def)
  moreover have "kept c t ?t2" using t1(2) emit_kept [OF kept_sched_ok [OF ok t1(2)]] kept_trans by blast
  moreover have "ts \<in> slots (tbf_allocatedTs ?d)" using h ts by auto
  ultimately show ?thesis using t1(3-5) by (intro exI [of _ ?t2] exI [of _ ?im]) (simp add: task_emit_def)
qed

text \<open>A grant: the PDU goes to the link, layer 1 and the mobile hear of the TBF.\<close>

lemma start_granted:
  assumes ok: "sched_ok c t" and g: "granted_ok (tk_dlTbf t i)" "length (tbf_allocatedTs (tk_dlTbf t i)) = MAX_TIMESLOTS"
    "length (dl_ctlAckTag (tk_dlTbf t i)) = ControlAckTagArrDepth"
    and pdu: "spec_get (tbf_tlli (tk_dlTbf t i)) (tk_bssgp t) = (Some x, qs)"
  shows "\<exists>t' m im. start_downlink ce i None True t = Some (RESOURCES_ALLOCATED, t') \<and> kept c t t' \<and> tk_bssgp t' = qs \<and>
     tk_out t' = tk_out t @ [DlTbfActivation m, CcchImmediateAssignment im] \<and> im_tlli im = tbf_tlli (tk_dlTbf t i) \<and>
     im_ts im \<in> slots (tbf_allocatedTs (tk_dlTbf t i)) \<and> (\<forall>v. tbf_state (tk_dlTbf t' v) = tbf_state (tk_dlTbf t v))"
proof -
  obtain t1 where t1: "take_pdu i t = (True, t1)" "tk_dlTbf t1 = tk_dlTbf t" "ulTbf t1 = ulTbf t" "tsPool t1 = tsPool t"
    "tk_bssgp t1 = qs" "tk_out t1 = tk_out t" using take_pdu_some [OF pdu] by blast
  let ?d = "DL_UpdateTSSpecificData (tk_dlTbf t i)" and ?t2 = "SendDLActivationMsg i (on_dlLink i DLTbf_UpdateTSSpecificData t1)"
  have d: "tbf_allocatedTs ?d = tbf_allocatedTs (tk_dlTbf t i)" "tbf_tlli ?d = tbf_tlli (tk_dlTbf t i)" "tbf_state ?d = tbf_state (tk_dlTbf t i)"
    "same_use (tk_dlTbf t i) ?d"
    by (simp_all add: DL_UpdateTSSpecificData_def same_use_def)
  have t2: "tk_dlTbf ?t2 = (tk_dlTbf t)(i := ?d)" "ulTbf ?t2 = ulTbf t" "tsPool ?t2 = tsPool t" "tk_bssgp ?t2 = qs"
    using t1 by simp_all
  have k: "kept c t ?t2" unfolding kept_def t2 using kept_refl [OF ok] d(4) by (simp add: kept_def)
  have s: "slots (tbf_allocatedTs (tk_dlTbf t i)) \<noteq> {}" using g(1) by (simp add: granted_ok_def no_slot_def)
  have tags: "tags_ok (tk_dlTbf ?t2 i)" unfolding t2 using update_tags [OF s g(2,3)] by simp
  have ne: "slots (tbf_allocatedTs (tk_dlTbf ?t2 i)) \<noteq> {}" "length (tbf_allocatedTs (tk_dlTbf ?t2 i)) = MAX_TIMESLOTS"
    unfolding t2 using s g(2) d(1) by simp_all
  obtain t3 im where t3: "DLCCCHImmediateAssignment ce i ?t2 = Some t3" "kept c ?t2 t3" "tk_bssgp t3 = tk_bssgp ?t2"
    "tk_out t3 = tk_out ?t2 @ [CcchImmediateAssignment im]" "im_tlli im = tbf_tlli (tk_dlTbf ?t2 i)"
    "im_ts im \<in> slots (tbf_allocatedTs (tk_dlTbf ?t2 i))" "\<forall>v. tbf_state (tk_dlTbf t3 v) = tbf_state (tk_dlTbf ?t2 v)"
    using ccch_assignment [OF kept_sched_ok [OF ok k] tags ne] by blast
  have st: "tbf_state (tk_dlTbf ?t2 v) = tbf_state (tk_dlTbf t v)" for v unfolding t2 using d(3) by simp
  have "start_downlink ce i None True t = Some (RESOURCES_ALLOCATED, t3)" using t1(1) t3(1) by (simp add: start_downlink_def Let_def)
  moreover have "kept c t t3" using k t3(2) kept_trans by blast
  moreover have "im_tlli im = tbf_tlli (tk_dlTbf t i)" "im_ts im \<in> slots (tbf_allocatedTs (tk_dlTbf t i))"
    using t3(5,6) d(1,2) unfolding t2 by simp_all
  moreover have "tk_out t3 = tk_out t @ [DlTbfActivation (dlTbfMsg i (on_dlLink i DLTbf_UpdateTSSpecificData t1)), CcchImmediateAssignment im]"
    using t3(4) t1(6) by simp
  moreover have "tk_bssgp t3 = qs" using t3(3) t2(4) by simp
  ultimately show ?thesis using t3(7) st by (intro exI [of _ t3]) auto
qed

lemma start_ok:
  assumes "task_ok c t" "c = limit 1 3 (qos_PrecedenceClass (dq_qos (um_rest msg)))" "cell_ok ce"
    "FindTbf_tlli (um_tlli msg) (ulTbf t) = None" "FindTbf_tlli (um_tlli msg) (tk_dlTbf t) = None"
    "first_free_tbf (tk_dlTbf t) = Some i" "spec_get (um_tlli msg) (tk_bssgp t) = (Some x, qs)"
  shows "\<exists>res t'. AllocateDLResources ce msg t = Some (res, t') \<and> task_ok c t' \<and>
     (if \<exists>trx ts. slot_open (precs c) (ce_grr ce) ((dq_qos (um_rest msg))\<lparr>qos_MultislotClass := 1\<rparr>) DL i NULL_TRX {} (tsPool t) trx ts
      then res = RESOURCES_ALLOCATED \<and> tk_bssgp t' = qs \<and> tbf_state (tk_dlTbf t' i) = ACTIVATING \<and> tbf_tlli (tk_dlTbf t' i) = um_tlli msg \<and>
        (\<exists>m im. tk_out t' = tk_out t @ [DlTbfActivation m, CcchImmediateAssignment im] \<and> im_tlli im = um_tlli msg \<and>
           im_ts im \<in> slots (tbf_allocatedTs (tk_dlTbf t' i))) \<and>
        (\<forall>v. v \<noteq> i \<longrightarrow> tbf_state (tk_dlTbf t' v) = tbf_state (tk_dlTbf t v) \<and> tbf_tlli (tk_dlTbf t' v) = tbf_tlli (tk_dlTbf t v))
      else res = RESOURCES_UNAVAILABLE \<and> tk_bssgp t' = tk_bssgp t \<and> tbf_state (tk_dlTbf t' i) = FREE \<and> tk_out t' = tk_out t)"
proof -
  let ?t1 = "EstablishDLTbf msg i t" and ?q = "dq_qos (um_rest msg)"
  note S = task_okD(1) [OF assms(1)]
  have none: "no_slot (tk_dlTbf t i)" using sched_okD(5) [OF S] first_freeD [OF assms(6)] by blast
  note E = establish_dl [OF S none, of msg]
  have ok1: "sched_ok c ?t1" using E(1) by (simp add: dl_step_def)
  have st1: "tbf_state (tk_dlTbf ?t1 i) = ACTIVATING" "tbf_tlli (tk_dlTbf ?t1 i) = um_tlli msg" "tbf_trx (tk_dlTbf ?t1 i) = NULL_TRX"
    by (simp_all add: EstablishDLTbf_tbf DL_ClearControlAckTag_def EstablishDLTbf_clear_def)
  let ?open = "\<exists>trx ts. slot_open (precs c) (ce_grr ce) (?q\<lparr>qos_MultislotClass := 1\<rparr>) DL i NULL_TRX {} (tsPool t) trx ts"
  have u1: "tbf_state (tk_dlTbf ?t1 i) \<noteq> FREE" using st1(1) by simp
  note D = dl_single_request [OF ok1 E(2) u1 assms(3,2), unfolded st1(3) EstablishDLTbf_tbf(3)]
  obtain b h' p' where r: "dl_sched (DLSingleTSResourceRequest (ce_schar ce) (ce_raw ce) (ce_grr ce) ?q i) ?t1 = Some (b, set_tsPool p' (?t1\<lparr>tk_dlTbf := h'\<rparr>))"
    "dl_step c i ?t1 (set_tsPool p' (?t1\<lparr>tk_dlTbf := h'\<rparr>))" "same_id (tk_dlTbf ?t1) h'" "same_by tags_of (tk_dlTbf ?t1) h'"
      "\<forall>v. v \<noteq> i \<longrightarrow> h' v = tk_dlTbf ?t1 v"
    and b: "b \<longleftrightarrow> ?open" and o: "if b then granted_ok (h' i) \<and> length (tbf_allocatedTs (h' i)) = MAX_TIMESLOTS else no_slot (h' i)"
    using D by (elim exE conjE)
  let ?t2 = "set_tsPool p' (?t1\<lparr>tk_dlTbf := h'\<rparr>)"
  have ok2: "sched_ok c ?t2" and s2: "dl_step c i t ?t2" using r(2) dl_step_trans [OF E(1) r(2)] by (simp_all add: dl_step_def)
  have t2: "tbf_state (tk_dlTbf ?t2 i) = ACTIVATING" "tbf_tlli (tk_dlTbf ?t2 i) = um_tlli msg" "tk_bssgp ?t2 = tk_bssgp t" "tk_out ?t2 = tk_out t"
    using r(3) st1 by (simp_all add: same_id_def EstablishDLTbf_tbf) (simp add: set_tsPool_def EstablishDLTbf_tbf)
  have run: "AllocateDLResources ce msg t = start_downlink ce i None b ?t2"
    using assms(4-6) r(1) by (simp add: AllocateDLResources_def TbfPool_EstablishDLTbf_def Let_def)
  show ?thesis
  proof (cases ?open)
    case True
    have g: "granted_ok (tk_dlTbf ?t2 i)" "length (tbf_allocatedTs (tk_dlTbf ?t2 i)) = MAX_TIMESLOTS" using o b True by simp_all
    have len: "length (dl_ctlAckTag (tk_dlTbf ?t2 i)) = ControlAckTagArrDepth"
      using r(4) E(3) by (simp add: same_by_def tags_of_def)
    have pdu: "spec_get (tbf_tlli (tk_dlTbf ?t2 i)) (tk_bssgp ?t2) = (Some x, qs)" using assms(7) t2(2,3) by simp
    obtain t3 m im where t3: "start_downlink ce i None True ?t2 = Some (RESOURCES_ALLOCATED, t3)" "kept c ?t2 t3" "tk_bssgp t3 = qs"
      "tk_out t3 = tk_out ?t2 @ [DlTbfActivation m, CcchImmediateAssignment im]" "im_tlli im = tbf_tlli (tk_dlTbf ?t2 i)"
      "im_ts im \<in> slots (tbf_allocatedTs (tk_dlTbf ?t2 i))" "\<forall>v. tbf_state (tk_dlTbf t3 v) = tbf_state (tk_dlTbf ?t2 v)"
      using start_granted [OF ok2 g len pdu] by blast
    have use: "same_use (tk_dlTbf ?t2 i) (tk_dlTbf t3 i)" using t3(2) by (simp add: kept_def)
    have "tbf_state (tk_dlTbf ?t2 i) \<noteq> FREE" unfolding t2(1) by simp
    then have "used_ok (tk_dlTbf ?t2 i)" by (rule granted_used [OF g(1)])
    then have u: "used_ok (tk_dlTbf t3 i)" using used_ok_use [OF use] by blast
    have ok3: "task_ok c t3" by (rule dl_step_task_ok [OF assms(1) dl_step_kept [OF s2 t3(2)] u])
    have "AllocateDLResources ce msg t = Some (RESOURCES_ALLOCATED, t3)" unfolding run using t3(1) b True by simp
    moreover have "tbf_state (tk_dlTbf t3 i) = ACTIVATING" "tbf_tlli (tk_dlTbf t3 i) = um_tlli msg" "im_tlli im = um_tlli msg"
      "im_ts im \<in> slots (tbf_allocatedTs (tk_dlTbf t3 i))" "tk_out t3 = tk_out t @ [DlTbfActivation m, CcchImmediateAssignment im]"
      using t2 t3(4-7) use by (simp_all add: same_use_def)
    moreover have "tbf_state (tk_dlTbf t3 v) = tbf_state (tk_dlTbf t v) \<and> tbf_tlli (tk_dlTbf t3 v) = tbf_tlli (tk_dlTbf t v)" if "v \<noteq> i" for v
    proof -
      have "same_use (tk_dlTbf ?t2 v) (tk_dlTbf t3 v)" using t3(2) by (simp add: kept_def)
      moreover have "tk_dlTbf ?t2 v = tk_dlTbf t v" using r(5) that by (simp add: EstablishDLTbf_tbf)
      ultimately show ?thesis using t3(7) by (simp add: same_use_def)
    qed
    ultimately show ?thesis using ok3 t3(3) True by auto
  next
    case False
    obtain t3 where t3: "DLTbf_ReleaseDLTbf False i ?t2 = Some t3" "dl_step c i ?t2 t3" "tbf_state (tk_dlTbf t3 i) = FREE" "no_slot (tk_dlTbf t3 i)"
      "tk_bssgp t3 = tk_bssgp ?t2" "tk_out t3 = tk_out ?t2" using dl_release [OF ok2, of i] by blast
    have "AllocateDLResources ce msg t = Some (RESOURCES_UNAVAILABLE, t3)"
      unfolding run using t3(1) b False by (simp add: start_downlink_def)
    moreover have "task_ok c t3"
      by (rule dl_step_task_ok [OF assms(1) dl_step_trans [OF s2 t3(2)]]) (use t3(3,4) in \<open>simp add: used_ok_def\<close>)
    ultimately show ?thesis using t3(3,5,6) t2(3,4) False by auto
  qed
qed

text \<open>
  C13: a downlink TBF for a mobile that has none. When a PDU waits for the mobile and a TBF object is free, the
  allocation ends, and it succeeds exactly when some timeslot is open to the mobile: then the PDU has left its queue,
  the TBF is being activated in the mobile's name, layer 1 hears of it and the assignment sent to the mobile names one
  of its timeslots. Otherwise the PDU stays where it is, the object is free again and nothing is sent.
\<close>

theorem downlink_started:
  assumes "task_ok c t" "c = limit 1 3 (qos_PrecedenceClass (dq_qos (um_rest msg)))" "cell_ok ce"
    "FindTbf_tlli (um_tlli msg) (ulTbf t) = None" "FindTbf_tlli (um_tlli msg) (tk_dlTbf t) = None"
    "first_free_tbf (tk_dlTbf t) = Some i" "spec_get (um_tlli msg) (tk_bssgp t) = (Some x, qs)"
  shows "\<exists>res t'. AllocateDLResources ce msg t = Some (res, t') \<and> task_ok c t' \<and>
     (if \<exists>trx ts. slot_open (precs c) (ce_grr ce) ((dq_qos (um_rest msg))\<lparr>qos_MultislotClass := 1\<rparr>) DL i NULL_TRX {} (tsPool t) trx ts
      then res = RESOURCES_ALLOCATED \<and> tk_bssgp t' = qs \<and> tbf_state (tk_dlTbf t' i) = ACTIVATING \<and> tbf_tlli (tk_dlTbf t' i) = um_tlli msg \<and>
        (\<exists>m im. tk_out t' = tk_out t @ [DlTbfActivation m, CcchImmediateAssignment im] \<and> im_tlli im = um_tlli msg \<and>
           im_ts im \<in> slots (tbf_allocatedTs (tk_dlTbf t' i)))
      else res = RESOURCES_UNAVAILABLE \<and> tk_bssgp t' = tk_bssgp t \<and> tbf_state (tk_dlTbf t' i) = FREE \<and> tk_out t' = tk_out t)"
  using start_ok [OF assms, unfolded if_bool_eq_conj] unfolding if_bool_eq_conj by blast

definition waiting_pdu :: "32 word \<Rightarrow> DlQos DlUnitData" where
  "waiting_pdu tlli = \<lparr>um_tlli = tlli, um_pdu_data = 0, um_pdu_data_len = 3, um_rest = \<lparr>dq_mode = ACKNOWLEDGED_RLC_MODE, dq_qos = qos_of 4\<rparr>\<rparr>"

definition waiting_for :: "32 word \<Rightarrow> DlQos TlliPdus" where
  "waiting_for tlli = \<lparr>tp_tlli = tlli, tp_high = False, tp_levels = (replicate BSSGP_MAX_NETWORK_QOS_LEVELS [])[0 := [(0, 3, waiting_pdu tlli)]]\<rparr>"

text \<open>The same task with PDUs waiting for two mobiles.\<close>

definition waiting_task :: Task where
  "waiting_task = idle_task\<lparr>tk_bssgp := [waiting_for 7, waiting_for 9]\<rparr>"

lemma waiting_task_read [simp]:
  "ulTbf waiting_task = ulTbf idle_task" "tk_dlTbf waiting_task = tk_dlTbf idle_task" "tsPool waiting_task = tsPool idle_task"
  "tk_bssgp waiting_task = [waiting_for 7, waiting_for 9]" "tk_out waiting_task = []"
  by (simp_all add: waiting_task_def)

lemma waiting_task_ok: "task_ok 1 waiting_task"
  using idle_task_ok unfolding task_ok_def sched_ok_def waiting_task_read .

lemma one_slot_class:
  "class_index ((qos_of 4)\<lparr>qos_MultislotClass := 1\<rparr>) = 0" "\<exists>opt \<in> multislot_options 0. 5 \<in> fst opt \<and> 5 \<in> snd opt"
  "FindAvailableEntries (0 :: nat) 1 1 (ScheduleQueue_new DL) = Some 9"
proof -
  show "class_index ((qos_of 4)\<lparr>qos_MultislotClass := 1\<rparr>) = 0" by (simp add: qos_of_def class_index_def limit_def)
  show "\<exists>opt \<in> multislot_options 0. 5 \<in> fst opt \<and> 5 \<in> snd opt"
    unfolding ex_options [where P = "\<lambda>D U. 5 \<in> D \<and> 5 \<in> U"] by code_simp
  show "FindAvailableEntries (0 :: nat) 1 1 (ScheduleQueue_new DL) = Some 9" by code_simp
qed

lemma slot_open_new:
  "slot_open (precs 1) (grr_of [5, 7]) ((qos_of 4)\<lparr>qos_MultislotClass := 1\<rparr>) DL 0 NULL_TRX {} (TSPool_new buf) 0 5"
proof -
  have v: "IsTrxTsValid 0 5" by (simp add: IsTrxTsValid_def)
  show ?thesis
    unfolding slot_open_def one_slot_class(1) slot_queue_def new_pool_info [OF v] GetQueue_new
    using v one_slot_class(2,3)
    by (simp add: usable_def grr_of_def OkayToAddUser_def ScheduleInfo_new_def qos_of_def limit_def precs_def)
qed

theorem downlink_started_witness:
  "\<exists>t' m im. AllocateDLResources sample_cell (waiting_pdu 7) waiting_task = Some (RESOURCES_ALLOCATED, t') \<and>
     tk_bssgp t' = [(waiting_for 7)\<lparr>tp_levels := replicate BSSGP_MAX_NETWORK_QOS_LEVELS []\<rparr>, waiting_for 9] \<and>
     tk_out t' = [DlTbfActivation m, CcchImmediateAssignment im] \<and> im_tlli im = 7"
proof -
  have 1: "FindTbf_tlli (um_tlli (waiting_pdu 7)) (ulTbf waiting_task) = None" "FindTbf_tlli (um_tlli (waiting_pdu 7)) (tk_dlTbf waiting_task) = None"
    by (simp_all add: FindTbf_tlli_def find_used_def find_None_iff)
  have 2: "first_free_tbf (tk_dlTbf waiting_task) = Some 0" by (simp add: first_free_tbf_def upt_conv_Cons)
  have 3: "spec_get (um_tlli (waiting_pdu 7)) (tk_bssgp waiting_task) =
      (Some (0, 3, waiting_pdu 7), [(waiting_for 7)\<lparr>tp_levels := replicate BSSGP_MAX_NETWORK_QOS_LEVELS []\<rparr>, waiting_for 9])"
    by (simp add: spec_get_def of_tlli_def waiting_pdu_def waiting_for_def on_tlli_def drop_item_def upt_conv_Cons numeral_eq_Suc)
  have 4: "1 = limit 1 3 (qos_PrecedenceClass (dq_qos (um_rest (waiting_pdu 7))))" by (simp add: waiting_pdu_def qos_of_def limit_def)
  have 5: "\<exists>trx ts. slot_open (precs 1) (ce_grr sample_cell) ((dq_qos (um_rest (waiting_pdu 7)))\<lparr>qos_MultislotClass := 1\<rparr>) DL 0 NULL_TRX {}
      (tsPool waiting_task) trx ts"
    using slot_open_new by (auto simp: waiting_pdu_def sample_cell_def)
  have 6: "um_tlli (waiting_pdu 7) = 7" by (simp add: waiting_pdu_def)
  from downlink_started [OF waiting_task_ok 4 sample_cell_ok 1 2 3, unfolded if_P [OF 5] waiting_task_read(5) append_Nil 6]
  show ?thesis by blast
qed

section \<open>A check of the queues that does not end\<close>

text \<open>A mobile with a downlink TBF that is not about to be released.\<close>

definition active_tlli :: "32 word \<Rightarrow> Task \<Rightarrow> bool" where
  "active_tlli tlli t \<longleftrightarrow> (case FindTbf_tlli tlli (tk_dlTbf t) of None \<Rightarrow> False | Some i \<Rightarrow> tbf_state (tk_dlTbf t i) \<noteq> INACTIVE)"

lemma active_allocate:
  "active_tlli (um_tlli msg) t \<Longrightarrow> AllocateDLResources ce msg t = Some (TBF_ACTIVE, t)"
  by (auto simp: active_tlli_def AllocateDLResources_def split: option.splits)

lemma active_bssgp [simp]: "active_tlli tlli (t\<lparr>tk_bssgp := qs\<rparr>) = active_tlli tlli t"
  by (simp add: active_tlli_def split: option.split)

text \<open>Every mobile with a PDU at the level is active, and none is the first one.\<close>

definition all_active :: "nat \<Rightarrow> 32 word \<Rightarrow> DlQos TlliPdus list \<Rightarrow> Task \<Rightarrow> bool" where
  "all_active l first qs t \<longleftrightarrow> (\<exists>a \<in> set qs. tp_levels a ! l \<noteq> []) \<and>
     (\<forall>a \<in> set qs. tp_levels a ! l \<noteq> [] \<longrightarrow> um_tlli (snd (snd (hd (tp_levels a ! l)))) = tp_tlli a \<and> tp_tlli a \<noteq> first \<and>
        active_tlli (tp_tlli a) t)"

lemma all_active_next:
  assumes "all_active l first qs t"
  obtains b n msg qs' where "spec_next l qs = (Some (b, n, msg), qs')" "um_tlli msg \<noteq> first" "active_tlli (um_tlli msg) t"
    "all_active l first qs' (t\<lparr>tk_bssgp := qs'\<rparr>)"
proof -
  obtain a where a: "find (\<lambda>a. tp_levels a ! l \<noteq> []) qs = Some a" "a \<in> set qs" "tp_levels a ! l \<noteq> []"
    using assms unfolding all_active_def
    by (cases "find (\<lambda>a. tp_levels a ! l \<noteq> []) qs") (auto simp: find_None_iff find_Some_iff)
  obtain b n msg where m: "hd (tp_levels a ! l) = (b, n, msg)" by (rule prod_cases3)
  let ?qs = "filter (\<lambda>b. tp_tlli b \<noteq> tp_tlli a) qs @ [a]"
  have n: "um_tlli msg = tp_tlli a" "tp_tlli a \<noteq> first" "active_tlli (tp_tlli a) t"
    using assms a(2,3) m by (auto simp: all_active_def)
  have "all_active l first ?qs (t\<lparr>tk_bssgp := ?qs\<rparr>)"
    using assms a(2,3) by (auto simp: all_active_def)
  then show ?thesis using that [of b n msg ?qs] a(1) m n by (simp add: spec_next_def)
qed

lemma msg_loop_spins:
  "msg_loop ce l first msg t = Some t' \<Longrightarrow> active_tlli (um_tlli msg) t \<Longrightarrow> all_active l first (tk_bssgp t) t \<Longrightarrow> False"
proof (induction rule: msg_loop.raw_induct [rotated 1, consumes 1, case_names step])
  case (step loop ce l first msg t t')
  obtain b n msg2 qs2 where n: "spec_next l (tk_bssgp t) = (Some (b, n, msg2), qs2)" "um_tlli msg2 \<noteq> first"
    "active_tlli (um_tlli msg2) t" "all_active l first qs2 (t\<lparr>tk_bssgp := qs2\<rparr>)" using all_active_next [OF step.prems(2)] by blast
  have l: "loop ce l first msg2 (t\<lparr>tk_bssgp := qs2\<rparr>) = Some t'"
    using step.hyps n(1,2) active_allocate [OF step.prems(1)] by (simp add: Let_def)
  show False by (rule step.IH [OF l]) (use n(3,4) in simp_all)
qed

lemma find_tlli_after:
  assumes "\<forall>v. v \<noteq> i \<longrightarrow> tbf_state (h' v) = tbf_state (h v) \<and> tbf_tlli (h' v) = tbf_tlli (h v)"
    "tbf_state (h i) = FREE" "tbf_tlli (h' i) \<noteq> tlli"
  shows "FindTbf_tlli tlli h' = FindTbf_tlli tlli h"
proof -
  have "(tbf_state (h' v) \<noteq> FREE \<and> tbf_tlli (h' v) = tlli) = (tbf_state (h v) \<noteq> FREE \<and> tbf_tlli (h v) = tlli)" for v
    using assms by (cases "v = i") auto
  then show ?thesis by (simp add: FindTbf_tlli_def find_used_def)
qed

text \<open>The first mobile's only PDU at level \<open>l\<close> is taken.\<close>

lemma take_first:
  assumes "length (tp_levels a) = BSSGP_MAX_NETWORK_QOS_LEVELS" "tp_levels a ! 0 = [x]" "\<forall>b \<in> set qs. tp_tlli b \<noteq> tp_tlli a"
  shows "spec_next 0 (a # qs) = (Some x, qs @ [a])" "spec_get (tp_tlli a) (qs @ [a]) = (Some x, qs @ [drop_item True 0 a])"
    "tp_levels (drop_item True 0 a) ! 0 = []"
proof -
  have f: "filter (\<lambda>b. tp_tlli b \<noteq> tp_tlli a) qs = qs" using assms(3) by simp
  show "spec_next 0 (a # qs) = (Some x, qs @ [a])" using assms(2) f by (simp add: spec_next_def)
  have o: "of_tlli (tp_tlli a) (qs @ [a]) = Some a" using assms(3) by (induction qs) (auto simp: of_tlli_def)
  have "on_tlli (tp_tlli a) (drop_item True 0) (qs @ [a]) = qs @ [drop_item True 0 a]"
    using assms(3) by (induction qs) (auto simp: on_tlli_def)
  then show "spec_get (tp_tlli a) (qs @ [a]) = (Some x, qs @ [drop_item True 0 a])"
    using assms(2) o by (simp add: spec_get_def upt_conv_Cons)
  show "tp_levels (drop_item True 0 a) ! 0 = []" using assms(1,2) by (simp add: drop_item_def Let_def)
qed

text \<open>
  C33: the task can hang. When the mobile at the head of the first level has one PDU there, no TBF, and a timeslot is
  open to it, and every other mobile with a PDU at that level has a downlink TBF that is going on (there is one),
  \<open>CheckDLMsgQueues\<close> never returns: the first mobile's PDU is taken and its queue is empty, so the loop that waits
  to meet that mobile again goes round among the others for ever.
\<close>

theorem queue_check_never_ends:
  assumes "task_ok c t" "c = limit 1 3 (qos_PrecedenceClass (dq_qos (um_rest msg)))" "cell_ok ce"
    "FindTbf_tlli (um_tlli msg) (ulTbf t) = None" "FindTbf_tlli (um_tlli msg) (tk_dlTbf t) = None"
    "first_free_tbf (tk_dlTbf t) = Some i"
    "slot_open (precs c) (ce_grr ce) ((dq_qos (um_rest msg))\<lparr>qos_MultislotClass := 1\<rparr>) DL i NULL_TRX {} (tsPool t) trx ts"
    "tk_bssgp t = a # qs" "tp_tlli a = um_tlli msg" "length (tp_levels a) = BSSGP_MAX_NETWORK_QOS_LEVELS" "tp_levels a ! 0 = [(b, n, msg)]"
    "\<forall>b \<in> set qs. tp_tlli b \<noteq> tp_tlli a" "all_active 0 (um_tlli msg) qs t"
  shows "CheckDLMsgQueues ce t = None"
proof -
  let ?t = "t\<lparr>tk_bssgp := qs @ [a]\<rparr>" and ?qs = "qs @ [drop_item True 0 a]"
  note T = take_first [OF assms(10,11,12)]
  have ok: "task_ok c ?t" using assms(1) by (simp add: task_ok_def sched_ok_def)
  have get: "spec_get (um_tlli msg) (tk_bssgp ?t) = (Some (b, n, msg), ?qs)" using T(2) assms(9) by simp
  have op: "\<exists>trx ts. slot_open (precs c) (ce_grr ce) ((dq_qos (um_rest msg))\<lparr>qos_MultislotClass := 1\<rparr>) DL i NULL_TRX {} (tsPool ?t) trx ts"
    using assms(7) by auto
  have find: "FindTbf_tlli (um_tlli msg) (ulTbf ?t) = None" "FindTbf_tlli (um_tlli msg) (tk_dlTbf ?t) = None" "first_free_tbf (tk_dlTbf ?t) = Some i"
    using assms(4-6) by simp_all
  obtain t1 where t1: "AllocateDLResources ce msg ?t = Some (RESOURCES_ALLOCATED, t1)" "tk_bssgp t1 = ?qs"
    "tbf_tlli (tk_dlTbf t1 i) = um_tlli msg"
    "\<forall>v. v \<noteq> i \<longrightarrow> tbf_state (tk_dlTbf t1 v) = tbf_state (tk_dlTbf ?t v) \<and> tbf_tlli (tk_dlTbf t1 v) = tbf_tlli (tk_dlTbf ?t v)"
    using start_ok [OF ok assms(2,3) find get, unfolded if_P [OF op]] by blast
  have free: "tbf_state (tk_dlTbf ?t i) = FREE" using first_freeD [OF find(3)] by blast
  have act: "active_tlli tlli t1" if act: "active_tlli tlli t" "tlli \<noteq> um_tlli msg" for tlli
  proof -
    have e: "FindTbf_tlli tlli (tk_dlTbf t1) = FindTbf_tlli tlli (tk_dlTbf ?t)"
      by (rule find_tlli_after [OF t1(4) free]) (use t1(3) act(2) in simp)
    obtain j where j: "FindTbf_tlli tlli (tk_dlTbf t) = Some j" "tbf_state (tk_dlTbf t j) \<noteq> INACTIVE"
      using act(1) by (auto simp: active_tlli_def split: option.splits)
    have "j \<noteq> i" using find_usedD [of _ "tk_dlTbf t" j] j(1) free by (auto simp: FindTbf_tlli_def)
    then show ?thesis using e j t1(4) by (simp add: active_tlli_def)
  qed
  have "all_active 0 (um_tlli msg) ?qs t1"
    using assms(13) T(3) act unfolding all_active_def by auto
  then obtain b2 n2 msg2 qs2 where n: "spec_next 0 (tk_bssgp t1) = (Some (b2, n2, msg2), qs2)" "um_tlli msg2 \<noteq> um_tlli msg"
    "active_tlli (um_tlli msg2) t1" "all_active 0 (um_tlli msg) qs2 (t1\<lparr>tk_bssgp := qs2\<rparr>)"
    using all_active_next [of 0 "um_tlli msg" ?qs t1] t1(2) by metis
  have "msg_loop ce 0 (um_tlli msg) msg2 (t1\<lparr>tk_bssgp := qs2\<rparr>) = None"
    using msg_loop_spins [of ce 0 "um_tlli msg" msg2 "t1\<lparr>tk_bssgp := qs2\<rparr>"] n(3,4)
    by (cases "msg_loop ce 0 (um_tlli msg) msg2 (t1\<lparr>tk_bssgp := qs2\<rparr>)") auto
  then have "msg_loop ce 0 (um_tlli msg) msg ?t = None"
    using t1(1) n(1,2) by (subst msg_loop.simps) (simp add: Let_def)
  then show ?thesis using T(1) assms(8) by (simp add: CheckDLMsgQueues_def upt_conv_Cons Let_def)
qed

text \<open>Mobile 7 has a PDU and no TBF, mobile 9 a PDU and a TBF on slot 7.\<close>

definition going_tbf :: DLTbf where
  "going_tbf = dl_tbf0\<lparr>tbf_tlli := 9, tbf_trx := 0, tbf_allocatedTs := (replicate 8 False)[7 := True], tbf_naturalTs := (replicate 8 False)[7 := True]\<rparr>"

definition going_task :: Task where
  "going_task = set_dlTbf 1 going_tbf waiting_task"

lemma going_task_ok: "task_ok 1 going_task"
proof -
  have b: "tbf_ok going_tbf" "used_ok going_tbf" "tbf_state going_tbf = ALLOCATED"
    by (simp_all add: going_tbf_def tbf_ok_def used_ok_def natural_ok_def no_slot_def dl_tbf0_def slots_update IsTrxValid_def)
  have "tk_dlTbf going_task = (tk_dlTbf idle_task)(1 := going_tbf)" "ulTbf going_task = ulTbf idle_task" "tsPool going_task = tsPool idle_task"
    by (simp_all add: going_task_def)
  then show ?thesis
    using idle_task_ok b by (simp add: task_ok_def sched_ok_def dir_ok_def held_new_pool queues_ok_new)
qed

theorem queue_check_never_ends_witness: "CheckDLMsgQueues sample_cell going_task = None"
proof -
  have g: "tk_dlTbf going_task = (tk_dlTbf idle_task)(1 := going_tbf)" "ulTbf going_task = ulTbf idle_task" "tsPool going_task = tsPool idle_task"
    "tk_bssgp going_task = [waiting_for 7, waiting_for 9]"
    by (simp_all add: going_task_def) (simp add: set_dlTbf_def)
  have s: "tbf_state going_tbf = ALLOCATED" "tbf_tlli going_tbf = 9" by (simp_all add: going_tbf_def dl_tbf0_def)
  have 1: "FindTbf_tlli (um_tlli (waiting_pdu 7)) (ulTbf going_task) = None" "FindTbf_tlli (um_tlli (waiting_pdu 7)) (tk_dlTbf going_task) = None"
    unfolding g using s by (simp_all add: FindTbf_tlli_def find_used_def find_None_iff waiting_pdu_def)
  have 2: "first_free_tbf (tk_dlTbf going_task) = Some 0" unfolding g by (simp add: first_free_tbf_def upt_conv_Cons)
  have 3: "1 = limit 1 3 (qos_PrecedenceClass (dq_qos (um_rest (waiting_pdu 7))))" by (simp add: waiting_pdu_def qos_of_def limit_def)
  have 4: "slot_open (precs 1) (ce_grr sample_cell) ((dq_qos (um_rest (waiting_pdu 7)))\<lparr>qos_MultislotClass := 1\<rparr>) DL 0 NULL_TRX {}
      (tsPool going_task) 0 5"
    using slot_open_new by (simp add: waiting_pdu_def sample_cell_def g)
  have 5: "tp_tlli (waiting_for 7) = um_tlli (waiting_pdu 7)" "length (tp_levels (waiting_for 7)) = BSSGP_MAX_NETWORK_QOS_LEVELS"
    "tp_levels (waiting_for 7) ! 0 = [(0, 3, waiting_pdu 7)]" "\<forall>b \<in> set [waiting_for 9]. tp_tlli b \<noteq> tp_tlli (waiting_for 7)"
    by (simp_all add: waiting_for_def waiting_pdu_def)
  have "FindTbf_tlli 9 (tk_dlTbf going_task) = Some 1"
    unfolding g using s by (simp add: FindTbf_tlli_def find_used_def upt_conv_Cons)
  then have "active_tlli 9 going_task" using s by (simp add: active_tlli_def g)
  then have 6: "all_active 0 (um_tlli (waiting_pdu 7)) [waiting_for 9] going_task"
    by (simp add: all_active_def waiting_for_def waiting_pdu_def)
  show ?thesis by (rule queue_check_never_ends [OF going_task_ok 3 sample_cell_ok 1 2 4 g(4) 5 6])
qed

end
