(* ===== verification/UplinkMessages.thy ===== *)
theory UplinkMessages
  imports MacAllocation AckNackIe
begin

text \<open>
  The messages of the mobiles that the task acts on: \<^verbatim>\<open>RlcMacMsgType\<close>, \<^verbatim>\<open>MsgPacketControlAcknowledgement\<close>,
  \<^verbatim>\<open>MsgPacketDownlinkAckNack\<close>, \<^verbatim>\<open>MsgPacketResourceRequest\<close> and the decoders of their information elements.
  One-bit enumerations whose names nothing uses are kept as their value.
\<close>

section \<open>Steps of a decoder\<close>

text \<open>The decoder of a member object, and an optional field: a bit, then the field or what stands for its absence.\<close>

definition in_member :: "('o \<Rightarrow> 'i) \<Rightarrow> ('i \<Rightarrow> 'o \<Rightarrow> 'o) \<Rightarrow> ('i \<times> 's) step \<Rightarrow> ('o \<times> 's) step" where
  "in_member get put f = (\<lambda>(ob, s). case f (get ob, s) of None \<Rightarrow> None | Some (r, x, s') \<Rightarrow> Some (r, put x ob, s'))"

definition store :: "('o \<Rightarrow> 'o) \<Rightarrow> ('o \<times> 's) step" where
  "store u = (\<lambda>(ob, s). Some (RLC_MAC_SUCCESS, u ob, s))"

definition optional_field :: "('o \<times> BitStreamIn) step \<Rightarrow> ('o \<Rightarrow> 'o) \<Rightarrow> ('o \<times> BitStreamIn) step" where
  "optional_field f absent = (\<lambda>(ob, s).
     case ExtractBits8 1 s of
       None \<Rightarrow> None
     | Some (r, v, s') \<Rightarrow>
         if r \<noteq> RLC_MAC_SUCCESS then Some (r, ob, s')
         else if v = Some 1 then f (ob, s') else Some (RLC_MAC_SUCCESS, absent ob, s'))"

section \<open>Information elements\<close>

record IeAccessType =
  at_isValid :: bool
  at_accessType :: octet

record IeGlobalTFI =
  gt_isValid :: bool
  gt_tfiType :: TFI_TYPE
  gt_globalTFI :: octet

record IeTLLI =
  tl_isValid :: bool
  tl_tlli :: "32 word"

record IeChangeMark =
  cm_isValid :: bool
  cm_changeMark :: octet

datatype IE_RLC_MODE = RLC_ACKNOWLEDGED | RLC_UNACKNOWLEDGED

record IeRlcMode =
  rm_isValid :: bool
  rm_rlcMode :: IE_RLC_MODE

record IeChannelRequestDescription =
  cd_isValid :: bool
  cd_peakThroughputClass :: octet
  cd_radioPriority :: octet
  cd_rlcMode :: IeRlcMode
  cd_llcPduType :: octet
  cd_rlcOctetCount :: "16 word"

definition tfiType_of :: "octet \<Rightarrow> TFI_TYPE" where
  "tfiType_of v = (if v = 0 then UPLINK_TFI else DOWNLINK_TFI)"

definition rlcMode_of :: "octet \<Rightarrow> IE_RLC_MODE" where
  "rlcMode_of v = (if v = 0 then RLC_ACKNOWLEDGED else RLC_UNACKNOWLEDGED)"

definition at_DecodeIe :: "(IeAccessType \<times> BitStreamIn) step" where
  "at_DecodeIe = run_checked [extract_field 2 (\<lambda>v d. d\<lparr>at_accessType := v\<rparr>), store (\<lambda>d. d\<lparr>at_isValid := True\<rparr>)]"

definition gt_DecodeIe :: "(IeGlobalTFI \<times> BitStreamIn) step" where
  "gt_DecodeIe = run_checked
     [extract_field 1 (\<lambda>v d. d\<lparr>gt_tfiType := tfiType_of v\<rparr>),
      extract_field 5 (\<lambda>v d. d\<lparr>gt_globalTFI := v\<rparr>),
      store (\<lambda>d. d\<lparr>gt_isValid := True\<rparr>)]"

text \<open>\<open>ExtractBits32\<close> writes into the member.\<close>

definition tl_DecodeIe :: "(IeTLLI \<times> BitStreamIn) step" where
  "tl_DecodeIe = run_checked
     [(\<lambda>(d, s). case ExtractBits32 32 s of None \<Rightarrow> None
        | Some (r, v, s') \<Rightarrow> Some (r, (case v of None \<Rightarrow> d | Some w \<Rightarrow> d\<lparr>tl_tlli := w\<rparr>), s')),
      store (\<lambda>d. d\<lparr>tl_isValid := True\<rparr>)]"

definition tfi_DecodeIe :: "(IeTFI \<times> BitStreamIn) step" where
  "tfi_DecodeIe = run_checked [extract_field 5 (\<lambda>v d. d\<lparr>tfi_val := v\<rparr>), store (\<lambda>d. d\<lparr>tfi_isValid := True\<rparr>)]"

definition cm_DecodeIe :: "(IeChangeMark \<times> BitStreamIn) step" where
  "cm_DecodeIe = run_checked [extract_field 2 (\<lambda>v d. d\<lparr>cm_changeMark := v\<rparr>), store (\<lambda>d. d\<lparr>cm_isValid := True\<rparr>)]"

definition rm_DecodeIe :: "(IeRlcMode \<times> BitStreamIn) step" where
  "rm_DecodeIe = run_checked [extract_field 1 (\<lambda>v d. d\<lparr>rm_rlcMode := rlcMode_of v\<rparr>), store (\<lambda>d. d\<lparr>rm_isValid := True\<rparr>)]"

definition cd_DecodeIe :: "(IeChannelRequestDescription \<times> BitStreamIn) step" where
  "cd_DecodeIe = run_checked
     [extract_field 4 (\<lambda>v d. d\<lparr>cd_peakThroughputClass := v\<rparr>),
      extract_field 2 (\<lambda>v d. d\<lparr>cd_radioPriority := v\<rparr>),
      in_member cd_rlcMode (\<lambda>x d. d\<lparr>cd_rlcMode := x\<rparr>) rm_DecodeIe,
      extract_field 1 (\<lambda>v d. d\<lparr>cd_llcPduType := v\<rparr>),
      (\<lambda>(d, s). case ExtractBits16 16 s of None \<Rightarrow> None
        | Some (r, v, s') \<Rightarrow> Some (r, (case v of None \<Rightarrow> d | Some w \<Rightarrow> d\<lparr>cd_rlcOctetCount := w\<rparr>), s')),
      store (\<lambda>d. d\<lparr>cd_isValid := True\<rparr>)]"

section \<open>The radio access capability\<close>

text \<open>An entry of the array; \<open>rv_a5Bits\<close> are the seven members \<^verbatim>\<open>a51Bit\<close> to \<^verbatim>\<open>a57Bit\<close>.\<close>

record RaValuePart =
  rv_isValid :: bool
  rv_accessTechnologyType :: octet
  rv_length :: octet
  rv_rfPowerCapability :: octet
  rv_a5Bits :: "octet list"
  rv_esInd :: octet
  rv_ps :: octet
  rv_vgcs :: octet
  rv_vbs :: octet
  rv_hscsd_isValid :: bool
  rv_hscsdMultislotClass :: octet
  rv_gprs_isValid :: bool
  rv_gprsMultislotClass :: octet
  rv_gprsExtendedDynamicAllocationCapability :: octet
  rv_switch_isValid :: bool
  rv_smsValue :: octet
  rv_smValue :: octet

record IeMSRadioAccessCapability =
  mc_isValid :: bool
  mc_parts :: "RaValuePart list"

definition upd_part :: "nat \<Rightarrow> (RaValuePart \<Rightarrow> RaValuePart) \<Rightarrow> IeMSRadioAccessCapability \<Rightarrow> IeMSRadioAccessCapability" where
  "upd_part i f d = d\<lparr>mc_parts := (mc_parts d)[i := f (mc_parts d ! i)]\<rparr>"

definition into_part :: "nat \<Rightarrow> (octet \<Rightarrow> RaValuePart \<Rightarrow> RaValuePart) \<Rightarrow> nat \<Rightarrow> (IeMSRadioAccessCapability \<times> BitStreamIn) step" where
  "into_part n f i = extract_field n (\<lambda>v. upd_part i (f v))"

text \<open>What is left out is as in the part before; in the first part the members keep their value.\<close>

definition copy_a5 :: "nat \<Rightarrow> IeMSRadioAccessCapability \<Rightarrow> IeMSRadioAccessCapability" where
  "copy_a5 i d = (if i \<noteq> 0 then upd_part i (\<lambda>p. p\<lparr>rv_a5Bits := rv_a5Bits (mc_parts d ! (i - 1))\<rparr>) d else d)"

definition copy_multislot :: "nat \<Rightarrow> IeMSRadioAccessCapability \<Rightarrow> IeMSRadioAccessCapability" where
  "copy_multislot i d =
     (if i \<noteq> 0
      then let q = mc_parts d ! (i - 1) in
        upd_part i (\<lambda>p. p\<lparr>rv_hscsd_isValid := rv_hscsd_isValid q, rv_hscsdMultislotClass := rv_hscsdMultislotClass q,
           rv_gprs_isValid := rv_gprs_isValid q, rv_gprsMultislotClass := rv_gprsMultislotClass q,
           rv_gprsExtendedDynamicAllocationCapability := rv_gprsExtendedDynamicAllocationCapability q,
           rv_switch_isValid := rv_switch_isValid q, rv_smsValue := rv_smsValue q, rv_smValue := rv_smValue q\<rparr>) d
      else d)"

definition part_head :: "nat \<Rightarrow> (IeMSRadioAccessCapability \<times> BitStreamIn) step" where
  "part_head i = run_checked
     [into_part 4 (\<lambda>v p. p\<lparr>rv_accessTechnologyType := v\<rparr>) i,
      into_part 7 (\<lambda>v p. p\<lparr>rv_length := v\<rparr>) i,
      into_part 3 (\<lambda>v p. p\<lparr>rv_rfPowerCapability := v\<rparr>) i,
      optional_field (run_checked (map (\<lambda>k. into_part 1 (\<lambda>v p. p\<lparr>rv_a5Bits := (rv_a5Bits p)[k := v]\<rparr>) i) [0..<7])) (copy_a5 i),
      into_part 1 (\<lambda>v p. p\<lparr>rv_esInd := v\<rparr>) i,
      into_part 1 (\<lambda>v p. p\<lparr>rv_ps := v\<rparr>) i,
      into_part 1 (\<lambda>v p. p\<lparr>rv_vgcs := v\<rparr>) i,
      into_part 1 (\<lambda>v p. p\<lparr>rv_vbs := v\<rparr>) i]"

definition multislot_struct :: "nat \<Rightarrow> (IeMSRadioAccessCapability \<times> BitStreamIn) step" where
  "multislot_struct i = run_checked
     [optional_field (run_checked [into_part 5 (\<lambda>v p. p\<lparr>rv_hscsdMultislotClass := v\<rparr>) i,
          store (upd_part i (\<lambda>p. p\<lparr>rv_hscsd_isValid := True\<rparr>))])
        (upd_part i (\<lambda>p. p\<lparr>rv_hscsd_isValid := False\<rparr>)),
      optional_field (run_checked [into_part 5 (\<lambda>v p. p\<lparr>rv_gprsMultislotClass := v\<rparr>) i,
          into_part 1 (\<lambda>v p. p\<lparr>rv_gprsExtendedDynamicAllocationCapability := v\<rparr>) i,
          store (upd_part i (\<lambda>p. p\<lparr>rv_gprs_isValid := True\<rparr>))])
        (upd_part i (\<lambda>p. p\<lparr>rv_gprs_isValid := False\<rparr>)),
      optional_field (run_checked [into_part 4 (\<lambda>v p. p\<lparr>rv_smsValue := v\<rparr>) i,
          into_part 4 (\<lambda>v p. p\<lparr>rv_smValue := v\<rparr>) i,
          store (upd_part i (\<lambda>p. p\<lparr>rv_switch_isValid := True\<rparr>))])
        (upd_part i (\<lambda>p. p\<lparr>rv_switch_isValid := False\<rparr>))]"

text \<open>
  The bit before the multislot capabilities is the one extraction whose result is not checked: when it fails
  \<^verbatim>\<open>val\<close> still is the bit before it, and the loop goes on.  The first component says that the function returns.
\<close>

definition part_multislot :: "nat \<Rightarrow> IeMSRadioAccessCapability \<times> BitStreamIn \<Rightarrow>
  (bool \<times> RlcMacResult \<times> IeMSRadioAccessCapability \<times> BitStreamIn) option" where
  "part_multislot i = (\<lambda>(d, s).
     case ExtractBits8 1 s of
       None \<Rightarrow> None
     | Some (r, v, s') \<Rightarrow>
         if (case v of None \<Rightarrow> rv_vbs (mc_parts d ! i) | Some w \<Rightarrow> w) = 1
         then map_option (\<lambda>(r, ds). (r \<noteq> RLC_MAC_SUCCESS, r, ds)) (multislot_struct i (d, s'))
         else Some (False, r, copy_multislot i d, s'))"

text \<open>The loop over the three entries, from entry \<open>i\<close>, with the last result code.\<close>

abbreviation ra_valid :: "IeMSRadioAccessCapability \<Rightarrow> IeMSRadioAccessCapability" where
  "ra_valid d \<equiv> d\<lparr>mc_isValid := True\<rparr>"

fun ra_loop :: "nat list \<Rightarrow> RlcMacResult \<Rightarrow> (IeMSRadioAccessCapability \<times> BitStreamIn) step" where
  "ra_loop [] r (d, s) = Some (r, ra_valid d, s)"
| "ra_loop (i # is) _ (d, s) =
     (case (if i \<noteq> 0 then ExtractBits8 1 s else Some (RLC_MAC_SUCCESS, Some 1, s)) of
        None \<Rightarrow> None
      | Some (r, v, s) \<Rightarrow>
          if r \<noteq> RLC_MAC_SUCCESS then Some (r, d, s)
          else if v = Some 0 then Some (r, ra_valid d, s)
          else (case part_head i (d, s) of
              None \<Rightarrow> None
            | Some (r, d, s) \<Rightarrow>
                if r \<noteq> RLC_MAC_SUCCESS then Some (r, d, s)
                else (case part_multislot i (d, s) of
                    None \<Rightarrow> None
                  | Some (stop, r, d, s) \<Rightarrow>
                      if stop then Some (r, d, s)
                      else ra_loop is r (upd_part i (\<lambda>p. p\<lparr>rv_isValid := True\<rparr>) d, s))))"

definition mc_DecodeIe :: "(IeMSRadioAccessCapability \<times> BitStreamIn) step" where
  "mc_DecodeIe = ra_loop [0..<MAX_ACCESS_TECHNOLOGIES] RLC_MAC_SUCCESS"

section \<open>Messages\<close>

text \<open>The message types of the uplink that the dispatcher knows.\<close>

abbreviation (input) PACKET_CELL_CHANGE_FAILURE :: octet where "PACKET_CELL_CHANGE_FAILURE \<equiv> 0"
abbreviation (input) PACKET_CONTROL_ACK :: octet where "PACKET_CONTROL_ACK \<equiv> 1"
abbreviation (input) PACKET_DOWNLINK_ACK_NACK :: octet where "PACKET_DOWNLINK_ACK_NACK \<equiv> 2"
abbreviation (input) PACKET_UPLINK_DUMMY_CONTROL_BLOCK :: octet where "PACKET_UPLINK_DUMMY_CONTROL_BLOCK \<equiv> 3"
abbreviation (input) PACKET_MOBILE_TBF_STATUS :: octet where "PACKET_MOBILE_TBF_STATUS \<equiv> 6"
abbreviation (input) PACKET_RESOURCE_REQUEST :: octet where "PACKET_RESOURCE_REQUEST \<equiv> 5"
abbreviation (input) PACKET_CONTROL_ACK_8_BIT :: octet where "PACKET_CONTROL_ACK_8_BIT \<equiv> 0x1f"

definition DecodeMsgType :: "(octet \<times> BitStreamIn) step" where
  "DecodeMsgType = extract_field 6 (\<lambda>v _. v)"

record MsgPacketControlAcknowledgement =
  ca_msgType :: octet
  ca_tlli :: IeTLLI
  ca_ctrlAck :: octet

definition ca_DecodeMsg :: "(MsgPacketControlAcknowledgement \<times> BitStreamIn) step" where
  "ca_DecodeMsg = run_checked
     [(\<lambda>(m, s). if ca_msgType m = PACKET_CONTROL_ACK then in_member ca_tlli (\<lambda>x m. m\<lparr>ca_tlli := x\<rparr>) tl_DecodeIe (m, s)
        else Some (RLC_MAC_SUCCESS, m, s)),
      extract_field 2 (\<lambda>v m. m\<lparr>ca_ctrlAck := v\<rparr>)]"

record ILevel =
  il_iLevel :: octet
  il_isValid :: bool

definition level_step :: "nat \<Rightarrow> (ILevel list \<times> BitStreamIn) step" where
  "level_step i = optional_field
     (run_checked [extract_field 4 (\<lambda>v l. l[i := (l ! i)\<lparr>il_iLevel := v\<rparr>]), store (\<lambda>l. l[i := (l ! i)\<lparr>il_isValid := True\<rparr>])])
     (\<lambda>l. l[i := (l ! i)\<lparr>il_isValid := False\<rparr>])"

definition levels_loop :: "(ILevel list \<times> BitStreamIn) step" where
  "levels_loop = run_checked (map level_step [0..<MAX_TIMESLOTS])"

record MsgPacketDownlinkAckNack =
  dn_dlTfi :: IeTFI
  dn_ackNackDescription :: IeAckNackDescription
  dn_chanReqDescription :: IeChannelRequestDescription
  dn_cValue :: octet
  dn_rxqual :: octet
  dn_signVar :: octet
  dn_ILevel :: "ILevel list"

definition dn_DecodeMsg :: "(MsgPacketDownlinkAckNack \<times> BitStreamIn) step" where
  "dn_DecodeMsg = run_checked
     [in_member dn_dlTfi (\<lambda>x m. m\<lparr>dn_dlTfi := x\<rparr>) tfi_DecodeIe,
      in_member dn_ackNackDescription (\<lambda>x m. m\<lparr>dn_ackNackDescription := x\<rparr>) an_DecodeIe,
      optional_field (in_member dn_chanReqDescription (\<lambda>x m. m\<lparr>dn_chanReqDescription := x\<rparr>) cd_DecodeIe) (\<lambda>m. m),
      extract_field 6 (\<lambda>v m. m\<lparr>dn_cValue := v\<rparr>),
      extract_field 3 (\<lambda>v m. m\<lparr>dn_rxqual := v\<rparr>),
      extract_field 6 (\<lambda>v m. m\<lparr>dn_signVar := v\<rparr>),
      in_member dn_ILevel (\<lambda>x m. m\<lparr>dn_ILevel := x\<rparr>) levels_loop]"

record MsgPacketResourceRequest =
  rq_accessType :: IeAccessType
  rq_globalTfi :: IeGlobalTFI
  rq_tlli :: IeTLLI
  rq_msRadioAccessCapability :: IeMSRadioAccessCapability
  rq_chanReqDescription :: IeChannelRequestDescription
  rq_changeMark :: IeChangeMark
  rq_cValue :: octet
  rq_signVar_isValid :: bool
  rq_signVar :: octet
  rq_ILevel :: "ILevel list"

definition rq_who :: "(MsgPacketResourceRequest \<times> BitStreamIn) step" where
  "rq_who = (\<lambda>(m, s).
     case ExtractBits8 1 s of
       None \<Rightarrow> None
     | Some (r, v, s') \<Rightarrow>
         if r \<noteq> RLC_MAC_SUCCESS then Some (r, m, s')
         else if v = Some 0
         then run_checked [in_member rq_globalTfi (\<lambda>x m. m\<lparr>rq_globalTfi := x\<rparr>) gt_DecodeIe,
             store (\<lambda>m. m\<lparr>rq_tlli := (rq_tlli m)\<lparr>tl_isValid := False\<rparr>\<rparr>)] (m, s')
         else run_checked [in_member rq_tlli (\<lambda>x m. m\<lparr>rq_tlli := x\<rparr>) tl_DecodeIe,
             store (\<lambda>m. m\<lparr>rq_globalTfi := (rq_globalTfi m)\<lparr>gt_isValid := False\<rparr>\<rparr>)] (m, s'))"

text \<open>\<open>rq_tail\<close> are the steps after the channel request description.\<close>

definition rq_head :: "(MsgPacketResourceRequest \<times> BitStreamIn) step list" where
  "rq_head =
     [optional_field (in_member rq_accessType (\<lambda>x m. m\<lparr>rq_accessType := x\<rparr>) at_DecodeIe)
        (\<lambda>m. m\<lparr>rq_accessType := (rq_accessType m)\<lparr>at_isValid := False\<rparr>\<rparr>),
      rq_who,
      optional_field (in_member rq_msRadioAccessCapability (\<lambda>x m. m\<lparr>rq_msRadioAccessCapability := x\<rparr>) mc_DecodeIe)
        (\<lambda>m. m\<lparr>rq_msRadioAccessCapability := (rq_msRadioAccessCapability m)\<lparr>mc_isValid := False\<rparr>\<rparr>),
      in_member rq_chanReqDescription (\<lambda>x m. m\<lparr>rq_chanReqDescription := x\<rparr>) cd_DecodeIe]"

definition rq_tail :: "(MsgPacketResourceRequest \<times> BitStreamIn) step list" where
  "rq_tail =
     [optional_field (in_member rq_changeMark (\<lambda>x m. m\<lparr>rq_changeMark := x\<rparr>) cm_DecodeIe)
        (\<lambda>m. m\<lparr>rq_changeMark := (rq_changeMark m)\<lparr>cm_isValid := False\<rparr>\<rparr>),
      extract_field 6 (\<lambda>v m. m\<lparr>rq_cValue := v\<rparr>),
      optional_field (run_checked [extract_field 6 (\<lambda>v m. m\<lparr>rq_signVar := v\<rparr>), store (\<lambda>m. m\<lparr>rq_signVar_isValid := True\<rparr>)])
        (\<lambda>m. m\<lparr>rq_signVar_isValid := False\<rparr>),
      in_member rq_ILevel (\<lambda>x m. m\<lparr>rq_ILevel := x\<rparr>) levels_loop]"

definition rq_DecodeMsg :: "(MsgPacketResourceRequest \<times> BitStreamIn) step" where
  "rq_DecodeMsg = run_checked (rq_head @ rq_tail)"

text \<open>The members of a request that \<open>AllocateULResources\<close> reads; the link's mode is cast from the element's.\<close>

fun link_mode :: "IE_RLC_MODE \<Rightarrow> RLC_MODE" where
  "link_mode RLC_ACKNOWLEDGED = ACKNOWLEDGED_RLC_MODE" | "link_mode RLC_UNACKNOWLEDGED = UNACKNOWLEDGED_RLC_MODE"

definition chan_req :: "IeChannelRequestDescription \<Rightarrow> ChanReq" where
  "chan_req d = \<lparr>cr_peakThroughputClass = cd_peakThroughputClass d, cr_radioPriority = cd_radioPriority d,
     cr_rlcMode = link_mode (rm_rlcMode (cd_rlcMode d))\<rparr>"

definition ra_capability :: "IeMSRadioAccessCapability \<Rightarrow> RaCapability" where
  "ra_capability d = \<lparr>rc_isValid = mc_isValid d, rc_parts = map (\<lambda>p. \<lparr>ra_isValid = rv_isValid p,
     ra_accessTechnologyType = uint (rv_accessTechnologyType p), ra_gprsMultislotClass = rv_gprsMultislotClass p\<rparr>) (mc_parts d)\<rparr>"

definition request_of :: "MsgPacketResourceRequest \<Rightarrow> ResourceRequest" where
  "request_of m = \<lparr>rr_globalTfi = (if gt_isValid (rq_globalTfi m) then Some (gt_tfiType (rq_globalTfi m), gt_globalTFI (rq_globalTfi m)) else None),
     rr_tlli = tl_tlli (rq_tlli m), rr_chanReq = chan_req (rq_chanReqDescription m),
     rr_raCapability = ra_capability (rq_msRadioAccessCapability m)\<rparr>"

end
