(* ===== verification/RequestDecoding.thy ===== *)
theory RequestDecoding
  imports UplinkMessages
begin

text \<open>
  What the decoders of the uplink messages return for messages that are written as GSM 04.60 and 04.08 say.
\<close>

section \<open>Reading the bits of a field\<close>

text \<open>The step reads exactly these bits, whatever follows them.\<close>

definition reads :: "('o \<times> BitStreamIn) step \<Rightarrow> bool list \<Rightarrow> 'o \<Rightarrow> 'o \<Rightarrow> bool" where
  "reads f bits ob ob' \<longleftrightarrow> (\<forall>s rest. in_wf s \<and> in_rest s = bits @ rest \<longrightarrow>
     (\<exists>s'. f (ob, s) = Some (RLC_MAC_SUCCESS, ob', s') \<and> in_wf s' \<and> in_rest s' = rest))"

lemma readsI:
  "(\<And>s rest. in_wf s \<Longrightarrow> in_rest s = bits @ rest \<Longrightarrow> \<exists>s'. f (ob, s) = Some (RLC_MAC_SUCCESS, ob', s') \<and> in_wf s' \<and> in_rest s' = rest) \<Longrightarrow>
   reads f bits ob ob'"
  by (simp add: reads_def)

lemma readsE:
  assumes "reads f bits ob ob'" "in_wf s" "in_rest s = bits @ rest"
  obtains s' where "f (ob, s) = Some (RLC_MAC_SUCCESS, ob', s')" "in_wf s'" "in_rest s' = rest"
  using assms unfolding reads_def by blast

lemma reads_value: "reads f bits ob x \<Longrightarrow> x = y \<Longrightarrow> reads f bits ob y"
  by simp

lemma reads_append:
  assumes "reads (run_checked fs) xs a b" "reads (run_checked gs) ys b c"
  shows "reads (run_checked (fs @ gs)) (xs @ ys) a c"
proof (rule readsI)
  fix s rest assume s: "in_wf s" "in_rest s = (xs @ ys) @ rest"
  obtain s1 where s1: "run_checked fs (a, s) = Some (RLC_MAC_SUCCESS, b, s1)" "in_wf s1" "in_rest s1 = ys @ rest"
    using readsE [OF assms(1) s(1), of "ys @ rest"] s(2) by auto
  obtain s2 where "run_checked gs (b, s1) = Some (RLC_MAC_SUCCESS, c, s2)" "in_wf s2" "in_rest s2 = rest"
    by (rule readsE [OF assms(2) s1(2,3)])
  then show "\<exists>s'. run_checked (fs @ gs) (a, s) = Some (RLC_MAC_SUCCESS, c, s') \<and> in_wf s' \<and> in_rest s' = rest"
    using s1(1) by (simp add: run_checked_append)
qed

lemma reads_none: "reads (run_checked []) [] ob ob"
  by (simp add: reads_def)

lemma reads_one: "reads (run_checked [f]) xs a b = reads f xs a b"
proof -
  have "run_checked [f] s = f s" for s by (auto split: option.splits prod.splits)
  then show ?thesis by (simp add: reads_def)
qed

lemma reads_last: "reads f xs a b \<Longrightarrow> reads (run_checked [f]) xs a b"
  unfolding reads_one .

lemma reads_cons: "reads f xs a b \<Longrightarrow> reads (run_checked fs) ys b c \<Longrightarrow> reads (run_checked (f # fs)) (xs @ ys) a c"
  using reads_append [of "[f]" xs a b fs ys c] unfolding reads_one by simp

lemma reads_store: "reads (store u) [] ob (u ob)"
  by (simp add: reads_def store_def)

lemma reads_stored: "reads f xs a b \<Longrightarrow> reads (run_checked [f, store u]) xs a (u b)"
  using reads_cons [of f xs a b "[store u]" "[]" "u b"] reads_store [of u b] by (simp add: reads_one)

lemma reads_field: "0 < n \<Longrightarrow> n \<le> 8 \<Longrightarrow> unat w < 2 ^ n \<Longrightarrow> reads (extract_field n upd) (field n w) ob (upd w ob)"
proof (rule readsI)
  fix s rest assume n: "0 < n" "n \<le> 8" "unat w < 2 ^ n" and s: "in_wf s" "in_rest s = field n w @ rest"
  show "\<exists>s'. extract_field n upd (ob, s) = Some (RLC_MAC_SUCCESS, upd w ob, s') \<and> in_wf s' \<and> in_rest s' = rest"
    using ExtractBits8_field [OF s(1) n s(2)] by (auto simp: via_get_def)
qed

lemma reads_member: "reads f xs (get ob) x \<Longrightarrow> reads (in_member get put f) xs ob (put x ob)"
  unfolding reads_def in_member_def by fastforce

text \<open>An optional field is a bit, and the field when the bit is set.\<close>

definition opt_bits :: "('x \<Rightarrow> bool list) \<Rightarrow> 'x option \<Rightarrow> bool list" where
  "opt_bits g v = (case v of None \<Rightarrow> [False] | Some x \<Rightarrow> True # g x)"

lemma one_bit:
  assumes "in_wf s" "in_rest s = b # rest"
  obtains s' where "ExtractBits8 1 s = Some (RLC_MAC_SUCCESS, Some (if b then 1 else 0), s')" "in_wf s'" "in_rest s' = rest"
proof -
  have "field 1 (if b then 1 else 0 :: octet) = [b]" by (simp add: field_def)
  then have "in_rest s = field 1 (if b then 1 else 0 :: octet) @ rest" using assms(2) by simp
  moreover have "unat (if b then 1 else 0 :: octet) < 2 ^ 1" by simp
  ultimately obtain s' where "ExtractBits8 1 s = Some (RLC_MAC_SUCCESS, Some (if b then 1 else 0), s') \<and> in_wf s' \<and> in_rest s' = rest"
    using ExtractBits8_field [OF assms(1), of 1 "if b then 1 else 0" rest] by auto
  then show ?thesis using that by blast
qed

lemma reads_optional:
  assumes "\<And>x. v = Some x \<Longrightarrow> reads f (g x) ob (u x)"
  shows "reads (optional_field f a) (opt_bits g v) ob (case v of None \<Rightarrow> a ob | Some x \<Rightarrow> u x)"
proof (rule readsI)
  fix s rest assume s: "in_wf s" "in_rest s = opt_bits g v @ rest"
  show "\<exists>s'. optional_field f a (ob, s) = Some (RLC_MAC_SUCCESS, case v of None \<Rightarrow> a ob | Some x \<Rightarrow> u x, s') \<and> in_wf s' \<and> in_rest s' = rest"
  proof (cases v)
    case None
    then obtain s1 where "ExtractBits8 1 s = Some (RLC_MAC_SUCCESS, Some 0, s1)" "in_wf s1" "in_rest s1 = rest"
      using one_bit [OF s(1), of False rest] s(2) by (auto simp: opt_bits_def)
    then show ?thesis using None by (simp add: optional_field_def)
  next
    case (Some x)
    then obtain s1 where s1: "ExtractBits8 1 s = Some (RLC_MAC_SUCCESS, Some 1, s1)" "in_wf s1" "in_rest s1 = g x @ rest"
      using one_bit [OF s(1), of True "g x @ rest"] s(2) by (auto simp: opt_bits_def)
    then show ?thesis using readsE [OF assms [OF Some] s1(2,3)] Some by (fastforce simp: optional_field_def)
  qed
qed

lemma reads_map:
  assumes "\<And>k ob. k < n \<Longrightarrow> reads (f k) (b k) ob (u k ob)"
  shows "reads (run_checked (map f [0..<n])) (concat (map b [0..<n])) ob (fold u [0..<n] ob)"
  using assms
proof (induction n)
  case (Suc n)
  have "reads (run_checked [f n]) (b n) (fold u [0..<n] ob) (u n (fold u [0..<n] ob))"
    unfolding reads_one using Suc.prems by simp
  from reads_append [OF Suc.IH this] show ?case using Suc.prems by simp
qed (simp add: reads_none)

lemma fold_update:
  "n \<le> length l \<Longrightarrow> fold (\<lambda>k l. l[k := g k (l ! k)]) [0..<n] l = map (\<lambda>k. if k < n then g k (l ! k) else l ! k) [0..<length l]"
proof (induction n)
  case 0
  then show ?case by (simp add: map_nth)
next
  case (Suc n)
  then show ?case by (auto intro!: nth_equalityI simp: nth_list_update)
qed

section \<open>The small information elements\<close>

definition tfiType_val :: "TFI_TYPE \<Rightarrow> octet" where
  "tfiType_val t = (case t of UPLINK_TFI \<Rightarrow> 0 | DOWNLINK_TFI \<Rightarrow> 1)"

definition mode_val :: "IE_RLC_MODE \<Rightarrow> octet" where
  "mode_val m = (case m of RLC_ACKNOWLEDGED \<Rightarrow> 0 | RLC_UNACKNOWLEDGED \<Rightarrow> 1)"

lemma tfiType_vals [simp]: "tfiType_of (tfiType_val t) = t" "unat (tfiType_val t) < 2"
  by (cases t; simp add: tfiType_val_def tfiType_of_def)+

lemma mode_vals [simp]: "rlcMode_of (mode_val m) = m" "unat (mode_val m) < 2"
  by (cases m; simp add: mode_val_def rlcMode_of_def)+

lemma at_reads: "unat v < 4 \<Longrightarrow> reads at_DecodeIe (field 2 v) d \<lparr>at_isValid = True, at_accessType = v\<rparr>"
  unfolding at_DecodeIe_def by (rule reads_value [OF reads_stored [OF reads_field]]) simp_all


lemma tfi_reads: "unat v < 32 \<Longrightarrow> reads tfi_DecodeIe (field 5 v) d \<lparr>tfi_isValid = True, tfi_val = v\<rparr>"
  unfolding tfi_DecodeIe_def by (rule reads_value [OF reads_stored [OF reads_field]]) simp_all

lemma rm_reads: "reads rm_DecodeIe (field 1 (mode_val m)) d \<lparr>rm_isValid = True, rm_rlcMode = m\<rparr>"
  unfolding rm_DecodeIe_def by (rule reads_value [OF reads_stored [OF reads_field]]) simp_all

lemma gt_reads:
  "unat v < 32 \<Longrightarrow> reads gt_DecodeIe (field 1 (tfiType_val t) @ field 5 v) d \<lparr>gt_isValid = True, gt_tfiType = t, gt_globalTFI = v\<rparr>"
  unfolding gt_DecodeIe_def
  by (rule reads_value, rule reads_cons, rule reads_field, simp, simp, simp, rule reads_stored, rule reads_field) simp_all

lemma tl_reads: "reads tl_DecodeIe (field 32 w) d \<lparr>tl_isValid = True, tl_tlli = w\<rparr>"
proof -
  have "unat w < 2 ^ 32" using unsigned_less [of w] by simp
  then have "reads (\<lambda>(d, s). case ExtractBits32 32 s of None \<Rightarrow> None
      | Some (r, v, s') \<Rightarrow> Some (r, (case v of None \<Rightarrow> d | Some w \<Rightarrow> d\<lparr>tl_tlli := w\<rparr>), s')) (field 32 w) d (d\<lparr>tl_tlli := w\<rparr>)"
    unfolding reads_def using ExtractBits32_field by fastforce
  from reads_stored [OF this] show ?thesis unfolding tl_DecodeIe_def by (rule reads_value) simp
qed

definition cd_wf :: "IeChannelRequestDescription \<Rightarrow> bool" where
  "cd_wf c \<longleftrightarrow> cd_isValid c \<and> rm_isValid (cd_rlcMode c) \<and> unat (cd_peakThroughputClass c) < 16 \<and> unat (cd_radioPriority c) < 4 \<and>
     unat (cd_llcPduType c) < 2"

definition cd_bits :: "IeChannelRequestDescription \<Rightarrow> bool list" where
  "cd_bits c = field 4 (cd_peakThroughputClass c) @ field 2 (cd_radioPriority c) @ field 1 (mode_val (rm_rlcMode (cd_rlcMode c))) @
     field 1 (cd_llcPduType c) @ field 16 (cd_rlcOctetCount c)"

lemma octet_count_reads:
  "reads (\<lambda>(d, s). case ExtractBits16 16 s of None \<Rightarrow> None
      | Some (r, v, s') \<Rightarrow> Some (r, (case v of None \<Rightarrow> d | Some w \<Rightarrow> d\<lparr>cd_rlcOctetCount := w\<rparr>), s')) (field 16 w) d (d\<lparr>cd_rlcOctetCount := w\<rparr>)"
proof -
  have "unat w < 2 ^ 16" using unsigned_less [of w] by simp
  then show ?thesis unfolding reads_def using ExtractBits16_field by fastforce
qed

lemma cd_reads:
  assumes "cd_wf c"
  shows "reads cd_DecodeIe (cd_bits c) d c"
proof -
  have w: "unat (cd_peakThroughputClass c) < 2 ^ 4" "unat (cd_radioPriority c) < 2 ^ 2" "unat (cd_llcPduType c) < 2 ^ 1"
    "cd_isValid c" "rm_isValid (cd_rlcMode c)" using assms by (simp_all add: cd_wf_def)
  show ?thesis
    unfolding cd_DecodeIe_def cd_bits_def
    by (rule reads_value, (rule reads_cons, rule reads_field, simp, simp, rule w)+,
        rule reads_cons, rule reads_member, rule rm_reads,
        rule reads_cons, rule reads_field, simp, simp, rule w, rule reads_stored, rule octet_count_reads)
      (use w(4,5) in simp)
qed

section \<open>The radio access capability that a mobile sends\<close>

text \<open>
  A part as GSM 04.08, 10.5.5.12a, writes it, for a mobile that can do packet data: the multislot capability names the
  GPRS class.  What is left out is as in the part before.
\<close>

record SentMultislot =
  sm_hscsd :: "octet option"
  sm_gprs :: octet
  sm_extended :: octet
  sm_switch :: "(octet \<times> octet) option"

record SentPart =
  sp_type :: octet
  sp_length :: octet
  sp_rf :: octet
  sp_a5 :: "octet list option"
  sp_esInd :: octet
  sp_ps :: octet
  sp_vgcs :: octet
  sp_vbs :: octet
  sp_multislot :: "SentMultislot option"

definition pair_bits :: "octet \<times> octet \<Rightarrow> bool list" where
  "pair_bits = (\<lambda>(a, b). field 4 a @ field 4 b)"

definition multislot_bits :: "SentMultislot \<Rightarrow> bool list" where
  "multislot_bits m = opt_bits (field 5) (sm_hscsd m) @ (opt_bits (\<lambda>(g, e). field 5 g @ field 1 e) (Some (sm_gprs m, sm_extended m))) @
     opt_bits pair_bits (sm_switch m)"

definition a5_bits :: "octet list \<Rightarrow> bool list" where
  "a5_bits l = concat (map (\<lambda>k. field 1 (l ! k)) [0..<7])"

definition head_bits :: "SentPart \<Rightarrow> bool list" where
  "head_bits p = field 4 (sp_type p) @ field 7 (sp_length p) @ field 3 (sp_rf p) @ opt_bits a5_bits (sp_a5 p) @
     field 1 (sp_esInd p) @ field 1 (sp_ps p) @ field 1 (sp_vgcs p) @ field 1 (sp_vbs p)"

definition part_bits :: "SentPart \<Rightarrow> bool list" where
  "part_bits p = head_bits p @ opt_bits multislot_bits (sp_multislot p)"

fun rest_bits :: "SentPart list \<Rightarrow> bool list" where
  "rest_bits [] = [False]"
| "rest_bits (p # ps) = True # part_bits p @ rest_bits ps"

fun cap_bits :: "SentPart list \<Rightarrow> bool list" where
  "cap_bits [] = []"
| "cap_bits (p # ps) = part_bits p @ rest_bits ps"

definition multislot_wf :: "SentMultislot \<Rightarrow> bool" where
  "multislot_wf m \<longleftrightarrow> (case sm_hscsd m of None \<Rightarrow> True | Some h \<Rightarrow> unat h < 32) \<and> unat (sm_gprs m) < 32 \<and> unat (sm_extended m) < 2 \<and>
     (case sm_switch m of None \<Rightarrow> True | Some (a, b) \<Rightarrow> unat a < 16 \<and> unat b < 16)"

definition part_wf :: "SentPart \<Rightarrow> bool" where
  "part_wf p \<longleftrightarrow> unat (sp_type p) < 16 \<and> unat (sp_length p) < 128 \<and> unat (sp_rf p) < 8 \<and>
     (case sp_a5 p of None \<Rightarrow> True | Some l \<Rightarrow> length l = 7 \<and> (\<forall>b \<in> set l. unat b < 2)) \<and>
     unat (sp_esInd p) < 2 \<and> unat (sp_ps p) < 2 \<and> unat (sp_vgcs p) < 2 \<and> unat (sp_vbs p) < 2 \<and>
     (case sp_multislot p of None \<Rightarrow> True | Some m \<Rightarrow> multislot_wf m)"

text \<open>The entry after its part is read; \<open>q\<close> is the entry before it, none for the first.\<close>

definition head_filled :: "SentPart \<Rightarrow> RaValuePart option \<Rightarrow> RaValuePart \<Rightarrow> RaValuePart" where
  "head_filled p q r = r\<lparr>rv_accessTechnologyType := sp_type p, rv_length := sp_length p, rv_rfPowerCapability := sp_rf p,
     rv_a5Bits := (case sp_a5 p of Some l \<Rightarrow> l | None \<Rightarrow> (case q of None \<Rightarrow> rv_a5Bits r | Some q \<Rightarrow> rv_a5Bits q)),
     rv_esInd := sp_esInd p, rv_ps := sp_ps p, rv_vgcs := sp_vgcs p, rv_vbs := sp_vbs p\<rparr>"

definition with_hscsd :: "octet option \<Rightarrow> RaValuePart \<Rightarrow> RaValuePart" where
  "with_hscsd v r = (case v of None \<Rightarrow> r\<lparr>rv_hscsd_isValid := False\<rparr> | Some h \<Rightarrow> r\<lparr>rv_hscsdMultislotClass := h, rv_hscsd_isValid := True\<rparr>)"

definition with_gprs :: "octet \<Rightarrow> octet \<Rightarrow> RaValuePart \<Rightarrow> RaValuePart" where
  "with_gprs g e r = r\<lparr>rv_gprsMultislotClass := g, rv_gprsExtendedDynamicAllocationCapability := e, rv_gprs_isValid := True\<rparr>"

definition with_switch :: "(octet \<times> octet) option \<Rightarrow> RaValuePart \<Rightarrow> RaValuePart" where
  "with_switch v r = (case v of None \<Rightarrow> r\<lparr>rv_switch_isValid := False\<rparr>
     | Some (a, b) \<Rightarrow> r\<lparr>rv_smsValue := a, rv_smValue := b, rv_switch_isValid := True\<rparr>)"

definition as_before :: "RaValuePart \<Rightarrow> RaValuePart \<Rightarrow> RaValuePart" where
  "as_before q r = r\<lparr>rv_hscsd_isValid := rv_hscsd_isValid q, rv_hscsdMultislotClass := rv_hscsdMultislotClass q,
     rv_gprs_isValid := rv_gprs_isValid q, rv_gprsMultislotClass := rv_gprsMultislotClass q,
     rv_gprsExtendedDynamicAllocationCapability := rv_gprsExtendedDynamicAllocationCapability q,
     rv_switch_isValid := rv_switch_isValid q, rv_smsValue := rv_smsValue q, rv_smValue := rv_smValue q\<rparr>"

definition multislot_filled :: "SentPart \<Rightarrow> RaValuePart option \<Rightarrow> RaValuePart \<Rightarrow> RaValuePart" where
  "multislot_filled p q r =
     (case sp_multislot p of
        Some m \<Rightarrow> with_switch (sm_switch m) (with_gprs (sm_gprs m) (sm_extended m) (with_hscsd (sm_hscsd m) r))
      | None \<Rightarrow> (case q of None \<Rightarrow> r | Some q \<Rightarrow> as_before q r))"

definition before :: "nat \<Rightarrow> IeMSRadioAccessCapability \<Rightarrow> RaValuePart option" where
  "before i d = (if i = 0 then None else Some (mc_parts d ! (i - 1)))"

definition caps_wf :: "IeMSRadioAccessCapability \<Rightarrow> bool" where
  "caps_wf d \<longleftrightarrow> length (mc_parts d) = MAX_ACCESS_TECHNOLOGIES \<and> (\<forall>p \<in> set (mc_parts d). length (rv_a5Bits p) = 7)"

section \<open>Reading a part\<close>

lemma upd_part_twice [simp]:
  "i < length (mc_parts d) \<Longrightarrow> upd_part i f (upd_part i g d) = upd_part i (\<lambda>p. f (g p)) d"
  by (simp add: upd_part_def)

lemma upd_part_length [simp]: "length (mc_parts (upd_part i f d)) = length (mc_parts d)"
  by (simp add: upd_part_def)

lemma upd_part_before [simp]: "before i (upd_part i f d) = before i d"
  by (auto simp: before_def upd_part_def)

lemma into_part_reads:
  "0 < n \<Longrightarrow> n \<le> 8 \<Longrightarrow> unat w < 2 ^ n \<Longrightarrow> reads (into_part n f i) (field n w) d (upd_part i (f w) d)"
  unfolding into_part_def by (rule reads_field)

lemma fold_upd_part:
  "i < length (mc_parts d) \<Longrightarrow> fold (\<lambda>k. upd_part i (\<lambda>p. p\<lparr>rv_a5Bits := (rv_a5Bits p)[k := g k]\<rparr>)) ks d =
     upd_part i (\<lambda>p. p\<lparr>rv_a5Bits := fold (\<lambda>k l. l[k := g k]) ks (rv_a5Bits p)\<rparr>) d"
proof (induction ks arbitrary: d)
  case Nil
  then show ?case by (simp add: upd_part_def)
qed simp

lemma a5_reads:
  assumes i: "i < length (mc_parts d)" and old: "length (rv_a5Bits (mc_parts d ! i)) = 7"
    and l: "length l = 7" "\<forall>b \<in> set l. unat b < 2"
  shows "reads (run_checked (map (\<lambda>k. into_part 1 (\<lambda>v p. p\<lparr>rv_a5Bits := (rv_a5Bits p)[k := v]\<rparr>) i) [0..<7])) (a5_bits l) d
    (upd_part i (\<lambda>p. p\<lparr>rv_a5Bits := l\<rparr>) d)"
proof -
  have "fold (\<lambda>k b. b[k := l ! k]) [0..<7] b = l" if "length b = 7" for b
    using fold_update [of 7 b "\<lambda>k _. l ! k"] that l(1) by (auto intro!: nth_equalityI)
  then have "fold (\<lambda>k. upd_part i (\<lambda>p. p\<lparr>rv_a5Bits := (rv_a5Bits p)[k := l ! k]\<rparr>)) [0..<7] d = upd_part i (\<lambda>p. p\<lparr>rv_a5Bits := l\<rparr>) d"
    unfolding fold_upd_part [OF i] by (simp add: upd_part_def old)
  moreover have "unat (l ! k) < 2 ^ 1" if "k < 7" for k using that l by simp
  ultimately show ?thesis
    unfolding a5_bits_def by (intro reads_value [OF reads_map]) (auto intro!: into_part_reads)
qed

lemma opt_a5_reads:
  assumes i: "i < length (mc_parts d)" and old: "length (rv_a5Bits (mc_parts d ! i)) = 7"
    and l: "case v of None \<Rightarrow> True | Some l \<Rightarrow> length l = 7 \<and> (\<forall>b \<in> set l. unat b < 2)"
  shows "reads (optional_field (run_checked (map (\<lambda>k. into_part 1 (\<lambda>v p. p\<lparr>rv_a5Bits := (rv_a5Bits p)[k := v]\<rparr>) i) [0..<7])) (copy_a5 i))
    (opt_bits a5_bits v) d
    (upd_part i (\<lambda>r. r\<lparr>rv_a5Bits := (case v of Some l \<Rightarrow> l | None \<Rightarrow> (case before i d of None \<Rightarrow> rv_a5Bits r | Some q \<Rightarrow> rv_a5Bits q))\<rparr>) d)"
proof (rule reads_value [OF reads_optional [where u = "\<lambda>l. upd_part i (\<lambda>p. p\<lparr>rv_a5Bits := l\<rparr>) d"]])
  show "reads (run_checked (map (\<lambda>k. into_part 1 (\<lambda>v p. p\<lparr>rv_a5Bits := (rv_a5Bits p)[k := v]\<rparr>) i) [0..<7])) (a5_bits x) d
      (upd_part i (\<lambda>p. p\<lparr>rv_a5Bits := x\<rparr>) d)" if "v = Some x" for x
    by (rule a5_reads [OF i old]) (use l that in simp_all)
qed (cases v; simp add: copy_a5_def before_def upd_part_def)

lemma head_reads:
  assumes p: "part_wf p" and i: "i < length (mc_parts d)" and old: "length (rv_a5Bits (mc_parts d ! i)) = 7"
  shows "reads (part_head i) (head_bits p) d (upd_part i (head_filled p (before i d)) d)"
proof -
  have w: "unat (sp_type p) < 2 ^ 4" "unat (sp_length p) < 2 ^ 7" "unat (sp_rf p) < 2 ^ 3"
      "case sp_a5 p of None \<Rightarrow> True | Some l \<Rightarrow> length l = 7 \<and> (\<forall>b \<in> set l. unat b < 2)"
      "unat (sp_esInd p) < 2 ^ 1" "unat (sp_ps p) < 2 ^ 1" "unat (sp_vgcs p) < 2 ^ 1" "unat (sp_vbs p) < 2 ^ 1"
    using p by (simp_all add: part_wf_def)
  show ?thesis
    unfolding part_head_def head_bits_def
    by (rule reads_value, (rule reads_cons, rule into_part_reads, simp, simp, rule w)+, rule reads_cons, rule opt_a5_reads,
        (simp add: i upd_part_def old; fail)+, rule w,
        (rule reads_cons, rule into_part_reads, simp, simp, rule w)+, rule reads_last, rule into_part_reads, simp, simp, rule w)
      (simp add: i head_filled_def [abs_def] cong: option.case_cong)
qed

lemma hscsd_reads:
  assumes "case v of None \<Rightarrow> True | Some h \<Rightarrow> unat h < 32" "i < length (mc_parts d)"
  shows "reads (optional_field (run_checked [into_part 5 (\<lambda>v p. p\<lparr>rv_hscsdMultislotClass := v\<rparr>) i,
        store (upd_part i (\<lambda>p. p\<lparr>rv_hscsd_isValid := True\<rparr>))]) (upd_part i (\<lambda>p. p\<lparr>rv_hscsd_isValid := False\<rparr>)))
     (opt_bits (field 5) v) d
     (upd_part i (with_hscsd v) d)"
proof (rule reads_value [OF reads_optional [where u = "\<lambda>h. upd_part i (\<lambda>r. r\<lparr>rv_hscsdMultislotClass := h, rv_hscsd_isValid := True\<rparr>) d"]])
  fix h assume "v = Some h"
  then have h: "unat h < 2 ^ 5" using assms(1) by simp
  show "reads (run_checked [into_part 5 (\<lambda>v p. p\<lparr>rv_hscsdMultislotClass := v\<rparr>) i,
      store (upd_part i (\<lambda>p. p\<lparr>rv_hscsd_isValid := True\<rparr>))]) (field 5 h) d
      (upd_part i (\<lambda>r. r\<lparr>rv_hscsdMultislotClass := h, rv_hscsd_isValid := True\<rparr>) d)"
    by (rule reads_value, rule reads_stored, rule into_part_reads, simp, simp, rule h) (simp add: assms(2))
qed (cases v; simp add: with_hscsd_def [abs_def])

lemma gprs_reads:
  assumes "unat g < 32" "unat e < 2" "i < length (mc_parts d)"
  shows "reads (optional_field (run_checked [into_part 5 (\<lambda>v p. p\<lparr>rv_gprsMultislotClass := v\<rparr>) i,
        into_part 1 (\<lambda>v p. p\<lparr>rv_gprsExtendedDynamicAllocationCapability := v\<rparr>) i,
        store (upd_part i (\<lambda>p. p\<lparr>rv_gprs_isValid := True\<rparr>))]) (upd_part i (\<lambda>p. p\<lparr>rv_gprs_isValid := False\<rparr>)))
     (opt_bits (\<lambda>(g, e). field 5 g @ field 1 e) (Some (g, e))) d
     (upd_part i (with_gprs g e) d)"
    (is "reads _ _ _ ?d")
proof (rule reads_value [OF reads_optional [where u = "\<lambda>_. ?d"]])
  fix x assume x: "Some (g, e) = Some x"
  have w: "unat g < 2 ^ 5" "unat e < 2 ^ 1" using assms by simp_all
  have "reads (run_checked [into_part 5 (\<lambda>v p. p\<lparr>rv_gprsMultislotClass := v\<rparr>) i,
        into_part 1 (\<lambda>v p. p\<lparr>rv_gprsExtendedDynamicAllocationCapability := v\<rparr>) i,
        store (upd_part i (\<lambda>p. p\<lparr>rv_gprs_isValid := True\<rparr>))]) (field 5 g @ field 1 e) d ?d"
    by (rule reads_value, rule reads_cons, rule into_part_reads, simp, simp, rule w,
        rule reads_stored, rule into_part_reads, simp, simp, rule w) (simp add: assms(3) with_gprs_def [abs_def])
  then show "reads (run_checked [into_part 5 (\<lambda>v p. p\<lparr>rv_gprsMultislotClass := v\<rparr>) i,
        into_part 1 (\<lambda>v p. p\<lparr>rv_gprsExtendedDynamicAllocationCapability := v\<rparr>) i,
        store (upd_part i (\<lambda>p. p\<lparr>rv_gprs_isValid := True\<rparr>))]) (case x of (g, e) \<Rightarrow> field 5 g @ field 1 e) d ?d"
    unfolding option.inject [THEN iffD1, OF x, symmetric] prod.case .
qed simp

lemma switch_reads:
  assumes "case v of None \<Rightarrow> True | Some (a, b) \<Rightarrow> unat a < 16 \<and> unat b < 16" "i < length (mc_parts d)"
  shows "reads (optional_field (run_checked [into_part 4 (\<lambda>v p. p\<lparr>rv_smsValue := v\<rparr>) i,
        into_part 4 (\<lambda>v p. p\<lparr>rv_smValue := v\<rparr>) i,
        store (upd_part i (\<lambda>p. p\<lparr>rv_switch_isValid := True\<rparr>))]) (upd_part i (\<lambda>p. p\<lparr>rv_switch_isValid := False\<rparr>)))
     (opt_bits pair_bits v) d
     (upd_part i (with_switch v) d)"
proof (rule reads_value [OF reads_optional [where u = "\<lambda>x. upd_part i (\<lambda>r. r\<lparr>rv_smsValue := fst x, rv_smValue := snd x, rv_switch_isValid := True\<rparr>) d"]])
  fix x assume "v = Some x"
  then have w: "unat (fst x) < 2 ^ 4" "unat (snd x) < 2 ^ 4" using assms(1) by auto
  show "reads (run_checked [into_part 4 (\<lambda>v p. p\<lparr>rv_smsValue := v\<rparr>) i, into_part 4 (\<lambda>v p. p\<lparr>rv_smValue := v\<rparr>) i,
      store (upd_part i (\<lambda>p. p\<lparr>rv_switch_isValid := True\<rparr>))]) (pair_bits x) d
      (upd_part i (\<lambda>r. r\<lparr>rv_smsValue := fst x, rv_smValue := snd x, rv_switch_isValid := True\<rparr>) d)"
    unfolding pair_bits_def prod.case_eq_if
    by (rule reads_value, rule reads_cons, rule into_part_reads, simp, simp, rule w,
        rule reads_stored, rule into_part_reads, simp, simp, rule w) (simp add: assms(2))
qed (cases v; simp add: with_switch_def [abs_def] prod.case_eq_if)

lemma multislot_reads:
  assumes m: "multislot_wf m" and p: "sp_multislot p = Some m" and i: "i < length (mc_parts d)"
  shows "reads (multislot_struct i) (multislot_bits m) d (upd_part i (multislot_filled p q) d)"
proof -
  have w: "case sm_hscsd m of None \<Rightarrow> True | Some h \<Rightarrow> unat h < 32" "unat (sm_gprs m) < 32" "unat (sm_extended m) < 2"
      "case sm_switch m of None \<Rightarrow> True | Some (a, b) \<Rightarrow> unat a < 16 \<and> unat b < 16"
    using m by (simp_all add: multislot_wf_def)
  show ?thesis
  unfolding multislot_struct_def multislot_bits_def
  by (rule reads_value, rule reads_cons, rule hscsd_reads, ((simp add: w i; fail) | (rule w))+,
      rule reads_cons, rule gprs_reads, ((simp add: w i; fail) | (rule w))+,
      rule reads_last, rule switch_reads, ((simp add: w i; fail) | (rule w))+)
    (simp add: i p multislot_filled_def [abs_def])
qed

lemma part_multislot_reads:
  assumes p: "part_wf p" and i: "i < length (mc_parts d)"
    and s: "in_wf s" "in_rest s = opt_bits multislot_bits (sp_multislot p) @ rest"
  shows "\<exists>s'. part_multislot i (d, s) = Some (False, RLC_MAC_SUCCESS, upd_part i (multislot_filled p (before i d)) d, s') \<and>
    in_wf s' \<and> in_rest s' = rest"
proof (cases "sp_multislot p")
  case None
  then obtain s1 where "ExtractBits8 1 s = Some (RLC_MAC_SUCCESS, Some 0, s1)" "in_wf s1" "in_rest s1 = rest"
    using one_bit [OF s(1), of False rest] s(2) by (auto simp: opt_bits_def)
  then show ?thesis
    using None i by (simp add: part_multislot_def copy_multislot_def multislot_filled_def [abs_def] as_before_def before_def upd_part_def Let_def)
next
  case (Some m)
  then obtain s1 where s1: "ExtractBits8 1 s = Some (RLC_MAC_SUCCESS, Some 1, s1)" "in_wf s1" "in_rest s1 = multislot_bits m @ rest"
    using one_bit [OF s(1), of True "multislot_bits m @ rest"] s(2) by (auto simp: opt_bits_def)
  have "multislot_wf m" using p Some by (simp add: part_wf_def)
  then obtain s2 where "multislot_struct i (d, s1) = Some (RLC_MAC_SUCCESS, upd_part i (multislot_filled p (before i d)) d, s2)"
      "in_wf s2" "in_rest s2 = rest"
    by (rule readsE [OF multislot_reads [OF _ Some i] s1(2,3)])
  then show ?thesis using s1(1) by (intro exI [of _ s2]) (simp add: part_multislot_def)
qed

definition entry_of :: "SentPart \<Rightarrow> RaValuePart option \<Rightarrow> RaValuePart \<Rightarrow> RaValuePart" where
  "entry_of p q r = (multislot_filled p q (head_filled p q r))\<lparr>rv_isValid := True\<rparr>"

definition put_part :: "nat \<Rightarrow> SentPart \<Rightarrow> IeMSRadioAccessCapability \<Rightarrow> IeMSRadioAccessCapability" where
  "put_part i p d = upd_part i (entry_of p (before i d)) d"

fun put_parts :: "nat \<Rightarrow> SentPart list \<Rightarrow> IeMSRadioAccessCapability \<Rightarrow> IeMSRadioAccessCapability" where
  "put_parts i [] d = ra_valid d"
| "put_parts i (p # ps) d = put_parts (Suc i) ps (put_part i p d)"

lemma part_reads:
  assumes p: "part_wf p" and d: "caps_wf d" and i: "i < MAX_ACCESS_TECHNOLOGIES" and s: "in_wf s" "in_rest s = part_bits p @ rest"
  obtains d1 s1 d2 s2 where "part_head i (d, s) = Some (RLC_MAC_SUCCESS, d1, s1)"
    "part_multislot i (d1, s1) = Some (False, RLC_MAC_SUCCESS, d2, s2)"
    "upd_part i (\<lambda>p. p\<lparr>rv_isValid := True\<rparr>) d2 = put_part i p d" "in_wf s2" "in_rest s2 = rest"
proof -
  let ?d1 = "upd_part i (head_filled p (before i d)) d"
  have l: "i < length (mc_parts d)" "length (rv_a5Bits (mc_parts d ! i)) = 7" using d i by (simp_all add: caps_wf_def)
  obtain s1 where s1: "part_head i (d, s) = Some (RLC_MAC_SUCCESS, ?d1, s1)" "in_wf s1"
      "in_rest s1 = opt_bits multislot_bits (sp_multislot p) @ rest"
    using readsE [OF head_reads [OF p l] s(1), of "opt_bits multislot_bits (sp_multislot p) @ rest"] s(2) by (auto simp: part_bits_def)
  obtain s2 where s2: "part_multislot i (?d1, s1) = Some (False, RLC_MAC_SUCCESS, upd_part i (multislot_filled p (before i ?d1)) ?d1, s2)"
      "in_wf s2" "in_rest s2 = rest"
    using part_multislot_reads [OF p _ s1(2,3), of i ?d1] l(1) by auto
  have "upd_part i (\<lambda>p. p\<lparr>rv_isValid := True\<rparr>) (upd_part i (multislot_filled p (before i ?d1)) ?d1) = put_part i p d"
    using l(1) by (simp add: put_part_def entry_of_def [abs_def])
  then show ?thesis by (rule that [OF s1(1) s2(1) _ s2(2,3)])
qed

lemma with_hscsd_head [simp]:
  "rv_a5Bits (with_hscsd v r) = rv_a5Bits r" "rv_accessTechnologyType (with_hscsd v r) = rv_accessTechnologyType r"
  by (cases v; simp add: with_hscsd_def)+

lemma with_gprs_head [simp]:
  "rv_a5Bits (with_gprs g e r) = rv_a5Bits r" "rv_accessTechnologyType (with_gprs g e r) = rv_accessTechnologyType r"
  by (simp_all add: with_gprs_def)

lemma with_switch_head [simp]:
  "rv_a5Bits (with_switch u r) = rv_a5Bits r" "rv_accessTechnologyType (with_switch u r) = rv_accessTechnologyType r"
  by (cases u; simp add: with_switch_def prod.case_eq_if)+

lemma as_before_head [simp]:
  "rv_a5Bits (as_before q r) = rv_a5Bits r" "rv_accessTechnologyType (as_before q r) = rv_accessTechnologyType r"
  by (simp_all add: as_before_def)

lemma multislot_filled_head:
  "rv_a5Bits (multislot_filled p q r) = rv_a5Bits r" "rv_accessTechnologyType (multislot_filled p q r) = rv_accessTechnologyType r"
  by (simp_all add: multislot_filled_def split: option.split)

lemma entry_of_head:
  "rv_a5Bits (entry_of p q r) = rv_a5Bits (head_filled p q r)"
  "rv_accessTechnologyType (entry_of p q r) = sp_type p" "rv_isValid (entry_of p q r)"
  by (simp_all add: entry_of_def multislot_filled_head head_filled_def)

lemma entry_of_a5:
  assumes "part_wf p" "length (rv_a5Bits r) = 7" "\<And>q'. q = Some q' \<Longrightarrow> length (rv_a5Bits q') = 7"
  shows "length (rv_a5Bits (entry_of p q r)) = 7"
proof (cases "sp_a5 p")
  case None
  then show ?thesis using assms(2,3) by (cases q) (simp_all add: entry_of_head head_filled_def)
next
  case (Some l)
  then show ?thesis using assms(1) by (simp add: entry_of_head head_filled_def part_wf_def)
qed

lemma put_part_wf:
  assumes "part_wf p" "caps_wf d" "i < MAX_ACCESS_TECHNOLOGIES"
  shows "caps_wf (put_part i p d)"
proof -
  have "length (rv_a5Bits (entry_of p (before i d) (mc_parts d ! i))) = 7"
    by (rule entry_of_a5 [OF assms(1)]) (use assms(2,3) in \<open>auto simp: caps_wf_def before_def split: if_splits\<close>)
  then show ?thesis
    using assms(2) by (auto simp: caps_wf_def put_part_def upd_part_def dest!: subsetD [OF set_update_subset_insert])
qed

text \<open>The bits of the parts from the second on: after the last possible part the loop does not look for another.\<close>

definition read_bits :: "nat \<Rightarrow> SentPart list \<Rightarrow> bool list" where
  "read_bits i ps = (if i + length ps = MAX_ACCESS_TECHNOLOGIES then butlast (rest_bits ps) else rest_bits ps)"

lemma rest_bits_nonempty: "rest_bits ps \<noteq> []"
  by (cases ps) simp_all

lemma read_bits_Cons: "read_bits i (p # ps) = True # part_bits p @ read_bits (Suc i) ps"
  by (simp add: read_bits_def butlast_append rest_bits_nonempty)

lemma loop_reads:
  "\<forall>p \<in> set ps. part_wf p \<Longrightarrow> caps_wf d \<Longrightarrow> 0 < i \<Longrightarrow> i + length ps \<le> MAX_ACCESS_TECHNOLOGIES \<Longrightarrow>
   reads (ra_loop [i..<MAX_ACCESS_TECHNOLOGIES] RLC_MAC_SUCCESS) (read_bits i ps) d (put_parts i ps d)"
proof (induction ps arbitrary: i d)
  case Nil
  show ?case
  proof (cases "i = MAX_ACCESS_TECHNOLOGIES")
    case False
    then have l: "[i..<MAX_ACCESS_TECHNOLOGIES] = i # [Suc i..<MAX_ACCESS_TECHNOLOGIES]" using Nil.prems(4) by (simp add: upt_conv_Cons)
    show ?thesis
    proof (rule readsI)
      fix s rest assume s: "in_wf s" "in_rest s = read_bits i [] @ rest"
      then obtain s1 where "ExtractBits8 1 s = Some (RLC_MAC_SUCCESS, Some 0, s1)" "in_wf s1" "in_rest s1 = rest"
        using one_bit [OF s(1), of False rest] False by (auto simp: read_bits_def)
      then show "\<exists>s'. ra_loop [i..<MAX_ACCESS_TECHNOLOGIES] RLC_MAC_SUCCESS (d, s) = Some (RLC_MAC_SUCCESS, put_parts i [] d, s') \<and> in_wf s' \<and> in_rest s' = rest"
        unfolding l using Nil.prems(3) by simp
    qed
  qed (simp add: reads_def read_bits_def)
next
  case (Cons p ps)
  have l: "[i..<MAX_ACCESS_TECHNOLOGIES] = i # [Suc i..<MAX_ACCESS_TECHNOLOGIES]" "i < MAX_ACCESS_TECHNOLOGIES"
    using Cons.prems(4) by (simp_all add: upt_conv_Cons)
  have p: "part_wf p" using Cons.prems(1) by simp
  show ?case
  proof (rule readsI)
    fix s rest assume s: "in_wf s" "in_rest s = read_bits i (p # ps) @ rest"
    then obtain s0 where s0: "ExtractBits8 1 s = Some (RLC_MAC_SUCCESS, Some 1, s0)" "in_wf s0"
        "in_rest s0 = part_bits p @ read_bits (Suc i) ps @ rest"
      using one_bit [OF s(1), of True "part_bits p @ read_bits (Suc i) ps @ rest"] by (auto simp: read_bits_Cons)
    obtain d1 s1 d2 s2 where b: "part_head i (d, s0) = Some (RLC_MAC_SUCCESS, d1, s1)"
        "part_multislot i (d1, s1) = Some (False, RLC_MAC_SUCCESS, d2, s2)"
        "upd_part i (\<lambda>p. p\<lparr>rv_isValid := True\<rparr>) d2 = put_part i p d" "in_wf s2" "in_rest s2 = read_bits (Suc i) ps @ rest"
      by (rule part_reads [OF p Cons.prems(2) l(2) s0(2,3)])
    have "reads (ra_loop [Suc i..<MAX_ACCESS_TECHNOLOGIES] RLC_MAC_SUCCESS) (read_bits (Suc i) ps) (put_part i p d) (put_parts (Suc i) ps (put_part i p d))"
      by (rule Cons.IH) (use Cons.prems put_part_wf [OF p Cons.prems(2) l(2)] in auto)
    from readsE [OF this b(4,5)]
    show "\<exists>s'. ra_loop [i..<MAX_ACCESS_TECHNOLOGIES] RLC_MAC_SUCCESS (d, s) = Some (RLC_MAC_SUCCESS, put_parts i (p # ps) d, s') \<and> in_wf s' \<and> in_rest s' = rest"
      unfolding l(1) using s0(1) b(1-3) Cons.prems(3) by auto
  qed
qed

text \<open>The whole element.\<close>

definition cap_read_bits :: "SentPart list \<Rightarrow> bool list" where
  "cap_read_bits ps = (if length ps = MAX_ACCESS_TECHNOLOGIES then butlast (cap_bits ps) else cap_bits ps)"

lemma mc_reads:
  assumes "ps \<noteq> []" "length ps \<le> MAX_ACCESS_TECHNOLOGIES" "\<forall>p \<in> set ps. part_wf p" "caps_wf d"
  shows "reads mc_DecodeIe (cap_read_bits ps) d (put_parts 0 ps d)"
proof -
  obtain p qs where ps: "ps = p # qs" using assms(1) by (cases ps) auto
  have l: "[0..<MAX_ACCESS_TECHNOLOGIES] = 0 # [1..<MAX_ACCESS_TECHNOLOGIES]" by (simp add: upt_conv_Cons)
  have p: "part_wf p" using assms(3) ps by simp
  have bits: "cap_read_bits ps = part_bits p @ read_bits 1 qs"
    by (simp add: ps cap_read_bits_def read_bits_def butlast_append rest_bits_nonempty)
  show ?thesis
  proof (rule readsI)
    fix s rest assume s: "in_wf s" "in_rest s = cap_read_bits ps @ rest"
    then have s': "in_rest s = part_bits p @ read_bits 1 qs @ rest" by (simp add: bits)
    obtain d1 s1 d2 s2 where b: "part_head 0 (d, s) = Some (RLC_MAC_SUCCESS, d1, s1)"
        "part_multislot 0 (d1, s1) = Some (False, RLC_MAC_SUCCESS, d2, s2)"
        "upd_part 0 (\<lambda>p. p\<lparr>rv_isValid := True\<rparr>) d2 = put_part 0 p d" "in_wf s2" "in_rest s2 = read_bits 1 qs @ rest"
      by (rule part_reads [OF p assms(4) _ s(1) s', of 0]) (simp, rule that)
    have "reads (ra_loop [1..<MAX_ACCESS_TECHNOLOGIES] RLC_MAC_SUCCESS) (read_bits 1 qs) (put_part 0 p d) (put_parts 1 qs (put_part 0 p d))"
      by (rule loop_reads) (use assms(2,3) ps put_part_wf [OF p assms(4), of 0] in auto)
    from readsE [OF this b(4,5)]
    show "\<exists>s'. mc_DecodeIe (d, s) = Some (RLC_MAC_SUCCESS, put_parts 0 ps d, s') \<and> in_wf s' \<and> in_rest s' = rest"
      unfolding mc_DecodeIe_def l using b(1-3) ps by auto
  qed
qed

section \<open>The classes that the decoded capability states\<close>








lemma put_parts_valid [simp]: "mc_isValid (put_parts i ps d)"
  by (induction ps arbitrary: i d) simp_all





lemma put_parts_length [simp]: "length (mc_parts (put_parts i ps d)) = length (mc_parts d)"
  by (induction ps arbitrary: i d) (simp_all add: put_part_def)


section \<open>The request\<close>

text \<open>What a mobile sends in a PACKET RESOURCE REQUEST (GSM 04.60, 11.2.16); without a global TFI it gives its TLLI.\<close>

record SentRequest =
  sq_accessType :: "octet option"
  sq_globalTfi :: "(TFI_TYPE \<times> octet) option"
  sq_tlli :: "32 word"
  sq_capability :: "SentPart list"
  sq_channel :: IeChannelRequestDescription
  sq_changeMark :: "octet option"
  sq_cValue :: octet
  sq_signVar :: "octet option"
  sq_levels :: "octet option list"

definition who_bits :: "SentRequest \<Rightarrow> bool list" where
  "who_bits q = (case sq_globalTfi q of
     Some (t, v) \<Rightarrow> False # field 1 (tfiType_val t) @ field 5 v | None \<Rightarrow> True # field 32 (sq_tlli q))"

abbreviation sent_cap :: "SentRequest \<Rightarrow> SentPart list option" where
  "sent_cap q \<equiv> if sq_capability q = [] then None else Some (sq_capability q)"

definition back_bits :: "SentRequest \<Rightarrow> bool list" where
  "back_bits q = opt_bits (field 2) (sq_changeMark q) @ field 6 (sq_cValue q) @ opt_bits (field 6) (sq_signVar q) @
     concat (map (opt_bits (field 4)) (sq_levels q))"

definition request_bits :: "SentRequest \<Rightarrow> bool list" where
  "request_bits q = opt_bits (field 2) (sq_accessType q) @ who_bits q @ opt_bits cap_bits (sent_cap q) @ cd_bits (sq_channel q) @
     back_bits q"

abbreviation opt_below :: "nat \<Rightarrow> octet option \<Rightarrow> bool" where
  "opt_below n v \<equiv> (case v of None \<Rightarrow> True | Some w \<Rightarrow> unat w < n)"

definition sent_wf :: "SentRequest \<Rightarrow> bool" where
  "sent_wf q \<longleftrightarrow> opt_below 4 (sq_accessType q) \<and> (case sq_globalTfi q of None \<Rightarrow> True | Some (_, v) \<Rightarrow> unat v < 32) \<and>
     (\<forall>p \<in> set (sq_capability q). part_wf p) \<and> (sq_capability q \<noteq> [] \<longrightarrow> sp_multislot (sq_capability q ! 0) \<noteq> None) \<and>
     cd_wf (sq_channel q) \<and> opt_below 4 (sq_changeMark q) \<and> unat (sq_cValue q) < 64 \<and> opt_below 64 (sq_signVar q) \<and>
     length (sq_levels q) = MAX_TIMESLOTS \<and> (\<forall>v \<in> set (sq_levels q). opt_below 16 v)"

text \<open>A message object as constructed.\<close>

definition as_constructed :: "MsgPacketResourceRequest \<Rightarrow> bool" where
  "as_constructed m \<longleftrightarrow> caps_wf (rq_msRadioAccessCapability m) \<and> (\<forall>r \<in> set (mc_parts (rq_msRadioAccessCapability m)). \<not> rv_isValid r) \<and>
     length (rq_ILevel m) = MAX_TIMESLOTS"

section \<open>Reading the request\<close>

definition with_access :: "octet option \<Rightarrow> MsgPacketResourceRequest \<Rightarrow> MsgPacketResourceRequest" where
  "with_access v m = (case v of None \<Rightarrow> m\<lparr>rq_accessType := (rq_accessType m)\<lparr>at_isValid := False\<rparr>\<rparr>
     | Some w \<Rightarrow> m\<lparr>rq_accessType := \<lparr>at_isValid = True, at_accessType = w\<rparr>\<rparr>)"

definition with_who :: "SentRequest \<Rightarrow> MsgPacketResourceRequest \<Rightarrow> MsgPacketResourceRequest" where
  "with_who q m = (case sq_globalTfi q of
     None \<Rightarrow> m\<lparr>rq_tlli := \<lparr>tl_isValid = True, tl_tlli = sq_tlli q\<rparr>, rq_globalTfi := (rq_globalTfi m)\<lparr>gt_isValid := False\<rparr>\<rparr>
   | Some (t, v) \<Rightarrow> m\<lparr>rq_globalTfi := \<lparr>gt_isValid = True, gt_tfiType = t, gt_globalTFI = v\<rparr>, rq_tlli := (rq_tlli m)\<lparr>tl_isValid := False\<rparr>\<rparr>)"

definition with_caps :: "SentPart list option \<Rightarrow> MsgPacketResourceRequest \<Rightarrow> MsgPacketResourceRequest" where
  "with_caps v m = m\<lparr>rq_msRadioAccessCapability := (case v of
     None \<Rightarrow> (rq_msRadioAccessCapability m)\<lparr>mc_isValid := False\<rparr> | Some ps \<Rightarrow> put_parts 0 ps (rq_msRadioAccessCapability m))\<rparr>"

definition front_read :: "SentRequest \<Rightarrow> IeChannelRequestDescription \<Rightarrow> MsgPacketResourceRequest \<Rightarrow> MsgPacketResourceRequest" where
  "front_read q c m = (with_caps (sent_cap q) (with_who q (with_access (sq_accessType q) m)))\<lparr>rq_chanReqDescription := c\<rparr>"

lemma access_reads:
  assumes "opt_below 4 v"
  shows "reads (optional_field (in_member rq_accessType (\<lambda>x m. m\<lparr>rq_accessType := x\<rparr>) at_DecodeIe)
       (\<lambda>m. m\<lparr>rq_accessType := (rq_accessType m)\<lparr>at_isValid := False\<rparr>\<rparr>)) (opt_bits (field 2) v) m (with_access v m)"
proof (rule reads_value [OF reads_optional])
  show "reads (in_member rq_accessType (\<lambda>x m. m\<lparr>rq_accessType := x\<rparr>) at_DecodeIe) (field 2 w) m
      (m\<lparr>rq_accessType := \<lparr>at_isValid = True, at_accessType = w\<rparr>\<rparr>)" if "v = Some w" for w
    by (rule reads_member, rule at_reads) (use assms that in simp)
qed (simp add: with_access_def)

lemma branch_reads:
  assumes "reads (if b then f else g) xs m m'"
  shows "reads (\<lambda>(m, s). case ExtractBits8 1 s of
       None \<Rightarrow> None
     | Some (r, v, s') \<Rightarrow> if r \<noteq> RLC_MAC_SUCCESS then Some (r, m, s') else if v = Some 0 then g (m, s') else f (m, s')) (b # xs) m m'"
proof (rule readsI)
  fix s rest assume s: "in_wf s" "in_rest s = (b # xs) @ rest"
  obtain s1 where s1: "ExtractBits8 1 s = Some (RLC_MAC_SUCCESS, Some (if b then 1 else 0), s1)" "in_wf s1" "in_rest s1 = xs @ rest"
    using one_bit [OF s(1), of b "xs @ rest"] s(2) by auto
  obtain s2 where "(if b then f else g) (m, s1) = Some (RLC_MAC_SUCCESS, m', s2)" "in_wf s2" "in_rest s2 = rest"
    by (rule readsE [OF assms s1(2,3)])
  then show "\<exists>s'. (\<lambda>(m, s). case ExtractBits8 1 s of
       None \<Rightarrow> None
     | Some (r, v, s') \<Rightarrow> if r \<noteq> RLC_MAC_SUCCESS then Some (r, m, s') else if v = Some 0 then g (m, s') else f (m, s')) (m, s) =
       Some (RLC_MAC_SUCCESS, m', s') \<and> in_wf s' \<and> in_rest s' = rest"
    by (intro exI [of _ s2]) (cases b; simp add: s1(1) [unfolded One_nat_def])
qed

lemma who_reads:
  assumes "case sq_globalTfi q of None \<Rightarrow> True | Some (_, v) \<Rightarrow> unat v < 32"
  shows "reads rq_who (who_bits q) m (with_who q m)"
proof (cases "sq_globalTfi q")
  case None
  have "reads (run_checked [in_member rq_tlli (\<lambda>x m. m\<lparr>rq_tlli := x\<rparr>) tl_DecodeIe,
      store (\<lambda>m. m\<lparr>rq_globalTfi := (rq_globalTfi m)\<lparr>gt_isValid := False\<rparr>\<rparr>)]) (field 32 (sq_tlli q)) m (with_who q m)"
    by (rule reads_value, rule reads_stored, rule reads_member, rule tl_reads) (simp add: with_who_def None)
  then show ?thesis
    unfolding rq_who_def who_bits_def None option.case by (intro branch_reads) (simp only: if_True)
next
  case (Some x)
  obtain t v where x: "x = (t, v)" by (cases x)
  have v: "unat v < 32" using assms Some x by simp
  have "reads (run_checked [in_member rq_globalTfi (\<lambda>x m. m\<lparr>rq_globalTfi := x\<rparr>) gt_DecodeIe,
      store (\<lambda>m. m\<lparr>rq_tlli := (rq_tlli m)\<lparr>tl_isValid := False\<rparr>\<rparr>)]) (field 1 (tfiType_val t) @ field 5 v) m (with_who q m)"
    by (rule reads_value, rule reads_stored, rule reads_member, rule gt_reads, rule v) (simp add: with_who_def Some x)
  then show ?thesis
    unfolding rq_who_def who_bits_def Some x option.case prod.case by (intro branch_reads) (simp only: if_False)
qed

lemma caps_reads:
  assumes "\<And>ps. v = Some ps \<Longrightarrow> ps \<noteq> [] \<and> length ps \<le> MAX_ACCESS_TECHNOLOGIES \<and> (\<forall>p \<in> set ps. part_wf p)"
    and "caps_wf (rq_msRadioAccessCapability m)"
  shows "reads (optional_field (in_member rq_msRadioAccessCapability (\<lambda>x m. m\<lparr>rq_msRadioAccessCapability := x\<rparr>) mc_DecodeIe)
     (\<lambda>m. m\<lparr>rq_msRadioAccessCapability := (rq_msRadioAccessCapability m)\<lparr>mc_isValid := False\<rparr>\<rparr>))
     (opt_bits cap_read_bits v) m (with_caps v m)"
proof (rule reads_value [OF reads_optional])
  show "reads (in_member rq_msRadioAccessCapability (\<lambda>x m. m\<lparr>rq_msRadioAccessCapability := x\<rparr>) mc_DecodeIe) (cap_read_bits ps) m
      (m\<lparr>rq_msRadioAccessCapability := put_parts 0 ps (rq_msRadioAccessCapability m)\<rparr>)" if "v = Some ps" for ps
    by (rule reads_member, rule mc_reads) (use assms that in auto)
qed (cases v; simp add: with_caps_def)

lemma front_members [simp]:
  "rq_msRadioAccessCapability (with_who q m) = rq_msRadioAccessCapability m"
  "rq_msRadioAccessCapability (with_access v m) = rq_msRadioAccessCapability m"
  by (cases "sq_globalTfi q"; simp add: with_who_def prod.case_eq_if) (cases v; simp add: with_access_def)

lemma front_reads:
  assumes q: "sent_wf q" "length (sq_capability q) \<le> MAX_ACCESS_TECHNOLOGIES" and c: "cd_wf c"
    and m: "caps_wf (rq_msRadioAccessCapability m)"
  shows "reads (run_checked rq_head)
    (opt_bits (field 2) (sq_accessType q) @ who_bits q @ opt_bits cap_read_bits (sent_cap q) @ cd_bits c) m (front_read q c m)"
proof -
  have w: "opt_below 4 (sq_accessType q)" "case sq_globalTfi q of None \<Rightarrow> True | Some (_, v) \<Rightarrow> unat v < 32"
      "\<And>ps. sent_cap q = Some ps \<Longrightarrow> ps \<noteq> [] \<and> length ps \<le> MAX_ACCESS_TECHNOLOGIES \<and> (\<forall>p \<in> set ps. part_wf p)"
    using q by (simp_all add: sent_wf_def split: if_splits)
  have m': "caps_wf (rq_msRadioAccessCapability (with_who q (with_access (sq_accessType q) m)))" using m by simp
  show ?thesis
    unfolding rq_head_def front_read_def
    by (rule reads_cons [OF access_reads [OF w(1)]], rule reads_cons [OF who_reads [OF w(2)]],
        rule reads_cons [OF caps_reads [OF w(3) m']], assumption, rule reads_last, rule reads_member, rule cd_reads, rule c)
qed










lemma front_read_members:
  "rq_chanReqDescription (front_read q c m) = c"
  "rq_msRadioAccessCapability (front_read q c m) =
     (if sq_capability q = [] then (rq_msRadioAccessCapability m)\<lparr>mc_isValid := False\<rparr>
      else put_parts 0 (sq_capability q) (rq_msRadioAccessCapability m))"
  by (simp_all add: front_read_def with_caps_def)





section \<open>Three access technologies\<close>

text \<open>What a field of \<open>n\<close> bits is read as when it is read one bit too early, after the bit \<open>b\<close>.\<close>

definition late :: "bool \<Rightarrow> nat \<Rightarrow> 'a::len word \<Rightarrow> 'a word" where
  "late b n w = (if b then push_bit (n - 1) 1 else 0) OR drop_bit 1 w"

definition one_bit_late :: "IeChannelRequestDescription \<Rightarrow> IeChannelRequestDescription" where
  "one_bit_late c = \<lparr>cd_isValid = True,
     cd_peakThroughputClass = late False 4 (cd_peakThroughputClass c),
     cd_radioPriority = late (bit (cd_peakThroughputClass c) 0) 2 (cd_radioPriority c),
     cd_rlcMode = \<lparr>rm_isValid = True, rm_rlcMode = (if bit (cd_radioPriority c) 0 then RLC_UNACKNOWLEDGED else RLC_ACKNOWLEDGED)\<rparr>,
     cd_llcPduType = mode_val (rm_rlcMode (cd_rlcMode c)),
     cd_rlcOctetCount = late (bit (cd_llcPduType c) 0) 16 (cd_rlcOctetCount c)\<rparr>"

lemma bit_late: "bit (late b n w) k \<longleftrightarrow> b \<and> k = n - 1 \<and> k < LENGTH('a) \<or> bit (w :: 'a::len word) (Suc k)"
  by (auto simp: late_def bit_simps)

lemma not_bit_of_less:
  assumes "unat (w :: 'a::len word) < 2 ^ n" "n \<le> k"
  shows "\<not> bit w k"
proof
  assume "bit w k"
  then have "bit (unat w) k" by (simp add: bit_unsigned_iff)
  then have "odd (unat w div 2 ^ k)" by (simp add: bit_iff_odd)
  moreover have "unat w < 2 ^ k" using assms by (meson less_le_trans one_le_numeral power_increasing)
  ultimately show False by simp
qed

lemma late_field:
  assumes "unat (w :: 'a::len word) < 2 ^ n" "0 < n" "n \<le> LENGTH('a)"
  shows "b # field n w = field n (late b n w) @ [bit w 0]" and "unat (late b n w) < 2 ^ n"
proof -
  have h: "\<not> bit w k" if "n \<le> k" for k by (rule not_bit_of_less [OF assms(1) that])
  show "unat (late b n w) < 2 ^ n"
    by (rule unat_less_from_bits) (use assms(2) h in \<open>auto simp: bit_late\<close>)
  show "b # field n w = field n (late b n w) @ [bit w 0]"
  proof (rule nth_equalityI)
    fix j assume "j < length (b # field n w)"
    then show "(b # field n w) ! j = (field n (late b n w) @ [bit w 0]) ! j"
      using assms(2,3) h [of n] by (cases j) (auto simp: field_def nth_append bit_late Suc_diff_Suc less_Suc_eq)
  qed simp
qed

lemma late_append:
  assumes "unat (w :: 'a::len word) < 2 ^ n" "0 < n" "n \<le> LENGTH('a)"
  shows "b # field n w @ ys = field n (late b n w) @ bit w 0 # ys"
  using late_field(1) [OF assms, of b] by (metis append_Cons append_assoc append_Nil)

lemma shifted_bits:
  assumes "cd_wf c"
  shows "False # cd_bits c = cd_bits (one_bit_late c) @ [bit (cd_rlcOctetCount c) 0]" and "cd_wf (one_bit_late c)"
proof -
  have w: "unat (cd_peakThroughputClass c) < 2 ^ 4" "unat (cd_radioPriority c) < 2 ^ 2" "unat (cd_llcPduType c) < 2 ^ 1"
      "unat (cd_rlcOctetCount c) < 2 ^ 16"
    using assms unsigned_less [of "cd_rlcOctetCount c"] by (simp_all add: cd_wf_def)
  have one: "field 1 v = [bit v 0]" for v :: octet by (simp add: field_def)
  have m: "bit (mode_val m) 0 = (m = RLC_UNACKNOWLEDGED)" for m by (cases m) (simp_all add: mode_val_def)
  show "False # cd_bits c = cd_bits (one_bit_late c) @ [bit (cd_rlcOctetCount c) 0]"
  proof -
    have p: "False # field 4 (cd_peakThroughputClass c) @ ys =
        field 4 (late False 4 (cd_peakThroughputClass c)) @ bit (cd_peakThroughputClass c) 0 # ys" for ys
      by (rule late_append [OF w(1)]) simp_all
    have r: "b # field 2 (cd_radioPriority c) @ ys = field 2 (late b 2 (cd_radioPriority c)) @ bit (cd_radioPriority c) 0 # ys" for b ys
      by (rule late_append [OF w(2)]) simp_all
    have n: "b # field 16 (cd_rlcOctetCount c) = field 16 (late b 16 (cd_rlcOctetCount c)) @ [bit (cd_rlcOctetCount c) 0]" for b
      by (rule late_field(1) [OF w(4)]) simp_all
    have k: "field 1 (mode_val (if b then RLC_UNACKNOWLEDGED else RLC_ACKNOWLEDGED)) = [b]" for b
      by (simp add: mode_val_def field_def)
    show ?thesis
      unfolding cd_bits_def one_bit_late_def IeChannelRequestDescription.select_convs IeRlcMode.select_convs p r k
      unfolding one append_Cons append_Nil n m append_assoc ..
  qed
  show "cd_wf (one_bit_late c)"
    using late_field(2) [OF w(1), of False] late_field(2) [OF w(2), of "bit (cd_peakThroughputClass c) 0"]
    by (simp add: cd_wf_def one_bit_late_def)
qed

definition late_bits :: "SentRequest \<Rightarrow> bool list" where
  "late_bits q = bit (cd_rlcOctetCount (sq_channel q)) 0 # back_bits q"

lemma three_technologies_head:
  assumes "sent_wf q" "length (sq_capability q) = MAX_ACCESS_TECHNOLOGIES" "as_constructed m" "in_wf s" "in_rest s = request_bits q @ rest"
  obtains s1 where "run_checked rq_head (m, s) = Some (RLC_MAC_SUCCESS, front_read q (one_bit_late (sq_channel q)) m, s1)"
    "in_wf s1" "in_rest s1 = late_bits q @ rest"
proof -
  let ?c = "sq_channel q"
  have c: "cd_wf ?c" using assms(1) by (simp add: sent_wf_def)
  have caps: "cap_bits (sq_capability q) = cap_read_bits (sq_capability q) @ [False]" and nonempty: "sq_capability q \<noteq> []"
  proof -
    obtain p ps where p: "sq_capability q = p # ps" using assms(2) by (cases "sq_capability q") auto
    have "butlast (rest_bits ps) @ [False] = rest_bits ps"
      by (induction ps) (simp_all add: butlast_append rest_bits_nonempty)
    then show "cap_bits (sq_capability q) = cap_read_bits (sq_capability q) @ [False]"
      using assms(2) p by (simp add: cap_read_bits_def butlast_append rest_bits_nonempty)
    show "sq_capability q \<noteq> []" by (simp add: p)
  qed
  have "request_bits q = opt_bits (field 2) (sq_accessType q) @ who_bits q @ opt_bits cap_read_bits (sent_cap q) @
      (False # cd_bits ?c) @ back_bits q"
    by (simp add: request_bits_def opt_bits_def caps nonempty)
  then have s: "in_rest s = (opt_bits (field 2) (sq_accessType q) @ who_bits q @ opt_bits cap_read_bits (sent_cap q) @
      cd_bits (one_bit_late ?c)) @ late_bits q @ rest"
    unfolding assms(5) shifted_bits(1) [OF c] late_bits_def by simp
  have "reads (run_checked rq_head) (opt_bits (field 2) (sq_accessType q) @ who_bits q @ opt_bits cap_read_bits (sent_cap q) @
      cd_bits (one_bit_late ?c)) m (front_read q (one_bit_late ?c) m)"
    by (rule front_reads [OF assms(1) _ shifted_bits(2) [OF c]]) (use assms(2,3) in \<open>simp_all add: as_constructed_def\<close>)
  from readsE [OF this assms(4) s] that show ?thesis by metis
qed

text \<open>Steps that leave a member alone.\<close>

definition leaves :: "('o \<Rightarrow> 'a) \<Rightarrow> ('o \<times> 's) step \<Rightarrow> bool" where
  "leaves g f \<longleftrightarrow> (\<forall>ob s r ob' s'. f (ob, s) = Some (r, ob', s') \<longrightarrow> g ob' = g ob)"

lemma leavesD: "leaves g f \<Longrightarrow> f (ob, s) = Some (r, ob', s') \<Longrightarrow> g ob' = g ob"
  unfolding leaves_def by blast

lemma leaves_run: "\<forall>f \<in> set fs. leaves g f \<Longrightarrow> leaves g (run_checked fs)"
proof (induction fs)
  case (Cons f fs)
  then have f: "leaves g f" and fs: "leaves g (run_checked fs)" by simp_all
  show ?case
    unfolding leaves_def
  proof (intro allI impI)
    fix ob s r ob' s' assume a: "run_checked (f # fs) (ob, s) = Some (r, ob', s')"
    then obtain r1 ob1 s1 where s1: "f (ob, s) = Some (r1, ob1, s1)" by (auto split: option.splits)
    then have "g ob1 = g ob" using f unfolding leaves_def by blast
    moreover have "g ob' = g ob1"
      using a s1 by (cases "r1 = RLC_MAC_SUCCESS") (auto dest: leavesD [OF fs])
    ultimately show "g ob' = g ob" by simp
  qed
qed (simp add: leaves_def)

lemma leaves_get: "(\<And>v ob. g (u v ob) = g ob) \<Longrightarrow> leaves g (via_get get n u)"
  by (auto simp: leaves_def via_get_def split: option.splits)

lemma leaves_store: "(\<And>ob. g (u ob) = g ob) \<Longrightarrow> leaves g (store u)"
  by (auto simp: leaves_def store_def)

lemma leaves_member: "(\<And>x ob. g (put x ob) = g ob) \<Longrightarrow> leaves g (in_member get put f)"
  by (auto simp: leaves_def in_member_def split: option.splits)

lemma leaves_optional: "leaves g f \<Longrightarrow> (\<And>ob. g (a ob) = g ob) \<Longrightarrow> leaves g (optional_field f a)"
  by (auto simp: leaves_def optional_field_def split: option.splits if_splits)

lemmas leaves_steps = leaves_run leaves_get leaves_store leaves_member leaves_optional

lemma tail_leaves: "leaves rq_chanReqDescription (run_checked rq_tail)"
  unfolding rq_tail_def by (intro leaves_run ballI) (auto intro!: leaves_steps)

text \<open>
  The capability of a mobile with three access technologies ends with a bit that says that no further part follows;
  the decoder stops after three parts without reading it.  Everything after is read one bit late: the request is for half the
  peak throughput class, at another priority, and in the mode that the last bit of the priority gives.
\<close>

theorem three_technologies_misread:
  assumes "sent_wf q" "length (sq_capability q) = MAX_ACCESS_TECHNOLOGIES" "as_constructed m" "in_wf s" "in_rest s = request_bits q @ rest"
    and decoded: "rq_DecodeMsg (m, s) = Some (r, m', s')"
  shows "rr_chanReq (request_of m') =
     \<lparr>cr_peakThroughputClass = drop_bit 1 (cd_peakThroughputClass (sq_channel q)),
      cr_radioPriority = late (bit (cd_peakThroughputClass (sq_channel q)) 0) 2 (cd_radioPriority (sq_channel q)),
      cr_rlcMode = (if bit (cd_radioPriority (sq_channel q)) 0 then UNACKNOWLEDGED_RLC_MODE else ACKNOWLEDGED_RLC_MODE)\<rparr>"
proof -
  obtain s1 where s1: "run_checked rq_head (m, s) = Some (RLC_MAC_SUCCESS, front_read q (one_bit_late (sq_channel q)) m, s1)"
    by (rule three_technologies_head [OF assms(1-5)])
  then have "run_checked rq_tail (front_read q (one_bit_late (sq_channel q)) m, s1) = Some (r, m', s')"
    using decoded by (simp add: rq_DecodeMsg_def run_checked_append)
  then have "rq_chanReqDescription m' = one_bit_late (sq_channel q)"
    using tail_leaves front_read_members(1) unfolding leaves_def by metis
  then show ?thesis by (simp add: request_of_def chan_req_def one_bit_late_def late_def)
qed

section \<open>A mobile that asks\<close>

definition part1 :: SentPart where
  "part1 = \<lparr>sp_type = 1, sp_length = 31, sp_rf = 4, sp_a5 = Some [1, 0, 0, 0, 0, 0, 0], sp_esInd = 1, sp_ps = 1, sp_vgcs = 0, sp_vbs = 0,
     sp_multislot = Some \<lparr>sm_hscsd = None, sm_gprs = 4, sm_extended = 0, sm_switch = None\<rparr>\<rparr>"

definition part2 :: SentPart where
  "part2 = \<lparr>sp_type = 3, sp_length = 10, sp_rf = 1, sp_a5 = None, sp_esInd = 1, sp_ps = 1, sp_vgcs = 0, sp_vbs = 0, sp_multislot = None\<rparr>"

definition part3 :: SentPart where
  "part3 = \<lparr>sp_type = 4, sp_length = 10, sp_rf = 2, sp_a5 = None, sp_esInd = 0, sp_ps = 1, sp_vgcs = 0, sp_vbs = 0, sp_multislot = None\<rparr>"

definition asking :: "SentPart list \<Rightarrow> SentRequest" where
  "asking ps = \<lparr>sq_accessType = Some 0, sq_globalTfi = Some (UPLINK_TFI, 7), sq_tlli = 0, sq_capability = ps,
     sq_channel = \<lparr>cd_isValid = True, cd_peakThroughputClass = 5, cd_radioPriority = 1,
       cd_rlcMode = \<lparr>rm_isValid = True, rm_rlcMode = RLC_ACKNOWLEDGED\<rparr>, cd_llcPduType = 0, cd_rlcOctetCount = 300\<rparr>,
     sq_changeMark = None, sq_cValue = 9, sq_signVar = None, sq_levels = replicate MAX_TIMESLOTS None\<rparr>"

definition empty_part :: RaValuePart where
  "empty_part = \<lparr>rv_isValid = False, rv_accessTechnologyType = 0, rv_length = 0, rv_rfPowerCapability = 0, rv_a5Bits = replicate 7 0,
     rv_esInd = 0, rv_ps = 0, rv_vgcs = 0, rv_vbs = 0, rv_hscsd_isValid = False, rv_hscsdMultislotClass = 0, rv_gprs_isValid = False,
     rv_gprsMultislotClass = 0, rv_gprsExtendedDynamicAllocationCapability = 0, rv_switch_isValid = False, rv_smsValue = 0, rv_smValue = 0\<rparr>"

definition blank_request :: MsgPacketResourceRequest where
  "blank_request = \<lparr>rq_accessType = \<lparr>at_isValid = False, at_accessType = 0\<rparr>,
     rq_globalTfi = \<lparr>gt_isValid = False, gt_tfiType = UPLINK_TFI, gt_globalTFI = 0\<rparr>, rq_tlli = \<lparr>tl_isValid = False, tl_tlli = 0\<rparr>,
     rq_msRadioAccessCapability = \<lparr>mc_isValid = False, mc_parts = replicate MAX_ACCESS_TECHNOLOGIES empty_part\<rparr>,
     rq_chanReqDescription = \<lparr>cd_isValid = False, cd_peakThroughputClass = 0, cd_radioPriority = 0,
       cd_rlcMode = \<lparr>rm_isValid = False, rm_rlcMode = RLC_ACKNOWLEDGED\<rparr>, cd_llcPduType = 0, cd_rlcOctetCount = 0\<rparr>,
     rq_changeMark = \<lparr>cm_isValid = False, cm_changeMark = 0\<rparr>, rq_cValue = 0, rq_signVar_isValid = False, rq_signVar = 0,
     rq_ILevel = replicate MAX_TIMESLOTS \<lparr>il_iLevel = 0, il_isValid = False\<rparr>\<rparr>"

definition stream_of :: "octet list \<Rightarrow> BitStreamIn" where
  "stream_of l = \<lparr>in_dataStream = l @ replicate (MAX_BITSTREAM - length l) 0, in_bitPointer = 0, in_streamLen = length l, in_currByte = 0\<rparr>"

definition two_octets :: "octet list" where
  "two_octets = [0x81, 0xe2, 0x7e, 0x60, 0x65, 0x21, 0x31, 0x45, 0x82, 0xa0, 0x09, 0x60, 0x90, 0x00]"

definition three_octets :: "octet list" where
  "three_octets = [0x81, 0xe2, 0x7e, 0x60, 0x65, 0x21, 0x31, 0x45, 0x8a, 0x0a, 0x44, 0x15, 0x00, 0x4b, 0x04, 0x80, 0x00]"

lemma asking_ok:
  "sent_wf (asking [part1, part2])" "sent_wf (asking [part1, part2, part3])" "as_constructed blank_request"
  "in_wf (stream_of two_octets)" "in_wf (stream_of three_octets)"
  by code_simp+


lemma asking_three:
  "in_rest (stream_of three_octets) = request_bits (asking [part1, part2, part3]) @ replicate 6 False"
  by code_simp


theorem three_technologies_misread_witness:
  "\<exists>r m' s'. rq_DecodeMsg (blank_request, stream_of three_octets) = Some (r, m', s') \<and>
     rr_chanReq (request_of m') = \<lparr>cr_peakThroughputClass = 2, cr_radioPriority = 2, cr_rlcMode = UNACKNOWLEDGED_RLC_MODE\<rparr>"
proof -
  have "rq_DecodeMsg (blank_request, stream_of three_octets) \<noteq> None" by code_simp
  then obtain r m' s' where d: "rq_DecodeMsg (blank_request, stream_of three_octets) = Some (r, m', s')" by auto
  from three_technologies_misread [OF asking_ok(2) _ asking_ok(3,5) asking_three d]
  have "rr_chanReq (request_of m') = \<lparr>cr_peakThroughputClass = 2, cr_radioPriority = 2, cr_rlcMode = UNACKNOWLEDGED_RLC_MODE\<rparr>"
    by (simp add: asking_def late_def)
  with d show ?thesis by blast
qed

end
