(* ===== verification/MessageDispatch.thy ===== *)
theory MessageDispatch
  imports RequestDecoding TaskRuns
begin

text \<open>
  Where the messages of the mobiles go: \<^verbatim>\<open>RlcMacTask::ProcessPhPacchInd\<close> and the negative indication of
  \<^verbatim>\<open>DecodeL1MsgInd\<close> (\<^verbatim>\<open>RlcMacL1Proc.cpp\<close>), \<^verbatim>\<open>DecodeULRlcControlBlock\<close> and \<^verbatim>\<open>DecodeULRlcControlBlockAccessBurst\<close>
  (\<^verbatim>\<open>RlcMacMsgProc.cpp\<close>).  What a handler does is modelled with its component; here it is the call.
\<close>

section \<open>The messages that are only shown\<close>

record IeARFCN =
  fq_isValid :: bool
  fq_arfcn :: "16 word"

record IeBSIC =
  bs_isValid :: bool
  bs_bsic :: octet

definition fq_DecodeIe :: "(IeARFCN \<times> BitStreamIn) step" where
  "fq_DecodeIe = run_checked
     [(\<lambda>(d, s). case ExtractBits16 10 s of None \<Rightarrow> None
        | Some (r, v, s') \<Rightarrow> Some (r, (case v of None \<Rightarrow> d | Some w \<Rightarrow> d\<lparr>fq_arfcn := w\<rparr>), s')),
      store (\<lambda>d. d\<lparr>fq_isValid := True\<rparr>)]"

definition bs_DecodeIe :: "(IeBSIC \<times> BitStreamIn) step" where
  "bs_DecodeIe = run_checked [extract_field 6 (\<lambda>v d. d\<lparr>bs_bsic := v\<rparr>), store (\<lambda>d. d\<lparr>bs_isValid := True\<rparr>)]"

record MsgPacketCellChangeFailure =
  ccf_tlli :: IeTLLI
  ccf_arfcn :: IeARFCN
  ccf_bsic :: IeBSIC
  ccf_failCause :: octet

text \<open>The range check is on the cause that the object has, before the new one is assigned.\<close>

abbreviation (input) INVALID_CAUSE :: octet where "INVALID_CAUSE \<equiv> 7"

definition ccf_DecodeMsg :: "(MsgPacketCellChangeFailure \<times> BitStreamIn) step" where
  "ccf_DecodeMsg = run_checked
     [in_member ccf_tlli (\<lambda>x m. m\<lparr>ccf_tlli := x\<rparr>) tl_DecodeIe,
      in_member ccf_arfcn (\<lambda>x m. m\<lparr>ccf_arfcn := x\<rparr>) fq_DecodeIe,
      in_member ccf_bsic (\<lambda>x m. m\<lparr>ccf_bsic := x\<rparr>) bs_DecodeIe,
      extract_field 4 (\<lambda>v m. m\<lparr>ccf_failCause := (if ccf_failCause m > INVALID_CAUSE then INVALID_CAUSE else v)\<rparr>)]"

record MsgPacketUplinkDummyControlBlock =
  ud_tlli :: IeTLLI

definition ud_DecodeMsg :: "(MsgPacketUplinkDummyControlBlock \<times> BitStreamIn) step" where
  "ud_DecodeMsg = run_checked [in_member ud_tlli (\<lambda>x m. m\<lparr>ud_tlli := x\<rparr>) tl_DecodeIe]"

record MsgPacketMobileTBFStatus =
  mt_globalTfi :: IeGlobalTFI
  mt_tbfCause :: octet
  mt_status_isValid :: bool
  mt_statusMsgType :: octet

definition mt_DecodeMsg :: "(MsgPacketMobileTBFStatus \<times> BitStreamIn) step" where
  "mt_DecodeMsg = run_checked
     [in_member mt_globalTfi (\<lambda>x m. m\<lparr>mt_globalTfi := x\<rparr>) gt_DecodeIe,
      extract_field 3 (\<lambda>v m. m\<lparr>mt_tbfCause := (if v > 4 then 1 else v)\<rparr>),
      optional_field
        (run_checked [in_member mt_statusMsgType (\<lambda>x m. m\<lparr>mt_statusMsgType := x\<rparr>) DecodeMsgType,
           store (\<lambda>m. m\<lparr>mt_status_isValid := True\<rparr>)])
        (\<lambda>m. m\<lparr>mt_status_isValid := False\<rparr>)]"

section \<open>Dispatch\<close>

datatype handler_call =
    ULControlAck addr | DLControlAck addr octet | ULControlNack addr | DLControlNack addr
  | DLAckNack addr MsgPacketDownlinkAckNack
  | ULResources MsgPacketResourceRequest int int

text \<open>What the object of each message holds when it is constructed.\<close>

record Objects =
  ob_header :: ULMacHeader
  ob_msgType :: octet
  ob_cf :: MsgPacketCellChangeFailure
  ob_ca :: MsgPacketControlAcknowledgement
  ob_dn :: MsgPacketDownlinkAckNack
  ob_ud :: MsgPacketUplinkDummyControlBlock
  ob_rq :: MsgPacketResourceRequest
  ob_mt :: MsgPacketMobileTBFStatus

text \<open>\<open>pi_tbf\<close> and \<open>pb_tag\<close> are the bits of a \<^verbatim>\<open>char\<close>.\<close>

record MsgPacchInd =
  pi_trx :: int
  pi_typeTs :: octet
  pi_tbf :: octet
  pi_data :: "octet list"

record MsgPacchAbInd =
  pb_tag :: octet
  pb_data :: "octet list"
  pb_ta :: octet

text \<open>A message that is decoded and then handled; the JC status of every failure is \<open>JC_ERROR\<close> here.\<close>

definition decoded :: "('m \<times> BitStreamIn) step \<Rightarrow> 'm \<Rightarrow> BitStreamIn \<Rightarrow> ('m \<Rightarrow> JC_STATUS \<times> handler_call list) \<Rightarrow>
  (JC_STATUS \<times> handler_call list) option" where
  "decoded f m s act = map_option (\<lambda>(r, m', _). if r = RLC_MAC_SUCCESS then act m' else (JC_ERROR, [])) (f (m, s))"

text \<open>
  \<open>schar\<close>: \<^verbatim>\<open>char\<close> is signed; then \<^verbatim>\<open>tbf == 0xff\<close> compares a value between -128 and 127.
\<close>

definition route_control_ack :: "bool \<Rightarrow> octet \<Rightarrow> Task \<Rightarrow> MsgPacketControlAcknowledgement \<Rightarrow> JC_STATUS \<times> handler_call list" where
  "route_control_ack schar tag t m =
     (case FindULTbf_tag tag (ulTbf t) of
        Some i \<Rightarrow> (JC_OK, [ULControlAck i])
      | None \<Rightarrow>
          (case FindDLTbf_tag tag (tk_dlTbf t) of
             Some i \<Rightarrow> (JC_OK, [DLControlAck i 0xff])
           | None \<Rightarrow>
               (case (if \<not> schar \<and> tag = 0xff then FindTbf_tlli (tl_tlli (ca_tlli m)) (tk_dlTbf t) else None) of
                  Some i \<Rightarrow> (JC_OK, [DLControlAck i 0xff])
                | None \<Rightarrow> (JC_ERROR, []))))"

definition DecodeULRlcControlBlock :: "bool \<Rightarrow> Objects \<Rightarrow> MsgPacchInd \<Rightarrow> Task \<Rightarrow> BitStreamIn \<Rightarrow>
  (JC_STATUS \<times> handler_call list) option" where
  "DecodeULRlcControlBlock schar obs ind t s0 = do {
     (r, ty, s) \<leftarrow> DecodeMsgType (ob_msgType obs, s0);
     if r \<noteq> RLC_MAC_SUCCESS then Some (JC_ERROR, [])
     else if ty = PACKET_CELL_CHANGE_FAILURE then decoded ccf_DecodeMsg (ob_cf obs) s (\<lambda>_. (JC_OK, []))
     else if ty = PACKET_CONTROL_ACK
       then decoded ca_DecodeMsg ((ob_ca obs)\<lparr>ca_msgType := ty\<rparr>) s (route_control_ack schar (pi_tbf ind) t)
     else if ty = PACKET_DOWNLINK_ACK_NACK
       then decoded dn_DecodeMsg (ob_dn obs) s (\<lambda>m.
         case FindTbf_tfi (tfi_val (dn_dlTfi m)) (tk_dlTbf t) of
           Some i \<Rightarrow> (JC_OK, [DLAckNack i m]) | None \<Rightarrow> (JC_ERROR, []))
     else if ty = PACKET_UPLINK_DUMMY_CONTROL_BLOCK then decoded ud_DecodeMsg (ob_ud obs) s (\<lambda>_. (JC_OK, []))
     else if ty = PACKET_RESOURCE_REQUEST
       then decoded rq_DecodeMsg (ob_rq obs) s (\<lambda>m. (JC_OK, [ULResources m (pi_trx ind) (uint (pi_typeTs ind AND 7))]))
     else if ty = PACKET_MOBILE_TBF_STATUS then decoded mt_DecodeMsg (ob_mt obs) s (\<lambda>_. (JC_OK, []))
     else Some (JC_ERROR, [])
   }"

text \<open>The status of the handler is dropped.  \<open>old\<close> is what the stack holds where the stream is placed.\<close>

definition ProcessPhPacchInd :: "bool \<Rightarrow> Objects \<Rightarrow> octet list \<Rightarrow> MsgPacchInd \<Rightarrow> Task \<Rightarrow> (JC_STATUS \<times> handler_call list) option" where
  "ProcessPhPacchInd schar obs old ind t = do {
     s \<leftarrow> InitBitStreamIn old (pi_data ind);
     (r, h, s) \<leftarrow> DecodeULMacHeader (ob_header obs, s);
     if r = RLC_MAC_SUCCESS \<and> ul_payloadType h = RLC_CTRL_BLOCK_NO_OPT_OCTETS
     then map_option (\<lambda>(_, calls). (JC_OK, calls)) (DecodeULRlcControlBlock schar obs ind t s)
     else Some (JC_ERROR, [])
   }"

definition DecodeULRlcControlBlockAccessBurst :: "Objects \<Rightarrow> octet list \<Rightarrow> MsgPacchAbInd \<Rightarrow> Task \<Rightarrow>
  (JC_STATUS \<times> handler_call list) option" where
  "DecodeULRlcControlBlockAccessBurst obs old ind t = do {
     s0 \<leftarrow> InitBitStreamIn old (pb_data ind);
     (r, ty, s) \<leftarrow> DecodeMsgType (ob_msgType obs, s0);
     if r \<noteq> RLC_MAC_SUCCESS then Some (JC_ERROR, [])
     else if ty = 0x1d \<or> ty = PACKET_CONTROL_ACK_8_BIT
       then decoded ca_DecodeMsg ((ob_ca obs)\<lparr>ca_msgType := ty\<rparr>) s (\<lambda>_.
         case FindULTbf_tag (pb_tag ind) (ulTbf t) of
           Some i \<Rightarrow> (JC_OK, [ULControlAck i])
         | None \<Rightarrow>
             (case FindDLTbf_tag (pb_tag ind) (tk_dlTbf t) of
                Some i \<Rightarrow> (JC_OK, [DLControlAck i (pb_ta ind)]) | None \<Rightarrow> (JC_ERROR, [])))
     else Some (JC_ERROR, [])
   }"

definition route_control_nack :: "octet \<Rightarrow> Task \<Rightarrow> JC_STATUS \<times> handler_call list" where
  "route_control_nack tag t =
     (case FindULTbf_tag tag (ulTbf t) of
        Some i \<Rightarrow> (JC_OK, [ULControlNack i])
      | None \<Rightarrow> (case FindDLTbf_tag tag (tk_dlTbf t) of Some i \<Rightarrow> (JC_OK, [DLControlNack i]) | None \<Rightarrow> (JC_ERROR, [])))"

text \<open>\<open>ULRlcLink::ReceivePacketControlAck\<close> on the task: the resources are given back by the scheduler.\<close>

definition UL_ReceivePacketControlAck :: "addr \<Rightarrow> Task \<Rightarrow> Task option" where
  "UL_ReceivePacketControlAck i t = do {
     s \<leftarrow> ReleaseDataBlocks 0 128 ((load i (tk_ul t))\<lparr>us_T3169 := False, us_activity := False\<rparr>);
     ULTbf_ReleaseULTbf i (t\<lparr>tk_ul := save i s (tk_ul t)\<rparr>)
   }"

section \<open>Reading a control block\<close>

text \<open>The octets of a control block with this message, and padding.\<close>

definition block_bits :: "octet \<Rightarrow> octet \<Rightarrow> octet \<Rightarrow> bool list \<Rightarrow> bool list" where
  "block_bits spare retry ty msg = field 2 (payload_val RLC_CTRL_BLOCK_NO_OPT_OCTETS) @ field 5 spare @ field 1 retry @ field 6 ty @ msg"

lemma header_reads:
  fixes spare retry :: octet
  assumes "unat spare < 32" "unat retry < 2"
  shows "reads DecodeULMacHeader (field 2 (payload_val RLC_CTRL_BLOCK_NO_OPT_OCTETS) @ field 5 spare @ field 1 retry) h
    (h\<lparr>ul_payloadType := RLC_CTRL_BLOCK_NO_OPT_OCTETS, ul_retryBit := retry_of retry\<rparr>)"
    (is "reads _ _ h ?h2")
proof -
  let ?h = "h\<lparr>ul_payloadType := RLC_CTRL_BLOCK_NO_OPT_OCTETS\<rparr>"
  have w: "unat (payload_val RLC_CTRL_BLOCK_NO_OPT_OCTETS) < 2 ^ 2" "unat spare < 2 ^ 5" "unat retry < 2 ^ 1" using assms by simp_all
  have p: "reads (extract_field 2 (\<lambda>v h. h\<lparr>ul_payloadType := payload_of v\<rparr>)) (field 2 (payload_val RLC_CTRL_BLOCK_NO_OPT_OCTETS)) h ?h"
    by (rule reads_value [OF reads_field [OF _ _ w(1)]]) (simp_all add: payload_of_def)
  have a: "reads (extract_field 5 (\<lambda>v h. h)) (field 5 spare) ?h ?h"
    by (rule reads_value [OF reads_field [OF _ _ w(2)]]) simp_all
  have b: "reads (extract_field 1 (\<lambda>v h. h\<lparr>ul_retryBit := retry_of v\<rparr>)) (field 1 retry) ?h ?h2"
    by (rule reads_value [OF reads_field [OF _ _ w(3)]]) simp_all
  have "reads (run_checked (ul_body RLC_CTRL_BLOCK_NO_OPT_OCTETS)) (field 5 spare @ field 1 retry) ?h ?h2"
    unfolding ul_body.simps by (rule reads_cons [OF a reads_last [OF b]])
  then have "reads (\<lambda>(h, s). run_checked (ul_body (ul_payloadType h)) (h, s)) (field 5 spare @ field 1 retry) ?h ?h2"
    unfolding reads_def by simp
  from reads_cons [OF p reads_last [OF this]] show ?thesis unfolding DecodeULMacHeader_def .
qed

lemma type_reads: "unat ty < 64 \<Longrightarrow> reads DecodeMsgType (field 6 ty) x ty"
  unfolding DecodeMsgType_def by (rule reads_field) simp_all

text \<open>A control block of one type reaches the branch of that type.\<close>

lemma control_block_read:
  assumes "unat spare < 32" "unat retry < 2" "unat ty < 64" "length old = MAX_BITSTREAM" "length (pi_data ind) \<le> MAX_BITSTREAM"
    and d: "bits_between (pi_data ind) 0 (8 * length (pi_data ind)) = block_bits spare retry ty msg @ pad"
  obtains s1 s2 where "in_wf s2" "in_rest s2 = msg @ pad" "DecodeMsgType (ob_msgType obs, s1) = Some (RLC_MAC_SUCCESS, ty, s2)"
    "ProcessPhPacchInd schar obs old ind t = map_option (\<lambda>(_, calls). (JC_OK, calls)) (DecodeULRlcControlBlock schar obs ind t s1)"
proof -
  obtain s where s: "InitBitStreamIn old (pi_data ind) = Some s" "in_wf s" "in_rest s = bits_between (pi_data ind) 0 (8 * length (pi_data ind))"
    using in_wf_Init [OF assms(4,5)] by auto
  have "in_rest s = (field 2 (payload_val RLC_CTRL_BLOCK_NO_OPT_OCTETS) @ field 5 spare @ field 1 retry) @ field 6 ty @ msg @ pad"
    unfolding s(3) d block_bits_def by simp
  then obtain s1 where s1: "DecodeULMacHeader (ob_header obs, s) =
      Some (RLC_MAC_SUCCESS, (ob_header obs)\<lparr>ul_payloadType := RLC_CTRL_BLOCK_NO_OPT_OCTETS, ul_retryBit := retry_of retry\<rparr>, s1)"
      "in_wf s1" "in_rest s1 = field 6 ty @ msg @ pad"
    by (rule readsE [OF header_reads [OF assms(1,2)] s(2)])
  obtain s2 where "DecodeMsgType (ob_msgType obs, s1) = Some (RLC_MAC_SUCCESS, ty, s2)" "in_wf s2" "in_rest s2 = msg @ pad"
    by (rule readsE [OF type_reads [OF assms(3)] s1(2,3)])
  then show ?thesis
    using that by (simp add: ProcessPhPacchInd_def s(1) s1(1))
qed

section \<open>What a mobile reports\<close>

record SentReport =
  sr_tfi :: octet
  sr_description :: IeAckNackDescription
  sr_channel :: "IeChannelRequestDescription option"
  sr_cValue :: octet
  sr_rxqual :: octet
  sr_signVar :: octet
  sr_levels :: "octet option list"


definition report_wf :: "SentReport \<Rightarrow> bool" where
  "report_wf n \<longleftrightarrow> unat (sr_tfi n) < 32 \<and> an_wf (sr_description n) \<and> (case sr_channel n of None \<Rightarrow> True | Some c \<Rightarrow> cd_wf c) \<and>
     unat (sr_cValue n) < 64 \<and> unat (sr_rxqual n) < 8 \<and> unat (sr_signVar n) < 64 \<and>
     length (sr_levels n) = MAX_TIMESLOTS \<and> (\<forall>v \<in> set (sr_levels n). opt_below 16 v)"







section \<open>An acknowledgement without a tag\<close>

definition ack_bits :: "32 word \<Rightarrow> octet \<Rightarrow> bool list" where
  "ack_bits tlli ack = field 32 tlli @ field 2 ack"

lemma ack_reads:
  fixes ack :: octet
  assumes "unat ack < 4" "ca_msgType m = PACKET_CONTROL_ACK"
  shows "reads ca_DecodeMsg (ack_bits tlli ack) m (m\<lparr>ca_tlli := \<lparr>tl_isValid = True, tl_tlli = tlli\<rparr>, ca_ctrlAck := ack\<rparr>)"
proof -
  have w: "unat ack < 2 ^ 2" using assms(1) by simp
  have "reads (\<lambda>(m, s). if ca_msgType m = PACKET_CONTROL_ACK then in_member ca_tlli (\<lambda>x m. m\<lparr>ca_tlli := x\<rparr>) tl_DecodeIe (m, s)
      else Some (RLC_MAC_SUCCESS, m, s)) (field 32 tlli) m (m\<lparr>ca_tlli := \<lparr>tl_isValid = True, tl_tlli = tlli\<rparr>\<rparr>)"
    using reads_member [OF tl_reads, of ca_tlli "\<lambda>x m. m\<lparr>ca_tlli := x\<rparr>" tlli m] assms(2) unfolding reads_def by simp
  then show ?thesis
    unfolding ca_DecodeMsg_def ack_bits_def
    by (rule reads_cons) (rule reads_last, rule reads_value [OF reads_field [OF _ _ w]], simp_all)
qed

text \<open>
  A control acknowledgement ends an uplink TBF it has nothing to do with.  An uplink TBF has the tag 0xff from its
  establishment until its final ack/nack is sent.  A PACKET CONTROL ACK with this tag, which an unacknowledged downlink
  TBF ends with (no tag was saved for it), is handed to the first uplink TBF that has it: its timeslots are given back
  and it is free, in the middle of its transfer.
\<close>

theorem untagged_ack_frees_uplink_tbf:
  fixes ack :: octet
  assumes msg: "unat ack < 4"
    and block: "unat spare < 32" "unat retry < 2" "length old = MAX_BITSTREAM" "length (pi_data ind) \<le> MAX_BITSTREAM"
      "bits_between (pi_data ind) 0 (8 * length (pi_data ind)) = block_bits spare retry PACKET_CONTROL_ACK (ack_bits tlli ack) @ pad"
    and tag: "pi_tbf ind = CTL_ACK_TAG_NOT_APPLICABLE"
    and tbf: "i < MAX_TBFS" "\<forall>j < i. tbf_state (ulTbf t j) = FREE" "tbf_state (ulTbf t i) \<noteq> FREE" "ul_ctlAckTag (ulTbf t i) = CTL_ACK_TAG_NOT_APPLICABLE"
    and task: "task_ok c t" "one_owner S (tk_ul t)"
  shows "ProcessPhPacchInd schar obs old ind t = Some (JC_OK, [ULControlAck i]) \<and>
     (\<exists>t'. UL_ReceivePacketControlAck i t = Some t' \<and> tbf_state (ulTbf t' i) = FREE \<and> no_slot (ulTbf t' i))"
proof
  obtain s1 s2 where s: "in_wf s2" "in_rest s2 = ack_bits tlli ack @ pad"
      "DecodeMsgType (ob_msgType obs, s1) = Some (RLC_MAC_SUCCESS, PACKET_CONTROL_ACK, s2)"
      "ProcessPhPacchInd schar obs old ind t = map_option (\<lambda>(_, calls). (JC_OK, calls)) (DecodeULRlcControlBlock schar obs ind t s1)"
    by (rule control_block_read [OF block(1,2) _ block(3,4,5)]) (simp, rule that)
  have r: "reads ca_DecodeMsg (ack_bits tlli ack) ((ob_ca obs)\<lparr>ca_msgType := PACKET_CONTROL_ACK\<rparr>)
      ((ob_ca obs)\<lparr>ca_msgType := PACKET_CONTROL_ACK, ca_tlli := \<lparr>tl_isValid = True, tl_tlli = tlli\<rparr>, ca_ctrlAck := ack\<rparr>)"
    using ack_reads [OF msg, of "(ob_ca obs)\<lparr>ca_msgType := PACKET_CONTROL_ACK\<rparr>" tlli] by simp
  obtain s3 where d: "ca_DecodeMsg ((ob_ca obs)\<lparr>ca_msgType := PACKET_CONTROL_ACK\<rparr>, s2) = Some (RLC_MAC_SUCCESS,
      (ob_ca obs)\<lparr>ca_msgType := PACKET_CONTROL_ACK, ca_tlli := \<lparr>tl_isValid = True, tl_tlli = tlli\<rparr>, ca_ctrlAck := ack\<rparr>, s3)"
    by (rule readsE [OF r s(1,2)])
  have "FindULTbf_tag (pi_tbf ind) (ulTbf t) = Some i"
    using tbf tag by (auto simp: FindULTbf_tag_def find_used_def find_Some_iff intro!: exI [of _ i])
  then show "ProcessPhPacchInd schar obs old ind t = Some (JC_OK, [ULControlAck i])"
    using d by (simp add: s(3,4) DecodeULRlcControlBlock_def decoded_def route_control_ack_def)
next
  obtain T where T: "owns T (load i (tk_ul t))" using one_owner_view [OF task(2)] by blast
  let ?s = "(load i (tk_ul t))\<lparr>us_T3169 := False, us_activity := False\<rparr>"
  have "owns T ?s" using T by simp
  from ReleaseDataBlocks_range [OF this, of 0 128] obtain blks q where
    rel: "ReleaseDataBlocks 0 128 ?s = Some (?s\<lparr>us_link := (us_link ?s)\<lparr>lk_pUlBlocks := blks\<rparr>, us_pool := q\<rparr>)"
      "owned T blks q" "\<forall>j. blks ! j = (if j < 128 then None else lk_pUlBlocks (us_link ?s) ! j)" by auto
  let ?s' = "?s\<lparr>us_link := (us_link ?s)\<lparr>lk_pUlBlocks := blks\<rparr>, us_pool := q\<rparr>"
  let ?t = "t\<lparr>tk_ul := save i ?s' (tk_ul t)\<rparr>"
  have same: "ulTbf ?t = ulTbf t" by (auto simp: save_def load_def fun_eq_iff)
  have "sched_ok c ?t" using kept_sched_ok [OF task_okD(1) [OF task(1)] same_tbfs [OF task_okD(1) [OF task(1)] _ same]] by simp
  from ul_release [OF this, of i] obtain t' where "ULTbf_ReleaseULTbf i ?t = Some t'" "tbf_state (ulTbf t' i) = FREE" "no_slot (ulTbf t' i)" by blast
  then show "\<exists>t'. UL_ReceivePacketControlAck i t = Some t' \<and> tbf_state (ulTbf t' i) = FREE \<and> no_slot (ulTbf t' i)"
    using rel(1) by (simp add: UL_ReceivePacketControlAck_def)
qed

section \<open>Two mobiles with the same TFI\<close>

definition sample_report :: SentReport where
  "sample_report = \<lparr>sr_tfi = 7,
     sr_description = \<lparr>an_isValid = True, an_finalAckIndication = TBF_INCOMPLETE, an_startingSeqNum = 5, an_recBlockBitmap = replicate 7 0 @ [0x1f]\<rparr>,
     sr_channel = None, sr_cValue = 9, sr_rxqual = 3, sr_signVar = 17, sr_levels = replicate MAX_TIMESLOTS None\<rparr>"

text \<open>The report as layer 1 hands it over, on transceiver 1 and timeslot 5.\<close>

definition report_ind :: MsgPacchInd where
  "report_ind = \<lparr>pi_trx = 1, pi_typeTs = 5, pi_tbf = 0xff,
     pi_data = [0x40, 0x08, 0xe0, 0xa0, 0, 0, 0, 0, 0, 0, 0x03, 0xe2, 0x5a, 0x20] @ replicate 8 0\<rparr>"

definition blank_objects :: Objects where
  "blank_objects = \<lparr>ob_header = \<lparr>ul_payloadType = RLC_DATA_BLOCK, ul_retryBit = ONE_CHAN_REQ, ul_stallInd = NOT_STALLED, ul_countdownVal = 0,
       ul_tfi = 0, ul_tlliInd = TLLI_NOT_PRESENT, ul_bsn = 0, ul_extensionBit = NO_EXTENSION_OCTET, ul_LengthOctets = [], ul_currLengthOctet = 0, ul_tlli = 0\<rparr>,
     ob_msgType = 0,
     ob_cf = \<lparr>ccf_tlli = \<lparr>tl_isValid = False, tl_tlli = 0\<rparr>, ccf_arfcn = \<lparr>fq_isValid = False, fq_arfcn = 0\<rparr>, ccf_bsic = \<lparr>bs_isValid = False, bs_bsic = 0\<rparr>, ccf_failCause = 0\<rparr>,
     ob_ca = \<lparr>ca_msgType = 0, ca_tlli = \<lparr>tl_isValid = False, tl_tlli = 0\<rparr>, ca_ctrlAck = 0\<rparr>,
     ob_dn = \<lparr>dn_dlTfi = \<lparr>tfi_isValid = False, tfi_val = 0\<rparr>, dn_ackNackDescription = sr_description sample_report,
       dn_chanReqDescription = rq_chanReqDescription blank_request, dn_cValue = 0, dn_rxqual = 0, dn_signVar = 0,
       dn_ILevel = replicate MAX_TIMESLOTS \<lparr>il_iLevel = 0, il_isValid = False\<rparr>\<rparr>,
     ob_ud = \<lparr>ud_tlli = \<lparr>tl_isValid = False, tl_tlli = 0\<rparr>\<rparr>,
     ob_rq = blank_request,
     ob_mt = \<lparr>mt_globalTfi = rq_globalTfi blank_request, mt_tbfCause = 0, mt_status_isValid = False, mt_statusMsgType = 0\<rparr>\<rparr>"


lemma sample_report_ok:
  "report_wf sample_report" "length (dn_ILevel (ob_dn blank_objects)) = MAX_TIMESLOTS" "length (pi_data report_ind) \<le> MAX_BITSTREAM"
  "unat (0 :: octet) < 32" "unat (0 :: octet) < 2" "length (replicate MAX_BITSTREAM (0 :: octet)) = MAX_BITSTREAM"
  by code_simp+



section \<open>A transfer that is cut short\<close>

text \<open>TBF 3 of \<open>busy_task\<close>, which has no ack/nack outstanding.\<close>

definition sending_task :: Task where
  "sending_task = set_ulTbf 3 (busy_tbf\<lparr>ul_ctlAckTag := CTL_ACK_TAG_NOT_APPLICABLE\<rparr>) idle_task"

definition ack_ind :: MsgPacchInd where
  "ack_ind = \<lparr>pi_trx = 0, pi_typeTs = 2, pi_tbf = CTL_ACK_TAG_NOT_APPLICABLE,
     pi_data = [0x40, 0x07, 0x03, 0xff, 0xb8, 0x03] @ replicate 16 0\<rparr>"

lemma sending_task_ok: "task_ok 1 sending_task" "one_owner {3} (tk_ul sending_task)"
proof -
  let ?u = "busy_tbf\<lparr>ul_ctlAckTag := CTL_ACK_TAG_NOT_APPLICABLE\<rparr>"
  have b: "tbf_ok ?u" "used_ok ?u" "tbf_state ?u = ALLOCATED"
    by (simp_all add: busy_tbf_def tbf_ok_def used_ok_def natural_ok_def no_slot_def ul_tbf0_def slots_update IsTrxValid_def)
  have "ulTbf sending_task = (ulTbf idle_task)(3 := ?u)" "tk_dlTbf sending_task = tk_dlTbf idle_task" "tsPool sending_task = tsPool idle_task"
    by (simp_all add: sending_task_def)
  then show "task_ok 1 sending_task"
    using idle_task_ok b by (simp add: task_ok_def sched_ok_def dir_ok_def held_new_pool queues_ok_new)
  have s: "sy_pool (tk_ul sending_task) = us_pool (sample_state (\<lambda>_. sample_block 0 0 (replicate 53 0)))"
    "sy_link (tk_ul sending_task) = (\<lambda>_. us_link (sample_state (\<lambda>_. sample_block 0 0 (replicate 53 0))))"
    by (simp_all add: sending_task_def set_ulTbf_def idle_task_def Let_def)
  have "stored (us_link (sample_state blk)) = {}" "table_ok (us_link (sample_state blk))" for blk
    by (auto simp: sample_state_def stored_def table_ok_def)
  then show "one_owner {3} (tk_ul sending_task)"
    unfolding one_owner_def s using sample_pool by (intro exI [of _ "[3]"]) simp
qed

lemma ack_ind_bits:
  "bits_between (pi_data ack_ind) 0 (8 * length (pi_data ack_ind)) =
     block_bits 0 0 PACKET_CONTROL_ACK (ack_bits 0xC0FFEE00 3) @ replicate 128 False"
  "length (pi_data ack_ind) \<le> MAX_BITSTREAM" "unat (3 :: octet) < 4"
  by code_simp+

theorem untagged_ack_frees_uplink_tbf_witness:
  "\<exists>t'. ProcessPhPacchInd True blank_objects (replicate MAX_BITSTREAM 0) ack_ind sending_task = Some (JC_OK, [ULControlAck 3]) \<and>
     UL_ReceivePacketControlAck 3 sending_task = Some t' \<and> tbf_state (ulTbf t' 3) = FREE"
proof -
  have u: "ulTbf sending_task = (ulTbf idle_task)(3 := busy_tbf\<lparr>ul_ctlAckTag := CTL_ACK_TAG_NOT_APPLICABLE\<rparr>)"
    by (simp add: sending_task_def)
  have "\<forall>j < 3. tbf_state (ulTbf sending_task j) = FREE" "tbf_state (ulTbf sending_task 3) \<noteq> FREE"
    "ul_ctlAckTag (ulTbf sending_task 3) = CTL_ACK_TAG_NOT_APPLICABLE"
    unfolding u by (auto simp: busy_tbf_def ul_tbf0_def)
  from untagged_ack_frees_uplink_tbf [OF ack_ind_bits(3) sample_report_ok(4-6) ack_ind_bits(2,1) _ _ this sending_task_ok, of True]
  show ?thesis by (auto simp: ack_ind_def)
qed

end
