(* ===== verification/Spec2Isabelle.thy ===== *)
theory Spec2Isabelle
  imports BitStream MacHeader AckNackIe ResourceTables ScheduleQueue Tbf TSPool UlRlcWindow DataBlockPool UlRlcLink UlDelivery UplinkPath DlRlcLink DlSegment DlWindow DlChannel DlDelivery DlFaults MultislotTables ScheduleAllocation MultislotOptions MacScheduler SlotAllocation SlotFaults QueueUsers SlotHolders MacRuns DoublyLinked UnitDataQueue UnitDataLists UnitDataRefinement UnitDataService SchedulerFrame NaturalSlots NaturalHeld BestSlot TbfPool MacAllocation TaskState TaskUplink TaskSignalling TaskRuns TaskDownlink UplinkMessages RequestDecoding MessageDispatch
begin

text \<open>
  A verification development of the GPRS RLC/MAC layer of the base station, the program under
  \<^verbatim>\<open>src/data/mnet/GP10/Host/Rlc_mac\<close> (file names below are relative to it).

  \<^bold>\<open>The program.\<close>  The RLC/MAC task carries logical link (LLC) PDUs between BSSGP and the mobiles over
  temporary block flows (TBFs).  A TBF owns a temporary flow identity, a timing advance index, uplink
  state flags and entries in the schedule queues of its timeslots (\<^verbatim>\<open>TSPool\<close>, \<^verbatim>\<open>TAITable\<close>, \<^verbatim>\<open>USFTable\<close>,
  \<^verbatim>\<open>ScheduleQueue\<close>); its RLC link (\<^verbatim>\<open>ULRlcLink\<close>, \<^verbatim>\<open>DLRlcLink\<close>) cuts PDUs into data blocks taken from
  pools (\<^verbatim>\<open>ULDataBlockPool\<close>, \<^verbatim>\<open>DLDataBlockPool\<close>), numbers them modulo 128, sends, acknowledges and
  retransmits them, and puts PDUs together again.  Blocks and control messages are written and read
  through bit streams (\<^verbatim>\<open>BitStreamOut\<close>, \<^verbatim>\<open>BitStreamIn\<close>) and MAC headers.  Layer 1 asks for a block per
  timeslot (ready-to-send) and hands up the blocks it received.

  \<^bold>\<open>Which theory models what.\<close>

  \<^item> \<open>RlcPrelude\<close>: result codes and constants (\<^verbatim>\<open>RlcMacResult.h\<close>, \<^verbatim>\<open>JCErr.h\<close>, \<^verbatim>\<open>RlcMacCommon.h\<close>).
  \<^item> \<open>BitStream\<close>: \<^verbatim>\<open>bitstream.cpp\<close>.  A stream is a record of its 53 octets, index and bit position; its
    abstract content is the list of bits written so far.  Inserting appends a field to that list,
    extracting returns it.
  \<^item> \<open>MacHeader\<close>: \<^verbatim>\<open>MacHeader.h\<close>, \<^verbatim>\<open>MacHeader.cpp\<close>; encoder, decoder, length octets.
  \<^item> \<open>AckNackIe\<close>: \<^verbatim>\<open>ieAckNackDescription\<close>, \<^verbatim>\<open>ieChannelCodingCommand\<close>.
  \<^item> \<open>ResourceTables\<close>: \<^verbatim>\<open>TAITable.cpp\<close>, \<^verbatim>\<open>USFTable.cpp\<close>, and the locale \<open>slot_allocator\<close>: an allocator of
    numbered slots whose slots have at most one owner.  It is interpreted on both tables here and on
    the two TFI tables in \<open>TSPool\<close>.
  \<^item> \<open>ScheduleQueue\<close>: \<^verbatim>\<open>ScheduleQueue.cpp\<close>; ranking, allocation, release, balancing, selection of the next
    TBF, copy and restore.
  \<^item> \<open>Tbf\<close>: the resource part of \<^verbatim>\<open>Tbf.h\<close>, \<^verbatim>\<open>ULTbf.h\<close>, \<^verbatim>\<open>DLTbf.h\<close>, and the control acknowledgement tags.
  \<^item> \<open>TSPool\<close>: \<^verbatim>\<open>TSPool.cpp\<close>, \<^verbatim>\<open>Timeslot.h\<close>, \<^verbatim>\<open>ScheduleInfo.h\<close>, \<^verbatim>\<open>DLSignallingMsgQueue.cpp\<close>.
  \<^item> \<open>DataBlockPool\<close>: the two pools of data blocks, free lists threaded through a store.
  \<^item> \<open>UlRlcWindow\<close>, \<open>UlRlcLink\<close>: \<^verbatim>\<open>ULRlcLink.cpp\<close>; the receive window alone, then the whole link.
  \<^item> \<open>UlDelivery\<close>: what the uplink link achieves and where it fails.
  \<^item> \<open>UplinkPath\<close>: the way of an uplink block through \<^verbatim>\<open>RlcMacL1Proc.cpp\<close>, \<^verbatim>\<open>RlcMacMsgProc.cpp\<close>, the
    pools and all the links.
  \<^item> \<open>DlRlcLink\<close>: \<^verbatim>\<open>DLRlcLink.cpp\<close>, every function.  \<open>DlSegment\<close>: its segmentation against a mobile that
    reads blocks as GSM 04.60 says.  \<open>DlWindow\<close>: its window counted by unbounded numbers.
    \<open>DlChannel\<close>: sender, mobile and a lossy channel as the step relation \<open>air\<close>.  \<open>DlDelivery\<close>: what this system
    achieves over the \<open>life\<close> of a TBF object, which is established, and after each completed transfer may be
    established again (\<open>dl_again\<close>).  \<open>DlFaults\<close>: where it fails.
  \<^item> \<open>MultislotTables\<close>, \<open>ScheduleAllocation\<close>: \<^verbatim>\<open>MultislotConfigurationGenerator.cpp\<close> (the tables, entry by entry) and
    \<^verbatim>\<open>ScheduleAllocationInfo.cpp\<close>.  \<open>MultislotOptions\<close>: the candidates as sets of slots, against the
    capabilities that GSM 05.02 gives the multislot classes.
  \<^item> \<open>MacScheduler\<close>: \<^verbatim>\<open>MacScheduler.cpp\<close>; requests, reallocation and release.  What the functions do under
    \<^verbatim>\<open>if (dir == DL)\<close> and \<^verbatim>\<open>if (dir == UL)\<close> is a record of operations; the locale \<open>branch_laws\<close> of \<open>SlotAllocation\<close>
    says what the rest relies on, and is interpreted on both directions.  \<open>SlotAllocation\<close>: safety of the
    requests and the slots they grant.  \<open>SlotFaults\<close>: where the choice of slots goes wrong.
    \<open>QueueUsers\<close>, \<open>SlotHolders\<close>: the entries of the schedule queues name only TBFs that hold the timeslot,
    and a failed reallocation restores the queues.  \<open>MacRuns\<close>: establishments, requests, reallocations,
    releases and block schedulings of both directions in any order, as the step function \<open>mac_exec\<close>; \<open>mac_allowed\<close>
    says what its clients keep to: a TBF object keeps one precedence class in the whole run (uplink TBFs are all of
    class 1; a downlink TBF takes the class of its PDUs), a request is for a TBF without slots, a reallocation for one
    on a transceiver, and where \<^verbatim>\<open>char\<close> is unsigned the multislot class is below 4.
  \<^item> \<open>DoublyLinked\<close>: doubly linked lists in a store.  \<open>UnitDataQueue\<close>: \<^verbatim>\<open>bssgp/src_api/bssgp_unitdata.cpp\<close>, the
    queues of downlink PDUs per TLLI and quality of service, their nodes and buffers with all their links.
    \<open>UnitDataLists\<close>: what they stand for, four lists of PDUs per TLLI.  \<open>UnitDataRefinement\<close>, \<open>UnitDataService\<close>: every
    operation refines that specification, and what this gives the RLC/MAC task.

  \<^item> \<open>SchedulerFrame\<close>, \<open>NaturalSlots\<close>, \<open>NaturalHeld\<close>, \<open>BestSlot\<close>: what the scheduler leaves alone (the locale
    \<open>frame_laws\<close>: a reading of a TBF that does not depend on its resources), which multislot classes always keep a slot
    for control messages, and that a request is granted exactly when some timeslot is open (\<open>slot_open\<close>).
  \<^item> \<open>TbfPool\<close>: the whole task (\<open>Task\<close>): both arrays of TBFs with their links, timers and pools, the timeslot pool, the PDUs
    that wait in BSSGP in the abstract form that \<open>UnitDataRefinement\<close> justifies; \<^verbatim>\<open>TbfPool.cpp\<close>, establishment and release in
    \<^verbatim>\<open>ULTbf.cpp\<close> and \<^verbatim>\<open>DLTbf.cpp\<close>, and of \<^verbatim>\<open>RlcMacL1Proc.cpp\<close> the control channel and the messages about TBFs for the
    DSPs.  \<open>MacAllocation\<close>: \<^verbatim>\<open>MacAllocation.cpp\<close> and \<^verbatim>\<open>RlcMacOamProc.cpp\<close>.
  \<^item> \<open>TaskState\<close>: the invariant \<open>task_ok\<close> of the task.  \<open>TaskUplink\<close>: requests of the mobiles keep it.  \<open>TaskSignalling\<close>: abnormal
    release and the control channel keep it.  \<open>TaskRuns\<close>, \<open>TaskDownlink\<close>: the properties of the task, and a queue check that
    does not end.

  \<^item> \<open>UplinkMessages\<close>: the messages of the mobiles on the control channel and their information elements, decoded as in
    \<^verbatim>\<open>MsgPacketResourceRequest.cpp\<close>, \<^verbatim>\<open>MsgPacketDownlinkAckNack.cpp\<close>, \<^verbatim>\<open>MsgPacketControlAcknowledgement.cpp\<close> and
    \<^verbatim>\<open>ieMSRadioAccessCapability.cpp\<close>.  \<open>RequestDecoding\<close>: a request as the mobile lays it out is read as it was sent.
    \<open>MessageDispatch\<close>: \<open>ProcessPhPacchInd\<close>, \<open>DecodeULRlcControlBlock\<close> and what follows for access bursts and negative
    acknowledgements: which TBF each message goes to.  The calls are values of \<open>handler_call\<close>; the handlers are in
    \<open>UlRlcLink\<close>, \<open>DlRlcLink\<close> and \<open>MacAllocation\<close>.

  \<^bold>\<open>State and results.\<close>  A class is a record with the members' names; a member function is a function
  from record to record, or on the state of the link with all it can reach (\<open>UlState\<close>, \<open>DlState\<close>).
  Arrays are lists.  Where the code would leave an array, follow a null pointer, read what was never
  written or divide by zero the result is \<open>None\<close>; the properties that say an operation returns
  \<open>Some\<close> exclude all of these at once.  Loops that are not bounded by their counter are
  \<open>partial_function (option)\<close>, so that an endless loop is \<open>None\<close> too; there is no fuel in the
  development.  Octets are 8-bit words and bit fields 32-bit words; sequence numbers, which only
  ever hold results of \<open>% RLC_MOD_VAL\<close> or of an assignment of one, are \<open>nat\<close> on the downlink and \<open>int\<close>
  on the uplink, where the code lets them leave that range.

  \<^bold>\<open>Surroundings.\<close>  What a link hands to the rest of the program is a list of output events: the
  messages for the mobile (\<open>SendPacchMsg\<close>), for BSSGP (UNITDATA, without the fields the link does not
  compute), for the DSPs (\<open>SendDownlinkDataBlock\<close>), for the TBF manager.  The timeslot a message is
  sent on is chosen by the scheduler and left out of the event.  The BSSGP queue of a TLLI is the list of
  its PDUs; the answers of the scheduler to a link are a list; whether a receive buffer is available is a
  flag of the state.  Timers are flags, and their expiries inputs.  The mobile of \<open>DlChannel\<close> accepts
  blocks and reports them as GSM 04.60 says; it reports only when it has received something after V(A),
  and \<open>DlDelivery.report_at_vA\<close> says what happens otherwise.  The call of \<open>AllocateDLResources\<close> that follows a complete report
  or a control acknowledgement is an output event; the re-establishment it may make is the rule \<open>again\<close> of \<open>life\<close>, which
  may follow at any later time.  Likewise the blocks that \<open>SendPacketUplinkAssignment\<close> sends at once for indications
  that are left over are an event of the task.

  In the theories of the task the links, the scheduler, the pools and the queues of PDUs are the modelled ones; its
  output events are the messages for layer 1, control messages with the state flag they carry among them.  \<open>task_ok\<close>
  supposes that the downlink PDUs are of one precedence class \<open>c\<close>; uplink TBFs always are of class 1.

  For the scheduler, the answers of radio resource management about the state of the cell are the record
  \<open>Grr\<close>; the bytes that the stack holds where the allocation object is created are the argument \<open>Raw\<close>, over
  which the properties quantify; whether the compiler's \<^verbatim>\<open>char\<close> is signed is the argument \<open>schar\<close>: where it is not, as on
  PowerPC targets, \<open>ComputeMultislotOptions\<close> leaves its array for every multislot class from 4 on, and the properties say
  so or are limited to the other classes.

  \<^bold>\<open>What the lemmas show.\<close>  Per component: an invariant that every operation keeps (\<open>sq_ok\<close>, \<open>pool_ok\<close>,
  \<open>pool_holds\<close>, \<open>stored\<close>, \<open>window\<close>), totality on it, and the outcome of each operation.  Across components:
  round trips of streams, headers and information elements; refinement of the receive window by a
  receiver with unbounded sequence numbers and of the pools by a queue; conservation of blocks along the
  uplink path and on the downlink; delivery in order over the lossy channel.  The properties of kind
  \<open>error\<close> and some of kind \<open>liveness\<close> prove defects of the code on the states that lead to them.

  \<^bold>\<open>Not modelled.\<close>  Logging and display functions, which only print.  The message queues, task set-up and
  hardware access of the VxWorks task.  Single block and one phase access on the CCCH.  The data channel of
  \<open>ProcessPhRTSInd\<close> beyond the downlink link itself.  The encoders of the downlink messages and their
  information elements, which are sequences of calls of the modelled streams.  The circuit-switched subsystems beside \<^verbatim>\<open>Rlc_mac\<close> (call
  control, mobility, radio resource, voice), the network, management and board support libraries and the
  DSP code: other programs or platform.  The floating-point utilisation of a
  timeslot, and with it the choice of the least used slot for a single block.
\<close>

end
